(* ===== verification/SG_Prelude.thy ===== *)
theory SG_Prelude
  imports Main "HOL-Library.Word" "HOL-Library.Multiset"
begin

text \<open>
  Shared vocabulary of the development. The server is written in Go; this theory fixes how the
  other theories read the Go constructs the components share:

  \<^item> a Go map read \<open>m[k]\<close> returns the value type's zero value for a missing key
    (\<open>mget\<close>);
  \<^item> a map whose values are slices that are only appended to and ranged over is a total function
    into lists, since a missing key reads as the empty slice;
  \<^item> a \<open>[8]byte\<close> auth key id is a 64-bit word (\<open>authkey\<close>), the zero array being \<open>0\<close>;
  \<^item> Go's \<open>int\<close> and \<open>int64\<close> counters and ids are \<open>int\<close>, except where the code
    itself depends on the width (random ids, admission sequences), where words are used;
  \<^item> fallible operations return \<open>error + result\<close>.
\<close>

type_synonym authkey = "64 word"
type_synonym userid = int
type_synonym sessionid = int
type_synonym bytes = "8 word list"

section \<open>Go maps\<close>

definition mget :: "'v \<Rightarrow> ('k \<rightharpoonup> 'v) \<Rightarrow> 'k \<Rightarrow> 'v" where
  "mget z m k = (case m k of None \<Rightarrow> z | Some v \<Rightarrow> v)"

lemma mget_None [simp]: "m k = None \<Longrightarrow> mget z m k = z"
  by (simp add: mget_def)

lemma mget_Some [simp]: "m k = Some v \<Longrightarrow> mget z m k = v"
  by (simp add: mget_def)

lemma mget_upd [simp]: "mget z (m(k \<mapsto> v)) k' = (if k' = k then v else mget z m k')"
  by (simp add: mget_def)

lemma mget_del [simp]: "mget z (m(k := None)) k' = (if k' = k then z else mget z m k')"
  by (simp add: mget_def)

section \<open>Lists\<close>

lemma sorted_map_filter_gt:
  assumes "sorted (map f xs)"
  shows "filter (\<lambda>x. c < f x) xs = dropWhile (\<lambda>x. f x \<le> c) xs"
  using assms
proof (induction xs)
  case Nil
  show ?case by simp
next
  case (Cons x xs)
  show ?case
  proof (cases "c < f x")
    case True
    with Cons.prems have "\<forall>y \<in> set xs. c < f y" by auto
    then have "filter (\<lambda>x. c < f x) xs = xs" by (simp add: filter_id_conv)
    with True show ?thesis by simp
  next
    case False
    with Cons show ?thesis by simp
  qed
qed

text \<open>
  Go's \<open>sort.Slice\<close> is not stable: it returns some permutation sorted by the key. Where the
  keys are distinct that permutation is unique, so the library's stable sort models it exactly.
\<close>

lemma sort_slice_unique:
  fixes f :: "'a \<Rightarrow> 'b::linorder"
  assumes "mset ys = mset xs" and "sorted (map f ys)" and "distinct (map f xs)"
  shows "ys = sort_key f xs"
proof -
  have "inj_on f (set xs)" using assms(3) by (simp add: distinct_map)
  then have "sort_key f xs = ys"
    using assms(1,2) by (intro sort_key_inj_key_eq) simp_all
  then show ?thesis by simp
qed

section \<open>Counting\<close>

text \<open>
  \<open>count_if P xs\<close> is how many elements of a heap satisfy \<open>P\<close>; updating one cell moves the
  count by at most one.
\<close>

definition count_if :: "('a \<Rightarrow> bool) \<Rightarrow> 'a list \<Rightarrow> int" where
  "count_if P xs = int (length (filter P xs))"

lemma count_if_Nil [simp]: "count_if P [] = 0"
  by (simp add: count_if_def)

lemma count_if_Cons [simp]: "count_if P (x # xs) = (if P x then 1 else 0) + count_if P xs"
  by (simp add: count_if_def)

lemma count_if_append [simp]: "count_if P (xs @ ys) = count_if P xs + count_if P ys"
  by (simp add: count_if_def)

lemma count_if_nonneg [simp]: "0 \<le> count_if P xs"
  by (simp add: count_if_def)

lemma count_if_update:
  "i < length xs \<Longrightarrow> count_if P (xs[i := y]) =
     count_if P xs - (if P (xs ! i) then 1 else 0) + (if P y then 1 else 0)"
  by (induction xs arbitrary: i) (auto simp: nth_Cons' list_update.simps split: nat.splits)

lemma count_if_pos: "i < length xs \<Longrightarrow> P (xs ! i) \<Longrightarrow> 1 \<le> count_if P xs"
  using length_pos_if_in_set[of "xs ! i" "filter P xs"] by (auto simp: count_if_def Suc_le_eq)

lemma count_if_mono: "(\<And>x. x \<in> set xs \<Longrightarrow> P x \<Longrightarrow> Q x) \<Longrightarrow> count_if P xs \<le> count_if Q xs"
  by (induction xs) auto

lemma count_if_card: "count_if P xs = int (card {i. i < length xs \<and> P (xs ! i)})"
  by (simp add: count_if_def length_filter_conv_card)

lemma sum_mset_nonneg_int: "(\<And>x. x \<in># M \<Longrightarrow> 0 < x) \<Longrightarrow> 0 \<le> sum_mset (M :: int multiset)"
  by (induction M) (auto simp: add_nonneg_nonneg order_less_imp_le)

lemma sum_update_restrict:
  fixes c :: "'a \<Rightarrow> int"
  assumes "finite K" and "k \<in> K"
  shows "sum (c(k := v)) {x \<in> K. P x} = sum c {x \<in> K. P x} + (if P k then v - c k else 0)"
proof (cases "P k")
  case True
  then have "sum f {x \<in> K. P x} = f k + sum f ({x \<in> K. P x} - {k})" for f :: "'a \<Rightarrow> int"
    using assms by (simp add: sum.remove)
  from this[of c] this[of "c(k := v)"] show ?thesis using True by simp
next
  case False
  then show ?thesis by (auto intro: sum.cong)
qed

section \<open>Words\<close>

lemma word_less_succ:
  fixes n :: "64 word"
  assumes "n \<noteq> - 1"
  shows "n < n + 1"
proof -
  have "1 + n \<noteq> 0" using assms max_word_wrap[of n] by (auto simp: add.commute)
  then have "unat (n + 1) = Suc (unat n)" using unatSuc[of n] by (simp add: add.commute)
  then show ?thesis by (simp add: word_less_nat_alt)
qed

section \<open>64-bit signed integers\<close>

text \<open>
  \<open>i64\<close> is the value a Go \<open>int64\<close> (or \<open>int\<close> on a 64-bit platform) holds after an operation whose
  exact result is its argument: two's complement, no overflow trap.
\<close>

definition i64 :: "int \<Rightarrow> int" where
  "i64 x = signed_take_bit 63 x"

definition is_i64 :: "int \<Rightarrow> bool" where
  "is_i64 x \<longleftrightarrow> - (2 ^ 63) \<le> x \<and> x < 2 ^ 63"

lemma i64_exact [simp]: "is_i64 x \<Longrightarrow> i64 x = x"
  by (simp add: i64_def is_i64_def signed_take_bit_int_eq_self_iff)

lemma is_i64_i64 [simp]: "is_i64 (i64 x)"
  using signed_take_bit_int_greater_eq_minus_exp[of 63 x] signed_take_bit_int_less_exp[of 63 x]
  by (simp add: i64_def is_i64_def)

lemma i64_mod: "i64 x mod 2 ^ 64 = x mod 2 ^ 64"
  using take_bit_signed_take_bit[of 64 63 x] by (simp add: i64_def take_bit_eq_mod)

lemma i64_eqI: "x mod 2 ^ 64 = y mod 2 ^ 64 \<Longrightarrow> i64 x = i64 y"
  by (simp add: i64_def signed_take_bit_eq_iff_take_bit_eq take_bit_eq_mod)

lemma i64_add_left [simp]: "i64 (i64 x + y) = i64 (x + y)"
  by (rule i64_eqI) (metis i64_mod mod_add_left_eq)

lemma i64_neg: "0 < x \<Longrightarrow> is_i64 x \<Longrightarrow> i64 (- x) = - x"
  by (rule i64_exact) (auto simp: is_i64_def)

end
