(* ===== verification/Go_Text.thy ===== *)
theory Go_Text
  imports SG_Prelude
begin

text \<open>
  What the message code uses of Go's text packages. A Go string is a sequence of bytes, here a
  \<open>string\<close>; \<open>[]rune(s)\<close> decodes it as UTF-8 and reads an invalid byte as U+FFFD of width one
  (\<open>unicode/utf8\<close>), \<open>utf16.Encode\<close> turns code points into 16-bit units, \<open>strings.TrimSpace\<close>
  drops the white space of Unicode at both ends, and \<open>strconv.FormatInt\<close> prints in base ten.
  \<open>fnv1a\<close> is the 64-bit FNV-1a hash of \<open>hash/fnv\<close>.

  Lemmas: a decoded string has at most as many code points as bytes, plain ASCII decodes to itself,
  is valid and has one 16-bit unit per byte.
\<close>

section \<open>UTF-8 and UTF-16\<close>

definition char_nat :: "char \<Rightarrow> nat" where
  "char_nat c = of_char c"

definition utf8_cont :: "nat \<Rightarrow> bool" where
  "utf8_cont b \<longleftrightarrow> 0x80 \<le> b \<and> b \<le> 0xBF"

text \<open>The rune that starts with \<open>b0\<close> and the number of further bytes it takes.\<close>

definition utf8_step :: "nat \<Rightarrow> nat list \<Rightarrow> (nat \<times> nat) option" where
  "utf8_step b0 bs =
    (if b0 < 0x80 then Some (b0, 0)
     else if b0 < 0xC2 then None
     else if b0 \<le> 0xDF then
       (case bs of
          b1 # _ \<Rightarrow> if utf8_cont b1 then Some ((b0 - 0xC0) * 64 + (b1 - 0x80), 1) else None
        | [] \<Rightarrow> None)
     else if b0 \<le> 0xEF then
       (case bs of
          b1 # b2 # _ \<Rightarrow>
            if (if b0 = 0xE0 then 0xA0 else 0x80) \<le> b1 \<and> b1 \<le> (if b0 = 0xED then 0x9F else 0xBF) \<and> utf8_cont b2
            then Some ((b0 - 0xE0) * 4096 + (b1 - 0x80) * 64 + (b2 - 0x80), 2) else None
        | _ \<Rightarrow> None)
     else if b0 \<le> 0xF4 then
       (case bs of
          b1 # b2 # b3 # _ \<Rightarrow>
            if (if b0 = 0xF0 then 0x90 else 0x80) \<le> b1 \<and> b1 \<le> (if b0 = 0xF4 then 0x8F else 0xBF) \<and>
               utf8_cont b2 \<and> utf8_cont b3
            then Some ((b0 - 0xF0) * 262144 + (b1 - 0x80) * 4096 + (b2 - 0x80) * 64 + (b3 - 0x80), 3)
            else None
        | _ \<Rightarrow> None)
     else None)"

text \<open>The runes of a string with the bytes each came from; \<open>None\<close> marks an invalid byte.\<close>

function utf8_chunks :: "string \<Rightarrow> (nat option \<times> string) list" where
  "utf8_chunks [] = []"
| "utf8_chunks (c # cs) =
     (case utf8_step (char_nat c) (map char_nat cs) of
        None \<Rightarrow> (None, [c]) # utf8_chunks cs
      | Some (r, k) \<Rightarrow> (Some r, c # take k cs) # utf8_chunks (drop k cs))"
  by pat_completeness auto
termination
  by (relation "measure length") (auto simp: less_Suc_eq_le)

definition utf8_runes :: "string \<Rightarrow> nat list" where
  "utf8_runes s = map (\<lambda>(r, _). case r of None \<Rightarrow> 0xFFFD | Some r \<Rightarrow> r) (utf8_chunks s)"

definition utf8_ValidString :: "string \<Rightarrow> bool" where
  "utf8_ValidString s \<longleftrightarrow> list_all (\<lambda>(r, _). r \<noteq> None) (utf8_chunks s)"

definition utf8_RuneCount :: "string \<Rightarrow> int" where
  "utf8_RuneCount s = int (length (utf8_chunks s))"

definition utf16_Encode :: "nat list \<Rightarrow> nat list" where
  "utf16_Encode rs = concat (map (\<lambda>r. if r < 0x10000 then [r]
     else [0xD800 + (r - 0x10000) div 1024, 0xDC00 + (r - 0x10000) mod 1024]) rs)"

section \<open>White space and decimal numbers\<close>

definition unicode_space :: "nat option \<Rightarrow> bool" where
  "unicode_space r \<longleftrightarrow>
    (case r of None \<Rightarrow> False
     | Some r \<Rightarrow> (9 \<le> r \<and> r \<le> 13) \<or> (0x2000 \<le> r \<and> r \<le> 0x200A) \<or>
         r \<in> {0x20, 0x85, 0xA0, 0x1680, 0x2028, 0x2029, 0x202F, 0x205F, 0x3000})"

definition strings_TrimSpace :: "string \<Rightarrow> string" where
  "strings_TrimSpace s =
     concat (map snd (rev (dropWhile (unicode_space \<circ> fst) (rev (dropWhile (unicode_space \<circ> fst) (utf8_chunks s))))))"

fun dec_digits :: "nat \<Rightarrow> string" where
  "dec_digits n = (if n < 10 then [char_of (n + 48)] else dec_digits (n div 10) @ [char_of (n mod 10 + 48)])"

declare dec_digits.simps [simp del]

fun str_prefix :: "string \<Rightarrow> string \<Rightarrow> bool" where
  "str_prefix [] _ = True"
| "str_prefix (c # cs) [] = False"
| "str_prefix (c # cs) (d # ds) = (c = d \<and> str_prefix cs ds)"

fun strings_Contains :: "string \<Rightarrow> string \<Rightarrow> bool" where
  "strings_Contains [] sub = (sub = [])"
| "strings_Contains (c # cs) sub = (str_prefix sub (c # cs) \<or> strings_Contains cs sub)"

section \<open>FNV-1a\<close>

definition fnv1a_byte :: "64 word \<Rightarrow> 8 word \<Rightarrow> 64 word" where
  "fnv1a_byte h b = xor h (ucast b) * 1099511628211"

definition fnv1a :: "64 word \<Rightarrow> bytes \<Rightarrow> 64 word" where
  "fnv1a h bs = fold (\<lambda>b h. fnv1a_byte h b) bs h"

definition fnv1a_offset :: "64 word" where
  "fnv1a_offset = 14695981039346656037"

definition le_bytes :: "int \<Rightarrow> bytes" where
  "le_bytes v = map (\<lambda>i. ucast (drop_bit (8 * i) (word_of_int v :: 64 word))) [0..<8]"

definition le_bytes32 :: "int \<Rightarrow> bytes" where
  "le_bytes32 v = take 4 (le_bytes v)"

definition str_bytes :: "string \<Rightarrow> bytes" where
  "str_bytes s = map (\<lambda>c. word_of_nat (char_nat c)) s"

section \<open>Lemmas\<close>

lemma utf8_chunks_concat: "concat (map snd (utf8_chunks s)) = s"
  by (induction s rule: utf8_chunks.induct) (auto split: option.splits)

lemma utf8_chunks_nonempty: "x \<in> set (utf8_chunks s) \<Longrightarrow> snd x \<noteq> []"
  by (induction s rule: utf8_chunks.induct) (auto split: option.splits)

lemma utf8_RuneCount_le: "utf8_RuneCount s \<le> int (length s)"
proof -
  have "length (utf8_chunks s) \<le> length s"
    by (induction s rule: utf8_chunks.induct) (force split: option.splits)+
  then show ?thesis by (simp add: utf8_RuneCount_def)
qed

lemma utf8_chunks_ascii:
  "list_all (\<lambda>c. char_nat c < 0x80) s \<Longrightarrow> utf8_chunks s = map (\<lambda>c. (Some (char_nat c), [c])) s"
  by (induction s) (simp_all add: utf8_step_def)

lemma utf16_ascii:
  assumes "list_all (\<lambda>c. char_nat c < 0x80) s"
  shows "utf8_ValidString s" and "utf16_Encode (utf8_runes s) = map char_nat s"
proof -
  show "utf8_ValidString s"
    by (simp add: utf8_ValidString_def utf8_chunks_ascii[OF assms] list_all_iff)
  have "utf8_runes s = map char_nat s"
    by (simp add: utf8_runes_def utf8_chunks_ascii[OF assms])
  moreover have "utf16_Encode (map char_nat s) = map char_nat s"
    using assms by (induction s) (simp_all add: utf16_Encode_def)
  ultimately show "utf16_Encode (utf8_runes s) = map char_nat s" by simp
qed

lemma str_prefix_append: "str_prefix xs ys \<longleftrightarrow> (\<exists>zs. ys = xs @ zs)"
  by (induction xs ys rule: str_prefix.induct) auto

lemma strings_Contains_iff: "strings_Contains s sub \<longleftrightarrow> (\<exists>xs zs. s = xs @ sub @ zs)"
proof (induction s)
  case Nil
  then show ?case by auto
next
  case (Cons c cs)
  have "(\<exists>xs zs. c # cs = xs @ sub @ zs) \<longleftrightarrow> (\<exists>zs. c # cs = sub @ zs) \<or> (\<exists>xs zs. cs = xs @ sub @ zs)"
    by (auto simp: Cons_eq_append_conv)
  then show ?case using Cons by (simp add: str_prefix_append)
qed

end
