(* ===== verification/Message_Domain.thy ===== *)
theory Message_Domain
  imports Go_Text
begin

text \<open>
  The domain values of messages (\<open>internal/domain/message.go\<close>, \<open>message_reply_external.go\<close>,
  \<open>media.go\<close>, \<open>webpage.go\<close>, \<open>dialog.go\<close>, \<open>saved_dialog.go\<close>, \<open>channel.go\<close>): peers, entities,
  forwards, media, replies, reactions, the account-local message and the dialog, with the predicates
  and validations on them that the stores call.

  A nil pointer or an absent value is \<open>None\<close>. Nested snapshots that this layer stores and copies
  without looking inside (photos, calls, gifts, keyboards) have the type variable \<open>'v\<close>; the fields of
  a struct that hold nothing else are one field \<open>..._rest\<close>. Go copies such values defensively (the
  \<open>clone...\<close> helpers); with immutable HOL values a copy is the value itself. JSON encoding is a
  parameter, the record \<open>json_codec\<close>.

  Lemmas: what the validation of a reply and of a quote guarantee.
\<close>

section \<open>Peers\<close>

datatype peer_type = PeerTypeUser | PeerTypeChannel | PeerTypeCommunity | PeerTypeFolder | PeerTypeNone

record peer =
  peer_Type :: peer_type
  peer_ID :: int

definition zero_peer :: peer where
  "zero_peer = \<lparr>peer_Type = PeerTypeNone, peer_ID = 0\<rparr>"

definition user_peer :: "int \<Rightarrow> peer" where
  "user_peer i = \<lparr>peer_Type = PeerTypeUser, peer_ID = i\<rparr>"

definition channel_peer :: "int \<Rightarrow> peer" where
  "channel_peer i = \<lparr>peer_Type = PeerTypeChannel, peer_ID = i\<rparr>"

lemma user_peer_simps [simp]:
  "peer_Type (user_peer i) = PeerTypeUser" "peer_ID (user_peer i) = i"
  "user_peer i = user_peer j \<longleftrightarrow> i = j" "user_peer i \<noteq> zero_peer"
  by (simp_all add: user_peer_def zero_peer_def)

section \<open>Message parts\<close>

record message_entity =
  me_Type :: string
  me_Offset :: int
  me_Length :: int
  me_URL :: string
  me_UserID :: int
  me_Language :: string
  me_DocumentID :: int
  me_Collapsed :: bool
  me_Date :: int
  me_Relative :: bool
  me_ShortTime :: bool
  me_LongTime :: bool
  me_ShortDate :: bool
  me_LongDate :: bool
  me_DayOfWeek :: bool
  me_OldText :: string

record message_forward =
  fw_From :: peer
  fw_FromName :: string
  fw_Date :: int
  fw_ChannelPost :: int
  fw_SavedFrom :: peer
  fw_SavedFromMsgID :: int

datatype media_kind =
    MessageMediaKindNone | MessageMediaKindPhoto | MessageMediaKindDocument | MessageMediaKindContact
  | MessageMediaKindService | MessageMediaKindGeo | MessageMediaKindVenue | MessageMediaKindDice
  | MessageMediaKindPoll | MessageMediaKindGeoLive | MessageMediaKindTodo | MessageMediaKindStory
  | MessageMediaKindWebPage | MessageMediaKindGiveaway | MessageMediaKindInvoice

datatype service_kind =
    MessageServiceActionSuggestProfilePhoto | MessageServiceActionHistoryClear
  | MessageServiceActionPinMessage | MessageServiceActionPhoneCall
  | MessageServiceActionConferenceCall | MessageServiceActionBotAllowed
  | MessageServiceActionWebViewDataSent | MessageServiceActionRequestedPeer
  | MessageServiceActionSetChatTheme | MessageServiceActionNoForwardsToggle
  | MessageServiceActionNoForwardsRequest | MessageServiceActionStarGift
  | MessageServiceActionGiftStars | MessageServiceActionStarGiftUnique
  | MessageServiceActionStarGiftOffer | MessageServiceActionStarGiftOfferDeclined
  | MessageServiceActionGiftPremium

record no_forwards_action =
  nfa_PrevValue :: bool
  nfa_NewValue :: bool
  nfa_Expired :: bool
  nfa_ExpiresAt :: int

record 'v service_action =
  sa_Kind :: service_kind
  sa_NoForwards :: "no_forwards_action option"
  sa_rest :: "'v option"

datatype web_page_state = MessageWebPageStatePending | MessageWebPageStateOther string

record 'v web_page =
  wp_State :: web_page_state
  wp_ID :: int
  wp_rest :: "'v option"

record 'v doc_attribute =
  da_Kind :: string
  da_Voice :: bool
  da_rest :: "'v option"

record 'v document =
  doc_Attributes :: "'v doc_attribute list"
  doc_rest :: "'v option"

record 'v message_media =
  md_Kind :: media_kind
  md_Document :: "'v document option"
  md_ServiceAction :: "'v service_action option"
  md_Todo :: "'v option"
  md_WebPage :: "'v web_page option"
  md_Spoiler :: bool
  md_TTLSeconds :: int
  md_Nopremium :: bool
  md_Voice :: bool
  md_Round :: bool
  md_Video :: bool
  md_InvertMedia :: bool
  md_rest :: "'v option"

record 'v rich_message =
  rm_Rtl :: bool
  rm_Part :: bool
  rm_BlocksLayer :: int
  rm_Blocks :: bytes
  rm_Photos :: "'v list"
  rm_Documents :: "'v list"
  rm_BotAPIProjection :: bytes

record 'v reply_external =
  rx_From :: message_forward
  rx_Text :: string
  rx_Entities :: "message_entity list"
  rx_Media :: "'v message_media option"

record 'v message_reply =
  rp_MessageID :: int
  rp_Peer :: peer
  rp_TopMessageID :: int
  rp_ForumTopic :: bool
  rp_QuoteText :: string
  rp_QuoteEntities :: "message_entity list"
  rp_QuoteOffset :: int
  rp_External :: "'v reply_external option"
  rp_StoryID :: int

section \<open>Reactions\<close>

record message_reaction =
  re_Type :: string
  re_Emoticon :: string
  re_DocumentID :: int

record reaction_count =
  rc_Reaction :: message_reaction
  rc_Count :: int
  rc_ChosenOrder :: int

record peer_reaction =
  pr_ChannelID :: int
  pr_MessageID :: int
  pr_SenderUserID :: int
  pr_UserID :: int
  pr_Reaction :: message_reaction
  pr_Big :: bool
  pr_Unread :: bool
  pr_My :: bool
  pr_ChosenOrder :: int
  pr_Date :: int

record 'v message_reactions =
  mr_CanSeeList :: bool
  mr_AsTags :: bool
  mr_Results :: "reaction_count list"
  mr_Recent :: "peer_reaction list"
  mr_Paid :: "'v option"

definition Reaction_Value :: "message_reaction \<Rightarrow> string" where
  "Reaction_Value r =
    (if re_Type r = ''emoji'' then strings_TrimSpace (re_Emoticon r)
     else if re_Type r = ''custom_emoji'' then
       (if re_DocumentID r \<le> 0 then [] else dec_digits (nat (re_DocumentID r)))
     else [])"

definition Reaction_Key :: "message_reaction \<Rightarrow> string" where
  "Reaction_Key r = re_Type r @ [CHR 0x00] @ Reaction_Value r"

section \<open>The account-local message\<close>

record 'v message =
  msg_ID :: int
  msg_UID :: int
  msg_RandomID :: int
  msg_OwnerUserID :: int
  msg_Peer :: peer
  msg_From :: peer
  msg_Date :: int
  msg_EditDate :: int
  msg_HideEdited :: bool
  msg_Out :: bool
  msg_Silent :: bool
  msg_NoForwards :: bool
  msg_Body :: string
  msg_Entities :: "message_entity list"
  msg_ReplyTo :: "'v message_reply option"
  msg_Forward :: "message_forward option"
  msg_Reactions :: "'v message_reactions option"
  msg_Pts :: int
  msg_TTLPeriod :: int
  msg_ExpiresAt :: int
  msg_Media :: "'v message_media option"
  msg_MediaUnread :: bool
  msg_ReactionUnread :: bool
  msg_ViaBotID :: int
  msg_GroupedID :: int
  msg_Effect :: int
  msg_ReplyMarkup :: "'v option"
  msg_RichMessage :: "'v rich_message option"
  msg_Pinned :: bool
  msg_Deleted :: bool
  msg_SavedPeer :: peer

definition zero_message :: "'v message" where
  "zero_message = \<lparr>msg_ID = 0, msg_UID = 0, msg_RandomID = 0, msg_OwnerUserID = 0,
     msg_Peer = zero_peer, msg_From = zero_peer, msg_Date = 0, msg_EditDate = 0,
     msg_HideEdited = False, msg_Out = False, msg_Silent = False, msg_NoForwards = False,
     msg_Body = [], msg_Entities = [], msg_ReplyTo = None, msg_Forward = None,
     msg_Reactions = None, msg_Pts = 0, msg_TTLPeriod = 0, msg_ExpiresAt = 0, msg_Media = None,
     msg_MediaUnread = False, msg_ReactionUnread = False, msg_ViaBotID = 0, msg_GroupedID = 0,
     msg_Effect = 0, msg_ReplyMarkup = None, msg_RichMessage = None, msg_Pinned = False,
     msg_Deleted = False, msg_SavedPeer = zero_peer\<rparr>"

lemma zero_message_ID [simp]: "msg_ID zero_message = 0"
  by (simp add: zero_message_def)

definition Media_IsZero :: "'v message_media option \<Rightarrow> bool" where
  "Media_IsZero m \<longleftrightarrow> (case m of None \<Rightarrow> True | Some m \<Rightarrow> md_Kind m = MessageMediaKindNone)"

definition HasUnreadPayload :: "'v message_media option \<Rightarrow> bool" where
  "HasUnreadPayload m \<longleftrightarrow>
    (case m of
       None \<Rightarrow> False
     | Some d \<Rightarrow> if Media_IsZero m \<or> md_Kind d \<noteq> MessageMediaKindDocument then False
               else md_Voice d \<or> md_Round d)"

definition Document_IsMusic :: "'v document \<Rightarrow> bool" where
  "Document_IsMusic d \<longleftrightarrow> list_ex (\<lambda>a. da_Kind a = ''audio'' \<and> \<not> da_Voice a) (doc_Attributes d)"

definition Media_IsMusic :: "'v message_media option \<Rightarrow> bool" where
  "Media_IsMusic m \<longleftrightarrow>
    (case m of
       None \<Rightarrow> False
     | Some d \<Rightarrow> md_Kind d = MessageMediaKindDocument \<and> \<not> md_Voice d \<and>
         (case md_Document d of None \<Rightarrow> False | Some doc \<Rightarrow> Document_IsMusic doc))"

definition Rich_IsZero :: "'v rich_message option \<Rightarrow> bool" where
  "Rich_IsZero m \<longleftrightarrow>
    (case m of None \<Rightarrow> True | Some r \<Rightarrow> rm_Blocks r = [] \<and> rm_Photos r = [] \<and> rm_Documents r = [])"

definition IsPendingWebPageMedia :: "'v message_media option \<Rightarrow> int \<Rightarrow> bool" where
  "IsPendingWebPageMedia m i \<longleftrightarrow>
    (case m of
       None \<Rightarrow> False
     | Some d \<Rightarrow> md_Kind d = MessageMediaKindWebPage \<and>
         (case md_WebPage d of
            None \<Rightarrow> False
          | Some w \<Rightarrow> wp_State w = MessageWebPageStatePending \<and> wp_ID w = i))"

definition service_media :: "service_kind \<Rightarrow> no_forwards_action option \<Rightarrow> 'v message_media" where
  "service_media kind action =
    \<lparr>md_Kind = MessageMediaKindService, md_Document = None,
     md_ServiceAction = Some \<lparr>sa_Kind = kind, sa_NoForwards = action, sa_rest = None\<rparr>,
     md_Todo = None, md_WebPage = None, md_Spoiler = False, md_TTLSeconds = 0, md_Nopremium = False,
     md_Voice = False, md_Round = False, md_Video = False, md_InvertMedia = False, md_rest = None\<rparr>"

definition NewHistoryClearMessage :: "int \<Rightarrow> peer \<Rightarrow> int \<Rightarrow> int \<Rightarrow> int \<Rightarrow> int \<Rightarrow> 'v message" where
  "NewHistoryClearMessage ownerUserID peer boxID uid date pts =
    zero_message\<lparr>msg_ID := boxID, msg_UID := uid, msg_OwnerUserID := ownerUserID, msg_Peer := peer,
      msg_From := user_peer ownerUserID, msg_Date := date, msg_Out := True, msg_Pts := pts,
      msg_Media := Some (service_media MessageServiceActionHistoryClear None)\<rparr>"

definition IsHistoryClearServiceMessage :: "'v message \<Rightarrow> bool" where
  "IsHistoryClearServiceMessage m \<longleftrightarrow>
    (case msg_Media m of
       None \<Rightarrow> False
     | Some d \<Rightarrow> md_Kind d = MessageMediaKindService \<and>
         (case md_ServiceAction d of
            None \<Rightarrow> False | Some a \<Rightarrow> sa_Kind a = MessageServiceActionHistoryClear))"

definition SavedHiddenAuthorUserID :: int where
  "SavedHiddenAuthorUserID = 2666000"

definition SavedPeerForSelfChat :: "int \<Rightarrow> message_forward option \<Rightarrow> peer" where
  "SavedPeerForSelfChat selfUserID forward =
    (case forward of
       None \<Rightarrow> user_peer selfUserID
     | Some f \<Rightarrow>
         if peer_ID (fw_SavedFrom f) \<noteq> 0 then fw_SavedFrom f
         else if peer_ID (fw_From f) = 0 \<and> fw_FromName f \<noteq> [] then user_peer SavedHiddenAuthorUserID
         else user_peer selfUserID)"

section \<open>Limits and errors\<close>

definition MaxMessageBoxID :: int where "MaxMessageBoxID = 2 ^ 31 - 1"
definition MaxStoryID :: int where "MaxStoryID = MaxMessageBoxID"
definition MaxMessageTextLength :: int where "MaxMessageTextLength = 4096"
definition MaxMessageReplyQuoteLength :: int where "MaxMessageReplyQuoteLength = 1024"
definition MaxMessageReplyQuoteOffset :: int where "MaxMessageReplyQuoteOffset = 2 * MaxMessageTextLength"
definition MaxMessageEntityCount :: int where "MaxMessageEntityCount = 256"
definition MaxDeleteMessageIDs :: int where "MaxDeleteMessageIDs = 1000"
definition MaxDeleteHistoryBatch :: int where "MaxDeleteHistoryBatch = 1000"
definition MaxForwardMessageIDs :: int where "MaxForwardMessageIDs = 100"
definition MaxMessageHistoryAddOffset :: int where "MaxMessageHistoryAddOffset = 100"
definition MaxUnpinAllBatch :: int where "MaxUnpinAllBatch = 1000"
definition MaxMessageReplyExternalBytes :: int where "MaxMessageReplyExternalBytes = 2 ^ 20"
definition PrivateNoForwardsRequestExpirePeriod :: int where
  "PrivateNoForwardsRequestExpirePeriod = 24 * 60 * 60"

datatype msg_error =
    ErrMessageEmpty | ErrMessageRandomIDDuplicate | ErrMessageIDInvalid | ErrMessageNotReadYet
  | ErrMessageAuthorRequired | ErrMessageNotModified | ErrReplyMessageIDInvalid | ErrQuoteTextInvalid
  | ErrChatForwardsRestricted | ErrNoForwardsRequestExpired | ErrDeliveryOutboxRequired
  | ErrSendFingerprint int | ErrMarshal | ErrUnmarshal | ErrSendSnapshot | ErrExternalReply
  | ErrReplayScope | ErrReplayAbsent int | ErrTooManyIDs int | ErrPinRandom | ErrDeletePanic

definition ClampMessageHistoryAddOffset :: "int \<Rightarrow> int" where
  "ClampMessageHistoryAddOffset v =
    (if v > MaxMessageHistoryAddOffset then MaxMessageHistoryAddOffset
     else if v < - MaxMessageHistoryAddOffset then - MaxMessageHistoryAddOffset
     else v)"

section \<open>Validation of replies\<close>

definition ValidateMessageReplyBounds :: "'v message_reply \<Rightarrow> msg_error option" where
  "ValidateMessageReplyBounds r =
    (if rp_MessageID r < 0 \<or> rp_MessageID r > MaxMessageBoxID then Some ErrReplyMessageIDInvalid
     else if rp_TopMessageID r < 0 \<or> rp_TopMessageID r > MaxMessageBoxID then Some ErrReplyMessageIDInvalid
     else if rp_StoryID r < 0 \<or> rp_StoryID r > MaxStoryID then Some ErrReplyMessageIDInvalid
     else if rp_MessageID r = 0 \<and> rp_TopMessageID r = 0 \<and> rp_StoryID r = 0 \<and> rp_External r = None
     then Some ErrReplyMessageIDInvalid
     else if rp_QuoteOffset r < 0 \<or> rp_QuoteOffset r > MaxMessageReplyQuoteOffset
     then Some ErrReplyMessageIDInvalid
     else None)"

definition ValidateExternalReplyQuote :: "'v message_reply \<Rightarrow> string \<Rightarrow> msg_error option" where
  "ValidateExternalReplyQuote r text =
    (if int (length (rp_QuoteText r)) > MaxMessageReplyQuoteLength \<or> \<not> utf8_ValidString (rp_QuoteText r) \<or>
        int (length (rp_QuoteEntities r)) > MaxMessageEntityCount then Some ErrQuoteTextInvalid
     else if rp_QuoteText r = [] then
       (if rp_QuoteOffset r \<noteq> 0 \<or> rp_QuoteEntities r \<noteq> [] then Some ErrQuoteTextInvalid else None)
     else let source = utf16_Encode (utf8_runes text);
              quote = utf16_Encode (utf8_runes (rp_QuoteText r));
              start = rp_QuoteOffset r
          in if start < 0 \<or> start > int (length source) \<or> int (length quote) > int (length source) - start
             then Some ErrQuoteTextInvalid
             else if take (length quote) (drop (nat start) source) \<noteq> quote then Some ErrQuoteTextInvalid
             else if list_ex (\<lambda>e. me_Offset e < 0 \<or> me_Length e \<le> 0 \<or> me_Offset e > int (length quote) \<or>
                               me_Length e > int (length quote) - me_Offset e) (rp_QuoteEntities r)
             then Some ErrQuoteTextInvalid
             else None)"

text \<open>
  \<open>encoding/json\<close> and \<open>crypto/sha256\<close> as the message code calls them. \<open>None\<close> is an error of
  the encoder or decoder. The decoder of external replies is the strict one of \<open>UnmarshalJSON\<close>
  (no unknown fields, nothing after the value) before its own checks.
\<close>

record 'v send_payload =
  sp_Version :: int
  sp_RecipientUserID :: int
  sp_Message :: string
  sp_Entities :: "message_entity list"
  sp_Media :: "'v message_media option"
  sp_Silent :: bool
  sp_NoForwards :: bool
  sp_ReplyTo :: "'v message_reply option"
  sp_Forward :: "message_forward option"
  sp_TTLPeriod :: int
  sp_ViaBotID :: int
  sp_GroupedID :: int
  sp_Effect :: int
  sp_ReplyMarkup :: "'v option"
  sp_RichMessage :: "'v rich_message option"

record 'v json_codec =
  js_payload :: "'v send_payload \<Rightarrow> string option"
  js_sha256 :: "string \<Rightarrow> bytes"
  js_envelope :: "int \<Rightarrow> 'v message \<Rightarrow> string option"
  js_read_envelope :: "string \<Rightarrow> (int \<times> 'v message) option"
  js_external :: "'v reply_external \<Rightarrow> string option"
  js_read_external :: "string \<Rightarrow> 'v reply_external option"

definition external_valid :: "'v reply_external \<Rightarrow> bool" where
  "external_valid v \<longleftrightarrow>
    \<not> (fw_Date (rx_From v) \<le> 0 \<or> peer_ID (fw_From (rx_From v)) \<le> 0 \<or>
       (peer_Type (fw_From (rx_From v)) \<noteq> PeerTypeUser \<and> peer_Type (fw_From (rx_From v)) \<noteq> PeerTypeChannel) \<or>
       peer_ID (fw_SavedFrom (rx_From v)) \<noteq> 0 \<or> fw_SavedFromMsgID (rx_From v) \<noteq> 0 \<or>
       int (length (rx_Entities v)) > MaxMessageEntityCount \<or> \<not> utf8_ValidString (rx_Text v) \<or>
       utf8_RuneCount (rx_Text v) > MaxMessageTextLength)"

definition EncodeMessageReplyExternal :: "'v json_codec \<Rightarrow> 'v reply_external \<Rightarrow> msg_error + string" where
  "EncodeMessageReplyExternal cx v =
    (if \<not> external_valid v then Inl ErrExternalReply
     else case js_external cx v of
            None \<Rightarrow> Inl ErrMarshal
          | Some b \<Rightarrow> if int (length b) > MaxMessageReplyExternalBytes then Inl ErrExternalReply else Inr b)"

definition External_UnmarshalJSON :: "'v json_codec \<Rightarrow> string \<Rightarrow> msg_error + 'v reply_external" where
  "External_UnmarshalJSON cx b =
    (if int (length b) > MaxMessageReplyExternalBytes then Inl ErrExternalReply
     else case js_read_external cx b of
            None \<Rightarrow> Inl ErrUnmarshal
          | Some out \<Rightarrow> (case EncodeMessageReplyExternal cx out of Inl e \<Rightarrow> Inl e | Inr _ \<Rightarrow> Inr out))"

definition DecodeMessageReplyExternal :: "'v json_codec \<Rightarrow> string \<Rightarrow> msg_error + 'v reply_external option" where
  "DecodeMessageReplyExternal cx b =
    (if b = [] \<or> strings_TrimSpace b = ''{}'' then Inr None
     else if int (length b) > MaxMessageReplyExternalBytes then Inl ErrExternalReply
     else case External_UnmarshalJSON cx b of Inl e \<Rightarrow> Inl e | Inr out \<Rightarrow> Inr (Some out))"

definition NewMessageReplyExternal :: "'v json_codec \<Rightarrow> 'v message \<Rightarrow> msg_error + 'v reply_external option" where
  "NewMessageReplyExternal cx source =
    (let v = \<lparr>rx_From = \<lparr>fw_From = msg_From source, fw_FromName = [], fw_Date = msg_Date source,
                fw_ChannelPost = 0, fw_SavedFrom = zero_peer, fw_SavedFromMsgID = 0\<rparr>,
              rx_Text = msg_Body source, rx_Entities = msg_Entities source, rx_Media = msg_Media source\<rparr>
     in case EncodeMessageReplyExternal cx v of
          Inl e \<Rightarrow> Inl e
        | Inr b \<Rightarrow> DecodeMessageReplyExternal cx b)"

section \<open>Dialogs\<close>

record 'd dialog =
  dg_Peer :: peer
  dg_FolderID :: int
  dg_TopMessage :: int
  dg_TopMessageDate :: int
  dg_Pinned :: bool
  dg_ChannelMember :: bool
  dg_rest :: 'd

text \<open>The fields of a dialog that the message store reads and writes beyond those.\<close>

record 'v dialog_state =
  dr_ReadInboxMaxID :: int
  dr_ReadOutboxMaxID :: int
  dr_UnreadCount :: int
  dr_UnreadMentions :: int
  dr_UnreadReactions :: int
  dr_TTLPeriod :: int
  dr_ThemeEmoticon :: string
  dr_HasScheduled :: bool
  dr_PinnedOrder :: int
  dr_UnreadMark :: bool
  dr_ViewForumAsMessages :: bool
  dr_PeerSettingsBarHidden :: bool
  dr_Draft :: "'v option"

definition DialogMainFolderID :: int where "DialogMainFolderID = 0"
definition DialogArchiveFolderID :: int where "DialogArchiveFolderID = 1"

section \<open>Lemmas\<close>

lemma HasUnreadPayload_kind:
  "HasUnreadPayload m \<Longrightarrow> \<exists>d. m = Some d \<and> md_Kind d = MessageMediaKindDocument \<and> (md_Voice d \<or> md_Round d)"
  by (auto simp: HasUnreadPayload_def split: option.splits if_splits)

lemma NewHistoryClearMessage_fields [simp]:
  "msg_ID (NewHistoryClearMessage u p i uid d pts) = i"
  "msg_UID (NewHistoryClearMessage u p i uid d pts) = uid"
  "msg_RandomID (NewHistoryClearMessage u p i uid d pts) = 0"
  "msg_OwnerUserID (NewHistoryClearMessage u p i uid d pts) = u"
  "msg_Peer (NewHistoryClearMessage u p i uid d pts) = p"
  "msg_From (NewHistoryClearMessage u p i uid d pts) = user_peer u"
  "msg_Date (NewHistoryClearMessage u p i uid d pts) = d"
  "msg_Out (NewHistoryClearMessage u p i uid d pts)"
  "IsHistoryClearServiceMessage (NewHistoryClearMessage u p i uid d pts)"
  by (simp_all add: NewHistoryClearMessage_def zero_message_def IsHistoryClearServiceMessage_def service_media_def)

lemma reply_bounds_ok:
  assumes "ValidateMessageReplyBounds r = None"
  shows "0 \<le> rp_MessageID r" and "rp_MessageID r \<le> MaxMessageBoxID"
    and "0 \<le> rp_QuoteOffset r" and "rp_QuoteOffset r \<le> MaxMessageReplyQuoteOffset"
  using assms by (auto simp: ValidateMessageReplyBounds_def split: if_splits)

text \<open>An accepted quote is the substring of the source at its offset, in UTF-16 units.\<close>

lemma external_quote_substring:
  assumes "ValidateExternalReplyQuote r text = None" and "rp_QuoteText r \<noteq> []"
  shows "\<exists>pre post. utf16_Encode (utf8_runes text) = pre @ utf16_Encode (utf8_runes (rp_QuoteText r)) @ post \<and>
           int (length pre) = rp_QuoteOffset r"
proof -
  let ?s = "utf16_Encode (utf8_runes text)" and ?q = "utf16_Encode (utf8_runes (rp_QuoteText r))"
  let ?n = "nat (rp_QuoteOffset r)"
  from assms have n: "0 \<le> rp_QuoteOffset r" "rp_QuoteOffset r \<le> int (length ?s)"
    and q: "take (length ?q) (drop ?n ?s) = ?q"
    by (auto simp: ValidateExternalReplyQuote_def Let_def split: if_splits)
  have "?s = take ?n ?s @ take (length ?q) (drop ?n ?s) @ drop (length ?q) (drop ?n ?s)"
    by (metis append_take_drop_id)
  with q n show ?thesis
    by (intro exI[of _ "take ?n ?s"] exI[of _ "drop (length ?q) (drop ?n ?s)"]) (auto simp: min_def)
qed

end
