(* ===== verification/Update_Events.thy ===== *)
theory Update_Events
  imports Message_Domain
begin

text \<open>
  The domain values of the account update log (\<open>internal/domain/update_event.go\<close>,
  \<open>update.go\<close>, \<open>user.go\<close>): stories, peer settings, the emoji status, the update event with
  all its fields over the messages of \<open>Message_Domain\<close>, the event kinds, the predicate
  \<open>LacksWirePts\<close>, the device state (pts, qts, date, seq) and the emoji status validation.

  Nested snapshots that the update layer stores and copies without looking inside (media, stories,
  users, channels, folders, reactions, quick replies) have the type variable \<open>'v\<close>; a nil
  pointer or a zero struct is \<open>None\<close>. Go copies such values defensively (the
  \<open>clone...\<close> helpers); with immutable HOL values a copy is the value itself.
\<close>

section \<open>Stories and peer settings\<close>

record 'v story =
  sty_Owner :: peer
  sty_ID :: int
  sty_RandomID :: int
  sty_Date :: int
  sty_ExpireDate :: int
  sty_Deleted :: bool
  sty_Pinned :: bool
  sty_PinnedToTopOrder :: int
  sty_Public :: bool
  sty_CloseFriends :: bool
  sty_Contacts :: bool
  sty_SelectedContacts :: bool
  sty_NoForwards :: bool
  sty_Edited :: bool
  sty_Out :: bool
  sty_PrivacyRules :: "'v list"
  sty_AllowUserIDs :: "int list"
  sty_DisallowUserIDs :: "int list"
  sty_Caption :: string
  sty_Entities :: "'v list"
  sty_Media :: "'v option"
  sty_MediaAreas :: "'v list"
  sty_Forward :: "'v option"
  sty_Views :: "'v option"
  sty_SentReaction :: "'v option"

record peer_settings =
  ps_AddContact :: bool
  ps_BlockContact :: bool
  ps_ShareContact :: bool
  ps_NeedContactsException :: bool
  ps_HiddenPeerSettingsBar :: bool
  ps_BusinessBotID :: int
  ps_BusinessBotManageURL :: string
  ps_BusinessBotPaused :: bool
  ps_BusinessBotCanReply :: bool

definition zero_peer_settings :: peer_settings where
  "zero_peer_settings = \<lparr>ps_AddContact = False, ps_BlockContact = False, ps_ShareContact = False,
     ps_NeedContactsException = False, ps_HiddenPeerSettingsBar = False, ps_BusinessBotID = 0,
     ps_BusinessBotManageURL = [], ps_BusinessBotPaused = False, ps_BusinessBotCanReply = False\<rparr>"

section \<open>Emoji status\<close>

record emoji_status_collectible =
  esc_CollectibleID :: int
  esc_DocumentID :: int
  esc_Title :: string
  esc_Slug :: string
  esc_PatternDocumentID :: int
  esc_CenterColor :: int
  esc_EdgeColor :: int
  esc_PatternColor :: int
  esc_TextColor :: int

definition zero_collectible :: emoji_status_collectible where
  "zero_collectible = \<lparr>esc_CollectibleID = 0, esc_DocumentID = 0, esc_Title = [], esc_Slug = [],
     esc_PatternDocumentID = 0, esc_CenterColor = 0, esc_EdgeColor = 0, esc_PatternColor = 0,
     esc_TextColor = 0\<rparr>"

definition Collectible_Empty :: "emoji_status_collectible \<Rightarrow> bool" where
  "Collectible_Empty s \<longleftrightarrow> s = zero_collectible"

definition Collectible_Valid :: "emoji_status_collectible \<Rightarrow> bool" where
  "Collectible_Valid s \<longleftrightarrow>
     (if esc_CollectibleID s \<le> 0 \<or> esc_DocumentID s \<le> 0 \<or> esc_PatternDocumentID s \<le> 0 \<or>
         esc_Title s = [] \<or> esc_Slug s = [] then False
      else list_all (\<lambda>color. \<not> (color < 0 \<or> color > 0xffffff))
             [esc_CenterColor s, esc_EdgeColor s, esc_PatternColor s, esc_TextColor s])"

record user_emoji_status =
  ues_DocumentID :: int
  ues_Until :: int
  ues_Collectible :: emoji_status_collectible

definition zero_emoji_status :: user_emoji_status where
  "zero_emoji_status = \<lparr>ues_DocumentID = 0, ues_Until = 0, ues_Collectible = zero_collectible\<rparr>"

definition EmojiStatus_Empty :: "user_emoji_status \<Rightarrow> bool" where
  "EmojiStatus_Empty s \<longleftrightarrow> ues_DocumentID s = 0 \<and> Collectible_Empty (ues_Collectible s)"

definition EmojiStatus_Valid :: "user_emoji_status \<Rightarrow> bool" where
  "EmojiStatus_Valid s \<longleftrightarrow>
     (if ues_Until s < 0 then False
      else if EmojiStatus_Empty s then ues_Until s = 0
      else if ues_DocumentID s \<le> 0 then False
      else if Collectible_Empty (ues_Collectible s) then True
      else Collectible_Valid (ues_Collectible s) \<and>
           ues_DocumentID s = esc_DocumentID (ues_Collectible s))"

section \<open>Update events\<close>

datatype update_event_type =
    UpdateEventZero
  | UpdateEventNewMessage | UpdateEventReadHistoryInbox | UpdateEventReadHistoryOutbox
  | UpdateEventReadChannelDiscussionInbox | UpdateEventReadChannelDiscussionOutbox
  | UpdateEventReadMessageContents | UpdateEventEditMessage | UpdateEventBotCallbackQuery
  | UpdateEventWebPage | UpdateEventMessagePoll | UpdateEventContactsReset
  | UpdateEventDialogPinned | UpdateEventPinnedDialogs | UpdateEventDialogUnreadMark
  | UpdateEventPeerSettings | UpdateEventPeerStoryBlocked | UpdateEventUserPhone
  | UpdateEventUserEmojiStatus | UpdateEventDeleteMessages | UpdateEventPinnedMessages
  | UpdateEventDialogFilter | UpdateEventDialogFilterOrder | UpdateEventDialogFilters
  | UpdateEventFolderPeers | UpdateEventChannelViewForum | UpdateEventStory
  | UpdateEventReadStories | UpdateEventSentStoryReaction | UpdateEventNewStoryReaction
  | UpdateEventQuickReplies | UpdateEventNewQuickReply | UpdateEventDeleteQuickReply
  | UpdateEventQuickReplyMessage | UpdateEventDeleteQuickReplyMessages
  | UpdateEventChannelState | UpdateEventDraftMessage | UpdateEventSavedDialogPinned
  | UpdateEventPinnedSavedDialogs | UpdateEventNoop

record 'v update_event =
  ev_UserID :: int
  ev_Type :: update_event_type
  ev_Pts :: int
  ev_PtsCount :: int
  ev_Date :: int
  ev_Message :: "'v message"
  ev_Story :: "'v story option"
  ev_Peer :: peer
  ev_Peers :: "peer list"
  ev_Bool :: bool
  ev_Phone :: string
  ev_EmojiStatus :: user_emoji_status
  ev_Settings :: peer_settings
  ev_MessageIDs :: "int list"
  ev_MaxID :: int
  ev_StillUnreadCount :: int
  ev_ChannelPts :: int
  ev_TopMsgID :: int
  ev_Users :: "'v list"
  ev_Channels :: "'v list"
  ev_FilterID :: int
  ev_FolderID :: int
  ev_DialogFilter :: "'v option"
  ev_Draft :: "'v option"
  ev_FilterOrder :: "int list"
  ev_FolderPeers :: "(peer \<times> int) list"
  ev_TagsEnabled :: bool
  ev_Reaction :: "'v option"
  ev_QuickReplies :: "'v list"
  ev_QuickReply :: "'v option"
  ev_QuickReplyMessage :: "'v option"
  ev_BotCallbackQuery :: "'v option"
  ev_BotAPIUpdateID :: int
  ev_EphemeralMessage :: "'v option"

definition zero_event :: "'v update_event" where
  "zero_event = \<lparr>ev_UserID = 0, ev_Type = UpdateEventZero, ev_Pts = 0, ev_PtsCount = 0, ev_Date = 0,
     ev_Message = zero_message, ev_Story = None, ev_Peer = zero_peer, ev_Peers = [],
     ev_Bool = False, ev_Phone = [], ev_EmojiStatus = zero_emoji_status, ev_Settings = zero_peer_settings,
     ev_MessageIDs = [], ev_MaxID = 0, ev_StillUnreadCount = 0, ev_ChannelPts = 0,
     ev_TopMsgID = 0, ev_Users = [], ev_Channels = [], ev_FilterID = 0, ev_FolderID = 0,
     ev_DialogFilter = None, ev_Draft = None, ev_FilterOrder = [], ev_FolderPeers = [],
     ev_TagsEnabled = False, ev_Reaction = None, ev_QuickReplies = [], ev_QuickReply = None,
     ev_QuickReplyMessage = None, ev_BotCallbackQuery = None, ev_BotAPIUpdateID = 0,
     ev_EphemeralMessage = None\<rparr>"

fun lacks_wire_pts_type :: "update_event_type \<Rightarrow> peer_type \<Rightarrow> bool" where
  "lacks_wire_pts_type UpdateEventMessagePoll _ = True"
| "lacks_wire_pts_type UpdateEventDraftMessage _ = True"
| "lacks_wire_pts_type UpdateEventChannelState _ = True"
| "lacks_wire_pts_type UpdateEventContactsReset _ = True"
| "lacks_wire_pts_type UpdateEventDialogPinned _ = True"
| "lacks_wire_pts_type UpdateEventPinnedDialogs _ = True"
| "lacks_wire_pts_type UpdateEventSavedDialogPinned _ = True"
| "lacks_wire_pts_type UpdateEventPinnedSavedDialogs _ = True"
| "lacks_wire_pts_type UpdateEventDialogUnreadMark _ = True"
| "lacks_wire_pts_type UpdateEventPeerSettings _ = True"
| "lacks_wire_pts_type UpdateEventPeerStoryBlocked _ = True"
| "lacks_wire_pts_type UpdateEventUserPhone _ = True"
| "lacks_wire_pts_type UpdateEventUserEmojiStatus _ = True"
| "lacks_wire_pts_type UpdateEventDialogFilter _ = True"
| "lacks_wire_pts_type UpdateEventDialogFilterOrder _ = True"
| "lacks_wire_pts_type UpdateEventDialogFilters _ = True"
| "lacks_wire_pts_type UpdateEventChannelViewForum _ = True"
| "lacks_wire_pts_type UpdateEventStory _ = True"
| "lacks_wire_pts_type UpdateEventReadStories _ = True"
| "lacks_wire_pts_type UpdateEventSentStoryReaction _ = True"
| "lacks_wire_pts_type UpdateEventNewStoryReaction _ = True"
| "lacks_wire_pts_type UpdateEventQuickReplies _ = True"
| "lacks_wire_pts_type UpdateEventNewQuickReply _ = True"
| "lacks_wire_pts_type UpdateEventDeleteQuickReply _ = True"
| "lacks_wire_pts_type UpdateEventQuickReplyMessage _ = True"
| "lacks_wire_pts_type UpdateEventDeleteQuickReplyMessages _ = True"
| "lacks_wire_pts_type UpdateEventReadChannelDiscussionInbox _ = True"
| "lacks_wire_pts_type UpdateEventReadChannelDiscussionOutbox _ = True"
| "lacks_wire_pts_type UpdateEventReadHistoryInbox t = (t = PeerTypeChannel)"
| "lacks_wire_pts_type UpdateEventReadHistoryOutbox t = (t = PeerTypeChannel)"
| "lacks_wire_pts_type _ _ = False"

definition LacksWirePts :: "'v update_event \<Rightarrow> bool" where
  "LacksWirePts e = lacks_wire_pts_type (ev_Type e) (peer_Type (ev_Peer e))"

section \<open>Device update state\<close>

record update_state =
  st_Pts :: int
  st_Qts :: int
  st_Date :: int
  st_Seq :: int

definition zero_state :: update_state where
  "zero_state = \<lparr>st_Pts = 0, st_Qts = 0, st_Date = 0, st_Seq = 0\<rparr>"

type_synonym commit_mode = "8 word"

definition UpdateStateCommitDeliveredOnly :: commit_mode where
  "UpdateStateCommitDeliveredOnly = 1"

definition UpdateStateCommitDeliveredAndObservedBaseline :: commit_mode where
  "UpdateStateCommitDeliveredAndObservedBaseline = 2"

record 'v update_difference =
  df_State :: update_state
  df_Events :: "'v update_event list"
  df_ChannelNudges :: "'v list"
  df_Partial :: bool

end
