(* ===== verification/Update_Store.thy ===== *)
theory Update_Store
  imports Update_Events
begin

text \<open>
  The in-memory update stores (\<open>internal/store/memory/updates.go\<close>): the per-account event
  log with its dispatch outbox (\<open>UpdateEventStore\<close>) and the per-device watermarks
  (\<open>UpdateStateStore\<close>). The Go interface \<open>store.UpdateEventStore\<close>, with the
  optional interfaces the update service probes by type assertion, is the record
  \<open>event_iface\<close>; \<open>memory_events\<close> is the memory store as a value of it.

  Lemmas: the log stays contiguous from pts 0 under every allocating append; \<open>ListAfter\<close> is
  a filtered, truncated suffix; the scan of \<open>MaxContiguousPts\<close> ends when no start wraps and
  returns the end of a contiguous log; the watermarks only grow and commits in any order converge.
\<close>

section \<open>Errors and the store interface\<close>

datatype upd_error =
    ErrDispatchExclusion
  | ErrInvalidCommitMode commit_mode
  | ErrConfirmUserMismatch int int
  | ErrStoryPeerInvalid
  | ErrStarGiftCollectibleInvalid
  | ErrNoReturn
  | ErrStore string

record ('s, 'v) event_iface =
  if_Append :: "'s \<Rightarrow> int \<Rightarrow> 'v update_event \<Rightarrow> upd_error + 's"
  if_AppendAllocated :: "'s \<Rightarrow> int \<Rightarrow> 'v update_event \<Rightarrow> upd_error + ('v update_event \<times> 's)"
  if_ListAfter :: "'s \<Rightarrow> int \<Rightarrow> int \<Rightarrow> int \<Rightarrow> upd_error + 'v update_event list"
  if_MaxContiguousPts :: "'s \<Rightarrow> int \<Rightarrow> upd_error + int"
  if_AppendAllocatedWithDispatch ::
    "('s \<Rightarrow> int \<Rightarrow> 'v update_event \<Rightarrow> authkey \<Rightarrow> int \<Rightarrow> upd_error + ('v update_event \<times> 's)) option"
  if_FindNewMessageEvent ::
    "('s \<Rightarrow> int \<Rightarrow> int \<Rightarrow> upd_error + 'v update_event option) option"
  if_RetentionCheckpoint ::
    "('s \<Rightarrow> authkey \<Rightarrow> int \<Rightarrow> upd_error + (int \<times> int) option) option"

section \<open>The memory event store\<close>

record dispatch =
  dp_Pts :: int
  dp_ExcludeAuthKeyID :: authkey
  dp_ExcludeSessionID :: int

record 'v event_store =
  es_events :: "int \<Rightarrow> 'v update_event list"
  es_dispatches :: "int \<Rightarrow> dispatch list"

definition NewUpdateEventStore :: "'v event_store" where
  "NewUpdateEventStore = \<lparr>es_events = (\<lambda>_. []), es_dispatches = (\<lambda>_. [])\<rparr>"

fun max_pts_loop :: "int \<Rightarrow> 'v update_event list \<Rightarrow> int" where
  "max_pts_loop current [] = current"
| "max_pts_loop current (item # items) =
     max_pts_loop (if ev_Pts item > current then ev_Pts item else current) items"

definition appendLocked ::
  "'v event_store \<Rightarrow> int \<Rightarrow> 'v update_event \<Rightarrow> bool \<Rightarrow> 'v update_event \<times> 'v event_store" where
  "appendLocked s userID event allocate =
     (let event = (if ev_PtsCount event \<le> 0 then event\<lparr>ev_PtsCount := 1\<rparr> else event);
          event = event\<lparr>ev_UserID := userID\<rparr>;
          event = (if allocate
                   then event\<lparr>ev_Pts := max_pts_loop 0 (es_events s userID) + ev_PtsCount event\<rparr>
                   else event)
      in (event, s\<lparr>es_events := (es_events s)(userID := es_events s userID @ [event])\<rparr>))"

definition event_append ::
  "'v event_store \<Rightarrow> int \<Rightarrow> 'v update_event \<Rightarrow> bool \<Rightarrow> bool \<Rightarrow> authkey \<Rightarrow> int
     \<Rightarrow> upd_error + ('v update_event \<times> 'v event_store)" where
  "event_append s userID event allocate withDispatch excludeAuthKeyID excludeSessionID =
     (if withDispatch \<and> (excludeAuthKeyID = 0) \<noteq> (excludeSessionID = 0)
      then Inl ErrDispatchExclusion
      else case appendLocked s userID event allocate of (event, s) \<Rightarrow>
        let s = (if withDispatch
                 then s\<lparr>es_dispatches := (es_dispatches s)(userID := es_dispatches s userID @
                        [\<lparr>dp_Pts = ev_Pts event, dp_ExcludeAuthKeyID = excludeAuthKeyID,
                          dp_ExcludeSessionID = excludeSessionID\<rparr>])\<rparr>
                 else s)
        in Inr (event, s))"

definition Append :: "'v event_store \<Rightarrow> int \<Rightarrow> 'v update_event \<Rightarrow> upd_error + 'v event_store" where
  "Append s userID event =
     (case event_append s userID event False False 0 0 of
        Inl e \<Rightarrow> Inl e | Inr (_, s) \<Rightarrow> Inr s)"

definition AppendAllocated ::
  "'v event_store \<Rightarrow> int \<Rightarrow> 'v update_event \<Rightarrow> upd_error + ('v update_event \<times> 'v event_store)" where
  "AppendAllocated s userID event = event_append s userID event True False 0 0"

definition AppendAllocatedWithDispatch ::
  "'v event_store \<Rightarrow> int \<Rightarrow> 'v update_event \<Rightarrow> authkey \<Rightarrow> int
     \<Rightarrow> upd_error + ('v update_event \<times> 'v event_store)" where
  "AppendAllocatedWithDispatch s userID event excludeAuthKeyID excludeSessionID =
     event_append s userID event True True excludeAuthKeyID excludeSessionID"

fun list_after_loop ::
  "int \<Rightarrow> int \<Rightarrow> 'v update_event list \<Rightarrow> 'v update_event list \<Rightarrow> 'v update_event list" where
  "list_after_loop pts limit out [] = out"
| "list_after_loop pts limit out (event # items) =
     (if ev_Pts event \<le> pts then list_after_loop pts limit out items
      else let out = out @ [event]
           in if limit > 0 \<and> int (length out) \<ge> limit then out
              else list_after_loop pts limit out items)"

definition ListAfter ::
  "'v event_store \<Rightarrow> int \<Rightarrow> int \<Rightarrow> int \<Rightarrow> upd_error + 'v update_event list" where
  "ListAfter s userID pts limit = Inr (list_after_loop pts limit [] (es_events s userID))"

definition FindNewMessageEvent ::
  "'v event_store \<Rightarrow> int \<Rightarrow> int \<Rightarrow> upd_error + 'v update_event option" where
  "FindNewMessageEvent s userID messageBoxID =
     (if userID = 0 \<or> messageBoxID \<le> 0 then Inr None
      else Inr (find (\<lambda>event. ev_Type event = UpdateEventNewMessage \<and>
                        msg_ID (ev_Message event) = messageBoxID) (es_events s userID)))"

text \<open>
  \<open>MaxContiguousPts\<close> first indexes the events by the pts they start from and then follows the
  index from 0. The second loop has no bound in the source; it is modelled with fuel and the
  number of indexed events plus one, and \<open>MaxContiguousPts_total\<close> shows that the fuel is
  never exhausted.
\<close>

definition event_count :: "'v update_event \<Rightarrow> int" where
  "event_count e = (if ev_PtsCount e \<le> 0 then 1 else ev_PtsCount e)"

fun next_by_start :: "(int \<rightharpoonup> int) \<Rightarrow> 'v update_event list \<Rightarrow> (int \<rightharpoonup> int)" where
  "next_by_start m [] = m"
| "next_by_start m (event # events) =
     next_by_start (m(ev_Pts event - event_count event \<mapsto> ev_Pts event)) events"

fun follow :: "nat \<Rightarrow> (int \<rightharpoonup> int) \<Rightarrow> int \<Rightarrow> int option" where
  "follow 0 m contiguous = None"
| "follow (Suc fuel) m contiguous =
     (case m contiguous of None \<Rightarrow> Some contiguous | Some nxt \<Rightarrow> follow fuel m nxt)"

definition MaxContiguousPts :: "'v event_store \<Rightarrow> int \<Rightarrow> upd_error + int" where
  "MaxContiguousPts s userID =
     (case follow (Suc (length (es_events s userID)))
             (next_by_start Map.empty (es_events s userID)) 0 of
        None \<Rightarrow> Inl ErrNoReturn | Some pts \<Rightarrow> Inr pts)"

text \<open>
  The index above takes \<open>Pts - count\<close> exactly. Go's subtraction is at 64 bits: \<open>MaxContiguousPts64\<close> is
  the same scan with the wrap-around written out. The two agree whenever no start leaves the range
  (\<open>MaxContiguousPts64_exact\<close>), in particular on every contiguous log whose last pts is an \<open>int64\<close>
  (\<open>MaxContiguousPts64_wf\<close>), which is where the service uses it; where a start wraps, the scan
  can run forever (\<open>MaxContiguousPts64_cycle\<close>).
\<close>

fun next_by_start64 :: "(int \<rightharpoonup> int) \<Rightarrow> 'v update_event list \<Rightarrow> (int \<rightharpoonup> int)" where
  "next_by_start64 m [] = m"
| "next_by_start64 m (event # events) =
     next_by_start64 (m(i64 (ev_Pts event - event_count event) \<mapsto> ev_Pts event)) events"

definition MaxContiguousPts64 :: "'v event_store \<Rightarrow> int \<Rightarrow> upd_error + int" where
  "MaxContiguousPts64 s userID =
     (case follow (Suc (length (es_events s userID)))
             (next_by_start64 Map.empty (es_events s userID)) 0 of
        None \<Rightarrow> Inl ErrNoReturn | Some pts \<Rightarrow> Inr pts)"

definition memory_events :: "('v event_store, 'v) event_iface" where
  "memory_events = \<lparr>if_Append = Append, if_AppendAllocated = AppendAllocated,
     if_ListAfter = ListAfter, if_MaxContiguousPts = MaxContiguousPts,
     if_AppendAllocatedWithDispatch = Some AppendAllocatedWithDispatch,
     if_FindNewMessageEvent = Some FindNewMessageEvent, if_RetentionCheckpoint = None\<rparr>"

section \<open>The memory state store\<close>

type_synonym state_key = "authkey \<times> int"

record state_store =
  ss_states :: "state_key \<rightharpoonup> update_state"
  ss_observed :: "state_key \<rightharpoonup> update_state"

definition NewUpdateStateStore :: state_store where
  "NewUpdateStateStore = \<lparr>ss_states = Map.empty, ss_observed = Map.empty\<rparr>"

definition State_Get :: "state_store \<Rightarrow> authkey \<Rightarrow> int \<Rightarrow> update_state option" where
  "State_Get s i userID = ss_states s (i, userID)"

definition monotonicUpdateState :: "update_state \<Rightarrow> update_state \<Rightarrow> update_state" where
  "monotonicUpdateState prev nxt =
     (let nxt = (if st_Pts nxt < st_Pts prev then nxt\<lparr>st_Pts := st_Pts prev\<rparr> else nxt);
          nxt = (if st_Qts nxt < st_Qts prev then nxt\<lparr>st_Qts := st_Qts prev\<rparr> else nxt);
          nxt = (if st_Date nxt < st_Date prev then nxt\<lparr>st_Date := st_Date prev\<rparr> else nxt);
          nxt = (if st_Seq nxt < st_Seq prev then nxt\<lparr>st_Seq := st_Seq prev\<rparr> else nxt)
      in nxt)"

definition State_Save :: "state_store \<Rightarrow> authkey \<Rightarrow> int \<Rightarrow> update_state \<Rightarrow> state_store" where
  "State_Save s i userID st =
     (let key = (i, userID);
          prev = mget zero_state (ss_states s) key;
          st = (if st_Pts st < st_Pts prev then st\<lparr>st_Pts := st_Pts prev\<rparr> else st);
          st = (if st_Qts st < st_Qts prev then st\<lparr>st_Qts := st_Qts prev\<rparr> else st);
          st = (if st_Date st < st_Date prev then st\<lparr>st_Date := st_Date prev\<rparr> else st);
          st = (if st_Seq st < st_Seq prev then st\<lparr>st_Seq := st_Seq prev\<rparr> else st)
      in s\<lparr>ss_states := (ss_states s)(key \<mapsto> st)\<rparr>)"

definition State_CommitDelivered ::
  "state_store \<Rightarrow> authkey \<Rightarrow> int \<Rightarrow> update_state \<Rightarrow> commit_mode \<Rightarrow> upd_error + state_store" where
  "State_CommitDelivered s i userID st mode =
     (if mode \<noteq> UpdateStateCommitDeliveredOnly \<and>
         mode \<noteq> UpdateStateCommitDeliveredAndObservedBaseline
      then Inl (ErrInvalidCommitMode mode)
      else let key = (i, userID);
               s = s\<lparr>ss_states := (ss_states s)(key \<mapsto>
                       monotonicUpdateState (mget zero_state (ss_states s) key) st)\<rparr>
           in if mode = UpdateStateCommitDeliveredAndObservedBaseline
              then Inr (s\<lparr>ss_observed := (ss_observed s)(key \<mapsto>
                       monotonicUpdateState (mget zero_state (ss_observed s) key) st)\<rparr>)
              else Inr s)"

definition State_Observe :: "state_store \<Rightarrow> authkey \<Rightarrow> int \<Rightarrow> update_state \<Rightarrow> state_store" where
  "State_Observe s i userID st =
     (let key = (i, userID)
      in s\<lparr>ss_observed := (ss_observed s)(key \<mapsto>
             monotonicUpdateState (mget zero_state (ss_observed s) key) st)\<rparr>)"

definition ObservedClientState :: "state_store \<Rightarrow> authkey \<Rightarrow> int \<Rightarrow> update_state option" where
  "ObservedClientState s i userID = ss_observed s (i, userID)"

definition State_Delete :: "state_store \<Rightarrow> authkey \<Rightarrow> int \<Rightarrow> state_store" where
  "State_Delete s i userID =
     s\<lparr>ss_states := (ss_states s)((i, userID) := None),
       ss_observed := (ss_observed s)((i, userID) := None)\<rparr>"

definition State_DeleteAuthKey :: "state_store \<Rightarrow> authkey \<Rightarrow> state_store" where
  "State_DeleteAuthKey s i =
     s\<lparr>ss_states := (\<lambda>k. if fst k = i then None else ss_states s k),
       ss_observed := (\<lambda>k. if fst k = i then None else ss_observed s k)\<rparr>"

section \<open>Contiguous logs\<close>

text \<open>
  \<open>contig p es\<close>: the events continue one another without a hole from pts \<open>p\<close> on.
  \<open>log_end p es\<close> is the pts reached.
\<close>

fun contig :: "int \<Rightarrow> 'v update_event list \<Rightarrow> bool" where
  "contig p [] = True"
| "contig p (e # es) = (1 \<le> ev_PtsCount e \<and> ev_Pts e = p + ev_PtsCount e \<and> contig (ev_Pts e) es)"

fun log_end :: "int \<Rightarrow> 'v update_event list \<Rightarrow> int" where
  "log_end p [] = p"
| "log_end p (e # es) = log_end (ev_Pts e) es"

definition log_wf :: "'v event_store \<Rightarrow> bool" where
  "log_wf s \<longleftrightarrow> (\<forall>u. contig 0 (es_events s u))"

lemma contig_append [simp]: "contig p (xs @ ys) \<longleftrightarrow> contig p xs \<and> contig (log_end p xs) ys"
  by (induction xs arbitrary: p) auto

lemma log_end_append [simp]: "log_end p (xs @ ys) = log_end (log_end p xs) ys"
  by (induction xs arbitrary: p) auto

lemma log_end_ge: "contig p es \<Longrightarrow> p \<le> log_end p es"
proof (induction es arbitrary: p)
  case (Cons e es)
  then have "ev_Pts e \<le> log_end (ev_Pts e) es" and "p < ev_Pts e" by auto
  then show ?case by simp
qed simp

lemma contig_bounds: "contig p es \<Longrightarrow> e \<in> set es \<Longrightarrow> p < ev_Pts e \<and> ev_Pts e \<le> log_end p es"
proof (induction es arbitrary: p)
  case (Cons x es)
  from Cons.prems have x: "p < ev_Pts x" "contig (ev_Pts x) es" by auto
  show ?case
  proof (cases "e = x")
    case True
    with x show ?thesis by (simp add: log_end_ge)
  next
    case False
    with Cons.prems have "e \<in> set es" by simp
    with x Cons.IH show ?thesis by fastforce
  qed
qed simp

lemma contig_counts: "contig p es \<Longrightarrow> e \<in> set es \<Longrightarrow> 1 \<le> ev_PtsCount e"
  by (induction es arbitrary: p) auto

lemma contig_sorted: "contig p es \<Longrightarrow> sorted_wrt (<) (map ev_Pts es)"
proof (induction es arbitrary: p)
  case (Cons e es)
  then show ?case using contig_bounds by fastforce
qed simp

lemma contig_sorted_le: "contig p es \<Longrightarrow> sorted (map ev_Pts es)"
  by (drule contig_sorted) (rule strict_sorted_imp_sorted)

lemma contig_distinct: "contig p es \<Longrightarrow> distinct (map ev_Pts es)"
  by (drule contig_sorted) (simp add: strict_sorted_iff)

lemma max_pts_loop_contig: "contig p es \<Longrightarrow> max_pts_loop p es = log_end p es"
  by (induction es arbitrary: p) auto

lemma log_end_Nil_iff: "contig p es \<Longrightarrow> log_end p es = p \<longleftrightarrow> es = []"
proof (cases es)
  case (Cons e es')
  assume "contig p es"
  with Cons have "p < ev_Pts e" "ev_Pts e \<le> log_end p es" using log_end_ge by fastforce+
  with Cons show ?thesis by simp
qed simp

section \<open>Appending\<close>

lemma appendLocked_alloc:
  assumes "log_wf s" and "appendLocked s u e True = (e', s')"
  shows "ev_Pts e' = log_end 0 (es_events s u) + event_count e"
    and "ev_PtsCount e' = event_count e" and "ev_UserID e' = u"
    and "es_events s' = (es_events s)(u := es_events s u @ [e'])"
    and "es_dispatches s' = es_dispatches s" and "log_wf s'"
proof -
  have m: "max_pts_loop 0 (es_events s u) = log_end 0 (es_events s u)"
    using assms(1) by (simp add: log_wf_def max_pts_loop_contig)
  note d = assms(2)[unfolded appendLocked_def Let_def, simplified m]
  show "ev_Pts e' = log_end 0 (es_events s u) + event_count e"
    and c: "ev_PtsCount e' = event_count e" and "ev_UserID e' = u"
    and ev: "es_events s' = (es_events s)(u := es_events s u @ [e'])"
    and "es_dispatches s' = es_dispatches s"
    using d by (auto simp: event_count_def split: if_splits)
  then show "log_wf s'"
    using assms(1) by (auto simp: log_wf_def event_count_def)
qed

lemma event_append_total:
  assumes "\<not> wd \<or> ((k = 0) = (sess = 0))"
  shows "\<exists>e' s'. event_append s u e True wd k sess = Inr (e', s')"
  using assms by (auto simp: event_append_def Let_def split: prod.split)

lemma event_append_alloc:
  assumes "log_wf s" and "event_append s u e True wd k sess = Inr (e', s')"
  shows "ev_Pts e' = log_end 0 (es_events s u) + event_count e"
    and "ev_PtsCount e' = event_count e" and "ev_UserID e' = u"
    and "es_events s' = (es_events s)(u := es_events s u @ [e'])"
    and "es_dispatches s' = (if wd then (es_dispatches s)(u := es_dispatches s u @
           [\<lparr>dp_Pts = ev_Pts e', dp_ExcludeAuthKeyID = k, dp_ExcludeSessionID = sess\<rparr>])
         else es_dispatches s)"
    and "log_wf s'"
proof -
  obtain e1 s1 where a: "appendLocked s u e True = (e1, s1)" by fastforce
  with assms(2) have e1: "e1 = e'" and s': "es_events s' = es_events s1"
    and dp: "es_dispatches s' = (if wd then (es_dispatches s1)(u := es_dispatches s1 u @
           [\<lparr>dp_Pts = ev_Pts e', dp_ExcludeAuthKeyID = k, dp_ExcludeSessionID = sess\<rparr>])
         else es_dispatches s1)"
    by (auto simp: event_append_def Let_def split: if_splits)
  note f = appendLocked_alloc[OF assms(1) a]
  from f e1 s' dp show "ev_Pts e' = log_end 0 (es_events s u) + event_count e"
    and "ev_PtsCount e' = event_count e" and "ev_UserID e' = u"
    and "es_events s' = (es_events s)(u := es_events s u @ [e'])"
    and "es_dispatches s' = (if wd then (es_dispatches s)(u := es_dispatches s u @
           [\<lparr>dp_Pts = ev_Pts e', dp_ExcludeAuthKeyID = k, dp_ExcludeSessionID = sess\<rparr>])
         else es_dispatches s)"
    and "log_wf s'"
    by (simp_all add: log_wf_def)
qed

lemmas event_append_simps = AppendAllocated_def AppendAllocatedWithDispatch_def

lemma log_wf_New [simp]: "log_wf NewUpdateEventStore"
  by (simp add: log_wf_def NewUpdateEventStore_def)

section \<open>Reading the log\<close>

lemma list_after_loop_unlimited:
  "limit \<le> 0 \<Longrightarrow> list_after_loop pts limit out items = out @ filter (\<lambda>e. pts < ev_Pts e) items"
  by (induction items arbitrary: out) (auto simp: Let_def)

lemma list_after_loop_limited:
  "int (length out) < limit \<Longrightarrow> list_after_loop pts limit out items =
     out @ take (nat limit - length out) (filter (\<lambda>e. pts < ev_Pts e) items)"
proof (induction items arbitrary: out)
  case (Cons e items)
  show ?case
  proof (cases "pts < ev_Pts e")
    case True
    have n: "nat limit - length out = Suc (nat limit - Suc (length out))"
      using Cons.prems by linarith
    show ?thesis
    proof (cases "int (Suc (length out)) < limit")
      case True
      then show ?thesis using Cons.IH[of "out @ [e]"] \<open>pts < ev_Pts e\<close> n by (simp add: Let_def)
    next
      case False
      with Cons.prems have "nat limit - Suc (length out) = 0" by linarith
      with False \<open>pts < ev_Pts e\<close> Cons.prems n show ?thesis by (simp add: Let_def)
    qed
  qed (use Cons in simp)
qed simp

lemma ListAfter_eq:
  "ListAfter s u pts limit =
     Inr (let es = filter (\<lambda>e. pts < ev_Pts e) (es_events s u)
          in if limit > 0 then take (nat limit) es else es)"
  by (simp add: ListAfter_def list_after_loop_unlimited list_after_loop_limited Let_def)

lemma next_by_start_outside:
  "contig p es \<Longrightarrow> k < p \<or> log_end p es \<le> k \<Longrightarrow> next_by_start m es k = m k"
proof (induction es arbitrary: p m)
  case (Cons e es)
  then have "ev_Pts e - event_count e = p" and "p < ev_Pts e" and "contig (ev_Pts e) es"
    by (auto simp: event_count_def)
  moreover have "log_end p (e # es) \<le> k \<Longrightarrow> p < k"
    using Cons.prems(1) contig_bounds[of p "e # es" e] by fastforce
  ultimately show ?case using Cons by auto
qed simp

lemma follow_contig:
  "contig p es \<Longrightarrow> m (log_end p es) = None \<Longrightarrow> length es < fuel \<Longrightarrow>
     follow fuel (next_by_start m es) p = Some (log_end p es)"
proof (induction es arbitrary: p m fuel)
  case Nil
  then show ?case by (cases fuel) auto
next
  case (Cons e es)
  then obtain f where f: "fuel = Suc f" "length es < f" by (cases fuel) auto
  from Cons.prems have e: "ev_Pts e - event_count e = p" "p < ev_Pts e" "contig (ev_Pts e) es"
    by (auto simp: event_count_def)
  let ?m = "m(p \<mapsto> ev_Pts e)"
  have "next_by_start ?m es p = Some (ev_Pts e)"
    using next_by_start_outside[of "ev_Pts e" es p ?m] e by simp
  moreover have "?m (log_end (ev_Pts e) es) = None"
    using Cons.prems(2) e log_end_ge[of "ev_Pts e" es] by auto
  then have "follow f (next_by_start ?m es) (ev_Pts e) = Some (log_end (ev_Pts e) es)"
    using Cons.IH e f by blast
  ultimately show ?case using f e by simp
qed

lemma MaxContiguousPts_wf: "log_wf s \<Longrightarrow> MaxContiguousPts s u = Inr (log_end 0 (es_events s u))"
  using follow_contig[of 0 "es_events s u" Map.empty "Suc (length (es_events s u))"]
  by (simp only: MaxContiguousPts_def log_wf_def) simp

lemma follow_returns:
  assumes "\<And>k v. m k = Some v \<Longrightarrow> k < v" and "finite (dom m)"
    and "card {k \<in> dom m. c \<le> k} < fuel"
  shows "\<exists>r. follow fuel m c = Some r \<and> m r = None"
  using assms(3)
proof (induction fuel arbitrary: c)
  case (Suc fuel)
  show ?case
  proof (cases "m c")
    case (Some v)
    have "{k \<in> dom m. v \<le> k} \<subseteq> {k \<in> dom m. c \<le> k}" and "c \<in> {k \<in> dom m. c \<le> k}"
      and "c \<notin> {k \<in> dom m. v \<le> k}"
      using Some assms(1)[OF Some] by auto
    then have "{k \<in> dom m. v \<le> k} \<subset> {k \<in> dom m. c \<le> k}" by blast
    then have "card {k \<in> dom m. v \<le> k} < card {k \<in> dom m. c \<le> k}"
      using assms(2) by (intro psubset_card_mono) auto
    with Suc.prems have "card {k \<in> dom m. v \<le> k} < fuel" by simp
    with Suc.IH Some show ?thesis by simp
  qed simp
qed simp

lemma next_by_start_increasing:
  "(\<And>k v. m k = Some v \<Longrightarrow> k < v) \<Longrightarrow> next_by_start m es k = Some v \<Longrightarrow> k < v"
proof (induction es arbitrary: m)
  case (Cons e es)
  let ?m = "m(ev_Pts e - event_count e \<mapsto> ev_Pts e)"
  have "a < b" if "?m a = Some b" for a b
    using that Cons.prems(1) by (auto simp: event_count_def split: if_splits)
  moreover have "next_by_start ?m es k = Some v" using Cons.prems(2) by simp
  ultimately show ?case by (rule Cons.IH)
qed simp

lemma next_by_start_dom:
  "finite (dom m) \<Longrightarrow> finite (dom (next_by_start m es)) \<and>
     card (dom (next_by_start m es)) \<le> card (dom m) + length es"
proof (induction es arbitrary: m)
  case (Cons e es)
  let ?m = "m(ev_Pts e - event_count e \<mapsto> ev_Pts e)"
  have c: "card (dom ?m) \<le> Suc (card (dom m))" and f: "finite (dom ?m)"
    using Cons.prems by (simp_all add: card_insert_if)
  from f have ih: "finite (dom (next_by_start ?m es)) \<and>
      card (dom (next_by_start ?m es)) \<le> card (dom ?m) + length es" by (rule Cons.IH)
  with c have "card (dom (next_by_start ?m es)) \<le> card (dom m) + Suc (length es)" by linarith
  with ih show ?case unfolding next_by_start.simps by simp
qed simp

lemma next_by_start_image:
  "next_by_start m es k = Some v \<Longrightarrow> m k = Some v \<or> (k, v) \<in> (\<lambda>e. (ev_Pts e - event_count e, ev_Pts e)) ` set es"
proof (induction es arbitrary: m)
  case (Cons e es)
  from Cons.prems have "next_by_start (m(ev_Pts e - event_count e \<mapsto> ev_Pts e)) es k = Some v" by simp
  from Cons.IH[OF this] show ?case by (auto split: if_splits)
qed simp

lemma next_by_start_domain:
  "dom (next_by_start m es) = dom m \<union> (\<lambda>e. ev_Pts e - event_count e) ` set es"
  by (induction es arbitrary: m) auto

lemma follow_chain:
  "follow fuel m c = Some r \<Longrightarrow> (c, r) \<in> {(k, v). m k = Some v}\<^sup>*"
  by (induction fuel m c rule: follow.induct)
     (auto split: option.splits intro: converse_rtrancl_into_rtrancl)

definition event_spans :: "'v update_event list \<Rightarrow> (int \<times> int) set" where
  "event_spans es = (\<lambda>e. (ev_Pts e - event_count e, ev_Pts e)) ` set es"

lemma MaxContiguousPts_total:
  "\<exists>pts. MaxContiguousPts s u = Inr pts \<and> (0, pts) \<in> (event_spans (es_events s u))\<^sup>* \<and>
         pts \<notin> Domain (event_spans (es_events s u))"
proof -
  let ?es = "es_events s u" and ?m = "next_by_start Map.empty (es_events s u)"
  have fin: "finite (dom ?m)" and "card (dom ?m) \<le> length ?es"
    using next_by_start_dom[of Map.empty ?es] by simp_all
  moreover have "card {k \<in> dom ?m. 0 \<le> k} \<le> card (dom ?m)"
    using fin by (intro card_mono) auto
  ultimately have "card {k \<in> dom ?m. 0 \<le> k} < Suc (length ?es)" by simp
  moreover have "\<And>k v. ?m k = Some v \<Longrightarrow> k < v"
    using next_by_start_increasing[of Map.empty] by auto
  ultimately obtain r where r: "follow (Suc (length ?es)) ?m 0 = Some r" "?m r = None"
    using follow_returns[of ?m 0 "Suc (length ?es)"] fin by blast
  have "{(k, v). ?m k = Some v} \<subseteq> event_spans ?es"
    using next_by_start_image[of Map.empty ?es] by (auto simp: event_spans_def)
  then have "(0, r) \<in> (event_spans ?es)\<^sup>*"
    using follow_chain[OF r(1)] rtrancl_mono by blast
  moreover have "r \<notin> Domain (event_spans ?es)"
    using r(2) next_by_start_domain[of Map.empty ?es] by (auto simp: event_spans_def Domain_fst image_image domIff)
  ultimately show ?thesis using r(1) by (simp add: MaxContiguousPts_def)
qed

subsection \<open>The same scan at 64 bits\<close>

definition starts_fit :: "'v update_event list \<Rightarrow> bool" where
  "starts_fit es \<longleftrightarrow> (\<forall>e \<in> set es. is_i64 (ev_Pts e - event_count e))"

lemma next_by_start64_exact: "starts_fit es \<Longrightarrow> next_by_start64 m es = next_by_start m es"
  by (induction es arbitrary: m) (simp_all add: starts_fit_def)

lemma MaxContiguousPts64_exact:
  "starts_fit (es_events s u) \<Longrightarrow> MaxContiguousPts64 s u = MaxContiguousPts s u"
  by (simp add: MaxContiguousPts64_def MaxContiguousPts_def next_by_start64_exact)

text \<open>Non-negative pts and counts of the right width never wrap.\<close>

lemma starts_fit_nonneg:
  "\<forall>e \<in> set es. 0 \<le> ev_Pts e \<and> is_i64 (ev_Pts e) \<and> is_i64 (ev_PtsCount e) \<Longrightarrow> starts_fit es"
  by (fastforce simp: starts_fit_def is_i64_def event_count_def)

lemma contig_starts:
  "contig p es \<Longrightarrow> e \<in> set es \<Longrightarrow> p \<le> ev_Pts e - event_count e \<and> ev_Pts e - event_count e \<le> log_end p es"
proof (induction es arbitrary: p)
  case (Cons x xs)
  then have x: "ev_Pts x - event_count x = p" "p < ev_Pts x" "contig (ev_Pts x) xs"
    by (auto simp: event_count_def)
  then show ?case using Cons log_end_ge[OF x(3)] by fastforce
qed simp

lemma MaxContiguousPts64_wf:
  assumes "log_wf s" and "log_end 0 (es_events s u) < 2 ^ 63"
  shows "MaxContiguousPts64 s u = Inr (log_end 0 (es_events s u))"
proof -
  have "contig 0 (es_events s u)" using assms(1) by (simp add: log_wf_def)
  then have "starts_fit (es_events s u)"
    using assms(2) contig_starts by (fastforce simp: starts_fit_def is_i64_def)
  then show ?thesis using MaxContiguousPts_wf[OF assms(1)] by (simp add: MaxContiguousPts64_exact)
qed

text \<open>
  Four events whose starts wrap close a cycle through 0: \<open>0\<close>, \<open>2\<^sup>6\<^sup>3 - 1\<close>, \<open>- 2\<^sup>6\<^sup>3\<close>, \<open>- 1\<close> and \<open>0\<close>
  again. The loop of the source never ends there, whatever the fuel.
\<close>

lemma follow_cycle:
  assumes "m 0 = Some a" and "m a = Some b" and "m b = Some c" and "m c = Some (0 :: int)"
    and "x \<in> {0, a, b, c}"
  shows "follow fuel m x = None"
  using assms(5) by (induction fuel arbitrary: x) (auto simp: assms(1-4))

lemma MaxContiguousPts64_cycle:
  assumes "map (\<lambda>e. (ev_Pts e, ev_PtsCount e)) es =
      [(2 ^ 63 - 1, 2 ^ 63 - 1), (- (2 ^ 63), 1), (- 1, 2 ^ 63 - 1), (0, 1)]"
  shows "follow fuel (next_by_start64 Map.empty es) 0 = None"
proof -
  have wrap: "i64 (- 9223372036854775809) = 9223372036854775807"
    "i64 (- 9223372036854775808) = - 9223372036854775808" "i64 0 = 0" "i64 (- 1) = - 1"
    by (simp_all add: i64_def)
  obtain a b c d where es: "es = [a, b, c, d]" and
    "ev_Pts a = 2 ^ 63 - 1" "ev_PtsCount a = 2 ^ 63 - 1" "ev_Pts b = - (2 ^ 63)" "ev_PtsCount b = 1"
    "ev_Pts c = - 1" "ev_PtsCount c = 2 ^ 63 - 1" "ev_Pts d = 0" "ev_PtsCount d = 1"
    using assms by auto
  then have "next_by_start64 Map.empty es = [0 \<mapsto> 9223372036854775807,
      9223372036854775807 \<mapsto> - 9223372036854775808, - 9223372036854775808 \<mapsto> - 1, - 1 \<mapsto> 0]"
    by (simp add: event_count_def wrap)
  then show ?thesis
    by (intro follow_cycle[of _ 9223372036854775807 "- 9223372036854775808" "- 1"]) simp_all
qed

section \<open>The log as an interface\<close>

text \<open>
  What the update service relies on: an abstraction of the store as one event list per account and
  the laws of the three operations it calls. The service's own lemmas are proved from these laws in
  theory \<open>Update_Service\<close>.
\<close>

locale event_log =
  fixes ifc :: "('s, 'v) event_iface"
    and log :: "'s \<Rightarrow> int \<Rightarrow> 'v update_event list"
    and invar :: "'s \<Rightarrow> bool"
  assumes log_contig: "invar s \<Longrightarrow> contig 0 (log s u)"
    and list_after: "invar s \<Longrightarrow> 0 < limit \<Longrightarrow> if_ListAfter ifc s u pts limit =
          Inr (take (nat limit) (filter (\<lambda>e. pts < ev_Pts e) (log s u)))"
    and max_contiguous: "invar s \<Longrightarrow> if_MaxContiguousPts ifc s u = Inr (log_end 0 (log s u))"
    and append_allocated: "invar s \<Longrightarrow> if_AppendAllocated ifc s u e = Inr (e', s') \<Longrightarrow>
          log s' = (log s)(u := log s u @ [e']) \<and> ev_PtsCount e' = event_count e \<and> invar s'"
begin

lemma append_pts:
  assumes "invar s" and "if_AppendAllocated ifc s u e = Inr (e', s')"
  shows "ev_Pts e' = log_end 0 (log s u) + event_count e"
proof -
  from append_allocated[OF assms] have "log s' u = log s u @ [e']" and "ev_PtsCount e' = event_count e"
    and "invar s'" by simp_all
  then show ?thesis using log_contig[of s' u] by simp
qed

lemma append_frame:
  assumes "invar s" and "if_AppendAllocated ifc s u e = Inr (e', s')" and "u' \<noteq> u"
  shows "log s' u' = log s u'"
  using append_allocated[OF assms(1,2)] assms(3) by simp

end

interpretation mem_log: event_log "memory_events :: ('v event_store, 'v) event_iface" es_events log_wf
proof (standard, goal_cases)
  case (1 s u)
  then show ?case by (simp add: log_wf_def)
next
  case (2 s limit u pts)
  then show ?case by (simp add: memory_events_def ListAfter_eq)
next
  case (3 s u)
  then show ?case by (simp add: memory_events_def MaxContiguousPts_wf)
next
  case (4 s u e e' s')
  then show ?case
    using event_append_alloc[of s u e False 0 0 e' s'] by (simp add: memory_events_def AppendAllocated_def)
qed

section \<open>Watermarks\<close>

lemma monotonic_max:
  "monotonicUpdateState a b = \<lparr>st_Pts = max (st_Pts a) (st_Pts b), st_Qts = max (st_Qts a) (st_Qts b),
     st_Date = max (st_Date a) (st_Date b), st_Seq = max (st_Seq a) (st_Seq b)\<rparr>"
  by (cases a; cases b) (simp add: monotonicUpdateState_def Let_def max_def)

lemma State_Save_mono:
  "State_Save s i u st =
     s\<lparr>ss_states := (ss_states s)((i, u) \<mapsto>
         monotonicUpdateState (mget zero_state (ss_states s) (i, u)) st)\<rparr>"
  by (simp add: State_Save_def monotonicUpdateState_def Let_def)

definition state_le :: "update_state \<Rightarrow> update_state \<Rightarrow> bool" where
  "state_le a b \<longleftrightarrow> st_Pts a \<le> st_Pts b \<and> st_Qts a \<le> st_Qts b \<and> st_Date a \<le> st_Date b \<and> st_Seq a \<le> st_Seq b"

lemma state_le_join: "state_le a b \<longleftrightarrow> monotonicUpdateState a b = b"
  by (cases a; cases b) (auto simp: state_le_def monotonic_max)

text \<open>
  A watermark cell: reading after an advance gives the join of what was there and what arrived.
  Several stores of the server keep such cells (the confirmed and observed update states, the
  confirmed qts of the encrypted queue); what makes out-of-order delivery callbacks harmless is
  proved here once.
\<close>

locale watermark =
  fixes read :: "'s \<Rightarrow> 'k \<Rightarrow> 'st"
    and advance :: "'s \<Rightarrow> 'k \<Rightarrow> 'st \<Rightarrow> 's"
    and join :: "'st \<Rightarrow> 'st \<Rightarrow> 'st"
    and le :: "'st \<Rightarrow> 'st \<Rightarrow> bool"
  assumes read_advance: "read (advance s k x) k' = (if k' = k then join (read s k) x else read s k')"
    and join_assoc: "join (join a b) c = join a (join b c)"
    and join_comm: "join a b = join b a"
    and join_idem: "join a a = a"
    and le_join: "le a b \<longleftrightarrow> join a b = b"
begin

lemma le_refl: "le a a"
  by (simp add: le_join join_idem)

lemma le_trans: "le a b \<Longrightarrow> le b c \<Longrightarrow> le a c"
  by (metis le_join join_assoc)

lemma join_upper: "le a (join a b)" "le b (join a b)"
  by (metis le_join join_assoc join_idem) (metis le_join join_assoc join_comm join_idem)

fun advances :: "'s \<Rightarrow> 'k \<Rightarrow> 'st list \<Rightarrow> 's" where
  "advances s k [] = s"
| "advances s k (x # xs) = advances (advance s k x) k xs"

lemma never_back: "le (read s k') (read (advance s k x) k')"
  by (simp add: read_advance le_refl join_upper)

lemma reaches: "le x (read (advance s k x) k)"
  by (simp add: read_advance join_upper)

lemma never_back_run: "le (read s k') (read (advances s k xs) k')"
  by (induction xs arbitrary: s) (auto intro: le_refl le_trans never_back)

lemma advances_read: "read (advances s k xs) k = fold (\<lambda>x a. join a x) xs (read s k)"
  by (induction xs arbitrary: s) (auto simp: read_advance)

lemma order_irrelevant:
  assumes "mset xs = mset ys"
  shows "read (advances s k xs) k = read (advances s k ys) k"
proof -
  have c: "(\<lambda>a. join a x) \<circ> (\<lambda>a. join a y) = (\<lambda>a. join a y) \<circ> (\<lambda>a. join a x)" for x y
    by (rule ext) (simp, metis join_assoc join_comm)
  show ?thesis unfolding advances_read
    by (rule fold_multiset_equiv[THEN fun_cong]) (use c assms in auto)
qed

end

interpretation confirmed_mark: watermark
  "\<lambda>s k. mget zero_state (ss_states s) k" "\<lambda>s k st. State_Save s (fst k) (snd k) st"
  monotonicUpdateState state_le
proof (standard, goal_cases)
  case (1 s k x k')
  then show ?case by (cases k) (simp add: State_Save_mono)
qed (simp_all add: monotonic_max state_le_join ac_simps)

interpretation observed_mark: watermark
  "\<lambda>s k. mget zero_state (ss_observed s) k" "\<lambda>s k st. State_Observe s (fst k) (snd k) st"
  monotonicUpdateState state_le
proof (standard, goal_cases)
  case (1 s k x k')
  then show ?case by (cases k) (simp add: State_Observe_def Let_def)
qed (simp_all add: monotonic_max state_le_join ac_simps)

end
