(* ===== verification/Update_Service.thy ===== *)
theory Update_Service
  imports Update_Store
begin

text \<open>
  The update service (\<open>internal/app/updates/service.go\<close>): device state queries, difference
  computation, confirmation and the \<open>Record...\<close> family, which appends one event to the
  account log and, for most kinds, advances the initiating device's confirmed state.

  The service holds its two stores as interfaces that may be nil: \<open>svc_states\<close> and
  \<open>svc_events\<close> are options, and the event store's methods come from an
  \<open>event_iface\<close>. The clock (\<open>time.Now().Unix()\<close>) is the parameter \<open>now\<close>.
  \<open>GetDifference\<close> probes the retention checkpoint twice; since retention may run between the
  two probes, it reads them from two store snapshots \<open>s\<close> and \<open>s2\<close>.

  Lemmas: a difference is a hole-free continuation of the requested pts, never passes the account's
  current pts, and repeating the request returns every later event exactly once.
\<close>

section \<open>The service\<close>

record ('s, 'v) update_svc =
  svc_states :: "state_store option"
  svc_events :: "('s \<times> ('s, 'v) event_iface) option"

definition UsesReliableDispatch :: "('s, 'v) update_svc \<Rightarrow> bool" where
  "UsesReliableDispatch s =
     (case svc_events s of None \<Rightarrow> False
      | Some (_, ifc) \<Rightarrow> if_AppendAllocatedWithDispatch ifc \<noteq> None)"

definition currentPts :: "('s, 'v) update_svc \<Rightarrow> int \<Rightarrow> upd_error + int" where
  "currentPts s userID =
     (case svc_events s of None \<Rightarrow> Inr 0
      | Some (es, ifc) \<Rightarrow> if_MaxContiguousPts ifc es userID)"

definition currentState :: "('s, 'v) update_svc \<Rightarrow> int \<Rightarrow> int \<Rightarrow> upd_error + update_state" where
  "currentState s now userID =
     (case currentPts s userID of Inl e \<Rightarrow> Inl e
      | Inr current \<Rightarrow> Inr \<lparr>st_Pts = current, st_Qts = 0, st_Date = now, st_Seq = 0\<rparr>)"

definition saveConfirmedState ::
  "('s, 'v) update_svc \<Rightarrow> authkey \<Rightarrow> int \<Rightarrow> update_state \<Rightarrow> ('s, 'v) update_svc" where
  "saveConfirmedState s authKeyID userID st =
     (case svc_states s of None \<Rightarrow> s
      | Some sts \<Rightarrow> s\<lparr>svc_states := Some (State_Save sts authKeyID userID (st\<lparr>st_Seq := 0\<rparr>))\<rparr>)"

definition observeClientState ::
  "('s, 'v) update_svc \<Rightarrow> authkey \<Rightarrow> int \<Rightarrow> update_state \<Rightarrow> ('s, 'v) update_svc" where
  "observeClientState s authKeyID userID st =
     (case svc_states s of None \<Rightarrow> s
      | Some sts \<Rightarrow> s\<lparr>svc_states := Some (State_Observe sts authKeyID userID (st\<lparr>st_Seq := 0\<rparr>))\<rparr>)"

definition GetState ::
  "('s, 'v) update_svc \<Rightarrow> int \<Rightarrow> authkey \<Rightarrow> int \<Rightarrow> upd_error + (update_state \<times> ('s, 'v) update_svc)" where
  "GetState s now authKeyID userID =
     (case svc_states s of
        None \<Rightarrow>
          (case currentPts s userID of Inl e \<Rightarrow> Inl e
           | Inr current \<Rightarrow> Inr (\<lparr>st_Pts = current, st_Qts = 0, st_Date = now, st_Seq = 0\<rparr>, s))
      | Some sts \<Rightarrow>
          (case State_Get sts authKeyID userID of
             Some st \<Rightarrow>
               let st = st\<lparr>st_Seq := 0\<rparr>;
                   st = (if st_Date st = 0 then st\<lparr>st_Date := now\<rparr> else st)
               in Inr (st, s)
           | None \<Rightarrow>
               (case currentPts s userID of Inl e \<Rightarrow> Inl e
                | Inr current \<Rightarrow>
                    let st = \<lparr>st_Pts = current, st_Qts = 0, st_Date = now, st_Seq = 0\<rparr>
                    in Inr (st, s\<lparr>svc_states := Some (State_Save sts authKeyID userID st)\<rparr>))))"

definition CurrentState :: "('s, 'v) update_svc \<Rightarrow> int \<Rightarrow> int \<Rightarrow> upd_error + update_state" where
  "CurrentState s now userID = currentState s now userID"

definition ConfirmedState ::
  "('s, 'v) update_svc \<Rightarrow> authkey \<Rightarrow> int \<Rightarrow> update_state \<times> bool" where
  "ConfirmedState s authKeyID userID =
     (case svc_states s of None \<Rightarrow> (zero_state, False)
      | Some sts \<Rightarrow>
          (case State_Get sts authKeyID userID of
             None \<Rightarrow> (zero_state\<lparr>st_Seq := 0\<rparr>, False)
           | Some st \<Rightarrow> (st\<lparr>st_Seq := 0\<rparr>, True)))"

definition ConfirmEvent ::
  "('s, 'v) update_svc \<Rightarrow> int \<Rightarrow> authkey \<Rightarrow> int \<Rightarrow> 'v update_event \<Rightarrow> upd_error + ('s, 'v) update_svc" where
  "ConfirmEvent s now authKeyID userID event =
     (if ev_UserID event \<noteq> 0 \<and> ev_UserID event \<noteq> userID
      then Inl (ErrConfirmUserMismatch (ev_UserID event) userID)
      else if ev_Pts event \<le> 0 then Inr s
      else let date = (if ev_Date event = 0 then now else ev_Date event)
           in Inr (saveConfirmedState s authKeyID userID
                \<lparr>st_Pts = ev_Pts event, st_Qts = 0, st_Date = date, st_Seq = 0\<rparr>))"

definition clampDifferenceState :: "update_state \<Rightarrow> update_state \<Rightarrow> update_state" where
  "clampDifferenceState from current =
     (let from = (if st_Pts from < 0 then from\<lparr>st_Pts := 0\<rparr> else from);
          from = (if st_Pts from > st_Pts current then from\<lparr>st_Pts := st_Pts current\<rparr> else from)
      in from\<lparr>st_Seq := 0\<rparr>)"

definition ObserveDifferenceRequest ::
  "('s, 'v) update_svc \<Rightarrow> int \<Rightarrow> authkey \<Rightarrow> int \<Rightarrow> update_state
     \<Rightarrow> upd_error + (update_state \<times> ('s, 'v) update_svc)" where
  "ObserveDifferenceRequest s now authKeyID userID from =
     (case currentState s now userID of Inl e \<Rightarrow> Inl e
      | Inr current \<Rightarrow>
          let from = clampDifferenceState from current
          in Inr (from, observeClientState s authKeyID userID from))"

definition CommitDeliveredState ::
  "('s, 'v) update_svc \<Rightarrow> authkey \<Rightarrow> int \<Rightarrow> update_state \<Rightarrow> commit_mode
     \<Rightarrow> upd_error + ('s, 'v) update_svc" where
  "CommitDeliveredState s authKeyID userID st mode =
     (case svc_states s of None \<Rightarrow> Inr s
      | Some sts \<Rightarrow>
          if mode \<noteq> UpdateStateCommitDeliveredOnly \<and>
             mode \<noteq> UpdateStateCommitDeliveredAndObservedBaseline
          then Inl (ErrInvalidCommitMode mode)
          else (case State_CommitDelivered sts authKeyID userID (st\<lparr>st_Seq := 0\<rparr>) mode of
                  Inl e \<Rightarrow> Inl e
                | Inr sts \<Rightarrow> Inr (s\<lparr>svc_states := Some sts\<rparr>)))"

definition ClearAuthKey :: "('s, 'v) update_svc \<Rightarrow> authkey \<Rightarrow> ('s, 'v) update_svc" where
  "ClearAuthKey s authKeyID =
     (case svc_states s of None \<Rightarrow> s
      | Some sts \<Rightarrow> s\<lparr>svc_states := Some (State_DeleteAuthKey sts authKeyID)\<rparr>)"

section \<open>Differences\<close>

definition getDifferenceLimit :: int where
  "getDifferenceLimit = 100"

fun contiguous_loop ::
  "int \<Rightarrow> 'v update_event list \<Rightarrow> 'v update_event list
     \<Rightarrow> 'v update_event list \<times> 'v update_event option \<times> int" where
  "contiguous_loop cursor out [] = (out, None, 0)"
| "contiguous_loop cursor out (event # rest) =
     (let ptsCount = (if ev_PtsCount event \<le> 0 then 1 else ev_PtsCount event);
          expected = cursor + ptsCount
      in if ev_Pts event \<noteq> expected then (out, Some event, expected)
         else contiguous_loop (ev_Pts event) (out @ [event]) rest)"

text \<open>
  \<open>sort.Slice\<close> is not stable and \<open>sort_key\<close> is; they agree when no two events have the same pts, as in
  every log of the memory store. Events with equal pts could come out in another order in Go; the scan
  accepts at most one of them in either order.
\<close>

definition contiguousPrefixAndGap ::
  "'v update_event list \<Rightarrow> int \<Rightarrow> 'v update_event list \<times> 'v update_event option \<times> int" where
  "contiguousPrefixAndGap events from =
     (if events = [] then ([], None, 0)
      else contiguous_loop from [] (sort_key ev_Pts events))"

definition contiguousPrefix :: "'v update_event list \<Rightarrow> int \<Rightarrow> 'v update_event list" where
  "contiguousPrefix events from = fst (contiguousPrefixAndGap events from)"

definition retainedPrefixCheckpoint ::
  "('s \<times> ('s, 'v) event_iface) option \<Rightarrow> authkey \<Rightarrow> int \<Rightarrow> update_state \<Rightarrow> update_state
     \<Rightarrow> upd_error + 'v update_difference option" where
  "retainedPrefixCheckpoint events authKeyID userID from current =
     (case events of None \<Rightarrow> Inr None
      | Some (es, ifc) \<Rightarrow>
          (case if_RetentionCheckpoint ifc of None \<Rightarrow> Inr None
           | Some probe \<Rightarrow>
               (case probe es authKeyID userID of
                  Inl e \<Rightarrow> Inl e
                | Inr None \<Rightarrow> Inr None
                | Inr (Some (pts, date)) \<Rightarrow>
                    if st_Pts from \<ge> pts then Inr None
                    else let checkpoint = from\<lparr>st_Pts := pts, st_Seq := 0\<rparr>;
                             checkpoint = (if date > 0 then checkpoint\<lparr>st_Date := date\<rparr>
                                           else if st_Date checkpoint = 0
                                                then checkpoint\<lparr>st_Date := st_Date current\<rparr>
                                                else checkpoint)
                         in Inr (Some \<lparr>df_State = checkpoint, df_Events = [],
                                   df_ChannelNudges = [], df_Partial = True\<rparr>))))"

definition GetDifference ::
  "('s, 'v) update_svc \<Rightarrow> ('s, 'v) update_svc \<Rightarrow> int \<Rightarrow> authkey \<Rightarrow> int \<Rightarrow> update_state
     \<Rightarrow> upd_error + 'v update_difference" where
  "GetDifference s s2 now authKeyID userID from =
     (case currentState s now userID of Inl e \<Rightarrow> Inl e
      | Inr st \<Rightarrow>
        let from = clampDifferenceState from st
        in case retainedPrefixCheckpoint (svc_events s) authKeyID userID from st of
             Inl e \<Rightarrow> Inl e
           | Inr (Some checkpoint) \<Rightarrow> Inr checkpoint
           | Inr None \<Rightarrow>
             (case svc_events s2 of
                None \<Rightarrow>
                  Inr \<lparr>df_State = (if st_Date from \<noteq> 0 then st\<lparr>st_Date := st_Date from\<rparr> else st),
                     df_Events = [], df_ChannelNudges = [], df_Partial = False\<rparr>
              | Some (es, ifc) \<Rightarrow>
                if st_Pts from \<ge> st_Pts st
                then Inr \<lparr>df_State = (if st_Date from \<noteq> 0 then st\<lparr>st_Date := st_Date from\<rparr> else st),
                        df_Events = [], df_ChannelNudges = [], df_Partial = False\<rparr>
                else case if_ListAfter ifc es userID (st_Pts from) getDifferenceLimit of
                  Inl e \<Rightarrow> Inl e
                | Inr events \<Rightarrow>
                  let contiguous = fst (contiguousPrefixAndGap events (st_Pts from));
                      result = Inr (let last_pts = (if contiguous \<noteq> [] then ev_Pts (last contiguous)
                                                    else st_Pts from);
                                        out = st\<lparr>st_Pts := last_pts, st_Seq := 0\<rparr>;
                                        out = (if contiguous \<noteq> []
                                               then out\<lparr>st_Date := ev_Date (last contiguous)\<rparr> else out)
                                    in \<lparr>df_State = out, df_Events = contiguous, df_ChannelNudges = [],
                                        df_Partial = (int (length contiguous) = getDifferenceLimit)\<rparr>)
                  in if contiguous = [] \<and> st_Pts from < st_Pts st
                     then (case retainedPrefixCheckpoint (svc_events s2) authKeyID userID from st of
                             Inl e \<Rightarrow> Inl e
                           | Inr (Some checkpoint) \<Rightarrow> Inr checkpoint
                           | Inr None \<Rightarrow> result)
                     else result))"

section \<open>Recording events\<close>

definition recordEventCore ::
  "('s, 'v) update_svc \<Rightarrow> int \<Rightarrow> authkey \<Rightarrow> authkey \<Rightarrow> int \<Rightarrow> 'v update_event \<Rightarrow> bool \<Rightarrow> int \<Rightarrow> bool
     \<Rightarrow> upd_error + ('v update_event \<times> update_state \<times> ('s, 'v) update_svc)" where
  "recordEventCore s now stateAuthKeyID excludeAuthKeyID userID event dispatch excludeSessionID saveState =
     (let date = (if ev_Date event = 0 then now else ev_Date event);
          event = (if ev_PtsCount event = 0 then event\<lparr>ev_PtsCount := 1\<rparr> else event);
          event = event\<lparr>ev_UserID := userID, ev_Date := date\<rparr>;
          appended =
            (case svc_events s of
               Some (es, ifc) \<Rightarrow>
                 (case (if dispatch
                        then case if_AppendAllocatedWithDispatch ifc of
                               Some appender \<Rightarrow> appender es userID event excludeAuthKeyID excludeSessionID
                             | None \<Rightarrow> if_AppendAllocated ifc es userID event
                        else if_AppendAllocated ifc es userID event) of
                    Inl e \<Rightarrow> Inl e
                  | Inr (event, es) \<Rightarrow> Inr (event, s\<lparr>svc_events := Some (es, ifc)\<rparr>))
             | None \<Rightarrow>
                 (case currentPts s userID of Inl e \<Rightarrow> Inl e
                  | Inr current \<Rightarrow> Inr (event\<lparr>ev_Pts := current + ev_PtsCount event\<rparr>, s)))
      in case appended of Inl e \<Rightarrow> Inl e
         | Inr (event, s) \<Rightarrow>
             let st = \<lparr>st_Pts = ev_Pts event, st_Qts = 0, st_Date = date, st_Seq = 0\<rparr>;
                 s = (case svc_states s of
                        Some sts \<Rightarrow> if saveState
                                    then s\<lparr>svc_states := Some (State_Save sts stateAuthKeyID userID st)\<rparr>
                                    else s
                      | None \<Rightarrow> s)
             in Inr (event, st, s))"

definition recordEvent ::
  "('s, 'v) update_svc \<Rightarrow> int \<Rightarrow> authkey \<Rightarrow> authkey \<Rightarrow> int \<Rightarrow> 'v update_event \<Rightarrow> bool \<Rightarrow> int
     \<Rightarrow> upd_error + ('v update_event \<times> update_state \<times> ('s, 'v) update_svc)" where
  "recordEvent s now stateAuthKeyID excludeAuthKeyID userID event dispatch excludeSessionID =
     recordEventCore s now stateAuthKeyID excludeAuthKeyID userID event dispatch excludeSessionID True"

definition recordEventWithoutState ::
  "('s, 'v) update_svc \<Rightarrow> int \<Rightarrow> int \<Rightarrow> 'v update_event
     \<Rightarrow> upd_error + ('v update_event \<times> update_state \<times> ('s, 'v) update_svc)" where
  "recordEventWithoutState s now userID event = recordEventCore s now 0 0 userID event False 0 False"

type_synonym ('s, 'v) recorded =
  "upd_error + ('v update_event \<times> update_state \<times> ('s, 'v) update_svc)"

definition RecordNewMessage ::
  "('s, 'v) update_svc \<Rightarrow> int \<Rightarrow> authkey \<Rightarrow> int \<Rightarrow> 'v message \<Rightarrow> ('s, 'v) recorded" where
  "RecordNewMessage s now authKeyID userID msg =
     (let userID = (if userID = 0 then msg_OwnerUserID msg else userID);
          date = (if msg_Date msg = 0 then now else msg_Date msg)
      in recordEvent s now authKeyID 0 userID
           (zero_event\<lparr>ev_Type := UpdateEventNewMessage, ev_Date := date, ev_Message := msg,
              ev_PtsCount := 1\<rparr>) False 0)"

definition PublishNewMessage ::
  "('s, 'v) update_svc \<Rightarrow> int \<Rightarrow> int \<Rightarrow> 'v message \<Rightarrow> ('s, 'v) recorded" where
  "PublishNewMessage s now userID msg =
     (let userID = (if userID = 0 then msg_OwnerUserID msg else userID);
          existing = (case svc_events s of None \<Rightarrow> Inr None
                      | Some (es, ifc) \<Rightarrow>
                          (case if_FindNewMessageEvent ifc of None \<Rightarrow> Inr None
                           | Some finder \<Rightarrow>
                               if msg_ID msg > 0 then finder es userID (msg_ID msg) else Inr None));
          date = (if msg_Date msg = 0 then now else msg_Date msg)
      in case existing of Inl e \<Rightarrow> Inl e
         | Inr (Some event) \<Rightarrow>
             (case currentState s now userID of Inl e \<Rightarrow> Inl e | Inr st \<Rightarrow> Inr (event, st, s))
         | Inr None \<Rightarrow>
             recordEventCore s now 0 0 userID
               (zero_event\<lparr>ev_Type := UpdateEventNewMessage, ev_Date := date, ev_Message := msg,
                  ev_PtsCount := 1\<rparr>) True 0 False)"

definition RecordMessagePoll ::
  "('s, 'v) update_svc \<Rightarrow> int \<Rightarrow> authkey \<Rightarrow> int \<Rightarrow> 'v message \<Rightarrow> ('s, 'v) recorded" where
  "RecordMessagePoll s now authKeyID userID msg =
     (let userID = (if userID = 0 then msg_OwnerUserID msg else userID);
          date = (if msg_Date msg = 0 then now else msg_Date msg)
      in recordEventWithoutState s now userID
           (zero_event\<lparr>ev_Type := UpdateEventMessagePoll, ev_Date := date, ev_Message := msg,
              ev_Peer := msg_Peer msg, ev_PtsCount := 1\<rparr>))"

definition RecordStory ::
  "('s, 'v) update_svc \<Rightarrow> int \<Rightarrow> authkey \<Rightarrow> int \<Rightarrow> 'v story \<Rightarrow> authkey \<Rightarrow> int \<Rightarrow> ('s, 'v) recorded" where
  "RecordStory s now stateAuthKeyID userID story excludeAuthKeyID excludeSessionID =
     (let userID = (if userID = 0 \<and> peer_Type (sty_Owner story) = PeerTypeUser
                    then peer_ID (sty_Owner story) else userID)
      in recordEvent s now stateAuthKeyID excludeAuthKeyID userID
           (zero_event\<lparr>ev_Type := UpdateEventStory, ev_Date := sty_Date story,
              ev_Peer := sty_Owner story, ev_Story := Some story, ev_PtsCount := 1\<rparr>)
           True excludeSessionID)"

definition RecordStoryFanout ::
  "('s, 'v) update_svc \<Rightarrow> int \<Rightarrow> int \<Rightarrow> 'v story \<Rightarrow> ('s, 'v) recorded" where
  "RecordStoryFanout s now userID story =
     (if userID = 0 then Inl ErrStoryPeerInvalid
      else recordEventCore s now 0 0 userID
             (zero_event\<lparr>ev_Type := UpdateEventStory, ev_Date := sty_Date story,
                ev_Peer := sty_Owner story, ev_Story := Some story, ev_PtsCount := 1\<rparr>)
             True 0 False)"

record story_read_result =
  srr_ViewerID :: int
  srr_Peer :: peer
  srr_MaxReadID :: int
  srr_Advanced :: bool
  srr_Date :: int

definition RecordReadStories ::
  "('s, 'v) update_svc \<Rightarrow> int \<Rightarrow> authkey \<Rightarrow> int \<Rightarrow> story_read_result \<Rightarrow> authkey \<Rightarrow> int
     \<Rightarrow> ('s, 'v) recorded" where
  "RecordReadStories s now stateAuthKeyID userID rd excludeAuthKeyID excludeSessionID =
     (let userID = (if userID = 0 then srr_ViewerID rd else userID)
      in recordEvent s now stateAuthKeyID excludeAuthKeyID userID
           (zero_event\<lparr>ev_Type := UpdateEventReadStories, ev_Date := srr_Date rd,
              ev_Peer := srr_Peer rd, ev_MaxID := srr_MaxReadID rd, ev_PtsCount := 1\<rparr>)
           True excludeSessionID)"

record 'v story_reaction_result =
  sre_ViewerID :: int
  sre_Peer :: peer
  sre_StoryID :: int
  sre_Reaction :: "'v option"
  sre_Story :: "'v story"
  sre_Changed :: bool
  sre_Date :: int

definition RecordSentStoryReaction ::
  "('s, 'v) update_svc \<Rightarrow> int \<Rightarrow> authkey \<Rightarrow> int \<Rightarrow> 'v story_reaction_result \<Rightarrow> authkey \<Rightarrow> int
     \<Rightarrow> ('s, 'v) recorded" where
  "RecordSentStoryReaction s now stateAuthKeyID userID reaction excludeAuthKeyID excludeSessionID =
     (let userID = (if userID = 0 then sre_ViewerID reaction else userID)
      in recordEvent s now stateAuthKeyID excludeAuthKeyID userID
           (zero_event\<lparr>ev_Type := UpdateEventSentStoryReaction, ev_Date := sre_Date reaction,
              ev_Peer := sre_Peer reaction, ev_MaxID := sre_StoryID reaction,
              ev_Story := Some (sre_Story reaction), ev_Reaction := sre_Reaction reaction,
              ev_PtsCount := 1\<rparr>) True excludeSessionID)"

definition RecordNewStoryReaction ::
  "('s, 'v) update_svc \<Rightarrow> int \<Rightarrow> authkey \<Rightarrow> int \<Rightarrow> 'v story_reaction_result \<Rightarrow> authkey \<Rightarrow> int
     \<Rightarrow> ('s, 'v) recorded" where
  "RecordNewStoryReaction s now stateAuthKeyID ownerUserID reaction excludeAuthKeyID excludeSessionID =
     (let owner = sty_Owner (sre_Story reaction);
          ownerUserID = (if ownerUserID = 0 \<and> peer_Type owner = PeerTypeUser
                         then peer_ID owner else ownerUserID);
          ownerUserID = (if ownerUserID = 0 \<and> peer_Type (sre_Peer reaction) = PeerTypeUser
                         then peer_ID (sre_Peer reaction) else ownerUserID)
      in if ownerUserID = 0 \<or> sre_ViewerID reaction = 0 \<or> sre_Reaction reaction = None
         then Inl ErrStoryPeerInvalid
         else recordEventCore s now stateAuthKeyID excludeAuthKeyID ownerUserID
                (zero_event\<lparr>ev_Type := UpdateEventNewStoryReaction, ev_Date := sre_Date reaction,
                   ev_Peer := user_peer (sre_ViewerID reaction), ev_MaxID := sre_StoryID reaction,
                   ev_Story := Some (sre_Story reaction), ev_Reaction := sre_Reaction reaction,
                   ev_PtsCount := 1\<rparr>) True excludeSessionID False)"

datatype quick_reply_mutation_kind =
    QuickReplyMutationList | QuickReplyMutationNew | QuickReplyMutationDelete
  | QuickReplyMutationMessage | QuickReplyMutationIDs

record 'v quick_reply_list =
  qrl_OwnerUserID :: int
  qrl_QuickReplies :: "'v list"
  qrl_Messages :: "'v list"
  qrl_Hash :: int

record 'v quick_reply_mutation =
  qrm_Kind :: quick_reply_mutation_kind
  qrm_List :: "'v quick_reply_list"
  qrm_QuickReply :: "'v option"
  qrm_ShortcutID :: int
  qrm_Message :: "'v option"
  qrm_MessageIDs :: "int list"
  qrm_Date :: int
  qrm_Pts :: int
  qrm_PtsCount :: int

definition RecordQuickReplyMutation ::
  "('s, 'v) update_svc \<Rightarrow> int \<Rightarrow> authkey \<Rightarrow> int \<Rightarrow> 'v quick_reply_mutation \<Rightarrow> authkey \<Rightarrow> int
     \<Rightarrow> ('s, 'v) recorded" where
  "RecordQuickReplyMutation s now stateAuthKeyID userID mutation excludeAuthKeyID excludeSessionID =
     (let userID = (if userID = 0 then qrl_OwnerUserID (qrm_List mutation) else userID);
          event = zero_event\<lparr>ev_Date := qrm_Date mutation, ev_PtsCount := 1,
                    ev_QuickReplies := qrl_QuickReplies (qrm_List mutation),
                    ev_QuickReply := qrm_QuickReply mutation,
                    ev_QuickReplyMessage := qrm_Message mutation,
                    ev_MessageIDs := qrm_MessageIDs mutation, ev_MaxID := qrm_ShortcutID mutation\<rparr>;
          event = event\<lparr>ev_Type :=
                    (case qrm_Kind mutation of
                       QuickReplyMutationNew \<Rightarrow> UpdateEventNewQuickReply
                     | QuickReplyMutationDelete \<Rightarrow> UpdateEventDeleteQuickReply
                     | QuickReplyMutationMessage \<Rightarrow> UpdateEventQuickReplyMessage
                     | QuickReplyMutationIDs \<Rightarrow> UpdateEventDeleteQuickReplyMessages
                     | _ \<Rightarrow> UpdateEventQuickReplies)\<rparr>
      in recordEvent s now stateAuthKeyID excludeAuthKeyID userID event True excludeSessionID)"

record 'v read_history_result =
  rhr_OwnerUserID :: int
  rhr_Peer :: peer
  rhr_MaxID :: int
  rhr_StillUnreadCount :: int
  rhr_ChannelPts :: int
  rhr_Changed :: bool
  rhr_InboxEvent :: "'v update_event"
  rhr_OutboxChanged :: bool
  rhr_OutboxUserID :: int
  rhr_OutboxEvent :: "'v update_event"

definition RecordReadHistory ::
  "('s, 'v) update_svc \<Rightarrow> int \<Rightarrow> authkey \<Rightarrow> int \<Rightarrow> 'v read_history_result \<Rightarrow> authkey \<Rightarrow> int
     \<Rightarrow> ('s, 'v) recorded" where
  "RecordReadHistory s now stateAuthKeyID userID rd excludeAuthKeyID excludeSessionID =
     (let userID = (if userID = 0 then rhr_OwnerUserID rd else userID)
      in recordEvent s now stateAuthKeyID excludeAuthKeyID userID
           (zero_event\<lparr>ev_Type := UpdateEventReadHistoryInbox, ev_Date := now,
              ev_Peer := rhr_Peer rd, ev_MaxID := rhr_MaxID rd,
              ev_StillUnreadCount := rhr_StillUnreadCount rd, ev_ChannelPts := rhr_ChannelPts rd,
              ev_PtsCount := 1\<rparr>) True excludeSessionID)"

definition RecordChannelState ::
  "('s, 'v) update_svc \<Rightarrow> int \<Rightarrow> authkey \<Rightarrow> int \<Rightarrow> int \<Rightarrow> authkey \<Rightarrow> int \<Rightarrow> ('s, 'v) recorded" where
  "RecordChannelState s now stateAuthKeyID userID channelID excludeAuthKeyID excludeSessionID =
     recordEvent s now stateAuthKeyID excludeAuthKeyID userID
       (zero_event\<lparr>ev_Type := UpdateEventChannelState, ev_Peer := channel_peer channelID,
          ev_PtsCount := 1\<rparr>) True excludeSessionID"

definition RecordContactsReset ::
  "('s, 'v) update_svc \<Rightarrow> int \<Rightarrow> authkey \<Rightarrow> int \<Rightarrow> authkey \<Rightarrow> int \<Rightarrow> ('s, 'v) recorded" where
  "RecordContactsReset s now stateAuthKeyID userID excludeAuthKeyID excludeSessionID =
     recordEvent s now stateAuthKeyID excludeAuthKeyID userID
       (zero_event\<lparr>ev_Type := UpdateEventContactsReset, ev_PtsCount := 1\<rparr>) True excludeSessionID"

definition RecordUserEmojiStatus ::
  "('s, 'v) update_svc \<Rightarrow> int \<Rightarrow> authkey \<Rightarrow> int \<Rightarrow> user_emoji_status \<Rightarrow> authkey \<Rightarrow> int
     \<Rightarrow> ('s, 'v) recorded" where
  "RecordUserEmojiStatus s now stateAuthKeyID userID status excludeAuthKeyID excludeSessionID =
     (if \<not> EmojiStatus_Valid status then Inl ErrStarGiftCollectibleInvalid
      else recordEvent s now stateAuthKeyID excludeAuthKeyID userID
             (zero_event\<lparr>ev_Type := UpdateEventUserEmojiStatus, ev_Peer := user_peer userID,
                ev_EmojiStatus := status, ev_PtsCount := 1\<rparr>) True excludeSessionID)"

definition RecordDraftMessage ::
  "('s, 'v) update_svc \<Rightarrow> int \<Rightarrow> authkey \<Rightarrow> int \<Rightarrow> peer \<Rightarrow> int \<Rightarrow> authkey \<Rightarrow> int \<Rightarrow> ('s, 'v) recorded" where
  "RecordDraftMessage s now stateAuthKeyID userID pr topMsgID excludeAuthKeyID excludeSessionID =
     recordEvent s now stateAuthKeyID excludeAuthKeyID userID
       (zero_event\<lparr>ev_Type := UpdateEventDraftMessage, ev_Peer := pr, ev_MaxID := topMsgID, ev_PtsCount := 1\<rparr>) True excludeSessionID"

definition RecordDialogPinned ::
  "('s, 'v) update_svc \<Rightarrow> int \<Rightarrow> authkey \<Rightarrow> int \<Rightarrow> peer \<Rightarrow> bool \<Rightarrow> int \<Rightarrow> authkey \<Rightarrow> int \<Rightarrow> ('s, 'v) recorded" where
  "RecordDialogPinned s now stateAuthKeyID userID pr pinned folderID excludeAuthKeyID excludeSessionID =
     recordEvent s now stateAuthKeyID excludeAuthKeyID userID
       (zero_event\<lparr>ev_Type := UpdateEventDialogPinned, ev_Peer := pr, ev_Bool := pinned,
          ev_FolderID := folderID, ev_PtsCount := 1\<rparr>) True excludeSessionID"

definition RecordPinnedDialogs ::
  "('s, 'v) update_svc \<Rightarrow> int \<Rightarrow> authkey \<Rightarrow> int \<Rightarrow> int \<Rightarrow> peer list \<Rightarrow> authkey \<Rightarrow> int \<Rightarrow> ('s, 'v) recorded" where
  "RecordPinnedDialogs s now stateAuthKeyID userID folderID order excludeAuthKeyID excludeSessionID =
     recordEvent s now stateAuthKeyID excludeAuthKeyID userID
       (zero_event\<lparr>ev_Type := UpdateEventPinnedDialogs, ev_Peers := order, ev_FolderID := folderID, ev_PtsCount := 1\<rparr>) True excludeSessionID"

definition RecordSavedDialogPinned ::
  "('s, 'v) update_svc \<Rightarrow> int \<Rightarrow> authkey \<Rightarrow> int \<Rightarrow> peer \<Rightarrow> bool \<Rightarrow> authkey \<Rightarrow> int \<Rightarrow> ('s, 'v) recorded" where
  "RecordSavedDialogPinned s now stateAuthKeyID userID pr pinned excludeAuthKeyID excludeSessionID =
     recordEvent s now stateAuthKeyID excludeAuthKeyID userID
       (zero_event\<lparr>ev_Type := UpdateEventSavedDialogPinned, ev_Peer := pr, ev_Bool := pinned, ev_PtsCount := 1\<rparr>) True excludeSessionID"

definition RecordPinnedSavedDialogs ::
  "('s, 'v) update_svc \<Rightarrow> int \<Rightarrow> authkey \<Rightarrow> int \<Rightarrow> peer list \<Rightarrow> authkey \<Rightarrow> int \<Rightarrow> ('s, 'v) recorded" where
  "RecordPinnedSavedDialogs s now stateAuthKeyID userID order excludeAuthKeyID excludeSessionID =
     recordEvent s now stateAuthKeyID excludeAuthKeyID userID
       (zero_event\<lparr>ev_Type := UpdateEventPinnedSavedDialogs, ev_Peers := order, ev_PtsCount := 1\<rparr>) True excludeSessionID"

definition RecordDialogUnreadMark ::
  "('s, 'v) update_svc \<Rightarrow> int \<Rightarrow> authkey \<Rightarrow> int \<Rightarrow> peer \<Rightarrow> bool \<Rightarrow> authkey \<Rightarrow> int \<Rightarrow> ('s, 'v) recorded" where
  "RecordDialogUnreadMark s now stateAuthKeyID userID pr unread excludeAuthKeyID excludeSessionID =
     recordEvent s now stateAuthKeyID excludeAuthKeyID userID
       (zero_event\<lparr>ev_Type := UpdateEventDialogUnreadMark, ev_Peer := pr, ev_Bool := unread, ev_PtsCount := 1\<rparr>) True excludeSessionID"

definition RecordChannelViewForumAsMessages ::
  "('s, 'v) update_svc \<Rightarrow> int \<Rightarrow> authkey \<Rightarrow> int \<Rightarrow> int \<Rightarrow> bool \<Rightarrow> authkey \<Rightarrow> int \<Rightarrow> ('s, 'v) recorded" where
  "RecordChannelViewForumAsMessages s now stateAuthKeyID userID channelID enabled excludeAuthKeyID excludeSessionID =
     recordEvent s now stateAuthKeyID excludeAuthKeyID userID
       (zero_event\<lparr>ev_Type := UpdateEventChannelViewForum, ev_Peer := channel_peer channelID,
          ev_Bool := enabled, ev_PtsCount := 1\<rparr>) True excludeSessionID"

definition RecordChannelDiscussionInbox ::
  "('s, 'v) update_svc \<Rightarrow> int \<Rightarrow> authkey \<Rightarrow> int \<Rightarrow> int \<Rightarrow> int \<Rightarrow> int \<Rightarrow> authkey \<Rightarrow> int \<Rightarrow> ('s, 'v) recorded" where
  "RecordChannelDiscussionInbox s now stateAuthKeyID userID channelID topicID maxID excludeAuthKeyID excludeSessionID =
     recordEvent s now stateAuthKeyID excludeAuthKeyID userID
       (zero_event\<lparr>ev_Type := UpdateEventReadChannelDiscussionInbox,
          ev_Peer := channel_peer channelID, ev_TopMsgID := topicID, ev_MaxID := maxID, ev_PtsCount := 1\<rparr>) True excludeSessionID"

definition RecordPeerSettings ::
  "('s, 'v) update_svc \<Rightarrow> int \<Rightarrow> authkey \<Rightarrow> int \<Rightarrow> peer \<Rightarrow> peer_settings \<Rightarrow> authkey \<Rightarrow> int \<Rightarrow> ('s, 'v) recorded" where
  "RecordPeerSettings s now stateAuthKeyID userID pr settings excludeAuthKeyID excludeSessionID =
     recordEvent s now stateAuthKeyID excludeAuthKeyID userID
       (zero_event\<lparr>ev_Type := UpdateEventPeerSettings, ev_Peer := pr, ev_Settings := settings, ev_PtsCount := 1\<rparr>) True excludeSessionID"

definition RecordPeerStoryBlocked ::
  "('s, 'v) update_svc \<Rightarrow> int \<Rightarrow> authkey \<Rightarrow> int \<Rightarrow> peer \<Rightarrow> bool \<Rightarrow> authkey \<Rightarrow> int \<Rightarrow> ('s, 'v) recorded" where
  "RecordPeerStoryBlocked s now stateAuthKeyID userID pr blocked excludeAuthKeyID excludeSessionID =
     recordEvent s now stateAuthKeyID excludeAuthKeyID userID
       (zero_event\<lparr>ev_Type := UpdateEventPeerStoryBlocked, ev_Peer := pr, ev_Bool := blocked, ev_PtsCount := 1\<rparr>) True excludeSessionID"

definition RecordDialogFilter ::
  "('s, 'v) update_svc \<Rightarrow> int \<Rightarrow> authkey \<Rightarrow> int \<Rightarrow> int \<Rightarrow> 'v option \<Rightarrow> authkey \<Rightarrow> int \<Rightarrow> ('s, 'v) recorded" where
  "RecordDialogFilter s now stateAuthKeyID userID folderID folder excludeAuthKeyID excludeSessionID =
     recordEvent s now stateAuthKeyID excludeAuthKeyID userID
       (zero_event\<lparr>ev_Type := UpdateEventDialogFilter, ev_FilterID := folderID,
          ev_DialogFilter := folder, ev_PtsCount := 1\<rparr>) True excludeSessionID"

definition RecordDialogFilterOrder ::
  "('s, 'v) update_svc \<Rightarrow> int \<Rightarrow> authkey \<Rightarrow> int \<Rightarrow> int list \<Rightarrow> authkey \<Rightarrow> int \<Rightarrow> ('s, 'v) recorded" where
  "RecordDialogFilterOrder s now stateAuthKeyID userID order excludeAuthKeyID excludeSessionID =
     recordEvent s now stateAuthKeyID excludeAuthKeyID userID
       (zero_event\<lparr>ev_Type := UpdateEventDialogFilterOrder, ev_FilterOrder := order, ev_PtsCount := 1\<rparr>) True excludeSessionID"

definition RecordDialogFiltersReload ::
  "('s, 'v) update_svc \<Rightarrow> int \<Rightarrow> authkey \<Rightarrow> int \<Rightarrow> authkey \<Rightarrow> int \<Rightarrow> ('s, 'v) recorded" where
  "RecordDialogFiltersReload s now stateAuthKeyID userID excludeAuthKeyID excludeSessionID =
     recordEvent s now stateAuthKeyID excludeAuthKeyID userID
       (zero_event\<lparr>ev_Type := UpdateEventDialogFilters, ev_PtsCount := 1\<rparr>) True excludeSessionID"

definition RecordFolderPeers ::
  "('s, 'v) update_svc \<Rightarrow> int \<Rightarrow> authkey \<Rightarrow> int \<Rightarrow> (peer \<times> int) list \<Rightarrow> authkey \<Rightarrow> int \<Rightarrow> ('s, 'v) recorded" where
  "RecordFolderPeers s now stateAuthKeyID userID peers excludeAuthKeyID excludeSessionID =
     recordEvent s now stateAuthKeyID excludeAuthKeyID userID
       (zero_event\<lparr>ev_Type := UpdateEventFolderPeers, ev_FolderPeers := peers, ev_PtsCount := 1\<rparr>) True excludeSessionID"

section \<open>Contiguous prefixes\<close>

lemma contiguous_loop_contig:
  "contig cursor es \<Longrightarrow> contiguous_loop cursor out es = (out @ es, None, 0)"
  by (induction es arbitrary: cursor out) (auto simp: Let_def)

lemma contiguous_loop_prefix:
  assumes "contiguous_loop cursor out es = (out', gap, expected)"
    and "\<forall>e \<in> set es. 1 \<le> ev_PtsCount e"
  shows "\<exists>pre rest. es = pre @ rest \<and> out' = out @ pre \<and> contig cursor pre \<and>
     (case rest of [] \<Rightarrow> gap = None
      | e # _ \<Rightarrow> gap = Some e \<and> expected = log_end cursor pre + ev_PtsCount e \<and>
                  ev_Pts e \<noteq> expected)"
  using assms
proof (induction es arbitrary: cursor out)
  case Nil
  then show ?case by simp
next
  case (Cons e es)
  show ?case
  proof (cases "ev_Pts e = cursor + ev_PtsCount e")
    case True
    with Cons.prems have "contiguous_loop (ev_Pts e) (out @ [e]) es = (out', gap, expected)"
      by (simp add: Let_def)
    then obtain pre rest where "es = pre @ rest" "out' = (out @ [e]) @ pre"
      "contig (ev_Pts e) pre" "case rest of [] \<Rightarrow> gap = None
        | x # _ \<Rightarrow> gap = Some x \<and> expected = log_end (ev_Pts e) pre + ev_PtsCount x \<and> ev_Pts x \<noteq> expected"
      using Cons.IH[of "ev_Pts e" "out @ [e]"] Cons.prems by auto
    then show ?thesis using True Cons.prems
      by (intro exI[of _ "e # pre"] exI[of _ rest]) (auto split: list.splits)
  next
    case False
    with Cons.prems show ?thesis
      by (intro exI[of _ "[]"] exI[of _ "e # es"]) (auto simp: Let_def)
  qed
qed

lemma contiguousPrefixAndGap_contig:
  assumes "contig p es"
  shows "contiguousPrefixAndGap es p = (es, None, 0)"
proof -
  have "sort_key ev_Pts es = es"
    using contig_sorted_le[OF assms] by (rule sort_key_id_if_sorted)
  then show ?thesis
    using assms by (simp add: contiguousPrefixAndGap_def contiguous_loop_contig)
qed

lemma contig_take: "contig p es \<Longrightarrow> contig p (take n es)"
  by (metis append_take_drop_id contig_append)

lemma contig_filter_gt:
  assumes "contig p pre" and "contig (log_end p pre) post"
  shows "filter (\<lambda>e. log_end p pre < ev_Pts e) (pre @ post) = post"
proof -
  have "filter (\<lambda>e. log_end p pre < ev_Pts e) pre = []"
    using contig_bounds[OF assms(1)] by (auto simp: filter_empty_conv not_less)
  moreover have "filter (\<lambda>e. log_end p pre < ev_Pts e) post = post"
    using contig_bounds[OF assms(2)] by (auto simp: filter_id_conv)
  ultimately show ?thesis by simp
qed

lemma last_pts_log_end: "es \<noteq> [] \<Longrightarrow> ev_Pts (last es) = log_end p es"
  by (induction es arbitrary: p) auto

lemma clamp_pts: "0 \<le> st_Pts cur \<Longrightarrow> st_Pts (clampDifferenceState from cur) = max 0 (min (st_Pts from) (st_Pts cur))"
  by (simp add: clampDifferenceState_def Let_def)

lemma clamp_id: "0 \<le> st_Pts from \<Longrightarrow> st_Pts from \<le> st_Pts cur \<Longrightarrow>
    clampDifferenceState from cur = from\<lparr>st_Seq := 0\<rparr>"
  by (simp add: clampDifferenceState_def Let_def)

section \<open>Clients of the log interface\<close>

text \<open>
  A client that keeps calling \<open>GetDifference\<close> with the returned state until the answer is not
  partial, as the protocol prescribes for \<open>updates.differenceSlice\<close>. The store does not change
  in the meantime.
\<close>

fun drain ::
  "nat \<Rightarrow> ('s, 'v) update_svc \<Rightarrow> int \<Rightarrow> authkey \<Rightarrow> int \<Rightarrow> update_state
     \<Rightarrow> upd_error + ('v update_event list \<times> update_state)" where
  "drain 0 s now authKeyID userID from = Inl ErrNoReturn"
| "drain (Suc n) s now authKeyID userID from =
     (case GetDifference s s now authKeyID userID from of
        Inl e \<Rightarrow> Inl e
      | Inr d \<Rightarrow>
          if df_Partial d
          then (case drain n s now authKeyID userID (df_State d) of
                  Inl e \<Rightarrow> Inl e
                | Inr (es, st) \<Rightarrow> Inr (df_Events d @ es, st))
          else Inr (df_Events d, df_State d))"

locale plain_event_log = event_log +
  assumes no_checkpoint: "if_RetentionCheckpoint ifc = None"
begin

lemma current_state:
  assumes "svc_events s = Some (es, ifc)" and "invar es"
  shows "currentState s now u =
     Inr \<lparr>st_Pts = log_end 0 (log es u), st_Qts = 0, st_Date = now, st_Seq = 0\<rparr>"
  using assms by (simp add: currentState_def currentPts_def max_contiguous)

lemma no_retained_prefix: "retainedPrefixCheckpoint (Some (es, ifc)) k u from st = Inr None"
  by (simp add: retainedPrefixCheckpoint_def no_checkpoint)

lemma difference_at_boundary:
  assumes ev: "svc_events s = Some (es, ifc)" and wf: "invar es"
    and split: "log es u = pre @ post" and fr: "st_Pts st0 = log_end 0 pre"
  shows "GetDifference s s now k u st0 = Inr
     (if post = []
      then \<lparr>df_State = \<lparr>st_Pts = log_end 0 (log es u), st_Qts = 0,
                 st_Date = (if st_Date st0 \<noteq> 0 then st_Date st0 else now), st_Seq = 0\<rparr>,
             df_Events = [], df_ChannelNudges = [], df_Partial = False\<rparr>
      else \<lparr>df_State = \<lparr>st_Pts = log_end 0 (pre @ take 100 post), st_Qts = 0,
                 st_Date = ev_Date (last (take 100 post)), st_Seq = 0\<rparr>,
             df_Events = take 100 post, df_ChannelNudges = [], df_Partial = (100 \<le> length post)\<rparr>)"
proof -
  from log_contig[OF wf, of u] split
  have c: "contig 0 pre" "contig (log_end 0 pre) post" by simp_all
  have ge: "0 \<le> log_end 0 pre" and le: "log_end 0 pre \<le> log_end 0 (log es u)"
    using c split by (simp_all add: log_end_ge)
  let ?st = "\<lparr>st_Pts = log_end 0 (log es u), st_Qts = 0, st_Date = now, st_Seq = 0\<rparr>"
  have cl: "clampDifferenceState st0 ?st = st0\<lparr>st_Seq := 0\<rparr>"
    using fr ge le by (simp add: clamp_id)
  show ?thesis
  proof (cases "post = []")
    case True
    then have "log_end 0 pre = log_end 0 (log es u)" using split by simp
    with True fr show ?thesis
      by (simp add: GetDifference_def Let_def current_state[OF ev wf] cl ev no_retained_prefix)
  next
    case False
    have lt: "log_end 0 pre < log_end 0 (log es u)"
      using False c split log_end_Nil_iff[of "log_end 0 pre" post] log_end_ge[of "log_end 0 pre" post]
      by simp
    have list: "if_ListAfter ifc es u (log_end 0 pre) getDifferenceLimit = Inr (take 100 post)"
      using list_after[OF wf, of getDifferenceLimit u "log_end 0 pre"] contig_filter_gt[OF c]
      unfolding split by (simp only: getDifferenceLimit_def) simp
    have take: "contiguousPrefixAndGap (take 100 post) (log_end 0 pre) = (take 100 post, None, 0)"
      using c(2) by (intro contiguousPrefixAndGap_contig contig_take)
    have "ev_Pts (last (take 100 post)) = log_end (log_end 0 pre) (take 100 post)"
      using False by (intro last_pts_log_end) simp
    then show ?thesis using False lt fr
      by (simp add: GetDifference_def Let_def current_state[OF ev wf] cl ev no_retained_prefix list take)
         (simp add: getDifferenceLimit_def min_def)
  qed
qed

lemma drain_complete:
  assumes ev: "svc_events s = Some (es, ifc)" and wf: "invar es"
    and "log es u = pre @ post" and "st_Pts st0 = log_end 0 pre" and "length post div 100 < n"
  shows "\<exists>st. drain n s now k u st0 = Inr (post, st) \<and> st_Pts st = log_end 0 (log es u)"
  using assms(3,4,5)
proof (induction n arbitrary: pre post st0)
  case (Suc n)
  note d = difference_at_boundary[OF ev wf Suc.prems(1,2), of now k]
  show ?case
  proof (cases "100 \<le> length post")
    case False
    then show ?thesis using d Suc.prems by (cases "post = []") simp_all
  next
    case True
    let ?st1 = "\<lparr>st_Pts = log_end 0 (pre @ take 100 post), st_Qts = 0,
                   st_Date = ev_Date (last (take 100 post)), st_Seq = 0\<rparr>"
    have "log es u = (pre @ take 100 post) @ drop 100 post" using Suc.prems(1) by simp
    moreover have "length (drop 100 post) div 100 < n"
      using Suc.prems(3) True by simp
    ultimately obtain st where "drain n s now k u ?st1 = Inr (drop 100 post, st)"
      and "st_Pts st = log_end 0 (log es u)"
      using Suc.IH[of "pre @ take 100 post" "drop 100 post" ?st1] by auto
    moreover have "post \<noteq> []" using True by auto
    ultimately show ?thesis using d True by simp
  qed
qed simp

end

interpretation mem_service: plain_event_log
  "memory_events :: ('v event_store, 'v) event_iface" es_events log_wf
  by standard (simp add: memory_events_def)

section \<open>The service over the memory store\<close>

text \<open>
  \<open>svc_log s\<close> is the account log behind a service that runs on the memory store. Every operation
  of the service only ever extends it.
\<close>

definition svc_wf :: "('v event_store, 'v) update_svc \<Rightarrow> bool" where
  "svc_wf s \<longleftrightarrow> (\<exists>es. svc_events s = Some (es, memory_events) \<and> log_wf es)"

definition svc_log :: "('v event_store, 'v) update_svc \<Rightarrow> int \<Rightarrow> 'v update_event list" where
  "svc_log s u = (case svc_events s of None \<Rightarrow> [] | Some (es, _) \<Rightarrow> es_events es u)"

definition new_memory_service :: "bool \<Rightarrow> ('v event_store, 'v) update_svc" where
  "new_memory_service with_states =
     \<lparr>svc_states = (if with_states then Some NewUpdateStateStore else None),
      svc_events = Some (NewUpdateEventStore, memory_events)\<rparr>"

lemma svc_wf_new: "svc_wf (new_memory_service b)"
  by (simp add: svc_wf_def new_memory_service_def)

lemma svc_wf_contig: "svc_wf s \<Longrightarrow> contig 0 (svc_log s u)"
  by (auto simp: svc_wf_def svc_log_def log_wf_def)

lemma recordEventCore_appends:
  assumes wf: "svc_wf s"
    and rec: "recordEventCore s now sk xk u e d xs sv = Inr (e', st, s')"
  shows "svc_wf s'" and "svc_log s' = (svc_log s)(u := svc_log s u @ [e'])"
    and "ev_Pts e' = log_end 0 (svc_log s u) + event_count e" and "st_Pts st = ev_Pts e'"
    and "svc_states s' = (if sv then map_option (\<lambda>sts. State_Save sts sk u st) (svc_states s)
                          else svc_states s)"
proof -
  from wf obtain es where es: "svc_events s = Some (es, memory_events)" "log_wf es"
    by (auto simp: svc_wf_def)
  let ?e = "(if ev_PtsCount e = 0 then e\<lparr>ev_PtsCount := 1\<rparr> else e)
      \<lparr>ev_UserID := u, ev_Date := if ev_Date e = 0 then now else ev_Date e\<rparr>"
  have cnt: "event_count ?e = event_count e" by (simp add: event_count_def)
  have m: "if_AppendAllocatedWithDispatch memory_events = Some AppendAllocatedWithDispatch"
    "if_AppendAllocated memory_events = AppendAllocated"
    by (simp_all add: memory_events_def)
  from rec obtain es' wd k ss where app: "event_append es u ?e True wd k ss = Inr (e', es')"
    and s': "svc_events s' = Some (es', memory_events)" and st: "st_Pts st = ev_Pts e'"
    and sts: "svc_states s' = (if sv then map_option (\<lambda>sts. State_Save sts sk u st) (svc_states s)
                          else svc_states s)"
    by (auto simp: recordEventCore_def Let_def es m event_append_simps
        split: sum.splits prod.splits if_splits option.splits)
  note f = event_append_alloc[OF es(2) app]
  show "svc_wf s'" using f s' by (simp add: svc_wf_def)
  show "svc_log s' = (svc_log s)(u := svc_log s u @ [e'])"
    using f s' es by (simp add: svc_log_def fun_eq_iff)
  show "ev_Pts e' = log_end 0 (svc_log s u) + event_count e"
    using f(1) cnt es by (simp add: svc_log_def)
  show "st_Pts st = ev_Pts e'" by (rule st)
  show "svc_states s' = (if sv then map_option (\<lambda>sts. State_Save sts sk u st) (svc_states s)
                          else svc_states s)" by (rule sts)
qed

lemma recordEventCore_total:
  assumes "svc_wf s" and "d \<longrightarrow> (xk = 0) = (xs = 0)"
  shows "\<exists>e' st s'. recordEventCore s now sk xk u e d xs sv = Inr (e', st, s')"
proof -
  from assms(1) obtain es where es: "svc_events s = Some (es, memory_events)"
    by (auto simp: svc_wf_def)
  let ?e = "(if ev_PtsCount e = 0 then e\<lparr>ev_PtsCount := 1\<rparr> else e)
      \<lparr>ev_UserID := u, ev_Date := if ev_Date e = 0 then now else ev_Date e\<rparr>"
  obtain e1 es1 where "AppendAllocated es u ?e = Inr (e1, es1)"
    using event_append_total[of False 0 0 es u ?e] by (auto simp: AppendAllocated_def)
  moreover obtain e2 es2 where "d \<longrightarrow> AppendAllocatedWithDispatch es u ?e xk xs = Inr (e2, es2)"
    using event_append_total[of True xk xs es u ?e] assms(2)
    by (cases d) (auto simp: AppendAllocatedWithDispatch_def)
  ultimately show ?thesis
    by (simp add: recordEventCore_def Let_def es memory_events_def)
qed

inductive svc_step :: "('v event_store, 'v) update_svc \<Rightarrow> ('v event_store, 'v) update_svc \<Rightarrow> bool" where
  GetState: "GetState s now k u = Inr (st, s') \<Longrightarrow> svc_step s s'"
| ConfirmEvent: "ConfirmEvent s now k u e = Inr s' \<Longrightarrow> svc_step s s'"
| ObserveDifferenceRequest: "ObserveDifferenceRequest s now k u st0 = Inr (st, s') \<Longrightarrow> svc_step s s'"
| CommitDeliveredState: "CommitDeliveredState s k u st m = Inr s' \<Longrightarrow> svc_step s s'"
| ClearAuthKey: "ClearAuthKey s k = s' \<Longrightarrow> svc_step s s'"
| RecordNewMessage: "RecordNewMessage s now k u msg = Inr (e, st, s') \<Longrightarrow> svc_step s s'"
| PublishNewMessage: "PublishNewMessage s now u msg = Inr (e, st, s') \<Longrightarrow> svc_step s s'"
| RecordMessagePoll: "RecordMessagePoll s now k u msg = Inr (e, st, s') \<Longrightarrow> svc_step s s'"
| RecordStory: "RecordStory s now k u story xk xs = Inr (e, st, s') \<Longrightarrow> svc_step s s'"
| RecordStoryFanout: "RecordStoryFanout s now u story = Inr (e, st, s') \<Longrightarrow> svc_step s s'"
| RecordReadStories: "RecordReadStories s now k u rd xk xs = Inr (e, st, s') \<Longrightarrow> svc_step s s'"
| RecordSentStoryReaction: "RecordSentStoryReaction s now k u re xk xs = Inr (e, st, s') \<Longrightarrow> svc_step s s'"
| RecordNewStoryReaction: "RecordNewStoryReaction s now k u re xk xs = Inr (e, st, s') \<Longrightarrow> svc_step s s'"
| RecordQuickReplyMutation: "RecordQuickReplyMutation s now k u qm xk xs = Inr (e, st, s') \<Longrightarrow> svc_step s s'"
| RecordReadHistory: "RecordReadHistory s now k u rh xk xs = Inr (e, st, s') \<Longrightarrow> svc_step s s'"
| RecordChannelState: "RecordChannelState s now k u c xk xs = Inr (e, st, s') \<Longrightarrow> svc_step s s'"
| RecordContactsReset: "RecordContactsReset s now k u xk xs = Inr (e, st, s') \<Longrightarrow> svc_step s s'"
| RecordUserEmojiStatus: "RecordUserEmojiStatus s now k u es xk xs = Inr (e, st, s') \<Longrightarrow> svc_step s s'"
| RecordDraftMessage: "RecordDraftMessage s now k u pr tm xk xs = Inr (e, st, s') \<Longrightarrow> svc_step s s'"
| RecordDialogPinned: "RecordDialogPinned s now k u pr b f xk xs = Inr (e, st, s') \<Longrightarrow> svc_step s s'"
| RecordPinnedDialogs: "RecordPinnedDialogs s now k u f ord xk xs = Inr (e, st, s') \<Longrightarrow> svc_step s s'"
| RecordSavedDialogPinned: "RecordSavedDialogPinned s now k u pr b xk xs = Inr (e, st, s') \<Longrightarrow> svc_step s s'"
| RecordPinnedSavedDialogs: "RecordPinnedSavedDialogs s now k u ord xk xs = Inr (e, st, s') \<Longrightarrow> svc_step s s'"
| RecordDialogUnreadMark: "RecordDialogUnreadMark s now k u pr b xk xs = Inr (e, st, s') \<Longrightarrow> svc_step s s'"
| RecordChannelViewForumAsMessages: "RecordChannelViewForumAsMessages s now k u c b xk xs = Inr (e, st, s') \<Longrightarrow> svc_step s s'"
| RecordChannelDiscussionInbox: "RecordChannelDiscussionInbox s now k u c t mx xk xs = Inr (e, st, s') \<Longrightarrow> svc_step s s'"
| RecordPeerSettings: "RecordPeerSettings s now k u pr pst xk xs = Inr (e, st, s') \<Longrightarrow> svc_step s s'"
| RecordPeerStoryBlocked: "RecordPeerStoryBlocked s now k u pr b xk xs = Inr (e, st, s') \<Longrightarrow> svc_step s s'"
| RecordDialogFilter: "RecordDialogFilter s now k u f fo xk xs = Inr (e, st, s') \<Longrightarrow> svc_step s s'"
| RecordDialogFilterOrder: "RecordDialogFilterOrder s now k u iord xk xs = Inr (e, st, s') \<Longrightarrow> svc_step s s'"
| RecordDialogFiltersReload: "RecordDialogFiltersReload s now k u xk xs = Inr (e, st, s') \<Longrightarrow> svc_step s s'"
| RecordFolderPeers: "RecordFolderPeers s now k u fps xk xs = Inr (e, st, s') \<Longrightarrow> svc_step s s'"

lemmas record_defs =
  RecordNewMessage_def RecordMessagePoll_def RecordStory_def RecordStoryFanout_def
  RecordReadStories_def RecordSentStoryReaction_def RecordNewStoryReaction_def
  RecordQuickReplyMutation_def RecordReadHistory_def RecordChannelState_def
  RecordContactsReset_def RecordUserEmojiStatus_def RecordDraftMessage_def
  RecordDialogPinned_def RecordPinnedDialogs_def RecordSavedDialogPinned_def
  RecordPinnedSavedDialogs_def RecordDialogUnreadMark_def RecordChannelViewForumAsMessages_def
  RecordChannelDiscussionInbox_def RecordPeerSettings_def RecordPeerStoryBlocked_def
  RecordDialogFilter_def RecordDialogFilterOrder_def RecordDialogFiltersReload_def
  RecordFolderPeers_def
  recordEvent_def recordEventWithoutState_def

definition extends_log :: "('v event_store, 'v) update_svc \<Rightarrow> ('v event_store, 'v) update_svc \<Rightarrow> bool" where
  "extends_log s s' \<longleftrightarrow> svc_wf s' \<and> (\<forall>u. \<exists>new. svc_log s' u = svc_log s u @ new)"

lemma extends_log_refl: "svc_wf s' \<Longrightarrow> svc_log s' = svc_log s \<Longrightarrow> extends_log s s'"
  by (auto simp: extends_log_def)

lemma extends_log_trans: "extends_log s s' \<Longrightarrow> extends_log s' s'' \<Longrightarrow> extends_log s s''"
  unfolding extends_log_def by (metis append_assoc)

lemma recordEventCore_extends:
  "svc_wf s \<Longrightarrow> recordEventCore s now sk xk u e d xs sv = Inr (e', st, s') \<Longrightarrow> extends_log s s'"
  using recordEventCore_appends[of s now sk xk u e d xs sv e' st s'] by (auto simp: extends_log_def)

lemma states_only_extends:
  "svc_wf s \<Longrightarrow> svc_events s' = svc_events s \<Longrightarrow> extends_log s s'"
  by (auto simp: extends_log_def svc_wf_def svc_log_def)

lemma svc_step_extends: "svc_step s s' \<Longrightarrow> svc_wf s \<Longrightarrow> extends_log s s'"
proof (induction rule: svc_step.induct)
  case (PublishNewMessage s now u msg e st s')
  then show ?case
    by (auto simp: PublishNewMessage_def Let_def intro: recordEventCore_extends states_only_extends
        split: sum.splits option.splits prod.splits if_splits)
qed (auto simp: record_defs GetState_def ConfirmEvent_def ObserveDifferenceRequest_def
      CommitDeliveredState_def ClearAuthKey_def saveConfirmedState_def observeClientState_def Let_def
      intro: recordEventCore_extends states_only_extends
      split: sum.splits option.splits if_splits)

lemma svc_steps_extend: "svc_step\<^sup>*\<^sup>* s s' \<Longrightarrow> svc_wf s \<Longrightarrow> extends_log s s'"
proof (induction rule: rtranclp_induct)
  case base
  then show ?case by (simp add: extends_log_refl)
next
  case (step t t')
  then have "extends_log s t" and "extends_log t t'"
    using svc_step_extends by (auto simp: extends_log_def)
  then show ?case by (rule extends_log_trans)
qed

section \<open>Supporting lemmas for the properties\<close>

definition counts_pos :: "'v event_store \<Rightarrow> bool" where
  "counts_pos s \<longleftrightarrow> (\<forall>u. \<forall>e \<in> set (es_events s u). 1 \<le> ev_PtsCount e)"

lemma counts_pos_New: "counts_pos NewUpdateEventStore"
  by (simp add: counts_pos_def NewUpdateEventStore_def)

lemma event_append_counts_pos:
  "counts_pos s \<Longrightarrow> event_append s u e al wd k xs = Inr (e', s') \<Longrightarrow> counts_pos s'"
  by (auto simp: counts_pos_def event_append_def appendLocked_def Let_def split: if_splits prod.splits)

lemma clamp_le: "st_Pts (clampDifferenceState st0 cur) \<le> st_Pts cur \<or> st_Pts (clampDifferenceState st0 cur) = 0"
  by (auto simp: clampDifferenceState_def Let_def)

lemma prefix_hole_free:
  assumes "\<forall>e \<in> set es. 1 \<le> ev_PtsCount e"
  shows "contig p (fst (contiguousPrefixAndGap es p))"
proof (cases "es = []")
  case False
  obtain out gap ex where l: "contiguous_loop p [] (sort_key ev_Pts es) = (out, gap, ex)"
    by (metis prod_cases3)
  have "\<forall>e \<in> set (sort_key ev_Pts es). 1 \<le> ev_PtsCount e" using assms by simp
  from contiguous_loop_prefix[OF l this] have "contig p out" by auto
  with False l show ?thesis by (simp add: contiguousPrefixAndGap_def)
qed (simp add: contiguousPrefixAndGap_def)

lemma last_of_contig: "es \<noteq> [] \<Longrightarrow> log_end p es = ev_Pts (last es)"
  using last_pts_log_end[of es p] by simp

lemma ListAfter_counts_pos:
  assumes "counts_pos es" and "ListAfter es u p l = Inr xs"
  shows "\<forall>e \<in> set xs. 1 \<le> ev_PtsCount e"
proof -
  from assms(2) have "set xs \<subseteq> set (es_events es u)"
    by (auto simp: ListAfter_eq Let_def dest: in_set_takeD split: if_splits)
  with assms(1) show ?thesis by (auto simp: counts_pos_def)
qed

lemma commit_as_marks:
  assumes "m = UpdateStateCommitDeliveredOnly \<or> m = UpdateStateCommitDeliveredAndObservedBaseline"
  shows "State_CommitDelivered s k u st m =
     Inr (if m = UpdateStateCommitDeliveredAndObservedBaseline
          then State_Observe (State_Save s k u st) k u st else State_Save s k u st)"
  using assms by (auto simp: State_CommitDelivered_def State_Save_mono State_Observe_def Let_def)

fun commit_all :: "state_store \<Rightarrow> authkey \<Rightarrow> int \<Rightarrow> (update_state \<times> commit_mode) list \<Rightarrow> upd_error + state_store" where
  "commit_all s k u [] = Inr s"
| "commit_all s k u ((st, m) # cs) =
     (case State_CommitDelivered s k u st m of Inl e \<Rightarrow> Inl e | Inr s \<Rightarrow> commit_all s k u cs)"

abbreviation confirmed_at :: "state_store \<Rightarrow> authkey \<Rightarrow> int \<Rightarrow> update_state" where
  "confirmed_at s k u \<equiv> mget zero_state (ss_states s) (k, u)"

abbreviation observed_at :: "state_store \<Rightarrow> authkey \<Rightarrow> int \<Rightarrow> update_state" where
  "observed_at s k u \<equiv> mget zero_state (ss_observed s) (k, u)"

definition valid_mode :: "commit_mode \<Rightarrow> bool" where
  "valid_mode m \<longleftrightarrow> m = UpdateStateCommitDeliveredOnly \<or> m = UpdateStateCommitDeliveredAndObservedBaseline"

abbreviation observing :: "(update_state \<times> commit_mode) list \<Rightarrow> update_state list" where
  "observing cs \<equiv> map fst (filter (\<lambda>c. snd c = UpdateStateCommitDeliveredAndObservedBaseline) cs)"

lemma State_Save_observed: "ss_observed (State_Save s k u st) = ss_observed s"
  by (simp add: State_Save_mono)

lemma State_Observe_states: "ss_states (State_Observe s k u st) = ss_states s"
  by (simp add: State_Observe_def Let_def)

lemma commit_all_reads:
  assumes "\<forall>c \<in> set cs. valid_mode (snd c)"
  shows "\<exists>s'. commit_all s k u cs = Inr s' \<and>
     confirmed_at s' k u = fold (\<lambda>x a. monotonicUpdateState a x) (map fst cs) (confirmed_at s k u) \<and>
     observed_at s' k u = fold (\<lambda>x a. monotonicUpdateState a x) (observing cs) (observed_at s k u)"
  using assms
proof (induction cs arbitrary: s)
  case (Cons c cs)
  obtain st m where c: "c = (st, m)" by fastforce
  with Cons.prems have m: "m = UpdateStateCommitDeliveredOnly \<or> m = UpdateStateCommitDeliveredAndObservedBaseline"
    by (simp add: valid_mode_def)
  define s1 where "s1 = (if m = UpdateStateCommitDeliveredAndObservedBaseline
          then State_Observe (State_Save s k u st) k u st else State_Save s k u st)"
  have "State_CommitDelivered s k u st m = Inr s1" by (simp add: commit_as_marks[OF m] s1_def)
  moreover have "confirmed_at s1 k u = monotonicUpdateState (confirmed_at s k u) st"
    by (simp add: s1_def State_Observe_states State_Save_mono)
  moreover have "observed_at s1 k u =
      (if m = UpdateStateCommitDeliveredAndObservedBaseline
       then monotonicUpdateState (observed_at s k u) st else observed_at s k u)"
    by (simp add: s1_def State_Save_observed State_Observe_def Let_def)
  ultimately show ?case using Cons.IH[of s1] Cons.prems c by auto
qed simp

lemma svc_step_states: "svc_step s s' \<Longrightarrow> svc_states s \<noteq> None \<Longrightarrow> svc_states s' \<noteq> None"
  by (induction rule: svc_step.induct)
     (auto simp: record_defs recordEventCore_def PublishNewMessage_def GetState_def ConfirmEvent_def ObserveDifferenceRequest_def
      CommitDeliveredState_def ClearAuthKey_def saveConfirmedState_def observeClientState_def Let_def
      split: sum.splits option.splits if_splits prod.splits)

lemma svc_steps_states:
  "svc_step\<^sup>*\<^sup>* s s' \<Longrightarrow> svc_states s \<noteq> None \<Longrightarrow> svc_states s' \<noteq> None"
  by (induction rule: rtranclp_induct) (auto dest: svc_step_states)

lemma find_append_last: "find P xs = None \<Longrightarrow> P x \<Longrightarrow> find P (xs @ [x]) = Some x"
  by (induction xs) (auto split: if_splits)

lemma publish_found:
  assumes "svc_wf s" and "PublishNewMessage s now u msg = Inr (e, st, s')"
    and "u \<noteq> 0" and "0 < msg_ID msg" and "svc_events s' = Some (es', memory_events)"
  shows "FindNewMessageEvent es' u (msg_ID msg) = Inr (Some e)"
proof -
  from assms(1) obtain es where es: "svc_events s = Some (es, memory_events)"
    by (auto simp: svc_wf_def)
  let ?new = "\<lambda>event. ev_Type event = UpdateEventNewMessage \<and> msg_ID (ev_Message event) = msg_ID msg"
  show ?thesis
  proof (cases "find ?new (es_events es u)")
    case (Some e0)
    then show ?thesis using assms es
      by (auto simp: PublishNewMessage_def FindNewMessageEvent_def memory_events_def Let_def split: sum.splits)
  next
    case None
    let ?e = "zero_event\<lparr>ev_Type := UpdateEventNewMessage, ev_Date := (if msg_Date msg = 0 then now else msg_Date msg),
        ev_Message := msg, ev_PtsCount := 1\<rparr>"
    have r: "recordEventCore s now 0 0 u ?e True 0 False = Inr (e, st, s')"
      using assms es None
      by (simp add: PublishNewMessage_def FindNewMessageEvent_def memory_events_def Let_def)
    have "?new e"
      using r es by (auto simp: recordEventCore_def memory_events_def AppendAllocatedWithDispatch_def
          event_append_def appendLocked_def Let_def split: if_splits)
    moreover have "es_events es' u = es_events es u @ [e]"
      using recordEventCore_appends(2)[OF assms(1) r] es assms(5)
      by (simp add: svc_log_def fun_eq_iff)
    ultimately show ?thesis using None assms(3,4)
      by (simp add: FindNewMessageEvent_def find_append_last)
  qed
qed

section \<open>Properties\<close>

text \<open>
  C1: In every state the update service over the memory store can reach from a fresh one, by any
  sequence of its operations, each account's event log is hole-free from pts 0 (every event starts
  where the previous one ended and counts at least one), and the pts that the service reports as
  current is exactly the end of that log.
\<close>

theorem service_log_contiguous:
  fixes s :: "('v event_store, 'v) update_svc"
  assumes "svc_step\<^sup>*\<^sup>* (new_memory_service b) s"
  shows "contig 0 (svc_log s u) \<and>
         CurrentState s now u =
           Inr \<lparr>st_Pts = log_end 0 (svc_log s u), st_Qts = 0, st_Date = now, st_Seq = 0\<rparr>"
proof -
  from assms have wf: "svc_wf s"
    using svc_steps_extend svc_wf_new by (auto simp: extends_log_def)
  then obtain es where "svc_events s = Some (es, memory_events)" and "log_wf es"
    by (auto simp: svc_wf_def)
  with svc_wf_contig[OF wf, of u] show ?thesis
    by (simp add: CurrentState_def mem_service.current_state svc_log_def)
qed

definition ex_service :: "(unit event_store, unit) update_svc" where
  "ex_service = (case RecordContactsReset (new_memory_service True) 1700 5 7 0 0 of
     Inr (_, _, s) \<Rightarrow> s | Inl _ \<Rightarrow> new_memory_service True)"

lemma ex_service_recorded:
  "\<exists>e st. RecordContactsReset (new_memory_service True :: (unit event_store, unit) update_svc) 1700 5 7 0 0
     = Inr (e, st, ex_service)"
proof -
  have "\<exists>e st s'. RecordContactsReset (new_memory_service True :: (unit event_store, unit) update_svc)
      1700 5 7 0 0 = Inr (e, st, s')"
    unfolding RecordContactsReset_def recordEvent_def
    by (rule recordEventCore_total) (simp_all add: svc_wf_new)
  then show ?thesis by (auto simp: ex_service_def)
qed

lemma ex_service_step: "svc_step (new_memory_service True) ex_service"
  using ex_service_recorded by (auto intro: svc_step.RecordContactsReset)

lemma ex_service_reached: "svc_step\<^sup>*\<^sup>* (new_memory_service True) ex_service"
  using ex_service_step by blast

lemma ex_service_log:
  "svc_log ex_service 7 = [zero_event\<lparr>ev_UserID := 7, ev_Type := UpdateEventContactsReset,
     ev_Pts := 1, ev_PtsCount := 1, ev_Date := 1700\<rparr>]"
  by (simp add: ex_service_def RecordContactsReset_def recordEvent_def recordEventCore_def
      new_memory_service_def memory_events_def AppendAllocatedWithDispatch_def event_append_def
      appendLocked_def NewUpdateEventStore_def svc_log_def zero_event_def Let_def)

lemma ex_service_end: "log_end 0 (svc_log ex_service 7) = 1"
  by (simp add: ex_service_log)

theorem service_log_contiguous_witness:
  "svc_step\<^sup>*\<^sup>* (new_memory_service True) ex_service \<and> svc_log ex_service 7 \<noteq> [] \<and>
   contig 0 (svc_log ex_service 7) \<and>
   CurrentState ex_service 1800 7 = Inr \<lparr>st_Pts = 1, st_Qts = 0, st_Date = 1800, st_Seq = 0\<rparr>"
  using service_log_contiguous[of True ex_service 7 1800] ex_service_step ex_service_log
  by (auto simp: zero_event_def)

text \<open>
  C2: A client that stopped after some prefix of its account log and keeps asking for differences
  until the answer is no longer partial receives exactly the events it missed, in order, each
  once, and ends at the account's current pts. One request more than the number of full slices
  (100 events each) is enough.
\<close>

theorem difference_catch_up:
  fixes s :: "('v event_store, 'v) update_svc"
  assumes "svc_step\<^sup>*\<^sup>* (new_memory_service b) s"
    and "svc_log s u = seen @ missed" and "st_Pts st0 = log_end 0 seen"
    and "length missed div 100 < n"
  shows "\<exists>st. drain n s now k u st0 = Inr (missed, st) \<and> st_Pts st = log_end 0 (svc_log s u)"
proof -
  from assms(1) have "svc_wf s"
    using svc_steps_extend svc_wf_new by (auto simp: extends_log_def)
  then obtain es where "svc_events s = Some (es, memory_events)" and "log_wf es"
    by (auto simp: svc_wf_def)
  with assms(2-) mem_service.drain_complete[of s es u seen missed st0 n now k] show ?thesis
    by (simp add: svc_log_def)
qed

theorem difference_catch_up_witness:
  "svc_log ex_service 7 \<noteq> [] \<and>
   (\<exists>st. drain 1 ex_service 1800 5 7 zero_state = Inr (svc_log ex_service 7, st) \<and> st_Pts st = 1)"
  using difference_catch_up[of True ex_service 7 "[]" "svc_log ex_service 7" zero_state 1 1800 5]
    ex_service_step ex_service_log by (auto simp: zero_event_def zero_state_def)

text \<open>
  C3: Whatever the memory store holds, holes included, a difference never lets a client skip a
  hole: the returned events continue the clamped request pts without a gap, and the returned state
  is exactly where those events end.
\<close>

theorem difference_hole_free:
  fixes s :: "('v event_store, 'v) update_svc"
  assumes "svc_events s = Some (es, memory_events)" and "counts_pos es"
    and "currentState s now u = Inr cur"
    and "GetDifference s s now k u st0 = Inr d"
  defines "p \<equiv> st_Pts (clampDifferenceState st0 cur)"
  shows "contig p (df_Events d) \<and>
         (st_Pts (df_State d) = log_end p (df_Events d) \<or> df_Events d = [] \<and> st_Pts (df_State d) = st_Pts cur \<and> st_Pts cur \<le> p)"
proof (cases "st_Pts cur \<le> p")
  case True
  then show ?thesis using assms
    by (auto simp: GetDifference_def Let_def mem_service.no_retained_prefix)
next
  case False
  obtain xs where l: "ListAfter es u p getDifferenceLimit = Inr xs"
    by (simp add: ListAfter_def)
  have h: "contig p (fst (contiguousPrefixAndGap xs p))"
    using ListAfter_counts_pos[OF assms(2) l] by (rule prefix_hole_free)
  have "if_ListAfter memory_events es u p getDifferenceLimit = Inr xs"
    using l by (simp add: memory_events_def)
  then show ?thesis using False assms h
    by (auto simp: GetDifference_def Let_def mem_service.no_retained_prefix last_of_contig
        split: if_splits)
qed

theorem difference_hole_free_witness:
  "counts_pos (fst (the (svc_events ex_service))) \<and>
   (\<exists>d. GetDifference ex_service ex_service 1800 5 7 zero_state = Inr d \<and> contig 0 (df_Events d))"
proof -
  obtain es where es: "svc_events ex_service = Some (es, memory_events)" "log_wf es"
    using svc_step_extends[OF ex_service_step svc_wf_new] by (auto simp: extends_log_def svc_wf_def)
  have pos: "counts_pos es"
    using es(2) by (auto simp: counts_pos_def log_wf_def dest: contig_counts)
  have cur: "currentState ex_service 1800 7 = Inr \<lparr>st_Pts = 1, st_Qts = 0, st_Date = 1800, st_Seq = 0\<rparr>"
    using mem_service.current_state[OF es] ex_service_log es by (simp add: svc_log_def zero_event_def)
  obtain d where d: "GetDifference ex_service ex_service 1800 5 7 zero_state = Inr d"
    using mem_service.difference_at_boundary[OF es, of 7 "[]" "es_events es 7" zero_state 1800 5]
    by (simp add: zero_state_def)
  show ?thesis
    using difference_hole_free[OF es(1) pos cur d] pos es d
    by (auto simp: clampDifferenceState_def zero_state_def Let_def)
qed

text \<open>
  Recording an event for an account appends exactly that event at the next pts: the log of the
  account grows by it, every other account's log is untouched, the new pts is the old end of the
  log plus the event's pts count, the device that caused it is confirmed at least up to it, and the
  only error is a dispatch exclusion that names just one of auth key and session.
\<close>

theorem recorded_event_next_pts:
  fixes s :: "('v event_store, 'v) update_svc"
  assumes "svc_step\<^sup>*\<^sup>* (new_memory_service True) s"
  shows "case recordEvent s now k xk u e d xs of
      Inl err \<Rightarrow> err = ErrDispatchExclusion \<and> d \<and> (xk = 0) \<noteq> (xs = 0)
    | Inr (e', st, s') \<Rightarrow>
        svc_log s' = (svc_log s)(u := svc_log s u @ [e']) \<and>
        ev_Pts e' = log_end 0 (svc_log s u) + event_count e \<and>
        (\<exists>sts. svc_states s' = Some sts \<and> ev_Pts e' \<le> st_Pts (confirmed_at sts k u))"
proof -
  from assms have wf: "svc_wf s"
    using svc_steps_extend svc_wf_new by (auto simp: extends_log_def)
  from assms have sts: "svc_states s \<noteq> None"
    by (rule svc_steps_states) (simp add: new_memory_service_def)
  show ?thesis
  proof (cases "recordEvent s now k xk u e d xs")
    case (Inl err)
    then show ?thesis using wf
      by (auto simp: recordEvent_def recordEventCore_def Let_def svc_wf_def memory_events_def
          AppendAllocatedWithDispatch_def AppendAllocated_def event_append_def split: sum.splits if_splits prod.splits)
  next
    case (Inr r)
    obtain e' st s' where r: "r = (e', st, s')" by (cases r)
    note f = recordEventCore_appends[OF wf Inr[unfolded recordEvent_def r]]
    obtain st1 where "svc_states s = Some st1" using sts by blast
    moreover have "st_Pts st \<le> st_Pts (confirmed_at (State_Save st1 k u st) k u)"
      using confirmed_mark.reaches[of st st1 "(k, u)"] by (simp add: state_le_def)
    ultimately show ?thesis using f Inr r by simp
  qed
qed

theorem recorded_event_next_pts_witness:
  "\<exists>e' st s'. recordEvent ex_service 1800 5 0 7 zero_event False 0 = Inr (e', st, s') \<and>
     ev_Pts e' = 2 \<and> svc_log s' 7 = svc_log ex_service 7 @ [e']"
  using recorded_event_next_pts[where s = ex_service and now = 1800 and k = 5 and xk = 0 and u = 7
      and e = zero_event and d = False and xs = 0, OF ex_service_reached]
  by (auto simp: ex_service_end event_count_def zero_event_def split: sum.splits)

text \<open>
  Publishing the same message twice is idempotent: when a numbered message was published to a
  known account, publishing the same message id there again returns the very event the first call
  recorded and changes nothing, so no second pts is spent on it.
\<close>

theorem publish_idempotent:
  fixes s :: "('v event_store, 'v) update_svc"
  assumes "svc_step\<^sup>*\<^sup>* (new_memory_service b) s"
    and "PublishNewMessage s now u msg = Inr (e, st, s')"
    and "u \<noteq> 0" and "0 < msg_ID msg" and "msg_ID msg' = msg_ID msg"
  shows "\<exists>st'. PublishNewMessage s' now' u msg' = Inr (e, st', s')"
proof -
  from assms(1) have wf: "svc_wf s"
    using svc_steps_extend svc_wf_new by (auto simp: extends_log_def)
  have wf': "svc_wf s'"
    using svc_step_extends[OF svc_step.PublishNewMessage[OF assms(2)] wf] by (simp add: extends_log_def)
  then obtain es' where es': "svc_events s' = Some (es', memory_events)" "log_wf es'"
    by (auto simp: svc_wf_def)
  have "FindNewMessageEvent es' u (msg_ID msg) = Inr (Some e)"
    using publish_found[OF wf assms(2-4) es'(1)] .
  then show ?thesis using assms(3-5) es' mem_service.current_state[OF es', of now' u]
    by (simp add: PublishNewMessage_def Let_def memory_events_def)
qed

definition ex_message :: "unit message" where
  "ex_message = zero_message\<lparr>msg_ID := 3, msg_OwnerUserID := 7\<rparr>"

theorem publish_idempotent_witness:
  "\<exists>e st s' st'. PublishNewMessage ex_service 1800 7 ex_message = Inr (e, st, s') \<and>
     svc_log s' 7 = svc_log ex_service 7 @ [e] \<and>
     PublishNewMessage s' 1900 7 ex_message = Inr (e, st', s')"
proof -
  obtain es where es: "svc_events ex_service = Some (es, memory_events)"
    using svc_step_extends[OF ex_service_step svc_wf_new] by (auto simp: extends_log_def svc_wf_def)
  have none: "FindNewMessageEvent es 7 3 = Inr None"
    using ex_service_log es
    by (simp add: FindNewMessageEvent_def svc_log_def zero_event_def)
  let ?e = "zero_event\<lparr>ev_Type := UpdateEventNewMessage, ev_Date := 1800, ev_Message := ex_message,
                  ev_PtsCount := 1\<rparr>"
  have wf: "svc_wf ex_service"
    using svc_step_extends[OF ex_service_step svc_wf_new] by (simp add: extends_log_def)
  obtain e st s' where r: "recordEventCore ex_service 1800 0 0 7 ?e True 0 False = Inr (e, st, s')"
    using recordEventCore_total[OF wf, of True 0 0] by metis
  have p: "PublishNewMessage ex_service 1800 7 ex_message = Inr (e, st, s')"
    using r none es by (simp add: PublishNewMessage_def Let_def memory_events_def ex_message_def zero_message_def)
  from publish_idempotent[OF _ p, of True ex_message 1900] recordEventCore_appends(2)[OF wf r] p
  show ?thesis using ex_service_step by (auto simp: ex_message_def)
qed

text \<open>
  The account log is append-only over the whole life of the service: no sequence of operations,
  clearing an auth key included, ever drops, reorders or changes an event that was recorded.
\<close>

theorem durable_log_append_only:
  fixes s s' :: "('v event_store, 'v) update_svc"
  assumes "svc_step\<^sup>*\<^sup>* (new_memory_service b) s" and "svc_step\<^sup>*\<^sup>* s s'"
  shows "\<exists>new. svc_log s' u = svc_log s u @ new"
proof -
  from assms(1) have "svc_wf s"
    using svc_steps_extend svc_wf_new by (auto simp: extends_log_def)
  from svc_steps_extend[OF assms(2) this] show ?thesis by (simp add: extends_log_def)
qed

theorem durable_log_append_only_witness:
  "\<exists>new. svc_log (ClearAuthKey ex_service 5) 7 = svc_log ex_service 7 @ new"
  using durable_log_append_only[of True ex_service "ClearAuthKey ex_service 5" 7] ex_service_step
    svc_step.ClearAuthKey[of ex_service 5] by blast

text \<open>
  C4: The delivery commits of one device converge: for any two orders of the same commits, each
  with a mode the code knows, both runs succeed and leave the same confirmed and the same observed
  state, and neither watermark falls below where it was.
\<close>

theorem commits_converge:
  assumes "mset cs = mset cs'" and "\<forall>c \<in> set cs. valid_mode (snd c)"
  shows "\<exists>s1 s2. commit_all s k u cs = Inr s1 \<and> commit_all s k u cs' = Inr s2 \<and>
     confirmed_at s1 k u = confirmed_at s2 k u \<and> observed_at s1 k u = observed_at s2 k u \<and>
     state_le (confirmed_at s k u) (confirmed_at s1 k u) \<and>
     state_le (observed_at s k u) (observed_at s1 k u)"
proof -
  have "\<forall>c \<in> set cs'. valid_mode (snd c)" using assms mset_eq_setD by blast
  with assms(2) obtain s1 s2 where
    1: "commit_all s k u cs = Inr s1"
       "confirmed_at s1 k u = fold (\<lambda>x a. monotonicUpdateState a x) (map fst cs) (confirmed_at s k u)"
       "observed_at s1 k u = fold (\<lambda>x a. monotonicUpdateState a x) (observing cs) (observed_at s k u)" and
    2: "commit_all s k u cs' = Inr s2"
       "confirmed_at s2 k u = fold (\<lambda>x a. monotonicUpdateState a x) (map fst cs') (confirmed_at s k u)"
       "observed_at s2 k u = fold (\<lambda>x a. monotonicUpdateState a x) (observing cs') (observed_at s k u)"
    using commit_all_reads[of cs s k u] commit_all_reads[of cs' s k u] by blast
  have "mset (map fst cs) = mset (map fst cs')" "mset (observing cs) = mset (observing cs')"
    using assms(1) by simp_all
  then have "confirmed_at s1 k u = confirmed_at s2 k u" "observed_at s1 k u = observed_at s2 k u"
    using confirmed_mark.order_irrelevant[of "map fst cs" "map fst cs'" s "(k, u)"]
      observed_mark.order_irrelevant[of "observing cs" "observing cs'" s "(k, u)"]
    unfolding confirmed_mark.advances_read observed_mark.advances_read 1 2 by simp_all
  moreover have "state_le (confirmed_at s k u) (confirmed_at s1 k u)"
    "state_le (observed_at s k u) (observed_at s1 k u)"
    using confirmed_mark.never_back_run[of s "(k, u)" "(k, u)" "map fst cs"]
      observed_mark.never_back_run[of s "(k, u)" "(k, u)" "observing cs"]
    unfolding confirmed_mark.advances_read observed_mark.advances_read 1 by simp_all
  ultimately show ?thesis using 1(1) 2(1) by blast
qed

theorem commits_converge_witness:
  "\<exists>s1 s2. commit_all NewUpdateStateStore 5 7 [(zero_state\<lparr>st_Pts := 9\<rparr>, 2), (zero_state\<lparr>st_Pts := 4\<rparr>, 1)] = Inr s1 \<and>
     commit_all NewUpdateStateStore 5 7 [(zero_state\<lparr>st_Pts := 4\<rparr>, 1), (zero_state\<lparr>st_Pts := 9\<rparr>, 2)] = Inr s2 \<and>
     confirmed_at s1 5 7 = confirmed_at s2 5 7 \<and> observed_at s1 5 7 = observed_at s2 5 7"
  using commits_converge[of "[(zero_state\<lparr>st_Pts := 9\<rparr>, 2), (zero_state\<lparr>st_Pts := 4\<rparr>, 1)]"
      "[(zero_state\<lparr>st_Pts := 4\<rparr>, 1), (zero_state\<lparr>st_Pts := 9\<rparr>, 2)]" NewUpdateStateStore 5 7]
  by (auto simp: valid_mode_def UpdateStateCommitDeliveredOnly_def
      UpdateStateCommitDeliveredAndObservedBaseline_def)

text \<open>
  C5: On every content of the event store, contiguous or not, in which no event's start
  Pts - count leaves the range of an int64 (pts of at least 0 suffice), the scan for the
  highest contiguous pts, with Go's 64-bit subtraction, returns; its result is linked to 0 by a chain
  of recorded events and no recorded event starts at it.
\<close>

theorem max_contiguous_returns:
  assumes "\<forall>e \<in> set (es_events s u). is_i64 (ev_Pts e - event_count e)"
  shows "\<exists>pts. MaxContiguousPts64 s u = Inr pts \<and> (0, pts) \<in> (event_spans (es_events s u))\<^sup>* \<and>
           pts \<notin> Domain (event_spans (es_events s u))"
proof -
  have "MaxContiguousPts64 s u = MaxContiguousPts s u"
    using assms by (simp add: MaxContiguousPts64_exact starts_fit_def)
  then show ?thesis using MaxContiguousPts_total[of s u] by simp
qed

text \<open>A log with a hole: events at pts 1 and 2, then one that starts at 5.\<close>

theorem max_contiguous_returns_witness:
  "let s = (NewUpdateEventStore :: unit event_store)\<lparr>es_events := (\<lambda>_. [])(7 := [zero_event\<lparr>ev_Pts := 2\<rparr>,
       zero_event\<lparr>ev_Pts := 7, ev_PtsCount := 2\<rparr>, zero_event\<lparr>ev_Pts := 1\<rparr>])\<rparr>
   in MaxContiguousPts64 s 7 = Inr 2 \<and>
      (0, 2) \<in> (event_spans (es_events s 7))\<^sup>* \<and> 2 \<notin> Domain (event_spans (es_events s 7))"
proof -
  let ?s = "(NewUpdateEventStore :: unit event_store)\<lparr>es_events := (\<lambda>_. [])(7 := [zero_event\<lparr>ev_Pts := 2\<rparr>,
       zero_event\<lparr>ev_Pts := 7, ev_PtsCount := 2\<rparr>, zero_event\<lparr>ev_Pts := 1\<rparr>])\<rparr>"
  have "\<exists>pts. MaxContiguousPts64 ?s 7 = Inr pts \<and> (0, pts) \<in> (event_spans (es_events ?s 7))\<^sup>* \<and>
      pts \<notin> Domain (event_spans (es_events ?s 7))"
    by (rule max_contiguous_returns) (simp add: is_i64_def event_count_def zero_event_def)
  moreover have "MaxContiguousPts64 ?s 7 = Inr 2"
    by (simp add: MaxContiguousPts64_def event_count_def zero_event_def is_i64_def)
  ultimately show ?thesis by auto
qed

end
