(* ===== verification/Rpc_Budget.thy ===== *)
theory Rpc_Budget
  imports SG_Prelude
begin

text \<open>
  The capacity accounting behind the RPC execution ledger of the MTProto edge
  (\<open>internal/mtprotoedge\<close>): the atomic in-flight counter (\<open>rpc_flight.go\<close>), the fair
  budget that charges one ledger row at global, auth and session scope
  (\<open>rpc_execution_budget.go\<close>), the budget of retained subscriber callbacks
  (\<open>rpc_result_subscriber_budget.go\<close>) and the tracker of admission sequences
  (\<open>rpc_admission_tracker.go\<close>).

  The 64 lock shards of a budget partition one usage map by a hash of the key, so the maps are
  modelled whole; both shard locks are held over each operation, which makes it one step. A
  reservation is an object with identity that flights and receipts share: it lives in the heap
  \<open>fb_reservations\<close> and is named by its index. A panic of the code is the error value
  \<open>Panic\<close>. Receivers and collaborators that the constructors always set are not modelled
  as possibly nil.

  Lemmas: every counter always equals the number of rows or callbacks it stands for, stays
  within its limit, and no release of a held charge panics.
\<close>

section \<open>Errors and keys\<close>

datatype edge_error =
    Panic string
  | ErrRPCResultFlightCapacity
  | ErrRPCResultSubscriberCapacity
  | ErrRPCResultFlightInvalid
  | ErrRPCResultIdentityMismatch int bool
  | ErrRPCResultReplayUnavailable
  | ErrRPCAdmissionSeqExhausted

record rpc_key =
  rk_authKeyID :: authkey
  rk_sessionID :: sessionid
  rk_reqMsgID :: int

type_synonym session_key = "authkey \<times> sessionid"

definition session_of :: "rpc_key \<Rightarrow> session_key" where
  "session_of key = (rk_authKeyID key, rk_sessionID key)"

section \<open>The in-flight counter\<close>

record flight_limit =
  lim_max :: int
  lim_used :: int

text \<open>
  The compare-and-swap loop retries until no other goroutine changed the counter between its load
  and its swap, so a call is the atomic update below.
\<close>

definition reserveN :: "flight_limit \<Rightarrow> int \<Rightarrow> bool \<times> flight_limit" where
  "reserveN l delta =
     (if lim_max l \<le> 0 then (False, l)
      else if delta \<le> 0 then (False, l)
      else if lim_used l < 0 \<or> lim_used l > lim_max l - delta then (False, l)
      else (True, l\<lparr>lim_used := lim_used l + delta\<rparr>))"

definition limit_reserve :: "flight_limit \<Rightarrow> bool \<times> flight_limit" where
  "limit_reserve l = reserveN l 1"

definition releaseN :: "flight_limit \<Rightarrow> int \<Rightarrow> edge_error + flight_limit" where
  "releaseN l delta =
     (if delta \<le> 0 then Inl (Panic ''mtproto rpc result counter release must be positive'')
      else let remaining = lim_used l - delta in
           if remaining < 0 then Inl (Panic ''mtproto rpc result in-flight counter underflow'')
           else Inr (l\<lparr>lim_used := remaining\<rparr>))"

definition limit_release :: "flight_limit \<Rightarrow> edge_error + flight_limit" where
  "limit_release l = releaseN l 1"

definition limit_snapshot :: "flight_limit \<Rightarrow> int" where
  "limit_snapshot l = lim_used l"

section \<open>The fair budget\<close>

record budget_usage =
  bu_entries :: int
  bu_pending :: int

definition zero_usage :: budget_usage where
  "zero_usage = \<lparr>bu_entries = 0, bu_pending = 0\<rparr>"

record reservation =
  rv_key :: rpc_key
  rv_pending :: bool
  rv_released :: bool

record fair_budget =
  fb_global :: flight_limit
  fb_authLimit :: int
  fb_sessionLimit :: int
  fb_pendingPerAuth :: int
  fb_auth :: "authkey \<rightharpoonup> budget_usage"
  fb_session :: "session_key \<rightharpoonup> budget_usage"
  fb_reservations :: "reservation list"

definition newRPCExecutionFairBudget :: "flight_limit \<Rightarrow> int \<Rightarrow> int \<Rightarrow> int \<Rightarrow> fair_budget" where
  "newRPCExecutionFairBudget globalEntries authLimit sessionLimit pendingPerAuth =
     \<lparr>fb_global = globalEntries, fb_authLimit = authLimit, fb_sessionLimit = sessionLimit,
      fb_pendingPerAuth = pendingPerAuth, fb_auth = Map.empty, fb_session = Map.empty,
      fb_reservations = []\<rparr>"

definition withinRPCExecutionBudget :: "int \<Rightarrow> int \<Rightarrow> int \<Rightarrow> bool" where
  "withinRPCExecutionBudget used delta limit \<longleftrightarrow>
     delta \<ge> 0 \<and> limit > 0 \<and> used \<ge> 0 \<and> used \<le> limit - delta"

definition fb_reserve :: "fair_budget \<Rightarrow> rpc_key \<Rightarrow> bool \<Rightarrow> nat option \<times> fair_budget" where
  "fb_reserve b key pending =
     (let authUsage = mget zero_usage (fb_auth b) (rk_authKeyID key);
          sessionUsage = mget zero_usage (fb_session b) (session_of key);
          allowed = (withinRPCExecutionBudget (bu_entries authUsage) 1 (fb_authLimit b) \<and>
                     withinRPCExecutionBudget (bu_entries sessionUsage) 1 (fb_sessionLimit b));
          allowed = (if pending
                     then allowed \<and> withinRPCExecutionBudget (bu_pending authUsage) 1 (fb_pendingPerAuth b)
                     else allowed)
      in if \<not> allowed then (None, b)
         else case limit_reserve (fb_global b) of
           (False, g) \<Rightarrow> (None, b\<lparr>fb_global := g\<rparr>)
         | (True, g) \<Rightarrow>
             let authUsage = authUsage\<lparr>bu_entries := bu_entries authUsage + 1\<rparr>;
                 sessionUsage = sessionUsage\<lparr>bu_entries := bu_entries sessionUsage + 1\<rparr>;
                 authUsage = (if pending then authUsage\<lparr>bu_pending := bu_pending authUsage + 1\<rparr>
                              else authUsage)
             in (Some (length (fb_reservations b)),
                 b\<lparr>fb_global := g,
                   fb_auth := (fb_auth b)(rk_authKeyID key \<mapsto> authUsage),
                   fb_session := (fb_session b)(session_of key \<mapsto> sessionUsage),
                   fb_reservations := fb_reservations b @
                     [\<lparr>rv_key = key, rv_pending = pending, rv_released = False\<rparr>]\<rparr>))"

definition reserveOwner :: "fair_budget \<Rightarrow> rpc_key \<Rightarrow> nat option \<times> fair_budget" where
  "reserveOwner b key = fb_reserve b key True"

definition reserveCompleted :: "fair_budget \<Rightarrow> rpc_key \<Rightarrow> nat option \<times> fair_budget" where
  "reserveCompleted b key = fb_reserve b key False"

definition releasePending :: "fair_budget \<Rightarrow> nat \<Rightarrow> edge_error + fair_budget" where
  "releasePending b r =
     (let res = fb_reservations b ! r; auth = rk_authKeyID (rv_key res) in
      if rv_released res \<or> \<not> rv_pending res then Inr b
      else case fb_auth b auth of
        None \<Rightarrow> Inl (Panic ''mtprotoedge: rpc execution per-auth pending budget underflow'')
      | Some usage \<Rightarrow>
          if bu_pending usage < 1
          then Inl (Panic ''mtprotoedge: rpc execution per-auth pending budget underflow'')
          else Inr (b\<lparr>fb_auth := (fb_auth b)(auth \<mapsto> usage\<lparr>bu_pending := bu_pending usage - 1\<rparr>),
                      fb_reservations := (fb_reservations b)[r := res\<lparr>rv_pending := False\<rparr>]\<rparr>))"

definition put_usage :: "('k \<rightharpoonup> budget_usage) \<Rightarrow> 'k \<Rightarrow> budget_usage \<Rightarrow> ('k \<rightharpoonup> budget_usage)" where
  "put_usage m k usage = (if usage = zero_usage then m(k := None) else m(k \<mapsto> usage))"

definition fb_release :: "fair_budget \<Rightarrow> nat \<Rightarrow> edge_error + fair_budget" where
  "fb_release b r =
     (let res = fb_reservations b ! r;
          auth = rk_authKeyID (rv_key res); session = session_of (rv_key res) in
      if rv_released res then Inr b
      else case (fb_auth b auth, fb_session b session) of
        (Some authUsage, Some sessionUsage) \<Rightarrow>
          if bu_entries authUsage < 1 \<or> bu_entries sessionUsage < 1 \<or>
             (rv_pending res \<and> bu_pending authUsage < 1)
          then Inl (Panic ''mtprotoedge: rpc execution fair budget underflow'')
          else let authUsage = authUsage\<lparr>bu_entries := bu_entries authUsage - 1\<rparr>;
                   sessionUsage = sessionUsage\<lparr>bu_entries := bu_entries sessionUsage - 1\<rparr>;
                   authUsage = (if rv_pending res
                                then authUsage\<lparr>bu_pending := bu_pending authUsage - 1\<rparr>
                                else authUsage)
               in case limit_release (fb_global b) of
                    Inl e \<Rightarrow> Inl e
                  | Inr g \<Rightarrow>
                      Inr (b\<lparr>fb_global := g,
                             fb_auth := put_usage (fb_auth b) auth authUsage,
                             fb_session := put_usage (fb_session b) session sessionUsage,
                             fb_reservations := (fb_reservations b)
                               [r := res\<lparr>rv_released := True, rv_pending := False\<rparr>]\<rparr>)
      | _ \<Rightarrow> Inl (Panic ''mtprotoedge: rpc execution fair budget underflow''))"

definition fb_authSnapshot :: "fair_budget \<Rightarrow> authkey \<Rightarrow> budget_usage" where
  "fb_authSnapshot b authKeyID = mget zero_usage (fb_auth b) authKeyID"

definition fb_sessionSnapshot :: "fair_budget \<Rightarrow> authkey \<Rightarrow> sessionid \<Rightarrow> budget_usage" where
  "fb_sessionSnapshot b authKeyID sessionID = mget zero_usage (fb_session b) (authKeyID, sessionID)"

section \<open>The subscriber budget\<close>

record subscriber_budget =
  sb_global :: flight_limit
  sb_authLimit :: int
  sb_sessionLimit :: int
  sb_auth :: "authkey \<rightharpoonup> int"
  sb_session :: "session_key \<rightharpoonup> int"

definition newRPCResultSubscriberBudget :: "int \<Rightarrow> int \<Rightarrow> int \<Rightarrow> subscriber_budget" where
  "newRPCResultSubscriberBudget globalLimit authLimit sessionLimit =
     \<lparr>sb_global = \<lparr>lim_max = globalLimit, lim_used = 0\<rparr>, sb_authLimit = authLimit,
      sb_sessionLimit = sessionLimit, sb_auth = Map.empty, sb_session = Map.empty\<rparr>"

definition sub_reserve :: "subscriber_budget \<Rightarrow> rpc_key \<Rightarrow> int \<Rightarrow> bool \<times> subscriber_budget" where
  "sub_reserve b key slots =
     (if slots \<le> 0 then (False, b)
      else let authUsed = mget 0 (sb_auth b) (rk_authKeyID key);
               sessionUsed = mget 0 (sb_session b) (session_of key)
           in if \<not> withinRPCExecutionBudget authUsed slots (sb_authLimit b) \<or>
                 \<not> withinRPCExecutionBudget sessionUsed slots (sb_sessionLimit b)
              then (False, b)
              else case reserveN (sb_global b) slots of
                     (False, g) \<Rightarrow> (False, b\<lparr>sb_global := g\<rparr>)
                   | (True, g) \<Rightarrow>
                       (True, b\<lparr>sb_global := g,
                                sb_auth := (sb_auth b)(rk_authKeyID key \<mapsto> authUsed + slots),
                                sb_session := (sb_session b)(session_of key \<mapsto> sessionUsed + slots)\<rparr>))"

definition put_count :: "('k \<rightharpoonup> int) \<Rightarrow> 'k \<Rightarrow> int \<Rightarrow> ('k \<rightharpoonup> int)" where
  "put_count m k n = (if n = 0 then m(k := None) else m(k \<mapsto> n))"

definition sub_release :: "subscriber_budget \<Rightarrow> rpc_key \<Rightarrow> int \<Rightarrow> edge_error + subscriber_budget" where
  "sub_release b key slots =
     (if slots \<le> 0 then Inl (Panic ''mtproto rpc result subscriber release must be positive'')
      else case (sb_auth b (rk_authKeyID key), sb_session b (session_of key)) of
        (Some authUsed, Some sessionUsed) \<Rightarrow>
          if authUsed < slots \<or> sessionUsed < slots
          then Inl (Panic ''mtproto rpc result subscriber budget underflow'')
          else (case releaseN (sb_global b) slots of
                  Inl e \<Rightarrow> Inl e
                | Inr g \<Rightarrow>
                    Inr (b\<lparr>sb_global := g,
                           sb_auth := put_count (sb_auth b) (rk_authKeyID key) (authUsed - slots),
                           sb_session := put_count (sb_session b) (session_of key) (sessionUsed - slots)\<rparr>))
      | _ \<Rightarrow> Inl (Panic ''mtproto rpc result subscriber budget underflow''))"

definition sub_authSnapshot :: "subscriber_budget \<Rightarrow> authkey \<Rightarrow> int" where
  "sub_authSnapshot b authKeyID = mget 0 (sb_auth b) authKeyID"

definition sub_sessionSnapshot :: "subscriber_budget \<Rightarrow> authkey \<Rightarrow> sessionid \<Rightarrow> int" where
  "sub_sessionSnapshot b authKeyID sessionID = mget 0 (sb_session b) (authKeyID, sessionID)"

section \<open>The admission tracker\<close>

text \<open>
  Each of the 64 shards holds the active sequences \<open>s\<close> with \<open>s mod 64\<close> equal to its index. A
  shard's Go map is the list of its keys in some iteration order.
\<close>

abbreviation MaxUint64 :: "64 word" where
  "MaxUint64 \<equiv> - 1"

type_synonym tracker = "nat \<Rightarrow> 64 word list"

definition rpcAdmissionTrackerShards :: nat where
  "rpcAdmissionTrackerShards = 64"

definition tracker_shard :: "64 word \<Rightarrow> nat" where
  "tracker_shard sequence = unat sequence mod rpcAdmissionTrackerShards"

definition new_tracker :: tracker where
  "new_tracker = (\<lambda>_. [])"

definition allocateAndRegister ::
  "tracker \<Rightarrow> 64 word \<Rightarrow> edge_error + (64 word \<times> tracker \<times> 64 word)" where
  "allocateAndRegister t nextSeq =
     (if nextSeq = MaxUint64 then Inl ErrRPCAdmissionSeqExhausted
      else let sequence = nextSeq + 1; i = tracker_shard sequence
           in Inr (sequence, t(i := List.insert sequence (t i)), sequence))"

definition retire :: "tracker \<Rightarrow> 64 word \<Rightarrow> edge_error + tracker" where
  "retire t sequence =
     (if sequence = 0 then Inr t
      else let i = tracker_shard sequence
           in if sequence \<notin> set (t i)
              then Inl (Panic ''mtprotoedge: rpc admission sequence retired more than once'')
              else Inr (t(i := removeAll sequence (t i))))"

fun minimum_loop :: "64 word \<Rightarrow> 64 word list \<Rightarrow> 64 word" where
  "minimum_loop m [] = m"
| "minimum_loop m (sequence # rest) =
     minimum_loop (if m = 0 \<or> sequence < m then sequence else m) rest"

fun shards_loop :: "tracker \<Rightarrow> 64 word \<Rightarrow> nat list \<Rightarrow> 64 word" where
  "shards_loop t m [] = m"
| "shards_loop t m (index # rest) = shards_loop t (minimum_loop m (t index)) rest"

definition stableSafeFloor :: "tracker \<Rightarrow> 64 word \<Rightarrow> 64 word" where
  "stableSafeFloor t nextSeq =
     (let m = shards_loop t 0 [0..<rpcAdmissionTrackerShards]
      in if m \<noteq> 0 then m
         else if nextSeq = MaxUint64 then MaxUint64
         else nextSeq + 1)"

section \<open>Bounded counters\<close>

text \<open>
  What a holder of capacity relies on: \<open>take\<close> charges a positive amount only within the
  capacity and \<open>give\<close> returns it. \<open>held s M\<close> says that \<open>s\<close> is the counter of a run in
  which the amounts \<open>M\<close> were taken and not yet given back.
\<close>

locale bounded_counter =
  fixes used :: "'s \<Rightarrow> int" and cap :: "'s \<Rightarrow> int"
    and take :: "'s \<Rightarrow> int \<Rightarrow> 's option" and give :: "'s \<Rightarrow> int \<Rightarrow> 's option"
  assumes take_some: "0 < n \<Longrightarrow> 0 \<le> used s \<Longrightarrow> take s n = Some s' \<Longrightarrow>
        used s' = used s + n \<and> cap s' = cap s \<and> used s' \<le> cap s"
    and take_fits: "0 < n \<Longrightarrow> 0 \<le> used s \<Longrightarrow> used s + n \<le> cap s \<Longrightarrow> take s n \<noteq> None"
    and give_some: "give s n = Some s' \<Longrightarrow> used s' = used s - n \<and> cap s' = cap s"
    and give_held: "0 < n \<Longrightarrow> n \<le> used s \<Longrightarrow> give s n \<noteq> None"
begin

inductive held :: "'s \<Rightarrow> int multiset \<Rightarrow> bool" where
  start: "used s = 0 \<Longrightarrow> 0 \<le> cap s \<Longrightarrow> held s {#}"
| take: "held s M \<Longrightarrow> 0 < n \<Longrightarrow> take s n = Some s' \<Longrightarrow> held s' (add_mset n M)"
| give: "held s M \<Longrightarrow> n \<in># M \<Longrightarrow> give s n = Some s' \<Longrightarrow> held s' (M - {#n#})"

lemma held_sum:
  "held s M \<Longrightarrow> used s = sum_mset M \<and> (\<forall>n \<in># M. 0 < n) \<and> used s \<le> cap s"
proof (induction rule: held.induct)
  case (take s M n s')
  then have "0 \<le> used s" using sum_mset_nonneg_int by metis
  then show ?case using take take_some[of n s s'] by auto
next
  case (give s M n s')
  then show ?case using give_some[of s n s'] sum_mset.remove[of n M]
    by (auto dest: in_diffD)
qed auto

end

lemma reserveN_cases:
  "reserveN l n = (ok, l') \<Longrightarrow>
     (ok \<and> 0 < n \<and> 0 \<le> lim_used l \<and> lim_used l + n \<le> lim_max l \<and> l' = l\<lparr>lim_used := lim_used l + n\<rparr>) \<or>
     (\<not> ok \<and> l' = l)"
  by (auto simp: reserveN_def split: if_splits)

interpretation flight_counter: bounded_counter lim_used lim_max
  "\<lambda>l n. case reserveN l n of (True, l') \<Rightarrow> Some l' | (False, _) \<Rightarrow> None"
  "\<lambda>l n. case releaseN l n of Inr l' \<Rightarrow> Some l' | Inl _ \<Rightarrow> None"
  by standard (auto simp: reserveN_def releaseN_def Let_def split: if_splits)

section \<open>The fair budget counts its reservations\<close>

definition live :: "reservation \<Rightarrow> bool" where
  "live r \<longleftrightarrow> \<not> rv_released r"

definition live_auth :: "authkey \<Rightarrow> reservation \<Rightarrow> bool" where
  "live_auth a r \<longleftrightarrow> live r \<and> rk_authKeyID (rv_key r) = a"

definition pending_auth :: "authkey \<Rightarrow> reservation \<Rightarrow> bool" where
  "pending_auth a r \<longleftrightarrow> live_auth a r \<and> rv_pending r"

definition live_session :: "session_key \<Rightarrow> reservation \<Rightarrow> bool" where
  "live_session k r \<longleftrightarrow> live r \<and> session_of (rv_key r) = k"

definition usage_opt :: "int \<Rightarrow> int \<Rightarrow> budget_usage option" where
  "usage_opt entries pending =
     (if entries = 0 then None else Some \<lparr>bu_entries = entries, bu_pending = pending\<rparr>)"

definition fb_exact :: "fair_budget \<Rightarrow> bool" where
  "fb_exact b \<longleftrightarrow> (let heap = fb_reservations b in
     lim_used (fb_global b) = count_if live heap \<and>
     (\<forall>a. fb_auth b a = usage_opt (count_if (live_auth a) heap) (count_if (pending_auth a) heap)) \<and>
     (\<forall>k. fb_session b k = usage_opt (count_if (live_session k) heap) 0))"

definition fb_bounded :: "fair_budget \<Rightarrow> bool" where
  "fb_bounded b \<longleftrightarrow> (let heap = fb_reservations b in
     count_if live heap \<le> max 0 (lim_max (fb_global b)) \<and>
     (\<forall>a. count_if (live_auth a) heap \<le> max 0 (fb_authLimit b)) \<and>
     (\<forall>a. count_if (pending_auth a) heap \<le> max 0 (fb_pendingPerAuth b)) \<and>
     (\<forall>k. count_if (live_session k) heap \<le> max 0 (fb_sessionLimit b)))"

definition fb_inv :: "fair_budget \<Rightarrow> bool" where
  "fb_inv b \<longleftrightarrow> fb_exact b \<and> fb_bounded b \<and>
     (\<forall>r \<in> set (fb_reservations b). rv_released r \<longrightarrow> \<not> rv_pending r)"

lemmas live_defs = live_def live_auth_def pending_auth_def live_session_def

lemma pending_le_live: "count_if (pending_auth a) h \<le> count_if (live_auth a) h"
  by (rule count_if_mono) (simp add: pending_auth_def)

lemma usage_opt_entries:
  "bu_entries (case usage_opt e p of None \<Rightarrow> zero_usage | Some u \<Rightarrow> u) = e"
  by (simp add: usage_opt_def zero_usage_def)

lemma put_usage_opt:
  assumes "\<And>k'. m k' = usage_opt (f k') (g k')" and "0 \<le> p" and "p \<le> e"
  shows "put_usage m k \<lparr>bu_entries = e, bu_pending = p\<rparr> k' =
     (if k' = k then usage_opt e p else usage_opt (f k') (g k'))"
  using assms by (auto simp: put_usage_def usage_opt_def zero_usage_def)

lemma fb_inv_new:
  "0 \<le> lim_max g \<Longrightarrow> lim_used g = 0 \<Longrightarrow> fb_inv (newRPCExecutionFairBudget g a s p)"
  by (simp add: fb_inv_def fb_exact_def fb_bounded_def newRPCExecutionFairBudget_def usage_opt_def)

lemma fb_reserve_None: "fb_reserve b key p = (None, b') \<Longrightarrow> b' = b"
  by (auto simp: fb_reserve_def Let_def limit_reserve_def dest!: reserveN_cases split: if_splits prod.splits bool.splits)

lemma fb_auth_usage:
  assumes "fb_exact b"
  shows "mget zero_usage (fb_auth b) a =
     \<lparr>bu_entries = count_if (live_auth a) (fb_reservations b),
      bu_pending = count_if (pending_auth a) (fb_reservations b)\<rparr>"
proof -
  have "count_if (live_auth a) (fb_reservations b) = 0 \<Longrightarrow> count_if (pending_auth a) (fb_reservations b) = 0"
    using pending_le_live[of a "fb_reservations b"] count_if_nonneg[of "pending_auth a" "fb_reservations b"]
    by linarith
  then show ?thesis using assms
    by (simp add: fb_exact_def Let_def mget_def usage_opt_def zero_usage_def)
qed

lemma fb_session_usage:
  "fb_exact b \<Longrightarrow> mget zero_usage (fb_session b) k =
     \<lparr>bu_entries = count_if (live_session k) (fb_reservations b), bu_pending = 0\<rparr>"
  by (simp add: fb_exact_def Let_def mget_def usage_opt_def zero_usage_def del: split_paired_All)

lemma fb_reserve_Some:
  assumes inv: "fb_inv b" and res: "fb_reserve b key p = (Some r, b')"
  shows "r = length (fb_reservations b)"
    and "fb_reservations b' = fb_reservations b @ [\<lparr>rv_key = key, rv_pending = p, rv_released = False\<rparr>]"
    and "fb_inv b'"
proof -
  let ?h = "fb_reservations b" and ?a = "rk_authKeyID key" and ?s = "session_of key"
  from inv have ex: "fb_exact b" and bd: "fb_bounded b"
    and rel: "\<forall>r \<in> set ?h. rv_released r \<longrightarrow> \<not> rv_pending r" by (simp_all add: fb_inv_def)
  note usage = fb_auth_usage[OF ex, of ?a] fb_session_usage[OF ex, of ?s]
  from res obtain g where g: "limit_reserve (fb_global b) = (True, g)"
    and lim: "count_if (live_auth ?a) ?h < fb_authLimit b" "count_if (live_session ?s) ?h < fb_sessionLimit b"
      "p \<Longrightarrow> count_if (pending_auth ?a) ?h < fb_pendingPerAuth b"
    and b': "b' = b\<lparr>fb_global := g,
       fb_auth := (fb_auth b)(?a \<mapsto> \<lparr>bu_entries = count_if (live_auth ?a) ?h + 1,
           bu_pending = count_if (pending_auth ?a) ?h + (if p then 1 else 0)\<rparr>),
       fb_session := (fb_session b)(?s \<mapsto> \<lparr>bu_entries = count_if (live_session ?s) ?h + 1, bu_pending = 0\<rparr>),
       fb_reservations := ?h @ [\<lparr>rv_key = key, rv_pending = p, rv_released = False\<rparr>]\<rparr>"
    and r: "r = length ?h"
    unfolding fb_reserve_def usage Let_def withinRPCExecutionBudget_def
    by (auto split: if_splits prod.splits bool.splits)
  show "r = length ?h" by (rule r)
  show "fb_reservations b' = ?h @ [\<lparr>rv_key = key, rv_pending = p, rv_released = False\<rparr>]"
    by (simp add: b')
  from g have g': "g = fb_global b\<lparr>lim_used := lim_used (fb_global b) + 1\<rparr>"
    "lim_used (fb_global b) + 1 \<le> lim_max (fb_global b)"
    by (auto simp: limit_reserve_def dest: reserveN_cases)
  have pos: "count_if (live_auth ?a) ?h + 1 \<noteq> 0" "count_if (live_session ?s) ?h + 1 \<noteq> 0"
    using count_if_nonneg[of "live_auth ?a" ?h] count_if_nonneg[of "live_session ?s" ?h] by linarith+
  have "fb_exact b'" using ex pos
    by (auto simp: fb_exact_def Let_def b' g' usage_opt_def live_defs fun_upd_def)
  moreover have "fb_bounded b'" using bd ex lim g'(2)
    by (auto simp: fb_bounded_def fb_exact_def Let_def b' g' live_defs)
  ultimately show "fb_inv b'" using rel by (auto simp: fb_inv_def b')
qed

lemma fb_counts_at:
  assumes "r < length h" and "live (h ! r)"
  shows "1 \<le> count_if live h" "1 \<le> count_if (live_auth (rk_authKeyID (rv_key (h ! r)))) h"
    "1 \<le> count_if (live_session (session_of (rv_key (h ! r)))) h"
    "rv_pending (h ! r) \<Longrightarrow> 1 \<le> count_if (pending_auth (rk_authKeyID (rv_key (h ! r)))) h"
  using assms by (auto intro!: count_if_pos simp: live_defs)

lemma fb_bounded_mono:
  assumes "fb_bounded b" and "lim_max (fb_global b') = lim_max (fb_global b)"
    "fb_authLimit b' = fb_authLimit b" "fb_sessionLimit b' = fb_sessionLimit b"
    "fb_pendingPerAuth b' = fb_pendingPerAuth b"
    and "count_if live (fb_reservations b') \<le> count_if live (fb_reservations b)"
    and "\<And>a. count_if (live_auth a) (fb_reservations b') \<le> count_if (live_auth a) (fb_reservations b)"
    and "\<And>a. count_if (pending_auth a) (fb_reservations b') \<le> count_if (pending_auth a) (fb_reservations b)"
    and "\<And>k. count_if (live_session k) (fb_reservations b') \<le> count_if (live_session k) (fb_reservations b)"
  shows "fb_bounded b'"
  using assms unfolding fb_bounded_def Let_def by (metis order_trans)

lemma releasePending_ok:
  assumes inv: "fb_inv b" and r: "r < length (fb_reservations b)"
  shows "\<exists>b'. releasePending b r = Inr b' \<and> fb_inv b' \<and>
     fb_reservations b' = (fb_reservations b)[r := (fb_reservations b ! r)\<lparr>rv_pending := False\<rparr>] \<and>
     fb_global b' = fb_global b"
proof (cases "live (fb_reservations b ! r) \<and> rv_pending (fb_reservations b ! r)")
  case False
  let ?res = "fb_reservations b ! r"
  have "rv_pending ?res = False" using False inv r by (auto simp: fb_inv_def live_def)
  then have eq: "?res\<lparr>rv_pending := False\<rparr> = ?res" by (cases ?res) simp
  have "(fb_reservations b)[r := ?res\<lparr>rv_pending := False\<rparr>] = fb_reservations b"
    unfolding eq by (rule list_update_id)
  then show ?thesis using \<open>rv_pending ?res = False\<close> inv by (simp add: releasePending_def Let_def)
next
  case True
  let ?h = "fb_reservations b" and ?res = "fb_reservations b ! r"
  let ?a = "rk_authKeyID (rv_key ?res)" and ?h' = "?h[r := ?res\<lparr>rv_pending := False\<rparr>]"
  from inv have ex: "fb_exact b" and bd: "fb_bounded b" by (simp_all add: fb_inv_def)
  note c = fb_counts_at[OF r] True
  have au: "fb_auth b ?a = Some \<lparr>bu_entries = count_if (live_auth ?a) ?h, bu_pending = count_if (pending_auth ?a) ?h\<rparr>"
    using ex c by (auto simp: fb_exact_def Let_def usage_opt_def)
  have cnt: "count_if live ?h' = count_if live ?h"
    "\<And>x. count_if (live_auth x) ?h' = count_if (live_auth x) ?h"
    "\<And>x. count_if (live_session x) ?h' = count_if (live_session x) ?h"
    "\<And>x. count_if (pending_auth x) ?h' = count_if (pending_auth x) ?h - (if x = ?a then 1 else 0)"
    using True by (auto simp: count_if_update[OF r] live_defs)
  define b' where "b' = b\<lparr>fb_auth := (fb_auth b)(?a \<mapsto> \<lparr>bu_entries = count_if (live_auth ?a) ?h,
      bu_pending = count_if (pending_auth ?a) ?h - 1\<rparr>), fb_reservations := ?h'\<rparr>"
  have "releasePending b r = Inr b'"
    using au c True by (auto simp: releasePending_def Let_def b'_def live_def)
  moreover have "fb_exact b'" using ex c
    by (auto simp: fb_exact_def Let_def b'_def cnt usage_opt_def)
  moreover have "fb_bounded b'"
    by (rule fb_bounded_mono[OF bd]) (simp_all add: b'_def cnt)
  moreover have "\<forall>x \<in> set ?h'. rv_released x \<longrightarrow> \<not> rv_pending x"
    using inv r by (auto simp: fb_inv_def dest: set_update_subset_insert[THEN subsetD])
  ultimately show ?thesis by (auto simp: fb_inv_def b'_def)
qed

lemma fb_release_ok:
  assumes inv: "fb_inv b" and r: "r < length (fb_reservations b)"
  shows "\<exists>b'. fb_release b r = Inr b' \<and> fb_inv b' \<and>
     fb_reservations b' = (fb_reservations b)[r := (fb_reservations b ! r)\<lparr>rv_released := True, rv_pending := False\<rparr>]"
proof (cases "live (fb_reservations b ! r)")
  case False
  let ?res = "fb_reservations b ! r"
  have "rv_released ?res" "\<not> rv_pending ?res" using False inv r by (auto simp: fb_inv_def live_def)
  then have "?res\<lparr>rv_released := True, rv_pending := False\<rparr> = ?res" by (cases ?res) simp
  then show ?thesis using \<open>rv_released ?res\<close> inv by (simp add: fb_release_def Let_def)
next
  case True
  let ?h = "fb_reservations b" and ?res = "fb_reservations b ! r"
  let ?a = "rk_authKeyID (rv_key ?res)" and ?s = "session_of (rv_key ?res)"
    and ?h' = "?h[r := ?res\<lparr>rv_released := True, rv_pending := False\<rparr>]"
  let ?p = "if rv_pending ?res then (1::int) else 0"
  from inv have ex: "fb_exact b" and bd: "fb_bounded b" by (simp_all add: fb_inv_def)
  note c = fb_counts_at[OF r True]
  have au: "fb_auth b ?a = Some \<lparr>bu_entries = count_if (live_auth ?a) ?h, bu_pending = count_if (pending_auth ?a) ?h\<rparr>"
    and se: "fb_session b ?s = Some \<lparr>bu_entries = count_if (live_session ?s) ?h, bu_pending = 0\<rparr>"
    and gl: "lim_used (fb_global b) = count_if live ?h"
    using ex c by (auto simp: fb_exact_def Let_def usage_opt_def simp del: split_paired_All)
  have cnt: "count_if live ?h' = count_if live ?h - 1"
    "\<And>x. count_if (live_auth x) ?h' = count_if (live_auth x) ?h - (if x = ?a then 1 else 0)"
    "\<And>x. count_if (live_session x) ?h' = count_if (live_session x) ?h - (if x = ?s then 1 else 0)"
    "\<And>x. count_if (pending_auth x) ?h' = count_if (pending_auth x) ?h - (if x = ?a then ?p else 0)"
    using True by (auto simp: count_if_update[OF r] live_defs)
  define b' where "b' = b\<lparr>fb_global := (fb_global b)\<lparr>lim_used := count_if live ?h - 1\<rparr>,
     fb_auth := put_usage (fb_auth b) ?a \<lparr>bu_entries = count_if (live_auth ?a) ?h - 1,
        bu_pending = count_if (pending_auth ?a) ?h - ?p\<rparr>,
     fb_session := put_usage (fb_session b) ?s \<lparr>bu_entries = count_if (live_session ?s) ?h - 1, bu_pending = 0\<rparr>,
     fb_reservations := ?h'\<rparr>"
  have "fb_release b r = Inr b'"
    using au se gl c True
    by (auto simp: fb_release_def Let_def b'_def live_def limit_release_def releaseN_def)
  moreover have "fb_exact b'"
  proof -
    have le: "0 \<le> count_if (pending_auth ?a) ?h - ?p" "count_if (pending_auth ?a) ?h - ?p \<le> count_if (live_auth ?a) ?h - 1"
      using pending_le_live[of ?a ?h'] count_if_nonneg[of "pending_auth ?a" ?h'] by (simp_all add: cnt)
    have "put_usage (fb_auth b) ?a \<lparr>bu_entries = count_if (live_auth ?a) ?h - 1,
        bu_pending = count_if (pending_auth ?a) ?h - ?p\<rparr> x =
        usage_opt (count_if (live_auth x) ?h') (count_if (pending_auth x) ?h')" for x
      using ex le by (subst put_usage_opt) (auto simp: fb_exact_def Let_def cnt)
    moreover have "put_usage (fb_session b) ?s \<lparr>bu_entries = count_if (live_session ?s) ?h - 1, bu_pending = 0\<rparr> x =
        usage_opt (count_if (live_session x) ?h') 0" for x
      using ex c by (subst put_usage_opt[where g = "\<lambda>_. 0"]) (auto simp: fb_exact_def Let_def cnt)
    ultimately show ?thesis by (simp add: fb_exact_def Let_def b'_def cnt(1))
  qed
  moreover have "fb_bounded b'"
    by (rule fb_bounded_mono[OF bd]) (simp_all add: b'_def cnt)
  moreover have "\<forall>x \<in> set ?h'. rv_released x \<longrightarrow> \<not> rv_pending x"
    using inv r by (auto simp: fb_inv_def dest: set_update_subset_insert[THEN subsetD])
  ultimately show ?thesis by (auto simp: fb_inv_def b'_def)
qed

section \<open>The subscriber budget counts the retained callbacks\<close>

text \<open>
  \<open>sb_inv b K c\<close>: the budget \<open>b\<close> charges exactly \<open>c k\<close> callbacks for each key \<open>k\<close> of
  the finite set \<open>K\<close>.
\<close>

definition count_opt :: "int \<Rightarrow> int option" where
  "count_opt n = (if n = 0 then None else Some n)"

definition charged :: "(rpc_key \<Rightarrow> int) \<Rightarrow> rpc_key set \<Rightarrow> (rpc_key \<Rightarrow> bool) \<Rightarrow> int" where
  "charged c K P = sum c {k \<in> K. P k}"

definition sb_inv :: "subscriber_budget \<Rightarrow> rpc_key set \<Rightarrow> (rpc_key \<Rightarrow> int) \<Rightarrow> bool" where
  "sb_inv b K c \<longleftrightarrow> finite K \<and> (\<forall>k \<in> K. 0 \<le> c k) \<and>
     lim_used (sb_global b) = charged c K (\<lambda>_. True) \<and>
     (\<forall>a. sb_auth b a = count_opt (charged c K (\<lambda>k. rk_authKeyID k = a))) \<and>
     (\<forall>s. sb_session b s = count_opt (charged c K (\<lambda>k. session_of k = s))) \<and>
     charged c K (\<lambda>_. True) \<le> max 0 (lim_max (sb_global b)) \<and>
     (\<forall>a. charged c K (\<lambda>k. rk_authKeyID k = a) \<le> max 0 (sb_authLimit b)) \<and>
     (\<forall>s. charged c K (\<lambda>k. session_of k = s) \<le> max 0 (sb_sessionLimit b))"

lemma mget_count_opt: "m x = count_opt n \<Longrightarrow> mget 0 m x = n"
  by (simp add: mget_def count_opt_def)

lemma charged_ge:
  assumes "finite K" and "\<forall>k \<in> K. 0 \<le> c k" and "k \<in> K" and "P k"
  shows "c k \<le> charged c K P"
  using assms unfolding charged_def by (intro member_le_sum) auto

lemma put_count_opt:
  "(\<And>x. m x = count_opt (f x)) \<Longrightarrow> put_count m k n x = count_opt (if x = k then n else f x)"
  by (simp add: put_count_def count_opt_def)

lemma sb_inv_new: "sb_inv (newRPCResultSubscriberBudget g a s) {} c"
  by (simp add: sb_inv_def newRPCResultSubscriberBudget_def count_opt_def charged_def)

lemma sb_inv_cong: "sb_inv b K c \<Longrightarrow> (\<And>k. k \<in> K \<Longrightarrow> c' k = c k) \<Longrightarrow> sb_inv b K c'"
proof -
  assume b: "sb_inv b K c" and c: "\<And>k. k \<in> K \<Longrightarrow> c' k = c k"
  have "charged c' K P = charged c K P" for P unfolding charged_def by (rule sum.cong) (auto simp: c)
  with b c show ?thesis by (simp add: sb_inv_def)
qed

lemma charged_insert_zero: "finite K \<Longrightarrow> c k = 0 \<Longrightarrow> charged c (insert k K) P = charged c K P"
  unfolding charged_def by (rule sum.mono_neutral_right) auto

lemma sb_inv_insert: "sb_inv b K c \<Longrightarrow> c k = 0 \<Longrightarrow> sb_inv b (insert k K) c"
  by (simp add: sb_inv_def charged_insert_zero)

lemma sb_inv_remove: "sb_inv b K c \<Longrightarrow> c k = 0 \<Longrightarrow> sb_inv b (K - {k}) c"
proof -
  assume b: "sb_inv b K c" and k: "c k = 0"
  then have "charged c (K - {k}) P = charged c K P" for P
    unfolding charged_def by (intro sum.mono_neutral_left) (auto simp: sb_inv_def)
  with b show ?thesis by (auto simp: sb_inv_def)
qed

lemma sub_reserve_False: "sub_reserve b k n = (False, b') \<Longrightarrow> b' = b"
  by (auto simp: sub_reserve_def Let_def dest!: reserveN_cases split: if_splits prod.splits bool.splits)

lemma charged_upd:
  "finite K \<Longrightarrow> k \<in> K \<Longrightarrow> charged (c(k := v)) K P = charged c K P + (if P k then v - c k else 0)"
  unfolding charged_def by (rule sum_update_restrict)

lemma sub_reserve_True:
  assumes inv: "sb_inv b K c" and k: "k \<in> K" and res: "sub_reserve b k n = (True, b')"
  shows "sb_inv b' K (c(k := c k + n))" and "0 < n"
proof -
  have fin: "finite K" using inv by (simp add: sb_inv_def)
  have u: "mget 0 (sb_auth b) (rk_authKeyID k) = charged c K (\<lambda>x. rk_authKeyID x = rk_authKeyID k)"
    "mget 0 (sb_session b) (session_of k) = charged c K (\<lambda>x. session_of x = session_of k)"
    using inv by (auto simp: sb_inv_def simp del: split_paired_All intro: mget_count_opt)
  from res obtain g where n: "0 < n" and g: "reserveN (sb_global b) n = (True, g)"
    and lim: "charged c K (\<lambda>x. rk_authKeyID x = rk_authKeyID k) + n \<le> sb_authLimit b"
      "charged c K (\<lambda>x. session_of x = session_of k) + n \<le> sb_sessionLimit b"
    and b': "b' = b\<lparr>sb_global := g,
      sb_auth := (sb_auth b)(rk_authKeyID k \<mapsto> charged c K (\<lambda>x. rk_authKeyID x = rk_authKeyID k) + n),
      sb_session := (sb_session b)(session_of k \<mapsto> charged c K (\<lambda>x. session_of x = session_of k) + n)\<rparr>"
    unfolding sub_reserve_def u Let_def withinRPCExecutionBudget_def
    by (auto split: if_splits prod.splits bool.splits)
  show "0 < n" by (rule n)
  from g have g': "g = (sb_global b)\<lparr>lim_used := lim_used (sb_global b) + n\<rparr>"
    "lim_used (sb_global b) + n \<le> lim_max (sb_global b)"
    by (auto dest: reserveN_cases)
  have nn: "0 \<le> charged c K P" for P using inv by (auto simp: sb_inv_def charged_def intro: sum_nonneg)
  have ne: "charged c K P + n \<noteq> 0" for P using nn[of P] n by linarith
  show "sb_inv b' K (c(k := c k + n))"
    using inv g'(2) lim n ne unfolding sb_inv_def charged_upd[OF fin k]
    by (auto simp: b' g'(1) count_opt_def simp del: split_paired_All)
qed

lemma sub_release_ok:
  assumes inv: "sb_inv b K c" and k: "k \<in> K" and n: "0 < n" "n \<le> c k"
  shows "\<exists>b'. sub_release b k n = Inr b' \<and> sb_inv b' K (c(k := c k - n)) \<and>
           lim_max (sb_global b') = lim_max (sb_global b)"
proof -
  have fin: "finite K" and nn: "\<forall>k \<in> K. 0 \<le> c k" using inv by (simp_all add: sb_inv_def)
  let ?A = "charged c K (\<lambda>x. rk_authKeyID x = rk_authKeyID k)"
    and ?S = "charged c K (\<lambda>x. session_of x = session_of k)"
    and ?G = "charged c K (\<lambda>_. True)"
  have ge: "n \<le> ?A" "n \<le> ?S" "n \<le> ?G"
    using charged_ge[OF fin nn k, where P = "\<lambda>x. rk_authKeyID x = rk_authKeyID k"]
      charged_ge[OF fin nn k, where P = "\<lambda>x. session_of x = session_of k"]
      charged_ge[OF fin nn k, where P = "\<lambda>_. True"] n by simp_all
  have u: "sb_auth b (rk_authKeyID k) = Some ?A" "sb_session b (session_of k) = Some ?S"
    "lim_used (sb_global b) = ?G"
    using inv ge n by (auto simp: sb_inv_def count_opt_def simp del: split_paired_All)
  define b' where "b' = b\<lparr>sb_global := (sb_global b)\<lparr>lim_used := ?G - n\<rparr>,
     sb_auth := put_count (sb_auth b) (rk_authKeyID k) (?A - n),
     sb_session := put_count (sb_session b) (session_of k) (?S - n)\<rparr>"
  have "sub_release b k n = Inr b'"
    using n ge u by (simp add: sub_release_def releaseN_def Let_def b'_def)
  moreover have "sb_inv b' K (c(k := c k - n))"
    unfolding sb_inv_def charged_upd[OF fin k]
  proof (intro conjI allI)
    fix a s
    show "sb_auth b' a = count_opt (charged c K (\<lambda>k. rk_authKeyID k = a) + (if rk_authKeyID k = a then c k - n - c k else 0))"
      using inv put_count_opt[of "sb_auth b" "\<lambda>a. charged c K (\<lambda>k. rk_authKeyID k = a)"]
      by (auto simp: sb_inv_def b'_def)
    show "sb_session b' s = count_opt (charged c K (\<lambda>k. session_of k = s) + (if session_of k = s then c k - n - c k else 0))"
      using inv put_count_opt[of "sb_session b" "\<lambda>s. charged c K (\<lambda>k. session_of k = s)"]
      by (auto simp: sb_inv_def b'_def simp del: split_paired_All)
    have "charged c K (\<lambda>k. rk_authKeyID k = a) \<le> max 0 (sb_authLimit b)"
      "charged c K (\<lambda>k. session_of k = s) \<le> max 0 (sb_sessionLimit b)"
      using inv by (auto simp: sb_inv_def simp del: split_paired_All)
    then show "charged c K (\<lambda>k. rk_authKeyID k = a) + (if rk_authKeyID k = a then c k - n - c k else 0) \<le> max 0 (sb_authLimit b')"
      "charged c K (\<lambda>k. session_of k = s) + (if session_of k = s then c k - n - c k else 0) \<le> max 0 (sb_sessionLimit b')"
      using n by (simp_all add: b'_def split: if_splits)
  qed (use inv n in \<open>auto simp: sb_inv_def b'_def\<close>)
  ultimately show ?thesis by (simp add: b'_def)
qed

section \<open>The admission tracker holds the active sequences\<close>

definition active :: "tracker \<Rightarrow> 64 word set" where
  "active t = {s. s \<in> set (t (tracker_shard s))}"

definition tr_inv :: "tracker \<Rightarrow> 64 word \<Rightarrow> bool" where
  "tr_inv t nextSeq \<longleftrightarrow>
     (\<forall>i. \<forall>s \<in> set (t i). tracker_shard s = i \<and> s \<noteq> 0 \<and> s \<le> nextSeq)"

lemma tr_inv_new: "tr_inv new_tracker n"
  by (simp add: tr_inv_def new_tracker_def)

lemma active_new [simp]: "active new_tracker = {}"
  by (simp add: active_def new_tracker_def)

lemma active_bounds: "tr_inv t n \<Longrightarrow> s \<in> active t \<Longrightarrow> s \<noteq> 0 \<and> s \<le> n"
  by (auto simp: tr_inv_def active_def)

lemma shard_lt: "tracker_shard s < rpcAdmissionTrackerShards"
  by (simp add: tracker_shard_def rpcAdmissionTrackerShards_def)

lemma active_shards:
  "tr_inv t n \<Longrightarrow> active t = (\<Union>i \<in> set [0..<rpcAdmissionTrackerShards]. set (t i))"
  using shard_lt by (fastforce simp: tr_inv_def active_def)

lemma allocate_ok:
  assumes "tr_inv t n" and "allocateAndRegister t n = Inr (s, t', n')"
  shows "n < s" "s \<noteq> 0" "n' = s" "s \<notin> active t" "active t' = insert s (active t)" "tr_inv t' n'"
proof -
  from assms(2) have n: "n \<noteq> MaxUint64" and s: "s = n + 1" "n' = s"
    and t': "t' = t(tracker_shard s := List.insert s (t (tracker_shard s)))"
    by (auto simp: allocateAndRegister_def Let_def split: if_splits)
  show lt: "n < s" using n s by (simp add: word_less_succ)
  show "s \<noteq> 0" using lt word_not_simps(1) by blast
  show "n' = s" by (rule s)
  show "s \<notin> active t" using active_bounds[OF assms(1)] lt by fastforce
  show "active t' = insert s (active t)" by (auto simp: active_def t' split: if_splits)
  show "tr_inv t' n'" using assms(1) lt \<open>s \<noteq> 0\<close> s(2)
    by (fastforce simp: tr_inv_def t' split: if_splits)
qed

lemma retire_ok:
  assumes "tr_inv t n" and "s \<in> active t"
  shows "\<exists>t'. retire t s = Inr t' \<and> active t' = active t - {s} \<and> tr_inv t' n"
proof -
  let ?t' = "t(tracker_shard s := removeAll s (t (tracker_shard s)))"
  have "retire t s = Inr ?t'"
    using assms active_bounds[OF assms] by (auto simp: retire_def Let_def active_def)
  moreover have "active ?t' = active t - {s}" by (auto simp: active_def split: if_splits)
  moreover have "tr_inv ?t' n" using assms(1) by (auto simp: tr_inv_def split: if_splits)
  ultimately show ?thesis by blast
qed

lemma minimum_loop_Min:
  "0 \<notin> set xs \<Longrightarrow> minimum_loop m xs =
     (let S = (if m = 0 then {} else {m}) \<union> set xs in if S = {} then 0 else Min S)"
proof (induction xs arbitrary: m)
  case (Cons x xs)
  let ?S = "(if m = 0 then {} else {m}) \<union> set (x # xs)"
    and ?T = "insert (if m = 0 \<or> x < m then x else m) (set xs)"
  have "minimum_loop m (x # xs) = Min ?T"
    using Cons by (auto simp: Let_def)
  moreover have "Min ?T = Min ?S"
    by (cases "set xs = {}") (auto simp: Min_insert min_def)
  ultimately show ?case by (simp add: Let_def)
qed (auto simp: Let_def)

lemma shards_loop_Min:
  assumes "\<forall>i \<in> set is. 0 \<notin> set (t i)"
  shows "shards_loop t m is =
     (let S = (if m = 0 then {} else {m}) \<union> (\<Union>i \<in> set is. set (t i)) in if S = {} then 0 else Min S)"
  using assms
proof (induction "is" arbitrary: m)
  case (Cons i "is")
  let ?A = "(if m = 0 then {} else {m}) \<union> set (t i)" and ?R = "\<Union>j \<in> set is. set (t j)"
  have z: "0 \<notin> ?A" and fin: "finite ?A" "finite ?R" using Cons.prems by auto
  have loop: "minimum_loop m (t i) = (if ?A = {} then 0 else Min ?A)"
    using minimum_loop_Min[of "t i" m] Cons.prems by (simp add: Let_def)
  show ?case
  proof (cases "?A = {}")
    case True
    then show ?thesis using Cons by (simp add: Let_def split: if_splits)
  next
    case False
    then have "Min ?A \<noteq> 0" using z fin Min_in by metis
    moreover have "Min (insert (Min ?A) ?R) = Min (?A \<union> ?R)"
      using False fin by (cases "?R = {}") (simp_all add: Min_Un Min_insert)
    moreover have "shards_loop t m (i # is) = shards_loop t (Min ?A) is"
      using loop False by simp
    moreover have "(if m = 0 then {} else {m}) \<union> (\<Union>j \<in> set (i # is). set (t j)) = ?A \<union> ?R" by auto
    moreover have "?A \<union> ?R \<noteq> {}" using False by blast
    moreover have "shards_loop t (Min ?A) is = Min (insert (Min ?A) ?R)"
      using Cons.IH[of "Min ?A"] Cons.prems \<open>Min ?A \<noteq> 0\<close> by (simp add: Let_def)
    ultimately show ?thesis by (simp only: Let_def if_False)
  qed
qed (auto simp: Let_def)

lemma stableSafeFloor_eq:
  assumes "tr_inv t n"
  shows "stableSafeFloor t n =
     (if active t \<noteq> {} then Min (active t) else if n = MaxUint64 then MaxUint64 else n + 1)"
proof -
  have "\<forall>i \<in> set [0..<rpcAdmissionTrackerShards]. 0 \<notin> set (t i)"
    using assms by (auto simp: tr_inv_def)
  from shards_loop_Min[OF this, of 0] have l: "shards_loop t 0 [0..<rpcAdmissionTrackerShards] =
      (if active t = {} then 0 else Min (active t))"
    by (simp add: active_shards[OF assms] Let_def)
  have fin: "finite (active t)" unfolding active_shards[OF assms] by simp
  then have "active t \<noteq> {} \<Longrightarrow> Min (active t) \<noteq> 0"
    using active_bounds[OF assms] Min_in by blast
  then show ?thesis by (simp add: stableSafeFloor_def l Let_def)
qed

inductive adm_step :: "tracker \<times> 64 word \<Rightarrow> tracker \<times> 64 word \<Rightarrow> bool" where
  allocate: "allocateAndRegister t n = Inr (s, t', n') \<Longrightarrow> adm_step (t, n) (t', n')"
| retire: "retire t s = Inr t' \<Longrightarrow> adm_step (t, n) (t', n)"

inductive_cases adm_stepE: "adm_step (t, n) p"

lemma adm_step_inv:
  assumes "adm_step (t, n) (t', n')" and "tr_inv t n"
  shows "tr_inv t' n'" and "n \<le> n'" and "\<And>s. s \<in> active t' \<Longrightarrow> s \<in> active t \<or> n < s"
proof -
  have "tr_inv t' n' \<and> n \<le> n' \<and> (\<forall>s \<in> active t'. s \<in> active t \<or> n < s)"
    using assms(1)
  proof (cases rule: adm_step.cases)
    case (allocate s)
    from allocate_ok[OF assms(2) this] show ?thesis by auto
  next
    case (retire s)
    show ?thesis
    proof (cases "s = 0")
      case True
      with retire assms(2) show ?thesis by (auto simp: retire_def)
    next
      case False
      with retire have "s \<in> active t" by (auto simp: retire_def active_def Let_def split: if_splits)
      from retire_ok[OF assms(2) this] retire show ?thesis by auto
    qed
  qed
  then show "tr_inv t' n'" "n \<le> n'" "\<And>s. s \<in> active t' \<Longrightarrow> s \<in> active t \<or> n < s" by auto
qed

lemma adm_steps_inv:
  assumes "adm_step\<^sup>*\<^sup>* (t, n) (t', n')" and "tr_inv t n"
  shows "tr_inv t' n' \<and> n \<le> n' \<and> (\<forall>s \<in> active t'. s \<in> active t \<or> n < s)"
  using assms
proof (induction "(t', n')" arbitrary: t' n' rule: rtranclp_induct)
  case (step p)
  obtain t1 n1 where p: "p = (t1, n1)" by fastforce
  with step have 1: "tr_inv t1 n1" "n \<le> n1" "\<forall>s \<in> active t1. s \<in> active t \<or> n < s" by blast+
  from adm_step_inv[OF step(2)[unfolded p] 1(1)] show ?case using 1 by force
qed auto

section \<open>Properties\<close>

inductive fb_step :: "fair_budget \<Rightarrow> fair_budget \<Rightarrow> bool" where
  reserve: "fb_reserve b key p = (r, b') \<Longrightarrow> fb_step b b'"
| releasePending: "r < length (fb_reservations b) \<Longrightarrow> releasePending b r = Inr b' \<Longrightarrow> fb_step b b'"
| release: "r < length (fb_reservations b) \<Longrightarrow> fb_release b r = Inr b' \<Longrightarrow> fb_step b b'"

lemma fb_step_inv: "fb_step b b' \<Longrightarrow> fb_inv b \<Longrightarrow> fb_inv b'"
proof (induction rule: fb_step.induct)
  case (reserve b key p r b')
  then show ?case using fb_reserve_None fb_reserve_Some(3) by (cases r) blast+
next
  case (releasePending r b b')
  then show ?case using releasePending_ok by fastforce
next
  case (release r b b')
  then show ?case using fb_release_ok by fastforce
qed

lemma fb_steps_inv: "fb_step\<^sup>*\<^sup>* b b' \<Longrightarrow> fb_inv b \<Longrightarrow> fb_inv b'"
  by (induction rule: rtranclp_induct) (auto dest: fb_step_inv)

text \<open>
  Whatever reservations are taken, downgraded from pending and released, in any order and even
  repeatedly, the snapshots of the fair budget count exactly the reservations that are still held
  for the auth key and for the session, each within its configured limit, and no downgrade or
  release of an existing reservation panics.
\<close>

theorem fair_budget_exact:
  assumes "0 \<le> lim_max g" and "lim_used g = 0"
    and "fb_step\<^sup>*\<^sup>* (newRPCExecutionFairBudget g al sl pl) b"
  shows "fb_authSnapshot b a = \<lparr>bu_entries = count_if (live_auth a) (fb_reservations b),
           bu_pending = count_if (pending_auth a) (fb_reservations b)\<rparr> \<and>
         fb_sessionSnapshot b a s = \<lparr>bu_entries = count_if (live_session (a, s)) (fb_reservations b),
           bu_pending = 0\<rparr> \<and>
         lim_used (fb_global b) = count_if live (fb_reservations b) \<and> fb_bounded b \<and>
         list_all (\<lambda>r. isl (releasePending b r) = False \<and> isl (fb_release b r) = False)
           [0..<length (fb_reservations b)]"
proof -
  have inv: "fb_inv b" using fb_steps_inv[OF assms(3)] fb_inv_new assms(1,2) by blast
  then have ex: "fb_exact b" and bd: "fb_bounded b" by (simp_all add: fb_inv_def)
  have "list_all (\<lambda>r. isl (releasePending b r) = False \<and> isl (fb_release b r) = False)
           [0..<length (fb_reservations b)]"
    using releasePending_ok[OF inv] fb_release_ok[OF inv] by (fastforce simp: list_all_iff)
  moreover have "lim_used (fb_global b) = count_if live (fb_reservations b)"
    using ex by (simp add: fb_exact_def Let_def)
  ultimately show ?thesis using fb_auth_usage[OF ex] fb_session_usage[OF ex] bd
    by (simp add: fb_authSnapshot_def fb_sessionSnapshot_def)
qed

definition ex_key :: rpc_key where
  "ex_key = \<lparr>rk_authKeyID = 5, rk_sessionID = 9, rk_reqMsgID = 100\<rparr>"

definition ex_budget :: fair_budget where
  "ex_budget = snd (fb_reserve (newRPCExecutionFairBudget \<lparr>lim_max = 4, lim_used = 0\<rparr> 2 2 1) ex_key True)"

theorem fair_budget_exact_witness:
  "fb_authSnapshot ex_budget 5 = \<lparr>bu_entries = 1, bu_pending = 1\<rparr> \<and>
   count_if live (fb_reservations ex_budget) = 1"
proof -
  have "fb_step (newRPCExecutionFairBudget \<lparr>lim_max = 4, lim_used = 0\<rparr> 2 2 1) ex_budget"
    unfolding ex_budget_def by (rule fb_step.reserve[of _ ex_key True]) (rule prod.collapse[symmetric])
  then have "fb_step\<^sup>*\<^sup>* (newRPCExecutionFairBudget \<lparr>lim_max = 4, lim_used = 0\<rparr> 2 2 1) ex_budget" by blast
  from fair_budget_exact[OF _ _ this, of 5 9]
  show ?thesis
    by (simp add: ex_budget_def fb_reserve_def newRPCExecutionFairBudget_def Let_def ex_key_def mget_def
        withinRPCExecutionBudget_def limit_reserve_def reserveN_def zero_usage_def session_of_def live_defs)
qed

text \<open>
  The floor that a scan of the admission tracker returns is stable: sequences are handed out in
  strictly increasing order without ever wrapping around, so at any later time every sequence that
  can still publish is at or above the floor, and a later scan never returns a smaller floor.
\<close>

theorem admission_floor_stable:
  assumes "adm_step\<^sup>*\<^sup>* (new_tracker, 0) (t, n)" and "adm_step\<^sup>*\<^sup>* (t, n) (t', n')"
  shows "stableSafeFloor t n \<le> stableSafeFloor t' n' \<and>
         (s \<in> active t' \<longrightarrow> stableSafeFloor t n \<le> s) \<and>
         (case allocateAndRegister t' n' of
            Inr (s', _, _) \<Rightarrow> stableSafeFloor t n \<le> s' \<and> n' < s'
          | Inl e \<Rightarrow> e = ErrRPCAdmissionSeqExhausted \<and> n' = MaxUint64)"
proof -
  have inv: "tr_inv t n" using adm_steps_inv[OF assms(1) tr_inv_new] by simp
  from adm_steps_inv[OF assms(2) inv] have inv': "tr_inv t' n'" and le: "n \<le> n'"
    and ac: "\<forall>s \<in> active t'. s \<in> active t \<or> n < s" by auto
  have fin: "finite (active t)" "finite (active t')"
    unfolding active_shards[OF inv] active_shards[OF inv'] by simp_all
  have floor_le: "stableSafeFloor t n \<le> s" if "n < s \<or> s \<in> active t" for s
  proof -
    have "Min (active t) \<le> s" if "active t \<noteq> {}"
      using \<open>n < s \<or> s \<in> active t\<close> that fin active_bounds[OF inv] Min_in[of "active t"] Min_le[of "active t" s]
      by (metis le_less_trans less_imp_le)
    moreover have "n + 1 \<le> s" if "n < s" using that by (simp add: inc_le)
    ultimately show ?thesis using that unfolding stableSafeFloor_eq[OF inv]
      by (auto simp: word_order.extremum_strict)
  qed
  have all: "stableSafeFloor t n \<le> s" if "s \<in> active t'" for s using that ac floor_le by blast
  have "stableSafeFloor t n \<le> stableSafeFloor t' n'"
  proof (cases "active t' = {}")
    case False
    then show ?thesis using all fin Min_in[of "active t'"] by (simp add: stableSafeFloor_eq[OF inv'])
  next
    case True
    then show ?thesis
    proof (cases "n' = MaxUint64")
      case False
      then have "n < n' + 1" using le word_less_succ le_less_trans by blast
      then show ?thesis using True False floor_le by (simp add: stableSafeFloor_eq[OF inv'])
    qed (use stableSafeFloor_eq[OF inv'] in simp)
  qed
  moreover have "case allocateAndRegister t' n' of
            Inr (s', _, _) \<Rightarrow> stableSafeFloor t n \<le> s' \<and> n' < s'
          | Inl e \<Rightarrow> e = ErrRPCAdmissionSeqExhausted \<and> n' = MaxUint64"
  proof (cases "allocateAndRegister t' n'")
    case (Inr x)
    obtain s' t2 n2 where x: "x = (s', t2, n2)" by (cases x)
    have "n' < s'" using allocate_ok(1)[OF inv' Inr[unfolded x]] .
    then show ?thesis using Inr x floor_le le by (auto intro: le_less_trans)
  qed (auto simp: allocateAndRegister_def Let_def split: if_splits)
  ultimately show ?thesis using all by blast
qed

theorem admission_floor_stable_witness:
  "\<exists>t n. adm_step\<^sup>*\<^sup>* (new_tracker, 0) (t, n) \<and> active t = {1} \<and>
     (\<forall>t' n'. adm_step\<^sup>*\<^sup>* (t, n) (t', n') \<longrightarrow> stableSafeFloor t n \<le> stableSafeFloor t' n')"
proof -
  obtain t where a: "allocateAndRegister new_tracker 0 = Inr (1, t, 1)"
    by (simp add: allocateAndRegister_def Let_def)
  have r: "adm_step\<^sup>*\<^sup>* (new_tracker, 0) (t, 1)" using adm_step.allocate[OF a] by blast
  have "active t = {1}" using allocate_ok(5)[OF tr_inv_new a] by simp
  with r admission_floor_stable[OF r] show ?thesis by blast
qed

end
