(* ===== verification/Rpc_Ledger.thy ===== *)
theory Rpc_Ledger
  imports Rpc_Budget
begin

text \<open>
  The RPC execution ledger of the MTProto edge (\<open>internal/mtprotoedge/rpc_execution_ledger.go\<close>
  and \<open>rpc_flight.go\<close>), which makes one client message run at most once: the unique pending
  owner of a request key, the terminal receipts that outlive it, acknowledgements, waiters and
  their callbacks.

  Flights, receipts and owner leases are objects with identity; each kind lives in a heap and is
  named by its index. A key determines its shard, so the shards' \<open>pending\<close> and \<open>byKey\<close>
  maps are modelled whole, while the receipt order, which expiry scans shard by shard, is kept per
  shard. An operation under one shard lock is one function; \<open>acquire\<close> and \<open>Complete\<close>,
  which drop the lock to reap other shards, are composed of such steps. The clock readings and the
  replay store are arguments. Callbacks are values of a type variable; an operation returns the
  callbacks it fires, in order. Panics are the outer \<open>Inl\<close>, returned Go errors the inner one.

  Lemmas: the accounting invariant \<open>lg_inv\<close> and its preservation by every operation, which
  is also what excludes every panic; a key is never pending and terminal at once.
\<close>

section \<open>State\<close>

record 'i identity =
  id_exact :: "'i option"
  id_profile :: int
  id_valid :: bool

definition zero_identity :: "'i identity" where
  "zero_identity = \<lparr>id_exact = None, id_profile = 0, id_valid = False\<rparr>"

definition identityMismatch :: "'i identity \<Rightarrow> edge_error" where
  "identityMismatch identity =
     ErrRPCResultIdentityMismatch (id_profile identity) (id_valid identity \<and> id_profile identity \<noteq> 0)"

definition id_matches :: "'i identity \<Rightarrow> 'i identity \<Rightarrow> bool" where
  "id_matches i requested =
     (if \<not> id_valid requested then True else id_valid i \<and> id_exact i = id_exact requested)"

record ('i, 'm, 'c) flight =
  fl_done :: bool
  fl_encoded :: "'m option"
  fl_ok :: bool
  fl_subscribers :: "'c list"
  fl_executionDone :: bool
  fl_executionOK :: bool
  fl_executionSubscribers :: "'c list"
  fl_acknowledged :: bool
  fl_subscriberSlots :: int
  fl_identity :: "'i identity"
  fl_admissionSeq :: "64 word"
  fl_reservation :: "nat option"

record 'i receipt =
  rc_key :: rpc_key
  rc_expiresAt :: int
  rc_identity :: "'i identity"
  rc_admissionSeq :: "64 word"
  rc_executionKnown :: bool
  rc_executionOK :: bool
  rc_acknowledged :: bool
  rc_unavailable :: bool
  rc_reservation :: "nat option"

record 'c lease =
  ls_key :: rpc_key
  ls_flight :: nat
  ls_abortHook :: "'c option"
  ls_handedOff :: bool

record ('i, 'm, 'c) ledger =
  lg_hash :: "rpc_key \<Rightarrow> 64 word"
  lg_pending :: "rpc_key \<rightharpoonup> nat"
  lg_byKey :: "rpc_key \<rightharpoonup> nat"
  lg_order :: "nat \<Rightarrow> nat list"
  lg_flights :: "('i, 'm, 'c) flight list"
  lg_receipts :: "'i receipt list"
  lg_leases :: "'c lease list"
  lg_receiptCount :: int
  lg_fairBudget :: fair_budget
  lg_flightLimit :: flight_limit
  lg_subscriberBudget :: subscriber_budget
  lg_subscriberPerFlight :: int
  lg_nextAdmissionSeq :: "64 word"
  lg_activeAdmissions :: tracker

datatype ('m, 'c) effect =
    ResultCallback 'c "'m option" bool
  | ExecutionCallback 'c bool
  | AbortHook 'c

datatype acquire_state =
    rpcResultAcquireCompleted | rpcResultAcquireAcknowledged | rpcResultAcquirePending
  | rpcResultAcquireOwner

record 'm acquire_result =
  aq_state :: acquire_state
  aq_admissionSeq :: "64 word"
  aq_encoded :: "'m option"
  aq_waiter :: "nat option"
  aq_owner :: "nat option"
  aq_executionKnown :: bool
  aq_executionOK :: bool

record dependency =
  dep_waiter :: "nat option"
  dep_completed :: bool
  dep_success :: bool

definition rpcExecutionReceiptTTL :: int where
  "rpcExecutionReceiptTTL = 331 * 1000000000"

definition rpcExecutionLedgerShards :: nat where
  "rpcExecutionLedgerShards = 16"

definition rpcExecutionReceiptBudgetBytes :: int where
  "rpcExecutionReceiptBudgetBytes = 384"

definition shardIndex :: "('i, 'm, 'c) ledger \<Rightarrow> rpc_key \<Rightarrow> nat" where
  "shardIndex l key = unat (lg_hash l key) mod rpcExecutionLedgerShards"

record ledger_capacity =
  cap_maxPending :: int
  cap_maxPendingPerAuth :: int
  cap_globalMaxEntries :: int
  cap_authMaxEntries :: int
  cap_sessionMaxEntries :: int
  cap_subscriberMaxGlobal :: int
  cap_subscriberMaxAuth :: int
  cap_subscriberMaxSession :: int
  cap_subscriberMaxPerFlight :: int

definition cap_default :: "int \<Rightarrow> int \<Rightarrow> int" where
  "cap_default v d = (if v \<le> 0 then d else v)"

definition newRPCExecutionLedger :: "(rpc_key \<Rightarrow> 64 word) \<Rightarrow> ledger_capacity \<Rightarrow> ('i, 'm, 'c) ledger" where
  "newRPCExecutionLedger hash c =
     (let maxPending = cap_default (cap_maxPending c) 32768;
          maxPendingPerAuth = cap_default (cap_maxPendingPerAuth c) maxPending;
          globalMaxEntries = cap_default (cap_globalMaxEntries c) (2 ^ 18);
          authMaxEntries = cap_default (cap_authMaxEntries c) globalMaxEntries;
          sessionMaxEntries = cap_default (cap_sessionMaxEntries c) authMaxEntries;
          subscriberMaxGlobal = cap_default (cap_subscriberMaxGlobal c) (2 ^ 16);
          subscriberMaxAuth = cap_default (cap_subscriberMaxAuth c) (2 ^ 13);
          subscriberMaxSession = cap_default (cap_subscriberMaxSession c) (2 ^ 11);
          subscriberMaxPerFlight = cap_default (cap_subscriberMaxPerFlight c) (2 ^ 7)
      in \<lparr>lg_hash = hash, lg_pending = Map.empty, lg_byKey = Map.empty, lg_order = (\<lambda>_. []),
          lg_flights = [], lg_receipts = [], lg_leases = [], lg_receiptCount = 0,
          lg_fairBudget = newRPCExecutionFairBudget \<lparr>lim_max = globalMaxEntries, lim_used = 0\<rparr>
                            authMaxEntries sessionMaxEntries maxPendingPerAuth,
          lg_flightLimit = \<lparr>lim_max = maxPending, lim_used = 0\<rparr>,
          lg_subscriberBudget = newRPCResultSubscriberBudget subscriberMaxGlobal subscriberMaxAuth
                                  subscriberMaxSession,
          lg_subscriberPerFlight = subscriberMaxPerFlight,
          lg_nextAdmissionSeq = 0, lg_activeAdmissions = new_tracker\<rparr>)"

section \<open>Receipts\<close>

definition incrementReceiptCount :: "('i, 'm, 'c) ledger \<Rightarrow> ('i, 'm, 'c) ledger" where
  "incrementReceiptCount l = l\<lparr>lg_receiptCount := lg_receiptCount l + 1\<rparr>"

definition decrementReceiptCount :: "('i, 'm, 'c) ledger \<Rightarrow> edge_error + ('i, 'm, 'c) ledger" where
  "decrementReceiptCount l =
     (if lg_receiptCount l - 1 < 0
      then Inl (Panic ''mtprotoedge: rpc execution receipt counter underflow'')
      else Inr (l\<lparr>lg_receiptCount := lg_receiptCount l - 1\<rparr>))"

definition unlinkElement :: "('i, 'm, 'c) ledger \<Rightarrow> nat \<Rightarrow> nat \<Rightarrow> edge_error + ('i, 'm, 'c) ledger" where
  "unlinkElement l i a =
     decrementReceiptCount
       (l\<lparr>lg_byKey := (lg_byKey l)(rc_key (lg_receipts l ! a) := None),
          lg_order := (lg_order l)(i := remove1 a (lg_order l i))\<rparr>)"

definition release_receipt :: "('i, 'm, 'c) ledger \<Rightarrow> nat \<Rightarrow> edge_error + ('i, 'm, 'c) ledger" where
  "release_receipt l a =
     (case rc_reservation (lg_receipts l ! a) of
        None \<Rightarrow> Inr l
      | Some r \<Rightarrow>
          (case fb_release (lg_fairBudget l) r of
             Inl e \<Rightarrow> Inl e
           | Inr b \<Rightarrow>
               Inr (l\<lparr>lg_fairBudget := b,
                      lg_receipts := (lg_receipts l)[a := (lg_receipts l ! a)\<lparr>rc_reservation := None\<rparr>]\<rparr>)))"

definition removeElement :: "('i, 'm, 'c) ledger \<Rightarrow> nat \<Rightarrow> nat \<Rightarrow> edge_error + ('i, 'm, 'c) ledger" where
  "removeElement l i a =
     (case unlinkElement l i a of Inl e \<Rightarrow> Inl e | Inr l \<Rightarrow> release_receipt l a)"

fun expire_loop :: "('i, 'm, 'c) ledger \<Rightarrow> nat \<Rightarrow> int \<Rightarrow> nat list \<Rightarrow> edge_error + ('i, 'm, 'c) ledger" where
  "expire_loop l i now [] = Inr l"
| "expire_loop l i now (a # rest) =
     (if rc_expiresAt (lg_receipts l ! a) > now then Inr l
      else case removeElement l i a of Inl e \<Rightarrow> Inl e | Inr l \<Rightarrow> expire_loop l i now rest)"

definition expireLocked :: "('i, 'm, 'c) ledger \<Rightarrow> nat \<Rightarrow> int \<Rightarrow> edge_error + ('i, 'm, 'c) ledger" where
  "expireLocked l i now = expire_loop l i now (lg_order l i)"

fun expire_shards :: "('i, 'm, 'c) ledger \<Rightarrow> (nat \<Rightarrow> int) \<Rightarrow> nat list \<Rightarrow> edge_error + ('i, 'm, 'c) ledger" where
  "expire_shards l now [] = Inr l"
| "expire_shards l now (i # rest) =
     (case expireLocked l i (now i) of Inl e \<Rightarrow> Inl e | Inr l \<Rightarrow> expire_shards l now rest)"

definition expireReceipts :: "('i, 'm, 'c) ledger \<Rightarrow> (nat \<Rightarrow> int) \<Rightarrow> edge_error + ('i, 'm, 'c) ledger" where
  "expireReceipts l now = expire_shards l now [0..<rpcExecutionLedgerShards]"

fun forget_loop ::
  "('i, 'm, 'c) ledger \<Rightarrow> nat \<Rightarrow> session_key \<Rightarrow> nat list \<Rightarrow> edge_error + ('i, 'm, 'c) ledger" where
  "forget_loop l i session [] = Inr l"
| "forget_loop l i session (a # rest) =
     (if session_of (rc_key (lg_receipts l ! a)) = session
      then (case removeElement l i a of Inl e \<Rightarrow> Inl e | Inr l \<Rightarrow> forget_loop l i session rest)
      else forget_loop l i session rest)"

fun forget_shards ::
  "('i, 'm, 'c) ledger \<Rightarrow> session_key \<Rightarrow> nat list \<Rightarrow> edge_error + ('i, 'm, 'c) ledger" where
  "forget_shards l session [] = Inr l"
| "forget_shards l session (i # rest) =
     (case forget_loop l i session (lg_order l i) of
        Inl e \<Rightarrow> Inl e | Inr l \<Rightarrow> forget_shards l session rest)"

definition forgetSession ::
  "('i, 'm, 'c) ledger \<Rightarrow> authkey \<Rightarrow> sessionid \<Rightarrow> edge_error + ('i, 'm, 'c) ledger" where
  "forgetSession l authKeyID sessionID =
     forget_shards l (authKeyID, sessionID) [0..<rpcExecutionLedgerShards]"

definition receiptBudgetBytes :: "('i, 'm, 'c) ledger \<Rightarrow> int" where
  "receiptBudgetBytes l = lg_receiptCount l * rpcExecutionReceiptBudgetBytes"

definition stableAdmissionSafeFloor :: "('i, 'm, 'c) ledger \<Rightarrow> 64 word" where
  "stableAdmissionSafeFloor l = stableSafeFloor (lg_activeAdmissions l) (lg_nextAdmissionSeq l)"

section \<open>Acquire\<close>

definition new_flight :: "'i identity \<Rightarrow> 64 word \<Rightarrow> nat \<Rightarrow> ('i, 'm, 'c) flight" where
  "new_flight identity admissionSeq reservation =
     \<lparr>fl_done = False, fl_encoded = None, fl_ok = False, fl_subscribers = [],
      fl_executionDone = False, fl_executionOK = False, fl_executionSubscribers = [],
      fl_acknowledged = False, fl_subscriberSlots = 0, fl_identity = identity,
      fl_admissionSeq = admissionSeq, fl_reservation = Some reservation\<rparr>"

definition zero_acquire :: "'m acquire_result" where
  "zero_acquire = \<lparr>aq_state = rpcResultAcquireCompleted, aq_admissionSeq = 0, aq_encoded = None,
     aq_waiter = None, aq_owner = None, aq_executionKnown = False, aq_executionOK = False\<rparr>"

definition acquire_receipt ::
  "'i receipt \<Rightarrow> 'i identity \<Rightarrow> 'm option \<Rightarrow> edge_error + 'm acquire_result" where
  "acquire_receipt entry identity replayed =
     (let result = zero_acquire\<lparr>aq_admissionSeq := rc_admissionSeq entry,
            aq_executionKnown := rc_executionKnown entry, aq_executionOK := rc_executionOK entry\<rparr>
      in if \<not> id_matches (rc_identity entry) identity then Inl (identityMismatch (rc_identity entry))
         else if rc_acknowledged entry then Inr (result\<lparr>aq_state := rpcResultAcquireAcknowledged\<rparr>)
         else if rc_unavailable entry then Inl ErrRPCResultFlightCapacity
         else case replayed of
                None \<Rightarrow> Inl ErrRPCResultReplayUnavailable
              | Some encoded \<Rightarrow> Inr (result\<lparr>aq_state := rpcResultAcquireCompleted, aq_encoded := Some encoded\<rparr>))"

definition acquire_flight ::
  "('i, 'm, 'c) flight \<Rightarrow> nat \<Rightarrow> 'i identity \<Rightarrow> edge_error + 'm acquire_result" where
  "acquire_flight flight f identity =
     (if \<not> id_matches (fl_identity flight) identity then Inl (identityMismatch (fl_identity flight))
      else if fl_acknowledged flight
      then Inr (zero_acquire\<lparr>aq_state := rpcResultAcquireAcknowledged,
                  aq_admissionSeq := fl_admissionSeq flight,
                  aq_executionKnown := fl_executionDone flight, aq_executionOK := fl_executionOK flight\<rparr>)
      else Inr (zero_acquire\<lparr>aq_state := rpcResultAcquirePending,
                  aq_admissionSeq := fl_admissionSeq flight, aq_waiter := Some f\<rparr>))"

text \<open>
  One pass of the loop in \<open>acquire\<close> under the shard lock. The inner \<open>None\<close> is the
  \<open>continue\<close> branch: the fair budget refused the row.
\<close>

definition install_owner ::
  "('i, 'm, 'c) ledger \<Rightarrow> rpc_key \<Rightarrow> 'i identity \<Rightarrow> 64 word \<Rightarrow> nat \<Rightarrow> 'm acquire_result \<times> ('i, 'm, 'c) ledger" where
  "install_owner l key identity admissionSeq reservation =
     (let f = length (lg_flights l); lease = length (lg_leases l)
      in (zero_acquire\<lparr>aq_state := rpcResultAcquireOwner, aq_admissionSeq := admissionSeq,
            aq_owner := Some lease\<rparr>,
          l\<lparr>lg_flights := lg_flights l @ [new_flight identity admissionSeq reservation],
            lg_pending := (lg_pending l)(key \<mapsto> f),
            lg_leases := lg_leases l @
              [\<lparr>ls_key = key, ls_flight = f, ls_abortHook = None, ls_handedOff = False\<rparr>]\<rparr>))"

definition acquire_owner ::
  "('i, 'm, 'c) ledger \<Rightarrow> rpc_key \<Rightarrow> 'i identity
     \<Rightarrow> edge_error + ((edge_error + 'm acquire_result) option \<times> ('i, 'm, 'c) ledger)" where
  "acquire_owner l key identity =
     (case limit_reserve (lg_flightLimit l) of
        (False, fl) \<Rightarrow> Inr (Some (Inl ErrRPCResultFlightCapacity), l\<lparr>lg_flightLimit := fl\<rparr>)
      | (True, fl) \<Rightarrow>
          (case reserveOwner (lg_fairBudget l) key of
             (None, b) \<Rightarrow>
               (case limit_release fl of
                  Inl e \<Rightarrow> Inl e
                | Inr fl \<Rightarrow> Inr (None, l\<lparr>lg_flightLimit := fl, lg_fairBudget := b\<rparr>))
           | (Some r, b) \<Rightarrow>
               let l = l\<lparr>lg_flightLimit := fl, lg_fairBudget := b\<rparr> in
               if id_valid identity
               then (case allocateAndRegister (lg_activeAdmissions l) (lg_nextAdmissionSeq l) of
                       Inl e \<Rightarrow>
                         (case fb_release b r of
                            Inl e' \<Rightarrow> Inl e'
                          | Inr b \<Rightarrow>
                              (case limit_release fl of
                                 Inl e' \<Rightarrow> Inl e'
                               | Inr fl \<Rightarrow>
                                   Inr (Some (Inl e), l\<lparr>lg_flightLimit := fl, lg_fairBudget := b\<rparr>)))
                     | Inr (admissionSeq, t, nextSeq) \<Rightarrow>
                         (case install_owner
                                 (l\<lparr>lg_activeAdmissions := t, lg_nextAdmissionSeq := nextSeq\<rparr>)
                                 key identity admissionSeq r of
                            (res, l) \<Rightarrow> Inr (Some (Inr res), l)))
               else (case install_owner l key identity 0 r of (res, l) \<Rightarrow> Inr (Some (Inr res), l))))"

definition acquire_once ::
  "('i, 'm, 'c) ledger \<Rightarrow> (rpc_key \<Rightarrow> 'm option) \<Rightarrow> int \<Rightarrow> rpc_key \<Rightarrow> 'i identity
     \<Rightarrow> edge_error + ((edge_error + 'm acquire_result) option \<times> ('i, 'm, 'c) ledger)" where
  "acquire_once l replayStore now key identity =
     (case expireLocked l (shardIndex l key) now of
        Inl e \<Rightarrow> Inl e
      | Inr l \<Rightarrow>
          (case lg_byKey l key of
             Some a \<Rightarrow> Inr (Some (acquire_receipt (lg_receipts l ! a) identity (replayStore key)), l)
           | None \<Rightarrow>
               (case lg_pending l key of
                  Some f \<Rightarrow> Inr (Some (acquire_flight (lg_flights l ! f) f identity), l)
                | None \<Rightarrow> acquire_owner l key identity)))"

definition acquire ::
  "('i, 'm, 'c) ledger \<Rightarrow> (rpc_key \<Rightarrow> 'm option) \<Rightarrow> int \<Rightarrow> (nat \<Rightarrow> int) \<Rightarrow> int \<Rightarrow> rpc_key \<Rightarrow> 'i identity
     \<Rightarrow> edge_error + ((edge_error + 'm acquire_result) \<times> ('i, 'm, 'c) ledger)" where
  "acquire l replayStore now nowExpire nowRetry key identity =
     (if rk_reqMsgID key = 0 then Inr (Inl ErrRPCResultFlightInvalid, l)
      else case acquire_once l replayStore now key identity of
        Inl e \<Rightarrow> Inl e
      | Inr (Some res, l) \<Rightarrow> Inr (res, l)
      | Inr (None, l) \<Rightarrow>
          (case expireReceipts l nowExpire of
             Inl e \<Rightarrow> Inl e
           | Inr l \<Rightarrow>
               (case acquire_once l replayStore nowRetry key identity of
                  Inl e \<Rightarrow> Inl e
                | Inr (Some res, l) \<Rightarrow> Inr (res, l)
                | Inr (None, l) \<Rightarrow> Inr (Inl ErrRPCResultFlightCapacity, l))))"

definition Acquire where
  "Acquire l replayStore now nowExpire nowRetry key =
     acquire l replayStore now nowExpire nowRetry key zero_identity"

definition AcquireIdentified where
  "AcquireIdentified l replayStore now nowExpire nowRetry key ident =
     acquire l replayStore now nowExpire nowRetry key
       \<lparr>id_exact = Some ident, id_profile = 0, id_valid = True\<rparr>"

definition AcquireLayerIdentified where
  "AcquireLayerIdentified l replayStore now nowExpire nowRetry key profile ident =
     acquire l replayStore now nowExpire nowRetry key
       \<lparr>id_exact = Some ident, id_profile = profile, id_valid = True\<rparr>"

section \<open>Reading receipts and acknowledging\<close>

definition ExactAdmissionProfile ::
  "('i, 'm, 'c) ledger \<Rightarrow> int \<Rightarrow> rpc_key \<Rightarrow> edge_error + (int option \<times> ('i, 'm, 'c) ledger)" where
  "ExactAdmissionProfile l now key =
     (let exact = (\<lambda>i. if id_valid i \<and> id_profile i \<noteq> 0 then Some (id_profile i) else None);
          from_flight = (\<lambda>l. case lg_pending l key of
             None \<Rightarrow> None | Some f \<Rightarrow> exact (fl_identity (lg_flights l ! f)))
      in if rk_reqMsgID key = 0 then Inr (None, l)
         else case lg_byKey l key of
           None \<Rightarrow> Inr (from_flight l, l)
         | Some a \<Rightarrow>
             if rc_expiresAt (lg_receipts l ! a) > now
             then Inr (exact (rc_identity (lg_receipts l ! a)), l)
             else (case removeElement l (shardIndex l key) a of
                     Inl e \<Rightarrow> Inl e | Inr l \<Rightarrow> Inr (from_flight l, l)))"

definition Replay ::
  "('i, 'm, 'c) ledger \<Rightarrow> (rpc_key \<Rightarrow> 'm option) \<Rightarrow> int \<Rightarrow> rpc_key
     \<Rightarrow> edge_error + ('m option \<times> ('i, 'm, 'c) ledger)" where
  "Replay l replayStore now key =
     (if rk_reqMsgID key = 0 then Inr (None, l)
      else case lg_byKey l key of
        None \<Rightarrow> Inr (None, l)
      | Some a \<Rightarrow>
          let receipt = lg_receipts l ! a in
          if \<not> rc_expiresAt receipt > now
          then (case removeElement l (shardIndex l key) a of Inl e \<Rightarrow> Inl e | Inr l \<Rightarrow> Inr (None, l))
          else if rc_unavailable receipt \<or> rc_acknowledged receipt then Inr (None, l)
          else Inr (replayStore key, l))"

definition put_flight :: "('i, 'm, 'c) ledger \<Rightarrow> nat \<Rightarrow> ('i, 'm, 'c) flight \<Rightarrow> ('i, 'm, 'c) ledger" where
  "put_flight l f flight = l\<lparr>lg_flights := (lg_flights l)[f := flight]\<rparr>"

definition Acknowledge ::
  "('i, 'm, 'c) ledger \<Rightarrow> int \<Rightarrow> rpc_key \<Rightarrow> edge_error + (bool \<times> ('i, 'm, 'c) ledger)" where
  "Acknowledge l now key =
     (if rk_reqMsgID key = 0 then Inr (False, l)
      else case expireLocked l (shardIndex l key) now of
        Inl e \<Rightarrow> Inl e
      | Inr l \<Rightarrow>
          (case lg_byKey l key of
             Some a \<Rightarrow>
               (case removeElement l (shardIndex l key) a of Inl e \<Rightarrow> Inl e | Inr l \<Rightarrow> Inr (True, l))
           | None \<Rightarrow>
               (case lg_pending l key of
                  Some f \<Rightarrow> Inr (True, put_flight l f ((lg_flights l ! f)\<lparr>fl_acknowledged := True\<rparr>))
                | None \<Rightarrow> Inr (False, l))))"

definition ObserveDependency ::
  "('i, 'm, 'c) ledger \<Rightarrow> int \<Rightarrow> rpc_key \<Rightarrow> edge_error + (dependency option \<times> ('i, 'm, 'c) ledger)" where
  "ObserveDependency l now key =
     (let from_flight = (\<lambda>l. case lg_pending l key of
             None \<Rightarrow> None
           | Some f \<Rightarrow>
               (let flight = lg_flights l ! f in
                if fl_executionDone flight
                then Some \<lparr>dep_waiter = None, dep_completed = True, dep_success = fl_executionOK flight\<rparr>
                else Some \<lparr>dep_waiter = Some f, dep_completed = False, dep_success = False\<rparr>))
      in if rk_reqMsgID key = 0 then Inr (None, l)
         else case lg_byKey l key of
           None \<Rightarrow> Inr (from_flight l, l)
         | Some a \<Rightarrow>
             let receipt = lg_receipts l ! a in
             if rc_expiresAt receipt > now
             then Inr (if \<not> rc_executionKnown receipt then None
                       else Some \<lparr>dep_waiter = None, dep_completed = True,
                                  dep_success = rc_executionOK receipt\<rparr>, l)
             else (case removeElement l (shardIndex l key) a of
                     Inl e \<Rightarrow> Inl e | Inr l \<Rightarrow> Inr (from_flight l, l)))"

section \<open>Completion\<close>

definition releaseFlightSubscriberSlotsLocked ::
  "('i, 'm, 'c) ledger \<Rightarrow> rpc_key \<Rightarrow> nat \<Rightarrow> int \<Rightarrow> edge_error + ('i, 'm, 'c) ledger" where
  "releaseFlightSubscriberSlotsLocked l key f slots =
     (let flight = lg_flights l ! f in
      if slots = 0 then Inr l
      else if slots < 0 \<or> fl_subscriberSlots flight < slots
      then Inl (Panic ''mtproto rpc result subscriber slot underflow'')
      else case sub_release (lg_subscriberBudget l) key slots of
        Inl e \<Rightarrow> Inl e
      | Inr b \<Rightarrow>
          Inr ((put_flight l f (flight\<lparr>fl_subscriberSlots := fl_subscriberSlots flight - slots\<rparr>))
                 \<lparr>lg_subscriberBudget := b\<rparr>))"

text \<open>
  Leaving the pending state, shared by completion and abort: return the in-flight slot, retire the
  admission sequence, detach all callbacks and return their slots, and settle the execution
  outcome as failed when the handler never reported one. The detached flight is closed.
\<close>

definition leave_pending ::
  "('i, 'm, 'c) ledger \<Rightarrow> rpc_key \<Rightarrow> nat \<Rightarrow> edge_error + ('i, 'm, 'c) ledger" where
  "leave_pending l key f =
     (case limit_release (lg_flightLimit l) of
        Inl e \<Rightarrow> Inl e
      | Inr fl \<Rightarrow>
          (case retire (lg_activeAdmissions l) (fl_admissionSeq (lg_flights l ! f)) of
             Inl e \<Rightarrow> Inl e
           | Inr t \<Rightarrow>
               let l = l\<lparr>lg_flightLimit := fl, lg_activeAdmissions := t\<rparr>;
                   flight = lg_flights l ! f;
                   slots = int (length (fl_subscribers flight)) + int (length (fl_executionSubscribers flight));
                   flight = flight\<lparr>fl_subscribers := [], fl_executionSubscribers := []\<rparr>;
                   flight = (if \<not> fl_executionDone flight
                             then flight\<lparr>fl_executionDone := True, fl_executionOK := False\<rparr>
                             else flight)
               in (case releaseFlightSubscriberSlotsLocked (put_flight l f flight) key f slots of
                     Inl e \<Rightarrow> Inl e
                   | Inr l \<Rightarrow> Inr (put_flight l f ((lg_flights l ! f)\<lparr>fl_done := True\<rparr>)))))"

definition completeRPCResultFlightLocked ::
  "('i, 'm, 'c) ledger \<Rightarrow> rpc_key \<Rightarrow> 'm \<Rightarrow> edge_error + ('c list \<times> 'c list \<times> bool \<times> ('i, 'm, 'c) ledger)" where
  "completeRPCResultFlightLocked l key encoded =
     (case lg_pending l key of
        None \<Rightarrow> Inr ([], [], False, l)
      | Some f \<Rightarrow>
          let l = l\<lparr>lg_pending := (lg_pending l)(key := None)\<rparr>;
              flight = lg_flights l ! f;
              released = (case fl_reservation flight of
                            None \<Rightarrow> Inr (lg_fairBudget l)
                          | Some r \<Rightarrow> releasePending (lg_fairBudget l) r)
          in (case released of
                Inl e \<Rightarrow> Inl e
              | Inr b \<Rightarrow>
                  let l = (put_flight l f (flight\<lparr>fl_reservation := None, fl_encoded := Some encoded,
                             fl_ok := True\<rparr>))\<lparr>lg_fairBudget := b\<rparr>
                  in (case leave_pending l key f of
                        Inl e \<Rightarrow> Inl e
                      | Inr l \<Rightarrow>
                          Inr (fl_subscribers flight, fl_executionSubscribers flight,
                               fl_executionOK (lg_flights l ! f), l))))"

definition rpcResultFlightMetadataLocked ::
  "('i, 'm, 'c) ledger \<Rightarrow> rpc_key \<Rightarrow> 'i identity \<times> 64 word \<times> bool \<times> bool \<times> bool" where
  "rpcResultFlightMetadataLocked l key =
     (case lg_pending l key of
        Some f \<Rightarrow> (let flight = lg_flights l ! f in
                    (fl_identity flight, fl_admissionSeq flight, fl_executionDone flight,
                     fl_executionOK flight, fl_acknowledged flight))
      | None \<Rightarrow> (zero_identity, 0, False, False, False))"

definition publish_receipt ::
  "('i, 'm, 'c) ledger \<Rightarrow> int \<Rightarrow> rpc_key \<Rightarrow> bool \<Rightarrow> nat \<Rightarrow> ('i, 'm, 'c) ledger" where
  "publish_receipt l now key replayable reservation =
     (case rpcResultFlightMetadataLocked l key of
        (identity, admissionSeq, executionKnown, executionOK, acknowledged) \<Rightarrow>
          let a = length (lg_receipts l); i = shardIndex l key
          in incrementReceiptCount
               (l\<lparr>lg_receipts := lg_receipts l @
                    [\<lparr>rc_key = key, rc_expiresAt = now + rpcExecutionReceiptTTL, rc_identity = identity,
                      rc_admissionSeq = admissionSeq, rc_executionKnown = executionKnown,
                      rc_executionOK = executionOK, rc_acknowledged = acknowledged,
                      rc_unavailable = (\<not> replayable), rc_reservation = Some reservation\<rparr>],
                  lg_order := (lg_order l)(i := lg_order l i @ [a]),
                  lg_byKey := (lg_byKey l)(key \<mapsto> a)\<rparr>))"

definition unlink_old ::
  "('i, 'm, 'c) ledger \<Rightarrow> rpc_key \<Rightarrow> nat \<Rightarrow> edge_error + ('i, 'm, 'c) ledger" where
  "unlink_old l key reservation =
     (case lg_byKey l key of
        None \<Rightarrow> Inr l
      | Some a \<Rightarrow>
          (case unlinkElement l (shardIndex l key) a of
             Inl e \<Rightarrow> Inl e
           | Inr l \<Rightarrow> if rc_reservation (lg_receipts l ! a) \<noteq> Some reservation
                       then release_receipt l a else Inr l))"

definition completion_reservation ::
  "('i, 'm, 'c) ledger \<Rightarrow> rpc_key \<Rightarrow> edge_error + (nat option \<times> fair_budget)" where
  "completion_reservation l key =
     (case lg_pending l key of
        Some f \<Rightarrow>
          (case fl_reservation (lg_flights l ! f) of
             None \<Rightarrow> Inl (Panic ''mtprotoedge: pending rpc execution has no fair-budget reservation'')
           | Some r \<Rightarrow> Inr (Some r, lg_fairBudget l))
      | None \<Rightarrow>
          (case lg_byKey l key of
             Some a \<Rightarrow>
               (case rc_reservation (lg_receipts l ! a) of
                  Some r \<Rightarrow> Inr (Some r, lg_fairBudget l)
                | None \<Rightarrow> Inr (reserveCompleted (lg_fairBudget l) key))
           | None \<Rightarrow> Inr (reserveCompleted (lg_fairBudget l) key)))"

definition result_effects :: "'c list \<Rightarrow> 'm option \<Rightarrow> bool \<Rightarrow> ('m, 'c) effect list" where
  "result_effects subscribers encoded ok = map (\<lambda>c. ResultCallback c encoded ok) subscribers"

definition execution_effects :: "'c list \<Rightarrow> bool \<Rightarrow> ('m, 'c) effect list" where
  "execution_effects subscribers ok = map (\<lambda>c. ExecutionCallback c ok) subscribers"

definition completeOnce ::
  "('i, 'm, 'c) ledger \<Rightarrow> int \<Rightarrow> rpc_key \<Rightarrow> 'm \<Rightarrow> bool
     \<Rightarrow> edge_error + (bool \<times> ('m, 'c) effect list \<times> ('i, 'm, 'c) ledger)" where
  "completeOnce l now key encoded replayable =
     (case expireLocked l (shardIndex l key) now of
        Inl e \<Rightarrow> Inl e
      | Inr l \<Rightarrow>
          if lg_byKey l key \<noteq> None \<and> lg_pending l key = None then Inr (True, [], l)
          else case completion_reservation l key of
            Inl e \<Rightarrow> Inl e
          | Inr (None, b) \<Rightarrow> Inr (False, [], l\<lparr>lg_fairBudget := b\<rparr>)
          | Inr (Some r, b) \<Rightarrow>
              (case unlink_old (l\<lparr>lg_fairBudget := b\<rparr>) key r of
                 Inl e \<Rightarrow> Inl e
               | Inr l \<Rightarrow>
                   let a = length (lg_receipts l);
                       l = publish_receipt l now key replayable r
                   in (case completeRPCResultFlightLocked l key encoded of
                         Inl e \<Rightarrow> Inl e
                       | Inr (subscribers, executionSubscribers, terminalOK, l) \<Rightarrow>
                           (case (if rc_acknowledged (lg_receipts l ! a)
                                  then removeElement l (shardIndex l key) a else Inr l) of
                              Inl e \<Rightarrow> Inl e
                            | Inr l \<Rightarrow>
                                Inr (True, result_effects subscribers (Some encoded) True @
                                       execution_effects executionSubscribers terminalOK, l)))))"

definition Complete ::
  "('i, 'm, 'c) ledger \<Rightarrow> (rpc_key \<Rightarrow> 'm option) \<Rightarrow> int \<Rightarrow> (nat \<Rightarrow> int) \<Rightarrow> int \<Rightarrow> rpc_key \<Rightarrow> 'm option
     \<Rightarrow> bool \<Rightarrow> edge_error + (('m, 'c) effect list \<times> ('i, 'm, 'c) ledger)" where
  "Complete l replayStore now nowExpire nowRetry key encoded replayable =
     (case encoded of
        None \<Rightarrow> Inr ([], l)
      | Some encoded \<Rightarrow>
          if rk_reqMsgID key = 0 then Inr ([], l)
          else let replayable = (replayable \<and> replayStore key \<noteq> None) in
            case completeOnce l now key encoded replayable of
              Inl e \<Rightarrow> Inl e
            | Inr (True, effects, l) \<Rightarrow> Inr (effects, l)
            | Inr (False, _, l) \<Rightarrow>
                (case expireReceipts l nowExpire of
                   Inl e \<Rightarrow> Inl e
                 | Inr l \<Rightarrow>
                     (case completeOnce l nowRetry key encoded replayable of
                        Inl e \<Rightarrow> Inl e
                      | Inr (_, effects, l) \<Rightarrow> Inr (effects, l))))"

section \<open>Owner leases and waiters\<close>

definition owns :: "('i, 'm, 'c) ledger \<Rightarrow> 'c lease \<Rightarrow> bool" where
  "owns l lease \<longleftrightarrow> lg_pending l (ls_key lease) = Some (ls_flight lease)"

definition put_lease :: "('i, 'm, 'c) ledger \<Rightarrow> nat \<Rightarrow> 'c lease \<Rightarrow> ('i, 'm, 'c) ledger" where
  "put_lease l p lease = l\<lparr>lg_leases := (lg_leases l)[p := lease]\<rparr>"

definition SetAbortHook :: "('i, 'm, 'c) ledger \<Rightarrow> nat \<Rightarrow> 'c option \<Rightarrow> ('i, 'm, 'c) ledger" where
  "SetAbortHook l p fn = put_lease l p ((lg_leases l ! p)\<lparr>ls_abortHook := fn\<rparr>)"

definition InstallAbortHook :: "('i, 'm, 'c) ledger \<Rightarrow> nat \<Rightarrow> 'c option \<Rightarrow> bool \<times> ('i, 'm, 'c) ledger" where
  "InstallAbortHook l p fn =
     (if fn = None then (False, l)
      else if \<not> owns l (lg_leases l ! p) then (False, l)
      else (True, put_lease l p ((lg_leases l ! p)\<lparr>ls_abortHook := fn\<rparr>)))"

definition HandOff :: "('i, 'm, 'c) ledger \<Rightarrow> nat \<Rightarrow> bool \<times> ('i, 'm, 'c) ledger" where
  "HandOff l p =
     (if \<not> owns l (lg_leases l ! p) then (False, l)
      else (True, put_lease l p ((lg_leases l ! p)\<lparr>ls_handedOff := True\<rparr>)))"

definition CompleteExecution ::
  "('i, 'm, 'c) ledger \<Rightarrow> nat \<Rightarrow> bool \<Rightarrow> edge_error + (bool \<times> ('m, 'c) effect list \<times> ('i, 'm, 'c) ledger)" where
  "CompleteExecution l p success =
     (let lease = lg_leases l ! p; f = ls_flight lease; flight = lg_flights l ! f in
      if \<not> owns l lease \<or> fl_executionDone flight then Inr (False, [], l)
      else let subscribers = fl_executionSubscribers flight;
               flight = flight\<lparr>fl_executionDone := True, fl_executionOK := success,
                               fl_executionSubscribers := []\<rparr>
           in (case releaseFlightSubscriberSlotsLocked (put_flight l f flight) (ls_key lease) f
                      (int (length subscribers)) of
                 Inl e \<Rightarrow> Inl e
               | Inr l \<Rightarrow> Inr (True, execution_effects subscribers success, l)))"

definition Abort ::
  "('i, 'm, 'c) ledger \<Rightarrow> nat \<Rightarrow> edge_error + (bool \<times> ('m, 'c) effect list \<times> ('i, 'm, 'c) ledger)" where
  "Abort l p =
     (let lease = lg_leases l ! p; key = ls_key lease; f = ls_flight lease in
      if ls_handedOff lease then Inr (False, [], l)
      else if \<not> owns l lease then Inr (False, [], l)
      else let l = l\<lparr>lg_pending := (lg_pending l)(key := None)\<rparr>;
               flight = lg_flights l ! f;
               released = (case fl_reservation flight of
                             None \<Rightarrow> Inr (lg_fairBudget l)
                           | Some r \<Rightarrow> fb_release (lg_fairBudget l) r)
           in (case released of
                 Inl e \<Rightarrow> Inl e
               | Inr b \<Rightarrow>
                   let l = (put_flight l f (flight\<lparr>fl_reservation := None\<rparr>))\<lparr>lg_fairBudget := b\<rparr>
                   in (case leave_pending l key f of
                         Inl e \<Rightarrow> Inl e
                       | Inr l \<Rightarrow>
                           Inr (True,
                             (case ls_abortHook lease of None \<Rightarrow> [] | Some h \<Rightarrow> [AbortHook h]) @
                             result_effects (fl_subscribers flight) None False @
                             execution_effects (fl_executionSubscribers flight) False,
                             put_lease l p (lease\<lparr>ls_abortHook := None\<rparr>)))))"

definition waiter_subscribe ::
  "('i, 'm, 'c) ledger \<Rightarrow> rpc_key \<Rightarrow> nat \<Rightarrow> 'c option \<Rightarrow> 'c option
     \<Rightarrow> edge_error + (('m, 'c) effect list \<times> ('i, 'm, 'c) ledger)" where
  "waiter_subscribe l key f resultFn executionFn =
     (let flight = lg_flights l ! f in
      if resultFn = None \<and> executionFn = None then Inl ErrRPCResultFlightInvalid
      else if lg_pending l key = Some f
      then let slots = (if resultFn \<noteq> None then 1 else 0) +
                       (if executionFn \<noteq> None \<and> \<not> fl_executionDone flight then 1 else 0) :: int;
               charged = (if slots > 0
                          then if fl_subscriberSlots flight > lg_subscriberPerFlight l - slots
                               then (False, lg_subscriberBudget l)
                               else sub_reserve (lg_subscriberBudget l) key slots
                          else (True, lg_subscriberBudget l))
           in if \<not> fst charged then Inl ErrRPCResultSubscriberCapacity
              else let flight' = flight\<lparr>fl_subscriberSlots := fl_subscriberSlots flight + slots\<rparr>;
                       flight' = (case resultFn of None \<Rightarrow> flight'
                          | Some c \<Rightarrow> flight'\<lparr>fl_subscribers := fl_subscribers flight @ [c]\<rparr>);
                       flight' = (case executionFn of None \<Rightarrow> flight'
                          | Some c \<Rightarrow> if fl_executionDone flight then flight'
                              else flight'\<lparr>fl_executionSubscribers := fl_executionSubscribers flight @ [c]\<rparr>)
                   in Inr ((case executionFn of None \<Rightarrow> []
                              | Some c \<Rightarrow> if fl_executionDone flight
                                          then [ExecutionCallback c (fl_executionOK flight)] else []),
                           (put_flight l f flight')\<lparr>lg_subscriberBudget := snd charged\<rparr>)
      else if (resultFn \<noteq> None \<and> \<not> fl_done flight) \<or> (executionFn \<noteq> None \<and> \<not> fl_executionDone flight)
      then Inl ErrRPCResultFlightInvalid
      else Inr ((case executionFn of None \<Rightarrow> [] | Some c \<Rightarrow> [ExecutionCallback c (fl_executionOK flight)]) @
                (case resultFn of None \<Rightarrow> [] | Some c \<Rightarrow> [ResultCallback c (fl_encoded flight) (fl_ok flight)]),
                l))"

definition Subscribe where
  "Subscribe l key f fn =
     (if fn = None then Inl ErrRPCResultFlightInvalid else waiter_subscribe l key f fn None)"

definition SubscribeExecution where
  "SubscribeExecution l key f fn =
     (if fn = None then Inl ErrRPCResultFlightInvalid else waiter_subscribe l key f None fn)"

definition SubscribeResultAndExecution where
  "SubscribeResultAndExecution l key f resultFn executionFn =
     (if resultFn = None \<or> executionFn = None then Inl ErrRPCResultFlightInvalid
      else waiter_subscribe l key f resultFn executionFn)"

datatype 'm wait_outcome = WaitResult "'m option" bool | WaitCanceled | WaitBlocked

definition Wait :: "('i, 'm, 'c) ledger \<Rightarrow> nat \<Rightarrow> bool \<Rightarrow> 'm wait_outcome" where
  "Wait l f ctxDone =
     (let flight = lg_flights l ! f in
      if fl_done flight then WaitResult (fl_encoded flight) (fl_ok flight)
      else if ctxDone then WaitCanceled else WaitBlocked)"

section \<open>The accounting invariant\<close>

text \<open>
  Each clause is stated over the fields it depends on, so that operations on other fields keep it
  trivially. \<open>res_ok h k r p\<close>: cell \<open>r\<close> of the reservation heap is held for key \<open>k\<close>,
  in the pending state iff \<open>p\<close>.
\<close>

definition res_ok :: "reservation list \<Rightarrow> rpc_key \<Rightarrow> nat \<Rightarrow> bool \<Rightarrow> bool" where
  "res_ok h k r p \<longleftrightarrow> r < length h \<and> rv_key (h ! r) = k \<and> live (h ! r) \<and> rv_pending (h ! r) = p"

definition pend_ok :: "(rpc_key \<rightharpoonup> nat) \<Rightarrow> ('i, 'm, 'c) flight list \<Rightarrow> reservation list \<Rightarrow> bool" where
  "pend_ok pend fs h \<longleftrightarrow> finite (dom pend) \<and>
     (\<forall>k f. pend k = Some f \<longrightarrow> f < length fs \<and> \<not> fl_done (fs ! f) \<and>
        (\<exists>r. fl_reservation (fs ! f) = Some r \<and> res_ok h k r True))"

definition rcpt_ok ::
  "(rpc_key \<Rightarrow> nat) \<Rightarrow> (rpc_key \<rightharpoonup> nat) \<Rightarrow> (nat \<Rightarrow> nat list) \<Rightarrow> 'i receipt list \<Rightarrow> reservation list \<Rightarrow> bool" where
  "rcpt_ok shard byKey ord rs h \<longleftrightarrow> finite (dom byKey) \<and>
     (\<forall>k a. byKey k = Some a \<longrightarrow> a < length rs \<and> rc_key (rs ! a) = k \<and> a \<in> set (ord (shard k)) \<and>
        (\<exists>r. rc_reservation (rs ! a) = Some r \<and> res_ok h k r False)) \<and>
     (\<forall>i. distinct (ord i)) \<and>
     (\<forall>i. \<forall>a \<in> set (ord i). byKey (rc_key (rs ! a)) = Some a \<and> shard (rc_key (rs ! a)) = i)"

definition owned_ok ::
  "(rpc_key \<rightharpoonup> nat) \<Rightarrow> ('i, 'm, 'c) flight list \<Rightarrow> (rpc_key \<rightharpoonup> nat) \<Rightarrow> 'i receipt list \<Rightarrow> reservation list \<Rightarrow> bool" where
  "owned_ok pend fs byKey rs h \<longleftrightarrow>
     (\<forall>r < length h. live (h ! r) \<longrightarrow>
        (\<exists>f. pend (rv_key (h ! r)) = Some f \<and> fl_reservation (fs ! f) = Some r) \<or>
        (\<exists>a. byKey (rv_key (h ! r)) = Some a \<and> rc_reservation (rs ! a) = Some r))"

definition count_ok :: "(rpc_key \<rightharpoonup> nat) \<Rightarrow> flight_limit \<Rightarrow> (rpc_key \<rightharpoonup> nat) \<Rightarrow> int \<Rightarrow> bool" where
  "count_ok pend fl byKey n \<longleftrightarrow>
     lim_used fl = int (card (dom pend)) \<and> lim_used fl \<le> max 0 (lim_max fl) \<and> n = int (card (dom byKey))"

definition seq_of :: "(rpc_key \<rightharpoonup> nat) \<Rightarrow> ('i, 'm, 'c) flight list \<Rightarrow> rpc_key \<Rightarrow> 64 word" where
  "seq_of pend fs k = (case pend k of None \<Rightarrow> 0 | Some f \<Rightarrow> fl_admissionSeq (fs ! f))"

definition adm_ok :: "(rpc_key \<rightharpoonup> nat) \<Rightarrow> ('i, 'm, 'c) flight list \<Rightarrow> tracker \<Rightarrow> 64 word \<Rightarrow> bool" where
  "adm_ok pend fs t n \<longleftrightarrow> tr_inv t n \<and>
     active t = range (seq_of pend fs) - {0} \<and>
     (\<forall>k k'. seq_of pend fs k = seq_of pend fs k' \<longrightarrow> seq_of pend fs k \<noteq> 0 \<longrightarrow> k = k')"

definition slots_of :: "(rpc_key \<rightharpoonup> nat) \<Rightarrow> ('i, 'm, 'c) flight list \<Rightarrow> rpc_key \<Rightarrow> int" where
  "slots_of pend fs k = (case pend k of None \<Rightarrow> 0 | Some f \<Rightarrow> fl_subscriberSlots (fs ! f))"

definition slots_ok :: "int \<Rightarrow> ('i, 'm, 'c) flight \<Rightarrow> bool" where
  "slots_ok per x \<longleftrightarrow>
     fl_subscriberSlots x = int (length (fl_subscribers x)) + int (length (fl_executionSubscribers x)) \<and>
     (fl_executionDone x \<longrightarrow> fl_executionSubscribers x = []) \<and> fl_subscriberSlots x \<le> max 0 per"

definition subs_ok ::
  "(rpc_key \<rightharpoonup> nat) \<Rightarrow> ('i, 'm, 'c) flight list \<Rightarrow> subscriber_budget \<Rightarrow> int \<Rightarrow> bool" where
  "subs_ok pend fs b per \<longleftrightarrow> sb_inv b (dom pend) (slots_of pend fs) \<and>
     (\<forall>k f. pend k = Some f \<longrightarrow> slots_ok per (fs ! f))"

definition lease_ok :: "'c lease list \<Rightarrow> ('i, 'm, 'c) flight list \<Rightarrow> bool" where
  "lease_ok ls fs \<longleftrightarrow> (\<forall>x \<in> set ls. ls_flight x < length fs)"

abbreviation lg_heap :: "('i, 'm, 'c) ledger \<Rightarrow> reservation list" where
  "lg_heap l \<equiv> fb_reservations (lg_fairBudget l)"

definition lg_inv :: "('i, 'm, 'c) ledger \<Rightarrow> bool" where
  "lg_inv l \<longleftrightarrow> fb_inv (lg_fairBudget l) \<and>
     pend_ok (lg_pending l) (lg_flights l) (lg_heap l) \<and>
     rcpt_ok (shardIndex l) (lg_byKey l) (lg_order l) (lg_receipts l) (lg_heap l) \<and>
     owned_ok (lg_pending l) (lg_flights l) (lg_byKey l) (lg_receipts l) (lg_heap l) \<and>
     dom (lg_pending l) \<inter> dom (lg_byKey l) = {} \<and>
     count_ok (lg_pending l) (lg_flightLimit l) (lg_byKey l) (lg_receiptCount l) \<and>
     adm_ok (lg_pending l) (lg_flights l) (lg_activeAdmissions l) (lg_nextAdmissionSeq l) \<and>
     subs_ok (lg_pending l) (lg_flights l) (lg_subscriberBudget l) (lg_subscriberPerFlight l) \<and>
     lease_ok (lg_leases l) (lg_flights l)"

lemma lg_invD:
  assumes "lg_inv l"
  shows "fb_inv (lg_fairBudget l)"
    "pend_ok (lg_pending l) (lg_flights l) (lg_heap l)"
    "rcpt_ok (shardIndex l) (lg_byKey l) (lg_order l) (lg_receipts l) (lg_heap l)"
    "owned_ok (lg_pending l) (lg_flights l) (lg_byKey l) (lg_receipts l) (lg_heap l)"
    "dom (lg_pending l) \<inter> dom (lg_byKey l) = {}"
    "count_ok (lg_pending l) (lg_flightLimit l) (lg_byKey l) (lg_receiptCount l)"
    "adm_ok (lg_pending l) (lg_flights l) (lg_activeAdmissions l) (lg_nextAdmissionSeq l)"
    "subs_ok (lg_pending l) (lg_flights l) (lg_subscriberBudget l) (lg_subscriberPerFlight l)"
    "lease_ok (lg_leases l) (lg_flights l)"
  using assms by (simp_all add: lg_inv_def)

lemma shardIndex_hash: "lg_hash l' = lg_hash l \<Longrightarrow> shardIndex l' = shardIndex l"
  by (simp add: shardIndex_def fun_eq_iff)

lemma shardIndex_simps [simp]:
  "shardIndex (l\<lparr>lg_pending := a\<rparr>) = shardIndex l" "shardIndex (l\<lparr>lg_byKey := b\<rparr>) = shardIndex l"
  "shardIndex (l\<lparr>lg_order := c\<rparr>) = shardIndex l" "shardIndex (l\<lparr>lg_flights := d\<rparr>) = shardIndex l"
  "shardIndex (l\<lparr>lg_receipts := e\<rparr>) = shardIndex l" "shardIndex (l\<lparr>lg_leases := f\<rparr>) = shardIndex l"
  "shardIndex (l\<lparr>lg_receiptCount := g\<rparr>) = shardIndex l" "shardIndex (l\<lparr>lg_fairBudget := h\<rparr>) = shardIndex l"
  "shardIndex (l\<lparr>lg_flightLimit := i\<rparr>) = shardIndex l"
  "shardIndex (l\<lparr>lg_subscriberBudget := j\<rparr>) = shardIndex l"
  "shardIndex (l\<lparr>lg_nextAdmissionSeq := k\<rparr>) = shardIndex l"
  "shardIndex (l\<lparr>lg_activeAdmissions := m\<rparr>) = shardIndex l"
  by (simp_all add: shardIndex_def fun_eq_iff)

lemma shardIndex_lt: "shardIndex l k < rpcExecutionLedgerShards"
  by (simp add: shardIndex_def rpcExecutionLedgerShards_def)

lemma res_ok_other: "res_ok h k r p \<Longrightarrow> rv_key (h ! r') = k' \<Longrightarrow> k \<noteq> k' \<Longrightarrow> res_ok (h[r' := x]) k r p"
  by (cases "r = r'") (auto simp: res_ok_def)

lemma res_ok_append: "res_ok h k r p \<Longrightarrow> res_ok (h @ xs) k r p"
  by (simp add: res_ok_def nth_append)

lemma lg_inv_new:
  "lg_inv (newRPCExecutionLedger hash c :: ('i, 'm, 'c) ledger)"
proof -
  have d: "0 \<le> cap_default v 32768" "0 \<le> cap_default v (2 ^ 18)" for v by (simp_all add: cap_default_def)
  show ?thesis
    using d by (simp add: lg_inv_def newRPCExecutionLedger_def Let_def fb_inv_new
        pend_ok_def rcpt_ok_def owned_ok_def count_ok_def adm_ok_def seq_of_def subs_ok_def lease_ok_def sb_inv_new
        tr_inv_new newRPCExecutionFairBudget_def[THEN arg_cong[of _ _ fb_reservations]])
qed

subsection \<open>Removing receipts\<close>

text \<open>\<open>keeps_pending l l'\<close>: only receipts and their charges differ between \<open>l\<close> and \<open>l'\<close>.\<close>

definition keeps_pending :: "('i, 'm, 'c) ledger \<Rightarrow> ('i, 'm, 'c) ledger \<Rightarrow> bool" where
  "keeps_pending l l' \<longleftrightarrow> lg_hash l' = lg_hash l \<and> lg_pending l' = lg_pending l \<and>
     lg_flights l' = lg_flights l \<and> lg_leases l' = lg_leases l \<and>
     lg_flightLimit l' = lg_flightLimit l \<and> lg_subscriberBudget l' = lg_subscriberBudget l \<and>
     lg_subscriberPerFlight l' = lg_subscriberPerFlight l \<and>
     lg_nextAdmissionSeq l' = lg_nextAdmissionSeq l \<and> lg_activeAdmissions l' = lg_activeAdmissions l"

lemma keeps_pending_refl: "keeps_pending l l"
  by (simp add: keeps_pending_def)

lemma keeps_pending_trans: "keeps_pending l l' \<Longrightarrow> keeps_pending l' l'' \<Longrightarrow> keeps_pending l l''"
  by (simp add: keeps_pending_def)

lemma keeps_pending_shard: "keeps_pending l l' \<Longrightarrow> shardIndex l' = shardIndex l"
  by (rule shardIndex_hash) (simp add: keeps_pending_def)

lemma card_dom_del: "m k = Some v \<Longrightarrow> finite (dom m) \<Longrightarrow> card (dom (m(k := None))) = card (dom m) - 1"
  using card_Diff_singleton[of k "dom m"] by (simp only: dom_fun_upd if_P domI)

lemma card_dom_pos: "m k = Some v \<Longrightarrow> finite (dom m) \<Longrightarrow> 1 \<le> card (dom m)"
  by (auto simp: Suc_le_eq card_gt_0_iff)

lemma removeElement_ok:
  assumes inv: "lg_inv l" and a: "lg_byKey l k = Some a"
  shows "\<exists>l'. removeElement l (shardIndex l k) a = Inr l' \<and> lg_inv l' \<and> keeps_pending l l' \<and>
     lg_byKey l' = (lg_byKey l)(k := None) \<and>
     lg_order l' = (lg_order l)(shardIndex l k := remove1 a (lg_order l (shardIndex l k))) \<and>
     lg_receipts l' = (lg_receipts l)[a := (lg_receipts l ! a)\<lparr>rc_reservation := None\<rparr>]"
proof -
  note I = lg_invD[OF inv]
  let ?h = "lg_heap l" and ?rs = "lg_receipts l" and ?i = "shardIndex l k"
  from I(3) a obtain r where r: "a < length ?rs" "rc_key (?rs ! a) = k"
      "rc_reservation (?rs ! a) = Some r" "res_ok ?h k r False"
    by (auto simp: rcpt_ok_def)
  have np: "lg_pending l k = None" using I(5) a by (auto simp: domIff)
  have cnt: "1 \<le> card (dom (lg_byKey l))" using card_dom_pos[of "lg_byKey l" k a] a I(3) by (simp add: rcpt_ok_def)
  obtain b where b: "fb_release (lg_fairBudget l) r = Inr b" "fb_inv b"
      "fb_reservations b = ?h[r := (?h ! r)\<lparr>rv_released := True, rv_pending := False\<rparr>]"
    using fb_release_ok[OF I(1), of r] r(4) by (auto simp: res_ok_def)
  let ?h' = "?h[r := (?h ! r)\<lparr>rv_released := True, rv_pending := False\<rparr>]"
  let ?rs' = "?rs[a := (?rs ! a)\<lparr>rc_reservation := None\<rparr>]"
  let ?bk = "(lg_byKey l)(k := None)" and ?ord = "(lg_order l)(?i := remove1 a (lg_order l ?i))"
  define l' where "l' = l\<lparr>lg_byKey := ?bk, lg_order := ?ord,
     lg_receiptCount := lg_receiptCount l - 1, lg_fairBudget := b, lg_receipts := ?rs'\<rparr>"
  have eq: "removeElement l ?i a = Inr l'"
    using I(6) cnt r b
    by (simp add: removeElement_def unlinkElement_def decrementReceiptCount_def release_receipt_def
        count_ok_def l'_def)
  have other: "res_ok ?h' k' r' p" if "res_ok ?h k' r' p" "k' \<noteq> k" for k' r' p
    by (rule res_ok_other[OF that(1) _ that(2)]) (use r(4) in \<open>simp add: res_ok_def\<close>)
  have key': "rc_key (?rs' ! x) = rc_key (?rs ! x)" for x
    using r(1) by (cases "x = a") simp_all
  have "pend_ok (lg_pending l) (lg_flights l) ?h'"
    using I(2) np other unfolding pend_ok_def by (metis option.distinct(1))
  moreover have "rcpt_ok (shardIndex l) ?bk ?ord ?rs' ?h'"
  proof -
    have dist: "\<And>i. distinct (lg_order l i)" using I(3) by (simp add: rcpt_ok_def)
    have "x < length ?rs' \<and> rc_key (?rs' ! x) = k' \<and> x \<in> set (?ord (shardIndex l k')) \<and>
        (\<exists>r. rc_reservation (?rs' ! x) = Some r \<and> res_ok ?h' k' r False)"
      if "?bk k' = Some x" for k' x
    proof -
      have kx: "k' \<noteq> k" "lg_byKey l k' = Some x" using that by (auto split: if_splits)
      with I(3) have x: "x < length ?rs" "rc_key (?rs ! x) = k'" "x \<in> set (lg_order l (shardIndex l k'))"
        "\<exists>r. rc_reservation (?rs ! x) = Some r \<and> res_ok ?h k' r False" by (auto simp: rcpt_ok_def)
      then have "x \<noteq> a" using kx r(2) by auto
      then show ?thesis using x kx other dist by (auto simp: in_set_remove1)
    qed
    moreover have "?bk (rc_key (?rs' ! x)) = Some x \<and> shardIndex l (rc_key (?rs' ! x)) = i"
      if "x \<in> set (?ord i)" for x i
    proof -
      have x: "x \<in> set (lg_order l i)" "x = a \<longrightarrow> i \<noteq> ?i"
        using that dist[of ?i] by (auto simp: set_remove1_eq split: if_splits)
      then have bx: "lg_byKey l (rc_key (?rs ! x)) = Some x" "shardIndex l (rc_key (?rs ! x)) = i"
        using I(3) by (auto simp: rcpt_ok_def)
      have "rc_key (?rs ! x) \<noteq> k"
      proof
        assume "rc_key (?rs ! x) = k"
        with bx a have "x = a" "?i = i" by simp_all
        with x(2) show False by simp
      qed
      then show ?thesis using bx key' by simp
    qed
    ultimately show ?thesis using I(3) dist by (auto simp: rcpt_ok_def)
  qed
  moreover have "owned_ok (lg_pending l) (lg_flights l) ?bk ?rs' ?h'"
    unfolding owned_ok_def
  proof (intro allI impI)
    fix x assume x: "x < length ?h'" "live (?h' ! x)"
    then have ne: "x \<noteq> r" using r(4) by (auto simp: live_def)
    with x have h: "x < length ?h" "live (?h ! x)" "?h' ! x = ?h ! x" by auto
    have "\<not> (lg_byKey l (rv_key (?h ! x)) = Some a \<and> rc_reservation (?rs ! a) = Some x)"
      using r(3) ne by auto
    moreover have "rv_key (?h ! x) = k \<Longrightarrow> lg_byKey l (rv_key (?h ! x)) = Some a" using a by simp
    ultimately show "(\<exists>f. lg_pending l (rv_key (?h' ! x)) = Some f \<and> fl_reservation (lg_flights l ! f) = Some x) \<or>
        (\<exists>a. ?bk (rv_key (?h' ! x)) = Some a \<and> rc_reservation (?rs' ! a) = Some x)"
      using I(4) h np unfolding owned_ok_def
      by (smt (verit) fun_upd_apply nth_list_update_neq option.inject option.simps(3))
  qed
  moreover have "count_ok (lg_pending l) (lg_flightLimit l) ?bk (lg_receiptCount l - 1)"
    using I(3,6) card_dom_del[of "lg_byKey l" k a] a cnt by (simp add: count_ok_def rcpt_ok_def)
  ultimately have "lg_inv l'"
    using I b by (auto simp: lg_inv_def l'_def)
  with eq show ?thesis by (auto simp: l'_def keeps_pending_def)
qed

text \<open>
  \<open>drops l l' Q\<close>: from \<open>l\<close> to \<open>l'\<close> some receipts that satisfy \<open>Q\<close> disappeared and
  nothing else happened to pending flights or to the remaining receipts.
\<close>

definition drops :: "('i, 'm, 'c) ledger \<Rightarrow> ('i, 'm, 'c) ledger \<Rightarrow> ('i receipt \<Rightarrow> bool) \<Rightarrow> bool" where
  "drops l l' Q \<longleftrightarrow> keeps_pending l l' \<and>
     (\<forall>k. lg_byKey l' k = lg_byKey l k \<or>
        lg_byKey l' k = None \<and> (\<exists>a. lg_byKey l k = Some a \<and> Q (lg_receipts l ! a))) \<and>
     (\<forall>k a. lg_byKey l' k = Some a \<longrightarrow> lg_receipts l' ! a = lg_receipts l ! a)"

lemma drops_refl: "drops l l Q"
  by (simp add: drops_def keeps_pending_refl)

lemma drops_trans:
  assumes "drops l l' Q" and "drops l' l'' Q"
  shows "drops l l'' Q"
proof -
  have "lg_byKey l'' k = lg_byKey l k \<or>
        lg_byKey l'' k = None \<and> (\<exists>a. lg_byKey l k = Some a \<and> Q (lg_receipts l ! a))" for k
    using assms unfolding drops_def by (metis option.distinct(1))
  moreover have "lg_receipts l'' ! a = lg_receipts l ! a" if "lg_byKey l'' k = Some a" for k a
    using assms that unfolding drops_def by (metis option.distinct(1))
  ultimately show ?thesis using assms keeps_pending_trans by (auto simp: drops_def)
qed

lemma drops_mono: "drops l l' Q \<Longrightarrow> (\<And>r. Q r \<Longrightarrow> R r) \<Longrightarrow> drops l l' R"
  unfolding drops_def by blast

lemma drops_shard: "drops l l' Q \<Longrightarrow> shardIndex l' = shardIndex l"
  by (simp add: drops_def keeps_pending_shard)

lemma removeElement_drops:
  assumes "lg_inv l" and "a \<in> set (lg_order l i)" and "Q (lg_receipts l ! a)"
  shows "\<exists>l'. removeElement l i a = Inr l' \<and> lg_inv l' \<and> drops l l' Q \<and>
     lg_order l' = (lg_order l)(i := remove1 a (lg_order l i)) \<and> distinct (lg_order l i)"
proof -
  let ?k = "rc_key (lg_receipts l ! a)"
  from lg_invD(3)[OF assms(1)] assms(2) have k: "lg_byKey l ?k = Some a" "shardIndex l ?k = i"
    and d: "distinct (lg_order l i)"
    and inj: "\<And>k' x. lg_byKey l k' = Some x \<Longrightarrow> rc_key (lg_receipts l ! x) = k'"
    by (auto simp: rcpt_ok_def)
  obtain l' where l': "removeElement l i a = Inr l'" "lg_inv l'" "keeps_pending l l'"
     "lg_byKey l' = (lg_byKey l)(?k := None)" "lg_order l' = (lg_order l)(i := remove1 a (lg_order l i))"
     "lg_receipts l' = (lg_receipts l)[a := (lg_receipts l ! a)\<lparr>rc_reservation := None\<rparr>]"
    using removeElement_ok[OF assms(1) k(1)] unfolding k(2) by blast
  have "lg_receipts l' ! x = lg_receipts l ! x" if "lg_byKey l' k' = Some x" for k' x
  proof -
    have "k' \<noteq> ?k" and "lg_byKey l k' = Some x" using that l'(4) by (auto split: if_splits)
    then have "x \<noteq> a" using inj by auto
    then show ?thesis by (simp add: l'(6))
  qed
  then have "drops l l' Q" using l'(3,4) assms(3) k(1) by (auto simp: drops_def)
  with l' d show ?thesis by blast
qed

lemma subset_remove1: "a \<notin> set xs \<Longrightarrow> set xs \<subseteq> set ys \<Longrightarrow> set xs \<subseteq> set (remove1 a ys)"
  by (metis in_set_remove1 subset_iff)

lemma expire_loop_ok:
  assumes "lg_inv l" and "distinct xs" and "set xs \<subseteq> set (lg_order l i)"
  shows "\<exists>l'. expire_loop l i now xs = Inr l' \<and> lg_inv l' \<and> drops l l' (\<lambda>rc. rc_expiresAt rc \<le> now)"
  using assms
proof (induction xs arbitrary: l)
  case (Cons a xs)
  show ?case
  proof (cases "rc_expiresAt (lg_receipts l ! a) > now")
    case False
    then obtain l1 where l1: "removeElement l i a = Inr l1" "lg_inv l1"
        "drops l l1 (\<lambda>rc. rc_expiresAt rc \<le> now)" "lg_order l1 = (lg_order l)(i := remove1 a (lg_order l i))"
      using removeElement_drops[of l a i "\<lambda>rc. rc_expiresAt rc \<le> now"] Cons.prems by auto
    have "set xs \<subseteq> set (lg_order l1 i)"
      using Cons.prems subset_remove1[of a xs "lg_order l i"] by (simp add: l1(4))
    from Cons.IH[OF l1(2) _ this] Cons.prems l1 False drops_trans show ?thesis by fastforce
  qed (use Cons.prems drops_refl in auto)
qed (auto simp: drops_refl)

lemma expireLocked_ok:
  "lg_inv l \<Longrightarrow> \<exists>l'. expireLocked l i now = Inr l' \<and> lg_inv l' \<and> drops l l' (\<lambda>rc. rc_expiresAt rc \<le> now)"
  unfolding expireLocked_def by (rule expire_loop_ok) (auto dest: lg_invD(3) simp: rcpt_ok_def)

lemma expire_shards_ok:
  "lg_inv l \<Longrightarrow> (\<And>i. i \<in> set is \<Longrightarrow> now i \<le> t) \<Longrightarrow>
     \<exists>l'. expire_shards l now is = Inr l' \<and> lg_inv l' \<and> drops l l' (\<lambda>rc. rc_expiresAt rc \<le> t)"
proof (induction "is" arbitrary: l)
  case (Cons i "is")
  from expireLocked_ok[OF Cons.prems(1), of i "now i"] obtain l1 where
    l1: "expireLocked l i (now i) = Inr l1" "lg_inv l1" "drops l l1 (\<lambda>rc. rc_expiresAt rc \<le> now i)" by blast
  have "drops l l1 (\<lambda>rc. rc_expiresAt rc \<le> t)"
    using drops_mono[OF l1(3)] Cons.prems(2)[of i] by force
  with Cons.IH[OF l1(2)] Cons.prems(2) l1(1) drops_trans show ?case by fastforce
qed (auto simp: drops_refl)

lemma expireReceipts_ok:
  "lg_inv l \<Longrightarrow> (\<And>i. i < rpcExecutionLedgerShards \<Longrightarrow> now i \<le> t) \<Longrightarrow>
     \<exists>l'. expireReceipts l now = Inr l' \<and> lg_inv l' \<and> drops l l' (\<lambda>rc. rc_expiresAt rc \<le> t)"
  unfolding expireReceipts_def by (rule expire_shards_ok) auto

lemma forget_loop_ok:
  assumes "lg_inv l" and "distinct xs" and "set xs \<subseteq> set (lg_order l i)"
  shows "\<exists>l'. forget_loop l i s xs = Inr l' \<and> lg_inv l' \<and> drops l l' (\<lambda>rc. session_of (rc_key rc) = s)"
  using assms
proof (induction xs arbitrary: l)
  case (Cons a xs)
  show ?case
  proof (cases "session_of (rc_key (lg_receipts l ! a)) = s")
    case True
    then obtain l1 where l1: "removeElement l i a = Inr l1" "lg_inv l1"
        "drops l l1 (\<lambda>rc. session_of (rc_key rc) = s)" "lg_order l1 = (lg_order l)(i := remove1 a (lg_order l i))"
      using removeElement_drops[of l a i "\<lambda>rc. session_of (rc_key rc) = s"] Cons.prems by auto
    have "set xs \<subseteq> set (lg_order l1 i)"
      using Cons.prems subset_remove1[of a xs "lg_order l i"] by (simp add: l1(4))
    from Cons.IH[OF l1(2) _ this] Cons.prems l1 True drops_trans show ?thesis by fastforce
  qed (use Cons in auto)
qed (auto simp: drops_refl)

lemma forgetSession_ok:
  assumes "lg_inv l"
  shows "\<exists>l'. forgetSession l au se = Inr l' \<and> lg_inv l' \<and>
     drops l l' (\<lambda>rc. session_of (rc_key rc) = (au, se))"
proof -
  have "\<exists>l'. forget_shards l s is = Inr l' \<and> lg_inv l' \<and> drops l l' (\<lambda>rc. session_of (rc_key rc) = s)" for s "is"
    using assms
  proof (induction "is" arbitrary: l)
    case (Cons i "is")
    have "distinct (lg_order l i)" using lg_invD(3)[OF Cons.prems] by (simp add: rcpt_ok_def)
    from forget_loop_ok[OF Cons.prems this subset_refl, of s] obtain l1 where
      l1: "forget_loop l i s (lg_order l i) = Inr l1" "lg_inv l1" "drops l l1 (\<lambda>rc. session_of (rc_key rc) = s)"
      by blast
    with Cons.IH[OF l1(2)] drops_trans show ?case by fastforce
  qed (auto simp: drops_refl)
  then show ?thesis by (simp add: forgetSession_def)
qed

subsection \<open>Installing an owner\<close>

lemma slots_of_new:
  "pend_ok pend fs h \<Longrightarrow> fl_subscriberSlots x = 0 \<Longrightarrow>
     slots_of (pend(k \<mapsto> length fs)) (fs @ [x]) k' = (if k' = k then 0 else slots_of pend fs k')"
  by (auto simp: slots_of_def pend_ok_def nth_append split: option.splits)

lemma install_inv:
  assumes inv: "lg_inv l" and np: "lg_pending l k = None" and nb: "lg_byKey l k = None"
    and b: "fb_inv b" "fb_reservations b = lg_heap l @ [\<lparr>rv_key = k, rv_pending = True, rv_released = False\<rparr>]"
    and fl: "fl = (lg_flightLimit l)\<lparr>lim_used := lim_used (lg_flightLimit l) + 1\<rparr>" "lim_used fl \<le> lim_max fl"
    and t: "tr_inv t n" "active t = (if sq = 0 then active (lg_activeAdmissions l)
              else insert sq (active (lg_activeAdmissions l)))"
      "sq \<noteq> 0 \<Longrightarrow> sq \<notin> active (lg_activeAdmissions l)"
  shows "lg_inv (snd (install_owner (l\<lparr>lg_flightLimit := fl, lg_fairBudget := b,
     lg_activeAdmissions := t, lg_nextAdmissionSeq := n\<rparr>) k ident sq (length (lg_heap l))))"
proof -
  note I = lg_invD[OF inv]
  let ?h = "lg_heap l" and ?fs = "lg_flights l" and ?p = "lg_pending l"
  let ?x = "new_flight ident sq (length (lg_heap l))"
  let ?new = "\<lparr>rv_key = k, rv_pending = True, rv_released = False\<rparr>"
  let ?p' = "?p(k \<mapsto> length ?fs)" and ?fs' = "?fs @ [?x]" and ?h' = "?h @ [?new]"
  have old: "f < length ?fs" if "?p k' = Some f" for k' f using I(2) that by (auto simp: pend_ok_def)
  have "res_ok ?h' k (length ?h) True" by (simp add: res_ok_def live_def)
  then have "pend_ok ?p' ?fs' ?h'"
    using I(2) np by (fastforce simp: pend_ok_def nth_append new_flight_def intro: res_ok_append less_SucI)
  moreover have "rcpt_ok (shardIndex l) (lg_byKey l) (lg_order l) (lg_receipts l) ?h'"
    using I(3) unfolding rcpt_ok_def by (blast intro: res_ok_append)
  moreover have "owned_ok ?p' ?fs' (lg_byKey l) (lg_receipts l) ?h'"
    unfolding owned_ok_def
  proof (intro allI impI)
    fix r assume r: "r < length ?h'" "live (?h' ! r)"
    show "(\<exists>f. ?p' (rv_key (?h' ! r)) = Some f \<and> fl_reservation (?fs' ! f) = Some r) \<or>
        (\<exists>a. lg_byKey l (rv_key (?h' ! r)) = Some a \<and> rc_reservation (lg_receipts l ! a) = Some r)"
    proof (cases "r < length ?h")
      case True
      then have "live (?h ! r)" using r by (simp add: nth_append)
      with True I(4) np nb old show ?thesis by (fastforce simp: owned_ok_def nth_append)
    next
      case False
      then have "r = length ?h" using r by simp
      then show ?thesis by (simp add: nth_append new_flight_def)
    qed
  qed
  moreover have "dom ?p' \<inter> dom (lg_byKey l) = {}" using I(5) nb by auto
  moreover have "count_ok ?p' fl (lg_byKey l) (lg_receiptCount l)"
    using I(2,6) fl np by (auto simp: count_ok_def pend_ok_def card_insert_if)
  moreover have "adm_ok ?p' ?fs' t n"
  proof -
    have sq: "seq_of ?p' ?fs' = (seq_of ?p ?fs)(k := sq)"
      using old by (auto simp: seq_of_def fun_eq_iff nth_append new_flight_def split: option.splits)
    have z: "seq_of ?p ?fs k = 0" using np by (simp add: seq_of_def)
    have "range ((seq_of ?p ?fs)(k := sq)) - {0} = (if sq = 0 then {} else {sq}) \<union> (range (seq_of ?p ?fs) - {0})"
      using z by (auto simp: image_iff)
    then show ?thesis using I(7) t unfolding adm_ok_def sq by auto
  qed
  moreover have "subs_ok ?p' ?fs' (lg_subscriberBudget l) (lg_subscriberPerFlight l)"
  proof -
    have sl: "slots_of ?p' ?fs' = (slots_of ?p ?fs)(k := 0)"
      by (rule ext) (simp add: slots_of_new[OF I(2)] new_flight_def)
    have "sb_inv (lg_subscriberBudget l) (dom ?p) ((slots_of ?p ?fs)(k := 0))"
      by (rule sb_inv_cong[of _ _ "slots_of ?p ?fs"]) (use I(8) np in \<open>auto simp: subs_ok_def\<close>)
    then have "sb_inv (lg_subscriberBudget l) (insert k (dom ?p)) ((slots_of ?p ?fs)(k := 0))"
      by (rule sb_inv_insert) simp
    moreover have "slots_ok (lg_subscriberPerFlight l) ?x" by (simp add: slots_ok_def new_flight_def)
    ultimately show ?thesis using I(8) old unfolding subs_ok_def sl by (auto simp: nth_append)
  qed
  moreover have "lease_ok (lg_leases l @ [\<lparr>ls_key = k, ls_flight = length ?fs, ls_abortHook = None,
      ls_handedOff = False\<rparr>]) ?fs'"
    using I(9) by (auto simp: lease_ok_def)
  ultimately show ?thesis using b by (simp add: lg_inv_def install_owner_def Let_def)
qed

lemma limit_release_reserve:
  "limit_reserve fl0 = (True, fl) \<Longrightarrow> limit_release fl = Inr fl0"
  by (cases fl0) (auto simp: limit_reserve_def limit_release_def reserveN_def releaseN_def Let_def split: if_splits)

lemma keep_admissions:
  "l\<lparr>lg_flightLimit := fl, lg_fairBudget := b\<rparr> =
   l\<lparr>lg_flightLimit := fl, lg_fairBudget := b, lg_activeAdmissions := lg_activeAdmissions l,
     lg_nextAdmissionSeq := lg_nextAdmissionSeq l\<rparr>"
  by (cases l) simp

text \<open>
  The outcome of an attempt to become owner: either a new pending flight for exactly this key, or
  an error that leaves flights, leases and receipts alone.
\<close>

definition became_owner ::
  "('i, 'm, 'c) ledger \<Rightarrow> rpc_key \<Rightarrow> 'i identity \<Rightarrow> 'm acquire_result \<Rightarrow> ('i, 'm, 'c) ledger \<Rightarrow> bool" where
  "became_owner l key ident res l' \<longleftrightarrow>
     aq_state res = rpcResultAcquireOwner \<and> aq_owner res = Some (length (lg_leases l)) \<and>
     lg_hash l' = lg_hash l \<and> lg_byKey l' = lg_byKey l \<and> lg_order l' = lg_order l \<and> lg_receipts l' = lg_receipts l \<and>
     lg_pending l' = (lg_pending l)(key \<mapsto> length (lg_flights l)) \<and>
     (\<exists>r. lg_flights l' = lg_flights l @ [new_flight ident (aq_admissionSeq res) r]) \<and>
     lg_leases l' = lg_leases l @ [\<lparr>ls_key = key, ls_flight = length (lg_flights l), ls_abortHook = None,
        ls_handedOff = False\<rparr>]"

definition same_tables :: "('i, 'm, 'c) ledger \<Rightarrow> ('i, 'm, 'c) ledger \<Rightarrow> bool" where
  "same_tables l l' \<longleftrightarrow> lg_hash l' = lg_hash l \<and> lg_byKey l' = lg_byKey l \<and> lg_order l' = lg_order l \<and>
     lg_receipts l' = lg_receipts l \<and> lg_pending l' = lg_pending l \<and> lg_flights l' = lg_flights l \<and>
     lg_leases l' = lg_leases l"

lemma released_tail_inv:
  assumes inv: "lg_inv l" and b: "fb_inv b" "fb_reservations b = lg_heap l @ [x]" "rv_released x"
  shows "lg_inv (l\<lparr>lg_fairBudget := b\<rparr>)"
proof -
  note I = lg_invD[OF inv]
  have "pend_ok (lg_pending l) (lg_flights l) (lg_heap l @ [x])"
    using I(2) res_ok_append unfolding pend_ok_def by blast
  moreover have "rcpt_ok (shardIndex l) (lg_byKey l) (lg_order l) (lg_receipts l) (lg_heap l @ [x])"
    using I(3) unfolding rcpt_ok_def by (blast intro: res_ok_append)
  moreover have "owned_ok (lg_pending l) (lg_flights l) (lg_byKey l) (lg_receipts l) (lg_heap l @ [x])"
    using I(4) b(3) by (auto simp: owned_ok_def nth_append less_Suc_eq live_def)
  ultimately show ?thesis using I b by (simp add: lg_inv_def)
qed

lemma acquire_owner_ok:
  assumes inv: "lg_inv l" and np: "lg_pending l k = None" and nb: "lg_byKey l k = None"
  shows "\<exists>out l'. acquire_owner l k ident = Inr (out, l') \<and> lg_inv l' \<and>
     (case out of Some (Inr res) \<Rightarrow> became_owner l k ident res l' | _ \<Rightarrow> same_tables l l')"
proof -
  note I = lg_invD[OF inv]
  obtain ok fl where fl: "limit_reserve (lg_flightLimit l) = (ok, fl)" by fastforce
  show ?thesis
  proof (cases ok)
    case False
    then have "fl = lg_flightLimit l" using fl by (auto simp: limit_reserve_def dest: reserveN_cases)
    then show ?thesis using False fl inv by (simp add: acquire_owner_def same_tables_def)
  next
    case True
    then have fl': "limit_reserve (lg_flightLimit l) = (True, fl)" using fl by simp
    have flv: "fl = (lg_flightLimit l)\<lparr>lim_used := lim_used (lg_flightLimit l) + 1\<rparr>" "lim_used fl \<le> lim_max fl"
      using fl' by (auto simp: limit_reserve_def dest: reserveN_cases)
    obtain ro b where rb: "reserveOwner (lg_fairBudget l) k = (ro, b)" by fastforce
    show ?thesis
    proof (cases ro)
      case None
      then have "b = lg_fairBudget l" using rb fb_reserve_None by (simp add: reserveOwner_def)
      moreover have "l\<lparr>lg_flightLimit := lg_flightLimit l, lg_fairBudget := lg_fairBudget l\<rparr> = l" by (cases l) simp
      ultimately show ?thesis using None rb fl' limit_release_reserve[OF fl'] inv
        by (simp add: acquire_owner_def same_tables_def)
    next
      case (Some r)
      note res = fb_reserve_Some[OF I(1) rb[unfolded reserveOwner_def Some]]
      note install = install_inv[OF inv np nb res(3,2) flv]
      show ?thesis
      proof (cases "id_valid ident")
        case False
        have "tr_inv (lg_activeAdmissions l) (lg_nextAdmissionSeq l)" using I(7) by (simp add: adm_ok_def)
        from install[OF this, of 0 ident]
        have "lg_inv (snd (install_owner (l\<lparr>lg_flightLimit := fl, lg_fairBudget := b\<rparr>) k ident 0 r))"
          unfolding keep_admissions[symmetric] res(1) by simp
        then show ?thesis using False fl' rb Some
          by (auto simp: acquire_owner_def install_owner_def Let_def became_owner_def zero_acquire_def)
      next
        case True
        show ?thesis
        proof (cases "allocateAndRegister (lg_activeAdmissions l) (lg_nextAdmissionSeq l)")
          case (Inl e)
          obtain b2 where b2: "fb_release b r = Inr b2" "fb_inv b2"
              "fb_reservations b2 = (fb_reservations b)[r := (fb_reservations b ! r)\<lparr>rv_released := True, rv_pending := False\<rparr>]"
            using fb_release_ok[OF res(3), of r] res(1,2) by auto
          have "fb_reservations b2 = lg_heap l @ [\<lparr>rv_key = k, rv_pending = False, rv_released = True\<rparr>]"
            using b2(3) res(1,2) by (simp add: nth_append list_update_append)
          from released_tail_inv[OF inv b2(2) this] have "lg_inv (l\<lparr>lg_fairBudget := b2\<rparr>)" by simp
          moreover have "l\<lparr>lg_flightLimit := lg_flightLimit l, lg_fairBudget := b2\<rparr> = l\<lparr>lg_fairBudget := b2\<rparr>"
            by (cases l) simp
          ultimately show ?thesis using True Inl fl' rb Some b2(1) limit_release_reserve[OF fl']
            by (simp add: acquire_owner_def Let_def same_tables_def)
        next
          case (Inr x)
          obtain sq t n where x: "x = (sq, t, n)" by (cases x)
          have tr: "tr_inv (lg_activeAdmissions l) (lg_nextAdmissionSeq l)" using I(7) by (simp add: adm_ok_def)
          note al = allocate_ok[OF tr Inr[unfolded x]]
          have "lg_inv (snd (install_owner (l\<lparr>lg_flightLimit := fl, lg_fairBudget := b,
              lg_activeAdmissions := t, lg_nextAdmissionSeq := n\<rparr>) k ident sq r))"
            using install[of t n sq ident] al by (simp add: res(1))
          then show ?thesis using True Inr x fl' rb Some
            by (auto simp: acquire_owner_def install_owner_def Let_def became_owner_def zero_acquire_def)
        qed
      qed
    qed
  qed
qed

subsection \<open>Updating and leaving a pending flight\<close>

lemma pend_inj: "pend_ok pend fs h \<Longrightarrow> pend k = Some f \<Longrightarrow> pend k' = Some f \<Longrightarrow> k' = k"
  unfolding pend_ok_def res_ok_def by (metis option.inject)

lemma pend_update:
  assumes "pend_ok pend fs h" and "pend k = Some f"
  shows "slots_of pend (fs[f := x]) = (slots_of pend fs)(k := fl_subscriberSlots x)"
    and "seq_of pend (fs[f := x]) = (seq_of pend fs)(k := fl_admissionSeq x)"
    and "pend k' = Some f' \<Longrightarrow> k' \<noteq> k \<Longrightarrow> fs[f := x] ! f' = fs ! f'"
proof -
  have f: "f < length fs" using assms by (auto simp: pend_ok_def)
  have ne: "f' \<noteq> f" if "pend k' = Some f'" "k' \<noteq> k" for k' f'
    using that pend_inj[OF assms] by blast
  show "slots_of pend (fs[f := x]) = (slots_of pend fs)(k := fl_subscriberSlots x)"
    "seq_of pend (fs[f := x]) = (seq_of pend fs)(k := fl_admissionSeq x)"
    using assms(2) f ne
    by (auto simp: fun_eq_iff slots_of_def seq_of_def split: option.splits) (metis nth_list_update_neq)+
  show "pend k' = Some f' \<Longrightarrow> k' \<noteq> k \<Longrightarrow> fs[f := x] ! f' = fs ! f'"
    using ne nth_list_update_neq by metis
qed

lemma put_flight_inv:
  assumes inv: "lg_inv l" and k: "lg_pending l k = Some f"
    and x: "\<not> fl_done x" "fl_reservation x = fl_reservation (lg_flights l ! f)"
      "fl_admissionSeq x = fl_admissionSeq (lg_flights l ! f)" "slots_ok (lg_subscriberPerFlight l) x"
    and b: "sb_inv b (dom (lg_pending l)) ((slots_of (lg_pending l) (lg_flights l))(k := fl_subscriberSlots x))"
  shows "lg_inv ((put_flight l f x)\<lparr>lg_subscriberBudget := b\<rparr>)"
proof -
  note I = lg_invD[OF inv]
  let ?p = "lg_pending l" and ?fs = "lg_flights l" and ?fs' = "(lg_flights l)[f := x]"
  have f: "f < length ?fs" using I(2) k by (auto simp: pend_ok_def)
  note U = pend_update[OF I(2) k]
  have res: "fl_reservation (?fs' ! f') = fl_reservation (?fs ! f')" for f'
    using f x(2) by (cases "f' = f") simp_all
  have "pend_ok ?p ?fs' (lg_heap l)"
    using I(2) x(1) f unfolding pend_ok_def res length_list_update by (metis nth_list_update)
  moreover have "owned_ok ?p ?fs' (lg_byKey l) (lg_receipts l) (lg_heap l)"
    using I(4) unfolding owned_ok_def res .
  moreover have "seq_of ?p ?fs' = seq_of ?p ?fs"
    unfolding U(2) x(3) using k by (simp add: seq_of_def fun_eq_iff)
  then have "adm_ok ?p ?fs' (lg_activeAdmissions l) (lg_nextAdmissionSeq l)"
    using I(7) by (simp add: adm_ok_def)
  moreover have "subs_ok ?p ?fs' b (lg_subscriberPerFlight l)"
    unfolding subs_ok_def U(1)
  proof (intro conjI allI impI)
    fix k' f' assume k': "?p k' = Some f'"
    show "slots_ok (lg_subscriberPerFlight l) (?fs' ! f')"
      using k' f x(4) I(8) by (cases "f' = f") (auto simp: subs_ok_def)
  qed (rule b)
  moreover have "lease_ok (lg_leases l) ?fs'" using I(9) by (simp add: lease_ok_def)
  ultimately show ?thesis using I by (simp add: lg_inv_def put_flight_def)
qed

lemma releaseSlots_ok:
  assumes "sb_inv (lg_subscriberBudget l) K c" and "k \<in> K" and "f < length (lg_flights l)"
    and "c k = fl_subscriberSlots (lg_flights l ! f)" and "0 \<le> n" and "n \<le> c k"
  shows "\<exists>b. releaseFlightSubscriberSlotsLocked l k f n =
       Inr ((put_flight l f ((lg_flights l ! f)\<lparr>fl_subscriberSlots := c k - n\<rparr>))\<lparr>lg_subscriberBudget := b\<rparr>) \<and>
     sb_inv b K (c(k := c k - n))"
proof (cases "n = 0")
  case True
  have "(lg_flights l ! f)\<lparr>fl_subscriberSlots := c k\<rparr> = lg_flights l ! f"
    unfolding assms(4) by (cases "lg_flights l ! f") simp
  then have "(put_flight l f ((lg_flights l ! f)\<lparr>fl_subscriberSlots := c k\<rparr>))\<lparr>lg_subscriberBudget := lg_subscriberBudget l\<rparr> = l"
    by (cases l) (simp add: put_flight_def)
  then show ?thesis using True assms(1)
    by (auto simp: releaseFlightSubscriberSlotsLocked_def Let_def intro!: exI[of _ "lg_subscriberBudget l"])
next
  case False
  then have "0 < n" using assms(5) by simp
  from sub_release_ok[OF assms(1,2) this assms(6)] obtain b where
    "sub_release (lg_subscriberBudget l) k n = Inr b" "sb_inv b K (c(k := c k - n))" by blast
  then show ?thesis using False assms(4,5,6)
    by (auto simp: releaseFlightSubscriberSlotsLocked_def Let_def)
qed

definition left_flight :: "('i, 'm, 'c) flight \<Rightarrow> ('i, 'm, 'c) flight" where
  "left_flight x = x\<lparr>fl_done := True, fl_subscribers := [], fl_executionSubscribers := [],
     fl_subscriberSlots := 0, fl_executionDone := True,
     fl_executionOK := (fl_executionDone x \<and> fl_executionOK x)\<rparr>"

lemma leave_pending_ok:
  assumes "f < length (lg_flights l)" and "1 \<le> lim_used (lg_flightLimit l)"
    and "tr_inv (lg_activeAdmissions l) (lg_nextAdmissionSeq l)"
    and "fl_admissionSeq (lg_flights l ! f) = 0 \<or> fl_admissionSeq (lg_flights l ! f) \<in> active (lg_activeAdmissions l)"
    and "sb_inv (lg_subscriberBudget l) K c" and "k \<in> K"
    and "c k = fl_subscriberSlots (lg_flights l ! f)" and "slots_ok per (lg_flights l ! f)"
  shows "\<exists>t b. leave_pending l k f = Inr (l\<lparr>
        lg_flightLimit := (lg_flightLimit l)\<lparr>lim_used := lim_used (lg_flightLimit l) - 1\<rparr>,
        lg_activeAdmissions := t, lg_subscriberBudget := b,
        lg_flights := (lg_flights l)[f := left_flight (lg_flights l ! f)]\<rparr>) \<and>
     tr_inv t (lg_nextAdmissionSeq l) \<and>
     active t = active (lg_activeAdmissions l) - {fl_admissionSeq (lg_flights l ! f)} \<and>
     sb_inv b K (c(k := 0))"
proof -
  let ?x = "lg_flights l ! f"
  have rel: "limit_release (lg_flightLimit l) = Inr ((lg_flightLimit l)\<lparr>lim_used := lim_used (lg_flightLimit l) - 1\<rparr>)"
    using assms(2) by (simp add: limit_release_def releaseN_def Let_def)
  obtain t where t: "retire (lg_activeAdmissions l) (fl_admissionSeq ?x) = Inr t"
    "tr_inv t (lg_nextAdmissionSeq l)" "active t = active (lg_activeAdmissions l) - {fl_admissionSeq ?x}"
  proof (cases "fl_admissionSeq ?x = 0")
    case True
    then have "0 \<notin> active (lg_activeAdmissions l)" using active_bounds[OF assms(3)] by blast
    then show ?thesis using that[of "lg_activeAdmissions l"] True assms(3) by (simp add: retire_def)
  next
    case False
    then show ?thesis using that retire_ok[OF assms(3)] assms(4) by blast
  qed
  define y where "y = (if \<not> fl_executionDone ?x
      then ?x\<lparr>fl_subscribers := [], fl_executionSubscribers := [], fl_executionDone := True, fl_executionOK := False\<rparr>
      else ?x\<lparr>fl_subscribers := [], fl_executionSubscribers := []\<rparr>)"
  let ?l1 = "put_flight (l\<lparr>lg_flightLimit := (lg_flightLimit l)\<lparr>lim_used := lim_used (lg_flightLimit l) - 1\<rparr>,
      lg_activeAdmissions := t\<rparr>) f y"
  let ?n = "int (length (fl_subscribers ?x)) + int (length (fl_executionSubscribers ?x))"
  have n: "?n = c k" using assms(7,8) by (simp add: slots_ok_def)
  have 1: "sb_inv (lg_subscriberBudget ?l1) K c" "f < length (lg_flights ?l1)"
    "c k = fl_subscriberSlots (lg_flights ?l1 ! f)" "0 \<le> ?n" "?n \<le> c k"
    using assms(1,5,7) n by (simp_all add: put_flight_def y_def)
  from releaseSlots_ok[OF 1(1) assms(6) 1(2-5)] obtain b where
    b: "releaseFlightSubscriberSlotsLocked ?l1 k f ?n =
       Inr ((put_flight ?l1 f (y\<lparr>fl_subscriberSlots := 0\<rparr>))\<lparr>lg_subscriberBudget := b\<rparr>)" "sb_inv b K (c(k := 0))"
    using assms(1) n by (auto simp: put_flight_def)
  have "y\<lparr>fl_subscriberSlots := 0, fl_done := True\<rparr> = left_flight ?x"
    by (simp add: y_def left_flight_def)
  with b(1) rel t(1) assms(1) have "leave_pending l k f = Inr (l\<lparr>
        lg_flightLimit := (lg_flightLimit l)\<lparr>lim_used := lim_used (lg_flightLimit l) - 1\<rparr>,
        lg_activeAdmissions := t, lg_subscriberBudget := b,
        lg_flights := (lg_flights l)[f := left_flight ?x]\<rparr>)"
    by (cases "fl_executionDone ?x") (simp_all add: leave_pending_def Let_def y_def put_flight_def)
  with t b(2) show ?thesis by blast
qed

lemma leave_clauses:
  assumes inv: "lg_inv l" and k: "lg_pending l k = Some f"
    and r: "fl_reservation (lg_flights l ! f) = Some r"
  shows "pend_ok ((lg_pending l)(k := None)) ((lg_flights l)[f := y]) ((lg_heap l)[r := x])"
    and "tr_inv t n \<Longrightarrow>
      active t = active (lg_activeAdmissions l) - {fl_admissionSeq (lg_flights l ! f)} \<Longrightarrow>
      adm_ok ((lg_pending l)(k := None)) ((lg_flights l)[f := y]) t n"
    and "sb_inv b (dom (lg_pending l)) ((slots_of (lg_pending l) (lg_flights l))(k := 0)) \<Longrightarrow>
      subs_ok ((lg_pending l)(k := None)) ((lg_flights l)[f := y]) b (lg_subscriberPerFlight l)"
    and "lim_used (lg_flightLimit l) - 1 = int (card (dom ((lg_pending l)(k := None)))) \<and>
      lim_used (lg_flightLimit l) - 1 \<le> max 0 (lim_max (lg_flightLimit l)) \<and> 1 \<le> lim_used (lg_flightLimit l)"
    and "lease_ok (lg_leases l) ((lg_flights l)[f := y])"
    and "k' \<noteq> k \<Longrightarrow> res_ok (lg_heap l) k' r' p \<Longrightarrow> res_ok ((lg_heap l)[r := x]) k' r' p"
proof -
  note I = lg_invD[OF inv]
  let ?p = "lg_pending l" and ?fs = "lg_flights l" and ?h = "lg_heap l"
  let ?p' = "?p(k := None)" and ?fs' = "?fs[f := y]"
  have f: "f < length ?fs" and rk: "rv_key (?h ! r) = k"
    using I(2) k r by (fastforce simp: pend_ok_def res_ok_def)+
  note U = pend_update[OF I(2) k]
  have ne: "f' \<noteq> f" if "?p k' = Some f'" "k' \<noteq> k" for k' f' using that pend_inj[OF I(2) k] by blast
  have other: "res_ok (?h[r := x]) k' r' p" if "k' \<noteq> k" "res_ok ?h k' r' p" for k' r' p
    using res_ok_other[OF that(2) rk that(1)] .
  then show "k' \<noteq> k \<Longrightarrow> res_ok ?h k' r' p \<Longrightarrow> res_ok (?h[r := x]) k' r' p" .
  show "pend_ok ?p' ?fs' (?h[r := x])"
    using I(2) other ne unfolding pend_ok_def
    by (auto split: if_splits) (metis nth_list_update_neq)+
  have seq': "seq_of ?p' ?fs' = (seq_of ?p ?fs)(k := 0)" and slots': "slots_of ?p' ?fs' = (slots_of ?p ?fs)(k := 0)"
    using U(3)[where x = y] by (auto simp: fun_eq_iff seq_of_def slots_of_def split: option.splits)
  have seqk: "seq_of ?p ?fs k = fl_admissionSeq (?fs ! f)" using k by (simp add: seq_of_def)
  show "adm_ok ?p' ?fs' t n" if t: "tr_inv t n"
    "active t = active (lg_activeAdmissions l) - {fl_admissionSeq (?fs ! f)}"
  proof -
    have ac: "active (lg_activeAdmissions l) = range (seq_of ?p ?fs) - {0}"
      and un: "\<And>a b. seq_of ?p ?fs a = seq_of ?p ?fs b \<Longrightarrow> seq_of ?p ?fs a \<noteq> 0 \<Longrightarrow> a = b"
      using I(7) by (auto simp: adm_ok_def)
    have "range ((seq_of ?p ?fs)(k := 0)) - {0} = range (seq_of ?p ?fs) - {0} - {seq_of ?p ?fs k}"
      using un by (auto simp: image_iff)
    then show ?thesis using t ac un unfolding adm_ok_def seq' seqk by auto
  qed
  show "subs_ok ?p' ?fs' b (lg_subscriberPerFlight l)"
    if "sb_inv b (dom ?p) ((slots_of ?p ?fs)(k := 0))"
  proof -
    have "sb_inv b (dom ?p') ((slots_of ?p ?fs)(k := 0))"
      using sb_inv_remove[OF that, of k] by simp
    then show ?thesis using I(8) U(3)[where x = y] unfolding subs_ok_def slots'
      by (auto split: if_splits)
  qed
  have fin: "finite (dom ?p)" using I(2) by (simp add: pend_ok_def)
  then show "lim_used (lg_flightLimit l) - 1 = int (card (dom ?p')) \<and>
      lim_used (lg_flightLimit l) - 1 \<le> max 0 (lim_max (lg_flightLimit l)) \<and> 1 \<le> lim_used (lg_flightLimit l)"
    using I(6) card_dom_del[of ?p k f] card_dom_pos[of ?p k f] k
    by (simp add: count_ok_def)
  show "lease_ok (lg_leases l) ?fs'" using I(9) by (simp add: lease_ok_def)
qed

lemma flight_leaves:
  assumes inv: "lg_inv l" and k: "lg_pending l k = Some f"
    and l1: "lg_flightLimit l1 = lg_flightLimit l" "lg_activeAdmissions l1 = lg_activeAdmissions l"
      "lg_nextAdmissionSeq l1 = lg_nextAdmissionSeq l" "lg_subscriberBudget l1 = lg_subscriberBudget l"
      "lg_flights l1 = (lg_flights l)[f := x]"
    and x: "fl_admissionSeq x = fl_admissionSeq (lg_flights l ! f)"
      "fl_subscribers x = fl_subscribers (lg_flights l ! f)"
      "fl_executionSubscribers x = fl_executionSubscribers (lg_flights l ! f)"
      "fl_subscriberSlots x = fl_subscriberSlots (lg_flights l ! f)"
      "fl_executionDone x = fl_executionDone (lg_flights l ! f)"
  shows "\<exists>t b. leave_pending l1 k f = Inr (l1\<lparr>
        lg_flightLimit := (lg_flightLimit l)\<lparr>lim_used := lim_used (lg_flightLimit l) - 1\<rparr>,
        lg_activeAdmissions := t, lg_subscriberBudget := b,
        lg_flights := (lg_flights l)[f := left_flight x]\<rparr>) \<and>
     tr_inv t (lg_nextAdmissionSeq l) \<and>
     active t = active (lg_activeAdmissions l) - {fl_admissionSeq (lg_flights l ! f)} \<and>
     sb_inv b (dom (lg_pending l)) ((slots_of (lg_pending l) (lg_flights l))(k := 0))"
proof -
  note I = lg_invD[OF inv]
  have f: "f < length (lg_flights l)" using I(2) k by (auto simp: pend_ok_def)
  have used: "1 \<le> lim_used (lg_flightLimit l)"
    using I(2,6) card_dom_pos[of "lg_pending l" k f] k by (simp add: count_ok_def pend_ok_def)
  have seq: "fl_admissionSeq (lg_flights l ! f) = 0 \<or> fl_admissionSeq (lg_flights l ! f) \<in> active (lg_activeAdmissions l)"
    using I(7) k by (auto simp: adm_ok_def seq_of_def image_iff intro!: exI[of _ k])
  have slots: "slots_of (lg_pending l) (lg_flights l) k = fl_subscriberSlots (lg_flights l ! f)"
    using k by (simp add: slots_of_def)
  have ok: "slots_ok (lg_subscriberPerFlight l) (lg_flights l ! f)" using I(8) k by (auto simp: subs_ok_def)
  have xf: "lg_flights l1 ! f = x" using f l1(5) by simp
  have "\<exists>t b. leave_pending l1 k f = Inr (l1\<lparr>
        lg_flightLimit := (lg_flightLimit l1)\<lparr>lim_used := lim_used (lg_flightLimit l1) - 1\<rparr>,
        lg_activeAdmissions := t, lg_subscriberBudget := b,
        lg_flights := (lg_flights l1)[f := left_flight (lg_flights l1 ! f)]\<rparr>) \<and>
     tr_inv t (lg_nextAdmissionSeq l1) \<and>
     active t = active (lg_activeAdmissions l1) - {fl_admissionSeq (lg_flights l1 ! f)} \<and>
     sb_inv b (dom (lg_pending l)) ((slots_of (lg_pending l) (lg_flights l))(k := 0))"
  proof (rule leave_pending_ok[where per = "lg_subscriberPerFlight l"])
    show "slots_ok (lg_subscriberPerFlight l) (lg_flights l1 ! f)"
      using ok x unfolding xf by (simp add: slots_ok_def)
    show "sb_inv (lg_subscriberBudget l1) (dom (lg_pending l)) (slots_of (lg_pending l) (lg_flights l))"
      using I(8) by (simp add: l1 subs_ok_def)
  qed (use f used seq slots k x I(7) xf in \<open>auto simp: l1 adm_ok_def\<close>)
  then show ?thesis using x(1) f unfolding xf l1 by simp
qed

lemma shardIndex_of_hash: "lg_hash l' = lg_hash l \<Longrightarrow> shardIndex l' k = shardIndex l k"
  by (simp add: shardIndex_def)

text \<open>
  \<open>closed_flight l l' key f\<close>: going from \<open>l\<close> to \<open>l'\<close> ended the flight \<open>f\<close> of
  \<open>key\<close>: it is no longer pending and its cell is closed with the given result.
\<close>

definition ends_flight ::
  "('i, 'm, 'c) ledger \<Rightarrow> ('i, 'm, 'c) ledger \<Rightarrow> rpc_key \<Rightarrow> nat \<Rightarrow> 'm option \<Rightarrow> bool" where
  "ends_flight l l' key f encoded \<longleftrightarrow>
     lg_hash l' = lg_hash l \<and>
     lg_pending l' = (lg_pending l)(key := None) \<and>
     lg_flights l' = (lg_flights l)[f := left_flight ((lg_flights l ! f)\<lparr>fl_reservation := None,
        fl_encoded := (case encoded of None \<Rightarrow> fl_encoded (lg_flights l ! f) | Some m \<Rightarrow> Some m),
        fl_ok := (case encoded of None \<Rightarrow> fl_ok (lg_flights l ! f) | Some m \<Rightarrow> True)\<rparr>)]"

lemma Abort_ok:
  assumes inv: "lg_inv l" and p: "p < length (lg_leases l)"
  defines "lease \<equiv> lg_leases l ! p"
  shows "(\<not> ls_handedOff lease \<and> owns l lease \<longrightarrow>
           (\<exists>effs l'. Abort l p = Inr (True, effs, l') \<and> lg_inv l' \<and>
             ends_flight l l' (ls_key lease) (ls_flight lease) None \<and>
             lg_byKey l' = lg_byKey l \<and> lg_order l' = lg_order l \<and> lg_receipts l' = lg_receipts l \<and>
             lg_leases l' = (lg_leases l)[p := lease\<lparr>ls_abortHook := None\<rparr>] \<and>
             effs = (case ls_abortHook lease of None \<Rightarrow> [] | Some h \<Rightarrow> [AbortHook h]) @
                result_effects (fl_subscribers (lg_flights l ! ls_flight lease)) None False @
                execution_effects (fl_executionSubscribers (lg_flights l ! ls_flight lease)) False)) \<and>
         (ls_handedOff lease \<or> \<not> owns l lease \<longrightarrow> Abort l p = Inr (False, [], l))"
proof (intro conjI impI)
  assume own: "\<not> ls_handedOff lease \<and> owns l lease"
  note I = lg_invD[OF inv]
  let ?k = "ls_key lease" and ?f = "ls_flight lease" and ?h = "lg_heap l"
  have k: "lg_pending l ?k = Some ?f" using own by (simp add: owns_def)
  obtain r where r: "fl_reservation (lg_flights l ! ?f) = Some r" "res_ok ?h ?k r True"
    using I(2) k by (auto simp: pend_ok_def)
  obtain b where b: "fb_release (lg_fairBudget l) r = Inr b" "fb_inv b"
      "fb_reservations b = ?h[r := (?h ! r)\<lparr>rv_released := True, rv_pending := False\<rparr>]"
    using fb_release_ok[OF I(1), of r] r(2) by (auto simp: res_ok_def)
  let ?x = "(lg_flights l ! ?f)\<lparr>fl_reservation := None\<rparr>"
  let ?l1 = "(put_flight (l\<lparr>lg_pending := (lg_pending l)(?k := None)\<rparr>) ?f ?x)\<lparr>lg_fairBudget := b\<rparr>"
  obtain t sb where lv: "leave_pending ?l1 ?k ?f = Inr (?l1\<lparr>
        lg_flightLimit := (lg_flightLimit l)\<lparr>lim_used := lim_used (lg_flightLimit l) - 1\<rparr>,
        lg_activeAdmissions := t, lg_subscriberBudget := sb,
        lg_flights := (lg_flights l)[?f := left_flight ?x]\<rparr>)"
    and tb: "tr_inv t (lg_nextAdmissionSeq l)"
      "active t = active (lg_activeAdmissions l) - {fl_admissionSeq (lg_flights l ! ?f)}"
      "sb_inv sb (dom (lg_pending l)) ((slots_of (lg_pending l) (lg_flights l))(?k := 0))"
    using flight_leaves[OF inv k, of ?l1 ?x] by (auto simp: put_flight_def)
  define l2 where "l2 = ?l1\<lparr>
        lg_flightLimit := (lg_flightLimit l)\<lparr>lim_used := lim_used (lg_flightLimit l) - 1\<rparr>,
        lg_activeAdmissions := t, lg_subscriberBudget := sb,
        lg_flights := (lg_flights l)[?f := left_flight ?x]\<rparr>"
  let ?l' = "put_lease l2 p (lease\<lparr>ls_abortHook := None\<rparr>)"
  note C = leave_clauses[OF inv k r(1)]
  have nb: "lg_byKey l ?k = None" using I(5) k by (auto simp: domIff)
  let ?h' = "?h[r := (?h ! r)\<lparr>rv_released := True, rv_pending := False\<rparr>]"
  have rc: "rcpt_ok (shardIndex l) (lg_byKey l) (lg_order l) (lg_receipts l) ?h'"
  proof -
    have "k' \<noteq> ?k" if "lg_byKey l k' = Some a" for k' a using I(5) k that by (auto simp: domIff)
    then show ?thesis using I(3) C(6) unfolding rcpt_ok_def by blast
  qed
  have ow: "owned_ok ((lg_pending l)(?k := None)) ((lg_flights l)[?f := left_flight ?x]) (lg_byKey l) (lg_receipts l) ?h'"
    unfolding owned_ok_def
  proof (intro allI impI)
    fix x assume x: "x < length ?h'" "live (?h' ! x)"
    then have ne: "x \<noteq> r" using r(2) by (auto simp: live_def)
    with x have h: "x < length ?h" "live (?h ! x)" "?h' ! x = ?h ! x" by auto
    have kx: "rv_key (?h ! x) \<noteq> ?k"
      using I(4) nb h k r(1) ne by (auto simp: owned_ok_def)
    from I(4) h have "(\<exists>f. lg_pending l (rv_key (?h ! x)) = Some f \<and> fl_reservation (lg_flights l ! f) = Some x) \<or>
        (\<exists>a. lg_byKey l (rv_key (?h ! x)) = Some a \<and> rc_reservation (lg_receipts l ! a) = Some x)"
      by (auto simp: owned_ok_def)
    then show "(\<exists>f. ((lg_pending l)(?k := None)) (rv_key (?h' ! x)) = Some f \<and>
          fl_reservation ((lg_flights l)[?f := left_flight ?x] ! f) = Some x) \<or>
        (\<exists>a. lg_byKey l (rv_key (?h' ! x)) = Some a \<and> rc_reservation (lg_receipts l ! a) = Some x)"
      using kx h(3) pend_update(3)[OF I(2) k] by fastforce
  qed
  have "lease_ok ((lg_leases l)[p := lease\<lparr>ls_abortHook := None\<rparr>]) ((lg_flights l)[?f := left_flight ?x])"
    using I(9) p by (auto simp: lease_ok_def lease_def dest!: set_update_subset_insert[THEN subsetD])
  then have "lg_inv ?l'"
    using I(5,6) b C(1-4) tb rc ow
    by (auto simp: lg_inv_def l2_def put_lease_def put_flight_def count_ok_def)
  moreover have "Abort l p = Inr (True, (case ls_abortHook lease of None \<Rightarrow> [] | Some h \<Rightarrow> [AbortHook h]) @
      result_effects (fl_subscribers (lg_flights l ! ?f)) None False @
      execution_effects (fl_executionSubscribers (lg_flights l ! ?f)) False, ?l')"
    using own r b lv by (simp add: Abort_def Let_def l2_def flip: lease_def)
  ultimately show "\<exists>effs l'. Abort l p = Inr (True, effs, l') \<and> lg_inv l' \<and>
             ends_flight l l' ?k ?f None \<and>
             lg_byKey l' = lg_byKey l \<and> lg_order l' = lg_order l \<and> lg_receipts l' = lg_receipts l \<and>
             lg_leases l' = (lg_leases l)[p := lease\<lparr>ls_abortHook := None\<rparr>] \<and>
             effs = (case ls_abortHook lease of None \<Rightarrow> [] | Some h \<Rightarrow> [AbortHook h]) @
                result_effects (fl_subscribers (lg_flights l ! ?f)) None False @
                execution_effects (fl_executionSubscribers (lg_flights l ! ?f)) False"
    by (auto simp: ends_flight_def l2_def put_lease_def put_flight_def)
next
  assume "ls_handedOff lease \<or> \<not> owns l lease"
  then show "Abort l p = Inr (False, [], l)" by (auto simp: Abort_def Let_def lease_def)
qed

subsection \<open>Publishing a receipt\<close>

definition the_receipt :: "('i, 'm, 'c) ledger \<Rightarrow> int \<Rightarrow> rpc_key \<Rightarrow> bool \<Rightarrow> nat \<Rightarrow> 'i receipt" where
  "the_receipt l now key replayable r =
     (case rpcResultFlightMetadataLocked l key of
        (identity, admissionSeq, executionKnown, executionOK, acknowledged) \<Rightarrow>
        \<lparr>rc_key = key, rc_expiresAt = now + rpcExecutionReceiptTTL, rc_identity = identity,
         rc_admissionSeq = admissionSeq, rc_executionKnown = executionKnown,
         rc_executionOK = executionOK, rc_acknowledged = acknowledged,
         rc_unavailable = (\<not> replayable), rc_reservation = Some r\<rparr>)"

lemma the_receipt_sel [simp]:
  "rc_key (the_receipt l now key rp r) = key" "rc_reservation (the_receipt l now key rp r) = Some r"
  "rc_expiresAt (the_receipt l now key rp r) = now + rpcExecutionReceiptTTL"
  "rc_unavailable (the_receipt l now key rp r) = (\<not> rp)"
  by (simp_all add: the_receipt_def split: prod.splits)

lemma publish_receipt_eq:
  "publish_receipt l now key rp r =
     l\<lparr>lg_receipts := lg_receipts l @ [the_receipt l now key rp r],
       lg_order := (lg_order l)(shardIndex l key := lg_order l (shardIndex l key) @ [length (lg_receipts l)]),
       lg_byKey := (lg_byKey l)(key \<mapsto> length (lg_receipts l)),
       lg_receiptCount := lg_receiptCount l + 1\<rparr>"
  by (simp add: publish_receipt_def the_receipt_def incrementReceiptCount_def Let_def split: prod.splits)

lemma publish_rcpt_ok:
  assumes rc: "rcpt_ok shard byKey ord rs h" and nb: "byKey k = None"
    and x: "rc_key x = k" "rc_reservation x = Some r" "res_ok h' k r False"
    and other: "\<And>k' r' p. k' \<noteq> k \<Longrightarrow> res_ok h k' r' p \<Longrightarrow> res_ok h' k' r' p"
  shows "rcpt_ok shard (byKey(k \<mapsto> length rs)) (ord(shard k := ord (shard k) @ [length rs])) (rs @ [x]) h'"
proof -
  have lt: "a < length rs" if "a \<in> set (ord i)" for a i using rc that unfolding rcpt_ok_def by blast
  have old: "a < length rs" if "byKey k' = Some a" for k' a using rc that by (auto simp: rcpt_ok_def)
  have "a < Suc (length rs) \<and> rc_key ((rs @ [x]) ! a) = k' \<and> a \<in> set ((ord(shard k := ord (shard k) @ [length rs])) (shard k')) \<and>
      (\<exists>r. rc_reservation ((rs @ [x]) ! a) = Some r \<and> res_ok h' k' r False)"
    if "(byKey(k \<mapsto> length rs)) k' = Some a" for k' a
  proof (cases "k' = k")
    case True
    then show ?thesis using that x by (auto simp: nth_append)
  next
    case False
    with that have a: "byKey k' = Some a" by simp
    with rc have "rc_key (rs ! a) = k'" "a \<in> set (ord (shard k'))"
      "\<exists>r. rc_reservation (rs ! a) = Some r \<and> res_ok h k' r False" by (auto simp: rcpt_ok_def)
    then show ?thesis using old[OF a] other[OF False] by (auto simp: nth_append)
  qed
  moreover have "distinct ((ord(shard k := ord (shard k) @ [length rs])) i)" for i
    using rc lt by (auto simp: rcpt_ok_def)
  moreover have "(byKey(k \<mapsto> length rs)) (rc_key ((rs @ [x]) ! a)) = Some a \<and> shard (rc_key ((rs @ [x]) ! a)) = i"
    if "a \<in> set ((ord(shard k := ord (shard k) @ [length rs])) i)" for a i
  proof (cases "a = length rs")
    case True
    then have "i = shard k" using that lt by (auto split: if_splits)
    then show ?thesis using True x by simp
  next
    case False
    then have "a \<in> set (ord i)" using that by (auto split: if_splits)
    then show ?thesis using rc nb lt[of a i] by (auto simp: rcpt_ok_def nth_append)
  qed
  ultimately show ?thesis using rc by (auto simp: rcpt_ok_def)
qed

lemma complete_flight_inv:
  assumes inv: "lg_inv l" and k: "lg_pending l k = Some f"
    and r: "fl_reservation (lg_flights l ! f) = Some r"
  shows "\<exists>l'. completeRPCResultFlightLocked (publish_receipt l now k rp r) k m =
       Inr (fl_subscribers (lg_flights l ! f), fl_executionSubscribers (lg_flights l ! f),
            fl_executionDone (lg_flights l ! f) \<and> fl_executionOK (lg_flights l ! f), l') \<and>
     lg_inv l' \<and> ends_flight l l' k f (Some m) \<and> lg_leases l' = lg_leases l \<and>
     lg_byKey l' = (lg_byKey l)(k \<mapsto> length (lg_receipts l)) \<and>
     lg_receipts l' = lg_receipts l @ [the_receipt l now k rp r]"
proof -
  note I = lg_invD[OF inv]
  let ?h = "lg_heap l" and ?x = "(lg_flights l ! f)\<lparr>fl_reservation := None, fl_encoded := Some m, fl_ok := True\<rparr>"
  let ?l0 = "publish_receipt l now k rp r" and ?rc = "the_receipt l now k rp r"
  have f: "f < length (lg_flights l)" and ro: "res_ok ?h k r True"
    using I(2) k r unfolding pend_ok_def by (blast, metis option.inject)
  have nb: "lg_byKey l k = None" using I(5) k by (auto simp: domIff)
  obtain b where b: "releasePending (lg_fairBudget l) r = Inr b" "fb_inv b"
      "fb_reservations b = ?h[r := (?h ! r)\<lparr>rv_pending := False\<rparr>]"
    using releasePending_ok[OF I(1), of r] ro by (auto simp: res_ok_def)
  let ?h' = "?h[r := (?h ! r)\<lparr>rv_pending := False\<rparr>]"
  let ?l1 = "(put_flight (?l0\<lparr>lg_pending := (lg_pending ?l0)(k := None)\<rparr>) f ?x)\<lparr>lg_fairBudget := b\<rparr>"
  obtain t sb where lv: "leave_pending ?l1 k f = Inr (?l1\<lparr>
        lg_flightLimit := (lg_flightLimit l)\<lparr>lim_used := lim_used (lg_flightLimit l) - 1\<rparr>,
        lg_activeAdmissions := t, lg_subscriberBudget := sb,
        lg_flights := (lg_flights l)[f := left_flight ?x]\<rparr>)"
    and tb: "tr_inv t (lg_nextAdmissionSeq l)"
      "active t = active (lg_activeAdmissions l) - {fl_admissionSeq (lg_flights l ! f)}"
      "sb_inv sb (dom (lg_pending l)) ((slots_of (lg_pending l) (lg_flights l))(k := 0))"
    using flight_leaves[OF inv k, of ?l1 ?x] by (auto simp: put_flight_def publish_receipt_eq)
  define l2 where "l2 = ?l1\<lparr>
        lg_flightLimit := (lg_flightLimit l)\<lparr>lim_used := lim_used (lg_flightLimit l) - 1\<rparr>,
        lg_activeAdmissions := t, lg_subscriberBudget := sb,
        lg_flights := (lg_flights l)[f := left_flight ?x]\<rparr>"
  note C = leave_clauses[OF inv k r]
  let ?p' = "(lg_pending l)(k := None)" and ?fs' = "(lg_flights l)[f := left_flight ?x]"
  let ?bk = "(lg_byKey l)(k \<mapsto> length (lg_receipts l))" and ?rs = "lg_receipts l @ [?rc]"
  let ?ord = "(lg_order l)(shardIndex l k := lg_order l (shardIndex l k) @ [length (lg_receipts l)])"
  have "res_ok ?h' k r False" using ro by (simp add: res_ok_def live_def)
  then have rc: "rcpt_ok (shardIndex l) ?bk ?ord ?rs ?h'"
    using publish_rcpt_ok[OF I(3) nb, of ?rc r ?h'] C(6) by simp
  have ow: "owned_ok ?p' ?fs' ?bk ?rs ?h'"
    unfolding owned_ok_def
  proof (intro allI impI)
    fix x assume x: "x < length ?h'" "live (?h' ! x)"
    show "(\<exists>f. ?p' (rv_key (?h' ! x)) = Some f \<and> fl_reservation (?fs' ! f) = Some x) \<or>
        (\<exists>a. ?bk (rv_key (?h' ! x)) = Some a \<and> rc_reservation (?rs ! a) = Some x)"
    proof (cases "x = r")
      case True
      then show ?thesis using ro by (simp add: res_ok_def)
    next
      case False
      with x have h: "x < length ?h" "live (?h ! x)" "?h' ! x = ?h ! x" by auto
      have kx: "rv_key (?h ! x) \<noteq> k" using I(4) nb h k r False by (auto simp: owned_ok_def)
      have ln: "a < length (lg_receipts l)" if "lg_byKey l k' = Some a" for k' a
        using I(3) that by (auto simp: rcpt_ok_def)
      from I(4) h have "(\<exists>f. lg_pending l (rv_key (?h ! x)) = Some f \<and> fl_reservation (lg_flights l ! f) = Some x) \<or>
          (\<exists>a. lg_byKey l (rv_key (?h ! x)) = Some a \<and> rc_reservation (lg_receipts l ! a) = Some x)"
        by (auto simp: owned_ok_def)
      then show ?thesis using kx h(3) pend_update(3)[OF I(2) k] ln
        by (fastforce simp: nth_append)
    qed
  qed
  have ct: "lg_receiptCount l + 1 = int (card (dom ?bk))"
    using I(3,6) nb by (simp add: count_ok_def rcpt_ok_def card_insert_if domIff)
  have "lg_inv l2"
    using I(5) b C(1-5) tb rc ow ct
    by (auto simp: lg_inv_def l2_def put_flight_def count_ok_def publish_receipt_eq)
  moreover have "completeRPCResultFlightLocked ?l0 k m =
       Inr (fl_subscribers (lg_flights l ! f), fl_executionSubscribers (lg_flights l ! f),
            fl_executionDone (lg_flights l ! f) \<and> fl_executionOK (lg_flights l ! f), l2)"
  proof -
    have 0: "lg_pending ?l0 = lg_pending l" "lg_flights ?l0 = lg_flights l" "lg_fairBudget ?l0 = lg_fairBudget l"
      by (simp_all add: publish_receipt_eq)
    show ?thesis using k r b lv f
      by (simp add: completeRPCResultFlightLocked_def Let_def 0 l2_def left_flight_def)
  qed
  ultimately show ?thesis
    by (auto simp: ends_flight_def l2_def put_flight_def publish_receipt_eq)
qed

lemma publish_fresh_inv:
  assumes inv: "lg_inv l" and np: "lg_pending l k = None" and nb: "lg_byKey l k = None"
    and b: "fb_inv b" "fb_reservations b = lg_heap l @ [\<lparr>rv_key = k, rv_pending = False, rv_released = False\<rparr>]"
  shows "lg_inv (publish_receipt (l\<lparr>lg_fairBudget := b\<rparr>) now k rp (length (lg_heap l)))"
proof -
  note I = lg_invD[OF inv]
  let ?r = "length (lg_heap l)"
  let ?rc = "the_receipt (l\<lparr>lg_fairBudget := b\<rparr>) now k rp ?r"
  let ?h = "lg_heap l" and ?h' = "lg_heap l @ [\<lparr>rv_key = k, rv_pending = False, rv_released = False\<rparr>]"
  let ?bk = "(lg_byKey l)(k \<mapsto> length (lg_receipts l))" and ?rs = "lg_receipts l @ [?rc]"
  let ?ord = "(lg_order l)(shardIndex l k := lg_order l (shardIndex l k) @ [length (lg_receipts l)])"
  have "res_ok ?h' k ?r False" by (simp add: res_ok_def live_def)
  then have "rcpt_ok (shardIndex l) ?bk ?ord ?rs ?h'"
    using publish_rcpt_ok[OF I(3) nb, of ?rc ?r ?h'] res_ok_append by simp
  moreover have "pend_ok (lg_pending l) (lg_flights l) ?h'"
    using I(2) res_ok_append unfolding pend_ok_def by blast
  moreover have "owned_ok (lg_pending l) (lg_flights l) ?bk ?rs ?h'"
    unfolding owned_ok_def
  proof (intro allI impI)
    fix x assume x: "x < length ?h'" "live (?h' ! x)"
    show "(\<exists>f. lg_pending l (rv_key (?h' ! x)) = Some f \<and> fl_reservation (lg_flights l ! f) = Some x) \<or>
        (\<exists>a. ?bk (rv_key (?h' ! x)) = Some a \<and> rc_reservation (?rs ! a) = Some x)"
    proof (cases "x < length ?h")
      case False
      then have "x = ?r" using x by simp
      then show ?thesis by simp
    next
      case True
      then have h: "live (?h ! x)" "?h' ! x = ?h ! x" using x by (simp_all add: nth_append)
      have ln: "a < length (lg_receipts l)" if "lg_byKey l k' = Some a" for k' a
        using I(3) that by (auto simp: rcpt_ok_def)
      from I(4) h True have o: "(\<exists>f. lg_pending l (rv_key (?h ! x)) = Some f \<and> fl_reservation (lg_flights l ! f) = Some x) \<or>
          (\<exists>a. lg_byKey l (rv_key (?h ! x)) = Some a \<and> rc_reservation (lg_receipts l ! a) = Some x)"
        by (auto simp: owned_ok_def)
      then have "rv_key (?h ! x) \<noteq> k" using np nb by auto
      then show ?thesis using o h(2) ln by (fastforce simp: nth_append)
    qed
  qed
  moreover have "lg_receiptCount l + 1 = int (card (dom ?bk))"
    using I(3,6) nb by (simp add: count_ok_def rcpt_ok_def card_insert_if domIff)
  ultimately show ?thesis using I b np
    by (auto simp: lg_inv_def publish_receipt_eq count_ok_def)
qed

text \<open>
  What a completion attempt does, on the ledger \<open>l\<close> that is left after expiring receipts: nothing
  when the key already has a terminal receipt; a fresh receipt when no owner is pending (unless the
  budget refuses it); otherwise the pending flight ends with the result, its callbacks fire, and a
  receipt remains exactly when no acknowledgement was recorded before.
\<close>

definition completed ::
  "('i, 'm, 'c) ledger \<Rightarrow> int \<Rightarrow> rpc_key \<Rightarrow> 'm \<Rightarrow> bool \<Rightarrow> bool \<Rightarrow> ('m, 'c) effect list \<Rightarrow> ('i, 'm, 'c) ledger \<Rightarrow> bool" where
  "completed l now k m rp ok effs l' \<longleftrightarrow> lg_leases l' = lg_leases l \<and>
     (case lg_pending l k of
        Some f \<Rightarrow> ok \<and> ends_flight l l' k f (Some m) \<and>
          effs = result_effects (fl_subscribers (lg_flights l ! f)) (Some m) True @
                 execution_effects (fl_executionSubscribers (lg_flights l ! f))
                   (fl_executionDone (lg_flights l ! f) \<and> fl_executionOK (lg_flights l ! f)) \<and>
          (if fl_acknowledged (lg_flights l ! f) then lg_byKey l' = lg_byKey l
           else (\<exists>r. lg_byKey l' = (lg_byKey l)(k \<mapsto> length (lg_receipts l)) \<and>
                     lg_receipts l' = lg_receipts l @ [the_receipt l now k rp r])) \<and>
          (\<forall>a < length (lg_receipts l). lg_receipts l' ! a = lg_receipts l ! a)
      | None \<Rightarrow> effs = [] \<and> keeps_pending l l' \<and>
          (\<forall>a < length (lg_receipts l). lg_receipts l' ! a = lg_receipts l ! a) \<and>
          (if lg_byKey l k \<noteq> None then ok \<and> l' = l
           else if ok then (\<exists>r. lg_byKey l' = (lg_byKey l)(k \<mapsto> length (lg_receipts l)) \<and>
                     lg_receipts l' = lg_receipts l @ [the_receipt l now k rp r])
           else l' = l))"

lemma completeOnce_ok:
  assumes inv: "lg_inv l"
  shows "\<exists>le ok effs l'. expireLocked l (shardIndex l k) now = Inr le \<and> lg_inv le \<and>
     drops l le (\<lambda>rc. rc_expiresAt rc \<le> now) \<and>
     completeOnce l now k m rp = Inr (ok, effs, l') \<and> lg_inv l' \<and> completed le now k m rp ok effs l'"
proof -
  from expireLocked_ok[OF inv, of "shardIndex l k" now] obtain le where
    e: "expireLocked l (shardIndex l k) now = Inr le" "lg_inv le" "drops l le (\<lambda>rc. rc_expiresAt rc \<le> now)"
    by blast
  note I = lg_invD[OF e(2)]
  have sh: "shardIndex le = shardIndex l" by (rule drops_shard[OF e(3)])
  have same: "le\<lparr>lg_fairBudget := lg_fairBudget le\<rparr> = le" by (cases le) simp
  consider (pending) f where "lg_pending le k = Some f"
    | (receipt) "lg_pending le k = None" "lg_byKey le k \<noteq> None"
    | (fresh) "lg_pending le k = None" "lg_byKey le k = None" by blast
  then have "\<exists>ok effs l'. completeOnce l now k m rp = Inr (ok, effs, l') \<and> lg_inv l' \<and>
     completed le now k m rp ok effs l'"
  proof cases
    case receipt
    then show ?thesis using e
      by (auto simp: completeOnce_def completed_def keeps_pending_refl)
  next
    case fresh
    obtain ro b where rb: "reserveCompleted (lg_fairBudget le) k = (ro, b)" by fastforce
    show ?thesis
    proof (cases ro)
      case None
      then have "b = lg_fairBudget le" using rb fb_reserve_None by (simp add: reserveCompleted_def)
      then show ?thesis using fresh e rb None same
        by (simp add: completeOnce_def completion_reservation_def completed_def keeps_pending_refl) blast
    next
      case (Some r)
      note res = fb_reserve_Some[OF I(1) rb[unfolded reserveCompleted_def Some]]
      note pub = publish_fresh_inv[OF e(2) fresh res(3,2), of now rp]
      let ?l1 = "publish_receipt (le\<lparr>lg_fairBudget := b\<rparr>) now k rp (length (lg_heap le))"
      have m: "the_receipt (le\<lparr>lg_fairBudget := b\<rparr>) now k rp x = the_receipt le now k rp x" for x
        using fresh by (simp add: the_receipt_def rpcResultFlightMetadataLocked_def)
      have ack: "\<not> rc_acknowledged (the_receipt le now k rp x)" for x
        using fresh by (simp add: the_receipt_def rpcResultFlightMetadataLocked_def)
      have "completeOnce l now k m rp = Inr (True, [], ?l1)"
        using fresh e rb Some res(1) m ack
        by (simp add: completeOnce_def completion_reservation_def unlink_old_def Let_def
            completeRPCResultFlightLocked_def publish_receipt_eq result_effects_def execution_effects_def)
      moreover have "completed le now k m rp True [] ?l1"
        using fresh m by (auto simp: completed_def publish_receipt_eq keeps_pending_def nth_append)
      ultimately show ?thesis using pub by blast
    qed
  next
    case (pending f)
    obtain r where r: "fl_reservation (lg_flights le ! f) = Some r"
      using I(2) pending by (auto simp: pend_ok_def)
    have nb: "lg_byKey le k = None" using I(5) pending by (auto simp: domIff)
    from complete_flight_inv[OF e(2) pending r, of now rp m] obtain l2 where
      l2: "completeRPCResultFlightLocked (publish_receipt le now k rp r) k m =
       Inr (fl_subscribers (lg_flights le ! f), fl_executionSubscribers (lg_flights le ! f),
            fl_executionDone (lg_flights le ! f) \<and> fl_executionOK (lg_flights le ! f), l2)"
      "lg_inv l2" "ends_flight le l2 k f (Some m)" "lg_leases l2 = lg_leases le"
      "lg_byKey l2 = (lg_byKey le)(k \<mapsto> length (lg_receipts le))"
      "lg_receipts l2 = lg_receipts le @ [the_receipt le now k rp r]" by blast
    let ?a = "length (lg_receipts le)"
    let ?effs = "result_effects (fl_subscribers (lg_flights le ! f)) (Some m) True @
                 execution_effects (fl_executionSubscribers (lg_flights le ! f))
                   (fl_executionDone (lg_flights le ! f) \<and> fl_executionOK (lg_flights le ! f))"
    have ack: "rc_acknowledged (lg_receipts l2 ! ?a) = fl_acknowledged (lg_flights le ! f)"
      using pending by (simp add: l2(6) the_receipt_def rpcResultFlightMetadataLocked_def Let_def)
    have sh2: "shardIndex l2 = shardIndex le"
      using l2(3) by (intro shardIndex_hash) (simp add: ends_flight_def)
    have run: "completeOnce l now k m rp =
       (case (if fl_acknowledged (lg_flights le ! f) then removeElement l2 (shardIndex l2 k) ?a else Inr l2) of
          Inl e \<Rightarrow> Inl e | Inr l \<Rightarrow> Inr (True, ?effs, l))"
      using e pending r nb l2(1) ack same
      by (simp add: completeOnce_def completion_reservation_def unlink_old_def Let_def)
    show ?thesis
    proof (cases "fl_acknowledged (lg_flights le ! f)")
      case False
      then show ?thesis using run l2 pending
        by (auto simp: completed_def nth_append)
    next
      case True
      have "lg_byKey l2 k = Some ?a" by (simp add: l2(5))
      from removeElement_ok[OF l2(2) this] obtain l3 where
        l3: "removeElement l2 (shardIndex l2 k) ?a = Inr l3" "lg_inv l3" "keeps_pending l2 l3"
          "lg_byKey l3 = (lg_byKey l2)(k := None)"
          "lg_receipts l3 = (lg_receipts l2)[?a := (lg_receipts l2 ! ?a)\<lparr>rc_reservation := None\<rparr>]"
        by blast
      have "lg_byKey l3 = lg_byKey le" using nb by (auto simp: l3(4) l2(5) fun_eq_iff)
      moreover have "ends_flight le l3 k f (Some m)" "lg_leases l3 = lg_leases le"
        using l2(3,4) l3(3) by (simp_all add: ends_flight_def keeps_pending_def)
      moreover have "\<forall>a < ?a. lg_receipts l3 ! a = lg_receipts le ! a"
        by (simp add: l3(5) l2(6) nth_append)
      ultimately show ?thesis using run True l3(1,2) pending by (simp add: completed_def) blast
    qed
  qed
  with e show ?thesis by blast
qed

subsection \<open>Leases, waiters and acknowledgements\<close>

lemma put_flight_same_budget:
  assumes "lg_inv l" and "lg_pending l k = Some f"
    and "\<not> fl_done x" "fl_reservation x = fl_reservation (lg_flights l ! f)"
      "fl_admissionSeq x = fl_admissionSeq (lg_flights l ! f)" "slots_ok (lg_subscriberPerFlight l) x"
      "fl_subscriberSlots x = fl_subscriberSlots (lg_flights l ! f)"
  shows "lg_inv (put_flight l f x)"
proof -
  have "(slots_of (lg_pending l) (lg_flights l))(k := fl_subscriberSlots x) = slots_of (lg_pending l) (lg_flights l)"
    using assms(2,7) by (auto simp: slots_of_def fun_eq_iff)
  then have "lg_inv ((put_flight l f x)\<lparr>lg_subscriberBudget := lg_subscriberBudget l\<rparr>)"
    using put_flight_inv[OF assms(1-6)] lg_invD(8)[OF assms(1)] by (simp add: subs_ok_def)
  moreover have "(put_flight l f x)\<lparr>lg_subscriberBudget := lg_subscriberBudget l\<rparr> = put_flight l f x"
    by (cases l) (simp add: put_flight_def)
  ultimately show ?thesis by simp
qed

lemma pending_flight_facts:
  assumes "lg_inv l" and "lg_pending l k = Some f"
  shows "f < length (lg_flights l)" "\<not> fl_done (lg_flights l ! f)"
    "slots_ok (lg_subscriberPerFlight l) (lg_flights l ! f)"
    "slots_of (lg_pending l) (lg_flights l) k = fl_subscriberSlots (lg_flights l ! f)"
  using lg_invD(2,8)[OF assms(1)] assms(2) by (auto simp: pend_ok_def subs_ok_def slots_of_def)

definition closed_kept :: "('i, 'm, 'c) ledger \<Rightarrow> ('i, 'm, 'c) ledger \<Rightarrow> bool" where
  "closed_kept l l' \<longleftrightarrow> length (lg_flights l) \<le> length (lg_flights l') \<and>
     (\<forall>x < length (lg_flights l). fl_done (lg_flights l ! x) \<longrightarrow> lg_flights l' ! x = lg_flights l ! x)"

lemma closed_kept_same: "lg_flights l' = lg_flights l \<Longrightarrow> closed_kept l l'"
  by (simp add: closed_kept_def)

lemma closed_kept_update:
  "\<not> fl_done (lg_flights l ! f) \<Longrightarrow> lg_flights l' = (lg_flights l)[f := x] \<Longrightarrow> closed_kept l l'"
  unfolding closed_kept_def by (metis length_list_update nth_list_update_neq order_refl)

lemma CompleteExecution_ok:
  fixes p :: nat
  assumes inv: "lg_inv l"
  defines "lease \<equiv> lg_leases l ! p"
  shows "\<exists>ok effs l'. CompleteExecution l p success = Inr (ok, effs, l') \<and> lg_inv l' \<and>
     lg_pending l' = lg_pending l \<and> lg_byKey l' = lg_byKey l \<and> lg_receipts l' = lg_receipts l \<and>
     lg_hash l' = lg_hash l \<and> lg_leases l' = lg_leases l \<and> closed_kept l l'"
proof (cases "owns l lease \<and> \<not> fl_executionDone (lg_flights l ! ls_flight lease)")
  case False
  then show ?thesis using inv by (auto simp: CompleteExecution_def Let_def lease_def closed_kept_same)
next
  case True
  let ?k = "ls_key lease" and ?f = "ls_flight lease"
  let ?x = "lg_flights l ! ?f"
  have k: "lg_pending l ?k = Some ?f" using True by (simp add: owns_def)
  note F = pending_flight_facts[OF inv k]
  let ?y = "?x\<lparr>fl_executionDone := True, fl_executionOK := success, fl_executionSubscribers := []\<rparr>"
  let ?l1 = "put_flight l ?f ?y" and ?n = "int (length (fl_executionSubscribers ?x))"
  let ?c = "slots_of (lg_pending l) (lg_flights l)"
  have n: "0 \<le> ?n" "?n \<le> ?c ?k" using F(3,4) by (simp_all add: slots_ok_def)
  have 1: "sb_inv (lg_subscriberBudget ?l1) (dom (lg_pending l)) ?c" "?f < length (lg_flights ?l1)"
    "?c ?k = fl_subscriberSlots (lg_flights ?l1 ! ?f)"
    using lg_invD(8)[OF inv] F by (simp_all add: subs_ok_def put_flight_def)
  from releaseSlots_ok[OF 1(1) _ 1(2,3) n] k obtain b where
    b: "releaseFlightSubscriberSlotsLocked ?l1 ?k ?f ?n =
       Inr ((put_flight ?l1 ?f (?y\<lparr>fl_subscriberSlots := ?c ?k - ?n\<rparr>))\<lparr>lg_subscriberBudget := b\<rparr>)"
      "sb_inv b (dom (lg_pending l)) (?c(?k := ?c ?k - ?n))"
    using F(1) by (auto simp: put_flight_def)
  have eq: "put_flight ?l1 ?f z = put_flight l ?f z" for z by (simp add: put_flight_def)
  have "lg_inv ((put_flight l ?f (?y\<lparr>fl_subscriberSlots := ?c ?k - ?n\<rparr>))\<lparr>lg_subscriberBudget := b\<rparr>)"
    by (rule put_flight_inv[OF inv k]) (use F b(2) n in \<open>auto simp: slots_ok_def\<close>)
  moreover have "closed_kept l ((put_flight l ?f (?y\<lparr>fl_subscriberSlots := ?c ?k - ?n\<rparr>))\<lparr>lg_subscriberBudget := b\<rparr>)"
    by (rule closed_kept_update[OF F(2)]) (simp add: put_flight_def)
  ultimately show ?thesis using b(1) True unfolding eq
    by (simp add: CompleteExecution_def Let_def put_flight_def flip: lease_def) blast
qed

lemma subscribe_ok:
  assumes inv: "lg_inv l" and s: "waiter_subscribe l k f rf ef = Inr (effs, l')"
  shows "lg_inv l' \<and> lg_pending l' = lg_pending l \<and> lg_byKey l' = lg_byKey l \<and>
     lg_receipts l' = lg_receipts l \<and> lg_hash l' = lg_hash l \<and> lg_leases l' = lg_leases l \<and>
     closed_kept l l'"
proof (cases "lg_pending l k = Some f")
  case False
  then have "l' = l" using s by (auto simp: waiter_subscribe_def Let_def split: if_splits)
  then show ?thesis using inv by (simp add: closed_kept_same)
next
  case True
  let ?x = "lg_flights l ! f"
  note F = pending_flight_facts[OF inv True]
  define n :: int where "n = (if rf \<noteq> None then 1 else 0) + (if ef \<noteq> None \<and> \<not> fl_executionDone ?x then 1 else 0)"
  define y where "y = ?x\<lparr>fl_subscriberSlots := fl_subscriberSlots ?x + n,
     fl_subscribers := fl_subscribers ?x @ (case rf of None \<Rightarrow> [] | Some c \<Rightarrow> [c]),
     fl_executionSubscribers := fl_executionSubscribers ?x @
       (case ef of None \<Rightarrow> [] | Some c \<Rightarrow> if fl_executionDone ?x then [] else [c])\<rparr>"
  obtain ok b where cb: "(if n > 0
        then if fl_subscriberSlots ?x > lg_subscriberPerFlight l - n then (False, lg_subscriberBudget l)
             else sub_reserve (lg_subscriberBudget l) k n
        else (True, lg_subscriberBudget l)) = (ok, b)" by fastforce
  have ok: "ok" and l': "l' = (put_flight l f y)\<lparr>lg_subscriberBudget := b\<rparr>"
    using s True cb unfolding waiter_subscribe_def Let_def n_def[symmetric]
    by (auto simp: y_def split: if_splits option.splits)
  have nn: "0 \<le> n" by (simp add: n_def)
  have sb: "sb_inv b (dom (lg_pending l)) ((slots_of (lg_pending l) (lg_flights l))(k := fl_subscriberSlots y)) \<and>
      (n = 0 \<or> fl_subscriberSlots y \<le> lg_subscriberPerFlight l)"
  proof (cases "n > 0")
    case False
    then have "n = 0" using nn by simp
    then have "fl_subscriberSlots y = slots_of (lg_pending l) (lg_flights l) k" using F(4) by (simp add: y_def)
    then show ?thesis using False cb lg_invD(8)[OF inv] \<open>n = 0\<close> by (auto simp: subs_ok_def)
  next
    case np: True
    with cb ok have "sub_reserve (lg_subscriberBudget l) k n = (True, b)"
      and le: "fl_subscriberSlots ?x \<le> lg_subscriberPerFlight l - n" by (auto split: if_splits)
    with sub_reserve_True(1)[of "lg_subscriberBudget l" "dom (lg_pending l)" _ k n b] lg_invD(8)[OF inv] True
    have "sb_inv b (dom (lg_pending l)) ((slots_of (lg_pending l) (lg_flights l))
        (k := slots_of (lg_pending l) (lg_flights l) k + n))" by (auto simp: subs_ok_def)
    then show ?thesis using F(4) le by (simp add: y_def)
  qed
  have "slots_ok (lg_subscriberPerFlight l) y"
    using F(3) sb nn by (auto simp: slots_ok_def y_def n_def split: option.splits)
  moreover have "\<not> fl_done y" "fl_reservation y = fl_reservation ?x" "fl_admissionSeq y = fl_admissionSeq ?x"
    using F(2) by (simp_all add: y_def)
  ultimately have "lg_inv ((put_flight l f y)\<lparr>lg_subscriberBudget := b\<rparr>)"
    using put_flight_inv[OF inv True] sb by blast
  moreover have "closed_kept l l'" by (rule closed_kept_update[OF F(2)]) (simp add: l' put_flight_def)
  ultimately show ?thesis by (simp add: l' put_flight_def)
qed

lemma put_lease_inv: "lg_inv l \<Longrightarrow> p < length (lg_leases l) \<Longrightarrow> ls_flight x < length (lg_flights l) \<Longrightarrow>
   lg_inv (put_lease l p x)"
  using lg_invD(9)[of l] unfolding put_lease_def
  by (auto simp: lg_inv_def lease_ok_def dest!: set_update_subset_insert[THEN subsetD])

lemma Acknowledge_ok:
  assumes inv: "lg_inv l"
  shows "\<exists>ok l'. Acknowledge l now k = Inr (ok, l') \<and> lg_inv l' \<and>
     lg_pending l' = lg_pending l \<and> lg_hash l' = lg_hash l \<and> lg_leases l' = lg_leases l \<and>
     closed_kept l l' \<and>
     (\<forall>k' a. k' \<noteq> k \<longrightarrow> lg_byKey l k' = Some a \<longrightarrow> now < rc_expiresAt (lg_receipts l ! a) \<longrightarrow>
        lg_byKey l' k' = Some a \<and> lg_receipts l' ! a = lg_receipts l ! a) \<and>
     (rk_reqMsgID k \<noteq> 0 \<longrightarrow> lg_byKey l' k = None \<and>
        (\<forall>f. lg_pending l k = Some f \<longrightarrow> fl_acknowledged (lg_flights l' ! f)))"
proof (cases "rk_reqMsgID k = 0")
  case True
  then show ?thesis using inv closed_kept_same[of l l] by (simp add: Acknowledge_def) blast
next
  case False
  from expireLocked_ok[OF inv, of "shardIndex l k" now] obtain le where
    e: "expireLocked l (shardIndex l k) now = Inr le" "lg_inv le" "drops l le (\<lambda>rc. rc_expiresAt rc \<le> now)"
    by blast
  have sh: "shardIndex le = shardIndex l" by (rule drops_shard[OF e(3)])
  have kp: "lg_pending le = lg_pending l" "lg_hash le = lg_hash l" "lg_leases le = lg_leases l" "lg_flights le = lg_flights l"
    using e(3) by (simp_all add: drops_def keeps_pending_def)
  have keep: "lg_byKey le k' = Some a \<and> lg_receipts le ! a = lg_receipts l ! a"
    if "lg_byKey l k' = Some a" "now < rc_expiresAt (lg_receipts l ! a)" for k' a
  proof -
    have "lg_byKey le k' = Some a" using e(3) that unfolding drops_def
      by (metis linorder_not_le option.inject)
    then show ?thesis using e(3) by (auto simp: drops_def)
  qed
  show ?thesis
  proof (cases "lg_byKey le k")
    case (Some a)
    from removeElement_ok[OF e(2) Some] obtain l' where
      l': "removeElement le (shardIndex le k) a = Inr l'" "lg_inv l'" "keeps_pending le l'"
        "lg_byKey l' = (lg_byKey le)(k := None)"
        "lg_receipts l' = (lg_receipts le)[a := (lg_receipts le ! a)\<lparr>rc_reservation := None\<rparr>]" by blast
    have ne: "x \<noteq> a" if "lg_byKey le k' = Some x" "k' \<noteq> k" for k' x
      using lg_invD(3)[OF e(2)] Some that unfolding rcpt_ok_def by metis
    have np: "lg_pending l k = None" using lg_invD(5)[OF e(2)] Some kp(1) by (auto simp: domIff)
    have "Acknowledge l now k = Inr (True, l')" using False e(1) Some l'(1) by (simp add: Acknowledge_def)
    moreover have "lg_byKey l' k' = Some x \<and> lg_receipts l' ! x = lg_receipts l ! x"
      if "k' \<noteq> k" "lg_byKey l k' = Some x" "now < rc_expiresAt (lg_receipts l ! x)" for k' x
      using keep[OF that(2,3)] ne[of k' x] that(1) by (simp add: l'(4,5))
    moreover have "closed_kept l l'" using l'(3) kp by (intro closed_kept_same) (simp add: keeps_pending_def)
    ultimately show ?thesis using l'(2,3) kp np l'(4) by (auto simp: keeps_pending_def)
  next
    case None
    show ?thesis
    proof (cases "lg_pending le k")
      case n2: None
      then have "Acknowledge l now k = Inr (False, le)" using False e(1) None by (simp add: Acknowledge_def)
      moreover have "closed_kept l le" using kp by (intro closed_kept_same) simp
      ultimately show ?thesis using e(2) kp keep None n2 by auto
    next
      case (Some f)
      let ?x = "(lg_flights le ! f)\<lparr>fl_acknowledged := True\<rparr>"
      note F = pending_flight_facts[OF e(2) Some]
      have "lg_inv (put_flight le f ?x)"
        by (rule put_flight_same_budget[OF e(2) Some]) (use F in \<open>simp_all add: slots_ok_def\<close>)
      moreover have "Acknowledge l now k = Inr (True, put_flight le f ?x)"
        using False e(1) None Some by (simp add: Acknowledge_def)
      moreover have "closed_kept l (put_flight le f ?x)"
        using F(2) kp by (intro closed_kept_update[of l f]) (simp_all add: put_flight_def)
      ultimately show ?thesis using kp keep None Some F(1) by (auto simp: put_flight_def)
    qed
  qed
qed

section \<open>Atomic steps and their invariant\<close>

text \<open>
  The ledger as a state machine: each operation is one critical section of the code, so any
  interleaving of goroutines is a sequence of these steps. The multi-section operations
  \<open>acquire\<close> and \<open>Complete\<close> run several of them (\<open>acquire_runs\<close> and
  \<open>Complete_runs\<close>).
\<close>

datatype ('i, 'm, 'c) lg_op =
    OpAcquire "rpc_key \<Rightarrow> 'm option" int rpc_key "'i identity"
  | OpExpire nat int
  | OpComplete int rpc_key 'm bool
  | OpAcknowledge int rpc_key
  | OpReplay "rpc_key \<Rightarrow> 'm option" int rpc_key
  | OpObserveDependency int rpc_key
  | OpExactAdmissionProfile int rpc_key
  | OpForgetSession authkey sessionid
  | OpAbort nat
  | OpCompleteExecution nat bool
  | OpHandOff nat
  | OpSetAbortHook nat "'c option"
  | OpInstallAbortHook nat "'c option"
  | OpSubscribe rpc_key nat "'c option" "'c option"

fun lg_run :: "('i, 'm, 'c) lg_op \<Rightarrow> ('i, 'm, 'c) ledger \<Rightarrow> edge_error + ('i, 'm, 'c) ledger" where
  "lg_run (OpAcquire replay now k ident) l = map_sum id snd (acquire_once l replay now k ident)"
| "lg_run (OpExpire i now) l = expireLocked l i now"
| "lg_run (OpComplete now k m rp) l = map_sum id (snd \<circ> snd) (completeOnce l now k m rp)"
| "lg_run (OpAcknowledge now k) l = map_sum id snd (Acknowledge l now k)"
| "lg_run (OpReplay replay now k) l = map_sum id snd (Replay l replay now k)"
| "lg_run (OpObserveDependency now k) l = map_sum id snd (ObserveDependency l now k)"
| "lg_run (OpExactAdmissionProfile now k) l = map_sum id snd (ExactAdmissionProfile l now k)"
| "lg_run (OpForgetSession a s) l = forgetSession l a s"
| "lg_run (OpAbort p) l = map_sum id (snd \<circ> snd) (Abort l p)"
| "lg_run (OpCompleteExecution p ok) l = map_sum id (snd \<circ> snd) (CompleteExecution l p ok)"
| "lg_run (OpHandOff p) l = Inr (snd (HandOff l p))"
| "lg_run (OpSetAbortHook p fn) l = Inr (SetAbortHook l p fn)"
| "lg_run (OpInstallAbortHook p fn) l = Inr (snd (InstallAbortHook l p fn))"
| "lg_run (OpSubscribe k f rf ef) l =
     (case waiter_subscribe l k f rf ef of Inl _ \<Rightarrow> Inr l | Inr (_, l') \<Rightarrow> Inr l')"

text \<open>Only leases that were handed out are used.\<close>

fun op_ok :: "('i, 'm, 'c) ledger \<Rightarrow> ('i, 'm, 'c) lg_op \<Rightarrow> bool" where
  "op_ok l (OpAbort p) = (p < length (lg_leases l))"
| "op_ok l (OpCompleteExecution p _) = (p < length (lg_leases l))"
| "op_ok l (OpHandOff p) = (p < length (lg_leases l))"
| "op_ok l (OpSetAbortHook p _) = (p < length (lg_leases l))"
| "op_ok l (OpInstallAbortHook p _) = (p < length (lg_leases l))"
| "op_ok l _ = True"

text \<open>The latest clock reading of a step, and the keys whose live receipt the step may drop.\<close>

fun op_clock :: "('i, 'm, 'c) lg_op \<Rightarrow> int option" where
  "op_clock (OpAcquire _ now _ _) = Some now"
| "op_clock (OpExpire _ now) = Some now"
| "op_clock (OpComplete now _ _ _) = Some now"
| "op_clock (OpAcknowledge now _) = Some now"
| "op_clock (OpReplay _ now _) = Some now"
| "op_clock (OpObserveDependency now _) = Some now"
| "op_clock (OpExactAdmissionProfile now _) = Some now"
| "op_clock _ = None"

fun op_frees :: "('i, 'm, 'c) lg_op \<Rightarrow> rpc_key \<Rightarrow> bool" where
  "op_frees (OpAcknowledge _ k) k' = (k' = k)"
| "op_frees (OpForgetSession a s) k' = (session_of k' = (a, s))"
| "op_frees _ _ = False"

text \<open>Receipts that have not expired by the step's clock survive it unless the step frees the key.\<close>

definition keeps_receipts ::
  "('i, 'm, 'c) ledger \<Rightarrow> ('i, 'm, 'c) ledger \<Rightarrow> int option \<Rightarrow> (rpc_key \<Rightarrow> bool) \<Rightarrow> bool" where
  "keeps_receipts l l' clock frees \<longleftrightarrow>
     (\<forall>k a. lg_byKey l k = Some a \<longrightarrow> \<not> frees k \<longrightarrow>
        (case clock of Some now \<Rightarrow> now < rc_expiresAt (lg_receipts l ! a) | None \<Rightarrow> True) \<longrightarrow>
        lg_byKey l' k = Some a \<and> lg_receipts l' ! a = lg_receipts l ! a)"

lemma keeps_receipts_same:
  "lg_byKey l' = lg_byKey l \<Longrightarrow> lg_receipts l' = lg_receipts l \<Longrightarrow> keeps_receipts l l' c fr"
  by (simp add: keeps_receipts_def)

lemma drops_keeps: "drops l l' (\<lambda>rc. rc_expiresAt rc \<le> now) \<Longrightarrow> keeps_receipts l l' (Some now) fr"
  unfolding drops_def keeps_receipts_def by (metis linorder_not_le option.case(2) option.inject)

lemma keeps_receipts_then:
  assumes "drops l le (\<lambda>rc. rc_expiresAt rc \<le> now)" and "lg_inv le"
    and "\<And>k a. lg_byKey le k = Some a \<Longrightarrow> \<not> fr k \<Longrightarrow>
           now < rc_expiresAt (lg_receipts le ! a) \<Longrightarrow> lg_byKey l' k = Some a \<and> lg_receipts l' ! a = lg_receipts le ! a"
  shows "keeps_receipts l l' (Some now) fr"
  unfolding keeps_receipts_def
proof (intro allI impI)
  fix k a
  assume k: "lg_byKey l k = Some a" "\<not> fr k" "case Some now of Some now \<Rightarrow> now < rc_expiresAt (lg_receipts l ! a) | None \<Rightarrow> True"
  then have "lg_byKey le k = Some a \<and> lg_receipts le ! a = lg_receipts l ! a"
    using drops_keeps[OF assms(1), of fr] unfolding keeps_receipts_def by blast
  with assms(3)[of k a] k show "lg_byKey l' k = Some a \<and> lg_receipts l' ! a = lg_receipts l ! a" by simp
qed

lemma acquire_once_ok:
  assumes inv: "lg_inv l"
  shows "\<exists>le out l'. expireLocked l (shardIndex l k) now = Inr le \<and> lg_inv le \<and>
     drops l le (\<lambda>rc. rc_expiresAt rc \<le> now) \<and>
     acquire_once l replay now k ident = Inr (out, l') \<and> lg_inv l' \<and>
     (case lg_byKey le k of
        Some a \<Rightarrow> l' = le \<and> out = Some (acquire_receipt (lg_receipts le ! a) ident (replay k))
      | None \<Rightarrow> (case lg_pending le k of
          Some f \<Rightarrow> l' = le \<and> out = Some (acquire_flight (lg_flights le ! f) f ident)
        | None \<Rightarrow> (case out of Some (Inr res) \<Rightarrow> became_owner le k ident res l' | _ \<Rightarrow> same_tables le l')))"
proof -
  from expireLocked_ok[OF inv, of "shardIndex l k" now] obtain le where
    e: "expireLocked l (shardIndex l k) now = Inr le" "lg_inv le" "drops l le (\<lambda>rc. rc_expiresAt rc \<le> now)"
    by blast
  show ?thesis
  proof (cases "lg_byKey le k = None \<and> lg_pending le k = None")
    case True
    then obtain out l' where "acquire_owner le k ident = Inr (out, l')" "lg_inv l'"
      "case out of Some (Inr res) \<Rightarrow> became_owner le k ident res l' | _ \<Rightarrow> same_tables le l'"
      using acquire_owner_ok[OF e(2)] by blast
    then show ?thesis using e True by (simp add: acquire_once_def)
  next
    case False
    then show ?thesis using e by (auto simp: acquire_once_def split: option.split)
  qed
qed

lemma acquire_once_keeps:
  assumes "lg_inv l" and "acquire_once l replay now k ident = Inr (out, l')"
  shows "lg_inv l'" and "keeps_receipts l l' (Some now) fr"
proof -
  obtain le where e: "lg_inv le" "drops l le (\<lambda>rc. rc_expiresAt rc \<le> now)" and "lg_inv l'"
    and c: "lg_byKey l' = lg_byKey le" "lg_receipts l' = lg_receipts le"
    using acquire_once_ok[OF assms(1), of k now replay ident] assms(2)
    by (auto simp: became_owner_def same_tables_def split: option.splits sum.splits)
  then show "lg_inv l'" "keeps_receipts l l' (Some now) fr"
    using keeps_receipts_then[OF e(2,1)] by auto
qed

lemma completed_keeps:
  assumes "lg_inv le" and "completed le now k m rp ok effs l'" and "lg_byKey le k' = Some a"
  shows "lg_byKey l' k' = Some a \<and> lg_receipts l' ! a = lg_receipts le ! a"
proof -
  have a: "a < length (lg_receipts le)" using lg_invD(3)[OF assms(1)] assms(3) by (auto simp: rcpt_ok_def)
  have "lg_pending le k = None \<or> k' \<noteq> k" using lg_invD(5)[OF assms(1)] assms(3) by (auto simp: domIff)
  then show ?thesis using assms(2,3) a
    by (auto simp: completed_def split: option.splits if_splits)
qed

lemma expired_lookup_ok:
  assumes inv: "lg_inv l" and a: "lg_byKey l k = Some a" "rc_expiresAt (lg_receipts l ! a) \<le> now"
  shows "\<exists>l'. removeElement l (shardIndex l k) a = Inr l' \<and> lg_inv l' \<and> keeps_receipts l l' (Some now) fr"
proof -
  have "a \<in> set (lg_order l (shardIndex l k))" using lg_invD(3)[OF inv] a(1) by (auto simp: rcpt_ok_def)
  from removeElement_drops[OF inv this, of "\<lambda>rc. rc_expiresAt rc \<le> now"] a(2) drops_keeps
  show ?thesis by blast
qed

lemma put_lease_ok:
  assumes inv: "lg_inv l" and p: "p < length (lg_leases l)" and "ls_flight x = ls_flight (lg_leases l ! p)"
  shows "lg_inv (put_lease l p x) \<and> keeps_receipts l (put_lease l p x) c fr"
proof -
  have "ls_flight x < length (lg_flights l)" using assms lg_invD(9)[OF inv] by (simp add: lease_ok_def)
  with put_lease_inv[OF inv p] show ?thesis by (simp add: put_lease_def keeps_receipts_def)
qed

lemma lg_run_ok:
  assumes inv: "lg_inv l" and "op_ok l op"
  shows "\<exists>l'. lg_run op l = Inr l' \<and> lg_inv l' \<and> keeps_receipts l l' (op_clock op) (op_frees op)"
proof (cases op)
  case (OpAcquire replay now k ident)
  obtain out l' where "acquire_once l replay now k ident = Inr (out, l')"
    using acquire_once_ok[OF inv] by blast
  with acquire_once_keeps[OF inv this] OpAcquire show ?thesis by (auto simp: op_frees.simps)
next
  case (OpExpire i now)
  then show ?thesis using expireLocked_ok[OF inv, of i now] drops_keeps by auto
next
  case (OpComplete now k m rp)
  obtain le ok effs l' where c: "drops l le (\<lambda>rc. rc_expiresAt rc \<le> now)" "lg_inv le"
     "completeOnce l now k m rp = Inr (ok, effs, l')" "lg_inv l'" "completed le now k m rp ok effs l'"
    using completeOnce_ok[OF inv, of k now m rp] by blast
  have "keeps_receipts l l' (Some now) fr" for fr
    using keeps_receipts_then[OF c(1,2)] completed_keeps[OF c(2,5)] by blast
  with OpComplete c show ?thesis by auto
next
  case (OpAcknowledge now k)
  from Acknowledge_ok[OF inv, of now k] obtain ok l' where "Acknowledge l now k = Inr (ok, l')" "lg_inv l'"
    "\<forall>k' a. k' \<noteq> k \<longrightarrow> lg_byKey l k' = Some a \<longrightarrow> now < rc_expiresAt (lg_receipts l ! a) \<longrightarrow>
        lg_byKey l' k' = Some a \<and> lg_receipts l' ! a = lg_receipts l ! a" by blast
  with OpAcknowledge show ?thesis by (auto simp: keeps_receipts_def)
next
  case (OpReplay replay now k)
  show ?thesis
  proof (cases "\<exists>a. lg_byKey l k = Some a \<and> rc_expiresAt (lg_receipts l ! a) \<le> now \<and> rk_reqMsgID k \<noteq> 0")
    case True
    then obtain a l' where "lg_byKey l k = Some a" "rc_expiresAt (lg_receipts l ! a) \<le> now" "rk_reqMsgID k \<noteq> 0"
      "removeElement l (shardIndex l k) a = Inr l'" "lg_inv l'" "keeps_receipts l l' (Some now) (op_frees op)"
      using expired_lookup_ok[OF inv] by blast
    then show ?thesis using OpReplay by (simp add: Replay_def Let_def)
  next
    case False
    then have "lg_run op l = Inr l" using OpReplay by (auto simp: Replay_def Let_def not_less split: option.splits)
    then show ?thesis using inv keeps_receipts_same by auto
  qed
next
  case (OpObserveDependency now k)
  show ?thesis
  proof (cases "\<exists>a. lg_byKey l k = Some a \<and> rc_expiresAt (lg_receipts l ! a) \<le> now \<and> rk_reqMsgID k \<noteq> 0")
    case True
    then obtain a l' where "lg_byKey l k = Some a" "rc_expiresAt (lg_receipts l ! a) \<le> now" "rk_reqMsgID k \<noteq> 0"
      "removeElement l (shardIndex l k) a = Inr l'" "lg_inv l'" "keeps_receipts l l' (Some now) (op_frees op)"
      using expired_lookup_ok[OF inv] by blast
    then show ?thesis using OpObserveDependency by (simp add: ObserveDependency_def Let_def)
  next
    case False
    then have "lg_run op l = Inr l"
      using OpObserveDependency by (auto simp: ObserveDependency_def Let_def not_less split: option.splits)
    then show ?thesis using inv keeps_receipts_same by auto
  qed
next
  case (OpExactAdmissionProfile now k)
  show ?thesis
  proof (cases "\<exists>a. lg_byKey l k = Some a \<and> rc_expiresAt (lg_receipts l ! a) \<le> now \<and> rk_reqMsgID k \<noteq> 0")
    case True
    then obtain a l' where "lg_byKey l k = Some a" "rc_expiresAt (lg_receipts l ! a) \<le> now" "rk_reqMsgID k \<noteq> 0"
      "removeElement l (shardIndex l k) a = Inr l'" "lg_inv l'" "keeps_receipts l l' (Some now) (op_frees op)"
      using expired_lookup_ok[OF inv] by blast
    then show ?thesis using OpExactAdmissionProfile by (simp add: ExactAdmissionProfile_def Let_def)
  next
    case False
    then have "lg_run op l = Inr l"
      using OpExactAdmissionProfile by (auto simp: ExactAdmissionProfile_def Let_def not_less split: option.splits)
    then show ?thesis using inv keeps_receipts_same by auto
  qed
next
  case (OpForgetSession a s)
  obtain l' where f: "forgetSession l a s = Inr l'" "lg_inv l'" "drops l l' (\<lambda>rc. session_of (rc_key rc) = (a, s))"
    using forgetSession_ok[OF inv] by blast
  have "rc_key (lg_receipts l ! x) = k" if "lg_byKey l k = Some x" for k x
    using lg_invD(3)[OF inv] that by (auto simp: rcpt_ok_def)
  then have "keeps_receipts l l' None (\<lambda>k. session_of k = (a, s))"
    using f(3) unfolding drops_def keeps_receipts_def by (metis option.inject)
  with f OpForgetSession show ?thesis by (simp add: fun_eq_iff keeps_receipts_def)
next
  case (OpAbort p)
  then have "p < length (lg_leases l)" using assms(2) by simp
  from Abort_ok[OF inv this] show ?thesis using OpAbort inv keeps_receipts_same by fastforce
next
  case (OpCompleteExecution p ok)
  then show ?thesis using CompleteExecution_ok[OF inv, of p ok] keeps_receipts_same by fastforce
next
  case (OpHandOff p)
  then show ?thesis using put_lease_ok[OF inv, of p] assms(2) inv by (auto simp: HandOff_def keeps_receipts_same)
next
  case (OpSetAbortHook p fn)
  then show ?thesis using put_lease_ok[OF inv, of p] assms(2) by (auto simp: SetAbortHook_def)
next
  case (OpInstallAbortHook p fn)
  then show ?thesis using put_lease_ok[OF inv, of p] assms(2) inv by (auto simp: InstallAbortHook_def keeps_receipts_same)
next
  case (OpSubscribe k f rf ef)
  show ?thesis
  proof (cases "waiter_subscribe l k f rf ef")
    case (Inl e)
    then show ?thesis using OpSubscribe inv keeps_receipts_same[of l l] by simp
  next
    case (Inr x)
    obtain effs l' where x: "x = (effs, l')" by (cases x)
    from subscribe_ok[OF inv Inr[unfolded x]] have "lg_inv l'" "keeps_receipts l l' None (\<lambda>_. False)"
      by (simp_all add: keeps_receipts_def)
    then show ?thesis using OpSubscribe Inr x by (auto simp: keeps_receipts_def)
  qed
qed

text \<open>
  \<open>frame_ok op l l'\<close>: a step leaves closed flights and the identity of leases alone, and a
  pending flight stays pending unless the step completes its key or is the abort of its own lease.
\<close>

definition leases_kept :: "('i, 'm, 'c) ledger \<Rightarrow> ('i, 'm, 'c) ledger \<Rightarrow> bool" where
  "leases_kept l l' \<longleftrightarrow> length (lg_leases l) \<le> length (lg_leases l') \<and>
     (\<forall>p < length (lg_leases l). ls_key (lg_leases l' ! p) = ls_key (lg_leases l ! p) \<and>
        ls_flight (lg_leases l' ! p) = ls_flight (lg_leases l ! p))"

definition resolves :: "('i, 'm, 'c) lg_op \<Rightarrow> ('i, 'm, 'c) ledger \<Rightarrow> rpc_key \<Rightarrow> nat \<Rightarrow> bool" where
  "resolves op l k f \<longleftrightarrow>
     (case op of
        OpComplete now k' m rp \<Rightarrow> k' = k
      | OpAbort p \<Rightarrow> ls_key (lg_leases l ! p) = k \<and> ls_flight (lg_leases l ! p) = f \<and>
                     \<not> ls_handedOff (lg_leases l ! p)
      | _ \<Rightarrow> False)"

definition frame_ok :: "('i, 'm, 'c) lg_op \<Rightarrow> ('i, 'm, 'c) ledger \<Rightarrow> ('i, 'm, 'c) ledger \<Rightarrow> bool" where
  "frame_ok op l l' \<longleftrightarrow> closed_kept l l' \<and> leases_kept l l' \<and>
     (\<forall>k f. lg_pending l k = Some f \<longrightarrow> lg_pending l' k = Some f \<or> resolves op l k f)"

lemma leases_kept_same: "lg_leases l' = lg_leases l \<Longrightarrow> leases_kept l l'"
  by (simp add: leases_kept_def)

lemma leases_kept_update:
  assumes "ls_key x = ls_key (lg_leases l ! p)" and "ls_flight x = ls_flight (lg_leases l ! p)"
    and "lg_leases l' = (lg_leases l)[p := x]"
  shows "leases_kept l l'"
  using assms unfolding leases_kept_def
  by (metis length_list_update nth_list_update_eq nth_list_update_neq order_refl)

lemma frame_same:
  "lg_pending l' = lg_pending l \<Longrightarrow> closed_kept l l' \<Longrightarrow> lg_leases l' = lg_leases l \<Longrightarrow> frame_ok op l l'"
  by (simp add: frame_ok_def leases_kept_same)

lemma frame_keeps_pending: "keeps_pending l l' \<Longrightarrow> frame_ok op l l'"
  by (rule frame_same) (simp_all add: keeps_pending_def closed_kept_same)

lemma frame_put_lease:
  assumes "ls_key x = ls_key (lg_leases l ! p)" and "ls_flight x = ls_flight (lg_leases l ! p)"
  shows "frame_ok op l (put_lease l p x)"
proof -
  have "leases_kept l (put_lease l p x)"
    by (rule leases_kept_update[OF assms]) (simp add: put_lease_def)
  then show ?thesis by (simp add: frame_ok_def closed_kept_def put_lease_def)
qed

lemma frame_acquire:
  assumes inv: "lg_inv l" and run: "acquire_once l replay now k ident = Inr (out, l')"
  shows "frame_ok op l l'"
proof -
  from acquire_once_ok[OF inv, of k now replay ident] run obtain le where
    d: "keeps_pending l le" and c: "l' = le \<or> (lg_pending le k = None \<and>
       ((\<exists>res. became_owner le k ident res l') \<or> same_tables le l'))"
    by (auto simp: drops_def split: option.splits sum.splits)
  show ?thesis
  proof (cases "l' = le \<or> same_tables le l'")
    case True
    then show ?thesis using d by (intro frame_same) (auto simp: keeps_pending_def same_tables_def closed_kept_same)
  next
    case False
    then obtain res where b: "became_owner le k ident res l'" and n: "lg_pending le k = None" using c by blast
    from b d n show ?thesis
      by (auto simp: frame_ok_def became_owner_def keeps_pending_def closed_kept_def leases_kept_def nth_append)
  qed
qed

lemma frame_complete:
  assumes inv: "lg_inv l" and run: "completeOnce l now k m rp = Inr (ok, effs, l')"
  shows "frame_ok (OpComplete now k m rp) l l'"
proof -
  from completeOnce_ok[OF inv, of k now m rp] run obtain le where
    d: "keeps_pending l le" "lg_inv le" and c: "completed le now k m rp ok effs l'"
    by (auto simp: drops_def)
  show ?thesis
  proof (cases "lg_pending le k")
    case None
    then have "keeps_pending le l'" using c by (auto simp: completed_def)
    then show ?thesis using frame_keeps_pending keeps_pending_trans[OF d(1)] by blast
  next
    case (Some f)
    then have e: "ends_flight le l' k f (Some m)" "lg_leases l' = lg_leases le"
      using c by (simp_all add: completed_def)
    have "\<not> fl_done (lg_flights le ! f)" using pending_flight_facts(2)[OF d(2) Some] .
    with e d have "closed_kept l l'"
      by (intro closed_kept_update[of l f]) (simp_all add: ends_flight_def keeps_pending_def)
    then show ?thesis using e d(1)
      by (auto simp: frame_ok_def leases_kept_def keeps_pending_def ends_flight_def resolves_def)
  qed
qed

lemma frame_abort:
  assumes inv: "lg_inv l" and p: "p < length (lg_leases l)" and run: "Abort l p = Inr (ok, effs, l')"
  shows "frame_ok (OpAbort p) l l'"
proof (cases "\<not> ls_handedOff (lg_leases l ! p) \<and> owns l (lg_leases l ! p)")
  case True
  let ?lease = "lg_leases l ! p"
  from Abort_ok[OF inv p] True run have e: "ends_flight l l' (ls_key ?lease) (ls_flight ?lease) None"
    "lg_leases l' = (lg_leases l)[p := ?lease\<lparr>ls_abortHook := None\<rparr>]" by auto
  have k: "lg_pending l (ls_key ?lease) = Some (ls_flight ?lease)" using True by (simp add: owns_def)
  have "closed_kept l l'"
    using e(1) pending_flight_facts(2)[OF inv k] by (intro closed_kept_update) (simp_all add: ends_flight_def)
  moreover have "leases_kept l l'" by (rule leases_kept_update[OF _ _ e(2)]) simp_all
  ultimately show ?thesis using e(1) k True by (auto simp: frame_ok_def ends_flight_def resolves_def)
next
  case False
  then have "l' = l" using Abort_ok[OF inv p] run by auto
  then show ?thesis by (simp add: frame_same closed_kept_same)
qed

lemma frame_lookup:
  assumes inv: "lg_inv l"
    and "l' = l \<or> (\<exists>a. lg_byKey l k = Some a \<and> removeElement l (shardIndex l k) a = Inr l')"
  shows "frame_ok op l l'"
  using assms(2) removeElement_ok[OF inv] frame_keeps_pending keeps_pending_refl by fastforce

lemma lg_run_frame:
  assumes inv: "lg_inv l" and op: "op_ok l op" and run: "lg_run op l = Inr l'"
  shows "frame_ok op l l'"
proof (cases op)
  case (OpAcquire replay now k ident)
  with run obtain out where "acquire_once l replay now k ident = Inr (out, l')"
    by (cases "acquire_once l replay now k ident") auto
  then show ?thesis by (rule frame_acquire[OF inv])
next
  case (OpExpire i now)
  then show ?thesis using expireLocked_ok[OF inv, of i now] run frame_keeps_pending
    by (auto simp: drops_def)
next
  case (OpComplete now k m rp)
  with run obtain ok effs where "completeOnce l now k m rp = Inr (ok, effs, l')"
    by (cases "completeOnce l now k m rp") auto
  then show ?thesis unfolding OpComplete by (rule frame_complete[OF inv])
next
  case (OpAcknowledge now k)
  then show ?thesis using Acknowledge_ok[OF inv, of now k] run by (auto intro: frame_same)
next
  case (OpReplay replay now k)
  have "l' = l \<or> (\<exists>a. lg_byKey l k = Some a \<and> removeElement l (shardIndex l k) a = Inr l')"
    using OpReplay run by (auto simp: Replay_def Let_def split: option.splits if_splits sum.splits)
  then show ?thesis by (rule frame_lookup[OF inv])
next
  case (OpObserveDependency now k)
  have "l' = l \<or> (\<exists>a. lg_byKey l k = Some a \<and> removeElement l (shardIndex l k) a = Inr l')"
    using OpObserveDependency run by (auto simp: ObserveDependency_def Let_def split: option.splits if_splits sum.splits)
  then show ?thesis by (rule frame_lookup[OF inv])
next
  case (OpExactAdmissionProfile now k)
  have "l' = l \<or> (\<exists>a. lg_byKey l k = Some a \<and> removeElement l (shardIndex l k) a = Inr l')"
    using OpExactAdmissionProfile run by (auto simp: ExactAdmissionProfile_def Let_def split: option.splits if_splits sum.splits)
  then show ?thesis by (rule frame_lookup[OF inv])
next
  case (OpForgetSession a s)
  then show ?thesis using forgetSession_ok[OF inv, of a s] run frame_keeps_pending
    by (auto simp: drops_def)
next
  case (OpAbort p)
  with run obtain ok effs where "Abort l p = Inr (ok, effs, l')" by (cases "Abort l p") auto
  then show ?thesis unfolding OpAbort using op OpAbort by (intro frame_abort[OF inv]) auto
next
  case (OpCompleteExecution p ok)
  then show ?thesis using CompleteExecution_ok[OF inv, of p ok] run by (auto intro: frame_same)
next
  case (OpHandOff p)
  then show ?thesis using run frame_same[of l l] closed_kept_same[of l l]
    by (auto simp: HandOff_def split: if_splits intro!: frame_put_lease)
next
  case (OpSetAbortHook p fn)
  then show ?thesis using run by (auto simp: SetAbortHook_def intro!: frame_put_lease)
next
  case (OpInstallAbortHook p fn)
  then show ?thesis using run frame_same[of l l] closed_kept_same[of l l]
    by (auto simp: InstallAbortHook_def split: if_splits intro!: frame_put_lease)
next
  case (OpSubscribe k f rf ef)
  show ?thesis
  proof (cases "waiter_subscribe l k f rf ef")
    case (Inl e)
    then show ?thesis using OpSubscribe run frame_same[of l l] closed_kept_same[of l l] by simp
  next
    case (Inr x)
    obtain effs l2 where x: "x = (effs, l2)" by (cases x)
    from subscribe_ok[OF inv Inr[unfolded x]] have "frame_ok op l l2" by (intro frame_same) simp_all
    then show ?thesis using OpSubscribe Inr x run by simp
  qed
qed

end
