(* ===== verification/Ledger_Properties.thy ===== *)
theory Ledger_Properties
  imports Rpc_Ledger
begin

text \<open>
  Runs of the RPC execution ledger, as sequences of its critical sections in any interleaving, and
  the guarantees they give: exact accounting without panics, at most one owner per request, no
  second execution before a receipt expires, harmless stale leases, and complete notification of
  subscribers.
\<close>

section \<open>Runs\<close>

inductive lg_trace ::
  "('i, 'm, 'c) ledger \<Rightarrow> ('i, 'm, 'c) lg_op list \<Rightarrow> ('i, 'm, 'c) ledger \<Rightarrow> bool" where
  halt: "lg_trace l [] l"
| step: "op_ok l op \<Longrightarrow> lg_run op l = Inr l1 \<Longrightarrow> lg_trace l1 ops l' \<Longrightarrow> lg_trace l (op # ops) l'"

inductive_simps lg_trace_Nil [simp]: "lg_trace l [] l'"
inductive_simps lg_trace_Cons: "lg_trace l (op # ops) l'"

lemma lg_trace_inv: "lg_trace l ops l' \<Longrightarrow> lg_inv l \<Longrightarrow> lg_inv l'"
proof (induction rule: lg_trace.induct)
  case (step l op l1 ops l')
  then show ?case using lg_run_ok[of l op] by auto
qed

lemma lg_trace_append: "lg_trace l ops l1 \<Longrightarrow> lg_trace l1 ops' l' \<Longrightarrow> lg_trace l (ops @ ops') l'"
  by (induction rule: lg_trace.induct) (auto intro: lg_trace.step)

lemma lg_trace_one: "op_ok l op \<Longrightarrow> lg_run op l = Inr l' \<Longrightarrow> lg_trace l [op] l'"
  by (auto intro: lg_trace.intros)

lemma lg_trace_total:
  assumes "lg_inv l" and "\<forall>op \<in> set ops. \<forall>l. op_ok l op"
  shows "\<exists>l'. lg_trace l ops l'"
  using assms
proof (induction ops arbitrary: l)
  case (Cons op ops)
  then obtain l1 where "lg_run op l = Inr l1" "lg_inv l1" using lg_run_ok[of l op] by auto
  with Cons show ?case by (auto simp: lg_trace_Cons)
qed (auto intro: lg_trace.halt)

lemma expire_shards_runs:
  "expire_shards l now is = Inr l' \<Longrightarrow> lg_trace l (map (\<lambda>i. OpExpire i (now i)) is) l'"
  by (induction "is" arbitrary: l) (auto simp: lg_trace_Cons split: sum.splits)

lemma acquire_runs:
  assumes "acquire l replay now nowE nowR k ident = Inr (res, l')"
  shows "\<exists>ops. lg_trace l ops l'"
proof (cases "rk_reqMsgID k = 0")
  case True
  then show ?thesis using assms by (auto simp: acquire_def intro: lg_trace.halt)
next
  case False
  let ?op = "OpAcquire replay now k ident" and ?op2 = "OpAcquire replay nowR k ident"
  from assms False obtain out l1 where a: "acquire_once l replay now k ident = Inr (out, l1)"
    by (auto simp: acquire_def split: sum.splits)
  then have t1: "lg_trace l [?op] l1" by (intro lg_trace_one) simp_all
  show ?thesis
  proof (cases out)
    case (Some r)
    then show ?thesis using assms False a t1 by (auto simp: acquire_def)
  next
    case None
    with assms False a obtain l2 where e: "expireReceipts l1 nowE = Inr l2"
      by (auto simp: acquire_def split: sum.splits)
    with assms False a None obtain out2 where b: "acquire_once l2 replay nowR k ident = Inr (out2, l')"
      by (auto simp: acquire_def split: sum.splits option.splits)
    have "lg_trace l2 [?op2] l'" using b by (intro lg_trace_one) simp_all
    with expire_shards_runs[OF e[unfolded expireReceipts_def]] t1 show ?thesis
      by (meson lg_trace_append)
  qed
qed

lemma Complete_runs:
  assumes "Complete l replay now nowE nowR k m rp = Inr (effs, l')"
  shows "\<exists>ops. lg_trace l ops l'"
proof (cases "m = None \<or> rk_reqMsgID k = 0")
  case True
  then show ?thesis using assms by (auto simp: Complete_def split: option.splits intro: lg_trace.halt)
next
  case False
  then obtain x where x: "m = Some x" by auto
  define rp' where "rp' = (rp \<and> replay k \<noteq> None)"
  from assms False x obtain ok effs1 l1 where a: "completeOnce l now k x rp' = Inr (ok, effs1, l1)"
    by (auto simp: Complete_def Let_def rp'_def split: sum.splits)
  then have t1: "lg_trace l [OpComplete now k x rp'] l1" by (intro lg_trace_one) simp_all
  show ?thesis
  proof (cases ok)
    case True
    then show ?thesis using assms False x a t1 by (auto simp: Complete_def Let_def rp'_def)
  next
    case no: False
    with assms False x a obtain l2 where e: "expireReceipts l1 nowE = Inr l2"
      by (auto simp: Complete_def Let_def rp'_def split: sum.splits)
    with assms False x a no obtain ok2 effs2 where b: "completeOnce l2 nowR k x rp' = Inr (ok2, effs2, l')"
      by (auto simp: Complete_def Let_def rp'_def split: sum.splits)
    have "lg_trace l2 [OpComplete nowR k x rp'] l'" using b by (intro lg_trace_one) simp_all
    with expire_shards_runs[OF e[unfolded expireReceipts_def]] t1 show ?thesis
      by (meson lg_trace_append)
  qed
qed

section \<open>Counting rows\<close>

lemma live_rows:
  assumes "lg_inv l"
  shows "count_if live (lg_heap l) = int (card (dom (lg_pending l))) + int (card (dom (lg_byKey l)))"
proof -
  note I = lg_invD[OF assms]
  let ?h = "lg_heap l" and ?p = "lg_pending l" and ?b = "lg_byKey l"
  define rp where "rp k = the (fl_reservation (lg_flights l ! the (?p k)))" for k
  define rb where "rb k = the (rc_reservation (lg_receipts l ! the (?b k)))" for k
  have p: "res_ok ?h k (rp k) True" if "k \<in> dom ?p" for k
    using I(2) that by (fastforce simp: pend_ok_def rp_def)
  have b: "res_ok ?h k (rb k) False" if "k \<in> dom ?b" for k
    using I(3) that by (fastforce simp: rcpt_ok_def rb_def)
  have "{i. i < length ?h \<and> live (?h ! i)} = rp ` dom ?p \<union> rb ` dom ?b"
  proof (intro equalityI subsetI)
    fix i assume i: "i \<in> {i. i < length ?h \<and> live (?h ! i)}"
    then consider (f) f where "?p (rv_key (?h ! i)) = Some f" "fl_reservation (lg_flights l ! f) = Some i"
      | (a) a where "?b (rv_key (?h ! i)) = Some a" "rc_reservation (lg_receipts l ! a) = Some i"
      using I(4) by (auto simp: owned_ok_def)
    then show "i \<in> rp ` dom ?p \<union> rb ` dom ?b"
    proof cases
      case f
      then have "i = rp (rv_key (?h ! i))" by (simp add: rp_def)
      then show ?thesis using f by blast
    next
      case a
      then have "i = rb (rv_key (?h ! i))" by (simp add: rb_def)
      then show ?thesis using a by blast
    qed
  qed (use p b in \<open>auto simp: res_ok_def\<close>)
  moreover have "inj_on rp (dom ?p)" "inj_on rb (dom ?b)"
    using p b by (metis inj_onI res_ok_def)+
  moreover have "rp ` dom ?p \<inter> rb ` dom ?b = {}"
    using p b by (fastforce simp: res_ok_def)
  moreover have "finite (dom ?p)" "finite (dom ?b)" using I(2,3) by (simp_all add: pend_ok_def rcpt_ok_def)
  ultimately show ?thesis
    by (simp add: count_if_card card_Un_disjoint card_image)
qed

section \<open>Survival of receipts and of leases\<close>

lemma receipt_survives:
  assumes "lg_trace l ops l'" and "lg_inv l" and "lg_byKey l k = Some a"
    and "\<forall>op \<in> set ops. \<not> op_frees op k \<and> (\<forall>now. op_clock op = Some now \<longrightarrow> now < rc_expiresAt (lg_receipts l ! a))"
  shows "lg_byKey l' k = Some a \<and> lg_receipts l' ! a = lg_receipts l ! a"
  using assms
proof (induction rule: lg_trace.induct)
  case (step l op l1 ops l')
  have 1: "lg_inv l1" "keeps_receipts l l1 (op_clock op) (op_frees op)"
    using lg_run_ok[OF step.prems(1) step.hyps(1)] step.hyps(2) by auto
  have "\<not> op_frees op k" and "case op_clock op of Some now \<Rightarrow> now < rc_expiresAt (lg_receipts l ! a) | None \<Rightarrow> True"
    using step.prems(3) by (auto split: option.split)
  with 1(2) step.prems(2) have "lg_byKey l1 k = Some a \<and> lg_receipts l1 ! a = lg_receipts l ! a"
    unfolding keeps_receipts_def by blast
  with step.IH[OF 1(1)] step.prems(3) show ?case by simp
qed simp

lemma closed_kept_trans: "closed_kept l l1 \<Longrightarrow> closed_kept l1 l2 \<Longrightarrow> closed_kept l l2"
  by (auto simp: closed_kept_def)

lemma leases_kept_trans: "leases_kept l l1 \<Longrightarrow> leases_kept l1 l2 \<Longrightarrow> leases_kept l l2"
  by (auto simp: leases_kept_def)

lemma trace_frame: "lg_trace l ops l' \<Longrightarrow> lg_inv l \<Longrightarrow> closed_kept l l' \<and> leases_kept l l'"
proof (induction rule: lg_trace.induct)
  case (halt l)
  then show ?case by (simp add: closed_kept_same leases_kept_same)
next
  case (step l op l1 ops l')
  have "lg_inv l1" using lg_run_ok[OF step.prems step.hyps(1)] step.hyps(2) by auto
  moreover have "closed_kept l l1 \<and> leases_kept l l1"
    using lg_run_frame[OF step.prems step.hyps(1,2)] by (simp add: frame_ok_def)
  ultimately show ?case using step.IH closed_kept_trans leases_kept_trans by blast
qed

lemma stale_lease_never_owns:
  assumes "lg_trace l ops l'" and "lg_inv l" and "p < length (lg_leases l)"
    and "fl_done (lg_flights l ! ls_flight (lg_leases l ! p))"
  shows "\<not> owns l' (lg_leases l' ! p)"
proof
  assume "owns l' (lg_leases l' ! p)"
  moreover have "closed_kept l l'" "leases_kept l l'" using trace_frame[OF assms(1,2)] by simp_all
  moreover have "ls_flight (lg_leases l ! p) < length (lg_flights l)"
    using lg_invD(9)[OF assms(2)] assms(3) by (simp add: lease_ok_def)
  ultimately have "lg_pending l' (ls_key (lg_leases l ! p)) = Some (ls_flight (lg_leases l ! p))"
    and "fl_done (lg_flights l' ! ls_flight (lg_leases l ! p))"
    using assms(3,4) by (simp_all add: owns_def closed_kept_def leases_kept_def)
  then show False using pending_flight_facts(2)[OF lg_trace_inv[OF assms(1,2)]] by blast
qed

section \<open>Properties\<close>

text \<open>
  C6: In every state the ledger can reach from a fresh one by any interleaving of its critical
  sections, every further operation runs without a panic; the in-flight counter is the number of
  pending owners, the receipt counter the number of receipts, and the global budget the number of
  both together, each within the configured capacity; and no request key is pending and terminal at
  once.
\<close>

theorem ledger_accounting:
  assumes "lg_trace (newRPCExecutionLedger hash c) ops l" and "op_ok l op"
  shows "isl (lg_run op l) = False \<and>
     limit_snapshot (lg_flightLimit l) = int (card (dom (lg_pending l))) \<and>
     receiptBudgetBytes l = 384 * int (card (dom (lg_byKey l))) \<and>
     limit_snapshot (fb_global (lg_fairBudget l)) =
       int (card (dom (lg_pending l))) + int (card (dom (lg_byKey l))) \<and>
     int (card (dom (lg_pending l))) \<le> max 0 (lim_max (lg_flightLimit l)) \<and>
     int (card (dom (lg_pending l))) + int (card (dom (lg_byKey l))) \<le> max 0 (lim_max (fb_global (lg_fairBudget l))) \<and>
     dom (lg_pending l) \<inter> dom (lg_byKey l) = {}"
proof -
  have inv: "lg_inv l" using lg_trace_inv[OF assms(1) lg_inv_new] .
  note I = lg_invD[OF inv]
  obtain l' where "lg_run op l = Inr l'" using lg_run_ok[OF inv assms(2)] by blast
  then show ?thesis using I(1,5,6) live_rows[OF inv]
    by (simp add: count_ok_def fb_inv_def fb_exact_def fb_bounded_def Let_def limit_snapshot_def
        receiptBudgetBytes_def rpcExecutionReceiptBudgetBytes_def)
qed

definition ex_capacity :: ledger_capacity where
  "ex_capacity = \<lparr>cap_maxPending = 4, cap_maxPendingPerAuth = 2, cap_globalMaxEntries = 8, cap_authMaxEntries = 4,
     cap_sessionMaxEntries = 4, cap_subscriberMaxGlobal = 4, cap_subscriberMaxAuth = 4,
     cap_subscriberMaxSession = 4, cap_subscriberMaxPerFlight = 2\<rparr>"

definition ex_ledger :: "(unit, unit, nat) ledger" where
  "ex_ledger = newRPCExecutionLedger (\<lambda>_. 0) ex_capacity"

definition ex_identity :: "unit identity" where
  "ex_identity = \<lparr>id_exact = Some (), id_profile = 225, id_valid = True\<rparr>"

definition ex_owned :: "(unit, unit, nat) ledger" where
  "ex_owned = (case acquire_once ex_ledger (\<lambda>_. None) 0 ex_key ex_identity of Inr (_, l) \<Rightarrow> l | Inl _ \<Rightarrow> ex_ledger)"

lemma ex_inv: "lg_inv ex_ledger"
  by (simp add: ex_ledger_def lg_inv_new)

lemma ex_owned_runs:
  "\<exists>res. acquire_once ex_ledger (\<lambda>_. None) 0 ex_key ex_identity = Inr (Some (Inr res), ex_owned) \<and>
     became_owner ex_ledger ex_key ex_identity res ex_owned"
proof -
  have e: "expireLocked ex_ledger i 0 = Inr ex_ledger" for i
    by (simp add: expireLocked_def ex_ledger_def newRPCExecutionLedger_def Let_def)
  have n: "lg_byKey ex_ledger ex_key = None" "lg_pending ex_ledger ex_key = None"
    by (simp_all add: ex_ledger_def newRPCExecutionLedger_def Let_def)
  have "\<exists>res l'. acquire_owner ex_ledger ex_key ex_identity = Inr (Some (Inr res), l')"
    by (simp add: acquire_owner_def ex_ledger_def newRPCExecutionLedger_def ex_capacity_def ex_identity_def
        ex_key_def cap_default_def Let_def limit_reserve_def reserveN_def reserveOwner_def fb_reserve_def
        newRPCExecutionFairBudget_def zero_usage_def withinRPCExecutionBudget_def session_of_def
        allocateAndRegister_def install_owner_def)
  then obtain res l' where a: "acquire_owner ex_ledger ex_key ex_identity = Inr (Some (Inr res), l')" by blast
  then have b: "acquire_once ex_ledger (\<lambda>_. None) 0 ex_key ex_identity = Inr (Some (Inr res), l')"
    using e n by (simp add: acquire_once_def)
  moreover have "became_owner ex_ledger ex_key ex_identity res l'"
    using acquire_owner_ok[OF ex_inv n(2,1), of ex_identity] a by auto
  ultimately show ?thesis by (simp add: ex_owned_def)
qed

lemma ex_owned_facts:
  "lg_pending ex_owned ex_key = Some 0" "length (lg_leases ex_owned) = 1" "ls_key (lg_leases ex_owned ! 0) = ex_key"
  "ls_flight (lg_leases ex_owned ! 0) = 0" "\<not> ls_handedOff (lg_leases ex_owned ! 0)"
  "\<exists>sq r. lg_flights ex_owned = [new_flight ex_identity sq r]" "lg_byKey ex_owned = Map.empty" "lg_receipts ex_owned = []"
proof -
  have "lg_leases ex_ledger = []" "lg_flights ex_ledger = []" "lg_byKey ex_ledger = Map.empty" "lg_receipts ex_ledger = []"
    by (simp_all add: ex_ledger_def newRPCExecutionLedger_def Let_def)
  then show "lg_pending ex_owned ex_key = Some 0" "length (lg_leases ex_owned) = 1" "ls_key (lg_leases ex_owned ! 0) = ex_key"
    "ls_flight (lg_leases ex_owned ! 0) = 0" "\<not> ls_handedOff (lg_leases ex_owned ! 0)"
    "\<exists>sq r. lg_flights ex_owned = [new_flight ex_identity sq r]" "lg_byKey ex_owned = Map.empty" "lg_receipts ex_owned = []"
    using ex_owned_runs by (auto simp: became_owner_def)
qed

lemma ex_owned_trace: "lg_trace ex_ledger [OpAcquire (\<lambda>_. None) 0 ex_key ex_identity] ex_owned"
  using ex_owned_runs by (intro lg_trace_one) auto

theorem ledger_accounting_witness:
  "limit_snapshot (lg_flightLimit ex_owned) = 1 \<and> isl (lg_run (OpAbort 0) ex_owned) = False"
proof -
  have d: "card (dom (lg_pending ex_owned)) = 1"
    using ex_owned_runs by (auto simp: became_owner_def ex_ledger_def newRPCExecutionLedger_def Let_def)
  have "op_ok ex_owned (OpAbort 0)" using ex_owned_facts(2) by simp
  from ledger_accounting[OF ex_owned_trace[unfolded ex_ledger_def] this] d show ?thesis by simp
qed

text \<open>
  C7: A request key has at most one owner at a time. While a flight is pending, no other acquire of
  its key becomes owner, and the flight stays pending until its key is completed or its own lease,
  not handed off, is aborted.
\<close>

theorem one_owner_per_key:
  assumes "lg_trace (newRPCExecutionLedger hash c) ops l"
    and "lg_pending l k = Some f" and "op_ok l op" and "\<not> resolves op l k f"
  shows "(\<exists>l'. lg_run op l = Inr l' \<and> lg_pending l' k = Some f) \<and>
     (case acquire_once l replay now k ident of
        Inr (Some (Inr res), l') \<Rightarrow> aq_state res \<noteq> rpcResultAcquireOwner
      | Inr (Some (Inl e), l') \<Rightarrow> e = identityMismatch (fl_identity (lg_flights l ! f))
      | _ \<Rightarrow> False)"
proof -
  have inv: "lg_inv l" using lg_trace_inv[OF assms(1) lg_inv_new] .
  obtain l' where r: "lg_run op l = Inr l'" using lg_run_ok[OF inv assms(3)] by blast
  have "lg_pending l' k = Some f"
    using lg_run_frame[OF inv assms(3) r] assms(2,4) by (auto simp: frame_ok_def)
  moreover obtain le out l2 where le: "lg_inv le" "drops l le (\<lambda>rc. rc_expiresAt rc \<le> now)"
     "acquire_once l replay now k ident = Inr (out, l2)"
     and "case lg_byKey le k of
        Some a \<Rightarrow> l2 = le \<and> out = Some (acquire_receipt (lg_receipts le ! a) ident (replay k))
      | None \<Rightarrow> (case lg_pending le k of
          Some f \<Rightarrow> l2 = le \<and> out = Some (acquire_flight (lg_flights le ! f) f ident)
        | None \<Rightarrow> (case out of Some (Inr res) \<Rightarrow> became_owner le k ident res l2 | _ \<Rightarrow> same_tables le l2))"
    using acquire_once_ok[OF inv, of k now replay ident] by blast
  moreover have "lg_pending le k = Some f" "lg_flights le = lg_flights l"
    using le(2) assms(2) by (simp_all add: drops_def keeps_pending_def)
  moreover have "lg_byKey le k = None" using lg_invD(5)[OF le(1)] \<open>lg_pending le k = Some f\<close> by (auto simp: domIff)
  ultimately show ?thesis using r by (auto simp: acquire_flight_def zero_acquire_def split: if_splits)
qed

theorem one_owner_per_key_witness:
  "lg_pending ex_owned ex_key = Some 0 \<and>
   (\<exists>l'. lg_run (OpHandOff 0) ex_owned = Inr l' \<and> lg_pending l' ex_key = Some 0)"
  using one_owner_per_key[OF ex_owned_trace[unfolded ex_ledger_def], of ex_key 0 "OpHandOff 0"] ex_owned_facts(1,2)
  by (auto simp: resolves_def)

text \<open>
  C8: A completed request is not executed again while its receipt lives: once the pending flight of
  a key completed at time t0 without an earlier acknowledgement, then over any later run that
  neither acknowledges the key nor forgets its session, every acquire before t0 plus the receipt
  lifetime answers from the recorded receipt, which carries the identity and the outcome of the
  execution, and never makes a new owner.
\<close>

theorem no_rerun_before_expiry:
  assumes "lg_trace (newRPCExecutionLedger hash c) ops0 l"
    and "lg_pending l k = Some f" and "\<not> fl_acknowledged (lg_flights l ! f)"
    and "completeOnce l t0 k m rp = Inr (ok, effs, l1)"
    and "lg_trace l1 ops l2"
    and "\<forall>op \<in> set ops. \<not> op_frees op k \<and>
           (\<forall>t. op_clock op = Some t \<longrightarrow> t < t0 + rpcExecutionReceiptTTL)"
    and "now < t0 + rpcExecutionReceiptTTL"
  shows "\<exists>l3 rc. acquire_once l2 replay now k ident = Inr (Some (acquire_receipt rc ident (replay k)), l3) \<and>
     lg_pending l3 k = None \<and> rc_identity rc = fl_identity (lg_flights l ! f) \<and>
     rc_executionKnown rc = fl_executionDone (lg_flights l ! f) \<and>
     rc_executionOK rc = fl_executionOK (lg_flights l ! f) \<and> rc_unavailable rc = (\<not> rp) \<and>
     aq_state ` {res. acquire_receipt rc ident (replay k) = Inr res} \<subseteq> {rpcResultAcquireCompleted}"
proof -
  have inv: "lg_inv l" using lg_trace_inv[OF assms(1) lg_inv_new] .
  from completeOnce_ok[OF inv, of k t0 m rp] assms(4) obtain le where
    le: "drops l le (\<lambda>rc. rc_expiresAt rc \<le> t0)" "lg_inv l1" "completed le t0 k m rp ok effs l1" by auto
  have pe: "lg_pending le k = Some f" "lg_flights le = lg_flights l"
    using le(1) assms(2) by (simp_all add: drops_def keeps_pending_def)
  let ?a = "length (lg_receipts le)"
  obtain r where r: "lg_byKey l1 k = Some ?a" "lg_receipts l1 ! ?a = the_receipt le t0 k rp r"
    using le(3) pe assms(3) by (auto simp: completed_def)
  define rc where "rc = the_receipt le t0 k rp r"
  have rc: "rc_identity rc = fl_identity (lg_flights l ! f)" "rc_executionKnown rc = fl_executionDone (lg_flights l ! f)"
    "rc_executionOK rc = fl_executionOK (lg_flights l ! f)" "\<not> rc_acknowledged rc" "rc_unavailable rc = (\<not> rp)"
    "rc_expiresAt rc = t0 + rpcExecutionReceiptTTL"
    using pe assms(3) by (simp_all add: rc_def the_receipt_def rpcResultFlightMetadataLocked_def Let_def)
  have k2: "lg_byKey l2 k = Some ?a" "lg_receipts l2 ! ?a = rc"
    using receipt_survives[OF assms(5) le(2) r(1)] assms(6) r(2) rc(6) by (auto simp: rc_def)
  have inv2: "lg_inv l2" using lg_trace_inv[OF assms(5) le(2)] .
  obtain l4 out l3 where l4: "lg_inv l4" "drops l2 l4 (\<lambda>rc. rc_expiresAt rc \<le> now)"
     "acquire_once l2 replay now k ident = Inr (out, l3)"
     and cs: "case lg_byKey l4 k of
        Some a \<Rightarrow> l3 = l4 \<and> out = Some (acquire_receipt (lg_receipts l4 ! a) ident (replay k))
      | None \<Rightarrow> (case lg_pending l4 k of
          Some f \<Rightarrow> l3 = l4 \<and> out = Some (acquire_flight (lg_flights l4 ! f) f ident)
        | None \<Rightarrow> (case out of Some (Inr res) \<Rightarrow> became_owner l4 k ident res l3 | _ \<Rightarrow> same_tables l4 l3))"
    using acquire_once_ok[OF inv2, of k now replay ident] by blast
  have "lg_byKey l4 k = Some ?a \<and> lg_receipts l4 ! ?a = rc"
    using drops_keeps[OF l4(2), of "\<lambda>_. False"] k2 rc(6) assms(7) unfolding keeps_receipts_def
    by (metis option.case(2))
  with cs l4 have "acquire_once l2 replay now k ident = Inr (Some (acquire_receipt rc ident (replay k)), l4)"
    and "lg_pending l4 k = None"
    using lg_invD(5)[OF l4(1)] by (auto simp: domIff)
  moreover have "aq_state ` {res. acquire_receipt rc ident (replay k) = Inr res} \<subseteq> {rpcResultAcquireCompleted}"
    using rc(4) by (auto simp: acquire_receipt_def zero_acquire_def Let_def split: if_splits option.splits)
  ultimately show ?thesis using rc by blast
qed

lemma ex_complete:
  "\<exists>ok effs l1. completeOnce ex_owned 10 ex_key () True = Inr (ok, effs, l1)"
  using completeOnce_ok[OF lg_trace_inv[OF ex_owned_trace ex_inv], of ex_key 10 "()" True] by blast

lemma ex_owned_flight: "fl_acknowledged (lg_flights ex_owned ! 0) = False" "fl_identity (lg_flights ex_owned ! 0) = ex_identity"
  using ex_owned_facts(6) by (auto simp: new_flight_def)

theorem no_rerun_before_expiry_witness:
  "\<exists>(l1 :: (unit, unit, nat) ledger) l3 rc. acquire_once l1 (\<lambda>_. Some ()) 20 ex_key ex_identity =
     Inr (Some (acquire_receipt rc ex_identity (Some ())), l3) \<and> rc_identity rc = ex_identity"
proof -
  obtain ok effs l1 where c: "completeOnce ex_owned 10 ex_key () True = Inr (ok, effs, l1)"
    using ex_complete by blast
  from no_rerun_before_expiry[OF ex_owned_trace[unfolded ex_ledger_def] ex_owned_facts(1) _ c lg_trace.halt,
      of 20 "\<lambda>_. Some ()" ex_identity] ex_owned_flight
  show ?thesis by (simp add: rpcExecutionReceiptTTL_def) blast
qed

text \<open>
  An acknowledgement that overtakes the completion leaves nothing behind: when the client
  acknowledges a request whose flight is still pending and the flight then completes, its
  subscribers still get the result, but afterwards the key is neither pending nor terminal.
\<close>

theorem ack_before_complete:
  assumes "lg_trace (newRPCExecutionLedger hash c) ops l"
    and "lg_pending l k = Some f" and "rk_reqMsgID k \<noteq> 0"
    and "Acknowledge l now k = Inr (ok, l1)" and "completeOnce l1 now' k m rp = Inr (ok', effs, l2)"
  shows "lg_pending l2 k = None \<and> lg_byKey l2 k = None \<and> ok' \<and>
     Wait l2 f ctx = WaitResult (Some m) True"
proof -
  have inv: "lg_inv l" using lg_trace_inv[OF assms(1) lg_inv_new] .
  from Acknowledge_ok[OF inv, of now k] assms(2,3,4) have
    a: "lg_inv l1" "lg_pending l1 = lg_pending l" "lg_byKey l1 k = None" "fl_acknowledged (lg_flights l1 ! f)"
    by auto
  from completeOnce_ok[OF a(1), of k now' m rp] assms(5) obtain le where
    le: "drops l1 le (\<lambda>rc. rc_expiresAt rc \<le> now')" "lg_inv le" "completed le now' k m rp ok' effs l2" by auto
  have pe: "lg_pending le k = Some f" "lg_flights le = lg_flights l1"
    using le(1) a(2) assms(2) by (simp_all add: drops_def keeps_pending_def)
  have bk: "lg_byKey le k = None" using le(1) a(3) unfolding drops_def by metis
  have f: "f < length (lg_flights l1)" using pending_flight_facts(1)[OF le(2) pe(1)] pe(2) by simp
  show ?thesis using le(3) pe bk a(4) f
    by (auto simp: completed_def ends_flight_def Wait_def Let_def left_flight_def)
qed

theorem ack_before_complete_witness:
  "\<exists>ok l1 ok' effs l2. Acknowledge ex_owned 5 ex_key = Inr (ok, l1) \<and>
     completeOnce l1 6 ex_key () True = Inr (ok', effs, l2) \<and>
     lg_pending l2 ex_key = None \<and> lg_byKey l2 ex_key = None"
proof -
  obtain ok l1 where a: "Acknowledge ex_owned 5 ex_key = Inr (ok, l1)" "lg_inv l1"
    using Acknowledge_ok[OF lg_trace_inv[OF ex_owned_trace ex_inv], of 5 ex_key] by blast
  obtain ok' effs l2 where b: "completeOnce l1 6 ex_key () True = Inr (ok', effs, l2)"
    using completeOnce_ok[OF a(2), of ex_key 6 "()" True] by blast
  from ack_before_complete[OF ex_owned_trace[unfolded ex_ledger_def] ex_owned_facts(1) _ a(1) b] a b
  show ?thesis by (auto simp: ex_key_def)
qed

text \<open>
  Completion notifies everyone exactly once: the callbacks it fires are exactly the registered
  result subscribers with the result, then the registered execution subscribers with the handler's
  outcome (failure if none was reported), each in registration order; the flight keeps none of them,
  and whoever waits or subscribes afterwards, at any later time, is given the same result at once.
\<close>

theorem completion_notifies:
  assumes "lg_trace (newRPCExecutionLedger hash c) ops0 l" and "lg_pending l k = Some f"
    and "completeOnce l now k m rp = Inr (ok, effs, l1)" and "lg_trace l1 ops l2"
  shows "effs = map (\<lambda>x. ResultCallback x (Some m) True) (fl_subscribers (lg_flights l ! f)) @
            map (\<lambda>x. ExecutionCallback x (fl_executionDone (lg_flights l ! f) \<and> fl_executionOK (lg_flights l ! f)))
              (fl_executionSubscribers (lg_flights l ! f)) \<and>
     fl_subscribers (lg_flights l2 ! f) = [] \<and> fl_executionSubscribers (lg_flights l2 ! f) = [] \<and>
     Wait l2 f ctx = WaitResult (Some m) True \<and>
     Subscribe l2 k f (Some x) = Inr ([ResultCallback x (Some m) True], l2)"
proof -
  have inv: "lg_inv l" using lg_trace_inv[OF assms(1) lg_inv_new] .
  from completeOnce_ok[OF inv, of k now m rp] assms(3) obtain le where
    le: "drops l le (\<lambda>rc. rc_expiresAt rc \<le> now)" "lg_inv le" "lg_inv l1" "completed le now k m rp ok effs l1" by auto
  have pe: "lg_pending le k = Some f" "lg_flights le = lg_flights l"
    using le(1) assms(2) by (simp_all add: drops_def keeps_pending_def)
  have f: "f < length (lg_flights l)" using pending_flight_facts(1)[OF inv assms(2)] .
  have x1: "fl_done (lg_flights l1 ! f)" "fl_encoded (lg_flights l1 ! f) = Some m" "fl_ok (lg_flights l1 ! f)"
    "fl_subscribers (lg_flights l1 ! f) = []" "fl_executionSubscribers (lg_flights l1 ! f) = []"
    "length (lg_flights l1) = length (lg_flights l)"
    using le(4) pe f by (auto simp: completed_def ends_flight_def left_flight_def)
  have eq: "lg_flights l2 ! f = lg_flights l1 ! f"
    using trace_frame[OF assms(4) le(3)] f x1 by (simp add: closed_kept_def)
  have "lg_pending l2 k \<noteq> Some f"
    using pending_flight_facts(2)[OF lg_trace_inv[OF assms(4) le(3)]] x1(1) eq by metis
  then show ?thesis using x1 eq le(4) pe
    by (auto simp: completed_def result_effects_def execution_effects_def Wait_def Subscribe_def
        waiter_subscribe_def Let_def)
qed

theorem completion_notifies_witness:
  "\<exists>l1 :: (unit, unit, nat) ledger. Wait l1 0 True = WaitResult (Some ()) True \<and> Subscribe l1 ex_key 0 (Some 7) = Inr ([ResultCallback 7 (Some ()) True], l1)"
proof -
  obtain ok effs l1 where c: "completeOnce ex_owned 10 ex_key () True = Inr (ok, effs, l1)"
    using ex_complete by blast
  from completion_notifies[OF ex_owned_trace[unfolded ex_ledger_def] ex_owned_facts(1) c lg_trace.halt, of True 7]
  show ?thesis by blast
qed

text \<open>
  A stale lease is harmless: once the flight of a lease is over, whoever ended it, then in every
  later state, even when the same request key has been acquired again by a new owner, aborting,
  handing off or reporting execution through the old lease changes nothing and reports failure.
\<close>

theorem stale_lease_harmless:
  assumes "lg_trace (newRPCExecutionLedger hash c) ops0 l" and "p < length (lg_leases l)"
    and "fl_done (lg_flights l ! ls_flight (lg_leases l ! p))" and "lg_trace l ops l2"
  shows "Abort l2 p = Inr (False, [], l2) \<and> HandOff l2 p = (False, l2) \<and>
     CompleteExecution l2 p success = Inr (False, [], l2) \<and> InstallAbortHook l2 p fn = (False, l2)"
  using stale_lease_never_owns[OF assms(4) lg_trace_inv[OF assms(1) lg_inv_new] assms(2,3)]
  by (simp add: Abort_def HandOff_def CompleteExecution_def InstallAbortHook_def Let_def)

theorem stale_lease_harmless_witness:
  "\<exists>l1 effs. Abort ex_owned 0 = Inr (True, effs, l1) \<and> Abort l1 0 = Inr (False, [], l1)"
proof -
  have inv: "lg_inv ex_owned" using lg_trace_inv[OF ex_owned_trace ex_inv] .
  have p: "0 < length (lg_leases ex_owned)" using ex_owned_facts(2) by simp
  from Abort_ok[OF inv p] ex_owned_facts obtain effs l1 where
    a: "Abort ex_owned 0 = Inr (True, effs, l1)" "ends_flight ex_owned l1 ex_key 0 None"
      "length (lg_leases l1) = 1" "ls_flight (lg_leases l1 ! 0) = 0"
    by (auto simp: owns_def)
  have "lg_trace ex_owned [OpAbort 0] l1" using a(1) p by (intro lg_trace_one) simp_all
  from lg_trace_append[OF ex_owned_trace this] have t: "lg_trace ex_ledger
      ([OpAcquire (\<lambda>_. None) 0 ex_key ex_identity] @ [OpAbort 0]) l1" .
  have "fl_done (lg_flights l1 ! 0)"
    using a(2) pending_flight_facts(1)[OF inv ex_owned_facts(1)] by (simp add: ends_flight_def left_flight_def)
  then have "Abort l1 0 = Inr (False, [], l1)"
    using stale_lease_harmless[OF t[unfolded ex_ledger_def], of 0 "[]" l1] a(3,4) by simp
  with a(1) show ?thesis by blast
qed

end
