(* ===== verification/Secret_Properties.thy ===== *)
theory Secret_Properties
  imports Secret_Chat
begin

text \<open>
  Properties of the secret chats and their device queues.

  A history lists the states of the two stores, the latest first. Each store access is one step; a
  request that read a chat before it changes it may have read any earlier state of the history, so
  the steps cover every interleaving of concurrent requests. The invariants are proved by rule
  induction over histories; \<open>chats_le\<close> and \<open>queue_le\<close> relate an earlier state to a later one.
  The locale \<open>paged_log\<close> is what a polling device relies on, interpreted on the message queue.
\<close>

section \<open>Histories\<close>

type_synonym sc_world = "chats \<times> enc_queue"

inductive sc_hist :: "sc_world list \<Rightarrow> bool" where
  start: "sc_hist [(Map.empty, NewEncryptedQueueStore)]"
| request: "sc_hist ((s, q) # h) \<Longrightarrow> (s0, q0) \<in> set ((s, q) # h) \<Longrightarrow>
    GetSecretChat s0 (sint (rq_RandomID req)) = None \<Longrightarrow>
    RequestEncryption s0 s s req rnd1 rnd2 = Inr (c, s') \<Longrightarrow> sc_hist ((s', q) # (s, q) # h)"
| accept: "sc_hist ((s, q) # h) \<Longrightarrow> (s0, q0) \<in> set ((s, q) # h) \<Longrightarrow>
    AcceptEncryption s0 s i u k ah gb kf = Inr (c, s') \<Longrightarrow> sc_hist ((s', q) # (s, q) # h)"
| discard: "sc_hist ((s, q) # h) \<Longrightarrow> (s0, q0) \<in> set ((s, q) # h) \<Longrightarrow>
    DiscardEncryption s0 s i u k del = Inr (c, already, s') \<Longrightarrow> sc_hist ((s', q) # (s, q) # h)"
| revoke: "sc_hist ((s, q) # h) \<Longrightarrow> DiscardSecretChat s i False = Inr (c, already, s') \<Longrightarrow>
    sc_hist ((s', q) # (s, q) # h)"
| send: "sc_hist ((s, q) # h) \<Longrightarrow> (s0, q0) \<in> set ((s, q) # h) \<Longrightarrow>
    SendEncrypted s0 q i u k ah dl = Inr (c, m, q') \<Longrightarrow> sc_hist ((s, q') # (s, q) # h)"
| ack: "sc_hist ((s, q) # h) \<Longrightarrow> sc_hist ((s, AckQueue q d n) # (s, q) # h)"
| encryption_event: "sc_hist ((s, q) # h) \<Longrightarrow>
    sc_hist ((s, RecordEncryptionEvent q i u k date) # (s, q) # h)"
| read_event: "sc_hist ((s, q) # h) \<Longrightarrow> sc_hist ((s, RecordReadEvent q i u k mdate date) # (s, q) # h)"
| delivered: "sc_hist ((s, q) # h) \<Longrightarrow> sc_hist ((s, MarkStateEventsDelivered q d is) # (s, q) # h)"
| put_file: "sc_hist ((s, q) # h) \<Longrightarrow> sc_hist ((s, PutEncryptedFile q ref) # (s, q) # h)"

section \<open>The handshake\<close>

definition settled :: "secret_chat \<Rightarrow> bool" where
  "settled c \<longleftrightarrow> sc_State c = SecretChatStateNormal \<or> sc_State c = SecretChatStateDiscarded"

primrec state_rank :: "chat_state \<Rightarrow> nat" where
  "state_rank SecretChatStateEmpty = 0"
| "state_rank SecretChatStateRequested = 1"
| "state_rank SecretChatStateNormal = 2"
| "state_rank SecretChatStateDiscarded = 3"

definition same_parties :: "secret_chat \<Rightarrow> secret_chat \<Rightarrow> bool" where
  "same_parties c c' \<longleftrightarrow>
     c' = c\<lparr>sc_State := sc_State c', sc_ParticipantAuthKeyID := sc_ParticipantAuthKeyID c', sc_GB := sc_GB c',
            sc_KeyFingerprint := sc_KeyFingerprint c', sc_HistoryDeleted := sc_HistoryDeleted c'\<rparr>"

definition chat_le :: "secret_chat \<Rightarrow> secret_chat \<Rightarrow> bool" where
  "chat_le c c' \<longleftrightarrow> same_parties c c' \<and> state_rank (sc_State c) \<le> state_rank (sc_State c') \<and>
     (settled c \<longrightarrow> sc_ParticipantAuthKeyID c' = sc_ParticipantAuthKeyID c \<and> sc_GB c' = sc_GB c \<and>
        sc_KeyFingerprint c' = sc_KeyFingerprint c) \<and>
     (Terminal c \<longrightarrow> c' = c)"

definition chats_le :: "chats \<Rightarrow> chats \<Rightarrow> bool" where
  "chats_le s s' \<longleftrightarrow> (\<forall>i c. s i = Some c \<longrightarrow> (\<exists>c'. s' i = Some c' \<and> chat_le c c'))"

definition chat_wf :: "int \<Rightarrow> secret_chat \<Rightarrow> bool" where
  "chat_wf i c \<longleftrightarrow> sc_ID c = i \<and> i = sint (sc_RandomID c) \<and> i \<noteq> 0 \<and> sc_State c \<noteq> SecretChatStateEmpty \<and>
     sc_AdminUserID c \<noteq> 0 \<and> sc_ParticipantUserID c \<noteq> 0 \<and> sc_AdminAuthKeyID c \<noteq> 0 \<and>
     (sc_State c = SecretChatStateRequested \<longrightarrow> sc_ParticipantAuthKeyID c = 0)"

definition chats_wf :: "chats \<Rightarrow> bool" where
  "chats_wf s \<longleftrightarrow> (\<forall>i c. s i = Some c \<longrightarrow> chat_wf i c)"

lemma same_parties_refl: "same_parties c c"
  by (simp add: same_parties_def)

lemma same_parties_eqs:
  assumes "same_parties c c'"
  shows "sc_ID c' = sc_ID c" "sc_AdminUserID c' = sc_AdminUserID c"
    "sc_ParticipantUserID c' = sc_ParticipantUserID c" "sc_AdminAuthKeyID c' = sc_AdminAuthKeyID c"
    "sc_AdminAccessHash c' = sc_AdminAccessHash c" "sc_RandomID c' = sc_RandomID c"
    "sc_ParticipantAccessHash c' = sc_ParticipantAccessHash c" "sc_GA c' = sc_GA c"
  by (subst assms[unfolded same_parties_def], simp)+

lemma same_parties_trans: "same_parties a b \<Longrightarrow> same_parties b c \<Longrightarrow> same_parties a c"
  by (cases a; cases b; cases c) (simp add: same_parties_def)

lemma settled_rank: "settled c \<longleftrightarrow> state_rank (sc_State c) \<ge> 2"
  by (cases "sc_State c") (auto simp: settled_def)

lemma chat_le_refl: "chat_le c c"
  by (simp add: chat_le_def same_parties_refl)

lemma chat_le_trans: "chat_le a b \<Longrightarrow> chat_le b c \<Longrightarrow> chat_le a c"
  by (auto simp: chat_le_def settled_rank intro: same_parties_trans)

lemma chats_le_refl: "chats_le s s"
  by (simp add: chats_le_def chat_le_refl)

lemma chats_le_trans: "chats_le a b \<Longrightarrow> chats_le b c \<Longrightarrow> chats_le a c"
  unfolding chats_le_def by (meson chat_le_trans)

lemma chats_leD: "chats_le s s' \<Longrightarrow> s i = Some c \<Longrightarrow> \<exists>c'. s' i = Some c' \<and> chat_le c c'"
  by (simp add: chats_le_def)

lemma chats_wfD: "chats_wf s \<Longrightarrow> s i = Some c \<Longrightarrow> chat_wf i c"
  by (simp add: chats_wf_def)

lemma chats_le_upd: "s i = Some c \<Longrightarrow> chat_le c c' \<Longrightarrow> chats_le s (s(i \<mapsto> c'))"
  by (simp add: chats_le_def chat_le_refl)

lemma chats_le_new: "s i = None \<Longrightarrow> chats_le s (s(i \<mapsto> c))"
  by (simp add: chats_le_def chat_le_refl)

lemma chats_wf_upd: "chats_wf s \<Longrightarrow> chat_wf i c \<Longrightarrow> chats_wf (s(i \<mapsto> c))"
  by (simp add: chats_wf_def)

lemma Create_ok:
  assumes "CreateSecretChat s c = Inr s'" "chats_wf s" "chat_wf (sc_ID c) c"
  shows "chats_wf s' \<and> chats_le s s'"
  using assms by (auto simp: CreateSecretChat_def chat_wf_def chats_wf_upd chats_le_new split: if_splits)

lemma Request_effect:
  assumes "RequestEncryption s0 s s req rnd1 rnd2 = Inr (c, s')" "GetSecretChat s0 (sint (rq_RandomID req)) = None"
  shows "s' = s \<or> (\<exists>ah ph ga. validateDHParam (rq_GA req) = Inr ga \<and>
     CreateSecretChat s (requested_chat req ah ph ga) = Inr s' \<and> c = requested_chat req ah ph ga \<and>
     rq_AdminUserID req \<noteq> 0 \<and> rq_ParticipantUserID req \<noteq> 0 \<and> rq_AdminAuthKeyID req \<noteq> 0 \<and> rq_RandomID req \<noteq> 0)"
  using assms by (auto simp: RequestEncryption_def Let_def split: if_splits sum.splits option.splits)

lemma requested_wf:
  assumes "rq_AdminUserID req \<noteq> 0" "rq_ParticipantUserID req \<noteq> 0" "rq_AdminAuthKeyID req \<noteq> 0" "rq_RandomID req \<noteq> 0"
  shows "chat_wf (sc_ID (requested_chat req ah ph ga)) (requested_chat req ah ph ga)"
  using assms signed_word_eqI[of "rq_RandomID req" 0] by (auto simp: chat_wf_def requested_chat_def)

lemma Request_ok:
  assumes "RequestEncryption s0 s s req rnd1 rnd2 = Inr (c, s')" "GetSecretChat s0 (sint (rq_RandomID req)) = None"
    "chats_wf s"
  shows "chats_wf s' \<and> chats_le s s'"
  using Request_effect[OF assms(1,2)] assms(3) Create_ok requested_wf chats_le_refl by blast

lemma AcceptSecretChat_ok:
  assumes "AcceptSecretChat s i k gb kf = Inr (c, s')" "chats_wf s"
  shows "chats_wf s' \<and> chats_le s s' \<and> s' i = Some c \<and> sc_State c = SecretChatStateNormal \<and>
    sc_ParticipantAuthKeyID c = k \<and> sc_GB c = gb \<and> sc_KeyFingerprint c = kf \<and>
    (\<exists>c0. s i = Some c0 \<and> sc_State c0 = SecretChatStateRequested)"
proof -
  obtain c0 where c0: "s i = Some c0" "\<not> settled c0" "c = c0\<lparr>sc_State := SecretChatStateNormal,
      sc_ParticipantAuthKeyID := k, sc_GB := gb, sc_KeyFingerprint := kf\<rparr>" "s' = s(i \<mapsto> c)"
    using assms(1) by (auto simp: AcceptSecretChat_def Let_def settled_def split: option.splits if_splits)
  have wf: "chat_wf i c0"
    using assms(2) c0(1) by (rule chats_wfD)
  have req: "sc_State c0 = SecretChatStateRequested"
    using wf c0(2) by (cases "sc_State c0") (auto simp: chat_wf_def settled_def)
  have "chat_le c0 c"
    using c0(2) req by (simp add: chat_le_def c0(3) same_parties_def Terminal_def)
  moreover have "chat_wf i c"
    using wf by (simp add: chat_wf_def c0(3))
  ultimately show ?thesis
    using c0 req assms(2) by (auto intro: chats_wf_upd chats_le_upd)
qed

lemma Accept_cases:
  assumes "AcceptEncryption s0 s i u k ah gb kf = Inr (c, s')"
  shows "\<exists>g c0. validateDHParam gb = Inr g \<and> s0 i = Some c0 \<and> sc_ParticipantUserID c0 = u \<and>
     sc_ParticipantAccessHash c0 = ah \<and> \<not> settled c0 \<and> AcceptSecretChat s i k g kf = Inr (c, s')"
  using assms by (auto simp: AcceptEncryption_def GetSecretChat_def settled_def split: sum.splits option.splits if_splits)

lemma Discard_ok:
  assumes "DiscardSecretChat s i del = Inr (c, already, s')" "chats_wf s"
  shows "chats_wf s' \<and> chats_le s s' \<and> s' i = Some c \<and> Terminal c \<and> (\<forall>j. j \<noteq> i \<longrightarrow> s' j = s j)"
proof -
  obtain c0 where c0: "s i = Some c0"
    using assms(1) by (auto simp: DiscardSecretChat_def split: option.splits)
  have wf: "chat_wf i c0"
    using assms(2) c0 by (rule chats_wfD)
  let ?d = "c0\<lparr>sc_State := SecretChatStateDiscarded, sc_HistoryDeleted := del\<rparr>"
  have "state_rank (sc_State c0) \<le> 3"
    by (cases "sc_State c0") simp_all
  then have "\<not> Terminal c0 \<Longrightarrow> chat_le c0 ?d"
    by (simp add: chat_le_def same_parties_def)
  moreover have "chat_wf i ?d"
    using wf by (simp add: chat_wf_def)
  ultimately show ?thesis
    using assms c0 by (auto simp: DiscardSecretChat_def Let_def Terminal_def chats_le_refl
        intro: chats_wf_upd chats_le_upd split: if_splits)
qed

lemma DiscardEncryption_cases:
  assumes "DiscardEncryption s0 s i u k del = Inr r"
  shows "DiscardSecretChat s i del = Inr r"
  using assms by (auto simp: DiscardEncryption_def Let_def split: option.splits if_splits)

section \<open>The queues\<close>

definition queue_ok :: "enc_queue \<Rightarrow> bool" where
  "queue_ok q \<longleftrightarrow> (\<forall>d. 0 \<le> ReservedQts q d \<and> map sm_Qts (eq_byDevice q d) = [1..ReservedQts q d] \<and>
     (\<forall>m \<in> set (eq_byDevice q d). sm_ReceiverAuthKeyID m = d \<and>
        eq_dedup q (d, sm_ChatID m, sm_RandomID m) = Some (sm_Qts m)) \<and>
     (\<forall>i r n. eq_dedup q (d, i, r) = Some n \<longrightarrow>
        (\<exists>m \<in> set (eq_byDevice q d). sm_ChatID m = i \<and> sm_RandomID m = r \<and> sm_Qts m = n)))"

definition queue_le :: "enc_queue \<Rightarrow> enc_queue \<Rightarrow> bool" where
  "queue_le q q' \<longleftrightarrow> (\<forall>d. set (eq_byDevice q d) \<subseteq> set (eq_byDevice q' d)) \<and>
     (\<forall>d. mget 0 (eq_confirmed q) d \<le> mget 0 (eq_confirmed q') d)"

interpretation qts_ack: watermark "\<lambda>q. mget 0 (eq_confirmed q)" AckEncryptedMessages max "(\<le>)"
  by unfold_locales (auto simp: AckEncryptedMessages_def mget_def)

lemma find_unique: "distinct (map f xs) \<Longrightarrow> m \<in> set xs \<Longrightarrow> find (\<lambda>x. f x = f m) xs = Some m"
  by (induction xs) (auto simp: rev_image_eqI)

lemma queue_okD:
  assumes "queue_ok q"
  shows "0 \<le> ReservedQts q d" "map sm_Qts (eq_byDevice q d) = [1..ReservedQts q d]"
    "m \<in> set (eq_byDevice q d) \<Longrightarrow> sm_ReceiverAuthKeyID m = d"
    "m \<in> set (eq_byDevice q d) \<Longrightarrow> eq_dedup q (d, sm_ChatID m, sm_RandomID m) = Some (sm_Qts m)"
    "eq_dedup q (d, i, r) = Some n \<Longrightarrow>
       \<exists>m \<in> set (eq_byDevice q d). sm_ChatID m = i \<and> sm_RandomID m = r \<and> sm_Qts m = n"
  using assms by (auto simp: queue_ok_def)

lemma queue_qts_distinct: "queue_ok q \<Longrightarrow> distinct (map sm_Qts (eq_byDevice q d))"
  by (simp add: queue_okD(2))

lemma queue_find: "queue_ok q \<Longrightarrow> m \<in> set (eq_byDevice q d) \<Longrightarrow>
  find (\<lambda>x. sm_Qts x = sm_Qts m) (eq_byDevice q d) = Some m"
  by (rule find_unique[OF queue_qts_distinct])

definition append_fresh :: "enc_queue \<Rightarrow> secret_message \<Rightarrow> enc_queue" where
  "append_fresh q msg = (let d = sm_ReceiverAuthKeyID msg; qts = ReservedQts q d + 1 in
     q\<lparr>eq_reserved := (eq_reserved q)(d \<mapsto> qts),
       eq_byDevice := (eq_byDevice q)(d := eq_byDevice q d @ [msg\<lparr>sm_Qts := qts\<rparr>]),
       eq_dedup := (eq_dedup q)((d, sm_ChatID msg, sm_RandomID msg) \<mapsto> qts)\<rparr>)"

lemma Append_fresh:
  assumes "queue_ok q" "eq_dedup q (sm_ReceiverAuthKeyID msg, sm_ChatID msg, sm_RandomID msg) = None"
  shows "AppendEncryptedMessage q msg =
    (msg\<lparr>sm_Qts := ReservedQts q (sm_ReceiverAuthKeyID msg) + 1\<rparr>, False, append_fresh q msg)"
  using assms(2) by (simp add: AppendEncryptedMessage_def append_fresh_def Let_def ReservedQts_def)

lemma Append_known:
  assumes "queue_ok q" "m \<in> set (eq_byDevice q (sm_ReceiverAuthKeyID msg))"
    "sm_ChatID m = sm_ChatID msg" "sm_RandomID m = sm_RandomID msg"
  shows "AppendEncryptedMessage q msg = (m, True, q)"
  using queue_okD(4)[OF assms(1,2)] queue_find[OF assms(1,2)] assms(3,4)
  by (simp add: AppendEncryptedMessage_def Let_def)

lemma append_fresh_ok:
  assumes "queue_ok q" "eq_dedup q (sm_ReceiverAuthKeyID msg, sm_ChatID msg, sm_RandomID msg) = None"
  shows "queue_ok (append_fresh q msg)"
proof -
  let ?d = "sm_ReceiverAuthKeyID msg"
  have up: "[1..ReservedQts q ?d + 1] = [1..ReservedQts q ?d] @ [ReservedQts q ?d + 1]"
    using queue_okD(1)[OF assms(1), of ?d] by (simp add: upto_rec2)
  have res: "ReservedQts (append_fresh q msg) d = (if d = ?d then ReservedQts q d + 1 else ReservedQts q d)" for d
    by (simp add: append_fresh_def ReservedQts_def Let_def mget_def)
  have old: "m \<in> set (eq_byDevice q ?d) \<Longrightarrow> \<not> (sm_ChatID m = sm_ChatID msg \<and> sm_RandomID m = sm_RandomID msg)" for m
    using queue_okD(4)[OF assms(1), of m ?d] assms(2) by auto
  show ?thesis
    unfolding queue_ok_def res
    using queue_okD[OF assms(1)] up old
    by (auto simp: append_fresh_def Let_def)
qed

lemma Append_ok:
  assumes "AppendEncryptedMessage q msg = (m, dup, q')" "queue_ok q"
  shows "queue_ok q' \<and> queue_le q q' \<and> m \<in> set (eq_byDevice q' (sm_ReceiverAuthKeyID msg)) \<and>
    sm_ChatID m = sm_ChatID msg \<and> sm_RandomID m = sm_RandomID msg \<and>
    (q' = q \<or> q' = append_fresh q msg)"
proof (cases "eq_dedup q (sm_ReceiverAuthKeyID msg, sm_ChatID msg, sm_RandomID msg)")
  case None
  then have "m = msg\<lparr>sm_Qts := ReservedQts q (sm_ReceiverAuthKeyID msg) + 1\<rparr>" "q' = append_fresh q msg"
    using assms Append_fresh by auto
  then show ?thesis
    using append_fresh_ok[OF assms(2) None] by (auto simp: queue_le_def append_fresh_def Let_def)
next
  case (Some n)
  then obtain m0 where "m0 \<in> set (eq_byDevice q (sm_ReceiverAuthKeyID msg))" "sm_ChatID m0 = sm_ChatID msg"
    "sm_RandomID m0 = sm_RandomID msg"
    using queue_okD(5)[OF assms(2)] by blast
  then show ?thesis
    using assms Append_known by (auto simp: queue_le_def)
qed

section \<open>Invariants of a history\<close>

definition bound_to :: "secret_chat \<Rightarrow> secret_message \<Rightarrow> bool" where
  "bound_to c m \<longleftrightarrow> settled c \<and> sm_ReceiverAuthKeyID m \<noteq> 0 \<and>
     ((sm_ReceiverAuthKeyID m = sc_AdminAuthKeyID c \<and> sm_ReceiverUserID m = sc_AdminUserID c) \<or>
      (sm_ReceiverAuthKeyID m = sc_ParticipantAuthKeyID c \<and> sm_ReceiverUserID m = sc_ParticipantUserID c))"

definition queue_bound :: "chats \<Rightarrow> enc_queue \<Rightarrow> bool" where
  "queue_bound s q \<longleftrightarrow> (\<forall>d. \<forall>m \<in> set (eq_byDevice q d). \<exists>c. s (sm_ChatID m) = Some c \<and> bound_to c m)"

definition world_inv :: "sc_world \<Rightarrow> bool" where
  "world_inv w \<longleftrightarrow> chats_wf (fst w) \<and> queue_ok (snd w) \<and> queue_bound (fst w) (snd w)"

definition world_le :: "sc_world \<Rightarrow> sc_world \<Rightarrow> bool" where
  "world_le w w' \<longleftrightarrow> chats_le (fst w) (fst w') \<and> queue_le (snd w) (snd w')"

lemma queue_le_refl: "queue_le q q"
  by (simp add: queue_le_def)

lemma queue_le_trans: "queue_le a b \<Longrightarrow> queue_le b c \<Longrightarrow> queue_le a c"
  unfolding queue_le_def by (meson order_trans)

lemma world_le_refl: "world_le w w"
  by (simp add: world_le_def chats_le_refl queue_le_refl)

lemma world_le_trans: "world_le a b \<Longrightarrow> world_le b c \<Longrightarrow> world_le a c"
  using chats_le_trans queue_le_trans by (auto simp: world_le_def)

lemma bound_to_le: "bound_to c m \<Longrightarrow> chat_le c c' \<Longrightarrow> bound_to c' m"
  using same_parties_eqs[of c c'] by (auto simp: bound_to_def chat_le_def settled_rank)

lemma queue_bound_le: "queue_bound s q \<Longrightarrow> chats_le s s' \<Longrightarrow> queue_bound s' q"
  unfolding queue_bound_def chats_le_def by (meson bound_to_le)

definition sent_message :: "secret_chat \<Rightarrow> int \<Rightarrow> int \<Rightarrow> delivery \<Rightarrow> secret_message" where
  "sent_message c i u dl =
     \<lparr>sm_ReceiverAuthKeyID = (if IsAdmin c u then sc_ParticipantAuthKeyID c else sc_AdminAuthKeyID c), sm_Qts = 0,
      sm_ReceiverUserID = PeerOf c u, sm_ChatID = i, sm_RandomID = dl_RandomID dl, sm_Date = dl_Date dl,
      sm_IsService = dl_IsService dl, sm_Bytes = dl_Bytes dl, sm_File = dl_File dl\<rparr>"

lemma Send_cases:
  assumes "SendEncrypted s0 q i u k ah dl = Inr (c, m, q')"
  shows "s0 i = Some c \<and> sc_State c = SecretChatStateNormal \<and> HasParticipant c u \<and> AuthKeyOf c u = k \<and> k \<noteq> 0 \<and>
    AccessHashFor c u = ah \<and> sm_ReceiverAuthKeyID (sent_message c i u dl) \<noteq> 0 \<and>
    (\<exists>dup. AppendEncryptedMessage q (sent_message c i u dl) = (m, dup, q'))"
  using assms
  by (auto simp: SendEncrypted_def GetSecretChat_def sent_message_def Let_def
      split: option.splits if_splits prod.splits)

lemma sent_bound:
  assumes "HasParticipant c u" "sc_State c = SecretChatStateNormal" "sm_ReceiverAuthKeyID (sent_message c i u dl) \<noteq> 0"
  shows "bound_to c (sent_message c i u dl)"
  using assms by (auto simp: bound_to_def sent_message_def HasParticipant_def IsAdmin_def PeerOf_def settled_def)

lemma Send_inv:
  assumes "SendEncrypted s0 q i u k ah dl = Inr (c, m, q')" "chats_le s0 s" "world_inv (s, q)"
  shows "world_inv (s, q') \<and> queue_le q q'"
proof -
  let ?m = "sent_message c i u dl"
  note sc = Send_cases[OF assms(1)]
  obtain dup where app: "AppendEncryptedMessage q ?m = (m, dup, q')"
    using sc by blast
  note ok = Append_ok[OF app]
  obtain c' where c': "s i = Some c'" "bound_to c' ?m"
    using sc assms(2) chats_leD sent_bound bound_to_le by meson
  have "queue_bound s (append_fresh q ?m)"
    using assms(3) c' by (auto simp: world_inv_def queue_bound_def append_fresh_def Let_def bound_to_def)
      (simp_all add: sent_message_def)
  then show ?thesis
    using ok assms(3) by (auto simp: world_inv_def)
qed

lemma queue_frame:
  assumes "eq_byDevice q' = eq_byDevice q" "eq_reserved q' = eq_reserved q" "eq_dedup q' = eq_dedup q"
    "\<And>d. mget 0 (eq_confirmed q) d \<le> mget 0 (eq_confirmed q') d" "world_inv (s, q)"
  shows "world_inv (s, q') \<and> queue_le q q'"
  using assms by (simp add: world_inv_def queue_ok_def queue_bound_def queue_le_def ReservedQts_def)

lemma Ack_inv: "world_inv (s, q) \<Longrightarrow> world_inv (s, AckQueue q d n) \<and> queue_le q (AckQueue q d n)"
  by (rule queue_frame)
    (simp_all add: AckQueue_def qts_ack.never_back, simp_all add: AckEncryptedMessages_def)

lemma Event_inv:
  "world_inv (s, q) \<Longrightarrow> world_inv (s, RecordEncryptionEvent q i u k date) \<and> queue_le q (RecordEncryptionEvent q i u k date)"
  "world_inv (s, q) \<Longrightarrow> world_inv (s, RecordReadEvent q i u k md date) \<and> queue_le q (RecordReadEvent q i u k md date)"
  "world_inv (s, q) \<Longrightarrow> world_inv (s, MarkStateEventsDelivered q d is) \<and> queue_le q (MarkStateEventsDelivered q d is)"
  "world_inv (s, q) \<Longrightarrow> world_inv (s, PutEncryptedFile q ref) \<and> queue_le q (PutEncryptedFile q ref)"
  by (rule queue_frame; simp add: RecordEncryptionEvent_def RecordReadEvent_def AppendStateEvent_def Let_def
      MarkStateEventsDelivered_def queue_MarkDelivered_def PutEncryptedFile_def queue_PutFile_def)+

lemma chats_step:
  assumes "chats_wf s' \<and> chats_le s s'" "world_inv (s, q)"
  shows "world_inv (s', q) \<and> world_le (s, q) (s', q)"
  using assms queue_bound_le by (auto simp: world_inv_def world_le_def queue_le_refl)

definition hist_inv :: "sc_world list \<Rightarrow> bool" where
  "hist_inv h \<longleftrightarrow> h \<noteq> [] \<and> world_inv (hd h) \<and> (\<forall>w0 \<in> set h. world_le w0 (hd h))"

lemma hist_inv_push: "hist_inv (w # h) \<Longrightarrow> world_inv w' \<Longrightarrow> world_le w w' \<Longrightarrow> hist_inv (w' # w # h)"
  unfolding hist_inv_def by (auto intro: world_le_refl world_le_trans)

lemma hist_inv_queue: "hist_inv ((s, q) # h) \<Longrightarrow> world_inv (s, q') \<and> queue_le q q' \<Longrightarrow> hist_inv ((s, q') # (s, q) # h)"
  by (rule hist_inv_push) (auto simp: world_le_def chats_le_refl)

lemma hist_invD:
  assumes "hist_inv ((s, q) # h)"
  shows "chats_wf s" "world_inv (s, q)" "(s0, q0) \<in> set ((s, q) # h) \<Longrightarrow> chats_le s0 s"
    "(s0, q0) \<in> set ((s, q) # h) \<Longrightarrow> queue_le q0 q"
  using assms by (auto simp: hist_inv_def world_inv_def world_le_def chats_le_refl queue_le_refl)

lemma hist_inv_chats: "hist_inv ((s, q) # h) \<Longrightarrow> chats_wf s' \<and> chats_le s s' \<Longrightarrow> hist_inv ((s', q) # (s, q) # h)"
  using hist_inv_push chats_step hist_invD(2) by blast

lemma hist_start: "hist_inv [(Map.empty, NewEncryptedQueueStore)]"
  by (simp add: hist_inv_def world_inv_def chats_wf_def queue_ok_def queue_bound_def world_le_refl
      NewEncryptedQueueStore_def ReservedQts_def mget_def)

theorem hist_invariant: "sc_hist h \<Longrightarrow> hist_inv h"
proof (induction rule: sc_hist.induct)
  case start
  show ?case by (rule hist_start)
next
  case request
  then show ?case using hist_inv_chats hist_invD(1) Request_ok by meson
next
  case accept
  then show ?case using hist_inv_chats hist_invD(1) AcceptSecretChat_ok Accept_cases by meson
next
  case discard
  then show ?case using hist_inv_chats hist_invD(1) Discard_ok DiscardEncryption_cases by meson
next
  case revoke
  then show ?case using hist_inv_chats hist_invD(1) Discard_ok by meson
next
  case send
  then show ?case using hist_inv_queue hist_invD(2,3) Send_inv by meson
next
  case ack
  then show ?case using hist_inv_queue hist_invD(2) Ack_inv by meson
qed (use hist_inv_queue hist_invD(2) Event_inv in meson)+

section \<open>What histories guarantee\<close>

text \<open>
  A secret chat only moves forward. Whatever requests ran in between, a chat seen earlier is
  still there with the same parties, access hashes, first device and g_a; its state has not moved
  back; from acceptance on, the second device, g_b and the key fingerprint never change; and a
  discarded chat never changes again.
\<close>

theorem handshake_monotone:
  assumes "sc_hist ((s', q') # h)" "(s, q) \<in> set h" "s i = Some c"
  shows "\<exists>c'. s' i = Some c' \<and> same_parties c c' \<and> state_rank (sc_State c) \<le> state_rank (sc_State c') \<and>
    (settled c \<longrightarrow> sc_ParticipantAuthKeyID c' = sc_ParticipantAuthKeyID c \<and> sc_GB c' = sc_GB c \<and>
       sc_KeyFingerprint c' = sc_KeyFingerprint c) \<and>
    (Terminal c \<longrightarrow> c' = c)"
  using hist_invD(3)[OF hist_invariant[OF assms(1)], of s q] assms(2,3) chats_leD[of s s' i c]
  by (auto simp: chat_le_def)

lemma accept_settled: "s i = Some c \<Longrightarrow> settled c \<Longrightarrow> \<exists>e. AcceptSecretChat s i k gb kf = Inl e"
  by (auto simp: AcceptSecretChat_def settled_def)

lemma AcceptEncryption_settled:
  assumes "s i = Some c" "settled c"
  shows "\<exists>e. AcceptEncryption s0 s i u k ah gb kf = Inl e"
  using accept_settled[of s i c] assms by (auto simp: AcceptEncryption_def split: sum.splits option.splits)

text \<open>
  C9: A secret chat is accepted at most once, by one device. Once an accept has succeeded, every
  later accept of that chat fails, from any device and with any earlier reading of the chat, and the
  chat keeps the accepting user and device, the validated g_b and the fingerprint of that accept.
\<close>

theorem accept_once:
  assumes "sc_hist ((s, q) # h0)" "(s0, q0) \<in> set ((s, q) # h0)"
    and acc: "AcceptEncryption s0 s i u k ah gb kf = Inr (c, s1)"
    and later: "sc_hist ((s', q') # h)" "(s1, q1) \<in> set ((s', q') # h)"
  shows "(\<exists>c' g. s' i = Some c' \<and> validateDHParam gb = Inr g \<and> sc_GB c' = g \<and> sc_KeyFingerprint c' = kf \<and>
      sc_ParticipantUserID c' = u \<and> sc_ParticipantAuthKeyID c' = k) \<and>
    (\<forall>r u' k' ah' gb' kf'. \<exists>e. AcceptEncryption r s' i u' k' ah' gb' kf' = Inl e)"
proof -
  note inv = hist_invD[OF hist_invariant[OF assms(1)]] and inv' = hist_invD[OF hist_invariant[OF later(1)]]
  obtain g c0 where g: "validateDHParam gb = Inr g" "s0 i = Some c0" "sc_ParticipantUserID c0 = u"
    "AcceptSecretChat s i k g kf = Inr (c, s1)"
    using Accept_cases[OF acc] by blast
  note ok = AcceptSecretChat_ok[OF g(4) inv(1)]
  have le0: "chats_le s0 s1"
    using inv(3)[OF assms(2)] ok chats_le_trans by blast
  obtain c' where c': "s' i = Some c'" "chat_le c c'"
    using ok chats_leD[OF inv'(3)[OF later(2)], of i c] by auto
  have u: "sc_ParticipantUserID c' = u"
    using chats_leD[of s0 s1 i c0] le0 g(2) ok g(3) c'(2) same_parties_eqs(3)[of c0 c] same_parties_eqs(3)[of c c']
    by (auto simp: chat_le_def)
  have "settled c"
    using ok by (simp add: settled_def)
  then have "settled c'" "sc_GB c' = g \<and> sc_KeyFingerprint c' = kf \<and> sc_ParticipantAuthKeyID c' = k"
    using c'(2) ok by (auto simp: chat_le_def settled_rank)
  then show ?thesis
    using c'(1) u g(1) AcceptEncryption_settled[of s' i c'] by auto
qed

text \<open>
  Each device queue numbers its messages 1, 2, 3, ... up to the reserved qts without gap or
  repetition, stores no message of a chat twice under one random id, and holds only messages
  addressed to that device as one of the two devices bound to the message's chat, a chat that has
  been accepted.
\<close>

theorem secret_queue_sound:
  assumes "sc_hist ((s, q) # h)"
  shows "map sm_Qts (eq_byDevice q d) = [1..ReservedQts q d] \<and>
    distinct (map (\<lambda>m. (sm_ChatID m, sm_RandomID m)) (eq_byDevice q d)) \<and>
    (\<forall>m \<in> set (eq_byDevice q d). sm_ReceiverAuthKeyID m = d \<and> (\<exists>c. s (sm_ChatID m) = Some c \<and> bound_to c m))"
proof -
  have inv: "queue_ok q" "queue_bound s q"
    using hist_invD(2)[OF hist_invariant[OF assms]] by (simp_all add: world_inv_def)
  have "inj_on (\<lambda>m. (sm_ChatID m, sm_RandomID m)) (set (eq_byDevice q d))"
    using queue_okD(4)[OF inv(1), of _ d] queue_find[OF inv(1), of _ d]
    by (intro inj_onI) (metis option.inject prod.inject)
  then have "distinct (map (\<lambda>m. (sm_ChatID m, sm_RandomID m)) (eq_byDevice q d))"
    using queue_qts_distinct[OF inv(1), of d] by (simp add: distinct_map)
  then show ?thesis
    using queue_okD(2,3)[OF inv(1)] inv(2) by (auto simp: queue_bound_def)
qed

lemma receiver_fixed:
  assumes "chat_le a c" "chat_le b c" "settled a" "settled b"
  shows "sm_ReceiverAuthKeyID (sent_message a i u dl) = sm_ReceiverAuthKeyID (sent_message b i u dl')"
  using assms same_parties_eqs[of a c] same_parties_eqs[of b c]
  by (simp add: sent_message_def chat_le_def IsAdmin_def)

text \<open>
  Resending is idempotent. After a message was sent, a later send by the same user to the same
  chat under the same random id, with whatever content, returns the message stored first, with its
  qts and date, and leaves every queue unchanged.
\<close>

theorem resend_idempotent:
  assumes "sc_hist ((s, q) # h0)" and snd1: "SendEncrypted s0 q i u k ah dl = Inr (c, m, q1)"
    and later: "sc_hist ((s', q') # h)" "(s1, q1) \<in> set ((s', q') # h)" "(s0, q0) \<in> set ((s', q') # h)"
    and again: "(r, qr) \<in> set ((s', q') # h)" "SendEncrypted r q' i u k' ah' dl' = Inr (c', m', q'')"
    and same: "dl_RandomID dl' = dl_RandomID dl"
  shows "m' = m \<and> q'' = q'"
proof -
  have ok: "queue_ok q" "queue_ok q'"
    using hist_invD(2)[OF hist_invariant] assms(1) later(1) by (auto simp: world_inv_def)
  note c1 = Send_cases[OF snd1] and c2 = Send_cases[OF again(2)]
    and inv' = hist_invD[OF hist_invariant[OF later(1)]]
  obtain d1 d2 where app: "AppendEncryptedMessage q (sent_message c i u dl) = (m, d1, q1)"
      "AppendEncryptedMessage q' (sent_message c' i u dl') = (m', d2, q'')"
    using c1 c2 by blast
  obtain l where l: "chat_le c l" "chat_le c' l"
    using chats_leD[OF inv'(3)[OF later(3)], of i c] chats_leD[OF inv'(3)[OF again(1)], of i c'] c1 c2 by auto
  have rc: "sm_ReceiverAuthKeyID (sent_message c i u dl) = sm_ReceiverAuthKeyID (sent_message c' i u dl')"
    using receiver_fixed[OF l] c1 c2 by (simp add: settled_def)
  note st = Append_ok[OF app(1) ok(1)]
  have mem: "m \<in> set (eq_byDevice q' (sm_ReceiverAuthKeyID (sent_message c' i u dl')))"
    using st rc inv'(4)[OF later(2)] by (auto simp: queue_le_def)
  have "sm_ChatID m = sm_ChatID (sent_message c' i u dl')" "sm_RandomID m = sm_RandomID (sent_message c' i u dl')"
    using st same by (simp_all add: sent_message_def)
  then show ?thesis
    using Append_known[OF ok(2) mem] app(2) by simp
qed

section \<open>Polling\<close>

text \<open>A device repeats its request from the number of the last message it got until a page is empty.\<close>

fun poll_loop :: "(int \<Rightarrow> 'm list) \<Rightarrow> ('m \<Rightarrow> int) \<Rightarrow> nat \<Rightarrow> int \<Rightarrow> 'm list" where
  "poll_loop page num 0 since = []"
| "poll_loop page num (Suc n) since =
     (let ms = page since in if ms = [] then [] else ms @ poll_loop page num n (num (last ms)))"

locale paged_log =
  fixes page :: "'s \<Rightarrow> 'd \<Rightarrow> int \<Rightarrow> int \<Rightarrow> 'm list"
    and num :: "'m \<Rightarrow> int"
    and log :: "'s \<Rightarrow> 'd \<Rightarrow> 'm list"
    and ok :: "'s \<Rightarrow> bool"
  assumes increasing: "ok s \<Longrightarrow> sorted_wrt (<) (map num (log s d))"
    and page_prefix: "ok s \<Longrightarrow> \<exists>n. page s d since limit = take n (filter (\<lambda>m. since < num m) (log s d)) \<and> n > 0"
begin

lemma filter_after_take:
  assumes "sorted_wrt (<) (map num xs)" "ys = take n (filter (\<lambda>m. since < num m) xs)" "ys \<noteq> []"
  shows "filter (\<lambda>m. since < num m) xs = ys @ filter (\<lambda>m. num (last ys) < num m) xs"
proof -
  let ?f = "filter (\<lambda>m. since < num m) xs"
  have srt: "sorted_wrt (\<lambda>a b. num a < num b) ?f"
    using assms(1) sorted_wrt_filter by (auto simp: sorted_wrt_map)
  have split: "?f = ys @ drop n ?f"
    by (simp add: assms(2))
  have lt: "\<forall>x \<in> set ys. \<forall>y \<in> set (drop n ?f). num x < num y" and ys: "sorted_wrt (\<lambda>a b. num a < num b) ys"
    using srt by (subst (asm) split, simp add: sorted_wrt_append)+
  have le: "num x \<le> num (last ys)" if "x \<in> set ys" for x
    using ys that assms(3) by (induction ys) (auto simp: less_imp_le)
  have since: "since < num (last ys)"
    using last_in_set[OF assms(3)] assms(2) in_set_takeD by fastforce
  have "filter (\<lambda>m. num (last ys) < num m) xs = filter (\<lambda>m. num (last ys) < num m) ?f"
    using since by (auto intro: filter_cong)
  also have "\<dots> = drop n ?f"
    using lt le last_in_set[OF assms(3)]
    by (subst split) (auto simp: filter_empty_conv filter_id_conv linorder_not_less simp del: filter_filter)
  finally show ?thesis
    using split by simp
qed

lemma poll_complete:
  assumes "ok s" "length (filter (\<lambda>m. since < num m) (log s d)) \<le> n"
  shows "poll_loop (\<lambda>since. page s d since limit) num n since = filter (\<lambda>m. since < num m) (log s d)"
  using assms(2)
proof (induction n arbitrary: since)
  case (Suc n)
  obtain k where k: "page s d since limit = take k (filter (\<lambda>m. since < num m) (log s d))" "k > 0"
    using page_prefix[OF assms(1)] by blast
  show ?case
  proof (cases "page s d since limit = []")
    case False
    note rest = filter_after_take[OF increasing[OF assms(1)] k(1) False]
    have "length (page s d since limit) > 0"
      using False by simp
    then have "length (filter (\<lambda>m. num (last (page s d since limit)) < num m) (log s d)) \<le> n"
      using Suc.prems arg_cong[OF rest, of length, unfolded length_append] by linarith
    then show ?thesis
      using Suc.IH rest False by (simp add: Let_def)
  qed (use k in simp)
qed simp

end

lemma take_loop_take:
  assumes "int (length out) < limit"
  shows "take_loop P limit out xs = out @ take (nat limit - length out) (filter P xs)"
  using assms
proof (induction xs arbitrary: out)
  case (Cons x xs)
  have "nat limit - length out = Suc (nat limit - Suc (length out))"
    using Cons.prems by linarith
  then have "take (nat limit - length out) (x # filter P xs) = x # take (nat limit - Suc (length out)) (filter P xs)"
    by simp
  then show ?case
    using Cons by (auto simp: Let_def)
qed simp

lemma upto_strict: "sorted_wrt (<) [a..b :: int]"
  by (induction a b rule: upto.induct) (subst upto.simps, simp)

interpretation dev_queue: paged_log ListEncryptedMessagesSince sm_Qts eq_byDevice queue_ok
proof
  fix q d since limit
  assume ok: "queue_ok q"
  show "sorted_wrt (<) (map sm_Qts (eq_byDevice q d))"
    by (simp add: queue_okD(2)[OF ok] upto_strict)
  have "ListEncryptedMessagesSince q d since limit =
      take (nat (if limit \<le> 0 then 1000 else limit)) (filter (\<lambda>m. since < sm_Qts m) (eq_byDevice q d))"
    unfolding ListEncryptedMessagesSince_def by (subst take_loop_take) auto
  then show "\<exists>n. ListEncryptedMessagesSince q d since limit =
      take n (filter (\<lambda>m. since < sm_Qts m) (eq_byDevice q d)) \<and> n > 0"
    by (intro exI[of _ "nat (if limit \<le> 0 then 1000 else limit)"]) auto
qed

text \<open>
  C10: A device that keeps asking for new encrypted messages from the last qts it has seen gets every
  message of its queue above its starting qts, each once and in order, whatever page size it asks
  for; as many requests as the queue has messages are enough.
\<close>

theorem device_catch_up:
  assumes "sc_hist ((s, q) # h)" "d \<noteq> 0" "nat (DeviceReservedQts q d) \<le> n"
  shows "poll_loop (\<lambda>since. ListNewMessages q d since limit) sm_Qts n since =
    filter (\<lambda>m. since < sm_Qts m) (eq_byDevice q d)"
proof -
  have ok: "queue_ok q"
    using hist_invD(2)[OF hist_invariant[OF assms(1)]] by (simp add: world_inv_def)
  have "length (eq_byDevice q d) = nat (ReservedQts q d)"
    using arg_cong[OF queue_okD(2)[OF ok, of d], of length] by simp
  then have "length (filter (\<lambda>m. since < sm_Qts m) (eq_byDevice q d)) \<le> n"
    using assms(2,3) length_filter_le[of "\<lambda>m. since < sm_Qts m" "eq_byDevice q d"] by (simp add: DeviceReservedQts_def)
  then show ?thesis
    using dev_queue.poll_complete[OF ok] assms(2) by (simp add: ListNewMessages_def)
qed

section \<open>Revoking a device\<close>

definition discarded_chat :: "secret_chat \<Rightarrow> secret_chat" where
  "discarded_chat c = c\<lparr>sc_State := SecretChatStateDiscarded, sc_HistoryDeleted := False\<rparr>"

definition live_on :: "int \<Rightarrow> secret_chat \<Rightarrow> bool" where
  "live_on k c \<longleftrightarrow> \<not> Terminal c \<and> (sc_AdminAuthKeyID c = k \<or> sc_ParticipantAuthKeyID c = k)"

lemma discard_loop_result:
  assumes "distinct (map sc_ID cs)" "\<forall>c \<in> set cs. s (sc_ID c) = Some c \<and> \<not> Terminal c"
  shows "discard_loop s ds cs = (None, ds @ map discarded_chat cs,
    \<lambda>i. if i \<in> sc_ID ` set cs then map_option discarded_chat (s i) else s i)"
  using assms
proof (induction cs arbitrary: s ds)
  case (Cons c cs)
  let ?s = "s(sc_ID c \<mapsto> discarded_chat c)"
  have step: "DiscardSecretChat s (sc_ID c) False = Inr (discarded_chat c, False, ?s)"
    using Cons.prems(2) by (simp add: DiscardSecretChat_def discarded_chat_def Terminal_def Let_def)
  have "sc_ID x \<noteq> sc_ID c" if "x \<in> set cs" for x
    using Cons.prems(1) that by (force simp: image_iff)
  then have "\<forall>x \<in> set cs. ?s (sc_ID x) = Some x \<and> \<not> Terminal x"
    using Cons.prems(2) by simp
  then have ih: "discard_loop ?s (ds @ [discarded_chat c]) cs = (None, ds @ map discarded_chat (c # cs),
      \<lambda>i. if i \<in> sc_ID ` set cs then map_option discarded_chat (?s i) else ?s i)"
    using Cons.IH[of ?s "ds @ [discarded_chat c]"] Cons.prems(1) by (simp del: fun_upd_apply)
  have "(if i \<in> sc_ID ` set cs then map_option discarded_chat (?s i) else ?s i) =
      (if i \<in> sc_ID ` set (c # cs) then map_option discarded_chat (s i) else s i)" for i
    using Cons.prems by (cases "i = sc_ID c") simp_all
  then show ?case
    by (simp add: step ih)
qed simp

lemma ran_as_map_filter: "set ord = dom s \<Longrightarrow> set (List.map_filter s ord) = ran s"
  by (fastforce simp: List.map_filter_def ran_def dom_def image_iff)

lemma map_filter_ids:
  assumes "chats_wf s" "distinct ord"
  shows "distinct (map sc_ID (List.map_filter s ord))" "sc_ID ` set (List.map_filter s ord) \<subseteq> set ord"
proof -
  have at: "sc_ID c = i" if "s i = Some c" for i c
    using chats_wfD[OF assms(1) that] by (simp add: chat_wf_def)
  show sub: "sc_ID ` set (List.map_filter s xs) \<subseteq> set xs" for xs
    by (induction xs) (auto simp: List.map_filter_simps dest: at split: option.splits)
  show "distinct (map sc_ID (List.map_filter s ord))"
    using assms(2)
  proof (induction ord)
    case (Cons i ord)
    then show ?case
      using sub[of ord] by (auto simp: List.map_filter_simps dest: at split: option.splits)
  qed (simp add: List.map_filter_simps)
qed

lemma active_chats:
  assumes "chats_wf s" "distinct ord" "set ord = dom s" "k \<noteq> 0"
  defines "cs \<equiv> ListActiveSecretChatsByAuthKey s ord k"
  shows "sorted (map sc_ID cs)" "distinct (map sc_ID cs)" "set cs = {c \<in> ran s. live_on k c}"
  using assms(4) map_filter_ids[OF assms(1,2)] ran_as_map_filter[OF assms(3)]
  by (auto simp: cs_def ListActiveSecretChatsByAuthKey_def live_on_def distinct_map inj_on_def)

text \<open>
  Logging a device out discards exactly the live secret chats bound to it, on either side, in
  whatever order the store enumerates its chats. It reports each of them once, in order of chat id
  and in its discarded state, and leaves every other chat as it was.
\<close>

theorem discard_for_auth_key:
  assumes "sc_hist ((s, q) # h)" "distinct ord" "set ord = dom s" "k \<noteq> 0"
  shows "\<exists>ds. DiscardForAuthKey s ord k =
      (None, ds, \<lambda>i. map_option (\<lambda>c. if live_on k c then discarded_chat c else c) (s i)) \<and>
    sorted (map sc_ID ds) \<and> distinct (map sc_ID ds) \<and> set ds = discarded_chat ` {c \<in> ran s. live_on k c}"
proof -
  let ?cs = "ListActiveSecretChatsByAuthKey s ord k"
  have wf: "chats_wf s"
    using hist_invD(1)[OF hist_invariant[OF assms(1)]] .
  note act = active_chats[OF wf assms(2-4)]
  have at: "s (sc_ID c) = Some c" if "c \<in> ran s" for c
    using that chats_wfD[OF wf] by (fastforce simp: ran_def chat_wf_def)
  have ids: "i \<in> sc_ID ` set ?cs \<longleftrightarrow> live_on k c" if "s i = Some c" for i c
  proof -
    have "sc_ID c = i" "c \<in> ran s"
      using chats_wfD[OF wf that] that by (auto simp: chat_wf_def intro: ranI)
    then show ?thesis
      using act(3) at that by (metis (mono_tags, lifting) image_iff mem_Collect_eq option.inject)
  qed
  have upd: "(if i \<in> sc_ID ` set ?cs then map_option discarded_chat (s i) else s i) =
      map_option (\<lambda>c. if live_on k c then discarded_chat c else c) (s i)" for i
    using ids[of i] by (cases "s i") auto
  have "discard_loop s [] ?cs = (None, map discarded_chat ?cs,
      \<lambda>i. if i \<in> sc_ID ` set ?cs then map_option discarded_chat (s i) else s i)"
    using discard_loop_result[OF act(2)] act(3) at by (simp add: live_on_def)
  then have "DiscardForAuthKey s ord k = (None, map discarded_chat ?cs,
      \<lambda>i. map_option (\<lambda>c. if live_on k c then discarded_chat c else c) (s i))"
    using assms(4) by (simp add: DiscardForAuthKey_def upd)
  moreover have "map sc_ID (map discarded_chat ?cs) = map sc_ID ?cs"
    by (simp add: discarded_chat_def)
  ultimately show ?thesis
    using act by (intro exI[of _ "map discarded_chat ?cs"]) (simp del: map_map)
qed

section \<open>Diffie-Hellman values\<close>

lemma big_acc: "foldl (\<lambda>a b. a * 256 + uint (b :: 8 word)) x bs = x * 256 ^ length bs + big_of_bytes bs"
  unfolding big_of_bytes_def
proof (induction bs arbitrary: x)
  case (Cons b bs)
  have "foldl (\<lambda>a b. a * 256 + uint (b :: 8 word)) y (b # bs) =
      (y * 256 + uint b) * 256 ^ length bs + foldl (\<lambda>a b. a * 256 + uint b) 0 bs" for y
    using Cons.IH[of "y * 256 + uint b"] by simp
  from this[of x] this[of 0] show ?case
    by (simp add: algebra_simps)
qed simp

lemma big_Cons: "big_of_bytes (b # bs) = uint b * 256 ^ length bs + big_of_bytes bs"
  using big_acc[of "uint b" bs] by (simp add: big_of_bytes_def)

lemma big_append: "big_of_bytes (as @ bs) = big_of_bytes as * 256 ^ length bs + big_of_bytes bs"
  using big_acc[of "big_of_bytes as" bs] by (simp add: big_of_bytes_def)

lemma big_zeros: "big_of_bytes (replicate n 0) = 0"
  by (induction n) (simp_all add: big_Cons, simp add: big_of_bytes_def)

lemma big_range: "0 \<le> big_of_bytes bs \<and> big_of_bytes bs < 256 ^ length bs"
proof (induction bs)
  case (Cons b bs)
  have "uint b * 256 ^ length bs \<le> 255 * 256 ^ length bs" "0 \<le> uint b * 256 ^ length bs"
    using uint_bounded[of b] by (intro mult_right_mono, auto)
  then show ?case
    using Cons unfolding big_Cons by (simp only: length_Cons power_Suc) linarith
qed (simp add: big_of_bytes_def)

lemma big_inj: "length as = length bs \<Longrightarrow> big_of_bytes as = big_of_bytes bs \<Longrightarrow> as = bs"
proof (induction as bs rule: list_induct2)
  case (Cons a as b bs)
  let ?n = "256 ^ length bs :: int"
  have hi: "(uint x * ?n + y) div ?n = uint x" if "0 \<le> y" "y < ?n" for x :: "8 word" and y
    using that by (simp add: div_pos_pos_trivial)
  have "uint a = uint b"
    using Cons.hyps Cons.prems big_range[of as] big_range[of bs] hi[of "big_of_bytes as" a] hi[of "big_of_bytes bs" b]
    by (simp add: big_Cons)
  then have "a = b"
    by (rule unsigned_word_eqI)
  then show ?case
    using Cons by (simp add: big_Cons)
qed simp

lemma leftPad256_spec:
  assumes "length g \<le> 256"
  shows "leftPad256 g = g' \<longleftrightarrow> length g' = 256 \<and> big_of_bytes g' = big_of_bytes g"
proof -
  have "length (leftPad256 g) = 256 \<and> big_of_bytes (leftPad256 g) = big_of_bytes g"
    using assms by (simp add: leftPad256_def dhPubSize_def big_append big_zeros)
  then show ?thesis
    using big_inj[of "leftPad256 g" g'] by auto
qed

text \<open>
  A Diffie-Hellman value is accepted exactly when it has at most 256 bytes (and some) and lies
  strictly between 2 to the 1984 and the prime minus 2 to the 1984; what is stored is then the one
  256-byte big-endian encoding of the same number, however many leading zeros the client sent.
\<close>

theorem dh_param_canonical:
  "validateDHParam g = Inr g' \<longleftrightarrow>
     0 < length g \<and> length g \<le> 256 \<and> 2 ^ 1984 < big_of_bytes g \<and> big_of_bytes g < dhPrime - 2 ^ 1984 \<and>
     length g' = 256 \<and> big_of_bytes g' = big_of_bytes g"
proof -
  have "(1 :: int) < 2 ^ 1984"
    by simp
  then have "validateDHParam g = Inr g' \<longleftrightarrow> 0 < length g \<and> length g \<le> 256 \<and> 2 ^ 1984 < big_of_bytes g \<and>
      big_of_bytes g < dhPrime - 2 ^ 1984 \<and> leftPad256 g = g'"
    by (simp add: validateDHParam_def dhPubSize_def Let_def not_le)
  then show ?thesis
    using leftPad256_spec by auto
qed

section \<open>A concrete chat\<close>

definition demo_g :: bytes where
  "demo_g = 128 # replicate 255 0"

definition demo_req :: chat_request where
  "demo_req = \<lparr>rq_AdminUserID = 10, rq_AdminAuthKeyID = 100, rq_ParticipantUserID = 20, rq_RandomID = 7,
     rq_GA = demo_g, rq_Date = 1\<rparr>"

definition demo_requested :: secret_chat where
  "demo_requested = requested_chat demo_req 3 4 demo_g"

definition demo_accepted :: secret_chat where
  "demo_accepted = demo_requested\<lparr>sc_State := SecretChatStateNormal, sc_ParticipantAuthKeyID := 200,
     sc_GB := demo_g, sc_KeyFingerprint := 9\<rparr>"

definition demo_dl :: delivery where
  "demo_dl = \<lparr>dl_RandomID = 5, dl_Bytes = [1, 2], dl_IsService = False, dl_File = None, dl_Date = 2\<rparr>"

definition demo_msg :: secret_message where
  "demo_msg = \<lparr>sm_ReceiverAuthKeyID = 200, sm_Qts = 1, sm_ReceiverUserID = 20, sm_ChatID = 7, sm_RandomID = 5,
     sm_Date = 2, sm_IsService = False, sm_Bytes = [1, 2], sm_File = None\<rparr>"

definition demo_q :: enc_queue where
  "demo_q = NewEncryptedQueueStore\<lparr>eq_reserved := [200 \<mapsto> 1], eq_byDevice := (\<lambda>_. [])(200 := [demo_msg]),
     eq_dedup := [(200, 7, 5) \<mapsto> 1]\<rparr>"

definition demo_hist :: "sc_world list" where
  "demo_hist = [([7 \<mapsto> demo_accepted], NewEncryptedQueueStore), ([7 \<mapsto> demo_requested], NewEncryptedQueueStore),
     (Map.empty, NewEncryptedQueueStore)]"

lemmas demo_simps = demo_req_def demo_requested_def requested_chat_def demo_accepted_def

lemma demo_g_valid: "validateDHParam demo_g = Inr demo_g"
  by (simp add: validateDHParam_def demo_g_def dhPubSize_def leftPad256_def big_Cons big_zeros dhPrime_def)

lemma demo_request: "RequestEncryption Map.empty Map.empty Map.empty demo_req (Some 6) (Some 8) =
    Inr (demo_requested, [7 \<mapsto> demo_requested])"
  by (simp add: RequestEncryption_def demo_simps demo_g_valid GetSecretChat_def randomAccessHash_def Let_def
      CreateSecretChat_def drop_bit_eq_div)

lemma demo_accept: "AcceptEncryption [7 \<mapsto> demo_requested] [7 \<mapsto> demo_requested] 7 20 200 4 demo_g 9 =
    Inr (demo_accepted, [7 \<mapsto> demo_accepted])"
  by (simp add: AcceptEncryption_def demo_simps demo_g_valid GetSecretChat_def AcceptSecretChat_def Let_def)

lemma demo_send: "SendEncrypted [7 \<mapsto> demo_accepted] NewEncryptedQueueStore 7 10 100 3 demo_dl =
    Inr (demo_accepted, demo_msg, demo_q)"
  by (simp add: SendEncrypted_def demo_simps GetSecretChat_def HasParticipant_def AuthKeyOf_def AccessHashFor_def
      PeerOf_def IsAdmin_def AppendEncryptedMessage_def demo_dl_def demo_msg_def demo_q_def Let_def
      NewEncryptedQueueStore_def mget_def)

lemma demo_hist_ok: "sc_hist demo_hist"
  unfolding demo_hist_def
  using sc_hist.accept[OF sc_hist.request[OF sc_hist.start], of Map.empty NewEncryptedQueueStore demo_req
      "Some 6" "Some 8" demo_requested "[7 \<mapsto> demo_requested]" "[7 \<mapsto> demo_requested]" NewEncryptedQueueStore]
    demo_request demo_accept
  by (simp add: GetSecretChat_def)

lemma demo_hist_sent: "sc_hist (([7 \<mapsto> demo_accepted], demo_q) # demo_hist)"
  using demo_hist_ok unfolding demo_hist_def
  by (rule sc_hist.send[OF _ list.set_intros(1) demo_send])

theorem handshake_monotone_witness:
  "\<exists>c'. [7 \<mapsto> demo_accepted] 7 = Some c' \<and> same_parties demo_requested c' \<and> state_rank (sc_State c') = 2"
  using handshake_monotone[of "[7 \<mapsto> demo_accepted]" NewEncryptedQueueStore "tl demo_hist"
      "[7 \<mapsto> demo_requested]" NewEncryptedQueueStore 7 demo_requested] demo_hist_ok
  by (simp add: demo_hist_def) (simp add: demo_accepted_def)

theorem accept_once_witness:
  "\<exists>e. AcceptEncryption [7 \<mapsto> demo_requested] [7 \<mapsto> demo_accepted] 7 20 201 4 demo_g 9 = Inl e"
proof -
  have "sc_hist (([7 \<mapsto> demo_requested], NewEncryptedQueueStore) # [(Map.empty, NewEncryptedQueueStore)])"
    using sc_hist.request[OF sc_hist.start, of Map.empty NewEncryptedQueueStore demo_req] demo_request
    by (simp add: GetSecretChat_def)
  from accept_once[OF this _ demo_accept demo_hist_sent, of NewEncryptedQueueStore demo_q]
  show ?thesis by simp
qed

theorem secret_queue_sound_witness:
  "map sm_Qts (eq_byDevice demo_q 200) = [1..ReservedQts demo_q 200] \<and> length (eq_byDevice demo_q 200) = 1"
  using secret_queue_sound[OF demo_hist_sent, of 200] by (simp add: demo_q_def)

theorem resend_idempotent_witness:
  "SendEncrypted [7 \<mapsto> demo_accepted] demo_q 7 10 100 3 (demo_dl\<lparr>dl_Bytes := [9], dl_Date := 4\<rparr>) =
     Inr (demo_accepted, demo_msg, demo_q)"
proof -
  let ?dl = "demo_dl\<lparr>dl_Bytes := [9], dl_Date := 4\<rparr>"
  obtain c m q where again: "SendEncrypted [7 \<mapsto> demo_accepted] demo_q 7 10 100 3 ?dl = Inr (c, m, q)"
    by (cases "AppendEncryptedMessage demo_q (sent_message demo_accepted 7 10 ?dl)")
      (simp add: SendEncrypted_def sent_message_def demo_simps GetSecretChat_def HasParticipant_def AuthKeyOf_def
        AccessHashFor_def PeerOf_def IsAdmin_def Let_def)
  have "m = demo_msg \<and> q = demo_q"
    by (rule resend_idempotent[OF demo_hist_ok[unfolded demo_hist_def] demo_send demo_hist_sent
          list.set_intros(1) list.set_intros(1) list.set_intros(1) again]) simp
  then show ?thesis
    using again Send_cases[OF again] by simp
qed

theorem device_catch_up_witness:
  "poll_loop (\<lambda>since. ListNewMessages demo_q 200 since 10) sm_Qts 1 0 = [demo_msg]"
  using device_catch_up[OF demo_hist_sent, of 200 1 10 0]
  by (simp add: DeviceReservedQts_def ReservedQts_def demo_q_def mget_def demo_msg_def)

theorem discard_for_auth_key_witness:
  "\<exists>ds. DiscardForAuthKey [7 \<mapsto> demo_accepted] [7] 200 =
      (None, ds, \<lambda>i. map_option (\<lambda>c. if live_on 200 c then discarded_chat c else c) ([7 \<mapsto> demo_accepted] i)) \<and>
    set ds = {discarded_chat demo_accepted}"
proof -
  have "{c \<in> ran [7 \<mapsto> demo_accepted]. live_on 200 c} = {demo_accepted}"
    by (auto simp: ran_def live_on_def Terminal_def demo_accepted_def)
  then show ?thesis
    using discard_for_auth_key[OF demo_hist_sent, of "[7]" 200] by auto
qed

text \<open>
  The service checks who may decline an invitation on the chat it read, and the store's discard does
  not check it again: a device that read the chat before another device of the same user accepted it
  still discards it afterwards, although the accepted chat is bound to the other device.
\<close>

theorem late_decline_race:
  "sc_hist demo_hist \<and>
   DiscardEncryption [7 \<mapsto> demo_requested] [7 \<mapsto> demo_accepted] 7 20 999 False =
     Inr (discarded_chat demo_accepted, False, [7 \<mapsto> discarded_chat demo_accepted]) \<and>
   DiscardEncryption [7 \<mapsto> demo_accepted] [7 \<mapsto> demo_accepted] 7 20 999 False = Inl ErrSecretChatNotFound"
  using demo_hist_ok
  by (simp add: DiscardEncryption_def GetSecretChat_def HasParticipant_def AuthKeyOf_def DiscardSecretChat_def
      discarded_chat_def demo_simps Let_def)

end
