(* ===== verification/Phone_Call.thy ===== *)
theory Phone_Call
  imports SG_Prelude
begin

text \<open>
  One-to-one phone calls (\<open>internal/domain/phone.go\<close>, \<open>internal/app/phone\<close>): the in-process
  registry of calls and the signalling state machine.

  Every operation of the service runs under the registry mutex and is one function from the registry
  to a result and the new registry; \<open>now\<close> is the clock reading in Unix seconds. Durations of the
  configuration are in nanoseconds, as Go's \<open>time.Duration\<close>. SHA-256 is a parameter \<open>sha\<close>
  (nothing is assumed of it), random draws are arguments (\<open>None\<close> when reading them fails), and Go's
  unspecified map iteration order is an argument \<open>ord\<close> that enumerates the keys. \<open>Signal\<close> releases
  the registry mutex before it takes the call's signalling mutex; it is one step here, and the
  callback \<open>forward\<close> is the list of packets it forwards.
\<close>

section \<open>Data\<close>

datatype call_state = PhoneCallStateRequested | PhoneCallStateRinging | PhoneCallStateAccepted
  | PhoneCallStateConfirmed | PhoneCallStateDiscarded

text \<open>The discard reason is a Go string; \<open>ReasonNone\<close> is the empty one.\<close>

datatype discard_reason = ReasonNone | ReasonMissed | ReasonDisconnect | ReasonHangup | ReasonBusy
  | ReasonMigrateConference

datatype phone_error = ErrPeerInvalid | ErrAlreadyAccepted | ErrAlreadyDeclined | ErrOccupyFailed
  | ErrProtocolLayerInvalid | ErrProtocolCompatLayerInvalid | ErrProtocolFlagsInvalid | ErrGAHashMismatch
  | ErrRandomID | ErrExhaustedIDs

record call_protocol =
  pr_UDPP2P :: bool
  pr_UDPReflector :: bool
  pr_MinLayer :: int
  pr_MaxLayer :: int
  pr_LibraryVersions :: "string list"

type_synonym session_ref = "64 word \<times> int"

record call_connection =
  cn_ID :: int
  cn_IP :: string
  cn_Port :: int
  cn_Username :: string
  cn_Password :: string
  cn_Stun :: bool
  cn_Turn :: bool

record call_request =
  cr_CalleeID :: int
  cr_RandomID :: int
  cr_GAHash :: bytes
  cr_Video :: bool
  cr_Protocol :: call_protocol
  cr_CallerDevice :: session_ref
  cr_PrivacyP2P :: bool
  cr_Connections :: "call_connection list"

record phone_call =
  pc_ID :: int
  pc_AccessHash :: int
  pc_AdminID :: int
  pc_ParticipantID :: int
  pc_Video :: bool
  pc_State :: call_state
  pc_Date :: int
  pc_ReceiveDate :: int
  pc_StartDate :: int
  pc_DiscardedAt :: int
  pc_GAHash :: bytes
  pc_GB :: bytes
  pc_GA :: bytes
  pc_KeyFingerprint :: int
  pc_Protocol :: call_protocol
  pc_CallerProtocol :: call_protocol
  pc_CalleeProtocol :: call_protocol
  pc_P2PAllowed :: bool
  pc_DiscardReason :: discard_reason
  pc_DiscardReasonSlug :: string
  pc_Duration :: int
  pc_PrivacyP2P :: bool
  pc_Connections :: "call_connection list"
  pc_RandomID :: int
  pc_CallerDevice :: session_ref
  pc_CalleeDevice :: session_ref

definition call_Terminal :: "phone_call \<Rightarrow> bool" where
  "call_Terminal c \<longleftrightarrow> pc_State c = PhoneCallStateDiscarded"

definition call_PeerOf :: "phone_call \<Rightarrow> int \<Rightarrow> int" where
  "call_PeerOf c userID =
     (if userID = pc_AdminID c then pc_ParticipantID c
      else if userID = pc_ParticipantID c then pc_AdminID c else 0)"

definition call_HasParticipant :: "phone_call \<Rightarrow> int \<Rightarrow> bool" where
  "call_HasParticipant c userID \<longleftrightarrow> userID \<noteq> 0 \<and> (userID = pc_AdminID c \<or> userID = pc_ParticipantID c)"

record phone_config =
  cf_RingTimeout :: int
  cf_TombstoneTTL :: int
  cf_MaxActivePerUser :: int
  cf_MaxRegistryEntries :: int
  cf_SignalingRatePerSecond :: int

definition withDefaults :: "phone_config \<Rightarrow> phone_config" where
  "withDefaults c =
     \<lparr>cf_RingTimeout = (if cf_RingTimeout c \<le> 0 then 90 * 10 ^ 9 else cf_RingTimeout c),
      cf_TombstoneTTL = (if cf_TombstoneTTL c \<le> 0 then 60 * 10 ^ 9 else cf_TombstoneTTL c),
      cf_MaxActivePerUser = (if cf_MaxActivePerUser c \<le> 0 then 4 else cf_MaxActivePerUser c),
      cf_MaxRegistryEntries = (if cf_MaxRegistryEntries c \<le> 0 then 10000 else cf_MaxRegistryEntries c),
      cf_SignalingRatePerSecond =
        (if cf_SignalingRatePerSecond c \<le> 0 then 50 else cf_SignalingRatePerSecond c)\<rparr>"

section \<open>The registry\<close>

record entry =
  e_call :: phone_call
  e_sigWindowSec :: int
  e_sigCount :: int

record registry =
  rg_byID :: "int \<rightharpoonup> entry"
  rg_byRandom :: "int \<times> int \<rightharpoonup> int"
  rg_active :: "int \<rightharpoonup> int"

definition newRegistry :: registry where
  "newRegistry = \<lparr>rg_byID = Map.empty, rg_byRandom = Map.empty, rg_active = Map.empty\<rparr>"

definition decActiveLocked :: "(int \<rightharpoonup> int) \<Rightarrow> int \<Rightarrow> (int \<rightharpoonup> int)" where
  "decActiveLocked a userID =
     (let n = mget 0 a userID in if n \<le> 1 then a(userID := None) else a(userID \<mapsto> n - 1))"

definition removeLocked :: "registry \<Rightarrow> int \<Rightarrow> entry \<Rightarrow> bool \<Rightarrow> registry" where
  "removeLocked r i e wasActive =
     (let r = r\<lparr>rg_byID := (rg_byID r)(i := None)\<rparr>;
          key = (pc_AdminID (e_call e), pc_RandomID (e_call e));
          r = (if rg_byRandom r key = Some i then r\<lparr>rg_byRandom := (rg_byRandom r)(key := None)\<rparr> else r)
      in if wasActive then r\<lparr>rg_active := decActiveLocked (rg_active r) (pc_AdminID (e_call e))\<rparr> else r)"

fun sweepTombstonesLocked :: "registry \<Rightarrow> int list \<Rightarrow> int \<Rightarrow> int \<Rightarrow> registry" where
  "sweepTombstonesLocked r [] nowUnix ttl = r"
| "sweepTombstonesLocked r (i # ord) nowUnix ttl =
     (case rg_byID r i of
        None \<Rightarrow> sweepTombstonesLocked r ord nowUnix ttl
      | Some e \<Rightarrow>
          sweepTombstonesLocked
            (if call_Terminal (e_call e) \<and> nowUnix - pc_DiscardedAt (e_call e) > ttl
             then removeLocked r i e False else r) ord nowUnix ttl)"

definition discard_call :: "phone_call \<Rightarrow> discard_reason \<Rightarrow> string \<Rightarrow> int \<Rightarrow> int \<Rightarrow> phone_call" where
  "discard_call c reason slug duration nowUnix =
     c\<lparr>pc_State := PhoneCallStateDiscarded, pc_DiscardReason := reason, pc_DiscardReasonSlug := slug,
       pc_Duration := duration, pc_DiscardedAt := nowUnix\<rparr>"

definition put_call :: "registry \<Rightarrow> int \<Rightarrow> entry \<Rightarrow> phone_call \<Rightarrow> registry" where
  "put_call r i e c = r\<lparr>rg_byID := (rg_byID r)(i \<mapsto> e\<lparr>e_call := c\<rparr>)\<rparr>"

definition markDiscardedWithSlugLocked ::
  "registry \<Rightarrow> int \<Rightarrow> entry \<Rightarrow> discard_reason \<Rightarrow> string \<Rightarrow> int \<Rightarrow> int \<Rightarrow> registry" where
  "markDiscardedWithSlugLocked r i e reason slug duration nowUnix =
     (if call_Terminal (e_call e) then r
      else let r = put_call r i e (discard_call (e_call e) reason slug duration nowUnix)
           in r\<lparr>rg_active := decActiveLocked (rg_active r) (pc_AdminID (e_call e))\<rparr>)"

definition markDiscardedLocked :: "registry \<Rightarrow> int \<Rightarrow> entry \<Rightarrow> discard_reason \<Rightarrow> int \<Rightarrow> int \<Rightarrow> registry" where
  "markDiscardedLocked r i e reason duration nowUnix =
     markDiscardedWithSlugLocked r i e reason [] duration nowUnix"

definition randomPositiveInt64 :: "64 word option \<Rightarrow> phone_error + int" where
  "randomPositiveInt64 rnd =
     (case rnd of None \<Rightarrow> Inl ErrRandomID
      | Some b \<Rightarrow> let v = uint (drop_bit 1 b) in Inr (if v = 0 then 1 else v))"

text \<open>The loop of \<open>newIDLocked\<close>; \<open>draw i\<close> is the outcome of the \<open>i\<close>-th random read.\<close>

fun newID_loop :: "registry \<Rightarrow> (nat \<Rightarrow> 64 word option) \<Rightarrow> nat \<Rightarrow> nat \<Rightarrow> phone_error + int" where
  "newID_loop r draw i 0 = Inl ErrExhaustedIDs"
| "newID_loop r draw i (Suc n) =
     (case randomPositiveInt64 (draw i) of
        Inl e \<Rightarrow> Inl e
      | Inr v \<Rightarrow> if rg_byID r v = None then Inr v else newID_loop r draw (Suc i) n)"

definition newIDLocked :: "registry \<Rightarrow> (nat \<Rightarrow> 64 word option) \<Rightarrow> phone_error + int" where
  "newIDLocked r draw = newID_loop r draw 0 32"

section \<open>Protocol negotiation\<close>

definition minSupportedLayer :: int where
  "minSupportedLayer = 65"

definition validateProtocol :: "call_protocol \<Rightarrow> phone_error option" where
  "validateProtocol p =
     (if pr_MinLayer p > pr_MaxLayer p then Some ErrProtocolLayerInvalid
      else if pr_MaxLayer p < minSupportedLayer then Some ErrProtocolCompatLayerInvalid
      else if \<not> pr_UDPP2P p \<and> \<not> pr_UDPReflector p then Some ErrProtocolFlagsInvalid
      else if pr_LibraryVersions p = [] then Some ErrProtocolFlagsInvalid
      else None)"

definition preferredVersions :: "string list" where
  "preferredVersions = [''9.0.0'', ''8.0.0'', ''7.0.0'']"

text \<open>\<open>strings.Split\<close>, \<open>strings.Compare\<close> and \<open>strconv.Atoi\<close> on 64-bit integers.\<close>

fun split_dots :: "string \<Rightarrow> string \<Rightarrow> string list" where
  "split_dots acc [] = [rev acc]"
| "split_dots acc (x # xs) = (if x = CHR ''.'' then rev acc # split_dots [] xs else split_dots (x # acc) xs)"

fun strings_Compare :: "string \<Rightarrow> string \<Rightarrow> int" where
  "strings_Compare [] [] = 0"
| "strings_Compare [] (y # ys) = -1"
| "strings_Compare (x # xs) [] = 1"
| "strings_Compare (x # xs) (y # ys) =
     (if (of_char x :: int) < of_char y then -1 else if (of_char x :: int) > of_char y then 1
      else strings_Compare xs ys)"

fun digits_value :: "int \<Rightarrow> string \<Rightarrow> int option" where
  "digits_value acc [] = Some acc"
| "digits_value acc (x # xs) =
     (let d = (of_char x :: int) - 48 in if 0 \<le> d \<and> d \<le> 9 then digits_value (acc * 10 + d) xs else None)"

definition Atoi :: "string \<Rightarrow> int option" where
  "Atoi s =
     (let neg = (s \<noteq> [] \<and> hd s = CHR ''-'');
          t = (if s \<noteq> [] \<and> (hd s = CHR ''-'' \<or> hd s = CHR ''+'') then tl s else s)
      in if t = [] then None
         else case digits_value 0 t of
           None \<Rightarrow> None
         | Some v \<Rightarrow> let v = (if neg then - v else v)
                     in if - (2 ^ 63) \<le> v \<and> v < 2 ^ 63 then Some v else None)"

definition segment :: "string list \<Rightarrow> nat \<Rightarrow> string" where
  "segment xs i = (if i < length xs then xs ! i else [])"

fun compare_loop :: "string list \<Rightarrow> string list \<Rightarrow> nat \<Rightarrow> nat \<Rightarrow> int" where
  "compare_loop as bs i 0 = 0"
| "compare_loop as bs i (Suc n) =
     (let av = segment as i; bv = segment bs i in
      case (Atoi av, Atoi bv) of
        (Some an, Some bn) \<Rightarrow>
          if an \<noteq> bn then sint (word_of_int (an - bn) :: 64 word) else compare_loop as bs (Suc i) n
      | _ \<Rightarrow> let c = strings_Compare av bv in if c \<noteq> 0 then c else compare_loop as bs (Suc i) n)"

definition compareVersion :: "string \<Rightarrow> string \<Rightarrow> int" where
  "compareVersion a b =
     (let as = split_dots [] a; bs = split_dots [] b
      in compare_loop as bs 0 (max (length as) (length bs)))"

fun best_loop :: "string option \<Rightarrow> string list \<Rightarrow> string option" where
  "best_loop best [] = best"
| "best_loop best (v # vs) =
     best_loop (case best of None \<Rightarrow> Some v | Some w \<Rightarrow> if compareVersion v w > 0 then Some v else best) vs"

text \<open>\<open>ord\<close> is the order in which the loop meets the versions common to both lists.\<close>

definition bestCommonVersion :: "string list \<Rightarrow> string list \<Rightarrow> string list \<Rightarrow> string option" where
  "bestCommonVersion ord a b =
     (case find (\<lambda>v. v \<in> set a \<and> v \<in> set b) preferredVersions of
        Some v \<Rightarrow> Some v
      | None \<Rightarrow> best_loop None ord)"

definition negotiateProtocol :: "string list \<Rightarrow> call_protocol \<Rightarrow> call_protocol \<Rightarrow> phone_error + call_protocol" where
  "negotiateProtocol ord caller callee =
     (let lo = max (pr_MinLayer caller) (pr_MinLayer callee);
          hi = min (pr_MaxLayer caller) (pr_MaxLayer callee)
      in if lo > hi then Inl ErrProtocolCompatLayerInvalid
         else Inr \<lparr>pr_UDPP2P = (pr_UDPP2P caller \<and> pr_UDPP2P callee),
                   pr_UDPReflector = (pr_UDPReflector caller \<or> pr_UDPReflector callee),
                   pr_MinLayer = lo, pr_MaxLayer = hi,
                   pr_LibraryVersions =
                     (case bestCommonVersion ord (pr_LibraryVersions caller) (pr_LibraryVersions callee) of
                        Some best \<Rightarrow> [best]
                      | None \<Rightarrow> pr_LibraryVersions callee)\<rparr>)"

section \<open>The service\<close>

definition gaHashSize :: nat where
  "gaHashSize = 32"

definition call_dhPubSize :: nat where
  "call_dhPubSize = 256"

definition noProtocol :: call_protocol where
  "noProtocol = \<lparr>pr_UDPP2P = False, pr_UDPReflector = False, pr_MinLayer = 0, pr_MaxLayer = 0,
     pr_LibraryVersions = []\<rparr>"

definition requested_call :: "int \<Rightarrow> int \<Rightarrow> int \<Rightarrow> call_request \<Rightarrow> int \<Rightarrow> phone_call" where
  "requested_call i accessHash callerID req nowUnix =
     \<lparr>pc_ID = i, pc_AccessHash = accessHash, pc_AdminID = callerID, pc_ParticipantID = cr_CalleeID req,
      pc_Video = cr_Video req, pc_State = PhoneCallStateRequested, pc_Date = nowUnix, pc_ReceiveDate = 0,
      pc_StartDate = 0, pc_DiscardedAt = 0, pc_GAHash = cr_GAHash req, pc_GB = [], pc_GA = [],
      pc_KeyFingerprint = 0, pc_Protocol = cr_Protocol req, pc_CallerProtocol = cr_Protocol req,
      pc_CalleeProtocol = noProtocol, pc_P2PAllowed = False, pc_DiscardReason = ReasonNone,
      pc_DiscardReasonSlug = [], pc_Duration = 0, pc_PrivacyP2P = cr_PrivacyP2P req,
      pc_Connections = cr_Connections req, pc_RandomID = cr_RandomID req,
      pc_CallerDevice = cr_CallerDevice req, pc_CalleeDevice = (0, 0)\<rparr>"

definition ttlSec :: "phone_config \<Rightarrow> int" where
  "ttlSec cfg = cf_TombstoneTTL cfg div 10 ^ 9"

definition live_retry :: "registry \<Rightarrow> int \<Rightarrow> int \<Rightarrow> phone_call option" where
  "live_retry r callerID randomID =
     (case rg_byRandom r (callerID, randomID) of
        None \<Rightarrow> None
      | Some i \<Rightarrow> (case rg_byID r i of
                     None \<Rightarrow> None
                   | Some e \<Rightarrow> if \<not> call_Terminal (e_call e) then Some (e_call e) else None))"

definition RequestCall ::
  "phone_config \<Rightarrow> int \<Rightarrow> registry \<Rightarrow> int list \<Rightarrow> (nat \<Rightarrow> 64 word option) \<Rightarrow> 64 word option \<Rightarrow> int \<Rightarrow> call_request \<Rightarrow>
   (phone_error + phone_call) \<times> registry" where
  "RequestCall cfg now r ord draw rnd callerID req =
     (case validateProtocol (cr_Protocol req) of
        Some e \<Rightarrow> (Inl e, r)
      | None \<Rightarrow>
          if length (cr_GAHash req) \<noteq> gaHashSize then (Inl ErrProtocolFlagsInvalid, r)
          else let r = sweepTombstonesLocked r ord now (ttlSec cfg) in
            case live_retry r callerID (cr_RandomID req) of
              Some c \<Rightarrow> (Inr c, r)
            | None \<Rightarrow>
                if int (card (dom (rg_byID r))) \<ge> cf_MaxRegistryEntries cfg then (Inl ErrOccupyFailed, r)
                else if mget 0 (rg_active r) callerID \<ge> cf_MaxActivePerUser cfg then (Inl ErrOccupyFailed, r)
                else (case newIDLocked r draw of
                        Inl e \<Rightarrow> (Inl e, r)
                      | Inr i \<Rightarrow>
                          (case randomPositiveInt64 rnd of
                             Inl e \<Rightarrow> (Inl e, r)
                           | Inr accessHash \<Rightarrow>
                               let call = requested_call i accessHash callerID req now
                               in (Inr call,
                                   r\<lparr>rg_byID := (rg_byID r)(i \<mapsto> \<lparr>e_call = call, e_sigWindowSec = 0, e_sigCount = 0\<rparr>),
                                     rg_byRandom := (rg_byRandom r)((callerID, cr_RandomID req) \<mapsto> i),
                                     rg_active := (rg_active r)(callerID \<mapsto> mget 0 (rg_active r) callerID + 1)\<rparr>))))"

definition lookupLocked :: "registry \<Rightarrow> int \<Rightarrow> int \<Rightarrow> phone_error + entry" where
  "lookupLocked r callID accessHash =
     (case rg_byID r callID of
        None \<Rightarrow> Inl ErrPeerInvalid
      | Some e \<Rightarrow> if pc_AccessHash (e_call e) \<noteq> accessHash then Inl ErrPeerInvalid else Inr e)"

definition Lookup :: "registry \<Rightarrow> int \<Rightarrow> int \<Rightarrow> phone_call option" where
  "Lookup r callID accessHash =
     (case lookupLocked r callID accessHash of Inl _ \<Rightarrow> None | Inr e \<Rightarrow> Some (e_call e))"

definition ReceivedCall ::
  "int \<Rightarrow> registry \<Rightarrow> int \<Rightarrow> int \<Rightarrow> int \<Rightarrow> (phone_error + (phone_call \<times> bool)) \<times> registry" where
  "ReceivedCall now r userID callID accessHash =
     (case lookupLocked r callID accessHash of
        Inl err \<Rightarrow> (Inl err, r)
      | Inr e \<Rightarrow>
          if userID \<noteq> pc_ParticipantID (e_call e) then (Inl ErrPeerInvalid, r)
          else if pc_State (e_call e) = PhoneCallStateRequested
          then let c = (e_call e)\<lparr>pc_State := PhoneCallStateRinging, pc_ReceiveDate := now\<rparr>
               in (Inr (c, True), put_call r callID e c)
          else (Inr (e_call e, False), r))"

definition allZero :: "bytes \<Rightarrow> bool" where
  "allZero b \<longleftrightarrow> list_all (\<lambda>v. v = 0) b"

definition AcceptCall ::
  "registry \<Rightarrow> string list \<Rightarrow> int \<Rightarrow> int \<Rightarrow> int \<Rightarrow> bytes \<Rightarrow> call_protocol \<Rightarrow> session_ref \<Rightarrow>
   (phone_error + phone_call) \<times> registry" where
  "AcceptCall r ord userID callID accessHash gb proto device =
     (case validateProtocol proto of
        Some err \<Rightarrow> (Inl err, r)
      | None \<Rightarrow>
          if length gb \<noteq> call_dhPubSize \<or> allZero gb then (Inl ErrProtocolFlagsInvalid, r)
          else case lookupLocked r callID accessHash of
            Inl err \<Rightarrow> (Inl err, r)
          | Inr e \<Rightarrow>
              if userID \<noteq> pc_ParticipantID (e_call e) then (Inl ErrPeerInvalid, r)
              else if pc_State (e_call e) = PhoneCallStateAccepted \<or> pc_State (e_call e) = PhoneCallStateConfirmed
              then (Inl ErrAlreadyAccepted, r)
              else if pc_State (e_call e) = PhoneCallStateDiscarded then (Inl ErrAlreadyDeclined, r)
              else (case negotiateProtocol ord (pc_CallerProtocol (e_call e)) proto of
                      Inl err \<Rightarrow> (Inl err, r)
                    | Inr negotiated \<Rightarrow>
                        let c = (e_call e)\<lparr>pc_GB := gb, pc_CalleeProtocol := proto, pc_Protocol := negotiated,
                                          pc_CalleeDevice := device, pc_State := PhoneCallStateAccepted\<rparr>
                        in (Inr c, put_call r callID e c)))"

definition sha256Mismatch :: "(bytes \<Rightarrow> bytes) \<Rightarrow> bytes \<Rightarrow> bytes \<Rightarrow> bool" where
  "sha256Mismatch sha data want \<longleftrightarrow> sha data \<noteq> want"

text \<open>A mismatching reveal returns the discarded call together with the error (third component).\<close>

definition ConfirmCall ::
  "(bytes \<Rightarrow> bytes) \<Rightarrow> int \<Rightarrow> registry \<Rightarrow> int \<Rightarrow> int \<Rightarrow> int \<Rightarrow> bytes \<Rightarrow> int \<Rightarrow> call_protocol \<Rightarrow>
   (phone_call option \<times> bool \<times> phone_error option) \<times> registry" where
  "ConfirmCall sha now r userID callID accessHash ga keyFingerprint proto =
     (case lookupLocked r callID accessHash of
        Inl err \<Rightarrow> ((None, False, Some err), r)
      | Inr e \<Rightarrow>
          if userID \<noteq> pc_AdminID (e_call e) then ((None, False, Some ErrPeerInvalid), r)
          else if pc_State (e_call e) = PhoneCallStateConfirmed then ((None, False, Some ErrAlreadyAccepted), r)
          else if pc_State (e_call e) = PhoneCallStateDiscarded then ((None, False, Some ErrAlreadyDeclined), r)
          else if pc_State (e_call e) \<noteq> PhoneCallStateAccepted then ((None, False, Some ErrPeerInvalid), r)
          else (case validateProtocol proto of
                  Some err \<Rightarrow> ((None, False, Some err), r)
                | None \<Rightarrow>
                    if length ga \<noteq> call_dhPubSize \<or> sha256Mismatch sha ga (pc_GAHash (e_call e))
                    then let r' = markDiscardedLocked r callID e ReasonDisconnect 0 now
                         in ((map_option e_call (rg_byID r' callID), True, Some ErrGAHashMismatch), r')
                    else let c = (e_call e)\<lparr>pc_GA := ga, pc_KeyFingerprint := keyFingerprint, pc_StartDate := now,
                               pc_P2PAllowed := (pr_UDPP2P (pc_CallerProtocol (e_call e)) \<and>
                                 pr_UDPP2P (pc_CalleeProtocol (e_call e)) \<and> pc_PrivacyP2P (e_call e)),
                               pc_State := PhoneCallStateConfirmed\<rparr>
                         in ((Some c, False, None), put_call r callID e c)))"

definition DiscardCallWithSlug ::
  "int \<Rightarrow> registry \<Rightarrow> int \<Rightarrow> int \<Rightarrow> int \<Rightarrow> discard_reason \<Rightarrow> string \<Rightarrow> int \<Rightarrow>
   (phone_error + (phone_call \<times> bool)) \<times> registry" where
  "DiscardCallWithSlug now r userID callID accessHash reason reasonSlug duration =
     (case lookupLocked r callID accessHash of
        Inl err \<Rightarrow> (Inl err, r)
      | Inr e \<Rightarrow>
          if \<not> call_HasParticipant (e_call e) userID then (Inl ErrPeerInvalid, r)
          else if call_Terminal (e_call e) then (Inr (e_call e, True), r)
          else let reason = (if reason = ReasonNone then ReasonHangup else reason);
                   reasonSlug = (if reason \<noteq> ReasonMigrateConference then [] else reasonSlug);
                   duration = (if pc_StartDate (e_call e) = 0 \<or> duration < 0 then 0 else duration)
               in (Inr (discard_call (e_call e) reason reasonSlug duration now, False),
                   markDiscardedWithSlugLocked r callID e reason reasonSlug duration now))"

definition DiscardCall ::
  "int \<Rightarrow> registry \<Rightarrow> int \<Rightarrow> int \<Rightarrow> int \<Rightarrow> discard_reason \<Rightarrow> int \<Rightarrow> (phone_error + (phone_call \<times> bool)) \<times> registry" where
  "DiscardCall now r userID callID accessHash reason duration =
     DiscardCallWithSlug now r userID callID accessHash reason [] duration"

definition overdue :: "phone_config \<Rightarrow> int \<Rightarrow> phone_call \<Rightarrow> bool" where
  "overdue cfg now c \<longleftrightarrow> \<not> (call_Terminal c \<or> pc_State c = PhoneCallStateConfirmed) \<and>
     \<not> now - pc_Date c \<le> cf_RingTimeout cfg div 10 ^ 9"

definition expiry_reason :: "phone_call \<Rightarrow> discard_reason" where
  "expiry_reason c = (if pc_State c = PhoneCallStateAccepted then ReasonDisconnect else ReasonMissed)"

fun expire_calls :: "phone_config \<Rightarrow> int \<Rightarrow> registry \<Rightarrow> phone_call list \<Rightarrow> int list \<Rightarrow> phone_call list \<times> registry" where
  "expire_calls cfg now r expired [] = (expired, r)"
| "expire_calls cfg now r expired (i # ord) =
     (case rg_byID r i of
        None \<Rightarrow> expire_calls cfg now r expired ord
      | Some e \<Rightarrow>
          if \<not> overdue cfg now (e_call e) then expire_calls cfg now r expired ord
          else expire_calls cfg now (markDiscardedLocked r i e (expiry_reason (e_call e)) 0 now)
                 (expired @ [discard_call (e_call e) (expiry_reason (e_call e)) [] 0 now]) ord)"

definition ExpireDue :: "phone_config \<Rightarrow> int \<Rightarrow> registry \<Rightarrow> int list \<Rightarrow> int list \<Rightarrow> phone_call list \<times> registry" where
  "ExpireDue cfg now r ord ord' =
     (let (expired, r) = expire_calls cfg now r [] ord
      in (expired, sweepTombstonesLocked r ord' now (ttlSec cfg)))"

text \<open>Admission of one packet under the call's signalling mutex.\<close>

definition signal_admit :: "phone_config \<Rightarrow> int \<Rightarrow> entry \<Rightarrow> bool \<times> entry" where
  "signal_admit cfg nowSec e =
     (let e = (if e_sigWindowSec e \<noteq> nowSec then e\<lparr>e_sigWindowSec := nowSec, e_sigCount := 0\<rparr> else e)
      in if e_sigCount e \<ge> cf_SignalingRatePerSecond cfg then (False, e)
         else (True, e\<lparr>e_sigCount := e_sigCount e + 1\<rparr>))"

definition Signal ::
  "phone_config \<Rightarrow> int \<Rightarrow> registry \<Rightarrow> int \<Rightarrow> int \<Rightarrow> int \<Rightarrow> (phone_error + bool) \<times> (int \<times> session_ref) list \<times> registry" where
  "Signal cfg now r userID callID accessHash =
     (case lookupLocked r callID accessHash of
        Inl err \<Rightarrow> (Inl err, [], r)
      | Inr e \<Rightarrow>
          if \<not> call_HasParticipant (e_call e) userID then (Inl ErrPeerInvalid, [], r)
          else let peer = call_PeerOf (e_call e) userID;
                   peerDevice = (if peer = pc_AdminID (e_call e) then pc_CallerDevice (e_call e)
                                 else pc_CalleeDevice (e_call e))
               in if pc_State (e_call e) = PhoneCallStateDiscarded then (Inr True, [], r)
                  else if pc_State (e_call e) \<noteq> PhoneCallStateAccepted \<and> pc_State (e_call e) \<noteq> PhoneCallStateConfirmed
                  then (Inl ErrPeerInvalid, [], r)
                  else let (admitted, e') = signal_admit cfg now e;
                           r' = r\<lparr>rg_byID := (rg_byID r)(callID \<mapsto> e')\<rparr>
                       in if admitted then (Inr False, [(peer, peerDevice)], r') else (Inr True, [], r'))"

section \<open>Diffie-Hellman randomness\<close>

text \<open>\<open>read n\<close> is the outcome of filling a buffer of \<open>n\<close> bytes from \<open>crypto/rand\<close>.\<close>

definition maxDHRandomLength :: int where
  "maxDHRandomLength = 1024"

definition DHRandom :: "(nat \<Rightarrow> bytes option) \<Rightarrow> int \<Rightarrow> phone_error + bytes" where
  "DHRandom read n =
     (let n = (if n < 0 then 0 else n);
          n = (if n > maxDHRandomLength then maxDHRandomLength else n)
      in case read (nat n) of None \<Rightarrow> Inl ErrRandomID | Some buf \<Rightarrow> Inr buf)"

end
