(* ===== verification/Phone_Properties.thy ===== *)
theory Phone_Properties
  imports Phone_Call
begin

text \<open>
  Properties of the phone call registry.

  \<open>ph_step\<close> is one operation of the service on the registry, with the clock reading and the log of
  forwarded signalling packets beside it. Each operation is a sequence of four moves (update a live
  call, discard it, drop an old tombstone, insert a new call), so the invariant and the order on calls
  are shown once per move and lifted to the operations.
\<close>

section \<open>Moves\<close>

definition call_step :: "(bytes \<Rightarrow> bytes) \<Rightarrow> int \<Rightarrow> phone_call \<Rightarrow> phone_call \<Rightarrow> bool" where
  "call_step sha now c c' \<longleftrightarrow>
     (pc_State c = PhoneCallStateRequested \<and> c' = c\<lparr>pc_State := PhoneCallStateRinging, pc_ReceiveDate := now\<rparr>) \<or>
     ((pc_State c = PhoneCallStateRequested \<or> pc_State c = PhoneCallStateRinging) \<and>
        (\<exists>gb proto neg dev. length gb = 256 \<and> \<not> allZero gb \<and>
           c' = c\<lparr>pc_GB := gb, pc_CalleeProtocol := proto, pc_Protocol := neg, pc_CalleeDevice := dev,
                  pc_State := PhoneCallStateAccepted\<rparr>)) \<or>
     (pc_State c = PhoneCallStateAccepted \<and>
        (\<exists>ga kf p2p. length ga = 256 \<and> sha ga = pc_GAHash c \<and>
           c' = c\<lparr>pc_GA := ga, pc_KeyFingerprint := kf, pc_StartDate := now, pc_P2PAllowed := p2p,
                  pc_State := PhoneCallStateConfirmed\<rparr>))"

lemma call_step_accept:
  assumes "pc_State c = PhoneCallStateRequested \<or> pc_State c = PhoneCallStateRinging" "length gb = 256" "\<not> allZero gb"
  shows "call_step sha now c (c\<lparr>pc_GB := gb, pc_CalleeProtocol := proto, pc_Protocol := neg, pc_CalleeDevice := dev,
    pc_State := PhoneCallStateAccepted\<rparr>)"
  unfolding call_step_def using assms by blast

lemma call_step_confirm:
  assumes "pc_State c = PhoneCallStateAccepted" "length ga = 256" "sha ga = pc_GAHash c"
  shows "call_step sha now c (c\<lparr>pc_GA := ga, pc_KeyFingerprint := kf, pc_StartDate := now, pc_P2PAllowed := p2p,
    pc_State := PhoneCallStateConfirmed\<rparr>)"
  unfolding call_step_def using assms by blast

definition insert_call :: "registry \<Rightarrow> phone_call \<Rightarrow> registry" where
  "insert_call r call =
     r\<lparr>rg_byID := (rg_byID r)(pc_ID call \<mapsto> \<lparr>e_call = call, e_sigWindowSec = 0, e_sigCount = 0\<rparr>),
       rg_byRandom := (rg_byRandom r)((pc_AdminID call, pc_RandomID call) \<mapsto> pc_ID call),
       rg_active := (rg_active r)(pc_AdminID call \<mapsto> mget 0 (rg_active r) (pc_AdminID call) + 1)\<rparr>"

inductive reg_move :: "phone_config \<Rightarrow> (bytes \<Rightarrow> bytes) \<Rightarrow> int \<Rightarrow> registry \<Rightarrow> registry \<Rightarrow> bool"
  for cfg sha now where
  update: "rg_byID r i = Some e \<Longrightarrow> call_step sha now (e_call e) c \<Longrightarrow> reg_move cfg sha now r (put_call r i e c)"
| discard: "rg_byID r i = Some e \<Longrightarrow> \<not> call_Terminal (e_call e) \<Longrightarrow>
    reg_move cfg sha now r (markDiscardedWithSlugLocked r i e reason slug duration now)"
| sweep: "rg_byID r i = Some e \<Longrightarrow> call_Terminal (e_call e) \<Longrightarrow> now - pc_DiscardedAt (e_call e) > ttlSec cfg \<Longrightarrow>
    reg_move cfg sha now r (removeLocked r i e False)"
| insert: "rg_byID r (pc_ID c) = None \<Longrightarrow> live_retry r (pc_AdminID c) (pc_RandomID c) = None \<Longrightarrow>
    int (card (dom (rg_byID r))) < cf_MaxRegistryEntries cfg \<Longrightarrow>
    mget 0 (rg_active r) (pc_AdminID c) < cf_MaxActivePerUser cfg \<Longrightarrow>
    c = requested_call (pc_ID c) ah u req now \<Longrightarrow> length (cr_GAHash req) = 32 \<Longrightarrow>
    reg_move cfg sha now r (insert_call r c)"

abbreviation reg_moves :: "phone_config \<Rightarrow> (bytes \<Rightarrow> bytes) \<Rightarrow> int \<Rightarrow> registry \<Rightarrow> registry \<Rightarrow> bool" where
  "reg_moves cfg sha now \<equiv> (reg_move cfg sha now)\<^sup>*\<^sup>*"

text \<open>Every operation of the service but \<open>Signal\<close> is a sequence of moves.\<close>

lemma sweep_moves: "reg_moves cfg sha now r (sweepTombstonesLocked r ord now (ttlSec cfg))"
proof (induction ord arbitrary: r)
  case (Cons i ord)
  then show ?case
    by (auto split: option.splits intro: converse_rtranclp_into_rtranclp reg_move.sweep)
qed simp

lemma expire_moves: "reg_moves cfg sha now r (snd (expire_calls cfg now r ds ord))"
proof (induction ord arbitrary: r ds)
  case (Cons i ord)
  then show ?case
    by (auto simp: overdue_def markDiscardedLocked_def split: option.splits
        intro: converse_rtranclp_into_rtranclp reg_move.discard)
qed simp

lemma ExpireDue_moves: "ExpireDue cfg now r ord ord' = (ds, r') \<Longrightarrow> reg_moves cfg sha now r r'"
  using expire_moves[of cfg sha now r "[]" ord] sweep_moves
  by (auto simp: ExpireDue_def split: prod.splits intro: rtranclp_trans)

lemma newID_fresh: "newID_loop r draw i n = Inr v \<Longrightarrow> rg_byID r v = None"
  by (induction r draw i n rule: newID_loop.induct) (auto split: sum.splits if_splits)

lemma RequestCall_moves:
  assumes "RequestCall cfg now r ord draw rnd u req = (res, r')"
  shows "reg_moves cfg sha now r r'"
proof -
  let ?r = "sweepTombstonesLocked r ord now (ttlSec cfg)"
  have "r' = r \<or> r' = ?r \<or> (\<exists>i ah. newIDLocked ?r draw = Inr i \<and> live_retry ?r u (cr_RandomID req) = None \<and>
      int (card (dom (rg_byID ?r))) < cf_MaxRegistryEntries cfg \<and> mget 0 (rg_active ?r) u < cf_MaxActivePerUser cfg \<and>
      length (cr_GAHash req) = 32 \<and> r' = insert_call ?r (requested_call i ah u req now))"
    using assms by (auto simp: RequestCall_def Let_def gaHashSize_def insert_call_def requested_call_def
        split: option.splits if_splits sum.splits)
  moreover have "reg_move cfg sha now ?r (insert_call ?r (requested_call i ah u req now))"
    if "newIDLocked ?r draw = Inr i" "live_retry ?r u (cr_RandomID req) = None"
      "int (card (dom (rg_byID ?r))) < cf_MaxRegistryEntries cfg" "mget 0 (rg_active ?r) u < cf_MaxActivePerUser cfg"
      "length (cr_GAHash req) = 32" for i ah
    using that newID_fresh[of ?r draw 0 32 i]
    by (intro reg_move.insert[where ah = ah and u = u and req = req])
      (auto simp: newIDLocked_def requested_call_def)
  ultimately have "r' = r \<or> r' = ?r \<or> reg_move cfg sha now ?r r'"
    by blast
  then show ?thesis
    using sweep_moves[of cfg sha now r ord] by (auto intro: rtranclp.rtrancl_into_rtrancl)
qed

lemma lookup_Inr: "lookupLocked r i ah = Inr e \<longleftrightarrow> rg_byID r i = Some e \<and> pc_AccessHash (e_call e) = ah"
  by (auto simp: lookupLocked_def split: option.splits if_splits)

lemma ReceivedCall_moves: "ReceivedCall now r u i ah = (res, r') \<Longrightarrow> reg_moves cfg sha now r r'"
  by (auto simp: ReceivedCall_def lookup_Inr call_step_def Let_def split: sum.splits if_splits
      intro!: r_into_rtranclp reg_move.update)

lemma AcceptCall_moves:
  assumes "AcceptCall r ord u i ah gb proto dev = (res, r')"
  shows "reg_moves cfg sha now r r'"
proof (cases "r' = r")
  case False
  then obtain e neg where e: "rg_byID r i = Some e" "length gb = 256" "\<not> allZero gb"
    "pc_State (e_call e) \<notin> {PhoneCallStateAccepted, PhoneCallStateConfirmed, PhoneCallStateDiscarded}"
    "r' = put_call r i e ((e_call e)\<lparr>pc_GB := gb, pc_CalleeProtocol := proto, pc_Protocol := neg,
        pc_CalleeDevice := dev, pc_State := PhoneCallStateAccepted\<rparr>)"
    using assms by (auto simp: AcceptCall_def lookup_Inr call_dhPubSize_def Let_def
        split: option.splits sum.splits if_splits)
  then have "pc_State (e_call e) = PhoneCallStateRequested \<or> pc_State (e_call e) = PhoneCallStateRinging"
    by (cases "pc_State (e_call e)") auto
  then show ?thesis
    unfolding e(5) using e(1-3) by (intro r_into_rtranclp reg_move.update call_step_accept)
qed simp

lemma ConfirmCall_moves:
  assumes "ConfirmCall sha now r u i ah ga kf proto = (res, r')"
  shows "reg_moves cfg sha now r r'"
proof (cases "r' = r")
  case False
  then obtain e p2p where e: "rg_byID r i = Some e" "pc_State (e_call e) = PhoneCallStateAccepted"
    "r' = markDiscardedLocked r i e ReasonDisconnect 0 now \<or>
     length ga = 256 \<and> sha ga = pc_GAHash (e_call e) \<and>
     r' = put_call r i e ((e_call e)\<lparr>pc_GA := ga, pc_KeyFingerprint := kf, pc_StartDate := now,
        pc_P2PAllowed := p2p, pc_State := PhoneCallStateConfirmed\<rparr>)"
    using assms by (auto simp: ConfirmCall_def lookup_Inr call_dhPubSize_def sha256Mismatch_def Let_def
        split: option.splits sum.splits if_splits)
  then have "reg_move cfg sha now r r'"
  proof (elim disjE conjE)
    assume "r' = markDiscardedLocked r i e ReasonDisconnect 0 now"
    then show ?thesis
      using e(1,2) by (auto simp: markDiscardedLocked_def call_Terminal_def intro: reg_move.discard)
  next
    assume "length ga = 256" "sha ga = pc_GAHash (e_call e)"
      "r' = put_call r i e ((e_call e)\<lparr>pc_GA := ga, pc_KeyFingerprint := kf, pc_StartDate := now,
        pc_P2PAllowed := p2p, pc_State := PhoneCallStateConfirmed\<rparr>)"
    then show ?thesis
      using e(1,2) by (simp add: reg_move.update call_step_confirm)
  qed
  then show ?thesis ..
qed simp

lemma DiscardCall_moves: "DiscardCallWithSlug now r u i ah reason slug dur = (res, r') \<Longrightarrow> reg_moves cfg sha now r r'"
  by (auto simp: DiscardCallWithSlug_def lookup_Inr Let_def split: sum.splits if_splits
      intro!: r_into_rtranclp reg_move.discard)

section \<open>The registry invariant\<close>

definition live_of :: "registry \<Rightarrow> int \<Rightarrow> int set" where
  "live_of r u = {i. \<exists>e. rg_byID r i = Some e \<and> \<not> call_Terminal (e_call e) \<and> pc_AdminID (e_call e) = u}"

definition active_count :: "nat \<Rightarrow> int option" where
  "active_count n = (if n = 0 then None else Some (int n))"

definition call_ok :: "(bytes \<Rightarrow> bytes) \<Rightarrow> int \<Rightarrow> phone_call \<Rightarrow> bool" where
  "call_ok sha i c \<longleftrightarrow> pc_ID c = i \<and> length (pc_GAHash c) = 32 \<and>
     (pc_State c = PhoneCallStateAccepted \<or> pc_State c = PhoneCallStateConfirmed \<longrightarrow>
        length (pc_GB c) = 256 \<and> \<not> allZero (pc_GB c)) \<and>
     (pc_State c = PhoneCallStateConfirmed \<longrightarrow> length (pc_GA c) = 256 \<and> sha (pc_GA c) = pc_GAHash c)"

definition key_of :: "phone_call \<Rightarrow> int \<times> int" where
  "key_of c = (pc_AdminID c, pc_RandomID c)"

definition reg_ok :: "phone_config \<Rightarrow> (bytes \<Rightarrow> bytes) \<Rightarrow> registry \<Rightarrow> bool" where
  "reg_ok cfg sha r \<longleftrightarrow> finite (dom (rg_byID r)) \<and>
     (\<forall>i e. rg_byID r i = Some e \<longrightarrow> call_ok sha i (e_call e)) \<and>
     (\<forall>u. rg_active r u = active_count (card (live_of r u))) \<and>
     (\<forall>i e. rg_byID r i = Some e \<longrightarrow> \<not> call_Terminal (e_call e) \<longrightarrow> rg_byRandom r (key_of (e_call e)) = Some i) \<and>
     (\<forall>k i. rg_byRandom r k = Some i \<longrightarrow> (\<exists>e. rg_byID r i = Some e \<and> key_of (e_call e) = k)) \<and>
     (\<forall>u. int (card (live_of r u)) \<le> cf_MaxActivePerUser cfg) \<and>
     int (card (dom (rg_byID r))) \<le> cf_MaxRegistryEntries cfg"

lemma reg_okD:
  assumes "reg_ok cfg sha r"
  shows "finite (dom (rg_byID r))" "rg_byID r i = Some e \<Longrightarrow> call_ok sha i (e_call e)"
    "rg_active r u = active_count (card (live_of r u))"
    "rg_byID r i = Some e \<Longrightarrow> \<not> call_Terminal (e_call e) \<Longrightarrow> rg_byRandom r (key_of (e_call e)) = Some i"
    "rg_byRandom r k = Some i \<Longrightarrow> \<exists>e. rg_byID r i = Some e \<and> key_of (e_call e) = k"
    "int (card (live_of r u)) \<le> cf_MaxActivePerUser cfg"
    "int (card (dom (rg_byID r))) \<le> cf_MaxRegistryEntries cfg"
  using assms by (simp_all add: reg_ok_def del: split_paired_All)

lemma live_of_sub: "live_of r u \<subseteq> dom (rg_byID r)"
  by (auto simp: live_of_def)

lemma live_of_finite: "reg_ok cfg sha r \<Longrightarrow> finite (live_of r u)"
  using live_of_sub reg_okD(1) by (rule finite_subset)

lemma mget_active_count: "mget 0 (rg_active r) u = int n" if "rg_active r u = active_count n"
  using that by (simp add: active_count_def mget_def)

lemma dec_active_count:
  assumes "a u = active_count n"
  shows "decActiveLocked a u = a(u := active_count (n - 1))"
  using assms by (auto simp: decActiveLocked_def active_count_def mget_def Let_def)

lemma put_entry_ok:
  assumes "reg_ok cfg sha r" "rg_byID r i = Some e" "call_ok sha i (e_call e')"
    "key_of (e_call e') = key_of (e_call e)" "call_Terminal (e_call e') = call_Terminal (e_call e)"
  shows "reg_ok cfg sha (r\<lparr>rg_byID := (rg_byID r)(i \<mapsto> e')\<rparr>)"
proof -
  let ?r = "r\<lparr>rg_byID := (rg_byID r)(i \<mapsto> e')\<rparr>"
  have live: "live_of ?r u = live_of r u" for u
    using assms(2,4,5) by (auto simp: live_of_def key_of_def)
  have dom: "dom (rg_byID ?r) = dom (rg_byID r)"
    using assms(2) by auto
  have idx: "\<exists>e. rg_byID ?r j = Some e \<and> key_of (e_call e) = k" if "rg_byRandom r k = Some j" for k j
    using reg_okD(5)[OF assms(1) that] assms(2,4) by auto
  show ?thesis
    unfolding reg_ok_def live dom using reg_okD(1-4,6,7)[OF assms(1)] assms(2-5) idx by (auto split: if_splits)
qed

lemma discard_ok:
  assumes "reg_ok cfg sha r" "rg_byID r i = Some e" "\<not> call_Terminal (e_call e)"
  shows "reg_ok cfg sha (markDiscardedWithSlugLocked r i e reason slug duration now)"
proof -
  let ?c = "discard_call (e_call e) reason slug duration now"
  let ?u = "pc_AdminID (e_call e)"
  let ?r = "markDiscardedWithSlugLocked r i e reason slug duration now"
  have mem: "i \<in> live_of r ?u"
    using assms(2,3) by (simp add: live_of_def)
  have t: "call_Terminal ?c" and k: "key_of ?c = key_of (e_call e)"
    by (simp_all add: call_Terminal_def discard_call_def key_of_def)
  have ok: "call_ok sha i ?c"
    using reg_okD(2)[OF assms(1,2)] by (simp add: call_ok_def discard_call_def)
  have r: "rg_byID ?r = (rg_byID r)(i \<mapsto> e\<lparr>e_call := ?c\<rparr>)" "rg_byRandom ?r = rg_byRandom r"
    "rg_active ?r = (rg_active r)(?u := active_count (card (live_of r ?u) - 1))"
    using assms(3) dec_active_count[of "rg_active r" ?u, OF reg_okD(3)[OF assms(1)]]
    by (simp_all add: markDiscardedWithSlugLocked_def put_call_def Let_def)
  have live: "live_of ?r u = (if u = ?u then live_of r u - {i} else live_of r u)" for u
    using assms(2) t by (auto simp: live_of_def r)
  have card: "card (live_of ?r u) = (if u = ?u then card (live_of r u) - 1 else card (live_of r u))" for u
    using mem live_of_finite[OF assms(1)] by (simp add: live)
  have dom: "dom (rg_byID ?r) = dom (rg_byID r)"
    using assms(2) by (auto simp: r)
  have idx: "\<exists>e. rg_byID ?r j = Some e \<and> key_of (e_call e) = k" if "rg_byRandom r k = Some j" for k j
    using reg_okD(5)[OF assms(1) that] assms(2) k by (auto simp: r)
  have "int (card (live_of r u) - 1) \<le> cf_MaxActivePerUser cfg" for u
    using reg_okD(6)[OF assms(1), of u] by linarith
  then show ?thesis
    unfolding reg_ok_def card dom
    using reg_okD(1-4,6,7)[OF assms(1)] assms(2) ok k t idx by (auto simp: r split: if_splits)
qed

lemma sweep_ok:
  assumes "reg_ok cfg sha r" "rg_byID r i = Some e" "call_Terminal (e_call e)"
  shows "reg_ok cfg sha (removeLocked r i e False)"
proof -
  let ?r = "removeLocked r i e False"
  let ?k = "key_of (e_call e)"
  have r: "rg_byID ?r = (rg_byID r)(i := None)" "rg_active ?r = rg_active r"
    "rg_byRandom ?r = (if rg_byRandom r ?k = Some i then (rg_byRandom r)(?k := None) else rg_byRandom r)"
    by (simp_all add: removeLocked_def Let_def key_of_def)
  have live: "live_of ?r u = live_of r u" for u
    using assms(2,3) by (auto simp: live_of_def r split: if_splits)
  have dom: "dom (rg_byID ?r) = dom (rg_byID r) - {i}"
    by (auto simp: r)
  have "card (dom (rg_byID r) - {i}) \<le> card (dom (rg_byID r))"
    using reg_okD(1)[OF assms(1)] by (intro card_mono) auto
  moreover have "rg_byRandom ?r (key_of (e_call e')) = Some j"
    if "rg_byID ?r j = Some e'" "\<not> call_Terminal (e_call e')" for j e'
    using that reg_okD(4)[OF assms(1), of j e'] by (auto simp: r split: if_splits)
  moreover have "\<exists>e. rg_byID ?r j = Some e \<and> key_of (e_call e) = k" if "rg_byRandom ?r k = Some j" for k j
    using that reg_okD(5)[OF assms(1), of k j] assms(2) by (auto simp: r split: if_splits)
  ultimately show ?thesis
    unfolding reg_ok_def live dom using reg_okD[OF assms(1)] by (auto simp: r split: if_splits)
qed

lemma insert_ok:
  assumes "reg_ok cfg sha r" "rg_byID r (pc_ID c) = None" "live_retry r (pc_AdminID c) (pc_RandomID c) = None"
    "int (card (dom (rg_byID r))) < cf_MaxRegistryEntries cfg"
    "mget 0 (rg_active r) (pc_AdminID c) < cf_MaxActivePerUser cfg"
    "pc_State c = PhoneCallStateRequested" "length (pc_GAHash c) = 32"
  shows "reg_ok cfg sha (insert_call r c)"
proof -
  let ?r = "insert_call r c" and ?u = "pc_AdminID c" and ?i = "pc_ID c"
  note act = mget_active_count[OF reg_okD(3)[OF assms(1)]]
  have nt: "\<not> call_Terminal c" and ok: "call_ok sha ?i c"
    using assms(6,7) by (simp_all add: call_Terminal_def call_ok_def)
  have r: "rg_byID ?r = (rg_byID r)(?i \<mapsto> \<lparr>e_call = c, e_sigWindowSec = 0, e_sigCount = 0\<rparr>)"
    "rg_byRandom ?r = (rg_byRandom r)(key_of c \<mapsto> ?i)"
    "rg_active ?r = (rg_active r)(?u \<mapsto> int (card (live_of r ?u)) + 1)"
    by (simp_all add: insert_call_def key_of_def act)
  have live: "live_of ?r u = (if u = ?u then insert ?i (live_of r u) else live_of r u)" for u
    using assms(2) nt by (auto simp: live_of_def r)
  have new: "?i \<notin> live_of r u" for u
    using assms(2) by (simp add: live_of_def)
  have card: "card (live_of ?r u) = (if u = ?u then Suc (card (live_of r u)) else card (live_of r u))" for u
    using new live_of_finite[OF assms(1)] by (simp add: live)
  have dom: "dom (rg_byID ?r) = insert ?i (dom (rg_byID r))" "?i \<notin> dom (rg_byID r)"
    using assms(2) by (auto simp: r)
  have unk: "key_of (e_call e) \<noteq> key_of c" if "rg_byID r i = Some e" "\<not> call_Terminal (e_call e)" for i e
    using assms(3) that reg_okD(4)[OF assms(1), of i e] by (auto simp: live_retry_def key_of_def)
  have gone: "\<exists>e. rg_byID ?r i = Some e \<and> key_of (e_call e) = k" if "rg_byRandom ?r k = Some i" for k i
    using that reg_okD(5)[OF assms(1), of k i] assms(2) by (auto simp: r split: if_splits)
  show ?thesis
    unfolding reg_ok_def card dom
    using reg_okD[OF assms(1)] assms(2,4,5) ok dom(2) unk gone act[of ?u]
    by (auto simp: r active_count_def split: if_splits)
qed

lemma move_ok: "reg_move cfg sha now r r' \<Longrightarrow> reg_ok cfg sha r \<Longrightarrow> reg_ok cfg sha r'"
proof (induction rule: reg_move.induct)
  case (update r i e c)
  have "call_ok sha i c" "key_of c = key_of (e_call e)" "call_Terminal c = call_Terminal (e_call e)"
    using update(2) reg_okD(2)[OF update(3,1)]
    by (auto simp: call_step_def call_ok_def key_of_def call_Terminal_def)
  then show ?case
    using put_entry_ok[OF update(3,1), of "e\<lparr>e_call := c\<rparr>"] by (simp add: put_call_def)
next
  case (insert r c ah u req)
  have "pc_State c = PhoneCallStateRequested" "length (pc_GAHash c) = 32"
    using insert(6) by (subst insert(5), simp add: requested_call_def)+
  then show ?case
    using insert_ok insert by blast
qed (auto intro: discard_ok sweep_ok)

lemma moves_ok: "reg_moves cfg sha now r r' \<Longrightarrow> reg_ok cfg sha r \<Longrightarrow> reg_ok cfg sha r'"
  by (induction rule: rtranclp_induct) (auto intro: move_ok)

section \<open>The order on calls\<close>

primrec call_rank :: "call_state \<Rightarrow> nat" where
  "call_rank PhoneCallStateRequested = 0"
| "call_rank PhoneCallStateRinging = 1"
| "call_rank PhoneCallStateAccepted = 2"
| "call_rank PhoneCallStateConfirmed = 3"
| "call_rank PhoneCallStateDiscarded = 4"

text \<open>What the two parties, the request and the caller's commitment fix for the whole life of a call.\<close>

definition same_call :: "phone_call \<Rightarrow> phone_call \<Rightarrow> bool" where
  "same_call c c' \<longleftrightarrow> pc_ID c' = pc_ID c \<and> pc_AccessHash c' = pc_AccessHash c \<and> pc_AdminID c' = pc_AdminID c \<and>
     pc_ParticipantID c' = pc_ParticipantID c \<and> pc_Video c' = pc_Video c \<and> pc_Date c' = pc_Date c \<and>
     pc_GAHash c' = pc_GAHash c \<and> pc_CallerProtocol c' = pc_CallerProtocol c \<and> pc_PrivacyP2P c' = pc_PrivacyP2P c \<and>
     pc_Connections c' = pc_Connections c \<and> pc_RandomID c' = pc_RandomID c \<and> pc_CallerDevice c' = pc_CallerDevice c"

definition call_le :: "int \<Rightarrow> phone_call \<Rightarrow> phone_call \<Rightarrow> bool" where
  "call_le now c c' \<longleftrightarrow> same_call c c' \<and> call_rank (pc_State c) \<le> call_rank (pc_State c') \<and>
     (call_rank (pc_State c) \<ge> 2 \<longrightarrow> pc_GB c' = pc_GB c \<and> pc_Protocol c' = pc_Protocol c \<and>
        pc_CalleeProtocol c' = pc_CalleeProtocol c \<and> pc_CalleeDevice c' = pc_CalleeDevice c) \<and>
     (call_rank (pc_State c) \<ge> 3 \<longrightarrow> pc_GA c' = pc_GA c \<and> pc_KeyFingerprint c' = pc_KeyFingerprint c \<and>
        pc_StartDate c' = pc_StartDate c \<and> pc_P2PAllowed c' = pc_P2PAllowed c) \<and>
     (call_Terminal c \<longrightarrow> c' = c) \<and> (call_Terminal c' \<and> \<not> call_Terminal c \<longrightarrow> pc_DiscardedAt c' = now)"

definition tombstone_due :: "phone_config \<Rightarrow> int \<Rightarrow> phone_call \<Rightarrow> bool" where
  "tombstone_due cfg now c \<longleftrightarrow> call_Terminal c \<and> now - pc_DiscardedAt c > ttlSec cfg"

definition entry_le :: "phone_config \<Rightarrow> int \<Rightarrow> registry \<Rightarrow> registry \<Rightarrow> bool" where
  "entry_le cfg now r r' \<longleftrightarrow> (\<forall>i e. rg_byID r i = Some e \<longrightarrow>
     tombstone_due cfg now (e_call e) \<or> (\<exists>e'. rg_byID r' i = Some e' \<and> call_le now (e_call e) (e_call e')))"

lemma call_le_refl: "call_le now c c"
  by (simp add: call_le_def same_call_def)

lemma call_le_trans: "call_le now a b \<Longrightarrow> call_le now b c \<Longrightarrow> call_le now a c"
  by (auto simp: call_le_def same_call_def)

lemma call_step_le: "call_step sha now c c' \<Longrightarrow> call_le now c c'"
  by (auto simp: call_step_def call_le_def same_call_def call_Terminal_def)

lemma discard_le:
  assumes "\<not> call_Terminal c"
  shows "call_le now c (discard_call c reason slug duration now)"
proof -
  have "call_rank (pc_State c) \<le> 4"
    by (cases "pc_State c") simp_all
  then show ?thesis
    using assms by (simp add: call_le_def discard_call_def same_call_def)
qed

lemma entry_le_refl: "entry_le cfg now r r"
  using call_le_refl by (auto simp: entry_le_def)

lemma entry_le_trans:
  assumes "entry_le cfg now a b" "entry_le cfg now b c" "0 \<le> ttlSec cfg"
  shows "entry_le cfg now a c"
  unfolding entry_le_def
proof (intro allI impI)
  fix i e
  assume e: "rg_byID a i = Some e"
  show "tombstone_due cfg now (e_call e) \<or> (\<exists>e'. rg_byID c i = Some e' \<and> call_le now (e_call e) (e_call e'))"
  proof (cases "tombstone_due cfg now (e_call e)")
    case False
    then obtain e1 where e1: "rg_byID b i = Some e1" "call_le now (e_call e) (e_call e1)"
      using assms(1) e by (auto simp: entry_le_def)
    moreover have "\<not> tombstone_due cfg now (e_call e1)"
      using False e1(2) assms(3) by (auto simp: tombstone_due_def call_le_def)
    ultimately obtain e2 where "rg_byID c i = Some e2" "call_le now (e_call e1) (e_call e2)"
      using assms(2) by (auto simp: entry_le_def)
    then show ?thesis
      using e1(2) call_le_trans by blast
  qed simp
qed

lemma move_le: "reg_move cfg sha now r r' \<Longrightarrow> entry_le cfg now r r'"
proof (induction rule: reg_move.induct)
  case (update r i e c)
  then show ?case
    using call_step_le by (auto simp: entry_le_def put_call_def call_le_refl)
next
  case (discard r i e reason slug duration)
  then show ?case
    using discard_le by (auto simp: entry_le_def markDiscardedWithSlugLocked_def put_call_def Let_def call_le_refl)
next
  case (sweep r i e)
  then show ?case
    by (auto simp: entry_le_def removeLocked_def Let_def tombstone_due_def call_le_refl)
next
  case (insert r c ah u req)
  then show ?case
    by (auto simp: entry_le_def insert_call_def call_le_refl)
qed

lemma moves_le: "reg_moves cfg sha now r r' \<Longrightarrow> 0 \<le> ttlSec cfg \<Longrightarrow> entry_le cfg now r r'"
  by (induction rule: rtranclp_induct) (auto intro: entry_le_refl entry_le_trans move_le)

section \<open>The system\<close>

type_synonym ph_sys = "registry \<times> int \<times> (int \<times> int) list"

inductive ph_step :: "phone_config \<Rightarrow> (bytes \<Rightarrow> bytes) \<Rightarrow> ph_sys \<Rightarrow> ph_sys \<Rightarrow> bool" for cfg sha where
  request: "now \<le> now' \<Longrightarrow> RequestCall cfg now' r ord draw rnd u req = (res, r') \<Longrightarrow>
    ph_step cfg sha (r, now, log) (r', now', log)"
| received: "now \<le> now' \<Longrightarrow> ReceivedCall now' r u i ah = (res, r') \<Longrightarrow>
    ph_step cfg sha (r, now, log) (r', now', log)"
| accept: "now \<le> now' \<Longrightarrow> AcceptCall r vs u i ah gb proto dev = (res, r') \<Longrightarrow>
    ph_step cfg sha (r, now, log) (r', now', log)"
| confirm: "now \<le> now' \<Longrightarrow> ConfirmCall sha now' r u i ah ga kf proto = (res, r') \<Longrightarrow>
    ph_step cfg sha (r, now, log) (r', now', log)"
| discard: "now \<le> now' \<Longrightarrow> DiscardCallWithSlug now' r u i ah reason slug dur = (res, r') \<Longrightarrow>
    ph_step cfg sha (r, now, log) (r', now', log)"
| expire: "now \<le> now' \<Longrightarrow> ExpireDue cfg now' r ord ord' = (ds, r') \<Longrightarrow>
    ph_step cfg sha (r, now, log) (r', now', log)"
| signal: "now \<le> now' \<Longrightarrow> Signal cfg now' r u i ah = (res, fw, r') \<Longrightarrow>
    ph_step cfg sha (r, now, log) (r', now', map (\<lambda>_. (i, now')) fw @ log)"

inductive ph_reach :: "phone_config \<Rightarrow> (bytes \<Rightarrow> bytes) \<Rightarrow> ph_sys \<Rightarrow> bool" for cfg sha where
  start: "0 \<le> now \<Longrightarrow> ph_reach cfg sha (newRegistry, now, [])"
| step: "ph_reach cfg sha x \<Longrightarrow> ph_step cfg sha x y \<Longrightarrow> ph_reach cfg sha y"

lemma Signal_cases:
  assumes "Signal cfg now r u i ah = (res, fw, r')"
  shows "(fw = [] \<and> r' = r) \<or>
    (\<exists>e adm e'. rg_byID r i = Some e \<and> \<not> call_Terminal (e_call e) \<and> call_HasParticipant (e_call e) u \<and>
       signal_admit cfg now e = (adm, e') \<and> r' = r\<lparr>rg_byID := (rg_byID r)(i \<mapsto> e')\<rparr> \<and>
       length fw = (if adm then 1 else 0))"
proof (cases "lookupLocked r i ah")
  case (Inr e)
  obtain adm e' where adm: "signal_admit cfg now e = (adm, e')"
    by (cases "signal_admit cfg now e")
  let ?go = "call_HasParticipant (e_call e) u \<and>
    (pc_State (e_call e) = PhoneCallStateAccepted \<or> pc_State (e_call e) = PhoneCallStateConfirmed)"
  show ?thesis
  proof (cases ?go)
    case True
    then have "r' = r\<lparr>rg_byID := (rg_byID r)(i \<mapsto> e')\<rparr> \<and> length fw = (if adm then 1 else 0)"
      using assms Inr adm by (cases adm) (auto simp: Signal_def Let_def)
    then show ?thesis
      using True adm Inr by (auto simp: lookup_Inr call_Terminal_def)
  next
    case False
    then show ?thesis
      using assms Inr by (cases "call_HasParticipant (e_call e) u"; cases "pc_State (e_call e)") (simp_all add: Signal_def)
  qed
qed (use assms in \<open>simp add: Signal_def\<close>)

lemma signal_admit_call: "signal_admit cfg now e = (adm, e') \<Longrightarrow> e_call e' = e_call e"
  by (auto simp: signal_admit_def Let_def split: if_splits)

lemma ph_step_cases:
  assumes "ph_step cfg sha (r, now, log) (r', now', log')"
  shows "now \<le> now' \<and> ((reg_moves cfg sha now' r r' \<and> log' = log) \<or>
    (\<exists>i e adm e'. rg_byID r i = Some e \<and> \<not> call_Terminal (e_call e) \<and> signal_admit cfg now' e = (adm, e') \<and>
       r' = r\<lparr>rg_byID := (rg_byID r)(i \<mapsto> e')\<rparr> \<and> log' = (if adm then [(i, now')] else []) @ log))"
  using assms
proof (cases rule: ph_step.cases)
  case (signal u i ah res fw)
  then show ?thesis
    using Signal_cases[OF signal(3)] by (auto simp: length_Suc_conv split: if_splits) blast+
qed (auto intro: RequestCall_moves ReceivedCall_moves AcceptCall_moves ConfirmCall_moves DiscardCall_moves ExpireDue_moves)

lemma ph_step_reg:
  assumes "ph_step cfg sha (r, now, log) (r', now', log')" "reg_ok cfg sha r" "0 \<le> ttlSec cfg"
  shows "reg_ok cfg sha r' \<and> entry_le cfg now' r r'"
proof -
  consider "reg_moves cfg sha now' r r'"
    | i e adm e' where "rg_byID r i = Some e" "signal_admit cfg now' e = (adm, e')"
      "r' = r\<lparr>rg_byID := (rg_byID r)(i \<mapsto> e')\<rparr>"
    using ph_step_cases[OF assms(1)] by blast
  then show ?thesis
  proof cases
    case 1
    then show ?thesis using moves_ok moves_le assms(2,3) by blast
  next
    case 2
    note c = signal_admit_call[OF 2(2)]
    have "reg_ok cfg sha r'"
      unfolding 2(3) using 2(1) c reg_okD(2)[OF assms(2) 2(1)] by (intro put_entry_ok[OF assms(2)]) simp_all
    then show ?thesis
      using 2 c by (auto simp: entry_le_def call_le_refl)
  qed
qed

section \<open>Signalling rate\<close>

definition sig_entry_ok :: "int \<Rightarrow> (int \<times> int) list \<Rightarrow> int \<Rightarrow> entry \<Rightarrow> bool" where
  "sig_entry_ok now log i e \<longleftrightarrow> e_sigWindowSec e \<le> now \<and>
     (\<forall>t. (i, t) \<in> set log \<longrightarrow> pc_Date (e_call e) \<le> t \<longrightarrow> t \<le> e_sigWindowSec e) \<and>
     (pc_Date (e_call e) \<le> e_sigWindowSec e \<longrightarrow> int (count_list log (i, e_sigWindowSec e)) \<le> e_sigCount e) \<and>
     pc_Date (e_call e) \<le> now \<and>
     (call_Terminal (e_call e) \<longrightarrow> (\<forall>t. (i, t) \<in> set log \<longrightarrow> t \<le> pc_DiscardedAt (e_call e)))"

definition sig_ok :: "phone_config \<Rightarrow> registry \<Rightarrow> int \<Rightarrow> (int \<times> int) list \<Rightarrow> bool" where
  "sig_ok cfg r now log \<longleftrightarrow> 0 \<le> now \<and> (\<forall>i t. (i, t) \<in> set log \<longrightarrow> t \<le> now) \<and>
     (\<forall>i t. int (count_list log (i, t)) \<le> cf_SignalingRatePerSecond cfg) \<and>
     (\<forall>i t. (i, t) \<in> set log \<longrightarrow> rg_byID r i = None \<longrightarrow> t < now) \<and>
     (\<forall>i e. rg_byID r i = Some e \<longrightarrow> sig_entry_ok now log i e)"

lemma sig_okD:
  assumes "sig_ok cfg r now log"
  shows "0 \<le> now" "(i, t) \<in> set log \<Longrightarrow> t \<le> now"
    "int (count_list log (i, t)) \<le> cf_SignalingRatePerSecond cfg"
    "(i, t) \<in> set log \<Longrightarrow> rg_byID r i = None \<Longrightarrow> t < now"
    "rg_byID r i = Some e \<Longrightarrow> sig_entry_ok now log i e"
  using assms by (simp_all add: sig_ok_def)

lemma sig_ok_later:
  assumes "sig_ok cfg r now log" "now \<le> now'"
  shows "sig_ok cfg r now' log"
proof -
  have "t \<le> now'" if "(i, t) \<in> set log" for i t
    using sig_okD(2)[OF assms(1) that] assms(2) by simp
  moreover have "t < now'" if "(i, t) \<in> set log" "rg_byID r i = None" for i t
    using sig_okD(4)[OF assms(1) that] assms(2) by simp
  moreover have "sig_entry_ok now' log i e" if "rg_byID r i = Some e" for i e
    using sig_okD(5)[OF assms(1) that] assms(2) by (auto simp: sig_entry_ok_def)
  ultimately show ?thesis
    using sig_okD(1,3)[OF assms(1)] assms(2) by (auto simp: sig_ok_def)
qed

lemma sig_ok_put:
  assumes "sig_ok cfg r now log" "sig_entry_ok now log i e" "rg_byID r' = (rg_byID r)(i \<mapsto> e)"
  shows "sig_ok cfg r' now log"
  using sig_okD[OF assms(1)] assms(2,3) by (auto simp: sig_ok_def)

lemma sig_entry_call:
  assumes "sig_entry_ok now log i e" "pc_Date c = pc_Date (e_call e)" "\<not> call_Terminal c"
  shows "sig_entry_ok now log i (e\<lparr>e_call := c\<rparr>)"
  using assms by (simp add: sig_entry_ok_def)

lemma move_sig: "reg_move cfg sha now r r' \<Longrightarrow> 0 \<le> ttlSec cfg \<Longrightarrow> sig_ok cfg r now log \<Longrightarrow> sig_ok cfg r' now log"
proof (induction rule: reg_move.induct)
  case (update r i e c)
  have "pc_Date c = pc_Date (e_call e)" "\<not> call_Terminal c"
    using update(2) by (auto simp: call_step_def call_Terminal_def)
  then show ?case
    using sig_ok_put[OF update(4) sig_entry_call[OF sig_okD(5)[OF update(4,1)]], of c] by (simp add: put_call_def)
next
  case (discard r i e reason slug duration)
  have "sig_entry_ok now log i (e\<lparr>e_call := discard_call (e_call e) reason slug duration now\<rparr>)"
    using sig_okD(5)[OF discard(4,1)] sig_okD(2)[OF discard(4)]
    by (simp add: sig_entry_ok_def discard_call_def call_Terminal_def)
  then show ?case
    using discard(2) by (rule_tac sig_ok_put[OF discard(4)])
      (auto simp: markDiscardedWithSlugLocked_def put_call_def Let_def)
next
  case (sweep r i e)
  have "t < now" if "(i, t) \<in> set log" for t
    using that sig_okD(5)[OF sweep(5,1)] sweep(2,3,4) by (fastforce simp: sig_entry_ok_def)
  then show ?case
    using sig_okD[OF sweep(5)] by (auto simp: sig_ok_def removeLocked_def Let_def split: if_splits)
next
  case (insert r c ah u req)
  have date: "pc_Date c = now" "\<not> call_Terminal c"
    by (subst insert(5), simp add: requested_call_def call_Terminal_def)+
  have old: "t < now" if "(pc_ID c, t) \<in> set log" for t
    using sig_okD(4)[OF insert(8) that insert(1)] .
  then have "now \<le> 0 \<Longrightarrow> count_list log (pc_ID c, 0) = 0"
    using count_notin[of "(pc_ID c, 0)" log] by fastforce
  then have "sig_entry_ok now log (pc_ID c) \<lparr>e_call = c, e_sigWindowSec = 0, e_sigCount = 0\<rparr>"
    using date old sig_okD(1)[OF insert(8)] by (fastforce simp: sig_entry_ok_def)
  then show ?case
    by (rule sig_ok_put[OF insert(8)]) (simp add: insert_call_def)
qed

lemma moves_sig: "reg_moves cfg sha now r r' \<Longrightarrow> 0 \<le> ttlSec cfg \<Longrightarrow> sig_ok cfg r now log \<Longrightarrow> sig_ok cfg r' now log"
  by (induction rule: rtranclp_induct) (auto intro: move_sig)

lemma admit_sig:
  assumes "sig_ok cfg r now log" "rg_byID r i = Some e" "\<not> call_Terminal (e_call e)" "signal_admit cfg now e = (adm, e')"
  shows "sig_ok cfg (r\<lparr>rg_byID := (rg_byID r)(i \<mapsto> e')\<rparr>) now ((if adm then [(i, now)] else []) @ log)"
proof -
  note en = sig_okD(5)[OF assms(1,2), unfolded sig_entry_ok_def]
  let ?n = "count_list log (i, now)"
  have used: "int ?n \<le> (if e_sigWindowSec e = now then e_sigCount e else 0)"
    using en count_notin[of "(i, now)" log] by (cases "(i, now) \<in> set log") auto
  have e': "e_call e' = e_call e" "e_sigWindowSec e' = now"
    "e_sigCount e' = (if e_sigWindowSec e = now then e_sigCount e else 0) + (if adm then 1 else 0)"
    "adm \<longrightarrow> e_sigCount e' \<le> cf_SignalingRatePerSecond cfg"
    using assms(4) by (auto simp: signal_admit_def Let_def split: if_splits)
  let ?log = "(if adm then [(i, now)] else []) @ log"
  have cnt: "int (count_list ?log (j, t)) \<le> cf_SignalingRatePerSecond cfg" for j t
    using sig_okD(3)[OF assms(1), of j t] used e'(3,4) by (auto split: if_splits)
  have "sig_entry_ok now ?log i e'"
    using en used e' assms(3) sig_okD(2)[OF assms(1)] by (auto simp: sig_entry_ok_def)
  moreover have "sig_entry_ok now ?log j e2" if "rg_byID r j = Some e2" "j \<noteq> i" for j e2
    using sig_okD(5)[OF assms(1) that(1)] that(2) by (simp add: sig_entry_ok_def)
  ultimately show ?thesis
    using cnt sig_okD(1,2,4)[OF assms(1)] by (auto simp: sig_ok_def split: if_splits)
qed

lemma ttl_nonneg: "0 \<le> ttlSec (withDefaults cfg)"
  by (auto simp: ttlSec_def withDefaults_def pos_imp_zdiv_nonneg_iff)

lemma new_ok: "reg_ok (withDefaults cfg) sha newRegistry"
  by (simp add: reg_ok_def newRegistry_def live_of_def active_count_def withDefaults_def)

lemma reach_ok: "ph_reach (withDefaults cfg) sha (r, now, log) \<Longrightarrow>
  reg_ok (withDefaults cfg) sha r \<and> sig_ok (withDefaults cfg) r now log"
proof (induction "(r, now, log)" arbitrary: r now log rule: ph_reach.induct)
  case start
  then show ?case
    using new_ok by (auto simp: sig_ok_def newRegistry_def withDefaults_def)
next
  case (step x)
  obtain r0 now0 log0 where x: "x = (r0, now0, log0)"
    by (cases x)
  have ok: "reg_ok (withDefaults cfg) sha r0" "sig_ok (withDefaults cfg) r0 now0 log0"
    using step(2)[OF x] by auto
  note st = step(3)[unfolded x]
  have "sig_ok (withDefaults cfg) r now log"
    using ph_step_cases[OF st] sig_ok_later[OF ok(2)] moves_sig ttl_nonneg admit_sig by fastforce
  then show ?case
    using ph_step_reg[OF st ok(1) ttl_nonneg] by simp
qed

section \<open>Expiry and retries\<close>

definition expire_entry :: "phone_config \<Rightarrow> int \<Rightarrow> entry \<Rightarrow> entry" where
  "expire_entry cfg now e =
     (if overdue cfg now (e_call e)
      then e\<lparr>e_call := discard_call (e_call e) (expiry_reason (e_call e)) [] 0 now\<rparr> else e)"

lemma markDiscarded_byID:
  assumes "overdue cfg now (e_call e)"
  shows "rg_byID (markDiscardedLocked r i e (expiry_reason (e_call e)) 0 now) = (rg_byID r)(i \<mapsto> expire_entry cfg now e)"
  using assms by (simp add: expire_entry_def overdue_def markDiscardedLocked_def markDiscardedWithSlugLocked_def
      put_call_def Let_def)

lemma expire_entry_id: "\<not> overdue cfg now (e_call e) \<Longrightarrow> expire_entry cfg now e = e"
  by (simp add: expire_entry_def)

lemma expire_calls_byID:
  assumes "distinct ord"
  shows "rg_byID (snd (expire_calls cfg now r ds ord)) i =
    (if i \<in> set ord then map_option (expire_entry cfg now) (rg_byID r i) else rg_byID r i)"
  using assms
proof (induction ord arbitrary: r ds)
  case (Cons j ord)
  show ?case
  proof (cases "rg_byID r j")
    case (Some e)
    then show ?thesis
      using Cons markDiscarded_byID[of cfg now e r j]
      by (cases "overdue cfg now (e_call e)") (auto simp: expire_entry_id)
  qed (use Cons in auto)
qed simp

lemma map_filter_upd: "j \<notin> set ord \<Longrightarrow> List.map_filter (m(j := x)) ord = List.map_filter m ord"
  by (induction ord) (auto simp: List.map_filter_simps split: option.splits)

lemma expire_calls_list:
  assumes "distinct ord"
  shows "fst (expire_calls cfg now r ds ord) = ds @ map (\<lambda>c. discard_call c (expiry_reason c) [] 0 now)
    (filter (overdue cfg now) (map e_call (List.map_filter (rg_byID r) ord)))"
  using assms
proof (induction ord arbitrary: r ds)
  case (Cons j ord)
  have other: "List.map_filter (rg_byID (markDiscardedLocked r j e x y now)) ord = List.map_filter (rg_byID r) ord"
    for e x y
    using Cons.prems
    by (simp add: markDiscardedLocked_def markDiscardedWithSlugLocked_def put_call_def Let_def map_filter_upd)
  show ?case
    using Cons other by (auto simp: List.map_filter_simps split: option.splits)
qed (simp add: List.map_filter_simps)

lemma remove_byID: "rg_byID (removeLocked r i e act) = (rg_byID r)(i := None)"
  by (simp add: removeLocked_def Let_def)

lemma sweep_keeps: "rg_byID r i = Some e \<Longrightarrow> \<not> tombstone_due cfg now (e_call e) \<Longrightarrow>
  rg_byID (sweepTombstonesLocked r ord now (ttlSec cfg)) i = Some e"
proof (induction ord arbitrary: r)
  case (Cons j ord)
  show ?case
  proof (cases "rg_byID r j")
    case (Some e2)
    let ?due = "call_Terminal (e_call e2) \<and> now - pc_DiscardedAt (e_call e2) > ttlSec cfg"
    have "rg_byID (if ?due then removeLocked r j e2 False else r) i = Some e"
      using Cons.prems Some by (cases "i = j") (auto simp: remove_byID tombstone_due_def)
    then show ?thesis
      using Cons.IH Cons.prems(2) Some by simp
  qed (use Cons in simp)
qed simp

lemma sweep_sub: "rg_byID (sweepTombstonesLocked r ord now ttl) i = Some e \<Longrightarrow> rg_byID r i = Some e"
proof (induction ord arbitrary: r)
  case (Cons j ord)
  show ?case
  proof (cases "rg_byID r j")
    case (Some e2)
    let ?due = "call_Terminal (e_call e2) \<and> now - pc_DiscardedAt (e_call e2) > ttl"
    have "rg_byID (if ?due then removeLocked r j e2 False else r) i = Some e"
      using Cons.IH Cons.prems Some by simp
    then show ?thesis
      by (auto simp: remove_byID split: if_splits)
  qed (use Cons in simp)
qed simp

lemma not_overdue_expired: "\<not> overdue cfg now (e_call (expire_entry cfg now e))"
  by (simp add: expire_entry_def overdue_def discard_call_def call_Terminal_def)

lemma expired_not_due:
  assumes "0 \<le> ttlSec cfg" "\<not> tombstone_due cfg now (e_call e)"
  shows "\<not> tombstone_due cfg now (e_call (expire_entry cfg now e))"
  using assms by (simp add: expire_entry_def tombstone_due_def discard_call_def)

section \<open>What the service guarantees\<close>

text \<open>
  In every reachable registry the per-user counter is exactly the number of the caller's live
  calls (no entry when there are none) and stays within the configured maximum, the registry stays
  within its size bound, and every live call is found under its caller and random id, so a caller
  never has two live calls under one random id.
\<close>

theorem call_registry_counts:
  assumes "ph_reach (withDefaults cfg) sha (r, now, log)"
  shows "mget 0 (rg_active r) u = int (card (live_of r u)) \<and> (rg_active r u = None \<longleftrightarrow> live_of r u = {}) \<and>
    int (card (live_of r u)) \<le> cf_MaxActivePerUser (withDefaults cfg) \<and>
    int (card (dom (rg_byID r))) \<le> cf_MaxRegistryEntries (withDefaults cfg) \<and>
    (\<forall>i \<in> live_of r u. \<exists>e. rg_byID r i = Some e \<and> rg_byRandom r (u, pc_RandomID (e_call e)) = Some i)"
proof -
  have ok: "reg_ok (withDefaults cfg) sha r"
    using reach_ok[OF assms] by simp
  have "rg_active r u = None \<longleftrightarrow> live_of r u = {}"
    using live_of_finite[OF ok, of u] by (simp add: reg_okD(3)[OF ok] active_count_def)
  moreover have "\<exists>e. rg_byID r i = Some e \<and> rg_byRandom r (u, pc_RandomID (e_call e)) = Some i"
    if "i \<in> live_of r u" for i
    using that reg_okD(4)[OF ok, of i] by (auto simp: live_of_def key_of_def)
  ultimately show ?thesis
    using mget_active_count[OF reg_okD(3)[OF ok]] reg_okD(6,7)[OF ok] by simp
qed

text \<open>
  C11: One operation of the service never moves a call back or loses it. A call of the registry is,
  after any operation, still there with the same parties, request and commitment, in the same or a
  later state; what was agreed at acceptance and at confirmation does not change afterwards, and a
  discarded call does not change at all. Only a discarded call older than the retention time may go.
\<close>

theorem call_lifecycle:
  assumes "ph_reach (withDefaults cfg) sha (r, now, log)" "ph_step (withDefaults cfg) sha (r, now, log) (r', now', log')"
    and "rg_byID r i = Some e"
  shows "(call_Terminal (e_call e) \<and> now' - pc_DiscardedAt (e_call e) > ttlSec (withDefaults cfg)) \<or>
    (\<exists>e'. rg_byID r' i = Some e' \<and> call_le now' (e_call e) (e_call e'))"
  using ph_step_reg[OF assms(2) _ ttl_nonneg] reach_ok[OF assms(1)] assms(3)
  by (auto simp: entry_le_def tombstone_due_def)

text \<open>
  C12: A confirmed call has a 256-byte g_a whose hash is the commitment the caller made before it saw
  g_b, and a 256-byte g_b that is not zero. A reveal that does not match the commitment discards the
  accepted call at once with reason disconnect, and a matching one confirms it.
\<close>

theorem confirm_commitment:
  assumes "ph_reach (withDefaults cfg) sha (r, now, log)" "rg_byID r i = Some e"
  shows "(pc_State (e_call e) = PhoneCallStateConfirmed \<longrightarrow>
      length (pc_GA (e_call e)) = 256 \<and> sha (pc_GA (e_call e)) = pc_GAHash (e_call e) \<and>
      length (pc_GB (e_call e)) = 256 \<and> \<not> allZero (pc_GB (e_call e))) \<and>
    (pc_State (e_call e) = PhoneCallStateAccepted \<longrightarrow> validateProtocol proto = None \<longrightarrow>
      (\<exists>c err r'. ConfirmCall sha now' r (pc_AdminID (e_call e)) i (pc_AccessHash (e_call e)) ga kf proto =
           ((Some c, err \<noteq> None, err), r') \<and> map_option e_call (rg_byID r' i) = Some c \<and>
         (if length ga = 256 \<and> sha ga = pc_GAHash (e_call e)
          then err = None \<and> pc_State c = PhoneCallStateConfirmed \<and> pc_GA c = ga \<and> pc_KeyFingerprint c = kf
          else err = Some ErrGAHashMismatch \<and> pc_State c = PhoneCallStateDiscarded \<and>
            pc_DiscardReason c = ReasonDisconnect)))"
proof -
  have ok: "call_ok sha i (e_call e)"
    using reach_ok[OF assms(1)] reg_okD(2) assms(2) by blast
  have lk: "lookupLocked r i (pc_AccessHash (e_call e)) = Inr e"
    using assms(2) by (simp add: lookup_Inr)
  show ?thesis
    using ok by (auto simp: call_ok_def ConfirmCall_def lk sha256Mismatch_def call_dhPubSize_def Let_def put_call_def
        markDiscardedLocked_def markDiscardedWithSlugLocked_def call_Terminal_def discard_call_def)
qed

text \<open>
  The expiry pass, in whatever order it visits the calls, leaves no call that is neither confirmed
  nor discarded beyond the ring timeout. It reports exactly the calls it ended, missed when they were
  not answered and disconnected when they were, keeps them as tombstones, and touches no other call
  except to drop discarded ones older than the retention time.
\<close>

theorem expire_due_exact:
  assumes "distinct ord" "set ord = dom (rg_byID r)" "ExpireDue (withDefaults cfg) now r ord ord' = (ds, r')"
  shows "(\<forall>i e. rg_byID r' i = Some e \<longrightarrow> \<not> overdue (withDefaults cfg) now (e_call e)) \<and>
    set ds = (\<lambda>c. discard_call c (expiry_reason c) [] 0 now) ` {c \<in> e_call ` ran (rg_byID r). overdue (withDefaults cfg) now c} \<and>
    (\<forall>i e. rg_byID r i = Some e \<longrightarrow> \<not> tombstone_due (withDefaults cfg) now (e_call e) \<longrightarrow>
       rg_byID r' i = Some (expire_entry (withDefaults cfg) now e)) \<and>
    (\<forall>i. rg_byID r i = None \<longrightarrow> rg_byID r' i = None)"
proof -
  let ?cfg = "withDefaults cfg"
  let ?m = "snd (expire_calls ?cfg now r [] ord)"
  have r': "r' = sweepTombstonesLocked ?m ord' now (ttlSec ?cfg)" and ds: "ds = fst (expire_calls ?cfg now r [] ord)"
    using assms(3) by (auto simp: ExpireDue_def split: prod.splits)
  have m: "rg_byID ?m i = map_option (expire_entry ?cfg now) (rg_byID r i)" for i
    using expire_calls_byID[OF assms(1), of ?cfg now r "[]" i] assms(2) by (auto simp: domIff)
  have "set (List.map_filter (rg_byID r) ord) = ran (rg_byID r)"
    using assms(2) by (fastforce simp: List.map_filter_def ran_def dom_def image_iff)
  then have "set ds = (\<lambda>c. discard_call c (expiry_reason c) [] 0 now) ` {c \<in> e_call ` ran (rg_byID r). overdue ?cfg now c}"
    by (simp add: ds expire_calls_list[OF assms(1)] del: filter_map)
  moreover have "\<not> overdue ?cfg now (e_call e)" if "rg_byID r' i = Some e" for i e
    using sweep_sub[of ?m ord' now "ttlSec ?cfg" i e] that not_overdue_expired by (auto simp: r' m)
  moreover have "rg_byID r' i = Some (expire_entry ?cfg now e)"
    if "rg_byID r i = Some e" "\<not> tombstone_due ?cfg now (e_call e)" for i e
    using sweep_keeps[of ?m i _ ?cfg now ord'] that expired_not_due[OF ttl_nonneg that(2)] by (simp add: r' m)
  moreover have "rg_byID r' i = None" if "rg_byID r i = None" for i
    using sweep_sub[of ?m ord' now "ttlSec ?cfg" i] that by (cases "rg_byID r' i") (auto simp: r' m)
  ultimately show ?thesis
    by blast
qed

text \<open>
  C13: At most the configured number of signalling packets of a call is forwarded within any one second
  of the clock, whatever requests the two parties and other users send, as long as the clock does not run backwards.
\<close>

theorem signal_rate_bounded:
  assumes "ph_reach (withDefaults cfg) sha (r, now, log)"
  shows "int (count_list log (i, t)) \<le> cf_SignalingRatePerSecond (withDefaults cfg)"
  using reach_ok[OF assms] sig_okD(3) by blast

text \<open>
  A client that retries its call request under the same random id while the call is live gets that
  very call, in its current state, whatever else the retry contains. No call is created, and no call
  is touched except discarded ones older than the retention time.
\<close>

theorem request_retry:
  assumes "ph_reach (withDefaults cfg) sha (r, now, log)" "rg_byID r i = Some e" "\<not> call_Terminal (e_call e)"
    and "validateProtocol (cr_Protocol req) = None" "length (cr_GAHash req) = 32" "cr_RandomID req = pc_RandomID (e_call e)"
  shows "\<exists>r'. RequestCall (withDefaults cfg) now' r ord draw rnd (pc_AdminID (e_call e)) req = (Inr (e_call e), r') \<and>
    (\<forall>j. rg_byID r' j = rg_byID r j \<or> (rg_byID r' j = None \<and>
       (\<exists>e'. rg_byID r j = Some e' \<and> tombstone_due (withDefaults cfg) now' (e_call e'))))"
proof -
  let ?cfg = "withDefaults cfg"
  let ?r = "sweepTombstonesLocked r ord now' (ttlSec ?cfg)"
  have ok: "reg_ok ?cfg sha ?r"
    using reach_ok[OF assms(1)] sweep_moves moves_ok by blast
  have e: "rg_byID ?r i = Some e"
    using assms(2,3) by (intro sweep_keeps) (auto simp: tombstone_due_def)
  have "live_retry ?r (pc_AdminID (e_call e)) (cr_RandomID req) = Some (e_call e)"
    using reg_okD(4)[OF ok e assms(3)] e assms(3,6) by (simp add: live_retry_def key_of_def)
  then have "RequestCall ?cfg now' r ord draw rnd (pc_AdminID (e_call e)) req = (Inr (e_call e), ?r)"
    using assms(4,5) by (simp add: RequestCall_def gaHashSize_def Let_def)
  moreover have "rg_byID ?r j = rg_byID r j \<or> (rg_byID ?r j = None \<and>
       (\<exists>e'. rg_byID r j = Some e' \<and> tombstone_due ?cfg now' (e_call e')))" for j
    using sweep_keeps[of r j _ ?cfg now' ord] sweep_sub[of r ord now' "ttlSec ?cfg" j]
    by (cases "rg_byID r j"; cases "rg_byID ?r j") auto
  ultimately show ?thesis
    by blast
qed

lemma best_loop_member: "best_loop b vs = Some v \<Longrightarrow> v \<in> set vs \<or> b = Some v"
  by (induction b vs rule: best_loop.induct) (auto split: option.splits if_splits)

lemma best_loop_found: "b \<noteq> None \<or> vs \<noteq> [] \<Longrightarrow> best_loop b vs \<noteq> None"
proof (induction vs arbitrary: b)
  case (Cons v vs)
  show ?case
    unfolding best_loop.simps by (rule Cons.IH) (simp split: option.splits)
qed simp

lemma bestCommonVersion_spec:
  assumes "set ord = set a \<inter> set b"
  shows "bestCommonVersion ord a b = None \<longleftrightarrow> set a \<inter> set b = {}"
    "bestCommonVersion ord a b = Some v \<Longrightarrow> v \<in> set a \<inter> set b"
proof -
  show sound: "v \<in> set a \<inter> set b" if "bestCommonVersion ord a b = Some v" for v
  proof (cases "find (\<lambda>v. v \<in> set a \<and> v \<in> set b) preferredVersions")
    case None
    then have "best_loop None ord = Some v"
      using that by (simp add: bestCommonVersion_def)
    then show ?thesis
      using best_loop_member[of None ord v] assms by simp
  next
    case (Some w)
    then have "w = v"
      using that by (simp add: bestCommonVersion_def)
    then show ?thesis
      using Some by (auto simp: find_Some_iff)
  qed
  have "bestCommonVersion ord a b = None \<Longrightarrow> ord = []"
    using best_loop_found[of None ord] by (auto simp: bestCommonVersion_def split: option.splits)
  then show "bestCommonVersion ord a b = None \<longleftrightarrow> set a \<inter> set b = {}"
    using sound assms by (cases "bestCommonVersion ord a b") auto
qed

text \<open>
  Negotiation fails exactly when the two layer ranges do not meet. Otherwise the agreed range is
  their intersection, peer-to-peer is on only if both sides allow it, and the version list is one
  version both sides support whenever there is one, the best preferred one if any is common, and the
  callee's own list when there is none.
\<close>

theorem negotiation_sound:
  assumes "set ord = set (pr_LibraryVersions a) \<inter> set (pr_LibraryVersions b)"
  shows "case negotiateProtocol ord a b of
      Inl err \<Rightarrow> err = ErrProtocolCompatLayerInvalid \<and>
        {pr_MinLayer a..pr_MaxLayer a} \<inter> {pr_MinLayer b..pr_MaxLayer b} = {}
    | Inr p \<Rightarrow> pr_MinLayer p \<le> pr_MaxLayer p \<and>
        {pr_MinLayer p..pr_MaxLayer p} = {pr_MinLayer a..pr_MaxLayer a} \<inter> {pr_MinLayer b..pr_MaxLayer b} \<and>
        (pr_UDPP2P p \<longleftrightarrow> pr_UDPP2P a \<and> pr_UDPP2P b) \<and>
        (if set ord = {} then pr_LibraryVersions p = pr_LibraryVersions b
         else \<exists>v \<in> set ord. pr_LibraryVersions p = [v] \<and>
           (\<forall>n < length preferredVersions. preferredVersions ! n \<in> set ord \<longrightarrow>
              (\<exists>k \<le> n. v = preferredVersions ! k)))"
proof (cases "max (pr_MinLayer a) (pr_MinLayer b) > min (pr_MaxLayer a) (pr_MaxLayer b)")
  case True
  then show ?thesis
    by (auto simp: negotiateProtocol_def)
next
  case False
  let ?best = "bestCommonVersion ord (pr_LibraryVersions a) (pr_LibraryVersions b)"
  have pref: "\<exists>k \<le> n. v = preferredVersions ! k"
    if "?best = Some v" "n < length preferredVersions" "preferredVersions ! n \<in> set ord" for v n
  proof -
    have "find (\<lambda>v. v \<in> set (pr_LibraryVersions a) \<and> v \<in> set (pr_LibraryVersions b)) preferredVersions \<noteq> None"
      using that(2,3) assms by (auto simp: find_None_iff dest: nth_mem)
    then have "find (\<lambda>v. v \<in> set (pr_LibraryVersions a) \<and> v \<in> set (pr_LibraryVersions b)) preferredVersions = Some v"
      using that(1) by (auto simp: bestCommonVersion_def split: option.splits)
    then obtain k where k: "v = preferredVersions ! k" "\<forall>j < k. preferredVersions ! j \<notin> set ord"
      unfolding find_Some_iff assms by auto
    then show ?thesis
      using that(3) not_le by blast
  qed
  show ?thesis
  proof (cases ?best)
    case None
    then have "set ord = {}"
      using bestCommonVersion_spec(1)[OF assms] assms by simp
    then show ?thesis
      using False None by (auto simp: negotiateProtocol_def Let_def)
  next
    case (Some v)
    then have "v \<in> set ord"
      using bestCommonVersion_spec(2)[OF assms] assms by simp
    then show ?thesis
      using False Some pref[OF Some] by (auto simp: negotiateProtocol_def Let_def)
  qed
qed

section \<open>A concrete call\<close>

definition demo_cfg :: phone_config where
  "demo_cfg = \<lparr>cf_RingTimeout = 0, cf_TombstoneTTL = 0, cf_MaxActivePerUser = 0, cf_MaxRegistryEntries = 0,
     cf_SignalingRatePerSecond = 0\<rparr>"

definition demo_proto :: call_protocol where
  "demo_proto = \<lparr>pr_UDPP2P = True, pr_UDPReflector = True, pr_MinLayer = 65, pr_MaxLayer = 92,
     pr_LibraryVersions = [''9.0.0'', ''10.0.0'']\<rparr>"

definition demo_call_req :: call_request where
  "demo_call_req = \<lparr>cr_CalleeID = 20, cr_RandomID = 3, cr_GAHash = replicate 32 1, cr_Video = False,
     cr_Protocol = demo_proto, cr_CallerDevice = (1, 1), cr_PrivacyP2P = True, cr_Connections = []\<rparr>"

definition demo_sha :: "bytes \<Rightarrow> bytes" where
  "demo_sha b = replicate 32 (if b = [] then 0 else hd b)"

definition demo_call :: phone_call where
  "demo_call = requested_call 5 7 10 demo_call_req 1000"

definition demo_entry :: entry where
  "demo_entry = \<lparr>e_call = demo_call, e_sigWindowSec = 0, e_sigCount = 0\<rparr>"

definition demo_reg :: registry where
  "demo_reg = \<lparr>rg_byID = [5 \<mapsto> demo_entry], rg_byRandom = [(10, 3) \<mapsto> 5], rg_active = [10 \<mapsto> 1]\<rparr>"

lemmas demo_call_simps = demo_call_def requested_call_def demo_call_req_def demo_proto_def

lemma demo_draws: "randomPositiveInt64 (Some 14) = Inr 7" "newIDLocked newRegistry (\<lambda>_. Some 10) = Inr 5"
proof -
  have "newID_loop newRegistry (\<lambda>_. Some 10) 0 (Suc 31) = Inr 5"
    unfolding newID_loop.simps by (simp add: randomPositiveInt64_def drop_bit_eq_div newRegistry_def)
  then show "newIDLocked newRegistry (\<lambda>_. Some 10) = Inr 5"
    by (simp add: newIDLocked_def)
qed (simp add: randomPositiveInt64_def drop_bit_eq_div)

lemma demo_request_call:
  "RequestCall (withDefaults demo_cfg) 1000 newRegistry [] (\<lambda>_. Some 10) (Some 14) 10 demo_call_req =
     (Inr demo_call, demo_reg)"
proof -
  have "validateProtocol (cr_Protocol demo_call_req) = None" "length (cr_GAHash demo_call_req) = gaHashSize"
    "live_retry newRegistry 10 (cr_RandomID demo_call_req) = None"
    by (simp_all add: validateProtocol_def demo_call_req_def demo_proto_def minSupportedLayer_def gaHashSize_def
        live_retry_def newRegistry_def)
  then show ?thesis
    by (simp add: RequestCall_def demo_draws)
      (simp add: newRegistry_def demo_reg_def demo_entry_def demo_call_def withDefaults_def demo_cfg_def mget_def
        demo_call_req_def Let_def)
qed

lemma demo_reach: "ph_reach (withDefaults demo_cfg) demo_sha (demo_reg, 1000, [])"
  by (rule ph_reach.step[OF ph_reach.start[of 1000] ph_step.request[OF _ demo_request_call]]) simp_all

lemma demo_live: "rg_byID demo_reg 5 = Some demo_entry" "\<not> call_Terminal (e_call demo_entry)"
  by (simp_all add: demo_reg_def demo_entry_def demo_call_simps call_Terminal_def)

text \<open>The callee answers at second 1010.\<close>

definition demo_answered :: phone_call where
  "demo_answered = demo_call\<lparr>pc_GB := 1 # replicate 255 0, pc_CalleeProtocol := demo_proto,
     pc_Protocol := demo_proto\<lparr>pr_LibraryVersions := [''9.0.0'']\<rparr>, pc_CalleeDevice := (2, 2),
     pc_State := PhoneCallStateAccepted\<rparr>"

definition demo_reg2 :: registry where
  "demo_reg2 = put_call demo_reg 5 demo_entry demo_answered"

lemma demo_negotiate: "negotiateProtocol [] demo_proto demo_proto = Inr (demo_proto\<lparr>pr_LibraryVersions := [''9.0.0'']\<rparr>)"
  by (simp add: negotiateProtocol_def demo_proto_def bestCommonVersion_def preferredVersions_def)

lemma demo_proto_valid: "validateProtocol demo_proto = None"
  by (simp add: validateProtocol_def demo_proto_def minSupportedLayer_def)

lemma demo_accept_call: "AcceptCall demo_reg [] 20 5 7 (1 # replicate 255 0) demo_proto (2, 2) = (Inr demo_answered, demo_reg2)"
  using demo_negotiate demo_proto_valid
  by (simp add: AcceptCall_def call_dhPubSize_def allZero_def lookupLocked_def demo_live)
    (simp add: demo_entry_def demo_call_def requested_call_def demo_call_req_def demo_reg2_def demo_answered_def Let_def)

lemma demo_reach2: "ph_reach (withDefaults demo_cfg) demo_sha (demo_reg2, 1010, [])"
  by (rule ph_reach.step[OF demo_reach ph_step.accept[OF _ demo_accept_call]]) simp

theorem call_registry_counts_witness: "mget 0 (rg_active demo_reg) 10 = int (card (live_of demo_reg 10))"
  using call_registry_counts[OF demo_reach, of 10] by simp

theorem call_lifecycle_witness: "\<exists>e'. rg_byID demo_reg2 5 = Some e' \<and> call_le 1010 demo_call (e_call e')"
proof -
  have "ph_step (withDefaults demo_cfg) demo_sha (demo_reg, 1000, []) (demo_reg2, 1010, [])"
    by (rule ph_step.accept[OF _ demo_accept_call]) simp
  from call_lifecycle[OF demo_reach this demo_live(1)] show ?thesis
    using demo_live(2) by (simp add: demo_entry_def)
qed

theorem confirm_commitment_witness:
  "\<exists>c r'. ConfirmCall demo_sha 1020 demo_reg2 10 5 7 (1 # replicate 255 0) 99 demo_proto = ((Some c, False, None), r') \<and>
     pc_State c = PhoneCallStateConfirmed"
proof -
  let ?e = "demo_entry\<lparr>e_call := demo_answered\<rparr>"
  have e: "rg_byID demo_reg2 5 = Some ?e"
    by (simp add: demo_reg2_def put_call_def)
  have c: "pc_AdminID demo_answered = 10" "pc_AccessHash demo_answered = 7" "pc_State demo_answered = PhoneCallStateAccepted"
    "demo_sha (1 # replicate 255 0) = pc_GAHash demo_answered"
    by (simp_all add: demo_answered_def demo_call_simps demo_sha_def)
  show ?thesis
    using confirm_commitment[OF demo_reach2 e, of demo_proto 1020 "1 # replicate 255 0" 99] c demo_proto_valid by auto
qed

theorem expire_due_exact_witness:
  "set (fst (ExpireDue (withDefaults demo_cfg) 2000 demo_reg [5] [5])) = {discard_call demo_call ReasonMissed [] 0 2000}"
proof -
  obtain ds r' where x: "ExpireDue (withDefaults demo_cfg) 2000 demo_reg [5] [5] = (ds, r')"
    by (cases "ExpireDue (withDefaults demo_cfg) 2000 demo_reg [5] [5]")
  have "{c \<in> e_call ` ran (rg_byID demo_reg). overdue (withDefaults demo_cfg) 2000 c} = {demo_call}"
    by (auto simp: demo_reg_def ran_def demo_entry_def overdue_def call_Terminal_def demo_call_simps withDefaults_def demo_cfg_def)
  moreover have "expiry_reason demo_call = ReasonMissed"
    by (simp add: expiry_reason_def demo_call_simps)
  ultimately show ?thesis
    unfolding x using expire_due_exact[OF _ _ x] by (simp add: demo_reg_def)
qed

lemma demo_signal: "\<exists>r'. Signal (withDefaults demo_cfg) 1010 demo_reg2 10 5 7 = (Inr False, [(20, (2, 2))], r')"
proof -
  let ?e = "demo_entry\<lparr>e_call := demo_answered\<rparr>"
  have lk: "lookupLocked demo_reg2 5 7 = Inr ?e"
    by (simp add: lookup_Inr demo_reg2_def put_call_def) (simp add: demo_answered_def demo_call_simps)
  have c: "call_HasParticipant demo_answered 10" "call_PeerOf demo_answered 10 = 20" "pc_AdminID demo_answered = 10"
    "pc_CalleeDevice demo_answered = (2, 2)" "pc_State demo_answered = PhoneCallStateAccepted"
    by (simp_all add: call_HasParticipant_def call_PeerOf_def demo_answered_def demo_call_simps)
  have "fst (signal_admit (withDefaults demo_cfg) 1010 ?e)"
    by (simp add: signal_admit_def withDefaults_def demo_cfg_def demo_entry_def)
  then show ?thesis
    using lk c by (cases "signal_admit (withDefaults demo_cfg) 1010 ?e") (simp add: Signal_def Let_def)
qed

text \<open>The demo call is answered, then its caller signals once at second 1010: the packet is logged and the bound holds.\<close>

theorem signal_rate_bounded_witness:
  "\<exists>r'. Signal (withDefaults demo_cfg) 1010 demo_reg2 10 5 7 = (Inr False, [(20, (2, 2))], r') \<and>
     ph_reach (withDefaults demo_cfg) demo_sha (demo_reg2, 1010, []) \<and>
     ph_reach (withDefaults demo_cfg) demo_sha (r', 1010, [(5, 1010)]) \<and>
     int (count_list [(5 :: int, 1010 :: int)] (5, 1010)) \<le> cf_SignalingRatePerSecond (withDefaults demo_cfg)"
proof -
  obtain r' where s: "Signal (withDefaults demo_cfg) 1010 demo_reg2 10 5 7 = (Inr False, [(20, (2, 2))], r')"
    using demo_signal by blast
  have r: "ph_reach (withDefaults demo_cfg) demo_sha (r', 1010, [(5, 1010)])"
    using ph_reach.step[OF demo_reach2 ph_step.signal[OF order_refl s]] by simp
  from signal_rate_bounded[OF r, of 5 1010] s r demo_reach2 show ?thesis by blast
qed

theorem request_retry_witness:
  "\<exists>r'. RequestCall (withDefaults demo_cfg) 1005 demo_reg [5] (\<lambda>_. None) None 10 demo_call_req = (Inr demo_call, r')"
proof -
  have c: "e_call demo_entry = demo_call" "pc_AdminID demo_call = 10" "pc_RandomID demo_call = 3"
    "cr_RandomID demo_call_req = 3" "cr_Protocol demo_call_req = demo_proto" "length (cr_GAHash demo_call_req) = 32"
    by (simp_all add: demo_entry_def demo_call_simps)
  show ?thesis
    using request_retry[OF demo_reach demo_live, of demo_call_req 1005 "[5]" "\<lambda>_. None" None] c demo_proto_valid by auto
qed

theorem negotiation_sound_witness:
  "\<exists>v \<in> {''9.0.0'', ''10.0.0''}. pr_LibraryVersions (demo_proto\<lparr>pr_LibraryVersions := [''9.0.0'']\<rparr>) = [v]"
proof -
  have "negotiateProtocol [''9.0.0'', ''10.0.0''] demo_proto demo_proto = Inr (demo_proto\<lparr>pr_LibraryVersions := [''9.0.0'']\<rparr>)"
    by (simp add: negotiateProtocol_def demo_proto_def bestCommonVersion_def preferredVersions_def)
  moreover have "set [''9.0.0'', ''10.0.0''] = set (pr_LibraryVersions demo_proto) \<inter> set (pr_LibraryVersions demo_proto)"
    by (simp add: demo_proto_def)
  ultimately show ?thesis
    using negotiation_sound[of "[''9.0.0'', ''10.0.0'']" demo_proto demo_proto] by auto
qed

text \<open>
  Where no preferred version is common, the version comparison is not an order: numeric segments
  compare as numbers and others as strings, so 10 is above 9, 9 above 1a and 1a above 10. The version
  chosen then depends on Go's map iteration order and no version is the highest.
\<close>

theorem version_choice_depends_on_order:
  "compareVersion ''10'' ''9'' > 0 \<and> compareVersion ''9'' ''1a'' > 0 \<and> compareVersion ''1a'' ''10'' > 0 \<and>
   bestCommonVersion [''10'', ''9'', ''1a''] [''10'', ''9'', ''1a''] [''10'', ''9'', ''1a''] = Some ''1a'' \<and>
   bestCommonVersion [''1a'', ''10'', ''9''] [''10'', ''9'', ''1a''] [''10'', ''9'', ''1a''] = Some ''9''"
  by code_simp

end
