(* ===== verification/Privacy_Rules.thy ===== *)
theory Privacy_Rules
  imports SG_Prelude
begin

text \<open>
  Account privacy (\<open>internal/domain/privacy.go\<close>, \<open>internal/domain/privacy_evaluate.go\<close>,
  \<open>internal/store/memory/privacy.go\<close>, \<open>internal/app/privacy\<close>): the rules a user sets per
  privacy key, their evaluation for a viewer, and the three ways the server asks for it: one
  owner and viewer (\<open>CanSee\<close>), many owners for one viewer (\<open>CanSeeBatch\<close>) and a matrix of owners
  and viewers (\<open>CanSeeMatrix\<close>).

  The service is wired as in production, with a rule store, a contact store that supports sparse
  projection, a user provider and a membership provider; they are the tables of \<open>privacy_env\<close>. The
  read-model caches in front of the providers are left out: every fact is loaded. A Go map of maps
  that is only indexed is a map on pairs, and \<open>ord\<close> is the order in which Go iterates over the rule
  table. Privacy keys and rule kinds are Go strings, so both types have a constructor for any other
  string.
\<close>

section \<open>Rules\<close>

datatype privacy_key = PrivacyKeyStatusTimestamp | PrivacyKeyChatInvite | PrivacyKeyPhoneCall | PrivacyKeyPhoneP2P
  | PrivacyKeyForwards | PrivacyKeyProfilePhoto | PrivacyKeyPhoneNumber | PrivacyKeyAddedByPhone
  | PrivacyKeyVoiceMessages | PrivacyKeyAbout | PrivacyKeyBirthday | PrivacyKeyStarGiftsAutoSave
  | PrivacyKeyNoPaidMessages | PrivacyKeySavedMusic | PrivacyKeyOther string

datatype rule_kind = PrivacyRuleAllowContacts | PrivacyRuleAllowAll | PrivacyRuleAllowUsers
  | PrivacyRuleDisallowContacts | PrivacyRuleDisallowAll | PrivacyRuleDisallowUsers
  | PrivacyRuleAllowChatParticipants | PrivacyRuleDisallowChatParticipants | PrivacyRuleAllowCloseFriends
  | PrivacyRuleAllowPremium | PrivacyRuleAllowBots | PrivacyRuleDisallowBots | PrivacyRuleOther string

datatype privacy_error = ErrPrivacyKeyInvalid | ErrPrivacyRuleInvalid | ErrBatchUsersLimit
  | ErrActiveChannelMemberPairsLimit

record privacy_rule =
  ru_Kind :: rule_kind
  ru_UserIDs :: "int list"
  ru_ChatIDs :: "int list"

record privacy_rules =
  rs_OwnerUserID :: int
  rs_Key :: privacy_key
  rs_Rules :: "privacy_rule list"

record privacy_ctx =
  px_OwnerUserID :: int
  px_ViewerUserID :: int
  px_ViewerIsContact :: bool
  px_ViewerIsBot :: bool
  px_ViewerIsPremium :: bool
  px_ViewerCloseFriend :: bool
  px_SharedChatIDs :: "int list"

abbreviation plain_rule :: "rule_kind \<Rightarrow> privacy_rule" where
  "plain_rule k \<equiv> \<lparr>ru_Kind = k, ru_UserIDs = [], ru_ChatIDs = []\<rparr>"

definition DefaultPrivacyRules :: "privacy_key \<Rightarrow> privacy_rule list" where
  "DefaultPrivacyRules key =
     (case key of
        PrivacyKeyPhoneNumber \<Rightarrow> [plain_rule PrivacyRuleDisallowAll]
      | PrivacyKeyNoPaidMessages \<Rightarrow> [plain_rule PrivacyRuleDisallowAll]
      | PrivacyKeyBirthday \<Rightarrow> [plain_rule PrivacyRuleAllowContacts]
      | _ \<Rightarrow> [plain_rule PrivacyRuleAllowAll])"

definition intersects :: "int list \<Rightarrow> int list \<Rightarrow> bool" where
  "intersects a b \<longleftrightarrow> (if a = [] \<or> b = [] then False else list_ex (\<lambda>i. i \<in> set a) b)"

definition explicitDisallowMatches :: "privacy_rule \<Rightarrow> privacy_ctx \<Rightarrow> bool" where
  "explicitDisallowMatches rule ctx =
     (case ru_Kind rule of
        PrivacyRuleDisallowUsers \<Rightarrow> px_ViewerUserID ctx \<in> set (ru_UserIDs rule)
      | PrivacyRuleDisallowChatParticipants \<Rightarrow> intersects (ru_ChatIDs rule) (px_SharedChatIDs ctx)
      | PrivacyRuleDisallowBots \<Rightarrow> px_ViewerIsBot ctx
      | _ \<Rightarrow> False)"

definition explicitAllowMatches :: "privacy_rule \<Rightarrow> privacy_ctx \<Rightarrow> bool" where
  "explicitAllowMatches rule ctx =
     (case ru_Kind rule of
        PrivacyRuleAllowUsers \<Rightarrow> px_ViewerUserID ctx \<in> set (ru_UserIDs rule)
      | PrivacyRuleAllowChatParticipants \<Rightarrow> intersects (ru_ChatIDs rule) (px_SharedChatIDs ctx)
      | PrivacyRuleAllowCloseFriends \<Rightarrow> px_ViewerCloseFriend ctx
      | PrivacyRuleAllowPremium \<Rightarrow> px_ViewerIsPremium ctx
      | PrivacyRuleAllowBots \<Rightarrow> px_ViewerIsBot ctx
      | _ \<Rightarrow> False)"

text \<open>The two ordered passes; \<open>None\<close> when no rule of the pass decides.\<close>

fun contact_pass :: "privacy_ctx \<Rightarrow> privacy_rule list \<Rightarrow> bool option" where
  "contact_pass ctx [] = None"
| "contact_pass ctx (rule # rules) =
     (if ru_Kind rule = PrivacyRuleDisallowContacts \<and> px_ViewerIsContact ctx then Some False
      else if ru_Kind rule = PrivacyRuleAllowContacts \<and> px_ViewerIsContact ctx then Some True
      else contact_pass ctx rules)"

fun base_pass :: "privacy_rule list \<Rightarrow> bool" where
  "base_pass [] = False"
| "base_pass (rule # rules) =
     (if ru_Kind rule = PrivacyRuleDisallowAll then False
      else if ru_Kind rule = PrivacyRuleAllowAll then True
      else base_pass rules)"

definition EvaluatePrivacy :: "privacy_rules \<Rightarrow> privacy_ctx \<Rightarrow> bool" where
  "EvaluatePrivacy rules ctx =
     (if px_OwnerUserID ctx \<noteq> 0 \<and> px_OwnerUserID ctx = px_ViewerUserID ctx then True
      else let rs = (if rs_Rules rules = [] then DefaultPrivacyRules (rs_Key rules) else rs_Rules rules) in
        if list_ex (\<lambda>r. explicitDisallowMatches r ctx) rs then False
        else if list_ex (\<lambda>r. explicitAllowMatches r ctx) rs then True
        else case contact_pass ctx rs of Some b \<Rightarrow> b | None \<Rightarrow> base_pass rs)"

section \<open>Tables\<close>

record contact =
  ct_UserID :: int
  ct_UserMutual :: bool
  ct_UserCloseFriend :: bool
  ct_FirstName :: string
  ct_LastName :: string
  ct_Phone :: string
  ct_Note :: string
  ct_Mutual :: bool
  ct_CloseFriend :: bool

record base_user =
  us_ID :: int
  us_Bot :: bool
  us_PremiumUntil :: int

datatype member_status = ChannelMemberActive | ChannelMemberOther string

record privacy_env =
  pe_rules :: "int \<times> privacy_key \<rightharpoonup> privacy_rules"
  pe_contacts :: "int \<Rightarrow> contact list"
  pe_users :: "int \<rightharpoonup> base_user"
  pe_members :: "int \<Rightarrow> int \<rightharpoonup> member_status"

definition GetPrivacyRules :: "privacy_env \<Rightarrow> int \<Rightarrow> privacy_key \<Rightarrow> privacy_rules option" where
  "GetPrivacyRules env ownerUserID key = pe_rules env (ownerUserID, key)"

definition SetPrivacyRules :: "privacy_env \<Rightarrow> privacy_rules \<Rightarrow> privacy_env" where
  "SetPrivacyRules env rules = env\<lparr>pe_rules := (pe_rules env)((rs_OwnerUserID rules, rs_Key rules) \<mapsto> rules)\<rparr>"

fun list_rules_loop ::
  "privacy_env \<Rightarrow> int list \<Rightarrow> privacy_key list \<Rightarrow> privacy_rules list \<Rightarrow> (int \<times> privacy_key) list \<Rightarrow> privacy_rules list" where
  "list_rules_loop env owners keys out [] = out"
| "list_rules_loop env owners keys out ((i, k) # ord) =
     (case pe_rules env (i, k) of
        None \<Rightarrow> list_rules_loop env owners keys out ord
      | Some rules \<Rightarrow>
          if i \<notin> set owners then list_rules_loop env owners keys out ord
          else if k \<notin> set keys then list_rules_loop env owners keys out ord
          else list_rules_loop env owners keys (out @ [rules]) ord)"

definition ListPrivacyRules ::
  "privacy_env \<Rightarrow> (int \<times> privacy_key) list \<Rightarrow> int list \<Rightarrow> privacy_key list \<Rightarrow> privacy_rules list" where
  "ListPrivacyRules env ord ownerUserIDs keys =
     (if ownerUserIDs = [] \<or> keys = [] then [] else list_rules_loop env ownerUserIDs keys [] ord)"

text \<open>Contact reads (\<open>internal/store/memory/contacts.go\<close>).\<close>

definition contacts_Get :: "privacy_env \<Rightarrow> int \<Rightarrow> int \<Rightarrow> contact option" where
  "contacts_Get env userID contactUserID = find (\<lambda>c. ct_UserID c = contactUserID) (pe_contacts env userID)"

definition GetReverseContacts :: "privacy_env \<Rightarrow> int \<Rightarrow> int list \<Rightarrow> (int \<rightharpoonup> contact)" where
  "GetReverseContacts env userID ownerUserIDs =
     (if userID = 0 \<or> ownerUserIDs = [] then Map.empty
      else (\<lambda>ownerID. if ownerID \<noteq> 0 \<and> ownerID \<in> set ownerUserIDs
                       then find (\<lambda>c. ct_UserID c = userID) (pe_contacts env ownerID) else None))"

definition project_contact :: "contact \<Rightarrow> contact" where
  "project_contact c = c\<lparr>ct_UserMutual := False, ct_UserCloseFriend := False, ct_Mutual := (ct_Mutual c \<or> ct_UserMutual c),
     ct_CloseFriend := (ct_CloseFriend c \<or> ct_UserCloseFriend c)\<rparr>"

fun projection_loop :: "int list \<Rightarrow> (int \<rightharpoonup> contact) \<Rightarrow> contact list \<Rightarrow> (int \<rightharpoonup> contact)" where
  "projection_loop want out [] = out"
| "projection_loop want out (c # cs) =
     projection_loop want
       (if ct_UserID c \<noteq> 0 \<and> ct_UserID c \<in> set want then out(ct_UserID c \<mapsto> project_contact c) else out) cs"

definition ContactProjectionForViewerUserIDs ::
  "privacy_env \<Rightarrow> (int \<rightharpoonup> int list) \<Rightarrow> (int \<Rightarrow> int \<rightharpoonup> contact)" where
  "ContactProjectionForViewerUserIDs env contactUserIDsByViewer =
     (\<lambda>viewerID. case contactUserIDsByViewer viewerID of
        None \<Rightarrow> Map.empty
      | Some ids \<Rightarrow> if viewerID = 0 \<or> ids = [] then Map.empty
                    else projection_loop ids Map.empty (pe_contacts env viewerID))"

definition wants_close :: "int \<Rightarrow> int list \<Rightarrow> contact \<Rightarrow> bool" where
  "wants_close userID ids c \<longleftrightarrow> ct_UserID c \<in> set ids \<and> ct_UserID c > 0 \<and> ct_UserID c \<noteq> userID"

definition set_close :: "int \<Rightarrow> int list \<Rightarrow> contact \<Rightarrow> contact" where
  "set_close userID ids c =
     c\<lparr>ct_CloseFriend := wants_close userID ids c, ct_UserCloseFriend := wants_close userID ids c\<rparr>"

text \<open>The result lists the contacts that became and that ceased to be close friends.\<close>

definition SetCloseFriends :: "privacy_env \<Rightarrow> int \<Rightarrow> int list \<Rightarrow> (int list \<times> int list) \<times> privacy_env" where
  "SetCloseFriends env userID contactUserIDs =
     (let contacts = pe_contacts env userID;
          was = (\<lambda>c. ct_CloseFriend c \<or> ct_UserCloseFriend c);
          added = map ct_UserID (filter (\<lambda>c. \<not> was c \<and> wants_close userID contactUserIDs c) contacts);
          removed = map ct_UserID (filter (\<lambda>c. was c \<and> \<not> wants_close userID contactUserIDs c) contacts)
      in ((sort added, sort removed),
          env\<lparr>pe_contacts := (pe_contacts env)(userID := map (set_close userID contactUserIDs) contacts)\<rparr>))"

section \<open>Providers\<close>

fun dedup_loop :: "int list \<Rightarrow> int list \<Rightarrow> int list" where
  "dedup_loop out [] = out"
| "dedup_loop out (i # is) = dedup_loop (if i = 0 \<or> i \<in> set out then out else out @ [i]) is"

definition dedupNonZero :: "int list \<Rightarrow> int list" where
  "dedupNonZero ids = dedup_loop [] ids"

fun unique_loop :: "nat \<Rightarrow> int list \<Rightarrow> int list \<Rightarrow> int list" where
  "unique_loop limit out [] = out"
| "unique_loop limit out (i # is) =
     (if i = 0 \<or> i \<in> set out then unique_loop limit out is
      else let out = out @ [i] in if limit > 0 \<and> length out \<ge> limit then out else unique_loop limit out is)"

definition uniqueUserIDs :: "int list \<Rightarrow> nat \<Rightarrow> int list" where
  "uniqueUserIDs ids limit = unique_loop limit [] ids"

definition maxBatchUsers :: nat where
  "maxBatchUsers = 1000"

definition user_ByIDs :: "privacy_env \<Rightarrow> int list \<Rightarrow> base_user list" where
  "user_ByIDs env ids = List.map_filter (pe_users env) (dedup_loop [] ids)"

text \<open>Without a user cache, what is loaded is what the store returns.\<close>

definition PrivacyBaseUsers :: "privacy_env \<Rightarrow> int list \<Rightarrow> privacy_error + base_user list" where
  "PrivacyBaseUsers env userIDs =
     (let ids = uniqueUserIDs userIDs (maxBatchUsers + 1)
      in if length ids > maxBatchUsers then Inl ErrBatchUsersLimit
         else if ids = [] then Inr []
         else let loaded = fold (\<lambda>u m. if us_ID u \<noteq> 0 then m(us_ID u \<mapsto> u) else m) (user_ByIDs env ids) Map.empty
              in Inr (List.map_filter loaded ids))"

definition MaxActiveChannelMemberPairs :: int where
  "MaxActiveChannelMemberPairs = 65536"

fun dedup_pairs :: "(int \<times> int) list \<Rightarrow> (int \<times> int) list \<Rightarrow> privacy_error + (int \<times> int) list" where
  "dedup_pairs out [] = Inr out"
| "dedup_pairs out ((c, u) # ps) =
     (if c = 0 \<or> u = 0 \<or> (c, u) \<in> set out then dedup_pairs out ps
      else if int (length out) \<ge> MaxActiveChannelMemberPairs then Inl ErrActiveChannelMemberPairsLimit
      else dedup_pairs (out @ [(c, u)]) ps)"

text \<open>
  The request map of channels to users is given as its list of pairs in iteration order; the result
  is the set of active pairs, which does not depend on that order.
\<close>

definition FilterActiveChannelMemberPairs ::
  "privacy_env \<Rightarrow> (int \<times> int) list \<Rightarrow> privacy_error + (int \<times> int) list" where
  "FilterActiveChannelMemberPairs env pairs =
     (case dedup_pairs [] pairs of
        Inl e \<Rightarrow> Inl e
      | Inr requested \<Rightarrow> Inr (filter (\<lambda>(c, u). pe_members env c u = Some ChannelMemberActive) requested))"

section \<open>Facts\<close>

record viewer_facts =
  vf_Found :: bool
  vf_Bot :: bool
  vf_PremiumUntil :: int

definition no_facts :: viewer_facts where
  "no_facts = \<lparr>vf_Found = False, vf_Bot = False, vf_PremiumUntil = 0\<rparr>"

record evaluation_needs =
  en_viewerBase :: bool
  en_chatIDs :: "int list"

definition no_needs :: evaluation_needs where
  "no_needs = \<lparr>en_viewerBase = False, en_chatIDs = []\<rparr>"

fun add_chats :: "int list \<Rightarrow> int list \<Rightarrow> int list" where
  "add_chats out [] = out"
| "add_chats out (c # cs) = add_chats (if c \<le> 0 \<or> c \<in> set out then out else out @ [c]) cs"

fun needs_loop :: "evaluation_needs \<Rightarrow> privacy_rule list \<Rightarrow> evaluation_needs" where
  "needs_loop needs [] = needs"
| "needs_loop needs (rule # rules) =
     needs_loop
       (if ru_Kind rule \<in> {PrivacyRuleAllowPremium, PrivacyRuleAllowBots, PrivacyRuleDisallowBots}
        then needs\<lparr>en_viewerBase := True\<rparr>
        else if ru_Kind rule \<in> {PrivacyRuleAllowChatParticipants, PrivacyRuleDisallowChatParticipants}
        then needs\<lparr>en_chatIDs := add_chats (en_chatIDs needs) (ru_ChatIDs rule)\<rparr>
        else needs) rules"

definition needsForRules :: "privacy_rules \<Rightarrow> evaluation_needs" where
  "needsForRules rules = needs_loop no_needs (rs_Rules rules)"

fun merge_chats :: "int list \<Rightarrow> int list \<Rightarrow> int list" where
  "merge_chats out [] = out"
| "merge_chats out (c # cs) = merge_chats (if c \<in> set out then out else out @ [c]) cs"

definition mergeNeeds :: "evaluation_needs \<Rightarrow> evaluation_needs \<Rightarrow> evaluation_needs" where
  "mergeNeeds dst src =
     (let dst = (if en_viewerBase src then dst\<lparr>en_viewerBase := True\<rparr> else dst)
      in if en_chatIDs src = [] then dst
         else dst\<lparr>en_chatIDs := merge_chats (en_chatIDs dst) (en_chatIDs src)\<rparr>)"

definition facts_of_user :: "base_user \<Rightarrow> viewer_facts" where
  "facts_of_user u = \<lparr>vf_Found = True, vf_Bot = us_Bot u, vf_PremiumUntil = us_PremiumUntil u\<rparr>"

definition loadViewerFacts :: "privacy_env \<Rightarrow> int list \<Rightarrow> privacy_error + (int \<rightharpoonup> viewer_facts)" where
  "loadViewerFacts env viewerUserIDs =
     (let ids = dedupNonZero viewerUserIDs
      in if ids = [] then Inr Map.empty
         else let out = (\<lambda>i. if i \<in> set ids then Some no_facts else None)
              in case PrivacyBaseUsers env ids of
                   Inl e \<Rightarrow> Inl e
                 | Inr users \<Rightarrow>
                     Inr (fold (\<lambda>u m. if us_ID u = 0 then m else m(us_ID u \<mapsto> facts_of_user u)) users out))"

definition activeChannelMembershipPairsAllowed :: "int \<Rightarrow> int \<Rightarrow> int \<Rightarrow> bool" where
  "activeChannelMembershipPairsAllowed current channelCount userCount =
     (if current < 0 \<or> channelCount < 0 \<or> userCount < 0 \<or> current > MaxActiveChannelMemberPairs then False
      else if channelCount = 0 \<or> userCount = 0 then True
      else channelCount \<le> (MaxActiveChannelMemberPairs - current) div userCount)"

definition loadMembershipFactsForKeys ::
  "privacy_env \<Rightarrow> (int \<times> int) list \<Rightarrow> privacy_error + (int \<times> int \<rightharpoonup> bool)" where
  "loadMembershipFactsForKeys env input =
     (case dedup_pairs [] input of
        Inl e \<Rightarrow> Inl e
      | Inr keys \<Rightarrow>
          if keys = [] then Inr Map.empty
          else case FilterActiveChannelMemberPairs env keys of
            Inl e \<Rightarrow> Inl e
          | Inr active \<Rightarrow> Inr (\<lambda>p. if p \<in> set keys then Some (p \<in> set active) else None))"

definition loadMembershipFacts ::
  "privacy_env \<Rightarrow> int list \<Rightarrow> int list \<Rightarrow> privacy_error + (int \<times> int \<rightharpoonup> bool)" where
  "loadMembershipFacts env chatIDs viewerUserIDs =
     (let chats = dedupNonZero chatIDs; viewers = dedupNonZero viewerUserIDs
      in if chats = [] \<or> viewers = [] then Inr Map.empty
         else if \<not> activeChannelMembershipPairsAllowed 0 (int (length chats)) (int (length viewers))
         then Inl ErrActiveChannelMemberPairsLimit
         else loadMembershipFactsForKeys env (List.product chats viewers))"

definition applyViewerFacts :: "privacy_ctx \<Rightarrow> viewer_facts \<Rightarrow> int \<Rightarrow> privacy_ctx" where
  "applyViewerFacts ctx facts now =
     (if \<not> vf_Found facts then ctx
      else ctx\<lparr>px_ViewerIsBot := vf_Bot facts, px_ViewerIsPremium := (\<not> vf_Bot facts \<and> vf_PremiumUntil facts > now)\<rparr>)"

definition applyMembershipFacts :: "privacy_ctx \<Rightarrow> int list \<Rightarrow> (int \<times> int \<rightharpoonup> bool) \<Rightarrow> privacy_ctx" where
  "applyMembershipFacts ctx chatIDs facts =
     (if chatIDs = [] then ctx
      else ctx\<lparr>px_SharedChatIDs := px_SharedChatIDs ctx @
             filter (\<lambda>c. mget False facts (c, px_ViewerUserID ctx)) chatIDs\<rparr>)"

section \<open>The service\<close>

definition ValidKey :: "privacy_key \<Rightarrow> bool" where
  "ValidKey key \<longleftrightarrow> (case key of PrivacyKeyOther _ \<Rightarrow> False | _ \<Rightarrow> True)"

definition defaultRules :: "int \<Rightarrow> privacy_key \<Rightarrow> privacy_rules" where
  "defaultRules ownerUserID key = \<lparr>rs_OwnerUserID = ownerUserID, rs_Key = key, rs_Rules = DefaultPrivacyRules key\<rparr>"

definition maxPrivacyRules :: nat where
  "maxPrivacyRules = 100"

definition maxPrivacyRuleIDs :: nat where
  "maxPrivacyRuleIDs = 5000"

fun validate_loop :: "nat \<Rightarrow> privacy_rule list \<Rightarrow> bool" where
  "validate_loop totalIDs [] = True"
| "validate_loop totalIDs (rule # rules) =
     (if (case ru_Kind rule of PrivacyRuleOther _ \<Rightarrow> True | _ \<Rightarrow> False) then False
      else let totalIDs = totalIDs + length (ru_UserIDs rule) + length (ru_ChatIDs rule)
           in if totalIDs > maxPrivacyRuleIDs then False
              else if list_ex (\<lambda>i. i \<le> 0) (ru_UserIDs rule) then False
              else if list_ex (\<lambda>i. i \<le> 0) (ru_ChatIDs rule) then False
              else validate_loop totalIDs rules)"

definition validateRules :: "privacy_rule list \<Rightarrow> privacy_error option" where
  "validateRules rules =
     (if length rules > maxPrivacyRules then Some ErrPrivacyRuleInvalid
      else if \<not> validate_loop 0 rules then Some ErrPrivacyRuleInvalid else None)"

definition normalizedRules :: "int \<Rightarrow> privacy_key \<Rightarrow> privacy_rule list \<Rightarrow> privacy_error + privacy_rules" where
  "normalizedRules ownerUserID key rules =
     (if \<not> ValidKey key then Inl ErrPrivacyKeyInvalid
      else let rules = (if rules = [] then DefaultPrivacyRules key else rules)
           in case validateRules rules of
                Some e \<Rightarrow> Inl e
              | None \<Rightarrow> Inr \<lparr>rs_OwnerUserID = ownerUserID, rs_Key = key, rs_Rules = rules\<rparr>)"

definition GetRules :: "privacy_env \<Rightarrow> int \<Rightarrow> privacy_key \<Rightarrow> privacy_error + privacy_rules" where
  "GetRules env ownerUserID key =
     (if \<not> ValidKey key then Inl ErrPrivacyKeyInvalid
      else case GetPrivacyRules env ownerUserID key of
        None \<Rightarrow> Inr (defaultRules ownerUserID key)
      | Some rules \<Rightarrow>
          Inr \<lparr>rs_OwnerUserID = ownerUserID, rs_Key = key,
               rs_Rules = (if rs_Rules rules = [] then DefaultPrivacyRules key else rs_Rules rules)\<rparr>)"

definition SetRules ::
  "privacy_env \<Rightarrow> int \<Rightarrow> privacy_key \<Rightarrow> privacy_rule list \<Rightarrow> privacy_error + (privacy_rules \<times> privacy_env)" where
  "SetRules env ownerUserID key rules =
     (case normalizedRules ownerUserID key rules of
        Inl e \<Rightarrow> Inl e
      | Inr out \<Rightarrow> Inr (out, SetPrivacyRules env out))"

text \<open>
  The loop of \<open>AddAllowUser\<close> looks at the first allow-users rule only: \<open>None\<close> when there is none,
  otherwise whether it changed and the new rules.
\<close>

fun allow_loop :: "int \<Rightarrow> privacy_rule list \<Rightarrow> (bool \<times> privacy_rule list) option" where
  "allow_loop target [] = None"
| "allow_loop target (rule # rules) =
     (if ru_Kind rule \<noteq> PrivacyRuleAllowUsers
      then map_option (\<lambda>(changed, rs). (changed, rule # rs)) (allow_loop target rules)
      else if target \<in> set (ru_UserIDs rule) then Some (False, rule # rules)
      else Some (True, rule\<lparr>ru_UserIDs := ru_UserIDs rule @ [target]\<rparr> # rules))"

definition AddAllowUser ::
  "privacy_env \<Rightarrow> int \<Rightarrow> privacy_key \<Rightarrow> int \<Rightarrow> privacy_error + (privacy_rules \<times> bool \<times> privacy_env)" where
  "AddAllowUser env ownerUserID key targetUserID =
     (if targetUserID = 0 then Inl ErrPrivacyRuleInvalid
      else case GetRules env ownerUserID key of
        Inl e \<Rightarrow> Inl e
      | Inr rules \<Rightarrow>
          (case allow_loop targetUserID (rs_Rules rules) of
             Some (False, _) \<Rightarrow> Inr (rules, False, env)
           | Some (True, rs) \<Rightarrow>
               (case SetRules env ownerUserID key rs of Inl e \<Rightarrow> Inl e | Inr (next, env) \<Rightarrow> Inr (next, True, env))
           | None \<Rightarrow>
               (case SetRules env ownerUserID key
                       (\<lparr>ru_Kind = PrivacyRuleAllowUsers, ru_UserIDs = [targetUserID], ru_ChatIDs = []\<rparr> # rs_Rules rules) of
                  Inl e \<Rightarrow> Inl e | Inr (next, env) \<Rightarrow> Inr (next, True, env))))"

definition base_ctx :: "int \<Rightarrow> int \<Rightarrow> contact option \<Rightarrow> privacy_ctx" where
  "base_ctx ownerUserID viewerUserID c =
     \<lparr>px_OwnerUserID = ownerUserID, px_ViewerUserID = viewerUserID, px_ViewerIsContact = (c \<noteq> None),
      px_ViewerIsBot = False, px_ViewerIsPremium = False,
      px_ViewerCloseFriend = (case c of None \<Rightarrow> False | Some c \<Rightarrow> ct_CloseFriend c), px_SharedChatIDs = []\<rparr>"

definition CanSee :: "privacy_env \<Rightarrow> int \<Rightarrow> int \<Rightarrow> int \<Rightarrow> privacy_key \<Rightarrow> privacy_error + bool" where
  "CanSee env now ownerUserID viewerUserID key =
     (if ownerUserID = 0 \<or> viewerUserID = 0 then Inr False
      else if ownerUserID = viewerUserID then Inr True
      else case GetRules env ownerUserID key of
        Inl e \<Rightarrow> Inl e
      | Inr rules \<Rightarrow>
          let needs = needsForRules rules;
              evalCtx = base_ctx ownerUserID viewerUserID (contacts_Get env ownerUserID viewerUserID)
          in case (if en_viewerBase needs
                   then case loadViewerFacts env [viewerUserID] of
                          Inl e \<Rightarrow> Inl e
                        | Inr facts \<Rightarrow> Inr (applyViewerFacts evalCtx (mget no_facts facts viewerUserID) now)
                   else Inr evalCtx) of
               Inl e \<Rightarrow> Inl e
             | Inr evalCtx \<Rightarrow>
                 (if en_chatIDs needs \<noteq> []
                  then case loadMembershipFacts env (en_chatIDs needs) [viewerUserID] of
                         Inl e \<Rightarrow> Inl e
                       | Inr facts \<Rightarrow> Inr (EvaluatePrivacy rules (applyMembershipFacts evalCtx (en_chatIDs needs) facts))
                  else Inr (EvaluatePrivacy rules evalCtx)))"

definition CanSeeAnonymous :: "privacy_env \<Rightarrow> int \<Rightarrow> privacy_key \<Rightarrow> privacy_error + bool" where
  "CanSeeAnonymous env ownerUserID key =
     (if ownerUserID = 0 then Inr False
      else case GetRules env ownerUserID key of
        Inl e \<Rightarrow> Inl e
      | Inr rules \<Rightarrow> Inr (EvaluatePrivacy rules (base_ctx ownerUserID 0 None)))"

text \<open>Shared by the batch and the matrix: the rules listed for the owners, indexed, with defaults.\<close>

fun rules_index :: "(int \<times> privacy_key \<rightharpoonup> privacy_rules) \<Rightarrow> privacy_rules list \<Rightarrow> (int \<times> privacy_key \<rightharpoonup> privacy_rules)" where
  "rules_index m [] = m"
| "rules_index m (r # rs) =
     rules_index
       (if \<not> ValidKey (rs_Key r) then m
        else m((rs_OwnerUserID r, rs_Key r) \<mapsto>
               (if rs_Rules r = [] then r\<lparr>rs_Rules := DefaultPrivacyRules (rs_Key r)\<rparr> else r))) rs"

definition indexed_rules :: "(int \<times> privacy_key \<rightharpoonup> privacy_rules) \<Rightarrow> int \<Rightarrow> privacy_key \<Rightarrow> privacy_rules" where
  "indexed_rules m ownerUserID key =
     (case m (ownerUserID, key) of Some rules \<Rightarrow> rules | None \<Rightarrow> defaultRules ownerUserID key)"

definition all_needs :: "(int \<times> privacy_key \<rightharpoonup> privacy_rules) \<Rightarrow> int list \<Rightarrow> privacy_key list \<Rightarrow> evaluation_needs" where
  "all_needs m owners keys =
     fold (\<lambda>(i, k) needs. mergeNeeds needs (needsForRules (indexed_rules m i k))) (List.product owners keys) no_needs"

definition load_all ::
  "privacy_env \<Rightarrow> evaluation_needs \<Rightarrow> int list \<Rightarrow> privacy_error + ((int \<rightharpoonup> viewer_facts) \<times> (int \<times> int \<rightharpoonup> bool))" where
  "load_all env needs viewers =
     (case (if en_viewerBase needs then loadViewerFacts env viewers else Inr Map.empty) of
        Inl e \<Rightarrow> Inl e
      | Inr baseFacts \<Rightarrow>
          (case (if en_chatIDs needs \<noteq> [] then loadMembershipFacts env (en_chatIDs needs) viewers else Inr Map.empty) of
             Inl e \<Rightarrow> Inl e
           | Inr membershipFacts \<Rightarrow> Inr (baseFacts, membershipFacts)))"

definition cell ::
  "int \<Rightarrow> (int \<times> privacy_key \<rightharpoonup> privacy_rules) \<Rightarrow> evaluation_needs \<Rightarrow> (int \<rightharpoonup> viewer_facts) \<Rightarrow> (int \<times> int \<rightharpoonup> bool) \<Rightarrow>
   int \<Rightarrow> int \<Rightarrow> contact option \<Rightarrow> privacy_key \<Rightarrow> bool" where
  "cell now m needs baseFacts membershipFacts ownerUserID viewerUserID c key =
     EvaluatePrivacy (indexed_rules m ownerUserID key)
       (applyMembershipFacts
          (applyViewerFacts (base_ctx ownerUserID viewerUserID c) (mget no_facts baseFacts viewerUserID) now)
          (en_chatIDs needs) membershipFacts)"

definition row :: "privacy_key list \<Rightarrow> (privacy_key \<Rightarrow> bool) \<Rightarrow> (privacy_key \<rightharpoonup> bool)" where
  "row keys f = (\<lambda>k. if k \<in> set keys then Some (f k) else None)"

definition CanSeeBatch ::
  "privacy_env \<Rightarrow> (int \<times> privacy_key) list \<Rightarrow> int \<Rightarrow> int list \<Rightarrow> int \<Rightarrow> privacy_key list \<Rightarrow>
   privacy_error + (int \<rightharpoonup> (privacy_key \<rightharpoonup> bool))" where
  "CanSeeBatch env ord now ownerUserIDs viewerUserID keys =
     (if viewerUserID = 0 \<or> ownerUserIDs = [] \<or> keys = [] then Inr Map.empty
      else if list_ex (\<lambda>k. \<not> ValidKey k) keys then Inl ErrPrivacyKeyInvalid
      else let ids = dedupNonZero ownerUserIDs;
               own = (\<lambda>i. if i \<in> set ids \<and> i = viewerUserID then Some (row keys (\<lambda>_. True)) else None);
               owners = filter (\<lambda>i. i \<noteq> viewerUserID) ids
           in if owners = [] then Inr own
              else let rulesByOwner = rules_index Map.empty (ListPrivacyRules env ord owners keys);
                       needs = all_needs rulesByOwner owners keys;
                       reverse = GetReverseContacts env viewerUserID owners
                   in case load_all env needs [viewerUserID] of
                        Inl e \<Rightarrow> Inl e
                      | Inr (baseFacts, membershipFacts) \<Rightarrow>
                          Inr (\<lambda>i. if i \<in> set owners
                                   then Some (row keys (cell now rulesByOwner needs baseFacts membershipFacts
                                          i viewerUserID (reverse i)))
                                   else own i))"

definition CanContactForFreeBatch ::
  "privacy_env \<Rightarrow> (int \<times> privacy_key) list \<Rightarrow> int \<Rightarrow> int list \<Rightarrow> int \<Rightarrow> privacy_error + (int \<rightharpoonup> bool)" where
  "CanContactForFreeBatch env ord now ownerUserIDs viewerUserID =
     (let owners = dedupNonZero ownerUserIDs
      in if viewerUserID = 0 \<or> owners = [] then Inr Map.empty
         else case CanSeeBatch env ord now owners viewerUserID [PrivacyKeyNoPaidMessages] of
           Inl e \<Rightarrow> Inl e
         | Inr visibility \<Rightarrow>
             let contacts = GetReverseContacts env viewerUserID owners
             in Inr (\<lambda>i. if i \<in> set owners
                      then Some (i = viewerUserID \<or> contacts i \<noteq> None \<or>
                             (case visibility i of None \<Rightarrow> False | Some m \<Rightarrow> mget False m PrivacyKeyNoPaidMessages))
                      else None))"

definition ViewerIsPremium :: "privacy_env \<Rightarrow> int \<Rightarrow> int \<Rightarrow> privacy_error + bool" where
  "ViewerIsPremium env now viewerUserID =
     (if viewerUserID = 0 then Inr False
      else case loadViewerFacts env [viewerUserID] of
        Inl e \<Rightarrow> Inl e
      | Inr facts \<Rightarrow>
          let fact = mget no_facts facts viewerUserID
          in Inr (vf_Found fact \<and> \<not> vf_Bot fact \<and> vf_PremiumUntil fact > now))"

definition CanSeeMatrix ::
  "privacy_env \<Rightarrow> (int \<times> privacy_key) list \<Rightarrow> int \<Rightarrow> int list \<Rightarrow> int list \<Rightarrow> privacy_key list \<Rightarrow>
   privacy_error + (int \<rightharpoonup> (int \<rightharpoonup> (privacy_key \<rightharpoonup> bool)))" where
  "CanSeeMatrix env ord now ownerUserIDs viewerUserIDs keys =
     (if ownerUserIDs = [] \<or> viewerUserIDs = [] \<or> keys = [] then Inr Map.empty
      else if list_ex (\<lambda>k. \<not> ValidKey k) keys then Inl ErrPrivacyKeyInvalid
      else let owners = dedupNonZero ownerUserIDs; viewers = dedupNonZero viewerUserIDs
           in if owners = [] \<or> viewers = [] then Inr Map.empty
              else let rulesByOwner = rules_index Map.empty (ListPrivacyRules env ord owners keys);
                       needs = all_needs rulesByOwner owners keys
                   in case load_all env needs viewers of
                        Inl e \<Rightarrow> Inl e
                      | Inr (baseFacts, membershipFacts) \<Rightarrow>
                          let requested = (\<lambda>i. if i \<in> set owners then Some viewers else None);
                              contactsByOwner = ContactProjectionForViewerUserIDs env requested
                          in Inr (\<lambda>i. if i \<in> set owners
                                   then Some (\<lambda>v. if v \<in> set viewers
                                          then Some (row keys (if i = v then (\<lambda>_. True)
                                                 else cell now rulesByOwner needs baseFacts membershipFacts i v
                                                        (contactsByOwner i v)))
                                          else None)
                                   else None))"

end
