(* ===== verification/Contact_Writes.thy ===== *)
theory Contact_Writes
  imports Privacy_Rules
begin

text \<open>
  The contact store's writes (\<open>internal/store/memory/contacts.go\<close>) on the fields privacy reads, and
  the states the privacy tables reach: an environment starts with empty tables and is changed by the
  rule store, by the contact store, and by the user and membership tables, which are replaced freely
  (a user row keeps its id).

  \<open>Upsert\<close> marks the other side's row as mutual and then replaces or appends the own row. The Go code
  shares the backing array between \<open>list\<close> and \<open>reverse\<close> when a user adds itself, so the own row is
  looked up after the mark, as here. \<open>Delete\<close> filters in place; the rows it marks in a list that is
  being filtered are the ones it drops. \<open>SetPersonalPhoto\<close> writes photo fields only, which the model's
  contact does not have. \<open>SaveList\<close> stores a list as it is given; its comment reserves it for tests,
  no caller exists outside them, and it is not a step here.

  Lemmas: in every reachable environment each account has at most one row per contact and the
  close-friend flag of a row agrees with the one of its copied user (\<open>tables_reach_ok\<close>).
\<close>

section \<open>Writes\<close>

record contact_input =
  ci_ContactUserID :: int
  ci_Phone :: string
  ci_FirstName :: string
  ci_LastName :: string
  ci_Note :: string

fun mark_reverse :: "int \<Rightarrow> contact list \<Rightarrow> contact list \<times> bool" where
  "mark_reverse userID [] = ([], False)"
| "mark_reverse userID (c # cs) =
     (if ct_UserID c = userID then (c\<lparr>ct_Mutual := True, ct_UserMutual := True\<rparr> # cs, True)
      else let (cs, found) = mark_reverse userID cs in (c # cs, found))"

definition input_contact :: "contact_input \<Rightarrow> bool \<Rightarrow> contact" where
  "input_contact input mutual =
     \<lparr>ct_UserID = ci_ContactUserID input, ct_UserMutual = mutual, ct_UserCloseFriend = False,
      ct_FirstName = ci_FirstName input, ct_LastName = ci_LastName input, ct_Phone = ci_Phone input,
      ct_Note = ci_Note input, ct_Mutual = mutual, ct_CloseFriend = False\<rparr>"

fun upsert_row :: "contact \<Rightarrow> contact list \<Rightarrow> contact \<times> contact list" where
  "upsert_row contact [] = (contact, [contact])"
| "upsert_row contact (existing # rest) =
     (if ct_UserID existing \<noteq> ct_UserID contact
      then let (stored, rest) = upsert_row contact rest in (stored, existing # rest)
      else let contact = contact\<lparr>ct_CloseFriend := ct_CloseFriend existing,
                 ct_UserCloseFriend := ct_CloseFriend existing \<or> ct_UserCloseFriend existing\<rparr>
           in (contact, contact # rest))"

definition Upsert :: "privacy_env \<Rightarrow> int \<Rightarrow> contact_input \<Rightarrow> contact \<times> privacy_env" where
  "Upsert env userID input =
     (let (reverse, mutual) = mark_reverse userID (pe_contacts env (ci_ContactUserID input));
          m = (pe_contacts env)(ci_ContactUserID input := reverse);
          (contact, contacts) = upsert_row (input_contact input mutual) (m userID)
      in (contact, env\<lparr>pe_contacts := m(userID := contacts)\<rparr>))"

fun UpsertMany :: "privacy_env \<Rightarrow> int \<Rightarrow> contact_input list \<Rightarrow> contact list \<times> privacy_env" where
  "UpsertMany env userID [] = ([], env)"
| "UpsertMany env userID (input # inputs) =
     (let (contact, env) = Upsert env userID input;
          (out, env) = UpsertMany env userID inputs
      in (contact # out, env))"

fun note_row :: "int \<Rightarrow> string \<Rightarrow> contact list \<Rightarrow> contact option \<times> contact list" where
  "note_row contactUserID note [] = (None, [])"
| "note_row contactUserID note (c # cs) =
     (if ct_UserID c = contactUserID then (Some (c\<lparr>ct_Note := note\<rparr>), c\<lparr>ct_Note := note\<rparr> # cs)
      else let (found, cs) = note_row contactUserID note cs in (found, c # cs))"

definition UpdateNote :: "privacy_env \<Rightarrow> int \<Rightarrow> int \<Rightarrow> string \<Rightarrow> contact option \<times> privacy_env" where
  "UpdateNote env userID contactUserID note =
     (let (found, contacts) = note_row contactUserID note (pe_contacts env userID)
      in (found, env\<lparr>pe_contacts := (pe_contacts env)(userID := contacts)\<rparr>))"

definition unmark :: "int \<Rightarrow> contact \<Rightarrow> contact" where
  "unmark userID c = (if ct_UserID c = userID then c\<lparr>ct_Mutual := False, ct_UserMutual := False\<rparr> else c)"

fun delete_loop ::
  "int \<Rightarrow> int list \<Rightarrow> (int \<Rightarrow> contact list) \<Rightarrow> contact list \<Rightarrow> int \<Rightarrow> contact list
     \<Rightarrow> (int \<Rightarrow> contact list) \<times> contact list \<times> int" where
  "delete_loop userID remove m out deleted [] = (m, out, deleted)"
| "delete_loop userID remove m out deleted (contact # contacts) =
     (if ct_UserID contact \<in> set remove
      then delete_loop userID remove
             (m(ct_UserID contact := map (unmark userID) (m (ct_UserID contact)))) out (deleted + 1) contacts
      else delete_loop userID remove m (out @ [contact]) deleted contacts)"

definition Delete :: "privacy_env \<Rightarrow> int \<Rightarrow> int list \<Rightarrow> int \<times> privacy_env" where
  "Delete env userID contactUserIDs =
     (let remove = filter (\<lambda>i. i \<noteq> 0) contactUserIDs
      in if remove = [] then (0, env)
         else let (m, out, deleted) = delete_loop userID remove (pe_contacts env) [] 0 (pe_contacts env userID)
              in (deleted, env\<lparr>pe_contacts := m(userID := out)\<rparr>))"

definition SaveList :: "privacy_env \<Rightarrow> int \<Rightarrow> contact list \<Rightarrow> privacy_env" where
  "SaveList env userID contacts = env\<lparr>pe_contacts := (pe_contacts env)(userID := contacts)\<rparr>"

definition empty_env :: privacy_env where
  "empty_env = \<lparr>pe_rules = Map.empty, pe_contacts = (\<lambda>_. []), pe_users = Map.empty,
     pe_members = (\<lambda>_. Map.empty)\<rparr>"

section \<open>Reachable tables\<close>

definition rules_ok :: "privacy_env \<Rightarrow> bool" where
  "rules_ok env \<longleftrightarrow> (\<forall>i k r. pe_rules env (i, k) = Some r \<longrightarrow> rs_OwnerUserID r = i \<and> rs_Key r = k)"

definition users_ok :: "privacy_env \<Rightarrow> bool" where
  "users_ok env \<longleftrightarrow> (\<forall>i u. pe_users env i = Some u \<longrightarrow> us_ID u = i)"

definition rows_ok :: "contact list \<Rightarrow> bool" where
  "rows_ok cs \<longleftrightarrow> distinct (map ct_UserID cs) \<and> (\<forall>c \<in> set cs. ct_UserCloseFriend c = ct_CloseFriend c)"

definition contacts_ok :: "privacy_env \<Rightarrow> bool" where
  "contacts_ok env \<longleftrightarrow> (\<forall>i. rows_ok (pe_contacts env i))"

definition env_ok :: "privacy_env \<Rightarrow> bool" where
  "env_ok env \<longleftrightarrow> rules_ok env \<and> users_ok env \<and> contacts_ok env"

inductive tables_step :: "privacy_env \<Rightarrow> privacy_env \<Rightarrow> bool" where
  set_rules: "tables_step env (SetPrivacyRules env r)"
| upsert: "tables_step env (snd (Upsert env u input))"
| update_note: "tables_step env (snd (UpdateNote env u c n))"
| close_friends: "tables_step env (snd (SetCloseFriends env u ids))"
| delete: "tables_step env (snd (Delete env u ids))"
| users: "(\<And>i b. us i = Some b \<Longrightarrow> us_ID b = i) \<Longrightarrow> tables_step env (env\<lparr>pe_users := us\<rparr>)"
| members: "tables_step env (env\<lparr>pe_members := ms\<rparr>)"

inductive tables_reach :: "privacy_env \<Rightarrow> bool" where
  empty: "tables_reach empty_env"
| step: "tables_reach env \<Longrightarrow> tables_step env env' \<Longrightarrow> tables_reach env'"

lemma contacts_ok_write:
  "env_ok env \<Longrightarrow> (\<And>i. rows_ok (m i)) \<Longrightarrow> env_ok (env\<lparr>pe_contacts := m\<rparr>)"
  by (auto simp: env_ok_def rules_ok_def users_ok_def contacts_ok_def)

lemma env_ok_rows: "env_ok env \<Longrightarrow> rows_ok (pe_contacts env i)"
  by (simp add: env_ok_def contacts_ok_def)

lemma SetPrivacyRules_ok: "env_ok env \<Longrightarrow> env_ok (SetPrivacyRules env r)"
  by (auto simp: env_ok_def rules_ok_def users_ok_def contacts_ok_def SetPrivacyRules_def)

lemma set_close_ok: "rows_ok cs \<Longrightarrow> rows_ok (map (set_close u ids) cs)"
  by (simp add: rows_ok_def set_close_def comp_def)

lemma SetCloseFriends_ok: "env_ok env \<Longrightarrow> env_ok (snd (SetCloseFriends env u ids))"
  by (simp add: SetCloseFriends_def Let_def contacts_ok_write set_close_ok env_ok_rows)

text \<open>A row that changes neither its id nor its two close-friend flags.\<close>

definition flags :: "contact \<Rightarrow> int \<times> bool \<times> bool" where
  "flags c = (ct_UserID c, ct_CloseFriend c, ct_UserCloseFriend c)"

definition flags_ok :: "(int \<times> bool \<times> bool) list \<Rightarrow> bool" where
  "flags_ok fs \<longleftrightarrow> distinct (map fst fs) \<and> (\<forall>(i, a, b) \<in> set fs. b = a)"

lemma rows_ok_alt: "rows_ok cs = flags_ok (map flags cs)"
  by (auto simp: rows_ok_def flags_ok_def flags_def comp_def)

lemma rows_ok_flags: "map flags cs = map flags cs' \<Longrightarrow> rows_ok cs' \<Longrightarrow> rows_ok cs"
  by (simp only: rows_ok_alt)

lemma mark_reverse_flags: "map flags (fst (mark_reverse u cs)) = map flags cs"
  by (induction cs) (auto simp: flags_def split: prod.splits)

lemma note_row_flags: "map flags (snd (note_row u n cs)) = map flags cs"
  by (induction cs) (auto simp: flags_def split: prod.splits)

lemma unmark_flags: "map flags (map (unmark u) cs) = map flags cs"
  by (auto simp: unmark_def flags_def)

lemma upsert_row_ids:
  "set (map ct_UserID (snd (upsert_row c cs))) = insert (ct_UserID c) (set (map ct_UserID cs))"
  by (induction cs) (auto simp: Let_def split: prod.splits)

lemma upsert_row_ok:
  "rows_ok cs \<Longrightarrow> ct_UserCloseFriend c = ct_CloseFriend c \<Longrightarrow> rows_ok (snd (upsert_row c cs))"
proof (induction cs)
  case (Cons e es)
  then have "rows_ok es" by (simp add: rows_ok_def)
  with Cons have "rows_ok (snd (upsert_row c es))" by blast
  then show ?case
    using Cons.prems upsert_row_ids[of c es] by (auto simp: rows_ok_def Let_def split: prod.splits)
qed (simp add: rows_ok_def)

lemma Upsert_ok: "env_ok env \<Longrightarrow> env_ok (snd (Upsert env u input))"
proof -
  assume ok: "env_ok env"
  let ?p = "ci_ContactUserID input"
  obtain r b where r: "mark_reverse u (pe_contacts env ?p) = (r, b)" by fastforce
  let ?m = "(pe_contacts env)(?p := r)"
  have m: "rows_ok (?m i)" for i
    using rows_ok_flags[OF mark_reverse_flags[of u "pe_contacts env ?p"]] env_ok_rows[OF ok] r by simp
  obtain c cs where c: "upsert_row (input_contact input b) (?m u) = (c, cs)" by fastforce
  have "rows_ok cs"
    using upsert_row_ok[OF m[of u], of "input_contact input b"] c by (simp add: input_contact_def)
  then show ?thesis
    using ok m r c by (auto simp: Upsert_def intro!: contacts_ok_write)
qed

lemma UpdateNote_ok: "env_ok env \<Longrightarrow> env_ok (snd (UpdateNote env u c n))"
  using rows_ok_flags[OF note_row_flags[of c n "pe_contacts env u"]] env_ok_rows[of env]
  by (auto simp: UpdateNote_def split: prod.splits intro!: contacts_ok_write)

lemma delete_loop_ok:
  assumes "delete_loop u rm m out d cs = (m', out', d')" and "\<And>i. rows_ok (m i)"
  shows "(\<forall>i. rows_ok (m' i)) \<and> out' = out @ filter (\<lambda>c. ct_UserID c \<notin> set rm) cs \<and>
    d' = d + int (length (filter (\<lambda>c. ct_UserID c \<in> set rm) cs))"
  using assms
proof (induction u rm m out d cs rule: delete_loop.induct)
  case (2 u rm m out d c cs)
  have "rows_ok (map (unmark u) (m (ct_UserID c)))"
    using rows_ok_flags[OF unmark_flags] 2(4) by blast
  then have "\<And>i. rows_ok ((m(ct_UserID c := map (unmark u) (m (ct_UserID c)))) i)"
    using 2(4) by simp
  moreover have "delete_loop u rm (if ct_UserID c \<in> set rm then m(ct_UserID c := map (unmark u) (m (ct_UserID c))) else m)
      (if ct_UserID c \<in> set rm then out else out @ [c]) (if ct_UserID c \<in> set rm then d + 1 else d) cs = (m', out', d')"
    using 2(3) by (simp split: if_splits)
  ultimately show ?case using 2(1,2,4) by (cases "ct_UserID c \<in> set rm") (simp_all del: fun_upd_apply)
qed simp

lemma Delete_ok: "env_ok env \<Longrightarrow> env_ok (snd (Delete env u ids))"
proof -
  assume ok: "env_ok env"
  obtain m out d where l: "delete_loop u (filter (\<lambda>i. i \<noteq> 0) ids) (pe_contacts env) [] 0 (pe_contacts env u) = (m, out, d)"
    using prod_cases3 by blast
  have "\<And>i. rows_ok (m i)" "rows_ok out"
    using delete_loop_ok[OF l env_ok_rows[OF ok]] env_ok_rows[OF ok, of u]
    by (auto simp: rows_ok_def distinct_map_filter)
  then show ?thesis using ok l by (auto simp: Delete_def Let_def intro!: contacts_ok_write)
qed

lemma tables_step_ok: "tables_step env env' \<Longrightarrow> env_ok env \<Longrightarrow> env_ok env'"
proof (induction rule: tables_step.induct)
  case (users us env)
  then show ?case by (auto simp: env_ok_def rules_ok_def users_ok_def contacts_ok_def)
next
  case (members env ms)
  then show ?case by (auto simp: env_ok_def rules_ok_def users_ok_def contacts_ok_def)
qed (simp_all add: SetPrivacyRules_ok Upsert_ok UpdateNote_ok SetCloseFriends_ok Delete_ok)

theorem tables_reach_ok: "tables_reach env \<Longrightarrow> env_ok env"
proof (induction rule: tables_reach.induct)
  case empty
  show ?case by (simp add: env_ok_def rules_ok_def users_ok_def contacts_ok_def rows_ok_def empty_env_def)
qed (rule tables_step_ok)

end
