(* ===== verification/Privacy_Properties.thy ===== *)
theory Privacy_Properties
  imports Contact_Writes
begin

text \<open>
  Properties of account privacy.

  The bulk queries share their loads between owners, viewers and keys and evaluate each rule set with
  more facts than it asks for; the lemmas show what each load returns for a pair, that evaluation only
  depends on the facts the rules need (\<open>evaluate_cong\<close>), and so that every answer of a bulk query is
  the answer \<open>CanSee\<close> gives for that owner, viewer and key.
\<close>

section \<open>Lists and tables\<close>

lemma set_dedup_loop: "set (dedup_loop out is) = set out \<union> (set is - {0})"
  by (induction out "is" rule: dedup_loop.induct) auto

lemma distinct_dedup_loop: "distinct out \<Longrightarrow> distinct (dedup_loop out is)"
  by (induction out "is" rule: dedup_loop.induct) auto

lemma set_dedupNonZero: "set (dedupNonZero ids) = set ids - {0}"
  by (simp add: dedupNonZero_def set_dedup_loop)

lemma distinct_dedupNonZero: "distinct (dedupNonZero ids)"
  by (simp add: dedupNonZero_def distinct_dedup_loop)

lemma length_dedup_mono: "set a \<subseteq> set b \<Longrightarrow> length (dedupNonZero a) \<le> length (dedupNonZero b)"
  using card_mono[of "set b - {0}" "set a - {0}"] distinct_card[OF distinct_dedupNonZero]
  by (metis Diff_mono List.finite_set finite_Diff order_refl set_dedupNonZero)

lemma unique_loop_dedup: "length (unique_loop n out is) < n \<Longrightarrow> unique_loop n out is = dedup_loop out is"
  by (induction n out "is" rule: unique_loop.induct) (auto simp: Let_def split: if_splits)

section \<open>The rules a bulk query sees\<close>

definition full_rules :: "privacy_rules \<Rightarrow> privacy_rules" where
  "full_rules r = (if rs_Rules r = [] then r\<lparr>rs_Rules := DefaultPrivacyRules (rs_Key r)\<rparr> else r)"

definition listed :: "privacy_env \<Rightarrow> int list \<Rightarrow> privacy_key list \<Rightarrow> (int \<times> privacy_key) list \<Rightarrow> privacy_rules list" where
  "listed env owners keys ord =
     List.map_filter (\<lambda>(i, k). if i \<in> set owners \<and> k \<in> set keys then pe_rules env (i, k) else None) ord"

lemma list_rules_loop_listed: "list_rules_loop env owners keys out ord = out @ listed env owners keys ord"
  by (induction env owners keys out ord rule: list_rules_loop.induct)
    (auto simp: listed_def List.map_filter_simps split: option.splits)

lemma rules_index_listed:
  assumes "rules_ok env"
  shows "rules_index m (listed env owners keys ord) (i, k) =
    (if (i, k) \<in> set ord \<and> i \<in> set owners \<and> k \<in> set keys \<and> ValidKey k \<and> pe_rules env (i, k) \<noteq> None
     then map_option full_rules (pe_rules env (i, k)) else m (i, k))"
proof (induction ord arbitrary: m)
  case (Cons p ord)
  obtain i' k' where p: "p = (i', k')"
    by (cases p)
  show ?case
  proof (cases "i' \<in> set owners \<and> k' \<in> set keys \<and> pe_rules env (i', k') \<noteq> None")
    case True
    then obtain r where r: "pe_rules env (i', k') = Some r" "rs_OwnerUserID r = i'" "rs_Key r = k'"
      using assms by (auto simp: rules_ok_def)
    then show ?thesis
      using True Cons.IH by (auto simp: p listed_def List.map_filter_simps full_rules_def)
  next
    case False
    then have "listed env owners keys (p # ord) = listed env owners keys ord"
      by (auto simp: p listed_def List.map_filter_simps split: option.splits)
    then show ?thesis
      using Cons.IH False by (auto simp: p)
  qed
qed (simp add: listed_def List.map_filter_simps)

lemma bulk_rules:
  assumes "rules_ok env" "set ord = dom (pe_rules env)" "i \<in> set owners" "k \<in> set keys" "ValidKey k"
  defines "m \<equiv> rules_index Map.empty (ListPrivacyRules env ord owners keys)"
  shows "GetRules env i k = Inr (indexed_rules m i k)"
proof -
  have "owners \<noteq> []" "keys \<noteq> []"
    using assms(3,4) by auto
  then have m: "m (i, k) = map_option full_rules (pe_rules env (i, k))"
    unfolding m_def ListPrivacyRules_def
    using rules_index_listed[OF assms(1), of Map.empty owners keys ord i k] assms(2-5)
    by (auto simp: list_rules_loop_listed)
  show ?thesis
  proof (cases "pe_rules env (i, k)")
    case (Some r)
    then have "rs_OwnerUserID r = i" "rs_Key r = k"
      using assms(1) by (auto simp: rules_ok_def)
    then show ?thesis
      using Some assms(5) m by (cases r) (auto simp: GetRules_def GetPrivacyRules_def indexed_rules_def full_rules_def)
  qed (use assms(5) m in \<open>simp add: GetRules_def GetPrivacyRules_def indexed_rules_def\<close>)
qed

section \<open>What rules need\<close>

definition base_kind :: "rule_kind \<Rightarrow> bool" where
  "base_kind k \<longleftrightarrow> k \<in> {PrivacyRuleAllowPremium, PrivacyRuleAllowBots, PrivacyRuleDisallowBots}"

definition chat_kind :: "rule_kind \<Rightarrow> bool" where
  "chat_kind k \<longleftrightarrow> k \<in> {PrivacyRuleAllowChatParticipants, PrivacyRuleDisallowChatParticipants}"

definition needs_base :: "privacy_rules \<Rightarrow> bool" where
  "needs_base r \<longleftrightarrow> (\<exists>x \<in> set (rs_Rules r). base_kind (ru_Kind x))"

definition needs_chats :: "privacy_rules \<Rightarrow> int set" where
  "needs_chats r = {c. 0 < c \<and> (\<exists>x \<in> set (rs_Rules r). chat_kind (ru_Kind x) \<and> c \<in> set (ru_ChatIDs x))}"

lemma set_add_chats: "set (add_chats out cs) = set out \<union> {c \<in> set cs. 0 < c}"
  by (induction out cs rule: add_chats.induct) auto

lemma needs_loop_spec:
  "(en_viewerBase (needs_loop n rs) \<longleftrightarrow> en_viewerBase n \<or> (\<exists>x \<in> set rs. base_kind (ru_Kind x))) \<and>
   set (en_chatIDs (needs_loop n rs)) =
     set (en_chatIDs n) \<union> {c. 0 < c \<and> (\<exists>x \<in> set rs. chat_kind (ru_Kind x) \<and> c \<in> set (ru_ChatIDs x))}"
proof (induction rs arbitrary: n)
  case (Cons x rs)
  then show ?case
    by (auto simp: base_kind_def chat_kind_def set_add_chats)
qed simp

lemma needsForRules_spec:
  "en_viewerBase (needsForRules r) \<longleftrightarrow> needs_base r" "set (en_chatIDs (needsForRules r)) = needs_chats r"
  using needs_loop_spec[of no_needs "rs_Rules r"]
  by (simp_all add: needsForRules_def needs_base_def needs_chats_def no_needs_def)

lemma set_merge_chats: "set (merge_chats out cs) = set out \<union> set cs"
  by (induction out cs rule: merge_chats.induct) auto

lemma mergeNeeds_spec:
  "en_viewerBase (mergeNeeds a b) \<longleftrightarrow> en_viewerBase a \<or> en_viewerBase b"
  "set (en_chatIDs (mergeNeeds a b)) = set (en_chatIDs a) \<union> set (en_chatIDs b)"
  by (auto simp: mergeNeeds_def Let_def set_merge_chats)

lemma fold_needs_spec:
  "(en_viewerBase (fold (\<lambda>(i, k) n. mergeNeeds n (needsForRules (f i k))) ps n) \<longleftrightarrow>
      en_viewerBase n \<or> (\<exists>(i, k) \<in> set ps. needs_base (f i k))) \<and>
   set (en_chatIDs (fold (\<lambda>(i, k) n. mergeNeeds n (needsForRules (f i k))) ps n)) =
      set (en_chatIDs n) \<union> (\<Union>(i, k) \<in> set ps. needs_chats (f i k))"
  by (induction ps arbitrary: n) (auto simp: mergeNeeds_spec needsForRules_spec)

lemma all_needs_spec:
  assumes "i \<in> set owners" "k \<in> set keys"
  shows "needs_base (indexed_rules m i k) \<Longrightarrow> en_viewerBase (all_needs m owners keys)"
    "needs_chats (indexed_rules m i k) \<subseteq> set (en_chatIDs (all_needs m owners keys))"
    "c \<in> set (en_chatIDs (all_needs m owners keys)) \<Longrightarrow> 0 < c"
  using assms fold_needs_spec[of "indexed_rules m" "List.product owners keys" no_needs]
  by (auto simp: all_needs_def no_needs_def needs_chats_def)

section \<open>What the loads return\<close>

definition user_facts :: "privacy_env \<Rightarrow> int \<Rightarrow> viewer_facts" where
  "user_facts env v = (case pe_users env v of None \<Rightarrow> no_facts | Some u \<Rightarrow> facts_of_user u)"

lemma users_map_filter_ids:
  assumes "users_ok env"
  shows "map us_ID (List.map_filter (pe_users env) ids) = filter (\<lambda>i. pe_users env i \<noteq> None) ids"
    "u \<in> set (List.map_filter (pe_users env) ids) \<longleftrightarrow> (\<exists>i \<in> set ids. pe_users env i = Some u)"
  using assms by (induction ids) (auto simp: List.map_filter_simps users_ok_def split: option.splits)

lemma fold_upd_other:
  "i \<notin> us_ID ` set us \<Longrightarrow> fold (\<lambda>u m. if us_ID u \<noteq> 0 then m(us_ID u \<mapsto> g u) else m) us m i = m i"
  by (induction us arbitrary: m) auto

lemma fold_upd_users:
  assumes "users_ok env" "0 \<notin> set ids"
  shows "fold (\<lambda>u m. if us_ID u \<noteq> 0 then m(us_ID u \<mapsto> g u) else m) (List.map_filter (pe_users env) ids) m i =
    (if i \<in> set ids \<and> pe_users env i \<noteq> None then map_option g (pe_users env i) else m i)"
  using assms
proof (induction ids arbitrary: m)
  case (Cons j ids)
  show ?case
  proof (cases "pe_users env j")
    case (Some u)
    moreover have "us_ID u = j"
      using Some Cons.prems(1) by (simp add: users_ok_def)
    ultimately show ?thesis
      using Cons by (auto simp: List.map_filter_simps)
  qed (use Cons in \<open>auto simp: List.map_filter_simps\<close>)
qed (simp add: List.map_filter_simps)

lemma map_filter_cong: "(\<And>x. x \<in> set xs \<Longrightarrow> f x = g x) \<Longrightarrow> List.map_filter f xs = List.map_filter g xs"
  by (induction xs) (auto simp: List.map_filter_simps split: option.splits)

lemma PrivacyBaseUsers_spec:
  assumes "users_ok env" "PrivacyBaseUsers env ids = Inr us"
  shows "us = List.map_filter (pe_users env) (dedup_loop [] ids)"
proof -
  let ?d = "uniqueUserIDs ids (maxBatchUsers + 1)"
  have d: "?d = dedup_loop [] ids" if "length ?d \<le> maxBatchUsers"
    using unique_loop_dedup[of "maxBatchUsers + 1" "[]" ids] that by (simp add: uniqueUserIDs_def)
  have nz: "0 \<notin> set (dedup_loop [] (dedup_loop [] ids))" "0 \<notin> set (dedup_loop [] ids)"
    "set (dedup_loop [] (dedup_loop [] ids)) = set (dedup_loop [] ids)"
    by (simp_all add: set_dedup_loop)
  let ?l = "fold (\<lambda>u m. if us_ID u \<noteq> 0 then m(us_ID u \<mapsto> u) else m) (user_ByIDs env (dedup_loop [] ids)) Map.empty"
  have l: "?l i = pe_users env i" if "i \<in> set (dedup_loop [] ids)" for i
    unfolding user_ByIDs_def using that nz(3)
    by (subst fold_upd_users[OF assms(1) nz(1)]) (simp_all add: option.map_ident)
  show ?thesis
  proof (cases "dedup_loop [] ids = []")
    case True
    then show ?thesis
      using assms(2) d by (auto simp: PrivacyBaseUsers_def Let_def List.map_filter_simps split: if_splits)
  next
    case False
    then have "us = List.map_filter ?l (dedup_loop [] ids)"
      using assms(2) d by (auto simp: PrivacyBaseUsers_def Let_def split: if_splits)
    then show ?thesis
      using map_filter_cong[of "dedup_loop [] ids" ?l "pe_users env"] l by simp
  qed
qed

lemma loadViewerFacts_spec:
  assumes "users_ok env" "loadViewerFacts env vs = Inr f" "v \<in> set vs" "v \<noteq> 0"
  shows "mget no_facts f v = user_facts env v"
proof -
  let ?ids = "dedupNonZero vs"
  have v: "v \<in> set ?ids"
    using assms(3,4) by (simp add: set_dedupNonZero)
  then have ne: "?ids \<noteq> []"
    by auto
  obtain us where us: "PrivacyBaseUsers env ?ids = Inr us" and
    f: "f = fold (\<lambda>u m. if us_ID u = 0 then m else m(us_ID u \<mapsto> facts_of_user u)) us
        (\<lambda>i. if i \<in> set ?ids then Some no_facts else None)"
    using assms(2) ne by (auto simp: loadViewerFacts_def Let_def split: sum.splits)
  have nz: "0 \<notin> set (dedup_loop [] ?ids)" "v \<in> set (dedup_loop [] ?ids)"
    using v assms(4) by (simp_all add: set_dedup_loop)
  have flip: "(\<lambda>u m. if us_ID u = 0 then m else m(us_ID u \<mapsto> facts_of_user u)) =
      (\<lambda>u m. if us_ID u \<noteq> 0 then m(us_ID u \<mapsto> facts_of_user u) else m)"
    by (auto simp: fun_eq_iff)
  show ?thesis
    unfolding f flip PrivacyBaseUsers_spec[OF assms(1) us] mget_def
    using v nz(2) by (subst fold_upd_users[OF assms(1) nz(1)]) (auto simp: user_facts_def split: option.splits)
qed

lemma loadViewerFacts_single: "\<exists>f. loadViewerFacts env [v] = Inr f"
  by (auto simp: loadViewerFacts_def dedupNonZero_def PrivacyBaseUsers_def uniqueUserIDs_def maxBatchUsers_def Let_def)

lemma dedup_pairs_set:
  "dedup_pairs out ps = Inr r \<Longrightarrow> set r = set out \<union> {(c, u) \<in> set ps. c \<noteq> 0 \<and> u \<noteq> 0}"
  by (induction out ps rule: dedup_pairs.induct) (auto split: if_splits)

lemma dedup_pairs_length:
  "dedup_pairs out ps = Inr r \<Longrightarrow> int (length out) \<le> MaxActiveChannelMemberPairs \<Longrightarrow>
     int (length r) \<le> MaxActiveChannelMemberPairs"
  by (induction out ps rule: dedup_pairs.induct) (auto split: if_splits)

lemma dedup_pairs_total:
  "int (length out + length ps) \<le> MaxActiveChannelMemberPairs \<Longrightarrow> \<exists>r. dedup_pairs out ps = Inr r"
  by (induction out ps rule: dedup_pairs.induct) auto

definition is_member :: "privacy_env \<Rightarrow> int \<Rightarrow> int \<Rightarrow> bool" where
  "is_member env c v \<longleftrightarrow> pe_members env c v = Some ChannelMemberActive"

lemma loadMembershipFactsForKeys_spec:
  assumes "loadMembershipFactsForKeys env ps = Inr f" "(c, v) \<in> set ps" "c \<noteq> 0" "v \<noteq> 0"
  shows "mget False f (c, v) = is_member env c v"
proof -
  obtain keys where keys: "dedup_pairs [] ps = Inr keys"
    using assms(1) by (auto simp: loadMembershipFactsForKeys_def split: sum.splits)
  have mem: "(c, v) \<in> set keys"
    using dedup_pairs_set[OF keys] assms(2-4) by simp
  obtain req where req: "dedup_pairs [] keys = Inr req" and
    f: "f = (\<lambda>p. if p \<in> set keys then Some (p \<in> set (filter (\<lambda>(c, u). pe_members env c u = Some ChannelMemberActive) req))
           else None)"
    using assms(1) keys mem
    by (auto simp: loadMembershipFactsForKeys_def FilterActiveChannelMemberPairs_def split: sum.splits if_splits)
  have "(c, v) \<in> set req"
    using dedup_pairs_set[OF req] mem assms(3,4) by simp
  then show ?thesis
    using mem by (simp add: f mget_def is_member_def)
qed

lemma loadMembershipFactsForKeys_total:
  assumes "int (length ps) \<le> MaxActiveChannelMemberPairs"
  shows "\<exists>f. loadMembershipFactsForKeys env ps = Inr f"
proof -
  obtain keys where keys: "dedup_pairs [] ps = Inr keys"
    using dedup_pairs_total[of "[]" ps] assms by auto
  have "int (length keys) \<le> MaxActiveChannelMemberPairs"
    using dedup_pairs_length[OF keys] by (simp add: MaxActiveChannelMemberPairs_def)
  then obtain req where "dedup_pairs [] keys = Inr req"
    using dedup_pairs_total[of "[]" keys] by auto
  then show ?thesis
    using keys by (simp add: loadMembershipFactsForKeys_def FilterActiveChannelMemberPairs_def)
qed

lemma loadMembershipFacts_spec:
  assumes "loadMembershipFacts env cs vs = Inr f" "c \<in> set cs" "v \<in> set vs" "c \<noteq> 0" "v \<noteq> 0"
  shows "mget False f (c, v) = is_member env c v"
proof -
  have cv: "c \<in> set (dedupNonZero cs)" "v \<in> set (dedupNonZero vs)"
    using assms(2-5) by (simp_all add: set_dedupNonZero)
  then have "loadMembershipFactsForKeys env (List.product (dedupNonZero cs) (dedupNonZero vs)) = Inr f"
    using assms(1) by (auto simp: loadMembershipFacts_def Let_def split: if_splits)
  then show ?thesis
    by (rule loadMembershipFactsForKeys_spec) (use cv assms(4,5) in auto)
qed

lemma loadMembershipFacts_single:
  assumes "loadMembershipFacts env cs vs = Inr f" "set cs' \<subseteq> set cs" "v \<in> set vs" "v \<noteq> 0"
  shows "\<exists>f. loadMembershipFacts env cs' [v] = Inr f"
proof (cases "dedupNonZero cs' = []")
  case False
  let ?n = "int (length (dedupNonZero cs))" and ?n' = "int (length (dedupNonZero cs'))"
  have d: "dedupNonZero [v] = [v]"
    using assms(4) by (simp add: dedupNonZero_def)
  have "v \<in> set (dedupNonZero vs)"
    using assms(3,4) by (simp add: set_dedupNonZero)
  then have pos: "0 < int (length (dedupNonZero vs))" "dedupNonZero vs \<noteq> []"
    by (auto simp: length_pos_if_in_set)
  have one: "1 \<le> int (length (dedupNonZero vs))"
    using pos(1) by linarith
  have le: "?n' \<le> ?n" "0 < ?n'"
    using length_dedup_mono[OF assms(2)] False by auto
  then have "dedupNonZero cs \<noteq> []"
    by auto
  then have "?n \<le> MaxActiveChannelMemberPairs div int (length (dedupNonZero vs))"
    using assms(1) pos le
    by (auto simp: loadMembershipFacts_def activeChannelMembershipPairsAllowed_def Let_def split: if_splits)
  also have "\<dots> \<le> MaxActiveChannelMemberPairs"
    using zdiv_mono2[OF _ zero_less_one one, of MaxActiveChannelMemberPairs] by (simp add: MaxActiveChannelMemberPairs_def)
  finally have lim: "?n' \<le> MaxActiveChannelMemberPairs"
    using le(1) by simp
  then obtain f where "loadMembershipFactsForKeys env (List.product (dedupNonZero cs') [v]) = Inr f"
    using loadMembershipFactsForKeys_total[of "List.product (dedupNonZero cs') [v]" env] by auto
  then show ?thesis
    using False lim d by (simp add: loadMembershipFacts_def activeChannelMembershipPairsAllowed_def Let_def
        MaxActiveChannelMemberPairs_def)
qed (simp add: loadMembershipFacts_def)

section \<open>Evaluation only looks at what the rules need\<close>

definition same_relation :: "privacy_ctx \<Rightarrow> privacy_ctx \<Rightarrow> bool" where
  "same_relation a b \<longleftrightarrow> px_OwnerUserID a = px_OwnerUserID b \<and> px_ViewerUserID a = px_ViewerUserID b \<and>
     px_ViewerIsContact a = px_ViewerIsContact b \<and> px_ViewerCloseFriend a = px_ViewerCloseFriend b"

lemma intersects_iff: "intersects a b \<longleftrightarrow> set a \<inter> set b \<noteq> {}"
  by (auto simp: intersects_def list_ex_iff)

lemma contact_pass_cong: "px_ViewerIsContact a = px_ViewerIsContact b \<Longrightarrow> contact_pass a rs = contact_pass b rs"
  by (induction rs) auto

lemma evaluate_cong:
  assumes "same_relation a b" "rs_Rules r \<noteq> []"
    and "needs_base r \<Longrightarrow> px_ViewerIsBot a = px_ViewerIsBot b \<and> px_ViewerIsPremium a = px_ViewerIsPremium b"
    and "\<And>x. x \<in> set (rs_Rules r) \<Longrightarrow> chat_kind (ru_Kind x) \<Longrightarrow>
      intersects (ru_ChatIDs x) (px_SharedChatIDs a) = intersects (ru_ChatIDs x) (px_SharedChatIDs b)"
  shows "EvaluatePrivacy r a = EvaluatePrivacy r b"
proof -
  have base: "px_ViewerIsBot a = px_ViewerIsBot b \<and> px_ViewerIsPremium a = px_ViewerIsPremium b"
    if "x \<in> set (rs_Rules r)" "base_kind (ru_Kind x)" for x
    using assms(3) that by (auto simp: needs_base_def)
  have "explicitDisallowMatches x a = explicitDisallowMatches x b \<and> explicitAllowMatches x a = explicitAllowMatches x b"
    if x: "x \<in> set (rs_Rules r)" for x
    using base[OF x] assms(4)[OF x] assms(1)
    by (cases "ru_Kind x") (simp_all add: explicitDisallowMatches_def explicitAllowMatches_def same_relation_def
        base_kind_def chat_kind_def)
  then have "list_ex (\<lambda>x. explicitDisallowMatches x a) (rs_Rules r) = list_ex (\<lambda>x. explicitDisallowMatches x b) (rs_Rules r)"
    "list_ex (\<lambda>x. explicitAllowMatches x a) (rs_Rules r) = list_ex (\<lambda>x. explicitAllowMatches x b) (rs_Rules r)"
    by (auto simp: list_ex_iff)
  then show ?thesis
    using assms(1,2) contact_pass_cong[of a b] by (simp add: EvaluatePrivacy_def Let_def same_relation_def)
qed

text \<open>The context that holds every fact about the viewer, with the chats to look at as an argument.\<close>

definition true_ctx :: "privacy_env \<Rightarrow> int \<Rightarrow> int \<Rightarrow> int \<Rightarrow> contact option \<Rightarrow> int list \<Rightarrow> privacy_ctx" where
  "true_ctx env now i v c chats =
     (applyViewerFacts (base_ctx i v c) (user_facts env v) now)\<lparr>px_SharedChatIDs := filter (\<lambda>x. is_member env x v) chats\<rparr>"

lemma applyViewerFacts_fields:
  "px_OwnerUserID (applyViewerFacts x f now) = px_OwnerUserID x" "px_ViewerUserID (applyViewerFacts x f now) = px_ViewerUserID x"
  "px_ViewerIsContact (applyViewerFacts x f now) = px_ViewerIsContact x"
  "px_ViewerCloseFriend (applyViewerFacts x f now) = px_ViewerCloseFriend x"
  "px_SharedChatIDs (applyViewerFacts x f now) = px_SharedChatIDs x"
  by (simp_all add: applyViewerFacts_def)

lemma applyMembershipFacts_fields:
  "px_OwnerUserID (applyMembershipFacts x cs f) = px_OwnerUserID x" "px_ViewerUserID (applyMembershipFacts x cs f) = px_ViewerUserID x"
  "px_ViewerIsContact (applyMembershipFacts x cs f) = px_ViewerIsContact x"
  "px_ViewerCloseFriend (applyMembershipFacts x cs f) = px_ViewerCloseFriend x"
  "px_ViewerIsBot (applyMembershipFacts x cs f) = px_ViewerIsBot x"
  "px_ViewerIsPremium (applyMembershipFacts x cs f) = px_ViewerIsPremium x"
  "px_SharedChatIDs (applyMembershipFacts x cs f) =
     px_SharedChatIDs x @ filter (\<lambda>c. mget False f (c, px_ViewerUserID x)) cs"
  by (simp_all add: applyMembershipFacts_def)

lemmas ctx_fields = applyViewerFacts_fields applyMembershipFacts_fields

lemma base_ctx_fields:
  "px_ViewerUserID (base_ctx i v c) = v" "px_SharedChatIDs (base_ctx i v c) = []"
  by (simp_all add: base_ctx_def)

lemma evaluate_true_ctx:
  assumes "rs_Rules r \<noteq> []" "needs_chats r \<subseteq> set chats" "\<forall>c \<in> set chats. 0 < c"
    and "same_relation x (base_ctx i v c)" "set (px_SharedChatIDs x) = {y \<in> set chats. is_member env y v}"
    and "needs_base r \<Longrightarrow> px_ViewerIsBot x = px_ViewerIsBot (true_ctx env now i v c []) \<and>
      px_ViewerIsPremium x = px_ViewerIsPremium (true_ctx env now i v c [])"
  shows "EvaluatePrivacy r x = EvaluatePrivacy r (true_ctx env now i v c (en_chatIDs (needsForRules r)))"
proof (rule evaluate_cong)
  show "same_relation x (true_ctx env now i v c (en_chatIDs (needsForRules r)))"
    using assms(4) by (simp add: same_relation_def true_ctx_def ctx_fields)
  show "px_ViewerIsBot x = px_ViewerIsBot (true_ctx env now i v c (en_chatIDs (needsForRules r))) \<and>
      px_ViewerIsPremium x = px_ViewerIsPremium (true_ctx env now i v c (en_chatIDs (needsForRules r)))" if "needs_base r"
    using assms(6)[OF that] by (simp add: true_ctx_def)
  show "intersects (ru_ChatIDs y) (px_SharedChatIDs x) =
      intersects (ru_ChatIDs y) (px_SharedChatIDs (true_ctx env now i v c (en_chatIDs (needsForRules r))))"
    if "y \<in> set (rs_Rules r)" "chat_kind (ru_Kind y)" for y
  proof -
    have "a \<in> needs_chats r" if "a \<in> set (ru_ChatIDs y)" "a \<in> set chats" for a
      using that \<open>y \<in> set (rs_Rules r)\<close> \<open>chat_kind (ru_Kind y)\<close> assms(3) by (auto simp: needs_chats_def)
    then show ?thesis
      using assms(2,5) by (auto simp: intersects_iff true_ctx_def needsForRules_spec)
  qed
qed (rule assms(1))

lemma GetRules_nonempty: "GetRules env i k = Inr r \<Longrightarrow> rs_Rules r \<noteq> []"
  by (auto simp: GetRules_def defaultRules_def DefaultPrivacyRules_def split: if_splits option.splits privacy_key.splits)

lemma needs_chats_pos: "c \<in> needs_chats r \<Longrightarrow> 0 < c"
  by (simp add: needs_chats_def)

lemma CanSee_true:
  assumes "users_ok env" "i \<noteq> 0" "v \<noteq> 0" "i \<noteq> v" "GetRules env i k = Inr r"
    and "needs_chats r \<noteq> {} \<Longrightarrow> \<exists>f. loadMembershipFacts env (en_chatIDs (needsForRules r)) [v] = Inr f"
  shows "CanSee env now i v k =
    Inr (EvaluatePrivacy r (true_ctx env now i v (contacts_Get env i v) (en_chatIDs (needsForRules r))))"
proof -
  let ?n = "needsForRules r" and ?c = "contacts_Get env i v"
  obtain f where f: "loadViewerFacts env [v] = Inr f"
    using loadViewerFacts_single by blast
  define x where "x = (if needs_base r then applyViewerFacts (base_ctx i v ?c) (user_facts env v) now else base_ctx i v ?c)"
  have xf: "px_ViewerUserID x = v" "px_SharedChatIDs x = []" "same_relation x (base_ctx i v ?c)"
    by (simp_all add: x_def ctx_fields base_ctx_fields same_relation_def)
  have bf: "needs_base r \<Longrightarrow> px_ViewerIsBot x = px_ViewerIsBot (true_ctx env now i v ?c []) \<and>
      px_ViewerIsPremium x = px_ViewerIsPremium (true_ctx env now i v ?c [])"
    by (simp add: x_def true_ctx_def)
  have vf: "mget no_facts f v = user_facts env v"
    using loadViewerFacts_spec[OF assms(1) f] assms(3) by simp
  note ev = evaluate_true_ctx[OF GetRules_nonempty[OF assms(5)], of "en_chatIDs ?n"]
  show ?thesis
  proof (cases "en_chatIDs ?n = []")
    case True
    then have "CanSee env now i v k = Inr (EvaluatePrivacy r x)"
      using assms(2-5) f vf by (auto simp: CanSee_def x_def Let_def needsForRules_spec)
    moreover have "EvaluatePrivacy r x = EvaluatePrivacy r (true_ctx env now i v ?c (en_chatIDs ?n))"
      by (rule ev) (use True xf bf needsForRules_spec(2)[of r] needs_chats_pos in auto)
    ultimately show ?thesis by simp
  next
    case False
    then have "needs_chats r \<noteq> {}"
      by (metis needsForRules_spec(2) set_empty)
    then obtain g where g: "loadMembershipFacts env (en_chatIDs ?n) [v] = Inr g"
      using assms(6) by blast
    have "CanSee env now i v k = Inr (EvaluatePrivacy r (applyMembershipFacts x (en_chatIDs ?n) g))"
      using assms(2-5) f vf g False by (auto simp: CanSee_def x_def Let_def needsForRules_spec)
    moreover have "EvaluatePrivacy r (applyMembershipFacts x (en_chatIDs ?n) g) =
        EvaluatePrivacy r (true_ctx env now i v ?c (en_chatIDs ?n))"
    proof (rule ev)
      have "mget False g (y, v) = is_member env y v" if "y \<in> set (en_chatIDs ?n)" for y
        using loadMembershipFacts_spec[OF g that] that needs_chats_pos[of y r] assms(3) needsForRules_spec(2)[of r] by auto
      then show "set (px_SharedChatIDs (applyMembershipFacts x (en_chatIDs ?n) g)) = {y \<in> set (en_chatIDs ?n). is_member env y v}"
        using xf by (auto simp: ctx_fields)
    qed (use xf bf needsForRules_spec(2)[of r] needs_chats_pos in \<open>auto simp: same_relation_def ctx_fields\<close>)
    ultimately show ?thesis by simp
  qed
qed

section \<open>Bulk queries\<close>

text \<open>One cell of a bulk query, given that the shared loads succeeded.\<close>

lemma cell_agrees:
  assumes "rules_ok env" "users_ok env" "set ord = dom (pe_rules env)"
    and i: "i \<in> set owners" "i \<noteq> 0" and v: "v \<in> set viewers" "v \<noteq> 0" "i \<noteq> v" and k: "k \<in> set keys" "ValidKey k"
    and m: "m = rules_index Map.empty (ListPrivacyRules env ord owners keys)"
    and load: "load_all env (all_needs m owners keys) viewers = Inr (bf, mf)"
  shows "CanSee env now i v k = Inr (cell now m (all_needs m owners keys) bf mf i v (contacts_Get env i v) k)"
proof -
  let ?r = "indexed_rules m i k" and ?n = "all_needs m owners keys" and ?c = "contacts_Get env i v"
  have r: "GetRules env i k = Inr ?r"
    using bulk_rules[OF assms(1,3) i(1) k] m by simp
  note an = all_needs_spec[OF i(1) k(1), where m = m]
  have bf: "mget no_facts bf v = user_facts env v" if "needs_base ?r"
  proof -
    have "loadViewerFacts env viewers = Inr bf"
      using load an(1)[OF that] by (auto simp: load_all_def split: sum.splits if_splits)
    then show ?thesis
      using loadViewerFacts_spec[OF assms(2)] v(1,2) by simp
  qed
  have mf: "loadMembershipFacts env (en_chatIDs ?n) viewers = Inr mf" if "en_chatIDs ?n \<noteq> []"
    using load that by (auto simp: load_all_def split: sum.splits if_splits)
  have mem: "mget False mf (y, v) = is_member env y v" if "y \<in> set (en_chatIDs ?n)" for y
    using loadMembershipFacts_spec[OF mf that v(1) _ v(2)] an(3)[OF that] that by (cases "en_chatIDs ?n = []") auto
  have one: "\<exists>f. loadMembershipFacts env (en_chatIDs (needsForRules ?r)) [v] = Inr f" if "needs_chats ?r \<noteq> {}"
  proof -
    have sub: "set (en_chatIDs (needsForRules ?r)) \<subseteq> set (en_chatIDs ?n)"
      using an(2) by (simp add: needsForRules_spec)
    then have "en_chatIDs ?n \<noteq> []"
      using that needsForRules_spec(2)[of ?r] by auto
    from loadMembershipFacts_single[OF mf[OF this] sub v(1,2)] show ?thesis .
  qed
  let ?x = "applyMembershipFacts (applyViewerFacts (base_ctx i v ?c) (mget no_facts bf v) now) (en_chatIDs ?n) mf"
  have "EvaluatePrivacy ?r ?x = EvaluatePrivacy ?r (true_ctx env now i v ?c (en_chatIDs (needsForRules ?r)))"
  proof (rule evaluate_true_ctx[OF GetRules_nonempty[OF r] an(2)])
    show "\<forall>c \<in> set (en_chatIDs ?n). 0 < c"
      using an(3) by blast
    show "same_relation ?x (base_ctx i v ?c)"
      by (simp add: same_relation_def ctx_fields)
    show "set (px_SharedChatIDs ?x) = {y \<in> set (en_chatIDs ?n). is_member env y v}"
      using mem by (auto simp: ctx_fields base_ctx_fields)
    show "px_ViewerIsBot ?x = px_ViewerIsBot (true_ctx env now i v ?c []) \<and>
        px_ViewerIsPremium ?x = px_ViewerIsPremium (true_ctx env now i v ?c [])" if "needs_base ?r"
      using bf[OF that] by (simp add: ctx_fields true_ctx_def)
  qed
  then show ?thesis
    using CanSee_true[OF assms(2) i(2) v(2,3) r one] by (simp add: cell_def)
qed

lemma find_ct: "find (\<lambda>c. ct_UserID c = v) cs = None \<longleftrightarrow> v \<notin> ct_UserID ` set cs"
  by (induction cs) auto

lemma projection_loop_find:
  assumes "distinct (map ct_UserID cs)" "v \<in> set want" "v \<noteq> 0"
  shows "projection_loop want out cs v =
    (case find (\<lambda>c. ct_UserID c = v) cs of None \<Rightarrow> out v | Some c \<Rightarrow> Some (project_contact c))"
  using assms(1)
proof (induction cs arbitrary: out)
  case (Cons c cs)
  show ?case
  proof (cases "ct_UserID c = v")
    case True
    then have "find (\<lambda>c. ct_UserID c = v) cs = None"
      using Cons.prems by (simp add: find_ct)
    then show ?thesis
      using Cons True assms(2,3) by simp
  qed (use Cons in \<open>auto split: option.splits\<close>)
qed simp

lemma find_mem: "find P xs = Some x \<Longrightarrow> x \<in> set xs"
  by (induction xs) (auto split: if_splits)

lemma projected_ctx:
  assumes "contacts_ok env" "v \<in> set want" "v \<noteq> 0"
  shows "base_ctx i v (projection_loop want Map.empty (pe_contacts env i) v) = base_ctx i v (contacts_Get env i v)"
proof -
  have d: "distinct (map ct_UserID (pe_contacts env i))"
    using assms(1) by (simp add: contacts_ok_def rows_ok_def)
  have "ct_CloseFriend (project_contact c) = ct_CloseFriend c" if "contacts_Get env i v = Some c" for c
    using that assms(1) find_mem[of _ "pe_contacts env i" c]
    by (auto simp: contacts_Get_def contacts_ok_def rows_ok_def project_contact_def)
  then show ?thesis
    using projection_loop_find[OF d assms(2,3), of Map.empty]
    by (auto simp: contacts_Get_def base_ctx_def split: option.splits)
qed

lemma cell_ctx: "base_ctx i v c = base_ctx i v c' \<Longrightarrow> cell now m n bf mf i v c k = cell now m n bf mf i v c' k"
  by (simp add: cell_def)

lemma batch_agrees:
  assumes "env_ok env" "set ord = dom (pe_rules env)" "viewer \<noteq> 0" "keys \<noteq> []"
    and "CanSeeBatch env ord now owners viewer keys = Inr out"
  shows "dom out = set owners - {0}"
    "i \<in> set owners \<Longrightarrow> i \<noteq> 0 \<Longrightarrow> k \<in> set keys \<Longrightarrow>
       \<exists>row b. out i = Some row \<and> row k = Some b \<and> CanSee env now i viewer k = Inr b"
proof -
  let ?ids = "dedupNonZero owners"
  let ?os = "filter (\<lambda>i. i \<noteq> viewer) ?ids"
  let ?m = "rules_index Map.empty (ListPrivacyRules env ord ?os keys)"
  let ?own = "\<lambda>i. if i \<in> set ?ids \<and> i = viewer then Some (row keys (\<lambda>_. True)) else None"
  have ok: "rules_ok env" "users_ok env"
    using assms(1) by (simp_all add: env_ok_def)
  have valid: "owners \<noteq> [] \<Longrightarrow> list_all ValidKey keys"
    using assms(3-5) by (auto simp: CanSeeBatch_def list_ex_iff list_all_iff split: if_splits)
  have ids: "set ?ids = set owners - {0}"
    by (rule set_dedupNonZero)
  consider "owners = []" "out = Map.empty" | "?os = []" "out = ?own"
    | bf mf where "?os \<noteq> []" "load_all env (all_needs ?m ?os keys) [viewer] = Inr (bf, mf)"
      "out = (\<lambda>i. if i \<in> set ?os then Some (row keys (cell now ?m (all_needs ?m ?os keys) bf mf i viewer
          (GetReverseContacts env viewer ?os i))) else ?own i)"
    using assms(3-5) by (auto simp: CanSeeBatch_def Let_def split: if_splits sum.splits prod.splits)
  note cases = this
  show "dom out = set owners - {0}"
    using cases
  proof cases
    case 2
    then have "dom out = set ?ids"
      unfolding 2(2) using 2(1) by (auto simp: dom_def filter_empty_conv)
    then show ?thesis by (simp only: ids)
  next
    case (3 bf mf)
    have "dom out = set ?ids"
      unfolding 3(3) by (auto simp: dom_def)
    then show ?thesis by (simp only: ids)
  qed simp
  show "\<exists>row b. out i = Some row \<and> row k = Some b \<and> CanSee env now i viewer k = Inr b"
    if i: "i \<in> set owners" "i \<noteq> 0" and k: "k \<in> set keys"
  proof (cases "i = viewer")
    case True
    have "out i = Some (row keys (\<lambda>_. True))"
      using cases by cases (use i ids True in auto)
    then show ?thesis
      using True i k assms(3) by (auto simp: row_def CanSee_def)
  next
    case False
    then have mem: "i \<in> set ?os"
      using i ids by simp
    then have "?os \<noteq> []"
      by (metis empty_iff empty_set)
    then have rev: "GetReverseContacts env viewer ?os i = contacts_Get env i viewer"
      using mem assms(3) i by (simp add: GetReverseContacts_def contacts_Get_def)
    have kv: "ValidKey k"
      using valid i(1) k by (cases owners) (auto simp: list_all_iff)
    from cases show ?thesis
    proof cases
      case (3 bf mf)
      have "CanSee env now i viewer k = Inr (cell now ?m (all_needs ?m ?os keys) bf mf i viewer (contacts_Get env i viewer) k)"
        using cell_agrees[OF ok assms(2) mem i(2) _ assms(3) False k kv refl 3(2)] by simp
      then show ?thesis
        using 3(3) mem k rev by (simp add: row_def)
    qed (use i mem in auto)
  qed
qed

lemma matrix_agrees:
  assumes "env_ok env" "set ord = dom (pe_rules env)"
    and "CanSeeMatrix env ord now owners viewers keys = Inr out"
    and i: "i \<in> set owners" "i \<noteq> 0" and v: "v \<in> set viewers" "v \<noteq> 0" and k: "k \<in> set keys"
  shows "\<exists>rows row b. out i = Some rows \<and> rows v = Some row \<and> row k = Some b \<and> CanSee env now i v k = Inr b"
proof -
  let ?os = "dedupNonZero owners" and ?vs = "dedupNonZero viewers"
  let ?m = "rules_index Map.empty (ListPrivacyRules env ord ?os keys)"
  let ?n = "all_needs ?m ?os keys"
  have ok: "rules_ok env" "users_ok env" "contacts_ok env"
    using assms(1) by (simp_all add: env_ok_def)
  have mem: "i \<in> set ?os" "v \<in> set ?vs"
    using i v by (simp_all add: set_dedupNonZero)
  then have ne: "?os \<noteq> []" "?vs \<noteq> []" "owners \<noteq> []" "viewers \<noteq> []" "keys \<noteq> []"
    using i v k by auto
  let ?cs = "ContactProjectionForViewerUserIDs env (\<lambda>i. if i \<in> set ?os then Some ?vs else None)"
  obtain bf mf where load: "load_all env ?n ?vs = Inr (bf, mf)" and valid: "\<not> list_ex (\<lambda>k. \<not> ValidKey k) keys" and
    out: "out i = Some (\<lambda>v. if v \<in> set ?vs then Some (row keys (if i = v then (\<lambda>_. True)
        else cell now ?m ?n bf mf i v (?cs i v))) else None)"
    using assms(3) ne mem(1) by (auto simp: CanSeeMatrix_def Let_def split: if_splits sum.splits)
  show ?thesis
  proof (cases "i = v")
    case True
    then show ?thesis
      using out mem k i by (auto simp: row_def CanSee_def)
  next
    case False
    have kv: "ValidKey k"
      using valid k by (auto simp: list_ex_iff)
    have "CanSee env now i v k = Inr (cell now ?m ?n bf mf i v (contacts_Get env i v) k)"
      by (rule cell_agrees[OF ok(1,2) assms(2) mem(1) i(2) mem(2) v(2) False k kv refl load])
    moreover have "?cs i v = projection_loop ?vs Map.empty (pe_contacts env i) v"
      using mem i(2) ne(2) by (simp add: ContactProjectionForViewerUserIDs_def)
    moreover have "cell now ?m ?n bf mf i v (projection_loop ?vs Map.empty (pe_contacts env i) v) k =
        cell now ?m ?n bf mf i v (contacts_Get env i v) k"
      by (rule cell_ctx[OF projected_ctx[OF ok(3) mem(2) v(2)]])
    ultimately show ?thesis
      using out mem(2) k False by (simp add: row_def)
  qed
qed

text \<open>
  C14: The bulk queries answer what the single query answers, in every state of the tables that writes of
  the rule store, the contact store's Upsert, UpsertMany, UpdateNote, SetCloseFriends and Delete and any
  changes of the user and membership tables reach from empty ones (its SaveList, which stores rows as
  given and which only tests call, is not among them), for a non-zero viewer and owner, and for every order ord in which Go iterates over the rule table.
  Whenever a batch (many owners, one viewer) or a matrix (owners and viewers) returns, each entry for
  an owner, viewer and key is exactly the result of CanSee for them, which then returns too; a batch
  has an entry for every non-zero owner and for no one else.
\<close>

theorem bulk_visibility_agrees:
  assumes "tables_reach env" "set ord = dom (pe_rules env)" "k \<in> set keys" "v \<noteq> 0" "i \<noteq> 0" "i \<in> set owners"
  shows "(\<forall>out. CanSeeBatch env ord now owners v keys = Inr out \<longrightarrow>
      dom out = set owners - {0} \<and>
      (\<exists>row b. out i = Some row \<and> row k = Some b \<and> CanSee env now i v k = Inr b)) \<and>
    (\<forall>viewers out. CanSeeMatrix env ord now owners viewers keys = Inr out \<longrightarrow> v \<in> set viewers \<longrightarrow>
      (\<exists>rows row b. out i = Some rows \<and> rows v = Some row \<and> row k = Some b \<and> CanSee env now i v k = Inr b))"
proof -
  have "keys \<noteq> []"
    using assms(3) by auto
  then show ?thesis
    using batch_agrees[OF tables_reach_ok[OF assms(1)] assms(2,4)] matrix_agrees[OF tables_reach_ok[OF assms(1)] assms(2)]
      assms(3-6) by meson
qed

section \<open>Setting rules\<close>

abbreviation ids_of :: "privacy_rule \<Rightarrow> nat" where
  "ids_of r \<equiv> length (ru_UserIDs r) + length (ru_ChatIDs r)"

definition rule_ok :: "privacy_rule \<Rightarrow> bool" where
  "rule_ok r \<longleftrightarrow> (\<forall>s. ru_Kind r \<noteq> PrivacyRuleOther s) \<and> (\<forall>x \<in> set (ru_UserIDs r) \<union> set (ru_ChatIDs r). 0 < x)"

lemma validate_loop_iff:
  "n \<le> 5000 \<Longrightarrow> validate_loop n rs \<longleftrightarrow> n + sum_list (map ids_of rs) \<le> 5000 \<and> (\<forall>r \<in> set rs. rule_ok r)"
proof (induction n rs rule: validate_loop.induct)
  case (2 n r rs)
  have kind: "(case ru_Kind r of PrivacyRuleOther _ \<Rightarrow> True | _ \<Rightarrow> False) \<longleftrightarrow> (\<exists>s. ru_Kind r = PrivacyRuleOther s)"
    by (cases "ru_Kind r") auto
  show ?case
    using 2 by (auto simp: kind rule_ok_def Let_def maxPrivacyRuleIDs_def list_ex_iff add.assoc not_le not_less
        simp del: validate_loop.simps(1))
qed simp

text \<open>
  Rules that were accepted are read back as they were set, with an empty list standing for the
  default rules of the key, and setting them changes the rules of no other owner or key. Rules are
  refused exactly when the key is unknown, there are more than 100 rules or 5000 ids, a kind is
  unknown or an id is not positive.
\<close>

theorem privacy_rules_roundtrip:
  "case SetRules env i k rs of
     Inl e \<Rightarrow> (e = ErrPrivacyKeyInvalid \<and> \<not> ValidKey k) \<or>
       (e = ErrPrivacyRuleInvalid \<and> ValidKey k \<and>
         \<not> (length rs \<le> 100 \<and> sum_list (map ids_of rs) \<le> 5000 \<and> (\<forall>r \<in> set rs. rule_ok r)))
   | Inr (out, env') \<Rightarrow> ValidKey k \<and> length rs \<le> 100 \<and> sum_list (map ids_of rs) \<le> 5000 \<and> (\<forall>r \<in> set rs. rule_ok r) \<and>
       rs_Rules out = (if rs = [] then DefaultPrivacyRules k else rs) \<and> GetRules env' i k = Inr out \<and>
       (\<forall>i' k'. (i', k') \<noteq> (i, k) \<longrightarrow> GetRules env' i' k' = GetRules env i' k')"
proof -
  have def: "validateRules (DefaultPrivacyRules k) = None" "DefaultPrivacyRules k \<noteq> []"
    by (auto simp: validateRules_def DefaultPrivacyRules_def maxPrivacyRules_def maxPrivacyRuleIDs_def split: privacy_key.splits)
  have val: "validateRules rs = None \<longleftrightarrow> length rs \<le> 100 \<and> sum_list (map ids_of rs) \<le> 5000 \<and> (\<forall>r \<in> set rs. rule_ok r)"
    by (simp add: validateRules_def validate_loop_iff maxPrivacyRules_def not_less)
  have err: "validateRules rs \<noteq> None \<Longrightarrow> validateRules rs = Some ErrPrivacyRuleInvalid"
    by (simp add: validateRules_def split: if_splits)
  let ?rs = "if rs = [] then DefaultPrivacyRules k else rs"
  let ?out = "\<lparr>rs_OwnerUserID = i, rs_Key = k, rs_Rules = ?rs\<rparr>"
  show ?thesis
  proof (cases "ValidKey k \<and> validateRules ?rs = None")
    case True
    then have "SetRules env i k rs = Inr (?out, SetPrivacyRules env ?out)"
      by (simp add: SetRules_def normalizedRules_def Let_def)
    moreover have "validateRules rs = None"
      using True by (cases "rs = []") (auto simp: validateRules_def)
    ultimately show ?thesis
      using True def(2) val by (auto simp: GetRules_def GetPrivacyRules_def SetPrivacyRules_def)
  next
    case False
    then show ?thesis
      using val err def(1) by (cases "ValidKey k"; cases "rs = []") (auto simp: SetRules_def normalizedRules_def)
  qed
qed

definition same_verdicts :: "privacy_ctx \<Rightarrow> int \<Rightarrow> privacy_rule list \<Rightarrow> privacy_rule list \<Rightarrow> bool" where
  "same_verdicts x t rs rs' \<longleftrightarrow>
     list_ex (\<lambda>r. explicitDisallowMatches r x) rs' = list_ex (\<lambda>r. explicitDisallowMatches r x) rs \<and>
     (list_ex (\<lambda>r. explicitAllowMatches r x) rs' \<longleftrightarrow> list_ex (\<lambda>r. explicitAllowMatches r x) rs \<or> px_ViewerUserID x = t) \<and>
     contact_pass x rs' = contact_pass x rs \<and> base_pass rs' = base_pass rs"

lemma allow_loop_verdicts: "allow_loop t rs = Some (ch, rs') \<Longrightarrow> same_verdicts x t rs rs' \<and> rs' \<noteq> [] \<and> (\<not> ch \<longrightarrow> rs' = rs)"
proof (induction t rs arbitrary: rs' rule: allow_loop.induct)
  case (2 t r rs)
  then show ?case
    by (auto simp: same_verdicts_def explicitDisallowMatches_def explicitAllowMatches_def split: if_splits)
qed simp

lemma allow_cons_verdicts: "same_verdicts x t rs (\<lparr>ru_Kind = PrivacyRuleAllowUsers, ru_UserIDs = [t], ru_ChatIDs = []\<rparr> # rs)"
  by (auto simp: same_verdicts_def explicitDisallowMatches_def explicitAllowMatches_def)

lemma verdicts_evaluate:
  assumes "same_verdicts x t (rs_Rules old) (rs_Rules new)" "rs_Rules old \<noteq> []" "rs_Rules new \<noteq> []"
  shows "EvaluatePrivacy new x \<longleftrightarrow> EvaluatePrivacy old x \<or>
    (px_ViewerUserID x = t \<and> \<not> list_ex (\<lambda>r. explicitDisallowMatches r x) (rs_Rules old))"
  using assms by (auto simp: same_verdicts_def EvaluatePrivacy_def Let_def split: option.splits)

lemma SetRules_get:
  assumes "SetRules env i k rs = Inr (out, env')" "rs \<noteq> []"
  shows "GetRules env' i k = Inr out \<and> rs_Rules out = rs"
  using assms by (auto simp: SetRules_def normalizedRules_def GetRules_def GetPrivacyRules_def SetPrivacyRules_def
      split: if_splits option.splits)

text \<open>
  C15: Adding a user to the allowed ones lets that user in and changes nothing else. After it returned,
  every viewer is judged by the new rules as by the old ones, except that the added user may now see
  the owner's data too, unless the old rules explicitly exclude them.
\<close>

theorem add_allow_user_exact:
  assumes "AddAllowUser env i k t = Inr (new, changed, env')"
  shows "\<exists>old. GetRules env i k = Inr old \<and> GetRules env' i k = Inr new \<and>
    (\<forall>x. EvaluatePrivacy new x \<longleftrightarrow> EvaluatePrivacy old x \<or>
       (px_ViewerUserID x = t \<and> \<not> list_ex (\<lambda>r. explicitDisallowMatches r x) (rs_Rules old)))"
proof -
  obtain old where old: "GetRules env i k = Inr old"
    using assms by (auto simp: AddAllowUser_def split: if_splits sum.splits)
  note ne = GetRules_nonempty[OF old]
  have new: "GetRules env' i k = Inr new \<and> rs_Rules new \<noteq> [] \<and> (\<forall>x. same_verdicts x t (rs_Rules old) (rs_Rules new))"
  proof (cases "allow_loop t (rs_Rules old)")
    case None
    let ?rs = "\<lparr>ru_Kind = PrivacyRuleAllowUsers, ru_UserIDs = [t], ru_ChatIDs = []\<rparr> # rs_Rules old"
    have "SetRules env i k ?rs = Inr (new, env')"
      using assms old None by (auto simp: AddAllowUser_def split: if_splits sum.splits)
    from SetRules_get[OF this] show ?thesis
      using allow_cons_verdicts by simp
  next
    case (Some p)
    obtain ch rs where p: "p = (ch, rs)"
      by (cases p)
    note v = allow_loop_verdicts[OF Some[unfolded p]]
    show ?thesis
    proof (cases ch)
      case True
      have "SetRules env i k rs = Inr (new, env')"
        using assms old Some p True by (auto simp: AddAllowUser_def split: if_splits sum.splits)
      from SetRules_get[OF this] show ?thesis
        using v by simp
    next
      case False
      then have "new = old" "env' = env" "rs = rs_Rules old"
        using assms old Some p v by (auto simp: AddAllowUser_def split: if_splits)
      then show ?thesis
        using v ne old by simp
    qed
  qed
  then show ?thesis
    using old verdicts_evaluate ne by blast
qed

section \<open>A concrete owner\<close>

definition demo_rules :: "privacy_rule list" where
  "demo_rules = [\<lparr>ru_Kind = PrivacyRuleDisallowUsers, ru_UserIDs = [30], ru_ChatIDs = []\<rparr>,
     \<lparr>ru_Kind = PrivacyRuleAllowChatParticipants, ru_UserIDs = [], ru_ChatIDs = [500]\<rparr>, plain_rule PrivacyRuleDisallowAll]"

text \<open>Owner 10 has 20 as a contact and close friend; 20 is an active member of chat 500.\<close>

definition demo_input :: contact_input where
  "demo_input = \<lparr>ci_ContactUserID = 20, ci_Phone = [], ci_FirstName = ''Bo'', ci_LastName = [], ci_Note = []\<rparr>"

definition demo_env :: privacy_env where
  "demo_env = (snd (SetCloseFriends (snd (Upsert (SetPrivacyRules empty_env
       \<lparr>rs_OwnerUserID = 10, rs_Key = PrivacyKeyAbout, rs_Rules = demo_rules\<rparr>) 10 demo_input)) 10 [20]))
     \<lparr>pe_members := (\<lambda>c. if c = 500 then [20 \<mapsto> ChannelMemberActive] else Map.empty)\<rparr>"

lemma demo_tables_reach: "tables_reach demo_env"
  unfolding demo_env_def
  by (rule tables_reach.step[OF _ tables_step.members], rule tables_reach.step[OF _ tables_step.close_friends],
      rule tables_reach.step[OF _ tables_step.upsert], rule tables_reach.step[OF _ tables_step.set_rules], rule tables_reach.empty)

definition demo_row :: contact where
  "demo_row = \<lparr>ct_UserID = 20, ct_UserMutual = False, ct_UserCloseFriend = True, ct_FirstName = ''Bo'', ct_LastName = [],
     ct_Phone = [], ct_Note = [], ct_Mutual = False, ct_CloseFriend = True\<rparr>"

lemma demo_env_eq: "demo_env =
  \<lparr>pe_rules = [(10, PrivacyKeyAbout) \<mapsto> \<lparr>rs_OwnerUserID = 10, rs_Key = PrivacyKeyAbout, rs_Rules = demo_rules\<rparr>],
     pe_contacts = (\<lambda>_. [])(20 := [], 10 := [demo_row]), pe_users = Map.empty,
     pe_members = (\<lambda>c. if c = 500 then [20 \<mapsto> ChannelMemberActive] else Map.empty)\<rparr>"
  by (simp add: demo_env_def empty_env_def SetPrivacyRules_def Upsert_def demo_input_def input_contact_def
      SetCloseFriends_def set_close_def wants_close_def demo_row_def)

lemma demo_env_order: "set [(10, PrivacyKeyAbout)] = dom (pe_rules demo_env)"
  by (simp add: demo_env_eq)

lemma demo_batch: "\<exists>out. CanSeeBatch demo_env [(10, PrivacyKeyAbout)] 0 [10, 0, 20] 20 [PrivacyKeyAbout] = Inr out"
  by (simp add: CanSeeBatch_def ValidKey_def dedupNonZero_def Let_def load_all_def all_needs_def ListPrivacyRules_def
      demo_env_eq demo_rules_def needsForRules_def no_needs_def indexed_rules_def mergeNeeds_def loadMembershipFacts_def
      activeChannelMembershipPairsAllowed_def MaxActiveChannelMemberPairs_def loadMembershipFactsForKeys_def
      FilterActiveChannelMemberPairs_def)

theorem bulk_visibility_agrees_witness:
  "\<exists>out row b. CanSeeBatch demo_env [(10, PrivacyKeyAbout)] 0 [10, 0, 20] 20 [PrivacyKeyAbout] = Inr out \<and>
     dom out = {10, 20} \<and> out 10 = Some row \<and> row PrivacyKeyAbout = Some b \<and> CanSee demo_env 0 10 20 PrivacyKeyAbout = Inr b"
proof -
  obtain out where out: "CanSeeBatch demo_env [(10, PrivacyKeyAbout)] 0 [10, 0, 20] 20 [PrivacyKeyAbout] = Inr out"
    using demo_batch by blast
  have "dom out = set [10, 0, 20] - {0} \<and>
      (\<exists>row b. out 10 = Some row \<and> row PrivacyKeyAbout = Some b \<and> CanSee demo_env 0 10 20 PrivacyKeyAbout = Inr b)"
    using bulk_visibility_agrees[OF demo_tables_reach demo_env_order, of PrivacyKeyAbout "[PrivacyKeyAbout]" 20 10 "[10, 0, 20]" 0] out by simp
  then show ?thesis
    using out by auto
qed

text \<open>
  The two flags of a row matter: \<open>CanSee\<close> reads \<open>CloseFriend\<close> of the row, the matrix reads it or the
  flag of the copied user. For a row written by \<open>SaveList\<close> whose flags differ, the single query refuses
  what the matrix allows.
\<close>

definition split_env :: privacy_env where
  "split_env = SaveList (SetPrivacyRules empty_env \<lparr>rs_OwnerUserID = 10, rs_Key = PrivacyKeyAbout,
       rs_Rules = [plain_rule PrivacyRuleAllowCloseFriends, plain_rule PrivacyRuleDisallowAll]\<rparr>)
     10 [demo_row\<lparr>ct_CloseFriend := False\<rparr>]"

lemmas split_eval = split_env_def SaveList_def SetPrivacyRules_def empty_env_def demo_row_def ValidKey_def Let_def
  GetRules_def GetPrivacyRules_def needsForRules_def no_needs_def base_ctx_def contacts_Get_def EvaluatePrivacy_def
  explicitDisallowMatches_def explicitAllowMatches_def

lemma close_friend_flags_diverge:
  "CanSee split_env 0 10 20 PrivacyKeyAbout = Inr False"
  "\<exists>out rows row. CanSeeMatrix split_env [(10, PrivacyKeyAbout)] 0 [10] [20] [PrivacyKeyAbout] = Inr out \<and>
     out 10 = Some rows \<and> rows 20 = Some row \<and> row PrivacyKeyAbout = Some True"
  by (simp_all add: CanSee_def CanSeeMatrix_def split_eval dedupNonZero_def load_all_def all_needs_def ListPrivacyRules_def
      indexed_rules_def mergeNeeds_def ContactProjectionForViewerUserIDs_def project_contact_def cell_def row_def
      applyMembershipFacts_def applyViewerFacts_def)

theorem add_allow_user_exact_witness:
  "\<exists>new env'. AddAllowUser demo_env 10 PrivacyKeyAbout 40 = Inr (new, True, env') \<and>
     EvaluatePrivacy new (base_ctx 10 40 None)"
proof -
  obtain new env' where a: "AddAllowUser demo_env 10 PrivacyKeyAbout 40 = Inr (new, True, env')"
    by (simp add: AddAllowUser_def GetRules_def GetPrivacyRules_def ValidKey_def demo_env_eq demo_rules_def SetRules_def
        normalizedRules_def validateRules_def maxPrivacyRules_def maxPrivacyRuleIDs_def)
  have "GetRules demo_env 10 PrivacyKeyAbout = Inr \<lparr>rs_OwnerUserID = 10, rs_Key = PrivacyKeyAbout, rs_Rules = demo_rules\<rparr>"
    by (simp add: GetRules_def GetPrivacyRules_def ValidKey_def demo_env_eq demo_rules_def)
  then have "EvaluatePrivacy new (base_ctx 10 40 None)"
    using add_allow_user_exact[OF a] by (auto simp: demo_rules_def base_ctx_def explicitDisallowMatches_def intersects_def)
  then show ?thesis
    using a by blast
qed

theorem privacy_rules_roundtrip_witness:
  "\<exists>out env'. SetRules demo_env 10 PrivacyKeyAbout [plain_rule PrivacyRuleAllowAll] = Inr (out, env') \<and>
     GetRules env' 10 PrivacyKeyAbout = Inr out \<and> rs_Rules out = [plain_rule PrivacyRuleAllowAll]"
proof -
  obtain out env' where s: "SetRules demo_env 10 PrivacyKeyAbout [plain_rule PrivacyRuleAllowAll] = Inr (out, env')"
    by (simp add: SetRules_def normalizedRules_def ValidKey_def validateRules_def maxPrivacyRules_def maxPrivacyRuleIDs_def)
  then show ?thesis
    using privacy_rules_roundtrip[where env = demo_env and i = 10 and k = PrivacyKeyAbout
        and rs = "[plain_rule PrivacyRuleAllowAll]"] by simp
qed

end
