(* ===== verification/Readmodel_Cache.thy ===== *)
theory Readmodel_Cache
  imports SG_Prelude
begin

text \<open>
  The in-process read-model cache (\<open>internal/readmodelcache/cache.go\<close>): a bounded LRU with a
  time to live, a version gate, per-entry weights and an invalidation epoch.

  The doubly linked list \<open>ll\<close> is the list of its elements' addresses, front first; an address
  indexes the heap of list elements, and \<open>items\<close> maps a key to the address of its element, as
  the Go map holds \<open>*list.Element\<close>. The clock reading \<open>c.now()\<close> of an operation is its argument
  \<open>now\<close> (nanoseconds), and the zero \<open>time.Time\<close> of an entry that does not expire is \<open>None\<close>.
  The callbacks \<open>OnStore\<close> and \<open>OnRemove\<close> run under the cache lock and change state of
  the cache's client; that state is the field \<open>ca_client\<close> and a callback is a function on it.
  The unspecified iteration order of a Go map is an argument \<open>ord\<close> that lists its keys.
  A nil \<open>*Cache\<close> is \<open>None\<close>. \<open>fmt.Sprint\<close> on the key type is the argument
  \<open>sprint\<close>. Weights and sizes are unbounded integers here; theory \<open>Cache_Wrap\<close> has the
  operations on the aggregate weight with Go's 64-bit wrap-around and shows that they coincide as long
  as \<open>MaxWeight\<close> and \<open>MaxEntries\<close> are below \<open>2\<^sup>6\<^sup>2\<close>.
\<close>

section \<open>Data\<close>

record ('k, 'v, 'i) cache_config =
  cf_MaxEntries :: int
  cf_MaxWeight :: int
  cf_Weight :: "('v \<Rightarrow> int) option"
  cf_TTL :: int
  cf_Clone :: "('v \<Rightarrow> 'v) option"
  cf_KeyString :: "('k \<Rightarrow> string) option"
  cf_OnStore :: "('k \<Rightarrow> 'v \<Rightarrow> 'i \<Rightarrow> 'i) option"
  cf_OnRemove :: "('k \<Rightarrow> 'v \<Rightarrow> 'i \<Rightarrow> 'i) option"

record ('k, 'v) lru_entry =
  en_key :: 'k
  en_value :: 'v
  en_hash :: int
  en_expireAt :: "int option"
  en_weight :: int

type_synonym 'k batch_flight_key = "'k \<times> int \<times> bool \<times> 64 word"

text \<open>
  A batch flight; \<open>bf_done\<close> tells whether its channel is closed, an error is a string, and
  \<open>bf_key\<close> is the key it is registered under, which Go keeps beside the pointer.
\<close>

record ('k, 'v) batch_flight =
  bf_key :: "'k batch_flight_key"
  bf_done :: bool
  bf_value :: "'v option"
  bf_err :: "string option"
  bf_retry :: bool

record ('k, 'v, 'i) cache =
  ca_ll :: "nat list"
  ca_heap :: "('k, 'v) lru_entry list"
  ca_items :: "'k \<rightharpoonup> nat"
  ca_cap :: int
  ca_maxWeight :: int
  ca_weight :: int
  ca_ttl :: int
  ca_epoch :: "64 word"
  ca_clone :: "('v \<Rightarrow> 'v) option"
  ca_weigh :: "('v \<Rightarrow> int) option"
  ca_keyString :: "'k \<Rightarrow> string"
  ca_onStore :: "('k \<Rightarrow> 'v \<Rightarrow> 'i \<Rightarrow> 'i) option"
  ca_onRemove :: "('k \<Rightarrow> 'v \<Rightarrow> 'i \<Rightarrow> 'i) option"
  ca_client :: 'i
  ca_batchFlights :: "'k batch_flight_key \<rightharpoonup> nat"
  ca_flights :: "('k, 'v) batch_flight list"

section \<open>Operations under the cache lock\<close>

definition Cache_New :: "('k \<Rightarrow> string) \<Rightarrow> 'i \<Rightarrow> ('k, 'v, 'i) cache_config \<Rightarrow> ('k, 'v, 'i) cache option" where
  "Cache_New sprint client cfg =
    (if cf_MaxEntries cfg \<le> 0 then None
     else Some \<lparr>ca_ll = [], ca_heap = [], ca_items = Map.empty, ca_cap = cf_MaxEntries cfg,
       ca_maxWeight = cf_MaxWeight cfg, ca_weight = 0, ca_ttl = cf_TTL cfg, ca_epoch = 0,
       ca_clone = cf_Clone cfg, ca_weigh = cf_Weight cfg,
       ca_keyString = (case cf_KeyString cfg of None \<Rightarrow> sprint | Some f \<Rightarrow> f),
       ca_onStore = cf_OnStore cfg, ca_onRemove = cf_OnRemove cfg, ca_client = client,
       ca_batchFlights = Map.empty, ca_flights = []\<rparr>)"

definition cloneValue :: "('k, 'v, 'i) cache \<Rightarrow> 'v \<Rightarrow> 'v" where
  "cloneValue c v = (case ca_clone c of None \<Rightarrow> v | Some f \<Rightarrow> f v)"

definition valueWeight :: "('k, 'v, 'i) cache \<Rightarrow> 'v \<Rightarrow> int" where
  "valueWeight c v =
    (case ca_weigh c of
       None \<Rightarrow> 1
     | Some f \<Rightarrow> if ca_maxWeight c \<le> 0 then 1 else let w = f v in if w \<le> 0 then 1 else w)"

definition cache_expired :: "('k, 'v, 'i) cache \<Rightarrow> int \<Rightarrow> ('k, 'v) lru_entry \<Rightarrow> bool" where
  "cache_expired c now ent \<longleftrightarrow>
    ca_ttl c > 0 \<and> (case en_expireAt ent of None \<Rightarrow> False | Some t \<Rightarrow> \<not> t > now)"

definition cache_expireAt :: "('k, 'v, 'i) cache \<Rightarrow> int \<Rightarrow> int option" where
  "cache_expireAt c now = (if ca_ttl c \<le> 0 then None else Some (now + ca_ttl c))"

definition call_onStore :: "('k, 'v, 'i) cache \<Rightarrow> 'k \<Rightarrow> 'v \<Rightarrow> ('k, 'v, 'i) cache" where
  "call_onStore c k v =
    (case ca_onStore c of None \<Rightarrow> c | Some f \<Rightarrow> c\<lparr>ca_client := f k v (ca_client c)\<rparr>)"

definition call_onRemove :: "('k, 'v, 'i) cache \<Rightarrow> 'k \<Rightarrow> 'v \<Rightarrow> ('k, 'v, 'i) cache" where
  "call_onRemove c k v =
    (case ca_onRemove c of None \<Rightarrow> c | Some f \<Rightarrow> c\<lparr>ca_client := f k v (ca_client c)\<rparr>)"

definition Cache_removeElement :: "('k, 'v, 'i) cache \<Rightarrow> nat \<Rightarrow> ('k, 'v, 'i) cache" where
  "Cache_removeElement c el =
    (let ent = ca_heap c ! el;
         c = call_onRemove c (en_key ent) (en_value ent)
     in c\<lparr>ca_weight := ca_weight c - en_weight ent,
          ca_ll := remove1 el (ca_ll c),
          ca_items := (ca_items c)(en_key ent := None)\<rparr>)"

definition evictOldest :: "('k, 'v, 'i) cache \<Rightarrow> ('k, 'v, 'i) cache" where
  "evictOldest c = (if ca_ll c = [] then c else Cache_removeElement c (last (ca_ll c)))"

lemma call_onRemove_frame [simp]:
  "ca_ll (call_onRemove c k v) = ca_ll c" "ca_heap (call_onRemove c k v) = ca_heap c"
  "ca_items (call_onRemove c k v) = ca_items c" "ca_weight (call_onRemove c k v) = ca_weight c"
  "ca_cap (call_onRemove c k v) = ca_cap c" "ca_maxWeight (call_onRemove c k v) = ca_maxWeight c"
  "ca_epoch (call_onRemove c k v) = ca_epoch c" "ca_ttl (call_onRemove c k v) = ca_ttl c"
  "ca_clone (call_onRemove c k v) = ca_clone c" "ca_weigh (call_onRemove c k v) = ca_weigh c"
  "ca_keyString (call_onRemove c k v) = ca_keyString c"
  "ca_onStore (call_onRemove c k v) = ca_onStore c"
  "ca_onRemove (call_onRemove c k v) = ca_onRemove c"
  "ca_batchFlights (call_onRemove c k v) = ca_batchFlights c"
  "ca_flights (call_onRemove c k v) = ca_flights c"
  by (simp_all add: call_onRemove_def split: option.split)

function evictOverflow :: "('k, 'v, 'i) cache \<Rightarrow> ('k, 'v, 'i) cache" where
  "evictOverflow c =
    (if int (length (ca_ll c)) > ca_cap c \<or> (ca_maxWeight c > 0 \<and> ca_weight c > ca_maxWeight c)
     then (if ca_ll c = [] then c else evictOverflow (evictOldest c))
     else c)"
  by auto
termination
  by (relation "measure (\<lambda>c. length (ca_ll c))")
     (auto simp: evictOldest_def Cache_removeElement_def Let_def length_remove1)

declare evictOverflow.simps [simp del]

text \<open>\<open>storeLocked\<close>: an overweight value only drops the old one; a known key is rewritten in place.\<close>

definition storeLocked :: "int \<Rightarrow> ('k, 'v, 'i) cache \<Rightarrow> 'k \<Rightarrow> 'v \<Rightarrow> int \<Rightarrow> ('k, 'v, 'i) cache" where
  "storeLocked now c key v hash =
    (let weight = valueWeight c v in
     if ca_maxWeight c > 0 \<and> weight > ca_maxWeight c
     then (case ca_items c key of None \<Rightarrow> c | Some el \<Rightarrow> Cache_removeElement c el)
     else case ca_items c key of
       Some el \<Rightarrow>
         let ent = ca_heap c ! el;
             c = call_onRemove c (en_key ent) (en_value ent);
             ent' = ent\<lparr>en_value := cloneValue c v, en_hash := hash,
                        en_expireAt := cache_expireAt c now, en_weight := weight\<rparr>;
             c = c\<lparr>ca_weight := ca_weight c - en_weight ent + weight,
                   ca_heap := (ca_heap c)[el := ent']\<rparr>;
             c = call_onStore c (en_key ent') (en_value ent');
             c = c\<lparr>ca_ll := el # remove1 el (ca_ll c)\<rparr>
         in evictOverflow c
     | None \<Rightarrow>
         let ent = \<lparr>en_key = key, en_value = cloneValue c v, en_hash = hash,
                    en_expireAt = cache_expireAt c now, en_weight = weight\<rparr>;
             el = length (ca_heap c);
             c = c\<lparr>ca_heap := ca_heap c @ [ent], ca_ll := el # ca_ll c,
                   ca_items := (ca_items c)(key \<mapsto> el), ca_weight := ca_weight c + weight\<rparr>;
             c = call_onStore c (en_key ent) (en_value ent)
         in evictOverflow c)"

definition storeIfEpoch :: "int \<Rightarrow> ('k, 'v, 'i) cache \<Rightarrow> 'k \<Rightarrow> 'v \<Rightarrow> int \<Rightarrow> 64 word \<Rightarrow> bool \<times> ('k, 'v, 'i) cache" where
  "storeIfEpoch now c key v hash loadEpoch =
    (if ca_epoch c \<noteq> loadEpoch then (False, c) else (True, storeLocked now c key v hash))"

definition Cache_lookup :: "int \<Rightarrow> ('k, 'v, 'i) cache \<Rightarrow> 'k \<Rightarrow> int \<Rightarrow> bool \<Rightarrow> 'v option \<times> ('k, 'v, 'i) cache" where
  "Cache_lookup now c key currentHash versioned =
    (case ca_items c key of
       None \<Rightarrow> (None, c)
     | Some el \<Rightarrow>
         let ent = ca_heap c ! el in
         if cache_expired c now ent then (None, Cache_removeElement c el)
         else if versioned \<and> currentHash \<noteq> 0 \<and> en_hash ent \<noteq> currentHash then (None, c)
         else (Some (cloneValue c (en_value ent)), c\<lparr>ca_ll := el # remove1 el (ca_ll c)\<rparr>))"

definition remove_key :: "('k, 'v, 'i) cache \<Rightarrow> 'k \<Rightarrow> ('k, 'v, 'i) cache" where
  "remove_key c key = (case ca_items c key of None \<Rightarrow> c | Some el \<Rightarrow> Cache_removeElement c el)"

definition bump_epoch :: "('k, 'v, 'i) cache \<Rightarrow> ('k, 'v, 'i) cache" where
  "bump_epoch c = c\<lparr>ca_epoch := ca_epoch c + 1\<rparr>"

definition cacheEpoch :: "('k, 'v, 'i) cache \<Rightarrow> 64 word" where
  "cacheEpoch c = ca_epoch c"

section \<open>Public operations\<close>

definition Cache_Store :: "int \<Rightarrow> ('k, 'v, 'i) cache option \<Rightarrow> 'k \<Rightarrow> 'v \<Rightarrow> ('k, 'v, 'i) cache option" where
  "Cache_Store now cc key v = map_option (\<lambda>c. storeLocked now c key v 0) cc"

definition StoreVersioned :: "int \<Rightarrow> ('k, 'v, 'i) cache option \<Rightarrow> 'k \<Rightarrow> int \<Rightarrow> 'v \<Rightarrow> ('k, 'v, 'i) cache option" where
  "StoreVersioned now cc key hash v = map_option (\<lambda>c. storeLocked now c key v hash) cc"

definition LoadEpoch :: "('k, 'v, 'i) cache option \<Rightarrow> 64 word" where
  "LoadEpoch cc = (case cc of None \<Rightarrow> 0 | Some c \<Rightarrow> cacheEpoch c)"

definition StoreIfEpoch :: "int \<Rightarrow> ('k, 'v, 'i) cache option \<Rightarrow> 'k \<Rightarrow> 'v \<Rightarrow> 64 word \<Rightarrow> ('k, 'v, 'i) cache option" where
  "StoreIfEpoch now cc key v loadEpoch = map_option (\<lambda>c. snd (storeIfEpoch now c key v 0 loadEpoch)) cc"

definition Peek :: "int \<Rightarrow> ('k, 'v, 'i) cache option \<Rightarrow> 'k \<Rightarrow> 'v option" where
  "Peek now cc key =
    (case cc of
       None \<Rightarrow> None
     | Some c \<Rightarrow>
         (case ca_items c key of
            None \<Rightarrow> None
          | Some el \<Rightarrow>
              let ent = ca_heap c ! el in
              if cache_expired c now ent then None else Some (cloneValue c (en_value ent))))"

definition Invalidate :: "('k, 'v, 'i) cache option \<Rightarrow> 'k list \<Rightarrow> ('k, 'v, 'i) cache option" where
  "Invalidate cc keys =
    (if keys = [] then cc else map_option (\<lambda>c. fold (\<lambda>k c. remove_key c k) keys (bump_epoch c)) cc)"

definition InvalidateWhere :: "'k list \<Rightarrow> ('k, 'v, 'i) cache option \<Rightarrow> ('k \<Rightarrow> bool) option \<Rightarrow> ('k, 'v, 'i) cache option" where
  "InvalidateWhere ord cc pred =
    (case pred of
       None \<Rightarrow> cc
     | Some p \<Rightarrow> map_option (\<lambda>c. fold (\<lambda>k c. if p k then remove_key c k else c) ord (bump_epoch c)) cc)"

definition InvalidateWhereValue :: "'k list \<Rightarrow> ('k, 'v, 'i) cache option \<Rightarrow> ('k \<Rightarrow> 'v \<Rightarrow> bool) option \<Rightarrow> ('k, 'v, 'i) cache option" where
  "InvalidateWhereValue ord cc pred =
    (case pred of
       None \<Rightarrow> cc
     | Some p \<Rightarrow> map_option (\<lambda>c. fold (\<lambda>k c.
         case ca_items c k of
           None \<Rightarrow> c
         | Some el \<Rightarrow> if p k (en_value (ca_heap c ! el)) then Cache_removeElement c el else c)
         ord (bump_epoch c)) cc)"

definition Flush :: "('k, 'v, 'i) cache option \<Rightarrow> ('k, 'v, 'i) cache option" where
  "Flush cc = map_option (\<lambda>c.
    let c = bump_epoch c;
        c = fold (\<lambda>el c. call_onRemove c (en_key (ca_heap c ! el)) (en_value (ca_heap c ! el))) (ca_ll c) c
    in c\<lparr>ca_ll := [], ca_items := Map.empty, ca_weight := 0\<rparr>) cc"

definition Cache_Len :: "('k, 'v, 'i) cache option \<Rightarrow> int" where
  "Cache_Len cc = (case cc of None \<Rightarrow> 0 | Some c \<Rightarrow> int (length (ca_ll c)))"

definition Cache_Weight :: "('k, 'v, 'i) cache option \<Rightarrow> int" where
  "Cache_Weight cc = (case cc of None \<Rightarrow> 0 | Some c \<Rightarrow> ca_weight c)"

section \<open>Batches\<close>

type_synonym 'k batch_miss = "'k \<times> int \<times> bool"

definition miss_key :: "64 word \<Rightarrow> 'k batch_miss \<Rightarrow> 'k batch_flight_key" where
  "miss_key epoch m = (case m of (key, hash, cacheable) \<Rightarrow> (key, hash, cacheable, epoch))"

text \<open>
  \<open>claimBatchFlights\<close> joins the registered flight of each miss or registers a new one; a wait is
  the miss with the address of its flight. It returns the waits and the owned ones among them.
\<close>

fun claimBatchFlights :: "64 word \<Rightarrow> 'k batch_miss list \<Rightarrow> ('k, 'v, 'i) cache
    \<Rightarrow> ('k batch_miss \<times> nat) list \<times> ('k batch_miss \<times> nat) list \<times> ('k, 'v, 'i) cache" where
  "claimBatchFlights epoch [] c = ([], [], c)"
| "claimBatchFlights epoch (m # ms) c =
    (let key = miss_key epoch m in
     case ca_batchFlights c key of
       Some f \<Rightarrow>
         (case claimBatchFlights epoch ms c of (waits, owned, c') \<Rightarrow> ((m, f) # waits, owned, c'))
     | None \<Rightarrow>
         let f = length (ca_flights c);
             flight = \<lparr>bf_key = key, bf_done = False, bf_value = None, bf_err = None, bf_retry = False\<rparr>;
             c = c\<lparr>ca_flights := ca_flights c @ [flight], ca_batchFlights := (ca_batchFlights c)(key \<mapsto> f)\<rparr>
         in (case claimBatchFlights epoch ms c of (waits, owned, c') \<Rightarrow> ((m, f) # waits, (m, f) # owned, c')))"

definition completeBatchFlight :: "'k batch_flight_key \<Rightarrow> nat \<Rightarrow> 'v option \<Rightarrow> string option \<Rightarrow> bool
    \<Rightarrow> ('k, 'v, 'i) cache \<Rightarrow> ('k, 'v, 'i) cache" where
  "completeBatchFlight key f value err retry c =
    (let c = c\<lparr>ca_flights := (ca_flights c)[f := (ca_flights c ! f)\<lparr>bf_value := map_option (cloneValue c) value,
                 bf_err := err, bf_retry := retry, bf_done := True\<rparr>]\<rparr>
     in if ca_batchFlights c key = Some f then c\<lparr>ca_batchFlights := (ca_batchFlights c)(key := None)\<rparr> else c)"

definition storeBatchIfEpoch :: "int \<Rightarrow> ('k \<times> 'v \<times> int) list \<Rightarrow> 64 word \<Rightarrow> ('k, 'v, 'i) cache \<Rightarrow> bool \<times> ('k, 'v, 'i) cache" where
  "storeBatchIfEpoch now entries expected c =
    (if ca_epoch c \<noteq> expected then (False, c)
     else (True, fold (\<lambda>(key, value, hash) c. storeLocked now c key value hash) entries c))"

fun dedupe_loop :: "'k list \<Rightarrow> 'k list \<Rightarrow> 'k list" where
  "dedupe_loop seen [] = []"
| "dedupe_loop seen (key # keys) =
    (if key \<in> set seen then dedupe_loop seen keys else key # dedupe_loop (key # seen) keys)"

definition dedupeKeys :: "'k list \<Rightarrow> 'k list" where
  "dedupeKeys keys = dedupe_loop [] keys"

text \<open>\<open>strconv.FormatInt\<close> in base 10, as far as the singleflight key uses it.\<close>

fun dec_digits :: "nat \<Rightarrow> string" where
  "dec_digits n = (if n < 10 then [char_of (48 + n)] else dec_digits (n div 10) @ [char_of (48 + n mod 10)])"

declare dec_digits.simps [simp del]

definition FormatInt :: "int \<Rightarrow> string" where
  "FormatInt n = (if n < 0 then CHR ''-'' # dec_digits (nat (- n)) else dec_digits (nat n))"

definition singleflightKey :: "('k, 'v, 'i) cache \<Rightarrow> 'k \<Rightarrow> int \<Rightarrow> bool \<Rightarrow> string" where
  "singleflightKey c key hash versioned =
    (let s = ca_keyString c key in if versioned \<and> hash \<noteq> 0 then s @ ''@'' @ FormatInt hash else s)"

end
