(* ===== verification/Cache_Spec.thy ===== *)
theory Cache_Spec
  imports Readmodel_Cache
begin

text \<open>
  What the read-model cache promises: an abstract LRU table, a list of entries from the most to the
  least recently used with no list elements, no index and no running weight, and the simulation that
  shows that the cache of \<open>Readmodel_Cache\<close> implements it. The locale \<open>cache_client\<close> is the
  contract of the callbacks \<open>OnStore\<close> and \<open>OnRemove\<close>.
\<close>

section \<open>The abstract table\<close>

record ('k, 'v) lru =
  lr_entries :: "('k, 'v) lru_entry list"
  lr_epoch :: "64 word"

text \<open>
  The eviction rule from the other end: keep entries from the front as long as they fit into the
  number \<open>n\<close> of places and, when the weight is bounded, into the weight \<open>w\<close>.
\<close>

fun fit_prefix :: "int \<Rightarrow> bool \<Rightarrow> int \<Rightarrow> ('k, 'v) lru_entry list \<Rightarrow> ('k, 'v) lru_entry list" where
  "fit_prefix n bounded w [] = []"
| "fit_prefix n bounded w (e # es) =
    (if n \<ge> 1 \<and> (bounded \<longrightarrow> en_weight e \<le> w)
     then e # fit_prefix (n - 1) bounded (w - en_weight e) es else [])"

definition drop_key :: "'k \<Rightarrow> ('k, 'v) lru_entry list \<Rightarrow> ('k, 'v) lru_entry list" where
  "drop_key k es = filter (\<lambda>e. en_key e \<noteq> k) es"

definition find_key :: "'k \<Rightarrow> ('k, 'v) lru_entry list \<Rightarrow> ('k, 'v) lru_entry option" where
  "find_key k es = find (\<lambda>e. en_key e = k) es"

definition weight_for :: "('k, 'v, 'i) cache_config \<Rightarrow> 'v \<Rightarrow> int" where
  "weight_for cfg v = (if cf_MaxWeight cfg > 0 then case cf_Weight cfg of None \<Rightarrow> 1 | Some f \<Rightarrow> max 1 (f v) else 1)"

definition clone_for :: "('k, 'v, 'i) cache_config \<Rightarrow> 'v \<Rightarrow> 'v" where
  "clone_for cfg v = (case cf_Clone cfg of None \<Rightarrow> v | Some f \<Rightarrow> f v)"

definition is_stale :: "('k, 'v, 'i) cache_config \<Rightarrow> int \<Rightarrow> ('k, 'v) lru_entry \<Rightarrow> bool" where
  "is_stale cfg now e \<longleftrightarrow> cf_TTL cfg > 0 \<and> (\<exists>t. en_expireAt e = Some t \<and> t \<le> now)"

definition spec_entry :: "('k, 'v, 'i) cache_config \<Rightarrow> int \<Rightarrow> 'k \<Rightarrow> 'v \<Rightarrow> int \<Rightarrow> ('k, 'v) lru_entry" where
  "spec_entry cfg now k v h = \<lparr>en_key = k, en_value = clone_for cfg v, en_hash = h,
    en_expireAt = (if cf_TTL cfg > 0 then Some (now + cf_TTL cfg) else None), en_weight = weight_for cfg v\<rparr>"

definition spec_store :: "('k, 'v, 'i) cache_config \<Rightarrow> int \<Rightarrow> 'k \<Rightarrow> 'v \<Rightarrow> int \<Rightarrow> ('k, 'v) lru_entry list \<Rightarrow> ('k, 'v) lru_entry list" where
  "spec_store cfg now k v h es =
    (if cf_MaxWeight cfg > 0 \<and> weight_for cfg v > cf_MaxWeight cfg then drop_key k es
     else fit_prefix (cf_MaxEntries cfg) (cf_MaxWeight cfg > 0) (cf_MaxWeight cfg)
            (spec_entry cfg now k v h # drop_key k es))"

definition spec_lookup :: "('k, 'v, 'i) cache_config \<Rightarrow> int \<Rightarrow> 'k \<Rightarrow> int \<Rightarrow> bool \<Rightarrow> ('k, 'v) lru_entry list
    \<Rightarrow> 'v option \<times> ('k, 'v) lru_entry list" where
  "spec_lookup cfg now k h versioned es =
    (case find_key k es of
       None \<Rightarrow> (None, es)
     | Some e \<Rightarrow>
         if is_stale cfg now e then (None, drop_key k es)
         else if versioned \<and> h \<noteq> 0 \<and> en_hash e \<noteq> h then (None, es)
         else (Some (clone_for cfg (en_value e)), e # drop_key k es))"

section \<open>The operations as one interface\<close>

datatype ('k, 'v) cache_op =
    OpLookup int 'k int bool
  | OpStore int 'k 'v
  | OpStoreVersioned int 'k int 'v
  | OpLoadEpoch
  | OpStoreIfEpoch int 'k 'v int "64 word"
  | OpStoreBatch int "('k \<times> 'v \<times> int) list" "64 word"
  | OpPeek int 'k
  | OpInvalidate "'k list"
  | OpInvalidateWhere "'k list" "'k \<Rightarrow> bool"
  | OpInvalidateWhereValue "'k list" "'k \<Rightarrow> 'v \<Rightarrow> bool"
  | OpFlush
  | OpLen
  | OpWeight

datatype 'v cache_res = ResUnit | ResValue "'v option" | ResBool bool | ResEpoch "64 word" | ResInt int

fun cache_exec :: "('k, 'v, 'i) cache \<Rightarrow> ('k, 'v) cache_op \<Rightarrow> 'v cache_res \<times> ('k, 'v, 'i) cache" where
  "cache_exec c (OpLookup now k h versioned) = (case Cache_lookup now c k h versioned of (r, c') \<Rightarrow> (ResValue r, c'))"
| "cache_exec c (OpStore now k v) = (ResUnit, the (Cache_Store now (Some c) k v))"
| "cache_exec c (OpStoreVersioned now k h v) = (ResUnit, the (StoreVersioned now (Some c) k h v))"
| "cache_exec c OpLoadEpoch = (ResEpoch (LoadEpoch (Some c)), c)"
| "cache_exec c (OpStoreIfEpoch now k v h e) = (case storeIfEpoch now c k v h e of (r, c') \<Rightarrow> (ResBool r, c'))"
| "cache_exec c (OpStoreBatch now entries e) = (case storeBatchIfEpoch now entries e c of (r, c') \<Rightarrow> (ResBool r, c'))"
| "cache_exec c (OpPeek now k) = (ResValue (Peek now (Some c) k), c)"
| "cache_exec c (OpInvalidate ks) = (ResUnit, the (Invalidate (Some c) ks))"
| "cache_exec c (OpInvalidateWhere ord p) = (ResUnit, the (InvalidateWhere ord (Some c) (Some p)))"
| "cache_exec c (OpInvalidateWhereValue ord p) = (ResUnit, the (InvalidateWhereValue ord (Some c) (Some p)))"
| "cache_exec c OpFlush = (ResUnit, the (Flush (Some c)))"
| "cache_exec c OpLen = (ResInt (Cache_Len (Some c)), c)"
| "cache_exec c OpWeight = (ResInt (Cache_Weight (Some c)), c)"

definition spec_inval :: "(('k, 'v) lru_entry \<Rightarrow> bool) \<Rightarrow> ('k, 'v) lru \<Rightarrow> ('k, 'v) lru" where
  "spec_inval keep l = l\<lparr>lr_entries := filter keep (lr_entries l), lr_epoch := lr_epoch l + 1\<rparr>"

fun lru_exec :: "('k, 'v, 'i) cache_config \<Rightarrow> ('k, 'v) lru \<Rightarrow> ('k, 'v) cache_op \<Rightarrow> 'v cache_res \<times> ('k, 'v) lru" where
  "lru_exec cfg l (OpLookup now k h versioned) =
    (case spec_lookup cfg now k h versioned (lr_entries l) of (r, es) \<Rightarrow> (ResValue r, l\<lparr>lr_entries := es\<rparr>))"
| "lru_exec cfg l (OpStore now k v) = (ResUnit, l\<lparr>lr_entries := spec_store cfg now k v 0 (lr_entries l)\<rparr>)"
| "lru_exec cfg l (OpStoreVersioned now k h v) = (ResUnit, l\<lparr>lr_entries := spec_store cfg now k v h (lr_entries l)\<rparr>)"
| "lru_exec cfg l OpLoadEpoch = (ResEpoch (lr_epoch l), l)"
| "lru_exec cfg l (OpStoreIfEpoch now k v h e) =
    (if lr_epoch l = e then (ResBool True, l\<lparr>lr_entries := spec_store cfg now k v h (lr_entries l)\<rparr>)
     else (ResBool False, l))"
| "lru_exec cfg l (OpStoreBatch now entries e) =
    (if lr_epoch l = e
     then (ResBool True, l\<lparr>lr_entries := fold (\<lambda>(k, v, h). spec_store cfg now k v h) entries (lr_entries l)\<rparr>)
     else (ResBool False, l))"
| "lru_exec cfg l (OpPeek now k) =
    (ResValue (case find_key k (lr_entries l) of
       None \<Rightarrow> None
     | Some e \<Rightarrow> if is_stale cfg now e then None else Some (clone_for cfg (en_value e))), l)"
| "lru_exec cfg l (OpInvalidate ks) =
    (ResUnit, if ks = [] then l else spec_inval (\<lambda>e. en_key e \<notin> set ks) l)"
| "lru_exec cfg l (OpInvalidateWhere ord p) = (ResUnit, spec_inval (\<lambda>e. \<not> p (en_key e)) l)"
| "lru_exec cfg l (OpInvalidateWhereValue ord p) = (ResUnit, spec_inval (\<lambda>e. \<not> p (en_key e) (en_value e)) l)"
| "lru_exec cfg l OpFlush = (ResUnit, spec_inval (\<lambda>e. False) l)"
| "lru_exec cfg l OpLen = (ResInt (int (length (lr_entries l))), l)"
| "lru_exec cfg l OpWeight = (ResInt (sum_list (map en_weight (lr_entries l))), l)"

text \<open>An iteration order lists every key of the map.\<close>

fun op_ord_ok :: "('k, 'v, 'i) cache \<Rightarrow> ('k, 'v) cache_op \<Rightarrow> bool" where
  "op_ord_ok c (OpInvalidateWhere ord p) \<longleftrightarrow> dom (ca_items c) \<subseteq> set ord"
| "op_ord_ok c (OpInvalidateWhereValue ord p) \<longleftrightarrow> dom (ca_items c) \<subseteq> set ord"
| "op_ord_ok c _ \<longleftrightarrow> True"

section \<open>The invariant\<close>

definition entries_of :: "('k, 'v, 'i) cache \<Rightarrow> ('k, 'v) lru_entry list" where
  "entries_of c = map (\<lambda>el. ca_heap c ! el) (ca_ll c)"

definition abs_cache :: "('k, 'v, 'i) cache \<Rightarrow> ('k, 'v) lru" where
  "abs_cache c = \<lparr>lr_entries = entries_of c, lr_epoch = ca_epoch c\<rparr>"

text \<open>The links of the structure: \<open>items\<close> indexes the list by key, and \<open>weight\<close> is the sum.\<close>

definition cache_links :: "('k, 'v, 'i) cache \<Rightarrow> bool" where
  "cache_links c \<longleftrightarrow>
    distinct (ca_ll c) \<and> (\<forall>el \<in> set (ca_ll c). el < length (ca_heap c)) \<and>
    (\<forall>k el. ca_items c k = Some el \<longleftrightarrow> el \<in> set (ca_ll c) \<and> en_key (ca_heap c ! el) = k) \<and>
    ca_weight c = sum_list (map en_weight (entries_of c)) \<and>
    (\<forall>e \<in> set (entries_of c). 1 \<le> en_weight e)"

definition cache_cfg :: "('k, 'v, 'i) cache_config \<Rightarrow> ('k, 'v, 'i) cache \<Rightarrow> bool" where
  "cache_cfg cfg c \<longleftrightarrow>
    ca_cap c = cf_MaxEntries cfg \<and> ca_maxWeight c = cf_MaxWeight cfg \<and> ca_ttl c = cf_TTL cfg \<and>
    ca_clone c = cf_Clone cfg \<and> ca_weigh c = cf_Weight cfg \<and>
    ca_onStore c = cf_OnStore cfg \<and> ca_onRemove c = cf_OnRemove cfg"

definition lru_fits :: "('k, 'v, 'i) cache_config \<Rightarrow> ('k, 'v) lru_entry list \<Rightarrow> bool" where
  "lru_fits cfg es \<longleftrightarrow> int (length es) \<le> cf_MaxEntries cfg \<and>
    (cf_MaxWeight cfg > 0 \<longrightarrow> sum_list (map en_weight es) \<le> cf_MaxWeight cfg)"

definition cache_inv :: "('k, 'v, 'i) cache_config \<Rightarrow> ('k, 'v, 'i) cache \<Rightarrow> bool" where
  "cache_inv cfg c \<longleftrightarrow> cache_links c \<and> cache_cfg cfg c \<and> lru_fits cfg (entries_of c) \<and> 0 < cf_MaxEntries cfg"

section \<open>The links are kept\<close>

lemma cache_cfg_updates [simp]:
  "cache_cfg cfg (c\<lparr>ca_ll := ll\<rparr>) = cache_cfg cfg c" "cache_cfg cfg (c\<lparr>ca_heap := h\<rparr>) = cache_cfg cfg c"
  "cache_cfg cfg (c\<lparr>ca_items := m\<rparr>) = cache_cfg cfg c" "cache_cfg cfg (c\<lparr>ca_weight := w\<rparr>) = cache_cfg cfg c"
  "cache_cfg cfg (c\<lparr>ca_client := i\<rparr>) = cache_cfg cfg c" "cache_cfg cfg (c\<lparr>ca_epoch := e\<rparr>) = cache_cfg cfg c"
  "cache_cfg cfg (c\<lparr>ca_batchFlights := b\<rparr>) = cache_cfg cfg c" "cache_cfg cfg (c\<lparr>ca_flights := f\<rparr>) = cache_cfg cfg c"
  by (simp_all add: cache_cfg_def)

lemma entries_keys_distinct: "cache_links c \<Longrightarrow> distinct (map en_key (entries_of c))"
proof -
  assume l: "cache_links c"
  have "inj_on (\<lambda>el. en_key (ca_heap c ! el)) (set (ca_ll c))"
    using l unfolding cache_links_def inj_on_def by (metis option.inject)
  then show ?thesis using l by (simp add: cache_links_def entries_of_def distinct_map o_def)
qed

lemma find_key_items:
  assumes "cache_links c"
  shows "find_key k (entries_of c) = map_option (\<lambda>el. ca_heap c ! el) (ca_items c k)"
proof (cases "ca_items c k")
  case None
  then have "\<forall>el \<in> set (ca_ll c). en_key (ca_heap c ! el) \<noteq> k"
    using assms by (metis cache_links_def option.distinct(1))
  with None show ?thesis by (auto simp: find_key_def entries_of_def find_None_iff)
next
  case (Some el)
  then have el: "el \<in> set (ca_ll c)" "en_key (ca_heap c ! el) = k" using assms by (auto simp: cache_links_def)
  obtain e where e: "find_key k (entries_of c) = Some e"
    using el by (cases "find_key k (entries_of c)") (auto simp: find_key_def entries_of_def find_None_iff)
  then have "e \<in> set (entries_of c)" "en_key e = k"
    by (auto simp: find_key_def find_Some_iff)
  moreover have "ca_heap c ! el \<in> set (entries_of c)" using el by (simp add: entries_of_def)
  ultimately have "e = ca_heap c ! el"
    using entries_keys_distinct[OF assms] el(2) by (metis (no_types, lifting) distinct_map inj_on_def)
  with e Some show ?thesis by simp
qed

lemma drop_key_remove1:
  assumes l: "cache_links c" and el: "el \<in> set (ca_ll c)"
  shows "map (\<lambda>el. ca_heap c ! el) (remove1 el (ca_ll c)) = drop_key (en_key (ca_heap c ! el)) (entries_of c)"
proof -
  have key: "en_key (ca_heap c ! p) = en_key (ca_heap c ! el) \<longleftrightarrow> p = el" if "p \<in> set (ca_ll c)" for p
    using l el that unfolding cache_links_def by (metis option.inject)
  have "remove1 el (ca_ll c) = filter (\<lambda>p. p \<noteq> el) (ca_ll c)"
    using l by (simp add: cache_links_def distinct_remove1_removeAll removeAll_filter_not_eq eq_commute)
  also have "\<dots> = filter (\<lambda>p. en_key (ca_heap c ! p) \<noteq> en_key (ca_heap c ! el)) (ca_ll c)"
    by (rule filter_cong[OF refl]) (simp add: key)
  finally show ?thesis by (simp add: drop_key_def entries_of_def filter_map o_def)
qed

lemma weight_drop:
  assumes l: "cache_links c" and el: "el \<in> set (ca_ll c)"
  shows "sum_list (map en_weight (drop_key (en_key (ca_heap c ! el)) (entries_of c))) =
    ca_weight c - en_weight (ca_heap c ! el)"
proof -
  have "sum_list (map (\<lambda>p. en_weight (ca_heap c ! p)) (ca_ll c)) =
    en_weight (ca_heap c ! el) + sum_list (map (\<lambda>p. en_weight (ca_heap c ! p)) (remove1 el (ca_ll c)))"
    by (rule sum_list_map_remove1[OF el])
  then show ?thesis using l drop_key_remove1[OF l el, symmetric]
    by (simp add: cache_links_def entries_of_def o_def)
qed

lemma removeElement_frame [simp]:
  "ca_heap (Cache_removeElement c el) = ca_heap c" "ca_epoch (Cache_removeElement c el) = ca_epoch c"
  "ca_batchFlights (Cache_removeElement c el) = ca_batchFlights c"
  "ca_flights (Cache_removeElement c el) = ca_flights c"
  "ca_keyString (Cache_removeElement c el) = ca_keyString c"
  "cache_cfg cfg (Cache_removeElement c el) \<longleftrightarrow> cache_cfg cfg c"
  by (simp_all add: Cache_removeElement_def Let_def cache_cfg_def)

lemma removeElement_entries:
  assumes "cache_links c" and "el \<in> set (ca_ll c)"
  shows "entries_of (Cache_removeElement c el) = drop_key (en_key (ca_heap c ! el)) (entries_of c)"
  using drop_key_remove1[OF assms]
  by (simp add: entries_of_def Cache_removeElement_def Let_def)

lemma removeElement_links:
  assumes l: "cache_links c" and el: "el \<in> set (ca_ll c)"
  shows "cache_links (Cache_removeElement c el)"
proof -
  let ?c = "Cache_removeElement c el"
  have ll: "ca_ll ?c = remove1 el (ca_ll c)" "ca_items ?c = (ca_items c)(en_key (ca_heap c ! el) := None)"
    "ca_weight ?c = ca_weight c - en_weight (ca_heap c ! el)"
    by (simp_all add: Cache_removeElement_def Let_def)
  have "ca_items ?c k = Some p \<longleftrightarrow> p \<in> set (ca_ll ?c) \<and> en_key (ca_heap ?c ! p) = k" for k p
  proof -
    have "en_key (ca_heap c ! p) = en_key (ca_heap c ! el) \<longleftrightarrow> p = el" if "p \<in> set (ca_ll c)" for p
      using l el that unfolding cache_links_def by (metis option.inject)
    then show ?thesis using l unfolding ll by (auto simp: cache_links_def)
  qed
  moreover have "set (entries_of ?c) \<subseteq> set (entries_of c)"
    using removeElement_entries[OF l el] by (auto simp: drop_key_def)
  ultimately show ?thesis
    using l weight_drop[OF l el] removeElement_entries[OF l el] set_remove1_subset[of el "ca_ll c"]
    unfolding cache_links_def ll by auto
qed

lemma remove_key_ok:
  assumes "cache_links c"
  shows "cache_links (remove_key c k)" "entries_of (remove_key c k) = drop_key k (entries_of c)"
proof -
  have "drop_key k (entries_of c) = entries_of c" if "ca_items c k = None"
    using that find_key_items[OF assms, of k] by (auto simp: drop_key_def find_key_def find_None_iff filter_id_conv)
  then show "cache_links (remove_key c k)" "entries_of (remove_key c k) = drop_key k (entries_of c)"
    using assms removeElement_links[OF assms] removeElement_entries[OF assms]
    by (auto simp: remove_key_def cache_links_def split: option.splits)
qed

lemma remove_key_frame [simp]:
  "ca_epoch (remove_key c k) = ca_epoch c" "ca_batchFlights (remove_key c k) = ca_batchFlights c"
  "ca_flights (remove_key c k) = ca_flights c" "ca_keyString (remove_key c k) = ca_keyString c"
  "cache_cfg cfg (remove_key c k) \<longleftrightarrow> cache_cfg cfg c"
  by (simp_all add: remove_key_def split: option.split)

lemma links_nonnil_last:
  assumes "cache_links c" and "ca_ll c \<noteq> []"
  shows "entries_of (evictOldest c) = butlast (entries_of c)" and "cache_links (evictOldest c)"
proof -
  have el: "last (ca_ll c) \<in> set (ca_ll c)" using assms(2) by simp
  have "remove1 (last (ca_ll c)) (ca_ll c) = butlast (ca_ll c)"
  proof -
    obtain xs x where x: "ca_ll c = xs @ [x]" using assms(2) by (metis rev_exhaust)
    moreover have "x \<notin> set xs" using assms(1) x by (simp add: cache_links_def)
    ultimately show ?thesis by (simp add: remove1_append)
  qed
  then show "entries_of (evictOldest c) = butlast (entries_of c)"
    using assms(2) by (simp add: evictOldest_def entries_of_def Cache_removeElement_def Let_def map_butlast)
  show "cache_links (evictOldest c)" using removeElement_links[OF assms(1) el] assms(2) by (simp add: evictOldest_def)
qed

section \<open>Eviction keeps the longest prefix that fits\<close>

lemma fit_prefix_all:
  assumes "int (length es) \<le> n" and "bounded \<longrightarrow> sum_list (map en_weight es) \<le> w" and "\<forall>e \<in> set es. 1 \<le> en_weight e"
  shows "fit_prefix n bounded w es = es"
  using assms
proof (induction es arbitrary: n w)
  case (Cons e es)
  have "0 \<le> sum_list (map en_weight es)" using Cons.prems(3) by (intro sum_list_nonneg) force
  with Cons show ?case by auto
qed simp

lemma fit_prefix_fits:
  "0 \<le> n \<Longrightarrow> 0 \<le> w \<or> \<not> bounded \<Longrightarrow> int (length (fit_prefix n bounded w es)) \<le> n \<and>
    (bounded \<longrightarrow> sum_list (map en_weight (fit_prefix n bounded w es)) \<le> w)"
proof (induction es arbitrary: n w)
  case (Cons e es)
  from Cons.IH[of "n - 1" "w - en_weight e"] Cons.prems show ?case by auto
qed auto

lemma fit_prefix_snoc:
  assumes "\<forall>e \<in> set (es @ [x]). 1 \<le> en_weight e"
    and "int (length (es @ [x])) > n \<or> bounded \<and> sum_list (map en_weight (es @ [x])) > w"
  shows "fit_prefix n bounded w (es @ [x]) = fit_prefix n bounded w es"
  using assms by (induction es arbitrary: n w) auto

lemma evictOldest_frame [simp]:
  "ca_epoch (evictOldest c) = ca_epoch c" "ca_batchFlights (evictOldest c) = ca_batchFlights c"
  "ca_flights (evictOldest c) = ca_flights c" "ca_keyString (evictOldest c) = ca_keyString c"
  "cache_cfg cfg (evictOldest c) \<longleftrightarrow> cache_cfg cfg c"
  by (simp_all add: evictOldest_def)

lemma evictOverflow_frame [simp]:
  "ca_epoch (evictOverflow c) = ca_epoch c \<and> ca_batchFlights (evictOverflow c) = ca_batchFlights c \<and>
   ca_flights (evictOverflow c) = ca_flights c \<and> ca_keyString (evictOverflow c) = ca_keyString c \<and>
   cache_cfg cfg (evictOverflow c) = cache_cfg cfg c"
proof (induction c rule: evictOverflow.induct)
  case (1 c)
  then show ?case by (subst (1 2 3 4 5) evictOverflow.simps) auto
qed

lemma evictOverflow_ok:
  assumes "cache_links c" and "cache_cfg cfg c"
  shows "cache_links (evictOverflow c) \<and> entries_of (evictOverflow c) =
    fit_prefix (cf_MaxEntries cfg) (cf_MaxWeight cfg > 0) (cf_MaxWeight cfg) (entries_of c)"
  using assms
proof (induction c rule: evictOverflow.induct)
  case (1 c)
  have pos: "\<forall>e \<in> set (entries_of c). 1 \<le> en_weight e" and w: "ca_weight c = sum_list (map en_weight (entries_of c))"
    and len: "length (ca_ll c) = length (entries_of c)" and c: "ca_cap c = cf_MaxEntries cfg" "ca_maxWeight c = cf_MaxWeight cfg"
    using 1(2,3) by (auto simp: cache_links_def cache_cfg_def entries_of_def)
  let ?over = "int (length (ca_ll c)) > ca_cap c \<or> (ca_maxWeight c > 0 \<and> ca_weight c > ca_maxWeight c)"
  consider "\<not> ?over" | "?over" "ca_ll c = []" | "?over" "ca_ll c \<noteq> []" by blast
  then show ?case
  proof cases
    case 1
    then have "fit_prefix (cf_MaxEntries cfg) (cf_MaxWeight cfg > 0) (cf_MaxWeight cfg) (entries_of c) = entries_of c"
      using pos w len c by (intro fit_prefix_all) auto
    with 1 \<open>cache_links c\<close> show ?thesis by (subst (1 2) evictOverflow.simps) auto
  next
    case 2
    with \<open>cache_links c\<close> show ?thesis by (subst (1 2) evictOverflow.simps) (auto simp: entries_of_def)
  next
    case 3
    note last = links_nonnil_last[OF \<open>cache_links c\<close> 3(2)]
    have eq: "evictOverflow c = evictOverflow (evictOldest c)" using 3 by (subst evictOverflow.simps) auto
    have "entries_of c \<noteq> []" using 3(2) by (simp add: entries_of_def)
    then obtain es x where es: "entries_of c = es @ [x]" by (metis rev_exhaust)
    then have "fit_prefix (cf_MaxEntries cfg) (cf_MaxWeight cfg > 0) (cf_MaxWeight cfg) (entries_of c) =
      fit_prefix (cf_MaxEntries cfg) (cf_MaxWeight cfg > 0) (cf_MaxWeight cfg) es"
      using fit_prefix_snoc[of es x] pos 3(1) w len c by auto
    moreover have "entries_of (evictOldest c) = es" using last(1) es by simp
    ultimately show ?thesis using "1.IH"[OF 3(1,2) last(2)] 1(3) eq by simp
  qed
qed

section \<open>Every operation refines the abstract one\<close>

lemma call_onStore_frame [simp]:
  "ca_ll (call_onStore c k v) = ca_ll c" "ca_heap (call_onStore c k v) = ca_heap c"
  "ca_items (call_onStore c k v) = ca_items c" "ca_weight (call_onStore c k v) = ca_weight c"
  "ca_epoch (call_onStore c k v) = ca_epoch c" "ca_keyString (call_onStore c k v) = ca_keyString c"
  "ca_batchFlights (call_onStore c k v) = ca_batchFlights c" "ca_flights (call_onStore c k v) = ca_flights c"
  "cache_cfg cfg (call_onStore c k v) \<longleftrightarrow> cache_cfg cfg c"
  by (simp_all add: call_onStore_def cache_cfg_def split: option.split)

lemma call_onRemove_cfg [simp]: "cache_cfg cfg (call_onRemove c k v) \<longleftrightarrow> cache_cfg cfg c"
  by (simp add: cache_cfg_def)

lemma cfg_values:
  assumes "cache_cfg cfg c"
  shows "cloneValue c v = clone_for cfg v" "valueWeight c v = weight_for cfg v"
    "cache_expireAt c now = (if cf_TTL cfg > 0 then Some (now + cf_TTL cfg) else None)"
    "cache_expired c now e \<longleftrightarrow> is_stale cfg now e" "1 \<le> weight_for cfg v"
  using assms
  by (auto simp: cache_cfg_def cloneValue_def clone_for_def valueWeight_def weight_for_def cache_expireAt_def
      cache_expired_def is_stale_def Let_def max_def split: option.splits)

text \<open>Linking a new front element under a key that is not in the list.\<close>

lemma push_front_links:
  assumes l: "cache_links c" and "ca_items c k = None" and "el \<notin> set (ca_ll c)" and "el < length h"
    and "\<forall>p \<in> set (ca_ll c). p < length h \<and> h ! p = ca_heap c ! p" and e: "h ! el = e" "en_key e = k" "1 \<le> en_weight e"
    and c': "ca_ll c' = el # ca_ll c" "ca_heap c' = h" "ca_items c' = (ca_items c)(k \<mapsto> el)"
      "ca_weight c' = ca_weight c + en_weight e"
  shows "cache_links c' \<and> entries_of c' = e # entries_of c"
proof -
  have ents: "entries_of c' = e # entries_of c" using assms by (auto simp: entries_of_def)
  have "ca_items c' k' = Some p \<longleftrightarrow> p \<in> set (ca_ll c') \<and> en_key (ca_heap c' ! p) = k'" for k' p
    using assms unfolding cache_links_def by (auto split: if_splits) (metis option.distinct(1))
  with ents assms show ?thesis unfolding cache_links_def by auto
qed

lemma move_front_eq: "el \<in> set xs \<Longrightarrow> distinct xs \<Longrightarrow> distinct (el # remove1 el xs) \<and> set (el # remove1 el xs) = set xs"
  by auto

lemma removed_then_pushed:
  assumes l: "cache_links c" and k: "ca_items c k = Some el" and e: "en_key e = k" "1 \<le> en_weight e"
    and c': "ca_ll c' = el # remove1 el (ca_ll c)" "ca_heap c' = (ca_heap c)[el := e]" "ca_items c' = ca_items c"
      "ca_weight c' = ca_weight c - en_weight (ca_heap c ! el) + en_weight e"
  shows "cache_links c' \<and> entries_of c' = e # drop_key k (entries_of c)"
proof -
  have el: "el \<in> set (ca_ll c)" "en_key (ca_heap c ! el) = k" "el < length (ca_heap c)"
    using l k by (auto simp: cache_links_def)
  have d: "distinct (ca_ll c)" using l by (simp add: cache_links_def)
  let ?r = "Cache_removeElement c el"
  have r: "cache_links ?r" "entries_of ?r = drop_key k (entries_of c)" "ca_ll ?r = remove1 el (ca_ll c)"
    "ca_items ?r = (ca_items c)(k := None)" "ca_weight ?r = ca_weight c - en_weight (ca_heap c ! el)"
    using removeElement_links[OF l el(1)] removeElement_entries[OF l el(1)] el(2)
    by (simp_all add: Cache_removeElement_def Let_def)
  have "ca_items c' = (ca_items ?r)(k \<mapsto> el)" using c'(3) r(4) k by auto
  then show ?thesis
    using r e c' el d l by (subst r(2)[symmetric]) (rule push_front_links[where h = "(ca_heap c)[el := e]"],
      auto simp: cache_links_def nth_list_update)
qed

lemma storeLocked_frame [simp]:
  "ca_epoch (storeLocked now c k v h) = ca_epoch c \<and> ca_batchFlights (storeLocked now c k v h) = ca_batchFlights c \<and>
   ca_flights (storeLocked now c k v h) = ca_flights c \<and> ca_keyString (storeLocked now c k v h) = ca_keyString c \<and>
   cache_cfg cfg (storeLocked now c k v h) = cache_cfg cfg c"
  by (simp add: storeLocked_def Let_def split: option.split)

definition contents :: "('k, 'v, 'i) cache \<Rightarrow> 'k \<rightharpoonup> 'v" where
  "contents c k = map_option (\<lambda>el. en_value (ca_heap c ! el)) (ca_items c k)"

text \<open>The client's state after the callbacks of storing the value \<open>v\<close>.\<close>

definition client_after :: "('k, 'v, 'i) cache \<Rightarrow> 'k \<Rightarrow> 'v \<Rightarrow> 'i" where
  "client_after c k v =
    (let c = (case contents c k of None \<Rightarrow> c | Some old \<Rightarrow> call_onRemove c k old) in ca_client (call_onStore c k v))"

lemma call_onStore_client: "ca_client (call_onStore c k v) = (case ca_onStore c of None \<Rightarrow> ca_client c | Some f \<Rightarrow> f k v (ca_client c))"
  by (simp add: call_onStore_def split: option.split)

lemma storeLocked_heavy:
  assumes "cache_cfg cfg c" and "cf_MaxWeight cfg > 0 \<and> weight_for cfg v > cf_MaxWeight cfg"
  shows "storeLocked now c k v h = remove_key c k"
  using assms cfg_values[OF assms(1)] by (simp add: storeLocked_def remove_key_def cache_cfg_def Let_def)

lemma storeLocked_light:
  assumes l: "cache_links c" and cfg: "cache_cfg cfg c"
    and light: "\<not> (cf_MaxWeight cfg > 0 \<and> weight_for cfg v > cf_MaxWeight cfg)"
  obtains c' where "storeLocked now c k v h = evictOverflow c'" "cache_cfg cfg c'" "cache_links c'"
    "entries_of c' = spec_entry cfg now k v h # drop_key k (entries_of c)"
    "ca_client c' = client_after c k (clone_for cfg v)"
proof -
  note vals = cfg_values[OF cfg]
  have mw: "ca_maxWeight c = cf_MaxWeight cfg" using cfg by (simp add: cache_cfg_def)
  define e where "e = spec_entry cfg now k v h"
  show thesis
  proof (cases "ca_items c k")
    case None
    define c' where "c' = call_onStore (c\<lparr>ca_heap := ca_heap c @ [e], ca_ll := length (ca_heap c) # ca_ll c,
      ca_items := (ca_items c)(k \<mapsto> length (ca_heap c)), ca_weight := ca_weight c + weight_for cfg v\<rparr>) k (en_value e)"
    have "storeLocked now c k v h = evictOverflow c'"
      using None light by (auto simp: storeLocked_def c'_def e_def spec_entry_def mw vals Let_def)
    moreover have "cache_links c' \<and> entries_of c' = e # entries_of c"
      by (rule push_front_links[OF l None, where h = "ca_heap c @ [e]" and el = "length (ca_heap c)"])
        (use l vals(5)[of v] in \<open>auto simp: c'_def e_def spec_entry_def cache_links_def nth_append\<close>)
    moreover have "drop_key k (entries_of c) = entries_of c"
      using remove_key_ok(2)[OF l, of k] None by (simp add: remove_key_def)
    moreover have "cache_cfg cfg c'" using cfg by (simp add: c'_def)
    moreover have "ca_client c' = client_after c k (clone_for cfg v)"
      using None by (simp add: c'_def client_after_def contents_def e_def spec_entry_def call_onStore_client split: option.split)
    ultimately show thesis using that[of c'] by (simp add: e_def)
  next
    case (Some el)
    define r where "r = call_onRemove c k (en_value (ca_heap c ! el))"
    have k: "en_key (ca_heap c ! el) = k" using l Some by (simp add: cache_links_def)
    have rc: "cache_cfg cfg r" using cfg by (simp add: r_def)
    define c' where "c' = (call_onStore (r\<lparr>ca_weight := ca_weight c - en_weight (ca_heap c ! el) + weight_for cfg v,
      ca_heap := (ca_heap c)[el := e]\<rparr>) k (en_value e))\<lparr>ca_ll := el # remove1 el (ca_ll c)\<rparr>"
    have "(ca_heap c ! el)\<lparr>en_value := clone_for cfg v, en_hash := h,
        en_expireAt := (if cf_TTL cfg > 0 then Some (now + cf_TTL cfg) else None), en_weight := weight_for cfg v\<rparr> = e"
      using k by (simp add: e_def spec_entry_def)
    then have "storeLocked now c k v h = evictOverflow c'"
      using Some light k
      by (auto simp: storeLocked_def c'_def mw vals(2) cfg_values[OF rc] r_def[symmetric] Let_def)
    moreover have "cache_links c' \<and> entries_of c' = e # drop_key k (entries_of c)"
      by (rule removed_then_pushed[OF l Some])
        (use vals(5)[of v] in \<open>simp_all add: c'_def r_def e_def spec_entry_def\<close>)
    moreover have "cache_cfg cfg c'" using rc by (simp add: c'_def)
    moreover have "ca_client c' = client_after c k (clone_for cfg v)"
      using Some by (simp add: c'_def r_def client_after_def contents_def e_def spec_entry_def call_onStore_client split: option.split)
    ultimately show thesis using that[of c'] by (simp add: e_def)
  qed
qed

lemma storeLocked_ok:
  assumes l: "cache_links c" and cfg: "cache_cfg cfg c"
  shows "cache_links (storeLocked now c k v h) \<and> entries_of (storeLocked now c k v h) = spec_store cfg now k v h (entries_of c)"
proof (cases "cf_MaxWeight cfg > 0 \<and> weight_for cfg v > cf_MaxWeight cfg")
  case True
  with storeLocked_heavy[OF cfg True] remove_key_ok[OF l, of k] show ?thesis by (simp add: spec_store_def)
next
  case False
  from storeLocked_light[OF l cfg False] obtain c' where c': "storeLocked now c k v h = evictOverflow c'" "cache_cfg cfg c'"
    "cache_links c'" "entries_of c' = spec_entry cfg now k v h # drop_key k (entries_of c)" by metis
  then show ?thesis using evictOverflow_ok[of c' cfg] False by (auto simp: spec_store_def simp del: fit_prefix.simps)
qed

lemma bump_epoch_ok [simp]:
  "cache_links (bump_epoch c) = cache_links c" "entries_of (bump_epoch c) = entries_of c"
  "cache_cfg cfg (bump_epoch c) = cache_cfg cfg c" "ca_epoch (bump_epoch c) = ca_epoch c + 1"
  "ca_items (bump_epoch c) = ca_items c" "ca_heap (bump_epoch c) = ca_heap c"
  "ca_batchFlights (bump_epoch c) = ca_batchFlights c" "ca_flights (bump_epoch c) = ca_flights c"
  "ca_keyString (bump_epoch c) = ca_keyString c" "ca_client (bump_epoch c) = ca_client c"
  by (simp_all add: bump_epoch_def cache_links_def entries_of_def)

text \<open>What each step of a loop over keys keeps: the links, the configuration and the epoch.\<close>

definition sound_step :: "(('k, 'v, 'i) cache \<Rightarrow> ('k, 'v, 'i) cache) \<Rightarrow> (('k, 'v) lru_entry list \<Rightarrow> ('k, 'v) lru_entry list)
    \<Rightarrow> ('k, 'v, 'i) cache_config \<Rightarrow> bool" where
  "sound_step f g cfg \<longleftrightarrow> (\<forall>c. cache_links c \<longrightarrow> cache_cfg cfg c \<longrightarrow>
    cache_links (f c) \<and> cache_cfg cfg (f c) \<and> ca_epoch (f c) = ca_epoch c \<and>
    ca_batchFlights (f c) = ca_batchFlights c \<and> ca_flights (f c) = ca_flights c \<and>
    ca_keyString (f c) = ca_keyString c \<and> entries_of (f c) = g (entries_of c))"

lemma sound_fold:
  "(\<And>x. sound_step (f x) (g x) cfg) \<Longrightarrow> sound_step (fold f xs) (fold g xs) cfg"
  by (induction xs) (auto simp: sound_step_def)

lemma sound_remove: "sound_step (\<lambda>c. remove_key c k) (drop_key k) cfg"
  using remove_key_ok by (auto simp: sound_step_def)

lemma sound_store: "sound_step (\<lambda>c. storeLocked now c k v h) (spec_store cfg now k v h) cfg"
  by (simp add: sound_step_def storeLocked_ok)

lemma sound_remove_where:
  "sound_step (\<lambda>c. case ca_items c k of None \<Rightarrow> c
     | Some el \<Rightarrow> if p k (en_value (ca_heap c ! el)) then Cache_removeElement c el else c)
    (filter (\<lambda>e. \<not> (en_key e = k \<and> p k (en_value e)))) cfg" (is "sound_step ?f ?g cfg")
proof -
  have "entries_of (?f c) = ?g (entries_of c) \<and> cache_links (?f c)" if l: "cache_links c" for c
  proof (cases "ca_items c k")
    case None
    then show ?thesis using find_key_items[OF l, of k] l
      by (auto simp: find_key_def find_None_iff filter_id_conv)
  next
    case (Some el)
    then have el: "el \<in> set (ca_ll c)" "en_key (ca_heap c ! el) = k" using l by (auto simp: cache_links_def)
    have "e = ca_heap c ! el" if "e \<in> set (entries_of c)" "en_key e = k" for e
      using that el entries_keys_distinct[OF l] by (auto simp: entries_of_def distinct_map inj_on_def)
    then have "?g (entries_of c) = (if p k (en_value (ca_heap c ! el)) then drop_key k (entries_of c) else entries_of c)"
      by (auto simp: drop_key_def filter_id_conv intro: filter_cong)
    then show ?thesis using Some el removeElement_links[OF l el(1)] removeElement_entries[OF l el(1)] l by auto
  qed
  then show ?thesis by (auto simp: sound_step_def split: option.split)
qed

lemma fold_drop_key: "fold drop_key ks = filter (\<lambda>e. en_key e \<notin> set ks)"
proof
  show "fold drop_key ks es = filter (\<lambda>e. en_key e \<notin> set ks) es" for es :: "('a, 'b) lru_entry list"
    by (induction ks arbitrary: es) (auto simp: drop_key_def intro: filter_cong)
qed

lemma fold_filter_where:
  "fold (\<lambda>k. filter (\<lambda>e. \<not> (en_key e = k \<and> p k (en_value e)))) ks =
    filter (\<lambda>e. \<not> (en_key e \<in> set ks \<and> p (en_key e) (en_value e)))" (is "?l ks = ?r ks")
proof
  show "?l ks es = ?r ks es" for es by (induction ks arbitrary: es) (auto intro: filter_cong)
qed

lemma keys_items: "cache_links c \<Longrightarrow> en_key ` set (entries_of c) = dom (ca_items c)"
  by (auto simp: cache_links_def entries_of_def image_iff)

lemma Cache_lookup_ok:
  assumes l: "cache_links c" and cfg: "cache_cfg cfg c"
  shows "case Cache_lookup now c k h ver of (r, c') \<Rightarrow>
    spec_lookup cfg now k h ver (entries_of c) = (r, entries_of c') \<and> cache_links c' \<and> cache_cfg cfg c' \<and>
    ca_epoch c' = ca_epoch c \<and> ca_batchFlights c' = ca_batchFlights c \<and> ca_flights c' = ca_flights c \<and>
    ca_keyString c' = ca_keyString c"
proof (cases "ca_items c k")
  case None
  then show ?thesis using l cfg by (simp add: Cache_lookup_def spec_lookup_def find_key_items)
next
  case (Some el)
  then have el: "el \<in> set (ca_ll c)" "en_key (ca_heap c ! el) = k" using l by (auto simp: cache_links_def)
  let ?f = "c\<lparr>ca_ll := el # remove1 el (ca_ll c)\<rparr>"
  have wpos: "1 \<le> en_weight (ca_heap c ! el)" using l el by (auto simp: cache_links_def entries_of_def)
  have "cache_links ?f \<and> entries_of ?f = ca_heap c ! el # drop_key k (entries_of c)"
    by (rule removed_then_pushed[OF l Some el(2) wpos]) (simp_all add: list_update_id)
  then show ?thesis
    using Some el cfg removeElement_links[OF l el(1)] removeElement_entries[OF l el(1)] l
    by (simp add: Cache_lookup_def spec_lookup_def find_key_items cfg_values[OF cfg] Let_def)
qed

lemma flush_fold_frame:
  "fold (\<lambda>el c. call_onRemove c (en_key (ca_heap c ! el)) (en_value (ca_heap c ! el))) els c =
    c\<lparr>ca_client := ca_client (fold (\<lambda>el c. call_onRemove c (en_key (ca_heap c ! el)) (en_value (ca_heap c ! el))) els c)\<rparr>"
proof (induction els arbitrary: c)
  case (Cons el els)
  show ?case by (simp, subst Cons.IH) (simp add: call_onRemove_def split: option.split)
qed simp

lemma Flush_eq:
  "\<exists>i. the (Flush (Some c)) = (bump_epoch c)\<lparr>ca_client := i, ca_ll := [], ca_items := Map.empty, ca_weight := 0\<rparr>"
  by (simp add: Flush_def Let_def) (subst flush_fold_frame, auto)

lemma fits_filter:
  assumes "lru_fits cfg es" and "\<forall>e \<in> set es. 0 \<le> en_weight e"
  shows "lru_fits cfg (filter P es)"
proof -
  have "sum_list (map en_weight (filter P es)) \<le> sum_list (map en_weight es)"
    using assms(2) by (induction es) auto
  moreover have "length (filter P es) \<le> length es" by simp
  ultimately show ?thesis using assms(1) unfolding lru_fits_def by linarith
qed

lemma spec_store_fits:
  assumes "0 < cf_MaxEntries cfg" and "lru_fits cfg es" and "\<forall>e \<in> set es. 0 \<le> en_weight e"
  shows "lru_fits cfg (spec_store cfg now k v h es)"
proof -
  have "lru_fits cfg (drop_key k es)"
    using assms(2,3) unfolding drop_key_def by (rule fits_filter)
  moreover have "lru_fits cfg (fit_prefix (cf_MaxEntries cfg) (cf_MaxWeight cfg > 0) (cf_MaxWeight cfg) fs)" for fs
    using assms(1) fit_prefix_fits[of "cf_MaxEntries cfg" "cf_MaxWeight cfg" "cf_MaxWeight cfg > 0" fs]
    by (cases "cf_MaxWeight cfg > 0") (simp_all add: lru_fits_def)
  ultimately show ?thesis unfolding spec_store_def by presburger
qed

lemma cache_invD:
  assumes "cache_inv cfg c"
  shows "cache_links c" "cache_cfg cfg c" "lru_fits cfg (entries_of c)" "0 < cf_MaxEntries cfg"
  using assms by (simp_all add: cache_inv_def)

lemma links_weights: "cache_links c \<Longrightarrow> \<forall>e \<in> set (entries_of c). 0 \<le> en_weight e"
  by (force simp: cache_links_def)

text \<open>A step that is sound and keeps the bounds gives one step of the abstract table.\<close>

lemma sound_inv:
  assumes "cache_inv cfg c" and "sound_step f g cfg" and "lru_fits cfg (g (entries_of c))"
  shows "cache_inv cfg (f c) \<and> abs_cache (f c) = (abs_cache c)\<lparr>lr_entries := g (entries_of c)\<rparr>"
  using assms by (simp add: cache_inv_def sound_step_def abs_cache_def)

lemma store_inv:
  assumes "cache_inv cfg c"
  shows "cache_inv cfg (storeLocked now c k v h) \<and>
    abs_cache (storeLocked now c k v h) = (abs_cache c)\<lparr>lr_entries := spec_store cfg now k v h (entries_of c)\<rparr>"
  using cache_invD[OF assms] links_weights
  by (intro sound_inv[OF assms sound_store] spec_store_fits) auto

lemma store_batch_inv:
  assumes "cache_inv cfg c"
  shows "cache_inv cfg (fold (\<lambda>(k, v, h) c. storeLocked now c k v h) es c) \<and>
    abs_cache (fold (\<lambda>(k, v, h) c. storeLocked now c k v h) es c) =
      (abs_cache c)\<lparr>lr_entries := fold (\<lambda>(k, v, h). spec_store cfg now k v h) es (entries_of c)\<rparr>"
  using assms
proof (induction es arbitrary: c)
  case Nil
  then show ?case by (simp add: abs_cache_def)
next
  case (Cons x es)
  obtain k v h where x: "x = (k, v, h)" by (cases x)
  note s = store_inv[OF Cons.prems, of now k v h]
  then have "entries_of (storeLocked now c k v h) = spec_store cfg now k v h (entries_of c)"
    by (simp add: abs_cache_def)
  with Cons.IH[of "storeLocked now c k v h"] s x show ?case by simp
qed

lemma inval_inv:
  assumes inv: "cache_inv cfg c" and f: "sound_step f (filter keep) cfg"
  shows "cache_inv cfg (f (bump_epoch c)) \<and> abs_cache (f (bump_epoch c)) = spec_inval keep (abs_cache c)"
proof -
  have "cache_inv cfg (bump_epoch c)" using inv by (simp add: cache_inv_def)
  from sound_inv[OF this f] show ?thesis
    using fits_filter[OF cache_invD(3)[OF inv] links_weights[OF cache_invD(1)[OF inv]]]
    by (simp add: abs_cache_def spec_inval_def)
qed

text \<open>Two filters that agree on the entries there are give the same invalidation.\<close>

lemma spec_inval_cong:
  "(\<And>e. e \<in> set (lr_entries l) \<Longrightarrow> keep e = keep' e) \<Longrightarrow> spec_inval keep l = spec_inval keep' l"
  by (simp add: spec_inval_def cong: filter_cong)

lemma InvalidateWhereValue_ok:
  assumes inv: "cache_inv cfg c" and ord: "dom (ca_items c) \<subseteq> set ord"
  shows "cache_inv cfg (the (InvalidateWhereValue ord (Some c) (Some p))) \<and>
    abs_cache (the (InvalidateWhereValue ord (Some c) (Some p))) =
      spec_inval (\<lambda>e. \<not> p (en_key e) (en_value e)) (abs_cache c)"
proof -
  let ?keep = "\<lambda>e. \<not> (en_key e \<in> set ord \<and> p (en_key e) (en_value e))"
  have "spec_inval ?keep (abs_cache c) = spec_inval (\<lambda>e. \<not> p (en_key e) (en_value e)) (abs_cache c)"
    using keys_items[OF cache_invD(1)[OF inv]] ord by (intro spec_inval_cong) (auto simp: abs_cache_def)
  then show ?thesis
    using inval_inv[OF inv sound_fold[OF sound_remove_where, of "\<lambda>_. p" "\<lambda>k. k" ord, unfolded fold_filter_where]]
    by (simp only: InvalidateWhereValue_def option.case option.map option.sel)
qed

lemma sound_remove_if:
  "sound_step (\<lambda>c. if p k then remove_key c k else c) (filter (\<lambda>e. \<not> (en_key e = k \<and> p k))) cfg"
proof (cases "p k")
  case True
  with sound_remove[of k cfg] show ?thesis by (simp add: drop_key_def[abs_def])
qed (simp add: sound_step_def)

lemma InvalidateWhere_ok:
  assumes inv: "cache_inv cfg c" and ord: "dom (ca_items c) \<subseteq> set ord"
  shows "cache_inv cfg (the (InvalidateWhere ord (Some c) (Some p))) \<and>
    abs_cache (the (InvalidateWhere ord (Some c) (Some p))) = spec_inval (\<lambda>e. \<not> p (en_key e)) (abs_cache c)"
proof -
  let ?keep = "\<lambda>e. \<not> (en_key e \<in> set ord \<and> p (en_key e))"
  have "spec_inval ?keep (abs_cache c) = spec_inval (\<lambda>e. \<not> p (en_key e)) (abs_cache c)"
    using keys_items[OF cache_invD(1)[OF inv]] ord by (intro spec_inval_cong) (auto simp: abs_cache_def)
  then show ?thesis
    using inval_inv[OF inv sound_fold[OF sound_remove_if, of "\<lambda>_. p" "\<lambda>k. k" ord, unfolded fold_filter_where[of "\<lambda>k v. p k"]]]
    by (simp only: InvalidateWhere_def option.case option.map option.sel)
qed

lemma Invalidate_ok:
  assumes inv: "cache_inv cfg c" and "ks \<noteq> []"
  shows "cache_inv cfg (the (Invalidate (Some c) ks)) \<and>
    abs_cache (the (Invalidate (Some c) ks)) = spec_inval (\<lambda>e. en_key e \<notin> set ks) (abs_cache c)"
proof -
  have "sound_step (fold (\<lambda>k c. remove_key c k) ks) (filter (\<lambda>e. en_key e \<notin> set ks)) cfg"
    using sound_fold[OF sound_remove, of "\<lambda>k. k" ks] by (simp add: fold_drop_key)
  from inval_inv[OF inv this] show ?thesis using assms(2) by (simp add: Invalidate_def)
qed

lemma Flush_ok:
  assumes "cache_inv cfg c"
  shows "cache_inv cfg (the (Flush (Some c))) \<and> abs_cache (the (Flush (Some c))) = spec_inval (\<lambda>e. False) (abs_cache c)"
proof -
  obtain i where i: "the (Flush (Some c)) = (bump_epoch c)\<lparr>ca_client := i, ca_ll := [], ca_items := Map.empty, ca_weight := 0\<rparr>"
    using Flush_eq[of c] by blast
  show ?thesis unfolding i using cache_invD[OF assms]
    by (simp add: cache_inv_def cache_links_def entries_of_def abs_cache_def spec_inval_def lru_fits_def)
qed

lemma lookup_inv:
  assumes inv: "cache_inv cfg c"
  shows "case Cache_lookup now c k h ver of (r, c') \<Rightarrow> cache_inv cfg c' \<and>
    spec_lookup cfg now k h ver (entries_of c) = (r, entries_of c') \<and> ca_epoch c' = ca_epoch c"
proof -
  obtain r c' where rc: "Cache_lookup now c k h ver = (r, c')" by force
  have k: "spec_lookup cfg now k h ver (entries_of c) = (r, entries_of c')" "cache_links c'" "cache_cfg cfg c'"
    "ca_epoch c' = ca_epoch c"
    using Cache_lookup_ok[OF cache_invD(1,2)[OF inv], of now k h ver] rc by auto
  have w: "sum_list (map en_weight (e # drop_key k (entries_of c))) = sum_list (map en_weight (entries_of c))"
    "length (e # drop_key k (entries_of c)) = length (entries_of c)" if fk: "find_key k (entries_of c) = Some e" for e
  proof -
    obtain el where el: "ca_items c k = Some el" "e = ca_heap c ! el"
      using fk find_key_items[OF cache_invD(1)[OF inv], of k] by auto
    then have mem: "el \<in> set (ca_ll c)" "en_key (ca_heap c ! el) = k"
      using cache_invD(1)[OF inv] by (auto simp: cache_links_def)
    show "sum_list (map en_weight (e # drop_key k (entries_of c))) = sum_list (map en_weight (entries_of c))"
      using weight_drop[OF cache_invD(1)[OF inv] mem(1)] mem el cache_invD(1)[OF inv] by (simp add: cache_links_def)
    have "length (drop_key k (entries_of c)) = length (remove1 el (ca_ll c))"
      using drop_key_remove1[OF cache_invD(1)[OF inv] mem(1)] mem(2) by (metis length_map)
    moreover have "length (ca_ll c) \<noteq> 0" using mem(1) by auto
    ultimately show "length (e # drop_key k (entries_of c)) = length (entries_of c)"
      using mem(1) by (simp add: length_remove1 entries_of_def)
  qed
  have "lru_fits cfg (drop_key k (entries_of c))"
    using fits_filter[OF cache_invD(3)[OF inv] links_weights[OF cache_invD(1)[OF inv]]] by (simp add: drop_key_def)
  moreover have "lru_fits cfg (e # drop_key k (entries_of c))" if "find_key k (entries_of c) = Some e" for e
    using w[OF that] cache_invD(3)[OF inv] unfolding lru_fits_def by presburger
  ultimately have "lru_fits cfg (entries_of c')"
    using k(1) cache_invD(3)[OF inv] by (auto simp: spec_lookup_def split: option.splits if_splits)
  with k rc cache_invD(4)[OF inv] show ?thesis by (simp add: cache_inv_def)
qed

text \<open>The simulation: one operation of the cache is the same operation of the abstract table.\<close>

lemma cache_exec_ok:
  assumes inv: "cache_inv cfg c" and ord: "op_ord_ok c op"
  shows "case cache_exec c op of (r, c') \<Rightarrow> cache_inv cfg c' \<and> lru_exec cfg (abs_cache c) op = (r, abs_cache c')"
proof (cases op)
  case (OpLookup now k h ver)
  then show ?thesis using lookup_inv[OF inv, of now k h ver]
    by (auto simp: abs_cache_def split: prod.splits)
next
  case (OpStore now k v)
  then show ?thesis using store_inv[OF inv] by (simp add: Cache_Store_def abs_cache_def)
next
  case (OpStoreVersioned now k h v)
  then show ?thesis using store_inv[OF inv] by (simp add: StoreVersioned_def abs_cache_def)
next
  case OpLoadEpoch
  then show ?thesis using inv by (simp add: LoadEpoch_def cacheEpoch_def abs_cache_def)
next
  case (OpStoreIfEpoch now k v h e)
  then show ?thesis using store_inv[OF inv] inv by (auto simp: storeIfEpoch_def abs_cache_def)
next
  case (OpStoreBatch now es e)
  then show ?thesis using store_batch_inv[OF inv] inv by (auto simp: storeBatchIfEpoch_def abs_cache_def)
next
  case (OpPeek now k)
  then show ?thesis
    using inv by (simp add: Peek_def abs_cache_def find_key_items[OF cache_invD(1)[OF inv]]
        cfg_values[OF cache_invD(2)[OF inv]] Let_def split: option.split)
next
  case (OpInvalidate ks)
  then show ?thesis using Invalidate_ok[OF inv, of ks] inv by (cases "ks = []") (simp_all add: Invalidate_def)
next
  case (OpInvalidateWhere ord p)
  then show ?thesis using InvalidateWhere_ok[OF inv] ord by simp
next
  case (OpInvalidateWhereValue ord p)
  then show ?thesis using InvalidateWhereValue_ok[OF inv] ord by simp
next
  case OpFlush
  then show ?thesis using Flush_ok[OF inv] by simp
next
  case OpLen
  then show ?thesis using inv by (simp add: Cache_Len_def abs_cache_def entries_of_def)
next
  case OpWeight
  then show ?thesis using inv cache_invD(1)[OF inv] by (simp add: Cache_Weight_def abs_cache_def cache_links_def)
qed

lemma new_inv:
  assumes "Cache_New sprint i cfg = Some c"
  shows "cache_inv cfg c \<and> abs_cache c = \<lparr>lr_entries = [], lr_epoch = 0\<rparr> \<and> ca_client c = i"
  using assms
  by (auto simp: Cache_New_def cache_inv_def cache_links_def cache_cfg_def lru_fits_def entries_of_def abs_cache_def
      split: if_splits)

section \<open>What the callbacks of a client see\<close>

lemma contents_bump [simp]: "contents (bump_epoch c) = contents c"
  by (simp add: contents_def fun_eq_iff)

lemma contents_entries: "cache_links c \<Longrightarrow> contents c k = map_option en_value (find_key k (entries_of c))"
  by (simp add: contents_def find_key_items option.map_comp o_def)

lemma in_contents: "cache_links c \<Longrightarrow> el \<in> set (ca_ll c) \<Longrightarrow> contents c (en_key (ca_heap c ! el)) = Some (en_value (ca_heap c ! el))"
  by (auto simp: contents_def cache_links_def)

lemma contents_None:
  assumes "cache_links c" and "k \<notin> (\<lambda>el. en_key (ca_heap c ! el)) ` set (ca_ll c)"
  shows "contents c k = None"
proof (cases "ca_items c k")
  case (Some el)
  then have "el \<in> set (ca_ll c)" "k = en_key (ca_heap c ! el)" using assms(1) by (auto simp: cache_links_def)
  with assms(2) show ?thesis by (metis imageI)
qed (simp add: contents_def)

lemma find_drop_key [simp]: "find_key k (drop_key k' es) = (if k = k' then None else find_key k es)"
  by (induction es) (auto simp: find_key_def drop_key_def)

lemma find_key_Cons [simp]: "find_key k (e # es) = (if en_key e = k then Some e else find_key k es)"
  by (simp add: find_key_def)

lemma contents_remove:
  assumes "cache_links c" and "el \<in> set (ca_ll c)"
  shows "contents (Cache_removeElement c el) = (contents c)(en_key (ca_heap c ! el) := None)"
  using contents_entries[OF assms(1)] contents_entries[OF removeElement_links[OF assms]] removeElement_entries[OF assms]
  by auto

text \<open>
  A client keeps state derived from the cached values through the two callbacks. It promises that its
  callbacks follow one value leaving or entering the table; it may rely on its state mirroring the
  table after every operation.
\<close>

locale cache_client =
  fixes on_store on_remove :: "'k \<Rightarrow> 'v \<Rightarrow> 'i \<Rightarrow> 'i"
    and mirrors :: "'i \<Rightarrow> ('k \<rightharpoonup> 'v) \<Rightarrow> bool"
  assumes on_remove: "mirrors i m \<Longrightarrow> m k = Some v \<Longrightarrow> mirrors (on_remove k v i) (m(k := None))"
    and on_store: "mirrors i m \<Longrightarrow> m k = None \<Longrightarrow> mirrors (on_store k v i) (m(k \<mapsto> v))"
begin

lemma remove_mirrors:
  assumes l: "cache_links c" and el: "el \<in> set (ca_ll c)" and h: "ca_onRemove c = Some on_remove"
    and m: "mirrors (ca_client c) (contents c)"
  shows "mirrors (ca_client (Cache_removeElement c el)) (contents (Cache_removeElement c el))"
proof -
  let ?e = "ca_heap c ! el"
  have "ca_client (Cache_removeElement c el) = on_remove (en_key ?e) (en_value ?e) (ca_client c)"
    using h by (simp add: Cache_removeElement_def call_onRemove_def Let_def)
  then show ?thesis using on_remove[OF m in_contents[OF l el]] contents_remove[OF l el] by simp
qed

lemma remove_key_mirrors:
  assumes "cache_links c" and "ca_onRemove c = Some on_remove" and "mirrors (ca_client c) (contents c)"
  shows "mirrors (ca_client (remove_key c k)) (contents (remove_key c k))"
  using assms remove_mirrors by (auto simp: remove_key_def cache_links_def split: option.split)

lemma evict_mirrors:
  assumes "cache_links c" and "ca_onRemove c = Some on_remove" and "mirrors (ca_client c) (contents c)"
  shows "mirrors (ca_client (evictOverflow c)) (contents (evictOverflow c))"
  using assms
proof (induction c rule: evictOverflow.induct)
  case (1 c)
  have step: "cache_links (evictOldest c)" "ca_onRemove (evictOldest c) = Some on_remove"
    "mirrors (ca_client (evictOldest c)) (contents (evictOldest c))" if "ca_ll c \<noteq> []"
    using links_nonnil_last(2)[OF 1(2) that] remove_mirrors[OF 1(2) _ 1(3,4)] that 1(3)
    by (simp_all add: evictOldest_def Cache_removeElement_def Let_def)
  show ?case by (subst (1 2) evictOverflow.simps) (use 1 step in auto)
qed

lemma store_mirrors:
  assumes l: "cache_links c" and cfg: "cache_cfg cfg c"
    and h: "cf_OnStore cfg = Some on_store" "cf_OnRemove cfg = Some on_remove"
    and m: "mirrors (ca_client c) (contents c)"
  shows "mirrors (ca_client (storeLocked now c k v hash)) (contents (storeLocked now c k v hash))"
proof -
  have hc: "ca_onStore c = Some on_store" "ca_onRemove c = Some on_remove" using cfg h by (simp_all add: cache_cfg_def)
  show ?thesis
  proof (cases "cf_MaxWeight cfg > 0 \<and> weight_for cfg v > cf_MaxWeight cfg")
    case True
    then show ?thesis using storeLocked_heavy[OF cfg True] remove_key_mirrors[OF l hc(2) m] by simp
  next
    case False
    from storeLocked_light[OF l cfg False] obtain c' where c': "storeLocked now c k v hash = evictOverflow c'"
      "cache_cfg cfg c'" "cache_links c'" "entries_of c' = spec_entry cfg now k v hash # drop_key k (entries_of c)"
      "ca_client c' = client_after c k (clone_for cfg v)" by metis
    have "contents c' = (contents c)(k := None, k \<mapsto> clone_for cfg v)"
      using contents_entries[OF l] contents_entries[OF c'(3)] by (auto simp: c'(4) spec_entry_def)
    moreover have "ca_client c' = on_store k (clone_for cfg v)
      (case contents c k of None \<Rightarrow> ca_client c | Some old \<Rightarrow> on_remove k old (ca_client c))"
      using c'(5) hc by (simp add: client_after_def call_onStore_client call_onRemove_def split: option.split)
    moreover have "mirrors (case contents c k of None \<Rightarrow> ca_client c | Some old \<Rightarrow> on_remove k old (ca_client c))
      ((contents c)(k := None))"
      using m on_remove by (cases "contents c k") (simp_all add: fun_upd_idem)
    ultimately have "mirrors (ca_client c') (contents c')"
      using on_store[where k = k and v = "clone_for cfg v" and m = "(contents c)(k := None)"] by simp
    moreover have "ca_onRemove c' = Some on_remove" using c'(2) h by (simp add: cache_cfg_def)
    ultimately show ?thesis using c'(1,3) evict_mirrors by simp
  qed
qed

lemma fold_mirrors:
  assumes "\<And>x. sound_step (f x) (g x) cfg"
    and "\<And>x c. cache_links c \<Longrightarrow> cache_cfg cfg c \<Longrightarrow> mirrors (ca_client c) (contents c)
      \<Longrightarrow> mirrors (ca_client (f x c)) (contents (f x c))"
    and "cache_links c" and "cache_cfg cfg c" and "mirrors (ca_client c) (contents c)"
  shows "mirrors (ca_client (fold f xs c)) (contents (fold f xs c))"
  using assms(3-5)
proof (induction xs arbitrary: c)
  case (Cons x xs)
  then show ?case using assms(1)[of x] assms(2)[of c x] Cons.IH[of "f x c"] by (simp add: sound_step_def)
qed simp

lemma flush_mirrors:
  assumes "mirrors (ca_client c) m" and "ca_onRemove c = Some on_remove" and "distinct (map (\<lambda>el. en_key (ca_heap c ! el)) els)"
    and "\<And>el. el \<in> set els \<Longrightarrow> m (en_key (ca_heap c ! el)) = Some (en_value (ca_heap c ! el))"
  shows "mirrors (ca_client (fold (\<lambda>el c. call_onRemove c (en_key (ca_heap c ! el)) (en_value (ca_heap c ! el))) els c))
    (\<lambda>k. if k \<in> (\<lambda>el. en_key (ca_heap c ! el)) ` set els then None else m k)"
  using assms
proof (induction els arbitrary: c m)
  case (Cons el els)
  let ?k = "en_key (ca_heap c ! el)" and ?v = "en_value (ca_heap c ! el)"
  have "mirrors (ca_client (call_onRemove c ?k ?v)) (m(?k := None))"
    using on_remove Cons.prems by (simp add: call_onRemove_def)
  moreover have "(m(?k := None)) (en_key (ca_heap c ! p)) = Some (en_value (ca_heap c ! p))" if "p \<in> set els" for p
  proof -
    have "?k \<notin> (\<lambda>el. en_key (ca_heap c ! el)) ` set els" using Cons.prems(3) by simp
    then have "en_key (ca_heap c ! p) \<noteq> ?k" using imageI[OF that, of "\<lambda>el. en_key (ca_heap c ! el)"] by metis
    then show ?thesis using Cons.prems(4)[of p] that by simp
  qed
  ultimately
  have "mirrors (ca_client (fold (\<lambda>el c. call_onRemove c (en_key (ca_heap c ! el)) (en_value (ca_heap c ! el))) els (call_onRemove c ?k ?v)))
    (\<lambda>k. if k \<in> (\<lambda>el. en_key (ca_heap c ! el)) ` set els then None else (m(?k := None)) k)"
    using Cons.IH[of "call_onRemove c ?k ?v" "m(?k := None)"] Cons.prems(2,3) by (simp del: fun_upd_apply)
  moreover have "(\<lambda>k. if k \<in> (\<lambda>el. en_key (ca_heap c ! el)) ` set els then None else (m(?k := None)) k) =
    (\<lambda>k. if k \<in> (\<lambda>el. en_key (ca_heap c ! el)) ` set (el # els) then None else m k)"
    by auto
  ultimately show ?case by simp
qed simp

lemma Flush_mirrors:
  assumes l: "cache_links c" and h: "ca_onRemove c = Some on_remove" and m: "mirrors (ca_client c) (contents c)"
  shows "mirrors (ca_client (the (Flush (Some c)))) (contents (the (Flush (Some c))))"
proof -
  let ?b = "bump_epoch c"
  let ?f = "fold (\<lambda>el c. call_onRemove c (en_key (ca_heap c ! el)) (en_value (ca_heap c ! el))) (ca_ll ?b) ?b"
  have ll: "ca_ll ?b = ca_ll c" "ca_onRemove ?b = ca_onRemove c" by (simp_all add: bump_epoch_def)
  have "mirrors (ca_client ?f) (\<lambda>k. if k \<in> (\<lambda>el. en_key (ca_heap ?b ! el)) ` set (ca_ll ?b) then None else contents c k)"
    by (rule flush_mirrors)
      (use m h entries_keys_distinct[OF l] in_contents[OF l] in \<open>simp_all add: ll entries_of_def o_def\<close>)
  moreover have "(\<lambda>k. if k \<in> (\<lambda>el. en_key (ca_heap ?b ! el)) ` set (ca_ll ?b) then None else contents c k) = Map.empty"
    using contents_None[OF l] by (simp add: ll fun_eq_iff)
  moreover have "contents (the (Flush (Some c))) = Map.empty" "ca_client (the (Flush (Some c))) = ca_client ?f"
    by (simp_all add: Flush_def Let_def contents_def fun_eq_iff)
  ultimately show ?thesis by simp
qed

lemma exec_mirrors:
  assumes inv: "cache_inv cfg c" and h: "cf_OnStore cfg = Some on_store" "cf_OnRemove cfg = Some on_remove"
    and m: "mirrors (ca_client c) (contents c)"
  shows "mirrors (ca_client (snd (cache_exec c op))) (contents (snd (cache_exec c op)))"
proof -
  note lc = cache_invD(1,2)[OF inv]
  have hc: "ca_onRemove c = Some on_remove" if "cache_cfg cfg c" for c :: "('k, 'v, 'i) cache"
    using that h by (simp add: cache_cfg_def)
  have b: "cache_links (bump_epoch c)" "cache_cfg cfg (bump_epoch c)" "mirrors (ca_client (bump_epoch c)) (contents (bump_epoch c))"
    using lc m by simp_all
  have touch: "contents (c\<lparr>ca_ll := ll\<rparr>) = contents c" for ll by (simp add: contents_def fun_eq_iff)
  show ?thesis
  proof (cases op)
    case (OpLookup now k hash ver)
    then show ?thesis using m touch remove_mirrors[OF lc(1) _ hc[OF lc(2)] m] lc(1)
      by (auto simp: Cache_lookup_def Let_def cache_links_def split: option.split)
  next
    case (OpStore now k v)
    then show ?thesis using store_mirrors[OF lc h m] by (simp add: Cache_Store_def)
  next
    case (OpStoreVersioned now k hash v)
    then show ?thesis using store_mirrors[OF lc h m] by (simp add: StoreVersioned_def)
  next
    case (OpStoreIfEpoch now k v hash e)
    then show ?thesis using store_mirrors[OF lc h m] m by (simp add: storeIfEpoch_def)
  next
    case (OpStoreBatch now es e)
    have "mirrors (ca_client (fold (\<lambda>(k, v, h) c. storeLocked now c k v h) es c))
      (contents (fold (\<lambda>(k, v, h) c. storeLocked now c k v h) es c))"
      by (rule fold_mirrors[where g = "\<lambda>(k, v, h). spec_store cfg now k v h", OF _ _ lc m])
        (use sound_store store_mirrors h in \<open>auto split: prod.split\<close>)
    then show ?thesis using OpStoreBatch m by (simp add: storeBatchIfEpoch_def)
  next
    case (OpInvalidate ks)
    have "mirrors (ca_client (fold (\<lambda>k c. remove_key c k) ks (bump_epoch c))) (contents (fold (\<lambda>k c. remove_key c k) ks (bump_epoch c)))"
      by (rule fold_mirrors[OF sound_remove _ b]) (use remove_key_mirrors hc in auto)
    then show ?thesis using OpInvalidate m by (simp add: Invalidate_def)
  next
    case (OpInvalidateWhere ord p)
    have "mirrors (ca_client (fold (\<lambda>k c. if p k then remove_key c k else c) ord (bump_epoch c)))
      (contents (fold (\<lambda>k c. if p k then remove_key c k else c) ord (bump_epoch c)))"
      by (rule fold_mirrors[OF sound_remove_if _ b]) (use remove_key_mirrors hc in auto)
    then show ?thesis using OpInvalidateWhere by (simp add: InvalidateWhere_def)
  next
    case (OpInvalidateWhereValue ord p)
    have "mirrors (ca_client (fold (\<lambda>k c. case ca_items c k of None \<Rightarrow> c
        | Some el \<Rightarrow> if p k (en_value (ca_heap c ! el)) then Cache_removeElement c el else c) ord (bump_epoch c)))
      (contents (fold (\<lambda>k c. case ca_items c k of None \<Rightarrow> c
        | Some el \<Rightarrow> if p k (en_value (ca_heap c ! el)) then Cache_removeElement c el else c) ord (bump_epoch c)))"
      by (rule fold_mirrors[OF sound_remove_where _ b])
        (use remove_mirrors hc in \<open>auto simp: cache_links_def split: option.split\<close>)
    then show ?thesis using OpInvalidateWhereValue by (simp add: InvalidateWhereValue_def)
  next
    case OpFlush
    then show ?thesis using Flush_mirrors[OF lc(1) hc[OF lc(2)] m] by simp
  qed (use m in simp_all)
qed

end

end
