(* ===== verification/Dialog_Snapshot.thy ===== *)
theory Dialog_Snapshot
  imports Cache_Spec Update_Events Go_Text
begin

text \<open>
  The cache of materialised dialog lists (\<open>internal/app/dialogs/list_snapshot_cache.go\<close>): one
  snapshot per account in a read-model cache, an inverted index from channels to the accounts whose
  snapshot shows them, kept by the cache's callbacks, and the pages cut out of a snapshot.

  A dialog has the fields this code reads; the fields it only copies are the type parameter
  \<open>'d\<close>, and a user is its id. A Go set \<open>map[K]struct{}\<close> is a set, and the order in which its keys
  are visited is an argument \<open>ord\<close>. A nil snapshot is \<open>None\<close>. The index has a mutex of its
  own. The callbacks take it inside the cache lock, so a cache operation and its callbacks are one step
  here. \<open>invalidateChannel\<close> reads the index and then invalidates, and \<open>flush\<close> empties the cache and then
  resets the index, each in two critical sections: the index read is an argument of
  \<open>invalidateChannel\<close>, taken in a state that may lie before the cache it invalidates, and the second
  half of a flush is \<open>flush_index\<close>. Not covered is an index read of \<open>invalidateChannel\<close> that falls
  inside a cache operation, between its callbacks.
\<close>

section \<open>Data\<close>

record archive_summary =
  as_TopPeer :: peer
  as_TopMessage :: int
  as_UnreadPeersCount :: int
  as_UnreadMessagesCount :: int
  as_Pinned :: bool

record ('d, 'v) dialogListSnapshot =
  ds_dialogs :: "'d dialog list"
  ds_messages :: "'v message list"
  ds_users :: "int list"
  ds_hash :: int
  ds_state :: update_state
  ds_archive :: "archive_summary option"
  ds_channelIDs :: "int list"
  ds_ownerHash :: int
  ds_dependencyHash :: int

text \<open>The key struct holds the account id only, so a key is that id.\<close>

record snapshot_index =
  ix_channelKeys :: "int \<rightharpoonup> int set"
  ix_keyChannels :: "int \<rightharpoonup> int list"

type_synonym ('d, 'v) snapshot_cache = "(int, ('d, 'v) dialogListSnapshot option, snapshot_index) cache"

definition dialogListSnapshotTTL :: int where "dialogListSnapshotTTL = 5 * 60 * 1000000000"
definition dialogListSnapshotMaxEntries :: int where "dialogListSnapshotMaxEntries = 10000"
definition dialogListSnapshotMaxHeaders :: int where "dialogListSnapshotMaxHeaders = 1000000"

section \<open>The inverted index\<close>

definition empty_index :: snapshot_index where
  "empty_index = \<lparr>ix_channelKeys = Map.empty, ix_keyChannels = Map.empty\<rparr>"

definition unindex_channel :: "int \<Rightarrow> int \<Rightarrow> snapshot_index \<Rightarrow> snapshot_index" where
  "unindex_channel key channelID ix =
    (let keys = mget {} (ix_channelKeys ix) channelID - {key} in
     if keys = {} then ix\<lparr>ix_channelKeys := (ix_channelKeys ix)(channelID := None)\<rparr>
     else ix\<lparr>ix_channelKeys := (ix_channelKeys ix)(channelID \<mapsto> keys)\<rparr>)"

definition unindexSnapshotLocked :: "int \<Rightarrow> snapshot_index \<Rightarrow> snapshot_index" where
  "unindexSnapshotLocked key ix =
    (let ix = fold (unindex_channel key) (mget [] (ix_keyChannels ix) key) ix
     in ix\<lparr>ix_keyChannels := (ix_keyChannels ix)(key := None)\<rparr>)"

definition unindexSnapshot :: "int \<Rightarrow> ('d, 'v) dialogListSnapshot option \<Rightarrow> snapshot_index \<Rightarrow> snapshot_index" where
  "unindexSnapshot key snap ix = unindexSnapshotLocked key ix"

definition index_channel :: "int \<Rightarrow> int \<Rightarrow> snapshot_index \<Rightarrow> snapshot_index" where
  "index_channel key channelID ix =
    ix\<lparr>ix_channelKeys := (ix_channelKeys ix)(channelID \<mapsto> insert key (mget {} (ix_channelKeys ix) channelID))\<rparr>"

definition indexSnapshot :: "int \<Rightarrow> ('d, 'v) dialogListSnapshot option \<Rightarrow> snapshot_index \<Rightarrow> snapshot_index" where
  "indexSnapshot key snap ix =
    (let ix = unindexSnapshotLocked key ix in
     case snap of
       None \<Rightarrow> ix
     | Some s \<Rightarrow>
         if ds_channelIDs s = [] then ix
         else fold (index_channel key) (ds_channelIDs s)
                (ix\<lparr>ix_keyChannels := (ix_keyChannels ix)(key \<mapsto> ds_channelIDs s)\<rparr>))"

section \<open>The cache\<close>

definition snapshot_weight :: "('d, 'v) dialogListSnapshot option \<Rightarrow> int" where
  "snapshot_weight snap =
    (case snap of
       None \<Rightarrow> 1
     | Some s \<Rightarrow>
         let memberProjections = int (length (filter dg_ChannelMember (ds_dialogs s)));
             weight = int (length (ds_dialogs s)) + memberProjections * 2 + int (length (ds_messages s)) * 4
               + int (length (ds_users s)) * 2
         in if weight < 1 then 1 else weight)"

definition snapshot_config :: "int \<Rightarrow> int \<Rightarrow> int \<Rightarrow> (int, ('d, 'v) dialogListSnapshot option, snapshot_index) cache_config" where
  "snapshot_config maxEntries maxHeaders ttl =
    (let maxEntries = (if maxEntries \<le> 0 then dialogListSnapshotMaxEntries else maxEntries);
         maxHeaders = (if maxHeaders \<le> 0 then dialogListSnapshotMaxHeaders else maxHeaders);
         ttl = (if ttl \<le> 0 then dialogListSnapshotTTL else ttl)
     in \<lparr>cf_MaxEntries = maxEntries, cf_MaxWeight = maxHeaders, cf_Weight = Some snapshot_weight, cf_TTL = ttl,
         cf_Clone = None, cf_KeyString = None, cf_OnStore = Some indexSnapshot, cf_OnRemove = Some unindexSnapshot\<rparr>)"

definition newDialogListSnapshotCache :: "(int \<Rightarrow> string) \<Rightarrow> int \<Rightarrow> int \<Rightarrow> int \<Rightarrow> ('d, 'v) snapshot_cache option" where
  "newDialogListSnapshotCache sprint maxEntries maxHeaders ttl =
    Cache_New sprint empty_index (snapshot_config maxEntries maxHeaders ttl)"

definition invalidateOwner :: "int list \<Rightarrow> ('d, 'v) snapshot_cache \<Rightarrow> int \<Rightarrow> ('d, 'v) snapshot_cache" where
  "invalidateOwner ord c userID =
    (if userID = 0 then c else the (InvalidateWhere ord (Some c) (Some (\<lambda>key. key = userID))))"

text \<open>\<open>ix\<close> is the index when it was read, \<open>c\<close> the cache when \<open>Invalidate\<close> takes its lock.\<close>

definition invalidateChannel ::
  "int list \<Rightarrow> snapshot_index \<Rightarrow> ('d, 'v) snapshot_cache \<Rightarrow> int \<Rightarrow> ('d, 'v) snapshot_cache" where
  "invalidateChannel ord ix c channelID =
    (if channelID = 0 then c
     else let indexed = mget {} (ix_channelKeys ix) channelID;
              keys = filter (\<lambda>key. key \<in> indexed) ord
          in the (Invalidate (Some c) keys))"

definition flush_index :: "('d, 'v) snapshot_cache \<Rightarrow> ('d, 'v) snapshot_cache" where
  "flush_index c = c\<lparr>ca_client := empty_index\<rparr>"

text \<open>A flush whose halves no other operation separates.\<close>

definition snapshot_flush :: "('d, 'v) snapshot_cache \<Rightarrow> ('d, 'v) snapshot_cache" where
  "snapshot_flush c = flush_index (the (Flush (Some c)))"

text \<open>The channels a snapshot shows, in order and without repetition.\<close>

fun channel_ids_loop :: "int list \<Rightarrow> 'd dialog list \<Rightarrow> int list" where
  "channel_ids_loop seen [] = []"
| "channel_ids_loop seen (d # ds) =
    (if peer_Type (dg_Peer d) \<noteq> PeerTypeChannel \<or> peer_ID (dg_Peer d) = 0 then channel_ids_loop seen ds
     else if peer_ID (dg_Peer d) \<in> set seen then channel_ids_loop seen ds
     else peer_ID (dg_Peer d) # channel_ids_loop (peer_ID (dg_Peer d) # seen) ds)"

section \<open>Pages of a snapshot\<close>

record dialog_filter =
  df_PinnedOnly :: bool
  df_ExcludePinned :: bool
  df_HasFolderID :: bool
  df_FolderID :: int
  df_Folder :: bool
  df_OffsetDate :: int
  df_OffsetID :: int
  df_HasOffsetPeer :: bool
  df_OffsetPeer :: peer
  df_Limit :: int


text \<open>\<open>None\<close> when the filter is not served from snapshots; a custom folder is the flag \<open>df_Folder\<close>.\<close>

definition dialogSnapshotKey :: "int \<Rightarrow> dialog_filter \<Rightarrow> int option" where
  "dialogSnapshotKey userID filt =
    (if userID = 0 \<or> df_Folder filt then None
     else if df_HasFolderID filt \<and> df_FolderID filt \<noteq> DialogMainFolderID \<and> df_FolderID filt \<noteq> DialogArchiveFolderID
     then None else Some userID)"

definition variant_folder :: "dialog_filter \<Rightarrow> int" where
  "variant_folder filt = (if df_HasFolderID filt then df_FolderID filt else DialogMainFolderID)"

definition dialogListSnapshotVariant :: "'d dialog list \<Rightarrow> dialog_filter \<Rightarrow> 'd dialog list" where
  "dialogListSnapshotVariant dialogs filt =
    filter (\<lambda>d. \<not> (dg_FolderID d \<noteq> variant_folder filt \<or> df_PinnedOnly filt \<and> \<not> dg_Pinned d \<or>
                   df_ExcludePinned filt \<and> dg_Pinned d)) dialogs"

definition dialogSnapshotVariantIdentity :: "dialog_filter \<Rightarrow> int" where
  "dialogSnapshotVariantIdentity filt =
    (let identity = variant_folder filt + 1;
         identity = (if df_PinnedOnly filt then or identity (2 ^ 8) else identity)
     in if df_ExcludePinned filt then or identity (2 ^ 9) else identity)"

definition no_offset :: "dialog_filter \<Rightarrow> bool" where
  "no_offset filt \<longleftrightarrow> df_OffsetID filt = 0 \<and> df_OffsetDate filt = 0 \<and> \<not> df_HasOffsetPeer filt"

definition dialogSnapshotIncludesArchiveSummary :: "dialog_filter \<Rightarrow> bool" where
  "dialogSnapshotIncludesArchiveSummary filt =
    (if df_HasFolderID filt \<and> df_FolderID filt \<noteq> DialogMainFolderID then False
     else if df_ExcludePinned filt then False else no_offset filt)"

definition dialogAfterSnapshotOffset :: "'d dialog \<Rightarrow> dialog_filter \<Rightarrow> bool" where
  "dialogAfterSnapshotOffset d filt =
    (if df_OffsetDate filt > 0 \<and> dg_TopMessageDate d \<noteq> df_OffsetDate filt
     then dg_TopMessageDate d < df_OffsetDate filt
     else if df_OffsetDate filt > 0 \<and> df_OffsetID filt \<le> 0 then False
     else if df_OffsetID filt > 0
     then (if dg_TopMessage d \<noteq> df_OffsetID filt then dg_TopMessage d < df_OffsetID filt
           else df_HasOffsetPeer filt \<and> peer_ID (dg_Peer d) < peer_ID (df_OffsetPeer filt))
     else df_HasOffsetPeer filt \<and> dg_Peer d \<noteq> df_OffsetPeer filt)"

definition at_offset :: "dialog_filter \<Rightarrow> 'd dialog \<Rightarrow> bool" where
  "at_offset filt d \<longleftrightarrow> dg_Peer d = df_OffsetPeer filt \<and>
    (df_OffsetID filt = 0 \<or> dg_TopMessage d = df_OffsetID filt) \<and>
    (df_OffsetDate filt = 0 \<or> dg_TopMessageDate d = df_OffsetDate filt)"

text \<open>The index of the first element a loop stops at.\<close>

fun index_of :: "('a \<Rightarrow> bool) \<Rightarrow> 'a list \<Rightarrow> nat option" where
  "index_of p [] = None"
| "index_of p (x # xs) = (if p x then Some 0 else map_option Suc (index_of p xs))"

definition dialogSnapshotPageStart :: "'d dialog list \<Rightarrow> dialog_filter \<Rightarrow> nat" where
  "dialogSnapshotPageStart dialogs filt =
    (if no_offset filt then 0
     else case (if df_HasOffsetPeer filt then index_of (at_offset filt) dialogs else None) of
       Some i \<Rightarrow> i + 1
     | None \<Rightarrow>
         (case index_of (\<lambda>d. dialogAfterSnapshotOffset d filt) dialogs of Some i \<Rightarrow> i | None \<Rightarrow> length dialogs))"

text \<open>FNV-1a over the little-endian bytes of the values (\<open>internal/app/readmodel/hash.go\<close>).\<close>

definition MixHashes :: "int list \<Rightarrow> int" where
  "MixHashes values =
    (let h = fold (\<lambda>v h. fnv1a h (le_bytes v)) values fnv1a_offset;
         s = uint (and h 0x7fffffffffffffff)
     in if s = 0 then 1 else s)"

record ('d, 'v) dialog_page =
  pg_Count :: int
  pg_Hash :: int
  pg_State :: update_state
  pg_Dialogs :: "'d dialog list"
  pg_ArchiveSummary :: "archive_summary option"
  pg_Messages :: "'v message list"
  pg_Users :: "int list"

definition appendDialogSnapshotPayload :: "('d, 'v) dialogListSnapshot \<Rightarrow> peer list \<Rightarrow> ('d, 'v) dialog_page \<Rightarrow> ('d, 'v) dialog_page" where
  "appendDialogSnapshotPayload snap peers out =
    (if peers = [] then out
     else let keep = set (filter (\<lambda>p. peer_Type p \<noteq> PeerTypeNone \<and> peer_ID p \<noteq> 0) peers);
              userIDs = peer_ID ` {p \<in> keep. peer_Type p = PeerTypeUser}
          in out\<lparr>pg_Messages := pg_Messages out @ filter (\<lambda>m. msg_Peer m \<in> keep) (ds_messages snap),
                 pg_Users := pg_Users out @ filter (\<lambda>u. u \<in> userIDs) (ds_users snap)\<rparr>)"

definition page_limit :: "dialog_filter \<Rightarrow> nat" where
  "page_limit filt = (if df_Limit filt \<le> 0 \<or> df_Limit filt > 100 then 100 else nat (df_Limit filt))"

definition page_archive :: "('d, 'v) dialogListSnapshot \<Rightarrow> dialog_filter \<Rightarrow> archive_summary option" where
  "page_archive snap filt =
    (if dialogSnapshotIncludesArchiveSummary filt
     then (case ds_archive snap of
             None \<Rightarrow> None
           | Some s \<Rightarrow> if \<not> df_PinnedOnly filt \<or> as_Pinned s then Some s else None)
     else None)"

definition dialogListSnapshotPageHeaders :: "('d, 'v) dialogListSnapshot \<Rightarrow> dialog_filter \<Rightarrow> ('d, 'v) dialog_page" where
  "dialogListSnapshotPageHeaders snap filt =
    (let dialogs = dialogListSnapshotVariant (ds_dialogs snap) filt;
         start = dialogSnapshotPageStart dialogs filt;
         end' = min (start + page_limit filt) (length dialogs);
         start = min start end';
         hash = MixHashes [ds_hash snap, dialogSnapshotVariantIdentity filt];
         hash = (if ds_ownerHash snap \<noteq> 0 \<and> ds_dependencyHash snap \<noteq> 0
                 then MixHashes [hash, ds_ownerHash snap, ds_dependencyHash snap] else hash);
         archive = page_archive snap filt;
         out = \<lparr>pg_Count = int (length dialogs), pg_Hash = hash, pg_State = ds_state snap,
                pg_Dialogs = take (end' - start) (drop start dialogs), pg_ArchiveSummary = archive,
                pg_Messages = [], pg_Users = []\<rparr>;
         peers = map dg_Peer (pg_Dialogs out) @
           (case archive of
              None \<Rightarrow> []
            | Some s \<Rightarrow> if peer_ID (as_TopPeer s) \<noteq> 0 then [as_TopPeer s] else [])
     in appendDialogSnapshotPayload snap peers out)"

end
