(* ===== verification/Cache_Wrap.thy ===== *)
theory Cache_Wrap
  imports Cache_Spec
begin

text \<open>
  The read-model cache keeps its aggregate weight in an \<open>int64\<close>. Here the operations that change it
  (\<open>removeElement\<close>, \<open>evictOldest\<close>, \<open>evictOverflow\<close>, \<open>storeLocked\<close> of
  \<open>internal/readmodelcache/cache.go\<close>) are written a second time with the wrap-around of every \<open>+=\<close> and
  \<open>-=\<close>. They agree with the exact ones of theory \<open>Readmodel_Cache\<close> in every state whose
  weight is below \<open>2\<^sup>6\<^sup>2\<close>, when \<open>MaxWeight\<close> is below \<open>2\<^sup>6\<^sup>2\<close> too (\<open>storeLocked64_exact\<close>); with larger
  limits the weight can wrap and nothing is evicted (\<open>storeLocked64_overflows\<close>).
\<close>

section \<open>The operations at 64 bits\<close>

definition removeElement64 :: "('k, 'v, 'i) cache \<Rightarrow> nat \<Rightarrow> ('k, 'v, 'i) cache" where
  "removeElement64 c el =
    (let ent = ca_heap c ! el;
         c = call_onRemove c (en_key ent) (en_value ent)
     in c\<lparr>ca_weight := i64 (ca_weight c - en_weight ent),
          ca_ll := remove1 el (ca_ll c),
          ca_items := (ca_items c)(en_key ent := None)\<rparr>)"

definition evictOldest64 :: "('k, 'v, 'i) cache \<Rightarrow> ('k, 'v, 'i) cache" where
  "evictOldest64 c = (if ca_ll c = [] then c else removeElement64 c (last (ca_ll c)))"

function evictOverflow64 :: "('k, 'v, 'i) cache \<Rightarrow> ('k, 'v, 'i) cache" where
  "evictOverflow64 c =
    (if int (length (ca_ll c)) > ca_cap c \<or> (ca_maxWeight c > 0 \<and> ca_weight c > ca_maxWeight c)
     then (if ca_ll c = [] then c else evictOverflow64 (evictOldest64 c))
     else c)"
  by auto
termination
  by (relation "measure (\<lambda>c. length (ca_ll c))")
     (auto simp: evictOldest64_def removeElement64_def Let_def length_remove1)

declare evictOverflow64.simps [simp del]

definition storeLocked64 :: "int \<Rightarrow> ('k, 'v, 'i) cache \<Rightarrow> 'k \<Rightarrow> 'v \<Rightarrow> int \<Rightarrow> ('k, 'v, 'i) cache" where
  "storeLocked64 now c key v hash =
    (let weight = valueWeight c v in
     if ca_maxWeight c > 0 \<and> weight > ca_maxWeight c
     then (case ca_items c key of None \<Rightarrow> c | Some el \<Rightarrow> removeElement64 c el)
     else case ca_items c key of
       Some el \<Rightarrow>
         let ent = ca_heap c ! el;
             c = call_onRemove c (en_key ent) (en_value ent);
             c = c\<lparr>ca_weight := i64 (ca_weight c - en_weight ent)\<rparr>;
             ent' = ent\<lparr>en_value := cloneValue c v, en_hash := hash,
                        en_expireAt := cache_expireAt c now, en_weight := weight\<rparr>;
             c = c\<lparr>ca_weight := i64 (ca_weight c + weight),
                   ca_heap := (ca_heap c)[el := ent']\<rparr>;
             c = call_onStore c (en_key ent') (en_value ent');
             c = c\<lparr>ca_ll := el # remove1 el (ca_ll c)\<rparr>
         in evictOverflow64 c
     | None \<Rightarrow>
         let ent = \<lparr>en_key = key, en_value = cloneValue c v, en_hash = hash,
                    en_expireAt = cache_expireAt c now, en_weight = weight\<rparr>;
             el = length (ca_heap c);
             c = c\<lparr>ca_heap := ca_heap c @ [ent], ca_ll := el # ca_ll c,
                   ca_items := (ca_items c)(key \<mapsto> el), ca_weight := i64 (ca_weight c + weight)\<rparr>;
             c = call_onStore c (en_key ent) (en_value ent)
         in evictOverflow64 c)"

section \<open>When they are exact\<close>

abbreviation el_weight :: "('k, 'v, 'i) cache \<Rightarrow> nat \<Rightarrow> int" where
  "el_weight c el \<equiv> en_weight (ca_heap c ! el)"

text \<open>The weight is the sum over the list, and the sum is an \<open>int64\<close>.\<close>

definition weight_fits :: "('k, 'v, 'i) cache \<Rightarrow> bool" where
  "weight_fits c \<longleftrightarrow> ca_weight c = sum_list (map (el_weight c) (ca_ll c)) \<and>
     (\<forall>el \<in> set (ca_ll c). 0 \<le> el_weight c el) \<and> ca_weight c < 2 ^ 63"

lemma weight_fits_remove:
  assumes "weight_fits c" and "el \<in> set (ca_ll c)"
  shows "0 \<le> ca_weight c - el_weight c el" and "ca_weight c - el_weight c el \<le> ca_weight c"
    and "ca_weight c - el_weight c el = sum_list (map (el_weight c) (remove1 el (ca_ll c)))"
proof -
  show s: "ca_weight c - el_weight c el = sum_list (map (el_weight c) (remove1 el (ca_ll c)))"
    using assms sum_list_map_remove1[OF assms(2), of "el_weight c"] by (simp add: weight_fits_def)
  have "0 \<le> sum_list (map (el_weight c) (remove1 el (ca_ll c)))"
    using assms(1) notin_set_remove1[of _ "ca_ll c" el] by (intro sum_list_nonneg) (auto simp: weight_fits_def)
  with s show "0 \<le> ca_weight c - el_weight c el" by simp
  show "ca_weight c - el_weight c el \<le> ca_weight c" using assms by (simp add: weight_fits_def)
qed

lemma removeElement64_exact:
  assumes "weight_fits c" and "el \<in> set (ca_ll c)"
  shows "removeElement64 c el = Cache_removeElement c el"
proof -
  have "is_i64 (ca_weight c - el_weight c el)"
    using weight_fits_remove(1,2)[OF assms] assms(1) by (auto simp: is_i64_def weight_fits_def)
  then show ?thesis by (simp add: removeElement64_def Cache_removeElement_def Let_def)
qed

lemma removeElement_fits:
  assumes "weight_fits c" and "el \<in> set (ca_ll c)"
  shows "weight_fits (Cache_removeElement c el)"
  using weight_fits_remove[OF assms] assms(1) notin_set_remove1[of _ "ca_ll c" el]
  by (auto simp: weight_fits_def Cache_removeElement_def Let_def)

lemma evictOverflow64_exact: "weight_fits c \<Longrightarrow> evictOverflow64 c = evictOverflow c"
proof (induction c rule: evictOverflow.induct)
  case (1 c)
  have "evictOldest64 c = evictOldest c" and "ca_ll c \<noteq> [] \<Longrightarrow> weight_fits (evictOldest c)"
    using removeElement64_exact[OF 1(2)] removeElement_fits[OF 1(2)]
    by (auto simp: evictOldest64_def evictOldest_def)
  then show ?case using 1(1) evictOverflow64.simps[of c] evictOverflow.simps[of c] by auto
qed

lemma links_weight_fits: "cache_links c \<Longrightarrow> ca_weight c < 2 ^ 63 \<Longrightarrow> weight_fits c"
  by (force simp: weight_fits_def cache_links_def entries_of_def comp_def)

lemma store_fits_new:
  assumes "cache_links c" and "0 \<le> ca_weight c + w" and "ca_weight c + w < 2 ^ 63" and "0 \<le> w" and "en_weight e = w"
    and "ca_heap c' = ca_heap c @ [e]" and "ca_ll c' = length (ca_heap c) # ca_ll c" and "ca_weight c' = ca_weight c + w"
  shows "weight_fits c'"
proof -
  have "el_weight c' el = el_weight c el \<and> 0 \<le> el_weight c el" if "el \<in> set (ca_ll c)" for el
    using assms(1,6) that by (force simp: cache_links_def entries_of_def nth_append)
  then show ?thesis using assms
    by (auto simp: weight_fits_def cache_links_def entries_of_def comp_def cong: map_cong)
qed

lemma store_fits_known:
  assumes "cache_links c" and "el \<in> set (ca_ll c)" and "ca_weight c - el_weight c el + w < 2 ^ 63" and "0 \<le> w" and "en_weight e = w"
    and "ca_heap c' = (ca_heap c)[el := e]" and "ca_ll c' = el # remove1 el (ca_ll c)"
    and "ca_weight c' = ca_weight c - el_weight c el + w" and "ca_weight c < 2 ^ 63"
  shows "weight_fits c'"
proof -
  have f: "weight_fits c" using assms(1,9) by (rule links_weight_fits)
  have el: "el < length (ca_heap c)" "el \<notin> set (remove1 el (ca_ll c))"
    using assms(1,2) by (auto simp: cache_links_def)
  have "el_weight c' p = el_weight c p \<and> 0 \<le> el_weight c p" if "p \<in> set (remove1 el (ca_ll c))" for p
  proof -
    have "p \<noteq> el" "p \<in> set (ca_ll c)" using that el(2) notin_set_remove1[of p "ca_ll c" el] by auto
    then show ?thesis using f assms(6) by (simp add: weight_fits_def)
  qed
  then show ?thesis using assms el weight_fits_remove(3)[OF f assms(2)]
    by (auto simp: weight_fits_def cong: map_cong)
qed

theorem storeLocked64_exact:
  assumes inv: "cache_links c" and cfg: "cache_cfg cfg c" and w: "ca_weight c < 2 ^ 62" and m: "cf_MaxWeight cfg < 2 ^ 62"
  shows "storeLocked64 now c k v h = storeLocked now c k v h"
proof -
  have fits: "weight_fits c" using links_weight_fits[OF inv] w by simp
  have nonneg: "0 \<le> ca_weight c"
    using fits by (auto simp: weight_fits_def intro!: sum_list_nonneg)
  have mw: "ca_maxWeight c = cf_MaxWeight cfg" and wt: "valueWeight c v = weight_for cfg v" "1 \<le> weight_for cfg v"
    using cfg cfg_values[OF cfg] by (simp_all add: cache_cfg_def)
  have el: "el \<in> set (ca_ll c)" if "ca_items c k = Some el" for el
    using inv that by (simp add: cache_links_def)
  show ?thesis
  proof (cases "cf_MaxWeight cfg > 0 \<and> weight_for cfg v > cf_MaxWeight cfg")
    case True
    then show ?thesis using removeElement64_exact[OF fits] el
      by (auto simp: storeLocked64_def storeLocked_def mw wt Let_def split: option.splits)
  next
    case light: False
    then have sum: "ca_weight c + weight_for cfg v < 2 ^ 63"
      using w m by (cases "cf_MaxWeight cfg > 0") (auto simp: weight_for_def)
    show ?thesis
    proof (cases "ca_items c k")
      case None
      have "is_i64 (ca_weight c + weight_for cfg v)" using nonneg sum wt by (simp add: is_i64_def)
      moreover have "evictOverflow64 c' = evictOverflow c'"
        if "ca_heap c' = ca_heap c @ [e]" "ca_ll c' = length (ca_heap c) # ca_ll c"
          "ca_weight c' = ca_weight c + weight_for cfg v" "en_weight e = weight_for cfg v"
        for c' :: "('a, 'b, 'c) cache" and e
        by (rule evictOverflow64_exact, rule store_fits_new[OF inv _ sum _ that(4,1,2,3)]) (use nonneg wt in auto)
      ultimately show ?thesis using None light by (auto simp: storeLocked64_def storeLocked_def mw wt Let_def)
    next
      case (Some p)
      let ?r = "ca_weight c - el_weight c p"
      have r: "0 \<le> ?r" "?r \<le> ca_weight c" using weight_fits_remove[OF fits el[OF Some]] by auto
      have "is_i64 ?r" "is_i64 (?r + weight_for cfg v)" using r sum wt w by (auto simp: is_i64_def)
      moreover have "evictOverflow64 c' = evictOverflow c'"
        if "ca_heap c' = (ca_heap c)[p := e]" "ca_ll c' = p # remove1 p (ca_ll c)"
          "ca_weight c' = ?r + weight_for cfg v" "en_weight e = weight_for cfg v"
        for c' :: "('a, 'b, 'c) cache" and e
        by (rule evictOverflow64_exact, rule store_fits_known[OF inv el[OF Some] _ _ that(4,1,2,3)]) (use r sum wt w in auto)
      ultimately show ?thesis using Some light
        by (auto simp: storeLocked64_def storeLocked_def mw wt Let_def cloneValue_def cache_expireAt_def cong: option.case_cong)
    qed
  qed
qed

section \<open>The weight of an unweighted cache\<close>

definition unit_weights :: "('k, 'v, 'i) cache_config \<Rightarrow> ('k, 'v) lru_entry list \<Rightarrow> bool" where
  "unit_weights cfg es \<longleftrightarrow> (cf_MaxWeight cfg \<le> 0 \<longrightarrow> (\<forall>e \<in> set es. en_weight e = 1))"

lemma fit_prefix_subset: "set (fit_prefix n b w es) \<subseteq> set es"
  by (induction n b w es rule: fit_prefix.induct) auto

lemma unit_weights_mono: "unit_weights cfg es \<Longrightarrow> set fs \<subseteq> set es \<Longrightarrow> unit_weights cfg fs"
  by (auto simp: unit_weights_def)

lemma spec_store_unit: "unit_weights cfg es \<Longrightarrow> unit_weights cfg (spec_store cfg now k v h es)"
proof -
  assume u: "unit_weights cfg es"
  then have "unit_weights cfg (spec_entry cfg now k v h # drop_key k es)"
    by (auto simp: unit_weights_def drop_key_def spec_entry_def weight_for_def)
  then show ?thesis using u unit_weights_mono[OF _ fit_prefix_subset] unit_weights_mono[of cfg es "drop_key k es"]
    unfolding spec_store_def by (auto simp: drop_key_def simp del: fit_prefix.simps)
qed

lemma spec_lookup_unit: "unit_weights cfg es \<Longrightarrow> unit_weights cfg (snd (spec_lookup cfg now k h ver es))"
  by (auto simp: unit_weights_def spec_lookup_def drop_key_def find_key_def find_Some_iff split: option.splits)

lemma store_fold_unit:
  "unit_weights cfg es \<Longrightarrow> unit_weights cfg (fold (\<lambda>(k, v, h). spec_store cfg now k v h) xs es)"
  by (induction xs arbitrary: es) (auto simp: spec_store_unit)

lemma spec_inval_unit: "unit_weights cfg (lr_entries l) \<Longrightarrow> unit_weights cfg (lr_entries (spec_inval keep l))"
  by (simp add: unit_weights_def spec_inval_def)

lemma lru_exec_unit: "unit_weights cfg (lr_entries l) \<Longrightarrow> unit_weights cfg (lr_entries (snd (lru_exec cfg l op)))"
  by (cases op) (auto simp: spec_store_unit store_fold_unit spec_inval_unit split: prod.split
      dest: spec_lookup_unit[THEN subst[of _ _ "\<lambda>x. unit_weights cfg (snd x)", rotated]])

text \<open>Below the limits, a state the cache reaches has room for one more value.\<close>

lemma reached_weight:
  assumes "cache_inv cfg c" and "unit_weights cfg (entries_of c)" and "cf_MaxWeight cfg < 2 ^ 62" and "cf_MaxEntries cfg < 2 ^ 62"
  shows "0 \<le> ca_weight c" and "ca_weight c < 2 ^ 62"
proof -
  have w: "ca_weight c = sum_list (map en_weight (entries_of c))" "\<forall>e \<in> set (entries_of c). 1 \<le> en_weight e"
    and fit: "lru_fits cfg (entries_of c)"
    using assms(1) by (simp_all add: cache_inv_def cache_links_def)
  show "0 \<le> ca_weight c" unfolding w(1) using w(2) by (intro sum_list_nonneg) fastforce
  show "ca_weight c < 2 ^ 62"
  proof (cases "cf_MaxWeight cfg > 0")
    case True
    then show ?thesis using fit w(1) assms(3) by (simp add: lru_fits_def)
  next
    case False
    then have "map en_weight (entries_of c) = replicate (length (entries_of c)) 1"
      using assms(2) by (auto simp: unit_weights_def list_eq_iff_nth_eq)
    then have "ca_weight c = int (length (entries_of c))" by (simp add: w(1) sum_list_replicate)
    then show ?thesis using fit assms(4) by (simp add: lru_fits_def)
  qed
qed

section \<open>Beyond the limits\<close>

text \<open>
  With a maximal weight of \<open>2\<^sup>6\<^sup>3 - 1\<close>, two values of weight \<open>2\<^sup>6\<^sup>2\<close> bring the running weight to \<open>- 2\<^sup>6\<^sup>3\<close>:
  both stay, although their total exceeds the limit.
\<close>

definition huge_config :: "(int, int, unit) cache_config" where
  "huge_config = \<lparr>cf_MaxEntries = 8, cf_MaxWeight = 2 ^ 63 - 1, cf_Weight = Some (\<lambda>_. 2 ^ 62), cf_TTL = 0, cf_Clone = None,
    cf_KeyString = None, cf_OnStore = None, cf_OnRemove = None\<rparr>"

lemma storeLocked64_overflows:
  "map_option (\<lambda>c. let c' = storeLocked64 0 (storeLocked64 0 c 1 10 0) 2 20 0
     in (length (ca_ll c'), ca_weight c')) (Cache_New (\<lambda>_. []) () huge_config) = Some (2, - (2 ^ 63))"
proof -
  have "i64 4611686018427387904 = 4611686018427387904" "i64 9223372036854775808 = - 9223372036854775808"
    by (simp_all add: i64_def)
  then show ?thesis
    by (simp add: Cache_New_def huge_config_def storeLocked64_def valueWeight_def Let_def cloneValue_def cache_expireAt_def
        call_onStore_def evictOverflow64.simps)
qed

end
