(* ===== verification/Dialog_Properties.thy ===== *)
theory Dialog_Properties
  imports Dialog_Snapshot Cache_Wrap
begin

text \<open>
  What the read-model cache and its client, the dialog snapshot cache, guarantee. The callbacks of the
  snapshot cache satisfy the contract \<open>cache_client\<close>, so the index mirrors the cached snapshots
  after every operation; invalidating a channel through the index is then the same as scanning every
  cached snapshot for the channel.
\<close>

section \<open>The index mirrors the cached snapshots\<close>

definition shown :: "(int \<rightharpoonup> ('d, 'v) dialogListSnapshot option) \<Rightarrow> int \<Rightarrow> int list" where
  "shown m key = (case m key of Some (Some s) \<Rightarrow> ds_channelIDs s | _ \<Rightarrow> [])"

definition index_mirrors :: "snapshot_index \<Rightarrow> (int \<rightharpoonup> ('d, 'v) dialogListSnapshot option) \<Rightarrow> bool" where
  "index_mirrors ix m \<longleftrightarrow>
    (\<forall>ch. mget {} (ix_channelKeys ix) ch = {key. ch \<in> set (shown m key)}) \<and>
    (\<forall>key. mget [] (ix_keyChannels ix) key = shown m key) \<and>
    (\<forall>ch. ix_channelKeys ix ch \<noteq> Some {})"

lemma shown_upd [simp]:
  "shown (m(k := None)) key = (if key = k then [] else shown m key)"
  "shown (m(k \<mapsto> v)) key = (if key = k then (case v of None \<Rightarrow> [] | Some s \<Rightarrow> ds_channelIDs s) else shown m key)"
  by (simp_all add: shown_def)

lemma unindex_fold:
  "(\<forall>ch. ix_channelKeys ix ch \<noteq> Some {}) \<Longrightarrow>
   (\<forall>ch. mget {} (ix_channelKeys (fold (unindex_channel key) ids ix)) ch =
     mget {} (ix_channelKeys ix) ch - (if ch \<in> set ids then {key} else {})) \<and>
   (\<forall>ch. ix_channelKeys (fold (unindex_channel key) ids ix) ch \<noteq> Some {}) \<and>
   ix_keyChannels (fold (unindex_channel key) ids ix) = ix_keyChannels ix"
proof (induction ids arbitrary: ix)
  case (Cons i ids)
  let ?ix = "unindex_channel key i ix"
  have "\<forall>ch. ix_channelKeys ?ix ch \<noteq> Some {}" "ix_keyChannels ?ix = ix_keyChannels ix"
    "mget {} (ix_channelKeys ?ix) ch = mget {} (ix_channelKeys ix) ch - (if ch = i then {key} else {})" for ch
    using Cons.prems by (auto simp: unindex_channel_def Let_def)
  then show ?case using Cons.IH[of ?ix] by auto
qed simp

lemma unindex_mirrors:
  assumes "index_mirrors ix m"
  shows "index_mirrors (unindexSnapshotLocked key ix) (m(key := None))"
  using assms unindex_fold[of ix key "shown m key"]
  unfolding index_mirrors_def unindexSnapshotLocked_def Let_def by auto

lemma index_fold:
  "(\<forall>ch. ix_channelKeys ix ch \<noteq> Some {}) \<Longrightarrow>
   (\<forall>ch. mget {} (ix_channelKeys (fold (index_channel key) ids ix)) ch =
     mget {} (ix_channelKeys ix) ch \<union> (if ch \<in> set ids then {key} else {})) \<and>
   (\<forall>ch. ix_channelKeys (fold (index_channel key) ids ix) ch \<noteq> Some {}) \<and>
   ix_keyChannels (fold (index_channel key) ids ix) = ix_keyChannels ix"
proof (induction ids arbitrary: ix)
  case (Cons i ids)
  let ?ix = "index_channel key i ix"
  have "\<forall>ch. ix_channelKeys ?ix ch \<noteq> Some {}" "ix_keyChannels ?ix = ix_keyChannels ix"
    "mget {} (ix_channelKeys ?ix) ch = mget {} (ix_channelKeys ix) ch \<union> (if ch = i then {key} else {})" for ch
    using Cons.prems by (auto simp: index_channel_def)
  then show ?case using Cons.IH[of ?ix] by auto
qed simp

lemma index_mirrors_store:
  assumes "index_mirrors ix m"
  shows "index_mirrors (indexSnapshot key snap ix) (m(key \<mapsto> snap))"
proof (cases "\<exists>s. snap = Some s \<and> ds_channelIDs s \<noteq> []")
  case True
  then obtain s where s: "snap = Some s" "ds_channelIDs s \<noteq> []" by blast
  define ix' where "ix' = (unindexSnapshotLocked key ix)\<lparr>ix_keyChannels :=
    (ix_keyChannels (unindexSnapshotLocked key ix))(key \<mapsto> ds_channelIDs s)\<rparr>"
  have "indexSnapshot key snap ix = fold (index_channel key) (ds_channelIDs s) ix'"
    using s by (simp add: indexSnapshot_def ix'_def Let_def)
  moreover have "\<forall>ch. ix_channelKeys ix' ch \<noteq> Some {}"
    "\<forall>ch. mget {} (ix_channelKeys ix') ch = {k. ch \<in> set (shown (m(key := None)) k)}"
    "\<forall>k. mget [] (ix_keyChannels ix') k = shown (m(key \<mapsto> snap)) k"
    using unindex_mirrors[OF assms, of key] s by (simp_all add: index_mirrors_def ix'_def)
  ultimately show ?thesis
    using index_fold[of ix' key "ds_channelIDs s"] s unfolding index_mirrors_def by auto
next
  case False
  then have "indexSnapshot key snap ix = unindexSnapshotLocked key ix"
    by (auto simp: indexSnapshot_def Let_def split: option.split)
  with unindex_mirrors[OF assms, of key] False show ?thesis
    by (auto simp: index_mirrors_def split: option.split)
qed

interpretation snap_ix: cache_client indexSnapshot unindexSnapshot index_mirrors
  by unfold_locales (simp_all add: unindexSnapshot_def unindex_mirrors index_mirrors_store)

section \<open>The operations of the snapshot cache\<close>

text \<open>
  The cache operations include the second half of \<open>invalidateChannel\<close>, an \<open>Invalidate\<close> of
  whatever keys were read.
\<close>

datatype ('d, 'v) snapshot_op =
    SnapCache "(int, ('d, 'v) dialogListSnapshot option) cache_op"
  | SnapInvalidateOwner "int list" int

fun snapshot_exec :: "('d, 'v) snapshot_cache \<Rightarrow> ('d, 'v) snapshot_op \<Rightarrow> ('d, 'v) snapshot_cache" where
  "snapshot_exec c (SnapCache op) = snd (cache_exec c op)"
| "snapshot_exec c (SnapInvalidateOwner ord userID) = invalidateOwner ord c userID"

fun snapshot_ord_ok :: "('d, 'v) snapshot_cache \<Rightarrow> ('d, 'v) snapshot_op \<Rightarrow> bool" where
  "snapshot_ord_ok c (SnapCache op) \<longleftrightarrow> op_ord_ok c op"
| "snapshot_ord_ok c (SnapInvalidateOwner ord userID) \<longleftrightarrow> dom (ca_items c) \<subseteq> set ord"

fun op_stores :: "('k, 'v) cache_op \<Rightarrow> bool" where
  "op_stores (OpStore now k v) \<longleftrightarrow> True"
| "op_stores (OpStoreVersioned now k h v) \<longleftrightarrow> True"
| "op_stores (OpStoreIfEpoch now k v h e) \<longleftrightarrow> True"
| "op_stores (OpStoreBatch now entries e) \<longleftrightarrow> True"
| "op_stores _ \<longleftrightarrow> False"

fun snapshot_stores :: "('d, 'v) snapshot_op \<Rightarrow> bool" where
  "snapshot_stores (SnapCache op) \<longleftrightarrow> op_stores op"
| "snapshot_stores (SnapInvalidateOwner ord userID) \<longleftrightarrow> False"

text \<open>
  The states a snapshot cache can be in, with the number of flushes that have emptied the cache but not
  yet reset the index, as long as no snapshot is stored while there is such a flush. What goes wrong
  otherwise is \<open>flush_race_unindexed\<close> below.
\<close>

inductive snapshot_reach :: "int \<Rightarrow> int \<Rightarrow> int \<Rightarrow> ('d, 'v) snapshot_cache \<times> nat \<Rightarrow> bool" for maxE maxH ttl where
  start: "newDialogListSnapshotCache sprint maxE maxH ttl = Some c \<Longrightarrow> snapshot_reach maxE maxH ttl (c, 0)"
| step: "snapshot_reach maxE maxH ttl (c, n) \<Longrightarrow> snapshot_ord_ok c op \<Longrightarrow> n = 0 \<or> \<not> snapshot_stores op \<Longrightarrow>
    snapshot_reach maxE maxH ttl (snapshot_exec c op, n)"
| flush: "snapshot_reach maxE maxH ttl (c, n) \<Longrightarrow> snapshot_reach maxE maxH ttl (the (Flush (Some c)), Suc n)"
| flushed: "snapshot_reach maxE maxH ttl (c, Suc n) \<Longrightarrow> snapshot_reach maxE maxH ttl (flush_index c, n)"

definition snapshot_inv :: "int \<Rightarrow> int \<Rightarrow> int \<Rightarrow> ('d, 'v) snapshot_cache \<Rightarrow> bool" where
  "snapshot_inv maxE maxH ttl c \<longleftrightarrow>
    cache_inv (snapshot_config maxE maxH ttl) c \<and> index_mirrors (ca_client c) (contents c)"

lemma snapshot_hooks [simp]:
  "cf_OnStore (snapshot_config a b t) = Some indexSnapshot" "cf_OnRemove (snapshot_config a b t) = Some unindexSnapshot"
  by (simp_all add: snapshot_config_def Let_def)

lemma snapshot_inv_exec:
  assumes "snapshot_inv maxE maxH ttl c" and "op_ord_ok c op"
  shows "snapshot_inv maxE maxH ttl (snd (cache_exec c op))"
  using assms cache_exec_ok[of "snapshot_config maxE maxH ttl" c op]
    snap_ix.exec_mirrors[of "snapshot_config maxE maxH ttl" c op]
  by (auto simp: snapshot_inv_def split: prod.splits)

lemma exec_empty:
  assumes "cache_inv cfg c" and "op_ord_ok c op" and "entries_of c = []" and "\<not> op_stores op"
  shows "entries_of (snd (cache_exec c op)) = []"
proof -
  have "lru_exec cfg (abs_cache c) op = (fst (cache_exec c op), abs_cache (snd (cache_exec c op)))"
    using cache_exec_ok[OF assms(1,2)] by (simp split: prod.splits)
  moreover have "lr_entries (snd (lru_exec cfg l op)) = []" if "lr_entries l = []" for l :: "('a, 'b) lru"
    using assms(4) that by (cases op) (auto simp: spec_lookup_def find_key_def spec_inval_def split: prod.splits)
  ultimately show ?thesis using assms(3) by (metis abs_cache_def lru.select_convs(1) snd_conv)
qed

lemma invalidateOwner_exec:
  "invalidateOwner ord c userID =
    (if userID = 0 then c else snd (cache_exec c (OpInvalidateWhere ord (\<lambda>key. key = userID))))"
  by (simp add: invalidateOwner_def)

lemma snapshot_exec_inv:
  assumes "snapshot_inv maxE maxH ttl c" and "snapshot_ord_ok c op"
  shows "snapshot_inv maxE maxH ttl (snapshot_exec c op)"
    and "entries_of c = [] \<Longrightarrow> \<not> snapshot_stores op \<Longrightarrow> entries_of (snapshot_exec c op) = []"
  using assms snapshot_inv_exec[OF assms(1)] exec_empty[of "snapshot_config maxE maxH ttl" c]
  by (cases op; simp add: invalidateOwner_exec snapshot_inv_def del: cache_exec.simps)+

lemma empty_index_mirrors: "index_mirrors empty_index m \<longleftrightarrow> (\<forall>key. shown m key = [])"
  by (auto simp: index_mirrors_def empty_index_def)

lemma entries_contents: "cache_inv cfg c \<Longrightarrow> entries_of c = [] \<Longrightarrow> contents c = Map.empty"
  using contents_entries[OF cache_invD(1), of cfg c] by (simp add: find_key_def fun_eq_iff)

lemma flush_index_inv:
  assumes "snapshot_inv maxE maxH ttl c" and "entries_of c = []"
  shows "snapshot_inv maxE maxH ttl (flush_index c)"
proof -
  have "contents (flush_index c) = Map.empty"
    using assms entries_contents by (fastforce simp: snapshot_inv_def flush_index_def contents_def fun_eq_iff)
  moreover have "cache_inv (snapshot_config maxE maxH ttl) (flush_index c)"
    using assms(1) by (simp add: snapshot_inv_def flush_index_def cache_inv_def cache_links_def entries_of_def cache_cfg_def)
  ultimately show ?thesis by (simp add: snapshot_inv_def flush_index_def empty_index_mirrors shown_def)
qed

lemma flush_index_entries [simp]: "entries_of (flush_index c) = entries_of c"
  by (simp add: flush_index_def entries_of_def)

lemma flush_inv:
  assumes "snapshot_inv maxE maxH ttl c"
  shows "snapshot_inv maxE maxH ttl (the (Flush (Some c)))" and "entries_of (the (Flush (Some c))) = []"
proof -
  show "snapshot_inv maxE maxH ttl (the (Flush (Some c)))" using snapshot_inv_exec[OF assms, of OpFlush] by simp
  show "entries_of (the (Flush (Some c))) = []" using Flush_eq[of c] by (auto simp: entries_of_def)
qed

lemma snapshot_new_inv:
  assumes "newDialogListSnapshotCache sprint maxE maxH ttl = Some c"
  shows "snapshot_inv maxE maxH ttl c"
proof -
  have c: "cache_inv (snapshot_config maxE maxH ttl) c" "abs_cache c = \<lparr>lr_entries = [], lr_epoch = 0\<rparr>" "ca_client c = empty_index"
    using assms new_inv[of sprint empty_index _ c] by (simp_all add: newDialogListSnapshotCache_def)
  then have "contents c = Map.empty" using entries_contents[OF c(1)] by (simp add: abs_cache_def)
  with c show ?thesis by (simp add: snapshot_inv_def empty_index_mirrors shown_def)
qed

lemma snapshot_reach_inv':
  "snapshot_reach maxE maxH ttl s \<Longrightarrow> snapshot_inv maxE maxH ttl (fst s) \<and> (0 < snd s \<longrightarrow> entries_of (fst s) = [])"
proof (induction rule: snapshot_reach.induct)
  case (step c n op)
  then show ?case using snapshot_exec_inv[of maxE maxH ttl c op] by auto
qed (auto simp: snapshot_new_inv flush_inv flush_index_inv flush_index_entries)

lemma snapshot_reach_inv: "snapshot_reach maxE maxH ttl (c, n) \<Longrightarrow> snapshot_inv maxE maxH ttl c"
  using snapshot_reach_inv' by fastforce

section \<open>Invalidating a channel\<close>

definition snapshot_channels :: "('d, 'v) dialogListSnapshot option \<Rightarrow> int list" where
  "snapshot_channels snap = (case snap of None \<Rightarrow> [] | Some s \<Rightarrow> ds_channelIDs s)"

lemma entry_contents:
  "cache_links c \<Longrightarrow> e \<in> set (entries_of c) \<Longrightarrow> contents c (en_key e) = Some (en_value e)"
  using in_contents by (auto simp: entries_of_def)

lemma index_of_entry:
  assumes "snapshot_inv maxE maxH ttl c" and "e \<in> set (entries_of c)"
  shows "en_key e \<in> mget {} (ix_channelKeys (ca_client c)) ch \<longleftrightarrow> ch \<in> set (snapshot_channels (en_value e))"
proof -
  have l: "cache_links c" and m: "index_mirrors (ca_client c) (contents c)"
    using assms(1) cache_invD(1) by (auto simp: snapshot_inv_def)
  from m entry_contents[OF l assms(2)] show ?thesis
    by (auto simp: index_mirrors_def shown_def snapshot_channels_def split: option.splits)
qed

lemma index_of_contents:
  assumes "snapshot_inv maxE maxH ttl c"
  shows "k \<in> mget {} (ix_channelKeys (ca_client c)) ch \<longleftrightarrow> (\<exists>v. contents c k = Some v \<and> ch \<in> set (snapshot_channels v))"
proof -
  have "mget {} (ix_channelKeys (ca_client c)) ch = {key. ch \<in> set (shown (contents c) key)}"
    using assms by (simp add: snapshot_inv_def index_mirrors_def)
  then show ?thesis
    by (cases "contents c k") (auto simp: shown_def snapshot_channels_def split: option.split)
qed

lemma invalidate_keys_entries:
  assumes "cache_inv cfg c"
  shows "entries_of (the (Invalidate (Some c) ks)) = filter (\<lambda>e. en_key e \<notin> set ks) (entries_of c)"
proof (cases "ks = []")
  case True
  then show ?thesis by (simp add: Invalidate_def)
next
  case False
  with Invalidate_ok[OF assms False] show ?thesis by (simp add: abs_cache_def spec_inval_def)
qed

text \<open>
  C19: Invalidating a channel through the inverted index of the dialog snapshot cache removes exactly
  the snapshots of the accounts whose cached snapshot showed the channel when the index was read; the
  other snapshots keep their place in the eviction order. Other operations may run between the index
  read and the invalidation. If none does, what is removed is what a scan over all cached values would
  find. This holds in every state the cache can reach by its operations, among them the two halves of
  a flush, as long as no snapshot is stored while a flush has emptied the cache and not yet reset the
  index, and the index is read between two cache operations.
\<close>

theorem invalidate_channel_exact:
  assumes "snapshot_reach maxE maxH ttl (c, n)" and "snapshot_reach maxE maxH ttl (c', n')"
    and "dom (ca_items c) \<subseteq> set ord" and "ch \<noteq> 0"
  shows "entries_of (invalidateChannel ord (ca_client c) c' ch) =
      filter (\<lambda>e. \<not> (\<exists>v. contents c (en_key e) = Some v \<and> ch \<in> set (snapshot_channels v))) (entries_of c') \<and>
    entries_of (invalidateChannel ord (ca_client c) c ch) =
      filter (\<lambda>e. ch \<notin> set (snapshot_channels (en_value e))) (entries_of c) \<and>
    entries_of (invalidateChannel ord (ca_client c) c ch) =
      entries_of (the (InvalidateWhereValue ord (Some c) (Some (\<lambda>_ v. ch \<in> set (snapshot_channels v)))))"
proof -
  note inv = snapshot_reach_inv[OF assms(1)] snapshot_reach_inv[OF assms(2)]
  then have ci: "cache_inv (snapshot_config maxE maxH ttl) c" "cache_inv (snapshot_config maxE maxH ttl) c'"
    by (simp_all add: snapshot_inv_def)
  let ?keys = "filter (\<lambda>k. k \<in> mget {} (ix_channelKeys (ca_client c)) ch) ord"
  let ?shows = "\<lambda>k. \<exists>v. contents c k = Some v \<and> ch \<in> set (snapshot_channels v)"
  have "k \<in> set ord" if "?shows k" for k
    using that assms(3) by (auto simp: contents_def)
  then have keys: "k \<in> set ?keys \<longleftrightarrow> ?shows k" for k
    using index_of_contents[OF inv(1), of k ch] by auto
  have ents: "entries_of (invalidateChannel ord (ca_client c) d ch) = filter (\<lambda>e. \<not> ?shows (en_key e)) (entries_of d)"
    if "cache_inv (snapshot_config maxE maxH ttl) d" for d
  proof -
    have "invalidateChannel ord (ca_client c) d ch = the (Invalidate (Some d) ?keys)"
      using assms(4) by (simp add: invalidateChannel_def Let_def)
    then show ?thesis unfolding keys[symmetric] using invalidate_keys_entries[OF that] by simp
  qed
  have "filter (\<lambda>e. \<not> ?shows (en_key e)) (entries_of c) =
      filter (\<lambda>e. ch \<notin> set (snapshot_channels (en_value e))) (entries_of c)"
    using entry_contents[OF cache_invD(1)[OF ci(1)]] by (intro filter_cong) auto
  then have own: "entries_of (invalidateChannel ord (ca_client c) c ch) =
      filter (\<lambda>e. ch \<notin> set (snapshot_channels (en_value e))) (entries_of c)"
    using ents[OF ci(1)] by (rule trans[rotated])
  moreover have "entries_of (the (InvalidateWhereValue ord (Some c) (Some (\<lambda>_ v. ch \<in> set (snapshot_channels v))))) =
      filter (\<lambda>e. ch \<notin> set (snapshot_channels (en_value e))) (entries_of c)"
    using InvalidateWhereValue_ok[OF ci(1) assms(3), of "\<lambda>_ v. ch \<in> set (snapshot_channels v)"]
    by (simp add: abs_cache_def spec_inval_def)
  ultimately show ?thesis using ents[OF ci(2)] by presburger
qed

text \<open>
  When no cached snapshot shows the channel there are no keys to invalidate, so the cache and in
  particular its epoch are unchanged: a snapshot loaded before the call, with the epoch read before
  the load, is still stored after it.
\<close>

lemma invalidate_channel_misses_load:
  assumes "snapshot_reach maxE maxH ttl (c, n)" and "\<forall>e \<in> set (entries_of c). ch \<notin> set (snapshot_channels (en_value e))"
    and "set ord \<subseteq> dom (ca_items c)"
  shows "invalidateChannel ord (ca_client c) c ch = c \<and>
    fst (storeIfEpoch now (invalidateChannel ord (ca_client c) c ch) key (Some stale) h (ca_epoch c))"
proof -
  note inv = snapshot_reach_inv[OF assms(1)]
  then have l: "cache_links c" using cache_invD(1) by (auto simp: snapshot_inv_def)
  have "k \<notin> mget {} (ix_channelKeys (ca_client c)) ch" if "k \<in> set ord" for k
  proof -
    have "k \<in> en_key ` set (entries_of c)" using that assms(3) keys_items[OF l] by auto
    then show ?thesis using index_of_entry[OF inv] assms(2) by auto
  qed
  then have "filter (\<lambda>k. k \<in> mget {} (ix_channelKeys (ca_client c)) ch) ord = []" by (simp add: filter_empty_conv)
  then show ?thesis by (simp add: invalidateChannel_def Invalidate_def storeIfEpoch_def)
qed

text \<open>
  A snapshot stored between the two halves of a flush is cached but no longer indexed once the flush is
  done: an invalidation of a channel it shows, with no operation in between, leaves it in place.
\<close>

lemma flush_race_unindexed:
  assumes "snapshot_reach maxE maxH ttl (c, 0)"
    and "c' = flush_index (snapshot_exec (the (Flush (Some c))) (SnapCache (OpStore now k v)))"
  shows "invalidateChannel ord (ca_client c') c' ch = c'"
  by (simp add: assms(2) flush_index_def invalidateChannel_def empty_index_def Invalidate_def)

section \<open>Paging through a snapshot\<close>

text \<open>A client asks for the next page with the last dialog it has got as the offset.\<close>

definition next_offset :: "dialog_filter \<Rightarrow> 'd dialog \<Rightarrow> dialog_filter" where
  "next_offset filt d = filt\<lparr>df_OffsetDate := dg_TopMessageDate d, df_OffsetID := dg_TopMessage d,
    df_HasOffsetPeer := True, df_OffsetPeer := dg_Peer d\<rparr>"

fun page_walk :: "nat \<Rightarrow> ('d, 'v) dialogListSnapshot \<Rightarrow> dialog_filter \<Rightarrow> 'd dialog list list" where
  "page_walk 0 snap filt = []"
| "page_walk (Suc n) snap filt =
    (let page = pg_Dialogs (dialogListSnapshotPageHeaders snap filt) in
     if page = [] then [] else page # page_walk n snap (next_offset filt (last page)))"

lemma page_dialogs:
  "pg_Dialogs (dialogListSnapshotPageHeaders snap filt) =
    take (page_limit filt) (drop (dialogSnapshotPageStart (dialogListSnapshotVariant (ds_dialogs snap) filt) filt)
      (dialogListSnapshotVariant (ds_dialogs snap) filt))"
proof -
  let ?v = "dialogListSnapshotVariant (ds_dialogs snap) filt"
  let ?s = "dialogSnapshotPageStart ?v filt"
  have "take (min (?s + page_limit filt) (length ?v) - min ?s (min (?s + page_limit filt) (length ?v)))
      (drop (min ?s (min (?s + page_limit filt) (length ?v))) ?v) = take (page_limit filt) (drop ?s ?v)"
    by (cases "?s \<le> length ?v") (simp_all add: min_def)
  then show ?thesis
    by (simp add: dialogListSnapshotPageHeaders_def appendDialogSnapshotPayload_def Let_def)
qed

lemma index_of_first:
  "index_of p (xs @ x # ys) = Some (length xs)" if "p x" and "\<And>y. y \<in> set xs \<Longrightarrow> \<not> p y"
  using that by (induction xs) auto

lemma page_start_next:
  assumes "distinct (map dg_Peer (xs @ d # ys))"
  shows "dialogSnapshotPageStart (xs @ d # ys) (next_offset filt d) = Suc (length xs)"
proof -
  have "dg_Peer y \<noteq> dg_Peer d" if "y \<in> set xs" for y
    using assms imageI[OF that, of dg_Peer] by (auto simp del: imageI)
  then have "index_of (at_offset (next_offset filt d)) (xs @ d # ys) = Some (length xs)"
    by (intro index_of_first) (auto simp: at_offset_def next_offset_def)
  then show ?thesis by (simp add: dialogSnapshotPageStart_def no_offset_def next_offset_def)
qed

lemma next_offset_simps [simp]:
  "dialogListSnapshotVariant ds (next_offset filt d) = dialogListSnapshotVariant ds filt"
  "page_limit (next_offset filt d) = page_limit filt" "0 < page_limit filt"
  by (auto simp: next_offset_def dialogListSnapshotVariant_def variant_folder_def page_limit_def)

lemma page_walk_from:
  assumes "distinct (map dg_Peer v)" and v: "v = dialogListSnapshotVariant (ds_dialogs snap) filt"
    and "dialogSnapshotPageStart v filt = s" and "length v - s < n"
  shows "concat (page_walk n snap filt) = drop s v \<and> (\<forall>p \<in> set (page_walk n snap filt). length p \<le> page_limit filt)"
  using assms
proof (induction n arbitrary: filt s)
  case (Suc n)
  let ?page = "take (page_limit filt) (drop s v)"
  have page: "pg_Dialogs (dialogListSnapshotPageHeaders snap filt) = ?page" using Suc.prems by (simp add: page_dialogs)
  show ?case
  proof (cases "?page = []")
    case True
    then have "drop s v = []" using next_offset_simps(3)[of filt] by auto
    with True page show ?thesis by simp
  next
    case False
    define m where "m = s + length ?page"
    have m: "s < m" "m \<le> length v" using False by (auto simp: m_def)
    have len: "0 < length ?page" "s \<le> length v" using False by auto
    have "last ?page = drop s v ! (length ?page - 1)"
      using len(1) by (simp only: last_conv_nth[OF False]) (simp add: nth_take min_def)
    moreover have "s + (length ?page - 1) = m - 1" using len(1) unfolding m_def by linarith
    ultimately have "last ?page = v ! (m - 1)" using len(2) by simp
    moreover have "v = take (m - 1) v @ v ! (m - 1) # drop m v"
      using m id_take_nth_drop[of "m - 1" v] by simp
    ultimately have start: "dialogSnapshotPageStart v (next_offset filt (last ?page)) = m"
      using page_start_next[of "take (m - 1) v" "v ! (m - 1)" "drop m v" filt] Suc.prems(1) m by simp
    have "drop s v = ?page @ drop m v" 
      using append_take_drop_id[of "page_limit filt" "drop s v"] by (auto simp: m_def min_def add.commute)
    moreover have "concat (page_walk n snap (next_offset filt (last ?page))) = drop m v \<and>
      (\<forall>p \<in> set (page_walk n snap (next_offset filt (last ?page))). length p \<le> page_limit filt)"
      using Suc.IH[OF Suc.prems(1), of "next_offset filt (last ?page)" m] Suc.prems start m by simp
    ultimately show ?thesis using False page next_offset_simps(3)[of filt] by (simp add: Let_def)
  qed
qed simp

text \<open>
  A client that pages through a dialog snapshot, asking each time from the last dialog of the page
  before, receives every dialog of the filtered list exactly once and in order, in pages of at most
  the limit (never more than 100), and reaches the end within as many requests as there are dialogs,
  plus one.
\<close>

theorem dialog_paging_complete:
  assumes "distinct (map dg_Peer (dialogListSnapshotVariant (ds_dialogs snap) filt))" and "no_offset filt"
  shows "concat (page_walk (length (dialogListSnapshotVariant (ds_dialogs snap) filt) + 1) snap filt) =
      dialogListSnapshotVariant (ds_dialogs snap) filt \<and>
    (\<forall>p \<in> set (page_walk (length (dialogListSnapshotVariant (ds_dialogs snap) filt) + 1) snap filt).
      length p \<le> page_limit filt \<and> page_limit filt \<le> 100)"
proof -
  have "dialogSnapshotPageStart (dialogListSnapshotVariant (ds_dialogs snap) filt) filt = 0"
    using assms(2) by (simp add: dialogSnapshotPageStart_def)
  from page_walk_from[OF assms(1) refl this, of "length (dialogListSnapshotVariant (ds_dialogs snap) filt) + 1"]
  show ?thesis by (auto simp: page_limit_def)
qed

section \<open>The cache is the abstract LRU table\<close>

text \<open>A run of operations, each with an iteration order that lists the keys present.\<close>

fun cache_runs :: "('k, 'v, 'i) cache \<Rightarrow> ('k, 'v) cache_op list \<Rightarrow> 'v cache_res list \<times> ('k, 'v, 'i) cache" where
  "cache_runs c [] = ([], c)"
| "cache_runs c (op # ops) =
    (case cache_exec c op of (r, c') \<Rightarrow> case cache_runs c' ops of (rs, c'') \<Rightarrow> (r # rs, c''))"

fun lru_runs :: "('k, 'v, 'i) cache_config \<Rightarrow> ('k, 'v) lru \<Rightarrow> ('k, 'v) cache_op list \<Rightarrow> 'v cache_res list \<times> ('k, 'v) lru" where
  "lru_runs cfg l [] = ([], l)"
| "lru_runs cfg l (op # ops) =
    (case lru_exec cfg l op of (r, l') \<Rightarrow> case lru_runs cfg l' ops of (rs, l'') \<Rightarrow> (r # rs, l''))"

fun ords_ok :: "('k, 'v, 'i) cache \<Rightarrow> ('k, 'v) cache_op list \<Rightarrow> bool" where
  "ords_ok c [] \<longleftrightarrow> True"
| "ords_ok c (op # ops) \<longleftrightarrow> op_ord_ok c op \<and> ords_ok (snd (cache_exec c op)) ops"

lemma cache_runs_ok:
  assumes "cache_inv cfg c" and "ords_ok c ops"
  shows "case cache_runs c ops of (rs, c') \<Rightarrow> cache_inv cfg c' \<and> lru_runs cfg (abs_cache c) ops = (rs, abs_cache c')"
  using assms
proof (induction ops arbitrary: c)
  case (Cons op ops)
  obtain r c' where e: "cache_exec c op = (r, c')" by force
  then have "cache_inv cfg c'" "lru_exec cfg (abs_cache c) op = (r, abs_cache c')"
    using cache_exec_ok[OF Cons.prems(1), of op] Cons.prems(2) by auto
  with Cons.IH[of c'] Cons.prems(2) e show ?case by (auto split: prod.splits)
qed simp

lemma lru_runs_unit: "unit_weights cfg (lr_entries l) \<Longrightarrow> unit_weights cfg (lr_entries (snd (lru_runs cfg l ops)))"
proof (induction ops arbitrary: l)
  case (Cons op ops)
  obtain r l' where e: "lru_exec cfg l op = (r, l')" by force
  then show ?case using lru_exec_unit[OF Cons.prems, of op] Cons.IH[of l'] by (auto split: prod.splits)
qed simp

text \<open>
  C18: The read-model cache implements the abstract LRU table: for every configuration whose MaxWeight
  and MaxEntries are below 2^62 and every sequence of lookups, stores, guarded stores, invalidations
  and flushes, every operation answers as the table does, and the cache's linked list, key index and
  running weight represent the table's entries in order; it never holds more than MaxEntries entries
  nor, when bounded, more than MaxWeight. The running weight never leaves the range of Go's int64: in
  every state reached, storing any value and removing any element with wrapping 64-bit additions is
  what the exact operations do.
\<close>

theorem cache_refines_lru:
  assumes "Cache_New sprint i cfg = Some c" and "ords_ok c ops" and "cf_MaxWeight cfg < 2 ^ 62" and "cf_MaxEntries cfg < 2 ^ 62"
  shows "case cache_runs c ops of (rs, c') \<Rightarrow>
    lru_runs cfg \<lparr>lr_entries = [], lr_epoch = 0\<rparr> ops = (rs, abs_cache c') \<and> cache_links c' \<and>
    Cache_Len (Some c') \<le> cf_MaxEntries cfg \<and> (cf_MaxWeight cfg > 0 \<longrightarrow> Cache_Weight (Some c') \<le> cf_MaxWeight cfg) \<and>
    0 \<le> Cache_Weight (Some c') \<and> Cache_Weight (Some c') < 2 ^ 62 \<and>
    (\<forall>now k v h. storeLocked64 now c' k v h = storeLocked now c' k v h) \<and>
    (\<forall>el \<in> set (ca_ll c'). removeElement64 c' el = Cache_removeElement c' el)"
proof -
  have "cache_inv cfg c" "abs_cache c = \<lparr>lr_entries = [], lr_epoch = 0\<rparr>" using new_inv[OF assms(1)] by simp_all
  moreover obtain rs c' where r: "cache_runs c ops = (rs, c')" by force
  ultimately have inv: "cache_inv cfg c'" and l: "lru_runs cfg \<lparr>lr_entries = [], lr_epoch = 0\<rparr> ops = (rs, abs_cache c')"
    using cache_runs_ok[OF _ assms(2)] by auto
  have "unit_weights cfg (entries_of c')"
    using lru_runs_unit[of cfg "\<lparr>lr_entries = [], lr_epoch = 0\<rparr>" ops] l by (simp add: unit_weights_def abs_cache_def)
  note w = reached_weight[OF inv this assms(3,4)]
  have "weight_fits c'" using links_weight_fits[OF cache_invD(1)[OF inv]] w(2) by simp
  note el = removeElement64_exact[OF this]
  show ?thesis using r inv l w cache_invD[of cfg c'] storeLocked64_exact[OF cache_invD(1,2)[OF inv] w(2) assms(3)] el
    by (auto simp: Cache_Len_def Cache_Weight_def lru_fits_def cache_links_def entries_of_def)
qed

section \<open>Examples\<close>

definition demo_lru_config :: "(int, int, unit) cache_config" where
  "demo_lru_config = \<lparr>cf_MaxEntries = 2, cf_MaxWeight = 0, cf_Weight = None, cf_TTL = 10, cf_Clone = None,
    cf_KeyString = None, cf_OnStore = None, cf_OnRemove = None\<rparr>"

definition demo_ops :: "(int, int) cache_op list" where
  "demo_ops = [OpStore 0 1 10, OpStore 0 2 20, OpLookup 5 1 0 False, OpStore 5 3 30, OpPeek 5 2, OpLookup 5 1 0 False]"

lemmas lru_run_simps = spec_store_def spec_lookup_def spec_entry_def weight_for_def clone_for_def is_stale_def
  drop_key_def find_key_def

theorem cache_refines_lru_witness:
  "let c = the (Cache_New (\<lambda>_. []) () demo_lru_config) in
   fst (lru_runs demo_lru_config \<lparr>lr_entries = [], lr_epoch = 0\<rparr> demo_ops) =
     [ResUnit, ResUnit, ResValue (Some 10), ResUnit, ResValue None, ResValue (Some 10)] \<and>
   fst (cache_runs c demo_ops) = [ResUnit, ResUnit, ResValue (Some 10), ResUnit, ResValue None, ResValue (Some 10)]"
proof -
  define c where "c = the (Cache_New (\<lambda>_. []) () demo_lru_config)"
  have c: "Cache_New (\<lambda>_. []) () demo_lru_config = Some c" by (simp add: c_def Cache_New_def demo_lru_config_def)
  have o: "ords_ok c demo_ops" by (simp add: demo_ops_def)
  have "fst (lru_runs demo_lru_config \<lparr>lr_entries = [], lr_epoch = 0\<rparr> demo_ops) =
    [ResUnit, ResUnit, ResValue (Some 10), ResUnit, ResValue None, ResValue (Some 10)]"
    by (simp add: demo_ops_def demo_lru_config_def lru_run_simps)
  with cache_refines_lru[OF c o] show ?thesis by (auto simp: c_def demo_lru_config_def split: prod.splits)
qed

definition demo_dialog :: "int \<Rightarrow> int \<Rightarrow> unit dialog" where
  "demo_dialog ch msg = \<lparr>dg_Peer = channel_peer ch, dg_FolderID = 0, dg_TopMessage = msg, dg_TopMessageDate = 100,
    dg_Pinned = False, dg_ChannelMember = False, dg_rest = ()\<rparr>"

definition demo_snapshot :: "int list \<Rightarrow> (unit, unit) dialogListSnapshot" where
  "demo_snapshot chs = \<lparr>ds_dialogs = map (\<lambda>ch. demo_dialog ch 1) chs, ds_messages = [], ds_users = [], ds_hash = 1,
    ds_state = zero_state, ds_archive = None, ds_channelIDs = chs, ds_ownerHash = 0, ds_dependencyHash = 0\<rparr>"

definition demo_filter :: dialog_filter where
  "demo_filter = \<lparr>df_PinnedOnly = False, df_ExcludePinned = False, df_HasFolderID = False, df_FolderID = 0, df_Folder = False,
    df_OffsetDate = 0, df_OffsetID = 0, df_HasOffsetPeer = False, df_OffsetPeer = zero_peer, df_Limit = 2\<rparr>"

theorem dialog_paging_complete_witness:
  "concat (page_walk 4 (demo_snapshot [7, 8, 9]) demo_filter) = ds_dialogs (demo_snapshot [7, 8, 9])"
proof -
  have v: "dialogListSnapshotVariant (ds_dialogs (demo_snapshot [7, 8, 9])) demo_filter = ds_dialogs (demo_snapshot [7, 8, 9])"
    by (simp add: dialogListSnapshotVariant_def demo_snapshot_def demo_dialog_def demo_filter_def variant_folder_def DialogMainFolderID_def)
  have d: "distinct (map dg_Peer (dialogListSnapshotVariant (ds_dialogs (demo_snapshot [7, 8, 9])) demo_filter))"
    unfolding v by (simp add: demo_snapshot_def demo_dialog_def channel_peer_def)
  have n: "no_offset demo_filter" "length (ds_dialogs (demo_snapshot [7, 8, 9])) + 1 = 4"
    by (simp_all add: no_offset_def demo_filter_def demo_snapshot_def)
  from dialog_paging_complete[OF d n(1)] show ?thesis unfolding v n(2) by (rule conjunct1)
qed

definition demo_snap_cache :: "(unit, unit) snapshot_cache" where
  "demo_snap_cache = the (newDialogListSnapshotCache (\<lambda>_. []) 10 100 60)"

definition demo_snap_filled :: "(unit, unit) snapshot_cache" where
  "demo_snap_filled = snapshot_exec (snapshot_exec demo_snap_cache (SnapCache (OpStore 0 1 (Some (demo_snapshot [7, 8])))))
    (SnapCache (OpStore 0 2 (Some (demo_snapshot [9]))))"

lemma demo_snap_reach: "snapshot_reach 10 100 60 (demo_snap_filled, 0)"
proof -
  have "newDialogListSnapshotCache (\<lambda>_. []) 10 100 60 = Some demo_snap_cache"
    by (simp add: demo_snap_cache_def newDialogListSnapshotCache_def Cache_New_def snapshot_config_def)
  note snapshot_reach.start[OF this]
  then show ?thesis unfolding demo_snap_filled_def
    by (intro snapshot_reach.step) (simp_all del: snapshot_exec.simps)
qed

lemma demo_snap_entries:
  "map (\<lambda>e. (en_key e, en_value e)) (entries_of demo_snap_filled) =
    [(2, Some (demo_snapshot [9])), (1, Some (demo_snapshot [7, 8]))]"
proof -
  define c where "c = demo_snap_cache"
  define ops :: "(int, (unit, unit) dialogListSnapshot option) cache_op list"
    where "ops = [OpStore 0 1 (Some (demo_snapshot [7, 8])), OpStore 0 2 (Some (demo_snapshot [9]))]"
  have "Cache_New (\<lambda>_. []) empty_index (snapshot_config 10 100 60) = Some c"
    by (simp add: c_def demo_snap_cache_def newDialogListSnapshotCache_def Cache_New_def snapshot_config_def)
  then have "cache_inv (snapshot_config 10 100 60) c" "abs_cache c = \<lparr>lr_entries = [], lr_epoch = 0\<rparr>"
    by (simp_all add: new_inv)
  moreover have "ords_ok c ops" by (simp add: ops_def)
  ultimately have "lru_runs (snapshot_config 10 100 60) \<lparr>lr_entries = [], lr_epoch = 0\<rparr> ops =
    (fst (cache_runs c ops), abs_cache (snd (cache_runs c ops)))"
    using cache_runs_ok[of "snapshot_config 10 100 60" c ops] by (auto split: prod.splits)
  moreover have "snd (cache_runs c ops) = demo_snap_filled" by (simp add: ops_def c_def demo_snap_filled_def)
  ultimately have "entries_of demo_snap_filled =
    lr_entries (snd (lru_runs (snapshot_config 10 100 60) \<lparr>lr_entries = [], lr_epoch = 0\<rparr> ops))"
    by (simp add: abs_cache_def)
  also have "map (\<lambda>e. (en_key e, en_value e)) \<dots> =
    [(2, Some (demo_snapshot [9])), (1, Some (demo_snapshot [7, 8]))]"
    by (simp add: ops_def snapshot_config_def snapshot_weight_def demo_snapshot_def demo_dialog_def lru_run_simps)
  finally show ?thesis by simp
qed

lemma flush_race_demo:
  "let c = flush_index (snapshot_exec (the (Flush (Some demo_snap_filled))) (SnapCache (OpStore 5 1 (Some (demo_snapshot [7])))))
   in map en_key (entries_of c) = [1] \<and> invalidateChannel [1] (ca_client c) c 7 = c"
proof -
  let ?f = "the (Flush (Some demo_snap_filled))"
  have inv: "cache_inv (snapshot_config 10 100 60) ?f" and e: "entries_of ?f = []"
    using flush_inv[OF snapshot_reach_inv[OF demo_snap_reach]] by (simp_all add: snapshot_inv_def)
  have "abs_cache (snd (cache_exec ?f (OpStore 5 1 (Some (demo_snapshot [7]))))) =
      snd (lru_exec (snapshot_config 10 100 60) (abs_cache ?f) (OpStore 5 1 (Some (demo_snapshot [7]))))"
    using cache_exec_ok[OF inv, of "OpStore 5 1 (Some (demo_snapshot [7]))"] by (simp split: prod.splits)
  then have "map en_key (entries_of (snd (cache_exec ?f (OpStore 5 1 (Some (demo_snapshot [7])))))) = [1]"
    using e by (simp add: abs_cache_def spec_store_def drop_key_def spec_entry_def weight_for_def snapshot_config_def
        snapshot_weight_def demo_snapshot_def demo_dialog_def Let_def)
  then show ?thesis using flush_race_unindexed[OF demo_snap_reach refl] by (simp add: Let_def del: cache_exec.simps)
qed

text \<open>
  Account 1 shows channels 7 and 8, account 2 shows channel 9. Invalidating channel 8 removes account 1;
  so it does when account 2 is flushed out between the index read and the invalidation.
\<close>

theorem invalidate_channel_exact_witness:
  "map en_key (entries_of (invalidateChannel [1, 2] (ca_client demo_snap_filled) demo_snap_filled 8)) = [2] \<and>
   entries_of (invalidateChannel [1, 2] (ca_client demo_snap_filled) (the (Flush (Some demo_snap_filled))) 8) = []"
proof -
  have l: "cache_links demo_snap_filled"
    using snapshot_reach_inv[OF demo_snap_reach] cache_invD(1) by (auto simp: snapshot_inv_def)
  obtain d e where de: "entries_of demo_snap_filled = [d, e]"
      "en_key d = 2" "en_value d = Some (demo_snapshot [9])" "en_key e = 1" "en_value e = Some (demo_snapshot [7, 8])"
    using demo_snap_entries by (auto simp: map_eq_Cons_conv)
  then have o: "dom (ca_items demo_snap_filled) \<subseteq> set [1, 2]" using keys_items[OF l] by auto
  from invalidate_channel_exact[OF demo_snap_reach snapshot_reach.flush[OF demo_snap_reach] o, of 8]
  have "entries_of (invalidateChannel [1, 2] (ca_client demo_snap_filled) demo_snap_filled 8) =
      filter (\<lambda>e. 8 \<notin> set (snapshot_channels (en_value e))) (entries_of demo_snap_filled)"
    "entries_of (invalidateChannel [1, 2] (ca_client demo_snap_filled) (the (Flush (Some demo_snap_filled))) 8) = []"
    using flush_inv(2)[OF snapshot_reach_inv[OF demo_snap_reach]] by simp_all
  then show ?thesis using de by (simp add: snapshot_channels_def demo_snapshot_def)
qed

end
