(* ===== verification/Cache_Flights.thy ===== *)
theory Cache_Flights
  imports Cache_Spec
begin

text \<open>
  Concurrent use of the read-model cache: \<open>GetOrLoad\<close>, \<open>GetOrLoadVersioned\<close>,
  \<open>GetOrLoadBatch\<close> and the pair \<open>LoadEpoch\<close>/\<open>StoreIfEpoch\<close> as programs of any number of goroutines,
  interleaved with writes to the backend and with invalidations. One step is one critical section
  of the cache lock or of the batch lock, one read of the backend, or one local decision.

  The state has the cache, the backend \<open>sy_db\<close> that the \<open>load\<close> closures read, the executions
  that singleflight has started, and the program counter of each goroutine with its local variables.
  Three components are there to state the properties and are read by no step: \<open>sy_dirty\<close>, the keys
  written in the backend and not invalidated since, \<open>sy_invs\<close>, the number of invalidations, and per
  goroutine \<open>th_clean\<close>, the keys that were not dirty when its call started and have not been
  written since.

  \<open>golang.org/x/sync/singleflight\<close> is the parameter \<open>shares\<close>: whether a call of \<open>Do\<close> with a
  key shares an execution started before; otherwise it runs the function itself. The closure
  \<open>versionOf\<close> of a batch may answer anything, a load may fail, and the context may be cancelled at
  any time. \<open>Store\<close> and \<open>StoreVersioned\<close>, which write without a guard, are not steps here.
\<close>

section \<open>The system\<close>

record 'v execution =
  ex_key :: string
  ex_result :: "(string + 'v \<times> bool) option"

type_synonym 'k batch_wait = "'k batch_miss \<times> nat"

text \<open>
  Program counters with the local variables that are still live. \<open>GetDone\<close> has a flag for a result
  received from an execution of another goroutine.
\<close>

datatype ('k, 'v) pc =
    Idle
  | GetLookup 'k int bool
  | GetDo 'k int bool
  | FnLookup 'k int bool nat
  | FnEpoch 'k int bool nat
  | FnLoad 'k int bool nat "64 word"
  | FnStore 'k int bool nat "64 word" 'v
  | FnReturn 'k int bool nat "string + 'v \<times> bool"
  | GetWait 'k int bool nat
  | GetDone 'k bool "string + 'v"
  | BuildEpoch 'k
  | BuildLoad 'k "64 word"
  | BuildStore 'k "64 word" 'v
  | BatchStart "'k list"
  | BatchLook "'k list" "64 word" "'k list" "'k \<rightharpoonup> 'v" "'k batch_miss list"
  | BatchLoad "'k list" "64 word" "'k \<rightharpoonup> 'v" "'k batch_wait list" "'k batch_wait list" "'k \<rightharpoonup> 'v"
  | BatchStore "'k list" "64 word" "'k \<rightharpoonup> 'v" "'k batch_wait list" "'k batch_wait list" "'k \<rightharpoonup> 'v"
  | BatchComplete "'k list" "64 word" "'k \<rightharpoonup> 'v" "'k batch_wait list" "'k batch_wait list" "'k \<rightharpoonup> 'v" "string option" bool
  | BatchWait "'k list" "64 word" "'k \<rightharpoonup> 'v" "'k batch_wait list" bool
  | BatchDone "string + ('k \<rightharpoonup> 'v)"

record ('k, 'v) thread =
  th_pc :: "('k, 'v) pc"
  th_clean :: "'k set"

record ('k, 'v, 'i) sys =
  sy_cache :: "('k, 'v, 'i) cache"
  sy_db :: "'k \<Rightarrow> 'v"
  sy_dirty :: "'k set"
  sy_invs :: nat
  sy_execs :: "'v execution list"
  sy_thr :: "nat \<Rightarrow> ('k, 'v) thread"

definition pc_of :: "('k, 'v, 'i) sys \<Rightarrow> nat \<Rightarrow> ('k, 'v) pc" where
  "pc_of s t = th_pc (sy_thr s t)"

definition clean_of :: "('k, 'v, 'i) sys \<Rightarrow> nat \<Rightarrow> 'k set" where
  "clean_of s t = th_clean (sy_thr s t)"

definition goto :: "nat \<Rightarrow> ('k, 'v) pc \<Rightarrow> ('k, 'v, 'i) sys \<Rightarrow> ('k, 'v, 'i) sys" where
  "goto t p s = s\<lparr>sy_thr := (sy_thr s)(t := (sy_thr s t)\<lparr>th_pc := p\<rparr>)\<rparr>"

definition set_cache :: "('k, 'v, 'i) cache \<Rightarrow> ('k, 'v, 'i) sys \<Rightarrow> ('k, 'v, 'i) sys" where
  "set_cache c s = s\<lparr>sy_cache := c\<rparr>"

text \<open>A call starts: its clean keys are those not dirty now.\<close>

definition start_call :: "nat \<Rightarrow> ('k, 'v) pc \<Rightarrow> ('k, 'v, 'i) sys \<Rightarrow> ('k, 'v, 'i) sys" where
  "start_call t p s = s\<lparr>sy_thr := (sy_thr s)(t := \<lparr>th_pc = p, th_clean = - sy_dirty s\<rparr>)\<rparr>"

section \<open>GetOrLoad\<close>

text \<open>What a caller does with the result of \<open>Do\<close>: return it, or look again unless cancelled.\<close>

inductive get_result :: "'k \<Rightarrow> int \<Rightarrow> bool \<Rightarrow> bool \<Rightarrow> (string + 'v \<times> bool) \<Rightarrow> ('k, 'v) pc \<Rightarrow> bool" where
  failed: "get_result k h ver joined (Inl err) (GetDone k joined (Inl err))"
| stored: "get_result k h ver joined (Inr (v, True)) (GetDone k joined (Inr v))"
| again: "get_result k h ver joined (Inr (v, False)) (GetLookup k h ver)"
| cancelled: "get_result k h ver joined (Inr (v, False)) (GetDone k joined (Inl ctxErr))"

inductive get_step :: "('v execution list \<Rightarrow> string \<Rightarrow> nat \<Rightarrow> bool) \<Rightarrow> nat \<Rightarrow> ('k, 'v, 'i) sys \<Rightarrow> ('k, 'v, 'i) sys \<Rightarrow> bool"
  for shares t where
  get_call: "pc_of s t = Idle \<Longrightarrow> get_step shares t s (start_call t (GetLookup k h ver) s)"
| get_hit: "pc_of s t = GetLookup k h ver \<Longrightarrow> Cache_lookup now (sy_cache s) k h ver = (Some v, c) \<Longrightarrow>
    get_step shares t s (goto t (GetDone k False (Inr v)) (set_cache c s))"
| get_miss: "pc_of s t = GetLookup k h ver \<Longrightarrow> Cache_lookup now (sy_cache s) k h ver = (None, c) \<Longrightarrow>
    get_step shares t s (goto t (GetDo k h ver) (set_cache c s))"
| do_run: "pc_of s t = GetDo k h ver \<Longrightarrow> key = singleflightKey (sy_cache s) k h ver \<Longrightarrow>
    (\<And>i. \<not> shares (sy_execs s) key i) \<Longrightarrow>
    get_step shares t s (goto t (FnLookup k h ver (length (sy_execs s)))
      (s\<lparr>sy_execs := sy_execs s @ [\<lparr>ex_key = key, ex_result = None\<rparr>]\<rparr>))"
| do_join: "pc_of s t = GetDo k h ver \<Longrightarrow> shares (sy_execs s) (singleflightKey (sy_cache s) k h ver) i \<Longrightarrow>
    get_step shares t s (goto t (GetWait k h ver i) s)"
| fn_hit: "pc_of s t = FnLookup k h ver i \<Longrightarrow> Cache_lookup now (sy_cache s) k h ver = (Some v, c) \<Longrightarrow>
    get_step shares t s (goto t (FnReturn k h ver i (Inr (v, True))) (set_cache c s))"
| fn_miss: "pc_of s t = FnLookup k h ver i \<Longrightarrow> Cache_lookup now (sy_cache s) k h ver = (None, c) \<Longrightarrow>
    get_step shares t s (goto t (FnEpoch k h ver i) (set_cache c s))"
| fn_epoch: "pc_of s t = FnEpoch k h ver i \<Longrightarrow>
    get_step shares t s (goto t (FnLoad k h ver i (cacheEpoch (sy_cache s))) s)"
| fn_load: "pc_of s t = FnLoad k h ver i e \<Longrightarrow> get_step shares t s (goto t (FnStore k h ver i e (sy_db s k)) s)"
| fn_fail: "pc_of s t = FnLoad k h ver i e \<Longrightarrow> get_step shares t s (goto t (FnReturn k h ver i (Inl err)) s)"
| fn_store: "pc_of s t = FnStore k h ver i e v \<Longrightarrow> storeIfEpoch now (sy_cache s) k v h e = (stored, c) \<Longrightarrow>
    get_step shares t s (goto t (FnReturn k h ver i (Inr (cloneValue (sy_cache s) v, stored))) (set_cache c s))"
| fn_return: "pc_of s t = FnReturn k h ver i r \<Longrightarrow> get_result k h ver False r p \<Longrightarrow>
    get_step shares t s (goto t p (s\<lparr>sy_execs := (sy_execs s)[i := (sy_execs s ! i)\<lparr>ex_result := Some r\<rparr>]\<rparr>))"
| get_shared: "pc_of s t = GetWait k h ver i \<Longrightarrow> i < length (sy_execs s) \<Longrightarrow> ex_result (sy_execs s ! i) = Some r \<Longrightarrow>
    get_result k h ver True r p \<Longrightarrow> get_step shares t s (goto t p s)"
| get_done: "pc_of s t = GetDone k j r \<Longrightarrow> get_step shares t s (goto t Idle s)"

section \<open>LoadEpoch and StoreIfEpoch around a value built outside\<close>

inductive build_step :: "nat \<Rightarrow> ('k, 'v, 'i) sys \<Rightarrow> ('k, 'v, 'i) sys \<Rightarrow> bool" for t where
  build_call: "pc_of s t = Idle \<Longrightarrow> build_step t s (start_call t (BuildEpoch k) s)"
| build_epoch: "pc_of s t = BuildEpoch k \<Longrightarrow>
    build_step t s (goto t (BuildLoad k (LoadEpoch (Some (sy_cache s)))) s)"
| build_load: "pc_of s t = BuildLoad k e \<Longrightarrow> build_step t s (goto t (BuildStore k e (sy_db s k)) s)"
| build_fail: "pc_of s t = BuildLoad k e \<Longrightarrow> build_step t s (goto t Idle s)"
| build_store: "pc_of s t = BuildStore k e v \<Longrightarrow>
    build_step t s (goto t Idle (set_cache (the (StoreIfEpoch now (Some (sy_cache s)) k v e)) s))"

section \<open>GetOrLoadBatch\<close>

text \<open>The entries that a batch writes back: the loaded values of its cacheable keys.\<close>

definition batch_entries :: "'k batch_wait list \<Rightarrow> ('k \<rightharpoonup> 'v) \<Rightarrow> ('k \<times> 'v \<times> int) list" where
  "batch_entries owned loaded =
    concat (map (\<lambda>((key, hash, cacheable), f).
      case loaded key of Some value \<Rightarrow> if cacheable then [(key, value, hash)] else [] | None \<Rightarrow> []) owned)"

inductive batch_step :: "nat \<Rightarrow> ('k, 'v, 'i) sys \<Rightarrow> ('k, 'v, 'i) sys \<Rightarrow> bool" for t where
  batch_call: "pc_of s t = Idle \<Longrightarrow> keys \<noteq> [] \<Longrightarrow> batch_step t s (start_call t (BatchStart keys) s)"
| batch_empty: "pc_of s t = Idle \<Longrightarrow> batch_step t s (start_call t (BatchDone (Inr Map.empty)) s)"
| batch_epoch: "pc_of s t = BatchStart keys \<Longrightarrow>
    batch_step t s (goto t (BatchLook keys (cacheEpoch (sy_cache s)) (dedupeKeys keys) Map.empty []) s)"
| look_hit: "pc_of s t = BatchLook keys e (k # rest) out missing \<Longrightarrow>
    Cache_lookup now (sy_cache s) k hash (hash \<noteq> 0) = (Some v, c) \<Longrightarrow>
    batch_step t s (goto t (BatchLook keys e rest (out(k \<mapsto> v)) missing) (set_cache c s))"
| look_miss: "pc_of s t = BatchLook keys e (k # rest) out missing \<Longrightarrow>
    Cache_lookup now (sy_cache s) k hash (hash \<noteq> 0) = (None, c) \<Longrightarrow>
    batch_step t s (goto t (BatchLook keys e rest out (missing @ [(k, hash, True)])) (set_cache c s))"
| look_bypass: "pc_of s t = BatchLook keys e (k # rest) out missing \<Longrightarrow>
    batch_step t s (goto t (BatchLook keys e rest out (missing @ [(k, hash, False)])) s)"
| all_hit: "pc_of s t = BatchLook keys e [] out [] \<Longrightarrow> batch_step t s (goto t (BatchDone (Inr out)) s)"
| claim_own: "pc_of s t = BatchLook keys e [] out missing \<Longrightarrow> missing \<noteq> [] \<Longrightarrow>
    claimBatchFlights e missing (sy_cache s) = (waits, owned, c) \<Longrightarrow> owned \<noteq> [] \<Longrightarrow>
    batch_step t s (goto t (BatchLoad keys e out waits owned Map.empty) (set_cache c s))"
| claim_wait: "pc_of s t = BatchLook keys e [] out missing \<Longrightarrow> missing \<noteq> [] \<Longrightarrow>
    claimBatchFlights e missing (sy_cache s) = (waits, [], c) \<Longrightarrow>
    batch_step t s (goto t (BatchWait keys e out waits False) (set_cache c s))"
| load_read: "pc_of s t = BatchLoad keys e out waits owned loaded \<Longrightarrow> ((k, hash, cacheable), f) \<in> set owned \<Longrightarrow>
    batch_step t s (goto t (BatchLoad keys e out waits owned (loaded(k \<mapsto> sy_db s k))) s)"
| load_end: "pc_of s t = BatchLoad keys e out waits owned loaded \<Longrightarrow>
    batch_step t s (goto t (BatchStore keys e out waits owned loaded) s)"
| load_fail: "pc_of s t = BatchLoad keys e out waits owned loaded \<Longrightarrow>
    batch_step t s (goto t (BatchComplete keys e out waits owned loaded (Some err) False) s)"
| batch_store: "pc_of s t = BatchStore keys e out waits owned loaded \<Longrightarrow>
    storeBatchIfEpoch now (batch_entries owned loaded) e (sy_cache s) = (ok, c) \<Longrightarrow>
    batch_step t s (goto t (BatchComplete keys e out waits owned loaded None (\<not> ok)) (set_cache c s))"
| complete_one: "pc_of s t = BatchComplete keys e out waits (((k, hash, cacheable), f) # owned) loaded err retry \<Longrightarrow>
    batch_step t s (goto t (BatchComplete keys e out waits owned loaded err retry)
      (set_cache (completeBatchFlight (miss_key e (k, hash, cacheable)) f (loaded k) err retry (sy_cache s)) s))"
| complete_end: "pc_of s t = BatchComplete keys e out waits [] loaded err retry \<Longrightarrow>
    batch_step t s (goto t (BatchWait keys e out waits False) s)"
| wait_cancel: "pc_of s t = BatchWait keys e out (w # waits) retry \<Longrightarrow>
    batch_step t s (goto t (BatchDone (Inl ctxErr)) s)"
| wait_err: "pc_of s t = BatchWait keys e out ((m, f) # waits) retry \<Longrightarrow> bf_done (ca_flights (sy_cache s) ! f) \<Longrightarrow>
    bf_err (ca_flights (sy_cache s) ! f) = Some err \<Longrightarrow> batch_step t s (goto t (BatchDone (Inl err)) s)"
| wait_retry: "pc_of s t = BatchWait keys e out ((m, f) # waits) retry \<Longrightarrow> bf_done (ca_flights (sy_cache s) ! f) \<Longrightarrow>
    bf_err (ca_flights (sy_cache s) ! f) = None \<Longrightarrow> bf_retry (ca_flights (sy_cache s) ! f) \<Longrightarrow>
    batch_step t s (goto t (BatchWait keys e out waits True) s)"
| wait_none: "pc_of s t = BatchWait keys e out ((m, f) # waits) retry \<Longrightarrow> bf_done (ca_flights (sy_cache s) ! f) \<Longrightarrow>
    bf_err (ca_flights (sy_cache s) ! f) = None \<Longrightarrow> \<not> bf_retry (ca_flights (sy_cache s) ! f) \<Longrightarrow>
    bf_value (ca_flights (sy_cache s) ! f) = None \<Longrightarrow>
    batch_step t s (goto t (BatchWait keys e out waits retry) s)"
| wait_value: "pc_of s t = BatchWait keys e out (((k, hash, cacheable), f) # waits) retry \<Longrightarrow>
    bf_done (ca_flights (sy_cache s) ! f) \<Longrightarrow> bf_err (ca_flights (sy_cache s) ! f) = None \<Longrightarrow>
    \<not> bf_retry (ca_flights (sy_cache s) ! f) \<Longrightarrow> bf_value (ca_flights (sy_cache s) ! f) = Some v \<Longrightarrow>
    batch_step t s (goto t (BatchWait keys e (out(k \<mapsto> cloneValue (sy_cache s) v)) waits retry) s)"
| wait_again: "pc_of s t = BatchWait keys e out [] True \<Longrightarrow> batch_step t s (goto t (BatchStart keys) s)"
| wait_stop: "pc_of s t = BatchWait keys e out [] True \<Longrightarrow> batch_step t s (goto t (BatchDone (Inl ctxErr)) s)"
| wait_end: "pc_of s t = BatchWait keys e out [] False \<Longrightarrow> batch_step t s (goto t (BatchDone (Inr out)) s)"
| batch_done: "pc_of s t = BatchDone r \<Longrightarrow> batch_step t s (goto t Idle s)"

section \<open>Writers\<close>

definition db_write :: "'k \<Rightarrow> 'v \<Rightarrow> ('k, 'v, 'i) sys \<Rightarrow> ('k, 'v, 'i) sys" where
  "db_write k v s = s\<lparr>sy_db := (sy_db s)(k := v), sy_dirty := insert k (sy_dirty s),
    sy_thr := (\<lambda>t. (sy_thr s t)\<lparr>th_clean := th_clean (sy_thr s t) - {k}\<rparr>)\<rparr>"

definition invalidated :: "('k, 'v, 'i) cache \<Rightarrow> 'k set \<Rightarrow> ('k, 'v, 'i) sys \<Rightarrow> ('k, 'v, 'i) sys" where
  "invalidated c ks s = s\<lparr>sy_cache := c, sy_dirty := sy_dirty s - ks, sy_invs := sy_invs s + 1\<rparr>"

text \<open>The invalidations, with the keys each one covers.\<close>

inductive inval_of :: "('k, 'v, 'i) cache \<Rightarrow> ('k, 'v, 'i) cache \<Rightarrow> 'k set \<Rightarrow> bool" for c where
  by_keys: "ks \<noteq> [] \<Longrightarrow> inval_of c (the (Invalidate (Some c) ks)) (set ks)"
| by_key_pred: "dom (ca_items c) \<subseteq> set ord \<Longrightarrow> inval_of c (the (InvalidateWhere ord (Some c) (Some p))) {k. p k}"
| by_value_pred: "dom (ca_items c) \<subseteq> set ord \<Longrightarrow>
    inval_of c (the (InvalidateWhereValue ord (Some c) (Some q))) {k. \<forall>v. q k v}"
| by_flush: "inval_of c (the (Flush (Some c))) UNIV"

inductive env_step :: "('k, 'v, 'i) sys \<Rightarrow> ('k, 'v, 'i) sys \<Rightarrow> bool" where
  db_writes: "env_step s (db_write k v s)"
| invalidates: "inval_of (sy_cache s) c ks \<Longrightarrow> env_step s (invalidated c ks s)"

inductive sys_step :: "('v execution list \<Rightarrow> string \<Rightarrow> nat \<Rightarrow> bool) \<Rightarrow> ('k, 'v, 'i) sys \<Rightarrow> ('k, 'v, 'i) sys \<Rightarrow> bool"
  for shares where
  get: "get_step shares t s s' \<Longrightarrow> sys_step shares s s'"
| build: "build_step t s s' \<Longrightarrow> sys_step shares s s'"
| batch: "batch_step t s s' \<Longrightarrow> sys_step shares s s'"
| env: "env_step s s' \<Longrightarrow> sys_step shares s s'"

definition sys_new :: "('k, 'v, 'i) cache \<Rightarrow> ('k \<Rightarrow> 'v) \<Rightarrow> ('k, 'v, 'i) sys" where
  "sys_new c db = \<lparr>sy_cache = c, sy_db = db, sy_dirty = {}, sy_invs = 0, sy_execs = [],
    sy_thr = (\<lambda>t. \<lparr>th_pc = Idle, th_clean = {}\<rparr>)\<rparr>"

inductive sys_reach :: "('v execution list \<Rightarrow> string \<Rightarrow> nat \<Rightarrow> bool) \<Rightarrow> ('k, 'v, 'i) cache_config \<Rightarrow> ('k, 'v, 'i) sys \<Rightarrow> bool"
  for shares cfg where
  init: "Cache_New sprint i cfg = Some c \<Longrightarrow> sys_reach shares cfg (sys_new c db)"
| stepped: "sys_reach shares cfg s \<Longrightarrow> sys_step shares s s' \<Longrightarrow> sys_reach shares cfg s'"

end
