(* ===== verification/Flight_Properties.thy ===== *)
theory Flight_Properties
  imports Cache_Flights
begin

text \<open>
  What the epoch guard and the batch flights guarantee under every interleaving: a cached value of a
  key whose writes have been invalidated is the backend's current value, a batch read that starts
  after an invalidation returns nothing older, and a batch flight has one owner until it is done. The
  locale \<open>guarded_table\<close> is what these proofs need of the cache table; the read-model cache
  satisfies it.
\<close>

section \<open>The table behind the guard\<close>

definition fresh_table :: "('k \<rightharpoonup> 'v) \<Rightarrow> ('k \<Rightarrow> 'v) \<Rightarrow> 'k set \<Rightarrow> bool" where
  "fresh_table m db dirty \<longleftrightarrow> (\<forall>k v. m k = Some v \<longrightarrow> k \<notin> dirty \<longrightarrow> v = db k)"

locale guarded_table =
  fixes good :: "'c \<Rightarrow> bool" and table :: "'c \<Rightarrow> 'k \<rightharpoonup> 'v"
    and look :: "int \<Rightarrow> 'c \<Rightarrow> 'k \<Rightarrow> int \<Rightarrow> bool \<Rightarrow> 'v option \<times> 'c"
    and put :: "int \<Rightarrow> 'c \<Rightarrow> 'k \<Rightarrow> 'v \<Rightarrow> int \<Rightarrow> 'c"
    and wipe :: "'c \<Rightarrow> 'c \<Rightarrow> 'k set \<Rightarrow> bool"
  assumes look_law: "good c \<Longrightarrow> look now c k h ver = (r, c') \<Longrightarrow>
      good c' \<and> table c' \<subseteq>\<^sub>m table c \<and> (\<forall>v. r = Some v \<longrightarrow> table c k = Some v)"
    and put_law: "good c \<Longrightarrow> good (put now c k v h) \<and> table (put now c k v h) \<subseteq>\<^sub>m (table c)(k \<mapsto> v)"
    and wipe_law: "good c \<Longrightarrow> wipe c c' ks \<Longrightarrow> good c' \<and> table c' \<subseteq>\<^sub>m table c |` (- ks)"
begin

lemma look_fresh:
  assumes "good c" and "look now c k h ver = (r, c')" and "fresh_table (table c) db dirty"
  shows "fresh_table (table c') db dirty" and "r = Some v \<Longrightarrow> k \<notin> dirty \<Longrightarrow> v = db k"
  using look_law[OF assms(1,2)] assms(3) unfolding fresh_table_def map_le_def by (metis domI)+

lemma put_fresh:
  assumes "good c" and "fresh_table (table c) db dirty" and "k \<notin> dirty \<Longrightarrow> v = db k"
  shows "fresh_table (table (put now c k v h)) db dirty"
  unfolding fresh_table_def
proof (intro allI impI)
  fix k' v' assume "table (put now c k v h) k' = Some v'" and "k' \<notin> dirty"
  then have "((table c)(k \<mapsto> v)) k' = Some v'"
    using put_law[OF assms(1), of now k v h] unfolding map_le_def by (metis domI)
  then show "v' = db k'" using assms(2,3) \<open>k' \<notin> dirty\<close> by (auto simp: fresh_table_def split: if_splits)
qed

lemma puts_fresh:
  assumes "good c" and "fresh_table (table c) db dirty"
    and "\<And>k v h. (k, v, h) \<in> set es \<Longrightarrow> k \<notin> dirty \<Longrightarrow> v = db k"
  shows "good (fold (\<lambda>(k, v, h) c. put now c k v h) es c) \<and>
    fresh_table (table (fold (\<lambda>(k, v, h) c. put now c k v h) es c)) db dirty"
  using assms
proof (induction es arbitrary: c)
  case (Cons x es)
  obtain k v h where x: "x = (k, v, h)" by (cases x)
  have "good (put now c k v h)" using put_law[OF Cons.prems(1)] by simp
  moreover have "fresh_table (table (put now c k v h)) db dirty"
    by (rule put_fresh[OF Cons.prems(1,2)]) (use Cons.prems(3) x in auto)
  ultimately show ?case using Cons.IH[of "put now c k v h"] Cons.prems(3) x by auto
qed simp

text \<open>After an invalidation the keys it covers are no longer dirty: none of them is in the table.\<close>

lemma wipe_fresh:
  assumes "good c" and "wipe c c' ks" and "fresh_table (table c) db dirty"
  shows "fresh_table (table c') db (dirty - ks)"
  unfolding fresh_table_def
proof (intro allI impI)
  fix k v assume "table c' k = Some v" and "k \<notin> dirty - ks"
  then have "(table c |` (- ks)) k = Some v"
    using wipe_law[OF assms(1,2)] unfolding map_le_def by (metis domI)
  then show "v = db k" using assms(3) \<open>k \<notin> dirty - ks\<close> by (auto simp: fresh_table_def restrict_map_def split: if_splits)
qed

end

section \<open>The read-model cache is such a table\<close>

text \<open>\<open>Clone\<close> is documented as a deep copy: the copy has the value of the original.\<close>

definition good_cache :: "('k, 'v, 'i) cache_config \<Rightarrow> ('k, 'v, 'i) cache \<Rightarrow> bool" where
  "good_cache cfg c \<longleftrightarrow> cache_inv cfg c \<and> (\<forall>v. clone_for cfg v = v)"

lemma contents_abs: "cache_inv cfg c \<Longrightarrow> contents c k = map_option en_value (find_key k (lr_entries (abs_cache c)))"
  using contents_entries[OF cache_invD(1)] by (auto simp: abs_cache_def)

lemma find_key_SomeD: "find_key k es = Some e \<Longrightarrow> e \<in> set es \<and> en_key e = k"
  by (induction es) (auto simp: find_key_def split: if_splits)

lemma spec_lookup_find:
  assumes "spec_lookup cfg now k h ver es = (r, es')" and "find_key k' es' = Some e"
  shows "find_key k' es = Some e"
proof -
  have "en_key x = k" if "find_key k es = Some x" for x using find_key_SomeD[OF that] by simp
  then show ?thesis using assms by (auto simp: spec_lookup_def split: option.splits if_splits)
qed

lemma find_key_filter_le:
  assumes "distinct (map en_key es)" and "find_key k (filter keep es) = Some e"
  shows "find_key k es = Some e \<and> keep e \<and> en_key e = k"
proof -
  have e: "e \<in> set es" "keep e" "en_key e = k" using find_key_SomeD[OF assms(2)] by auto
  obtain e' where e': "find_key k es = Some e'"
    using e by (cases "find_key k es") (auto simp: find_key_def find_None_iff)
  then have "e' \<in> set es" "en_key e' = k" by (auto dest: find_key_SomeD)
  then have "e' = e" using e assms(1) by (metis (no_types, lifting) distinct_map inj_on_def)
  with e e' show ?thesis by simp
qed

lemma fit_prefix_take: "\<exists>n. fit_prefix a b w es = take n es"
proof (induction es arbitrary: a w)
  case (Cons e es)
  obtain n where "fit_prefix (a - 1) b (w - en_weight e) es = take n es" using Cons.IH by blast
  then have "fit_prefix a b w (e # es) = take (if a \<ge> 1 \<and> (b \<longrightarrow> en_weight e \<le> w) then Suc n else 0) (e # es)" by simp
  then show ?case by blast
qed simp

lemma find_key_take: "find_key k (take n es) = Some e \<Longrightarrow> find_key k es = Some e"
  by (induction es arbitrary: n) (auto simp: take_Cons find_key_def split: nat.splits if_splits)

lemma wiped_contents:
  assumes "cache_inv cfg c" and "cache_inv cfg c'" and "abs_cache c' = spec_inval keep (abs_cache c)"
    and "contents c' k = Some v"
  shows "contents c k = Some v \<and> (\<exists>e. en_key e = k \<and> en_value e = v \<and> keep e)"
proof -
  obtain e where e: "find_key k (filter keep (entries_of c)) = Some e" "en_value e = v"
    using assms(4) contents_abs[OF assms(2)] assms(3) by (auto simp: spec_inval_def abs_cache_def)
  from find_key_filter_le[OF entries_keys_distinct[OF cache_invD(1)[OF assms(1)]] e(1)] e(2) show ?thesis
    using contents_entries[OF cache_invD(1)[OF assms(1)], of k] by auto
qed

lemma map_leI: "(\<And>k v. m k = Some v \<Longrightarrow> m' k = Some v) \<Longrightarrow> m \<subseteq>\<^sub>m m'"
  by (force simp: map_le_def)

interpretation rmc: guarded_table "good_cache cfg" contents Cache_lookup storeLocked inval_of
  for cfg :: "('k, 'v, 'i) cache_config"
proof
  fix c c' :: "('k, 'v, 'i) cache" and now k h ver r
  assume g: "good_cache cfg c" and l: "Cache_lookup now c k h ver = (r, c')"
  then have inv: "cache_inv cfg c" and cl: "\<And>v. clone_for cfg v = v" by (auto simp: good_cache_def)
  have inv': "cache_inv cfg c'" and sp: "spec_lookup cfg now k h ver (entries_of c) = (r, entries_of c')"
    using lookup_inv[OF inv, of now k h ver] l by auto
  have "contents c' k' = Some v \<Longrightarrow> contents c k' = Some v" for k' v
    using spec_lookup_find[OF sp] contents_entries[OF cache_invD(1)[OF inv], of k']
      contents_entries[OF cache_invD(1)[OF inv'], of k'] by auto
  then show "good_cache cfg c' \<and> contents c' \<subseteq>\<^sub>m contents c \<and> (\<forall>v. r = Some v \<longrightarrow> contents c k = Some v)"
    using sp g inv' contents_entries[OF cache_invD(1)[OF inv]] cl
    by (auto simp: spec_lookup_def good_cache_def intro: map_leI split: option.splits if_splits)
next
  fix c :: "('k, 'v, 'i) cache" and now k v h
  assume g: "good_cache cfg c"
  then have inv: "cache_inv cfg c" and cl: "\<And>v. clone_for cfg v = v" by (auto simp: good_cache_def)
  note st = store_inv[OF inv, of now k v h]
  then have inv': "cache_inv cfg (storeLocked now c k v h)"
    and ents: "entries_of (storeLocked now c k v h) = spec_store cfg now k v h (entries_of c)" by (auto simp: abs_cache_def)
  obtain n where n: "fit_prefix (cf_MaxEntries cfg) (cf_MaxWeight cfg > 0) (cf_MaxWeight cfg)
      (spec_entry cfg now k v h # drop_key k (entries_of c)) = take n (spec_entry cfg now k v h # drop_key k (entries_of c))"
    using fit_prefix_take by blast
  have "((contents c)(k \<mapsto> v)) k' = Some w" if st: "contents (storeLocked now c k v h) k' = Some w" for k' w
  proof -
    obtain e where e: "find_key k' (spec_store cfg now k v h (entries_of c)) = Some e" "en_value e = w"
      using st contents_entries[OF cache_invD(1)[OF inv'], of k'] ents by auto
    then have "find_key k' (spec_entry cfg now k v h # drop_key k (entries_of c)) = Some e \<or>
      find_key k' (drop_key k (entries_of c)) = Some e"
      using find_key_take n by (auto simp: spec_store_def simp del: find_key_Cons find_drop_key fit_prefix.simps split: if_splits)
    then show ?thesis using e(2) contents_entries[OF cache_invD(1)[OF inv], of k'] cl
      by (auto simp: spec_entry_def split: if_splits)
  qed
  then show "good_cache cfg (storeLocked now c k v h) \<and> contents (storeLocked now c k v h) \<subseteq>\<^sub>m (contents c)(k \<mapsto> v)"
    using g inv' by (auto simp: good_cache_def intro!: map_leI)
next
  fix c c' :: "('k, 'v, 'i) cache" and ks
  assume g: "good_cache cfg c" and w: "inval_of c c' ks"
  then have inv: "cache_inv cfg c" by (simp add: good_cache_def)
  from w obtain keep where k: "cache_inv cfg c'" "abs_cache c' = spec_inval keep (abs_cache c)"
    "\<And>e. en_key e \<in> ks \<Longrightarrow> \<not> keep e"
    by cases (use Invalidate_ok[OF inv] InvalidateWhere_ok[OF inv] InvalidateWhereValue_ok[OF inv] Flush_ok[OF inv] in force)+
  have "(contents c |` (- ks)) k' = Some v" if "contents c' k' = Some v" for k' v
    using wiped_contents[OF inv k(1,2) that] k(3) by (auto simp: restrict_map_def)
  then show "good_cache cfg c' \<and> contents c' \<subseteq>\<^sub>m contents c |` (- ks)"
    using g k(1) map_leI by (auto simp: good_cache_def)
qed

section \<open>What the steps leave alone\<close>

declare split_paired_All [simp del] split_paired_Ex [simp del]

definition side :: "('k, 'v, 'i) cache \<Rightarrow> 64 word \<times> ('k batch_flight_key \<rightharpoonup> nat) \<times> ('k, 'v) batch_flight list" where
  "side c = (ca_epoch c, ca_batchFlights c, ca_flights c)"

lemma side_fields:
  "side c' = side c \<Longrightarrow> ca_epoch c' = ca_epoch c \<and> ca_batchFlights c' = ca_batchFlights c \<and> ca_flights c' = ca_flights c"
  by (simp add: side_def)

lemma lookup_side: "Cache_lookup now c k h ver = (r, c') \<Longrightarrow> side c' = side c"
  by (auto simp: Cache_lookup_def side_def Let_def split: option.splits if_splits)

lemma store_side [simp]: "side (storeLocked now c k v h) = side c"
  by (simp add: side_def)

lemma fold_side: "(\<And>x c. side (f x c) = side c) \<Longrightarrow> side (fold f xs c) = side c"
  by (induction xs arbitrary: c) auto

lemma stores_side [simp]: "side (fold (\<lambda>(k, v, h) c. storeLocked now c k v h) es c) = side c"
  by (rule fold_side) (simp split: prod.split)

lemma inval_side:
  assumes "inval_of c c' ks"
  shows "ca_epoch c' = ca_epoch c + 1 \<and> ca_batchFlights c' = ca_batchFlights c \<and> ca_flights c' = ca_flights c"
proof -
  have f: "?thesis" if "c' = fold f xs (bump_epoch c)" and "\<And>x c. side (f x c) = side c"
    for f and xs :: "'a list" using that(1) fold_side[of f xs "bump_epoch c", OF that(2)] by (simp add: side_def)
  from assms show ?thesis
  proof cases
    case (by_keys ks)
    then show ?thesis by (intro f[of "\<lambda>k c. remove_key c k" ks]) (simp_all add: Invalidate_def side_def)
  next
    case (by_key_pred ord p)
    then show ?thesis by (intro f[of "\<lambda>k c. if p k then remove_key c k else c" ord]) (simp_all add: InvalidateWhere_def side_def)
  next
    case (by_value_pred ord q)
    then show ?thesis
      by (intro f[of "\<lambda>k c. case ca_items c k of None \<Rightarrow> c
          | Some el \<Rightarrow> if q k (en_value (ca_heap c ! el)) then Cache_removeElement c el else c" ord])
        (simp_all add: InvalidateWhereValue_def side_def split: option.split)
  next
    case by_flush
    then show ?thesis using Flush_eq[of c] by auto
  qed
qed

section \<open>The invariant\<close>

fun pc_snap :: "('k, 'v) pc \<Rightarrow> 64 word option" where
  "pc_snap (FnLoad k h ver i e) = Some e"
| "pc_snap (FnStore k h ver i e v) = Some e"
| "pc_snap (BuildLoad k e) = Some e"
| "pc_snap (BuildStore k e v) = Some e"
| "pc_snap (BatchLook keys e rest out missing) = Some e"
| "pc_snap (BatchLoad keys e out waits owned loaded) = Some e"
| "pc_snap (BatchStore keys e out waits owned loaded) = Some e"
| "pc_snap (BatchComplete keys e out waits owned loaded err retry) = Some e"
| "pc_snap (BatchWait keys e out waits retry) = Some e"
| "pc_snap _ = None"

fun pc_iter :: "('k, 'v) pc \<Rightarrow> 64 word option" where
  "pc_iter (BatchLook keys e rest out missing) = Some e"
| "pc_iter (BatchLoad keys e out waits owned loaded) = Some e"
| "pc_iter (BatchStore keys e out waits owned loaded) = Some e"
| "pc_iter (BatchComplete keys e out waits owned loaded err retry) = Some e"
| "pc_iter (BatchWait keys e out waits retry) = Some e"
| "pc_iter _ = None"

fun pc_pend :: "('k, 'v) pc \<Rightarrow> 'k \<rightharpoonup> 'v" where
  "pc_pend (FnStore k h ver i e v) = [k \<mapsto> v]"
| "pc_pend (BuildStore k e v) = [k \<mapsto> v]"
| "pc_pend (BatchLoad keys e out waits owned loaded) = loaded"
| "pc_pend (BatchStore keys e out waits owned loaded) = loaded"
| "pc_pend (BatchComplete keys e out waits owned loaded err retry) = loaded"
| "pc_pend _ = Map.empty"

fun pc_out :: "('k, 'v) pc \<Rightarrow> 'k \<rightharpoonup> 'v" where
  "pc_out (FnStore k h ver i e v) = [k \<mapsto> v]"
| "pc_out (FnReturn k h ver i (Inr (v, stored))) = [k \<mapsto> v]"
| "pc_out (GetDone k False (Inr v)) = [k \<mapsto> v]"
| "pc_out (BatchLook keys e rest out missing) = out"
| "pc_out (BatchLoad keys e out waits owned loaded) = out"
| "pc_out (BatchStore keys e out waits owned loaded) = out"
| "pc_out (BatchComplete keys e out waits owned loaded err retry) = out"
| "pc_out (BatchWait keys e out waits retry) = out"
| "pc_out (BatchDone (Inr out)) = out"
| "pc_out _ = Map.empty"

fun pc_waits :: "('k, 'v) pc \<Rightarrow> 'k batch_wait list" where
  "pc_waits (BatchLoad keys e out waits owned loaded) = waits"
| "pc_waits (BatchStore keys e out waits owned loaded) = waits"
| "pc_waits (BatchComplete keys e out waits owned loaded err retry) = waits"
| "pc_waits (BatchWait keys e out waits retry) = waits"
| "pc_waits _ = []"

fun pc_owned :: "('k, 'v) pc \<Rightarrow> 'k batch_wait list" where
  "pc_owned (BatchLoad keys e out waits owned loaded) = owned"
| "pc_owned (BatchStore keys e out waits owned loaded) = owned"
| "pc_owned (BatchComplete keys e out waits owned loaded err retry) = owned"
| "pc_owned _ = []"

lemma pc_iter_snap: "pc_iter p = Some e \<Longrightarrow> pc_snap p = Some e"
  by (cases p) auto

text \<open>A value is current at an epoch when the epoch has passed, the key is dirty, or it is the backend's.\<close>

definition current :: "('k, 'v, 'i) sys \<Rightarrow> 64 word \<Rightarrow> 'k \<Rightarrow> 'v \<Rightarrow> bool" where
  "current s e k v \<longleftrightarrow> (e = ca_epoch (sy_cache s) \<longrightarrow> k \<notin> sy_dirty s \<longrightarrow> v = sy_db s k)"

text \<open>A value is good for the readers of an epoch when it is the backend's for their clean keys.\<close>

definition readable :: "('k, 'v, 'i) sys \<Rightarrow> 64 word \<Rightarrow> 'k \<Rightarrow> 'v \<Rightarrow> bool" where
  "readable s e k v \<longleftrightarrow> (\<forall>t. pc_iter (pc_of s t) = Some e \<longrightarrow> k \<in> clean_of s t \<longrightarrow> v = sy_db s k)"

definition thread_inv :: "('k, 'v, 'i) sys \<Rightarrow> nat \<Rightarrow> bool" where
  "thread_inv s t \<longleftrightarrow>
    clean_of s t \<inter> sy_dirty s = {} \<and> set (pc_owned (pc_of s t)) \<subseteq> set (pc_waits (pc_of s t)) \<and>
    (\<forall>e. pc_snap (pc_of s t) = Some e \<longrightarrow> unat e \<le> sy_invs s) \<and>
    (\<forall>e k v. pc_snap (pc_of s t) = Some e \<longrightarrow> pc_pend (pc_of s t) k = Some v \<longrightarrow> current s e k v) \<and>
    (\<forall>e k v. pc_iter (pc_of s t) = Some e \<longrightarrow> pc_pend (pc_of s t) k = Some v \<longrightarrow> readable s e k v) \<and>
    (\<forall>k v. pc_out (pc_of s t) k = Some v \<longrightarrow> k \<in> clean_of s t \<longrightarrow> v = sy_db s k) \<and>
    (\<forall>e m f. pc_iter (pc_of s t) = Some e \<longrightarrow> (m, f) \<in> set (pc_waits (pc_of s t)) \<longrightarrow>
      f < length (ca_flights (sy_cache s)) \<and> bf_key (ca_flights (sy_cache s) ! f) = miss_key e m)"

definition flight_inv :: "('k, 'v, 'i) sys \<Rightarrow> ('k, 'v) batch_flight \<Rightarrow> bool" where
  "flight_inv s fl \<longleftrightarrow> (\<forall>k h cc e v. bf_key fl = (k, h, cc, e) \<longrightarrow> bf_value fl = Some v \<longrightarrow>
    unat e \<le> sy_invs s \<and> current s e k v \<and> readable s e k v)"

definition sys_inv :: "('k, 'v, 'i) cache_config \<Rightarrow> ('k, 'v, 'i) sys \<Rightarrow> bool" where
  "sys_inv cfg s \<longleftrightarrow> good_cache cfg (sy_cache s) \<and> unat (ca_epoch (sy_cache s)) = sy_invs s \<and>
    fresh_table (contents (sy_cache s)) (sy_db s) (sy_dirty s) \<and> (\<forall>t. thread_inv s t) \<and>
    (\<forall>fl \<in> set (ca_flights (sy_cache s)). flight_inv s fl) \<and>
    (\<forall>key f. ca_batchFlights (sy_cache s) key = Some f \<longrightarrow>
      f < length (ca_flights (sy_cache s)) \<and> bf_key (ca_flights (sy_cache s) ! f) = key)"

lemma sys_invD:
  assumes "sys_inv cfg s"
  shows "good_cache cfg (sy_cache s)" "unat (ca_epoch (sy_cache s)) = sy_invs s"
    "fresh_table (contents (sy_cache s)) (sy_db s) (sy_dirty s)" "thread_inv s t"
    "fl \<in> set (ca_flights (sy_cache s)) \<Longrightarrow> flight_inv s fl"
    "ca_batchFlights (sy_cache s) key = Some f \<Longrightarrow>
      f < length (ca_flights (sy_cache s)) \<and> bf_key (ca_flights (sy_cache s) ! f) = key"
  using assms by (auto simp: sys_inv_def)

lemma thread_invD:
  assumes "thread_inv s t"
  shows "clean_of s t \<inter> sy_dirty s = {}" "pc_snap (pc_of s t) = Some e \<Longrightarrow> unat e \<le> sy_invs s"
    "pc_snap (pc_of s t) = Some e \<Longrightarrow> pc_pend (pc_of s t) k = Some v \<Longrightarrow> current s e k v"
    "pc_iter (pc_of s t) = Some e \<Longrightarrow> pc_pend (pc_of s t) k = Some v \<Longrightarrow> readable s e k v"
    "pc_out (pc_of s t) k = Some v \<Longrightarrow> k \<in> clean_of s t \<Longrightarrow> v = sy_db s k"
    "pc_iter (pc_of s t) = Some e \<Longrightarrow> (m, f) \<in> set (pc_waits (pc_of s t)) \<Longrightarrow>
      f < length (ca_flights (sy_cache s)) \<and> bf_key (ca_flights (sy_cache s) ! f) = miss_key e m"
    "set (pc_owned (pc_of s t)) \<subseteq> set (pc_waits (pc_of s t))"
  using assms by (auto simp: thread_inv_def)

lemma goto_simps [simp]:
  "sy_cache (goto t p s) = sy_cache s" "sy_db (goto t p s) = sy_db s" "sy_dirty (goto t p s) = sy_dirty s"
  "sy_invs (goto t p s) = sy_invs s" "pc_of (goto t p s) u = (if u = t then p else pc_of s u)"
  "clean_of (goto t p s) u = clean_of s u"
  "sy_cache (set_cache c s) = c" "sy_db (set_cache c s) = sy_db s" "sy_dirty (set_cache c s) = sy_dirty s"
  "sy_invs (set_cache c s) = sy_invs s" "pc_of (set_cache c s) u = pc_of s u" "clean_of (set_cache c s) u = clean_of s u"
  "sy_cache (s\<lparr>sy_execs := x\<rparr>) = sy_cache s" "pc_of (s\<lparr>sy_execs := x\<rparr>) = pc_of s" "clean_of (s\<lparr>sy_execs := x\<rparr>) = clean_of s"
  by (simp_all add: goto_def set_cache_def pc_of_def clean_of_def fun_eq_iff)

text \<open>The invariant does not look at the executions of singleflight.\<close>

lemma sys_inv_execs [simp]: "sys_inv cfg (s\<lparr>sy_execs := x\<rparr>) = sys_inv cfg s"
  by (simp add: sys_inv_def thread_inv_def flight_inv_def current_def readable_def)

text \<open>
  One goroutine \<open>t\<close> moves to \<open>p'\<close> and the cache changes to \<open>c\<close> without touching epoch or
  flights. What \<open>p'\<close> holds is either what the goroutine held before or was read just now.
\<close>

lemma readable_move:
  assumes inv: "sys_inv cfg s" and c: "ca_epoch c = ca_epoch (sy_cache s)"
    and iter: "pc_iter p' = None \<or> pc_iter p' = pc_iter (pc_of s t) \<or> pc_iter p' = Some (ca_epoch (sy_cache s))"
    and "current s e k v" and "readable s e k v"
  shows "readable (goto t p' (set_cache c s)) e k v"
  using assms(4,5) iter thread_invD(1)[OF sys_invD(4)[OF inv], of t] by (auto simp: readable_def current_def)

lemma move_inv:
  assumes inv: "sys_inv cfg s" and c: "good_cache cfg c" "side c = side (sy_cache s)"
    "fresh_table (contents c) (sy_db s) (sy_dirty s)"
    and snap: "\<And>e. pc_snap p' = Some e \<Longrightarrow> pc_snap (pc_of s t) = Some e \<or> e = ca_epoch (sy_cache s)"
    and pend: "\<And>k v. pc_pend p' k = Some v \<Longrightarrow> v = sy_db s k \<or> pc_pend (pc_of s t) k = Some v \<and>
      pc_snap p' = pc_snap (pc_of s t) \<and> (pc_iter p' = pc_iter (pc_of s t) \<or> pc_iter p' = None)"
    and out: "\<And>k v. pc_out p' k = Some v \<Longrightarrow> k \<in> clean_of s t \<Longrightarrow> v = sy_db s k"
    and iter: "pc_iter p' = None \<or> pc_iter p' = pc_iter (pc_of s t) \<or> pc_iter p' = Some (ca_epoch (sy_cache s))"
    and waits: "set (pc_waits p') \<subseteq> (if pc_iter p' = pc_iter (pc_of s t) then set (pc_waits (pc_of s t)) else {})"
    and owned: "set (pc_owned p') \<subseteq> set (pc_waits p')"
  shows "sys_inv cfg (goto t p' (set_cache c s))"
proof -
  let ?s = "goto t p' (set_cache c s)"
  note ep = side_fields[OF c(2)]
  have cur: "current ?s e k v \<longleftrightarrow> current s e k v" for e k v using ep by (simp add: current_def)
  note rd = readable_move[OF inv conjunct1[OF ep] iter]
  note T = thread_invD[OF sys_invD(4)[OF inv]]
  have "thread_inv ?s u" for u
  proof (cases "u = t")
    case False
    then show ?thesis using T(1-7)[of u] rd pc_iter_snap[of "pc_of s u"] ep
      unfolding thread_inv_def by (simp add: cur)
  next
    case True
    have a: "unat e \<le> sy_invs s" if "pc_snap p' = Some e" for e
      using snap[OF that] T(2)[of t e] sys_invD(2)[OF inv] by auto
    have b: "current s e k v" if "pc_snap p' = Some e" "pc_pend p' k = Some v" for e k v
      using pend[OF that(2)] that(1) T(3)[of t e k v] by (auto simp: current_def)
    have d: "readable ?s e k v" if "pc_iter p' = Some e" "pc_pend p' k = Some v" for e k v
      using pend[OF that(2)] that(1) T(4)[of t e k v] rd[OF b[OF pc_iter_snap[OF that(1)] that(2)]]
      by (auto simp: readable_def)
    have f: "g < length (ca_flights c) \<and> bf_key (ca_flights c ! g) = miss_key e m"
      if "pc_iter p' = Some e" "(m, g) \<in> set (pc_waits p')" for e m g
      using that waits T(6)[of t e m g] ep by (auto split: if_splits)
    show ?thesis using True T(1)[of t] a b d out f owned unfolding thread_inv_def by (simp add: cur)
  qed
  moreover have "flight_inv ?s fl" if "fl \<in> set (ca_flights c)" for fl
    using sys_invD(5)[OF inv, of fl] that ep rd unfolding flight_inv_def by (simp add: cur)
  ultimately show ?thesis using inv c ep by (simp add: sys_inv_def)
qed

text \<open>The same when the cache does not change at all.\<close>

lemma set_cache_same [simp]: "set_cache (sy_cache s) s = s"
  by (simp add: set_cache_def)

lemma move_same:
  assumes inv: "sys_inv cfg s"
    and "\<And>e. pc_snap p' = Some e \<Longrightarrow> pc_snap (pc_of s t) = Some e \<or> e = ca_epoch (sy_cache s)"
    and "\<And>k v. pc_pend p' k = Some v \<Longrightarrow> v = sy_db s k \<or> pc_pend (pc_of s t) k = Some v \<and>
      pc_snap p' = pc_snap (pc_of s t) \<and> (pc_iter p' = pc_iter (pc_of s t) \<or> pc_iter p' = None)"
    and "\<And>k v. pc_out p' k = Some v \<Longrightarrow> k \<in> clean_of s t \<Longrightarrow> v = sy_db s k"
    and "pc_iter p' = None \<or> pc_iter p' = pc_iter (pc_of s t) \<or> pc_iter p' = Some (ca_epoch (sy_cache s))"
    and "set (pc_waits p') \<subseteq> (if pc_iter p' = pc_iter (pc_of s t) then set (pc_waits (pc_of s t)) else {})"
    and "set (pc_owned p') \<subseteq> set (pc_waits p')"
  shows "sys_inv cfg (goto t p' s)"
  using move_inv[OF inv sys_invD(1)[OF inv] refl sys_invD(3)[OF inv] assms(2-7)] by simp

lemma start_inv:
  assumes inv: "sys_inv cfg s" and p: "pc_snap p = None" "pc_out p = Map.empty" "pc_owned p = []"
  shows "sys_inv cfg (start_call t p s)"
proof -
  let ?s = "start_call t p s"
  have eq: "sy_cache ?s = sy_cache s" "sy_db ?s = sy_db s" "sy_dirty ?s = sy_dirty s" "sy_invs ?s = sy_invs s"
    "pc_of ?s u = (if u = t then p else pc_of s u)" "clean_of ?s u = (if u = t then - sy_dirty s else clean_of s u)" for u
    by (simp_all add: start_call_def pc_of_def clean_of_def)
  have it: "pc_iter p = None" using p(1) pc_iter_snap[of p] by (cases "pc_iter p") auto
  have cur: "current ?s e k v \<longleftrightarrow> current s e k v" for e k v by (simp add: current_def eq)
  have rd: "readable s e k v \<Longrightarrow> readable ?s e k v" for e k v using it by (auto simp: readable_def eq)
  have "thread_inv ?s u" for u
    using thread_invD[OF sys_invD(4)[OF inv], of u] rd p it unfolding thread_inv_def by (simp add: eq cur)
  moreover have "flight_inv ?s fl" if "fl \<in> set (ca_flights (sy_cache s))" for fl
    using sys_invD(5)[OF inv that] rd unfolding flight_inv_def by (simp add: eq cur)
  ultimately show ?thesis using inv by (simp add: sys_inv_def eq)
qed

lemma write_inv:
  assumes inv: "sys_inv cfg s"
  shows "sys_inv cfg (db_write k v s)"
proof -
  let ?s = "db_write k v s"
  have eq: "sy_cache ?s = sy_cache s" "sy_db ?s = (sy_db s)(k := v)" "sy_dirty ?s = insert k (sy_dirty s)" "sy_invs ?s = sy_invs s"
    "pc_of ?s u = pc_of s u" "clean_of ?s u = clean_of s u - {k}" for u
    by (simp_all add: db_write_def pc_of_def clean_of_def)
  have cur: "current s e k' v' \<Longrightarrow> current ?s e k' v'" for e k' v' by (auto simp: current_def eq)
  have rd: "readable s e k' v' \<Longrightarrow> readable ?s e k' v'" for e k' v' by (auto simp: readable_def eq)
  have "thread_inv ?s u" for u
    using thread_invD[OF sys_invD(4)[OF inv], of u] rd cur unfolding thread_inv_def by (auto simp: eq)
  moreover have "flight_inv ?s fl" if "fl \<in> set (ca_flights (sy_cache s))" for fl
    using sys_invD(5)[OF inv that] rd cur unfolding flight_inv_def by (simp add: eq)
  moreover have "fresh_table (contents (sy_cache s)) ((sy_db s)(k := v)) (insert k (sy_dirty s))"
    using sys_invD(3)[OF inv] by (auto simp: fresh_table_def)
  ultimately show ?thesis using inv by (simp add: sys_inv_def eq)
qed

lemma epoch_passed:
  fixes e e' :: "64 word"
  assumes "unat e' = n" and "n + 1 < 2 ^ 64" and "unat e \<le> n"
  shows "unat (e' + 1) = n + 1" and "e \<noteq> e' + 1"
proof -
  have "unat (e' + 1) = (unat e' + 1) mod 2 ^ 64" by (simp add: unat_word_ariths)
  then show "unat (e' + 1) = n + 1" using assms(1,2) by simp
  then show "e \<noteq> e' + 1" using assms(3) by auto
qed

lemma inval_inv_sys:
  assumes inv: "sys_inv cfg s" and w: "inval_of (sy_cache s) c ks" and b: "sy_invs s + 1 < 2 ^ 64"
  shows "sys_inv cfg (invalidated c ks s)"
proof -
  let ?s = "invalidated c ks s"
  note g = sys_invD(1)[OF inv]
  note sd = inval_side[OF w]
  have eq: "sy_cache ?s = c" "sy_db ?s = sy_db s" "sy_dirty ?s = sy_dirty s - ks" "sy_invs ?s = sy_invs s + 1"
    "pc_of ?s u = pc_of s u" "clean_of ?s u = clean_of s u" for u
    by (simp_all add: invalidated_def pc_of_def clean_of_def)
  have ep: "unat (ca_epoch c) = sy_invs s + 1"
    using epoch_passed(1)[OF sys_invD(2)[OF inv] b, of 0] sd by simp
  have cur: "unat e \<le> sy_invs s \<Longrightarrow> current ?s e k v" for e k v
    using epoch_passed(2)[OF sys_invD(2)[OF inv] b] sd by (auto simp: current_def eq)
  have rd: "readable ?s e k v \<longleftrightarrow> readable s e k v" for e k v by (simp add: readable_def eq)
  have "thread_inv ?s u" for u
    using thread_invD[OF sys_invD(4)[OF inv], of u] cur sd unfolding thread_inv_def
    by (fastforce simp: eq rd)
  moreover have "flight_inv ?s fl" if "fl \<in> set (ca_flights (sy_cache s))" for fl
    using sys_invD(5)[OF inv that] cur unfolding flight_inv_def by (fastforce simp: eq rd)
  moreover have "good_cache cfg c" "fresh_table (contents c) (sy_db s) (sy_dirty s - ks)"
    using rmc.wipe_law[OF g w] rmc.wipe_fresh[OF g w sys_invD(3)[OF inv]] by simp_all
  ultimately show ?thesis using sd ep sys_invD(6)[OF inv] by (auto simp: sys_inv_def eq)
qed

section \<open>Claiming and completing flights\<close>

lemma flight_updates [simp]:
  "good_cache cfg (c\<lparr>ca_flights := fs\<rparr>) = good_cache cfg c" "good_cache cfg (c\<lparr>ca_batchFlights := bs\<rparr>) = good_cache cfg c"
  "contents (c\<lparr>ca_flights := fs\<rparr>) = contents c" "contents (c\<lparr>ca_batchFlights := bs\<rparr>) = contents c"
  by (simp_all add: good_cache_def cache_inv_def cache_links_def entries_of_def contents_def fun_eq_iff)

definition registry_ok :: "('k, 'v, 'i) cache \<Rightarrow> bool" where
  "registry_ok c \<longleftrightarrow> (\<forall>key f. ca_batchFlights c key = Some f \<longrightarrow>
    f < length (ca_flights c) \<and> bf_key (ca_flights c ! f) = key)"

definition fresh_flight :: "'k batch_flight_key \<Rightarrow> ('k, 'v) batch_flight" where
  "fresh_flight key = \<lparr>bf_key = key, bf_done = False, bf_value = None, bf_err = None, bf_retry = False\<rparr>"

text \<open>What claiming the flights of the misses \<open>ms\<close> gives, the claimed ones being new in the heap.\<close>

definition claims :: "64 word \<Rightarrow> 'k batch_miss list \<Rightarrow> ('k, 'v, 'i) cache \<Rightarrow> 'k batch_wait list \<Rightarrow> 'k batch_wait list
    \<Rightarrow> ('k, 'v, 'i) cache \<Rightarrow> bool" where
  "claims e ms c waits owned c' \<longleftrightarrow> registry_ok c' \<and> map fst waits = ms \<and> set owned \<subseteq> set waits \<and>
    c' = c\<lparr>ca_flights := ca_flights c', ca_batchFlights := ca_batchFlights c'\<rparr> \<and>
    ca_flights c' = ca_flights c @ map (\<lambda>(m, f). fresh_flight (miss_key e m)) owned \<and>
    map snd owned = [length (ca_flights c) ..< length (ca_flights c')] \<and>
    (\<forall>m f. (m, f) \<in> set waits \<longrightarrow> ca_batchFlights c' (miss_key e m) = Some f) \<and>
    ca_batchFlights c \<subseteq>\<^sub>m ca_batchFlights c' \<and>
    (\<forall>key f. ca_batchFlights c' key = Some f \<longrightarrow> ca_batchFlights c key = Some f \<or> length (ca_flights c) \<le> f)"

lemma claimBatchFlights_ok:
  "claimBatchFlights e ms c = (waits, owned, c') \<Longrightarrow> registry_ok c \<Longrightarrow> claims e ms c waits owned c'"
proof (induction ms arbitrary: c waits owned c')
  case Nil
  then show ?case by (simp add: claims_def)
next
  case (Cons m ms)
  show ?case
  proof (cases "ca_batchFlights c (miss_key e m)")
    case (Some f)
    obtain ws os c'' where r: "claimBatchFlights e ms c = (ws, os, c'')" by (cases "claimBatchFlights e ms c")
    with Cons.prems Some have "waits = (m, f) # ws" "owned = os" "c' = c''" by (auto simp: Let_def)
    moreover have cl: "claims e ms c ws os c''" by (rule Cons.IH[OF r Cons.prems(2)])
    moreover from cl have "ca_batchFlights c'' (miss_key e m) = Some f"
      using Some unfolding claims_def map_le_def by (metis domI)
    ultimately show ?thesis unfolding claims_def by auto
  next
    case None
    let ?f = "length (ca_flights c)"
    define d where "d = c\<lparr>ca_flights := ca_flights c @ [fresh_flight (miss_key e m)],
      ca_batchFlights := (ca_batchFlights c)(miss_key e m \<mapsto> ?f)\<rparr>"
    obtain ws os c'' where r: "claimBatchFlights e ms d = (ws, os, c'')" by (cases "claimBatchFlights e ms d")
    with Cons.prems(1) None have eq: "waits = (m, ?f) # ws" "owned = (m, ?f) # os" "c' = c''"
      by (auto simp: Let_def d_def fresh_flight_def)
    have "registry_ok d" 
      using Cons.prems(2) unfolding registry_ok_def d_def fresh_flight_def
      by (auto simp: nth_append split: if_splits) (metis less_SucI)+
    then have cl: "claims e ms d ws os c''" by (rule Cons.IH[OF r])
    have d: "ca_flights d = ca_flights c @ [fresh_flight (miss_key e m)]"
      "ca_batchFlights d = (ca_batchFlights c)(miss_key e m \<mapsto> ?f)" by (simp_all add: d_def)
    have c1: "c'' = c\<lparr>ca_flights := ca_flights c'', ca_batchFlights := ca_batchFlights c''\<rparr>"
    proof -
      have "c'' = d\<lparr>ca_flights := ca_flights c'', ca_batchFlights := ca_batchFlights c''\<rparr>"
        using cl unfolding claims_def by blast
      also have "\<dots> = c\<lparr>ca_flights := ca_flights c'', ca_batchFlights := ca_batchFlights c''\<rparr>" by (simp add: d_def)
      finally show ?thesis .
    qed
    have "ca_batchFlights c \<subseteq>\<^sub>m ca_batchFlights c''" "ca_batchFlights c'' (miss_key e m) = Some ?f"
      using cl None unfolding claims_def d map_le_def by (auto simp: dom_def split: if_splits)
    moreover have "?f # [Suc ?f..<length (ca_flights c'')] = [?f..<length (ca_flights c'')]"
    proof -
      have "length (ca_flights c'') = Suc (?f + length os)" using cl unfolding claims_def d by auto
      then show ?thesis by (simp only: upt_conv_Cons[of ?f "Suc (?f + length os)"])
    qed
    moreover have "ca_batchFlights c key = Some f \<or> ?f \<le> f" if "ca_batchFlights c'' key = Some f" for key f
    proof -
      have "ca_batchFlights d key = Some f \<or> length (ca_flights d) \<le> f" using that cl unfolding claims_def by blast
      then show ?thesis by (auto simp: d split: if_splits)
    qed
    ultimately show ?thesis unfolding claims_def eq
      by (intro conjI c1) (use cl in \<open>auto simp: claims_def d\<close>)
  qed
qed

lemma readable_same:
  assumes "pc_iter p' = pc_iter (pc_of s t)"
  shows "readable (goto t p' (set_cache c s)) e k v = readable s e k v"
proof -
  have "pc_iter (pc_of (goto t p' (set_cache c s)) u) = pc_iter (pc_of s u)" for u using assms by simp
  then show ?thesis unfolding readable_def by simp
qed

lemma claim_inv:
  assumes inv: "sys_inv cfg s" and pc: "pc_of s t = BatchLook keys e [] out missing"
    and cl: "claims e missing (sy_cache s) waits owned c"
    and p': "pc_iter p' = Some e" "pc_out p' = out" "pc_waits p' = waits" "pc_pend p' = Map.empty" "set (pc_owned p') \<subseteq> set waits"
  shows "sys_inv cfg (goto t p' (set_cache c s))"
proof -
  let ?s = "goto t p' (set_cache c s)"
  have c: "ca_epoch c = ca_epoch (sy_cache s)" "contents c = contents (sy_cache s)" "good_cache cfg c"
  proof -
    have e: "c = (sy_cache s)\<lparr>ca_flights := ca_flights c, ca_batchFlights := ca_batchFlights c\<rparr>"
      using cl unfolding claims_def by blast
    show "ca_epoch c = ca_epoch (sy_cache s)" "contents c = contents (sy_cache s)" "good_cache cfg c"
      by (subst e, simp add: sys_invD(1)[OF inv])+
  qed
  have reg: "registry_ok c" using cl by (simp add: claims_def)
  have fl: "ca_flights c = ca_flights (sy_cache s) @ map (\<lambda>(m, f). fresh_flight (miss_key e m)) owned"
    using cl by (simp add: claims_def)
  have same: "f < length (ca_flights c) \<and> ca_flights c ! f = ca_flights (sy_cache s) ! f"
    if "f < length (ca_flights (sy_cache s))" for f using that by (simp add: fl nth_append)
  have cur: "current ?s e' k v \<longleftrightarrow> current s e' k v" for e' k v by (simp add: current_def c)
  have rd: "readable ?s e' k v \<longleftrightarrow> readable s e' k v" for e' k v 
    by (rule readable_same) (simp add: pc p'(1))
  have snap: "pc_snap p' = Some e" by (rule pc_iter_snap[OF p'(1)])
  have w: "f < length (ca_flights c) \<and> bf_key (ca_flights c ! f) = miss_key e m" if "(m, f) \<in> set waits" for m f
    using that cl reg unfolding claims_def registry_ok_def by blast
  have "thread_inv ?s u" for u
  proof (cases "u = t")
    case True
    then show ?thesis using thread_invD[OF sys_invD(4)[OF inv], of t] pc p' snap w
      unfolding thread_inv_def by (simp add: cur rd)
  next
    case False
    then show ?thesis using thread_invD[OF sys_invD(4)[OF inv], of u] same
      unfolding thread_inv_def by (simp add: cur rd)
  qed
  moreover have "flight_inv ?s fl" if "fl \<in> set (ca_flights c)" for fl
    using that sys_invD(5)[OF inv, of fl] by (auto simp: fl flight_inv_def fresh_flight_def cur rd)
  ultimately show ?thesis using inv c reg by (simp add: sys_inv_def registry_ok_def)
qed

lemma complete_side:
  "ca_epoch (completeBatchFlight key f v err retry c) = ca_epoch c"
  "contents (completeBatchFlight key f v err retry c) = contents c"
  "good_cache cfg (completeBatchFlight key f v err retry c) = good_cache cfg c"
  "ca_flights (completeBatchFlight key f v err retry c) = (ca_flights c)[f := (ca_flights c ! f)\<lparr>
    bf_value := map_option (cloneValue c) v, bf_err := err, bf_retry := retry, bf_done := True\<rparr>]"
  "ca_batchFlights (completeBatchFlight key f v err retry c) =
    (if ca_batchFlights c key = Some f then (ca_batchFlights c)(key := None) else ca_batchFlights c)"
  by (simp_all add: completeBatchFlight_def Let_def)

lemma good_clone: "good_cache cfg c \<Longrightarrow> cloneValue c v = v"
  using cfg_values(1)[OF cache_invD(2), of cfg c v] by (simp add: good_cache_def)

lemma complete_inv:
  assumes inv: "sys_inv cfg s"
    and pc: "pc_of s t = BatchComplete keys e out waits (((k, hash, cacheable), f) # owned) loaded err retry"
  shows "sys_inv cfg (goto t (BatchComplete keys e out waits owned loaded err retry)
    (set_cache (completeBatchFlight (k, hash, cacheable, e) f (loaded k) err retry (sy_cache s)) s))"
proof -
  let ?c = "completeBatchFlight (k, hash, cacheable, e) f (loaded k) err retry (sy_cache s)"
  let ?s = "goto t (BatchComplete keys e out waits owned loaded err retry) (set_cache ?c s)"
  note T = thread_invD[OF sys_invD(4)[OF inv], of t, unfolded pc, simplified]
  have f: "((k, hash, cacheable), f) \<in> set waits" using T(7) by simp
  have fk: "f < length (ca_flights (sy_cache s))" "bf_key (ca_flights (sy_cache s) ! f) = (k, hash, cacheable, e)"
    using T(6)[OF refl f] by (simp_all add: miss_key_def)
  have keys: "length (ca_flights ?c) = length (ca_flights (sy_cache s)) \<and>
    (g < length (ca_flights (sy_cache s)) \<longrightarrow> bf_key (ca_flights ?c ! g) = bf_key (ca_flights (sy_cache s) ! g))" for g
    using fk by (auto simp: complete_side nth_list_update)
  have cur: "current ?s e' k' v \<longleftrightarrow> current s e' k' v" for e' k' v by (simp add: current_def complete_side)
  have rd: "readable ?s e' k' v \<longleftrightarrow> readable s e' k' v" for e' k' v
    by (rule readable_same) (simp add: pc)
  have "thread_inv ?s u" for u
    using thread_invD[OF sys_invD(4)[OF inv], of u] pc keys
    unfolding thread_inv_def by (cases "u = t") (simp_all add: cur rd)
  moreover have "flight_inv ?s fl" if "fl \<in> set (ca_flights ?c)" for fl
  proof -
    define nf where "nf = (ca_flights (sy_cache s) ! f)\<lparr>bf_value := map_option (cloneValue (sy_cache s)) (loaded k),
      bf_err := err, bf_retry := retry, bf_done := True\<rparr>"
    have "cloneValue (sy_cache s) = (\<lambda>v. v)" using good_clone[OF sys_invD(1)[OF inv]] by auto
    then have nf: "bf_key nf = (k, hash, cacheable, e)" "bf_value nf = loaded k"
      using fk(2) by (simp_all add: nf_def option.map_ident)
    have "fl \<in> insert nf (set (ca_flights (sy_cache s)))"
      using that set_update_subset_insert[of "ca_flights (sy_cache s)" f nf] by (auto simp: complete_side(4) nf_def)
    with nf have "fl \<in> set (ca_flights (sy_cache s)) \<or> bf_key fl = (k, hash, cacheable, e) \<and> bf_value fl = loaded k"
      by auto
    then show ?thesis
    proof
      assume "fl \<in> set (ca_flights (sy_cache s))"
      from sys_invD(5)[OF inv this] show ?thesis by (simp add: flight_inv_def cur rd)
    next
      assume "bf_key fl = (k, hash, cacheable, e) \<and> bf_value fl = loaded k"
      then show ?thesis unfolding flight_inv_def cur rd using T(2)[OF refl] T(3)[OF refl] T(4)[OF refl] by auto
    qed
  qed
  moreover have "registry_ok ?c"
    using sys_invD(6)[OF inv] keys by (auto simp: registry_ok_def complete_side(5) split: if_splits)
  ultimately show ?thesis using inv by (simp add: sys_inv_def complete_side(1-3) registry_ok_def)
qed

section \<open>Every step keeps the invariant\<close>

lemma get_result_pcs:
  assumes "get_result k h ver joined r p"
  shows "pc_snap p = None" "pc_iter p = None" "pc_pend p = Map.empty" "pc_waits p = []" "pc_owned p = []"
    "joined \<Longrightarrow> pc_out p = Map.empty" "pc_out p k' = Some v \<Longrightarrow> pc_out (FnReturn k h ver i r) k' = Some v"
  using assms by (cases; cases joined; auto split: if_splits)+

lemma pcs_none [simp]:
  "pc_iter p = None \<Longrightarrow> pc_waits p = []" "pc_snap p = None \<Longrightarrow> pc_iter p = None"
  by (cases p; simp)+

lemma goto_execs: "goto t p (s\<lparr>sy_execs := x\<rparr>) = (goto t p s)\<lparr>sy_execs := x\<rparr>"
  by (simp add: goto_def)

lemma get_step_inv:
  assumes st: "get_step shares t s s'" and inv: "sys_inv cfg s"
  shows "sys_inv cfg s'"
proof -
  note g = sys_invD(1)[OF inv] and fr = sys_invD(3)[OF inv] and T = thread_invD[OF sys_invD(4)[OF inv], of t]
  have lk: "good_cache cfg c \<and> side c = side (sy_cache s) \<and> fresh_table (contents c) (sy_db s) (sy_dirty s) \<and>
    (\<forall>v. r = Some v \<longrightarrow> k \<in> clean_of s t \<longrightarrow> v = sy_db s k)" if "Cache_lookup now (sy_cache s) k h ver = (r, c)" for now k h ver r c
    using rmc.look_law[OF g that] rmc.look_fresh[OF g that fr] lookup_side[OF that] T(1) by blast
  from st show ?thesis
  proof cases
    case (get_call k h ver)
    then show ?thesis using start_inv[OF inv] by simp
  next
    case (get_hit k h ver now v c)
    then show ?thesis using lk[OF get_hit(3)] by (auto intro!: move_inv[OF inv] split: if_splits)
  next
    case (get_miss k h ver now c)
    then show ?thesis using lk[OF get_miss(3)] by (auto intro!: move_inv[OF inv])
  next
    case (do_run k h ver key)
    have "sys_inv cfg (goto t (FnLookup k h ver (length (sy_execs s))) s)" by (rule move_same[OF inv]) (simp_all add: do_run)
    then show ?thesis using do_run by (simp add: goto_execs)
  next
    case (do_join k h ver i)
    then show ?thesis by (auto intro!: move_same[OF inv])
  next
    case (fn_hit k h ver i now v c)
    then show ?thesis using lk[OF fn_hit(3)] by (auto intro!: move_inv[OF inv] split: if_splits)
  next
    case (fn_miss k h ver i now c)
    then show ?thesis using lk[OF fn_miss(3)] by (auto intro!: move_inv[OF inv])
  next
    case (fn_epoch k h ver i)
    then show ?thesis by (auto intro!: move_same[OF inv] simp: cacheEpoch_def)
  next
    case (fn_load k h ver i e)
    then show ?thesis by (auto intro!: move_same[OF inv] split: if_splits)
  next
    case (fn_fail k h ver i e err)
    then show ?thesis by (auto intro!: move_same[OF inv])
  next
    case (fn_store k h ver i e v now stored c)
    have v: "k \<notin> sy_dirty s \<Longrightarrow> e = ca_epoch (sy_cache s) \<Longrightarrow> v = sy_db s k" "k \<in> clean_of s t \<Longrightarrow> v = sy_db s k"
      using T(3)[of e k v] T(5)[of k v] fn_store(2) by (auto simp: current_def)
    have c: "good_cache cfg c \<and> side c = side (sy_cache s) \<and> fresh_table (contents c) (sy_db s) (sy_dirty s)"
      using fn_store(3) g fr rmc.put_law[OF g] rmc.put_fresh[OF g fr v(1)] by (auto simp: storeIfEpoch_def split: if_splits)
    then show ?thesis using fn_store v(2) good_clone[OF g] by (auto intro!: move_inv[OF inv] split: if_splits)
  next
    case (fn_return k h ver i r p)
    have "sys_inv cfg (goto t p s)"
      by (rule move_same[OF inv]) (use get_result_pcs[OF fn_return(3)] T(5) fn_return(2) in auto)
    then show ?thesis using fn_return by (simp add: goto_execs)
  next
    case (get_shared k h ver i r p)
    show ?thesis unfolding get_shared(1)
      by (rule move_same[OF inv]) (use get_result_pcs[OF get_shared(5)] in auto)
  next
    case (get_done k j r)
    then show ?thesis by (auto intro!: move_same[OF inv])
  qed
qed

lemma build_step_inv:
  assumes st: "build_step t s s'" and inv: "sys_inv cfg s"
  shows "sys_inv cfg s'"
proof -
  note g = sys_invD(1)[OF inv] and fr = sys_invD(3)[OF inv] and T = thread_invD[OF sys_invD(4)[OF inv], of t]
  from st show ?thesis
  proof cases
    case (build_call k)
    then show ?thesis using start_inv[OF inv] by simp
  next
    case (build_epoch k)
    then show ?thesis by (auto intro!: move_same[OF inv] simp: LoadEpoch_def cacheEpoch_def)
  next
    case (build_load k e)
    then show ?thesis by (auto intro!: move_same[OF inv] split: if_splits)
  next
    case (build_fail k e)
    then show ?thesis by (auto intro!: move_same[OF inv])
  next
    case (build_store k e v now)
    let ?c = "the (StoreIfEpoch now (Some (sy_cache s)) k v e)"
    have v: "k \<notin> sy_dirty s \<Longrightarrow> e = ca_epoch (sy_cache s) \<Longrightarrow> v = sy_db s k"
      using T(3)[of e k v] build_store(2) by (auto simp: current_def)
    have "good_cache cfg ?c \<and> side ?c = side (sy_cache s) \<and> fresh_table (contents ?c) (sy_db s) (sy_dirty s)"
      using g fr rmc.put_law[OF g] rmc.put_fresh[OF g fr v] by (auto simp: StoreIfEpoch_def storeIfEpoch_def)
    then show ?thesis using build_store by (auto intro!: move_inv[OF inv])
  qed
qed

lemma batch_entries_loaded: "(k, v, h) \<in> set (batch_entries owned loaded) \<Longrightarrow> loaded k = Some v"
  by (auto simp: batch_entries_def split: option.splits if_splits)

lemma batch_step_inv:
  assumes st: "batch_step t s s'" and inv: "sys_inv cfg s"
  shows "sys_inv cfg s'"
proof -
  note g = sys_invD(1)[OF inv] and fr = sys_invD(3)[OF inv] and T = thread_invD[OF sys_invD(4)[OF inv], of t]
  have lk: "good_cache cfg c \<and> side c = side (sy_cache s) \<and> fresh_table (contents c) (sy_db s) (sy_dirty s) \<and>
    (\<forall>v. r = Some v \<longrightarrow> k \<in> clean_of s t \<longrightarrow> v = sy_db s k)" if "Cache_lookup now (sy_cache s) k h ver = (r, c)" for now k h ver r c
    using rmc.look_law[OF g that] rmc.look_fresh[OF g that fr] lookup_side[OF that] T(1) by blast
  have reg: "registry_ok (sy_cache s)" using sys_invD(6)[OF inv] by (auto simp: registry_ok_def)
  from st show ?thesis
  proof cases
    case (batch_call keys)
    then show ?thesis using start_inv[OF inv] by simp
  next
    case batch_empty
    then show ?thesis using start_inv[OF inv] by simp
  next
    case (batch_epoch keys)
    then show ?thesis by (auto intro!: move_same[OF inv] simp: cacheEpoch_def)
  next
    case (look_hit keys e k rest out missing now hash v c)
    then show ?thesis using lk[OF look_hit(3)] T(5) by (auto intro!: move_inv[OF inv] split: if_splits)
  next
    case (look_miss keys e k rest out missing now hash c)
    then show ?thesis using lk[OF look_miss(3)] T(5) by (auto intro!: move_inv[OF inv])
  next
    case (look_bypass keys e k rest out missing hash)
    then show ?thesis using T(5) by (auto intro!: move_same[OF inv])
  next
    case (all_hit keys e out)
    then show ?thesis using T(5) by (auto intro!: move_same[OF inv])
  next
    case (claim_own keys e out missing waits owned c)
    have cl: "claims e missing (sy_cache s) waits owned c" by (rule claimBatchFlights_ok[OF claim_own(4) reg])
    then have "set owned \<subseteq> set waits" by (simp add: claims_def)
    then show ?thesis using claim_inv[OF inv claim_own(2) cl] claim_own(1) by simp
  next
    case (claim_wait keys e out missing waits c)
    have cl: "claims e missing (sy_cache s) waits [] c" by (rule claimBatchFlights_ok[OF claim_wait(4) reg])
    then show ?thesis using claim_inv[OF inv claim_wait(2) cl] claim_wait(1) by simp
  next
    case (load_read keys e out waits owned loaded k hash cacheable f)
    then show ?thesis using T(5,7) by (auto intro!: move_same[OF inv] split: if_splits)
  next
    case (load_end keys e out waits owned loaded)
    then show ?thesis using T(5,7) by (auto intro!: move_same[OF inv])
  next
    case (load_fail keys e out waits owned loaded err)
    then show ?thesis using T(5,7) by (auto intro!: move_same[OF inv])
  next
    case (batch_store keys e out waits owned loaded now ok c)
    have "\<And>k v h. (k, v, h) \<in> set (batch_entries owned loaded) \<Longrightarrow> k \<notin> sy_dirty s \<Longrightarrow> e = ca_epoch (sy_cache s) \<Longrightarrow> v = sy_db s k"
      using T(3) batch_store(2) by (auto simp: current_def dest!: batch_entries_loaded)
    then have "good_cache cfg c \<and> side c = side (sy_cache s) \<and> fresh_table (contents c) (sy_db s) (sy_dirty s)"
      using batch_store(3) g fr rmc.puts_fresh[OF g fr] by (auto simp: storeBatchIfEpoch_def split: if_splits)
    then show ?thesis using batch_store T(5,7) by (auto intro!: move_inv[OF inv])
  next
    case (complete_one keys e out waits k hash cacheable f owned loaded err retry)
    then show ?thesis using complete_inv[OF inv complete_one(2)] by (simp add: miss_key_def)
  next
    case (complete_end keys e out waits loaded err retry)
    then show ?thesis using T(5) by (auto intro!: move_same[OF inv])
  next
    case (wait_cancel keys e out w waits retry ctxErr)
    then show ?thesis by (auto intro!: move_same[OF inv])
  next
    case (wait_err keys e out m f waits retry err)
    then show ?thesis by (auto intro!: move_same[OF inv])
  next
    case (wait_retry keys e out m f waits retry)
    then show ?thesis using T(5) by (auto intro!: move_same[OF inv])
  next
    case (wait_none keys e out m f waits retry)
    then show ?thesis using T(5) by (auto intro!: move_same[OF inv])
  next
    case (wait_value keys e out k hash cacheable f waits retry v)
    let ?fl = "ca_flights (sy_cache s) ! f"
    have "f < length (ca_flights (sy_cache s))" "bf_key ?fl = (k, hash, cacheable, e)"
      using T(6)[of e "(k, hash, cacheable)" f] wait_value(2) by (simp_all add: miss_key_def)
    then have "readable s e k v" using sys_invD(5)[OF inv, of ?fl] wait_value(6) by (simp add: flight_inv_def)
    moreover have "pc_iter (pc_of s t) = Some e" by (simp add: wait_value(2))
    ultimately have "k \<in> clean_of s t \<Longrightarrow> v = sy_db s k" unfolding readable_def by blast
    then show ?thesis using wait_value T(5) good_clone[OF g] by (auto intro!: move_same[OF inv] split: if_splits)
  next
    case (wait_again keys e out)
    then show ?thesis by (auto intro!: move_same[OF inv])
  next
    case (wait_stop keys e out ctxErr)
    then show ?thesis by (auto intro!: move_same[OF inv])
  next
    case (wait_end keys e out)
    then show ?thesis using T(5) by (auto intro!: move_same[OF inv])
  next
    case (batch_done r)
    then show ?thesis by (auto intro!: move_same[OF inv])
  qed
qed

section \<open>Reachable states\<close>

lemma step_invs:
  "get_step shares t s s' \<Longrightarrow> sy_invs s' = sy_invs s" "build_step t s s' \<Longrightarrow> sy_invs s' = sy_invs s"
  "batch_step t s s' \<Longrightarrow> sy_invs s' = sy_invs s" "env_step s s' \<Longrightarrow> sy_invs s \<le> sy_invs s'"
  by (auto elim!: get_step.cases build_step.cases batch_step.cases env_step.cases
      simp: start_call_def db_write_def invalidated_def goto_def set_cache_def)

lemma sys_new_inv:
  assumes "Cache_New sprint i cfg = Some c" and "\<And>v. clone_for cfg v = v"
  shows "sys_inv cfg (sys_new c db)"
proof -
  have c: "cache_inv cfg c" "abs_cache c = \<lparr>lr_entries = [], lr_epoch = 0\<rparr>" using new_inv[OF assms(1)] by simp_all
  have "contents c = Map.empty" using contents_abs[OF c(1)] c(2) by (auto simp: find_key_def)
  moreover have "ca_flights c = []" "ca_batchFlights c = Map.empty" "ca_epoch c = 0"
    using assms(1) by (auto simp: Cache_New_def split: if_splits)
  ultimately show ?thesis using c assms(2)
    by (simp add: sys_inv_def sys_new_def good_cache_def fresh_table_def thread_inv_def pc_of_def clean_of_def)
qed

lemma reach_inv:
  assumes "sys_reach shares cfg s" and "\<And>v. clone_for cfg v = v" and "sy_invs s < 2 ^ 64"
  shows "sys_inv cfg s"
  using assms(1,3)
proof (induction rule: sys_reach.induct)
  case (init sprint i c db)
  then show ?case by (intro sys_new_inv assms(2))
next
  case (stepped s s')
  from stepped.hyps(2) show ?case
  proof cases
    case (get t)
    then show ?thesis using stepped step_invs(1)[OF get] get_step_inv[OF get] by simp
  next
    case (build t)
    then show ?thesis using stepped step_invs(2)[OF build] build_step_inv[OF build] by simp
  next
    case (batch t)
    then show ?thesis using stepped step_invs(3)[OF batch] batch_step_inv[OF batch] by simp
  next
    case env
    have inv: "sys_inv cfg s" using stepped step_invs(4)[OF env] by simp
    from env show ?thesis
    proof cases
      case (db_writes k v)
      then show ?thesis using write_inv[OF inv] by simp
    next
      case (invalidates c ks)
      then show ?thesis using inval_inv_sys[OF inv] stepped.prems by (simp add: invalidated_def)
    qed
  qed
qed

text \<open>
  C16: The epoch guard keeps stale values out of the cache under every interleaving of guarded reads,
  backend writes and invalidations: once a write to a key has been followed by an invalidation that
  covers the key, whatever loads were in flight, the cache holds the backend's current value of the
  key or none. The number of invalidations stays below the range of the 64-bit epoch.
\<close>

theorem cache_never_stale:
  assumes "sys_reach shares cfg s" and "\<forall>v. clone_for cfg v = v" and "sy_invs s < 2 ^ 64"
    and "contents (sy_cache s) k = Some v" and "k \<notin> sy_dirty s"
  shows "v = sy_db s k"
  using sys_invD(3)[OF reach_inv[OF assms(1) spec[OF assms(2)] assms(3)]] assms(4,5) by (simp add: fresh_table_def)

text \<open>
  C17: A batch read returns no value older than its own start: for a key that was not dirty when
  GetOrLoadBatch was called and has not been written since, the returned value is the
  backend's, whether it came from the cache, from its own load or from the flight of another
  goroutine. The same holds for GetOrLoad when the caller's own lookup or load produced the value.
\<close>

theorem guarded_reads_fresh:
  assumes "sys_reach shares cfg s" and "\<forall>v. clone_for cfg v = v" and "sy_invs s < 2 ^ 64"
    and "pc_of s t = BatchDone (Inr out) \<and> out k = Some v \<or> pc_of s t = GetDone k False (Inr v)"
    and "k \<in> clean_of s t"
  shows "v = sy_db s k"
proof -
  note T = thread_invD(5)[OF sys_invD(4)[OF reach_inv[OF assms(1) spec[OF assms(2)] assms(3)]], of t k v]
  have "pc_out (pc_of s t) k = Some v" using assms(4) by auto
  from T[OF this assms(5)] show ?thesis .
qed

section \<open>Ownership of batch flights\<close>

text \<open>
  A flight that is not done has exactly one owner, which still has to complete it, and it is the one
  registered under its key.
\<close>

definition owned_by :: "('k, 'v, 'i) sys \<Rightarrow> nat \<Rightarrow> nat set" where
  "owned_by s t = snd ` set (pc_owned (pc_of s t))"

definition owner_inv :: "('k, 'v, 'i) sys \<Rightarrow> bool" where
  "owner_inv s \<longleftrightarrow>
    (\<forall>t e m f. pc_iter (pc_of s t) = Some e \<longrightarrow> (m, f) \<in> set (pc_owned (pc_of s t)) \<longrightarrow>
      ca_batchFlights (sy_cache s) (miss_key e m) = Some f) \<and>
    (\<forall>t. distinct (map snd (pc_owned (pc_of s t)))) \<and>
    (\<forall>t u. t \<noteq> u \<longrightarrow> owned_by s t \<inter> owned_by s u = {}) \<and>
    (\<forall>f < length (ca_flights (sy_cache s)). \<not> bf_done (ca_flights (sy_cache s) ! f) \<longrightarrow> (\<exists>t. f \<in> owned_by s t)) \<and>
    (\<forall>key f. ca_batchFlights (sy_cache s) key = Some f \<longrightarrow> f < length (ca_flights (sy_cache s)) \<and>
      bf_key (ca_flights (sy_cache s) ! f) = key \<and> \<not> bf_done (ca_flights (sy_cache s) ! f))"

lemma owner_invD:
  assumes "owner_inv s"
  shows "pc_iter (pc_of s t) = Some e \<Longrightarrow> (m, f) \<in> set (pc_owned (pc_of s t)) \<Longrightarrow>
      ca_batchFlights (sy_cache s) (miss_key e m) = Some f"
    "distinct (map snd (pc_owned (pc_of s t)))" "t \<noteq> u \<Longrightarrow> owned_by s t \<inter> owned_by s u = {}"
    "f < length (ca_flights (sy_cache s)) \<Longrightarrow> \<not> bf_done (ca_flights (sy_cache s) ! f) \<Longrightarrow> \<exists>t. f \<in> owned_by s t"
    "ca_batchFlights (sy_cache s) key = Some f \<Longrightarrow> f < length (ca_flights (sy_cache s)) \<and>
      bf_key (ca_flights (sy_cache s) ! f) = key \<and> \<not> bf_done (ca_flights (sy_cache s) ! f)"
  using assms by (auto simp: owner_inv_def)

lemma owned_iter: "pc_owned p \<noteq> [] \<Longrightarrow> \<exists>e. pc_iter p = Some e"
  by (cases p) auto

lemma owner_move:
  assumes inv: "owner_inv s" and "pc_of s' = (pc_of s)(t := p')"
    and "pc_owned p' = pc_owned (pc_of s t)" "pc_owned p' \<noteq> [] \<longrightarrow> pc_iter p' = pc_iter (pc_of s t)"
    and c: "ca_batchFlights (sy_cache s') = ca_batchFlights (sy_cache s)" "ca_flights (sy_cache s') = ca_flights (sy_cache s)"
  shows "owner_inv s'"
proof -
  have o: "pc_owned (pc_of s' u) = pc_owned (pc_of s u)" for u using assms(2,3) by simp
  then have ow: "owned_by s' = owned_by s" by (simp add: owned_by_def fun_eq_iff)
  have it: "pc_iter (pc_of s' u) = pc_iter (pc_of s u)" if "pc_owned (pc_of s u) \<noteq> []" for u
    using that assms(2-4) by auto
  have "ca_batchFlights (sy_cache s) (miss_key e m) = Some f"
    if "pc_iter (pc_of s' u) = Some e" "(m, f) \<in> set (pc_owned (pc_of s u))" for u e m f
  proof -
    have "pc_owned (pc_of s u) \<noteq> []" using that(2) by auto
    with it[of u] that owner_invD(1)[OF inv, of u e m f] show ?thesis by simp
  qed
  then show ?thesis using owner_invD(2-5)[OF inv] unfolding owner_inv_def c o ow by blast
qed

lemma owner_claim:
  assumes inv: "owner_inv s" and pc: "pc_owned (pc_of s t) = []" and cl: "claims e ms (sy_cache s) waits owned c"
    and p': "pc_owned p' = owned" "pc_iter p' = Some e"
  shows "owner_inv (goto t p' (set_cache c s))"
proof -
  let ?s = "goto t p' (set_cache c s)" and ?n = "length (ca_flights (sy_cache s))"
  have fl: "ca_flights c = ca_flights (sy_cache s) @ map (\<lambda>(m, f). fresh_flight (miss_key e m)) owned"
    and up: "map snd owned = [?n..<length (ca_flights c)]" and reg: "registry_ok c" and sub: "set owned \<subseteq> set waits"
    and w: "\<And>m f. (m, f) \<in> set waits \<Longrightarrow> ca_batchFlights c (miss_key e m) = Some f"
    and le: "ca_batchFlights (sy_cache s) \<subseteq>\<^sub>m ca_batchFlights c"
    and new: "\<And>key f. ca_batchFlights c key = Some f \<Longrightarrow> ca_batchFlights (sy_cache s) key = Some f \<or> ?n \<le> f"
    using cl unfolding claims_def by blast+
  have ot: "owned_by ?s t = {?n..<length (ca_flights c)}"
    using up p'(1) by (simp add: owned_by_def flip: set_map)
  have ou: "owned_by ?s u = owned_by s u" if "u \<noteq> t" for u using that by (simp add: owned_by_def)
  have old: "owned_by s u \<subseteq> {..<?n}" for u
  proof
    fix f assume "f \<in> owned_by s u"
    then obtain m where m: "(m, f) \<in> set (pc_owned (pc_of s u))" by (auto simp: owned_by_def)
    then obtain e' where "pc_iter (pc_of s u) = Some e'" using owned_iter[of "pc_of s u"] by force
    from owner_invD(1)[OF inv this m] show "f \<in> {..<?n}" using owner_invD(5)[OF inv] by auto
  qed
  have undone: "\<not> bf_done (ca_flights c ! f)" if "?n \<le> f" "f < length (ca_flights c)" for f
    using that by (auto simp: fl nth_append fresh_flight_def split: prod.split)
  have "ca_batchFlights c (miss_key e' m) = Some f" if "pc_iter (pc_of ?s u) = Some e'" "(m, f) \<in> set (pc_owned (pc_of ?s u))" for u e' m f
  proof (cases "u = t")
    case True
    then have "(m, f) \<in> set owned" "e' = e" using that p' by auto
    then show ?thesis using w sub by blast
  next
    case False
    then show ?thesis using that owner_invD(1)[OF inv, of u e' m f] le by (auto simp: map_le_def dom_def)
  qed
  moreover have "distinct (map snd (pc_owned (pc_of ?s u)))" for u
    using owner_invD(2)[OF inv, of u] up p'(1) by simp
  moreover have "owned_by ?s u \<inter> owned_by ?s u' = {}" if "u \<noteq> u'" for u u'
    using that ot ou[of u] ou[of u'] old[of u] old[of u'] owner_invD(3)[OF inv that]
    by (cases "u = t"; cases "u' = t") fastforce+
  moreover have "\<exists>u. f \<in> owned_by ?s u" if lt: "f < length (ca_flights c)" and nd: "\<not> bf_done (ca_flights c ! f)" for f
  proof (cases "f < ?n")
    case True
    then obtain u where u: "f \<in> owned_by s u" 
      using owner_invD(4)[OF inv, of f] nd by (auto simp: fl nth_append)
    then have "u \<noteq> t" using pc by (auto simp: owned_by_def)
    with u ou show ?thesis by blast
  next
    case False
    then show ?thesis using lt ot by (intro exI[of _ t]) auto
  qed
  moreover have "f < length (ca_flights c) \<and> bf_key (ca_flights c ! f) = key \<and> \<not> bf_done (ca_flights c ! f)"
    if "ca_batchFlights c key = Some f" for key f
  proof -
    have r: "f < length (ca_flights c) \<and> bf_key (ca_flights c ! f) = key" using reg that by (simp add: registry_ok_def)
    from new[OF that] show ?thesis
    proof
      assume "ca_batchFlights (sy_cache s) key = Some f"
      then show ?thesis using owner_invD(5)[OF inv] r by (auto simp: fl nth_append)
    next
      assume "?n \<le> f"
      then show ?thesis using r undone by blast
    qed
  qed
  ultimately show ?thesis unfolding owner_inv_def by simp
qed

lemma owner_complete:
  assumes inv: "owner_inv s"
    and pc: "pc_of s t = BatchComplete keys e out waits (((k, hash, cacheable), f) # owned) loaded err retry"
  shows "owner_inv (goto t (BatchComplete keys e out waits owned loaded err retry)
    (set_cache (completeBatchFlight (k, hash, cacheable, e) f v err retry (sy_cache s)) s))"
proof -
  let ?c = "completeBatchFlight (k, hash, cacheable, e) f v err retry (sy_cache s)"
  let ?s = "goto t (BatchComplete keys e out waits owned loaded err retry) (set_cache ?c s)"
  let ?key = "(k, hash, cacheable, e)"
  have reg: "ca_batchFlights (sy_cache s) ?key = Some f"
    using owner_invD(1)[OF inv, of t e "(k, hash, cacheable)" f] by (simp add: pc miss_key_def)
  have bf: "ca_batchFlights ?c = (ca_batchFlights (sy_cache s))(?key := None)" using reg by (simp add: complete_side)
  have fl: "length (ca_flights ?c) = length (ca_flights (sy_cache s))"
    "g \<noteq> f \<Longrightarrow> ca_flights ?c ! g = ca_flights (sy_cache s) ! g" for g by (simp_all add: complete_side)
  have fd: "bf_done (ca_flights ?c ! f)" using owner_invD(5)[OF inv reg] by (simp add: complete_side)
  have ot: "owned_by ?s t = owned_by s t - {f}" "f \<in> owned_by s t"
    using owner_invD(2)[OF inv, of t] by (auto simp: owned_by_def pc)
  have ou: "owned_by ?s u = owned_by s u" if "u \<noteq> t" for u using that by (simp add: owned_by_def)
  have nf: "g \<noteq> f" if "(m, g) \<in> set (pc_owned (pc_of ?s u))" for u m g
  proof -
    have "g \<in> owned_by ?s u" using that by (force simp: owned_by_def)
    then show ?thesis using ot ou[of u] owner_invD(3)[OF inv, of u t] by (cases "u = t") auto
  qed
  have "ca_batchFlights ?c (miss_key e' m) = Some g" if "pc_iter (pc_of ?s u) = Some e'" "(m, g) \<in> set (pc_owned (pc_of ?s u))" for u e' m g
  proof -
    have "ca_batchFlights (sy_cache s) (miss_key e' m) = Some g"
      using that owner_invD(1)[OF inv, of u e' m g] pc by (cases "u = t") auto
    then show ?thesis using nf[OF that(2)] reg unfolding bf by auto
  qed
  moreover have "distinct (map snd (pc_owned (pc_of ?s u)))" for u
    using owner_invD(2)[OF inv, of u] pc by (cases "u = t") auto
  moreover have "owned_by ?s u \<inter> owned_by ?s u' = {}" if "u \<noteq> u'" for u u'
    using owner_invD(3)[OF inv that] ot ou[of u] ou[of u'] by (cases "u = t"; cases "u' = t") auto
  moreover have "\<exists>u. g \<in> owned_by ?s u" if lt: "g < length (ca_flights ?c)" and nd: "\<not> bf_done (ca_flights ?c ! g)" for g
  proof -
    have "g \<noteq> f" using nd fd by auto
    moreover obtain u where "g \<in> owned_by s u" using owner_invD(4)[OF inv, of g] lt nd fl \<open>g \<noteq> f\<close> by auto
    ultimately show ?thesis using ot ou[of u] by (cases "u = t") auto
  qed
  moreover have "g < length (ca_flights ?c) \<and> bf_key (ca_flights ?c ! g) = key \<and> \<not> bf_done (ca_flights ?c ! g)"
    if "ca_batchFlights ?c key = Some g" for key g
  proof -
    have k: "key \<noteq> ?key" "ca_batchFlights (sy_cache s) key = Some g" using that unfolding bf by (auto split: if_splits)
    then have "g \<noteq> f" using owner_invD(5)[OF inv k(2)] owner_invD(5)[OF inv reg] by auto
    then show ?thesis using owner_invD(5)[OF inv k(2)] fl by simp
  qed
  ultimately show ?thesis unfolding owner_inv_def by simp
qed

lemma owner_local:
  assumes "owner_inv s" and "pc_owned p' = pc_owned (pc_of s t)" and "pc_owned p' \<noteq> [] \<longrightarrow> pc_iter p' = pc_iter (pc_of s t)"
    and "side c = side (sy_cache s)"
  shows "owner_inv (goto t p' (set_cache c s))"
  by (rule owner_move[OF assms(1), where t = t and p' = p'])
    (use assms side_fields[OF assms(4)] in \<open>simp_all add: fun_eq_iff\<close>)

lemma owner_local_same:
  assumes "owner_inv s" and "pc_owned p' = pc_owned (pc_of s t)" and "pc_owned p' \<noteq> [] \<longrightarrow> pc_iter p' = pc_iter (pc_of s t)"
  shows "owner_inv (goto t p' s)"
  using owner_local[OF assms, of "sy_cache s"] by simp

lemma owner_start:
  assumes "owner_inv s" and "pc_owned (pc_of s t) = []" and "pc_owned p = []"
  shows "owner_inv (start_call t p s)"
  by (rule owner_move[OF assms(1), where t = t and p' = p])
    (use assms in \<open>simp_all add: start_call_def pc_of_def fun_eq_iff\<close>)

lemma owner_batch_step:
  assumes "batch_step t s s'" and inv: "owner_inv s"
  shows "owner_inv s'"
  using assms(1)
proof cases
  case (claim_own keys e out missing waits owned c)
  have "registry_ok (sy_cache s)" using owner_invD(5)[OF inv] by (auto simp: registry_ok_def)
  from claimBatchFlights_ok[OF claim_own(4) this] show ?thesis
    unfolding claim_own(1) by (intro owner_claim[OF inv, where owned = owned]) (simp_all add: claim_own)
next
  case (claim_wait keys e out missing waits c)
  have "registry_ok (sy_cache s)" using owner_invD(5)[OF inv] by (auto simp: registry_ok_def)
  from claimBatchFlights_ok[OF claim_wait(4) this] show ?thesis
    unfolding claim_wait(1) by (intro owner_claim[OF inv, where owned = "[]"]) (simp_all add: claim_wait)
next
  case (complete_one keys e out waits k hash cacheable f owned loaded err retry)
  then show ?thesis using owner_complete[OF inv complete_one(2)] by (simp add: miss_key_def)
next
  case (batch_store keys e out waits owned loaded now ok c)
  then have "side c = side (sy_cache s)" by (auto simp: storeBatchIfEpoch_def split: if_splits)
  then show ?thesis using batch_store by (simp add: owner_local[OF inv])
qed (auto intro!: owner_local[OF inv] owner_local_same[OF inv] owner_start[OF inv] lookup_side)

lemma owner_reach: "sys_reach shares cfg s \<Longrightarrow> owner_inv s"
proof (induction rule: sys_reach.induct)
  case (init sprint i c db)
  then show ?case by (auto simp: owner_inv_def sys_new_def pc_of_def owned_by_def Cache_New_def split: if_splits)
next
  case (stepped s s')
  from stepped.hyps(2) show ?case
  proof cases
    case (get t)
    then show ?thesis
    proof cases
      case (fn_store k h ver i e v now stored c)
      then have "side c = side (sy_cache s)" by (auto simp: storeIfEpoch_def split: if_splits)
      then show ?thesis using fn_store by (simp add: owner_local[OF stepped.IH])
    qed (auto intro!: owner_local[OF stepped.IH] owner_local_same[OF stepped.IH] owner_start[OF stepped.IH]
          owner_move[OF stepped.IH, where t = t] lookup_side simp: goto_execs get_result_pcs fun_eq_iff)
  next
    case (build t)
    then show ?thesis
      by cases (auto intro!: owner_local[OF stepped.IH] owner_local_same[OF stepped.IH] owner_start[OF stepped.IH]
          simp: StoreIfEpoch_def storeIfEpoch_def)
  next
    case (batch t)
    then show ?thesis using owner_batch_step[OF batch stepped.IH] by simp
  next
    case env
    then show ?thesis
    proof cases
      case (db_writes k v)
      show ?thesis unfolding db_writes
        by (rule owner_move[OF stepped.IH, where t = 0 and p' = "pc_of s 0"]) (simp_all add: db_write_def pc_of_def fun_eq_iff)
    next
      case (invalidates c ks)
      show ?thesis unfolding invalidates(1)
        by (rule owner_move[OF stepped.IH, where t = 0 and p' = "pc_of s 0"])
          (use inval_side[OF invalidates(2)] in \<open>simp_all add: invalidated_def pc_of_def fun_eq_iff\<close>)
    qed
  qed
qed

text \<open>
  In every reachable state a batch flight that is not done is owned by exactly one goroutine,
  which has still to complete it, and no two goroutines load the same key at the same version and
  epoch at the same time; so a waiter is never left with a flight that nobody will close, and
  overlapping batches share one load per key.
\<close>

theorem batch_flights_owned:
  assumes "sys_reach shares cfg s"
  shows "(\<forall>f < length (ca_flights (sy_cache s)). \<not> bf_done (ca_flights (sy_cache s) ! f) \<longrightarrow> (\<exists>!t. f \<in> owned_by s t)) \<and>
    (\<forall>t u e m f g. pc_iter (pc_of s t) = Some e \<and> (m, f) \<in> set (pc_owned (pc_of s t)) \<and>
      pc_iter (pc_of s u) = Some e \<and> (m, g) \<in> set (pc_owned (pc_of s u)) \<longrightarrow> t = u \<and> f = g)"
proof -
  note inv = owner_reach[OF assms]
  have one: "t = u" if "f \<in> owned_by s t" "f \<in> owned_by s u" for t u f using owner_invD(3)[OF inv, of t u] that by blast
  have "t = u \<and> f = g" if "pc_iter (pc_of s t) = Some e" "(m, f) \<in> set (pc_owned (pc_of s t))"
    "pc_iter (pc_of s u) = Some e" "(m, g) \<in> set (pc_owned (pc_of s u))" for t u e m f g
  proof -
    have "f = g" using owner_invD(1)[OF inv that(1,2)] owner_invD(1)[OF inv that(3,4)] by simp
    moreover from this have "f \<in> owned_by s t" "f \<in> owned_by s u" using that(2,4) by (force simp: owned_by_def)+
    ultimately show ?thesis using one by blast
  qed
  moreover have "\<exists>!t. f \<in> owned_by s t" if "f < length (ca_flights (sy_cache s))" "\<not> bf_done (ca_flights (sy_cache s) ! f)" for f
    using owner_invD(4)[OF inv that] one by blast
  ultimately show ?thesis by blast
qed

end
