(* ===== verification/Flight_Examples.thy ===== *)
theory Flight_Examples
  imports Flight_Properties
begin

text \<open>
  Runs of the concurrent cache: a guarded load, a batch with a flight of its own, and the run in
  which a caller of \<open>GetOrLoad\<close> that starts after an invalidation is handed the older value of an
  execution it joins.
\<close>

section \<open>A cache with one key\<close>

definition demo_cache_config :: "(int, int, unit) cache_config" where
  "demo_cache_config = \<lparr>cf_MaxEntries = 4, cf_MaxWeight = 0, cf_Weight = None, cf_TTL = 0, cf_Clone = None,
    cf_KeyString = None, cf_OnStore = None, cf_OnRemove = None\<rparr>"

text \<open>
  As documented, a call of \<open>Do\<close> shares the execution in flight for its key.
\<close>

definition in_flight :: "int execution list \<Rightarrow> string \<Rightarrow> nat \<Rightarrow> bool" where
  "in_flight execs key i \<longleftrightarrow> i < length execs \<and> ex_key (execs ! i) = key \<and> ex_result (execs ! i) = None"

definition demo_c0 :: "(int, int, unit) cache" where
  "demo_c0 = the (Cache_New (\<lambda>_. ''k'') () demo_cache_config)"

definition demo_c1 :: "(int, int, unit) cache" where
  "demo_c1 = storeLocked 0 demo_c0 1 10 0"

definition demo_c2 :: "(int, int, unit) cache" where
  "demo_c2 = the (Invalidate (Some demo_c1) [1])"

lemma demo_new: "Cache_New (\<lambda>_. ''k'') () demo_cache_config = Some demo_c0"
  by (simp add: demo_c0_def Cache_New_def demo_cache_config_def)

lemma demo_clone: "clone_for demo_cache_config v = v"
  by (simp add: clone_for_def demo_cache_config_def)

lemma demo_c0_inv: "cache_inv demo_cache_config demo_c0" "entries_of demo_c0 = []" "ca_epoch demo_c0 = 0"
  using new_inv[OF demo_new] by (simp_all add: abs_cache_def)

lemma demo_c1_inv: "cache_inv demo_cache_config demo_c1" "ca_epoch demo_c1 = 0"
  "entries_of demo_c1 = [spec_entry demo_cache_config 0 1 10 0]"
  using store_inv[OF demo_c0_inv(1), of 0 1 10 0] demo_c0_inv
  by (simp_all add: demo_c1_def abs_cache_def spec_store_def drop_key_def demo_cache_config_def)

lemma demo_c1_contents: "contents demo_c1 1 = Some 10"
  using contents_entries[OF cache_invD(1)[OF demo_c1_inv(1)], of 1]
  by (simp add: demo_c1_inv spec_entry_def demo_clone)

lemma demo_c2_inv: "cache_inv demo_cache_config demo_c2" "entries_of demo_c2 = []"
  using Invalidate_ok[OF demo_c1_inv(1), of "[1]"]
  by (simp_all add: demo_c2_def abs_cache_def spec_inval_def demo_c1_inv spec_entry_def)

lemma lookup_absent:
  assumes "cache_inv cfg c" and "entries_of c = []"
  shows "Cache_lookup now c k h ver = (None, c)"
proof -
  have "ca_items c k = None"
    using find_key_items[OF cache_invD(1)[OF assms(1)], of k] assms(2) by (simp add: find_key_def)
  then show ?thesis by (simp add: Cache_lookup_def)
qed

section \<open>A guarded load\<close>

definition demo_r0 :: "(int, int, unit) sys" where
  "demo_r0 = sys_new demo_c0 (\<lambda>_. 10)"

definition demo_r1 :: "(int, int, unit) sys" where
  "demo_r1 = start_call 0 (GetLookup 1 0 False) demo_r0"

definition demo_r2 :: "(int, int, unit) sys" where
  "demo_r2 = goto 0 (FnLookup 1 0 False 0) ((goto 0 (GetDo 1 0 False) demo_r1)\<lparr>sy_execs := [\<lparr>ex_key = ''k'', ex_result = None\<rparr>]\<rparr>)"

definition demo_r3 :: "(int, int, unit) sys" where
  "demo_r3 = goto 0 (FnStore 1 0 False 0 0 10) (goto 0 (FnLoad 1 0 False 0 0) (goto 0 (FnEpoch 1 0 False 0) demo_r2))"

definition demo_r4 :: "(int, int, unit) sys" where
  "demo_r4 = goto 0 (FnReturn 1 0 False 0 (Inr (10, True))) (set_cache demo_c1 demo_r3)"

lemma goto_execs_frame [simp]: "sy_execs (goto t p s) = sy_execs s" "sy_execs (set_cache c s) = sy_execs s"
  by (simp_all add: goto_def set_cache_def)

lemma demo_r1_fields [simp]:
  "sy_cache demo_r1 = demo_c0" "sy_db demo_r1 = (\<lambda>_. 10)" "sy_execs demo_r1 = []" "sy_dirty demo_r1 = {}" "sy_invs demo_r1 = 0"
  "pc_of demo_r1 t = (if t = 0 then GetLookup 1 0 False else Idle)" "clean_of demo_r1 0 = UNIV"
  by (simp_all add: demo_r1_def demo_r0_def sys_new_def start_call_def pc_of_def clean_of_def)

lemma execs_frame [simp]: "sy_db (s\<lparr>sy_execs := x\<rparr>) = sy_db s" "sy_execs (s\<lparr>sy_execs := x\<rparr>) = x"
  by simp_all

lemmas reach_get = sys_reach.stepped[OF _ sys_step.get]
lemmas reach_batch = sys_reach.stepped[OF _ sys_step.batch]
lemmas reach_env = sys_reach.stepped[OF _ sys_step.env]

lemma demo_r1_reach: "sys_reach in_flight demo_cache_config demo_r1"
proof -
  have "sys_reach in_flight demo_cache_config demo_r0" unfolding demo_r0_def by (rule sys_reach.init[OF demo_new])
  then show ?thesis unfolding demo_r1_def
    by (rule reach_get[where t = 0]) (rule get_step.get_call, simp add: demo_r0_def sys_new_def pc_of_def)
qed

lemma demo_r2_reach: "sys_reach in_flight demo_cache_config demo_r2"
proof -
  have "sys_reach in_flight demo_cache_config (goto 0 (GetDo 1 0 False) (set_cache demo_c0 demo_r1))"
    using lookup_absent[OF demo_c0_inv(1,2), of 0 1 0 False]
    by (intro reach_get[where t = 0, OF demo_r1_reach] get_step.get_miss[where now = 0]) simp_all
  moreover have "set_cache demo_c0 demo_r1 = demo_r1" using set_cache_same[of demo_r1] by simp
  ultimately have r: "sys_reach in_flight demo_cache_config (goto 0 (GetDo 1 0 False) demo_r1)" by simp
  have "singleflightKey demo_c0 1 0 False = ''k''"
    by (simp add: singleflightKey_def demo_c0_def Cache_New_def demo_cache_config_def)
  then have "get_step in_flight 0 (goto 0 (GetDo 1 0 False) demo_r1) demo_r2"
    unfolding demo_r2_def
    using get_step.do_run[of "goto 0 (GetDo 1 0 False) demo_r1" 0 1 0 False "''k''" in_flight] by (simp add: in_flight_def)
  then show ?thesis by (rule reach_get[OF r])
qed

lemma demo_r2_fields [simp]:
  "sy_cache demo_r2 = demo_c0" "sy_db demo_r2 = (\<lambda>_. 10)" "sy_dirty demo_r2 = {}" "sy_invs demo_r2 = 0"
  "sy_execs demo_r2 = [\<lparr>ex_key = ''k'', ex_result = None\<rparr>]"
  "pc_of demo_r2 t = (if t = 0 then FnLookup 1 0 False 0 else Idle)" "clean_of demo_r2 0 = UNIV"
  by (simp_all add: demo_r2_def)

lemma demo_r3_reach: "sys_reach in_flight demo_cache_config demo_r3"
proof -
  let ?a = "goto 0 (FnEpoch 1 0 False 0) demo_r2" and ?b = "goto 0 (FnLoad 1 0 False 0 0) (goto 0 (FnEpoch 1 0 False 0) demo_r2)"
  have "sys_reach in_flight demo_cache_config (goto 0 (FnEpoch 1 0 False 0) (set_cache demo_c0 demo_r2))"
    using lookup_absent[OF demo_c0_inv(1,2), of 0 1 0 False]
    by (intro reach_get[where t = 0, OF demo_r2_reach] get_step.fn_miss[where now = 0]) simp_all
  moreover have "set_cache demo_c0 demo_r2 = demo_r2" using set_cache_same[of demo_r2] by simp
  ultimately have "sys_reach in_flight demo_cache_config ?a" by simp
  then have "sys_reach in_flight demo_cache_config ?b"
    using get_step.fn_epoch[of ?a 0 1 0 False 0 in_flight] demo_c0_inv(3) reach_get by (fastforce simp: cacheEpoch_def)
  then show ?thesis
    using get_step.fn_load[of ?b 0 1 0 False 0 0 in_flight] reach_get unfolding demo_r3_def by fastforce
qed

lemma demo_r4_reach: "sys_reach in_flight demo_cache_config demo_r4"
proof -
  have f: "sy_cache demo_r3 = demo_c0" "pc_of demo_r3 0 = FnStore 1 0 False 0 0 10" by (simp_all add: demo_r3_def)
  have "storeIfEpoch 0 demo_c0 1 10 0 0 = (True, demo_c1)" by (simp add: storeIfEpoch_def demo_c1_def demo_c0_inv)
  moreover have "cloneValue demo_c0 10 = 10" using cfg_values(1)[OF cache_invD(2)[OF demo_c0_inv(1)]] demo_clone by simp
  ultimately have "get_step in_flight 0 demo_r3 demo_r4"
    unfolding demo_r4_def using get_step.fn_store[OF f(2), of 0 True demo_c1 in_flight] by (simp add: f)
  then show ?thesis by (rule reach_get[OF demo_r3_reach])
qed

lemma demo_r4_fields [simp]:
  "sy_cache demo_r4 = demo_c1" "sy_db demo_r4 = (\<lambda>_. 10)" "sy_dirty demo_r4 = {}" "sy_invs demo_r4 = 0"
  "sy_execs demo_r4 = [\<lparr>ex_key = ''k'', ex_result = None\<rparr>]"
  "pc_of demo_r4 t = (if t = 0 then FnReturn 1 0 False 0 (Inr (10, True)) else Idle)" "clean_of demo_r4 0 = UNIV"
  by (simp_all add: demo_r4_def demo_r3_def)

theorem cache_never_stale_witness:
  "sys_reach in_flight demo_cache_config demo_r4 \<and> contents (sy_cache demo_r4) 1 = Some (10 :: int) \<and> 1 \<notin> sy_dirty demo_r4 \<and>
   10 = sy_db demo_r4 1"
  using cache_never_stale[OF demo_r4_reach, of 1 10] demo_r4_reach demo_c1_contents demo_clone by simp

theorem guarded_reads_fresh_witness:
  "\<exists>s :: (int, int, unit) sys. sys_reach in_flight demo_cache_config s \<and> pc_of s 0 = GetDone 1 False (Inr 10) \<and>
     1 \<in> clean_of s 0 \<and> sy_db s 1 = 10"
proof -
  let ?s = "goto 0 (GetDone 1 False (Inr 10)) (demo_r4\<lparr>sy_execs := [\<lparr>ex_key = ''k'', ex_result = Some (Inr (10, True))\<rparr>]\<rparr>)"
  have "get_step in_flight 0 demo_r4 ?s"
    using get_step.fn_return[of demo_r4 0 1 0 False 0 "Inr (10, True)" "GetDone 1 False (Inr 10)" in_flight]
      get_result.stored[of 1 0 False False 10] by simp
  then have r: "sys_reach in_flight demo_cache_config ?s" by (rule reach_get[OF demo_r4_reach])
  have "10 = sy_db ?s 1"
    by (rule guarded_reads_fresh[OF r, where t = 0 and out = Map.empty]) (simp_all add: demo_clone)
  then show ?thesis using r by (intro exI[of _ ?s]) simp
qed

section \<open>A batch with its own flight\<close>

definition demo_b1 :: "(int, int, unit) sys" where
  "demo_b1 = goto 0 (BatchLook [1] 0 [] Map.empty [(1, 0, True)])
    (goto 0 (BatchLook [1] 0 [1] Map.empty []) (start_call 0 (BatchStart [1]) demo_r0))"

definition demo_b2 :: "(int, int, unit) sys" where
  "demo_b2 = goto 0 (BatchLoad [1] 0 Map.empty [((1, 0, True), 0)] [((1, 0, True), 0)] Map.empty)
    (set_cache (demo_c0\<lparr>ca_flights := [fresh_flight (1, 0, True, 0)], ca_batchFlights := [(1, 0, True, 0) \<mapsto> 0]\<rparr>) demo_b1)"

lemma demo_b1_reach: "sys_reach in_flight demo_cache_config demo_b1"
proof -
  let ?a = "start_call 0 (BatchStart [1]) demo_r0"
  let ?b = "goto 0 (BatchLook [1] 0 [1] Map.empty []) ?a"
  have r0: "sys_reach in_flight demo_cache_config demo_r0" unfolding demo_r0_def by (rule sys_reach.init[OF demo_new])
  have a: "sys_reach in_flight demo_cache_config ?a"
    by (rule reach_batch[OF r0]) (rule batch_step.batch_call, simp_all add: demo_r0_def sys_new_def pc_of_def)
  have fa: "sy_cache ?a = demo_c0" "pc_of ?a 0 = BatchStart [1]"
    by (simp_all add: start_call_def demo_r0_def sys_new_def pc_of_def)
  have "batch_step 0 ?a ?b"
    using batch_step.batch_epoch[OF fa(2)] by (simp add: fa cacheEpoch_def demo_c0_inv dedupeKeys_def)
  from reach_batch[OF a this] have b: "sys_reach in_flight demo_cache_config ?b" .
  have fb: "sy_cache ?b = demo_c0" "pc_of ?b 0 = BatchLook [1] 0 [1] Map.empty []" using fa by simp_all
  have "batch_step 0 ?b demo_b1"
    using batch_step.look_miss[OF fb(2), of 0 0 demo_c0] lookup_absent[OF demo_c0_inv(1,2)] set_cache_same[of ?b]
    unfolding demo_b1_def by (simp add: fb fa)
  from reach_batch[OF b this] show ?thesis .
qed

lemma demo_b2_reach: "sys_reach in_flight demo_cache_config demo_b2"
proof -
  have f: "sy_cache demo_b1 = demo_c0" "pc_of demo_b1 0 = BatchLook [1] 0 [] Map.empty [(1, 0, True)]"
    by (simp_all add: demo_b1_def start_call_def demo_r0_def sys_new_def)
  have c0: "ca_flights demo_c0 = []" "ca_batchFlights demo_c0 = Map.empty"
    by (simp_all add: demo_c0_def Cache_New_def demo_cache_config_def)
  have "batch_step 0 demo_b1 demo_b2"
    unfolding demo_b2_def
    by (rule batch_step.claim_own[OF f(2)]) (simp_all add: f c0 miss_key_def fresh_flight_def Let_def)
  from reach_batch[OF demo_b1_reach this] show ?thesis .
qed

theorem batch_flights_owned_witness:
  "\<exists>!t. 0 \<in> owned_by demo_b2 t"
  using batch_flights_owned[OF demo_b2_reach] by (simp add: demo_b2_def fresh_flight_def)

section \<open>Joining an execution that an invalidation has overtaken\<close>

text \<open>
  Goroutine 0 has stored its load and has not yet returned from the shared function; the key is then
  written and invalidated. Goroutine 1 starts afterwards, misses, joins the execution that is still in
  flight, and is handed the value from before the write. The singleflight key has no epoch, unlike
  the key of a batch flight.
\<close>

lemma stale_join:
  "\<exists>s :: (int, int, unit) sys. sys_reach in_flight demo_cache_config s \<and> pc_of s 1 = GetDone 1 True (Inr 10) \<and>
     1 \<in> clean_of s 1 \<and> sy_db s 1 = 11"
proof -
  define s8 where "s8 = invalidated demo_c2 {1} (db_write 1 11 demo_r4)"
  define s9 where "s9 = start_call 1 (GetLookup 1 0 False) s8"
  define s10 where "s10 = goto 1 (GetWait 1 0 False 0) (goto 1 (GetDo 1 0 False) s9)"
  define s11 where "s11 = goto 0 (GetDone 1 False (Inr 10)) (s10\<lparr>sy_execs := [\<lparr>ex_key = ''k'', ex_result = Some (Inr (10, True))\<rparr>]\<rparr>)"
  have f8: "sy_cache s8 = demo_c2" "sy_db s8 1 = 11" "sy_dirty s8 = {}" "sy_execs s8 = [\<lparr>ex_key = ''k'', ex_result = None\<rparr>]"
    "pc_of s8 t = (if t = 0 then FnReturn 1 0 False 0 (Inr (10, True)) else Idle)" for t
    using demo_r4_fields(6)[of t] by (simp_all add: s8_def invalidated_def db_write_def pc_of_def)
  have "env_step (db_write 1 11 demo_r4) s8"
    unfolding s8_def using inval_of.by_keys[of "[1]" demo_c1]
    by (intro env_step.invalidates) (simp add: db_write_def demo_c2_def)
  then have r8: "sys_reach in_flight demo_cache_config s8"
    using reach_env[OF reach_env[OF demo_r4_reach env_step.db_writes]] by blast
  have f9: "sy_cache s9 = demo_c2" "sy_db s9 1 = 11" "clean_of s9 (Suc 0) = UNIV" "sy_execs s9 = sy_execs s8"
    "pc_of s9 t = (if t = 1 then GetLookup 1 0 False else pc_of s8 t)" for t
    using f8 by (simp_all add: s9_def start_call_def pc_of_def clean_of_def)
  have r9: "sys_reach in_flight demo_cache_config s9"
    unfolding s9_def by (rule reach_get[OF r8]) (rule get_step.get_call, simp add: f8)
  have "get_step in_flight 1 s9 (goto 1 (GetDo 1 0 False) s9)"
    using get_step.get_miss[of s9 1 1 0 False 0 demo_c2 in_flight] lookup_absent[OF demo_c2_inv] set_cache_same[of s9]
    by (simp add: f9)
  note r9' = reach_get[OF r9 this]
  have key: "singleflightKey demo_c2 1 0 False = ''k''"
    by (simp add: singleflightKey_def demo_c2_def demo_c1_def demo_c0_def Cache_New_def demo_cache_config_def
        Invalidate_def bump_epoch_def)
  have "get_step in_flight 1 (goto 1 (GetDo 1 0 False) s9) s10"
    unfolding s10_def by (rule get_step.do_join) (simp_all add: f9 f8 key in_flight_def)
  note r10 = reach_get[OF r9' this]
  have f10: "sy_execs s10 = sy_execs s8" "pc_of s10 0 = FnReturn 1 0 False 0 (Inr (10, True))"
    "pc_of s10 (Suc 0) = GetWait 1 0 False 0" "clean_of s10 (Suc 0) = UNIV" "sy_db s10 1 = 11"
    by (simp_all add: s10_def f9 f8)
  have "get_step in_flight 0 s10 s11"
    unfolding s11_def
    using get_step.fn_return[OF f10(2), of "GetDone 1 False (Inr 10)" in_flight] get_result.stored[of 1 0 False False 10]
    by (simp add: f10 f8)
  note r11 = reach_get[OF r10 this]
  have "get_step in_flight 1 s11 (goto 1 (GetDone 1 True (Inr 10)) s11)"
    by (rule get_step.get_shared[where i = 0 and r = "Inr (10, True)" and k = 1 and h = 0 and ver = False])
      (simp_all add: s11_def f10 get_result.stored)
  from reach_get[OF r11 this] show ?thesis
    by (intro exI[of _ "goto 1 (GetDone 1 True (Inr 10)) s11"]) (simp add: s11_def f10)
qed

end
