(* ===== verification/Message_Store.thy ===== *)
theory Message_Store
  imports Update_Store
begin

text \<open>
  The memory store of private messages, first part (\<open>internal/store/memory/message_store.go\<close>,
  \<open>message_allocators.go\<close>, \<open>message_send.go\<close>, \<open>message_forward.go\<close>, \<open>message_pin.go\<close>,
  \<open>message_no_forwards.go\<close>, \<open>internal/store/private_send_idempotency.go\<close>): the boxes of the
  accounts, the allocation of box ids, shared ids and pts, sending with idempotent replay, forwarding,
  pinning and the protection of a chat against forwarding.

  Every operation is one function of the store. All but two hold the store mutex for their whole run.
  \<open>ForwardPrivateMessages\<close> reads its sources under the mutex, leaves it and then calls
  \<open>SendPrivateText\<close> once per message; \<open>TogglePrivateNoForwards\<close> reads the request, sends the service
  message and marks an answered request, each under the mutex, while it holds \<open>noForwardsMu\<close>. Both are
  one step here, so an operation of another goroutine between these parts is not in the model as
  such; a forward interleaved with others writes what the same sends do as operations of their own. \<open>now\<close>
  and \<open>nowNano\<close> are the readings of the clock, \<open>cx\<close> the JSON encoder. The event log it writes to is
  the store of \<open>Update_Store\<close>. A map read with a default of zero or of an empty slice is a total
  function. An operation that fails before it has changed anything returns \<open>Inl\<close>; one that can fail
  half way (\<open>ForwardPrivateMessages\<close>) returns its error beside the state it leaves.
\<close>

section \<open>State\<close>

record 'v dedup_record =
  pd_recipientUserID :: int
  pd_senderSnapshot :: string
  pd_recipientMessage :: "'v message"
  pd_fingerprint :: bytes
  pd_senderDeleteEvent :: "'v update_event option"

record 'v dialog_list =
  dl_Dialogs :: "'v dialog_state dialog list"
  dl_Messages :: "'v message list"
  dl_Users :: "int list"

record no_forwards_state =
  nf_UserLowID :: int
  nf_UserHighID :: int
  nf_EnabledByUserID :: int

record no_forwards_request =
  nr_privateMessageID :: int
  nr_requesterUserID :: int
  nr_responderUserID :: int
  nr_expiresAt :: int
  nr_handled :: bool

record 'v message_store =
  ms_m :: "int \<Rightarrow> 'v message list"
  ms_nextUID :: int
  ms_nextBox :: "int \<Rightarrow> int"
  ms_nextPts :: "int \<Rightarrow> int"
  ms_readOutboxDates :: "int \<times> int \<times> int \<Rightarrow> int"
  ms_savedMessageTags :: "int \<Rightarrow> int \<Rightarrow> message_reaction list"
  ms_dedup :: "int \<times> int \<rightharpoonup> 'v dedup_record"
  ms_dialogs :: "(int \<rightharpoonup> 'v dialog_list) option"
  ms_events :: "'v event_store option"
  ms_noForwards :: "int \<times> int \<rightharpoonup> no_forwards_state"
  ms_noForwardsRequests :: "int \<rightharpoonup> no_forwards_request"

definition NewMessageStore :: "(int \<rightharpoonup> 'v dialog_list) option \<Rightarrow> 'v message_store" where
  "NewMessageStore dialogs =
    \<lparr>ms_m = (\<lambda>_. []), ms_nextUID = 1, ms_nextBox = (\<lambda>_. 0), ms_nextPts = (\<lambda>_. 0),
     ms_readOutboxDates = (\<lambda>_. 0), ms_savedMessageTags = (\<lambda>_ _. []), ms_dedup = Map.empty,
     ms_dialogs = dialogs, ms_events = Some NewUpdateEventStore, ms_noForwards = Map.empty,
     ms_noForwardsRequests = Map.empty\<rparr>"

definition AttachUpdateEventStore :: "'v message_store \<Rightarrow> 'v event_store option \<Rightarrow> 'v message_store" where
  "AttachUpdateEventStore s events = s\<lparr>ms_events := events\<rparr>"

section \<open>Small loops over slices\<close>

fun first_index :: "('a \<Rightarrow> bool) \<Rightarrow> 'a list \<Rightarrow> nat option" where
  "first_index P [] = None"
| "first_index P (x # xs) = (if P x then Some 0 else map_option Suc (first_index P xs))"

fun update_first :: "('a \<Rightarrow> bool) \<Rightarrow> ('a \<Rightarrow> 'a) \<Rightarrow> 'a list \<Rightarrow> 'a list" where
  "update_first P f [] = []"
| "update_first P f (x # xs) = (if P x then f x # xs else x # update_first P f xs)"

section \<open>Allocators\<close>

definition nextBoxIDLocked :: "'v message_store \<Rightarrow> int \<Rightarrow> int \<times> 'v message_store" where
  "nextBoxIDLocked s userID =
    (let nxt = ms_nextBox s userID + 1 in (nxt, s\<lparr>ms_nextBox := (ms_nextBox s)(userID := nxt)\<rparr>))"

definition nextPtsLocked :: "'v message_store \<Rightarrow> int \<Rightarrow> int \<times> 'v message_store" where
  "nextPtsLocked s userID =
    (let nxt = ms_nextPts s userID + 1 in (nxt, s\<lparr>ms_nextPts := (ms_nextPts s)(userID := nxt)\<rparr>))"

definition nextPtsNLocked :: "'v message_store \<Rightarrow> int \<Rightarrow> int \<Rightarrow> int \<times> 'v message_store" where
  "nextPtsNLocked s userID cnt =
    (let cnt = (if cnt \<le> 0 then 1 else cnt);
         nxt = ms_nextPts s userID + cnt
     in (nxt, s\<lparr>ms_nextPts := (ms_nextPts s)(userID := nxt)\<rparr>))"

definition nextPtsWithEventsLocked ::
  "'v message_store \<Rightarrow> 'v event_store \<Rightarrow> int \<Rightarrow> int \<times> 'v message_store" where
  "nextPtsWithEventsLocked s events userID =
    (let current = max_pts_loop (ms_nextPts s userID) (es_events events userID) + 1
     in (current, s\<lparr>ms_nextPts := (ms_nextPts s)(userID := current)\<rparr>))"

section \<open>Events\<close>

definition newMessageEvent :: "'v message \<Rightarrow> 'v update_event" where
  "newMessageEvent msg =
    (if msg_ID msg = 0 then zero_event
     else zero_event\<lparr>ev_UserID := msg_OwnerUserID msg, ev_Type := UpdateEventNewMessage,
            ev_Pts := msg_Pts msg, ev_PtsCount := 1, ev_Date := msg_Date msg, ev_Message := msg\<rparr>)"

definition editMessageEvent :: "'v message \<Rightarrow> 'v update_event" where
  "editMessageEvent msg =
    (if msg_ID msg = 0 then zero_event
     else zero_event\<lparr>ev_UserID := msg_OwnerUserID msg, ev_Type := UpdateEventEditMessage,
            ev_Pts := msg_Pts msg, ev_PtsCount := 1, ev_Date := msg_EditDate msg, ev_Message := msg\<rparr>)"

definition webPageEvent :: "'v message \<Rightarrow> 'v update_event" where
  "webPageEvent msg =
    (if msg_ID msg = 0 then zero_event
     else zero_event\<lparr>ev_UserID := msg_OwnerUserID msg, ev_Type := UpdateEventWebPage,
            ev_Pts := msg_Pts msg, ev_PtsCount := 1, ev_Date := msg_Date msg, ev_Message := msg\<rparr>)"

definition appendMemorySendEventLocked ::
  "'v event_store \<Rightarrow> int \<Rightarrow> 'v update_event \<Rightarrow> authkey \<Rightarrow> int \<Rightarrow> 'v event_store" where
  "appendMemorySendEventLocked events userID event excludeAuthKeyID excludeSessionID =
    (case appendLocked events userID event False of
       (event, events) \<Rightarrow>
         events\<lparr>es_dispatches := (es_dispatches events)(userID := es_dispatches events userID @
           [\<lparr>dp_Pts = ev_Pts event, dp_ExcludeAuthKeyID = excludeAuthKeyID,
             dp_ExcludeSessionID = excludeSessionID\<rparr>])\<rparr>)"

section \<open>Dialogs of the memory store\<close>

definition zero_dialog_state :: "'v dialog_state" where
  "zero_dialog_state = \<lparr>dr_ReadInboxMaxID = 0, dr_ReadOutboxMaxID = 0, dr_UnreadCount = 0,
     dr_UnreadMentions = 0, dr_UnreadReactions = 0, dr_TTLPeriod = 0, dr_ThemeEmoticon = [],
     dr_HasScheduled = False, dr_PinnedOrder = 0, dr_UnreadMark = False,
     dr_ViewForumAsMessages = False, dr_PeerSettingsBarHidden = False, dr_Draft = None\<rparr>"

definition empty_dialog_list :: "'v dialog_list" where
  "empty_dialog_list = \<lparr>dl_Dialogs = [], dl_Messages = [], dl_Users = []\<rparr>"

definition new_dialog :: "peer \<Rightarrow> int \<Rightarrow> int \<Rightarrow> int \<Rightarrow> 'v dialog_state dialog" where
  "new_dialog peer topID date unread =
    \<lparr>dg_Peer = peer, dg_FolderID = DialogMainFolderID, dg_TopMessage = topID, dg_TopMessageDate = date,
     dg_Pinned = False, dg_ChannelMember = False,
     dg_rest = zero_dialog_state\<lparr>dr_UnreadCount := unread\<rparr>\<rparr>"

text \<open>Each field is kept from the old dialog where the new one has its zero value.\<close>

definition merge_dialog :: "'v dialog_state dialog \<Rightarrow> 'v dialog_state dialog \<Rightarrow> 'v dialog_state dialog" where
  "merge_dialog old d =
    (let o' = dg_rest old; r = dg_rest d; pin = \<not> dg_Pinned d \<and> dg_Pinned old
     in d\<lparr>dg_FolderID := (if dg_FolderID d = DialogMainFolderID \<and> dg_FolderID old \<noteq> DialogMainFolderID
                          then dg_FolderID old else dg_FolderID d),
          dg_Pinned := (if pin then dg_Pinned old else dg_Pinned d),
          dg_rest :=
            \<lparr>dr_ReadInboxMaxID = (if dr_ReadInboxMaxID r = 0 then dr_ReadInboxMaxID o' else dr_ReadInboxMaxID r),
             dr_ReadOutboxMaxID = (if dr_ReadOutboxMaxID r = 0 then dr_ReadOutboxMaxID o' else dr_ReadOutboxMaxID r),
             dr_UnreadCount = (if dr_UnreadCount r = 0 then dr_UnreadCount o' else dr_UnreadCount r),
             dr_UnreadMentions = (if dr_UnreadMentions r = 0 then dr_UnreadMentions o' else dr_UnreadMentions r),
             dr_UnreadReactions = (if dr_UnreadReactions r = 0 then dr_UnreadReactions o' else dr_UnreadReactions r),
             dr_TTLPeriod = (if dr_TTLPeriod r = 0 then dr_TTLPeriod o' else dr_TTLPeriod r),
             dr_ThemeEmoticon = (if dr_ThemeEmoticon r = [] then dr_ThemeEmoticon o' else dr_ThemeEmoticon r),
             dr_HasScheduled = (if \<not> dr_HasScheduled r then dr_HasScheduled o' else dr_HasScheduled r),
             dr_PinnedOrder = (if pin then dr_PinnedOrder o' else dr_PinnedOrder r),
             dr_UnreadMark = (if \<not> dr_UnreadMark r then dr_UnreadMark o' else dr_UnreadMark r),
             dr_ViewForumAsMessages =
               (if \<not> dr_ViewForumAsMessages r then dr_ViewForumAsMessages o' else dr_ViewForumAsMessages r),
             dr_PeerSettingsBarHidden =
               (if \<not> dr_PeerSettingsBarHidden r then dr_PeerSettingsBarHidden o' else dr_PeerSettingsBarHidden r),
             dr_Draft = (if dr_Draft r = None then dr_Draft o' else dr_Draft r)\<rparr>\<rparr>)"

fun upsertMemoryDialog ::
  "'v dialog_state dialog list \<Rightarrow> 'v dialog_state dialog \<Rightarrow> 'v dialog_state dialog list" where
  "upsertMemoryDialog [] d = [d]"
| "upsertMemoryDialog (x # xs) d =
     (if dg_Peer x = dg_Peer d then merge_dialog x d # xs else x # upsertMemoryDialog xs d)"

definition unread_from :: "peer \<Rightarrow> int \<Rightarrow> 'v message list \<Rightarrow> int" where
  "unread_from peer readMax msgs =
     int (length (filter (\<lambda>msg. msg_Peer msg = peer \<and> \<not> msg_Out msg \<and> msg_ID msg > readMax) msgs))"

definition privateUnreadCountLocked :: "'v message list \<Rightarrow> 'v dialog_list option \<Rightarrow> peer \<Rightarrow> int" where
  "privateUnreadCountLocked msgs dlist peer =
    (let readMax = (case dlist of
                      None \<Rightarrow> 0
                    | Some l \<Rightarrow> (case find (\<lambda>d. dg_Peer d = peer) (dl_Dialogs l) of
                                  None \<Rightarrow> 0 | Some d \<Rightarrow> dr_ReadInboxMaxID (dg_rest d)))
     in unread_from peer readMax msgs)"

definition clear_unread_mark :: "'v dialog_state dialog \<Rightarrow> 'v dialog_state dialog" where
  "clear_unread_mark d = d\<lparr>dg_rest := (dg_rest d)\<lparr>dr_UnreadMark := False\<rparr>\<rparr>"

definition upsertMemoryDialogsLocked ::
  "(int \<Rightarrow> 'v message list) \<Rightarrow> (int \<rightharpoonup> 'v dialog_list) \<Rightarrow> 'v message \<Rightarrow> 'v message \<Rightarrow> (int \<rightharpoonup> 'v dialog_list)" where
  "upsertMemoryDialogsLocked boxes dialogs sender recipient =
    (let list = mget empty_dialog_list dialogs (msg_OwnerUserID sender);
         ds = upsertMemoryDialog (dl_Dialogs list)
                (new_dialog (msg_Peer sender) (msg_ID sender) (msg_Date sender) 0);
         ds = update_first (\<lambda>d. dg_Peer d = msg_Peer sender) clear_unread_mark ds;
         list = list\<lparr>dl_Dialogs := ds, dl_Messages := dl_Messages list @ [sender]\<rparr>;
         dialogs = dialogs(msg_OwnerUserID sender \<mapsto> list)
     in if msg_OwnerUserID recipient \<noteq> msg_OwnerUserID sender
        then let peerList = mget empty_dialog_list dialogs (msg_OwnerUserID recipient);
                 ds = upsertMemoryDialog (dl_Dialogs peerList)
                   (new_dialog (msg_Peer recipient) (msg_ID recipient) (msg_Date recipient)
                      (privateUnreadCountLocked (boxes (msg_OwnerUserID recipient))
                         (dialogs (msg_OwnerUserID recipient)) (msg_Peer recipient)));
                 peerList = peerList\<lparr>dl_Dialogs := ds, dl_Messages := dl_Messages peerList @ [recipient]\<rparr>
             in dialogs(msg_OwnerUserID recipient \<mapsto> peerList)
        else dialogs)"

section \<open>Create\<close>

text \<open>\<open>sys\<close> tells which ids are built-in accounts (\<open>domain.SystemUserByID\<close>, part of the configuration).\<close>

definition Create :: "(int \<Rightarrow> bool) \<Rightarrow> 'v message_store \<Rightarrow> 'v message \<Rightarrow> 'v message \<times> 'v message_store" where
  "Create sys s msg =
    (case nextBoxIDLocked s (msg_OwnerUserID msg) of
       (boxID, s) \<Rightarrow>
         let msg = msg\<lparr>msg_ID := boxID, msg_UID := ms_nextUID s\<rparr>;
             owner = msg_OwnerUserID msg;
             s = s\<lparr>ms_nextUID := ms_nextUID s + 1, ms_m := (ms_m s)(owner := ms_m s owner @ [msg])\<rparr>
         in case ms_dialogs s of
              None \<Rightarrow> (msg, s)
            | Some dialogs \<Rightarrow>
                let list = mget empty_dialog_list dialogs owner;
                    list = list\<lparr>dl_Messages := dl_Messages list @ [msg]\<rparr>;
                    list = (if peer_Type (msg_Peer msg) = PeerTypeUser \<and>
                               peer_ID (msg_Peer msg) \<notin> set (dl_Users list) \<and> sys (peer_ID (msg_Peer msg))
                            then list\<lparr>dl_Users := dl_Users list @ [peer_ID (msg_Peer msg)]\<rparr> else list)
                in (msg, s\<lparr>ms_dialogs := Some (dialogs(owner \<mapsto> list))\<rparr>))"

section \<open>Idempotency of sends\<close>

record 'v send_request =
  sr_SenderUserID :: int
  sr_RecipientUserID :: int
  sr_RandomID :: int
  sr_Message :: string
  sr_Entities :: "message_entity list"
  sr_Media :: "'v message_media option"
  sr_Silent :: bool
  sr_NoForwards :: bool
  sr_ReplyTo :: "'v message_reply option"
  sr_Forward :: "message_forward option"
  sr_Date :: int
  sr_OriginAuthKeyID :: authkey
  sr_OriginSessionID :: int
  sr_OriginUserID :: int
  sr_RecipientBlocked :: bool
  sr_IdempotencyFingerprint :: bytes
  sr_TTLPeriod :: int
  sr_ViaBotID :: int
  sr_GroupedID :: int
  sr_Effect :: int
  sr_ReplyMarkup :: "'v option"
  sr_RichMessage :: "'v rich_message option"

definition zero_send_request :: "'v send_request" where
  "zero_send_request = \<lparr>sr_SenderUserID = 0, sr_RecipientUserID = 0, sr_RandomID = 0, sr_Message = [],
     sr_Entities = [], sr_Media = None, sr_Silent = False, sr_NoForwards = False, sr_ReplyTo = None,
     sr_Forward = None, sr_Date = 0, sr_OriginAuthKeyID = 0, sr_OriginSessionID = 0, sr_OriginUserID = 0,
     sr_RecipientBlocked = False, sr_IdempotencyFingerprint = [], sr_TTLPeriod = 0, sr_ViaBotID = 0,
     sr_GroupedID = 0, sr_Effect = 0, sr_ReplyMarkup = None, sr_RichMessage = None\<rparr>"

definition HasContent :: "'v send_request \<Rightarrow> bool" where
  "HasContent r \<longleftrightarrow> sr_Message r \<noteq> [] \<or> \<not> Media_IsZero (sr_Media r) \<or> \<not> Rich_IsZero (sr_RichMessage r)"

record replay_request =
  rr_SenderUserID :: int
  rr_RecipientUserID :: int
  rr_RandomID :: int
  rr_IdempotencyFingerprint :: bytes

record 'v send_result =
  sn_SenderMessage :: "'v message"
  sn_RecipientMessage :: "'v message"
  sn_SenderEvent :: "'v update_event"
  sn_RecipientEvent :: "'v update_event"
  sn_Duplicate :: bool
  sn_ReplayDeleteEvent :: "'v update_event option"

definition sha256_Size :: nat where "sha256_Size = 32"
definition privateSendFingerprintVersion :: int where "privateSendFingerprintVersion = 1"
definition sendSnapshotVersion :: int where "sendSnapshotVersion = 1"

definition send_payload_of :: "'v send_request \<Rightarrow> 'v send_payload" where
  "send_payload_of req =
    \<lparr>sp_Version = privateSendFingerprintVersion, sp_RecipientUserID = sr_RecipientUserID req,
     sp_Message = sr_Message req, sp_Entities = sr_Entities req, sp_Media = sr_Media req,
     sp_Silent = sr_Silent req, sp_NoForwards = sr_NoForwards req, sp_ReplyTo = sr_ReplyTo req,
     sp_Forward = sr_Forward req, sp_TTLPeriod = sr_TTLPeriod req, sp_ViaBotID = sr_ViaBotID req,
     sp_GroupedID = sr_GroupedID req, sp_Effect = sr_Effect req, sp_ReplyMarkup = sr_ReplyMarkup req,
     sp_RichMessage = sr_RichMessage req\<rparr>"

definition PrivateSendFingerprint :: "'v json_codec \<Rightarrow> 'v send_request \<Rightarrow> msg_error + bytes" where
  "PrivateSendFingerprint cx req =
    (let given = sr_IdempotencyFingerprint req in
     if given \<noteq> [] then
       (if length given \<noteq> sha256_Size then Inl (ErrSendFingerprint (int (length given))) else Inr given)
     else case js_payload cx (send_payload_of req) of
            None \<Rightarrow> Inl ErrMarshal
          | Some payload \<Rightarrow> Inr (js_sha256 cx payload))"

definition ValidateSendFingerprint :: "bytes \<Rightarrow> msg_error option" where
  "ValidateSendFingerprint fingerprint =
    (if length fingerprint \<noteq> sha256_Size then Some (ErrSendFingerprint (int (length fingerprint))) else None)"

definition SameSendFingerprint :: "bytes \<Rightarrow> bytes \<Rightarrow> bool" where
  "SameSendFingerprint stored expected \<longleftrightarrow>
    length stored = sha256_Size \<and> length expected = sha256_Size \<and> stored = expected"

definition snapshot_valid :: "'v message \<Rightarrow> bool" where
  "snapshot_valid msg \<longleftrightarrow>
    \<not> (msg_ID msg \<le> 0 \<or> msg_UID msg \<le> 0 \<or> msg_RandomID msg = 0 \<or> msg_OwnerUserID msg = 0 \<or> msg_Pts msg \<le> 0)"

definition snapshot_external :: "'v json_codec \<Rightarrow> 'v message \<Rightarrow> msg_error option" where
  "snapshot_external cx msg =
    (case msg_ReplyTo msg of
       None \<Rightarrow> None
     | Some r \<Rightarrow> (case rp_External r of
                    None \<Rightarrow> None
                  | Some x \<Rightarrow> (case EncodeMessageReplyExternal cx x of Inl e \<Rightarrow> Some e | Inr _ \<Rightarrow> None)))"

definition EncodePrivateSendSnapshot :: "'v json_codec \<Rightarrow> 'v message \<Rightarrow> msg_error + string" where
  "EncodePrivateSendSnapshot cx msg =
    (if \<not> snapshot_valid msg then Inl ErrSendSnapshot
     else case snapshot_external cx msg of
            Some e \<Rightarrow> Inl e
          | None \<Rightarrow> (case js_envelope cx sendSnapshotVersion msg of
                       None \<Rightarrow> Inl ErrMarshal | Some raw \<Rightarrow> Inr raw))"

definition DecodePrivateSendSnapshot :: "'v json_codec \<Rightarrow> string \<Rightarrow> msg_error + 'v message" where
  "DecodePrivateSendSnapshot cx raw =
    (case js_read_envelope cx raw of
       None \<Rightarrow> Inl ErrUnmarshal
     | Some (version, msg) \<Rightarrow>
         if version \<noteq> sendSnapshotVersion \<or> \<not> snapshot_valid msg then Inl ErrSendSnapshot
         else case snapshot_external cx msg of Some e \<Rightarrow> Inl e | None \<Rightarrow> Inr msg)"

definition immutablePrivateSendReceipt :: "'v message \<Rightarrow> 'v message" where
  "immutablePrivateSendReceipt msg =
    (if msg_ID msg = 0 then zero_message
     else zero_message\<lparr>msg_ID := msg_ID msg, msg_UID := msg_UID msg, msg_RandomID := msg_RandomID msg,
            msg_OwnerUserID := msg_OwnerUserID msg, msg_Peer := msg_Peer msg, msg_From := msg_From msg,
            msg_Date := msg_Date msg, msg_Out := msg_Out msg, msg_Pts := msg_Pts msg\<rparr>)"

definition lookupPrivateSendReplayLocked ::
  "'v json_codec \<Rightarrow> 'v message_store \<Rightarrow> replay_request \<Rightarrow> msg_error + 'v send_result option" where
  "lookupPrivateSendReplayLocked cx s req =
    (case ms_dedup s (rr_SenderUserID req, rr_RandomID req) of
       None \<Rightarrow> Inr None
     | Some record \<Rightarrow>
         if pd_recipientUserID record \<noteq> rr_RecipientUserID req \<or>
            \<not> SameSendFingerprint (pd_fingerprint record) (rr_IdempotencyFingerprint req)
         then Inl ErrMessageRandomIDDuplicate
         else case DecodePrivateSendSnapshot cx (pd_senderSnapshot record) of
                Inl e \<Rightarrow> Inl e
              | Inr firstSender \<Rightarrow>
                  let current = find (\<lambda>m. msg_UID m = msg_UID firstSender \<and> msg_ID m = msg_ID firstSender)
                                  (ms_m s (rr_SenderUserID req))
                  in if current = None \<and> pd_senderDeleteEvent record = None
                     then Inl (ErrReplayAbsent (msg_UID firstSender))
                     else Inr (Some \<lparr>sn_SenderMessage =
                              (case current of
                                 None \<Rightarrow> firstSender
                               | Some m \<Rightarrow> m\<lparr>msg_RandomID := msg_RandomID firstSender\<rparr>),
                            sn_RecipientMessage = pd_recipientMessage record,
                            sn_SenderEvent = newMessageEvent firstSender,
                            sn_RecipientEvent = newMessageEvent (pd_recipientMessage record),
                            sn_Duplicate = True,
                            sn_ReplayDeleteEvent = pd_senderDeleteEvent record\<rparr>))"

definition LookupPrivateSendReplay ::
  "'v json_codec \<Rightarrow> 'v message_store \<Rightarrow> replay_request \<Rightarrow> msg_error + 'v send_result option" where
  "LookupPrivateSendReplay cx s req =
    (if rr_SenderUserID req = 0 \<or> rr_RecipientUserID req = 0 \<or> rr_RandomID req = 0 then Inl ErrReplayScope
     else case ValidateSendFingerprint (rr_IdempotencyFingerprint req) of
            Some e \<Rightarrow> Inl e
          | None \<Rightarrow> lookupPrivateSendReplayLocked cx s req)"

section \<open>Replies\<close>

definition noForwardsPair :: "int \<Rightarrow> int \<Rightarrow> (int \<times> int) option" where
  "noForwardsPair a b =
    (if a \<le> 0 \<or> b \<le> 0 \<or> a = b then None else if a > b then Some (b, a) else Some (a, b))"

definition zero_no_forwards :: no_forwards_state where
  "zero_no_forwards = \<lparr>nf_UserLowID = 0, nf_UserHighID = 0, nf_EnabledByUserID = 0\<rparr>"

definition NoForwards_Enabled :: "no_forwards_state \<Rightarrow> bool" where
  "NoForwards_Enabled st \<longleftrightarrow> nf_EnabledByUserID st \<noteq> 0"

definition zero_reply :: "'v message_reply" where
  "zero_reply = \<lparr>rp_MessageID = 0, rp_Peer = zero_peer, rp_TopMessageID = 0, rp_ForumTopic = False,
     rp_QuoteText = [], rp_QuoteEntities = [], rp_QuoteOffset = 0, rp_External = None, rp_StoryID = 0\<rparr>"

definition reply_protected :: "'v message_store \<Rightarrow> int \<Rightarrow> peer \<Rightarrow> 'v message \<Rightarrow> bool" where
  "reply_protected s senderUserID peer target \<longleftrightarrow>
    msg_NoForwards target \<or>
    (case msg_Media target of None \<Rightarrow> False | Some d \<Rightarrow> md_TTLSeconds d > 0) \<or>
    (case noForwardsPair senderUserID (peer_ID peer) of
       None \<Rightarrow> False
     | Some pair \<Rightarrow> NoForwards_Enabled (mget zero_no_forwards (ms_noForwards s) pair))"

definition external_reply ::
  "'v json_codec \<Rightarrow> 'v message_store \<Rightarrow> 'v send_request \<Rightarrow> 'v message_reply \<Rightarrow> peer \<Rightarrow> 'v message \<Rightarrow> 'v message_reply
     \<Rightarrow> msg_error + ('v message_reply option \<times> 'v message_reply option)" where
  "external_reply cx s req r peer target senderReply =
    (if reply_protected s (sr_SenderUserID req) peer target then Inl ErrChatForwardsRestricted
     else case ValidateExternalReplyQuote r (msg_Body target) of
            Some e \<Rightarrow> Inl e
          | None \<Rightarrow>
              (case NewMessageReplyExternal cx target of
                 Inl e \<Rightarrow> Inl e
               | Inr x \<Rightarrow>
                   let senderReply = senderReply\<lparr>rp_External := x\<rparr>;
                       recipientReply = (if sr_SenderUserID req \<noteq> sr_RecipientUserID req
                                         then senderReply\<lparr>rp_MessageID := 0, rp_TopMessageID := 0\<rparr>
                                         else senderReply)
                   in Inr (Some senderReply, Some recipientReply)))"

definition local_reply ::
  "'v message_store \<Rightarrow> 'v send_request \<Rightarrow> 'v message \<Rightarrow> 'v message_reply \<Rightarrow> 'v message_reply option" where
  "local_reply s req target senderReply =
    (if sr_SenderUserID req = sr_RecipientUserID req then Some senderReply
     else map_option (\<lambda>m. senderReply\<lparr>rp_MessageID := msg_ID m, rp_Peer := user_peer (sr_SenderUserID req)\<rparr>)
            (find (\<lambda>m. msg_UID m = msg_UID target) (ms_m s (sr_RecipientUserID req))))"

definition resolveMemoryReplyLocked ::
  "'v json_codec \<Rightarrow> 'v message_store \<Rightarrow> 'v send_request
     \<Rightarrow> msg_error + ('v message_reply option \<times> 'v message_reply option)" where
  "resolveMemoryReplyLocked cx s req =
    (case sr_ReplyTo req of
       None \<Rightarrow> Inr (None, None)
     | Some r \<Rightarrow>
         (case ValidateMessageReplyBounds r of
            Some e \<Rightarrow> Inl e
          | None \<Rightarrow>
              if rp_StoryID r > 0 then
                (let reply = zero_reply\<lparr>rp_StoryID := rp_StoryID r, rp_Peer := user_peer (sr_RecipientUserID req)\<rparr>
                 in Inr (Some reply, Some reply))
              else
                let peer = (if peer_ID (rp_Peer r) = 0 then user_peer (sr_RecipientUserID req) else rp_Peer r)
                in if peer_Type peer \<noteq> PeerTypeUser \<or> rp_External r \<noteq> None then Inl ErrReplyMessageIDInvalid
                   else case find (\<lambda>m. msg_Peer m = peer \<and> msg_ID m = rp_MessageID r) (ms_m s (sr_SenderUserID req)) of
                          None \<Rightarrow> Inl ErrReplyMessageIDInvalid
                        | Some target \<Rightarrow>
                            if msg_ID target = 0 then Inl ErrReplyMessageIDInvalid
                            else let senderReply = r\<lparr>rp_MessageID := msg_ID target, rp_Peer := peer\<rparr>
                                 in if peer_ID peer \<noteq> sr_RecipientUserID req
                                    then external_reply cx s req r peer target senderReply
                                    else Inr (Some senderReply, local_reply s req target senderReply)))"

section \<open>Sending\<close>

text \<open>
  Pts are staged in a local map before anything is written, so that a send that fails consumes none.
  A prefix is a list of state events to publish before the message together with the infallible change
  of the store that goes with them.
\<close>

definition staged_pts :: "'v message_store \<Rightarrow> 'v event_store \<Rightarrow> (int \<rightharpoonup> int) \<Rightarrow> int \<Rightarrow> int" where
  "staged_pts s events allocated userID =
    (case allocated userID of
       Some current \<Rightarrow> current
     | None \<Rightarrow> max_pts_loop (ms_nextPts s userID) (es_events events userID)) + 1"

fun stage_prefix ::
  "'v message_store \<Rightarrow> 'v event_store \<Rightarrow> (int \<rightharpoonup> int) \<Rightarrow> 'v update_event list \<Rightarrow> 'v update_event list \<times> (int \<rightharpoonup> int)" where
  "stage_prefix s events allocated [] = ([], allocated)"
| "stage_prefix s events allocated (e # es) =
     (let pts = staged_pts s events allocated (ev_UserID e);
          (es', allocated') = stage_prefix s events (allocated(ev_UserID e \<mapsto> pts)) es
      in (e\<lparr>ev_Pts := pts\<rparr> # es', allocated'))"

definition sender_message :: "'v message_store \<Rightarrow> 'v send_request \<Rightarrow> int \<Rightarrow> int \<Rightarrow> 'v message_reply option \<Rightarrow> 'v message" where
  "sender_message s req date pts reply =
    \<lparr>msg_ID = ms_nextBox s (sr_SenderUserID req) + 1, msg_UID = ms_nextUID s, msg_RandomID = sr_RandomID req,
     msg_OwnerUserID = sr_SenderUserID req, msg_Peer = user_peer (sr_RecipientUserID req),
     msg_From = user_peer (sr_SenderUserID req), msg_Date = date, msg_EditDate = 0, msg_HideEdited = False,
     msg_Out = True, msg_Silent = sr_Silent req, msg_NoForwards = sr_NoForwards req,
     msg_Body = sr_Message req, msg_Entities = sr_Entities req, msg_ReplyTo = reply,
     msg_Forward = sr_Forward req, msg_Reactions = None, msg_Pts = pts, msg_TTLPeriod = 0,
     msg_ExpiresAt = 0, msg_Media = sr_Media req,
     msg_MediaUnread = (HasUnreadPayload (sr_Media req) \<and> sr_SenderUserID req \<noteq> sr_RecipientUserID req),
     msg_ReactionUnread = False, msg_ViaBotID = sr_ViaBotID req, msg_GroupedID = sr_GroupedID req,
     msg_Effect = sr_Effect req, msg_ReplyMarkup = sr_ReplyMarkup req, msg_RichMessage = sr_RichMessage req,
     msg_Pinned = False, msg_Deleted = False,
     msg_SavedPeer = (if sr_SenderUserID req = sr_RecipientUserID req
                      then SavedPeerForSelfChat (sr_SenderUserID req) (sr_Forward req) else zero_peer)\<rparr>"

definition delivers :: "'v send_request \<Rightarrow> bool" where
  "delivers req \<longleftrightarrow> sr_SenderUserID req \<noteq> sr_RecipientUserID req \<and> \<not> sr_RecipientBlocked req"

definition recipient_message ::
  "'v message_store \<Rightarrow> 'v send_request \<Rightarrow> 'v message \<Rightarrow> int \<Rightarrow> 'v message_reply option \<Rightarrow> 'v message" where
  "recipient_message s req sender pts reply =
    (if delivers req
     then sender\<lparr>msg_ID := ms_nextBox s (sr_RecipientUserID req) + 1,
            msg_OwnerUserID := sr_RecipientUserID req, msg_Peer := user_peer (sr_SenderUserID req),
            msg_Out := False, msg_ReplyTo := reply, msg_Pts := pts,
            msg_MediaUnread := HasUnreadPayload (sr_Media req)\<rparr>
     else if sr_SenderUserID req = sr_RecipientUserID req then sender
     else zero_message)"

definition exclude_for :: "'v send_request \<Rightarrow> int \<Rightarrow> int \<Rightarrow> authkey \<times> int" where
  "exclude_for req origin userID =
    (if origin = userID then (sr_OriginAuthKeyID req, sr_OriginSessionID req) else (0, 0))"

definition publish_prefix :: "'v send_request \<Rightarrow> 'v update_event list \<Rightarrow> 'v event_store \<Rightarrow> 'v event_store" where
  "publish_prefix req prefixEvents events =
    fold (\<lambda>e events. case exclude_for req (sr_SenderUserID req) (ev_UserID e) of
            (auth, session) \<Rightarrow> appendMemorySendEventLocked events (ev_UserID e) e auth session) prefixEvents events"

definition publish_send ::
  "'v send_request \<Rightarrow> 'v message \<Rightarrow> 'v message \<Rightarrow> 'v event_store \<Rightarrow> 'v event_store" where
  "publish_send req sender recipient events =
    (let origin = (if sr_OriginUserID req = 0 then sr_SenderUserID req else sr_OriginUserID req);
         (auth, session) = exclude_for req origin (sr_SenderUserID req);
         events = appendMemorySendEventLocked events (sr_SenderUserID req) (newMessageEvent sender) auth session
     in if msg_ID recipient \<noteq> 0 \<and> msg_OwnerUserID recipient \<noteq> msg_OwnerUserID sender
        then case exclude_for req origin (sr_RecipientUserID req) of
               (auth, session) \<Rightarrow>
                 appendMemorySendEventLocked events (sr_RecipientUserID req) (newMessageEvent recipient) auth session
        else events)"

type_synonym 'v send_prefix =
  "'v update_event list \<times> ('v update_event list \<Rightarrow> 'v message_store \<Rightarrow> 'v message_store)"

definition commit_send ::
  "'v message_store \<Rightarrow> 'v event_store \<Rightarrow> 'v send_request \<Rightarrow> bytes \<Rightarrow> (int \<rightharpoonup> int) \<Rightarrow> 'v update_event list
     \<Rightarrow> 'v message \<Rightarrow> 'v message \<Rightarrow> string \<Rightarrow> 'v message_store" where
  "commit_send s events req fingerprint allocated prefixEvents sender recipient snapshot =
    (let from' = sr_SenderUserID req; to' = sr_RecipientUserID req;
         boxes = (ms_m s)(from' := ms_m s from' @ [sender]);
         boxes = (if delivers req then boxes(to' := boxes to' @ [recipient]) else boxes);
         nextBox = (ms_nextBox s)(from' := msg_ID sender);
         nextBox = (if msg_ID recipient \<noteq> 0 then nextBox(msg_OwnerUserID recipient := msg_ID recipient) else nextBox);
         dedup = (if sr_RandomID req \<noteq> 0
                  then (ms_dedup s)((from', sr_RandomID req) \<mapsto>
                         \<lparr>pd_recipientUserID = to', pd_senderSnapshot = snapshot,
                          pd_recipientMessage = immutablePrivateSendReceipt recipient,
                          pd_fingerprint = fingerprint, pd_senderDeleteEvent = None\<rparr>)
                  else ms_dedup s);
         dialogs = (case ms_dialogs s of
                      None \<Rightarrow> None
                    | Some d \<Rightarrow> Some (upsertMemoryDialogsLocked boxes d sender
                                      (if msg_ID recipient \<noteq> 0 then recipient else sender)))
     in s\<lparr>ms_m := boxes, ms_nextUID := ms_nextUID s + 1, ms_nextBox := nextBox,
          ms_nextPts := (\<lambda>u. case allocated u of Some pts \<Rightarrow> pts | None \<Rightarrow> ms_nextPts s u),
          ms_dedup := dedup, ms_dialogs := dialogs,
          ms_events := Some (publish_send req sender recipient (publish_prefix req prefixEvents events))\<rparr>)"

definition sendPrivateTextLocked ::
  "'v json_codec \<Rightarrow> int \<Rightarrow> 'v message_store \<Rightarrow> 'v send_request \<Rightarrow> bytes \<Rightarrow> 'v send_prefix option
     \<Rightarrow> msg_error + ('v send_result \<times> 'v update_event list \<times> 'v message_store)" where
  "sendPrivateTextLocked cx now s req fingerprint prefix =
    (case lookupPrivateSendReplayLocked cx s
            \<lparr>rr_SenderUserID = sr_SenderUserID req, rr_RecipientUserID = sr_RecipientUserID req,
             rr_RandomID = sr_RandomID req, rr_IdempotencyFingerprint = fingerprint\<rparr> of
       Inl e \<Rightarrow> Inl e
     | Inr (Some replay) \<Rightarrow> Inr (replay, [], s)
     | Inr None \<Rightarrow>
         let date = (if sr_Date req = 0 then now else sr_Date req) in
         (case resolveMemoryReplyLocked cx s req of
            Inl e \<Rightarrow> Inl e
          | Inr (senderReply, recipientReply) \<Rightarrow>
              (case ms_events s of
                 None \<Rightarrow> Inl ErrDeliveryOutboxRequired
               | Some events \<Rightarrow>
                   let (prefixEvents, allocated) =
                         (case prefix of None \<Rightarrow> ([], Map.empty) | Some (es, _) \<Rightarrow> stage_prefix s events Map.empty es);
                       senderPts = staged_pts s events allocated (sr_SenderUserID req);
                       allocated = allocated(sr_SenderUserID req \<mapsto> senderPts);
                       sender = sender_message s req date senderPts senderReply;
                       recipientPts = staged_pts s events allocated (sr_RecipientUserID req);
                       allocated = (if delivers req then allocated(sr_RecipientUserID req \<mapsto> recipientPts) else allocated);
                       recipient = recipient_message s req sender recipientPts recipientReply
                   in case (if sr_RandomID req \<noteq> 0 then EncodePrivateSendSnapshot cx sender else Inr []) of
                        Inl e \<Rightarrow> Inl e
                      | Inr snapshot \<Rightarrow>
                          let s1 = (case prefix of None \<Rightarrow> s | Some (_, apply) \<Rightarrow> apply prefixEvents s)
                          in Inr (\<lparr>sn_SenderMessage = sender, sn_RecipientMessage = recipient,
                                   sn_SenderEvent = newMessageEvent sender,
                                   sn_RecipientEvent = newMessageEvent recipient,
                                   sn_Duplicate = False, sn_ReplayDeleteEvent = None\<rparr>,
                                  prefixEvents,
                                  commit_send s1 events req fingerprint allocated prefixEvents sender recipient snapshot))))"

definition SendPrivateText ::
  "'v json_codec \<Rightarrow> int \<Rightarrow> 'v message_store \<Rightarrow> 'v send_request \<Rightarrow> msg_error + ('v send_result \<times> 'v message_store)" where
  "SendPrivateText cx now s req =
    (if \<not> HasContent req then Inl ErrMessageEmpty
     else case PrivateSendFingerprint cx req of
            Inl e \<Rightarrow> Inl e
          | Inr fingerprint \<Rightarrow>
              (case sendPrivateTextLocked cx now s req fingerprint None of
                 Inl e \<Rightarrow> Inl e
               | Inr (res, _, s) \<Rightarrow> Inr (res, s)))"

section \<open>Protection against forwarding\<close>

definition GetPrivateNoForwards :: "'v message_store \<Rightarrow> int \<Rightarrow> int \<Rightarrow> msg_error + no_forwards_state" where
  "GetPrivateNoForwards s viewerUserID peerUserID =
    (case noForwardsPair viewerUserID peerUserID of
       None \<Rightarrow> Inl ErrMessageIDInvalid
     | Some pair \<Rightarrow> Inr ((mget zero_no_forwards (ms_noForwards s) pair)
                     \<lparr>nf_UserLowID := fst pair, nf_UserHighID := snd pair\<rparr>))"

definition privateNoForwardsEnabled :: "'v message_store \<Rightarrow> int \<Rightarrow> int \<Rightarrow> bool" where
  "privateNoForwardsEnabled s a b =
    (case noForwardsPair a b of
       None \<Rightarrow> False
     | Some pair \<Rightarrow> NoForwards_Enabled (mget zero_no_forwards (ms_noForwards s) pair))"

record toggle_request =
  tg_ActorUserID :: int
  tg_PeerUserID :: int
  tg_Enabled :: bool
  tg_RequestMsgID :: int
  tg_RandomID :: int
  tg_Date :: int
  tg_OriginAuthKeyID :: authkey
  tg_OriginSessionID :: int

record 'v toggle_result =
  to_State :: no_forwards_state
  to_Changed :: bool
  to_Send :: "'v send_result option"

definition zero_no_forwards_request :: no_forwards_request where
  "zero_no_forwards_request = \<lparr>nr_privateMessageID = 0, nr_requesterUserID = 0, nr_responderUserID = 0,
     nr_expiresAt = 0, nr_handled = False\<rparr>"

definition expire_request_media :: "int \<Rightarrow> 'v message \<Rightarrow> 'v message" where
  "expire_request_media uid m =
    (case msg_Media m of
       None \<Rightarrow> m
     | Some d \<Rightarrow>
         (case md_ServiceAction d of
            None \<Rightarrow> m
          | Some a \<Rightarrow>
              (case sa_NoForwards a of
                 None \<Rightarrow> m
               | Some n \<Rightarrow>
                   if msg_UID m \<noteq> uid \<or> sa_Kind a \<noteq> MessageServiceActionNoForwardsRequest then m
                   else m\<lparr>msg_Media := Some (d\<lparr>md_ServiceAction :=
                            Some (a\<lparr>sa_NoForwards := Some (n\<lparr>nfa_Expired := True\<rparr>)\<rparr>)\<rparr>)\<rparr>)))"

definition markNoForwardsRequestExpired :: "'v message_store \<Rightarrow> int \<Rightarrow> 'v message_store" where
  "markNoForwardsRequestExpired s uid = s\<lparr>ms_m := (\<lambda>u. map (expire_request_media uid) (ms_m s u))\<rparr>"

text \<open>The answer to a request: the record of the request, checked, with its shared id.\<close>

definition toggle_source :: "'v message_store \<Rightarrow> toggle_request \<Rightarrow> int \<Rightarrow> int option" where
  "toggle_source s req date =
    (case find (\<lambda>m. msg_ID m = tg_RequestMsgID req \<and> msg_Peer m = user_peer (tg_PeerUserID req))
            (ms_m s (tg_ActorUserID req)) of
       None \<Rightarrow> None
     | Some source \<Rightarrow>
         let r = mget zero_no_forwards_request (ms_noForwardsRequests s) (msg_UID source)
         in if msg_ID source = 0 \<or> nr_privateMessageID r \<noteq> msg_UID source \<or>
               nr_requesterUserID r \<noteq> tg_PeerUserID req \<or> nr_responderUserID r \<noteq> tg_ActorUserID req \<or>
               nr_handled r \<or> nr_expiresAt r \<le> date
            then None else Some (msg_UID source))"

text \<open>
  What a toggle does: \<open>None\<close> for no change, else the kind of the service message, its action and the
  new state.
\<close>

definition toggle_plan ::
  "toggle_request \<Rightarrow> int \<Rightarrow> no_forwards_state \<Rightarrow> (service_kind \<times> no_forwards_action \<times> no_forwards_state) option" where
  "toggle_plan req date st =
    (let act = (\<lambda>p n x. \<lparr>nfa_PrevValue = p, nfa_NewValue = n, nfa_Expired = False, nfa_ExpiresAt = x\<rparr>) in
     if tg_RequestMsgID req \<noteq> 0 then
       Some (MessageServiceActionNoForwardsToggle, act (NoForwards_Enabled st) (tg_Enabled req) 0,
             st\<lparr>nf_EnabledByUserID := (if tg_Enabled req then tg_ActorUserID req else 0)\<rparr>)
     else if tg_Enabled req then
       (if nf_EnabledByUserID st \<noteq> 0 then None
        else Some (MessageServiceActionNoForwardsToggle, act False True 0,
                   st\<lparr>nf_EnabledByUserID := tg_ActorUserID req\<rparr>))
     else if nf_EnabledByUserID st = 0 then None
     else if nf_EnabledByUserID st = tg_ActorUserID req then
       Some (MessageServiceActionNoForwardsToggle, act True False 0, st\<lparr>nf_EnabledByUserID := 0\<rparr>)
     else Some (MessageServiceActionNoForwardsRequest,
                act True False (date + PrivateNoForwardsRequestExpirePeriod), st))"

definition toggle_send_request ::
  "toggle_request \<Rightarrow> int \<Rightarrow> int \<Rightarrow> service_kind \<Rightarrow> no_forwards_action \<Rightarrow> 'v send_request" where
  "toggle_send_request req date randomID kind action =
    zero_send_request\<lparr>sr_SenderUserID := tg_ActorUserID req, sr_RecipientUserID := tg_PeerUserID req,
      sr_RandomID := randomID, sr_Silent := True, sr_Date := date,
      sr_OriginAuthKeyID := tg_OriginAuthKeyID req, sr_OriginSessionID := tg_OriginSessionID req,
      sr_ReplyTo := (if tg_RequestMsgID req \<noteq> 0
                     then Some (zero_reply\<lparr>rp_MessageID := tg_RequestMsgID req,
                                  rp_Peer := user_peer (tg_PeerUserID req)\<rparr>)
                     else None),
      sr_Media := Some (service_media kind (Some action))\<rparr>"

definition toggle_commit ::
  "'v message_store \<Rightarrow> toggle_request \<Rightarrow> int \<times> int \<Rightarrow> no_forwards_state \<Rightarrow> service_kind \<Rightarrow> no_forwards_action
     \<Rightarrow> int option \<Rightarrow> 'v send_result \<Rightarrow> 'v message_store" where
  "toggle_commit s req pair st kind action requestUID sent =
    (let s = s\<lparr>ms_noForwards := (ms_noForwards s)(pair \<mapsto> st)\<rparr>;
         uid = msg_UID (sn_SenderMessage sent);
         s = (if kind = MessageServiceActionNoForwardsRequest
              then s\<lparr>ms_noForwardsRequests := (ms_noForwardsRequests s)(uid \<mapsto>
                     \<lparr>nr_privateMessageID = uid, nr_requesterUserID = tg_ActorUserID req,
                      nr_responderUserID = tg_PeerUserID req, nr_expiresAt = nfa_ExpiresAt action,
                      nr_handled = False\<rparr>)\<rparr>
              else s)
     in case requestUID of
          None \<Rightarrow> s
        | Some r \<Rightarrow>
            if r = 0 then s
            else markNoForwardsRequestExpired
                   (s\<lparr>ms_noForwardsRequests := (ms_noForwardsRequests s)(r \<mapsto>
                        (mget zero_no_forwards_request (ms_noForwardsRequests s) r)\<lparr>nr_handled := True\<rparr>)\<rparr>) r)"

definition TogglePrivateNoForwards ::
  "'v json_codec \<Rightarrow> int \<Rightarrow> int \<Rightarrow> 'v message_store \<Rightarrow> toggle_request \<Rightarrow> msg_error + ('v toggle_result \<times> 'v message_store)" where
  "TogglePrivateNoForwards cx now nowNano s req =
    (case noForwardsPair (tg_ActorUserID req) (tg_PeerUserID req) of
       None \<Rightarrow> Inl ErrMessageIDInvalid
     | Some pair \<Rightarrow>
         if tg_RequestMsgID req < 0 \<or> tg_RequestMsgID req > MaxMessageBoxID then Inl ErrMessageIDInvalid
         else let date = (if tg_Date req = 0 then now else tg_Date req);
                  randomID = (if tg_RandomID req = 0 then (if nowNano = 0 then 1 else nowNano) else tg_RandomID req);
                  st = (mget zero_no_forwards (ms_noForwards s) pair)
                         \<lparr>nf_UserLowID := fst pair, nf_UserHighID := snd pair\<rparr>;
                  requestUID = (if tg_RequestMsgID req \<noteq> 0 then toggle_source s req date else None)
              in if tg_RequestMsgID req \<noteq> 0 \<and> requestUID = None then Inl ErrNoForwardsRequestExpired
                 else case toggle_plan req date st of
                        None \<Rightarrow> Inr (\<lparr>to_State = st, to_Changed = False, to_Send = None\<rparr>, s)
                      | Some (kind, action, st) \<Rightarrow>
                          (case SendPrivateText cx now s (toggle_send_request req date randomID kind action) of
                             Inl e \<Rightarrow> Inl (if tg_RequestMsgID req \<noteq> 0 \<and> e = ErrReplyMessageIDInvalid
                                           then ErrNoForwardsRequestExpired else e)
                           | Inr (sent, s) \<Rightarrow>
                               Inr (\<lparr>to_State = st, to_Changed = True, to_Send = Some sent\<rparr>,
                                    toggle_commit s req pair st kind action requestUID sent)))"

section \<open>Forwarding\<close>

record 'v forward_request =
  fq_OwnerUserID :: int
  fq_FromPeer :: peer
  fq_ToUserID :: int
  fq_MessageIDs :: "int list"
  fq_RandomIDs :: "int list"
  fq_Silent :: bool
  fq_NoForwards :: bool
  fq_DropAuthor :: bool
  fq_ReplyTo :: "'v message_reply option"
  fq_Date :: int
  fq_OriginAuthKeyID :: authkey
  fq_OriginSessionID :: int
  fq_RecipientBlocked :: bool

record 'v forward_result =
  fr_SenderMessages :: "'v message list"
  fr_RecipientMessages :: "'v message list"
  fr_SenderEvents :: "'v update_event list"
  fr_RecipientEvents :: "'v update_event list"
  fr_Duplicates :: "bool list"

definition empty_forward_result :: "'v forward_result" where
  "empty_forward_result = \<lparr>fr_SenderMessages = [], fr_RecipientMessages = [], fr_SenderEvents = [],
     fr_RecipientEvents = [], fr_Duplicates = []\<rparr>"

fun forward_sources :: "'v message_store \<Rightarrow> int \<Rightarrow> peer \<Rightarrow> int list \<Rightarrow> msg_error + 'v message list" where
  "forward_sources s owner fromPeer [] = Inr []"
| "forward_sources s owner fromPeer (i # ids) =
     (if i \<le> 0 \<or> i > MaxMessageBoxID then Inl ErrMessageIDInvalid
      else case find (\<lambda>m. msg_Peer m = fromPeer \<and> msg_ID m = i) (ms_m s owner) of
             None \<Rightarrow> Inl ErrMessageIDInvalid
           | Some source \<Rightarrow>
               if msg_NoForwards source then Inl ErrChatForwardsRestricted
               else (case forward_sources s owner fromPeer ids of
                       Inl e \<Rightarrow> Inl e | Inr sources \<Rightarrow> Inr (source # sources)))"

definition forward_header :: "'v forward_request \<Rightarrow> int \<Rightarrow> 'v message \<Rightarrow> message_forward option" where
  "forward_header req msgID source =
    (if fq_DropAuthor req then None
     else let forward = (case msg_Forward source of
                           Some f \<Rightarrow> f
                         | None \<Rightarrow> \<lparr>fw_From = msg_From source, fw_FromName = [], fw_Date = msg_Date source,
                                   fw_ChannelPost = 0, fw_SavedFrom = zero_peer, fw_SavedFromMsgID = 0\<rparr>)
          in Some (if fq_ToUserID req = fq_OwnerUserID req
                   then forward\<lparr>fw_SavedFrom := fq_FromPeer req, fw_SavedFromMsgID := msgID\<rparr>
                   else forward))"

definition forward_send_request :: "'v forward_request \<Rightarrow> int \<Rightarrow> int \<Rightarrow> int \<Rightarrow> 'v message \<Rightarrow> 'v send_request" where
  "forward_send_request req date msgID randomID source =
    zero_send_request\<lparr>sr_SenderUserID := fq_OwnerUserID req, sr_RecipientUserID := fq_ToUserID req,
      sr_RandomID := randomID, sr_Message := msg_Body source, sr_Entities := msg_Entities source,
      sr_Media := msg_Media source, sr_Silent := fq_Silent req, sr_NoForwards := fq_NoForwards req,
      sr_ReplyTo := fq_ReplyTo req, sr_Forward := forward_header req msgID source, sr_Date := date,
      sr_OriginAuthKeyID := fq_OriginAuthKeyID req, sr_OriginSessionID := fq_OriginSessionID req,
      sr_RecipientBlocked := fq_RecipientBlocked req\<rparr>"

fun forward_loop ::
  "'v json_codec \<Rightarrow> int \<Rightarrow> 'v forward_request \<Rightarrow> int \<Rightarrow> (int \<times> int \<times> 'v message) list \<Rightarrow> 'v forward_result \<Rightarrow> 'v message_store
     \<Rightarrow> msg_error option \<times> 'v forward_result \<times> 'v message_store" where
  "forward_loop cx now req date [] res s = (None, res, s)"
| "forward_loop cx now req date ((msgID, randomID, source) # rest) res s =
     (if randomID = 0 then (Some ErrMessageIDInvalid, res, s)
      else case SendPrivateText cx now s (forward_send_request req date msgID randomID source) of
             Inl e \<Rightarrow> (Some e, res, s)
           | Inr (sent, s) \<Rightarrow>
               forward_loop cx now req date rest
                 \<lparr>fr_SenderMessages = fr_SenderMessages res @ [sn_SenderMessage sent],
                  fr_RecipientMessages = fr_RecipientMessages res @ [sn_RecipientMessage sent],
                  fr_SenderEvents = fr_SenderEvents res @ [sn_SenderEvent sent],
                  fr_RecipientEvents = fr_RecipientEvents res @ [sn_RecipientEvent sent],
                  fr_Duplicates = fr_Duplicates res @ [sn_Duplicate sent]\<rparr> s)"

definition ForwardPrivateMessages ::
  "'v json_codec \<Rightarrow> int \<Rightarrow> 'v message_store \<Rightarrow> 'v forward_request \<Rightarrow> msg_error option \<times> 'v forward_result \<times> 'v message_store" where
  "ForwardPrivateMessages cx now s req =
    (let fail = (\<lambda>e. (Some e, empty_forward_result, s)) in
     if fq_OwnerUserID req = 0 \<or> fq_ToUserID req = 0 \<or> peer_Type (fq_FromPeer req) \<noteq> PeerTypeUser \<or>
        peer_ID (fq_FromPeer req) = 0 then fail ErrMessageIDInvalid
     else if fq_MessageIDs req = [] \<or> length (fq_MessageIDs req) \<noteq> length (fq_RandomIDs req) then fail ErrMessageIDInvalid
     else if int (length (fq_MessageIDs req)) > MaxForwardMessageIDs then fail ErrMessageIDInvalid
     else let date = (if fq_Date req = 0 then now else fq_Date req) in
       if privateNoForwardsEnabled s (fq_OwnerUserID req) (peer_ID (fq_FromPeer req))
       then fail ErrChatForwardsRestricted
       else case forward_sources s (fq_OwnerUserID req) (fq_FromPeer req) (fq_MessageIDs req) of
              Inl e \<Rightarrow> fail e
            | Inr sources \<Rightarrow>
                forward_loop cx now req date (zip (fq_MessageIDs req) (zip (fq_RandomIDs req) sources))
                  empty_forward_result s)"

section \<open>Pinning\<close>

record pin_request =
  pq_OwnerUserID :: int
  pq_Peer :: peer
  pq_MessageID :: int
  pq_Pinned :: bool
  pq_PmOneside :: bool
  pq_Silent :: bool
  pq_RecipientBlocked :: bool
  pq_Date :: int
  pq_OriginAuthKeyID :: authkey
  pq_OriginSessionID :: int

record 'v pinned_for_user =
  pu_UserID :: int
  pu_Peer :: peer
  pu_MessageIDs :: "int list"
  pu_Pinned :: bool
  pu_Event :: "'v update_event"

record 'v pin_result =
  pn_Updated :: "'v pinned_for_user list"
  pn_ServiceMessage :: "'v send_result option"
  pn_Offset :: int

type_synonym pin_side = "int \<times> peer \<times> nat"

text \<open>\<open>draws\<close> are the results of the random source, in order; \<open>None\<close> is a failed read.\<close>

fun pin_random_id :: "int option list \<Rightarrow> msg_error + int" where
  "pin_random_id [] = Inl ErrPinRandom"
| "pin_random_id (None # _) = Inl ErrPinRandom"
| "pin_random_id (Some i # draws) = (if i = 0 then pin_random_id draws else Inr i)"

definition PrivatePinServiceRequest :: "int option list \<Rightarrow> pin_request \<Rightarrow> int \<Rightarrow> msg_error + 'v send_request" where
  "PrivatePinServiceRequest draws req date =
    (case pin_random_id draws of
       Inl e \<Rightarrow> Inl e
     | Inr i \<Rightarrow> Inr (zero_send_request\<lparr>sr_SenderUserID := pq_OwnerUserID req,
         sr_RecipientUserID := peer_ID (pq_Peer req), sr_RandomID := i,
         sr_Media := Some (service_media MessageServiceActionPinMessage None),
         sr_ReplyTo := Some (zero_reply\<lparr>rp_MessageID := pq_MessageID req, rp_Peer := pq_Peer req\<rparr>),
         sr_Silent := pq_Silent req, sr_Date := date, sr_RecipientBlocked := pq_RecipientBlocked req,
         sr_OriginAuthKeyID := pq_OriginAuthKeyID req, sr_OriginSessionID := pq_OriginSessionID req\<rparr>))"

definition pin_sides :: "'v message_store \<Rightarrow> pin_request \<Rightarrow> nat \<Rightarrow> pin_side list" where
  "pin_sides s req ownIdx =
    (pq_OwnerUserID req, pq_Peer req, ownIdx) #
    (if peer_ID (pq_Peer req) \<noteq> pq_OwnerUserID req \<and> (\<not> pq_Pinned req \<or> \<not> pq_PmOneside req)
     then (case first_index (\<lambda>m. msg_UID m = msg_UID (ms_m s (pq_OwnerUserID req) ! ownIdx))
                  (ms_m s (peer_ID (pq_Peer req))) of
             None \<Rightarrow> []
           | Some i \<Rightarrow> [(peer_ID (pq_Peer req), user_peer (pq_OwnerUserID req), i)])
     else [])"

definition pin_changes :: "'v message_store \<Rightarrow> bool \<Rightarrow> pin_side list \<Rightarrow> pin_side list" where
  "pin_changes s pinned sides = filter (\<lambda>(u, _, i). msg_Pinned (ms_m s u ! i) \<noteq> pinned) sides"

definition pin_event :: "'v message_store \<Rightarrow> int \<Rightarrow> bool \<Rightarrow> pin_side \<Rightarrow> 'v update_event" where
  "pin_event s date pinned side =
    (case side of (u, peer, i) \<Rightarrow>
      zero_event\<lparr>ev_UserID := u, ev_Type := UpdateEventPinnedMessages, ev_PtsCount := 1, ev_Date := date,
        ev_Peer := peer, ev_Bool := pinned, ev_MessageIDs := [msg_ID (ms_m s u ! i)]\<rparr>)"

definition set_pinned :: "bool \<Rightarrow> pin_side \<Rightarrow> 'v message_store \<Rightarrow> 'v message_store" where
  "set_pinned pinned side s =
    (case side of (u, _, i) \<Rightarrow>
      s\<lparr>ms_m := (ms_m s)(u := (ms_m s u)[i := (ms_m s u ! i)\<lparr>msg_Pinned := pinned\<rparr>])\<rparr>)"

definition pin_updated :: "bool \<Rightarrow> pin_side list \<Rightarrow> 'v update_event list \<Rightarrow> 'v pinned_for_user list" where
  "pin_updated pinned changes events =
    map (\<lambda>((u, peer, _), e). \<lparr>pu_UserID = u, pu_Peer = peer, pu_MessageIDs = ev_MessageIDs e,
           pu_Pinned = pinned, pu_Event = e\<rparr>) (zip changes events)"

definition exclude_owner :: "authkey \<Rightarrow> int \<Rightarrow> int \<Rightarrow> int \<Rightarrow> authkey \<times> int" where
  "exclude_owner auth session owner userID = (if userID = owner then (auth, session) else (0, 0))"

text \<open>Allocating and appending one event of a pin operation, with the origin excluded.\<close>

definition append_pin_event ::
  "authkey \<Rightarrow> int \<Rightarrow> int \<Rightarrow> 'v update_event \<Rightarrow> 'v message_store \<times> 'v event_store
     \<Rightarrow> 'v update_event \<times> 'v message_store \<times> 'v event_store" where
  "append_pin_event auth session owner e st =
    (case st of (s, events) \<Rightarrow>
      (case nextPtsWithEventsLocked s events (ev_UserID e) of (pts, s) \<Rightarrow>
        let e = e\<lparr>ev_Pts := pts\<rparr>
        in case exclude_owner auth session owner (ev_UserID e) of (a, x) \<Rightarrow>
             (e, s, appendMemorySendEventLocked events (ev_UserID e) e a x)))"

fun append_pin_events ::
  "authkey \<Rightarrow> int \<Rightarrow> int \<Rightarrow> 'v update_event list \<Rightarrow> 'v message_store \<times> 'v event_store
     \<Rightarrow> 'v update_event list \<times> 'v message_store \<times> 'v event_store" where
  "append_pin_events auth session owner [] st = ([], st)"
| "append_pin_events auth session owner (e # es) st =
     (case append_pin_event auth session owner e st of (e, st) \<Rightarrow>
       (case append_pin_events auth session owner es st of (es, st) \<Rightarrow> (e # es, st)))"

definition PinPrivateMessage ::
  "'v json_codec \<Rightarrow> int \<Rightarrow> int option list \<Rightarrow> 'v message_store \<Rightarrow> pin_request \<Rightarrow> msg_error + ('v pin_result \<times> 'v message_store)" where
  "PinPrivateMessage cx now draws s req =
    (let owner = pq_OwnerUserID req; peer = pq_Peer req; pinned = pq_Pinned req in
     if owner = 0 \<or> peer_Type peer \<noteq> PeerTypeUser \<or> peer_ID peer = 0 then Inl ErrMessageIDInvalid
     else if pq_MessageID req \<le> 0 \<or> pq_MessageID req > MaxMessageBoxID then Inl ErrMessageIDInvalid
     else let date = (if pq_Date req = 0 then now else pq_Date req) in
       case first_index (\<lambda>m. msg_Peer m = peer \<and> msg_ID m = pq_MessageID req) (ms_m s owner) of
         None \<Rightarrow> Inl ErrMessageIDInvalid
       | Some ownIdx \<Rightarrow>
           if (case msg_Media (ms_m s owner ! ownIdx) of
                 None \<Rightarrow> False | Some d \<Rightarrow> md_Kind d = MessageMediaKindService)
           then Inl ErrMessageIDInvalid
           else let changes = pin_changes s pinned (pin_sides s req ownIdx);
                    pinEvents = map (pin_event s date pinned) changes
                in if changes = [] then Inr (\<lparr>pn_Updated = [], pn_ServiceMessage = None, pn_Offset = 0\<rparr>, s)
                   else if pinned \<and> \<not> pq_PmOneside req \<and> peer_ID peer \<noteq> owner then
                     (case PrivatePinServiceRequest draws req date of
                        Inl e \<Rightarrow> Inl e
                      | Inr sendReq \<Rightarrow>
                          (case PrivateSendFingerprint cx sendReq of
                             Inl e \<Rightarrow> Inl e
                           | Inr fingerprint \<Rightarrow>
                               (case sendPrivateTextLocked cx now s sendReq fingerprint
                                       (Some (pinEvents, \<lambda>_ s. fold (set_pinned pinned) changes s)) of
                                  Inl e \<Rightarrow> Inl (if e = ErrReplyMessageIDInvalid then ErrMessageIDInvalid else e)
                                | Inr (sent, events, s) \<Rightarrow>
                                    Inr (\<lparr>pn_Updated = pin_updated pinned changes events,
                                         pn_ServiceMessage = Some sent, pn_Offset = 0\<rparr>, s))))
                   else
                     (case ms_events s of
                        None \<Rightarrow> Inl ErrDeliveryOutboxRequired
                      | Some events \<Rightarrow>
                          (case append_pin_events (pq_OriginAuthKeyID req) (pq_OriginSessionID req) owner
                                  pinEvents (s, events) of
                             (pinEvents, s, events) \<Rightarrow>
                               Inr (\<lparr>pn_Updated = pin_updated pinned changes pinEvents,
                                    pn_ServiceMessage = None, pn_Offset = 0\<rparr>,
                                   fold (set_pinned pinned) changes (s\<lparr>ms_events := Some events\<rparr>)))))"

record unpin_request =
  uq_OwnerUserID :: int
  uq_Peer :: peer
  uq_Date :: int
  uq_OriginAuthKeyID :: authkey
  uq_OriginSessionID :: int

definition pinned_indices :: "peer \<Rightarrow> 'v message list \<Rightarrow> nat list" where
  "pinned_indices peer msgs =
    sort_key (\<lambda>i. - msg_ID (msgs ! i)) (filter (\<lambda>i. msg_Peer (msgs ! i) = peer \<and> msg_Pinned (msgs ! i)) [0..<length msgs])"

definition unpin_event :: "int \<Rightarrow> int \<Rightarrow> peer \<Rightarrow> int list \<Rightarrow> 'v update_event" where
  "unpin_event date userID peer ids =
    zero_event\<lparr>ev_UserID := userID, ev_Type := UpdateEventPinnedMessages, ev_PtsCount := 1, ev_Date := date,
      ev_Peer := peer, ev_Bool := False, ev_MessageIDs := ids\<rparr>"

definition clear_pins :: "nat list \<Rightarrow> 'v message list \<Rightarrow> 'v message list" where
  "clear_pins idx box = map (\<lambda>i. if i \<in> set idx then (box ! i)\<lparr>msg_Pinned := False\<rparr> else box ! i) [0..<length box]"

text \<open>The pins of the other side with the same shared ids, cleared after the events are allocated.\<close>

definition unpin_publish ::
  "unpin_request \<Rightarrow> int \<Rightarrow> int list \<Rightarrow> int set \<Rightarrow> 'v event_store \<Rightarrow> 'v message_store \<Rightarrow> 'v pinned_for_user list \<times> 'v message_store" where
  "unpin_publish req date ownIDs uids events s =
    (let owner = uq_OwnerUserID req; other = peer_ID (uq_Peer req);
         hit = (\<lambda>m. msg_UID m \<in> uids \<and> msg_Pinned m);
         peerIDs = (if other \<noteq> owner then map msg_ID (filter hit (ms_m s other)) else []);
         evs = unpin_event date owner (uq_Peer req) ownIDs #
           (if peerIDs \<noteq> [] then [unpin_event date other (user_peer owner) peerIDs] else [])
     in case append_pin_events (uq_OriginAuthKeyID req) (uq_OriginSessionID req) owner evs (s, events) of
          (evs, s, events) \<Rightarrow>
            let s = (if other \<noteq> owner
                     then s\<lparr>ms_m := (ms_m s)(other := map (\<lambda>m. if hit m then m\<lparr>msg_Pinned := False\<rparr> else m) (ms_m s other))\<rparr>
                     else s)
            in (map (\<lambda>e. \<lparr>pu_UserID = ev_UserID e, pu_Peer = ev_Peer e, pu_MessageIDs = ev_MessageIDs e,
                          pu_Pinned = False, pu_Event = e\<rparr>) evs, s\<lparr>ms_events := Some events\<rparr>))"

definition UnpinAllPrivateMessages ::
  "int \<Rightarrow> 'v message_store \<Rightarrow> unpin_request \<Rightarrow> msg_error + ('v pin_result \<times> 'v message_store)" where
  "UnpinAllPrivateMessages now s req =
    (let owner = uq_OwnerUserID req; peer = uq_Peer req in
     if owner = 0 \<or> peer_Type peer \<noteq> PeerTypeUser \<or> peer_ID peer = 0 then Inl ErrMessageIDInvalid
     else let date = (if uq_Date req = 0 then now else uq_Date req) in
       case ms_events s of
         None \<Rightarrow> Inl ErrDeliveryOutboxRequired
       | Some events \<Rightarrow>
           let box = ms_m s owner;
               pinnedIdx = pinned_indices peer box;
               offset = (if int (length pinnedIdx) > MaxUnpinAllBatch then 1 else 0);
               pinnedIdx = take (nat MaxUnpinAllBatch) pinnedIdx;
               s = s\<lparr>ms_m := (ms_m s)(owner := clear_pins pinnedIdx box)\<rparr>;
               ownIDs = map (\<lambda>i. msg_ID (box ! i)) pinnedIdx
           in if ownIDs = [] then Inr (\<lparr>pn_Updated = [], pn_ServiceMessage = None, pn_Offset = offset\<rparr>, s)
              else case unpin_publish req date ownIDs ((\<lambda>i. msg_UID (box ! i)) ` set pinnedIdx) events s of
                     (updated, s) \<Rightarrow> Inr (\<lparr>pn_Updated = updated, pn_ServiceMessage = None, pn_Offset = offset\<rparr>, s))"

end
