(* ===== verification/Message_History.thy ===== *)
theory Message_History
  imports Message_Store
begin

text \<open>
  The memory store of private messages, second part (\<open>internal/store/memory/message_history.go\<close>,
  \<open>message_read.go\<close>, \<open>message_delete.go\<close>, \<open>message_edit.go\<close>, \<open>message_helpers.go\<close>): read marks and
  read receipts, deletion with and without revocation, clearing a history down to its anchor, edits of
  all copies of a message, and the pages of a filtered history.

  Go visits the boxes of all accounts in the unspecified order of a map; the order is the argument
  \<open>ord\<close>. Deletions are grouped and edits sorted by account afterwards. The panic of
  \<open>finishMemoryDeleteLocked\<close> is the error \<open>ErrDeletePanic\<close>.
\<close>

section \<open>Read marks\<close>

record read_request =
  rq_OwnerUserID :: int
  rq_Peer :: peer
  rq_MaxID :: int
  rq_Date :: int

record 'v read_result =
  rs_OwnerUserID :: int
  rs_Peer :: peer
  rs_MaxID :: int
  rs_StillUnreadCount :: int
  rs_Changed :: bool
  rs_InboxEvent :: "'v update_event"
  rs_OutboxChanged :: bool
  rs_OutboxUserID :: int
  rs_OutboxEvent :: "'v update_event"

fun latest_incoming :: "peer \<Rightarrow> int \<Rightarrow> int \<Rightarrow> 'v message \<Rightarrow> 'v message list \<Rightarrow> 'v message" where
  "latest_incoming peer oldRead readMax latest [] = latest"
| "latest_incoming peer oldRead readMax latest (m # ms) =
     (if msg_Peer m \<noteq> peer \<or> msg_Out m \<or> msg_ID m > readMax then latest_incoming peer oldRead readMax latest ms
      else if msg_ID m > oldRead \<and> msg_ID m > msg_ID latest then latest_incoming peer oldRead readMax m ms
      else latest_incoming peer oldRead readMax latest ms)"

definition mark_read_dates :: "int \<Rightarrow> int \<Rightarrow> int \<Rightarrow> int \<Rightarrow> int \<Rightarrow> 'v message_store \<Rightarrow> 'v message_store" where
  "mark_read_dates senderUserID reader oldOutbox senderBoxID date s =
    s\<lparr>ms_readOutboxDates := (\<lambda>k. if \<exists>m\<in>set (ms_m s senderUserID). msg_Peer m = user_peer reader \<and> msg_Out m \<and>
                                   msg_ID m > oldOutbox \<and> msg_ID m \<le> senderBoxID \<and>
                                   k = (senderUserID, reader, msg_ID m)
                                then date else ms_readOutboxDates s k)\<rparr>"

text \<open>The receipt for the sender of the newest message read.\<close>

definition read_outbox ::
  "int \<Rightarrow> int \<Rightarrow> 'v message \<Rightarrow> 'v message_store \<Rightarrow> (int \<rightharpoonup> 'v dialog_list)
     \<Rightarrow> (int \<times> 'v update_event \<times> 'v message_store) option" where
  "read_outbox reader date latest s dialogs =
    (let senderUserID = peer_ID (msg_From latest) in
     if msg_ID latest = 0 \<or> senderUserID = 0 \<or> senderUserID = reader then None
     else case find (\<lambda>m. msg_UID m = msg_UID latest \<and> msg_Out m) (ms_m s senderUserID) of
            None \<Rightarrow> None
          | Some sent \<Rightarrow>
              let senderBoxID = msg_ID sent;
                  senderList = mget empty_dialog_list dialogs senderUserID
              in if senderBoxID \<le> 0 then None
                 else case find (\<lambda>d. dg_Peer d = user_peer reader) (dl_Dialogs senderList) of
                        None \<Rightarrow> None
                      | Some d \<Rightarrow>
                          let oldOutbox = dr_ReadOutboxMaxID (dg_rest d) in
                          if senderBoxID \<le> oldOutbox then None
                          else let ds = update_first (\<lambda>d. dg_Peer d = user_peer reader)
                                     (\<lambda>d. d\<lparr>dg_rest := (dg_rest d)\<lparr>dr_ReadOutboxMaxID := senderBoxID\<rparr>\<rparr>) (dl_Dialogs senderList);
                                   s = s\<lparr>ms_dialogs := Some (dialogs(senderUserID \<mapsto> senderList\<lparr>dl_Dialogs := ds\<rparr>))\<rparr>;
                                   s = mark_read_dates senderUserID reader oldOutbox senderBoxID date s
                               in case nextPtsLocked s senderUserID of (outPts, s) \<Rightarrow>
                                    Some (senderUserID,
                                      zero_event\<lparr>ev_UserID := senderUserID, ev_Type := UpdateEventReadHistoryOutbox,
                                        ev_Pts := outPts, ev_PtsCount := 1, ev_Date := date,
                                        ev_Peer := user_peer reader, ev_MaxID := senderBoxID\<rparr>, s))"

definition read_dialog :: "int \<Rightarrow> int \<Rightarrow> 'v dialog_state dialog \<Rightarrow> 'v dialog_state dialog" where
  "read_dialog readMax unread d =
    d\<lparr>dg_rest := (dg_rest d)\<lparr>dr_ReadInboxMaxID := readMax, dr_UnreadCount := unread,
        dr_UnreadMentions := 0, dr_UnreadMark := False\<rparr>\<rparr>"

definition put_read :: "int \<Rightarrow> peer \<Rightarrow> int \<Rightarrow> int \<Rightarrow> (int \<rightharpoonup> 'v dialog_list) \<Rightarrow> (int \<rightharpoonup> 'v dialog_list)" where
  "put_read owner peer readMax unread dialogs =
    (let list = mget empty_dialog_list dialogs owner
     in dialogs(owner \<mapsto> list\<lparr>dl_Dialogs := update_first (\<lambda>d. dg_Peer d = peer) (read_dialog readMax unread) (dl_Dialogs list)\<rparr>))"

definition read_limit :: "read_request \<Rightarrow> 'v dialog_state dialog \<Rightarrow> int" where
  "read_limit req d =
    (let readMax = (if rq_MaxID req \<le> 0 then dg_TopMessage d else rq_MaxID req)
     in if readMax > dg_TopMessage d then dg_TopMessage d else readMax)"

text \<open>The mark does not move: the count is corrected if there is one.\<close>

definition read_refresh ::
  "int \<Rightarrow> peer \<Rightarrow> 'v dialog_state dialog \<Rightarrow> (int \<rightharpoonup> 'v dialog_list) \<Rightarrow> 'v message_store \<Rightarrow> 'v read_result \<Rightarrow> 'v read_result \<times> 'v message_store" where
  "read_refresh owner peer d dialogs s res =
    (if dr_UnreadCount (dg_rest d) > 0
     then let oldRead = dr_ReadInboxMaxID (dg_rest d); unread = unread_from peer oldRead (ms_m s owner)
          in (res\<lparr>rs_MaxID := oldRead, rs_StillUnreadCount := unread\<rparr>,
              s\<lparr>ms_dialogs := Some (put_read owner peer oldRead unread dialogs)\<rparr>)
     else (res, s))"

text \<open>The mark moves up: the inbox event for the reader and the receipt for the sender.\<close>

definition read_advance ::
  "int \<Rightarrow> peer \<Rightarrow> int \<Rightarrow> int \<Rightarrow> int \<Rightarrow> (int \<rightharpoonup> 'v dialog_list) \<Rightarrow> 'v message_store \<Rightarrow> 'v read_result \<Rightarrow> 'v read_result \<times> 'v message_store" where
  "read_advance owner peer date readMax oldRead dialogs s res =
    (let unread = unread_from peer readMax (ms_m s owner);
         latest = latest_incoming peer oldRead readMax zero_message (ms_m s owner);
         dialogs = put_read owner peer readMax unread dialogs;
         s = s\<lparr>ms_dialogs := Some dialogs\<rparr>
     in case nextPtsLocked s owner of (pts, s) \<Rightarrow>
          let inbox = zero_event\<lparr>ev_UserID := owner, ev_Type := UpdateEventReadHistoryInbox,
                ev_Pts := pts, ev_PtsCount := 1, ev_Date := date, ev_Peer := peer,
                ev_MaxID := readMax, ev_StillUnreadCount := unread\<rparr>;
              res = res\<lparr>rs_Changed := True, rs_StillUnreadCount := unread, rs_InboxEvent := inbox\<rparr>
          in case read_outbox owner date latest s dialogs of
               None \<Rightarrow> (res, s)
             | Some (senderUserID, outbox, s) \<Rightarrow>
                 (res\<lparr>rs_OutboxChanged := True, rs_OutboxUserID := senderUserID, rs_OutboxEvent := outbox\<rparr>, s))"

definition ReadHistory :: "int \<Rightarrow> 'v message_store \<Rightarrow> read_request \<Rightarrow> 'v read_result \<times> 'v message_store" where
  "ReadHistory now s req =
    (let owner = rq_OwnerUserID req; peer = rq_Peer req;
         res = \<lparr>rs_OwnerUserID = owner, rs_Peer = peer, rs_MaxID = rq_MaxID req, rs_StillUnreadCount = 0,
                rs_Changed = False, rs_InboxEvent = zero_event, rs_OutboxChanged = False,
                rs_OutboxUserID = 0, rs_OutboxEvent = zero_event\<rparr>
     in if owner = 0 \<or> peer_ID peer = 0 then (res, s)
        else let date = (if rq_Date req = 0 then now else rq_Date req) in
          case ms_dialogs s of
            None \<Rightarrow> (res, s)
          | Some dialogs \<Rightarrow>
              (case find (\<lambda>d. dg_Peer d = peer) (dl_Dialogs (mget empty_dialog_list dialogs owner)) of
                 None \<Rightarrow> (res, s)
               | Some d \<Rightarrow>
                   let readMax = read_limit req d;
                       oldRead = dr_ReadInboxMaxID (dg_rest d);
                       res = res\<lparr>rs_MaxID := readMax\<rparr>
                   in if \<not> readMax > oldRead then read_refresh owner peer d dialogs s res
                      else read_advance owner peer date readMax oldRead dialogs s res))"

definition GetOutboxReadDate :: "'v message_store \<Rightarrow> int \<Rightarrow> peer \<Rightarrow> int \<Rightarrow> msg_error + int" where
  "GetOutboxReadDate s owner peer msgID =
    (if owner = 0 \<or> peer_Type peer \<noteq> PeerTypeUser \<or> peer_ID peer = 0 \<or> msgID \<le> 0 \<or> msgID > MaxMessageBoxID
     then Inl ErrMessageIDInvalid
     else if \<not> list_ex (\<lambda>m. msg_ID m = msgID \<and> msg_Peer m = peer \<and> msg_Out m) (ms_m s owner)
     then Inl ErrMessageIDInvalid
     else let date = ms_readOutboxDates s (owner, peer_ID peer, msgID)
          in if date = 0 then Inl ErrMessageNotReadYet else Inr date)"

section \<open>Deletion\<close>

record deleted_row =
  dw_userID :: int
  dw_peer :: peer
  dw_id :: int
  dw_privateMessageID :: int
  dw_messageSenderID :: int
  dw_randomID :: int

definition row_of :: "int \<Rightarrow> 'v message \<Rightarrow> deleted_row" where
  "row_of userID m = \<lparr>dw_userID = userID, dw_peer = msg_Peer m, dw_id = msg_ID m,
     dw_privateMessageID = msg_UID m, dw_messageSenderID = peer_ID (msg_From m), dw_randomID = msg_RandomID m\<rparr>"

text \<open>The scan of one box: the rows kept, the messages removed, and whether the limit was hit.\<close>

fun delete_scan :: "('v message \<Rightarrow> bool) \<Rightarrow> int \<Rightarrow> int \<Rightarrow> 'v message list \<Rightarrow> 'v message list \<times> 'v message list \<times> bool" where
  "delete_scan match limit cnt [] = ([], [], False)"
| "delete_scan match limit cnt (m # ms) =
     (if match m then
        (if limit > 0 \<and> cnt \<ge> limit
         then (case delete_scan match limit cnt ms of (kept, del, hasMore) \<Rightarrow> (m # kept, del, True))
         else (case delete_scan match limit (cnt + 1) ms of (kept, del, hasMore) \<Rightarrow> (kept, m # del, hasMore)))
      else (case delete_scan match limit cnt ms of (kept, del, hasMore) \<Rightarrow> (m # kept, del, hasMore)))"

definition deleteMemoryMessagesLocked ::
  "'v message_store \<Rightarrow> int \<Rightarrow> int \<Rightarrow> ('v message \<Rightarrow> bool) \<Rightarrow> deleted_row list \<times> int set \<times> bool \<times> 'v message_store" where
  "deleteMemoryMessagesLocked s userID limit match =
    (case delete_scan match limit 0 (ms_m s userID) of
       (kept, del, hasMore) \<Rightarrow>
         (map (row_of userID) del, msg_UID ` {m \<in> set del. msg_UID m \<noteq> 0}, hasMore,
          s\<lparr>ms_m := (ms_m s)(userID := kept)\<rparr>))"

definition deleteMemoryMessagesByUIDLocked ::
  "int list \<Rightarrow> 'v message_store \<Rightarrow> int set \<Rightarrow> int \<Rightarrow> deleted_row list \<times> 'v message_store" where
  "deleteMemoryMessagesByUIDLocked ord s uids excludeUserID =
    (if uids = {} then ([], s)
     else let users = filter (\<lambda>u. u \<noteq> excludeUserID) ord
          in (concat (map (\<lambda>u. map (row_of u) (filter (\<lambda>m. msg_UID m \<in> uids) (ms_m s u))) users),
              s\<lparr>ms_m := (\<lambda>u. if u \<in> set users then filter (\<lambda>m. msg_UID m \<notin> uids) (ms_m s u) else ms_m s u)\<rparr>))"

definition normalizeMemoryMessageIDs :: "int list \<Rightarrow> int list" where
  "normalizeMemoryMessageIDs ids = sort (remdups (filter (\<lambda>i. \<not> (i \<le> 0 \<or> i > MaxMessageBoxID)) ids))"

record 'v history_clear_anchor =
  an_message :: "'v message"
  an_materialized :: bool

record 'v deleted_for_user =
  du_UserID :: int
  du_MessageIDs :: "int list"
  du_Event :: "'v update_event"
  du_Events :: "'v update_event list"
  du_Pts :: int
  du_PtsCount :: int

record 'v delete_result =
  de_OwnerUserID :: int
  de_Deleted :: "'v deleted_for_user list"
  de_Offset :: int

fun top_scan :: "peer \<Rightarrow> 'v message \<Rightarrow> 'v message list \<Rightarrow> 'v message" where
  "top_scan peer t [] = t"
| "top_scan peer t (m # ms) = top_scan peer (if msg_Peer m = peer \<and> msg_ID m > msg_ID t then m else t) ms"

fun rebuild_scan ::
  "peer \<Rightarrow> 'v message \<Rightarrow> 'v message list \<Rightarrow> int \<Rightarrow> 'v dialog_state dialog list \<Rightarrow> 'v dialog_state dialog list" where
  "rebuild_scan peer t msgs unread [] = []"
| "rebuild_scan peer t msgs unread (d # ds) =
     (if dg_Peer d \<noteq> peer then d # rebuild_scan peer t msgs unread ds
      else if msg_ID t = 0 then rebuild_scan peer t msgs unread ds
      else let unread = unread + unread_from peer (dr_ReadInboxMaxID (dg_rest d)) msgs
           in d\<lparr>dg_TopMessage := msg_ID t, dg_TopMessageDate := msg_Date t,
                dg_rest := (dg_rest d)\<lparr>dr_UnreadCount := unread, dr_UnreadMentions := 0, dr_UnreadReactions := 0\<rparr>\<rparr>
              # rebuild_scan peer t msgs unread ds)"

definition rebuildMemoryDialogLocked ::
  "(int \<Rightarrow> 'v message list) \<Rightarrow> int \<Rightarrow> peer \<Rightarrow> (int \<rightharpoonup> 'v dialog_list) \<Rightarrow> (int \<rightharpoonup> 'v dialog_list)" where
  "rebuildMemoryDialogLocked boxes userID peer dialogs =
    (let list = mget empty_dialog_list dialogs userID;
         t = top_scan peer zero_message (boxes userID)
     in dialogs(userID \<mapsto> list\<lparr>dl_Dialogs := rebuild_scan peer t (boxes userID) 0 (dl_Dialogs list),
                                dl_Messages := boxes userID\<rparr>))"

definition clear_dialog :: "int \<Rightarrow> 'v dialog_state dialog \<Rightarrow> 'v dialog_state dialog" where
  "clear_dialog maxID d =
    (let r = dg_rest d; r = (if dr_ReadInboxMaxID r < maxID then r\<lparr>dr_ReadInboxMaxID := maxID\<rparr> else r)
     in d\<lparr>dg_rest := r\<lparr>dr_UnreadCount := 0, dr_UnreadMark := False, dr_UnreadMentions := 0, dr_UnreadReactions := 0\<rparr>\<rparr>)"

definition advanceMemoryHistoryClearDialogLocked ::
  "int \<Rightarrow> peer \<Rightarrow> int \<Rightarrow> (int \<rightharpoonup> 'v dialog_list) \<Rightarrow> (int \<rightharpoonup> 'v dialog_list)" where
  "advanceMemoryHistoryClearDialogLocked userID peer maxID dialogs =
    (let list = mget empty_dialog_list dialogs userID
     in dialogs(userID \<mapsto> list\<lparr>dl_Dialogs := update_first (\<lambda>d. dg_Peer d = peer) (clear_dialog maxID) (dl_Dialogs list)\<rparr>))"

text \<open>The rows of one account that carry a send receipt get the deletion written into it.\<close>

definition mark_delete_receipts ::
  "int \<Rightarrow> 'v update_event \<Rightarrow> deleted_row list \<Rightarrow> (int \<times> int \<rightharpoonup> 'v dedup_record) \<Rightarrow> (int \<times> int \<rightharpoonup> 'v dedup_record)" where
  "mark_delete_receipts userID event deleted dedup =
    fold (\<lambda>row dedup.
            if dw_userID row \<noteq> userID \<or> dw_messageSenderID row \<noteq> userID \<or> dw_randomID row = 0 \<or>
               dw_privateMessageID row = 0 then dedup
            else case dedup (userID, dw_randomID row) of
                   None \<Rightarrow> dedup
                 | Some rec \<Rightarrow> dedup((userID, dw_randomID row) \<mapsto> rec\<lparr>pd_senderDeleteEvent := Some event\<rparr>))
      deleted dedup"

definition delete_event :: "int \<Rightarrow> int \<Rightarrow> int \<Rightarrow> int list \<Rightarrow> 'v update_event" where
  "delete_event userID pts date ids =
    zero_event\<lparr>ev_UserID := userID, ev_Type := UpdateEventDeleteMessages, ev_Pts := pts,
      ev_PtsCount := int (length ids), ev_Date := date, ev_MessageIDs := ids\<rparr>"

text \<open>The anchor becomes the service message of the cleared history, with a read and an edit event.\<close>

definition materialize_anchor ::
  "int \<Rightarrow> int \<Rightarrow> 'v message \<Rightarrow> int \<Rightarrow> 'v message_store \<Rightarrow> 'v update_event list \<times> 'v message_store" where
  "materialize_anchor userID date am cursor s =
    (let readPts = cursor + 1; editPts = readPts + 1;
         msg = NewHistoryClearMessage userID (msg_Peer am) (msg_ID am) (msg_UID am) (msg_Date am) editPts;
         s = s\<lparr>ms_m := (ms_m s)(userID := update_first (\<lambda>m. msg_ID m = msg_ID am \<and> msg_Peer m = msg_Peer am)
                                 (\<lambda>_. msg) (ms_m s userID)),
               ms_savedMessageTags := (ms_savedMessageTags s)(userID := (ms_savedMessageTags s userID)(msg_ID am := []))\<rparr>
     in ([zero_event\<lparr>ev_UserID := userID, ev_Type := UpdateEventReadHistoryInbox, ev_Pts := readPts,
            ev_PtsCount := 1, ev_Date := date, ev_Peer := msg_Peer am, ev_MaxID := msg_ID am, ev_StillUnreadCount := 0\<rparr>,
          zero_event\<lparr>ev_UserID := userID, ev_Type := UpdateEventEditMessage, ev_Pts := editPts,
            ev_PtsCount := 1, ev_Date := date, ev_Message := msg\<rparr>], s))"

definition owner_peers :: "int \<Rightarrow> deleted_row list \<Rightarrow> (int \<times> 'v history_clear_anchor) list \<Rightarrow> peer list" where
  "owner_peers userID deleted anchors =
    remdups (map dw_peer (filter (\<lambda>r. dw_userID r = userID) deleted) @
             map (\<lambda>(_, a). msg_Peer (an_message a)) (filter (\<lambda>(u, _). u = userID) anchors))"

definition delete_owner ::
  "int \<Rightarrow> deleted_row list \<Rightarrow> (int \<times> 'v history_clear_anchor) list \<Rightarrow> int
     \<Rightarrow> 'v deleted_for_user list \<times> 'v message_store \<Rightarrow> msg_error + ('v deleted_for_user list \<times> 'v message_store)" where
  "delete_owner date deleted anchors userID st =
    (case st of (items, s) \<Rightarrow>
      let ids = normalizeMemoryMessageIDs (map dw_id (filter (\<lambda>r. dw_userID r = userID) deleted));
          anchor = (case map_of anchors userID of
                      None \<Rightarrow> None | Some a \<Rightarrow> if an_materialized a then None else Some (an_message a));
          total = int (length ids) + (if anchor \<noteq> None then 2 else 0)
      in if total = 0 then Inr (items, s)
         else case nextPtsNLocked s userID total of (pts, s) \<Rightarrow>
           let cursor = pts - total + int (length ids);
               event = delete_event userID cursor date ids;
               s = (if ids \<noteq> [] then s\<lparr>ms_dedup := mark_delete_receipts userID event deleted (ms_dedup s)\<rparr> else s);
               (evs, s) = (case anchor of None \<Rightarrow> ([], s) | Some am \<Rightarrow> materialize_anchor userID date am cursor s);
               cursor = cursor + int (length evs);
               dialogs = map_option (\<lambda>d.
                  let d = fold (rebuildMemoryDialogLocked (ms_m s) userID) (owner_peers userID deleted anchors) d
                  in case anchor of
                       None \<Rightarrow> d
                     | Some am \<Rightarrow> advanceMemoryHistoryClearDialogLocked userID (msg_Peer am) (msg_ID am) d) (ms_dialogs s);
               item = \<lparr>du_UserID = userID, du_MessageIDs = ids, du_Event = (if ids \<noteq> [] then event else zero_event),
                       du_Events = (if ids \<noteq> [] then [event] else []) @ evs, du_Pts = pts, du_PtsCount = total\<rparr>
           in if cursor \<noteq> pts then Inl ErrDeletePanic
              else Inr (items @ [item], s\<lparr>ms_dialogs := dialogs\<rparr>))"

fun delete_owners ::
  "int \<Rightarrow> deleted_row list \<Rightarrow> (int \<times> 'v history_clear_anchor) list \<Rightarrow> int list
     \<Rightarrow> 'v deleted_for_user list \<times> 'v message_store \<Rightarrow> msg_error + ('v deleted_for_user list \<times> 'v message_store)" where
  "delete_owners date deleted anchors [] st = Inr st"
| "delete_owners date deleted anchors (u # us) st =
     (case delete_owner date deleted anchors u st of
        Inl e \<Rightarrow> Inl e | Inr st \<Rightarrow> delete_owners date deleted anchors us st)"

definition clear_tags :: "deleted_row list \<Rightarrow> (int \<Rightarrow> int \<Rightarrow> message_reaction list) \<Rightarrow> (int \<Rightarrow> int \<Rightarrow> message_reaction list)" where
  "clear_tags deleted tags = fold (\<lambda>r tags. tags(dw_userID r := (tags (dw_userID r))(dw_id r := []))) deleted tags"

definition delete_owner_ids :: "deleted_row list \<Rightarrow> (int \<times> 'v history_clear_anchor) list \<Rightarrow> int list" where
  "delete_owner_ids deleted anchors =
    sort (remdups (map dw_userID deleted @ map fst (filter (\<lambda>(_, a). \<not> an_materialized a) anchors)))"

definition finishMemoryDeleteLocked ::
  "'v message_store \<Rightarrow> int \<Rightarrow> deleted_row list \<Rightarrow> int \<Rightarrow> (int \<times> 'v history_clear_anchor) list
     \<Rightarrow> msg_error + ('v delete_result \<times> 'v message_store)" where
  "finishMemoryDeleteLocked s owner deleted date anchors =
    (if deleted = [] \<and> anchors = [] then Inr (\<lparr>de_OwnerUserID = owner, de_Deleted = [], de_Offset = 0\<rparr>, s)
     else let s = s\<lparr>ms_savedMessageTags := clear_tags deleted (ms_savedMessageTags s)\<rparr>
          in case delete_owners date deleted anchors (delete_owner_ids deleted anchors) ([], s) of
               Inl e \<Rightarrow> Inl e
             | Inr (items, s) \<Rightarrow> Inr (\<lparr>de_OwnerUserID = owner, de_Deleted = items, de_Offset = 0\<rparr>, s))"

record delete_request =
  dq_OwnerUserID :: int
  dq_IDs :: "int list"
  dq_Revoke :: bool
  dq_Date :: int

definition DeleteMessages ::
  "int \<Rightarrow> int list \<Rightarrow> 'v message_store \<Rightarrow> delete_request \<Rightarrow> msg_error + ('v delete_result \<times> 'v message_store)" where
  "DeleteMessages now ord s req =
    (let owner = dq_OwnerUserID req; ids = normalizeMemoryMessageIDs (dq_IDs req) in
     if owner = 0 \<or> ids = [] then Inr (\<lparr>de_OwnerUserID = owner, de_Deleted = [], de_Offset = 0\<rparr>, s)
     else if int (length ids) > MaxDeleteMessageIDs then Inl (ErrTooManyIDs (int (length ids)))
     else let date = (if dq_Date req = 0 then now else dq_Date req) in
       case deleteMemoryMessagesLocked s owner 0 (\<lambda>m. msg_ID m \<in> set ids) of
         (deleted, revokeUIDs, _, s) \<Rightarrow>
           if dq_Revoke req \<and> revokeUIDs \<noteq> {}
           then (case deleteMemoryMessagesByUIDLocked ord s revokeUIDs owner of
                   (others, s) \<Rightarrow> finishMemoryDeleteLocked s owner (deleted @ others) date [])
           else finishMemoryDeleteLocked s owner deleted date [])"

record history_request =
  hq_OwnerUserID :: int
  hq_Peer :: peer
  hq_MaxID :: int
  hq_MinDate :: int
  hq_MaxDate :: int
  hq_JustClear :: bool
  hq_Revoke :: bool
  hq_Date :: int

definition memoryHistoryClearAnchorLocked :: "'v message_store \<Rightarrow> int \<Rightarrow> peer \<Rightarrow> 'v history_clear_anchor option" where
  "memoryHistoryClearAnchorLocked s userID peer =
    (let t = top_scan peer zero_message (ms_m s userID)
     in if msg_ID t = 0 then None
        else Some \<lparr>an_message = t, an_materialized = IsHistoryClearServiceMessage t\<rparr>)"

definition history_anchors :: "'v message_store \<Rightarrow> history_request \<Rightarrow> (int \<times> 'v history_clear_anchor) list" where
  "history_anchors s req =
    (let owner = hq_OwnerUserID req; other = peer_ID (hq_Peer req);
         pick = (\<lambda>u p. case memoryHistoryClearAnchorLocked s u p of None \<Rightarrow> [] | Some a \<Rightarrow> [(u, a)])
     in if hq_JustClear req \<and> hq_MaxID req \<le> 0 \<and> hq_MinDate req \<le> 0 \<and> hq_MaxDate req \<le> 0
        then pick owner (hq_Peer req) @ (if hq_Revoke req \<and> other \<noteq> owner then pick other (user_peer owner) else [])
        else [])"

definition in_date_range :: "history_request \<Rightarrow> 'v message \<Rightarrow> bool" where
  "in_date_range req m \<longleftrightarrow>
    \<not> (hq_MinDate req > 0 \<and> msg_Date m < hq_MinDate req) \<and> \<not> (hq_MaxDate req > 0 \<and> msg_Date m > hq_MaxDate req)"

definition is_anchor :: "(int \<times> 'v history_clear_anchor) list \<Rightarrow> int \<Rightarrow> 'v message \<Rightarrow> bool" where
  "is_anchor anchors userID m =
    (case map_of anchors userID of None \<Rightarrow> False | Some a \<Rightarrow> msg_ID m = msg_ID (an_message a))"

definition DeleteHistory ::
  "int \<Rightarrow> int list \<Rightarrow> 'v message_store \<Rightarrow> history_request \<Rightarrow> msg_error + ('v delete_result \<times> 'v message_store)" where
  "DeleteHistory now ord s req =
    (let owner = hq_OwnerUserID req; peer = hq_Peer req; other = peer_ID peer in
     if owner = 0 \<or> other = 0 then Inr (\<lparr>de_OwnerUserID = owner, de_Deleted = [], de_Offset = 0\<rparr>, s)
     else let date = (if hq_Date req = 0 then now else hq_Date req); anchors = history_anchors s req in
       case deleteMemoryMessagesLocked s owner MaxDeleteHistoryBatch
              (\<lambda>m. \<not> is_anchor anchors owner m \<and> msg_Peer m = peer \<and>
                   (hq_MaxID req \<le> 0 \<or> msg_ID m \<le> hq_MaxID req) \<and> in_date_range req m) of
         (deleted, revokeUIDs, hasMore, s) \<Rightarrow>
           let (deleted, s) =
                 (if hq_Revoke req \<and> hq_MaxID req > 0 \<and> revokeUIDs \<noteq> {}
                  then case deleteMemoryMessagesByUIDLocked ord s revokeUIDs owner of
                         (others, s) \<Rightarrow> (deleted @ others, s)
                  else (deleted, s));
               (deleted, hasMore, s) =
                 (if hq_Revoke req \<and> hq_MaxID req \<le> 0 \<and> other \<noteq> owner
                  then case deleteMemoryMessagesLocked s other MaxDeleteHistoryBatch
                              (\<lambda>m. \<not> is_anchor anchors other m \<and> msg_Peer m = user_peer owner \<and> in_date_range req m) of
                         (peerDeleted, _, peerMore, s) \<Rightarrow> (deleted @ peerDeleted, hasMore \<or> peerMore, s)
                  else (deleted, hasMore, s))
           in (case finishMemoryDeleteLocked s owner deleted date anchors of
                 Inl e \<Rightarrow> Inl e
               | Inr (res, s) \<Rightarrow> Inr (if hasMore then res\<lparr>de_Offset := 1\<rparr> else res, s)))"

section \<open>Edits\<close>

record 'v edit_request =
  eq_OwnerUserID :: int
  eq_Peer :: peer
  eq_ID :: int
  eq_Message :: string
  eq_Entities :: "message_entity list"
  eq_Media :: "'v message_media option"
  eq_EditDate :: int
  eq_HideEdited :: bool
  eq_SetReplyMarkup :: bool
  eq_ReplyMarkup :: "'v option"
  eq_SetRichMessage :: bool
  eq_RichMessage :: "'v rich_message option"
  eq_ViaBotEditBotID :: int
  eq_AllowTodoParticipantMutation :: bool
  eq_WebPageResolve :: bool
  eq_ExpectedWebPageID :: int

record 'v edited_for_user =
  ee_UserID :: int
  ee_Message :: "'v message"
  ee_Event :: "'v update_event"

definition todo_media :: "'v message_media option \<Rightarrow> bool" where
  "todo_media m = (case m of None \<Rightarrow> False | Some d \<Rightarrow> md_Kind d = MessageMediaKindTodo \<and> md_Todo d \<noteq> None)"

definition validMemoryTodoParticipantEdit :: "'v edit_request \<Rightarrow> 'v message \<Rightarrow> bool" where
  "validMemoryTodoParticipantEdit req target \<longleftrightarrow>
    eq_AllowTodoParticipantMutation req \<and> \<not> eq_SetReplyMarkup req \<and> todo_media (eq_Media req) \<and>
    peer_ID (msg_From target) \<noteq> eq_OwnerUserID req \<and>
    msg_Body target = eq_Message req \<and> msg_Entities target = eq_Entities req \<and> todo_media (msg_Media target)"

definition richMessagesEqual :: "'v rich_message option \<Rightarrow> 'v rich_message option \<Rightarrow> bool" where
  "richMessagesEqual a b \<longleftrightarrow> (Rich_IsZero a \<and> Rich_IsZero b) \<or> a = b"

definition edit_check :: "'v edit_request \<Rightarrow> 'v message \<Rightarrow> msg_error option" where
  "edit_check req target =
    (let authorEdit = (msg_Out target \<and> peer_ID (msg_From target) = eq_OwnerUserID req);
         viaBotEdit = (eq_ViaBotEditBotID req \<noteq> 0 \<and> msg_ViaBotID target = eq_ViaBotEditBotID req);
         finalMedia = (if eq_Media req \<noteq> None then eq_Media req else msg_Media target);
         finalRich = (if eq_SetRichMessage req then eq_RichMessage req else msg_RichMessage target);
         richChanged = (eq_SetRichMessage req \<and> \<not> richMessagesEqual (msg_RichMessage target) (eq_RichMessage req))
     in if \<not> authorEdit \<and> \<not> viaBotEdit \<and> \<not> eq_WebPageResolve req \<and> \<not> validMemoryTodoParticipantEdit req target
        then Some ErrMessageAuthorRequired
        else if eq_WebPageResolve req \<and>
                (eq_Media req = None \<or> \<not> IsPendingWebPageMedia (msg_Media target) (eq_ExpectedWebPageID req))
        then Some ErrMessageNotModified
        else if eq_Message req = [] \<and> Media_IsZero finalMedia \<and> Rich_IsZero finalRich then Some ErrMessageEmpty
        else if eq_Media req = None \<and> \<not> eq_SetReplyMarkup req \<and> \<not> richChanged \<and> msg_Body target = eq_Message req \<and>
                msg_HideEdited target = eq_HideEdited req \<and> msg_Entities target = eq_Entities req
        then Some ErrMessageNotModified
        else None)"

definition edit_copy :: "'v edit_request \<Rightarrow> int \<Rightarrow> int \<Rightarrow> 'v message \<Rightarrow> 'v message" where
  "edit_copy req editDate pts m =
    (if eq_WebPageResolve req then m\<lparr>msg_Media := eq_Media req, msg_Pts := pts\<rparr>
     else let m = m\<lparr>msg_Body := eq_Message req, msg_Entities := eq_Entities req\<rparr>;
              m = (if eq_Media req \<noteq> None then m\<lparr>msg_Media := eq_Media req\<rparr> else m);
              m = (if eq_SetReplyMarkup req then m\<lparr>msg_ReplyMarkup := eq_ReplyMarkup req\<rparr> else m);
              m = (if eq_SetRichMessage req then m\<lparr>msg_RichMessage := eq_RichMessage req\<rparr> else m)
          in m\<lparr>msg_EditDate := editDate, msg_HideEdited := eq_HideEdited req, msg_Pts := pts\<rparr>)"

text \<open>The pass over one box; \<open>pts\<close> is the account's counter.\<close>

fun edit_box ::
  "'v edit_request \<Rightarrow> int \<Rightarrow> 'v message \<Rightarrow> int \<Rightarrow> int \<Rightarrow> 'v message list
     \<Rightarrow> 'v message list \<times> 'v edited_for_user list \<times> int" where
  "edit_box req editDate target userID pts [] = ([], [], pts)"
| "edit_box req editDate target userID pts (m # ms) =
     (if msg_UID m = msg_UID target \<and> peer_ID (msg_From m) = peer_ID (msg_From target)
      then let m' = edit_copy req editDate (pts + 1) m;
               event = (if eq_WebPageResolve req then webPageEvent m' else editMessageEvent m')
           in (case edit_box req editDate target userID (pts + 1) ms of
                 (ms', ed, pts') \<Rightarrow>
                   (m' # ms', \<lparr>ee_UserID = userID, ee_Message = m', ee_Event = event\<rparr> # ed, pts'))
      else (case edit_box req editDate target userID pts ms of (ms', ed, pts') \<Rightarrow> (m # ms', ed, pts')))"

fun edit_boxes ::
  "'v edit_request \<Rightarrow> int \<Rightarrow> 'v message \<Rightarrow> int list \<Rightarrow> 'v message_store \<Rightarrow> 'v edited_for_user list \<times> 'v message_store" where
  "edit_boxes req editDate target [] s = ([], s)"
| "edit_boxes req editDate target (u # us) s =
     (case edit_box req editDate target u (ms_nextPts s u) (ms_m s u) of
        (box, ed, pts) \<Rightarrow>
          (case edit_boxes req editDate target us
                  (s\<lparr>ms_m := (ms_m s)(u := box), ms_nextPts := (ms_nextPts s)(u := pts)\<rparr>) of
             (rest, s) \<Rightarrow> (ed @ rest, s)))"

definition EditMessage ::
  "int \<Rightarrow> int list \<Rightarrow> 'v message_store \<Rightarrow> 'v edit_request \<Rightarrow> msg_error + ('v edited_for_user list \<times> 'v message_store)" where
  "EditMessage now ord s req =
    (if eq_OwnerUserID req = 0 \<or> peer_ID (eq_Peer req) = 0 \<or> eq_ID req \<le> 0 \<or> eq_ID req > MaxMessageBoxID
     then Inl ErrMessageIDInvalid
     else let editDate = (if eq_EditDate req = 0 then now else eq_EditDate req) in
       case find (\<lambda>m. msg_ID m = eq_ID req \<and> msg_Peer m = eq_Peer req) (ms_m s (eq_OwnerUserID req)) of
         None \<Rightarrow> Inl ErrMessageIDInvalid
       | Some target \<Rightarrow>
           (case edit_check req target of
              Some e \<Rightarrow> Inl e
            | None \<Rightarrow>
                (case edit_boxes req editDate target ord s of
                   (edited, s) \<Rightarrow>
                     Inr (sort_key ee_UserID edited,
                          s\<lparr>ms_dialogs := map_option (\<lambda>d u. map_option (\<lambda>l. l\<lparr>dl_Messages := ms_m s u\<rparr>) (d u))
                                            (ms_dialogs s)\<rparr>))))"

section \<open>Pages of a history\<close>

record message_filter =
  mf_HasPeer :: bool
  mf_Peer :: peer
  mf_Query :: string
  mf_OffsetID :: int
  mf_OffsetDate :: int
  mf_MinDate :: int
  mf_MaxDate :: int
  mf_AddOffset :: int
  mf_Limit :: int
  mf_MaxID :: int
  mf_MinID :: int
  mf_SenderUserID :: int
  mf_CountOnly :: bool
  mf_PinnedOnly :: bool
  mf_MusicOnly :: bool
  mf_SavedPeer :: peer
  mf_SavedReactions :: "message_reaction list"
  mf_PeerIDs :: "int list"
  mf_RestrictPeerIDs :: bool

record 'v message_list =
  ml_Messages :: "'v message list"
  ml_Users :: "int list"
  ml_Count :: int
  ml_Hash :: int

definition messageHasAnySavedTag :: "'v message \<Rightarrow> message_reaction list \<Rightarrow> bool" where
  "messageHasAnySavedTag m wanted =
    (case msg_Reactions m of
       None \<Rightarrow> False
     | Some r \<Rightarrow> mr_AsTags r \<and>
         (let have' = map (Reaction_Key \<circ> rc_Reaction) (mr_Results r)
          in list_ex (\<lambda>w. Reaction_Key w \<in> set have') wanted))"

text \<open>\<open>lower\<close> is \<open>strings.ToLower\<close>.\<close>

definition filter_keeps :: "(string \<Rightarrow> string) \<Rightarrow> message_filter \<Rightarrow> 'v message \<Rightarrow> bool" where
  "filter_keeps lower f m \<longleftrightarrow>
    \<not> (mf_HasPeer f \<and> msg_Peer m \<noteq> mf_Peer f) \<and>
    \<not> (mf_SenderUserID f \<noteq> 0 \<and> msg_From m \<noteq> user_peer (mf_SenderUserID f)) \<and>
    \<not> (mf_RestrictPeerIDs f \<and> (peer_Type (msg_Peer m) \<noteq> PeerTypeUser \<or> peer_ID (msg_Peer m) \<notin> set (mf_PeerIDs f))) \<and>
    \<not> (lower (mf_Query f) \<noteq> [] \<and> \<not> strings_Contains (lower (msg_Body m)) (lower (mf_Query f))) \<and>
    \<not> (mf_MinDate f > 0 \<and> msg_Date m \<le> mf_MinDate f) \<and>
    \<not> (mf_MaxDate f > 0 \<and> msg_Date m \<ge> mf_MaxDate f) \<and>
    \<not> (mf_MaxID f > 0 \<and> msg_ID m \<ge> mf_MaxID f) \<and>
    \<not> (mf_MinID f > 0 \<and> msg_ID m \<le> mf_MinID f) \<and>
    \<not> (mf_PinnedOnly f \<and> \<not> msg_Pinned m) \<and>
    \<not> (mf_MusicOnly f \<and> \<not> Media_IsMusic (msg_Media m)) \<and>
    \<not> (peer_ID (mf_SavedPeer f) \<noteq> 0 \<and> msg_SavedPeer m \<noteq> mf_SavedPeer f) \<and>
    \<not> (mf_SavedReactions f \<noteq> [] \<and> \<not> messageHasAnySavedTag m (mf_SavedReactions f))"

definition messageBeforeHistoryOffset :: "message_filter \<Rightarrow> 'v message \<Rightarrow> bool" where
  "messageBeforeHistoryOffset f m =
    (if mf_OffsetDate f > 0 then msg_Date m < mf_OffsetDate f
     else if mf_OffsetID f \<le> 0 then True else msg_ID m < mf_OffsetID f)"

definition messageAfterHistoryOffset :: "message_filter \<Rightarrow> 'v message \<Rightarrow> bool" where
  "messageAfterHistoryOffset f m =
    (if mf_OffsetDate f > 0 then msg_Date m \<ge> mf_OffsetDate f
     else if mf_OffsetID f \<le> 0 then False else msg_ID m \<ge> mf_OffsetID f)"

fun backward_loop :: "message_filter \<Rightarrow> int \<Rightarrow> 'v message list \<Rightarrow> 'v message list \<Rightarrow> 'v message list" where
  "backward_loop f limit out [] = out"
| "backward_loop f limit out (m # ms) =
     (if \<not> messageBeforeHistoryOffset f m then backward_loop f limit out ms
      else let out = out @ [m]
           in if int (length out) = limit then out else backward_loop f limit out ms)"

definition backwardMessageHistory :: "'v message list \<Rightarrow> message_filter \<Rightarrow> int \<Rightarrow> 'v message list" where
  "backwardMessageHistory base f limit = (if limit \<le> 0 then [] else backward_loop f limit [] base)"

fun forward_scan :: "message_filter \<Rightarrow> int \<Rightarrow> int \<Rightarrow> 'v message list \<Rightarrow> 'v message list \<Rightarrow> 'v message list" where
  "forward_scan f limit skip out [] = out"
| "forward_scan f limit skip out (m # ms) =
     (if \<not> messageAfterHistoryOffset f m then forward_scan f limit skip out ms
      else if skip > 0 then forward_scan f limit (skip - 1) out ms
      else let out = out @ [m]
           in if int (length out) = limit then out else forward_scan f limit skip out ms)"

definition newest_first :: "'v message list \<Rightarrow> 'v message list" where
  "newest_first ms = sort_key (\<lambda>m. - msg_ID m) ms"

definition forwardMessageHistory :: "'v message list \<Rightarrow> message_filter \<Rightarrow> int \<Rightarrow> int \<Rightarrow> 'v message list" where
  "forwardMessageHistory base f limit skip =
    (if limit \<le> 0 then [] else newest_first (forward_scan f limit skip [] (rev base)))"

datatype history_load = messageHistoryLoadBackward | messageHistoryLoadForward | messageHistoryLoadAround

definition messageHistoryLoadType :: "int \<Rightarrow> int \<Rightarrow> history_load" where
  "messageHistoryLoadType addOffset limit =
    (if addOffset \<ge> 0 then messageHistoryLoadBackward
     else if addOffset + limit > 0 then messageHistoryLoadAround
     else messageHistoryLoadForward)"

definition pageMessageHistory :: "'v message list \<Rightarrow> message_filter \<Rightarrow> int \<Rightarrow> 'v message list" where
  "pageMessageHistory base f limit =
    (if limit \<le> 0 \<or> base = [] then []
     else case messageHistoryLoadType (mf_AddOffset f) limit of
            messageHistoryLoadForward \<Rightarrow> forwardMessageHistory base f limit (- mf_AddOffset f - limit)
          | messageHistoryLoadAround \<Rightarrow>
              let forwardLimit = (if - mf_AddOffset f > limit then limit else - mf_AddOffset f);
                  backwardLimit = (if limit + mf_AddOffset f < 0 then 0 else limit + mf_AddOffset f)
              in newest_first (forwardMessageHistory base f forwardLimit 0 @ backwardMessageHistory base f backwardLimit)
          | messageHistoryLoadBackward \<Rightarrow>
              let start = (if mf_AddOffset f < 0 then 0 else mf_AddOffset f);
                  candidates = backwardMessageHistory base f (limit + start)
              in if start \<ge> int (length candidates) then [] else drop (nat start) candidates)"

definition reaction_hash_bytes :: "'v message_reactions option \<Rightarrow> bytes" where
  "reaction_hash_bytes r =
    (case r of
       None \<Rightarrow> [0]
     | Some r \<Rightarrow>
         [if mr_AsTags r then 1 else 0] @
         concat (map (\<lambda>i. str_bytes (re_Type (rc_Reaction i)) @ [0] @ str_bytes (Reaction_Value (rc_Reaction i)) @ [0] @
                          le_bytes32 (rc_Count i) @ le_bytes32 (rc_ChosenOrder i)) (mr_Results r)) @
         [0xfe] @
         concat (map (\<lambda>i. str_bytes (re_Type (pr_Reaction i)) @ [0] @ str_bytes (Reaction_Value (pr_Reaction i)) @ [0] @
                          le_bytes (pr_UserID i) @ le_bytes32 (pr_Date i) @ le_bytes32 (pr_ChosenOrder i)) (mr_Recent r)))"

definition messageListHash :: "'v message list \<Rightarrow> int" where
  "messageListHash ms =
    (if ms = [] then 0
     else sint (fold (\<lambda>m h. fnv1a h (le_bytes32 (msg_ID m) @ le_bytes32 (msg_Date m) @
                  le_bytes (peer_ID (msg_From m)) @ reaction_hash_bytes (msg_Reactions m))) ms fnv1a_offset))"

definition usersForMessages :: "(int \<Rightarrow> bool) \<Rightarrow> 'v message list \<Rightarrow> int list" where
  "usersForMessages sys ms =
    filter sys (rev (remdups (rev (map peer_ID (filter (\<lambda>p. peer_Type p = PeerTypeUser)
      (concat (map (\<lambda>m. [msg_Peer m, msg_From m]) ms)))))))"

definition history_limit :: "int \<Rightarrow> int" where
  "history_limit limit = (let limit = (if limit \<le> 0 then 100 else limit) in if limit > 500 then 500 else limit)"

definition filterMessageList ::
  "(string \<Rightarrow> string) \<Rightarrow> (int \<Rightarrow> bool) \<Rightarrow> 'v message list \<Rightarrow> message_filter \<Rightarrow> 'v message_list" where
  "filterMessageList lower sys messages f =
    (let f = f\<lparr>mf_AddOffset := ClampMessageHistoryAddOffset (mf_AddOffset f)\<rparr>;
         base = filter (filter_keeps lower f) (newest_first messages)
     in if mf_CountOnly f then \<lparr>ml_Messages = [], ml_Users = [], ml_Count = int (length base), ml_Hash = 0\<rparr>
        else let page = pageMessageHistory base f (history_limit (mf_Limit f))
             in \<lparr>ml_Messages = page, ml_Users = usersForMessages sys page,
                 ml_Count = int (length base), ml_Hash = messageListHash base\<rparr>)"

end
