(* ===== verification/Message_Invariants.thy ===== *)
theory Message_Invariants
  imports Message_History
begin

text \<open>
  Runs of the memory message store and what they keep. \<open>msg_exec\<close> is one operation of the store,
  \<open>msg_run\<close> a sequence of them; between two operations other components may write to the shared event
  log. Each operation changes the boxes and the send receipts by a few kinds of steps, the relation
  \<open>box_step\<close>: a message is posted to one box or delivered to two, messages are dropped with their
  receipts marked, messages are rewritten in place, or a message is turned into the anchor of a cleared
  history. The simulation \<open>op_steps\<close> is proved in \<open>Message_Steps\<close> and \<open>Message_Runs\<close>.

  The locale \<open>box_invariant\<close> of \<open>Message_Runs\<close> is the contract of a predicate that the steps keep; it holds then in
  every state of a run. It is interpreted for the order of the boxes, the pairing of the two copies of a
  message, the agreement of their contents and the send receipts.
\<close>

section \<open>Operations and runs\<close>

datatype 'v msg_op =
    OpCreate "int \<Rightarrow> bool" "'v message"
  | OpSend int "'v send_request"
  | OpForward int "'v forward_request"
  | OpPin int "int option list" pin_request
  | OpUnpin int unpin_request
  | OpToggle int int toggle_request
  | OpRead int read_request
  | OpDelete int "int list" delete_request
  | OpClear int "int list" history_request
  | OpEdit int "int list" "'v edit_request"
  | OpLog "'v event_store option"

definition state_after :: "'v message_store \<Rightarrow> msg_error + ('r \<times> 'v message_store) \<Rightarrow> 'v message_store" where
  "state_after s r = (case r of Inl _ \<Rightarrow> s | Inr (_, s') \<Rightarrow> s')"

fun msg_exec :: "'v json_codec \<Rightarrow> 'v message_store \<Rightarrow> 'v msg_op \<Rightarrow> 'v message_store" where
  "msg_exec cx s (OpCreate sys m) = snd (Create sys s m)"
| "msg_exec cx s (OpSend now req) = state_after s (SendPrivateText cx now s req)"
| "msg_exec cx s (OpForward now req) = snd (snd (ForwardPrivateMessages cx now s req))"
| "msg_exec cx s (OpPin now draws req) = state_after s (PinPrivateMessage cx now draws s req)"
| "msg_exec cx s (OpUnpin now req) = state_after s (UnpinAllPrivateMessages now s req)"
| "msg_exec cx s (OpToggle now nano req) = state_after s (TogglePrivateNoForwards cx now nano s req)"
| "msg_exec cx s (OpRead now req) = snd (ReadHistory now s req)"
| "msg_exec cx s (OpDelete now ord req) = state_after s (DeleteMessages now ord s req)"
| "msg_exec cx s (OpClear now ord req) = state_after s (DeleteHistory now ord s req)"
| "msg_exec cx s (OpEdit now ord req) = state_after s (EditMessage now ord s req)"
| "msg_exec cx s (OpLog events) = AttachUpdateEventStore s events"

text \<open>A Go map range visits each box once.\<close>

definition range_order :: "'v message_store \<Rightarrow> int list \<Rightarrow> bool" where
  "range_order s ord \<longleftrightarrow> distinct ord \<and> (\<forall>u. ms_m s u \<noteq> [] \<longrightarrow> u \<in> set ord)"

fun op_ordered :: "'v message_store \<Rightarrow> 'v msg_op \<Rightarrow> bool" where
  "op_ordered s (OpDelete _ ord _) = range_order s ord"
| "op_ordered s (OpClear _ ord _) = range_order s ord"
| "op_ordered s (OpEdit _ ord _) = range_order s ord"
| "op_ordered s _ = True"

text \<open>The operations that turn a message into an anchor.\<close>

definition full_clear :: "history_request \<Rightarrow> bool" where
  "full_clear req \<longleftrightarrow> hq_JustClear req \<and> hq_MaxID req \<le> 0 \<and> hq_MinDate req \<le> 0 \<and> hq_MaxDate req \<le> 0"

fun op_clears :: "'v msg_op \<Rightarrow> bool" where
  "op_clears (OpClear _ _ req) = full_clear req"
| "op_clears _ = False"

definition ids_in_range :: "'v message_store \<Rightarrow> bool" where
  "ids_in_range s \<longleftrightarrow> (\<forall>u. ms_nextBox s u \<le> MaxMessageBoxID)"

inductive msg_run :: "'v json_codec \<Rightarrow> 'v message_store \<Rightarrow> 'v msg_op list \<Rightarrow> 'v message_store \<Rightarrow> bool" for cx where
  run_refl: "msg_run cx s [] s"
| run_step: "msg_run cx s ops s' \<Longrightarrow> op_ordered s' op \<Longrightarrow> ids_in_range s' \<Longrightarrow>
    msg_run cx s (ops @ [op]) (msg_exec cx s' op)"

inductive_cases msg_run_NilE: "msg_run cx s [] s'"

definition fresh_store :: "'v message_store \<Rightarrow> bool" where
  "fresh_store s \<longleftrightarrow> s = NewMessageStore None \<or> s = NewMessageStore (Some Map.empty)"

section \<open>Steps of the boxes\<close>

definition slot :: "'v message \<Rightarrow> int \<times> int \<times> int \<times> peer \<times> int" where
  "slot m = (msg_ID m, msg_UID m, msg_OwnerUserID m, msg_Peer m, msg_Date m)"

definition ident :: "'v message \<Rightarrow> (int \<times> int \<times> int \<times> peer \<times> int) \<times> int \<times> peer \<times> bool" where
  "ident m = (slot m, msg_RandomID m, msg_From m, msg_Out m)"

definition content :: "'v message \<Rightarrow> string \<times> message_entity list \<times> 'v message_media option" where
  "content m = (msg_Body m, msg_Entities m, msg_Media m)"

definition same_receipt :: "'v dedup_record \<Rightarrow> 'v dedup_record \<Rightarrow> bool" where
  "same_receipt r r' \<longleftrightarrow> pd_recipientUserID r' = pd_recipientUserID r \<and> pd_senderSnapshot r' = pd_senderSnapshot r \<and>
     pd_recipientMessage r' = pd_recipientMessage r \<and> pd_fingerprint r' = pd_fingerprint r"

definition receipts_grow :: "(int \<times> int \<rightharpoonup> 'v dedup_record) \<Rightarrow> (int \<times> int \<rightharpoonup> 'v dedup_record) \<Rightarrow> bool" where
  "receipts_grow d d' \<longleftrightarrow>
    (\<forall>k. (d k = None \<longrightarrow> d' k = None) \<and>
         (\<forall>r. d k = Some r \<longrightarrow> (\<exists>r'. d' k = Some r' \<and> same_receipt r r' \<and>
                       (pd_senderDeleteEvent r \<noteq> None \<longrightarrow> pd_senderDeleteEvent r' \<noteq> None))))"

definition receipt_of :: "'v json_codec \<Rightarrow> 'v message \<Rightarrow> 'v dedup_record \<Rightarrow> bool" where
  "receipt_of cx m r \<longleftrightarrow>
    (\<exists>f. DecodePrivateSendSnapshot cx (pd_senderSnapshot r) = Inr f \<and> msg_UID f = msg_UID m \<and> msg_ID f = msg_ID m \<and>
         msg_RandomID f = msg_RandomID m \<and> msg_Pts f = msg_Pts m)"

definition receipt_added :: "'v json_codec \<Rightarrow> 'v message_store \<Rightarrow> 'v message_store \<Rightarrow> 'v message \<Rightarrow> bool" where
  "receipt_added cx s s' m \<longleftrightarrow>
    ms_dedup s' = ms_dedup s \<or>
    (\<exists>r. msg_RandomID m \<noteq> 0 \<and> msg_From m = user_peer (msg_OwnerUserID m) \<and>
         ms_dedup s (msg_OwnerUserID m, msg_RandomID m) = None \<and>
         ms_dedup s' = (ms_dedup s)((msg_OwnerUserID m, msg_RandomID m) \<mapsto> r) \<and> receipt_of cx m r)"

inductive box_step :: "'v json_codec \<Rightarrow> bool \<Rightarrow> 'v message_store \<Rightarrow> 'v message_store \<Rightarrow> bool" for cx clr where
  box_post:
    "msg_ID m = ms_nextBox s u + 1 \<Longrightarrow> msg_UID m = ms_nextUID s \<Longrightarrow> msg_OwnerUserID m = u \<Longrightarrow>
     ms_m s' = (ms_m s)(u := ms_m s u @ [m]) \<Longrightarrow> ms_nextBox s' = (ms_nextBox s)(u := ms_nextBox s u + 1) \<Longrightarrow>
     ms_nextUID s' = ms_nextUID s + 1 \<Longrightarrow> receipt_added cx s s' m \<Longrightarrow> box_step cx clr s s'"
| box_deliver:
    "u \<noteq> v \<Longrightarrow> msg_ID m = ms_nextBox s u + 1 \<Longrightarrow> msg_UID m = ms_nextUID s \<Longrightarrow> msg_OwnerUserID m = u \<Longrightarrow>
     msg_ID n = ms_nextBox s v + 1 \<Longrightarrow> msg_UID n = ms_nextUID s \<Longrightarrow> msg_OwnerUserID n = v \<Longrightarrow>
     msg_Peer m = user_peer v \<Longrightarrow> msg_Peer n = user_peer u \<Longrightarrow> msg_Date n = msg_Date m \<Longrightarrow>
     msg_From n = msg_From m \<Longrightarrow> content n = content m \<Longrightarrow>
     ms_m s' = (ms_m s)(u := ms_m s u @ [m], v := ms_m s v @ [n]) \<Longrightarrow>
     ms_nextBox s' = (ms_nextBox s)(u := ms_nextBox s u + 1, v := ms_nextBox s v + 1) \<Longrightarrow>
     ms_nextUID s' = ms_nextUID s + 1 \<Longrightarrow> receipt_added cx s s' m \<Longrightarrow> box_step cx clr s s'"
| box_drop:
    "(\<And>u. ms_m s' u = filter (P u) (ms_m s u)) \<Longrightarrow> ms_nextBox s' = ms_nextBox s \<Longrightarrow>
     ms_nextUID s' = ms_nextUID s \<Longrightarrow> receipts_grow (ms_dedup s) (ms_dedup s') \<Longrightarrow>
     (\<And>u m r. m \<in> set (ms_m s u) \<Longrightarrow> \<not> P u m \<Longrightarrow> msg_From m = user_peer u \<Longrightarrow> msg_RandomID m \<noteq> 0 \<Longrightarrow>
        ms_dedup s' (u, msg_RandomID m) = Some r \<Longrightarrow> pd_senderDeleteEvent r \<noteq> None) \<Longrightarrow>
     box_step cx clr s s'"
| box_rewrite:
    "(\<And>u. list_all2 (\<lambda>m m'. ident m' = ident m \<and> content m' = c (msg_UID m) (msg_From m) (content m))
       (ms_m s u) (ms_m s' u)) \<Longrightarrow> ms_nextBox s' = ms_nextBox s \<Longrightarrow> ms_nextUID s' = ms_nextUID s \<Longrightarrow>
     ms_dedup s' = ms_dedup s \<Longrightarrow> box_step cx clr s s'"
| box_clear:
    "clr \<Longrightarrow> (\<And>u. list_all2 (\<lambda>m m'. slot m' = slot m) (ms_m s u) (ms_m s' u)) \<Longrightarrow>
     ms_nextBox s' = ms_nextBox s \<Longrightarrow> ms_nextUID s' = ms_nextUID s \<Longrightarrow> ms_dedup s' = ms_dedup s \<Longrightarrow>
     box_step cx clr s s'"

abbreviation box_steps :: "'v json_codec \<Rightarrow> bool \<Rightarrow> 'v message_store \<Rightarrow> 'v message_store \<Rightarrow> bool" where
  "box_steps cx clr \<equiv> (box_step cx clr)\<^sup>*\<^sup>*"

section \<open>Invariants of the steps\<close>

definition boxes_ordered :: "'v message_store \<Rightarrow> bool" where
  "boxes_ordered s \<longleftrightarrow> 1 \<le> ms_nextUID s \<and>
    (\<forall>u. 0 \<le> ms_nextBox s u \<and>
         sorted_wrt (\<lambda>a b. msg_ID a < msg_ID b \<and> msg_UID a < msg_UID b) (ms_m s u) \<and>
         (\<forall>m\<in>set (ms_m s u). 1 \<le> msg_ID m \<and> msg_ID m \<le> ms_nextBox s u \<and>
            1 \<le> msg_UID m \<and> msg_UID m < ms_nextUID s \<and> msg_OwnerUserID m = u))"

text \<open>A relation between the two copies of every shared message.\<close>

definition copies_rel :: "(int \<Rightarrow> int \<Rightarrow> 'v message \<Rightarrow> 'v message \<Rightarrow> bool) \<Rightarrow> 'v message_store \<Rightarrow> bool" where
  "copies_rel Q s \<longleftrightarrow>
    (\<forall>u v m n. u \<noteq> v \<longrightarrow> m \<in> set (ms_m s u) \<longrightarrow> n \<in> set (ms_m s v) \<longrightarrow> msg_UID m = msg_UID n \<longrightarrow> Q u v m n)"

definition copies_paired :: "'v message_store \<Rightarrow> bool" where
  "copies_paired = copies_rel (\<lambda>u v m n.
     msg_Peer m = user_peer v \<and> msg_Peer n = user_peer u \<and> msg_Date m = msg_Date n)"

definition copies_agree :: "'v message_store \<Rightarrow> bool" where
  "copies_agree = copies_rel (\<lambda>u v m n. msg_From m = msg_From n \<and> content m = content n)"

definition receipts_sound :: "'v json_codec \<Rightarrow> 'v message_store \<Rightarrow> bool" where
  "receipts_sound cx s \<longleftrightarrow>
    (\<forall>u rid r. ms_dedup s (u, rid) = Some r \<longrightarrow> rid \<noteq> 0 \<and>
       (\<exists>f. DecodePrivateSendSnapshot cx (pd_senderSnapshot r) = Inr f \<and>
            (pd_senderDeleteEvent r \<noteq> None \<or>
             (\<exists>m\<in>set (ms_m s u). msg_UID m = msg_UID f \<and> msg_ID m = msg_ID f \<and>
                msg_RandomID m = rid \<and> msg_From m = user_peer u))))"

lemma list_all2_source: "list_all2 R xs ys \<Longrightarrow> y \<in> set ys \<Longrightarrow> \<exists>x\<in>set xs. R x y"
  by (induction rule: list_all2_induct) auto

lemma list_all2_target: "list_all2 R xs ys \<Longrightarrow> x \<in> set xs \<Longrightarrow> \<exists>y\<in>set ys. R x y"
  by (induction rule: list_all2_induct) auto

lemma sorted_wrt_transfer:
  assumes "list_all2 R xs ys" and "sorted_wrt Q xs"
    and "\<And>x x' y y'. R x y \<Longrightarrow> R x' y' \<Longrightarrow> Q x x' \<Longrightarrow> Q y y'"
  shows "sorted_wrt Q ys"
  using assms(1,2)
proof (induction rule: list_all2_induct)
  case (Cons x xs y ys)
  then show ?case using assms(3) by (auto dest: list_all2_source)
qed simp

lemma slot_eq: "slot m' = slot m \<longleftrightarrow> msg_ID m' = msg_ID m \<and> msg_UID m' = msg_UID m \<and>
  msg_OwnerUserID m' = msg_OwnerUserID m \<and> msg_Peer m' = msg_Peer m \<and> msg_Date m' = msg_Date m"
  by (auto simp: slot_def)

lemma ident_eq: "ident m' = ident m \<longleftrightarrow> slot m' = slot m \<and> msg_RandomID m' = msg_RandomID m \<and> msg_From m' = msg_From m \<and> msg_Out m' = msg_Out m"
  by (auto simp: ident_def)

lemma boxes_ordered_transfer:
  fixes s s' :: "'v message_store"
  assumes "boxes_ordered s" and sl: "\<And>u. list_all2 (\<lambda>m m'. slot m' = slot m) (ms_m s u) (ms_m s' u)"
    and "ms_nextBox s' = ms_nextBox s" "ms_nextUID s' = ms_nextUID s"
  shows "boxes_ordered s'"
  unfolding boxes_ordered_def
proof (intro conjI allI ballI)
  fix u
  show "sorted_wrt (\<lambda>a b. msg_ID a < msg_ID b \<and> msg_UID a < msg_UID b) (ms_m s' u)"
    by (rule sorted_wrt_transfer[OF sl]) (use assms(1) in \<open>simp_all add: boxes_ordered_def slot_eq\<close>)
  fix m' assume "m' \<in> set (ms_m s' u)"
  then obtain m where m: "m \<in> set (ms_m s u)" "slot m' = slot m" using list_all2_source[OF sl] by blast
  with assms(1) have "1 \<le> msg_ID m \<and> msg_ID m \<le> ms_nextBox s u \<and> 1 \<le> msg_UID m \<and>
      msg_UID m < ms_nextUID s \<and> msg_OwnerUserID m = u" by (simp add: boxes_ordered_def)
  with m(2) assms(3,4) show "1 \<le> msg_ID m'" "msg_ID m' \<le> ms_nextBox s' u" "1 \<le> msg_UID m'"
    "msg_UID m' < ms_nextUID s'" "msg_OwnerUserID m' = u" by (simp_all add: slot_eq)
qed (use assms in \<open>simp_all add: boxes_ordered_def\<close>)

text \<open>New messages carry the next shared id.\<close>

lemma boxes_ordered_append:
  assumes "boxes_ordered s" and "\<And>u. ms_m s' u = ms_m s u @ add u"
    and "\<And>u. add u = [] \<and> ms_nextBox s' u = ms_nextBox s u \<or>
      (\<exists>m. add u = [m] \<and> msg_ID m = ms_nextBox s u + 1 \<and> ms_nextBox s' u = ms_nextBox s u + 1 \<and>
           msg_UID m = ms_nextUID s \<and> msg_OwnerUserID m = u)"
    and "ms_nextUID s' = ms_nextUID s + 1"
  shows "boxes_ordered s'"
  unfolding boxes_ordered_def
proof (intro conjI allI)
  fix u
  have o: "0 \<le> ms_nextBox s u" "sorted_wrt (\<lambda>a b. msg_ID a < msg_ID b \<and> msg_UID a < msg_UID b) (ms_m s u)"
    "\<forall>m\<in>set (ms_m s u). 1 \<le> msg_ID m \<and> msg_ID m \<le> ms_nextBox s u \<and> 1 \<le> msg_UID m \<and>
      msg_UID m < ms_nextUID s \<and> msg_OwnerUserID m = u" and i: "1 \<le> ms_nextUID s"
    using assms(1) by (simp_all add: boxes_ordered_def)
  show "0 \<le> ms_nextBox s' u" using assms(3)[of u] o(1) by auto
  show "sorted_wrt (\<lambda>a b. msg_ID a < msg_ID b \<and> msg_UID a < msg_UID b) (ms_m s' u)"
    using assms(3)[of u] o(2,3) by (auto simp: assms(2) sorted_wrt_append)
  show "\<forall>m\<in>set (ms_m s' u). 1 \<le> msg_ID m \<and> msg_ID m \<le> ms_nextBox s' u \<and> 1 \<le> msg_UID m \<and>
      msg_UID m < ms_nextUID s' \<and> msg_OwnerUserID m = u"
    using assms(3)[of u] o(1,3) i by (auto simp: assms(2,4))
qed (use assms in \<open>simp add: boxes_ordered_def\<close>)

lemma copies_rel_append:
  assumes "boxes_ordered s" and "copies_rel Q s" and "\<And>u. ms_m s' u = ms_m s u @ add u"
    and "\<And>u m. m \<in> set (add u) \<Longrightarrow> msg_UID m = ms_nextUID s"
    and "\<And>u v m n. u \<noteq> v \<Longrightarrow> m \<in> set (add u) \<Longrightarrow> n \<in> set (add v) \<Longrightarrow> Q u v m n"
  shows "copies_rel Q s'"
  unfolding copies_rel_def
proof (intro allI impI)
  fix u v m n assume h: "u \<noteq> v" "m \<in> set (ms_m s' u)" "n \<in> set (ms_m s' v)" "msg_UID m = msg_UID n"
  have old: "msg_UID x < ms_nextUID s" if "x \<in> set (ms_m s w)" for x w
    using assms(1) that by (simp add: boxes_ordered_def)
  from h(2,3) consider "m \<in> set (ms_m s u)" "n \<in> set (ms_m s v)" | "m \<in> set (add u)" "n \<in> set (add v)"
    | "m \<in> set (ms_m s u)" "n \<in> set (add v)" | "m \<in> set (add u)" "n \<in> set (ms_m s v)"
    by (auto simp: assms(3))
  then show "Q u v m n"
  proof cases
    case 1
    with h assms(2) show ?thesis by (simp add: copies_rel_def)
  next
    case 2
    with h(1) show ?thesis by (rule assms(5))
  qed (use h(4) old assms(4) in fastforce)+
qed

lemma copies_rel_source:
  assumes "copies_rel Q s" and r: "\<And>u. list_all2 R (ms_m s u) (ms_m s' u)"
    and "\<And>m m'. R m m' \<Longrightarrow> msg_UID m' = msg_UID m"
    and "\<And>u v m n m' n'. R m m' \<Longrightarrow> R n n' \<Longrightarrow> msg_UID m = msg_UID n \<Longrightarrow> Q u v m n \<Longrightarrow> Q u v m' n'"
  shows "copies_rel Q s'"
  unfolding copies_rel_def
proof (intro allI impI)
  fix u v m' n' assume h: "u \<noteq> v" "m' \<in> set (ms_m s' u)" "n' \<in> set (ms_m s' v)" "msg_UID m' = msg_UID n'"
  from list_all2_source[OF r h(2)] list_all2_source[OF r h(3)]
  obtain m n where "m \<in> set (ms_m s u)" "R m m'" "n \<in> set (ms_m s v)" "R n n'" by blast
  moreover from this h(4) have "msg_UID m = msg_UID n" using assms(3) by metis
  ultimately show "Q u v m' n'" using h(1) assms(1,4) unfolding copies_rel_def by blast
qed

lemma copies_rel_sub:
  "copies_rel Q s \<Longrightarrow> (\<And>u. set (ms_m s' u) \<subseteq> set (ms_m s u)) \<Longrightarrow> copies_rel Q s'"
  unfolding copies_rel_def by blast

text \<open>The slots of the messages of a box under the rewriting steps.\<close>

lemma rewrite_slots:
  "list_all2 (\<lambda>m m'. ident m' = ident m \<and> content m' = c (msg_UID m) (msg_From m) (content m)) xs ys \<Longrightarrow>
   list_all2 (\<lambda>m m'. slot m' = slot m) xs ys"
  by (erule list_all2_mono) (simp add: ident_eq)

lemma boxes_ordered_step:
  assumes "box_step cx clr s s'" and "boxes_ordered s"
  shows "boxes_ordered s'"
  using assms(1)
proof (cases rule: box_step.cases)
  case (box_post m u)
  then show ?thesis
    by (intro boxes_ordered_append[OF assms(2), of _ "\<lambda>w. if w = u then [m] else []"]) auto
next
  case (box_deliver u v m n)
  then show ?thesis
    by (intro boxes_ordered_append[OF assms(2), of _ "\<lambda>w. if w = u then [m] else if w = v then [n] else []"]) auto
next
  case (box_drop P)
  then show ?thesis using assms(2) by (auto simp: boxes_ordered_def intro: sorted_wrt_filter)
next
  case (box_rewrite c)
  then show ?thesis by (intro boxes_ordered_transfer[OF assms(2)]) (auto intro: rewrite_slots)
next
  case box_clear
  then show ?thesis by (intro boxes_ordered_transfer[OF assms(2)])
qed

lemma copies_paired_step:
  assumes "box_step cx clr s s'" and "boxes_ordered s" and "copies_paired s"
  shows "copies_paired s'"
  using assms(1)
proof (cases rule: box_step.cases)
  case (box_post m u)
  then show ?thesis unfolding copies_paired_def
    by (intro copies_rel_append[OF assms(2) assms(3)[unfolded copies_paired_def], of _ "\<lambda>w. if w = u then [m] else []"])
      (auto split: if_splits)
next
  case (box_deliver u v m n)
  then show ?thesis unfolding copies_paired_def
    by (intro copies_rel_append[OF assms(2) assms(3)[unfolded copies_paired_def], of _
          "\<lambda>w. if w = u then [m] else if w = v then [n] else []"]) (auto split: if_splits)
next
  case (box_drop P)
  then show ?thesis unfolding copies_paired_def
    by (intro copies_rel_sub[OF assms(3)[unfolded copies_paired_def]]) auto
next
  case (box_rewrite c)
  then show ?thesis unfolding copies_paired_def
    by (intro copies_rel_source[OF assms(3)[unfolded copies_paired_def] rewrite_slots[OF box_rewrite(1)]])
      (auto simp: slot_eq)
next
  case box_clear
  then show ?thesis unfolding copies_paired_def
    by (intro copies_rel_source[OF assms(3)[unfolded copies_paired_def] box_clear(2)]) (auto simp: slot_eq)
qed

lemma copies_agree_step:
  assumes "box_step cx False s s'" and "boxes_ordered s" and "copies_agree s"
  shows "copies_agree s'"
  using assms(1)
proof (cases rule: box_step.cases)
  case (box_post m u)
  then show ?thesis unfolding copies_agree_def
    by (intro copies_rel_append[OF assms(2) assms(3)[unfolded copies_agree_def], of _ "\<lambda>w. if w = u then [m] else []"])
      (auto split: if_splits)
next
  case (box_deliver u v m n)
  then show ?thesis unfolding copies_agree_def
    by (intro copies_rel_append[OF assms(2) assms(3)[unfolded copies_agree_def], of _
          "\<lambda>w. if w = u then [m] else if w = v then [n] else []"]) (auto split: if_splits)
next
  case (box_drop P)
  then show ?thesis unfolding copies_agree_def
    by (intro copies_rel_sub[OF assms(3)[unfolded copies_agree_def]]) auto
next
  case (box_rewrite c)
  then show ?thesis unfolding copies_agree_def
    by (intro copies_rel_source[OF assms(3)[unfolded copies_agree_def] box_rewrite(1)])
      (auto simp: ident_eq slot_eq)
qed simp

section \<open>Send receipts under the steps\<close>

definition receipts_kept :: "(int \<times> int \<rightharpoonup> 'v dedup_record) \<Rightarrow> (int \<times> int \<rightharpoonup> 'v dedup_record) \<Rightarrow> bool" where
  "receipts_kept d d' \<longleftrightarrow> (\<forall>k r. d k = Some r \<longrightarrow> (\<exists>r'. d' k = Some r' \<and> same_receipt r r'))"

lemma same_receipt_refl [simp]: "same_receipt r r"
  by (simp add: same_receipt_def)

lemma same_receipt_trans: "same_receipt r r' \<Longrightarrow> same_receipt r' r'' \<Longrightarrow> same_receipt r r''"
  by (simp add: same_receipt_def)

lemma receipts_kept_refl [simp]: "receipts_kept d d"
  by (simp add: receipts_kept_def)

lemma receipts_kept_trans: "receipts_kept d d' \<Longrightarrow> receipts_kept d' d'' \<Longrightarrow> receipts_kept d d''"
  unfolding receipts_kept_def by (meson same_receipt_trans)

lemma receipts_grow_refl [simp]: "receipts_grow d d"
  by (simp add: receipts_grow_def)

lemma receipts_grow_trans: "receipts_grow d d' \<Longrightarrow> receipts_grow d' d'' \<Longrightarrow> receipts_grow d d''"
  unfolding receipts_grow_def by (meson same_receipt_trans)

lemma receipts_grow_kept: "receipts_grow d d' \<Longrightarrow> receipts_kept d d'"
  unfolding receipts_grow_def receipts_kept_def by blast

lemma receipts_grow_source:
  assumes "receipts_grow d d'" and "d' k = Some r'"
  obtains r where "d k = Some r" and "same_receipt r r'"
    and "pd_senderDeleteEvent r \<noteq> None \<longrightarrow> pd_senderDeleteEvent r' \<noteq> None"
proof -
  from assms have "d k \<noteq> None" unfolding receipts_grow_def by fastforce
  then obtain r where "d k = Some r" by blast
  moreover from this assms(1) obtain q where "d' k = Some q" "same_receipt r q"
    "pd_senderDeleteEvent r \<noteq> None \<longrightarrow> pd_senderDeleteEvent q \<noteq> None" unfolding receipts_grow_def by blast
  ultimately show thesis using assms(2) that[of r] by simp
qed

lemma receipt_added_kept: "receipt_added cx s s' m \<Longrightarrow> receipts_kept (ms_dedup s) (ms_dedup s')"
  by (auto simp: receipt_added_def receipts_kept_def)

lemma box_step_receipts: "box_step cx clr s s' \<Longrightarrow> receipts_kept (ms_dedup s) (ms_dedup s')"
  by (erule box_step.cases) (auto intro: receipt_added_kept receipts_grow_kept)

lemma box_steps_receipts: "box_steps cx clr s s' \<Longrightarrow> receipts_kept (ms_dedup s) (ms_dedup s')"
  by (induction rule: rtranclp_induct) (auto intro: receipts_kept_trans box_step_receipts)

text \<open>A receipt stays sound when its message stays in place.\<close>

lemma receipts_sound_keep:
  assumes "receipts_sound cx s" and d: "ms_dedup s' = ms_dedup s"
    and keep: "\<And>u m. m \<in> set (ms_m s u) \<Longrightarrow> \<exists>m'\<in>set (ms_m s' u). ident m' = ident m"
  shows "receipts_sound cx s'"
  unfolding receipts_sound_def
proof (intro allI impI)
  fix u rid r assume "ms_dedup s' (u, rid) = Some r"
  with assms(1) d obtain f where rid: "rid \<noteq> 0" and f: "DecodePrivateSendSnapshot cx (pd_senderSnapshot r) = Inr f"
    and c: "pd_senderDeleteEvent r \<noteq> None \<or> (\<exists>m\<in>set (ms_m s u). msg_UID m = msg_UID f \<and> msg_ID m = msg_ID f \<and>
      msg_RandomID m = rid \<and> msg_From m = user_peer u)"
    unfolding receipts_sound_def by metis
  from c have "pd_senderDeleteEvent r \<noteq> None \<or> (\<exists>m\<in>set (ms_m s' u). msg_UID m = msg_UID f \<and> msg_ID m = msg_ID f \<and>
      msg_RandomID m = rid \<and> msg_From m = user_peer u)"
    using keep by (fastforce simp: ident_eq slot_eq)
  with rid f show "rid \<noteq> 0 \<and> (\<exists>f. DecodePrivateSendSnapshot cx (pd_senderSnapshot r) = Inr f \<and>
      (pd_senderDeleteEvent r \<noteq> None \<or> (\<exists>m\<in>set (ms_m s' u). msg_UID m = msg_UID f \<and> msg_ID m = msg_ID f \<and>
        msg_RandomID m = rid \<and> msg_From m = user_peer u)))" by blast
qed

lemma receipts_sound_add:
  assumes "receipts_sound cx s" and "receipt_added cx s s' m" and "m \<in> set (ms_m s' (msg_OwnerUserID m))"
    and sub: "\<And>u. set (ms_m s u) \<subseteq> set (ms_m s' u)"
  shows "receipts_sound cx s'"
  using assms(2) unfolding receipt_added_def
proof
  assume "ms_dedup s' = ms_dedup s"
  then show ?thesis
  proof (rule receipts_sound_keep[OF assms(1)])
    fix u x assume "x \<in> set (ms_m s u)"
    with sub[of u] show "\<exists>m'\<in>set (ms_m s' u). ident m' = ident x" by blast
  qed
next
  assume "\<exists>r. msg_RandomID m \<noteq> 0 \<and> msg_From m = user_peer (msg_OwnerUserID m) \<and>
         ms_dedup s (msg_OwnerUserID m, msg_RandomID m) = None \<and>
         ms_dedup s' = (ms_dedup s)((msg_OwnerUserID m, msg_RandomID m) \<mapsto> r) \<and> receipt_of cx m r"
  then obtain r where n: "msg_RandomID m \<noteq> 0" "msg_From m = user_peer (msg_OwnerUserID m)"
    and d: "ms_dedup s' = (ms_dedup s)((msg_OwnerUserID m, msg_RandomID m) \<mapsto> r)" and f: "receipt_of cx m r"
    by blast
  show ?thesis unfolding receipts_sound_def
  proof (intro allI impI)
    fix u rid q assume q: "ms_dedup s' (u, rid) = Some q"
    show "rid \<noteq> 0 \<and> (\<exists>f. DecodePrivateSendSnapshot cx (pd_senderSnapshot q) = Inr f \<and>
      (pd_senderDeleteEvent q \<noteq> None \<or> (\<exists>m\<in>set (ms_m s' u). msg_UID m = msg_UID f \<and> msg_ID m = msg_ID f \<and>
        msg_RandomID m = rid \<and> msg_From m = user_peer u)))"
    proof (cases "(u, rid) = (msg_OwnerUserID m, msg_RandomID m)")
      case True
      with q d n f assms(3) show ?thesis by (auto simp: receipt_of_def)
    next
      case False
      with q d have o: "ms_dedup s (u, rid) = Some q" by auto
      have "set (ms_m s u) \<subseteq> set (ms_m s' u)" by (rule sub)
      with assms(1)[unfolded receipts_sound_def, rule_format, OF o] show ?thesis by blast
    qed
  qed
qed

lemma receipts_sound_drop:
  assumes "receipts_sound cx s" and m: "\<And>u. ms_m s' u = filter (P u) (ms_m s u)"
    and g: "receipts_grow (ms_dedup s) (ms_dedup s')"
    and del: "\<And>u m r. m \<in> set (ms_m s u) \<Longrightarrow> \<not> P u m \<Longrightarrow> msg_From m = user_peer u \<Longrightarrow> msg_RandomID m \<noteq> 0 \<Longrightarrow>
        ms_dedup s' (u, msg_RandomID m) = Some r \<Longrightarrow> pd_senderDeleteEvent r \<noteq> None"
  shows "receipts_sound cx s'"
  unfolding receipts_sound_def
proof (intro allI impI)
  fix u rid r' assume r': "ms_dedup s' (u, rid) = Some r'"
  obtain r where r: "ms_dedup s (u, rid) = Some r" "same_receipt r r'"
    and mono: "pd_senderDeleteEvent r \<noteq> None \<longrightarrow> pd_senderDeleteEvent r' \<noteq> None"
    using receipts_grow_source[OF g r'] by metis
  have snap: "pd_senderSnapshot r' = pd_senderSnapshot r" using r(2) by (simp add: same_receipt_def)
  from assms(1) r(1) obtain f where rid: "rid \<noteq> 0" and f: "DecodePrivateSendSnapshot cx (pd_senderSnapshot r) = Inr f"
    and c: "pd_senderDeleteEvent r \<noteq> None \<or> (\<exists>m\<in>set (ms_m s u). msg_UID m = msg_UID f \<and> msg_ID m = msg_ID f \<and>
      msg_RandomID m = rid \<and> msg_From m = user_peer u)"
    unfolding receipts_sound_def by metis
  from c have "pd_senderDeleteEvent r' \<noteq> None \<or> (\<exists>m\<in>set (ms_m s' u). msg_UID m = msg_UID f \<and> msg_ID m = msg_ID f \<and>
      msg_RandomID m = rid \<and> msg_From m = user_peer u)"
  proof
    assume "\<exists>m\<in>set (ms_m s u). msg_UID m = msg_UID f \<and> msg_ID m = msg_ID f \<and> msg_RandomID m = rid \<and> msg_From m = user_peer u"
    then obtain x where x: "x \<in> set (ms_m s u)" "msg_UID x = msg_UID f" "msg_ID x = msg_ID f" "msg_RandomID x = rid"
      "msg_From x = user_peer u" by blast
    show ?thesis
    proof (cases "P u x")
      case True
      with x m show ?thesis by auto
    next
      case False
      with x rid r' show ?thesis using del by blast
    qed
  qed (use mono in blast)
  with rid f snap show "rid \<noteq> 0 \<and> (\<exists>f. DecodePrivateSendSnapshot cx (pd_senderSnapshot r') = Inr f \<and>
      (pd_senderDeleteEvent r' \<noteq> None \<or> (\<exists>m\<in>set (ms_m s' u). msg_UID m = msg_UID f \<and> msg_ID m = msg_ID f \<and>
        msg_RandomID m = rid \<and> msg_From m = user_peer u)))" by metis
qed

lemma receipts_sound_step:
  assumes "box_step cx False s s'" and "receipts_sound cx s"
  shows "receipts_sound cx s'"
  using assms(1)
proof (cases rule: box_step.cases)
  case (box_post m u)
  then show ?thesis by (intro receipts_sound_add[OF assms(2)]) auto
next
  case (box_deliver u v m n)
  then show ?thesis by (intro receipts_sound_add[OF assms(2)]) auto
next
  case (box_drop P)
  then show ?thesis by (intro receipts_sound_drop[OF assms(2)])
next
  case (box_rewrite c)
  then show ?thesis by (intro receipts_sound_keep[OF assms(2)]) (auto dest: list_all2_target[OF box_rewrite(1)])
qed simp

end
