(* ===== verification/Message_Steps.thy ===== *)
theory Message_Steps
  imports Message_Invariants
begin

text \<open>
  The operations of the message store that post, forward, pin, protect and mark as read, each as steps of
  the boxes. Edits, deletions and the simulation of whole runs are in \<open>Message_Runs\<close>.
\<close>

section \<open>The encoder\<close>

text \<open>
  What the store relies on: a digest has 32 bytes, and a decoded envelope has the version and the ids
  that were encoded, with the external part of its reply.
\<close>

definition json_codec_ok :: "'v json_codec \<Rightarrow> bool" where
  "json_codec_ok cx \<longleftrightarrow>
    (\<forall>p. length (js_sha256 cx p) = sha256_Size) \<and>
    (\<forall>v m raw. js_envelope cx v m = Some raw \<longrightarrow>
       (\<exists>m'. js_read_envelope cx raw = Some (v, m') \<and> msg_ID m' = msg_ID m \<and> msg_UID m' = msg_UID m \<and>
          msg_RandomID m' = msg_RandomID m \<and> msg_OwnerUserID m' = msg_OwnerUserID m \<and> msg_Pts m' = msg_Pts m \<and>
          map_option rp_External (msg_ReplyTo m') = map_option rp_External (msg_ReplyTo m)))"

lemma snapshot_external_cong:
  "map_option rp_External (msg_ReplyTo m') = map_option rp_External (msg_ReplyTo m) \<Longrightarrow>
   snapshot_external cx m' = snapshot_external cx m"
  by (auto simp: snapshot_external_def split: option.splits)

lemma snapshot_roundtrip:
  assumes "json_codec_ok cx" and "EncodePrivateSendSnapshot cx m = Inr raw"
  obtains f where "DecodePrivateSendSnapshot cx raw = Inr f" and "msg_ID f = msg_ID m" and "msg_UID f = msg_UID m"
    and "msg_RandomID f = msg_RandomID m" and "msg_Pts f = msg_Pts m" and "msg_OwnerUserID f = msg_OwnerUserID m"
proof -
  from assms(2) have v: "snapshot_valid m" "snapshot_external cx m = None"
    and raw: "js_envelope cx sendSnapshotVersion m = Some raw"
    by (auto simp: EncodePrivateSendSnapshot_def split: if_splits option.splits)
  from assms(1) raw obtain f where f: "js_read_envelope cx raw = Some (sendSnapshotVersion, f)" "msg_ID f = msg_ID m"
    "msg_UID f = msg_UID m" "msg_RandomID f = msg_RandomID m" "msg_OwnerUserID f = msg_OwnerUserID m"
    "msg_Pts f = msg_Pts m" "map_option rp_External (msg_ReplyTo f) = map_option rp_External (msg_ReplyTo m)"
    unfolding json_codec_ok_def by blast
  have "snapshot_valid f" using v(1) f by (simp add: snapshot_valid_def)
  moreover have "snapshot_external cx f = None" using v(2) f(7) snapshot_external_cong by metis
  ultimately have "DecodePrivateSendSnapshot cx raw = Inr f" using f(1) by (simp add: DecodePrivateSendSnapshot_def)
  with f that show thesis by blast
qed

section \<open>Steps that leave the boxes alone\<close>

definition same_boxes :: "'v message_store \<Rightarrow> 'v message_store \<Rightarrow> bool" where
  "same_boxes s s' \<longleftrightarrow> ms_m s' = ms_m s \<and> ms_nextBox s' = ms_nextBox s \<and> ms_nextUID s' = ms_nextUID s \<and> ms_dedup s' = ms_dedup s"

lemma same_boxes_refl [simp]: "same_boxes s s"
  by (simp add: same_boxes_def)

lemma same_boxes_trans: "same_boxes s s' \<Longrightarrow> same_boxes s' s'' \<Longrightarrow> same_boxes s s''"
  by (simp add: same_boxes_def)

lemma list_all2_refl_on: "(\<And>x. x \<in> set xs \<Longrightarrow> R x x) \<Longrightarrow> list_all2 R xs xs"
  by (induction xs) auto

lemma same_boxes_step: "same_boxes s s' \<Longrightarrow> box_steps cx clr s s'"
  by (intro r_into_rtranclp box_rewrite[where c = "\<lambda>_ _ x. x"]) (auto simp: same_boxes_def intro: list_all2_refl_on)

text \<open>Changes of flags that neither identify a message nor are its content.\<close>

definition flags_only :: "'v message_store \<Rightarrow> 'v message_store \<Rightarrow> bool" where
  "flags_only s s' \<longleftrightarrow>
    (\<forall>u. list_all2 (\<lambda>m m'. ident m' = ident m \<and> content m' = content m) (ms_m s u) (ms_m s' u)) \<and>
    ms_nextBox s' = ms_nextBox s \<and> ms_nextUID s' = ms_nextUID s \<and> ms_dedup s' = ms_dedup s"

lemma flags_only_refl [simp]: "flags_only s s"
  by (simp add: flags_only_def list_all2_refl_on)

lemma flags_only_trans:
  assumes "flags_only s s'" and "flags_only s' s''" shows "flags_only s s''"
proof -
  have "list_all2 (\<lambda>m m'. ident m' = ident m \<and> content m' = content m) (ms_m s u) (ms_m s'' u)" for u
    by (rule list_all2_trans[OF _ assms(1)[unfolded flags_only_def, THEN conjunct1, rule_format]
          assms(2)[unfolded flags_only_def, THEN conjunct1, rule_format]]) auto
  with assms show ?thesis by (simp add: flags_only_def)
qed

lemma same_boxes_flags: "same_boxes s s' \<Longrightarrow> flags_only s s'"
  by (simp add: flags_only_def same_boxes_def list_all2_refl_on)

lemma flags_only_step: "flags_only s s' \<Longrightarrow> box_steps cx clr s s'"
  by (intro r_into_rtranclp box_rewrite[where c = "\<lambda>_ _ x. x"]) (auto simp: flags_only_def)

section \<open>Creating and sending\<close>

lemma Create_step: "box_steps cx clr s (snd (Create sys s m))"
proof -
  let ?s' = "snd (Create sys s m)"
  let ?m = "m\<lparr>msg_ID := ms_nextBox s (msg_OwnerUserID m) + 1, msg_UID := ms_nextUID s\<rparr>"
  have "ms_m ?s' = (ms_m s)(msg_OwnerUserID m := ms_m s (msg_OwnerUserID m) @ [?m])"
    "ms_nextBox ?s' = (ms_nextBox s)(msg_OwnerUserID m := ms_nextBox s (msg_OwnerUserID m) + 1)"
    "ms_nextUID ?s' = ms_nextUID s + 1" "ms_dedup ?s' = ms_dedup s"
    by (auto simp: Create_def nextBoxIDLocked_def Let_def split: option.split)
  then show ?thesis
    by (intro r_into_rtranclp box_post[of ?m s "msg_OwnerUserID m"]) (auto simp: receipt_added_def)
qed

lemma lookup_none:
  "lookupPrivateSendReplayLocked cx s req = Inr None \<longleftrightarrow> ms_dedup s (rr_SenderUserID req, rr_RandomID req) = None"
  by (auto simp: lookupPrivateSendReplayLocked_def Let_def split: option.splits sum.splits if_splits)

lemma sender_message_fields [simp]:
  "msg_ID (sender_message s req date pts reply) = ms_nextBox s (sr_SenderUserID req) + 1"
  "msg_UID (sender_message s req date pts reply) = ms_nextUID s"
  "msg_RandomID (sender_message s req date pts reply) = sr_RandomID req"
  "msg_OwnerUserID (sender_message s req date pts reply) = sr_SenderUserID req"
  "msg_Peer (sender_message s req date pts reply) = user_peer (sr_RecipientUserID req)"
  "msg_From (sender_message s req date pts reply) = user_peer (sr_SenderUserID req)"
  "msg_Date (sender_message s req date pts reply) = date"
  "msg_Pts (sender_message s req date pts reply) = pts"
  "msg_Out (sender_message s req date pts reply)"
  by (simp_all add: sender_message_def)

lemma commit_send_step:
  fixes s1 :: "'v message_store"
  assumes sender: "sender = sender_message s req date pts reply" and recip: "recipient = recipient_message s req sender pts' reply'"
    and s1: "ms_nextBox s1 = ms_nextBox s" "ms_nextUID s1 = ms_nextUID s" "ms_dedup s1 = ms_dedup s"
    and pos: "0 \<le> ms_nextBox s (sr_SenderUserID req)" "0 \<le> ms_nextBox s (sr_RecipientUserID req)"
    and free: "ms_dedup s (sr_SenderUserID req, sr_RandomID req) = None"
    and snap: "sr_RandomID req \<noteq> 0 \<longrightarrow> EncodePrivateSendSnapshot cx sender = Inr snapshot" and cx: "json_codec_ok cx"
  shows "box_step cx clr s1 (commit_send s1 events req fp al pe sender recipient snapshot)" (is "box_step cx clr s1 ?s'")
proof -
  let ?u = "sr_SenderUserID req" and ?v = "sr_RecipientUserID req"
  have rec: "receipt_added cx s1 ?s' sender"
  proof (cases "sr_RandomID req = 0")
    case True
    then show ?thesis by (simp add: receipt_added_def commit_send_def Let_def)
  next
    case False
    with snap obtain f where f: "DecodePrivateSendSnapshot cx snapshot = Inr f" "msg_ID f = msg_ID sender"
      "msg_UID f = msg_UID sender" "msg_RandomID f = msg_RandomID sender" "msg_Pts f = msg_Pts sender"
      using snapshot_roundtrip[OF cx] by metis
    let ?r = "\<lparr>pd_recipientUserID = ?v, pd_senderSnapshot = snapshot, pd_recipientMessage = immutablePrivateSendReceipt recipient,
      pd_fingerprint = fp, pd_senderDeleteEvent = None\<rparr>"
    have "receipt_of cx sender ?r" using f by (auto simp: receipt_of_def)
    then show ?thesis unfolding receipt_added_def using False free s1(3)
      by (intro disjI2 exI[of _ ?r]) (simp add: sender commit_send_def Let_def)
  qed
  show ?thesis
  proof (cases "delivers req")
    case True
    then show ?thesis using rec pos
      by (intro box_deliver[of ?u ?v sender s1 recipient])
        (simp_all add: sender recip s1 recipient_message_def delivers_def commit_send_def Let_def content_def sender_message_def)
  next
    case False
    then have "recipient = sender \<or> recipient = zero_message" by (simp add: recip recipient_message_def)
    then show ?thesis using rec pos False
      by (intro box_post[of sender s1 ?u]) (auto simp: sender s1 commit_send_def Let_def)
  qed
qed

definition stage_of :: "'v message_store \<Rightarrow> 'v event_store \<Rightarrow> 'v send_prefix option \<Rightarrow> 'v update_event list \<times> (int \<rightharpoonup> int)" where
  "stage_of s events prefix = (case prefix of None \<Rightarrow> ([], Map.empty) | Some (es, _) \<Rightarrow> stage_prefix s events Map.empty es)"

definition apply_of :: "'v send_prefix option \<Rightarrow> 'v update_event list \<Rightarrow> 'v message_store \<Rightarrow> 'v message_store" where
  "apply_of prefix es s = (case prefix of None \<Rightarrow> s | Some (_, f) \<Rightarrow> f es s)"

text \<open>A successful send is a replay, or a fresh send with staged pts.\<close>

lemma send_locked_cases:
  assumes "sendPrivateTextLocked cx now s req fp prefix = Inr (res, evs, s')"
  obtains
    (replay) "lookupPrivateSendReplayLocked cx s
        \<lparr>rr_SenderUserID = sr_SenderUserID req, rr_RecipientUserID = sr_RecipientUserID req,
         rr_RandomID = sr_RandomID req, rr_IdempotencyFingerprint = fp\<rparr> = Inr (Some res)" and "evs = []" and "s' = s"
  | (fresh) date sreply rreply events al spts rpts al' sender recipient snapshot where
      "ms_dedup s (sr_SenderUserID req, sr_RandomID req) = None" and "date = (if sr_Date req = 0 then now else sr_Date req)"
      and "resolveMemoryReplyLocked cx s req = Inr (sreply, rreply)" and "ms_events s = Some events"
      and "stage_of s events prefix = (evs, al)" and "spts = staged_pts s events al (sr_SenderUserID req)"
      and "rpts = staged_pts s events (al(sr_SenderUserID req \<mapsto> spts)) (sr_RecipientUserID req)"
      and "al' = (if delivers req then al(sr_SenderUserID req \<mapsto> spts, sr_RecipientUserID req \<mapsto> rpts)
                  else al(sr_SenderUserID req \<mapsto> spts))"
      and "sender = sender_message s req date spts sreply" and "recipient = recipient_message s req sender rpts rreply"
      and "(if sr_RandomID req \<noteq> 0 then EncodePrivateSendSnapshot cx sender else Inr []) = Inr snapshot"
      and "res = \<lparr>sn_SenderMessage = sender, sn_RecipientMessage = recipient, sn_SenderEvent = newMessageEvent sender,
             sn_RecipientEvent = newMessageEvent recipient, sn_Duplicate = False, sn_ReplayDeleteEvent = None\<rparr>"
      and "s' = commit_send (apply_of prefix evs s) events req fp al' evs sender recipient snapshot"
proof -
  let ?l = "lookupPrivateSendReplayLocked cx s
        \<lparr>rr_SenderUserID = sr_SenderUserID req, rr_RecipientUserID = sr_RecipientUserID req,
         rr_RandomID = sr_RandomID req, rr_IdempotencyFingerprint = fp\<rparr>"
  consider (e) e where "?l = Inl e" | (r) r where "?l = Inr (Some r)" | (n) "?l = Inr None"
    by (metis old.sum.exhaust option.exhaust)
  then show thesis
  proof cases
    case e
    with assms show thesis by (simp add: sendPrivateTextLocked_def)
  next
    case r
    with assms show thesis by (intro replay) (simp_all add: sendPrivateTextLocked_def)
  next
    case n
    then have free: "ms_dedup s (sr_SenderUserID req, sr_RandomID req) = None" by (simp add: lookup_none)
    note a = assms[unfolded sendPrivateTextLocked_def n, simplified, unfolded Let_def]
    from a obtain sreply rreply where rr: "resolveMemoryReplyLocked cx s req = Inr (sreply, rreply)"
      by (auto split: sum.splits)
    note a = a[unfolded rr, simplified]
    from a obtain events where ev: "ms_events s = Some events" by (auto split: option.splits)
    note a = a[unfolded ev, simplified, folded stage_of_def]
    obtain pe al where st: "stage_of s events prefix = (pe, al)" by fastforce
    note a = a[unfolded st, simplified]
    let ?date = "if sr_Date req = 0 then now else sr_Date req"
    let ?sp = "staged_pts s events al (sr_SenderUserID req)"
    let ?rp = "staged_pts s events (al(sr_SenderUserID req \<mapsto> ?sp)) (sr_RecipientUserID req)"
    let ?sm = "sender_message s req ?date ?sp sreply"
    from a obtain snapshot where sn: "(if sr_RandomID req \<noteq> 0 then EncodePrivateSendSnapshot cx ?sm else Inr []) = Inr snapshot"
      by (auto split: sum.splits if_splits)
    show thesis
      by (rule fresh[OF free refl rr ev _ refl refl refl refl refl sn])
        (use a st sn in \<open>auto simp: apply_of_def split: sum.splits if_splits\<close>)
  qed
qed

lemma send_locked_steps:
  assumes "sendPrivateTextLocked cx now s req fp prefix = Inr (res, evs, s')" and cx: "json_codec_ok cx"
    and ord: "boxes_ordered s" and p: "\<And>es. flags_only s (apply_of prefix es s)"
  shows "box_steps cx clr s s'"
  using assms(1)
proof (cases rule: send_locked_cases)
  case (fresh date sreply rreply events al spts rpts al' sender recipient snapshot)
  let ?s1 = "apply_of prefix evs s"
  have f: "flags_only s ?s1" by (rule p)
  have "box_step cx clr ?s1 s'" unfolding fresh(13)
    by (rule commit_send_step[OF fresh(9,10)])
      (use f fresh cx ord in \<open>auto simp: flags_only_def boxes_ordered_def split: if_splits\<close>)
  with flags_only_step[OF f] show ?thesis by (rule rtranclp.rtrancl_into_rtrancl)
qed simp

lemma SendPrivateText_cases:
  assumes "SendPrivateText cx now s req = Inr (res, s')"
  obtains fp evs where "HasContent req" and "PrivateSendFingerprint cx req = Inr fp"
    and "sendPrivateTextLocked cx now s req fp None = Inr (res, evs, s')"
  using assms by (auto simp: SendPrivateText_def split: if_splits sum.splits)

lemma SendPrivateText_steps:
  assumes "SendPrivateText cx now s req = Inr (res, s')" and "json_codec_ok cx" and "boxes_ordered s"
  shows "box_steps cx clr s s'"
  using assms(1)
proof (rule SendPrivateText_cases)
  fix fp evs assume "sendPrivateTextLocked cx now s req fp None = Inr (res, evs, s')"
  then show ?thesis by (rule send_locked_steps[OF _ assms(2,3)]) (simp add: apply_of_def)
qed

lemma boxes_ordered_steps: "box_steps cx clr s s' \<Longrightarrow> boxes_ordered s \<Longrightarrow> boxes_ordered s'"
  by (induction rule: rtranclp_induct) (auto intro: boxes_ordered_step)

section \<open>Forwarding, pins and protection\<close>

lemma forward_loop_steps:
  assumes "json_codec_ok cx" and "boxes_ordered s"
  shows "box_steps cx clr s (snd (snd (forward_loop cx now req date xs res s)))"
  using assms(2)
proof (induction xs arbitrary: res s)
  case (Cons x xs)
  obtain msgID randomID source where x: "x = (msgID, randomID, source)" by (cases x) auto
  show ?case
  proof (cases "SendPrivateText cx now s (forward_send_request req date msgID randomID source)")
    case (Inr r)
    obtain sent s1 where r: "r = (sent, s1)" by fastforce
    have st: "box_steps cx clr s s1"
      using SendPrivateText_steps[OF _ assms(1) Cons.prems] Inr r by simp
    from boxes_ordered_steps[OF st Cons.prems] have "boxes_ordered s1" .
    with Cons.IH[of s1] st show ?thesis by (simp add: x Inr r) (meson rtranclp_trans)
  qed (simp add: x)
qed simp

lemma Forward_steps:
  assumes "json_codec_ok cx" and "boxes_ordered s"
  shows "box_steps cx clr s (snd (snd (ForwardPrivateMessages cx now s req)))"
  by (auto simp: ForwardPrivateMessages_def Let_def forward_loop_steps[OF assms] split: sum.split)

lemma list_all2_update_at: "(\<And>x. R x x) \<Longrightarrow> R (xs ! i) y \<Longrightarrow> list_all2 R xs (xs[i := y])"
  by (auto simp: list_all2_conv_all_nth) (metis nth_list_update_eq nth_list_update_neq)

lemma pinned_ident [simp]:
  "ident (m\<lparr>msg_Pinned := b\<rparr>) = ident m" "content (m\<lparr>msg_Pinned := b\<rparr>) = content m"
  by (simp_all add: ident_def slot_def content_def)

lemma set_pinned_flags: "flags_only s (set_pinned b side s)"
proof (cases side)
  case (fields u p i)
  then show ?thesis
    by (auto simp: flags_only_def set_pinned_def
          intro: list_all2_update_at list_all2_refl_on)
qed

lemma fold_pinned_flags: "flags_only s (fold (set_pinned b) sides s)"
  by (induction sides arbitrary: s) (auto intro: flags_only_trans set_pinned_flags)

lemma append_pin_event_same:
  "append_pin_event a x owner e (s, events) = (e', s', events') \<Longrightarrow> same_boxes s s'"
  by (auto simp: append_pin_event_def nextPtsWithEventsLocked_def Let_def same_boxes_def split: prod.splits)

lemma append_pin_events_same:
  "append_pin_events a x owner es (s, events) = (es', s', events') \<Longrightarrow> same_boxes s s'"
proof (induction es arbitrary: s events es' s' events')
  case (Cons e es)
  obtain e1 s1 ev1 where a: "append_pin_event a x owner e (s, events) = (e1, s1, ev1)" by (metis prod_cases3)
  obtain es2 s2 ev2 where b: "append_pin_events a x owner es (s1, ev1) = (es2, s2, ev2)" by (metis prod_cases3)
  from Cons.prems a b have "s' = s2" by simp
  with append_pin_event_same[OF a] Cons.IH[OF b] show ?case by (auto intro: same_boxes_trans)
qed simp

lemma state_after_steps:
  assumes "\<And>res s'. r = Inr (res, s') \<Longrightarrow> box_steps cx clr s s'"
  shows "box_steps cx clr s (state_after s r)"
  using assms by (auto simp: state_after_def split: sum.split)

lemma Pin_steps:
  assumes "json_codec_ok cx" and "boxes_ordered s" and "PinPrivateMessage cx now draws s req = Inr (res, s')"
  shows "box_steps cx clr s s'"
proof -
  from assms(3) consider "s' = s"
    | sendReq fp es changes sent evs where
        "sendPrivateTextLocked cx now s sendReq fp (Some (es, \<lambda>_ s. fold (set_pinned (pq_Pinned req)) changes s)) = Inr (sent, evs, s')"
    | events es es' s1 events1 changes where "append_pin_events (pq_OriginAuthKeyID req) (pq_OriginSessionID req)
        (pq_OwnerUserID req) es (s, events) = (es', s1, events1)"
        "s' = fold (set_pinned (pq_Pinned req)) changes (s1\<lparr>ms_events := Some events1\<rparr>)"
    unfolding PinPrivateMessage_def Let_def
    by (auto split: if_splits option.splits sum.splits prod.splits)
  then show ?thesis
  proof cases
    case (2 sendReq fp es changes sent evs)
    then show ?thesis
      by (rule send_locked_steps[OF _ assms(1,2)]) (simp add: apply_of_def fold_pinned_flags)
  next
    case (3 events es es' s1 events1 changes)
    have "same_boxes s1 (s1\<lparr>ms_events := Some events1\<rparr>)" by (simp add: same_boxes_def)
    with append_pin_events_same[OF 3(1)] have "flags_only s (s1\<lparr>ms_events := Some events1\<rparr>)"
      by (blast intro: same_boxes_trans same_boxes_flags)
    then show ?thesis unfolding 3(2) by (blast intro: flags_only_step flags_only_trans fold_pinned_flags)
  qed simp
qed

lemma map_flags:
  assumes "\<And>m. ident (f m) = ident m \<and> content (f m) = content m"
  shows "list_all2 (\<lambda>m m'. ident m' = ident m \<and> content m' = content m) xs (map f xs)"
  using assms by (induction xs) auto

lemma clear_pins_flags: "flags_only s (s\<lparr>ms_m := (ms_m s)(u := clear_pins idx (ms_m s u))\<rparr>)"
  by (auto simp: flags_only_def clear_pins_def list_all2_conv_all_nth)

lemma unpin_publish_flags:
  assumes "unpin_publish req date ids uids events s = (res, s')"
  shows "flags_only s s'"
proof -
  from assms obtain evs evs' s1 events1 where
      ap: "append_pin_events (uq_OriginAuthKeyID req) (uq_OriginSessionID req) (uq_OwnerUserID req) evs (s, events) = (evs', s1, events1)"
      and s': "s' = (if peer_ID (uq_Peer req) \<noteq> uq_OwnerUserID req
        then s1\<lparr>ms_m := (ms_m s1)(peer_ID (uq_Peer req) :=
               map (\<lambda>m. if msg_UID m \<in> uids \<and> msg_Pinned m then m\<lparr>msg_Pinned := False\<rparr> else m)
                 (ms_m s1 (peer_ID (uq_Peer req))))\<rparr>
        else s1)\<lparr>ms_events := Some events1\<rparr>"
    unfolding unpin_publish_def Let_def by (auto simp del: append_pin_events.simps split: prod.splits)
  have "flags_only s1 s'" unfolding s' flags_only_def
    by (auto intro: list_all2_refl_on intro!: map_flags)
  with same_boxes_flags[OF append_pin_events_same[OF ap]] show ?thesis by (rule flags_only_trans)
qed

lemma Unpin_flags:
  assumes "UnpinAllPrivateMessages now s req = Inr (res, s')"
  shows "flags_only s s'"
  using assms
  by (auto simp: UnpinAllPrivateMessages_def Let_def clear_pins_flags split: if_splits option.splits prod.splits
        intro: flags_only_trans[OF clear_pins_flags unpin_publish_flags])

text \<open>Marking a request as answered rewrites the action of both copies alike.\<close>

definition expired_content :: "int \<Rightarrow> int \<Rightarrow> string \<times> message_entity list \<times> 'v message_media option \<Rightarrow> string \<times> message_entity list \<times> 'v message_media option" where
  "expired_content uid i c = (case c of (b, e, md) \<Rightarrow>
     (b, e, msg_Media (expire_request_media uid (zero_message\<lparr>msg_UID := i, msg_Media := md\<rparr>))))"

lemma expire_request_media_eq:
  "ident (expire_request_media uid m) = ident m"
  "content (expire_request_media uid m) = expired_content uid (msg_UID m) (content m)"
  by (auto simp: expire_request_media_def expired_content_def ident_def slot_def content_def split: option.split)

lemma mark_expired_step: "box_steps cx clr s (markNoForwardsRequestExpired s uid)"
  by (intro r_into_rtranclp box_rewrite[where c = "\<lambda>i _. expired_content uid i"])
    (auto simp: markNoForwardsRequestExpired_def list_all2_conv_all_nth expire_request_media_eq)

lemma toggle_commit_steps: "box_steps cx clr s (toggle_commit s req pair st kind action ruid sent)"
proof -
  have *: "box_steps cx clr s (markNoForwardsRequestExpired s' uid)" if "same_boxes s s'" for s' uid
    using same_boxes_step[OF that] mark_expired_step by (rule rtranclp_trans)
  show ?thesis
    by (auto simp: toggle_commit_def Let_def same_boxes_def intro!: * intro: same_boxes_step split: option.split)
qed

lemma Toggle_steps:
  assumes "json_codec_ok cx" and "boxes_ordered s" and "TogglePrivateNoForwards cx now nano s req = Inr (res, s')"
  shows "box_steps cx clr s s'"
proof -
  from assms(3) consider "s' = s" | sreq sent s1 pair st kind action ruid where
      "SendPrivateText cx now s sreq = Inr (sent, s1)" "s' = toggle_commit s1 req pair st kind action ruid sent"
    unfolding TogglePrivateNoForwards_def Let_def
    by (auto split: if_splits option.splits sum.splits prod.splits)
  then show ?thesis
  proof cases
    case (2 sreq sent s1 pair st kind action ruid)
    from SendPrivateText_steps[OF 2(1) assms(1,2)] toggle_commit_steps show ?thesis
      unfolding 2(2) by (rule rtranclp_trans)
  qed simp
qed

section \<open>Read marks\<close>

lemma read_outbox_same: "read_outbox reader date latest s dialogs = Some (u, e, s') \<Longrightarrow> same_boxes s s'"
  by (auto simp: read_outbox_def Let_def nextPtsLocked_def mark_read_dates_def same_boxes_def split: if_splits option.splits)

lemma Read_same: "same_boxes s (snd (ReadHistory now s req))"
proof (cases "rq_OwnerUserID req = 0 \<or> peer_ID (rq_Peer req) = 0 \<or> ms_dialogs s = None")
  case True
  then show ?thesis by (auto simp: ReadHistory_def Let_def)
next
  case False
  then obtain dialogs where d: "ms_dialogs s = Some dialogs" and g: "rq_OwnerUserID req \<noteq> 0" "peer_ID (rq_Peer req) \<noteq> 0" by auto
  show ?thesis
  proof (cases "find (\<lambda>d. dg_Peer d = rq_Peer req) (dl_Dialogs (mget empty_dialog_list dialogs (rq_OwnerUserID req)))")
    case None
    with d g show ?thesis by (simp add: ReadHistory_def Let_def)
  next
    case (Some x)
    have "same_boxes s (snd (read_refresh ow p x dialogs s r))" for ow p r
      by (simp add: read_refresh_def Let_def same_boxes_def)
    moreover have "same_boxes s (snd (read_advance ow p date mx old dialogs s r))" for ow p date mx old r
      by (auto simp: read_advance_def Let_def nextPtsLocked_def same_boxes_def split: option.split dest!: read_outbox_same)
    ultimately show ?thesis using g by (simp add: ReadHistory_def Let_def d Some)
  qed
qed

end
