(* ===== verification/Message_Runs.thy ===== *)
theory Message_Runs
  imports Message_Steps
begin

text \<open>
  The remaining operations of the message store as steps of the boxes: edits and deletions. The panic of
  \<open>finishMemoryDeleteLocked\<close> cannot happen (\<open>finish_effect\<close>). \<open>op_steps\<close> puts the operations
  together, and the locale \<open>box_invariant\<close> gives the invariants of all runs: the order of the boxes, the
  pairing of the two copies of a message, the agreement of their contents, and the soundness of the send
  receipts.
\<close>

section \<open>Edits\<close>

definition edited_content ::
  "'v edit_request \<Rightarrow> 'v message \<Rightarrow> int \<Rightarrow> peer \<Rightarrow> string \<times> message_entity list \<times> 'v message_media option \<Rightarrow> string \<times> message_entity list \<times> 'v message_media option" where
  "edited_content req target uid from' c =
    (case c of (b, e, md) \<Rightarrow>
      if uid = msg_UID target \<and> peer_ID from' = peer_ID (msg_From target)
      then (if eq_WebPageResolve req then (b, e, eq_Media req)
            else (eq_Message req, eq_Entities req, if eq_Media req \<noteq> None then eq_Media req else md))
      else c)"

lemma edit_copy_ident: "ident (edit_copy req d pts m) = ident m"
  by (simp add: edit_copy_def Let_def ident_def slot_def)

lemma edit_copy_content:
  "msg_UID m = msg_UID target \<Longrightarrow> peer_ID (msg_From m) = peer_ID (msg_From target) \<Longrightarrow>
   content (edit_copy req d pts m) = edited_content req target (msg_UID m) (msg_From m) (content m)"
  by (simp add: edit_copy_def Let_def content_def edited_content_def)

lemma edited_content_other:
  "\<not> (uid = msg_UID target \<and> peer_ID f = peer_ID (msg_From target)) \<Longrightarrow> edited_content req target uid f c = c"
  by (auto simp: edited_content_def split: prod.split)

lemma edit_box_rel:
  "edit_box req d target u pts ms = (ms', ed, pts') \<Longrightarrow>
   list_all2 (\<lambda>m m'. ident m' = ident m \<and> content m' = edited_content req target (msg_UID m) (msg_From m) (content m)) ms ms'"
proof (induction ms arbitrary: pts ms' ed pts')
  case (Cons m ms)
  then show ?case
    by (auto simp: Let_def edit_copy_ident edit_copy_content edited_content_other split: if_splits prod.splits)
qed simp

lemma edit_boxes_rel:
  assumes "edit_boxes req d target ord s = (ed, s')" and "distinct ord"
  shows "ms_nextBox s' = ms_nextBox s \<and> ms_nextUID s' = ms_nextUID s \<and> ms_dedup s' = ms_dedup s \<and>
    (\<forall>u. if u \<in> set ord
         then list_all2 (\<lambda>m m'. ident m' = ident m \<and>
                content m' = edited_content req target (msg_UID m) (msg_From m) (content m)) (ms_m s u) (ms_m s' u)
         else ms_m s' u = ms_m s u)"
  using assms
proof (induction ord arbitrary: s ed)
  case (Cons u us)
  obtain box e1 p1 where b: "edit_box req d target u (ms_nextPts s u) (ms_m s u) = (box, e1, p1)" by (metis prod_cases3)
  let ?s1 = "s\<lparr>ms_m := (ms_m s)(u := box), ms_nextPts := (ms_nextPts s)(u := p1)\<rparr>"
  obtain e2 s2 where r: "edit_boxes req d target us ?s1 = (e2, s2)" by fastforce
  from Cons.prems b r have s': "s' = s2" and us: "distinct us" "u \<notin> set us" by auto
  note ih = Cons.IH[OF r[folded s'] us(1)]
  from ih us(2) have "ms_m s' u = box" by simp
  with ih edit_box_rel[OF b] us(2) show ?case by (auto split: if_splits)
qed simp

lemma Edit_steps:
  assumes "EditMessage now ord s req = Inr (res, s')" and "range_order s ord"
  shows "box_steps cx clr s s'"
proof -
  from assms(1) obtain d target ed s1 where e: "edit_boxes req d target ord s = (ed, s1)"
    and s': "same_boxes s1 s'"
    by (auto simp: EditMessage_def Let_def same_boxes_def split: if_splits option.splits prod.splits)
  from assms(2) have dist: "distinct ord" and all: "\<And>u. u \<notin> set ord \<Longrightarrow> ms_m s u = []" by (auto simp: range_order_def)
  note r = edit_boxes_rel[OF e dist]
  have "list_all2 (\<lambda>m m'. ident m' = ident m \<and>
      content m' = edited_content req target (msg_UID m) (msg_From m) (content m)) (ms_m s u) (ms_m s1 u)" for u
    using r all[of u] by (cases "u \<in> set ord") (auto split: if_splits)
  then have "box_step cx clr s s1" using r by (intro box_rewrite[where c = "edited_content req target"]) auto
  from this same_boxes_step[OF s'] show ?thesis by (rule converse_rtranclp_into_rtranclp)
qed

section \<open>Deletion\<close>

lemma delete_scan_nolimit:
  "limit \<le> 0 \<Longrightarrow> delete_scan P limit n ms = (filter (\<lambda>m. \<not> P m) ms, filter P ms, False)"
  by (induction ms arbitrary: n) auto

lemma delete_scan_sub:
  assumes "delete_scan P limit n ms = (kept, del, b)"
  shows "set kept \<subseteq> set ms \<and> set del \<subseteq> set ms \<and> set ms \<subseteq> set kept \<union> set del"
  using assms
proof (induction ms arbitrary: n kept del b)
  case (Cons m ms)
  obtain k1 d1 b1 where r1: "delete_scan P limit (n + 1) ms = (k1, d1, b1)" by (metis prod_cases3)
  obtain k0 d0 b0 where r0: "delete_scan P limit n ms = (k0, d0, b0)" by (metis prod_cases3)
  have "(kept = m # k0 \<and> del = d0) \<or> (kept = k1 \<and> del = m # d1)"
    using Cons.prems r1 r0 by (auto split: if_splits)
  with Cons.IH[OF r1] Cons.IH[OF r0] show ?case by auto
qed simp

lemma delete_scan_split:
  assumes "delete_scan P limit n ms = (kept, del, b)" and "distinct ms"
  shows "kept = filter (\<lambda>m. m \<notin> set del) ms \<and> del = filter (\<lambda>m. m \<in> set del) ms"
  using assms
proof (induction ms arbitrary: n kept del b)
  case (Cons m ms)
  obtain k1 d1 b1 where r1: "delete_scan P limit (n + 1) ms = (k1, d1, b1)" by (metis prod_cases3)
  obtain k0 d0 b0 where r0: "delete_scan P limit n ms = (k0, d0, b0)" by (metis prod_cases3)
  from Cons.prems have m: "m \<notin> set ms" and dist: "distinct ms" by auto
  note i1 = Cons.IH[OF r1 dist] and i0 = Cons.IH[OF r0 dist]
  have n1: "m \<notin> set d1" and n0: "m \<notin> set d0" using m delete_scan_sub[OF r1] delete_scan_sub[OF r0] by auto
  consider "kept = m # k0" "del = d0" | "kept = k1" "del = m # d1"
    using Cons.prems(1) r1 r0 by (auto split: if_splits)
  then show ?case
  proof cases
    case 1
    with i0 n0 show ?thesis by simp
  next
    case 2
    have "filter (\<lambda>x. x \<notin> set (m # d1)) ms = filter (\<lambda>x. x \<notin> set d1) ms"
      "filter (\<lambda>x. x \<in> set (m # d1)) ms = filter (\<lambda>x. x \<in> set d1) ms"
      using m by (auto intro: filter_cong)
    with i1 2 show ?thesis by simp
  qed
qed simp

lemma boxes_ordered_distinct: "boxes_ordered s \<Longrightarrow> distinct (ms_m s u)"
proof -
  assume "boxes_ordered s"
  then have "sorted_wrt (\<lambda>a b. msg_ID a < msg_ID b \<and> msg_UID a < msg_UID b) (ms_m s u)" by (simp add: boxes_ordered_def)
  then have "sorted_wrt (<) (map msg_ID (ms_m s u))" by (simp add: sorted_wrt_map) (erule sorted_wrt_mono_rel[rotated], simp)
  then have "distinct (map msg_ID (ms_m s u))" by (simp add: strict_sorted_iff)
  then show ?thesis by (simp add: distinct_map)
qed

text \<open>Marking the receipts of deleted rows.\<close>

lemma mark_delete_receipts_Cons:
  "mark_delete_receipts u e (row # rows) d = mark_delete_receipts u e rows
     (if dw_userID row \<noteq> u \<or> dw_messageSenderID row \<noteq> u \<or> dw_randomID row = 0 \<or> dw_privateMessageID row = 0 then d
      else case d (u, dw_randomID row) of
             None \<Rightarrow> d
           | Some r \<Rightarrow> d((u, dw_randomID row) \<mapsto> r\<lparr>pd_senderDeleteEvent := Some e\<rparr>))"
  by (simp add: mark_delete_receipts_def)

lemma receipts_grow_mark1:
  "d k = Some r \<Longrightarrow> receipts_grow d (d(k \<mapsto> r\<lparr>pd_senderDeleteEvent := Some e\<rparr>))"
  by (auto simp: receipts_grow_def same_receipt_def)

lemma mark_delete_receipts_grow: "receipts_grow d (mark_delete_receipts u e rows d)"
proof (induction rows arbitrary: d)
  case Nil
  show ?case by (simp add: mark_delete_receipts_def)
next
  case (Cons row rows)
  show ?case unfolding mark_delete_receipts_Cons
    by (rule receipts_grow_trans[OF _ Cons.IH]) (auto split: option.split intro: receipts_grow_mark1)
qed

lemma mark_delete_receipts_marks:
  assumes "row \<in> set rows" and "dw_userID row = u" "dw_messageSenderID row = u" "dw_randomID row \<noteq> 0" "dw_privateMessageID row \<noteq> 0"
    and "mark_delete_receipts u e rows d (u, dw_randomID row) = Some r"
  shows "pd_senderDeleteEvent r \<noteq> None"
  using assms(1,6)
proof (induction rows arbitrary: d)
  case (Cons x xs)
  show ?case
  proof (cases "row \<in> set xs")
    case True
    with Cons show ?thesis unfolding mark_delete_receipts_Cons by blast
  next
    case False
    with Cons.prems(1) have x: "x = row" by simp
    let ?d = "case d (u, dw_randomID row) of None \<Rightarrow> d
      | Some r \<Rightarrow> d((u, dw_randomID row) \<mapsto> r\<lparr>pd_senderDeleteEvent := Some e\<rparr>)"
    from Cons.prems(2) have m: "mark_delete_receipts u e xs ?d (u, dw_randomID row) = Some r"
      unfolding mark_delete_receipts_Cons x using assms(2-5) by simp
    obtain r0 where r0: "?d (u, dw_randomID row) = Some r0" "pd_senderDeleteEvent r0 \<noteq> None \<longrightarrow> pd_senderDeleteEvent r \<noteq> None"
      using receipts_grow_source[OF mark_delete_receipts_grow m] by metis
    from r0(1) have "pd_senderDeleteEvent r0 \<noteq> None" by (auto split: option.splits)
    with r0(2) show ?thesis by blast
  qed
qed simp


text \<open>Messages removed from the boxes, each with its row.\<close>

definition removed :: "'v message_store \<Rightarrow> deleted_row list \<Rightarrow> 'v message_store \<Rightarrow> bool" where
  "removed s rows s' \<longleftrightarrow> ms_nextBox s' = ms_nextBox s \<and> ms_nextUID s' = ms_nextUID s \<and> ms_dedup s' = ms_dedup s \<and>
    ms_dialogs s' = ms_dialogs s \<and> (\<forall>r\<in>set rows. \<exists>u. \<exists>m\<in>set (ms_m s u). r = row_of u m) \<and>
    (\<exists>P. \<forall>u. ms_m s' u = filter (P u) (ms_m s u) \<and> (\<forall>m\<in>set (ms_m s u). \<not> P u m \<longrightarrow> row_of u m \<in> set rows))"

lemma removed_refl: "removed s [] s"
  unfolding removed_def by (auto intro: exI[of _ "\<lambda>_ _. True"])

lemma removed_trans:
  assumes "removed s r1 s1" and "removed s1 r2 s2" shows "removed s (r1 @ r2) s2"
proof -
  from assms(1) obtain P where P: "\<And>u. ms_m s1 u = filter (P u) (ms_m s u)"
    "\<And>u m. m \<in> set (ms_m s u) \<Longrightarrow> \<not> P u m \<Longrightarrow> row_of u m \<in> set r1" unfolding removed_def by blast
  from assms(2) obtain Q where Q: "\<And>u. ms_m s2 u = filter (Q u) (ms_m s1 u)"
    "\<And>u m. m \<in> set (ms_m s1 u) \<Longrightarrow> \<not> Q u m \<Longrightarrow> row_of u m \<in> set r2" unfolding removed_def by blast
  have "ms_m s2 u = filter (\<lambda>m. P u m \<and> Q u m) (ms_m s u)" for u using P(1) Q(1) by (simp add: conj_commute)
  moreover have "row_of u m \<in> set (r1 @ r2)" if "m \<in> set (ms_m s u)" "\<not> (P u m \<and> Q u m)" for u m
    using P Q that by (cases "P u m") auto
  moreover have "\<forall>r\<in>set (r1 @ r2). \<exists>u. \<exists>m\<in>set (ms_m s u). r = row_of u m"
    using assms P(1) unfolding removed_def by fastforce
  ultimately show ?thesis using assms unfolding removed_def
    by (intro conjI exI[of _ "\<lambda>u m. P u m \<and> Q u m"]) simp_all
qed

lemma removed_distinct: "removed s rows s' \<Longrightarrow> distinct (ms_m s u) \<Longrightarrow> distinct (ms_m s' u)"
  unfolding removed_def by (metis distinct_filter)

lemma removed_scan:
  assumes "deleteMemoryMessagesLocked s u limit match = (rows, uids, more', s')" and "distinct (ms_m s u)"
  shows "removed s rows s'"
proof -
  obtain kept del b where d: "delete_scan match limit 0 (ms_m s u) = (kept, del, b)" by (metis prod_cases3)
  from assms(1) d have r: "rows = map (row_of u) del" "s' = s\<lparr>ms_m := (ms_m s)(u := kept)\<rparr>"
    by (auto simp: deleteMemoryMessagesLocked_def)
  from delete_scan_split[OF d assms(2)] have k: "kept = filter (\<lambda>m. m \<notin> set del) (ms_m s u)" ..
  have "set del \<subseteq> set (ms_m s u)" using delete_scan_sub[OF d] by simp
  then have "\<forall>x\<in>set rows. \<exists>u. \<exists>m\<in>set (ms_m s u). x = row_of u m" unfolding r by auto
  then show ?thesis unfolding removed_def
    by (intro conjI exI[of _ "\<lambda>w m. w = u \<longrightarrow> m \<notin> set del"]) (auto simp: r k)
qed

lemma removed_by_uid:
  assumes "deleteMemoryMessagesByUIDLocked ord s uids ex = (rows, s')"
  shows "removed s rows s'"
proof (cases "uids = {}")
  case True
  with assms show ?thesis by (simp add: deleteMemoryMessagesByUIDLocked_def removed_refl)
next
  case False
  with assms show ?thesis unfolding removed_def
    by (intro conjI exI[of _ "\<lambda>u m. \<not> (u \<in> set ord \<and> u \<noteq> ex \<and> msg_UID m \<in> uids)"])
      (auto simp: deleteMemoryMessagesByUIDLocked_def; blast)+
qed


text \<open>The pending anchor of an account and the ids of its rows.\<close>

definition pending_anchor :: "(int \<times> 'v history_clear_anchor) list \<Rightarrow> int \<Rightarrow> 'v message option" where
  "pending_anchor anchors u = (case map_of anchors u of
     None \<Rightarrow> None | Some a \<Rightarrow> if an_materialized a then None else Some (an_message a))"

definition deleted_ids :: "deleted_row list \<Rightarrow> int \<Rightarrow> int list" where
  "deleted_ids rows u = normalizeMemoryMessageIDs (map dw_id (filter (\<lambda>r. dw_userID r = u) rows))"

text \<open>One account: never the panic, and what becomes of its box and of the receipts.\<close>

lemma delete_owner_plain:
  assumes "pending_anchor anchors u = None" and "deleted_ids rows u = ids" and "ids \<noteq> []"
    and "pts = ms_nextPts s u + int (length ids)" and "event = delete_event u pts date ids"
  shows "delete_owner date rows anchors u (items, s) =
    Inr (items @ [\<lparr>du_UserID = u, du_MessageIDs = ids, du_Event = event, du_Events = [event], du_Pts = pts,
                    du_PtsCount = int (length ids)\<rparr>],
      s\<lparr>ms_nextPts := (ms_nextPts s)(u := pts), ms_dedup := mark_delete_receipts u event rows (ms_dedup s),
        ms_dialogs := map_option (fold (rebuildMemoryDialogLocked (ms_m s) u) (owner_peers u rows anchors)) (ms_dialogs s)\<rparr>)"
proof -
  from assms(3) have "0 < length ids" by simp
  with assms show ?thesis
    by (simp add: delete_owner_def nextPtsNLocked_def Let_def flip: pending_anchor_def deleted_ids_def)
qed

lemma delete_owner_anchored:
  assumes "pending_anchor anchors u = Some am" and "deleted_ids rows u = ids"
    and "cursor = ms_nextPts s u + int (length ids)"
  shows "\<exists>its p t d e. delete_owner date rows anchors u (items, s) =
    Inr (its, s\<lparr>ms_nextPts := p,
      ms_dedup := (if ids \<noteq> [] then mark_delete_receipts u (delete_event u cursor date ids) rows (ms_dedup s) else ms_dedup s),
      ms_m := (ms_m s)(u := update_first (\<lambda>m. msg_ID m = msg_ID am \<and> msg_Peer m = msg_Peer am)
               (\<lambda>_. NewHistoryClearMessage u (msg_Peer am) (msg_ID am) (msg_UID am) (msg_Date am) e) (ms_m s u)),
      ms_savedMessageTags := t, ms_dialogs := d\<rparr>)"
proof -
  have "int (length ids) + 2 \<noteq> 0" "\<not> int (length ids) + 2 \<le> 0" by auto
  with assms show ?thesis
    by (cases "ids = []")
      (simp add: delete_owner_def nextPtsNLocked_def materialize_anchor_def Let_def flip: pending_anchor_def deleted_ids_def,
       (rule exI)+, rule refl)+
qed

lemma delete_owner_idle:
  "pending_anchor anchors u = None \<Longrightarrow> deleted_ids rows u = [] \<Longrightarrow> delete_owner date rows anchors u (items, s) = Inr (items, s)"
  by (simp add: delete_owner_def Let_def flip: pending_anchor_def deleted_ids_def)

lemma delete_owner_ok:
  obtains its s' cursor e where "delete_owner date rows anchors u (items, s) = Inr (its, s')"
    and "ms_nextBox s' = ms_nextBox s" and "ms_nextUID s' = ms_nextUID s"
    and "ms_dedup s' = (if deleted_ids rows u \<noteq> []
           then mark_delete_receipts u (delete_event u cursor date (deleted_ids rows u)) rows (ms_dedup s) else ms_dedup s)"
    and "ms_m s' = (case pending_anchor anchors u of None \<Rightarrow> ms_m s
           | Some am \<Rightarrow> (ms_m s)(u := update_first (\<lambda>m. msg_ID m = msg_ID am \<and> msg_Peer m = msg_Peer am)
               (\<lambda>_. NewHistoryClearMessage u (msg_Peer am) (msg_ID am) (msg_UID am) (msg_Date am) e) (ms_m s u)))"
proof -
  let ?ids = "deleted_ids rows u" and ?a = "pending_anchor anchors u"
  consider "?a = None" "?ids = []" | "?a = None" "?ids \<noteq> []" | am where "?a = Some am" by blast
  then show thesis
  proof cases
    case 1
    with delete_owner_idle[OF 1] show thesis by (intro that[of items s 0]) simp_all
  next
    case 2
    show thesis by (rule that[OF delete_owner_plain[OF 2(1) refl 2(2) refl refl]]) (simp_all add: 2)
  next
    case 3
    obtain its p t d e where eq: "delete_owner date rows anchors u (items, s) =
      Inr (its, s\<lparr>ms_nextPts := p,
        ms_dedup := (if ?ids \<noteq> [] then mark_delete_receipts u (delete_event u (ms_nextPts s u + int (length ?ids)) date ?ids) rows (ms_dedup s) else ms_dedup s),
        ms_m := (ms_m s)(u := update_first (\<lambda>m. msg_ID m = msg_ID am \<and> msg_Peer m = msg_Peer am)
                 (\<lambda>_. NewHistoryClearMessage u (msg_Peer am) (msg_ID am) (msg_UID am) (msg_Date am) e) (ms_m s u)),
        ms_savedMessageTags := t, ms_dialogs := d\<rparr>)"
      using delete_owner_anchored[OF 3 refl refl] by blast
    show thesis by (rule that[OF eq, of "ms_nextPts s u + int (length ?ids)" e]) (simp_all add: 3)
  qed
qed


definition slots_kept :: "'v message_store \<Rightarrow> 'v message_store \<Rightarrow> bool" where
  "slots_kept s s' \<longleftrightarrow> (\<forall>u. list_all2 (\<lambda>m m'. slot m' = slot m) (ms_m s u) (ms_m s' u))"

definition anchors_ok :: "'v message_store \<Rightarrow> (int \<times> 'v history_clear_anchor) list \<Rightarrow> bool" where
  "anchors_ok s anchors \<longleftrightarrow>
    (\<forall>u am. pending_anchor anchors u = Some am \<longrightarrow> msg_OwnerUserID am = u \<and> (\<forall>m\<in>set (ms_m s u). msg_ID m = msg_ID am \<longrightarrow> slot m = slot am))"

text \<open>A row whose message has a receipt of its owner.\<close>

definition row_owned :: "deleted_row \<Rightarrow> bool" where
  "row_owned r \<longleftrightarrow> dw_messageSenderID r = dw_userID r \<and> dw_randomID r \<noteq> 0 \<and> dw_privateMessageID r \<noteq> 0 \<and>
     0 < dw_id r \<and> dw_id r \<le> MaxMessageBoxID"

definition row_marked :: "'v message_store \<Rightarrow> deleted_row \<Rightarrow> bool" where
  "row_marked s r \<longleftrightarrow> (\<forall>rec. ms_dedup s (dw_userID r, dw_randomID r) = Some rec \<longrightarrow> pd_senderDeleteEvent rec \<noteq> None)"

lemma row_marked_grow: "receipts_grow (ms_dedup s) (ms_dedup s') \<Longrightarrow> row_marked s r \<Longrightarrow> row_marked s' r"
  unfolding row_marked_def by (metis receipts_grow_source)

lemma slots_kept_refl [simp]: "slots_kept s s"
  by (simp add: slots_kept_def list_all2_refl_on)

lemma slots_kept_trans:
  assumes "slots_kept s s'" and "slots_kept s' s''" shows "slots_kept s s''"
  unfolding slots_kept_def
proof
  fix u show "list_all2 (\<lambda>m m'. slot m' = slot m) (ms_m s u) (ms_m s'' u)"
    by (rule list_all2_trans[OF _ assms(1)[unfolded slots_kept_def, rule_format] assms(2)[unfolded slots_kept_def, rule_format]]) simp
qed

lemma anchors_ok_kept:
  assumes "anchors_ok s anchors" and "slots_kept s s'" shows "anchors_ok s' anchors"
  unfolding anchors_ok_def
proof (intro allI impI conjI ballI)
  fix u am m' assume p: "pending_anchor anchors u = Some am"
  from p assms(1) show "msg_OwnerUserID am = u" by (simp add: anchors_ok_def)
  assume "m' \<in> set (ms_m s' u)" "msg_ID m' = msg_ID am"
  moreover from this(1) obtain m where "m \<in> set (ms_m s u)" "slot m' = slot m"
    using assms(2) list_all2_source[of _ "ms_m s u" "ms_m s' u" m'] by (auto simp: slots_kept_def)
  ultimately show "slot m' = slot am" using p assms(1) by (auto simp: anchors_ok_def slot_eq)
qed

lemma update_first_slots:
  "(\<And>x. x \<in> set xs \<Longrightarrow> P x \<Longrightarrow> slot (f x) = slot x) \<Longrightarrow> list_all2 (\<lambda>m m'. slot m' = slot m) xs (update_first P f xs)"
  by (induction xs) (auto intro: list_all2_refl_on)

lemma clear_message_slot:
  "slot (NewHistoryClearMessage u p i uid d pts) = (i, uid, u, p, d)"
  by (simp add: NewHistoryClearMessage_def slot_def)

lemma deleted_ids_row:
  assumes "r \<in> set rows" and "row_owned r" shows "deleted_ids rows (dw_userID r) \<noteq> []"
proof -
  have "dw_id r \<in> set (deleted_ids rows (dw_userID r))"
    using assms by (auto simp: deleted_ids_def normalizeMemoryMessageIDs_def row_owned_def)
  then show ?thesis by (metis empty_iff empty_set)
qed

lemma delete_owner_effect:
  assumes "anchors_ok s anchors"
  obtains its s' where "delete_owner date rows anchors u (items, s) = Inr (its, s')"
    and "ms_nextBox s' = ms_nextBox s" and "ms_nextUID s' = ms_nextUID s" and "slots_kept s s'"
    and "anchors = [] \<longrightarrow> ms_m s' = ms_m s" and "receipts_grow (ms_dedup s) (ms_dedup s')"
    and "\<And>r. r \<in> set rows \<Longrightarrow> row_owned r \<Longrightarrow> dw_userID r = u \<Longrightarrow> row_marked s' r"
proof -
  obtain its s' cursor e where d: "delete_owner date rows anchors u (items, s) = Inr (its, s')"
    and n: "ms_nextBox s' = ms_nextBox s" "ms_nextUID s' = ms_nextUID s"
    and dd: "ms_dedup s' = (if deleted_ids rows u \<noteq> []
           then mark_delete_receipts u (delete_event u cursor date (deleted_ids rows u)) rows (ms_dedup s) else ms_dedup s)"
    and m: "ms_m s' = (case pending_anchor anchors u of None \<Rightarrow> ms_m s
           | Some am \<Rightarrow> (ms_m s)(u := update_first (\<lambda>m. msg_ID m = msg_ID am \<and> msg_Peer m = msg_Peer am)
               (\<lambda>_. NewHistoryClearMessage u (msg_Peer am) (msg_ID am) (msg_UID am) (msg_Date am) e) (ms_m s u)))"
    using delete_owner_ok by blast
  have sk: "slots_kept s s'"
  proof (cases "pending_anchor anchors u")
    case (Some am)
    have "slot (NewHistoryClearMessage u (msg_Peer am) (msg_ID am) (msg_UID am) (msg_Date am) e) = slot x"
      if "x \<in> set (ms_m s u)" "msg_ID x = msg_ID am" for x
      using assms Some that by (auto simp: anchors_ok_def clear_message_slot) (auto simp: slot_def)
    then show ?thesis using m Some
      by (auto simp: slots_kept_def intro: list_all2_refl_on intro!: update_first_slots)
  qed (simp add: m slots_kept_def list_all2_refl_on)
  have g: "receipts_grow (ms_dedup s) (ms_dedup s')" by (simp add: dd mark_delete_receipts_grow)
  have "row_marked s' r" if "r \<in> set rows" "row_owned r" "dw_userID r = u" for r
    using that deleted_ids_row[OF that(1,2)]
    by (auto simp: row_marked_def dd row_owned_def dest: mark_delete_receipts_marks[rotated -1])
  then show thesis using m by (intro that[OF d n sk _ g]) (auto simp: pending_anchor_def)
qed


lemma delete_owners_effect:
  assumes "anchors_ok s anchors"
  shows "\<exists>its s'. delete_owners date rows anchors us (items, s) = Inr (its, s') \<and>
    ms_nextBox s' = ms_nextBox s \<and> ms_nextUID s' = ms_nextUID s \<and> slots_kept s s' \<and>
    (anchors = [] \<longrightarrow> ms_m s' = ms_m s) \<and> receipts_grow (ms_dedup s) (ms_dedup s') \<and>
    (\<forall>r\<in>set rows. row_owned r \<longrightarrow> dw_userID r \<in> set us \<longrightarrow> row_marked s' r)"
  using assms
proof (induction us arbitrary: items s)
  case (Cons u us)
  obtain i1 s1 where d: "delete_owner date rows anchors u (items, s) = Inr (i1, s1)"
    and n: "ms_nextBox s1 = ms_nextBox s" "ms_nextUID s1 = ms_nextUID s" and sk: "slots_kept s s1"
    and m: "anchors = [] \<longrightarrow> ms_m s1 = ms_m s" and g: "receipts_grow (ms_dedup s) (ms_dedup s1)"
    and mk: "\<And>r. r \<in> set rows \<Longrightarrow> row_owned r \<Longrightarrow> dw_userID r = u \<Longrightarrow> row_marked s1 r"
    using delete_owner_effect[OF Cons.prems] by metis
  from Cons.IH[OF anchors_ok_kept[OF Cons.prems sk], of i1] obtain its s' where r:
    "delete_owners date rows anchors us (i1, s1) = Inr (its, s')"
    "ms_nextBox s' = ms_nextBox s1" "ms_nextUID s' = ms_nextUID s1" "slots_kept s1 s'"
    "anchors = [] \<longrightarrow> ms_m s' = ms_m s1" "receipts_grow (ms_dedup s1) (ms_dedup s')"
    "\<forall>r\<in>set rows. row_owned r \<longrightarrow> dw_userID r \<in> set us \<longrightarrow> row_marked s' r" by blast
  have mk': "\<forall>q\<in>set rows. row_owned q \<longrightarrow> dw_userID q \<in> set (u # us) \<longrightarrow> row_marked s' q"
    using r(7) mk row_marked_grow[OF r(6)] by auto
  show ?case
    by (intro exI[of _ its] exI[of _ s'])
      (use d n m r mk' slots_kept_trans[OF sk r(4)] receipts_grow_trans[OF g r(6)] in simp)
qed simp

lemma finish_effect:
  assumes "anchors_ok s anchors"
  obtains res s' where "finishMemoryDeleteLocked s owner rows date anchors = Inr (res, s')"
    and "ms_nextBox s' = ms_nextBox s" and "ms_nextUID s' = ms_nextUID s" and "slots_kept s s'"
    and "anchors = [] \<longrightarrow> ms_m s' = ms_m s" and "receipts_grow (ms_dedup s) (ms_dedup s')"
    and "\<And>r. r \<in> set rows \<Longrightarrow> row_owned r \<Longrightarrow> row_marked s' r"
proof (cases "rows = [] \<and> anchors = []")
  case True
  then show thesis by (intro that[of _ s]) (auto simp: finishMemoryDeleteLocked_def)
next
  case False
  let ?s = "s\<lparr>ms_savedMessageTags := clear_tags rows (ms_savedMessageTags s)\<rparr>"
  have "anchors_ok ?s anchors" using assms by (simp add: anchors_ok_def)
  from delete_owners_effect[OF this, of date rows "delete_owner_ids rows anchors" "[]"] obtain its s' where
    d: "delete_owners date rows anchors (delete_owner_ids rows anchors) ([], ?s) = Inr (its, s')"
    and e: "ms_nextBox s' = ms_nextBox s" "ms_nextUID s' = ms_nextUID s" "slots_kept ?s s'"
      "anchors = [] \<longrightarrow> ms_m s' = ms_m s" "receipts_grow (ms_dedup s) (ms_dedup s')"
    and mk: "\<forall>r\<in>set rows. row_owned r \<longrightarrow> dw_userID r \<in> set (delete_owner_ids rows anchors) \<longrightarrow> row_marked s' r"
    by auto
  have "row_marked s' r" if "r \<in> set rows" "row_owned r" for r
    using mk that by (auto simp: delete_owner_ids_def)
  moreover have "slots_kept s s'" using e(3) by (simp add: slots_kept_def)
  ultimately show thesis using False d e by (intro that[of _ s']) (auto simp: finishMemoryDeleteLocked_def Let_def)
qed

lemma finish_steps:
  assumes ord: "boxes_ordered s" and ids: "ids_in_range s" and rem: "removed s rows s1"
    and an: "anchors_ok s1 anchors" and clr: "anchors = [] \<or> clr"
    and fin: "finishMemoryDeleteLocked s1 owner rows date anchors = Inr (res, s')"
  shows "box_steps cx clr s s'"
proof -
  from finish_effect[OF an, of owner rows date] fin
  have n: "ms_nextBox s' = ms_nextBox s1" "ms_nextUID s' = ms_nextUID s1" and sk: "slots_kept s1 s'"
    and m: "anchors = [] \<longrightarrow> ms_m s' = ms_m s1" and g: "receipts_grow (ms_dedup s1) (ms_dedup s')"
    and mk: "\<And>r. r \<in> set rows \<Longrightarrow> row_owned r \<Longrightarrow> row_marked s' r"
    by (metis Pair_inject sum.inject(2))+
  from rem obtain P where n1: "ms_nextBox s1 = ms_nextBox s" "ms_nextUID s1 = ms_nextUID s" "ms_dedup s1 = ms_dedup s"
    and P: "\<And>u. ms_m s1 u = filter (P u) (ms_m s u)"
      "\<And>u m. m \<in> set (ms_m s u) \<Longrightarrow> \<not> P u m \<Longrightarrow> row_of u m \<in> set rows" unfolding removed_def by blast
  let ?s = "s'\<lparr>ms_m := ms_m s1\<rparr>"
  have "box_step cx clr s ?s"
  proof (rule box_drop[of _ P])
    fix u m r assume h: "m \<in> set (ms_m s u)" "\<not> P u m" "msg_From m = user_peer u" "msg_RandomID m \<noteq> 0"
      "ms_dedup ?s (u, msg_RandomID m) = Some r"
    have "1 \<le> msg_ID m \<and> msg_ID m \<le> ms_nextBox s u \<and> 1 \<le> msg_UID m" "ms_nextBox s u \<le> MaxMessageBoxID"
      using ord ids h(1) by (simp_all add: boxes_ordered_def ids_in_range_def)
    then have "row_owned (row_of u m)" using h(3,4) by (simp add: row_owned_def row_of_def user_peer_def)
    from mk[OF P(2)[OF h(1,2)] this] h(5) show "pd_senderDeleteEvent r \<noteq> None" by (simp add: row_marked_def row_of_def)
  qed (use n n1 g P in simp_all)
  moreover have "box_steps cx clr ?s s'"
  proof (cases "anchors = []")
    case True
    with m show ?thesis by (intro same_boxes_step) (simp add: same_boxes_def)
  next
    case False
    with clr sk have "box_step cx clr ?s s'" by (intro box_clear) (simp_all add: slots_kept_def)
    then show ?thesis by (rule r_into_rtranclp)
  qed
  ultimately show ?thesis by (rule converse_rtranclp_into_rtranclp)
qed

lemma DeleteMessages_removed:
  assumes ord: "boxes_ordered s" and "DeleteMessages now order s req = Inr (res, s')"
  obtains "s' = s" | rows s1 date where "removed s rows s1"
    and "finishMemoryDeleteLocked s1 (dq_OwnerUserID req) rows date [] = Inr (res, s')"
  using assms(2)
  by (auto simp: DeleteMessages_def Let_def split: if_splits prod.splits
      dest!: removed_scan[OF _ boxes_ordered_distinct[OF ord]] removed_by_uid) (blast dest: removed_trans)+

lemma Delete_steps:
  assumes ord: "boxes_ordered s" and "ids_in_range s" and "DeleteMessages now order s req = Inr (res, s')"
  shows "box_steps cx clr s s'"
proof -
  have an: "anchors_ok s1 []" for s1 :: "'a message_store" by (simp add: anchors_ok_def pending_anchor_def)
  from DeleteMessages_removed[OF ord assms(3)] show ?thesis
    by cases (use finish_steps[OF assms(1,2) _ an] in auto)
qed

lemma removed_sub: "removed s rows s' \<Longrightarrow> set (ms_m s' u) \<subseteq> set (ms_m s u)"
  unfolding removed_def by (metis filter_is_subset)

lemma anchors_ok_removed: "anchors_ok s anchors \<Longrightarrow> removed s rows s' \<Longrightarrow> anchors_ok s' anchors"
  unfolding anchors_ok_def using removed_sub by blast

lemma top_scan_in: "top_scan p t ms = t \<or> top_scan p t ms \<in> set ms"
proof (induction ms arbitrary: t)
  case (Cons m ms)
  show ?case using Cons.IH[of t] Cons.IH[of m] by auto
qed simp

lemma boxes_ordered_same_id:
  assumes "boxes_ordered s" and "m \<in> set (ms_m s u)" and "n \<in> set (ms_m s u)" and "msg_ID m = msg_ID n"
  shows "m = n"
proof -
  have "sorted_wrt (\<lambda>a b. msg_ID a < msg_ID b) (ms_m s u)"
    using assms(1) by (auto simp: boxes_ordered_def elim!: sorted_wrt_mono_rel[rotated] allE[of _ u])
  then have "distinct (map msg_ID (ms_m s u))" by (simp add: strict_sorted_iff flip: sorted_wrt_map)
  with assms(2-4) show ?thesis by (auto simp: distinct_map dest: inj_onD)
qed

lemma anchor_in:
  assumes "memoryHistoryClearAnchorLocked s u p = Some a" shows "an_message a \<in> set (ms_m s u)"
proof -
  from assms have "an_message a = top_scan p zero_message (ms_m s u)" "msg_ID (top_scan p zero_message (ms_m s u)) \<noteq> 0"
    by (auto simp: memoryHistoryClearAnchorLocked_def Let_def split: if_splits)
  moreover have "msg_ID (zero_message :: 'a message) = 0" by (simp add: zero_message_def)
  ultimately show ?thesis using top_scan_in[of p zero_message "ms_m s u"] by metis
qed

lemma history_anchor_of:
  assumes "(u, a) \<in> set (history_anchors s req)" shows "\<exists>p. memoryHistoryClearAnchorLocked s u p = Some a"
proof -
  let ?pick = "\<lambda>u p. case memoryHistoryClearAnchorLocked s u p of None \<Rightarrow> [] | Some a \<Rightarrow> [(u, a)]"
  have p: "memoryHistoryClearAnchorLocked s u p = Some a" if "(u, a) \<in> set (?pick w p)" for w p
    using that by (cases "memoryHistoryClearAnchorLocked s w p") auto
  have "set (history_anchors s req) \<subseteq> set (?pick (hq_OwnerUserID req) (hq_Peer req)) \<union>
      set (?pick (peer_ID (hq_Peer req)) (user_peer (hq_OwnerUserID req)))"
    unfolding history_anchors_def Let_def by (simp only: set_append set_simps if_distrib split: if_split) auto
  with assms p show ?thesis by blast
qed

lemma history_anchors_in: "(u, a) \<in> set (history_anchors s req) \<Longrightarrow> an_message a \<in> set (ms_m s u)"
  using history_anchor_of anchor_in by blast

lemma history_anchors_ok:
  assumes "boxes_ordered s" shows "anchors_ok s (history_anchors s req)"
  unfolding anchors_ok_def
proof (intro allI impI)
  fix u am assume "pending_anchor (history_anchors s req) u = Some am"
  then obtain a where "map_of (history_anchors s req) u = Some a" "am = an_message a"
    by (auto simp: pending_anchor_def split: option.splits if_splits)
  then have "am \<in> set (ms_m s u)" by (auto dest: map_of_SomeD history_anchors_in)
  with assms boxes_ordered_same_id[OF assms] show "msg_OwnerUserID am = u \<and> (\<forall>m\<in>set (ms_m s u). msg_ID m = msg_ID am \<longrightarrow> slot m = slot am)"
    by (auto simp: boxes_ordered_def)
qed

lemma DeleteHistory_removed:
  assumes ord: "boxes_ordered s" and "DeleteHistory now order s req = Inr (res, s')"
  obtains "s' = s" | rows s1 date res' where "removed s rows s1"
    and "finishMemoryDeleteLocked s1 (hq_OwnerUserID req) rows date (history_anchors s req) = Inr (res', s')"
proof (cases "hq_OwnerUserID req = 0 \<or> peer_ID (hq_Peer req) = 0")
  case True
  with assms(2) show thesis by (intro that(1)) (auto simp: DeleteHistory_def Let_def)
next
  case False
  let ?date = "if hq_Date req = 0 then now else hq_Date req" and ?an = "history_anchors s req"
  obtain d1 u1 m1 s1 where a: "deleteMemoryMessagesLocked s (hq_OwnerUserID req) MaxDeleteHistoryBatch
      (\<lambda>m. \<not> is_anchor ?an (hq_OwnerUserID req) m \<and> msg_Peer m = hq_Peer req \<and>
         (hq_MaxID req \<le> 0 \<or> msg_ID m \<le> hq_MaxID req) \<and> in_date_range req m) = (d1, u1, m1, s1)" by (rule prod_cases4)
  have r1: "removed s d1 s1" by (rule removed_scan[OF a boxes_ordered_distinct[OF ord]])
  obtain d2 s2 where b: "(if hq_Revoke req \<and> hq_MaxID req > 0 \<and> u1 \<noteq> {}
      then case deleteMemoryMessagesByUIDLocked order s1 u1 (hq_OwnerUserID req) of (others, s) \<Rightarrow> (d1 @ others, s)
      else (d1, s1)) = (d2, s2)" by (rule prod.exhaust)
  have r2: "removed s d2 s2" using b r1
    by (auto split: if_splits prod.splits dest!: removed_by_uid intro: removed_trans)
  obtain d3 m3 s3 where c: "(if hq_Revoke req \<and> hq_MaxID req \<le> 0 \<and> peer_ID (hq_Peer req) \<noteq> hq_OwnerUserID req
      then case deleteMemoryMessagesLocked s2 (peer_ID (hq_Peer req)) MaxDeleteHistoryBatch
             (\<lambda>m. \<not> is_anchor ?an (peer_ID (hq_Peer req)) m \<and> msg_Peer m = user_peer (hq_OwnerUserID req) \<and> in_date_range req m) of
           (peerDeleted, _, peerMore, s) \<Rightarrow> (d2 @ peerDeleted, m1 \<or> peerMore, s)
      else (d2, m1, s2)) = (d3, m3, s3)" by (rule prod_cases3)
  have dist: "distinct (ms_m s2 u)" for u using removed_distinct[OF r2 boxes_ordered_distinct[OF ord]] .
  have r3: "removed s d3 s3" using c r2
    by (auto split: if_splits prod.splits dest!: removed_scan[OF _ dist] intro: removed_trans)
  show thesis
    using assms(2)[unfolded DeleteHistory_def Let_def if_not_P[OF False] a prod.case b c]
    by (cases "finishMemoryDeleteLocked s3 (hq_OwnerUserID req) d3 ?date ?an") (auto intro: that(2)[OF r3, of ?date])
qed

lemma Clear_steps:
  assumes "boxes_ordered s" and "ids_in_range s" and "clr \<or> \<not> full_clear req"
    and "DeleteHistory now order s req = Inr (res, s')"
  shows "box_steps cx clr s s'"
  using assms(1,4)
proof (rule DeleteHistory_removed)
  fix rows s1 date res' assume r: "removed s rows s1"
    "finishMemoryDeleteLocked s1 (hq_OwnerUserID req) rows date (history_anchors s req) = Inr (res', s')"
  have "history_anchors s req = [] \<or> clr" using assms(3) by (auto simp: history_anchors_def full_clear_def Let_def)
  then show ?thesis
    by (rule finish_steps[OF assms(1,2) r(1) anchors_ok_removed[OF history_anchors_ok[OF assms(1)] r(1)] _ r(2)])
qed simp

section \<open>The simulation\<close>

lemma op_steps:
  assumes "boxes_ordered s" and "json_codec_ok cx" and "op_ordered s op" and "ids_in_range s" and "clr \<or> \<not> op_clears op"
  shows "box_steps cx clr s (msg_exec cx s op)"
proof (cases op)
  case (OpUnpin now req)
  then show ?thesis by (simp add: state_after_steps[OF flags_only_step[OF Unpin_flags]])
next
  case (OpRead now req)
  then show ?thesis by (simp add: same_boxes_step[OF Read_same])
next
  case (OpLog events)
  then show ?thesis by (simp add: AttachUpdateEventStore_def same_boxes_step same_boxes_def)
qed (use assms in \<open>auto intro!: state_after_steps Create_step Forward_steps intro: SendPrivateText_steps Pin_steps Toggle_steps
      Delete_steps Clear_steps Edit_steps\<close>)


section \<open>Invariants of runs\<close>

text \<open>What a predicate has to satisfy to hold in every state of a run; \<open>clr\<close> tells whether full clears are covered.\<close>

locale box_invariant =
  fixes cx :: "'v json_codec" and clr :: bool and I :: "'v message_store \<Rightarrow> bool"
  assumes fresh: "fresh_store s \<Longrightarrow> I s"
    and step: "box_step cx clr s s' \<Longrightarrow> boxes_ordered s \<Longrightarrow> I s \<Longrightarrow> I s'"
begin

lemma steps: "box_steps cx clr s s' \<Longrightarrow> boxes_ordered s \<Longrightarrow> I s \<Longrightarrow> boxes_ordered s' \<and> I s'"
  by (induction rule: rtranclp_induct) (auto intro: step boxes_ordered_step)

lemma runs:
  assumes "msg_run cx s ops s'" and "json_codec_ok cx" and "boxes_ordered s" and "I s"
    and "clr \<or> \<not> list_ex op_clears ops"
  shows "boxes_ordered s' \<and> I s'"
  using assms
proof (induction rule: msg_run.induct)
  case (run_step s ops s' op)
  then have "boxes_ordered s' \<and> I s'" by auto
  with run_step op_steps[of s' cx op clr] steps show ?case by auto
qed simp

lemma from_fresh:
  assumes "fresh_store s0" and "msg_run cx s0 ops s" and "json_codec_ok cx" and "clr \<or> \<not> list_ex op_clears ops"
  shows "I s"
proof -
  have "boxes_ordered s0" using assms(1) by (auto simp: fresh_store_def NewMessageStore_def boxes_ordered_def)
  with runs[OF assms(2,3) _ fresh[OF assms(1)] assms(4)] show ?thesis by blast
qed

end

lemma fresh_invariants:
  assumes "fresh_store s"
  shows "boxes_ordered s" and "copies_paired s" and "copies_agree s" and "receipts_sound cx s"
  using assms by (auto simp: fresh_store_def NewMessageStore_def boxes_ordered_def copies_paired_def copies_agree_def
      copies_rel_def receipts_sound_def)

interpretation ordered: box_invariant cx clr boxes_ordered for cx clr
  by unfold_locales (rule fresh_invariants, assumption, rule boxes_ordered_step)

interpretation paired: box_invariant cx clr copies_paired for cx clr
  by unfold_locales (rule fresh_invariants, assumption, rule copies_paired_step)

interpretation agree: box_invariant cx False copies_agree for cx
  by unfold_locales (rule fresh_invariants, assumption, rule copies_agree_step)

interpretation receipts: box_invariant cx False "receipts_sound cx" for cx
  by unfold_locales (rule fresh_invariants, assumption, rule receipts_sound_step)

end
