(* ===== verification/Message_Properties.thy ===== *)
theory Message_Properties
  imports Message_Runs
begin

text \<open>
  Properties of the private messages of the memory store, over all runs of its operations: sends are
  idempotent by their random id, a reused random id is refused, and the two copies of a message stay
  together. \<open>unary_codec\<close> is a small encoder for the concrete inputs.
\<close>

section \<open>Receipts of a send\<close>

lemma fingerprint_length:
  assumes "json_codec_ok cx" and "PrivateSendFingerprint cx req = Inr fp" shows "length fp = sha256_Size"
  using assms by (auto simp: PrivateSendFingerprint_def json_codec_ok_def Let_def split: if_splits option.splits)

lemma immutable_receipt_ID: "msg_ID (immutablePrivateSendReceipt m) = msg_ID m"
  by (simp add: immutablePrivateSendReceipt_def)

lemma decoded_ID: "DecodePrivateSendSnapshot cx raw = Inr f \<Longrightarrow> 0 < msg_ID f"
  by (auto simp: DecodePrivateSendSnapshot_def snapshot_valid_def split: option.splits if_splits)

text \<open>The receipt that a send leaves, fresh or replayed.\<close>

definition receipt_for :: "'v json_codec \<Rightarrow> 'v send_request \<Rightarrow> bytes \<Rightarrow> 'v send_result \<Rightarrow> 'v dedup_record \<Rightarrow> bool" where
  "receipt_for cx req fp res r \<longleftrightarrow>
    pd_recipientUserID r = sr_RecipientUserID req \<and> SameSendFingerprint (pd_fingerprint r) fp \<and>
    msg_ID (pd_recipientMessage r) = msg_ID (sn_RecipientMessage res) \<and>
    (\<exists>f. DecodePrivateSendSnapshot cx (pd_senderSnapshot r) = Inr f \<and> msg_ID f = msg_ID (sn_SenderMessage res) \<and>
         msg_UID f = msg_UID (sn_SenderMessage res) \<and> msg_Pts f = ev_Pts (sn_SenderEvent res))"

lemma lookup_some:
  assumes "lookupPrivateSendReplayLocked cx s q = Inr (Some res)"
  obtains r f where "ms_dedup s (rr_SenderUserID q, rr_RandomID q) = Some r"
    and "pd_recipientUserID r = rr_RecipientUserID q" and "SameSendFingerprint (pd_fingerprint r) (rr_IdempotencyFingerprint q)"
    and "DecodePrivateSendSnapshot cx (pd_senderSnapshot r) = Inr f" and "msg_ID f = msg_ID (sn_SenderMessage res)"
    and "msg_UID f = msg_UID (sn_SenderMessage res)" and "msg_Pts f = ev_Pts (sn_SenderEvent res)"
    and "sn_RecipientMessage res = pd_recipientMessage r"
  using assms unfolding lookupPrivateSendReplayLocked_def Let_def
  by (auto simp: newMessageEvent_def find_Some_iff dest: decoded_ID split: option.splits sum.splits if_splits)

lemma send_receipt:
  assumes "SendPrivateText cx now s req = Inr (res, s1)" and "json_codec_ok cx" and "sr_RandomID req \<noteq> 0"
    and "PrivateSendFingerprint cx req = Inr fp" and "boxes_ordered s"
  shows "\<exists>r. ms_dedup s1 (sr_SenderUserID req, sr_RandomID req) = Some r \<and> receipt_for cx req fp res r"
proof -
  from assms(1,4) obtain evs where "sendPrivateTextLocked cx now s req fp None = Inr (res, evs, s1)"
    by (auto elim!: SendPrivateText_cases)
  then show ?thesis
  proof (cases rule: send_locked_cases)
    case replay
    from replay(1) show ?thesis by (rule lookup_some) (auto simp: receipt_for_def replay(3))
  next
    case (fresh date sreply rreply events al spts rpts al' sender recipient snapshot)
    from fresh(11) assms(3) have "EncodePrivateSendSnapshot cx sender = Inr snapshot" by simp
    from snapshot_roundtrip[OF assms(2) this] obtain f where f: "DecodePrivateSendSnapshot cx snapshot = Inr f"
      "msg_ID f = msg_ID sender" "msg_UID f = msg_UID sender" "msg_Pts f = msg_Pts sender" by metis
    have "0 < msg_ID sender" using decoded_ID[OF f(1)] f(2) by simp
    with f fresh(12,13) assms(3) fingerprint_length[OF assms(2,4)] show ?thesis
      by (auto simp: commit_send_def Let_def receipt_for_def SameSendFingerprint_def immutable_receipt_ID newMessageEvent_def)
  qed
qed

lemma find_found: "find P xs = Some x \<Longrightarrow> x \<in> set xs \<and> P x"
  by (auto simp: find_Some_iff)

text \<open>A sound receipt answers the request it was written for.\<close>

lemma receipt_answers:
  assumes "receipts_sound cx s" and "ms_dedup s (sr_SenderUserID req, sr_RandomID req) = Some r"
    and "receipt_for cx req fp res r" and "HasContent req" and "PrivateSendFingerprint cx req = Inr fp"
  shows "\<exists>res'. SendPrivateText cx now s req = Inr (res', s) \<and> sn_Duplicate res' \<and>
    msg_ID (sn_SenderMessage res') = msg_ID (sn_SenderMessage res) \<and>
    msg_UID (sn_SenderMessage res') = msg_UID (sn_SenderMessage res) \<and>
    msg_ID (sn_RecipientMessage res') = msg_ID (sn_RecipientMessage res) \<and>
    ev_Pts (sn_SenderEvent res') = ev_Pts (sn_SenderEvent res) \<and>
    (sn_ReplayDeleteEvent res' = None \<longrightarrow>
      (\<exists>m\<in>set (ms_m s (sr_SenderUserID req)). msg_ID m = msg_ID (sn_SenderMessage res) \<and>
         msg_UID m = msg_UID (sn_SenderMessage res) \<and> 
         sn_SenderMessage res' = m\<lparr>msg_RandomID := msg_RandomID (sn_SenderMessage res')\<rparr>))"
proof -
  from assms(3) obtain f where f: "DecodePrivateSendSnapshot cx (pd_senderSnapshot r) = Inr f"
    "msg_ID f = msg_ID (sn_SenderMessage res)" "msg_UID f = msg_UID (sn_SenderMessage res)"
    "msg_Pts f = ev_Pts (sn_SenderEvent res)" by (auto simp: receipt_for_def)
  let ?cur = "find (\<lambda>m. msg_UID m = msg_UID f \<and> msg_ID m = msg_ID f) (ms_m s (sr_SenderUserID req))"
  have c: "pd_senderDeleteEvent r \<noteq> None \<or> ?cur \<noteq> None"
    using assms(1,2) f(1) unfolding receipts_sound_def by (fastforce simp: find_None_iff)
  let ?res = "\<lparr>sn_SenderMessage = (case ?cur of None \<Rightarrow> f | Some m \<Rightarrow> m\<lparr>msg_RandomID := msg_RandomID f\<rparr>),
    sn_RecipientMessage = pd_recipientMessage r, sn_SenderEvent = newMessageEvent f,
    sn_RecipientEvent = newMessageEvent (pd_recipientMessage r), sn_Duplicate = True,
    sn_ReplayDeleteEvent = pd_senderDeleteEvent r\<rparr>"
  have l: "lookupPrivateSendReplayLocked cx s \<lparr>rr_SenderUserID = sr_SenderUserID req,
      rr_RecipientUserID = sr_RecipientUserID req, rr_RandomID = sr_RandomID req, rr_IdempotencyFingerprint = fp\<rparr> = Inr (Some ?res)"
    using assms(2,3) f(1) c by (auto simp: lookupPrivateSendReplayLocked_def receipt_for_def Let_def)
  have "SendPrivateText cx now s req = Inr (?res, s)"
    by (simp add: SendPrivateText_def assms(4,5) sendPrivateTextLocked_def l)
  moreover have "msg_ID (sn_SenderMessage ?res) = msg_ID f \<and> msg_UID (sn_SenderMessage ?res) = msg_UID f"
    by (cases ?cur) (auto dest: find_found)
  moreover have "\<exists>m\<in>set (ms_m s (sr_SenderUserID req)). msg_ID m = msg_ID f \<and> msg_UID m = msg_UID f \<and>
      sn_SenderMessage ?res = m\<lparr>msg_RandomID := msg_RandomID (sn_SenderMessage ?res)\<rparr>" if n: "pd_senderDeleteEvent r = None"
  proof -
    from c n obtain m where m: "?cur = Some m" by auto
    then have "m \<in> set (ms_m s (sr_SenderUserID req)) \<and> msg_UID m = msg_UID f \<and> msg_ID m = msg_ID f"
      by (auto dest: find_found)
    then show ?thesis by (intro bexI[of _ m]) (simp_all add: m)
  qed
  moreover have "ev_Pts (newMessageEvent f) = msg_Pts f" using decoded_ID[OF f(1)] by (simp add: newMessageEvent_def)
  ultimately show ?thesis using assms(3) f(2-4) by (intro exI[of _ ?res]) (simp add: receipt_for_def)
qed


section \<open>Idempotent sends\<close>

lemma run_receipts:
  assumes "msg_run cx s ops s'" and "json_codec_ok cx" and "boxes_ordered s"
  shows "receipts_kept (ms_dedup s) (ms_dedup s')"
  using assms
proof (induction rule: msg_run.induct)
  case (run_step s ops s' op)
  then have "boxes_ordered s'" using ordered.runs[OF run_step(1), where clr = True] by blast
  from box_steps_receipts[OF op_steps[OF this, of cx op True]] run_step show ?case
    by (auto intro: receipts_kept_trans)
qed simp

lemma receipt_later:
  assumes "receipts_kept d d'" and "d k = Some r" and "receipt_for cx req fp res r"
  shows "\<exists>r'. d' k = Some r' \<and> receipt_for cx req fp res r'"
  using assms unfolding receipts_kept_def same_receipt_def receipt_for_def by metis

lemma receipt_for_cong:
  "sr_RecipientUserID req' = sr_RecipientUserID req \<Longrightarrow> receipt_for cx req fp res r \<longleftrightarrow> receipt_for cx req' fp res r"
  by (simp add: receipt_for_def)

lemma clears_append [simp]: "list_ex op_clears (xs @ ys) \<longleftrightarrow> list_ex op_clears xs \<or> list_ex op_clears ys"
  by (induction xs) auto

text \<open>
  C20: Idempotent sends. In a run in which no account ever fully clears a history, neither before nor
  after the send: once a private message with a random id has been accepted, and after any further
  operations of any account on the store, sending it again (same sender, recipient, random id and
  fingerprint) changes nothing and is answered as a duplicate with the box id, shared id and pts of the
  first send and the box id of the recipient's copy. Unless a delete event has been recorded in the
  receipt of the send and is part of the answer, the answer carries the message as it is in the box now.
\<close>

theorem private_send_replay:
  assumes cx: "json_codec_ok cx" and "fresh_store s0" and "msg_run cx s0 ops s"
    and snd: "SendPrivateText cx now s req = Inr (res, s1)" and rid: "sr_RandomID req \<noteq> 0"
    and later: "msg_run cx s1 ops' s2" and clr: "\<not> list_ex op_clears (ops @ ops')"
    and same: "sr_SenderUserID req' = sr_SenderUserID req" "sr_RecipientUserID req' = sr_RecipientUserID req"
      "sr_RandomID req' = sr_RandomID req" "PrivateSendFingerprint cx req' = PrivateSendFingerprint cx req" "HasContent req'"
  shows "\<exists>res'. SendPrivateText cx now' s2 req' = Inr (res', s2) \<and> sn_Duplicate res' \<and>
    msg_ID (sn_SenderMessage res') = msg_ID (sn_SenderMessage res) \<and>
    msg_UID (sn_SenderMessage res') = msg_UID (sn_SenderMessage res) \<and>
    msg_ID (sn_RecipientMessage res') = msg_ID (sn_RecipientMessage res) \<and>
    ev_Pts (sn_SenderEvent res') = ev_Pts (sn_SenderEvent res) \<and>
    (sn_ReplayDeleteEvent res' = None \<longrightarrow>
      (\<exists>m\<in>set (ms_m s2 (sr_SenderUserID req)). msg_ID m = msg_ID (sn_SenderMessage res) \<and>
         msg_UID m = msg_UID (sn_SenderMessage res) \<and>
         sn_SenderMessage res' = m\<lparr>msg_RandomID := msg_RandomID (sn_SenderMessage res')\<rparr>))"
proof -
  have no: "\<not> list_ex op_clears ops" "\<not> list_ex op_clears ops'" using clr by auto
  have o: "boxes_ordered s" and r: "receipts_sound cx s"
    using ordered.from_fresh[OF assms(2,3) cx, of True] receipts.from_fresh[OF assms(2,3) cx] no by auto
  have "boxes_ordered s1 \<and> receipts_sound cx s1"
    using receipts.steps[OF SendPrivateText_steps[OF snd cx o] o r] .
  then have o1: "boxes_ordered s1" and r2: "receipts_sound cx s2"
    using receipts.runs[OF later cx] no by auto
  obtain fp where fp: "PrivateSendFingerprint cx req = Inr fp" using SendPrivateText_cases[OF snd] by metis
  obtain q where "ms_dedup s1 (sr_SenderUserID req, sr_RandomID req) = Some q" "receipt_for cx req fp res q"
    using send_receipt[OF snd cx rid fp o] by blast
  from receipt_later[OF run_receipts[OF later cx o1] this] obtain q' where
    q': "ms_dedup s2 (sr_SenderUserID req, sr_RandomID req) = Some q'" "receipt_for cx req fp res q'" by blast
  show ?thesis
    using receipt_answers[OF r2, of req' q' fp res now'] q' same fp receipt_for_cong[OF same(2)] by simp
qed

text \<open>
  C21: A random id belongs to one send. After a private message with a random id has been accepted, and
  after any further operations on the store, a send of the same account with the same random id to
  another recipient, or with another fingerprint, fails with the error for a duplicate random id.
\<close>

theorem random_id_conflict:
  assumes cx: "json_codec_ok cx" and "fresh_store s0" and "msg_run cx s0 ops s"
    and snd: "SendPrivateText cx now s req = Inr (res, s1)" and rid: "sr_RandomID req \<noteq> 0"
    and later: "msg_run cx s1 ops' s2"
    and same: "sr_SenderUserID req' = sr_SenderUserID req" "sr_RandomID req' = sr_RandomID req" "HasContent req'"
      "PrivateSendFingerprint cx req' = Inr fp'"
    and other: "sr_RecipientUserID req' \<noteq> sr_RecipientUserID req \<or> PrivateSendFingerprint cx req \<noteq> Inr fp'"
  shows "SendPrivateText cx now' s2 req' = Inl ErrMessageRandomIDDuplicate"
proof -
  have o: "boxes_ordered s" using ordered.from_fresh[OF assms(2,3) cx, of True] by simp
  have o1: "boxes_ordered s1" using boxes_ordered_steps[OF SendPrivateText_steps[OF snd cx o, of True] o] .
  obtain fp where fp: "PrivateSendFingerprint cx req = Inr fp" using SendPrivateText_cases[OF snd] by metis
  obtain q where "ms_dedup s1 (sr_SenderUserID req, sr_RandomID req) = Some q" "receipt_for cx req fp res q"
    using send_receipt[OF snd cx rid fp o] by blast
  from receipt_later[OF run_receipts[OF later cx o1] this] obtain q' where
    q': "ms_dedup s2 (sr_SenderUserID req, sr_RandomID req) = Some q'" "receipt_for cx req fp res q'" by blast
  have "lookupPrivateSendReplayLocked cx s2 \<lparr>rr_SenderUserID = sr_SenderUserID req',
      rr_RecipientUserID = sr_RecipientUserID req', rr_RandomID = sr_RandomID req', rr_IdempotencyFingerprint = fp'\<rparr> =
      Inl ErrMessageRandomIDDuplicate"
    using q' same other fp by (auto simp: lookupPrivateSendReplayLocked_def receipt_for_def SameSendFingerprint_def)
  then show ?thesis using same by (simp add: SendPrivateText_def sendPrivateTextLocked_def)
qed

section \<open>The copies of a message\<close>

text \<open>
  C22: Copies of a message. In every state that the store reaches, each box has its messages in strictly
  increasing order of box id and shared id, and belongs to its owner. When two accounts have a copy of
  one message, each copy has the other account as its peer, and the dates agree; unless a history has been
  cleared to its anchor, sender, text, entities and media agree too, whatever edits and answers there
  have been.
\<close>

theorem message_copies:
  assumes "json_codec_ok cx" and "fresh_store s0" and "msg_run cx s0 ops s"
  shows "sorted_wrt (\<lambda>a b. msg_ID a < msg_ID b \<and> msg_UID a < msg_UID b) (ms_m s u) \<and>
    (\<forall>m\<in>set (ms_m s u). msg_OwnerUserID m = u \<and> 1 \<le> msg_ID m \<and> msg_ID m \<le> ms_nextBox s u \<and>
      (\<forall>v n. v \<noteq> u \<longrightarrow> n \<in> set (ms_m s v) \<longrightarrow> msg_UID n = msg_UID m \<longrightarrow>
         msg_Peer m = user_peer v \<and> msg_Peer n = user_peer u \<and> msg_Date n = msg_Date m \<and>
         (\<not> list_ex op_clears ops \<longrightarrow> msg_From n = msg_From m \<and> msg_Body n = msg_Body m \<and>
            msg_Entities n = msg_Entities m \<and> msg_Media n = msg_Media m)))"
proof -
  have o: "boxes_ordered s" and p: "copies_paired s"
    using ordered.from_fresh[OF assms(2,3,1), of True] paired.from_fresh[OF assms(2,3,1), of True] by simp_all
  have a: "\<not> list_ex op_clears ops \<Longrightarrow> copies_agree s" using agree.from_fresh[OF assms(2,3,1)] by simp
  have "msg_Peer m = user_peer v \<and> msg_Peer n = user_peer u \<and> msg_Date n = msg_Date m"
    if "m \<in> set (ms_m s u)" "v \<noteq> u" "n \<in> set (ms_m s v)" "msg_UID n = msg_UID m" for v m n
    using p that unfolding copies_paired_def copies_rel_def by metis
  moreover have "msg_From n = msg_From m \<and> content n = content m"
    if "\<not> list_ex op_clears ops" "m \<in> set (ms_m s u)" "v \<noteq> u" "n \<in> set (ms_m s v)" "msg_UID n = msg_UID m" for v m n
    using a that unfolding copies_agree_def copies_rel_def by metis
  ultimately show ?thesis using o by (simp add: boxes_ordered_def content_def)
qed

end
