(* ===== verification/Message_Deletion.thy ===== *)
theory Message_Deletion
  imports Message_Runs
begin

text \<open>
  What \<open>DeleteMessages\<close> does, in terms of a reference definition: \<open>delete_targets\<close> are the messages of
  each account that a request addresses, and \<open>deleted_item\<close> is the entry of an account in the answer.
\<close>

definition delete_targets :: "'v message_store \<Rightarrow> delete_request \<Rightarrow> int \<Rightarrow> 'v message list" where
  "delete_targets s req u =
    (let hit = (\<lambda>m. msg_ID m \<in> set (dq_IDs req)); mine = ms_m s (dq_OwnerUserID req)
     in if u = dq_OwnerUserID req then filter hit mine
        else if dq_Revoke req then filter (\<lambda>m. msg_UID m \<in> msg_UID ` set (filter hit mine)) (ms_m s u)
        else [])"

definition deleted_item :: "'v message_store \<Rightarrow> int \<Rightarrow> (int \<Rightarrow> 'v message list) \<Rightarrow> int \<Rightarrow> 'v deleted_for_user" where
  "deleted_item s date gone u =
    (let ids = map msg_ID (gone u); pts = ms_nextPts s u + int (length ids); event = delete_event u pts date ids
     in \<lparr>du_UserID = u, du_MessageIDs = ids, du_Event = event, du_Events = [event], du_Pts = pts, du_PtsCount = int (length ids)\<rparr>)"

section \<open>The rows of an account\<close>

lemma valid_ids:
  assumes "boxes_ordered s" and "ids_in_range s" and "m \<in> set (ms_m s u)"
  shows "0 < msg_ID m" and "msg_ID m \<le> MaxMessageBoxID" and "msg_UID m \<noteq> 0"
proof -
  have "1 \<le> msg_ID m \<and> msg_ID m \<le> ms_nextBox s u \<and> 1 \<le> msg_UID m" "ms_nextBox s u \<le> MaxMessageBoxID"
    using assms by (simp_all add: boxes_ordered_def ids_in_range_def)
  then show "0 < msg_ID m" and "msg_ID m \<le> MaxMessageBoxID" and "msg_UID m \<noteq> 0" by auto
qed

lemma normalize_sorted:
  assumes "sorted_wrt (<) ids" and "\<forall>i\<in>set ids. 0 < i \<and> i \<le> MaxMessageBoxID"
  shows "normalizeMemoryMessageIDs ids = ids"
proof -
  from assms(2) have "filter (\<lambda>i. \<not> (i \<le> 0 \<or> i > MaxMessageBoxID)) ids = ids" by (auto simp: filter_id_conv)
  with assms(1) show ?thesis
    by (simp add: normalizeMemoryMessageIDs_def strict_sorted_iff distinct_remdups_id sorted_sort_id)
qed

lemma box_ids_sorted: "boxes_ordered s \<Longrightarrow> sorted_wrt (<) (map msg_ID (filter P (ms_m s u)))"
  unfolding sorted_wrt_map
  by (rule sorted_wrt_filter) (auto simp: boxes_ordered_def elim!: sorted_wrt_mono_rel[rotated] allE[of _ u])

lemma normalize_mem: "i \<in> set (normalizeMemoryMessageIDs ids) \<longleftrightarrow> i \<in> set ids \<and> 0 < i \<and> i \<le> MaxMessageBoxID"
  by (auto simp: normalizeMemoryMessageIDs_def)

text \<open>The rows that a pass over distinct accounts collects, selected by account.\<close>

definition rows_from :: "(int \<Rightarrow> 'v message list) \<Rightarrow> int list \<Rightarrow> deleted_row list" where
  "rows_from gone us = concat (map (\<lambda>u. map (row_of u) (gone u)) us)"

lemma rows_from_select:
  "distinct us \<Longrightarrow> filter (\<lambda>r. dw_userID r = u) (rows_from gone us) = (if u \<in> set us then map (row_of u) (gone u) else [])"
proof (induction us)
  case (Cons w us)
  have "filter (\<lambda>r. dw_userID r = u) (map (row_of w) xs) = (if w = u then map (row_of w) xs else [])" for xs :: "'a message list"
    by (induction xs) (auto simp: row_of_def)
  with Cons show ?case by (auto simp: rows_from_def)
qed (simp add: rows_from_def)

lemma rows_from_users: "dw_userID ` set (rows_from gone us) = {u \<in> set us. gone u \<noteq> []}"
  by (fastforce simp: rows_from_def row_of_def image_iff neq_Nil_conv)

section \<open>The accounts in turn\<close>

lemma delete_owners_exact:
  assumes "\<And>u. u \<in> set us \<Longrightarrow> deleted_ids rows u = map msg_ID (gone u) \<and> gone u \<noteq> []" and "distinct us"
  shows "\<exists>s'. delete_owners date rows [] us (items, s) = Inr (items @ map (deleted_item s date gone) us, s') \<and>
    ms_m s' = ms_m s \<and> (\<forall>u. ms_nextPts s' u = ms_nextPts s u + (if u \<in> set us then int (length (gone u)) else 0))"
  using assms
proof (induction us arbitrary: items s)
  case (Cons u us)
  from Cons.prems have g: "deleted_ids rows u = map msg_ID (gone u)" "map msg_ID (gone u) \<noteq> []"
    and us: "u \<notin> set us" "distinct us" by auto
  have "pending_anchor [] u = None" by (simp add: pending_anchor_def)
  from delete_owner_plain[OF this g refl refl, of date items s]
  obtain s1 where d: "delete_owner date rows [] u (items, s) = Inr (items @ [deleted_item s date gone u], s1)"
    and s1: "ms_m s1 = ms_m s" "ms_nextPts s1 = (ms_nextPts s)(u := ms_nextPts s u + int (length (gone u)))"
    by (auto simp: deleted_item_def Let_def)
  from Cons.IH[of "items @ [deleted_item s date gone u]" s1] Cons.prems us obtain s' where
    r: "delete_owners date rows [] us (items @ [deleted_item s date gone u], s1) =
        Inr ((items @ [deleted_item s date gone u]) @ map (deleted_item s1 date gone) us, s')"
    "ms_m s' = ms_m s1" "\<forall>w. ms_nextPts s' w = ms_nextPts s1 w + (if w \<in> set us then int (length (gone w)) else 0)" by auto
  have "map (deleted_item s1 date gone) us = map (deleted_item s date gone) us"
    using us(1) by (auto simp: deleted_item_def s1(2) Let_def)
  with d r s1 us(1) show ?case by (intro exI[of _ s']) auto
qed simp

lemma finish_exact:
  fixes s :: "'v message_store" and gone :: "int \<Rightarrow> 'v message list"
  assumes "distinct us" and "\<And>u. u \<in> set us \<Longrightarrow> normalizeMemoryMessageIDs (map msg_ID (gone u)) = map msg_ID (gone u)"
  shows "\<exists>s' ws. finishMemoryDeleteLocked s owner (rows_from gone us) date [] =
      Inr (\<lparr>de_OwnerUserID = owner, de_Deleted = map (deleted_item s date gone) ws, de_Offset = 0\<rparr>, s') \<and>
    sorted ws \<and> distinct ws \<and> set ws = {u \<in> set us. gone u \<noteq> []} \<and> ms_m s' = ms_m s \<and>
    (\<forall>u. ms_nextPts s' u = ms_nextPts s u + (if u \<in> set us then int (length (gone u)) else 0))"
proof -
  let ?rows = "rows_from gone us" and ?ws = "delete_owner_ids (rows_from gone us) ([] :: (int \<times> 'v history_clear_anchor) list)"
  have ws: "sorted ?ws" "distinct ?ws" "set ?ws = {u \<in> set us. gone u \<noteq> []}"
    by (simp_all add: delete_owner_ids_def rows_from_users)
  have ids: "deleted_ids ?rows u = map msg_ID (gone u)" if "u \<in> set us" for u
    using that assms by (simp add: deleted_ids_def rows_from_select comp_def row_of_def)
  show ?thesis
  proof (cases "?rows = []")
    case True
    then have "?ws = []" by (simp add: delete_owner_ids_def)
    with True ws show ?thesis by (intro exI[of _ s] exI[of _ "[]"]) (auto simp: finishMemoryDeleteLocked_def)
  next
    case False
    let ?s = "s\<lparr>ms_savedMessageTags := clear_tags ?rows (ms_savedMessageTags s)\<rparr>"
    have "deleted_item ?s date gone = deleted_item s date gone" by (simp add: deleted_item_def fun_eq_iff)
    with delete_owners_exact[of ?ws ?rows gone date "[]" ?s] ids ws obtain s' where
      "delete_owners date ?rows [] ?ws ([], ?s) = Inr (map (deleted_item s date gone) ?ws, s')" "ms_m s' = ms_m s"
      "\<forall>u. ms_nextPts s' u = ms_nextPts s u + (if u \<in> set ?ws then int (length (gone u)) else 0)" by auto
    with False ws show ?thesis
      by (intro exI[of _ s'] exI[of _ ?ws]) (auto simp: finishMemoryDeleteLocked_def Let_def)
  qed
qed


section \<open>The operation\<close>

lemma targets_filter: "\<exists>P. delete_targets s req u = filter P (ms_m s u)"
proof -
  have "[] = filter (\<lambda>_. False) (ms_m s u)" by simp
  then show ?thesis unfolding delete_targets_def Let_def by (metis (no_types, lifting))
qed

lemma targets_normal:
  assumes "boxes_ordered s" and "ids_in_range s"
  shows "normalizeMemoryMessageIDs (map msg_ID (delete_targets s req u)) = map msg_ID (delete_targets s req u)"
proof -
  obtain P where P: "delete_targets s req u = filter P (ms_m s u)" using targets_filter by blast
  show ?thesis unfolding P
    by (rule normalize_sorted[OF box_ids_sorted[OF assms(1)]]) (auto dest: valid_ids[OF assms])
qed

text \<open>The two passes of the operation: the rows they collect and the boxes they leave.\<close>

lemma delete_pass:
  assumes ord: "boxes_ordered s" and rng: "ids_in_range s" and "range_order s order" and "dq_OwnerUserID req \<noteq> 0"
    and "normalizeMemoryMessageIDs (dq_IDs req) \<noteq> []"
    and "int (length (normalizeMemoryMessageIDs (dq_IDs req))) \<le> MaxDeleteMessageIDs"
    and date: "date = (if dq_Date req = 0 then now else dq_Date req)"
  obtains us s1 where "DeleteMessages now order s req =
      finishMemoryDeleteLocked s1 (dq_OwnerUserID req) (rows_from (delete_targets s req) us) date []"
    and "distinct us" and "\<And>u. delete_targets s req u \<noteq> [] \<Longrightarrow> u \<in> set us" and "ms_nextPts s1 = ms_nextPts s"
    and "\<And>u. ms_m s1 u = filter (\<lambda>m. m \<notin> set (delete_targets s req u)) (ms_m s u)"
proof -
  let ?o = "dq_OwnerUserID req" and ?ids = "normalizeMemoryMessageIDs (dq_IDs req)"
  let ?hit = "\<lambda>m. msg_ID m \<in> set ?ids"
  let ?del = "filter ?hit (ms_m s ?o)" and ?box = "(ms_m s)(?o := filter (\<lambda>m. \<not> ?hit m) (ms_m s ?o))"
  have hit: "?hit m \<longleftrightarrow> msg_ID m \<in> set (dq_IDs req)" if "m \<in> set (ms_m s ?o)" for m
    using valid_ids[OF ord rng that] by (simp add: normalize_mem)
  then have own: "delete_targets s req ?o = ?del" by (auto simp: delete_targets_def Let_def cong: filter_cong)
  have uids: "msg_UID ` {m \<in> set ?del. msg_UID m \<noteq> 0} = msg_UID ` set ?del"
    using valid_ids(3)[OF ord rng] by auto
  have oth: "delete_targets s req u = (if dq_Revoke req then filter (\<lambda>m. msg_UID m \<in> msg_UID ` set ?del) (ms_m s u) else [])"
    if "u \<noteq> ?o" for u using that hit by (auto simp: delete_targets_def Let_def image_iff intro!: filter_cong)
  have scan: "deleteMemoryMessagesLocked s ?o 0 ?hit = (map (row_of ?o) ?del, msg_UID ` set ?del, False, s\<lparr>ms_m := ?box\<rparr>)"
    by (simp add: deleteMemoryMessagesLocked_def delete_scan_nolimit uids[simplified])
  have "distinct order" and cov: "\<And>u. ms_m s u \<noteq> [] \<Longrightarrow> u \<in> set order" using assms(3) by (auto simp: range_order_def)
  have tne: "u \<in> set order" if "delete_targets s req u \<noteq> []" for u
    using that cov[of u] targets_filter[of s req u] by (metis filter.simps(1))
  have c1: "\<not> (?o = 0 \<or> ?ids = [])" and c2: "\<not> int (length ?ids) > MaxDeleteMessageIDs" using assms(4-6) by auto
  show thesis
  proof (cases "dq_Revoke req \<and> msg_UID ` set ?del \<noteq> {}")
    case True
    let ?us = "?o # filter (\<lambda>u. u \<noteq> ?o) order"
    let ?s1 = "s\<lparr>ms_m := \<lambda>u. if u \<in> set order \<and> u \<noteq> ?o then filter (\<lambda>m. msg_UID m \<notin> msg_UID ` set ?del) (ms_m s u) else ?box u\<rparr>"
    have by_uid: "deleteMemoryMessagesByUIDLocked order (s\<lparr>ms_m := ?box\<rparr>) (msg_UID ` set ?del) ?o =
        (concat (map (\<lambda>u. map (row_of u) (delete_targets s req u)) (filter (\<lambda>u. u \<noteq> ?o) order)), ?s1)"
      using True oth by (auto simp: deleteMemoryMessagesByUIDLocked_def Let_def fun_eq_iff intro!: arg_cong[where f = concat])
    show thesis
    proof (rule that[of ?s1 ?us])
      show "DeleteMessages now order s req =
          finishMemoryDeleteLocked ?s1 ?o (rows_from (delete_targets s req) ?us) date []"
        unfolding DeleteMessages_def Let_def if_not_P[OF c1] if_not_P[OF c2] scan prod.case if_P[OF True] by_uid date
        by (simp only: own rows_from_def list.map concat.simps)
      fix u show "ms_m ?s1 u = filter (\<lambda>m. m \<notin> set (delete_targets s req u)) (ms_m s u)"
        using True cov[of u] by (cases "ms_m s u = []") (auto simp: own oth intro!: filter_cong)
    qed (use \<open>distinct order\<close> tne in auto)
  next
    case False
    then have none: "delete_targets s req u = []" if "u \<noteq> ?o" for u using that oth[of u] by (cases "dq_Revoke req") auto
    show thesis
    proof (rule that[of "s\<lparr>ms_m := ?box\<rparr>" "[?o]"])
      show "DeleteMessages now order s req =
          finishMemoryDeleteLocked (s\<lparr>ms_m := ?box\<rparr>) ?o (rows_from (delete_targets s req) [?o]) date []"
        unfolding DeleteMessages_def Let_def if_not_P[OF c1] if_not_P[OF c2] scan prod.case if_not_P[OF False] date
        by (simp add: own rows_from_def)
      fix u show "u \<in> set [?o]" if "delete_targets s req u \<noteq> []"
        using that none[of u] by (cases "u = ?o") auto
      show "ms_m (s\<lparr>ms_m := ?box\<rparr>) u = filter (\<lambda>m. m \<notin> set (delete_targets s req u)) (ms_m s u)"
        using none[of u] by (cases "u = ?o") (auto simp: own intro!: filter_cong)
    qed simp_all
  qed
qed


text \<open>
  C23: Exact deletion. In every state that the store reaches, deleting a list of box ids of an account
  (at most the allowed number of valid ids) succeeds. From the box of the account exactly the addressed
  messages go, and with revocation exactly their copies in the boxes of the other accounts; every other
  message stays in its place. The answer has one entry per affected account, in ascending order of the
  accounts, with the ids removed there and the pts of its event, the pts of each account advance by the number of messages it lost,
  and none of this depends on the order in which the boxes are visited.
\<close>

theorem delete_messages_exact:
  assumes "json_codec_ok cx" and "fresh_store s0" and "msg_run cx s0 ops s" and "ids_in_range s" and "range_order s ord"
    and "dq_OwnerUserID req \<noteq> 0" and "int (length (normalizeMemoryMessageIDs (dq_IDs req))) \<le> MaxDeleteMessageIDs"
    and "date = (if dq_Date req = 0 then now else dq_Date req)"
  shows "\<exists>s' us. DeleteMessages now ord s req =
      Inr (\<lparr>de_OwnerUserID = dq_OwnerUserID req, de_Deleted = map (deleted_item s date (delete_targets s req)) us, de_Offset = 0\<rparr>, s') \<and>
    sorted us \<and> distinct us \<and> set us = {u. delete_targets s req u \<noteq> []} \<and>
    (\<forall>u. ms_m s' u = filter (\<lambda>m. m \<notin> set (delete_targets s req u)) (ms_m s u) \<and>
         ms_nextPts s' u = ms_nextPts s u + int (length (delete_targets s req u)))"
proof -
  have o: "boxes_ordered s" using ordered.from_fresh[OF assms(2,3,1), of True] by simp
  show ?thesis
  proof (cases "normalizeMemoryMessageIDs (dq_IDs req) = []")
    case True
    then have "msg_ID m \<notin> set (dq_IDs req)" if "m \<in> set (ms_m s (dq_OwnerUserID req))" for m
      using valid_ids[OF o assms(4) that] normalize_mem[of "msg_ID m" "dq_IDs req"] by simp
    then have none: "delete_targets s req u = []" for u by (auto simp: delete_targets_def Let_def filter_empty_conv)
    show ?thesis using True by (intro exI[of _ s] exI[of _ "[]"]) (simp add: DeleteMessages_def none)
  next
    case False
    obtain vs s1 where d: "DeleteMessages now ord s req =
        finishMemoryDeleteLocked s1 (dq_OwnerUserID req) (rows_from (delete_targets s req) vs) date []"
      and vs: "distinct vs" "\<And>u. delete_targets s req u \<noteq> [] \<Longrightarrow> u \<in> set vs" and p: "ms_nextPts s1 = ms_nextPts s"
      and m: "\<And>u. ms_m s1 u = filter (\<lambda>m. m \<notin> set (delete_targets s req u)) (ms_m s u)"
      using delete_pass[OF o assms(4,5,6) False assms(7,8)] by metis
    have it: "deleted_item s1 date g = deleted_item s date g" for g :: "int \<Rightarrow> 'a message list" by (simp add: deleted_item_def p fun_eq_iff)
    from finish_exact[OF vs(1), where gone = "delete_targets s req" and s = s1 and owner = "dq_OwnerUserID req" and date = date]
      targets_normal[OF o assms(4)]
    obtain s' us where f: "finishMemoryDeleteLocked s1 (dq_OwnerUserID req) (rows_from (delete_targets s req) vs) date [] =
        Inr (\<lparr>de_OwnerUserID = dq_OwnerUserID req, de_Deleted = map (deleted_item s date (delete_targets s req)) us, de_Offset = 0\<rparr>, s')"
      and us: "sorted us" "distinct us" "set us = {u \<in> set vs. delete_targets s req u \<noteq> []}" and m': "ms_m s' = ms_m s1"
      and p': "\<forall>u. ms_nextPts s' u = ms_nextPts s u + (if u \<in> set vs then int (length (delete_targets s req u)) else 0)"
      unfolding it p by blast
    have "ms_nextPts s' u = ms_nextPts s u + int (length (delete_targets s req u))" for u
      using p' vs(2)[of u] by auto
    moreover have "set us = {u. delete_targets s req u \<noteq> []}" using us(3) vs(2) by auto
    ultimately show ?thesis using d f us(1,2) m m' by (intro exI[of _ s'] exI[of _ us]) simp
  qed
qed

end
