(* ===== verification/Message_Pages.thy ===== *)
theory Message_Pages
  imports Message_Runs "HOL-Library.Multiset"
begin

text \<open>
  Pages of a history as windows of the filtered box: the three load types of \<open>pageMessageHistory\<close> are
  one slice, given by the number of messages at or above the offset id and the additional offset.
\<close>

lemma desc_keys: "sorted_wrt (\<lambda>a b. msg_ID b < msg_ID a) xs \<Longrightarrow> sorted (map (\<lambda>m. - msg_ID m) xs)"
  unfolding sorted_map by (erule sorted_wrt_mono_rel[rotated]) simp

lemma newest_first_desc: "sorted_wrt (\<lambda>a b. msg_ID b < msg_ID a) xs \<Longrightarrow> newest_first xs = xs"
  unfolding newest_first_def by (intro sort_key_id_if_sorted desc_keys)

lemma newest_first_asc:
  assumes "sorted_wrt (\<lambda>a b. msg_ID a < msg_ID b) xs" shows "newest_first xs = rev xs"
proof -
  have d: "sorted_wrt (\<lambda>a b. msg_ID b < msg_ID a) (rev xs)" using assms by (simp add: sorted_wrt_rev)
  have "distinct (map msg_ID xs)" using assms by (simp add: strict_sorted_iff flip: sorted_wrt_map)
  then have "inj_on (\<lambda>m. - msg_ID m) (set xs)" by (auto simp: distinct_map inj_on_def)
  then show ?thesis unfolding newest_first_def by (intro sort_key_inj_key_eq desc_keys[OF d]) simp_all
qed

text \<open>The two scans, by the messages they let through.\<close>

lemma backward_loop_eq:
  "int (length out) < limit \<Longrightarrow>
   backward_loop f limit out ms = out @ take (nat (limit - int (length out))) (filter (messageBeforeHistoryOffset f) ms)"
proof (induction ms arbitrary: out)
  case (Cons m ms)
  have "nat (limit - int (length out)) = Suc (nat (limit - int (length (out @ [m]))))" using Cons.prems by simp
  with Cons show ?case by (auto simp: Let_def)
qed simp

lemma forward_scan_eq:
  "int (length out) < limit \<Longrightarrow>
   forward_scan f limit skip out ms =
     out @ take (nat (limit - int (length out))) (drop (nat skip) (filter (messageAfterHistoryOffset f) ms))"
proof (induction ms arbitrary: out skip)
  case (Cons m ms)
  have "nat (limit - int (length out)) = Suc (nat (limit - int (length (out @ [m]))))" using Cons.prems by simp
  moreover have "nat skip = Suc (nat (skip - 1))" if "0 < skip" using that by simp
  ultimately show ?case using Cons by (auto simp: Let_def)
qed simp

text \<open>The number of messages at or above the offset.\<close>

definition offset_rank :: "message_filter \<Rightarrow> 'v message list \<Rightarrow> nat" where
  "offset_rank f base = (if mf_OffsetID f \<le> 0 then 0 else length (filter (\<lambda>m. msg_ID m \<ge> mf_OffsetID f) base))"

lemma desc_split:
  assumes "sorted_wrt (\<lambda>a b. msg_ID b < msg_ID a) base"
  shows "filter (\<lambda>m. msg_ID m \<ge> i) base = take (length (filter (\<lambda>m. msg_ID m \<ge> i) base)) base"
    and "filter (\<lambda>m. msg_ID m < i) base = drop (length (filter (\<lambda>m. msg_ID m \<ge> i) base)) base"
proof -
  have "base = filter (\<lambda>m. msg_ID m \<ge> i) base @ filter (\<lambda>m. msg_ID m < i) base"
    using assms
  proof (induction base)
    case (Cons a base)
    have "filter (\<lambda>m. msg_ID m \<ge> i) base = []" if "msg_ID a < i"
      using Cons.prems that by (auto simp: filter_empty_conv)
    with Cons show ?case by auto
  qed simp
  then show "filter (\<lambda>m. msg_ID m \<ge> i) base = take (length (filter (\<lambda>m. msg_ID m \<ge> i) base)) base"
    and "filter (\<lambda>m. msg_ID m < i) base = drop (length (filter (\<lambda>m. msg_ID m \<ge> i) base)) base"
    by (metis append_eq_conv_conj)+
qed

lemma offset_sides:
  assumes "sorted_wrt (\<lambda>a b. msg_ID b < msg_ID a) base" and "mf_OffsetDate f \<le> 0"
  shows "filter (messageBeforeHistoryOffset f) base = drop (offset_rank f base) base"
    and "filter (messageAfterHistoryOffset f) base = take (offset_rank f base) base"
proof -
  have b: "messageBeforeHistoryOffset f = (\<lambda>m. mf_OffsetID f \<le> 0 \<or> msg_ID m < mf_OffsetID f)"
    and a: "messageAfterHistoryOffset f = (\<lambda>m. \<not> mf_OffsetID f \<le> 0 \<and> msg_ID m \<ge> mf_OffsetID f)"
    using assms(2) by (auto simp: messageBeforeHistoryOffset_def messageAfterHistoryOffset_def fun_eq_iff)
  show "filter (messageBeforeHistoryOffset f) base = drop (offset_rank f base) base"
    and "filter (messageAfterHistoryOffset f) base = take (offset_rank f base) base"
    using desc_split[OF assms(1), of "mf_OffsetID f"] by (auto simp: a b offset_rank_def)
qed

lemma backward_slice:
  assumes "sorted_wrt (\<lambda>a b. msg_ID b < msg_ID a) base" and "mf_OffsetDate f \<le> 0"
  shows "backwardMessageHistory base f limit = take (nat limit) (drop (offset_rank f base) base)"
  using backward_loop_eq[of "[]" limit f base] offset_sides[OF assms] by (simp add: backwardMessageHistory_def)

lemma forward_slice:
  assumes d: "sorted_wrt (\<lambda>a b. msg_ID b < msg_ID a) base" and "mf_OffsetDate f \<le> 0" and "0 \<le> skip"
  defines "k \<equiv> int (offset_rank f base)"
  shows "forwardMessageHistory base f limit skip =
    take (nat (k - skip) - nat (k - skip - limit)) (drop (nat (k - skip - limit)) base)"
proof (cases "limit \<le> 0")
  case True
  then have "nat (k - skip) - nat (k - skip - limit) = 0" by simp
  with True show ?thesis by (simp add: forwardMessageHistory_def)
next
  case False
  let ?k = "offset_rank f base" and ?w = "take (nat (k - skip) - nat (k - skip - limit)) (drop (nat (k - skip - limit)) base)"
  have k: "?k \<le> length base" by (simp add: offset_rank_def)
  have "forward_scan f limit skip [] (rev base) = take (nat limit) (drop (nat skip) (rev (take ?k base)))"
    using False forward_scan_eq[of "[]" limit f skip "rev base"] offset_sides(2)[OF assms(1,2)]
    by (simp flip: rev_filter)
  also have "\<dots> = rev (drop (nat (k - skip - limit)) (take (nat (k - skip)) base))"
  proof -
    have "drop (nat skip) (rev (take ?k base)) = rev (take (?k - nat skip) base)"
      using k by (simp add: drop_rev min_absorb1)
    moreover have "?k - nat skip = nat (k - skip)" "nat (k - skip) - nat limit = nat (k - skip - limit)"
      "nat (k - skip) \<le> length base" using k False assms(3) unfolding k_def by auto
    ultimately show ?thesis by (simp add: take_rev min_absorb2)
  qed
  also have "\<dots> = rev ?w" by (simp add: drop_take)
  finally have "forwardMessageHistory base f limit skip = newest_first (rev ?w)" using False by (simp add: forwardMessageHistory_def)
  also have "sorted_wrt (\<lambda>a b. msg_ID b < msg_ID a) ?w" using d by (intro sorted_wrt_take sorted_wrt_drop)
  then have "newest_first (rev ?w) = ?w" by (subst newest_first_asc) (simp_all add: sorted_wrt_rev)
  finally show ?thesis .
qed

lemma page_window:
  assumes d: "sorted_wrt (\<lambda>a b. msg_ID b < msg_ID a) base" and "mf_OffsetDate f \<le> 0"
  defines "lo \<equiv> int (offset_rank f base) + mf_AddOffset f"
  shows "pageMessageHistory base f limit = take (nat (lo + limit) - nat lo) (drop (nat lo) base)"
proof (cases "limit \<le> 0 \<or> base = []")
  case True
  then show ?thesis by (auto simp: pageMessageHistory_def)
next
  case False
  let ?k = "offset_rank f base" and ?a = "mf_AddOffset f"
  consider "?a \<ge> 0" | "?a < 0" "?a + limit > 0" | "?a < 0" "?a + limit \<le> 0" by linarith
  then show ?thesis
  proof cases
    case 1
    have "nat (lo + limit) - nat lo = nat limit" "nat lo = ?k + nat ?a" "nat (limit + ?a) - nat ?a = nat limit"
      using 1 False by (auto simp: lo_def)
    moreover have "int (min (length base - ?k) (nat (limit + ?a))) \<le> ?a \<longrightarrow> length base \<le> nat ?a + ?k"
    proof
      assume h: "int (min (length base - ?k) (nat (limit + ?a))) \<le> ?a"
      have "?a < int (nat (limit + ?a))" using 1 False by simp
      with h have "int (length base - ?k) \<le> ?a" by (simp add: min_def split: if_splits)
      then show "length base \<le> nat ?a + ?k" by linarith
    qed
    ultimately show ?thesis using 1 False
      by (simp add: pageMessageHistory_def messageHistoryLoadType_def backward_slice[OF assms(1,2)] Let_def drop_take add.commute)
  next
    case 2
    let ?w = "take (nat (lo + limit) - nat lo) (drop (nat lo) base)"
    have "take (?k - nat lo) (drop (nat lo) base) @ take (nat (limit + ?a)) (drop ?k base) = ?w"
    proof -
      have "(?k - nat lo) + nat lo = ?k" "nat (lo + limit) - nat lo = (?k - nat lo) + nat (limit + ?a)"
        using 2 by (auto simp: lo_def)
      then show ?thesis by (simp only: take_add drop_drop)
    qed
    moreover have "newest_first ?w = ?w" using d by (intro newest_first_desc sorted_wrt_take sorted_wrt_drop)
    ultimately show ?thesis using 2 False
      by (simp add: pageMessageHistory_def messageHistoryLoadType_def backward_slice[OF assms(1,2)] forward_slice[OF assms(1,2)] Let_def lo_def)
  next
    case 3
    then show ?thesis using False
      by (simp add: pageMessageHistory_def messageHistoryLoadType_def forward_slice[OF assms(1,2)] lo_def algebra_simps)
  qed
qed


section \<open>Pages of a box\<close>

lemma filter_keeps_offset: "filter_keeps lower (f\<lparr>mf_AddOffset := a\<rparr>) = filter_keeps lower f"
  by (simp add: filter_keeps_def fun_eq_iff)

lemma offset_rank_add: "offset_rank (f\<lparr>mf_AddOffset := a\<rparr>) base = offset_rank f base"
  by (simp add: offset_rank_def)

lemma box_newest_first:
  assumes "boxes_ordered s"
  shows "newest_first (ms_m s u) = rev (ms_m s u)" and "sorted_wrt (\<lambda>a b. msg_ID b < msg_ID a) (rev (filter P (ms_m s u)))"
proof -
  have "sorted_wrt (\<lambda>a b. msg_ID a < msg_ID b \<and> msg_UID a < msg_UID b) (ms_m s u)" using assms by (simp add: boxes_ordered_def)
  then have "sorted_wrt (\<lambda>a b. msg_ID a < msg_ID b) (ms_m s u)" by (rule sorted_wrt_mono_rel[rotated]) simp
  then show "newest_first (ms_m s u) = rev (ms_m s u)" and "sorted_wrt (\<lambda>a b. msg_ID b < msg_ID a) (rev (filter P (ms_m s u)))"
    by (auto simp: sorted_wrt_rev newest_first_asc intro: sorted_wrt_filter)
qed

text \<open>
  C24: A page of a history is a window. For a box of any state that the store reaches and a filter without
  an offset date that does not ask for the count only, take the matching messages from the newest to the oldest, and the number of them at or
  above the offset id. The page returned is the contiguous window of that list that starts at this number plus
  the additional offset, clamped, and has the effective limit as its length, cut off at both ends of the
  list, for backward, forward and surrounding loads alike; the count is the number of all matching messages.
\<close>

theorem history_page_window:
  assumes "json_codec_ok cx" and "fresh_store s0" and "msg_run cx s0 ops s"
    and "mf_OffsetDate f \<le> 0" and "\<not> mf_CountOnly f"
    and base: "base = rev (filter (filter_keeps lower f) (ms_m s u))"
    and lo: "lo = int (offset_rank f base) + ClampMessageHistoryAddOffset (mf_AddOffset f)"
  shows "ml_Messages (filterMessageList lower sys (ms_m s u) f) =
      take (nat (lo + history_limit (mf_Limit f)) - nat lo) (drop (nat lo) base) \<and>
    ml_Count (filterMessageList lower sys (ms_m s u) f) = int (length base)"
proof -
  have o: "boxes_ordered s" using ordered.from_fresh[OF assms(2,3,1), of True] by simp
  have b: "filter (filter_keeps lower f) (newest_first (ms_m s u)) = base"
    by (simp add: box_newest_first[OF o] base rev_filter)
  have "sorted_wrt (\<lambda>a b. msg_ID b < msg_ID a) base" unfolding base by (rule box_newest_first[OF o])
  from page_window[OF this, of "f\<lparr>mf_AddOffset := ClampMessageHistoryAddOffset (mf_AddOffset f)\<rparr>" "history_limit (mf_Limit f)"]
  show ?thesis using assms(4,5) by (simp add: filterMessageList_def Let_def b lo filter_keeps_offset offset_rank_add)
qed

end
