(* ===== verification/Message_Dialogs.thy ===== *)
theory Message_Dialogs
  imports Message_Runs
begin

text \<open>
  The dialogs that the message store keeps beside the boxes. \<open>dialogs_ok\<close> says what a dialog list shows
  of a box: one dialog per peer of the box, with its newest message and the number of unread messages
  above the read mark. Each operation keeps it, so it holds in all runs that only send, forward, pin,
  read, edit, delete and clear.
\<close>

section \<open>What a dialog shows of a box\<close>

definition of_peer :: "peer \<Rightarrow> 'v message list \<Rightarrow> 'v message list" where
  "of_peer p box = filter (\<lambda>m. msg_Peer m = p) box"

definition dialog_ok :: "'v message list \<Rightarrow> 'v dialog_state dialog \<Rightarrow> bool" where
  "dialog_ok box d \<longleftrightarrow>
    of_peer (dg_Peer d) box \<noteq> [] \<and> dg_TopMessage d = msg_ID (last (of_peer (dg_Peer d) box)) \<and>
    dg_TopMessageDate d = msg_Date (last (of_peer (dg_Peer d) box)) \<and>
    dr_UnreadCount (dg_rest d) = unread_from (dg_Peer d) (dr_ReadInboxMaxID (dg_rest d)) box"

text \<open>The dialogs are right except those of the peers \<open>Q\<close>.\<close>

definition dialogs_except :: "peer set \<Rightarrow> 'v message list \<Rightarrow> int \<Rightarrow> 'v dialog_state dialog list \<Rightarrow> bool" where
  "dialogs_except Q box topID ds \<longleftrightarrow>
    distinct (map dg_Peer ds) \<and> msg_Peer ` set box \<subseteq> dg_Peer ` set ds \<and>
    (\<forall>d\<in>set ds. dr_ReadInboxMaxID (dg_rest d) \<le> topID \<and> (dg_Peer d \<notin> Q \<longrightarrow> dialog_ok box d))"

abbreviation dialogs_ok :: "'v message list \<Rightarrow> int \<Rightarrow> 'v dialog_state dialog list \<Rightarrow> bool" where
  "dialogs_ok \<equiv> dialogs_except {}"

text \<open>Only the ids, peers, dates and directions of the messages matter.\<close>

definition seen :: "'v message \<Rightarrow> int \<times> peer \<times> int \<times> bool" where
  "seen m = (msg_ID m, msg_Peer m, msg_Date m, msg_Out m)"

lemma seen_eq: "seen m' = seen m \<longleftrightarrow> msg_ID m' = msg_ID m \<and> msg_Peer m' = msg_Peer m \<and> msg_Date m' = msg_Date m \<and> msg_Out m' = msg_Out m"
  by (auto simp: seen_def)

lemma ident_seen: "ident m' = ident m \<Longrightarrow> seen m' = seen m"
  by (simp add: ident_eq slot_eq seen_eq)

abbreviation seen_alike :: "'v message list \<Rightarrow> 'v message list \<Rightarrow> bool" where
  "seen_alike \<equiv> list_all2 (\<lambda>m m'. seen m' = seen m)"

lemma seen_of_peer: "seen_alike box box' \<Longrightarrow> seen_alike (of_peer p box) (of_peer p box')"
  by (induction rule: list_all2_induct) (auto simp: of_peer_def seen_eq)

lemma seen_last: "seen_alike box box' \<Longrightarrow> box \<noteq> [] \<Longrightarrow> seen (last box') = seen (last box)"
  by (induction rule: list_all2_induct) auto

lemma seen_unread: "seen_alike box box' \<Longrightarrow> unread_from p r box' = unread_from p r box"
  by (induction rule: list_all2_induct) (auto simp: unread_from_def seen_eq)

lemma seen_dialog_ok:
  assumes "seen_alike box box'" and "dialog_ok box d" shows "dialog_ok box' d"
proof -
  let ?p = "dg_Peer d"
  have s: "seen_alike (of_peer ?p box) (of_peer ?p box')" by (rule seen_of_peer[OF assms(1)])
  then have "of_peer ?p box' \<noteq> []" using assms(2) by (auto simp: dialog_ok_def)
  moreover have "seen (last (of_peer ?p box')) = seen (last (of_peer ?p box))"
    using seen_last[OF s] assms(2) by (simp add: dialog_ok_def)
  ultimately show ?thesis using assms(2) seen_unread[OF assms(1)] by (simp add: dialog_ok_def seen_eq)
qed

lemma seen_dialogs:
  assumes "seen_alike box box'" and "dialogs_except Q box topID ds" shows "dialogs_except Q box' topID ds"
proof -
  have "msg_Peer ` set box' \<subseteq> msg_Peer ` set box"
  proof
    fix p assume "p \<in> msg_Peer ` set box'"
    then obtain m' where "m' \<in> set box'" "p = msg_Peer m'" by blast
    with list_all2_source[OF assms(1)] show "p \<in> msg_Peer ` set box" by (metis imageI seen_eq)
  qed
  then have "msg_Peer ` set box' \<subseteq> dg_Peer ` set ds" using assms(2) by (auto simp: dialogs_except_def)
  then show ?thesis using assms(2) seen_dialog_ok[OF assms(1)] by (simp add: dialogs_except_def)
qed

section \<open>A new message\<close>

lemma merge_dialog_fields [simp]:
  "dg_Peer (merge_dialog x d) = dg_Peer d" "dg_TopMessage (merge_dialog x d) = dg_TopMessage d"
  "dg_TopMessageDate (merge_dialog x d) = dg_TopMessageDate d"
  "dr_ReadInboxMaxID (dg_rest (merge_dialog x d)) =
     (if dr_ReadInboxMaxID (dg_rest d) = 0 then dr_ReadInboxMaxID (dg_rest x) else dr_ReadInboxMaxID (dg_rest d))"
  "dr_UnreadCount (dg_rest (merge_dialog x d)) =
     (if dr_UnreadCount (dg_rest d) = 0 then dr_UnreadCount (dg_rest x) else dr_UnreadCount (dg_rest d))"
  by (simp_all add: merge_dialog_def Let_def)

lemma new_dialog_fields [simp]:
  "dg_Peer (new_dialog p i date n) = p" "dg_TopMessage (new_dialog p i date n) = i" "dg_TopMessageDate (new_dialog p i date n) = date"
  "dr_ReadInboxMaxID (dg_rest (new_dialog p i date n)) = 0" "dr_UnreadCount (dg_rest (new_dialog p i date n)) = n"
  by (simp_all add: new_dialog_def zero_dialog_state_def)

text \<open>The dialog list after an upsert: one dialog replaced or added.\<close>

lemma upsert_peers:
  "map dg_Peer (upsertMemoryDialog ds d) = (if dg_Peer d \<in> dg_Peer ` set ds then map dg_Peer ds else map dg_Peer ds @ [dg_Peer d])"
  by (induction ds) auto

lemma upsert_set:
  "distinct (map dg_Peer ds) \<Longrightarrow> set (upsertMemoryDialog ds d) =
    (if dg_Peer d \<in> dg_Peer ` set ds then {merge_dialog (the (find (\<lambda>x. dg_Peer x = dg_Peer d) ds)) d} else {d}) \<union>
    {x \<in> set ds. dg_Peer x \<noteq> dg_Peer d}"
  by (induction ds) (auto simp: image_iff)

lemma update_first_peers: "(\<And>d. dg_Peer (f d) = dg_Peer d) \<Longrightarrow> map dg_Peer (update_first P f ds) = map dg_Peer ds"
  by (induction ds) auto

lemma update_first_set:
  assumes "x \<in> set (update_first P f ds)" shows "x \<in> set ds \<or> (\<exists>d\<in>set ds. P d \<and> x = f d)"
  using assms by (induction ds) (auto split: if_splits)

lemma find_peer:
  assumes "p \<in> dg_Peer ` set ds"
  obtains x where "find (\<lambda>d. dg_Peer d = p) ds = Some x" and "x \<in> set ds" and "dg_Peer x = p"
proof -
  obtain x where x: "find (\<lambda>d. dg_Peer d = p) ds = Some x"
    using assms by (cases "find (\<lambda>d. dg_Peer d = p) ds") (auto simp: find_None_iff)
  then have "x \<in> set ds \<and> dg_Peer x = p" by (auto simp: find_Some_iff)
  with x that show thesis by blast
qed

lemma dialog_ok_other:
  assumes "dialog_ok box d" and "msg_Peer m \<noteq> dg_Peer d" shows "dialog_ok (box @ [m]) d"
  using assms by (simp add: dialog_ok_def of_peer_def unread_from_def)

lemma unread_append: "unread_from p r (box @ [m]) = unread_from p r box + (if msg_Peer m = p \<and> \<not> msg_Out m \<and> msg_ID m > r then 1 else 0)"
  by (simp add: unread_from_def)

text \<open>The read mark that an upsert for a peer keeps.\<close>

definition mark_of :: "peer \<Rightarrow> 'v dialog_state dialog list \<Rightarrow> int" where
  "mark_of p ds = (case find (\<lambda>d. dg_Peer d = p) ds of None \<Rightarrow> 0 | Some d \<Rightarrow> dr_ReadInboxMaxID (dg_rest d))"

lemma no_peer_unread: "of_peer p box = [] \<Longrightarrow> unread_from p r box = 0"
  by (auto simp: of_peer_def unread_from_def filter_empty_conv)

lemma dialogs_ok_post:
  assumes ok: "dialogs_ok box topID ds" and m: "msg_ID m = topID + 1" "0 \<le> topID"
    and n: "if msg_Out m then n = 0 else n = unread_from (msg_Peer m) (mark_of (msg_Peer m) ds) (box @ [m])"
  shows "dialogs_ok (box @ [m]) (topID + 1) (upsertMemoryDialog ds (new_dialog (msg_Peer m) (msg_ID m) (msg_Date m) n))"
    (is "dialogs_ok ?box _ (upsertMemoryDialog ds ?d)")
proof -
  let ?p = "msg_Peer m"
  have dist: "distinct (map dg_Peer ds)" and cov: "msg_Peer ` set box \<subseteq> dg_Peer ` set ds"
    and each: "\<And>d. d \<in> set ds \<Longrightarrow> dr_ReadInboxMaxID (dg_rest d) \<le> topID \<and> dialog_ok box d"
    using ok by (auto simp: dialogs_except_def)
  have lst: "of_peer ?p ?box \<noteq> []" "last (of_peer ?p ?box) = m" by (simp_all add: of_peer_def)
  have new: "\<exists>x. x \<in> set (upsertMemoryDialog ds ?d) \<and> dg_Peer x = ?p \<and> dg_TopMessage x = msg_ID m \<and> dg_TopMessageDate x = msg_Date m \<and>
      dr_ReadInboxMaxID (dg_rest x) \<le> topID \<and> dr_UnreadCount (dg_rest x) = unread_from ?p (dr_ReadInboxMaxID (dg_rest x)) ?box \<and>
      set (upsertMemoryDialog ds ?d) = {x} \<union> {y \<in> set ds. dg_Peer y \<noteq> ?p}"
  proof (cases "?p \<in> dg_Peer ` set ds")
    case True
    then obtain x where x: "find (\<lambda>d. dg_Peer d = ?p) ds = Some x" "x \<in> set ds" "dg_Peer x = ?p" by (rule find_peer)
    from each[OF x(2)] have r: "dr_ReadInboxMaxID (dg_rest x) \<le> topID" "dr_UnreadCount (dg_rest x) = unread_from ?p (dr_ReadInboxMaxID (dg_rest x)) box"
      by (auto simp: dialog_ok_def x(3))
    have "(if n = 0 then dr_UnreadCount (dg_rest x) else n) = unread_from ?p (dr_ReadInboxMaxID (dg_rest x)) ?box"
      using n r m by (auto simp: unread_append mark_of_def x(1) unread_from_def split: if_splits)
    with True x r(1) show ?thesis by (intro exI[of _ "merge_dialog x ?d"]) (simp add: upsert_set[OF dist] split: if_splits)
  next
    case False
    have "\<forall>y\<in>set box. msg_Peer y \<noteq> ?p" "\<forall>y\<in>set ds. dg_Peer y \<noteq> ?p" using False cov by (metis image_eqI subsetD)+
    then have "of_peer ?p box = []" "find (\<lambda>d. dg_Peer d = ?p) ds = None"
      by (simp_all add: of_peer_def filter_empty_conv find_None_iff)
    then have "n = unread_from ?p 0 ?box" using n by (auto simp: unread_append mark_of_def no_peer_unread split: if_splits)
    with False m show ?thesis by (intro exI[of _ ?d]) (simp add: upsert_set[OF dist])
  qed
  then obtain x where x: "dg_Peer x = ?p" "dialog_ok ?box x" "dr_ReadInboxMaxID (dg_rest x) \<le> topID"
    "set (upsertMemoryDialog ds ?d) = {x} \<union> {y \<in> set ds. dg_Peer y \<noteq> ?p}"
    by (auto simp: dialog_ok_def lst)
  have "distinct (map dg_Peer (upsertMemoryDialog ds ?d))" using dist by (simp add: upsert_peers)
  moreover have "msg_Peer ` set ?box \<subseteq> dg_Peer ` set (upsertMemoryDialog ds ?d)" using cov x(1) unfolding x(4) by fastforce
  moreover have "dr_ReadInboxMaxID (dg_rest y) \<le> topID + 1 \<and> dialog_ok ?box y" if "y \<in> set (upsertMemoryDialog ds ?d)" for y
  proof (cases "y = x")
    case False
    then have "y \<in> set ds" "msg_Peer m \<noteq> dg_Peer y" using that unfolding x(4) by auto
    then show ?thesis using each[of y] dialog_ok_other[of box y m] by simp
  qed (use x in simp)
  ultimately show ?thesis by (simp add: dialogs_except_def)
qed


section \<open>Changes of one dialog\<close>

lemma update_first_hit:
  assumes "distinct (map dg_Peer ds)" and "x \<in> set (update_first (\<lambda>d. dg_Peer d = p) f ds)" and "dg_Peer x = p"
  shows "\<exists>d\<in>set ds. dg_Peer d = p \<and> x = f d"
  using assms by (induction ds) (auto split: if_splits)

lemma dialogs_update:
  assumes "dialogs_except Q box topID ds" and peer: "\<And>d. dg_Peer (f d) = dg_Peer d"
    and f: "\<And>d. d \<in> set ds \<Longrightarrow> dg_Peer d = p \<Longrightarrow> dr_ReadInboxMaxID (dg_rest (f d)) \<le> topID \<and> (p \<notin> Q' \<longrightarrow> dialog_ok box (f d))"
    and Q: "Q \<subseteq> insert p Q'"
  shows "dialogs_except Q' box topID (update_first (\<lambda>d. dg_Peer d = p) f ds)"
proof -
  let ?ds = "update_first (\<lambda>d. dg_Peer d = p) f ds"
  have m: "map dg_Peer ?ds = map dg_Peer ds" by (rule update_first_peers[OF peer])
  then have "dg_Peer ` set ?ds = dg_Peer ` set ds" by (metis set_map)
  moreover have "dr_ReadInboxMaxID (dg_rest x) \<le> topID \<and> (dg_Peer x \<notin> Q' \<longrightarrow> dialog_ok box x)" if x: "x \<in> set ?ds" for x
  proof (cases "dg_Peer x = p")
    case True
    have "\<exists>d\<in>set ds. dg_Peer d = p \<and> x = f d"
      using update_first_hit[OF _ x True] assms(1) by (simp add: dialogs_except_def)
    with f True peer show ?thesis by auto
  next
    case False
    from update_first_set[OF x] have "x \<in> set ds" using False peer by auto
    with False Q assms(1) show ?thesis by (auto simp: dialogs_except_def)
  qed
  ultimately show ?thesis using m assms(1) by (simp add: dialogs_except_def)
qed

lemma dialog_ok_cong:
  "dg_Peer d' = dg_Peer d \<Longrightarrow> dg_TopMessage d' = dg_TopMessage d \<Longrightarrow> dg_TopMessageDate d' = dg_TopMessageDate d \<Longrightarrow>
   dr_UnreadCount (dg_rest d') = dr_UnreadCount (dg_rest d) \<Longrightarrow> dr_ReadInboxMaxID (dg_rest d') = dr_ReadInboxMaxID (dg_rest d) \<Longrightarrow>
   dialog_ok box d' = dialog_ok box d"
  by (simp add: dialog_ok_def)

lemma dialogs_ok_mark: "dialogs_ok box topID ds \<Longrightarrow> dialogs_ok box topID (update_first (\<lambda>d. dg_Peer d = p) clear_unread_mark ds)"
  by (rule dialogs_update[of "{}"]) (auto simp: clear_unread_mark_def dialogs_except_def dialog_ok_def)

lemma dialogs_ok_read:
  "dialogs_ok box topID ds \<Longrightarrow> r \<le> topID \<Longrightarrow> n = unread_from p r box \<Longrightarrow>
   dialogs_ok box topID (update_first (\<lambda>d. dg_Peer d = p) (read_dialog r n) ds)"
  by (rule dialogs_update[of "{}"]) (auto simp: read_dialog_def dialogs_except_def dialog_ok_def)

lemma dialogs_ok_outbox:
  "dialogs_ok box topID ds \<Longrightarrow>
   dialogs_ok box topID (update_first (\<lambda>d. dg_Peer d = p) (\<lambda>d. d\<lparr>dg_rest := (dg_rest d)\<lparr>dr_ReadOutboxMaxID := r\<rparr>\<rparr>) ds)"
  by (rule dialogs_update[of "{}"]) (auto simp: dialogs_except_def dialog_ok_def)

text \<open>A history cleared up to its newest message.\<close>

lemma dialogs_ok_clear:
  assumes ok: "dialogs_ok box topID ds" and "r \<le> topID" and top: "\<And>m. m \<in> set box \<Longrightarrow> msg_Peer m = p \<Longrightarrow> msg_ID m \<le> r"
  shows "dialogs_ok box topID (update_first (\<lambda>d. dg_Peer d = p) (clear_dialog r) ds)"
proof (rule dialogs_update[OF ok, where p = p])
  show "dg_Peer (clear_dialog r d) = dg_Peer d" for d :: "'a dialog_state dialog" by (simp add: clear_dialog_def Let_def)
  fix d assume d: "d \<in> set ds" "dg_Peer d = p"
  let ?m = "dr_ReadInboxMaxID (dg_rest (clear_dialog r d))"
  have "?m = max r (dr_ReadInboxMaxID (dg_rest d))" by (simp add: clear_dialog_def Let_def max_def)
  moreover have "unread_from p k box = 0" if "r \<le> k" for k using top that by (fastforce simp: unread_from_def filter_empty_conv)
  moreover have "dialog_ok box d" "dr_ReadInboxMaxID (dg_rest d) \<le> topID" using ok d(1) by (auto simp: dialogs_except_def)
  ultimately show "?m \<le> topID \<and> (p \<notin> {} \<longrightarrow> dialog_ok box (clear_dialog r d))"
    using assms(2) d(2) by (auto simp: dialog_ok_def clear_dialog_def Let_def)
qed simp

section \<open>Rebuilding a dialog\<close>

lemma top_scan_last:
  assumes "sorted_wrt (\<lambda>a b. msg_ID a < msg_ID b) box" and "\<And>m. m \<in> set box \<Longrightarrow> msg_ID t < msg_ID m"
  shows "top_scan p t box = (if of_peer p box = [] then t else last (of_peer p box))"
  using assms
proof (induction box arbitrary: t)
  case (Cons m ms)
  show ?case
  proof (cases "msg_Peer m = p")
    case True
    with Cons.IH[of m] Cons.prems show ?thesis by (simp add: of_peer_def)
  next
    case False
    with Cons.IH[of t] Cons.prems show ?thesis by (simp add: of_peer_def)
  qed
qed (simp add: of_peer_def)

definition rebuilt :: "'v message \<Rightarrow> 'v message list \<Rightarrow> 'v dialog_state dialog \<Rightarrow> 'v dialog_state dialog" where
  "rebuilt t msgs d = d\<lparr>dg_TopMessage := msg_ID t, dg_TopMessageDate := msg_Date t,
     dg_rest := (dg_rest d)\<lparr>dr_UnreadCount := unread_from (dg_Peer d) (dr_ReadInboxMaxID (dg_rest d)) msgs,
       dr_UnreadMentions := 0, dr_UnreadReactions := 0\<rparr>\<rparr>"

lemma rebuild_scan_other: "p \<notin> dg_Peer ` set ds \<Longrightarrow> rebuild_scan p t msgs n ds = ds"
  by (induction ds) auto

lemma rebuild_scan_eq:
  "distinct (map dg_Peer ds) \<Longrightarrow> rebuild_scan p t msgs 0 ds =
    (if msg_ID t = 0 then filter (\<lambda>d. dg_Peer d \<noteq> p) ds else update_first (\<lambda>d. dg_Peer d = p) (rebuilt t msgs) ds)"
proof (induction ds)
  case (Cons d ds)
  have "filter (\<lambda>d. dg_Peer d \<noteq> p) ds = ds" if "p \<notin> dg_Peer ` set ds" using that by (auto simp: filter_id_conv)
  with Cons show ?case by (auto simp: rebuild_scan_other rebuilt_def[of t msgs d] Let_def)
qed simp

lemma rebuild_except:
  assumes ok: "dialogs_except Q box topID ds" and srt: "sorted_wrt (\<lambda>a b. msg_ID a < msg_ID b) box"
    and pos: "\<And>m. m \<in> set box \<Longrightarrow> 0 < msg_ID m"
  shows "dialogs_except (Q - {p}) box topID (rebuild_scan p (top_scan p zero_message box) box 0 ds)"
proof -
  let ?t = "top_scan p zero_message box"
  have t: "?t = (if of_peer p box = [] then zero_message else last (of_peer p box))"
    using top_scan_last[OF srt, of zero_message] pos by simp
  have dist: "distinct (map dg_Peer ds)" using ok by (simp add: dialogs_except_def)
  show ?thesis
  proof (cases "of_peer p box = []")
    case True
    then have none: "\<And>m. m \<in> set box \<Longrightarrow> msg_Peer m \<noteq> p" by (auto simp: of_peer_def filter_empty_conv)
    have e: "rebuild_scan p ?t box 0 ds = filter (\<lambda>d. dg_Peer d \<noteq> p) ds" using True by (simp add: rebuild_scan_eq[OF dist] t)
    have "msg_Peer ` set box \<subseteq> dg_Peer ` set (filter (\<lambda>d. dg_Peer d \<noteq> p) ds)"
    proof
      fix q assume "q \<in> msg_Peer ` set box"
      then have "q \<noteq> p" "q \<in> dg_Peer ` set ds" using none ok by (auto simp: dialogs_except_def)
      then show "q \<in> dg_Peer ` set (filter (\<lambda>d. dg_Peer d \<noteq> p) ds)" by auto
    qed
    with ok show ?thesis unfolding e by (auto simp: dialogs_except_def distinct_map_filter)
  next
    case False
    have "last (of_peer p box) \<in> set box" using last_in_set[OF False] by (auto simp: of_peer_def)
    then have "msg_ID ?t \<noteq> 0" using pos False t by force
    then have e: "rebuild_scan p ?t box 0 ds = update_first (\<lambda>d. dg_Peer d = p) (rebuilt ?t box) ds"
      by (simp add: rebuild_scan_eq[OF dist])
    show ?thesis unfolding e
      by (rule dialogs_update[OF ok]) (use ok False t in \<open>auto simp: rebuilt_def dialog_ok_def dialogs_except_def\<close>)
  qed
qed


section \<open>The invariant of the store\<close>

definition dialogs_of :: "'v message_store \<Rightarrow> int \<Rightarrow> 'v dialog_state dialog list" where
  "dialogs_of s u = (case ms_dialogs s of None \<Rightarrow> [] | Some D \<Rightarrow> dl_Dialogs (mget empty_dialog_list D u))"

definition dialogs_exact :: "'v message_store \<Rightarrow> bool" where
  "dialogs_exact s \<longleftrightarrow> ms_dialogs s \<noteq> None \<and> (\<forall>u. dialogs_ok (ms_m s u) (ms_nextBox s u) (dialogs_of s u))"

lemma dialogs_exact_frame:
  assumes "dialogs_exact s" and "\<And>u. seen_alike (ms_m s u) (ms_m s' u)" and "ms_nextBox s' = ms_nextBox s"
    and "ms_dialogs s' = ms_dialogs s"
  shows "dialogs_exact s'"
  unfolding dialogs_exact_def
proof (intro conjI allI)
  show "ms_dialogs s' \<noteq> None" using assms(1,4) by (simp add: dialogs_exact_def)
  fix u
  have "dialogs_ok (ms_m s u) (ms_nextBox s u) (dialogs_of s u)" using assms(1) by (simp add: dialogs_exact_def)
  from seen_dialogs[OF assms(2) this] show "dialogs_ok (ms_m s' u) (ms_nextBox s' u) (dialogs_of s' u)"
    using assms(3,4) by (simp add: dialogs_of_def)
qed

lemma flags_seen: "flags_only s s' \<Longrightarrow> seen_alike (ms_m s u) (ms_m s' u)"
  unfolding flags_only_def by (metis (mono_tags, lifting) ident_seen list_all2_mono)

lemma dialogs_exact_flags: "dialogs_exact s \<Longrightarrow> flags_only s s' \<Longrightarrow> ms_dialogs s' = ms_dialogs s \<Longrightarrow> dialogs_exact s'"
  by (rule dialogs_exact_frame) (auto simp: flags_seen, simp add: flags_only_def)

section \<open>Sending\<close>

text \<open>The dialogs after a send: those of the sender, of the recipient and of the others.\<close>

lemma upsert_locked_dialogs:
  assumes "list = (\<lambda>u. dl_Dialogs (mget empty_dialog_list D u))" and "u = msg_OwnerUserID m" and "v = msg_OwnerUserID n"
    and "D' = upsertMemoryDialogsLocked boxes D m n"
  shows "dl_Dialogs (mget empty_dialog_list D' w) =
    (if w = u then update_first (\<lambda>d. dg_Peer d = msg_Peer m) clear_unread_mark
       (upsertMemoryDialog (list u) (new_dialog (msg_Peer m) (msg_ID m) (msg_Date m) 0))
     else if w = v then upsertMemoryDialog (list v) (new_dialog (msg_Peer n) (msg_ID n) (msg_Date n)
       (unread_from (msg_Peer n) (mark_of (msg_Peer n) (list v)) (boxes v)))
     else list w)"
proof -
  have "privateUnreadCountLocked b (D v) p = unread_from p (mark_of p (list v)) b" for b p
    by (auto simp: privateUnreadCountLocked_def mark_of_def mget_def assms(1) empty_dialog_list_def Let_def split: option.split)
  then show ?thesis unfolding assms(4) upsertMemoryDialogsLocked_def Let_def using assms(1-3)
    by (auto simp: mget_def)
qed

lemma commit_dialogs:
  assumes ex: "dialogs_exact s1" and pos: "\<And>u. 0 \<le> ms_nextBox s1 u"
    and sm: "msg_OwnerUserID sender = sr_SenderUserID req" "msg_ID sender = ms_nextBox s1 (sr_SenderUserID req) + 1" "msg_Out sender"
    and rm: "if delivers req
      then msg_OwnerUserID recipient = sr_RecipientUserID req \<and> msg_ID recipient = ms_nextBox s1 (sr_RecipientUserID req) + 1 \<and> \<not> msg_Out recipient
      else recipient = sender \<or> recipient = zero_message"
  shows "dialogs_exact (commit_send s1 events req fp al pe sender recipient snapshot)" (is "dialogs_exact ?s'")
proof -
  let ?u = "sr_SenderUserID req" and ?v = "sr_RecipientUserID req"
  let ?n = "if msg_ID recipient \<noteq> 0 then recipient else sender"
  obtain D where D: "ms_dialogs s1 = Some D" using ex by (auto simp: dialogs_exact_def)
  have old: "dialogs_ok (ms_m s1 w) (ms_nextBox s1 w) (dialogs_of s1 w)" for w using ex by (simp add: dialogs_exact_def)
  have uv: "delivers req \<Longrightarrow> ?u \<noteq> ?v" by (simp add: delivers_def)
  define w' where "w' = (if delivers req then ?v else ?u)"
  have n: "msg_OwnerUserID ?n = w'" "delivers req \<Longrightarrow> ?n = recipient" using rm sm pos[of ?v] by (auto simp: w'_def split: if_splits)
  have m': "ms_m ?s' = (if delivers req then (ms_m s1)(?u := ms_m s1 ?u @ [sender], ?v := ms_m s1 ?v @ [recipient])
      else (ms_m s1)(?u := ms_m s1 ?u @ [sender]))" using uv by (auto simp: commit_send_def Let_def)
  have b': "ms_nextBox ?s' = (if delivers req then (ms_nextBox s1)(?u := ms_nextBox s1 ?u + 1, ?v := ms_nextBox s1 ?v + 1)
      else (ms_nextBox s1)(?u := ms_nextBox s1 ?u + 1))" using rm sm pos[of ?v] by (auto simp: commit_send_def Let_def fun_eq_iff)
  have d': "dialogs_of ?s' w = (if w = ?u then update_first (\<lambda>d. dg_Peer d = msg_Peer sender) clear_unread_mark
        (upsertMemoryDialog (dialogs_of s1 ?u) (new_dialog (msg_Peer sender) (msg_ID sender) (msg_Date sender) 0))
      else if w = w' then upsertMemoryDialog (dialogs_of s1 w') (new_dialog (msg_Peer ?n) (msg_ID ?n) (msg_Date ?n)
        (unread_from (msg_Peer ?n) (mark_of (msg_Peer ?n) (dialogs_of s1 w')) (ms_m ?s' w')))
      else dialogs_of s1 w)" for w
    using upsert_locked_dialogs[OF refl sm(1)[symmetric] n(1)[symmetric] refl, where D = D and boxes = "ms_m ?s'" and w = w]
    by (simp add: dialogs_of_def D commit_send_def Let_def)
  have u_ok: "dialogs_ok (ms_m s1 ?u @ [sender]) (ms_nextBox s1 ?u + 1) (dialogs_of ?s' ?u)"
    unfolding d' by (simp, intro dialogs_ok_mark dialogs_ok_post[OF old]) (use sm pos in auto)
  have v_ok: "dialogs_ok (ms_m s1 ?v @ [recipient]) (ms_nextBox s1 ?v + 1) (dialogs_of ?s' ?v)" if "delivers req"
    using that uv n rm pos d'[of ?v] dialogs_ok_post[OF old[of ?v], of recipient
      "unread_from (msg_Peer recipient) (mark_of (msg_Peer recipient) (dialogs_of s1 ?v)) (ms_m s1 ?v @ [recipient])"]
    by (simp add: w'_def m')
  have "dialogs_ok (ms_m ?s' w) (ms_nextBox ?s' w) (dialogs_of ?s' w)" for w
    using u_ok v_ok old[of w] d'[of w] by (cases "delivers req") (auto simp: m' b' w'_def)
  moreover have "ms_dialogs ?s' \<noteq> None" by (simp add: commit_send_def Let_def D)
  ultimately show ?thesis by (simp add: dialogs_exact_def)
qed


lemma send_locked_dialogs:
  assumes "sendPrivateTextLocked cx now s req fp prefix = Inr (res, evs, s')" and ord: "boxes_ordered s" and ex: "dialogs_exact s"
    and p: "\<And>es. flags_only s (apply_of prefix es s) \<and> ms_dialogs (apply_of prefix es s) = ms_dialogs s"
  shows "dialogs_exact s'"
  using assms(1)
proof (cases rule: send_locked_cases)
  case replay
  with ex show ?thesis by simp
next
  case (fresh date sreply rreply events al spts rpts al' sender recipient snapshot)
  let ?s1 = "apply_of prefix evs s"
  have f: "flags_only s ?s1" "ms_dialogs ?s1 = ms_dialogs s" using p by auto
  have nb: "ms_nextBox ?s1 = ms_nextBox s" using f(1) by (simp add: flags_only_def)
  have pos: "\<And>u. 0 \<le> ms_nextBox s u" using ord by (simp add: boxes_ordered_def)
  show ?thesis unfolding fresh(13)
    by (rule commit_dialogs[OF dialogs_exact_flags[OF ex f]])
      (use pos in \<open>auto simp: nb fresh(9,10) recipient_message_def delivers_def\<close>)
qed

lemma SendPrivateText_dialogs:
  assumes "SendPrivateText cx now s req = Inr (res, s')" and "boxes_ordered s" and "dialogs_exact s"
  shows "dialogs_exact s'"
  using assms(1)
proof (rule SendPrivateText_cases)
  fix fp evs assume "sendPrivateTextLocked cx now s req fp None = Inr (res, evs, s')"
  then show ?thesis by (rule send_locked_dialogs[OF _ assms(2,3)]) (simp add: apply_of_def)
qed

lemma forward_loop_dialogs:
  assumes "json_codec_ok cx" and "boxes_ordered s" and "dialogs_exact s"
  shows "dialogs_exact (snd (snd (forward_loop cx now req date xs res s)))"
  using assms(2,3)
proof (induction xs arbitrary: res s)
  case (Cons x xs)
  obtain msgID randomID source where x: "x = (msgID, randomID, source)" by (cases x) auto
  show ?case
  proof (cases "SendPrivateText cx now s (forward_send_request req date msgID randomID source)")
    case (Inr r)
    obtain sent s1 where r: "r = (sent, s1)" by fastforce
    have "boxes_ordered s1" "dialogs_exact s1"
      using boxes_ordered_steps[OF SendPrivateText_steps[OF _ assms(1) Cons.prems(1)] Cons.prems(1)]
        SendPrivateText_dialogs[OF _ Cons.prems] Inr r by blast+
    with Cons.IH[of s1] Cons.prems show ?thesis by (simp add: x Inr r)
  qed (use Cons.prems in \<open>simp add: x\<close>)
qed simp

lemma Forward_dialogs:
  assumes "json_codec_ok cx" and "boxes_ordered s" and "dialogs_exact s"
  shows "dialogs_exact (snd (snd (ForwardPrivateMessages cx now s req)))"
  by (auto simp: ForwardPrivateMessages_def Let_def forward_loop_dialogs[OF assms] assms(3) split: sum.split)

section \<open>Pins and protection\<close>

lemma set_pinned_dialogs [simp]: "ms_dialogs (set_pinned b side s) = ms_dialogs s"
  by (cases side) (simp add: set_pinned_def)

lemma fold_pinned_dialogs [simp]: "ms_dialogs (fold (set_pinned b) sides s) = ms_dialogs s"
  by (induction sides arbitrary: s) auto

lemma append_pin_event_dialogs: "append_pin_event a x ow e (s, events) = (e', s', events') \<Longrightarrow> ms_dialogs s' = ms_dialogs s"
  by (auto simp: append_pin_event_def nextPtsWithEventsLocked_def Let_def split: prod.splits)

lemma append_pin_events_dialogs: "append_pin_events a x ow es (s, events) = (es', s', events') \<Longrightarrow> ms_dialogs s' = ms_dialogs s"
proof (induction es arbitrary: s events es' s' events')
  case (Cons e es)
  obtain e1 s1 ev1 where a: "append_pin_event a x ow e (s, events) = (e1, s1, ev1)" by (metis prod_cases3)
  obtain es2 s2 ev2 where b: "append_pin_events a x ow es (s1, ev1) = (es2, s2, ev2)" by (metis prod_cases3)
  from Cons.prems a b have "s' = s2" by simp
  with append_pin_event_dialogs[OF a] Cons.IH[OF b] show ?case by simp
qed simp

lemma Unpin_dialogs: "UnpinAllPrivateMessages now s req = Inr (res, s') \<Longrightarrow> ms_dialogs s' = ms_dialogs s"
  by (auto simp: UnpinAllPrivateMessages_def unpin_publish_def Let_def dest!: append_pin_events_dialogs
      simp del: append_pin_events.simps split: if_splits option.splits prod.splits)

lemma Pin_dialogs:
  assumes "boxes_ordered s" and ex: "dialogs_exact s" and "PinPrivateMessage cx now draws s req = Inr (res, s')"
  shows "dialogs_exact s'"
proof -
  from assms(3) consider "s' = s"
    | sendReq fp es changes sent evs where
        "sendPrivateTextLocked cx now s sendReq fp (Some (es, \<lambda>_ s. fold (set_pinned (pq_Pinned req)) changes s)) = Inr (sent, evs, s')"
    | events es es' s1 events1 changes where "append_pin_events (pq_OriginAuthKeyID req) (pq_OriginSessionID req)
        (pq_OwnerUserID req) es (s, events) = (es', s1, events1)"
        "s' = fold (set_pinned (pq_Pinned req)) changes (s1\<lparr>ms_events := Some events1\<rparr>)"
    unfolding PinPrivateMessage_def Let_def
    by (auto split: if_splits option.splits sum.splits prod.splits)
  then show ?thesis
  proof cases
    case 1
    with ex show ?thesis by simp
  next
    case (2 sendReq fp es changes sent evs)
    then show ?thesis by (rule send_locked_dialogs[OF _ assms(1) ex]) (simp add: apply_of_def fold_pinned_flags)
  next
    case (3 events es es' s1 events1 changes)
    have "same_boxes s1 (s1\<lparr>ms_events := Some events1\<rparr>)" by (simp add: same_boxes_def)
    with append_pin_events_same[OF 3(1)] have "flags_only s (s1\<lparr>ms_events := Some events1\<rparr>)"
      by (blast intro: same_boxes_trans same_boxes_flags)
    then have "flags_only s s'" unfolding 3(2) by (blast intro: flags_only_trans fold_pinned_flags)
    with ex show ?thesis by (rule dialogs_exact_flags) (simp add: 3(2) append_pin_events_dialogs[OF 3(1)])
  qed
qed

lemma toggle_commit_dialogs:
  assumes "dialogs_exact s" shows "dialogs_exact (toggle_commit s req pair st kind action ruid sent)"
proof (rule dialogs_exact_frame[OF assms])
  let ?s' = "toggle_commit s req pair st kind action ruid sent"
  have "ms_m ?s' u = ms_m s u \<or> (\<exists>r. ms_m ?s' u = map (expire_request_media r) (ms_m s u))" for u
    by (auto simp: toggle_commit_def markNoForwardsRequestExpired_def Let_def split: option.split)
  moreover have "seen_alike xs (map (expire_request_media r) xs)" for xs :: "'a message list" and r
    by (simp add: list_all2_map2) (rule list_all2_refl_on, rule ident_seen, rule expire_request_media_eq)
  moreover have "seen_alike xs xs" for xs :: "'a message list" by (rule list_all2_refl_on) simp
  ultimately show "seen_alike (ms_m s u) (ms_m ?s' u)" for u by metis
  show "ms_nextBox ?s' = ms_nextBox s" "ms_dialogs ?s' = ms_dialogs s"
    by (auto simp: toggle_commit_def markNoForwardsRequestExpired_def Let_def split: option.split)
qed

lemma Toggle_dialogs:
  assumes "boxes_ordered s" and "dialogs_exact s" and "TogglePrivateNoForwards cx now nano s req = Inr (res, s')"
  shows "dialogs_exact s'"
proof -
  from assms(3) consider "s' = s" | sreq sent s1 pair st kind action ruid where
      "SendPrivateText cx now s sreq = Inr (sent, s1)" "s' = toggle_commit s1 req pair st kind action ruid sent"
    unfolding TogglePrivateNoForwards_def Let_def
    by (auto split: if_splits option.splits sum.splits prod.splits)
  then show ?thesis by cases (use assms SendPrivateText_dialogs toggle_commit_dialogs in blast)+
qed

section \<open>Read marks and edits\<close>

lemma put_read_dialogs:
  "dl_Dialogs (mget empty_dialog_list (put_read ow p r n D) u) =
    (if u = ow then update_first (\<lambda>d. dg_Peer d = p) (read_dialog r n) (dl_Dialogs (mget empty_dialog_list D ow))
     else dl_Dialogs (mget empty_dialog_list D u))"
  by (simp add: put_read_def Let_def mget_def)


lemma dialogs_exact_local:
  assumes "dialogs_exact s" and "ms_m s' = ms_m s" and "ms_nextBox s' = ms_nextBox s" and "ms_dialogs s' \<noteq> None"
    and "\<And>u. dialogs_ok (ms_m s u) (ms_nextBox s u) (dialogs_of s u) \<Longrightarrow> dialogs_ok (ms_m s u) (ms_nextBox s u) (dialogs_of s' u)"
  shows "dialogs_exact s'"
  using assms by (simp add: dialogs_exact_def)

lemma put_read_exact:
  assumes ex: "dialogs_exact s" and D: "ms_dialogs s = Some D" and "r \<le> ms_nextBox s ow" and "n = unread_from p r (ms_m s ow)"
  shows "dialogs_exact (s\<lparr>ms_dialogs := Some (put_read ow p r n D)\<rparr>)"
  by (rule dialogs_exact_local[OF ex])
    (auto simp: dialogs_of_def D put_read_dialogs assms(4) intro!: dialogs_ok_read assms(3))

lemma read_outbox_exact:
  assumes ex: "dialogs_exact s" and D: "ms_dialogs s = Some D" and "read_outbox reader date latest s D = Some (u, e, s')"
  shows "dialogs_exact s'"
proof -
  from assms(3) obtain i where
    d: "ms_dialogs s' = Some (D(u \<mapsto> (mget empty_dialog_list D u)\<lparr>dl_Dialogs := update_first (\<lambda>d. dg_Peer d = user_peer reader)
      (\<lambda>d. d\<lparr>dg_rest := (dg_rest d)\<lparr>dr_ReadOutboxMaxID := i\<rparr>\<rparr>) (dl_Dialogs (mget empty_dialog_list D u))\<rparr>))"
    by (auto simp: read_outbox_def Let_def nextPtsLocked_def mark_read_dates_def split: if_splits option.splits)
  have sb: "same_boxes s s'" by (rule read_outbox_same[OF assms(3)])
  show ?thesis
  proof (rule dialogs_exact_local[OF ex])
    fix w assume "dialogs_ok (ms_m s w) (ms_nextBox s w) (dialogs_of s w)"
    then show "dialogs_ok (ms_m s w) (ms_nextBox s w) (dialogs_of s' w)"
      using dialogs_ok_outbox[of "ms_m s u" "ms_nextBox s u" "dialogs_of s u"] by (auto simp: dialogs_of_def d D mget_def)
  qed (use sb d in \<open>auto simp: same_boxes_def\<close>)
qed

lemma find_dialog:
  assumes "dialogs_exact s" and "boxes_ordered s" and "find (\<lambda>d. dg_Peer d = p) (dialogs_of s u) = Some d"
  shows "dr_ReadInboxMaxID (dg_rest d) \<le> ms_nextBox s u" and "dg_TopMessage d \<le> ms_nextBox s u"
proof -
  have d: "d \<in> set (dialogs_of s u)" using assms(3) by (auto simp: find_Some_iff)
  with assms(1) have "dr_ReadInboxMaxID (dg_rest d) \<le> ms_nextBox s u" and ok: "dialog_ok (ms_m s u) d"
    by (auto simp: dialogs_exact_def dialogs_except_def)
  then show "dr_ReadInboxMaxID (dg_rest d) \<le> ms_nextBox s u" by simp
  from ok have "last (of_peer (dg_Peer d) (ms_m s u)) \<in> set (of_peer (dg_Peer d) (ms_m s u))" by (simp add: dialog_ok_def)
  then have "last (of_peer (dg_Peer d) (ms_m s u)) \<in> set (ms_m s u)" by (simp add: of_peer_def)
  with ok assms(2) show "dg_TopMessage d \<le> ms_nextBox s u" by (auto simp: dialog_ok_def boxes_ordered_def)
qed

lemma Read_dialogs:
  assumes ex: "dialogs_exact s" and ord: "boxes_ordered s"
  shows "dialogs_exact (snd (ReadHistory now s req))"
proof (cases "rq_OwnerUserID req = 0 \<or> peer_ID (rq_Peer req) = 0")
  case True
  with ex show ?thesis by (auto simp: ReadHistory_def Let_def)
next
  case False
  obtain D where D: "ms_dialogs s = Some D" using ex by (auto simp: dialogs_exact_def)
  let ?ow = "rq_OwnerUserID req" and ?p = "rq_Peer req"
  show ?thesis
  proof (cases "find (\<lambda>d. dg_Peer d = ?p) (dl_Dialogs (mget empty_dialog_list D ?ow))")
    case None
    with D False ex show ?thesis by (simp add: ReadHistory_def Let_def)
  next
    case (Some d)
    have "find (\<lambda>d. dg_Peer d = ?p) (dialogs_of s ?ow) = Some d" by (simp add: dialogs_of_def D Some)
    note b = find_dialog[OF ex ord this]
    have lim: "read_limit req d \<le> ms_nextBox s ?ow" using b(2) by (auto simp: read_limit_def Let_def)
    have r1: "dialogs_exact (snd (read_refresh ?ow ?p d D s r))" for r
      using ex put_read_exact[OF ex D b(1) refl] by (simp add: read_refresh_def Let_def)
    have r2: "dialogs_exact (snd (read_advance ?ow ?p date (read_limit req d) old D s r))" for date old r
    proof -
      let ?n = "unread_from ?p (read_limit req d) (ms_m s ?ow)"
      let ?D = "put_read ?ow ?p (read_limit req d) ?n D"
      let ?s1 = "s\<lparr>ms_dialogs := Some ?D, ms_nextPts := (ms_nextPts s)(?ow := ms_nextPts s ?ow + 1)\<rparr>"
      have e1: "dialogs_exact ?s1"
        by (rule dialogs_exact_frame[OF put_read_exact[OF ex D lim refl]]) (auto intro: list_all2_refl_on)
      then show ?thesis
        using read_outbox_exact[OF e1, of ?D ?ow date]
        by (auto simp: read_advance_def Let_def nextPtsLocked_def split: option.split)
    qed
    show ?thesis using False r1 r2 by (simp add: ReadHistory_def Let_def D Some)
  qed
qed

lemma edit_boxes_dialogs: "edit_boxes req d target ord s = (ed, s') \<Longrightarrow> ms_dialogs s' = ms_dialogs s"
proof (induction ord arbitrary: s ed)
  case (Cons u us)
  obtain box e1 p1 where b: "edit_box req d target u (ms_nextPts s u) (ms_m s u) = (box, e1, p1)" by (metis prod_cases3)
  let ?s1 = "s\<lparr>ms_m := (ms_m s)(u := box), ms_nextPts := (ms_nextPts s)(u := p1)\<rparr>"
  obtain e2 s2 where r: "edit_boxes req d target us ?s1 = (e2, s2)" by fastforce
  from Cons.prems b r have "s' = s2" by auto
  with Cons.IH r show ?case by fastforce
qed simp

lemma Edit_dialogs:
  assumes "EditMessage now ord s req = Inr (res, s')" and "range_order s ord" and ex: "dialogs_exact s"
  shows "dialogs_exact s'"
proof -
  let ?msgs = "\<lambda>s1 d u. map_option (\<lambda>l. l\<lparr>dl_Messages := ms_m s1 u\<rparr>) (d u)"
  from assms(1) obtain d target ed s1 where e: "edit_boxes req d target ord s = (ed, s1)"
    and s1: "s' = s1\<lparr>ms_dialogs := map_option (?msgs s1) (ms_dialogs s1)\<rparr>"
    unfolding EditMessage_def Let_def by (simp split: if_splits option.splits prod.splits)
  have s': "ms_m s' = ms_m s1" "ms_nextBox s' = ms_nextBox s1" "ms_dialogs s' = map_option (?msgs s1) (ms_dialogs s1)"
    unfolding s1 by simp_all
  have d1: "ms_dialogs s1 = ms_dialogs s" by (rule edit_boxes_dialogs[OF e])
  from assms(2) have dist: "distinct ord" and all: "\<And>u. u \<notin> set ord \<Longrightarrow> ms_m s u = []" by (auto simp: range_order_def)
  note r = edit_boxes_rel[OF e dist] and ru = edit_boxes_rel[OF e dist, THEN conjunct2, THEN conjunct2, THEN conjunct2, rule_format]
  have "seen_alike (ms_m s u) (ms_m s1 u)" for u
  proof (cases "u \<in> set ord")
    case True
    have "list_all2 (\<lambda>m m'. ident m' = ident m \<and> content m' = edited_content req target (msg_UID m) (msg_From m) (content m)) (ms_m s u) (ms_m s1 u)"
      using ru[of u] by (simp only: True if_True)
    then show ?thesis by (rule list_all2_mono) (blast intro: ident_seen)
  next
    case False
    then show ?thesis using ru[of u] all[of u] by simp
  qed
  then have e1: "dialogs_exact s1" by (rule dialogs_exact_frame[OF ex _ r[THEN conjunct1] d1])
  then have nn: "ms_dialogs s1 \<noteq> None" by (simp add: dialogs_exact_def)
  show ?thesis
  proof (rule dialogs_exact_local[OF e1])
    have "dialogs_of s' u = dialogs_of s1 u" for u
      by (auto simp: dialogs_of_def s'(3) mget_def empty_dialog_list_def split: option.split)
    then show "dialogs_ok (ms_m s1 u) (ms_nextBox s1 u) (dialogs_of s1 u) \<Longrightarrow> dialogs_ok (ms_m s1 u) (ms_nextBox s1 u) (dialogs_of s' u)" for u
      by simp
  qed (use nn in \<open>simp_all add: s'\<close>)
qed

end
