(* ===== verification/Message_Dialog_Runs.thy ===== *)
theory Message_Dialog_Runs
  imports Message_Dialogs
begin

text \<open>
  The dialogs under deletions and in whole runs. A deletion leaves the dialogs of the peers it touched to
  be rebuilt, account by account (\<open>turn_step\<close>); after the last account all of them are right again.
\<close>

section \<open>Deletions\<close>

lemma unread_of_peer: "unread_from p r box = unread_from p r (of_peer p box)"
  by (simp add: unread_from_def of_peer_def)

lemma dialog_ok_of_peer:
  assumes "of_peer (dg_Peer d) box' = of_peer (dg_Peer d) box" shows "dialog_ok box' d = dialog_ok box d"
  using unread_of_peer[of "dg_Peer d" _ box] unread_of_peer[of "dg_Peer d" _ box'] assms by (simp add: dialog_ok_def)

lemma dialogs_except_box:
  assumes "dialogs_except Q box topID ds" and "msg_Peer ` set box' \<subseteq> msg_Peer ` set box"
    and "\<And>p. p \<notin> Q' \<Longrightarrow> of_peer p box' = of_peer p box" and "Q \<subseteq> Q'"
  shows "dialogs_except Q' box' topID ds"
  unfolding dialogs_except_def
proof (intro conjI ballI impI)
  fix d assume d: "d \<in> set ds"
  with assms(1) show "dr_ReadInboxMaxID (dg_rest d) \<le> topID" by (simp add: dialogs_except_def)
  assume q: "dg_Peer d \<notin> Q'"
  with assms(1,4) d have "dialog_ok box d" by (auto simp: dialogs_except_def)
  then show "dialog_ok box' d" using dialog_ok_of_peer[of d box' box] assms(3)[OF q] by simp
qed (use assms(1,2) in \<open>auto simp: dialogs_except_def\<close>)

definition dirty :: "deleted_row list \<Rightarrow> int \<Rightarrow> peer set" where
  "dirty rows u = dw_peer ` {r \<in> set rows. dw_userID r = u}"

lemma removed_dialogs:
  assumes "removed s rows s'" and "dialogs_exact s"
  shows "dialogs_except (dirty rows u) (ms_m s' u) (ms_nextBox s' u) (dialogs_of s' u)"
proof -
  from assms(1) obtain P where P: "ms_m s' u = filter (P u) (ms_m s u)"
    "\<And>m. m \<in> set (ms_m s u) \<Longrightarrow> \<not> P u m \<Longrightarrow> row_of u m \<in> set rows"
    and e: "ms_nextBox s' = ms_nextBox s" "ms_dialogs s' = ms_dialogs s" unfolding removed_def by blast
  have keep: "P u m" if "m \<in> set (ms_m s u)" "msg_Peer m \<notin> dirty rows u" for m
    using P(2)[of m] that by (force simp: dirty_def row_of_def)
  have "of_peer p (ms_m s' u) = of_peer p (ms_m s u)" if "p \<notin> dirty rows u" for p
    unfolding of_peer_def P(1) filter_filter using keep that by (intro filter_cong) auto
  moreover have "dialogs_ok (ms_m s u) (ms_nextBox s u) (dialogs_of s u)" using assms(2) by (simp add: dialogs_exact_def)
  ultimately show ?thesis using dialogs_except_box[of "{}" "ms_m s u" "ms_nextBox s u" "dialogs_of s u" "ms_m s' u" "dirty rows u"] e P(1)
    by (auto simp: dialogs_of_def)
qed

lemma rebuild_dialogs:
  "dl_Dialogs (mget empty_dialog_list (rebuildMemoryDialogLocked boxes u p D) w) =
    (if w = u then rebuild_scan p (top_scan p zero_message (boxes u)) (boxes u) 0 (dl_Dialogs (mget empty_dialog_list D u))
     else dl_Dialogs (mget empty_dialog_list D w))"
  by (simp add: rebuildMemoryDialogLocked_def Let_def mget_def)

lemma fold_rebuild:
  assumes "sorted_wrt (\<lambda>a b. msg_ID a < msg_ID b) (boxes u)" and "\<And>m. m \<in> set (boxes u) \<Longrightarrow> 0 < msg_ID m"
    and "dialogs_except Q (boxes u) topID (dl_Dialogs (mget empty_dialog_list D u))"
  shows "dialogs_except (Q - set ps) (boxes u) topID (dl_Dialogs (mget empty_dialog_list (fold (rebuildMemoryDialogLocked boxes u) ps D) u)) \<and>
    (\<forall>w. w \<noteq> u \<longrightarrow> dl_Dialogs (mget empty_dialog_list (fold (rebuildMemoryDialogLocked boxes u) ps D) w) = dl_Dialogs (mget empty_dialog_list D w))"
  using assms(3)
proof (induction ps arbitrary: Q D)
  case (Cons p ps)
  have "dialogs_except (Q - {p}) (boxes u) topID (dl_Dialogs (mget empty_dialog_list (rebuildMemoryDialogLocked boxes u p D) u))"
    using rebuild_except[OF Cons.prems assms(1,2)] by (simp add: rebuild_dialogs)
  note ih = Cons.IH[OF this]
  have "Q - {p} - set ps = Q - set (p # ps)" by auto
  with ih show ?case by (simp add: rebuild_dialogs)
qed simp

lemma advance_dialogs:
  "dl_Dialogs (mget empty_dialog_list (advanceMemoryHistoryClearDialogLocked u p r D) w) =
    (if w = u then update_first (\<lambda>d. dg_Peer d = p) (clear_dialog r) (dl_Dialogs (mget empty_dialog_list D u))
     else dl_Dialogs (mget empty_dialog_list D w))"
  by (simp add: advanceMemoryHistoryClearDialogLocked_def Let_def mget_def)

text \<open>The dialogs that the turn of one account leaves.\<close>

definition turn_dialogs :: "(int \<Rightarrow> 'v message list) \<Rightarrow> deleted_row list \<Rightarrow> (int \<times> 'v history_clear_anchor) list \<Rightarrow> int
     \<Rightarrow> (int \<rightharpoonup> 'v dialog_list) \<Rightarrow> (int \<rightharpoonup> 'v dialog_list)" where
  "turn_dialogs boxes rows anchors u D =
    (let D = fold (rebuildMemoryDialogLocked boxes u) (owner_peers u rows anchors) D
     in case pending_anchor anchors u of
          None \<Rightarrow> D | Some am \<Rightarrow> advanceMemoryHistoryClearDialogLocked u (msg_Peer am) (msg_ID am) D)"

lemma turn_plain:
  "pending_anchor anchors u = None \<Longrightarrow> turn_dialogs boxes rows anchors u = fold (rebuildMemoryDialogLocked boxes u) (owner_peers u rows anchors)"
  by (simp add: turn_dialogs_def fun_eq_iff Let_def)

lemma turn_anchored:
  "pending_anchor anchors u = Some am \<Longrightarrow> turn_dialogs boxes rows anchors u = (\<lambda>D. advanceMemoryHistoryClearDialogLocked u (msg_Peer am) (msg_ID am)
     (fold (rebuildMemoryDialogLocked boxes u) (owner_peers u rows anchors) D))"
  by (simp add: turn_dialogs_def fun_eq_iff Let_def)

lemma delete_owner_dialogs:
  assumes "delete_owner date rows anchors u (items, s) = Inr (its, s')" and "deleted_ids rows u \<noteq> [] \<or> pending_anchor anchors u \<noteq> None"
  shows "ms_dialogs s' = map_option (turn_dialogs (ms_m s') rows anchors u) (ms_dialogs s)"
proof (cases "pending_anchor anchors u")
  case None
  with assms(2) have "deleted_ids rows u \<noteq> []" by simp
  from delete_owner_plain[OF None refl this refl refl, of date items s] assms(1) show ?thesis
    by (auto simp: turn_plain[OF None])
next
  case (Some am)
  have "int (length (deleted_ids rows u)) + 2 \<noteq> 0" "\<not> int (length (deleted_ids rows u)) + 2 \<le> 0" by auto
  with assms(1) Some show ?thesis
    by (cases "deleted_ids rows u = []")
      (auto simp: delete_owner_def nextPtsNLocked_def materialize_anchor_def Let_def turn_anchored[OF Some]
         simp flip: pending_anchor_def deleted_ids_def)
qed


definition anchors_top :: "'v message_store \<Rightarrow> (int \<times> 'v history_clear_anchor) list \<Rightarrow> bool" where
  "anchors_top s anchors \<longleftrightarrow>
    (\<forall>u am. pending_anchor anchors u = Some am \<longrightarrow> msg_ID am \<le> ms_nextBox s u \<and>
       (\<forall>m\<in>set (ms_m s u). msg_Peer m = msg_Peer am \<longrightarrow> msg_ID m \<le> msg_ID am))"

definition rows_valid :: "deleted_row list \<Rightarrow> bool" where
  "rows_valid rows \<longleftrightarrow> (\<forall>r\<in>set rows. 0 < dw_id r \<and> dw_id r \<le> MaxMessageBoxID)"

lemma of_peer_update_first:
  "(\<And>x. P x \<Longrightarrow> msg_Peer x = q \<and> msg_Peer (f x) = q) \<Longrightarrow> p \<noteq> q \<Longrightarrow> of_peer p (update_first P f xs) = of_peer p xs"
  by (induction xs) (auto simp: of_peer_def)

lemma owner_peers_dirty: "dirty rows u \<subseteq> set (owner_peers u rows anchors)"
  by (auto simp: dirty_def owner_peers_def)

lemma owner_peers_anchor:
  assumes "pending_anchor anchors u = Some am" shows "msg_Peer am \<in> set (owner_peers u rows anchors)"
proof -
  from assms obtain a where "map_of anchors u = Some a" "am = an_message a"
    by (auto simp: pending_anchor_def split: option.splits if_splits)
  then have "(u, a) \<in> set anchors" "am = an_message a" by (auto dest: map_of_SomeD)
  then show ?thesis by (force simp: owner_peers_def)
qed

lemma slots_peers: "slots_kept s s' \<Longrightarrow> msg_Peer ` set (ms_m s' u) \<subseteq> msg_Peer ` set (ms_m s u)"
proof
  fix p assume s: "slots_kept s s'" and "p \<in> msg_Peer ` set (ms_m s' u)"
  then obtain m' where m': "m' \<in> set (ms_m s' u)" "p = msg_Peer m'" by blast
  from s have "list_all2 (\<lambda>m m'. slot m' = slot m) (ms_m s u) (ms_m s' u)" by (simp add: slots_kept_def)
  from list_all2_source[OF this m'(1)] obtain m where "m \<in> set (ms_m s u)" "slot m' = slot m" by blast
  with m'(2) show "p \<in> msg_Peer ` set (ms_m s u)" by (auto simp: slot_eq)
qed

lemma anchors_top_kept:
  assumes "anchors_top s anchors" and "slots_kept s s'" and "ms_nextBox s' = ms_nextBox s" shows "anchors_top s' anchors"
  unfolding anchors_top_def
proof (intro allI impI conjI ballI)
  fix u am assume p: "pending_anchor anchors u = Some am"
  with assms(1,3) show "msg_ID am \<le> ms_nextBox s' u" by (simp add: anchors_top_def)
  fix m' assume m': "m' \<in> set (ms_m s' u)" "msg_Peer m' = msg_Peer am"
  have "list_all2 (\<lambda>m m'. slot m' = slot m) (ms_m s u) (ms_m s' u)" using assms(2) by (simp add: slots_kept_def)
  from list_all2_source[OF this m'(1)] obtain m where "m \<in> set (ms_m s u)" "slot m' = slot m" by blast
  with p m'(2) assms(1) show "msg_ID m' \<le> msg_ID am" by (auto simp: anchors_top_def slot_eq)
qed

lemma ordered_box:
  assumes "boxes_ordered s"
  shows "sorted_wrt (\<lambda>a b. msg_ID a < msg_ID b) (ms_m s u)" and "m \<in> set (ms_m s u) \<Longrightarrow> 0 < msg_ID m"
proof -
  have "sorted_wrt (\<lambda>a b. msg_ID a < msg_ID b \<and> msg_UID a < msg_UID b) (ms_m s u)" using assms by (simp add: boxes_ordered_def)
  then show "sorted_wrt (\<lambda>a b. msg_ID a < msg_ID b) (ms_m s u)" by (rule sorted_wrt_mono_rel[rotated]) simp
  assume "m \<in> set (ms_m s u)"
  with assms have "1 \<le> msg_ID m" by (simp add: boxes_ordered_def)
  then show "0 < msg_ID m" by simp
qed

lemma turn_step:
  assumes ord: "boxes_ordered s" and aok: "anchors_ok s anchors" and top: "anchors_top s anchors" and val: "rows_valid rows"
    and del: "delete_owner date rows anchors u (items, s) = Inr (its, s')" and D: "ms_dialogs s = Some D"
    and ex: "dialogs_except (dirty rows u) (ms_m s u) (ms_nextBox s u) (dialogs_of s u)"
  shows "ms_dialogs s' \<noteq> None \<and> dialogs_ok (ms_m s' u) (ms_nextBox s' u) (dialogs_of s' u) \<and>
    (\<forall>w. w \<noteq> u \<longrightarrow> ms_m s' w = ms_m s w \<and> dialogs_of s' w = dialogs_of s w)"
proof (cases "deleted_ids rows u = [] \<and> pending_anchor anchors u = None")
  case True
  have "dirty rows u = {}"
  proof (rule ccontr)
    assume "dirty rows u \<noteq> {}"
    then obtain r where "r \<in> set rows" "dw_userID r = u" by (auto simp: dirty_def)
    then have "dw_id r \<in> set (deleted_ids rows u)" using val by (auto simp: deleted_ids_def normalizeMemoryMessageIDs_def rows_valid_def)
    with True show False by simp
  qed
  with True ex D del show ?thesis by (simp add: delete_owner_idle)
next
  case False
  obtain its2 s2 cursor e where d2: "delete_owner date rows anchors u (items, s) = Inr (its2, s2)"
    and nb: "ms_nextBox s2 = ms_nextBox s" and m: "ms_m s2 = (case pending_anchor anchors u of None \<Rightarrow> ms_m s
           | Some am \<Rightarrow> (ms_m s)(u := update_first (\<lambda>m. msg_ID m = msg_ID am \<and> msg_Peer m = msg_Peer am)
               (\<lambda>_. NewHistoryClearMessage u (msg_Peer am) (msg_ID am) (msg_UID am) (msg_Date am) e) (ms_m s u)))"
    using delete_owner_ok by blast
  obtain sk: "slots_kept s s'" and uid: "ms_nextUID s' = ms_nextUID s"
    using delete_owner_effect[OF aok, of date rows u items] del by (metis Pair_inject sum.inject(2))
  have s2: "s2 = s'" using d2 del by simp
  note nb = nb[unfolded s2] and m = m[unfolded s2]
  have ord': "boxes_ordered s'" using boxes_ordered_transfer[OF ord _ nb uid] sk by (simp add: slots_kept_def)
  have D': "ms_dialogs s' = Some (turn_dialogs (ms_m s') rows anchors u D)"
    using delete_owner_dialogs[OF del] False D by auto
  let ?Q = "dirty rows u \<union> (case pending_anchor anchors u of None \<Rightarrow> {} | Some am \<Rightarrow> {msg_Peer am})"
  have of: "of_peer p (ms_m s' u) = of_peer p (ms_m s u)" if "p \<notin> ?Q" for p
    using that by (cases "pending_anchor anchors u") (auto simp: m intro: of_peer_update_first)
  have "dialogs_except ?Q (ms_m s' u) (ms_nextBox s' u) (dl_Dialogs (mget empty_dialog_list D u))"
    using dialogs_except_box[OF ex slots_peers[OF sk] of Un_upper1] nb by (simp add: dialogs_of_def D)
  from fold_rebuild[of "ms_m s'" u, OF ordered_box(1)[OF ord'] ordered_box(2)[OF ord', of _ u] this, where ps = "owner_peers u rows anchors"]
  have f: "dialogs_except (?Q - set (owner_peers u rows anchors)) (ms_m s' u) (ms_nextBox s' u)
      (dl_Dialogs (mget empty_dialog_list (fold (rebuildMemoryDialogLocked (ms_m s') u) (owner_peers u rows anchors) D) u))"
    and oth: "w \<noteq> u \<Longrightarrow> dl_Dialogs (mget empty_dialog_list (fold (rebuildMemoryDialogLocked (ms_m s') u) (owner_peers u rows anchors) D) w) =
      dl_Dialogs (mget empty_dialog_list D w)" for w by blast+
  have "?Q - set (owner_peers u rows anchors) = {}"
    using owner_peers_dirty[of rows u anchors] by (cases "pending_anchor anchors u") (auto intro: owner_peers_anchor)
  note f = f[unfolded this]
  have "dialogs_ok (ms_m s' u) (ms_nextBox s' u) (dialogs_of s' u)"
  proof (cases "pending_anchor anchors u")
    case None
    with f show ?thesis by (simp add: dialogs_of_def D' turn_plain)
  next
    case (Some am)
    have t: "anchors_top s' anchors" by (rule anchors_top_kept[OF top sk nb])
    from Some t have "msg_ID am \<le> ms_nextBox s' u" "\<And>m. m \<in> set (ms_m s' u) \<Longrightarrow> msg_Peer m = msg_Peer am \<Longrightarrow> msg_ID m \<le> msg_ID am"
      by (auto simp: anchors_top_def)
    from dialogs_ok_clear[OF f this] Some show ?thesis by (simp add: dialogs_of_def D' turn_anchored advance_dialogs)
  qed
  moreover have "dialogs_of s' w = dialogs_of s w" if "w \<noteq> u" for w
    using oth[OF that] that by (cases "pending_anchor anchors u") (auto simp: dialogs_of_def D D' turn_plain turn_anchored advance_dialogs)
  moreover have "ms_m s' w = ms_m s w" if "w \<noteq> u" for w
    using that by (cases "pending_anchor anchors u") (auto simp: m)
  ultimately show ?thesis using D' by simp
qed


text \<open>All accounts in turn.\<close>

lemma delete_owners_dialogs:
  assumes "boxes_ordered s" and "anchors_ok s anchors" and "anchors_top s anchors" and "rows_valid rows" and "distinct us"
    and "delete_owners date rows anchors us (items, s) = Inr (its, s')" and "ms_dialogs s \<noteq> None"
    and "\<And>u. dialogs_except (if u \<in> set us then dirty rows u else {}) (ms_m s u) (ms_nextBox s u) (dialogs_of s u)"
  shows "dialogs_exact s'"
  using assms
proof (induction us arbitrary: items s)
  case Nil
  then show ?case by (simp add: dialogs_exact_def)
next
  case (Cons u us)
  obtain i1 s1 where d: "delete_owner date rows anchors u (items, s) = Inr (i1, s1)"
    and n: "ms_nextBox s1 = ms_nextBox s" "ms_nextUID s1 = ms_nextUID s" and sk: "slots_kept s s1"
    using delete_owner_effect[OF Cons.prems(2)] by metis
  obtain D where D: "ms_dialogs s = Some D" using Cons.prems(7) by blast
  have "dialogs_except (dirty rows u) (ms_m s u) (ms_nextBox s u) (dialogs_of s u)" using Cons.prems(8)[of u] by simp
  from turn_step[OF Cons.prems(1-4) d D this] have t: "ms_dialogs s1 \<noteq> None"
    "dialogs_ok (ms_m s1 u) (ms_nextBox s1 u) (dialogs_of s1 u)"
    "\<And>w. w \<noteq> u \<Longrightarrow> ms_m s1 w = ms_m s w \<and> dialogs_of s1 w = dialogs_of s w" by blast+
  show ?case
  proof (rule Cons.IH)
    show "boxes_ordered s1" using boxes_ordered_transfer[OF Cons.prems(1) _ n] sk by (simp add: slots_kept_def)
    show "anchors_ok s1 anchors" by (rule anchors_ok_kept[OF Cons.prems(2) sk])
    show "anchors_top s1 anchors" by (rule anchors_top_kept[OF Cons.prems(3) sk n(1)])
    show "delete_owners date rows anchors us (i1, s1) = Inr (its, s')" using Cons.prems(6) d by simp
    fix w show "dialogs_except (if w \<in> set us then dirty rows w else {}) (ms_m s1 w) (ms_nextBox s1 w) (dialogs_of s1 w)"
    proof (cases "w = u")
      case True
      with t(2) Cons.prems(5) show ?thesis by simp
    next
      case False
      with t(3)[of w] Cons.prems(8)[of w] n(1) show ?thesis by simp
    qed
  qed (use Cons.prems t in simp_all)
qed

lemma finish_dialogs:
  assumes ord: "boxes_ordered s" and rng: "ids_in_range s" and ex: "dialogs_exact s" and rem: "removed s rows s1"
    and aok: "anchors_ok s1 anchors" and top: "anchors_top s1 anchors"
    and fin: "finishMemoryDeleteLocked s1 owner rows date anchors = Inr (res, s')"
  shows "dialogs_exact s'"
proof (cases "rows = [] \<and> anchors = []")
  case True
  with fin have "s' = s1" by (simp add: finishMemoryDeleteLocked_def)
  moreover have "dirty rows u = {}" for u using True by (simp add: dirty_def)
  moreover have "ms_dialogs s1 \<noteq> None" using rem ex by (simp add: removed_def dialogs_exact_def)
  ultimately show ?thesis using removed_dialogs[OF rem ex] by (simp add: dialogs_exact_def)
next
  case False
  let ?s = "s1\<lparr>ms_savedMessageTags := clear_tags rows (ms_savedMessageTags s1)\<rparr>"
  have sub: "set (ms_m s1 u) \<subseteq> set (ms_m s u)" for u by (rule removed_sub[OF rem])
  from False fin obtain its where d: "delete_owners date rows anchors (delete_owner_ids rows anchors) ([], ?s) = Inr (its, s')"
    by (auto simp: finishMemoryDeleteLocked_def Let_def split: sum.splits)
  have "rows_valid rows" unfolding rows_valid_def
  proof
    fix r assume "r \<in> set rows"
    with rem obtain u m where "m \<in> set (ms_m s u)" "r = row_of u m" unfolding removed_def by blast
    moreover from this(1) have "1 \<le> msg_ID m \<and> msg_ID m \<le> ms_nextBox s u" "ms_nextBox s u \<le> MaxMessageBoxID"
      using ord rng by (simp_all add: boxes_ordered_def ids_in_range_def)
    ultimately show "0 < dw_id r \<and> dw_id r \<le> MaxMessageBoxID" by (simp add: row_of_def)
  qed
  moreover have "boxes_ordered ?s"
  proof -
    from rem obtain P where "\<And>u. ms_m s1 u = filter (P u) (ms_m s u)" "ms_nextBox s1 = ms_nextBox s" "ms_nextUID s1 = ms_nextUID s"
      unfolding removed_def by blast
    with ord show ?thesis by (auto simp: boxes_ordered_def intro: sorted_wrt_filter)
  qed
  moreover have "dialogs_except (if u \<in> set (delete_owner_ids rows anchors) then dirty rows u else {})
      (ms_m ?s u) (ms_nextBox ?s u) (dialogs_of ?s u)" for u
  proof -
    have "dirty rows u = {}" if "u \<notin> set (delete_owner_ids rows anchors)" using that by (auto simp: dirty_def delete_owner_ids_def)
    with removed_dialogs[OF rem ex, of u] show ?thesis
      by (cases "u \<in> set (delete_owner_ids rows anchors)") (simp_all add: dialogs_of_def)
  qed
  moreover have "ms_dialogs ?s \<noteq> None" using rem ex by (simp add: removed_def dialogs_exact_def)
  moreover have "anchors_ok ?s anchors" "anchors_top ?s anchors" using aok top by (simp_all add: anchors_ok_def anchors_top_def)
  moreover have "distinct (delete_owner_ids rows anchors)" by (simp add: delete_owner_ids_def)
  ultimately show ?thesis using delete_owners_dialogs[OF _ _ _ _ _ d] by blast
qed


lemma Delete_dialogs:
  assumes ord: "boxes_ordered s" and "ids_in_range s" and ex: "dialogs_exact s" and "DeleteMessages now order s req = Inr (res, s')"
  shows "dialogs_exact s'"
proof -
  have an: "anchors_ok s1 []" "anchors_top s1 []" for s1 :: "'a message_store" by (simp_all add: anchors_ok_def anchors_top_def pending_anchor_def)
  from DeleteMessages_removed[OF ord assms(4)] show ?thesis
    by cases (use ex finish_dialogs[OF assms(1-3) _ an] in auto)
qed

lemma sorted_last: "sorted_wrt (\<lambda>a b. msg_ID a < msg_ID b) xs \<Longrightarrow> m \<in> set xs \<Longrightarrow> msg_ID m \<le> msg_ID (last xs)"
  by (induction xs) (auto simp: less_imp_le)

lemma history_anchors_top:
  assumes ord: "boxes_ordered s" shows "anchors_top s (history_anchors s req)"
  unfolding anchors_top_def
proof (intro allI impI conjI ballI)
  fix u am assume "pending_anchor (history_anchors s req) u = Some am"
  then obtain a where "map_of (history_anchors s req) u = Some a" and am: "am = an_message a"
    by (auto simp: pending_anchor_def split: option.splits if_splits)
  then have "(u, a) \<in> set (history_anchors s req)" by (auto dest: map_of_SomeD)
  from history_anchor_of[OF this] obtain p where a: "memoryHistoryClearAnchorLocked s u p = Some a" by blast
  have t: "am = top_scan p zero_message (ms_m s u)" "msg_ID am \<noteq> 0"
    using a by (auto simp: memoryHistoryClearAnchorLocked_def am Let_def split: if_splits)
  have tl: "top_scan p zero_message (ms_m s u) = (if of_peer p (ms_m s u) = [] then zero_message else last (of_peer p (ms_m s u)))"
    using ordered_box(2)[OF ord] by (intro top_scan_last[OF ordered_box(1)[OF ord]]) simp
  then have ne: "of_peer p (ms_m s u) \<noteq> []" and l: "am = last (of_peer p (ms_m s u))" using t by (auto split: if_splits)
  have inl: "am \<in> set (ms_m s u)" "msg_Peer am = p" using last_in_set[OF ne] l by (auto simp: of_peer_def)
  then show "msg_ID am \<le> ms_nextBox s u" using ord by (simp add: boxes_ordered_def)
  fix m assume m: "m \<in> set (ms_m s u)" "msg_Peer m = msg_Peer am"
  have "sorted_wrt (\<lambda>a b. msg_ID a < msg_ID b) (of_peer p (ms_m s u))"
    unfolding of_peer_def by (rule sorted_wrt_filter[OF ordered_box(1)[OF ord]])
  moreover have "m \<in> set (of_peer p (ms_m s u))" using m inl(2) by (simp add: of_peer_def)
  ultimately show "msg_ID m \<le> msg_ID am" unfolding l by (rule sorted_last)
qed

lemma Clear_dialogs:
  assumes "boxes_ordered s" and "ids_in_range s" and ex: "dialogs_exact s" and "DeleteHistory now order s req = Inr (res, s')"
  shows "dialogs_exact s'"
  using assms(1,4)
proof (rule DeleteHistory_removed)
  fix rows s1 date res' assume r: "removed s rows s1"
    "finishMemoryDeleteLocked s1 (hq_OwnerUserID req) rows date (history_anchors s req) = Inr (res', s')"
  have "anchors_top s1 (history_anchors s req)"
    using history_anchors_top[OF assms(1), of req] removed_sub[OF r(1)] r(1) unfolding anchors_top_def removed_def by auto
  then show ?thesis
    by (rule finish_dialogs[OF assms(1-3) r(1) anchors_ok_removed[OF history_anchors_ok[OF assms(1)] r(1)] _ r(2)])
qed (use ex in simp)

section \<open>Runs\<close>

fun op_creates :: "'v msg_op \<Rightarrow> bool" where
  "op_creates (OpCreate _ _) = True"
| "op_creates _ = False"

lemma state_after_dialogs:
  "dialogs_exact s \<Longrightarrow> (\<And>res s'. r = Inr (res, s') \<Longrightarrow> dialogs_exact s') \<Longrightarrow> dialogs_exact (state_after s r)"
  by (auto simp: state_after_def split: sum.split)

lemma op_dialogs:
  assumes "boxes_ordered s" and "json_codec_ok cx" and "op_ordered s op" and "ids_in_range s" and "\<not> op_creates op" and "dialogs_exact s"
  shows "dialogs_exact (msg_exec cx s op)"
proof (cases op)
  case (OpUnpin now req)
  then show ?thesis using assms(6)
    by (simp, intro state_after_dialogs) (auto intro: dialogs_exact_flags[OF _ Unpin_flags Unpin_dialogs])
next
  case (OpLog events)
  have "dialogs_exact (AttachUpdateEventStore s events)"
    by (rule dialogs_exact_frame[OF assms(6)]) (auto simp: AttachUpdateEventStore_def intro: list_all2_refl_on)
  with OpLog show ?thesis by simp
qed (use assms in \<open>auto intro!: state_after_dialogs Forward_dialogs Read_dialogs intro: SendPrivateText_dialogs Pin_dialogs Toggle_dialogs
      Delete_dialogs Clear_dialogs Edit_dialogs\<close>)

lemma run_dialogs:
  assumes "msg_run cx s ops s'" and "json_codec_ok cx" and "boxes_ordered s" and "dialogs_exact s" and "\<not> list_ex op_creates ops"
  shows "dialogs_exact s'"
  using assms
proof (induction rule: msg_run.induct)
  case (run_step s ops s' op)
  then have "boxes_ordered s'" using ordered.runs[OF run_step(1), where clr = True] by blast
  with run_step show ?case by (auto intro: op_dialogs)
qed simp


text \<open>
  C25: Exact dialogs. In every state that the store reaches from an empty one with dialogs, by sends,
  forwards, pins, protection, read marks, edits, deletions and clears (messages created without a dialog
  apart), the dialog list of each account has exactly one dialog per peer of its box. The dialog shows the
  id and date of the newest message with that peer, and its unread count is the number of incoming
  messages above the read mark.
\<close>

theorem dialog_counts_exact:
  assumes "json_codec_ok cx" and "msg_run cx (NewMessageStore (Some Map.empty)) ops s" and "\<not> list_ex op_creates ops"
  shows "distinct (map dg_Peer (dialogs_of s u)) \<and> dg_Peer ` set (dialogs_of s u) = msg_Peer ` set (ms_m s u) \<and>
    (\<forall>d\<in>set (dialogs_of s u). \<forall>ms. ms = filter (\<lambda>m. msg_Peer m = dg_Peer d) (ms_m s u) \<longrightarrow>
       dg_TopMessage d = msg_ID (last ms) \<and> dg_TopMessageDate d = msg_Date (last ms) \<and>
       dr_UnreadCount (dg_rest d) = int (length (filter (\<lambda>m. \<not> msg_Out m \<and> msg_ID m > dr_ReadInboxMaxID (dg_rest d)) ms)))"
proof -
  let ?s0 = "NewMessageStore (Some Map.empty)"
  have "fresh_store ?s0" by (simp add: fresh_store_def)
  then have o: "boxes_ordered ?s0" by (rule fresh_invariants)
  have "dialogs_exact ?s0"
    by (simp add: dialogs_exact_def NewMessageStore_def dialogs_of_def mget_def empty_dialog_list_def dialogs_except_def)
  from run_dialogs[OF assms(2,1) o this assms(3)]
  have ok: "dialogs_ok (ms_m s u) (ms_nextBox s u) (dialogs_of s u)" by (simp add: dialogs_exact_def)
  then have d: "\<And>d. d \<in> set (dialogs_of s u) \<Longrightarrow> dialog_ok (ms_m s u) d" by (simp add: dialogs_except_def)
  have "dg_Peer d \<in> msg_Peer ` set (ms_m s u)" if "d \<in> set (dialogs_of s u)" for d
  proof -
    from d[OF that] have "of_peer (dg_Peer d) (ms_m s u) \<noteq> []" by (simp add: dialog_ok_def)
    then show ?thesis by (auto simp: of_peer_def filter_empty_conv intro: rev_image_eqI)
  qed
  then have "dg_Peer ` set (dialogs_of s u) = msg_Peer ` set (ms_m s u)" using ok by (auto simp: dialogs_except_def)
  moreover have "unread_from p r box = int (length (filter (\<lambda>m. \<not> msg_Out m \<and> msg_ID m > r) (of_peer p box)))" for p r box
    by (simp add: unread_from_def of_peer_def conj_commute conj_left_commute)
  ultimately show ?thesis using ok d by (auto simp: dialogs_except_def dialog_ok_def of_peer_def)
qed

end
