(* ===== verification/Message_Examples.thy ===== *)
theory Message_Examples
  imports Message_Properties Message_Deletion Message_Pages Message_Dialog_Runs
begin

text \<open>Concrete runs of the message store, with a small encoder in place of JSON and SHA-256.\<close>

section \<open>The encoder\<close>

definition enc_int :: "int \<Rightarrow> string" where
  "enc_int i = (if i < 0 then CHR ''-'' else CHR ''+'') # replicate (nat \<bar>i\<bar>) (CHR ''1'')"

definition dec_int :: "string \<Rightarrow> int \<times> string" where
  "dec_int s = (case s of
     [] \<Rightarrow> (0, [])
   | c # cs \<Rightarrow> (let n = int (length (takeWhile (\<lambda>x. x = CHR ''1'') cs))
                in (if c = CHR ''-'' then - n else n, dropWhile (\<lambda>x. x = CHR ''1'') cs)))"

definition unary_envelope :: "int \<Rightarrow> unit message \<Rightarrow> string option" where
  "unary_envelope v m =
    (if msg_ReplyTo m = None
     then Some (enc_int v @ enc_int (msg_ID m) @ enc_int (msg_UID m) @ enc_int (msg_RandomID m) @
                enc_int (msg_OwnerUserID m) @ enc_int (msg_Pts m))
     else None)"

definition unary_read_envelope :: "string \<Rightarrow> (int \<times> unit message) option" where
  "unary_read_envelope s =
    (case dec_int s of (v, s) \<Rightarrow> (case dec_int s of (i, s) \<Rightarrow> (case dec_int s of (uid, s) \<Rightarrow>
      (case dec_int s of (rid, s) \<Rightarrow> (case dec_int s of (ow, s) \<Rightarrow> (case dec_int s of (pts, s) \<Rightarrow>
        Some (v, zero_message\<lparr>msg_ID := i, msg_UID := uid, msg_RandomID := rid, msg_OwnerUserID := ow, msg_Pts := pts\<rparr>)))))))"

definition unary_codec :: "unit json_codec" where
  "unary_codec = \<lparr>js_payload = (\<lambda>p. Some (sp_Message p)),
     js_sha256 = (\<lambda>p. take 32 (str_bytes p @ replicate 32 0)),
     js_envelope = unary_envelope, js_read_envelope = unary_read_envelope,
     js_external = (\<lambda>_. None), js_read_external = (\<lambda>_. None)\<rparr>"

lemma dec_enc_int: "rest = [] \<or> hd rest \<noteq> CHR ''1'' \<Longrightarrow> dec_int (enc_int i @ rest) = (i, rest)"
  by (cases rest) (auto simp: dec_int_def enc_int_def Let_def takeWhile_append dropWhile_append)

lemma enc_int_head: "hd (enc_int i @ rest) \<noteq> CHR ''1''"
  by (simp add: enc_int_def)

lemma unary_codec_ok: "json_codec_ok unary_codec"
proof -
  have l: "dec_int (enc_int i) = (i, [])" for i using dec_enc_int[of "[]" i] by simp
  have "unary_read_envelope (enc_int v @ enc_int i @ enc_int uid @ enc_int rid @ enc_int ow @ enc_int pts) =
    Some (v, zero_message\<lparr>msg_ID := i, msg_UID := uid, msg_RandomID := rid, msg_OwnerUserID := ow, msg_Pts := pts\<rparr>)" for v i uid rid ow pts
    by (simp add: unary_read_envelope_def dec_enc_int enc_int_head l enc_int_head[of _ "[]", simplified])
  then show ?thesis
    by (auto simp: json_codec_ok_def unary_codec_def unary_envelope_def sha256_Size_def zero_message_def split: if_splits)
qed

section \<open>Runs\<close>

definition hello :: "unit send_request" where
  "hello = zero_send_request\<lparr>sr_SenderUserID := 1, sr_RecipientUserID := 2, sr_RandomID := 5, sr_Message := ''hi'', sr_Date := 9\<rparr>"

definition store0 :: "unit message_store" where
  "store0 = NewMessageStore None"

definition sent1 :: "unit send_result \<times> unit message_store" where
  "sent1 = projr (SendPrivateText unary_codec 0 store0 hello)"

definition erase :: delete_request where
  "erase = \<lparr>dq_OwnerUserID = 1, dq_IDs = [1], dq_Revoke = False, dq_Date = 12\<rparr>"

definition rename :: "unit edit_request" where
  "rename = \<lparr>eq_OwnerUserID = 1, eq_Peer = user_peer 2, eq_ID = 1, eq_Message = ''bye'', eq_Entities = [], eq_Media = None,
     eq_EditDate = 11, eq_HideEdited = False, eq_SetReplyMarkup = False, eq_ReplyMarkup = None, eq_SetRichMessage = False,
     eq_RichMessage = None, eq_ViaBotEditBotID = 0, eq_AllowTodoParticipantMutation = False, eq_WebPageResolve = False,
     eq_ExpectedWebPageID = 0\<rparr>"

definition store2 :: "unit message_store" where
  "store2 = state_after (snd sent1) (EditMessage 0 [1, 2] (snd sent1) rename)"

definition empty_filter :: message_filter where
  "empty_filter = \<lparr>mf_HasPeer = False, mf_Peer = zero_peer, mf_Query = [], mf_OffsetID = 0, mf_OffsetDate = 0, mf_MinDate = 0,
     mf_MaxDate = 0, mf_AddOffset = 0, mf_Limit = 0, mf_MaxID = 0, mf_MinID = 0, mf_SenderUserID = 0, mf_CountOnly = False,
     mf_PinnedOnly = False, mf_MusicOnly = False, mf_SavedPeer = zero_peer, mf_SavedReactions = [], mf_PeerIDs = [],
     mf_RestrictPeerIDs = False\<rparr>"

lemma sent1_ok: "\<not> isl (SendPrivateText unary_codec 0 store0 hello)"
  by code_simp

lemma sent1_eq: "SendPrivateText unary_codec 0 store0 hello = Inr sent1"
  unfolding sent1_def by (metis (no_types) sum.collapse(2) sent1_ok)

lemmas send_eval = sent1_def hello_def store0_def zero_send_request_def NewMessageStore_def SendPrivateText_def
  sendPrivateTextLocked_def HasContent_def PrivateSendFingerprint_def lookupPrivateSendReplayLocked_def
  resolveMemoryReplyLocked_def Let_def unary_codec_def unary_envelope_def EncodePrivateSendSnapshot_def snapshot_valid_def
  snapshot_external_def sender_message_def recipient_message_def delivers_def commit_send_def staged_pts_def NewUpdateEventStore_def

lemma sent1_boxes: "ms_nextBox (snd sent1) = (\<lambda>_. 0)(1 := 1, 2 := 1)" "u \<noteq> 1 \<Longrightarrow> u \<noteq> 2 \<Longrightarrow> ms_m (snd sent1) u = []"
  by (simp_all add: send_eval)

lemma sent1_range: "ids_in_range (snd sent1)"
  by (auto simp: ids_in_range_def sent1_boxes MaxMessageBoxID_def)

lemma sent1_ordered: "op_ordered (snd sent1) (OpEdit now [1, 2] e)"
  using sent1_boxes(2) by (fastforce simp: range_order_def)

lemma sent1_ids: "msg_ID (sn_SenderMessage (fst sent1)) = 1" "ev_Pts (sn_SenderEvent (fst sent1)) = 1"
  "msg_ID (sn_RecipientMessage (fst sent1)) = 1" "HasContent hello" "sr_RandomID hello = 5" "sr_RecipientUserID hello = 2"
  by code_simp+

lemma store2_run: "msg_run unary_codec (snd sent1) [OpEdit 0 [1, 2] rename] store2"
  using run_step[OF run_refl sent1_ordered sent1_range, of unary_codec 0 rename] by (simp add: store2_def)

lemma store0_fresh: "fresh_store store0"
  by (simp add: fresh_store_def store0_def)

lemma store0_range: "ids_in_range store0"
  by (simp add: ids_in_range_def MaxMessageBoxID_def store0_def NewMessageStore_def)

theorem private_send_replay_witness:
  "\<exists>res'. SendPrivateText unary_codec 20 store2 hello = Inr (res', store2) \<and> sn_Duplicate res' \<and>
    msg_ID (sn_SenderMessage res') = 1 \<and> msg_ID (sn_RecipientMessage res') = 1 \<and> ev_Pts (sn_SenderEvent res') = 1"
  using private_send_replay[OF unary_codec_ok store0_fresh run_refl, of 0 hello "fst sent1" "snd sent1"
     "[OpEdit 0 [1, 2] rename]" store2 hello 20] store2_run sent1_eq sent1_ids
  by auto

theorem random_id_conflict_witness:
  "SendPrivateText unary_codec 20 store2 (hello\<lparr>sr_Message := ''ho''\<rparr>) = Inl ErrMessageRandomIDDuplicate \<and>
   SendPrivateText unary_codec 20 store2 (hello\<lparr>sr_RecipientUserID := 3\<rparr>) = Inl ErrMessageRandomIDDuplicate"
proof -
  have f: "PrivateSendFingerprint unary_codec (hello\<lparr>sr_RecipientUserID := 3\<rparr>) = PrivateSendFingerprint unary_codec hello"
    "\<exists>fp. PrivateSendFingerprint unary_codec hello = Inr fp" "\<exists>fp. PrivateSendFingerprint unary_codec (hello\<lparr>sr_Message := ''ho''\<rparr>) = Inr fp"
    "HasContent (hello\<lparr>sr_Message := ''ho''\<rparr>)" "HasContent (hello\<lparr>sr_RecipientUserID := 3\<rparr>)"
    by (simp_all add: PrivateSendFingerprint_def hello_def zero_send_request_def unary_codec_def Let_def send_payload_of_def
        str_bytes_def HasContent_def)
  have "PrivateSendFingerprint unary_codec (hello\<lparr>sr_Message := ''ho''\<rparr>) \<noteq> PrivateSendFingerprint unary_codec hello"
    by code_simp
  with f show ?thesis
    using random_id_conflict[OF unary_codec_ok store0_fresh run_refl, of 0 hello "fst sent1" "snd sent1"
       "[OpEdit 0 [1, 2] rename]" store2] store2_run sent1_eq sent1_ids
    by auto
qed

lemma first_run: "msg_run unary_codec store0 [OpSend 0 hello] (snd sent1)"
  using run_step[OF run_refl, of store0 "OpSend 0 hello" unary_codec] store0_range
  by (simp add: sent1_eq state_after_def case_prod_beta)

theorem message_copies_witness:
  "\<exists>m n. m \<in> set (ms_m store2 1) \<and> n \<in> set (ms_m store2 2) \<and> msg_Body m = ''bye'' \<and> msg_Body n = msg_Body m \<and> msg_Peer n = user_peer 1"
proof -
  have "length (ms_m store2 1) = 1" "length (ms_m store2 2) = 1" "msg_Body (hd (ms_m store2 1)) = ''bye''"
    "msg_UID (hd (ms_m store2 1)) = 1" "msg_UID (hd (ms_m store2 2)) = 1" by code_simp+
  then have h: "hd (ms_m store2 1) \<in> set (ms_m store2 1)" "hd (ms_m store2 2) \<in> set (ms_m store2 2)"
    "msg_UID (hd (ms_m store2 2)) = msg_UID (hd (ms_m store2 1))" "msg_Body (hd (ms_m store2 1)) = ''bye''" by (auto intro: hd_in_set)
  have r: "msg_run unary_codec store0 ([OpSend 0 hello] @ [OpEdit 0 [1, 2] rename]) store2"
    using run_step[OF first_run sent1_ordered sent1_range, of 0 rename] by (simp add: store2_def)
  from message_copies[OF unary_codec_ok store0_fresh r, of 1] h(1)
  have c: "\<forall>v n. v \<noteq> 1 \<longrightarrow> n \<in> set (ms_m store2 v) \<longrightarrow> msg_UID n = msg_UID (hd (ms_m store2 1)) \<longrightarrow>
      msg_Peer n = user_peer 1 \<and> msg_Body n = msg_Body (hd (ms_m store2 1))" by simp
  from c[rule_format, of 2, OF _ h(2,3)] h show ?thesis
    by (intro exI[of _ "hd (ms_m store2 1)"] exI[of _ "hd (ms_m store2 2)"]) simp
qed


definition revoke :: delete_request where
  "revoke = \<lparr>dq_OwnerUserID = 2, dq_IDs = [7, 1, 1], dq_Revoke = True, dq_Date = 12\<rparr>"

theorem delete_messages_exact_witness:
  "\<exists>res s'. DeleteMessages 0 [2, 1] (snd sent1) revoke = Inr (res, s') \<and> ms_m s' 1 = [] \<and> ms_m s' 2 = [] \<and>
     ms_nextPts s' 1 = 2 \<and> map du_MessageIDs (de_Deleted res) = [[1], [1]]"
proof -
  let ?s = "snd sent1"
  have e: "map msg_ID (delete_targets ?s revoke 1) = [1]" "map msg_ID (delete_targets ?s revoke 2) = [1]" "map msg_ID (ms_m ?s 1) = [1]"
    "map msg_ID (ms_m ?s 2) = [1]" "ms_nextPts ?s 1 = 1" "dq_OwnerUserID revoke \<noteq> 0"
    "int (length (normalizeMemoryMessageIDs (dq_IDs revoke))) \<le> MaxDeleteMessageIDs" by code_simp+
  have o: "range_order ?s [2, 1]" using sent1_boxes(2) by (fastforce simp: range_order_def)
  obtain s' us where d: "DeleteMessages 0 [2, 1] ?s revoke = Inr (\<lparr>de_OwnerUserID = dq_OwnerUserID revoke,
      de_Deleted = map (deleted_item ?s 12 (delete_targets ?s revoke)) us, de_Offset = 0\<rparr>, s')"
    and us: "sorted us" "distinct us" "set us = {u. delete_targets ?s revoke u \<noteq> []}"
    and m: "\<And>u. ms_m s' u = filter (\<lambda>m. m \<notin> set (delete_targets ?s revoke u)) (ms_m ?s u)"
    and p: "\<And>u. ms_nextPts s' u = ms_nextPts ?s u + int (length (delete_targets ?s revoke u))"
    using delete_messages_exact[OF unary_codec_ok store0_fresh first_run sent1_range o e(6,7), of 12 0] by (auto simp: revoke_def)
  have sub: "delete_targets ?s revoke u \<noteq> [] \<Longrightarrow> u = 1 \<or> u = 2" for u
    using sent1_boxes(2)[of u] targets_filter[of ?s revoke u] by fastforce
  have "set us = {1, 2}" using us(3) sub e(1,2) by auto
  then have us': "us = [1, 2]" using us(1,2) sorted_list_of_set.idem_if_sorted_distinct[of us] by simp
  have "ms_m s' u = []" if "map msg_ID (delete_targets ?s revoke u) = [1]" "map msg_ID (ms_m ?s u) = [1]" for u
    using m[of u] targets_filter[of ?s revoke u] that by (auto simp: filter_empty_conv split: if_splits)
  then show ?thesis using d e p[of 1] us' by (auto simp: deleted_item_def Let_def)
qed

theorem history_page_window_witness:
  "map msg_ID (ml_Messages (filterMessageList id (\<lambda>_. False) (ms_m (snd sent1) 2)
     (empty_filter\<lparr>mf_OffsetID := 5, mf_Limit := 3\<rparr>))) = [1]"
proof -
  let ?f = "empty_filter\<lparr>mf_OffsetID := 5, mf_Limit := 3\<rparr>" and ?b = "ms_m (snd sent1) 2"
  have w: "ml_Messages (filterMessageList id (\<lambda>_. False) ?b ?f) =
      take (nat (int (offset_rank ?f (rev (filter (filter_keeps id ?f) ?b))) + ClampMessageHistoryAddOffset 0 + history_limit 3) -
            nat (int (offset_rank ?f (rev (filter (filter_keeps id ?f) ?b))) + ClampMessageHistoryAddOffset 0))
        (drop (nat (int (offset_rank ?f (rev (filter (filter_keeps id ?f) ?b))) + ClampMessageHistoryAddOffset 0))
           (rev (filter (filter_keeps id ?f) ?b)))"
    using history_page_window[OF unary_codec_ok store0_fresh first_run, of ?f _ id 2] by (simp add: empty_filter_def)
  show ?thesis unfolding w by code_simp
qed

definition sent2 :: "unit message_store" where
  "sent2 = msg_exec unary_codec (NewMessageStore (Some Map.empty)) (OpSend 0 hello)"

theorem dialog_counts_exact_witness:
  "\<exists>d\<in>set (dialogs_of sent2 2). dg_Peer d = user_peer 1 \<and> dg_TopMessage d = 1 \<and> dr_UnreadCount (dg_rest d) = 1"
proof -
  let ?d = "hd (dialogs_of sent2 2)"
  have c: "dialogs_of sent2 2 \<noteq> []" "dg_Peer ?d = user_peer 1"
    "msg_ID (last (filter (\<lambda>m. msg_Peer m = dg_Peer ?d) (ms_m sent2 2))) = 1"
    "length (filter (\<lambda>m. \<not> msg_Out m \<and> msg_ID m > dr_ReadInboxMaxID (dg_rest ?d)) (filter (\<lambda>m. msg_Peer m = dg_Peer ?d) (ms_m sent2 2))) = 1"
    by code_simp+
  have r: "msg_run unary_codec (NewMessageStore (Some Map.empty)) ([] @ [OpSend 0 hello]) sent2"
    unfolding sent2_def by (rule run_step[OF run_refl]) (simp_all add: ids_in_range_def MaxMessageBoxID_def NewMessageStore_def)
  from dialog_counts_exact[OF unary_codec_ok r, of 2] c hd_in_set[OF c(1)] show ?thesis by (intro bexI[of _ ?d]) auto
qed

section \<open>A receipt lost with a cleared history\<close>

text \<open>
  The sender clears the history, which turns its last message into the anchor, and then deletes the
  anchor. The anchor has no random id, so \<open>finishMemoryDeleteLocked\<close> does not mark the receipt, and
  the retry of the send is answered with an internal error in place of the deletion.
\<close>

definition wipe :: history_request where
  "wipe = \<lparr>hq_OwnerUserID = 1, hq_Peer = user_peer 2, hq_MaxID = 0, hq_MinDate = 0, hq_MaxDate = 0, hq_JustClear = True,
     hq_Revoke = False, hq_Date = 11\<rparr>"

definition wiped :: "unit message_store" where
  "wiped = state_after (snd sent1) (DeleteHistory 0 [1, 2] (snd sent1) wipe)"

definition erased :: "unit message_store" where
  "erased = state_after wiped (DeleteMessages 0 [1, 2] wiped erase)"

lemma anchor_loses_receipt: "SendPrivateText unary_codec 20 erased hello = Inl (ErrReplayAbsent 1)"
proof -
  have "case SendPrivateText unary_codec 20 erased hello of Inl e \<Rightarrow> e = ErrReplayAbsent 1 | Inr _ \<Rightarrow> False" by code_simp
  then show ?thesis by (auto split: sum.splits)
qed

section \<open>A hole in the log after an edit\<close>

text \<open>
  \<open>EditMessage\<close> takes the next pts of each account but appends no event to the log; the next send takes
  the pts after it, and the log has no event for the pts between.
\<close>

definition after_edit :: "unit message_store" where
  "after_edit = state_after store2 (SendPrivateText unary_codec 0 store2 (hello\<lparr>sr_RandomID := 6\<rparr>))"

lemma edit_leaves_hole:
  "map ev_Pts (es_events (the (ms_events after_edit)) 1) = [1, 3]" "MaxContiguousPts (the (ms_events after_edit)) 1 = Inr 1"
  by code_simp+

end
