(* ===== verification/Go_Codec.thy ===== *)
theory Go_Codec
  imports Go_Text
begin

text \<open>
  What the ledger and cursor code uses of Go's encoders: \<open>strconv_FormatInt\<close> and \<open>strconv_ParseInt\<close> are base ten at 64 bits;
  \<open>b64url_Encode\<close> and \<open>b64url_Decode\<close> are \<open>base64.RawURLEncoding\<close>: the URL alphabet, no
  padding, line breaks skipped and the unused low bits of a last partial group ignored, as the
  lenient decoder of \<open>encoding/base64\<close> does.

  Lemmas: both printers are read back.
\<close>

section \<open>Decimal numbers\<close>

definition strconv_FormatInt :: "int \<Rightarrow> string" where
  "strconv_FormatInt n = (if n < 0 then CHR ''-'' # dec_digits (nat (- n)) else dec_digits (nat n))"

definition dec_digit :: "char \<Rightarrow> nat option" where
  "dec_digit c = (let n = char_nat c in if 48 \<le> n \<and> n \<le> 57 then Some (n - 48) else None)"

text \<open>The value of a string of digits; \<open>None\<close> when it is empty or has another byte.\<close>

fun dec_value :: "nat \<Rightarrow> string \<Rightarrow> nat option" where
  "dec_value acc [] = Some acc"
| "dec_value acc (c # cs) = (case dec_digit c of None \<Rightarrow> None | Some d \<Rightarrow> dec_value (10 * acc + d) cs)"

definition dec_parse :: "string \<Rightarrow> nat option" where
  "dec_parse s = (if s = [] then None else dec_value 0 s)"

definition strconv_ParseInt :: "string \<Rightarrow> int option" where
  "strconv_ParseInt s =
    (case s of
       [] \<Rightarrow> None
     | c # cs \<Rightarrow>
         (case dec_parse (if c = CHR ''+'' \<or> c = CHR ''-'' then cs else s) of
            None \<Rightarrow> None
          | Some n \<Rightarrow>
              let v = (if c = CHR ''-'' then - int n else int n)
              in if is_i64 v then Some v else None))"

lemma dec_digit_char_of [simp]: "d < 10 \<Longrightarrow> dec_digit (char_of (d + 48)) = Some d"
  by (simp add: dec_digit_def char_nat_def)

lemma dec_value_append:
  "dec_value acc (xs @ ys) = (case dec_value acc xs of None \<Rightarrow> None | Some v \<Rightarrow> dec_value v ys)"
  by (induction xs arbitrary: acc) (auto split: option.split)

lemma dec_value_digits: "dec_value 0 (dec_digits n) = Some n"
proof (induction n rule: dec_digits.induct)
  case (1 n)
  show ?case
  proof (cases "n < 10")
    case True
    then show ?thesis by (simp add: dec_digits.simps[of n])
  next
    case False
    with 1 show ?thesis by (subst dec_digits.simps) (simp add: dec_value_append)
  qed
qed

lemma dec_digits_nonempty [simp]: "dec_digits n \<noteq> []"
  by (subst dec_digits.simps) simp

lemma dec_digits_set: "c \<in> set (dec_digits n) \<Longrightarrow> \<exists>d < 10::nat. c = char_of (d + 48)"
proof (induction n rule: dec_digits.induct)
  case (1 n)
  show ?case
  proof (cases "n < 10")
    case True
    with 1(2) show ?thesis by (auto simp: dec_digits.simps[of n])
  next
    case False
    then have "c \<in> set (dec_digits (n div 10)) \<or> c = char_of (n mod 10 + 48)"
      using 1(2) by (subst (asm) dec_digits.simps) auto
    then show ?thesis using 1(1)[OF False] by (auto intro: exI[of _ "n mod 10"])
  qed
qed

lemma dec_digits_length: "n < 10 ^ k \<Longrightarrow> 0 < k \<Longrightarrow> length (dec_digits n) \<le> k"
proof (induction n arbitrary: k rule: dec_digits.induct)
  case (1 n)
  show ?case
  proof (cases "n < 10")
    case True
    then show ?thesis using 1(3) by (simp add: dec_digits.simps[of n])
  next
    case False
    obtain j where j: "k = Suc j" using 1(3) by (cases k) auto
    with 1(2) False have "0 < j" by (cases j) auto
    moreover have "n div 10 < 10 ^ j" using 1(2) j by (simp add: div_less_iff_less_mult mult.commute)
    ultimately have "length (dec_digits (n div 10)) \<le> j" using 1(1)[OF False] by blast
    then show ?thesis using False j by (subst dec_digits.simps) simp
  qed
qed

lemma digit_not_sign: "(d :: nat) < 10 \<Longrightarrow> char_of (d + 48) \<noteq> CHR ''+'' \<and> char_of (d + 48) \<noteq> CHR ''-''"
proof -
  assume d: "d < 10"
  have "char_nat (char_of (d + 48)) = d + 48" using d by (simp add: char_nat_def)
  moreover have "char_nat CHR ''+'' = 43" "char_nat CHR ''-'' = 45" by (simp_all add: char_nat_def)
  ultimately show ?thesis by auto
qed

lemma ParseInt_FormatInt:
  assumes "0 \<le> n" and "is_i64 n"
  shows "strconv_ParseInt (strconv_FormatInt n) = Some n"
proof -
  obtain c cs where cs: "dec_digits (nat n) = c # cs" by (cases "dec_digits (nat n)") auto
  then obtain d :: nat where "d < 10" "c = char_of (d + 48)" using dec_digits_set[of c "nat n"] by auto
  then have "c \<noteq> CHR ''+''" "c \<noteq> CHR ''-''" using digit_not_sign by auto
  with cs assms show ?thesis
    using dec_value_digits[of "nat n"]
    by (simp add: strconv_ParseInt_def strconv_FormatInt_def dec_parse_def)
qed

section \<open>Base64\<close>

definition b64url_alphabet :: string where
  "b64url_alphabet = ''ABCDEFGHIJKLMNOPQRSTUVWXYZabcdefghijklmnopqrstuvwxyz0123456789-_''"

definition b64url_char :: "nat \<Rightarrow> char" where
  "b64url_char n = b64url_alphabet ! n"

fun alphabet_index :: "'a \<Rightarrow> 'a list \<Rightarrow> nat option" where
  "alphabet_index x [] = None"
| "alphabet_index x (y # ys) = (if x = y then Some 0 else map_option Suc (alphabet_index x ys))"

definition b64url_value :: "char \<Rightarrow> nat option" where
  "b64url_value c = alphabet_index c b64url_alphabet"

fun b64_sextets :: "nat list \<Rightarrow> nat list" where
  "b64_sextets [] = []"
| "b64_sextets [x] = [x div 4, x mod 4 * 16]"
| "b64_sextets [x, y] = [x div 4, x mod 4 * 16 + y div 16, y mod 16 * 4]"
| "b64_sextets (x # y # z # r) =
     x div 4 # (x mod 4 * 16 + y div 16) # (y mod 16 * 4 + z div 64) # z mod 64 # b64_sextets r"

fun b64_octets :: "nat list \<Rightarrow> nat list option" where
  "b64_octets [] = Some []"
| "b64_octets [a] = None"
| "b64_octets [a, b] = Some [a * 4 + b div 16]"
| "b64_octets [a, b, c] = Some [a * 4 + b div 16, b mod 16 * 16 + c div 4]"
| "b64_octets (a # b # c # d # r) =
     map_option (\<lambda>bs. (a * 4 + b div 16) # (b mod 16 * 16 + c div 4) # (c mod 4 * 64 + d) # bs) (b64_octets r)"

fun option_list :: "'a option list \<Rightarrow> 'a list option" where
  "option_list [] = Some []"
| "option_list (None # xs) = None"
| "option_list (Some x # xs) = map_option ((#) x) (option_list xs)"

definition b64url_Encode :: "string \<Rightarrow> string" where
  "b64url_Encode s = map b64url_char (b64_sextets (map char_nat s))"

definition b64url_Decode :: "string \<Rightarrow> string option" where
  "b64url_Decode s =
    (case option_list (map b64url_value (filter (\<lambda>c. char_nat c \<noteq> 10 \<and> char_nat c \<noteq> 13) s)) of
       None \<Rightarrow> None
     | Some vs \<Rightarrow> map_option (map char_of) (b64_octets vs))"

lemma alphabet_index_nth: "distinct xs \<Longrightarrow> n < length xs \<Longrightarrow> alphabet_index (xs ! n) xs = Some n"
  by (induction xs arbitrary: n) (auto simp: nth_Cons' gr0_conv_Suc)

lemma b64url_alphabet_facts:
  "length b64url_alphabet = 64" "distinct b64url_alphabet"
  "list_all (\<lambda>c. char_nat c \<noteq> 10 \<and> char_nat c \<noteq> 13) b64url_alphabet"
  by (simp_all add: b64url_alphabet_def char_nat_def)

lemma b64url_value_char [simp]: "n < 64 \<Longrightarrow> b64url_value (b64url_char n) = Some n"
  by (simp add: b64url_value_def b64url_char_def alphabet_index_nth b64url_alphabet_facts)

lemma b64url_char_printable: "n < 64 \<Longrightarrow> char_nat (b64url_char n) \<noteq> 10 \<and> char_nat (b64url_char n) \<noteq> 13"
  using b64url_alphabet_facts by (auto simp: b64url_char_def list_all_length)

lemma option_list_Some [simp]: "option_list (map Some xs) = Some xs"
  by (induction xs) simp_all

lemma b64_sextets_range: "\<forall>x \<in> set xs. x < 256 \<Longrightarrow> n \<in> set (b64_sextets xs) \<Longrightarrow> n < 64"
  by (induction xs rule: b64_sextets.induct) auto

lemma b64_octets_sextets: "\<forall>x \<in> set xs. x < 256 \<Longrightarrow> b64_octets (b64_sextets xs) = Some xs"
  by (induction xs rule: b64_sextets.induct) auto

lemma char_nat_less: "char_nat c < 256"
  by (simp add: char_nat_def)

lemma b64url_Decode_Encode: "b64url_Decode (b64url_Encode s) = Some s"
proof -
  let ?v = "b64_sextets (map char_nat s)"
  have r: "n < 64" if "n \<in> set ?v" for n
    using b64_sextets_range[OF _ that] by (simp add: char_nat_less)
  have "filter (\<lambda>c. char_nat c \<noteq> 10 \<and> char_nat c \<noteq> 13) (map b64url_char ?v) = map b64url_char ?v"
    using r b64url_char_printable by (auto simp: filter_id_conv)
  moreover have "map b64url_value (map b64url_char ?v) = map Some ?v"
    using r by simp
  moreover have "b64_octets ?v = Some (map char_nat s)"
    by (rule b64_octets_sextets) (simp add: char_nat_less)
  moreover have "map (char_of \<circ> char_nat) s = s"
    by (rule map_idI) (simp add: char_nat_def)
  ultimately show ?thesis
    by (simp add: b64url_Encode_def b64url_Decode_def del: map_map) simp
qed

lemma b64_sextets_length: "length (b64_sextets xs) \<le> 2 * length xs"
  by (induction xs rule: b64_sextets.induct) auto

lemma b64url_Encode_length: "length (b64url_Encode s) \<le> 2 * length s"
  using b64_sextets_length[of "map char_nat s"] by (simp add: b64url_Encode_def)

lemma b64url_Encode_nonempty: "s \<noteq> [] \<Longrightarrow> b64url_Encode s \<noteq> []"
proof -
  assume "s \<noteq> []"
  then obtain c cs where "s = c # cs" by (cases s) auto
  then show ?thesis
    by (cases cs; cases "tl cs") (auto simp: b64url_Encode_def)
qed

end
