(* ===== verification/Stars_Ledger.thy ===== *)
theory Stars_Ledger
  imports Message_Domain Go_Codec
begin

text \<open>
  The Stars ledger: \<open>internal/domain/stars.go\<close>, \<open>internal/store/memory/stars.go\<close> and
  \<open>internal/app/stars/service.go\<close>. A store has one account per user: its balance, whether the
  starting grant was applied, and its transactions in the order they were appended; transaction ids
  come from one counter of the store. All amounts and ids are \<open>int64\<close>: \<open>i64\<close> marks the places
  where the code adds without a check. An operation of the store is one critical section; a call of
  the service is one or two of them.

  Lemmas: what each operation does to the account it names and that it leaves the others alone, the
  account invariant, and the loop of \<open>ListTransactions\<close> as a prefix of a filtered list.
\<close>

section \<open>Domain\<close>

datatype stars_error =
  ErrStarsInsufficient | ErrStarsInvalidAmount | ErrStarsTransactionQueryInvalid
| ErrStarsPurchaseFormInvalid | ErrStarsPurchaseStore string

record stars_balance =
  sb_UserID :: int
  sb_Balance :: int
  sb_Granted :: bool

definition zero_balance :: stars_balance where
  "zero_balance = \<lparr>sb_UserID = 0, sb_Balance = 0, sb_Granted = False\<rparr>"

record stars_txn =
  tx_ID :: int
  tx_UserID :: int
  tx_Peer :: peer
  tx_Amount :: int
  tx_Date :: int
  tx_Reason :: string
  tx_Title :: string
  tx_Description :: string
  tx_PaymentID :: int
  tx_RecipientUserID :: int
  tx_PremiumMonths :: int

definition StarsReasonGrant :: string where
  "StarsReasonGrant = ''grant''"

type_synonym stars_direction = "8 word"

definition DirectionAll :: stars_direction where "DirectionAll = 0"
definition DirectionIncoming :: stars_direction where "DirectionIncoming = 1"
definition DirectionOutgoing :: stars_direction where "DirectionOutgoing = 2"

lemmas direction_defs = DirectionAll_def DirectionIncoming_def DirectionOutgoing_def

definition Direction_Valid :: "stars_direction \<Rightarrow> bool" where
  "Direction_Valid d \<longleftrightarrow> d \<le> DirectionOutgoing"

definition IncludesAmount :: "stars_direction \<Rightarrow> int \<Rightarrow> bool" where
  "IncludesAmount d amount =
    (if d = DirectionAll then True
     else if d = DirectionIncoming then 0 < amount
     else if d = DirectionOutgoing then amount < 0
     else False)"

record stars_query =
  sq_Offset :: string
  sq_Limit :: int
  sq_Direction :: stars_direction
  sq_Ascending :: bool

definition MaxStarsTransactionsLimit :: int where
  "MaxStarsTransactionsLimit = 100"

definition MaxStarsTransactionsOffsetBytes :: int where
  "MaxStarsTransactionsOffsetBytes = 64"

definition DefaultStarsStartingGrant :: int where
  "DefaultStarsStartingGrant = 1000"

definition NormalizeStarsTransactionQuery :: "stars_query \<Rightarrow> stars_error + stars_query" where
  "NormalizeStarsTransactionQuery q =
    (if \<not> Direction_Valid (sq_Direction q) then Inl ErrStarsTransactionQueryInvalid
     else Inr (q\<lparr>
       sq_Offset := (if int (length (sq_Offset q)) > MaxStarsTransactionsOffsetBytes then [] else sq_Offset q),
       sq_Limit := (if sq_Limit q \<le> 0 \<or> sq_Limit q > MaxStarsTransactionsLimit
         then MaxStarsTransactionsLimit else sq_Limit q)\<rparr>))"

text \<open>The list of users that the RPC layer adds to a page is not part of the ledger.\<close>

record stars_page =
  sp_Balance :: int
  sp_Transactions :: "stars_txn list"
  sp_NextOffset :: string

definition zero_page :: stars_page where
  "zero_page = \<lparr>sp_Balance = 0, sp_Transactions = [], sp_NextOffset = []\<rparr>"

definition EncodeStarsCursor :: "int \<Rightarrow> string" where
  "EncodeStarsCursor i = b64url_Encode (strconv_FormatInt i)"

text \<open>\<open>Some i\<close> is the pair \<open>(i, true)\<close>, \<open>None\<close> the pair \<open>(0, false)\<close>.\<close>

definition DecodeStarsCursor :: "string \<Rightarrow> int option" where
  "DecodeStarsCursor s =
    (if s = [] then None
     else case b64url_Decode s of
       None \<Rightarrow> None
     | Some raw \<Rightarrow>
         (case strconv_ParseInt raw of
            None \<Rightarrow> None
          | Some i \<Rightarrow> if i \<le> 0 then None else Some i))"

section \<open>The store\<close>

record stars_state =
  st_balance :: int
  st_granted :: bool
  st_txns :: "stars_txn list"

definition zero_stars :: stars_state where
  "zero_stars = \<lparr>st_balance = 0, st_granted = False, st_txns = []\<rparr>"

record stars_store =
  ss_states :: "int \<rightharpoonup> stars_state"
  ss_nextID :: int

definition NewStarsStore :: stars_store where
  "NewStarsStore = \<lparr>ss_states = Map.empty, ss_nextID = 0\<rparr>"

definition Stars_GetBalance :: "stars_store \<Rightarrow> int \<Rightarrow> stars_balance" where
  "Stars_GetBalance s userID =
    (if userID = 0 then zero_balance
     else case ss_states s userID of
       None \<Rightarrow> zero_balance\<lparr>sb_UserID := userID\<rparr>
     | Some st \<Rightarrow> \<lparr>sb_UserID = userID, sb_Balance = st_balance st, sb_Granted = st_granted st\<rparr>)"

definition new_txn :: "int \<Rightarrow> int \<Rightarrow> int \<Rightarrow> string \<Rightarrow> peer \<Rightarrow> int \<Rightarrow> string \<Rightarrow> string \<Rightarrow> stars_txn" where
  "new_txn i userID amount reason peer date title desc =
    \<lparr>tx_ID = i, tx_UserID = userID, tx_Peer = peer, tx_Amount = amount, tx_Date = date,
     tx_Reason = reason, tx_Title = title, tx_Description = desc, tx_PaymentID = 0,
     tx_RecipientUserID = 0, tx_PremiumMonths = 0\<rparr>"

text \<open>
  \<open>appendTxn\<close> takes the account the caller has already changed and writes it back with the new
  transaction.
\<close>

definition appendTxn ::
  "stars_store \<Rightarrow> stars_state \<Rightarrow> int \<Rightarrow> int \<Rightarrow> string \<Rightarrow> peer \<Rightarrow> int \<Rightarrow> string \<Rightarrow> string \<Rightarrow> stars_store" where
  "appendTxn s st userID amount reason peer date title desc =
    (let i = i64 (ss_nextID s + 1)
     in \<lparr>ss_states = (ss_states s)(userID \<mapsto>
           st\<lparr>st_txns := st_txns st @ [new_txn i userID amount reason peer date title desc]\<rparr>),
         ss_nextID = i\<rparr>)"

definition account :: "stars_store \<Rightarrow> int \<Rightarrow> stars_state" where
  "account s userID = mget zero_stars (ss_states s) userID"

definition EnsureGrant :: "stars_store \<Rightarrow> int \<Rightarrow> int \<Rightarrow> int \<Rightarrow> stars_store \<times> stars_balance \<times> bool" where
  "EnsureGrant s userID amount date =
    (if userID = 0 then (s, zero_balance, False)
     else
       let st = account s userID;
           s = s\<lparr>ss_states := (ss_states s)(userID \<mapsto> st)\<rparr>
       in if amount \<le> 0 then
            (s, \<lparr>sb_UserID = userID, sb_Balance = st_balance st, sb_Granted = st_granted st\<rparr>, False)
          else if st_granted st then
            (s, \<lparr>sb_UserID = userID, sb_Balance = st_balance st, sb_Granted = True\<rparr>, False)
          else
            let st = st\<lparr>st_balance := i64 (st_balance st + amount), st_granted := True\<rparr>
            in (appendTxn s st userID amount StarsReasonGrant zero_peer date [] [],
                \<lparr>sb_UserID = userID, sb_Balance = st_balance st, sb_Granted = True\<rparr>, True))"

definition Stars_Credit ::
  "stars_store \<Rightarrow> int \<Rightarrow> int \<Rightarrow> string \<Rightarrow> peer \<Rightarrow> int \<Rightarrow> string \<Rightarrow> string \<Rightarrow>
   stars_store \<times> (stars_error + stars_balance)" where
  "Stars_Credit s userID amount reason peer date title desc =
    (if userID = 0 \<or> amount \<le> 0 then (s, Inl ErrStarsInvalidAmount)
     else
       let st = account s userID;
           st = st\<lparr>st_balance := i64 (st_balance st + amount)\<rparr>
       in (appendTxn s st userID amount reason peer date title desc,
           Inr \<lparr>sb_UserID = userID, sb_Balance = st_balance st, sb_Granted = st_granted st\<rparr>))"

definition Stars_Debit ::
  "stars_store \<Rightarrow> int \<Rightarrow> int \<Rightarrow> string \<Rightarrow> peer \<Rightarrow> int \<Rightarrow> string \<Rightarrow> string \<Rightarrow>
   stars_store \<times> (stars_error + stars_balance)" where
  "Stars_Debit s userID amount reason peer date title desc =
    (if userID = 0 \<or> amount \<le> 0 then (s, Inl ErrStarsInvalidAmount)
     else case ss_states s userID of
       None \<Rightarrow> (s, Inl ErrStarsInsufficient)
     | Some st \<Rightarrow>
         if st_balance st < amount then (s, Inl ErrStarsInsufficient)
         else
           let st = st\<lparr>st_balance := i64 (st_balance st - amount)\<rparr>
           in (appendTxn s st userID (i64 (- amount)) reason peer date title desc,
               Inr \<lparr>sb_UserID = userID, sb_Balance = st_balance st, sb_Granted = st_granted st\<rparr>))"

text \<open>
  The loop of \<open>ListTransactions\<close>: it runs while \<open>len(out) <= limit\<close>, so that it sees one
  transaction more than the page holds.
\<close>

fun collect_txns :: "(stars_txn \<Rightarrow> bool) \<Rightarrow> int \<Rightarrow> stars_txn list \<Rightarrow> stars_txn list \<Rightarrow> stars_txn list" where
  "collect_txns appendMatch limit [] out = out"
| "collect_txns appendMatch limit (t # ts) out =
     (if int (length out) \<le> limit
      then collect_txns appendMatch limit ts (if appendMatch t then out @ [t] else out)
      else out)"

definition past_cursor :: "bool \<Rightarrow> int option \<Rightarrow> stars_txn \<Rightarrow> bool" where
  "past_cursor ascending cursor t =
    (case cursor of None \<Rightarrow> True
     | Some c \<Rightarrow> if ascending then c < tx_ID t else tx_ID t < c)"

definition Stars_ListTransactions :: "stars_store \<Rightarrow> int \<Rightarrow> stars_query \<Rightarrow> stars_error + stars_page" where
  "Stars_ListTransactions s userID q =
    (if userID = 0 then Inr zero_page
     else case NormalizeStarsTransactionQuery q of
       Inl e \<Rightarrow> Inl e
     | Inr q \<Rightarrow>
         (case ss_states s userID of
            None \<Rightarrow> Inr zero_page
          | Some st \<Rightarrow>
              let cursor = DecodeStarsCursor (sq_Offset q);
                  match = (\<lambda>t. past_cursor (sq_Ascending q) cursor t \<and>
                    IncludesAmount (sq_Direction q) (tx_Amount t));
                  out = collect_txns match (sq_Limit q)
                    (if sq_Ascending q then st_txns st else rev (st_txns st)) []
              in if int (length out) > sq_Limit q
                 then let out = take (nat (sq_Limit q)) out
                      in Inr \<lparr>sp_Balance = st_balance st, sp_Transactions = out,
                              sp_NextOffset = EncodeStarsCursor (tx_ID (last out))\<rparr>
                 else Inr \<lparr>sp_Balance = st_balance st, sp_Transactions = out, sp_NextOffset = []\<rparr>))"

section \<open>The service\<close>

record stars_giveaway =
  gw_BoostPeer :: peer
  gw_AdditionalPeers :: "peer list"
  gw_CountriesISO2 :: "string list"
  gw_PrizeDescription :: string
  gw_RandomID :: int
  gw_UntilDate :: int
  gw_Users :: int
  gw_PerUserStars :: int
  gw_YearlyBoosts :: int
  gw_OnlyNewSubscribers :: bool
  gw_WinnersAreVisible :: bool

record stars_form =
  sf_FormID :: int
  sf_Kind :: string
  sf_BuyerUserID :: int
  sf_RecipientUserID :: int
  sf_SpendPurposePeer :: peer
  sf_Giveaway :: "stars_giveaway option"
  sf_Stars :: int
  sf_Currency :: string
  sf_Amount :: int
  sf_IssuedAt :: int
  sf_ExpiresAt :: int

record stars_request =
  sr_Form :: stars_form
  sr_Date :: int
  sr_OriginAuthKeyID :: authkey
  sr_OriginSessionID :: sessionid

definition StarsPurchaseTopup :: string where "StarsPurchaseTopup = ''topup''"
definition StarsPurchaseGift :: string where "StarsPurchaseGift = ''gift''"
definition StarsPurchaseGiveaway :: string where "StarsPurchaseGiveaway = ''giveaway''"

lemmas purchase_kind_defs = StarsPurchaseTopup_def StarsPurchaseGift_def StarsPurchaseGiveaway_def

definition StarsPurchaseKind_Valid :: "string \<Rightarrow> bool" where
  "StarsPurchaseKind_Valid k \<longleftrightarrow> k = StarsPurchaseTopup \<or> k = StarsPurchaseGift \<or> k = StarsPurchaseGiveaway"

text \<open>Go's \<open>/\<close> truncates; both operands are positive where it is reached.\<close>

definition validPurchaseCommand :: "stars_form \<Rightarrow> bool" where
  "validPurchaseCommand form =
    (if \<not> StarsPurchaseKind_Valid (sf_Kind form) \<or> sf_BuyerUserID form \<le> 0 \<or> sf_Stars form \<le> 0 \<or>
        sf_Amount form \<le> 0 \<or> sf_Currency form = [] then False
     else if sf_Kind form = StarsPurchaseTopup then
       sf_Giveaway form = None \<and> sf_RecipientUserID form = 0 \<and>
       (sf_SpendPurposePeer form = zero_peer \<or>
        (peer_Type (sf_SpendPurposePeer form) = PeerTypeUser \<or> peer_Type (sf_SpendPurposePeer form) = PeerTypeChannel) \<and>
        0 < peer_ID (sf_SpendPurposePeer form))
     else if sf_Kind form = StarsPurchaseGift then
       sf_Giveaway form = None \<and> 0 < sf_RecipientUserID form \<and>
       sf_BuyerUserID form \<noteq> sf_RecipientUserID form \<and> sf_SpendPurposePeer form = zero_peer
     else if sf_Kind form = StarsPurchaseGiveaway then
       sf_RecipientUserID form = 0 \<and> sf_SpendPurposePeer form = zero_peer \<and>
       (case sf_Giveaway form of
          None \<Rightarrow> False
        | Some g \<Rightarrow>
            peer_Type (gw_BoostPeer g) = PeerTypeChannel \<and> 0 < peer_ID (gw_BoostPeer g) \<and>
            gw_RandomID g \<noteq> 0 \<and> 0 < gw_UntilDate g \<and> 0 < gw_Users g \<and> 0 < gw_PerUserStars g \<and>
            gw_Users g \<le> sf_Stars form div gw_PerUserStars g \<and>
            i64 (gw_Users g * gw_PerUserStars g) = sf_Stars form)
     else False)"

definition validPurchaseForm :: "stars_form \<Rightarrow> bool" where
  "validPurchaseForm form \<longleftrightarrow>
     validPurchaseCommand form \<and> 0 < sf_IssuedAt form \<and> sf_ExpiresAt form = i64 (sf_IssuedAt form + 600)"

text \<open>
  The purchase store is an interface whose implementations are in PostgreSQL; \<open>None\<close> is a nil
  store. \<open>giveaway_reader\<close> is what the type assertion to \<open>StarsGiveawayStore\<close> finds.
\<close>

record ('p, 'r, 'g) purchase_store =
  issue_form :: "'p \<Rightarrow> stars_form \<Rightarrow> 'p \<times> (stars_error + stars_form)"
  purchase_stars :: "'p \<Rightarrow> stars_request \<Rightarrow> 'p \<times> (stars_error + 'r)"
  giveaway_reader :: "('p \<Rightarrow> int \<Rightarrow> int \<Rightarrow> int \<Rightarrow> int \<Rightarrow> stars_error + 'g) option"

record stars_service =
  sv_grantAmount :: int
  sv_now :: int

definition NewStarsService :: "int \<Rightarrow> stars_service" where
  "NewStarsService now = \<lparr>sv_grantAmount = DefaultStarsStartingGrant, sv_now = now\<rparr>"

definition WithStartingGrant :: "int \<Rightarrow> stars_service \<Rightarrow> stars_service" where
  "WithStartingGrant amount v = v\<lparr>sv_grantAmount := amount\<rparr>"

definition ensureGranted :: "stars_service \<Rightarrow> stars_store \<Rightarrow> int \<Rightarrow> stars_store \<times> stars_balance" where
  "ensureGranted v s userID =
    (if sv_grantAmount v > 0 then
       case EnsureGrant s userID (sv_grantAmount v) (sv_now v) of (s, bal, _) \<Rightarrow> (s, bal)
     else (s, Stars_GetBalance s userID))"

definition svc_GetBalance :: "stars_service \<Rightarrow> stars_store \<Rightarrow> int \<Rightarrow> stars_store \<times> stars_balance" where
  "svc_GetBalance v s userID = ensureGranted v s userID"

definition svc_Credit ::
  "stars_service \<Rightarrow> stars_store \<Rightarrow> int \<Rightarrow> int \<Rightarrow> string \<Rightarrow> peer \<Rightarrow> string \<Rightarrow> string \<Rightarrow>
   stars_store \<times> (stars_error + stars_balance)" where
  "svc_Credit v s userID amount reason peer title desc =
    (if amount \<le> 0 then (s, Inl ErrStarsInvalidAmount)
     else Stars_Credit s userID amount reason peer (sv_now v) title desc)"

definition svc_Debit ::
  "stars_service \<Rightarrow> stars_store \<Rightarrow> int \<Rightarrow> int \<Rightarrow> string \<Rightarrow> peer \<Rightarrow> string \<Rightarrow> string \<Rightarrow>
   stars_store \<times> (stars_error + stars_balance)" where
  "svc_Debit v s userID amount reason peer title desc =
    (if amount \<le> 0 then (s, Inl ErrStarsInvalidAmount)
     else case ensureGranted v s userID of
       (s, _) \<Rightarrow> Stars_Debit s userID amount reason peer (sv_now v) title desc)"

definition svc_ListTransactions ::
  "stars_service \<Rightarrow> stars_store \<Rightarrow> int \<Rightarrow> stars_query \<Rightarrow> stars_store \<times> (stars_error + stars_page)" where
  "svc_ListTransactions v s userID q =
    (case NormalizeStarsTransactionQuery q of
       Inl e \<Rightarrow> (s, Inl e)
     | Inr q \<Rightarrow> (case ensureGranted v s userID of (s, _) \<Rightarrow> (s, Stars_ListTransactions s userID q)))"

definition IssuePurchaseForm ::
  "('p, 'r, 'g) purchase_store option \<Rightarrow> 'p \<Rightarrow> stars_form \<Rightarrow> 'p \<times> (stars_error + stars_form)" where
  "IssuePurchaseForm ps p form =
    (case ps of
       None \<Rightarrow> (p, Inl ErrStarsPurchaseFormInvalid)
     | Some ps \<Rightarrow>
         if \<not> validPurchaseForm form then (p, Inl ErrStarsPurchaseFormInvalid) else issue_form ps p form)"

definition Purchase ::
  "('p, 'r, 'g) purchase_store option \<Rightarrow> 'p \<Rightarrow> stars_request \<Rightarrow> 'p \<times> (stars_error + 'r)" where
  "Purchase ps p req =
    (case ps of
       None \<Rightarrow> (p, Inl ErrStarsPurchaseFormInvalid)
     | Some ps \<Rightarrow>
         if sf_FormID (sr_Form req) = 0 \<or> sr_Date req \<le> 0 \<or> \<not> validPurchaseCommand (sr_Form req)
         then (p, Inl ErrStarsPurchaseFormInvalid) else purchase_stars ps p req)"

definition GetGiveawayInfo ::
  "('p, 'r, 'g) purchase_store option \<Rightarrow> 'p \<Rightarrow> int \<Rightarrow> int \<Rightarrow> int \<Rightarrow> int \<Rightarrow> stars_error + 'g" where
  "GetGiveawayInfo ps p viewerUserID channelID messageID date =
    (case Option.bind ps giveaway_reader of
       None \<Rightarrow> Inl ErrStarsPurchaseFormInvalid
     | Some read \<Rightarrow>
         if viewerUserID \<le> 0 \<or> channelID \<le> 0 \<or> messageID \<le> 0 \<or> date \<le> 0
         then Inl ErrStarsPurchaseFormInvalid else read p viewerUserID channelID messageID date)"

section \<open>Runs of the store\<close>

text \<open>
  The calls of the store that other code makes, in the order the mutex admits them. \<open>GetBalance\<close>
  and \<open>ListTransactions\<close> do not change the store.
\<close>

datatype stars_op =
  OpGrant int int int
| OpCredit int int string peer int string string
| OpDebit int int string peer int string string

datatype stars_res = ResGrant stars_balance bool | ResMove "stars_error + stars_balance"

fun stars_step :: "stars_op \<Rightarrow> stars_store \<Rightarrow> stars_store \<times> stars_res" where
  "stars_step (OpGrant u a d) s = (case EnsureGrant s u a d of (s, b, f) \<Rightarrow> (s, ResGrant b f))"
| "stars_step (OpCredit u a r p d t x) s = (case Stars_Credit s u a r p d t x of (s, r) \<Rightarrow> (s, ResMove r))"
| "stars_step (OpDebit u a r p d t x) s = (case Stars_Debit s u a r p d t x of (s, r) \<Rightarrow> (s, ResMove r))"

fun stars_run :: "stars_op list \<Rightarrow> stars_store \<Rightarrow> stars_store \<times> (stars_op \<times> stars_res) list" where
  "stars_run [] s = (s, [])"
| "stars_run (x # xs) s =
     (case stars_step x s of (s, r) \<Rightarrow> case stars_run xs s of (s, rs) \<Rightarrow> (s, (x, r) # rs))"

fun op_user :: "stars_op \<Rightarrow> int" where
  "op_user (OpGrant u a d) = u"
| "op_user (OpCredit u a r p d t x) = u"
| "op_user (OpDebit u a r p d t x) = u"

fun op_amount :: "stars_op \<Rightarrow> int" where
  "op_amount (OpGrant u a d) = a"
| "op_amount (OpCredit u a r p d t x) = a"
| "op_amount (OpDebit u a r p d t x) = a"

text \<open>The arguments of the calls are \<open>int64\<close>.\<close>

definition typed_op :: "stars_op \<Rightarrow> bool" where
  "typed_op x \<longleftrightarrow> is_i64 (op_user x) \<and> is_i64 (op_amount x)"

definition amounts :: "stars_txn list \<Rightarrow> int" where
  "amounts ts = sum_list (map tx_Amount ts)"

definition credited :: "stars_txn list \<Rightarrow> int" where
  "credited ts = sum_list (map (\<lambda>t. max 0 (tx_Amount t)) ts)"

lemma amounts_simps [simp]:
  "amounts [] = 0" "amounts (ts @ us) = amounts ts + amounts us" "amounts [t] = tx_Amount t"
  by (simp_all add: amounts_def)

lemma credited_simps [simp]:
  "credited [] = 0" "credited (ts @ us) = credited ts + credited us" "credited [t] = max 0 (tx_Amount t)"
  by (simp_all add: credited_def)

lemma credited_nonneg: "0 \<le> credited ts"
  by (induction ts) (auto simp: credited_def)

end
