(* ===== verification/Stars_Properties.thy ===== *)
theory Stars_Properties
  imports Stars_Ledger
begin

text \<open>
  Properties of the Stars ledger. The invariant \<open>account_ok\<close> relates an account to its
  transactions and \<open>ledger_ok\<close> numbers the transactions of all accounts; every store call keeps
  both, so they hold after every sequence of calls, which covers the service calls of concurrent
  requests in any order. The pages of \<open>ListTransactions\<close> are read against the list a client means
  to see: the matching transactions in the requested order.
\<close>

section \<open>What a step does\<close>

text \<open>
  Every successful call that moves Stars appends one transaction to one account and adds its amount
  to the balance; every other call leaves all balances and transactions as they are.
\<close>

definition moved :: "stars_store \<Rightarrow> stars_store \<Rightarrow> int \<Rightarrow> stars_txn \<Rightarrow> bool \<Rightarrow> bool" where
  "moved s s' u t g \<longleftrightarrow>
     u \<noteq> 0 \<and> is_i64 (tx_Amount t) \<and> tx_Amount t \<noteq> 0 \<and> tx_UserID t = u \<and> tx_ID t = i64 (ss_nextID s + 1) \<and>
     (tx_Amount t < 0 \<longrightarrow> - tx_Amount t \<le> st_balance (account s u)) \<and>
     s' = \<lparr>ss_states = (ss_states s)(u \<mapsto>
             \<lparr>st_balance = i64 (st_balance (account s u) + tx_Amount t), st_granted = g,
              st_txns = st_txns (account s u) @ [t]\<rparr>),
           ss_nextID = tx_ID t\<rparr>"

definition kept :: "stars_store \<Rightarrow> stars_store \<Rightarrow> bool" where
  "kept s s' \<longleftrightarrow> ss_nextID s' = ss_nextID s \<and> (\<forall>u. account s' u = account s u)"

lemma kept_refl [simp]: "kept s s"
  by (simp add: kept_def)

lemma moved_appendTxn:
  assumes "u \<noteq> 0" and "is_i64 a" and "a \<noteq> 0" and "a < 0 \<longrightarrow> - a \<le> st_balance (account s u)"
    and "st_balance st = i64 (st_balance (account s u) + a)" and "st_txns st = st_txns (account s u)"
  shows "moved s (appendTxn s st u a r p d ti x) u (new_txn (i64 (ss_nextID s + 1)) u a r p d ti x) (st_granted st)"
  using assms by (cases st) (simp add: moved_def appendTxn_def new_txn_def Let_def)

lemma appendTxn_touched [simp]:
  "appendTxn (s\<lparr>ss_states := (ss_states s)(u \<mapsto> y)\<rparr>) st u a r p d ti x = appendTxn s st u a r p d ti x"
  by (simp add: appendTxn_def Let_def)

lemma tx_Amount_new_txn [simp]: "tx_Amount (new_txn i u a r p d ti x) = a"
  by (simp add: new_txn_def)

lemma EnsureGrant_cases:
  assumes "EnsureGrant s u a d = (s', b, f)"
  obtains (kept) "kept s s'" "\<not> f" "u = 0 \<or> a \<le> 0 \<or> st_granted (account s u)"
  | (moved) "f" "0 < a" "u \<noteq> 0" "\<not> st_granted (account s u)"
      "\<And>P. is_i64 a \<Longrightarrow> (\<And>t. tx_Amount t = a \<Longrightarrow> moved s s' u t True \<Longrightarrow> P) \<Longrightarrow> P"
proof -
  let ?t = "new_txn (i64 (ss_nextID s + 1)) u a StarsReasonGrant zero_peer d [] []"
  have k: "kept s (s\<lparr>ss_states := (ss_states s)(u \<mapsto> account s u)\<rparr>)"
    by (auto simp: kept_def account_def mget_def)
  show thesis
  proof (cases "u = 0 \<or> a \<le> 0 \<or> st_granted (account s u)")
    case True
    then have "kept s s' \<and> \<not> f"
      using assms k by (auto simp: EnsureGrant_def Let_def split: if_splits)
    with True show thesis using that(1) by blast
  next
    case False
    then have f: "f" and s': "s' = appendTxn s
        ((account s u)\<lparr>st_balance := i64 (st_balance (account s u) + a), st_granted := True\<rparr>)
        u a StarsReasonGrant zero_peer d [] []"
      using assms by (auto simp: EnsureGrant_def Let_def)
    have "moved s s' u ?t True" if "is_i64 a"
      unfolding s' using that False
        moved_appendTxn[of u a s "(account s u)\<lparr>st_balance := i64 (st_balance (account s u) + a), st_granted := True\<rparr>"]
      by simp
    then show thesis using that(2) False f tx_Amount_new_txn by (metis not_le)
  qed
qed

lemma Credit_cases:
  assumes "Stars_Credit s u a r p d ti x = (s', res)"
  obtains (kept) "s' = s" "res = Inl ErrStarsInvalidAmount" "u = 0 \<or> a \<le> 0"
  | (moved) "0 < a" "\<And>P. is_i64 a \<Longrightarrow>
       (\<And>t. tx_Amount t = a \<Longrightarrow> moved s s' u t (st_granted (account s u)) \<Longrightarrow> P) \<Longrightarrow> P"
proof (cases "u = 0 \<or> a \<le> 0")
  case True
  then show thesis using assms kept by (auto simp: Stars_Credit_def)
next
  case False
  let ?t = "new_txn (i64 (ss_nextID s + 1)) u a r p d ti x"
  have "s' = appendTxn s ((account s u)\<lparr>st_balance := i64 (st_balance (account s u) + a)\<rparr>) u a r p d ti x"
    using assms False by (auto simp: Stars_Credit_def Let_def)
  then have "moved s s' u ?t (st_granted (account s u))" if "is_i64 a"
    using that False
      moved_appendTxn[of u a s "(account s u)\<lparr>st_balance := i64 (st_balance (account s u) + a)\<rparr>"] by simp
  then show thesis using moved False tx_Amount_new_txn by (metis not_le)
qed

lemma Debit_cases:
  assumes "Stars_Debit s u a r p d ti x = (s', res)"
  obtains (kept) "s' = s" "isl res"
  | (moved) "0 < a" "a \<le> st_balance (account s u)" "\<And>P. is_i64 a \<Longrightarrow>
       (\<And>t. tx_Amount t = - a \<Longrightarrow> moved s s' u t (st_granted (account s u)) \<Longrightarrow> P) \<Longrightarrow> P"
proof (cases "u = 0 \<or> a \<le> 0 \<or> ss_states s u = None \<or> st_balance (account s u) < a")
  case True
  then show thesis using assms kept
    by (auto simp: Stars_Debit_def account_def split: option.splits if_splits)
next
  case False
  then obtain st where st: "ss_states s u = Some st" "account s u = st"
    by (auto simp: account_def)
  let ?t = "new_txn (i64 (ss_nextID s + 1)) u (i64 (- a)) r p d ti x"
  have s': "s' = appendTxn s (st\<lparr>st_balance := i64 (st_balance st - a)\<rparr>) u (i64 (- a)) r p d ti x"
    using assms False st by (auto simp: Stars_Debit_def Let_def)
  have "moved s s' u ?t (st_granted (account s u))" "tx_Amount ?t = - a" if "is_i64 a"
    unfolding s' using that False st i64_neg[of a]
      moved_appendTxn[of u "- a" s "st\<lparr>st_balance := i64 (st_balance st - a)\<rparr>"]
    by (simp_all add: is_i64_def)
  then show thesis using moved False by (metis not_le)
qed

lemma stars_step_cases:
  assumes "stars_step x s = (s', r)" and "typed_op x"
  obtains (kept) "kept s s'"
  | (moved) t g where "moved s s' (op_user x) t g"
proof (cases x)
  case (OpGrant u a d)
  then obtain b f where e: "EnsureGrant s u a d = (s', b, f)"
    using assms by (auto split: prod.splits)
  show thesis using e
  proof (cases rule: EnsureGrant_cases)
    case moved
    then show thesis using that(2) assms(2) OpGrant by (auto simp: typed_op_def)
  qed (rule that(1))
next
  case (OpCredit u a q p d ti y)
  then obtain b where e: "Stars_Credit s u a q p d ti y = (s', b)"
    using assms by (auto split: prod.splits)
  show thesis using e
  proof (cases rule: Credit_cases)
    case moved
    then show thesis using that(2) assms(2) OpCredit by (auto simp: typed_op_def)
  qed (use that(1) in simp)
next
  case (OpDebit u a q p d ti y)
  then obtain b where e: "Stars_Debit s u a q p d ti y = (s', b)"
    using assms by (auto split: prod.splits)
  show thesis using e
  proof (cases rule: Debit_cases)
    case moved
    then show thesis using that(2) assms(2) OpDebit by (auto simp: typed_op_def)
  qed (use that(1) in simp)
qed

section \<open>Invariants\<close>

text \<open>
  An account: the balance is the sum of the transactions up to 64-bit wrap-around, and exactly that
  sum, and not negative, as long as what was credited in total fits an \<open>int64\<close>.
\<close>

definition account_ok :: "int \<Rightarrow> stars_state \<Rightarrow> bool" where
  "account_ok u st \<longleftrightarrow>
     st_balance st = i64 (amounts (st_txns st)) \<and>
     (credited (st_txns st) < 2 ^ 63 \<longrightarrow> st_balance st = amounts (st_txns st) \<and> 0 \<le> st_balance st) \<and>
     (\<forall>t \<in> set (st_txns st). tx_UserID t = u \<and> is_i64 (tx_Amount t) \<and> tx_Amount t \<noteq> 0 \<and> is_i64 (tx_ID t))"

definition accounts_ok :: "stars_store \<Rightarrow> bool" where
  "accounts_ok s \<longleftrightarrow> is_i64 (ss_nextID s) \<and> (\<forall>u. account_ok u (account s u))"

lemma account_ok_zero [simp]: "account_ok u zero_stars"
  by (simp add: account_ok_def zero_stars_def is_i64_def)

lemma accounts_ok_new: "accounts_ok NewStarsStore"
  by (simp add: accounts_ok_def NewStarsStore_def account_def is_i64_def)

lemma account_moved:
  assumes "moved s s' u t g"
  shows "account s' v = (if v = u then \<lparr>st_balance = i64 (st_balance (account s u) + tx_Amount t),
      st_granted = g, st_txns = st_txns (account s u) @ [t]\<rparr> else account s v)"
    and "ss_nextID s' = tx_ID t"
  using assms by (simp_all add: moved_def account_def)

lemma account_ok_moved:
  assumes "account_ok u (account s u)" and m: "moved s s' u t g"
  shows "account_ok u (account s' u)"
proof -
  let ?st = "account s u"
  have b: "st_balance ?st = i64 (amounts (st_txns ?st))" using assms by (simp add: account_ok_def)
  have "0 \<le> amounts (st_txns ?st) + tx_Amount t \<and>
      i64 (amounts (st_txns ?st) + tx_Amount t) = amounts (st_txns ?st) + tx_Amount t"
    if c: "credited (st_txns ?st) + max 0 (tx_Amount t) < 2 ^ 63"
  proof -
    have i: "st_balance ?st = amounts (st_txns ?st)" "0 \<le> st_balance ?st"
      using assms(1) c by (auto simp: account_ok_def)
    moreover have "0 \<le> st_balance ?st + tx_Amount t"
      using m i(2) by (cases "tx_Amount t < 0") (auto simp: moved_def)
    moreover have "amounts ts \<le> credited ts" for ts
      by (induction ts) (auto simp: amounts_def credited_def)
    then have "st_balance ?st + tx_Amount t < 2 ^ 63"
      using i(1) c by (smt (verit) max_def)
    ultimately show ?thesis by (auto simp: is_i64_def)
  qed
  moreover have "i64 (st_balance ?st + tx_Amount t) = i64 (amounts (st_txns ?st) + tx_Amount t)"
    unfolding b by (rule i64_add_left)
  moreover have "tx_UserID t = u" "is_i64 (tx_Amount t)" "tx_Amount t \<noteq> 0" "is_i64 (tx_ID t)"
    using m by (simp_all add: moved_def)
  ultimately show ?thesis using assms(1)
    by (simp add: account_ok_def account_moved[OF m] del: i64_exact)
qed

lemma accounts_ok_step:
  assumes "accounts_ok s" and "stars_step x s = (s', r)" and "typed_op x"
  shows "accounts_ok s'"
  using assms(2,3)
proof (cases rule: stars_step_cases)
  case kept
  then show ?thesis using assms(1) by (simp add: accounts_ok_def kept_def)
next
  case (moved t g)
  have "account_ok u (account s' u)" for u
    using account_ok_moved[OF _ moved] assms(1) account_moved(1)[OF moved, of u]
    by (cases "u = op_user x") (auto simp: accounts_ok_def)
  then show ?thesis using account_moved(2)[OF moved] moved by (simp add: accounts_ok_def moved_def)
qed

text \<open>
  The store: ids are handed out in order, so an account lists its transactions by increasing id and
  no id is used twice.
\<close>

definition ledger_ok :: "stars_store \<Rightarrow> bool" where
  "ledger_ok s \<longleftrightarrow> 0 \<le> ss_nextID s \<and>
     (\<forall>u. sorted_wrt (<) (map tx_ID (st_txns (account s u)))) \<and>
     (\<forall>u. \<forall>t \<in> set (st_txns (account s u)). 0 < tx_ID t \<and> tx_ID t \<le> ss_nextID s) \<and>
     (\<forall>u v. u \<noteq> v \<longrightarrow> tx_ID ` set (st_txns (account s u)) \<inter> tx_ID ` set (st_txns (account s v)) = {})"

lemma ledger_ok_new: "ledger_ok NewStarsStore"
  by (simp add: ledger_ok_def NewStarsStore_def account_def zero_stars_def)

lemma ledger_ok_moved:
  assumes "ledger_ok s" and m: "moved s s' u t g" and "ss_nextID s + 1 < 2 ^ 63"
  shows "ledger_ok s' \<and> ss_nextID s' = ss_nextID s + 1"
proof -
  have n: "tx_ID t = ss_nextID s + 1" "0 \<le> ss_nextID s"
    using assms i64_exact[of "ss_nextID s + 1"] by (auto simp: moved_def ledger_ok_def is_i64_def)
  have le: "tx_ID t' \<le> ss_nextID s" if "t' \<in> set (st_txns (account s v))" for t' v
    using that assms(1) by (auto simp: ledger_ok_def)
  then have "tx_ID t \<notin> tx_ID ` set (st_txns (account s v))" for v
    using n by force
  moreover have "ss_nextID s' = ss_nextID s + 1" using n account_moved(2)[OF m] by simp
  moreover have "0 < tx_ID t' \<and> tx_ID t' \<le> ss_nextID s + 1" if "t' \<in> set (st_txns (account s' v))" for t' v
  proof (cases "t' \<in> set (st_txns (account s v))")
    case True
    then have "0 < tx_ID t'" using assms(1) by (auto simp: ledger_ok_def)
    then show ?thesis using le[OF True] by simp
  next
    case False
    then have "t' = t" using that by (auto simp: account_moved(1)[OF m] split: if_splits)
    then show ?thesis using n by simp
  qed
  moreover have "sorted_wrt (<) (map tx_ID (st_txns (account s' v)))" for v
  proof -
    have "sorted_wrt (<) (map tx_ID (st_txns (account s v)))" using assms(1) by (simp add: ledger_ok_def)
    moreover have "\<forall>t' \<in> set (st_txns (account s v)). tx_ID t' < tx_ID t" using le n by force
    ultimately show ?thesis by (auto simp: account_moved(1)[OF m] sorted_wrt_append)
  qed
  ultimately show ?thesis using assms(1) n
    unfolding ledger_ok_def by (simp add: account_moved(1)[OF m])
qed

lemma ledger_ok_step:
  assumes "ledger_ok s" and "stars_step x s = (s', r)" and "typed_op x" and "ss_nextID s + 1 < 2 ^ 63"
  shows "ledger_ok s' \<and> ss_nextID s' \<le> ss_nextID s + 1"
  using assms(2,3)
proof (cases rule: stars_step_cases)
  case kept
  then show ?thesis using assms(1) by (simp add: ledger_ok_def kept_def)
next
  case (moved t g)
  then show ?thesis using ledger_ok_moved[OF assms(1) moved assms(4)] by simp
qed

text \<open>Runs: both invariants, the second while the id counter does not overflow.\<close>

lemma stars_run_append:
  "stars_run (xs @ ys) s = (case stars_run xs s of (s, rs) \<Rightarrow> case stars_run ys s of (s, qs) \<Rightarrow> (s, rs @ qs))"
  by (induction xs arbitrary: s) (simp_all split: prod.splits)

lemma stars_run_Cons:
  "stars_step x s = (s', r) \<Longrightarrow>
   stars_run (x # xs) s = (fst (stars_run xs s'), (x, r) # snd (stars_run xs s'))"
  by (simp split: prod.splits)

lemma accounts_ok_run:
  "accounts_ok s \<Longrightarrow> list_all typed_op xs \<Longrightarrow> accounts_ok (fst (stars_run xs s))"
proof (induction xs arbitrary: s)
  case (Cons x xs)
  obtain s' r where e: "stars_step x s = (s', r)" by (cases "stars_step x s")
  then have "accounts_ok s'" using accounts_ok_step Cons.prems by simp
  then show ?case using Cons.IH Cons.prems unfolding stars_run_Cons[OF e] by simp
qed simp

lemma ledger_ok_run:
  "ledger_ok s \<Longrightarrow> list_all typed_op xs \<Longrightarrow> ss_nextID s + int (length xs) < 2 ^ 63 \<Longrightarrow>
   ledger_ok (fst (stars_run xs s))"
proof (induction xs arbitrary: s)
  case (Cons x xs)
  obtain s' r where e: "stars_step x s = (s', r)" by (cases "stars_step x s")
  then have "ledger_ok s' \<and> ss_nextID s' \<le> ss_nextID s + 1"
    using ledger_ok_step[OF Cons.prems(1) e] Cons.prems by simp
  then have "ledger_ok (fst (stars_run xs s'))" using Cons by simp
  then show ?case unfolding stars_run_Cons[OF e] by simp
qed simp

abbreviation stars_after :: "stars_op list \<Rightarrow> stars_store" where
  "stars_after xs \<equiv> fst (stars_run xs NewStarsStore)"

lemmas accounts_ok_after = accounts_ok_run[OF accounts_ok_new]

lemma ledger_ok_after: "list_all typed_op xs \<Longrightarrow> int (length xs) < 2 ^ 63 \<Longrightarrow> ledger_ok (stars_after xs)"
  using ledger_ok_run[OF ledger_ok_new] by (simp add: NewStarsStore_def)

section \<open>Balances\<close>

text \<open>
  C27: After any sequence of store calls with int64 arguments, the stored values are well typed: every
  transaction stands in the account of the user it names, has a nonzero amount and an id that are
  int64 values, and the balance is an int64; and as long as fewer than 2^63 calls were made,
  transaction ids are positive, increase along every account and are never used twice.
\<close>

theorem stars_store_typed:
  assumes "list_all typed_op xs" and "int (length xs) < 2 ^ 63"
  shows "is_i64 (st_balance (account (stars_after xs) u)) \<and>
    (\<forall>t \<in> set (st_txns (account (stars_after xs) u)).
       tx_UserID t = u \<and> is_i64 (tx_Amount t) \<and> tx_Amount t \<noteq> 0 \<and> 0 < tx_ID t \<and> is_i64 (tx_ID t)) \<and>
    sorted_wrt (<) (map tx_ID (st_txns (account (stars_after xs) u))) \<and>
    (u \<noteq> v \<longrightarrow> tx_ID ` set (st_txns (account (stars_after xs) u)) \<inter>
       tx_ID ` set (st_txns (account (stars_after xs) v)) = {})"
proof -
  have a: "account_ok u (account (stars_after xs) u)"
    using accounts_ok_after[OF assms(1)] by (simp add: accounts_ok_def)
  have l: "ledger_ok (stars_after xs)" using ledger_ok_after assms by blast
  have "is_i64 (st_balance (account (stars_after xs) u))" using a by (simp add: account_ok_def)
  then show ?thesis using a l unfolding account_ok_def ledger_ok_def by blast
qed

text \<open>
  C26: After any sequence of grants, credits and debits with int64 arguments, in any order and on any
  accounts, the balance of an account is the sum of its transactions modulo 2^64; and while the total
  ever credited to the account is below 2^63, the balance is that sum exactly and is never negative.
\<close>

theorem stars_balance_exact:
  assumes "list_all typed_op xs"
  shows "st_balance (account (stars_after xs) u) = i64 (amounts (st_txns (account (stars_after xs) u))) \<and>
    (credited (st_txns (account (stars_after xs) u)) < 2 ^ 63 \<longrightarrow>
       st_balance (account (stars_after xs) u) = amounts (st_txns (account (stars_after xs) u)) \<and>
       0 \<le> st_balance (account (stars_after xs) u))"
  using accounts_ok_after[OF assms] unfolding accounts_ok_def account_ok_def by blast

text \<open>How often the starting grant was applied to an account, by the results of the calls.\<close>

definition grants_applied :: "int \<Rightarrow> (stars_op \<times> stars_res) list \<Rightarrow> nat" where
  "grants_applied u rs = length (filter (\<lambda>(x, r). op_user x = u \<and> (case r of ResGrant _ f \<Rightarrow> f | _ \<Rightarrow> False)) rs)"

lemma grants_applied_simps [simp]:
  "grants_applied u [] = 0"
  "grants_applied u ((x, r) # rs) =
     (if op_user x = u \<and> (case r of ResGrant _ f \<Rightarrow> f | _ \<Rightarrow> False) then 1 else 0) + grants_applied u rs"
  by (simp_all add: grants_applied_def)

lemma grant_step:
  assumes "stars_step x s = (s', r)" and "typed_op x"
  shows "(if st_granted (account s' u) then 1 else 0) = (if st_granted (account s u) then 1 else (0::nat)) +
    (if op_user x = u \<and> (case r of ResGrant _ f \<Rightarrow> f | _ \<Rightarrow> False) then 1 else 0)"
proof (cases x)
  case (OpGrant w a d)
  then obtain b f where e: "EnsureGrant s w a d = (s', b, f)" "r = ResGrant b f"
    using assms by (auto split: prod.splits)
  show ?thesis using e(1)
  proof (cases rule: EnsureGrant_cases)
    case kept
    then show ?thesis using e OpGrant by (simp add: kept_def)
  next
    case moved
    obtain t where "moved s s' w t True"
      using moved(5) assms(2) OpGrant by (auto simp: typed_op_def)
    then show ?thesis using e OpGrant moved by (simp add: account_moved(1))
  qed
next
  case (OpCredit w a q p d ti y)
  then obtain b where e: "Stars_Credit s w a q p d ti y = (s', b)" "r = ResMove b"
    using assms by (auto split: prod.splits)
  show ?thesis using e(1)
  proof (cases rule: Credit_cases)
    case moved
    obtain t where "moved s s' w t (st_granted (account s w))"
      using moved(2) assms(2) OpCredit by (auto simp: typed_op_def)
    then show ?thesis using e by (simp add: account_moved(1))
  qed (simp add: e)
next
  case (OpDebit w a q p d ti y)
  then obtain b where e: "Stars_Debit s w a q p d ti y = (s', b)" "r = ResMove b"
    using assms by (auto split: prod.splits)
  show ?thesis using e(1)
  proof (cases rule: Debit_cases)
    case moved
    obtain t where "moved s s' w t (st_granted (account s w))"
      using moved(3) assms(2) OpDebit by (auto simp: typed_op_def)
    then show ?thesis using e by (simp add: account_moved(1))
  qed (simp add: e)
qed

lemma grants_run:
  "list_all typed_op xs \<Longrightarrow>
   (if st_granted (account (fst (stars_run xs s)) u) then 1 else 0) =
   (if st_granted (account s u) then 1 else 0) + grants_applied u (snd (stars_run xs s))"
proof (induction xs arbitrary: s)
  case (Cons x xs)
  obtain s' r where e: "stars_step x s = (s', r)" by (cases "stars_step x s")
  show ?case using Cons.IH[of s'] Cons.prems grant_step[OF e, of u] unfolding stars_run_Cons[OF e] by simp
qed simp

text \<open>
  In any interleaving of store calls the starting grant is applied to an account at most once, and
  it has been applied exactly when the account says so: the calls that report an applied grant for a
  user number one if the user's account is marked as granted and none if it is not.
\<close>

theorem stars_grant_once:
  assumes "list_all typed_op xs"
  shows "grants_applied u (snd (stars_run xs NewStarsStore)) =
    (if st_granted (account (stars_after xs) u) then 1 else 0)"
  using grants_run[OF assms, of NewStarsStore u]
  by (simp add: NewStarsStore_def account_def zero_stars_def)

section \<open>Purchases\<close>

text \<open>
  A valid giveaway purchase pays out exactly what it costs: the number of winners times the Stars
  for each of them is the number of Stars bought as integers, although the code multiplies at 64 bits
  where the product of two arbitrary int64 values may wrap.
\<close>

theorem giveaway_total_exact:
  assumes "validPurchaseCommand form" and "is_i64 (sf_Stars form)" and "sf_Kind form = StarsPurchaseGiveaway"
  shows "\<exists>g. sf_Giveaway form = Some g \<and> gw_Users g * gw_PerUserStars g = sf_Stars form \<and>
    1 \<le> gw_Users g \<and> gw_Users g \<le> sf_Stars form"
proof -
  obtain g where g: "sf_Giveaway form = Some g" "0 < gw_Users g" "0 < gw_PerUserStars g"
      "gw_Users g \<le> sf_Stars form div gw_PerUserStars g" "i64 (gw_Users g * gw_PerUserStars g) = sf_Stars form"
    using assms by (auto simp: validPurchaseCommand_def purchase_kind_defs split: option.splits if_splits)
  have "gw_Users g * gw_PerUserStars g \<le> sf_Stars form div gw_PerUserStars g * gw_PerUserStars g"
    using g by (intro mult_right_mono) auto
  also have "\<dots> \<le> sf_Stars form"
    using g(3) by (metis div_mult_mod_eq le_add_same_cancel1 pos_mod_sign)
  finally have le: "gw_Users g * gw_PerUserStars g \<le> sf_Stars form" .
  moreover have "0 < gw_Users g * gw_PerUserStars g" using g by simp
  ultimately have "is_i64 (gw_Users g * gw_PerUserStars g)"
    using assms(2) by (auto simp: is_i64_def)
  then have eq: "gw_Users g * gw_PerUserStars g = sf_Stars form" using g(5) by simp
  have "gw_Users g * 1 \<le> gw_Users g * gw_PerUserStars g"
    using g by (intro mult_left_mono) auto
  then show ?thesis using g eq by auto
qed

section \<open>Cursors and pages\<close>

lemma cursor_length: "0 \<le> i \<Longrightarrow> is_i64 i \<Longrightarrow> int (length (EncodeStarsCursor i)) \<le> MaxStarsTransactionsOffsetBytes"
proof -
  assume "0 \<le> i" and "is_i64 i"
  then have "nat i < 10 ^ 19" by (simp add: is_i64_def nat_less_iff)
  then have "length (dec_digits (nat i)) \<le> 19" by (rule dec_digits_length) simp
  then show ?thesis
    using b64url_Encode_length[of "dec_digits (nat i)"] \<open>0 \<le> i\<close>
    by (simp add: EncodeStarsCursor_def strconv_FormatInt_def MaxStarsTransactionsOffsetBytes_def)
qed

lemma cursor_nonempty: "EncodeStarsCursor i \<noteq> []"
  by (simp add: EncodeStarsCursor_def b64url_Encode_nonempty strconv_FormatInt_def)

lemma DecodeStarsCursor_Encode: "0 < i \<Longrightarrow> is_i64 i \<Longrightarrow> DecodeStarsCursor (EncodeStarsCursor i) = Some i"
  using cursor_nonempty[of i] ParseInt_FormatInt[of i]
  by (simp add: DecodeStarsCursor_def EncodeStarsCursor_def b64url_Decode_Encode)

text \<open>
  C29: Every cursor the ledger hands out is read back as the id it was made from, is not the empty
  string that means the last page, and is short enough to pass the normalisation of a query.
\<close>

theorem stars_cursor_roundtrip:
  assumes "0 < i" and "is_i64 i"
  shows "DecodeStarsCursor (EncodeStarsCursor i) = Some i \<and> EncodeStarsCursor i \<noteq> [] \<and>
    int (length (EncodeStarsCursor i)) \<le> MaxStarsTransactionsOffsetBytes"
  using assms DecodeStarsCursor_Encode cursor_nonempty cursor_length by simp

lemma collect_txns_eq:
  "0 \<le> limit \<Longrightarrow> int (length out) \<le> limit + 1 \<Longrightarrow>
   collect_txns P limit ts out = out @ take (nat (limit + 1) - length out) (filter P ts)"
  by (induction P limit ts out rule: collect_txns.induct) (auto simp: take_Cons' nat_le_iff)

text \<open>
  In a list without repetitions ordered by a strict relation, what is beyond its \<open>n\<close>-th element is
  the rest of the list.
\<close>

lemma filter_beyond_nth:
  assumes "sorted_wrt R xs" and "n < length xs" and "\<And>x. \<not> R x x" and "\<And>x y. R x y \<Longrightarrow> \<not> R y x"
  shows "filter (R (xs ! n)) xs = drop (Suc n) xs"
proof -
  have split: "xs = take n xs @ xs ! n # drop (Suc n) xs" using assms(2) by (rule id_take_nth_drop)
  then have s: "sorted_wrt R (take n xs @ xs ! n # drop (Suc n) xs)" using assms(1) by simp
  have "filter (R (xs ! n)) (take n xs) = []" "filter (R (xs ! n)) (drop (Suc n) xs) = drop (Suc n) xs"
    using s assms(4) by (auto simp: sorted_wrt_append filter_empty_conv filter_id_conv)
  then show ?thesis using split assms(3) by (metis append_Nil filter.simps(2) filter_append)
qed

lemma take_last_beyond:
  assumes "sorted_wrt R xs" and "0 < n" and "n < length xs" and "\<And>x. \<not> R x x" and "\<And>x y. R x y \<Longrightarrow> \<not> R y x"
  shows "filter (R (last (take n xs))) xs = drop n xs"
proof -
  obtain m where m: "n = Suc m" using assms(2) by (cases n) auto
  then have "last (take n xs) = xs ! m" using assms(3) by (simp add: take_Suc_conv_app_nth)
  then show ?thesis using filter_beyond_nth[OF assms(1), of m] assms m by simp
qed

text \<open>
  What a client means to see: the transactions of its account in the order and direction it asked
  for. \<open>beyond\<close> is that order on ids.
\<close>

definition beyond :: "bool \<Rightarrow> stars_txn \<Rightarrow> stars_txn \<Rightarrow> bool" where
  "beyond ascending x y \<longleftrightarrow> (if ascending then tx_ID x < tx_ID y else tx_ID y < tx_ID x)"

definition history :: "stars_store \<Rightarrow> int \<Rightarrow> stars_direction \<Rightarrow> bool \<Rightarrow> stars_txn list" where
  "history s u d ascending =
    filter (\<lambda>t. IncludesAmount d (tx_Amount t))
      (if ascending then st_txns (account s u) else rev (st_txns (account s u)))"

lemma beyond_eq: "beyond True = (\<lambda>x y. tx_ID x < tx_ID y)" "beyond False = (\<lambda>x y. tx_ID y < tx_ID x)"
  by (simp_all add: beyond_def fun_eq_iff)

lemma history_sorted: "ledger_ok s \<Longrightarrow> sorted_wrt (beyond asc) (history s u d asc)"
  by (cases asc)
    (auto simp: history_def ledger_ok_def beyond_eq sorted_wrt_map sorted_wrt_rev intro!: sorted_wrt_filter)

lemma history_ids: "accounts_ok s \<Longrightarrow> ledger_ok s \<Longrightarrow> t \<in> set (history s u d asc) \<Longrightarrow> 0 < tx_ID t \<and> is_i64 (tx_ID t)"
  by (auto simp: history_def ledger_ok_def accounts_ok_def account_ok_def split: if_splits)

lemma take_last_history:
  assumes "ledger_ok s" and "0 < n" and "n < length (history s u d asc)"
  shows "filter (beyond asc (last (take n (history s u d asc)))) (history s u d asc) = drop n (history s u d asc)"
  by (rule take_last_beyond[OF history_sorted[OF assms(1)] assms(2,3)]) (auto simp: beyond_def)

definition normal_limit :: "stars_query \<Rightarrow> int" where
  "normal_limit q = (if sq_Limit q \<le> 0 \<or> sq_Limit q > 100 then 100 else sq_Limit q)"

text \<open>One page is a prefix of what lies beyond the cursor.\<close>

lemma ListTransactions_page:
  assumes "u \<noteq> 0" and "ss_states s u = Some st" and "Direction_Valid (sq_Direction q)"
    and "int (length (sq_Offset q)) \<le> MaxStarsTransactionsOffsetBytes"
  defines "rest \<equiv> filter (past_cursor (sq_Ascending q) (DecodeStarsCursor (sq_Offset q)))
      (history s u (sq_Direction q) (sq_Ascending q))"
  shows "Stars_ListTransactions s u q =
    Inr \<lparr>sp_Balance = st_balance st, sp_Transactions = take (nat (normal_limit q)) rest,
         sp_NextOffset = (if normal_limit q < int (length rest)
           then EncodeStarsCursor (tx_ID (last (take (nat (normal_limit q)) rest))) else [])\<rparr>"
proof -
  let ?l = "normal_limit q"
  have l: "0 < ?l" by (simp add: normal_limit_def)
  have n: "NormalizeStarsTransactionQuery q = Inr (q\<lparr>sq_Limit := ?l\<rparr>)"
    using assms(3,4) by (simp add: NormalizeStarsTransactionQuery_def normal_limit_def MaxStarsTransactionsLimit_def)
  have st: "account s u = st" using assms(2) by (simp add: account_def)
  have c: "collect_txns (\<lambda>t. past_cursor (sq_Ascending q) (DecodeStarsCursor (sq_Offset q)) t \<and>
      IncludesAmount (sq_Direction q) (tx_Amount t)) ?l
      (if sq_Ascending q then st_txns st else rev (st_txns st)) [] = take (nat ?l + 1) rest"
    using l st by (simp add: collect_txns_eq rest_def history_def conj_commute nat_add_distrib)
  show ?thesis
    using l assms(1,2) c by (simp add: Stars_ListTransactions_def n Let_def min_def)
qed

text \<open>
  A client follows \<open>NextOffset\<close> until it is empty. The fuel bounds the number of requests; \<open>None\<close>
  means that it ran out or that a request failed.
\<close>

fun stars_walk :: "nat \<Rightarrow> stars_service \<Rightarrow> stars_store \<Rightarrow> int \<Rightarrow> stars_query \<Rightarrow> (stars_store \<times> stars_txn list) option" where
  "stars_walk 0 v s u q = None"
| "stars_walk (Suc n) v s u q =
     (case svc_ListTransactions v s u q of
        (s, Inl e) \<Rightarrow> None
      | (s, Inr page) \<Rightarrow>
          if sp_NextOffset page = [] then Some (s, sp_Transactions page)
          else map_option (\<lambda>(s, ts). (s, sp_Transactions page @ ts))
            (stars_walk n v s u (q\<lparr>sq_Offset := sp_NextOffset page\<rparr>)))"

lemma EnsureGrant_settled:
  "0 < a \<Longrightarrow> u \<noteq> 0 \<Longrightarrow> \<exists>st. ss_states (fst (EnsureGrant s u a d)) u = Some st \<and> st_granted st"
  by (auto simp: EnsureGrant_def Let_def appendTxn_def)

lemma EnsureGrant_fix:
  "ss_states s u = Some st \<Longrightarrow> st_granted st \<Longrightarrow> fst (EnsureGrant s u a d) = s"
  by (simp add: EnsureGrant_def Let_def account_def fun_upd_idem)

lemma fst_ensureGranted:
  "fst (ensureGranted v s u) = (if 0 < sv_grantAmount v then fst (EnsureGrant s u (sv_grantAmount v) (sv_now v)) else s)"
  by (simp add: ensureGranted_def split: prod.split)

lemma ensureGranted_idem:
  "fst (ensureGranted v (fst (ensureGranted v s u)) u) = fst (ensureGranted v s u)"
proof (cases "u = 0 \<or> sv_grantAmount v \<le> 0")
  case True
  then show ?thesis by (auto simp: fst_ensureGranted EnsureGrant_def)
next
  case False
  then have "0 < sv_grantAmount v" "u \<noteq> 0" by auto
  then obtain st where
    "ss_states (fst (EnsureGrant s u (sv_grantAmount v) (sv_now v))) u = Some st" "st_granted st"
    using EnsureGrant_settled by blast
  then show ?thesis using False by (simp add: fst_ensureGranted EnsureGrant_fix)
qed

text \<open>The service answers like the store once the grant is settled.\<close>

lemma svc_page:
  assumes "fst (ensureGranted v s u) = s'" and "Direction_Valid (sq_Direction q)"
    and "int (length (sq_Offset q)) \<le> MaxStarsTransactionsOffsetBytes"
  shows "svc_ListTransactions v s u q = (s', Stars_ListTransactions s' u (q\<lparr>sq_Limit := normal_limit q\<rparr>))"
proof -
  have "NormalizeStarsTransactionQuery q = Inr (q\<lparr>sq_Limit := normal_limit q\<rparr>)"
    using assms(2,3) by (simp add: NormalizeStarsTransactionQuery_def normal_limit_def MaxStarsTransactionsLimit_def)
  then show ?thesis using assms(1) by (auto simp: svc_ListTransactions_def split: prod.split)
qed

lemma normal_limit_facts [simp]:
  "0 < normal_limit q" "normal_limit (q\<lparr>sq_Limit := normal_limit q\<rparr>) = normal_limit q"
  "normal_limit (q\<lparr>sq_Offset := x\<rparr>) = normal_limit q"
  by (auto simp: normal_limit_def)

lemma last_take_drop: "0 < l \<Longrightarrow> l < length (drop k xs) \<Longrightarrow> last (take l (drop k xs)) = last (take (k + l) xs)"
  by (simp add: take_add)

lemma past_cursor_Encode:
  assumes "0 < tx_ID t" and "is_i64 (tx_ID t)"
  shows "past_cursor asc (DecodeStarsCursor (EncodeStarsCursor (tx_ID t))) = beyond asc t"
  using DecodeStarsCursor_Encode[OF assms] by (auto simp: past_cursor_def beyond_def fun_eq_iff)

lemma stars_walk_settled:
  assumes s: "fst (ensureGranted v s u) = s" "ledger_ok s" "accounts_ok s" "ss_states s u = Some st" "u \<noteq> 0"
    and q: "Direction_Valid (sq_Direction q)" "int (length (sq_Offset q)) \<le> MaxStarsTransactionsOffsetBytes"
    and h: "h = history s u (sq_Direction q) (sq_Ascending q)"
    and c: "filter (past_cursor (sq_Ascending q) (DecodeStarsCursor (sq_Offset q))) h = drop k h"
    and n: "length h - k < n"
  shows "stars_walk n v s u q = Some (s, drop k h)"
  using q h c n
proof (induction n arbitrary: q k)
  case (Suc n)
  let ?l = "nat (normal_limit q)"
  have l: "0 < ?l" by simp
  let ?q1 = "q\<lparr>sq_Limit := normal_limit q\<rparr>"
  have r: "filter (past_cursor (sq_Ascending ?q1) (DecodeStarsCursor (sq_Offset ?q1)))
      (history s u (sq_Direction ?q1) (sq_Ascending ?q1)) = drop k h"
    using Suc.prems by simp
  have nl: "normal_limit q < int (length (drop k h)) \<longleftrightarrow> ?l < length (drop k h)"
    by (rule nat_less_iff[symmetric]) (simp add: less_imp_le)
  note page = ListTransactions_page[of u s st ?q1, OF \<open>u \<noteq> 0\<close> s(4), unfolded r normal_limit_facts(2) nl]
  have svc: "svc_ListTransactions v s u q = (s, Inr \<lparr>sp_Balance = st_balance st,
      sp_Transactions = take ?l (drop k h), sp_NextOffset = (if ?l < length (drop k h)
        then EncodeStarsCursor (tx_ID (last (take ?l (drop k h)))) else [])\<rparr>)"
    unfolding svc_page[OF s(1) Suc.prems(1,2)] using page Suc.prems(1,2) by simp
  show ?case
  proof (cases "?l < length (drop k h)")
    case False
    then show ?thesis using svc by simp
  next
    case True
    let ?t = "last (take ?l (drop k h))"
    let ?q = "q\<lparr>sq_Offset := EncodeStarsCursor (tx_ID ?t)\<rparr>"
    have "?t \<in> set (take ?l (drop k h))" using True l by (intro last_in_set) (simp add: not_le)
    then have "?t \<in> set h" by (meson in_set_dropD in_set_takeD)
    then have id: "0 < tx_ID ?t" "is_i64 (tx_ID ?t)" using history_ids[OF s(3,2)] Suc.prems(3) by auto
    have "filter (beyond (sq_Ascending q) ?t) h = drop (k + ?l) h"
      using take_last_history[OF s(2), of "k + ?l" u "sq_Direction q" "sq_Ascending q"] True l Suc.prems(3)
      by (simp add: last_take_drop)
    then have "filter (past_cursor (sq_Ascending ?q) (DecodeStarsCursor (sq_Offset ?q))) h = drop (k + ?l) h"
      using past_cursor_Encode[OF id] by simp
    moreover have "length h - (k + ?l) < n" using Suc.prems(5) True l unfolding length_drop by linarith
    moreover have "int (length (sq_Offset ?q)) \<le> MaxStarsTransactionsOffsetBytes"
      using cursor_length id by simp
    ultimately have "stars_walk n v s u ?q = Some (s, drop (k + ?l) h)"
      using Suc.IH[of ?q "k + ?l"] Suc.prems(1,3) by simp
    moreover have "take ?l (drop k h) @ drop (k + ?l) h = drop k h"
      by (metis add.commute append_take_drop_id drop_drop)
    ultimately show ?thesis using svc True cursor_nonempty by simp
  qed
qed simp

text \<open>
  C28: A client that reads the transactions of its account page by page, from an empty offset and with
  any limit, gets every transaction of the direction it asked for exactly once and in the order it
  asked for: in any reachable ledger, following the offsets takes no more requests than there are such
  transactions and one, and joins up to the filtered account, including the starting grant that the
  first request applies.
\<close>

theorem stars_pages_complete:
  assumes "list_all typed_op xs" and "int (length xs) + 1 < 2 ^ 63" and "s = stars_after xs"
    and "u \<noteq> 0" and "is_i64 u" and "is_i64 (sv_grantAmount v)"
    and "Direction_Valid (sq_Direction q)" and "sq_Offset q = []"
    and "s' = fst (ensureGranted v s u)" and "h = history s' u (sq_Direction q) (sq_Ascending q)" and "length h < n"
  shows "stars_walk n v s u q = Some (s', h)"
proof -
  let ?x = "OpGrant u (sv_grantAmount v) (sv_now v)"
  have ok: "accounts_ok s'" "ledger_ok s'"
  proof -
    have "s' = stars_after (if 0 < sv_grantAmount v then xs @ [?x] else xs)"
      using assms(3,9) by (auto simp: fst_ensureGranted stars_run_append split: prod.splits)
    moreover have "list_all typed_op (if 0 < sv_grantAmount v then xs @ [?x] else xs)"
      using assms by (simp add: typed_op_def)
    ultimately show "accounts_ok s'" "ledger_ok s'"
      using accounts_ok_after ledger_ok_after assms(2) by (auto split: if_splits)
  qed
  have off: "int (length (sq_Offset q)) \<le> MaxStarsTransactionsOffsetBytes"
    using assms(8) by (simp add: MaxStarsTransactionsOffsetBytes_def)
  have d: "DecodeStarsCursor (sq_Offset q) = None" using assms(8) by (simp add: DecodeStarsCursor_def)
  have idem: "fst (ensureGranted v s' u) = s'" using ensureGranted_idem assms(9) by simp
  obtain m where m: "n = Suc m" using assms(11) by (cases n) auto
  have same: "stars_walk n v s u q = stars_walk n v s' u q"
    using svc_page[OF assms(9)[symmetric] assms(7) off] svc_page[OF idem assms(7) off] m by simp
  show ?thesis
  proof (cases "ss_states s' u")
    case None
    then have "h = []" using assms(10) by (simp add: history_def account_def zero_stars_def)
    moreover have "NormalizeStarsTransactionQuery (q\<lparr>sq_Limit := normal_limit q\<rparr>) = Inr (q\<lparr>sq_Limit := normal_limit q\<rparr>)"
      using off assms(7) by (simp add: NormalizeStarsTransactionQuery_def normal_limit_def MaxStarsTransactionsLimit_def)
    ultimately show ?thesis using same m svc_page[OF idem assms(7) off] None assms(4)
      by (simp add: Stars_ListTransactions_def zero_page_def)
  next
    case (Some st)
    have "stars_walk n v s' u q = Some (s', drop 0 h)"
      using stars_walk_settled[OF idem ok(2,1) Some assms(4,7) off assms(10), of 0 n] d assms(11)
      by (simp add: past_cursor_def)
    then show ?thesis using same by simp
  qed
qed

section \<open>Examples\<close>

definition example_ops :: "stars_op list" where
  "example_ops =
    [OpCredit 7 50 ''topup'' zero_peer 1 [] [], OpGrant 7 1000 2, OpDebit 7 30 ''gift'' (user_peer 8) 3 [] [],
     OpGrant 7 1000 4, OpCredit 8 30 ''gift'' (user_peer 7) 5 [] [], OpDebit 8 40 ''gift'' (user_peer 7) 6 [] []]"

lemma example_ops_typed: "list_all typed_op example_ops" "int (length example_ops) + 1 < 2 ^ 63"
  by (simp_all add: example_ops_def typed_op_def is_i64_def)

theorem stars_store_typed_witness:
  "map tx_ID (st_txns (account (stars_after example_ops) 7)) = [1, 2, 3] \<and>
   sorted_wrt (<) (map tx_ID (st_txns (account (stars_after example_ops) 7)))"
proof -
  have "map tx_ID (st_txns (account (stars_after example_ops) 7)) = [1, 2, 3]" by code_simp
  moreover have "int (length example_ops) < 2 ^ 63" using example_ops_typed(2) by simp
  ultimately show ?thesis using stars_store_typed[OF example_ops_typed(1), of 7 8] by blast
qed

theorem stars_balance_exact_witness:
  "st_balance (account (stars_after example_ops) 7) = 1020 \<and>
   st_balance (account (stars_after example_ops) 7) = amounts (st_txns (account (stars_after example_ops) 7))"
proof -
  have "credited (st_txns (account (stars_after example_ops) 7)) < 2 ^ 63"
    "st_balance (account (stars_after example_ops) 7) = 1020" by code_simp+
  with stars_balance_exact[OF example_ops_typed(1), of 7] show ?thesis by blast
qed

theorem stars_grant_once_witness:
  "grants_applied 7 (snd (stars_run example_ops NewStarsStore)) = 1 \<and>
   grants_applied 8 (snd (stars_run example_ops NewStarsStore)) = 0"
proof -
  have "st_granted (account (stars_after example_ops) 7)" "\<not> st_granted (account (stars_after example_ops) 8)"
    by code_simp+
  with stars_grant_once[OF example_ops_typed(1), of 7] stars_grant_once[OF example_ops_typed(1), of 8]
  show ?thesis by simp
qed

definition example_form :: stars_form where
  "example_form = \<lparr>sf_FormID = 1, sf_Kind = StarsPurchaseGiveaway, sf_BuyerUserID = 7, sf_RecipientUserID = 0,
    sf_SpendPurposePeer = zero_peer,
    sf_Giveaway = Some \<lparr>gw_BoostPeer = channel_peer 5, gw_AdditionalPeers = [], gw_CountriesISO2 = [],
      gw_PrizeDescription = [], gw_RandomID = 3, gw_UntilDate = 9, gw_Users = 10, gw_PerUserStars = 50,
      gw_YearlyBoosts = 1, gw_OnlyNewSubscribers = False, gw_WinnersAreVisible = True\<rparr>,
    sf_Stars = 500, sf_Currency = ''USD'', sf_Amount = 999, sf_IssuedAt = 1, sf_ExpiresAt = 601\<rparr>"

theorem giveaway_total_exact_witness:
  "validPurchaseForm example_form \<and> (\<exists>g. sf_Giveaway example_form = Some g \<and> gw_Users g * gw_PerUserStars g = 500)"
proof -
  have v: "validPurchaseForm example_form" by code_simp
  have "validPurchaseCommand example_form" "is_i64 (sf_Stars example_form)" "sf_Kind example_form = StarsPurchaseGiveaway"
    "sf_Stars example_form = 500" by code_simp+
  with giveaway_total_exact[of example_form] v show ?thesis by auto
qed

theorem stars_cursor_roundtrip_witness:
  "EncodeStarsCursor 42 = ''NDI'' \<and> DecodeStarsCursor ''NDI'' = Some 42"
proof -
  have "EncodeStarsCursor 42 = ''NDI''" by code_simp
  with stars_cursor_roundtrip[of 42] show ?thesis by (simp add: is_i64_def)
qed

theorem stars_pages_complete_witness:
  "case stars_walk 4 (NewStarsService 9) (stars_after example_ops) 7
      \<lparr>sq_Offset = [], sq_Limit = 1, sq_Direction = DirectionIncoming, sq_Ascending = False\<rparr> of
     None \<Rightarrow> False | Some (_, ts) \<Rightarrow> map tx_Amount ts = [1000, 50]"
proof -
  let ?q = "\<lparr>sq_Offset = [], sq_Limit = 1, sq_Direction = DirectionIncoming, sq_Ascending = False\<rparr>"
  let ?s = "fst (ensureGranted (NewStarsService 9) (stars_after example_ops) 7)"
  have h: "map tx_Amount (history ?s 7 (sq_Direction ?q) (sq_Ascending ?q)) = [1000, 50]"
    "length (history ?s 7 (sq_Direction ?q) (sq_Ascending ?q)) < 4"
    "Direction_Valid (sq_Direction ?q)" "sq_Offset ?q = []" "is_i64 (sv_grantAmount (NewStarsService 9))"
    "is_i64 7"
    by code_simp+
  from stars_pages_complete[OF example_ops_typed refl _ h(6,5,3,4) refl refl h(2)] h(1)
  show ?thesis by simp
qed

text \<open>
  Without the bound on what is credited the balance does wrap: two credits that are both accepted
  leave a negative balance, which no debit can have made.
\<close>

lemma credit_wraps:
  "st_balance (account (stars_after [OpCredit 7 (2 ^ 63 - 1) ''topup'' zero_peer 1 [] [],
     OpCredit 7 1 ''topup'' zero_peer 2 [] []]) 7) = - (2 ^ 63)"
  by code_simp

end
