(* ===== verification/Login_Code.thy ===== *)
theory Login_Code
  imports SG_Prelude
begin

text \<open>
  Verification codes: \<open>internal/store/code.go\<close> and the in-memory \<open>CodeStore\<close>
  (\<open>internal/store/memory/auth.go\<close>, \<open>login_code.go\<close>, \<open>code_cas.go\<close>). A code is stored under a hash
  with an expiry time; codes for sensitive operations of a signed-in user have a scope, and an index
  gives the one hash that is active for each scope. Each operation is one critical section. The
  clock reading is an argument, and so is the random revision token that some operations draw:
  \<open>None\<close> means that the random source failed.
\<close>

section \<open>Records\<close>

definition PhoneCodeChannelPhone :: string where "PhoneCodeChannelPhone = ''phone''"
definition PhoneCodeChannelSMS :: string where "PhoneCodeChannelSMS = ''sms''"
definition PhoneCodeChannelEmailLogin :: string where "PhoneCodeChannelEmailLogin = ''email_login''"
definition PhoneCodeChannelEmailSetupRequired :: string where
  "PhoneCodeChannelEmailSetupRequired = ''email_setup_required''"

definition LoginCodeChannelVerifiable :: "string \<Rightarrow> bool" where
  "LoginCodeChannelVerifiable channel \<longleftrightarrow>
     channel = PhoneCodeChannelPhone \<or> channel = PhoneCodeChannelSMS \<or> channel = PhoneCodeChannelEmailLogin"

definition LoginCodeChannelTakeable :: "string \<Rightarrow> bool" where
  "LoginCodeChannelTakeable channel \<longleftrightarrow>
     LoginCodeChannelVerifiable channel \<or> channel = PhoneCodeChannelEmailSetupRequired"

definition PhoneCodeVersionCurrent :: int where
  "PhoneCodeVersionCurrent = 2"

record phone_code =
  pc_Version :: int
  pc_Revision :: string
  pc_IssuedUserID :: int
  pc_SignUpVerified :: bool
  pc_Phone :: string
  pc_Code :: string
  pc_DeliveryID :: string
  pc_Channel :: string
  pc_Purpose :: string
  pc_UserID :: int
  pc_AuthKeyID :: authkey
  pc_SessionID :: sessionid
  pc_Email :: string
  pc_PendingEmail :: string
  pc_Attempts :: int
  pc_MaxAttempts :: int
  pc_VerifiedEmail :: bool
  pc_RequireSignUp :: bool
  pc_LoginEmailHash :: string
  pc_RecoveryBinding :: string
  pc_AccountDeletionHash :: string

definition zero_code :: phone_code where
  "zero_code = \<lparr>pc_Version = 0, pc_Revision = [], pc_IssuedUserID = 0, pc_SignUpVerified = False, pc_Phone = [],
     pc_Code = [], pc_DeliveryID = [], pc_Channel = [], pc_Purpose = [], pc_UserID = 0, pc_AuthKeyID = 0,
     pc_SessionID = 0, pc_Email = [], pc_PendingEmail = [], pc_Attempts = 0, pc_MaxAttempts = 0,
     pc_VerifiedEmail = False, pc_RequireSignUp = False, pc_LoginEmailHash = [], pc_RecoveryBinding = [],
     pc_AccountDeletionHash = []\<rparr>"

record code_scope =
  sc_Purpose :: string
  sc_UserID :: int
  sc_AuthKeyID :: authkey
  sc_Phone :: string

definition Scope :: "phone_code \<Rightarrow> code_scope" where
  "Scope c = \<lparr>sc_Purpose = pc_Purpose c, sc_UserID = pc_UserID c, sc_AuthKeyID = pc_AuthKeyID c, sc_Phone = pc_Phone c\<rparr>"

definition Scope_Valid :: "code_scope \<Rightarrow> bool" where
  "Scope_Valid s \<longleftrightarrow> sc_Purpose s \<noteq> [] \<and> sc_UserID s \<noteq> 0 \<and> sc_AuthKeyID s \<noteq> 0 \<and> sc_Phone s \<noteq> []"

datatype verify_status = LoginCodeVerifyMissing | LoginCodeVerifyInvalid | LoginCodeVerifyAccepted

record verify_result =
  vr_Status :: verify_status
  vr_Record :: phone_code

definition verify_missing :: verify_result where
  "verify_missing = \<lparr>vr_Status = LoginCodeVerifyMissing, vr_Record = zero_code\<rparr>"

datatype code_error = ErrRevisionToken

section \<open>The store\<close>

record code_entry =
  ce_code :: phone_code
  ce_expires :: int

record code_store =
  cs_m :: "string \<rightharpoonup> code_entry"
  cs_scopes :: "code_scope \<rightharpoonup> string"

definition NewCodeStore :: code_store where
  "NewCodeStore = \<lparr>cs_m = Map.empty, cs_scopes = Map.empty\<rparr>"

text \<open>\<open>s.scopes[scope]\<close> reads the empty string where the index has no entry.\<close>

abbreviation scope_hash :: "code_store \<Rightarrow> code_scope \<Rightarrow> string" where
  "scope_hash s sc \<equiv> mget [] (cs_scopes s) sc"

definition deleteCodeLocked :: "code_store \<Rightarrow> string \<Rightarrow> phone_code \<Rightarrow> code_store" where
  "deleteCodeLocked s hash code =
    \<lparr>cs_m = (cs_m s)(hash := None),
     cs_scopes = (if Scope_Valid (Scope code) \<and> scope_hash s (Scope code) = hash
       then (cs_scopes s)(Scope code := None) else cs_scopes s)\<rparr>"

definition liveCodeLocked :: "int \<Rightarrow> code_store \<Rightarrow> string \<Rightarrow> code_store \<times> code_entry option" where
  "liveCodeLocked now s hash =
    (case cs_m s hash of
       None \<Rightarrow> (s, None)
     | Some e \<Rightarrow> if now > ce_expires e then (deleteCodeLocked s hash (ce_code e), None) else (s, Some e))"

definition put_code :: "code_store \<Rightarrow> string \<Rightarrow> code_entry \<Rightarrow> code_store" where
  "put_code s hash e = s\<lparr>cs_m := (cs_m s)(hash \<mapsto> e)\<rparr>"

definition Code_Set ::
  "int \<Rightarrow> string option \<Rightarrow> code_store \<Rightarrow> string \<Rightarrow> phone_code \<Rightarrow> int \<Rightarrow> code_store \<times> code_error option" where
  "Code_Set now tok s hash code ttl =
    (case tok of
       None \<Rightarrow> (s, Some ErrRevisionToken)
     | Some revision \<Rightarrow>
         let code = code\<lparr>pc_Revision := revision\<rparr>;
             scope = Scope code;
             s = (if Scope_Valid scope then
                    \<lparr>cs_m = (case cs_scopes s scope of
                        None \<Rightarrow> cs_m s
                      | Some oldHash \<Rightarrow> if oldHash \<noteq> hash then (cs_m s)(oldHash := None) else cs_m s),
                     cs_scopes = (cs_scopes s)(scope \<mapsto> hash)\<rparr>
                  else s)
         in (put_code s hash \<lparr>ce_code = code, ce_expires = now + ttl\<rparr>, None))"

definition Code_Get :: "int \<Rightarrow> code_store \<Rightarrow> string \<Rightarrow> code_store \<times> phone_code option" where
  "Code_Get now s hash =
    (case cs_m s hash of
       None \<Rightarrow> (s, None)
     | Some e \<Rightarrow> if now > ce_expires e then (deleteCodeLocked s hash (ce_code e), None) else (s, Some (ce_code e)))"

definition Code_Update ::
  "int \<Rightarrow> string option \<Rightarrow> code_store \<Rightarrow> string \<Rightarrow> phone_code \<Rightarrow> code_store \<times> code_error option" where
  "Code_Update now tok s hash code =
    (case tok of
       None \<Rightarrow> (s, Some ErrRevisionToken)
     | Some revision \<Rightarrow>
         (case cs_m s hash of
            None \<Rightarrow> (s, None)
          | Some e \<Rightarrow>
              if now > ce_expires e then (deleteCodeLocked s hash (ce_code e), None)
              else (put_code s hash (e\<lparr>ce_code := code\<lparr>pc_Revision := revision\<rparr>\<rparr>), None)))"

definition Code_Del :: "code_store \<Rightarrow> string \<Rightarrow> code_store" where
  "Code_Del s hash =
    (case cs_m s hash of
       Some e \<Rightarrow> deleteCodeLocked s hash (ce_code e)
     | None \<Rightarrow> s\<lparr>cs_m := (cs_m s)(hash := None)\<rparr>)"

definition ConsumeScoped ::
  "int \<Rightarrow> code_store \<Rightarrow> string \<Rightarrow> code_scope \<Rightarrow> code_store \<times> phone_code option" where
  "ConsumeScoped now s hash scope =
    (if \<not> Scope_Valid scope \<or> scope_hash s scope \<noteq> hash then (s, None)
     else case cs_m s hash of
       None \<Rightarrow> (s\<lparr>cs_scopes := (cs_scopes s)(scope := None)\<rparr>, None)
     | Some e \<Rightarrow>
         if now > ce_expires e then (deleteCodeLocked s hash (ce_code e), None)
         else if pc_Version (ce_code e) \<noteq> PhoneCodeVersionCurrent \<or> Scope (ce_code e) \<noteq> scope then
           let s = \<lparr>cs_m = (cs_m s)(hash := None), cs_scopes = (cs_scopes s)(scope := None)\<rparr>;
               actual = Scope (ce_code e)
           in (if Scope_Valid actual \<and> scope_hash s actual = hash
               then s\<lparr>cs_scopes := (cs_scopes s)(actual := None)\<rparr> else s, None)
         else (deleteCodeLocked s hash (ce_code e), Some (ce_code e)))"

text \<open>What both verifications do with a wrong code.\<close>

definition attempt_limit :: "phone_code \<Rightarrow> int \<Rightarrow> int" where
  "attempt_limit record defaultMaxAttempts =
    (let m = (if pc_MaxAttempts record \<le> 0 then defaultMaxAttempts else pc_MaxAttempts record)
     in if m \<le> 0 then 1 else m)"

definition wrong_code ::
  "string option \<Rightarrow> code_store \<Rightarrow> string \<Rightarrow> code_entry \<Rightarrow> int \<Rightarrow> code_store \<times> (code_error + verify_result)" where
  "wrong_code tok s hash e defaultMaxAttempts =
    (case tok of
       None \<Rightarrow> (s, Inl ErrRevisionToken)
     | Some revision \<Rightarrow>
         let record = (ce_code e)\<lparr>pc_Attempts := pc_Attempts (ce_code e) + 1, pc_Revision := revision\<rparr>
         in (if pc_Attempts record \<ge> attempt_limit record defaultMaxAttempts
             then deleteCodeLocked s hash record
             else put_code s hash (e\<lparr>ce_code := record\<rparr>),
             Inr \<lparr>vr_Status = LoginCodeVerifyInvalid, vr_Record = record\<rparr>))"

definition VerifyLogin ::
  "int \<Rightarrow> string option \<Rightarrow> code_store \<Rightarrow> string \<Rightarrow> string \<Rightarrow> string \<Rightarrow> bool \<Rightarrow> int \<Rightarrow>
   code_store \<times> (code_error + verify_result)" where
  "VerifyLogin now tok s hash phone code keepForSignUp defaultMaxAttempts =
    (case liveCodeLocked now s hash of
       (s, None) \<Rightarrow> (s, Inr verify_missing)
     | (s, Some e) \<Rightarrow>
         let record = ce_code e;
             invalid = Inr \<lparr>vr_Status = LoginCodeVerifyInvalid, vr_Record = record\<rparr>
         in if pc_Version record \<noteq> PhoneCodeVersionCurrent then (deleteCodeLocked s hash record, Inr verify_missing)
            else if pc_SignUpVerified record then (s, Inr verify_missing)
            else if pc_Purpose record \<noteq> [] \<or> pc_Phone record \<noteq> phone \<or>
                \<not> LoginCodeChannelVerifiable (pc_Channel record) \<or> pc_Code record = [] \<or> code = []
            then (s, invalid)
            else if pc_Code record \<noteq> code then wrong_code tok s hash e defaultMaxAttempts
            else if keepForSignUp then
              if pc_IssuedUserID record \<noteq> 0 then (s, invalid)
              else (case tok of
                 None \<Rightarrow> (s, Inl ErrRevisionToken)
               | Some revision \<Rightarrow>
                   let record = record\<lparr>pc_SignUpVerified := True, pc_Revision := revision\<rparr>
                   in (put_code s hash (e\<lparr>ce_code := record\<rparr>),
                       Inr \<lparr>vr_Status = LoginCodeVerifyAccepted, vr_Record = record\<rparr>))
            else (deleteCodeLocked s hash record, Inr \<lparr>vr_Status = LoginCodeVerifyAccepted, vr_Record = record\<rparr>))"

definition drop_scope :: "code_store \<Rightarrow> string \<Rightarrow> code_scope \<Rightarrow> code_store" where
  "drop_scope s hash scope =
    (if scope_hash s scope = hash then s\<lparr>cs_scopes := (cs_scopes s)(scope := None)\<rparr> else s)"

definition VerifyScoped ::
  "int \<Rightarrow> string option \<Rightarrow> code_store \<Rightarrow> string \<Rightarrow> code_scope \<Rightarrow> string \<Rightarrow> int \<Rightarrow>
   code_store \<times> (code_error + verify_result)" where
  "VerifyScoped now tok s hash scope code defaultMaxAttempts =
    (if \<not> Scope_Valid scope \<or> scope_hash s scope \<noteq> hash then (s, Inr verify_missing)
     else case liveCodeLocked now s hash of
       (s, None) \<Rightarrow> (drop_scope s hash scope, Inr verify_missing)
     | (s, Some e) \<Rightarrow>
         let record = ce_code e
         in if pc_Version record \<noteq> PhoneCodeVersionCurrent \<or> Scope record \<noteq> scope \<or> pc_SignUpVerified record \<or>
               pc_Code record = []
            then (drop_scope (deleteCodeLocked s hash record) hash scope, Inr verify_missing)
            else if code = [] then (s, Inr \<lparr>vr_Status = LoginCodeVerifyInvalid, vr_Record = record\<rparr>)
            else if pc_Code record \<noteq> code then wrong_code tok s hash e defaultMaxAttempts
            else (deleteCodeLocked s hash record, Inr \<lparr>vr_Status = LoginCodeVerifyAccepted, vr_Record = record\<rparr>))"

text \<open>
  Three operations take a live record of the current version if it passes a test; they differ in
  the test only.
\<close>

definition take_code ::
  "(phone_code \<Rightarrow> bool) \<Rightarrow> int \<Rightarrow> code_store \<Rightarrow> string \<Rightarrow> code_store \<times> phone_code option" where
  "take_code ok now s hash =
    (case liveCodeLocked now s hash of
       (s, None) \<Rightarrow> (s, None)
     | (s, Some e) \<Rightarrow>
         if pc_Version (ce_code e) \<noteq> PhoneCodeVersionCurrent then (deleteCodeLocked s hash (ce_code e), None)
         else if \<not> ok (ce_code e) then (s, None)
         else (deleteCodeLocked s hash (ce_code e), Some (ce_code e)))"

definition ConsumeSignUpVerified :: "int \<Rightarrow> code_store \<Rightarrow> string \<Rightarrow> string \<Rightarrow> code_store \<times> phone_code option" where
  "ConsumeSignUpVerified now s hash phone =
    take_code (\<lambda>r. pc_Purpose r = [] \<and> pc_Phone r = phone \<and> LoginCodeChannelVerifiable (pc_Channel r) \<and>
      pc_IssuedUserID r = 0 \<and> pc_SignUpVerified r) now s hash"

definition TakeLoginCode :: "int \<Rightarrow> code_store \<Rightarrow> string \<Rightarrow> string \<Rightarrow> code_store \<times> phone_code option" where
  "TakeLoginCode now s hash phone =
    take_code (\<lambda>r. \<not> pc_SignUpVerified r \<and> pc_Purpose r = [] \<and> pc_Phone r = phone \<and>
      LoginCodeChannelTakeable (pc_Channel r)) now s hash"

definition InvalidateLoginCode :: "int \<Rightarrow> code_store \<Rightarrow> string \<Rightarrow> string \<Rightarrow> code_store \<times> bool" where
  "InvalidateLoginCode now s hash phone =
    (case take_code (\<lambda>r. pc_Purpose r = [] \<and> pc_Phone r = phone \<and> LoginCodeChannelTakeable (pc_Channel r))
        now s hash of (s, r) \<Rightarrow> (s, r \<noteq> None))"

section \<open>Optimistic updates\<close>

definition GetSnapshot :: "int \<Rightarrow> code_store \<Rightarrow> string \<Rightarrow> code_store \<times> (phone_code \<times> string) option" where
  "GetSnapshot now s hash =
    (case liveCodeLocked now s hash of
       (s, None) \<Rightarrow> (s, None)
     | (s, Some e) \<Rightarrow>
         if pc_Version (ce_code e) \<noteq> PhoneCodeVersionCurrent \<or> pc_Revision (ce_code e) = []
         then (deleteCodeLocked s hash (ce_code e), None)
         else (s, Some (ce_code e, pc_Revision (ce_code e))))"

definition CompareAndUpdate ::
  "int \<Rightarrow> string option \<Rightarrow> code_store \<Rightarrow> string \<Rightarrow> string \<Rightarrow> phone_code \<Rightarrow> code_store \<times> (code_error + bool)" where
  "CompareAndUpdate now tok s hash expectedRevision nxt =
    (if expectedRevision = [] \<or> pc_Version nxt \<noteq> PhoneCodeVersionCurrent \<or> pc_Purpose nxt \<noteq> [] then (s, Inr False)
     else case tok of
       None \<Rightarrow> (s, Inl ErrRevisionToken)
     | Some revision \<Rightarrow>
         (case liveCodeLocked now s hash of
            (s, None) \<Rightarrow> (s, Inr False)
          | (s, Some e) \<Rightarrow>
              if pc_Version (ce_code e) \<noteq> PhoneCodeVersionCurrent \<or> pc_Revision (ce_code e) = []
              then (deleteCodeLocked s hash (ce_code e), Inr False)
              else if pc_Purpose (ce_code e) \<noteq> [] \<or> pc_Revision (ce_code e) \<noteq> expectedRevision then (s, Inr False)
              else (put_code s hash (e\<lparr>ce_code := nxt\<lparr>pc_Revision := revision\<rparr>\<rparr>), Inr True)))"

definition CompareAndDelete :: "int \<Rightarrow> code_store \<Rightarrow> string \<Rightarrow> string \<Rightarrow> code_store \<times> bool" where
  "CompareAndDelete now s hash expectedRevision =
    (if expectedRevision = [] then (s, False)
     else case liveCodeLocked now s hash of
       (s, None) \<Rightarrow> (s, False)
     | (s, Some e) \<Rightarrow>
         if pc_Version (ce_code e) \<noteq> PhoneCodeVersionCurrent \<or> pc_Revision (ce_code e) = []
         then (deleteCodeLocked s hash (ce_code e), False)
         else if pc_Purpose (ce_code e) \<noteq> [] \<or> pc_Revision (ce_code e) \<noteq> expectedRevision then (s, False)
         else (deleteCodeLocked s hash (ce_code e), True))"

section \<open>Runs\<close>

text \<open>
  The operations of the interface \<open>store.CodeStore\<close>, each with its clock reading and its token,
  in the order the mutex admits them.
\<close>

datatype code_op =
  OpSet int "string option" string phone_code int
| OpGet int string
| OpDel string
| OpConsumeScoped int string code_scope
| OpVerifyScoped int "string option" string code_scope string int
| OpVerifyLogin int "string option" string string string bool int
| OpConsumeSignUp int string string
| OpTake int string string
| OpInvalidate int string string
| OpGetSnapshot int string
| OpCompareAndUpdate int "string option" string string phone_code
| OpCompareAndDelete int string string

datatype code_res =
  RDone "code_error option" | RCode "phone_code option" | RVerify "code_error + verify_result"
| RBool bool | RSnapshot "(phone_code \<times> string) option" | RSwap "code_error + bool"

fun code_step :: "code_op \<Rightarrow> code_store \<Rightarrow> code_store \<times> code_res" where
  "code_step (OpSet now tok h c ttl) s = map_prod id RDone (Code_Set now tok s h c ttl)"
| "code_step (OpGet now h) s = map_prod id RCode (Code_Get now s h)"
| "code_step (OpDel h) s = (Code_Del s h, RDone None)"
| "code_step (OpConsumeScoped now h sc) s = map_prod id RCode (ConsumeScoped now s h sc)"
| "code_step (OpVerifyScoped now tok h sc c d) s = map_prod id RVerify (VerifyScoped now tok s h sc c d)"
| "code_step (OpVerifyLogin now tok h p c k d) s = map_prod id RVerify (VerifyLogin now tok s h p c k d)"
| "code_step (OpConsumeSignUp now h p) s = map_prod id RCode (ConsumeSignUpVerified now s h p)"
| "code_step (OpTake now h p) s = map_prod id RCode (TakeLoginCode now s h p)"
| "code_step (OpInvalidate now h p) s = map_prod id RBool (InvalidateLoginCode now s h p)"
| "code_step (OpGetSnapshot now h) s = map_prod id RSnapshot (GetSnapshot now s h)"
| "code_step (OpCompareAndUpdate now tok h er c) s = map_prod id RSwap (CompareAndUpdate now tok s h er c)"
| "code_step (OpCompareAndDelete now h er) s = map_prod id RBool (CompareAndDelete now s h er)"

fun op_hash :: "code_op \<Rightarrow> string" where
  "op_hash (OpSet now tok h c ttl) = h"
| "op_hash (OpGet now h) = h"
| "op_hash (OpDel h) = h"
| "op_hash (OpConsumeScoped now h sc) = h"
| "op_hash (OpVerifyScoped now tok h sc c d) = h"
| "op_hash (OpVerifyLogin now tok h p c k d) = h"
| "op_hash (OpConsumeSignUp now h p) = h"
| "op_hash (OpTake now h p) = h"
| "op_hash (OpInvalidate now h p) = h"
| "op_hash (OpGetSnapshot now h) = h"
| "op_hash (OpCompareAndUpdate now tok h er c) = h"
| "op_hash (OpCompareAndDelete now h er) = h"

text \<open>The operations that write a new record under a hash.\<close>

fun issues :: "string \<Rightarrow> code_op \<Rightarrow> bool" where
  "issues h (OpSet now tok h' c ttl) = (h' = h)"
| "issues h (OpCompareAndUpdate now tok h' er c) = (h' = h)"
| "issues h x = False"

fun code_run :: "code_op list \<Rightarrow> code_store \<Rightarrow> code_store \<times> (code_op \<times> code_res) list" where
  "code_run [] s = (s, [])"
| "code_run (x # xs) s =
     (case code_step x s of (s, r) \<Rightarrow> case code_run xs s of (s, rs) \<Rightarrow> (s, (x, r) # rs))"

lemma code_run_Cons:
  "code_step x s = (s', r) \<Longrightarrow> code_run (x # xs) s = (fst (code_run xs s'), (x, r) # snd (code_run xs s'))"
  by (simp split: prod.splits)

end
