(* ===== verification/Login_Properties.thy ===== *)
theory Login_Properties
  imports Login_Code
begin

text \<open>
  Properties of the verification codes: the scope index is exact, a code is used at most once and
  tried at most as often as it allows whatever the interleaving of calls, and the right code is
  accepted as long as its owner has not used up the attempts.
\<close>

section \<open>The scope index\<close>

definition indexed :: "code_store \<Rightarrow> bool" where
  "indexed s \<longleftrightarrow> (\<forall>h e. cs_m s h = Some e \<longrightarrow> Scope_Valid (Scope (ce_code e)) \<longrightarrow>
     cs_scopes s (Scope (ce_code e)) = Some h)"

lemma indexedI:
  "(\<And>h e. cs_m s h = Some e \<Longrightarrow> Scope_Valid (Scope (ce_code e)) \<Longrightarrow> cs_scopes s (Scope (ce_code e)) = Some h) \<Longrightarrow>
   indexed s"
  by (simp add: indexed_def)

lemma indexedD:
  "indexed s \<Longrightarrow> cs_m s h = Some e \<Longrightarrow> Scope (ce_code e) = sc \<Longrightarrow> Scope_Valid sc \<Longrightarrow> cs_scopes s sc = Some h"
  by (auto simp: indexed_def)

lemma indexed_new: "indexed NewCodeStore"
  by (simp add: indexed_def NewCodeStore_def)

lemma indexed_delete: "indexed s \<Longrightarrow> indexed (deleteCodeLocked s h c)"
  by (rule indexedI) (auto simp: deleteCodeLocked_def dest: indexedD split: if_splits)

lemma indexed_live: "indexed s \<Longrightarrow> liveCodeLocked now s h = (s', eo) \<Longrightarrow> indexed s'"
  by (auto simp: liveCodeLocked_def indexed_delete split: option.splits if_splits)

lemma indexed_put:
  "indexed s \<Longrightarrow> cs_m s h = Some e \<Longrightarrow> Scope (ce_code e') = Scope (ce_code e) \<Longrightarrow> indexed (put_code s h e')"
  by (auto simp: indexed_def put_code_def)

lemma indexed_drop:
  "indexed s \<Longrightarrow> cs_m s h = None \<Longrightarrow> scope_hash s sc = h \<Longrightarrow>
   indexed (s\<lparr>cs_scopes := (cs_scopes s)(sc := None)\<rparr>)"
  by (fastforce simp: indexed_def)

lemma liveCodeLocked_cases:
  assumes "liveCodeLocked now s h = (s', eo)"
  obtains (live) e where "eo = Some e" "s' = s" "cs_m s h = Some e" "now \<le> ce_expires e"
  | (missing) "eo = None" "s' = s" "cs_m s h = None"
  | (expired) e where "eo = None" "s' = deleteCodeLocked s h (ce_code e)" "cs_m s h = Some e" "ce_expires e < now"
proof (cases "cs_m s h")
  case None
  then show thesis using assms missing by (simp add: liveCodeLocked_def)
next
  case (Some e)
  then show thesis using assms live[of e] expired[of e] by (cases "now > ce_expires e") (simp_all add: liveCodeLocked_def not_less)
qed

lemma cs_m_delete [simp]: "cs_m (deleteCodeLocked s h c) = (cs_m s)(h := None)"
  by (simp add: deleteCodeLocked_def)

lemma cs_m_drop [simp]: "cs_m (drop_scope s h sc) = cs_m s"
  by (simp add: drop_scope_def)

lemma cs_m_put [simp]: "cs_m (put_code s h e) = (cs_m s)(h \<mapsto> e)"
  by (simp add: put_code_def)

lemma indexed_drop_scope: "indexed s \<Longrightarrow> cs_m s h = None \<Longrightarrow> indexed (drop_scope s h sc)"
  by (simp add: drop_scope_def indexed_drop)

lemma Scope_bump [simp]:
  "Scope (c\<lparr>pc_Attempts := a\<rparr>) = Scope c"
  "Scope (c\<lparr>pc_SignUpVerified := b\<rparr>) = Scope c"
  "Scope (c\<lparr>pc_Revision := t\<rparr>) = Scope c"
  by (simp_all add: Scope_def)

lemma indexed_wrong:
  "indexed s \<Longrightarrow> cs_m s h = Some e \<Longrightarrow> indexed (fst (wrong_code tok s h e d))"
  by (auto simp: wrong_code_def Let_def intro!: indexed_delete indexed_put split: option.splits)

lemma indexed_take: "indexed s \<Longrightarrow> indexed (fst (take_code ok now s h))"
  by (auto simp: take_code_def indexed_delete dest: indexed_live split: prod.splits option.splits)

lemma indexed_Set: "indexed s \<Longrightarrow> indexed (fst (Code_Set now tok s h c ttl))"
  by (rule indexedI)
    (auto simp: Code_Set_def Let_def put_code_def dest: indexedD split: option.splits if_splits)

lemma indexed_ConsumeScoped: "indexed s \<Longrightarrow> indexed (fst (ConsumeScoped now s h sc))"
proof -
  assume s: "indexed s"
  have d: "indexed \<lparr>cs_m = (cs_m s)(h := None), cs_scopes = (cs_scopes s)(sc := None)\<rparr>" if "scope_hash s sc = h"
    using s that by (fastforce simp: indexed_def)
  then show ?thesis using s indexed_drop[OF d, of h]
    by (auto simp: ConsumeScoped_def Let_def indexed_drop indexed_delete split: option.splits)
qed

lemma indexed_VerifyScoped: "indexed s \<Longrightarrow> indexed (fst (VerifyScoped now tok s h sc c d))"
  by (auto simp: VerifyScoped_def Let_def intro!: indexed_drop_scope indexed_delete indexed_wrong
      elim!: liveCodeLocked_cases split: prod.splits option.splits)

lemma indexed_VerifyLogin: "indexed s \<Longrightarrow> indexed (fst (VerifyLogin now tok s h p c k d))"
  by (auto simp: VerifyLogin_def Let_def intro!: indexed_delete indexed_wrong indexed_put
      elim!: liveCodeLocked_cases split: prod.splits option.splits)

lemma indexed_put_unscoped: "indexed s \<Longrightarrow> pc_Purpose (ce_code e) = [] \<Longrightarrow> indexed (put_code s h e)"
  by (rule indexedI) (auto simp: put_code_def Scope_Valid_def Scope_def dest: indexedD split: if_splits)

lemma indexed_CompareAndUpdate: "indexed s \<Longrightarrow> indexed (fst (CompareAndUpdate now tok s h er c))"
  by (auto simp: CompareAndUpdate_def intro!: indexed_delete indexed_put_unscoped
      elim!: liveCodeLocked_cases split: prod.splits option.splits)

lemma indexed_Del: "indexed s \<Longrightarrow> indexed (Code_Del s h)"
  by (rule indexedI) (auto simp: Code_Del_def dest: indexedD[OF indexed_delete] indexedD split: option.splits if_splits)

lemma indexed_step: "indexed s \<Longrightarrow> indexed (fst (code_step x s))"
proof (cases x)
  case (OpCompareAndDelete now h er)
  then show "indexed s \<Longrightarrow> ?thesis"
    by (auto simp: CompareAndDelete_def indexed_delete elim!: liveCodeLocked_cases split: prod.splits option.splits)
next
  case (OpGetSnapshot now h)
  then show "indexed s \<Longrightarrow> ?thesis"
    by (auto simp: GetSnapshot_def indexed_delete elim!: liveCodeLocked_cases split: prod.splits option.splits)
next
  case (OpInvalidate now h p)
  then show "indexed s \<Longrightarrow> ?thesis"
    by (simp add: InvalidateLoginCode_def split_beta indexed_take)
qed (auto simp: indexed_Set indexed_ConsumeScoped indexed_VerifyScoped indexed_VerifyLogin indexed_CompareAndUpdate
    indexed_take indexed_delete ConsumeSignUpVerified_def TakeLoginCode_def Code_Get_def indexed_Del
    split: option.splits)

lemma indexed_run: "indexed s \<Longrightarrow> indexed (fst (code_run xs s))"
proof (induction xs arbitrary: s)
  case (Cons x xs)
  obtain s' r where e: "code_step x s = (s', r)" by (cases "code_step x s")
  then have "indexed s'" using indexed_step[OF Cons.prems, of x] by simp
  then show ?case using Cons.IH unfolding code_run_Cons[OF e] by simp
qed simp

text \<open>
  After any sequence of calls of the code store, at most one stored code belongs to a scope, and
  the index names it: every stored code with a valid scope is the code the index gives for that
  scope, so issuing a code for a sensitive operation revokes the one issued before.
\<close>

theorem scope_index_exact:
  assumes "s = fst (code_run xs NewCodeStore)" and "cs_m s h = Some e" and "Scope_Valid (Scope (ce_code e))"
  shows "cs_scopes s (Scope (ce_code e)) = Some h \<and>
    (\<forall>h' e'. cs_m s h' = Some e' \<longrightarrow> Scope (ce_code e') = Scope (ce_code e) \<longrightarrow> h' = h)"
proof -
  have i: "indexed s" using indexed_run[OF indexed_new] assms(1) by simp
  have h: "cs_scopes s (Scope (ce_code e)) = Some h" using indexedD[OF i assms(2) refl assms(3)] .
  have "h' = h" if "cs_m s h' = Some e'" "Scope (ce_code e') = Scope (ce_code e)" for h' e'
    using indexedD[OF i that assms(3)] h by simp
  with h show ?thesis by blast
qed

section \<open>Single use\<close>

text \<open>
  What a caller observes, read off a call and its result: the code was accepted; the code was
  claimed, that is, the caller is the one who may act on it and nobody else will be; a code was
  compared and was wrong.
\<close>

definition accepted :: "string \<Rightarrow> code_op \<times> code_res \<Rightarrow> bool" where
  "accepted h = (\<lambda>(x, r). op_hash x = h \<and>
     (case r of RVerify (Inr v) \<Rightarrow> vr_Status v = LoginCodeVerifyAccepted | _ \<Rightarrow> False))"

definition claimed :: "string \<Rightarrow> code_op \<times> code_res \<Rightarrow> bool" where
  "claimed h = (\<lambda>(x, r). op_hash x = h \<and>
     (case x of
        OpConsumeScoped _ _ _ \<Rightarrow> (case r of RCode (Some _) \<Rightarrow> True | _ \<Rightarrow> False)
      | OpConsumeSignUp _ _ _ \<Rightarrow> (case r of RCode (Some _) \<Rightarrow> True | _ \<Rightarrow> False)
      | OpTake _ _ _ \<Rightarrow> (case r of RCode (Some _) \<Rightarrow> True | _ \<Rightarrow> False)
      | OpInvalidate _ _ _ \<Rightarrow> r = RBool True
      | OpCompareAndDelete _ _ _ \<Rightarrow> r = RBool True
      | OpVerifyScoped _ _ _ _ _ _ \<Rightarrow> accepted h (x, r)
      | OpVerifyLogin _ _ _ _ _ keep _ \<Rightarrow> accepted h (x, r) \<and> \<not> keep
      | _ \<Rightarrow> False))"

definition wrong_guess :: "string \<Rightarrow> code_op \<times> code_res \<Rightarrow> bool" where
  "wrong_guess h = (\<lambda>(x, r). op_hash x = h \<and>
     (case r of
        RVerify (Inr v) \<Rightarrow> vr_Status v = LoginCodeVerifyInvalid \<and>
          (case x of
             OpVerifyLogin _ _ _ phone code _ _ \<Rightarrow>
               pc_Purpose (vr_Record v) = [] \<and> pc_Phone (vr_Record v) = phone \<and>
               LoginCodeChannelVerifiable (pc_Channel (vr_Record v)) \<and> pc_Code (vr_Record v) \<noteq> [] \<and>
               code \<noteq> [] \<and> pc_Code (vr_Record v) \<noteq> code
           | OpVerifyScoped _ _ _ _ code _ \<Rightarrow> code \<noteq> [] \<and> pc_Code (vr_Record v) \<noteq> code
           | _ \<Rightarrow> False)
      | _ \<Rightarrow> False))"

text \<open>What a stored entry still allows.\<close>

definition may_accept :: "code_entry option \<Rightarrow> nat" where
  "may_accept eo = (case eo of Some e \<Rightarrow> if pc_SignUpVerified (ce_code e) then 0 else 1 | None \<Rightarrow> 0)"

definition may_claim :: "code_entry option \<Rightarrow> nat" where
  "may_claim eo = (case eo of Some _ \<Rightarrow> 1 | None \<Rightarrow> 0)"

definition may_guess :: "int \<Rightarrow> code_entry option \<Rightarrow> nat" where
  "may_guess d eo =
    (case eo of Some e \<Rightarrow> nat (max 1 (attempt_limit (ce_code e) d - pc_Attempts (ce_code e))) | None \<Rightarrow> 0)"

fun default_within :: "int \<Rightarrow> code_op \<Rightarrow> bool" where
  "default_within d (OpVerifyScoped now tok h sc c m) = (m \<le> d)"
| "default_within d (OpVerifyLogin now tok h p c k m) = (m \<le> d)"
| "default_within d x = True"

definition spends :: "int \<Rightarrow> string \<Rightarrow> code_op \<times> code_res \<Rightarrow> code_entry option \<Rightarrow> code_entry option \<Rightarrow> bool" where
  "spends d h xr eo eo' \<longleftrightarrow>
     of_bool (accepted h xr) + may_accept eo' \<le> may_accept eo \<and>
     of_bool (claimed h xr) + may_claim eo' \<le> may_claim eo \<and>
     of_bool (wrong_guess h xr) + may_guess d eo' \<le> may_guess d eo"

lemmas spends_defs = spends_def accepted_def claimed_def wrong_guess_def may_accept_def may_claim_def

lemma may_guess_simps [simp]: "may_guess d None = 0" "0 < may_guess d (Some e)"
  by (simp_all add: may_guess_def)

lemma spends_unseen: "op_hash x \<noteq> h \<Longrightarrow> eo' = eo \<or> eo' = None \<Longrightarrow> spends d h (x, r) eo eo'"
  by (auto simp: spends_defs split: option.splits)

lemma attempt_limit_mono: "m \<le> d \<Longrightarrow> attempt_limit c m \<le> attempt_limit c d"
  by (simp add: attempt_limit_def Let_def)

lemma attempt_limit_bump [simp]:
  "attempt_limit (c\<lparr>pc_Attempts := a\<rparr>) d = attempt_limit c d"
  "attempt_limit (c\<lparr>pc_Revision := t\<rparr>) d = attempt_limit c d"
  "attempt_limit (c\<lparr>pc_SignUpVerified := b\<rparr>) d = attempt_limit c d"
  by (simp_all add: attempt_limit_def)

lemma may_guess_bump:
  assumes "m \<le> d" and "\<not> attempt_limit (ce_code e) m \<le> pc_Attempts (ce_code e) + 1"
  shows "Suc (may_guess d (Some (e\<lparr>ce_code := (ce_code e)\<lparr>pc_Attempts := pc_Attempts (ce_code e) + 1,
    pc_Revision := t\<rparr>\<rparr>))) \<le> may_guess d (Some e)"
  using assms attempt_limit_mono[OF assms(1), of "ce_code e"] by (simp add: may_guess_def)

lemma spends_gone: "\<not> wrong_guess h xr \<or> eo \<noteq> None \<Longrightarrow> accepted h xr \<longrightarrow> may_accept eo = 1 \<Longrightarrow>
    claimed h xr \<longrightarrow> eo \<noteq> None \<Longrightarrow> spends d h xr eo None"
  by (cases eo) (auto simp: spends_def may_claim_def may_accept_def Suc_le_eq)

lemma spends_kept:
  "\<not> accepted h xr \<Longrightarrow> \<not> claimed h xr \<Longrightarrow> \<not> wrong_guess h xr \<Longrightarrow> spends d h xr eo eo"
  by (simp add: spends_def)

lemma spends_quiet:
  "\<not> accepted h xr \<Longrightarrow> \<not> claimed h xr \<Longrightarrow> \<not> wrong_guess h xr \<Longrightarrow> eo' = eo \<or> eo' = None \<Longrightarrow> spends d h xr eo eo'"
  by (auto simp: spends_def may_accept_def may_claim_def split: option.splits)

lemma observed_missing [simp]:
  "\<not> accepted h (x, RVerify (Inr verify_missing))" "\<not> claimed h (x, RVerify (Inr verify_missing))"
  "\<not> wrong_guess h (x, RVerify (Inr verify_missing))"
  by (auto simp: accepted_def claimed_def wrong_guess_def verify_missing_def split: code_op.splits)

lemma spends_wrong:
  assumes "wrong_code tok s h e m = (s', r)" and "cs_m s h = Some e" and "m \<le> d"
    and "\<not> accepted h (x, RVerify r)" and "\<not> claimed h (x, RVerify r)"
    and "isl r \<longrightarrow> \<not> wrong_guess h (x, RVerify r)"
  shows "spends d h (x, RVerify r) (Some e) (cs_m s' h)"
proof (cases tok)
  case None
  then have "s' = s" "isl r" using assms(1) by (auto simp: wrong_code_def)
  then show ?thesis using assms by (simp add: spends_kept)
next
  case (Some t)
  let ?e = "e\<lparr>ce_code := (ce_code e)\<lparr>pc_Attempts := pc_Attempts (ce_code e) + 1, pc_Revision := t\<rparr>\<rparr>"
  have "(cs_m s' h = None) \<or> cs_m s' h = Some ?e \<and> \<not> attempt_limit (ce_code e) m \<le> pc_Attempts (ce_code e) + 1"
    using assms(1) Some
    by (cases "attempt_limit (ce_code e) m \<le> pc_Attempts (ce_code e) + 1") (auto simp: wrong_code_def Let_def)
  then show ?thesis
  proof
    assume "cs_m s' h = None"
    then show ?thesis using assms by (simp add: spends_gone)
  next
    assume b: "cs_m s' h = Some ?e \<and> \<not> attempt_limit (ce_code e) m \<le> pc_Attempts (ce_code e) + 1"
    then have "Suc (may_guess d (Some ?e)) \<le> may_guess d (Some e)" using may_guess_bump[OF assms(3)] by blast
    then show ?thesis using b assms(4,5)
      by (simp add: spends_def may_accept_def may_claim_def of_bool_def)
  qed
qed

lemma wrong_code_res: "wrong_code tok s h e m = (s', r) \<Longrightarrow>
    (case r of Inl _ \<Rightarrow> True | Inr v \<Rightarrow> vr_Status v = LoginCodeVerifyInvalid)"
  by (auto simp: wrong_code_def Let_def split: option.splits)

lemma wrong_code_observed:
  assumes "wrong_code tok s h e m = (s', r)"
  shows "\<not> accepted h' (x, RVerify r)" and "isl r \<Longrightarrow> \<not> wrong_guess h' (x, RVerify r)"
    and "x = OpVerifyLogin a b c f g i j \<or> x = OpVerifyScoped a b c y g j \<Longrightarrow> \<not> claimed h' (x, RVerify r)"
  using wrong_code_res[OF assms]
  by (auto simp: accepted_def claimed_def wrong_guess_def split: sum.splits)

lemma spends_VerifyLogin:
  assumes "VerifyLogin now tok s h p c k m = (s', r)" and "m \<le> d"
  shows "spends d h (OpVerifyLogin now tok h p c k m, RVerify r) (cs_m s h) (cs_m s' h)"
proof -
  obtain s0 eo where live: "liveCodeLocked now s h = (s0, eo)" by (cases "liveCodeLocked now s h")
  then show ?thesis
  proof (cases rule: liveCodeLocked_cases)
    case (live e)
    note l = \<open>liveCodeLocked now s h = (s0, eo)\<close>
    let ?c = "ce_code e"
    consider (missing) "r = Inr verify_missing" "cs_m s' h = None \<or> cs_m s' h = cs_m s h"
      | (invalid) "\<not> wrong_guess h (OpVerifyLogin now tok h p c k m, RVerify r)" "s' = s"
          "\<not> accepted h (OpVerifyLogin now tok h p c k m, RVerify r)"
      | (wrong) "wrong_code tok s h e m = (s', r)"
      | (mark) t where "k" "\<not> pc_SignUpVerified ?c" "cs_m s' h = Some (e\<lparr>ce_code := ?c\<lparr>pc_SignUpVerified := True, pc_Revision := t\<rparr>\<rparr>)"
          "\<exists>v. r = Inr v \<and> vr_Status v = LoginCodeVerifyAccepted"
      | (accept) "\<not> pc_SignUpVerified ?c" "cs_m s' h = None" "\<exists>v. r = Inr v \<and> vr_Status v = LoginCodeVerifyAccepted"
      using assms(1) l live
      by (auto simp: VerifyLogin_def Let_def accepted_def wrong_guess_def split: if_splits option.splits)
    then show ?thesis
    proof cases
      case missing
      then show ?thesis by (auto intro: spends_quiet)
    next
      case invalid
      then show ?thesis by (auto simp: claimed_def intro: spends_kept)
    next
      case wrong
      then show ?thesis using live wrong_code_observed[OF wrong] spends_wrong[OF wrong _ assms(2)] by simp
    next
      case mark
      then show ?thesis using live
        by (auto simp: spends_def accepted_def claimed_def wrong_guess_def may_accept_def may_claim_def may_guess_def)
    next
      case accept
      then show ?thesis using live
        by (auto simp: accepted_def claimed_def wrong_guess_def may_accept_def intro: spends_gone)
    qed
  qed (use assms live in \<open>auto simp: VerifyLogin_def intro!: spends_quiet\<close>)
qed

lemma VerifyScoped_live:
  assumes "Scope_Valid sc" and "scope_hash s sc = h" and "liveCodeLocked now s h = (s, Some e)"
  shows "VerifyScoped now tok s h sc c m =
    (if pc_Version (ce_code e) \<noteq> PhoneCodeVersionCurrent \<or> Scope (ce_code e) \<noteq> sc \<or> pc_SignUpVerified (ce_code e) \<or>
        pc_Code (ce_code e) = []
     then (drop_scope (deleteCodeLocked s h (ce_code e)) h sc, Inr verify_missing)
     else if c = [] then (s, Inr \<lparr>vr_Status = LoginCodeVerifyInvalid, vr_Record = ce_code e\<rparr>)
     else if pc_Code (ce_code e) \<noteq> c then wrong_code tok s h e m
     else (deleteCodeLocked s h (ce_code e), Inr \<lparr>vr_Status = LoginCodeVerifyAccepted, vr_Record = ce_code e\<rparr>))"
  unfolding VerifyScoped_def assms(2) using assms(1) by (simp add: assms(3) Let_def)

lemma eq_scoped_missing:
  assumes "Scope_Valid sc \<and> scope_hash s sc = h" and "liveCodeLocked now s h = (s0, None)"
  shows "VerifyScoped now tok s h sc c m = (drop_scope s0 h sc, Inr verify_missing)"
  unfolding VerifyScoped_def conjunct2[OF assms(1)] using assms(1) by (simp add: assms(2))

lemma spends_VerifyScoped:
  assumes "VerifyScoped now tok s h sc c m = (s', r)" and "m \<le> d"
  shows "spends d h (OpVerifyScoped now tok h sc c m, RVerify r) (cs_m s h) (cs_m s' h)"
proof (cases "Scope_Valid sc \<and> scope_hash s sc = h")
  case False
  then show ?thesis using assms by (auto simp: VerifyScoped_def intro!: spends_quiet)
next
  case True
  obtain s0 eo where l: "liveCodeLocked now s h = (s0, eo)" by (cases "liveCodeLocked now s h")
  then show ?thesis
  proof (cases rule: liveCodeLocked_cases)
    case (live e)
    let ?x = "OpVerifyScoped now tok h sc c m"
    let ?bad = "pc_Version (ce_code e) \<noteq> PhoneCodeVersionCurrent \<or> Scope (ce_code e) \<noteq> sc \<or>
      pc_SignUpVerified (ce_code e) \<or> pc_Code (ce_code e) = []"
    note eq = assms(1)[unfolded VerifyScoped_live[OF conjunct1[OF True] conjunct2[OF True] l[unfolded live(1,2)]]]
    consider (bad) ?bad | (empty) "\<not> ?bad" "c = []" | (wrong) "\<not> ?bad" "c \<noteq> []" "pc_Code (ce_code e) \<noteq> c"
      | (accept) "\<not> ?bad" "c \<noteq> []" "pc_Code (ce_code e) = c" by argo
    then show ?thesis
    proof cases
      case bad
      then have "r = Inr verify_missing" "cs_m s' h = None" using eq by auto
      then show ?thesis by (auto intro: spends_quiet)
    next
      case empty
      then have "s' = s" "r = Inr \<lparr>vr_Status = LoginCodeVerifyInvalid, vr_Record = ce_code e\<rparr>" using eq by auto
      then show ?thesis using empty by (auto simp: accepted_def claimed_def wrong_guess_def intro!: spends_quiet)
    next
      case wrong
      then have w: "wrong_code tok s h e m = (s', r)" using eq by auto
      then show ?thesis using live wrong_code_observed[OF w] spends_wrong[OF w _ assms(2)] by simp
    next
      case accept
      then have "cs_m s' h = None" "r = Inr \<lparr>vr_Status = LoginCodeVerifyAccepted, vr_Record = ce_code e\<rparr>"
        using eq by auto
      then show ?thesis using live accept
        by (auto simp: accepted_def claimed_def wrong_guess_def may_accept_def intro: spends_gone)
    qed
  next
    case missing
    then show ?thesis using eq_scoped_missing[OF True l[unfolded missing(1)]] assms(1) by (auto intro: spends_quiet)
  next
    case (expired e)
    then show ?thesis using eq_scoped_missing[OF True l[unfolded expired(1)]] assms(1) by (auto intro: spends_quiet)
  qed
qed

lemma take_code_effect:
  "take_code ok now s h = (s', r) \<Longrightarrow>
   cs_m s' h = None \<and> (r \<noteq> None \<longrightarrow> cs_m s h \<noteq> None) \<or> cs_m s' h = cs_m s h \<and> r = None"
  by (auto simp: take_code_def elim!: liveCodeLocked_cases split: prod.splits option.splits if_splits)

lemma live_elsewhere: "liveCodeLocked now s h = (s', eo) \<Longrightarrow> h' \<noteq> h \<Longrightarrow> cs_m s' h' = cs_m s h'"
  by (auto elim!: liveCodeLocked_cases)

lemma wrong_elsewhere: "h' \<noteq> h \<Longrightarrow> cs_m (fst (wrong_code tok s h e m)) h' = cs_m s h'"
  by (simp add: wrong_code_def Let_def split: option.split)

lemma op_elsewhere:
  assumes h: "h' \<noteq> h"
  shows "cs_m (fst (take_code ok now s h)) h' = cs_m s h'"
    and "cs_m (fst (VerifyLogin now tok s h p c k m)) h' = cs_m s h'"
    and "cs_m (fst (VerifyScoped now tok s h sc c m)) h' = cs_m s h'"
    and "cs_m (fst (GetSnapshot now s h)) h' = cs_m s h'"
    and "cs_m (fst (CompareAndUpdate now tok s h er nxt)) h' = cs_m s h'"
    and "cs_m (fst (CompareAndDelete now s h er)) h' = cs_m s h'"
proof -
  obtain s0 eo where l: "liveCodeLocked now s h = (s0, eo)" by (cases "liveCodeLocked now s h")
  note facts = l live_elsewhere[OF l h] h wrong_elsewhere
  show "cs_m (fst (take_code ok now s h)) h' = cs_m s h'"
    by (simp add: take_code_def facts split: option.split)
  show "cs_m (fst (VerifyLogin now tok s h p c k m)) h' = cs_m s h'"
    by (simp add: VerifyLogin_def Let_def facts split: option.split)
  show "cs_m (fst (VerifyScoped now tok s h sc c m)) h' = cs_m s h'"
    by (simp add: VerifyScoped_def Let_def facts split: option.split)
  show "cs_m (fst (GetSnapshot now s h)) h' = cs_m s h'"
    by (simp add: GetSnapshot_def facts split: option.split)
  show "cs_m (fst (CompareAndUpdate now tok s h er nxt)) h' = cs_m s h'"
    by (simp add: CompareAndUpdate_def facts split: option.split)
  show "cs_m (fst (CompareAndDelete now s h er)) h' = cs_m s h'"
    by (simp add: CompareAndDelete_def facts split: option.split)
qed

lemma simple_elsewhere:
  assumes "h' \<noteq> h"
  shows "cs_m (fst (Code_Get now s h)) h' = cs_m s h'" and "cs_m (Code_Del s h) h' = cs_m s h'"
    and "cs_m (fst (ConsumeScoped now s h sc)) h' = cs_m s h'"
  using assms by (simp_all add: Code_Get_def Code_Del_def ConsumeScoped_def Let_def split: option.split)

lemma Set_elsewhere:
  "h' \<noteq> h \<Longrightarrow> cs_m (fst (Code_Set now tok s h c ttl)) h' = cs_m s h' \<or>
     cs_m (fst (Code_Set now tok s h c ttl)) h' = None \<and> cs_scopes s (Scope c) = Some h'"
  by (simp add: Code_Set_def Let_def split: option.split)

text \<open>A call changes other hashes only by deleting the code that a new one replaces.\<close>

lemma step_elsewhere:
  assumes "op_hash x \<noteq> h"
  shows "cs_m (fst (code_step x s)) h = cs_m s h \<or>
    cs_m (fst (code_step x s)) h = None \<and> (\<exists>sc. cs_scopes s sc = Some h)"
proof (cases x)
  case (OpSet now tok h' c ttl)
  then show ?thesis using Set_elsewhere[of h h' now tok s c ttl] assms by auto
qed (use assms in \<open>simp_all add: op_elsewhere simple_elsewhere ConsumeSignUpVerified_def TakeLoginCode_def
    InvalidateLoginCode_def split_beta\<close>)

lemma spends_consume:
  assumes "\<And>v. r \<noteq> RVerify v"
    and "eo' = None \<and> (claimed h (x, r) \<longrightarrow> eo \<noteq> None) \<or> eo' = eo \<and> \<not> claimed h (x, r)"
  shows "spends d h (x, r) eo eo'"
proof -
  have "\<not> accepted h (x, r)" "\<not> wrong_guess h (x, r)"
    using assms(1) by (auto simp: accepted_def wrong_guess_def split: code_res.splits)
  then show ?thesis using assms(2) by (auto intro: spends_gone spends_quiet)
qed

lemma spends_take:
  assumes "take_code ok now s h = (s', c)" and "\<And>v. r \<noteq> RVerify v" and "claimed h (x, r) \<longleftrightarrow> c \<noteq> None"
  shows "spends d h (x, r) (cs_m s h) (cs_m s' h)"
  using take_code_effect[OF assms(1)] assms(2,3) by (intro spends_consume) auto

lemma spends_lookup:
  assumes "code_step x s = (s', r)" and True: "op_hash x = h"
    and "(\<exists>now h'. x = OpGet now h') \<or> (\<exists>h'. x = OpDel h') \<or> (\<exists>now h'. x = OpGetSnapshot now h') \<or>
      (\<exists>now h' er. x = OpCompareAndDelete now h' er)"
  shows "spends d h (x, r) (cs_m s h) (cs_m s' h)"
proof (cases x)
  case (OpGet now h')
  then have "cs_m s' h = None \<or> cs_m s' h = cs_m s h" "\<not> claimed h (x, r)" "\<And>v. r \<noteq> RVerify v"
    using assms(1) True by (auto simp: Code_Get_def claimed_def split: option.splits if_splits)
  then show ?thesis by (intro spends_consume) auto
next
  case (OpDel h')
  then have "cs_m s' h = None" "\<not> claimed h (x, r)" "\<And>v. r \<noteq> RVerify v"
    using assms(1) True by (auto simp: Code_Del_def claimed_def split: option.splits)
  then show ?thesis by (intro spends_consume) auto
next
  case (OpGetSnapshot now h')
  then have "cs_m s' h = None \<or> cs_m s' h = cs_m s h" "\<not> claimed h (x, r)" "\<And>v. r \<noteq> RVerify v"
    using assms(1) True
    by (auto simp: GetSnapshot_def claimed_def elim!: liveCodeLocked_cases split: option.splits if_splits prod.splits)
  then show ?thesis by (intro spends_consume) auto
next
  case (OpCompareAndDelete now h' er)
  then have "cs_m s' h = None \<and> (r = RBool True \<longrightarrow> cs_m s h \<noteq> None) \<or> cs_m s' h = cs_m s h \<and> r = RBool False"
      "\<And>v. r \<noteq> RVerify v"
    using assms(1) True
    by (auto simp: CompareAndDelete_def elim!: liveCodeLocked_cases split: option.splits if_splits prod.splits)
  then show ?thesis using OpCompareAndDelete by (intro spends_consume) (auto simp: claimed_def)
qed (use assms(3) in simp_all)

text \<open>
  Whatever the call, what it lets its caller observe about the code under \<open>h\<close> is paid for by what
  the entry allowed before.
\<close>

lemma spends_step:
  assumes "code_step x s = (s', r)" and "\<not> issues h x" and "default_within d x"
  shows "spends d h (x, r) (cs_m s h) (cs_m s' h)"
proof (cases "op_hash x = h")
  case False
  have "cs_m s' h = cs_m s h \<or> cs_m s' h = None"
    using step_elsewhere[OF False, of s] assms(1) by auto
  then show ?thesis using False by (auto intro: spends_unseen)
next
  case True
  show ?thesis
  proof (cases x)
    case (OpVerifyLogin now tok h' p c k m)
    then obtain r' where "VerifyLogin now tok s h p c k m = (s', r')" "r = RVerify r'"
      using assms True by (cases "VerifyLogin now tok s h p c k m") auto
    then show ?thesis using OpVerifyLogin assms True spends_VerifyLogin by auto
  next
    case (OpVerifyScoped now tok h' sc c m)
    then obtain r' where "VerifyScoped now tok s h sc c m = (s', r')" "r = RVerify r'"
      using assms True by (cases "VerifyScoped now tok s h sc c m") auto
    then show ?thesis using OpVerifyScoped assms True spends_VerifyScoped by auto
  next
    case (OpConsumeScoped now h' sc)
    then have "cs_m s' h = None \<and> (r \<noteq> RCode None \<longrightarrow> cs_m s h \<noteq> None) \<or> cs_m s' h = cs_m s h \<and> r = RCode None"
      using assms True by (cases "cs_m s h") (auto simp: ConsumeScoped_def Let_def split: if_splits)
    moreover obtain ro where "r = RCode ro" using OpConsumeScoped assms(1) by (auto simp: map_prod_def split: prod.splits)
    ultimately show ?thesis using OpConsumeScoped
      by (intro spends_consume) (auto simp: claimed_def split: option.splits)
  next
    case (OpConsumeSignUp now h' p)
    then obtain c where "ConsumeSignUpVerified now s h p = (s', c)" "r = RCode c"
      using assms True by (cases "ConsumeSignUpVerified now s h p") auto
    then show ?thesis using OpConsumeSignUp True unfolding ConsumeSignUpVerified_def
      by (intro spends_take) (auto simp: claimed_def split: option.splits)
  next
    case (OpTake now h' p)
    then obtain c where "TakeLoginCode now s h p = (s', c)" "r = RCode c"
      using assms True by (cases "TakeLoginCode now s h p") auto
    then show ?thesis using OpTake True unfolding TakeLoginCode_def
      by (intro spends_take) (auto simp: claimed_def split: option.splits)
  next
    case (OpInvalidate now h' p)
    let ?t = "take_code (\<lambda>r. pc_Purpose r = [] \<and> pc_Phone r = p \<and> LoginCodeChannelTakeable (pc_Channel r)) now s h"
    obtain c where "?t = (s', c)" "r = RBool (c \<noteq> None)"
      using OpInvalidate assms True by (cases ?t) (auto simp: InvalidateLoginCode_def)
    then show ?thesis using OpInvalidate True by (intro spends_take) (auto simp: claimed_def)
  qed (use assms True spends_lookup[OF assms(1) True] in \<open>simp_all\<close>)
qed

lemma spends_run:
  assumes "list_all (\<lambda>x. \<not> issues h x \<and> default_within d x) xs"
  shows "length (filter (accepted h) (snd (code_run xs s))) \<le> may_accept (cs_m s h) \<and>
    length (filter (claimed h) (snd (code_run xs s))) \<le> may_claim (cs_m s h) \<and>
    length (filter (wrong_guess h) (snd (code_run xs s))) \<le> may_guess d (cs_m s h)"
  using assms
proof (induction xs arbitrary: s)
  case (Cons x xs)
  obtain s' r where e: "code_step x s = (s', r)" by (cases "code_step x s")
  then have "spends d h (x, r) (cs_m s h) (cs_m s' h)" using spends_step Cons.prems by simp
  then show ?case using Cons.IH[of s'] Cons.prems unfolding code_run_Cons[OF e] spends_def
    by (auto simp: of_bool_def)
qed simp

text \<open>
  A call that compares a wrong code with the live record under \<open>h\<close>, whatever it answers, and the number
  of such calls in a run. A verification whose revision token cannot be drawn compares too, but answers
  with the error and leaves the record as it is.
\<close>

definition compares_wrong :: "string \<Rightarrow> code_op \<Rightarrow> code_store \<Rightarrow> bool" where
  "compares_wrong h x s \<longleftrightarrow> op_hash x = h \<and>
     (case x of
        OpVerifyLogin now _ _ phone code _ _ \<Rightarrow>
          (case snd (liveCodeLocked now s h) of
             None \<Rightarrow> False
           | Some e \<Rightarrow> pc_Version (ce_code e) = PhoneCodeVersionCurrent \<and> \<not> pc_SignUpVerified (ce_code e) \<and>
               pc_Purpose (ce_code e) = [] \<and> pc_Phone (ce_code e) = phone \<and>
               LoginCodeChannelVerifiable (pc_Channel (ce_code e)) \<and> pc_Code (ce_code e) \<noteq> [] \<and> code \<noteq> [] \<and>
               pc_Code (ce_code e) \<noteq> code)
      | OpVerifyScoped now _ _ sc code _ \<Rightarrow>
          Scope_Valid sc \<and> scope_hash s sc = h \<and>
          (case snd (liveCodeLocked now s h) of
             None \<Rightarrow> False
           | Some e \<Rightarrow> pc_Version (ce_code e) = PhoneCodeVersionCurrent \<and> Scope (ce_code e) = sc \<and>
               \<not> pc_SignUpVerified (ce_code e) \<and> pc_Code (ce_code e) \<noteq> [] \<and> code \<noteq> [] \<and> pc_Code (ce_code e) \<noteq> code)
      | _ \<Rightarrow> False)"

fun compared :: "string \<Rightarrow> code_op list \<Rightarrow> code_store \<Rightarrow> nat" where
  "compared h [] s = 0"
| "compared h (x # xs) s = of_bool (compares_wrong h x s) + compared h xs (fst (code_step x s))"

fun draw_fails :: "string \<Rightarrow> code_op \<Rightarrow> bool" where
  "draw_fails h (OpVerifyLogin now tok h' p c k m) = (h' = h \<and> tok = None)"
| "draw_fails h (OpVerifyScoped now tok h' sc c m) = (h' = h \<and> tok = None)"
| "draw_fails h x = False"

lemma wrong_code_charged:
  "wrong_code (Some t) s h e m = (s', r) \<Longrightarrow>
   \<exists>v. r = Inr v \<and> vr_Status v = LoginCodeVerifyInvalid \<and> Scope (vr_Record v) = Scope (ce_code e) \<and>
     pc_Purpose (vr_Record v) = pc_Purpose (ce_code e) \<and> pc_Phone (vr_Record v) = pc_Phone (ce_code e) \<and>
     pc_Channel (vr_Record v) = pc_Channel (ce_code e) \<and> pc_Code (vr_Record v) = pc_Code (ce_code e)"
  by (auto simp: wrong_code_def Let_def Scope_def)

lemma compares_charged:
  assumes "compares_wrong h x s" and "code_step x s = (s', r)"
  shows "wrong_guess h (x, r) \<or> draw_fails h x"
proof -
  have h: "op_hash x = h" using assms(1) by (simp add: compares_wrong_def)
  from assms(1) consider (login) now tok p c k m where "x = OpVerifyLogin now tok h p c k m"
    | (scoped) now tok sc c m where "x = OpVerifyScoped now tok h sc c m"
    by (cases x) (auto simp: compares_wrong_def)
  then show ?thesis
  proof cases
    case login
    then obtain s0 e where l: "liveCodeLocked now s h = (s0, Some e)"
      using assms(1) by (cases "liveCodeLocked now s h") (auto simp: compares_wrong_def split: option.splits)
    then have "code_step x s = map_prod id RVerify (wrong_code tok s0 h e m)"
      using assms(1) login by (auto simp: compares_wrong_def VerifyLogin_def Let_def)
    then show ?thesis using assms l login wrong_code_charged[of _ s0 h e m]
      by (cases tok; cases "wrong_code tok s0 h e m") (fastforce simp: compares_wrong_def wrong_guess_def)+
  next
    case scoped
    then obtain s0 e where l: "liveCodeLocked now s h = (s0, Some e)"
      using assms(1) by (cases "liveCodeLocked now s h") (auto simp: compares_wrong_def split: option.splits)
    then have "code_step x s = map_prod id RVerify (wrong_code tok s0 h e m)"
      using assms(1) scoped by (auto simp: compares_wrong_def VerifyScoped_def Let_def)
    then show ?thesis using assms l scoped wrong_code_charged[of _ s0 h e m]
      by (cases tok; cases "wrong_code tok s0 h e m") (fastforce simp: compares_wrong_def wrong_guess_def)+
  qed
qed

lemma compared_bound:
  "compared h xs s \<le> length (filter (wrong_guess h) (snd (code_run xs s))) + length (filter (draw_fails h) xs)"
proof (induction xs arbitrary: s)
  case (Cons x xs)
  obtain s' r where e: "code_step x s = (s', r)" by (cases "code_step x s")
  show ?case using Cons.IH[of s'] compares_charged[OF _ e, of h] unfolding code_run_Cons[OF e]
    by (cases "compares_wrong h x s") (auto simp: e)
qed simp

text \<open>
  C33: A verification code is single use and cannot be guessed at will: from the moment it is stored,
  as long as no new code is written under its hash, among all concurrent calls at most one reports it
  accepted, at most one claims it (signs in with it, signs up with it, takes it to resend or cancel
  it, deletes it by its revision), and the number of wrong codes that are compared with it, whatever the
  answer, is at most what the record's attempt limit leaves, but at least one, plus the number of
  verifications whose revision token cannot be drawn, which compare without charging an attempt; the
  default limits of the calls count up to d.
\<close>

theorem login_code_single_use:
  assumes "list_all (\<lambda>x. \<not> issues h x \<and> default_within d x) xs"
    and "s = fst (Code_Set now (Some tok) s0 h c ttl)" and "rs = snd (code_run xs s)"
  shows "length (filter (accepted h) rs) \<le> 1 \<and> length (filter (claimed h) rs) \<le> 1 \<and>
    int (compared h xs s) \<le> max 1 (attempt_limit c d - pc_Attempts c) + int (length (filter (draw_fails h) xs))"
proof -
  have e: "cs_m s h = Some \<lparr>ce_code = c\<lparr>pc_Revision := tok\<rparr>, ce_expires = now + ttl\<rparr>"
    using assms(2) by (simp add: Code_Set_def Let_def)
  then have b: "length (filter (accepted h) rs) \<le> 1 \<and> length (filter (claimed h) rs) \<le> 1 \<and>
      int (length (filter (wrong_guess h) rs)) \<le> max 1 (attempt_limit c d - pc_Attempts c)"
    using spends_run[OF assms(1), of s] assms(3)
    by (auto simp: may_accept_def may_claim_def may_guess_def split: if_splits)
  moreover have "int (compared h xs s) \<le> int (length (filter (wrong_guess h) rs)) + int (length (filter (draw_fails h) xs))"
    using compared_bound[of h xs s] unfolding assms(3) by (simp flip: of_nat_add)
  ultimately show ?thesis by linarith
qed

section \<open>The right code is accepted\<close>

text \<open>A pending code: stored with its limit not reached, and not in the index.\<close>

definition pending :: "code_store \<Rightarrow> string \<Rightarrow> phone_code \<Rightarrow> int \<Rightarrow> int \<Rightarrow> bool" where
  "pending s h c exp k \<longleftrightarrow>
     (\<exists>a t. cs_m s h = Some \<lparr>ce_code = c\<lparr>pc_Attempts := a, pc_Revision := t\<rparr>, ce_expires = exp\<rparr> \<and> a \<le> k) \<and>
     (\<forall>sc. cs_scopes s sc \<noteq> Some h)"

definition login_code :: "phone_code \<Rightarrow> bool" where
  "login_code c \<longleftrightarrow> pc_Version c = PhoneCodeVersionCurrent \<and> pc_Purpose c = [] \<and>
     LoginCodeChannelVerifiable (pc_Channel c) \<and> \<not> pc_SignUpVerified c \<and> pc_Code c \<noteq> []"

lemma scopes_delete: "cs_scopes (deleteCodeLocked s h c) sc = Some h' \<Longrightarrow> cs_scopes s sc = Some h'"
  by (auto simp: deleteCodeLocked_def split: if_splits)

lemma scopes_live: "liveCodeLocked now s h = (s', eo) \<Longrightarrow> cs_scopes s' sc = Some h' \<Longrightarrow> cs_scopes s sc = Some h'"
  by (auto elim!: liveCodeLocked_cases dest: scopes_delete)

lemma scopes_put [simp]: "cs_scopes (put_code s h e) = cs_scopes s"
  by (simp add: put_code_def)

lemma scopes_wrong: "cs_scopes (fst (wrong_code tok s h e m)) sc = Some h' \<Longrightarrow> cs_scopes s sc = Some h'"
  by (auto simp: wrong_code_def Let_def dest: scopes_delete split: option.splits if_splits)

lemma scopes_drop: "cs_scopes (drop_scope s h sc') sc = Some h' \<Longrightarrow> cs_scopes s sc = Some h'"
  by (auto simp: drop_scope_def split: if_splits)

lemma scopes_ops:
  "cs_scopes (fst (take_code ok now s h)) sc = Some h' \<Longrightarrow> cs_scopes s sc = Some h'"
  "cs_scopes (fst (VerifyLogin now tok s h p c k m)) sc = Some h' \<Longrightarrow> cs_scopes s sc = Some h'"
  "cs_scopes (fst (VerifyScoped now tok s h sc' c m)) sc = Some h' \<Longrightarrow> cs_scopes s sc = Some h'"
  "cs_scopes (fst (GetSnapshot now s h)) sc = Some h' \<Longrightarrow> cs_scopes s sc = Some h'"
  "cs_scopes (fst (CompareAndUpdate now tok s h er nxt)) sc = Some h' \<Longrightarrow> cs_scopes s sc = Some h'"
  "cs_scopes (fst (CompareAndDelete now s h er)) sc = Some h' \<Longrightarrow> cs_scopes s sc = Some h'"
proof -
  obtain s0 eo where l: "liveCodeLocked now s h = (s0, eo)" by (cases "liveCodeLocked now s h")
  note rules = scopes_live[OF l] scopes_live[OF l scopes_delete] scopes_live[OF l scopes_wrong]
    scopes_live[OF l scopes_drop] scopes_live[OF l scopes_delete[OF scopes_drop]]
  show "cs_scopes (fst (take_code ok now s h)) sc = Some h' \<Longrightarrow> cs_scopes s sc = Some h'"
    by (simp add: take_code_def l split: option.splits if_splits) (metis rules)+
  show "cs_scopes (fst (VerifyLogin now tok s h p c k m)) sc = Some h' \<Longrightarrow> cs_scopes s sc = Some h'"
    by (simp add: VerifyLogin_def Let_def l split: option.splits if_splits) (metis rules)+
  show "cs_scopes (fst (VerifyScoped now tok s h sc' c m)) sc = Some h' \<Longrightarrow> cs_scopes s sc = Some h'"
    by (simp add: VerifyScoped_def Let_def l split: option.splits if_splits) (metis rules)+
  show "cs_scopes (fst (GetSnapshot now s h)) sc = Some h' \<Longrightarrow> cs_scopes s sc = Some h'"
    by (simp add: GetSnapshot_def l split: option.splits if_splits) (metis rules)+
  show "cs_scopes (fst (CompareAndUpdate now tok s h er nxt)) sc = Some h' \<Longrightarrow> cs_scopes s sc = Some h'"
    by (simp add: CompareAndUpdate_def l split: option.splits if_splits) (metis rules)+
  show "cs_scopes (fst (CompareAndDelete now s h er)) sc = Some h' \<Longrightarrow> cs_scopes s sc = Some h'"
    by (simp add: CompareAndDelete_def l split: option.splits if_splits) (metis rules)+
qed

lemma scopes_step:
  "cs_scopes (fst (code_step x s)) sc = Some h \<Longrightarrow> cs_scopes s sc = Some h \<or> op_hash x = h"
proof (induction x s rule: code_step.induct)
  case (1 now tok h' c ttl s)
  then show ?case by (auto simp: Code_Set_def Let_def split: option.splits if_splits)
next
  case (4 now h' sc' s)
  then show ?case
    by (auto simp: ConsumeScoped_def Let_def dest: scopes_delete split: option.splits if_splits)
qed (auto simp: Code_Get_def Code_Del_def ConsumeSignUpVerified_def TakeLoginCode_def InvalidateLoginCode_def split_beta
    dest: scopes_ops scopes_delete split: option.splits if_splits)

text \<open>A call that leaves the code pending: on another hash, or a wrong guess before it expires.\<close>

fun harmless :: "string \<Rightarrow> phone_code \<Rightarrow> int \<Rightarrow> code_op \<Rightarrow> bool" where
  "harmless h c exp (OpVerifyLogin now tok h' p g k m) = (h' \<noteq> h \<or> now \<le> exp \<and> g \<noteq> pc_Code c)"
| "harmless h c exp x = (op_hash x \<noteq> h)"

lemma pending_elsewhere:
  assumes "pending s h c exp k" and "op_hash x \<noteq> h"
  shows "pending (fst (code_step x s)) h c exp k"
  using assms step_elsewhere[OF assms(2), of s] scopes_step[of x s _ h] unfolding pending_def by metis

lemma pending_mono: "pending s h c exp k \<Longrightarrow> k \<le> k' \<Longrightarrow> pending s h c exp k'"
  unfolding pending_def by (meson order_trans)

lemma pending_guess:
  assumes p: "pending s h c exp k" and c: "login_code c" and "now \<le> exp" and g: "g \<noteq> pc_Code c"
    and m: "0 < pc_MaxAttempts c" "k + 1 < pc_MaxAttempts c"
  shows "pending (fst (VerifyLogin now tok s h ph g keep d)) h c exp (k + 1)"
proof -
  obtain a t where e: "cs_m s h = Some \<lparr>ce_code = c\<lparr>pc_Attempts := a, pc_Revision := t\<rparr>, ce_expires = exp\<rparr>" (is "_ = Some ?e")
      and "a \<le> k" using p unfolding pending_def by blast
  have l: "liveCodeLocked now s h = (s, Some ?e)" using e \<open>now \<le> exp\<close> by (simp add: liveCodeLocked_def)
  show ?thesis
  proof (cases "pc_Phone c = ph \<and> g \<noteq> []")
    case False
    then have "fst (VerifyLogin now tok s h ph g keep d) = s"
      using c by (auto simp: VerifyLogin_def l login_code_def Let_def)
    then show ?thesis using pending_mono[OF p, of "k + 1"] by simp
  next
    case True
    then have v: "fst (VerifyLogin now tok s h ph g keep d) = fst (wrong_code tok s h ?e d)"
      using c g by (auto simp: VerifyLogin_def l login_code_def Let_def)
    have w: "fst (wrong_code tok s h ?e d) = (case tok of None \<Rightarrow> s
        | Some t \<Rightarrow> put_code s h (?e\<lparr>ce_code := (ce_code ?e)\<lparr>pc_Attempts := a + 1, pc_Revision := t\<rparr>\<rparr>))"
      using m \<open>a \<le> k\<close> by (auto simp: wrong_code_def Let_def attempt_limit_def split: option.split)
    show ?thesis unfolding v w using p \<open>a \<le> k\<close> pending_mono[OF p, of "k + 1"]
      by (auto simp: pending_def split: option.split)
  qed
qed

lemma pending_run:
  assumes "login_code c" and "0 < pc_MaxAttempts c"
  shows "pending s h c exp k \<Longrightarrow> list_all (harmless h c exp) xs \<Longrightarrow>
    k + int (length (filter (\<lambda>x. op_hash x = h) xs)) < pc_MaxAttempts c \<Longrightarrow>
    pending (fst (code_run xs s)) h c exp (k + int (length (filter (\<lambda>x. op_hash x = h) xs)))"
proof (induction xs arbitrary: s k)
  case (Cons x xs)
  obtain s' r where e: "code_step x s = (s', r)" by (cases "code_step x s")
  have "pending s' h c exp (k + of_bool (op_hash x = h))"
  proof (cases "op_hash x = h")
    case False
    then show ?thesis using pending_elsewhere[OF Cons.prems(1) False] e by simp
  next
    case True
    then obtain now tok p g k' m where x: "x = OpVerifyLogin now tok h p g k' m" "now \<le> exp" "g \<noteq> pc_Code c"
      using Cons.prems(2) by (cases x) auto
    have "k + 1 < pc_MaxAttempts c" using Cons.prems(3) True by simp
    then have "pending (fst (VerifyLogin now tok s h p g k' m)) h c exp (k + 1)"
      using pending_guess[OF Cons.prems(1) assms(1) x(2,3) assms(2)] by blast
    then show ?thesis using True e x by (cases "VerifyLogin now tok s h p g k' m") auto
  qed
  then show ?case using Cons.IH[of s' "k + of_bool (op_hash x = h)"] Cons.prems unfolding code_run_Cons[OF e]
    by (auto simp: of_bool_def add.assoc split: if_splits)
qed simp

text \<open>
  C34: The right code works: after a login code is stored under a fresh hash, and after any calls about
  other codes and fewer wrong attempts than the code allows, the call that presents the phone and the
  code before the expiry is accepted and consumes the code; and where it keeps the code for a sign-up,
  one call of the sign-up consumes it.
\<close>

theorem login_code_accepted:
  assumes "s = fst (Code_Set t0 (Some tok) s0 h c ttl)" and "\<forall>sc. cs_scopes s0 sc \<noteq> Some h"
    and "login_code c" and "pc_Attempts c = 0" and "0 < pc_MaxAttempts c"
    and "list_all (harmless h c (t0 + ttl)) xs"
    and "int (length (filter (\<lambda>x. op_hash x = h) xs)) < pc_MaxAttempts c"
    and "s1 = fst (code_run xs s)" and "t1 \<le> t0 + ttl" and "t2 \<le> t0 + ttl"
  shows "(\<exists>s2 v. VerifyLogin t1 tok1 s1 h (pc_Phone c) (pc_Code c) False d = (s2, Inr v) \<and>
      vr_Status v = LoginCodeVerifyAccepted \<and> pc_IssuedUserID (vr_Record v) = pc_IssuedUserID c \<and> cs_m s2 h = None) \<and>
    (pc_IssuedUserID c = 0 \<longrightarrow>
      (\<exists>s2 v s3 c'. VerifyLogin t1 (Some tok2) s1 h (pc_Phone c) (pc_Code c) True d = (s2, Inr v) \<and>
        vr_Status v = LoginCodeVerifyAccepted \<and>
        ConsumeSignUpVerified t2 s2 h (pc_Phone c) = (s3, Some c') \<and> pc_Phone c' = pc_Phone c \<and> cs_m s3 h = None))"
proof -
  have "\<not> Scope_Valid (Scope (c\<lparr>pc_Revision := tok\<rparr>))"
    using assms(3) by (simp add: login_code_def Scope_Valid_def Scope_def)
  then have s: "s = put_code s0 h \<lparr>ce_code = c\<lparr>pc_Revision := tok\<rparr>, ce_expires = t0 + ttl\<rparr>"
    using assms(1) by (simp add: Code_Set_def Let_def)
  moreover have "c\<lparr>pc_Revision := tok\<rparr> = c\<lparr>pc_Attempts := 0, pc_Revision := tok\<rparr>" using assms(4) by simp
  ultimately have "pending s h c (t0 + ttl) 0"
    using assms(2) unfolding pending_def by (metis cs_m_put fun_upd_same order_refl scopes_put)
  then have "pending s1 h c (t0 + ttl) (int (length (filter (\<lambda>x. op_hash x = h) xs)))"
    using pending_run[OF assms(3,5), of s h "t0 + ttl" 0 xs] assms(6-8) by simp
  then obtain a t where e: "cs_m s1 h = Some \<lparr>ce_code = c\<lparr>pc_Attempts := a, pc_Revision := t\<rparr>, ce_expires = t0 + ttl\<rparr>"
      (is "_ = Some ?e") unfolding pending_def by blast
  have l: "liveCodeLocked t1 s1 h = (s1, Some ?e)" using e assms(9) by (simp add: liveCodeLocked_def)
  have 1: "\<exists>s2 v. VerifyLogin t1 tok1 s1 h (pc_Phone c) (pc_Code c) False d = (s2, Inr v) \<and>
      vr_Status v = LoginCodeVerifyAccepted \<and> pc_IssuedUserID (vr_Record v) = pc_IssuedUserID c \<and> cs_m s2 h = None"
    using assms(3) by (simp add: VerifyLogin_def l Let_def login_code_def)
  let ?c = "c\<lparr>pc_Attempts := a, pc_SignUpVerified := True, pc_Revision := tok2\<rparr>"
  let ?s = "put_code s1 h \<lparr>ce_code = ?c, ce_expires = t0 + ttl\<rparr>"
  have "VerifyLogin t1 (Some tok2) s1 h (pc_Phone c) (pc_Code c) True d =
      (?s, Inr \<lparr>vr_Status = LoginCodeVerifyAccepted, vr_Record = ?c\<rparr>)" if "pc_IssuedUserID c = 0"
    using assms(3) that by (simp add: VerifyLogin_def l Let_def login_code_def)
  moreover have "ConsumeSignUpVerified t2 ?s h (pc_Phone c) = (deleteCodeLocked ?s h ?c, Some ?c)" if "pc_IssuedUserID c = 0"
    using assms(3,10) that by (simp add: ConsumeSignUpVerified_def take_code_def liveCodeLocked_def login_code_def)
  ultimately show ?thesis using 1 by fastforce
qed

section \<open>Examples\<close>

definition example_code :: phone_code where
  "example_code = zero_code\<lparr>pc_Version := PhoneCodeVersionCurrent, pc_Phone := ''15550001'', pc_Code := ''12345'',
     pc_Channel := PhoneCodeChannelPhone, pc_MaxAttempts := 3\<rparr>"

definition example_scoped :: phone_code where
  "example_scoped = example_code\<lparr>pc_Purpose := ''change_phone'', pc_UserID := 7, pc_AuthKeyID := 9\<rparr>"

definition scoped_ops :: "code_op list" where
  "scoped_ops = [OpSet 0 (Some ''r1'') ''h1'' example_scoped 100, OpSet 5 (Some ''r2'') ''h2'' example_scoped 100]"

theorem scope_index_exact_witness:
  "cs_m (fst (code_run scoped_ops NewCodeStore)) ''h1'' = None \<and>
   cs_scopes (fst (code_run scoped_ops NewCodeStore)) (Scope example_scoped) = Some ''h2''"
proof -
  let ?s = "fst (code_run scoped_ops NewCodeStore)"
  let ?e = "\<lparr>ce_code = example_scoped\<lparr>pc_Revision := ''r2''\<rparr>, ce_expires = 105\<rparr>"
  have e: "cs_m ?s ''h2'' = Some ?e" "cs_m ?s ''h1'' = None"
    by (simp_all add: scoped_ops_def Code_Set_def Let_def put_code_def NewCodeStore_def Scope_Valid_def Scope_def
        example_scoped_def example_code_def)
  have v: "Scope_Valid (Scope (ce_code ?e))" "Scope (ce_code ?e) = Scope example_scoped"
    by (simp_all add: Scope_Valid_def Scope_def example_scoped_def example_code_def)
  from scope_index_exact[OF refl e(1) v(1)] show ?thesis unfolding v(2) using e(2) by blast
qed

definition guess_ops :: "code_op list" where
  "guess_ops = [OpVerifyLogin 1 (Some ''a'') ''h'' ''15550001'' ''00000'' False 5,
     OpVerifyLogin 2 (Some ''b'') ''h'' ''15550001'' ''00001'' False 5]"

text \<open>
  Six wrong codes against a limit of three, after one whose token draw fails: four of the seven are
  compared with the record before it is gone.
\<close>

definition flood_ops :: "code_op list" where
  "flood_ops = OpVerifyLogin 1 None ''h'' ''15550001'' ''00000'' False 5 # guess_ops @ guess_ops @ guess_ops"

theorem login_code_single_use_witness:
  "let s = fst (Code_Set 0 (Some ''r'') NewCodeStore ''h'' example_code 100); rs = snd (code_run flood_ops s)
   in compared ''h'' flood_ops s = 4 \<and> length (filter (accepted ''h'') rs) \<le> 1 \<and> length (filter (claimed ''h'') rs) \<le> 1 \<and>
     int (compared ''h'' flood_ops s) \<le> max 1 (attempt_limit example_code 5 - pc_Attempts example_code) + 1"
proof -
  let ?s = "fst (Code_Set 0 (Some ''r'') NewCodeStore ''h'' example_code 100)"
  have "list_all (\<lambda>x. \<not> issues ''h'' x \<and> default_within 5 x) flood_ops" by code_simp
  moreover have "compared ''h'' flood_ops ?s = 4" "length (filter (draw_fails ''h'') flood_ops) = 1" by code_simp+
  ultimately show ?thesis
    using login_code_single_use[of "''h''" 5 flood_ops ?s 0 "''r''" NewCodeStore example_code 100] by (simp add: Let_def)
qed

theorem login_code_accepted_witness:
  "let s = fst (Code_Set 0 (Some ''r'') NewCodeStore ''h'' example_code 100)
   in \<exists>s2 v. VerifyLogin 50 None (fst (code_run guess_ops s)) ''h'' ''15550001'' ''12345'' False 5 = (s2, Inr v) \<and>
     vr_Status v = LoginCodeVerifyAccepted"
proof -
  have c: "login_code example_code" "pc_Attempts example_code = 0" "0 < pc_MaxAttempts example_code"
    "list_all (harmless ''h'' example_code (0 + 100)) guess_ops"
    "int (length (filter (\<lambda>x. op_hash x = ''h'') guess_ops)) < pc_MaxAttempts example_code"
    "pc_Phone example_code = ''15550001''" "pc_Code example_code = ''12345''"
    by code_simp+
  have "\<forall>sc. cs_scopes NewCodeStore sc \<noteq> Some ''h''" by (simp add: NewCodeStore_def)
  from login_code_accepted[OF refl this c(1-5) refl, where tok = "''r''" and ?t1.0 = 50 and ?t2.0 = 50
      and ?tok1.0 = None and d = 5] c(6,7)
  show ?thesis by (simp add: Let_def) blast
qed

end
