(* ===== verification/Auth_Keys.thy ===== *)
theory Auth_Keys
  imports Go_Codec
begin

text \<open>
  Auth keys, temporary key bindings, session layers and authorizations:
  \<open>internal/store/authkey.go\<close>, \<open>authkey_session_layer.go\<close> and the in-memory stores of
  \<open>internal/store/memory/auth.go\<close> and \<open>authkey_session_layer.go\<close>. The three stores share one state
  behind a mutex; the authorization store is linked to it and mirrors the protocol layer of its keys.
  One authorization store is modelled, linked or not (\<open>ak_linked\<close>), as the server composes them.

  An auth key id is a 64-bit word; the \<open>int64\<close> that names a permanent key in a binding is the same
  64 bits in little-endian order, so it is a word too, and so is the hash of an authorization. Times
  are nanoseconds, except the protocol expiry of a key, which is in seconds. The order in which a loop
  over a map meets its keys is an argument.
\<close>

section \<open>Data\<close>

datatype auth_error =
  ErrInvalidAuthKeyProtocolExpiry | ErrAuthKeyProtocolMetadataConflict | ErrAuthKeyNotFound
| ErrAuthKeySessionLayerConflict | ErrAuthKeySessionLayerInvalid | ErrTempAuthKeyAlreadyBound
| ErrAuthKeyBindingInvalid | ErrAuthKeyNotPermanent | ErrAuthorizationStateChanged

record auth_key =
  k_ID :: authkey
  k_Value :: bytes
  k_ServerSalt :: int
  k_CreatedAt :: int
  k_ExpiresAt :: int
  k_Layer :: int
  k_LayerObservationID :: int
  k_DeviceModel :: string
  k_Platform :: string
  k_SystemVersion :: string
  k_APIID :: int
  k_AppVersion :: string

record client_info =
  ci_Layer :: int
  ci_DeviceModel :: string
  ci_Platform :: string
  ci_SystemVersion :: string
  ci_APIID :: int
  ci_AppVersion :: string
  ci_IP :: string

record binding =
  b_TempAuthKeyID :: authkey
  b_PermAuthKeyID :: "64 word"
  b_Nonce :: int
  b_TempSessionID :: sessionid
  b_ExpiresAt :: int
  b_EncryptedMessage :: bytes

record session_layer =
  sl_Layer :: int
  sl_MessageID :: int
  sl_ObservationID :: int
  sl_ExpiresAt :: int
  sl_SharedDefault :: bool

definition zero_layer :: session_layer where
  "zero_layer = \<lparr>sl_Layer = 0, sl_MessageID = 0, sl_ObservationID = 0, sl_ExpiresAt = 0, sl_SharedDefault = False\<rparr>"

record authorization =
  a_AuthKeyID :: authkey
  a_UserID :: userid
  a_Hash :: "64 word"
  a_Layer :: int
  a_DeviceModel :: string
  a_Platform :: string
  a_SystemVersion :: string
  a_APIID :: int
  a_AppVersion :: string
  a_IP :: string
  a_PasswordPending :: bool
  a_CreatedAt :: int
  a_ActiveAt :: int

record auth_state =
  ak_keys :: "authkey \<rightharpoonup> auth_key"
  ak_bindings :: "authkey \<rightharpoonup> binding"
  ak_layers :: "authkey \<times> sessionid \<rightharpoonup> session_layer"
  ak_next :: int
  ak_linked :: bool
  ak_auths :: "authkey \<rightharpoonup> authorization"

definition NewAuthState :: auth_state where
  "NewAuthState = \<lparr>ak_keys = Map.empty, ak_bindings = Map.empty, ak_layers = Map.empty, ak_next = 0,
     ak_linked = False, ak_auths = Map.empty\<rparr>"

definition ValidNewAuthKeyProtocolExpiry :: "int \<Rightarrow> bool" where
  "ValidNewAuthKeyProtocolExpiry expiresAt \<longleftrightarrow> 0 \<le> expiresAt \<and> expiresAt \<le> 2147483647"

definition MergeAuthKeyLayerObservations :: "int \<Rightarrow> int \<Rightarrow> int \<Rightarrow> int \<Rightarrow> auth_error + int \<times> int" where
  "MergeAuthKeyLayerObservations tempLayer tempObs permLayer permObs =
    (if tempLayer < 0 \<or> permLayer < 0 \<or> tempObs < 0 \<or> permObs < 0 \<or>
        (tempObs > 0 \<and> tempLayer = 0) \<or> (permObs > 0 \<and> permLayer = 0)
     then Inl ErrAuthKeySessionLayerInvalid
     else if tempObs > permObs then Inr (tempLayer, tempObs)
     else if permObs > tempObs then Inr (permLayer, permObs)
     else if tempObs > 0 \<and> tempLayer \<noteq> permLayer then Inl ErrAuthKeySessionLayerConflict
     else if tempObs > 0 then Inr (tempLayer, tempObs)
     else Inr (permLayer, 0))"

section \<open>Mirrored authorizations\<close>

definition mirrorAuthorizationLayersLocked :: "auth_state \<Rightarrow> authkey list \<Rightarrow> int \<Rightarrow> auth_state" where
  "mirrorAuthorizationLayersLocked s ids layer =
    (if ak_linked s
     then s\<lparr>ak_auths := (\<lambda>i. if i \<in> set ids then map_option (\<lambda>a. a\<lparr>a_Layer := layer\<rparr>) (ak_auths s i) else ak_auths s i)\<rparr>
     else s)"

text \<open>The deleted ids are only looked up, so they are a predicate.\<close>

definition deleteAuthorizationMirrorsLocked :: "auth_state \<Rightarrow> (authkey \<Rightarrow> bool) \<Rightarrow> auth_state" where
  "deleteAuthorizationMirrorsLocked s deleted =
    (if ak_linked s then s\<lparr>ak_auths := (\<lambda>i. if deleted i then None else ak_auths s i)\<rparr> else s)"

definition deleteSessionLayersLocked :: "auth_state \<Rightarrow> authkey \<Rightarrow> auth_state" where
  "deleteSessionLayersLocked s raw = s\<lparr>ak_layers := (\<lambda>(k, n). if k = raw then None else ak_layers s (k, n))\<rparr>"

section \<open>Auth keys\<close>

definition Key_Save :: "auth_state \<Rightarrow> auth_key \<Rightarrow> auth_state \<times> auth_error option" where
  "Key_Save s k =
    (if \<not> ValidNewAuthKeyProtocolExpiry (k_ExpiresAt k) then (s, Some ErrInvalidAuthKeyProtocolExpiry)
     else
       let write = (\<lambda>k.
         let s = mirrorAuthorizationLayersLocked (s\<lparr>ak_keys := (ak_keys s)(k_ID k \<mapsto> k)\<rparr>) [k_ID k] (k_Layer k)
         in if k_LayerObservationID k > ak_next s then s\<lparr>ak_next := k_LayerObservationID k\<rparr> else s)
       in case ak_keys s (k_ID k) of
            None \<Rightarrow> (write k, None)
          | Some current \<Rightarrow>
              if k_Value current \<noteq> k_Value k \<or> k_ExpiresAt current \<noteq> k_ExpiresAt k
              then (s, Some ErrAuthKeyProtocolMetadataConflict)
              else (write (k\<lparr>k_CreatedAt := (if k_CreatedAt k = 0 then k_CreatedAt current else k_CreatedAt k),
                  k_Layer := k_Layer current, k_LayerObservationID := k_LayerObservationID current,
                  k_DeviceModel := k_DeviceModel current, k_Platform := k_Platform current,
                  k_SystemVersion := k_SystemVersion current, k_APIID := k_APIID current,
                  k_AppVersion := k_AppVersion current\<rparr>), None))"

definition Key_Get :: "auth_state \<Rightarrow> authkey \<Rightarrow> auth_key option" where
  "Key_Get s i = ak_keys s i"

definition LoadBindingKeys :: "auth_state \<Rightarrow> authkey \<Rightarrow> authkey \<Rightarrow> auth_key option \<times> auth_key option" where
  "LoadBindingKeys s tempID permID = (ak_keys s tempID, ak_keys s permID)"

definition mergeAuthKeyClientInfo :: "auth_key \<Rightarrow> client_info \<Rightarrow> auth_key" where
  "mergeAuthKeyClientInfo k info =
    k\<lparr>k_Layer := (if ci_Layer info > 0 then ci_Layer info else k_Layer k),
      k_DeviceModel := (if ci_DeviceModel info \<noteq> [] then ci_DeviceModel info else k_DeviceModel k),
      k_Platform := (if ci_Platform info \<noteq> [] then ci_Platform info else k_Platform k),
      k_SystemVersion := (if ci_SystemVersion info \<noteq> [] then ci_SystemVersion info else k_SystemVersion k),
      k_APIID := (if ci_APIID info \<noteq> 0 then ci_APIID info else k_APIID k),
      k_AppVersion := (if ci_AppVersion info \<noteq> [] then ci_AppVersion info else k_AppVersion k)\<rparr>"

definition Key_UpdateClientInfo :: "auth_state \<Rightarrow> authkey \<Rightarrow> client_info \<Rightarrow> auth_state \<times> auth_error option" where
  "Key_UpdateClientInfo s i info =
    (case ak_keys s i of
       None \<Rightarrow> (s, Some ErrAuthKeyNotFound)
     | Some k \<Rightarrow>
         if ci_Layer info > 0 \<and> k_LayerObservationID k > 0 \<and> ci_Layer info \<noteq> k_Layer k
         then (s, Some ErrAuthKeySessionLayerConflict)
         else let k = mergeAuthKeyClientInfo k info
              in (mirrorAuthorizationLayersLocked (s\<lparr>ak_keys := (ak_keys s)(i \<mapsto> k)\<rparr>) [i] (k_Layer k), None))"

text \<open>
  Deleting a permanent key deletes the temporary keys bound to it, whatever the order in which the
  loop meets the bindings.
\<close>

definition bound_temp :: "auth_state \<Rightarrow> authkey \<Rightarrow> authkey \<Rightarrow> bool" where
  "bound_temp s permID tempID = (case ak_bindings s tempID of None \<Rightarrow> False | Some b \<Rightarrow> b_PermAuthKeyID b = permID)"

definition forget_keys :: "auth_state \<Rightarrow> (authkey \<Rightarrow> bool) \<Rightarrow> auth_state" where
  "forget_keys s gone =
    s\<lparr>ak_keys := (\<lambda>i. if gone i then None else ak_keys s i),
      ak_bindings := (\<lambda>i. if gone i then None else ak_bindings s i),
      ak_layers := (\<lambda>(i, n). if gone i then None else ak_layers s (i, n))\<rparr>"

definition deleteProtocolAuthKeyLocked :: "auth_state \<Rightarrow> authkey \<Rightarrow> auth_state \<times> (authkey \<Rightarrow> bool)" where
  "deleteProtocolAuthKeyLocked s i =
    (case ak_keys s i of
       None \<Rightarrow> (s, \<lambda>_. False)
     | Some deleting \<Rightarrow>
         if k_ExpiresAt deleting > 0 then (forget_keys s (\<lambda>j. j = i), \<lambda>j. j = i)
         else
           let s' = forget_keys s (bound_temp s i)
           in (deleteSessionLayersLocked (s'\<lparr>ak_keys := (ak_keys s')(i := None)\<rparr>) i, \<lambda>j. bound_temp s i j \<or> j = i))"

definition Key_Delete :: "auth_state \<Rightarrow> authkey \<Rightarrow> auth_state" where
  "Key_Delete s i =
    (case deleteProtocolAuthKeyLocked s i of (s, deleted) \<Rightarrow> deleteAuthorizationMirrorsLocked s deleted)"

section \<open>Temporary key bindings\<close>

definition SaveWithState :: "auth_state \<Rightarrow> binding \<Rightarrow> auth_state \<times> (auth_error + int \<times> int)" where
  "SaveWithState s b =
    (let already = (case ak_bindings s (b_TempAuthKeyID b) of
         None \<Rightarrow> False | Some current \<Rightarrow> b_PermAuthKeyID current \<noteq> b_PermAuthKeyID b)
     in if already then (s, Inl ErrTempAuthKeyAlreadyBound)
        else case (ak_keys s (b_TempAuthKeyID b), ak_keys s (b_PermAuthKeyID b)) of
          (Some tmp, Some perm) \<Rightarrow>
            if k_ExpiresAt tmp \<le> 0 \<or> k_ExpiresAt perm \<noteq> 0 \<or> b_ExpiresAt b \<noteq> k_ExpiresAt tmp
            then (s, Inl ErrAuthKeyBindingInvalid)
            else (case MergeAuthKeyLayerObservations (k_Layer tmp) (k_LayerObservationID tmp)
                (k_Layer perm) (k_LayerObservationID perm) of
               Inl e \<Rightarrow> (s, Inl e)
             | Inr (layer, obs) \<Rightarrow>
                 (mirrorAuthorizationLayersLocked
                    (s\<lparr>ak_keys := (ak_keys s)
                        (b_TempAuthKeyID b \<mapsto> tmp\<lparr>k_Layer := layer, k_LayerObservationID := obs\<rparr>,
                         b_PermAuthKeyID b \<mapsto> perm\<lparr>k_Layer := layer, k_LayerObservationID := obs\<rparr>),
                      ak_bindings := (ak_bindings s)(b_TempAuthKeyID b \<mapsto> b)\<rparr>)
                    [b_TempAuthKeyID b, b_PermAuthKeyID b] layer,
                  Inr (layer, obs)))
        | _ \<Rightarrow> (s, Inl ErrAuthKeyBindingInvalid))"

definition GetByTemp :: "auth_state \<Rightarrow> authkey \<Rightarrow> binding option" where
  "GetByTemp s tempAuthKeyID = ak_bindings s tempAuthKeyID"

fun delete_expired :: "int \<Rightarrow> int \<Rightarrow> authkey list \<Rightarrow> auth_state \<times> int \<Rightarrow> auth_state \<times> int" where
  "delete_expired expiredBefore limit [] r = r"
| "delete_expired expiredBefore limit (i # order) (s, deleted) =
     (if deleted \<ge> limit then (s, deleted)
      else case ak_keys s i of
        None \<Rightarrow> delete_expired expiredBefore limit order (s, deleted)
      | Some key \<Rightarrow>
          if k_ExpiresAt key \<le> 0 \<or> k_ExpiresAt key \<ge> expiredBefore
          then delete_expired expiredBefore limit order (s, deleted)
          else delete_expired expiredBefore limit order
            (deleteAuthorizationMirrorsLocked (forget_keys s (\<lambda>j. j = i)) (\<lambda>j. j = i), deleted + 1))"

definition DeleteExpired :: "authkey list \<Rightarrow> auth_state \<Rightarrow> int \<Rightarrow> int \<Rightarrow> auth_state \<times> int" where
  "DeleteExpired order s expiredBefore limit =
    (if limit \<le> 0 then (s, 0) else delete_expired expiredBefore limit order (s, 0))"

section \<open>Session layers\<close>

definition second :: int where
  "second = 1000000000"

text \<open>
  A message id carries its creation time: seconds in the upper half, and in the lower half a number
  that the code reads as signed nanoseconds.
\<close>

definition AuthKeySessionLayerExpiry :: "int \<Rightarrow> int option" where
  "AuthKeySessionLayerExpiry msgID =
    (if msgID \<le> 0 \<or> msgID mod 4 \<noteq> 0 \<or> msgID mod 2 ^ 32 = 0 then None
     else Some ((msgID div 2 ^ 32) * second + signed_take_bit 31 msgID + 301 * second))"

definition AuthKeySessionLayerEvidenceFresh :: "int \<Rightarrow> int \<Rightarrow> int option" where
  "AuthKeySessionLayerEvidenceFresh now msgID =
    (case AuthKeySessionLayerExpiry msgID of
       None \<Rightarrow> None
     | Some expiresAt \<Rightarrow>
         if \<not> now < expiresAt then None
         else if expiresAt - 301 * second > now + 30 * second then None
         else Some expiresAt)"

definition sessionLayerIsSharedDefaultLocked :: "auth_state \<Rightarrow> authkey \<Rightarrow> session_layer \<Rightarrow> bool" where
  "sessionLayerIsSharedDefaultLocked s raw v =
    (let defaultKeyID = (case ak_bindings s raw of None \<Rightarrow> raw | Some b \<Rightarrow> b_PermAuthKeyID b)
     in case ak_keys s defaultKeyID of
          None \<Rightarrow> False
        | Some key \<Rightarrow> k_Layer key = sl_Layer v \<and> k_LayerObservationID key = sl_ObservationID v)"

definition GetSessionLayer :: "int \<Rightarrow> auth_state \<Rightarrow> authkey \<Rightarrow> sessionid \<Rightarrow> auth_state \<times> session_layer option" where
  "GetSessionLayer now s raw sess =
    (case ak_layers s (raw, sess) of
       None \<Rightarrow> (s, None)
     | Some v \<Rightarrow>
         if \<not> now < sl_ExpiresAt v then (s\<lparr>ak_layers := (ak_layers s)((raw, sess) := None)\<rparr>, None)
         else (s, Some (v\<lparr>sl_SharedDefault := sessionLayerIsSharedDefaultLocked s raw v\<rparr>)))"

text \<open>The new observation, once the evidence is neither old nor a repetition of the stored layer.\<close>

definition observe_layer ::
  "auth_state \<Rightarrow> authkey \<Rightarrow> sessionid \<Rightarrow> int \<Rightarrow> int \<Rightarrow> int \<Rightarrow> authkey option \<Rightarrow>
   auth_state \<times> (auth_error + session_layer \<times> bool)" where
  "observe_layer s raw sess layer msgID expiresAt permID =
    (if ak_next s = 2 ^ 63 - 1 then (s, Inl ErrAuthKeySessionLayerInvalid)
     else
       let obs = ak_next s + 1;
           current = \<lparr>sl_Layer = layer, sl_MessageID = msgID, sl_ObservationID = obs, sl_ExpiresAt = expiresAt,
             sl_SharedDefault = False\<rparr>;
           ids = (case permID of None \<Rightarrow> [raw] | Some p \<Rightarrow> [raw, p]);
           s' = s\<lparr>ak_keys := (\<lambda>i. if i \<in> set ids
               then map_option (\<lambda>k. k\<lparr>k_Layer := layer, k_LayerObservationID := obs\<rparr>) (ak_keys s i) else ak_keys s i),
             ak_layers := (ak_layers s)((raw, sess) \<mapsto> current), ak_next := obs\<rparr>
       in (mirrorAuthorizationLayersLocked s' ids layer, Inr (current\<lparr>sl_SharedDefault := True\<rparr>, True)))"

definition AdvanceSessionLayer ::
  "int \<Rightarrow> auth_state \<Rightarrow> authkey \<Rightarrow> sessionid \<Rightarrow> int \<Rightarrow> int \<Rightarrow> auth_state \<times> (auth_error + session_layer \<times> bool)" where
  "AdvanceSessionLayer now s raw sess layer msgID =
    (case AuthKeySessionLayerEvidenceFresh now msgID of
       None \<Rightarrow> (s, Inl ErrAuthKeySessionLayerInvalid)
     | Some expiresAt \<Rightarrow>
         if layer \<le> 0 then (s, Inl ErrAuthKeySessionLayerInvalid)
         else if ak_keys s raw = None then (s, Inl ErrAuthKeyNotFound)
         else
           let live = (case ak_layers s (raw, sess) of
                 None \<Rightarrow> None | Some c \<Rightarrow> if now < sl_ExpiresAt c then Some c else None);
               stale = (case live of
                 None \<Rightarrow> None
               | Some c \<Rightarrow>
                   if msgID < sl_MessageID c then
                     Some (Inr (c\<lparr>sl_SharedDefault := sessionLayerIsSharedDefaultLocked s raw c\<rparr>, False))
                   else if msgID = sl_MessageID c then
                     if layer \<noteq> sl_Layer c then Some (Inl ErrAuthKeySessionLayerConflict)
                     else Some (Inr (c\<lparr>sl_SharedDefault := sessionLayerIsSharedDefaultLocked s raw c\<rparr>, False))
                   else None)
           in case stale of
                Some r \<Rightarrow> (s, r)
              | None \<Rightarrow>
                  let permID = map_option b_PermAuthKeyID (ak_bindings s raw)
                  in if (case permID of None \<Rightarrow> False | Some p \<Rightarrow> ak_keys s p = None)
                     then (s, Inl ErrAuthKeyBindingInvalid)
                     else case live of
                       Some c \<Rightarrow>
                         if layer = sl_Layer c then
                           let c = c\<lparr>sl_MessageID := msgID, sl_ExpiresAt := expiresAt, sl_SharedDefault := False\<rparr>;
                               s' = s\<lparr>ak_layers := (ak_layers s)((raw, sess) \<mapsto> c)\<rparr>
                           in (s', Inr (c\<lparr>sl_SharedDefault := sessionLayerIsSharedDefaultLocked s' raw c\<rparr>, True))
                         else observe_layer s raw sess layer msgID expiresAt permID
                     | None \<Rightarrow> observe_layer s raw sess layer msgID expiresAt permID)"

definition DeleteSessionLayer :: "auth_state \<Rightarrow> authkey \<Rightarrow> sessionid \<Rightarrow> auth_state \<times> bool" where
  "DeleteSessionLayer s raw sess =
    (s\<lparr>ak_layers := (ak_layers s)((raw, sess) := None)\<rparr>, ak_layers s (raw, sess) \<noteq> None)"

fun delete_expired_layers :: "int \<Rightarrow> int \<Rightarrow> (authkey \<times> sessionid) list \<Rightarrow> auth_state \<times> int \<Rightarrow> auth_state \<times> int" where
  "delete_expired_layers now limit [] r = r"
| "delete_expired_layers now limit (k # order) (s, deleted) =
     (if deleted \<ge> limit then (s, deleted)
      else case ak_layers s k of
        None \<Rightarrow> delete_expired_layers now limit order (s, deleted)
      | Some v \<Rightarrow>
          if now < sl_ExpiresAt v then delete_expired_layers now limit order (s, deleted)
          else delete_expired_layers now limit order (s\<lparr>ak_layers := (ak_layers s)(k := None)\<rparr>, deleted + 1))"

definition DeleteExpiredSessionLayers ::
  "(authkey \<times> sessionid) list \<Rightarrow> int \<Rightarrow> auth_state \<Rightarrow> int \<Rightarrow> auth_state \<times> int" where
  "DeleteExpiredSessionLayers order now s limit =
    (if limit \<le> 0 then (s, 0) else delete_expired_layers now limit order (s, 0))"

section \<open>Authorizations\<close>

definition LinkAuthKeyAuthority :: "auth_state \<Rightarrow> auth_state" where
  "LinkAuthKeyAuthority s =
    (if ak_linked s then s
     else s\<lparr>ak_linked := True,
       ak_auths := (\<lambda>i. case (ak_auths s i, ak_keys s i) of
         (Some a, Some key) \<Rightarrow> Some (a\<lparr>a_Layer := k_Layer key\<rparr>) | (a, _) \<Rightarrow> a)\<rparr>)"

definition Auth_Bind :: "int \<Rightarrow> auth_state \<Rightarrow> authorization \<Rightarrow> auth_state \<times> auth_error option" where
  "Auth_Bind now s a =
    (let a = a\<lparr>a_Hash := (if a_Hash a = 0 then a_AuthKeyID a else a_Hash a), a_CreatedAt := now, a_ActiveAt := now\<rparr>
     in if ak_linked s then
          case ak_keys s (a_AuthKeyID a) of
            None \<Rightarrow> (s, Some ErrAuthKeyNotFound)
          | Some key \<Rightarrow>
              if k_ExpiresAt key \<noteq> 0 then (s, Some ErrAuthKeyNotPermanent)
              else (s\<lparr>ak_auths := (ak_auths s)(a_AuthKeyID a \<mapsto> a\<lparr>a_Layer := k_Layer key\<rparr>)\<rparr>, None)
        else (s\<lparr>ak_auths := (ak_auths s)(a_AuthKeyID a \<mapsto> a)\<rparr>, None))"

definition ByAuthKey :: "auth_state \<Rightarrow> authkey \<Rightarrow> authorization option" where
  "ByAuthKey s i = ak_auths s i"

definition mergeAuthorizationClientInfo :: "int \<Rightarrow> authorization \<Rightarrow> client_info \<Rightarrow> authorization" where
  "mergeAuthorizationClientInfo now a info =
    a\<lparr>a_Layer := (if ci_Layer info > 0 then ci_Layer info else a_Layer a),
      a_DeviceModel := (if ci_DeviceModel info \<noteq> [] then ci_DeviceModel info else a_DeviceModel a),
      a_Platform := (if ci_Platform info \<noteq> [] then ci_Platform info else a_Platform a),
      a_SystemVersion := (if ci_SystemVersion info \<noteq> [] then ci_SystemVersion info else a_SystemVersion a),
      a_APIID := (if ci_APIID info \<noteq> 0 then ci_APIID info else a_APIID a),
      a_AppVersion := (if ci_AppVersion info \<noteq> [] then ci_AppVersion info else a_AppVersion a),
      a_IP := (if ci_IP info \<noteq> [] then ci_IP info else a_IP a),
      a_ActiveAt := now\<rparr>"

definition Auth_UpdateClientInfo :: "int \<Rightarrow> auth_state \<Rightarrow> authkey \<Rightarrow> client_info \<Rightarrow> auth_state \<times> auth_error option" where
  "Auth_UpdateClientInfo now s i info =
    (if ak_linked s then
       case ak_keys s i of
         None \<Rightarrow> (s, Some ErrAuthKeyNotFound)
       | Some key \<Rightarrow>
           (s\<lparr>ak_auths := (ak_auths s)(i := map_option
              (\<lambda>a. (mergeAuthorizationClientInfo now a info)\<lparr>a_Layer := k_Layer key\<rparr>) (ak_auths s i))\<rparr>, None)
     else (s\<lparr>ak_auths := (ak_auths s)(i := map_option (\<lambda>a. mergeAuthorizationClientInfo now a info) (ak_auths s i))\<rparr>, None))"

definition MarkPasswordPassed :: "int \<Rightarrow> auth_state \<Rightarrow> authkey \<Rightarrow> userid \<Rightarrow> auth_state \<times> auth_error option" where
  "MarkPasswordPassed now s i expectedUserID =
    (case ak_auths s i of
       None \<Rightarrow> (s, Some ErrAuthorizationStateChanged)
     | Some a \<Rightarrow>
         if expectedUserID = 0 \<or> a_UserID a \<noteq> expectedUserID \<or> \<not> a_PasswordPending a
         then (s, Some ErrAuthorizationStateChanged)
         else (s\<lparr>ak_auths := (ak_auths s)(i \<mapsto> a\<lparr>a_PasswordPending := False, a_CreatedAt := now, a_ActiveAt := now\<rparr>)\<rparr>,
               None))"

definition ListByUser :: "authkey list \<Rightarrow> auth_state \<Rightarrow> userid \<Rightarrow> authorization list" where
  "ListByUser order s userID =
    filter (\<lambda>a. a_UserID a = userID) (concat (map (\<lambda>i. case ak_auths s i of None \<Rightarrow> [] | Some a \<Rightarrow> [a]) order))"

definition Auth_Delete :: "auth_state \<Rightarrow> authkey \<Rightarrow> auth_state" where
  "Auth_Delete s i = s\<lparr>ak_auths := (ak_auths s)(i := None)\<rparr>"

fun DeleteByHash :: "authkey list \<Rightarrow> auth_state \<Rightarrow> userid \<Rightarrow> 64 word \<Rightarrow> auth_state \<times> authorization option" where
  "DeleteByHash [] s userID hash = (s, None)"
| "DeleteByHash (i # order) s userID hash =
     (case ak_auths s i of
        None \<Rightarrow> DeleteByHash order s userID hash
      | Some a \<Rightarrow>
          if a_UserID a = userID \<and> a_Hash a = hash then (Auth_Delete s i, Some a)
          else DeleteByHash order s userID hash)"

text \<open>The two branches of the code, with and without the key authority, do the same.\<close>

definition RevokeByHash :: "authkey list \<Rightarrow> auth_state \<Rightarrow> userid \<Rightarrow> 64 word \<Rightarrow> auth_state \<times> authorization option" where
  "RevokeByHash order s userID hash = DeleteByHash order s userID hash"

definition DeleteByUserExcept ::
  "authkey list \<Rightarrow> auth_state \<Rightarrow> userid \<Rightarrow> authkey \<Rightarrow> auth_state \<times> authorization list" where
  "DeleteByUserExcept order s userID keep =
    (s\<lparr>ak_auths := (\<lambda>i. case ak_auths s i of
        None \<Rightarrow> None | Some a \<Rightarrow> if a_UserID a \<noteq> userID \<or> i = keep then Some a else None)\<rparr>,
     concat (map (\<lambda>i. case ak_auths s i of
        None \<Rightarrow> [] | Some a \<Rightarrow> if a_UserID a \<noteq> userID \<or> i = keep then [] else [a]) order))"

definition RevokeByUserExcept ::
  "authkey list \<Rightarrow> auth_state \<Rightarrow> userid \<Rightarrow> authkey \<Rightarrow> auth_state \<times> authorization list" where
  "RevokeByUserExcept order s userID keep = DeleteByUserExcept order s userID keep"

section \<open>Runs\<close>

text \<open>
  The calls that change the state, in the order the mutex admits them. The server links the
  authorization store when it is built, before any call.
\<close>

datatype auth_op =
  OpKeySave auth_key
| OpKeyInfo authkey client_info
| OpKeyDelete authkey
| OpBindTemp binding
| OpDeleteExpired "authkey list" int int
| OpGetLayer int authkey sessionid
| OpAdvance int authkey sessionid int int
| OpDeleteLayer authkey sessionid
| OpExpireLayers "(authkey \<times> sessionid) list" int int
| OpBind int authorization
| OpAuthInfo int authkey client_info
| OpPasswordPassed int authkey userid
| OpAuthDelete authkey
| OpRevokeByHash "authkey list" userid "64 word"
| OpRevokeExcept "authkey list" userid authkey

fun auth_step :: "auth_op \<Rightarrow> auth_state \<Rightarrow> auth_state" where
  "auth_step (OpKeySave k) s = fst (Key_Save s k)"
| "auth_step (OpKeyInfo i info) s = fst (Key_UpdateClientInfo s i info)"
| "auth_step (OpKeyDelete i) s = Key_Delete s i"
| "auth_step (OpBindTemp b) s = fst (SaveWithState s b)"
| "auth_step (OpDeleteExpired order before limit) s = fst (DeleteExpired order s before limit)"
| "auth_step (OpGetLayer now raw sess) s = fst (GetSessionLayer now s raw sess)"
| "auth_step (OpAdvance now raw sess layer msgID) s = fst (AdvanceSessionLayer now s raw sess layer msgID)"
| "auth_step (OpDeleteLayer raw sess) s = fst (DeleteSessionLayer s raw sess)"
| "auth_step (OpExpireLayers order now limit) s = fst (DeleteExpiredSessionLayers order now s limit)"
| "auth_step (OpBind now a) s = fst (Auth_Bind now s a)"
| "auth_step (OpAuthInfo now i info) s = fst (Auth_UpdateClientInfo now s i info)"
| "auth_step (OpPasswordPassed now i u) s = fst (MarkPasswordPassed now s i u)"
| "auth_step (OpAuthDelete i) s = Auth_Delete s i"
| "auth_step (OpRevokeByHash order u h) s = fst (RevokeByHash order s u h)"
| "auth_step (OpRevokeExcept order u keep) s = fst (RevokeByUserExcept order s u keep)"

definition auth_run :: "auth_op list \<Rightarrow> auth_state \<Rightarrow> auth_state" where
  "auth_run xs s = fold auth_step xs s"

definition auth_init :: auth_state where
  "auth_init = LinkAuthKeyAuthority NewAuthState"

lemma auth_run_simps [simp]: "auth_run [] s = s" "auth_run (x # xs) s = auth_run xs (auth_step x s)"
  by (simp_all add: auth_run_def)

end
