(* ===== verification/Login_Service.thy ===== *)
theory Login_Service
  imports Login_Code Auth_Keys
begin

text \<open>
  Signing in and up: the part of \<open>internal/app/auth/service.go\<close> that decides who is authorized.
  A request makes several calls to the code store, the user store and the authorization store, and
  other requests run between them. \<open>login_env\<close> has what the request meets: the clock at each of its
  calls, what the others did to a store before each of its calls (any function), and what its reads of
  users, passwords and phone owners returned. Phone normalisation is an external library and an
  argument; the phones it is given in the stored records are normalised already.
\<close>

section \<open>What a request meets\<close>

datatype login_error =
  ErrCodeExpired | ErrCodeInvalid | ErrAuthKeyPermEmpty | ErrPhoneNumberInvalid | ErrSystemUserLoginForbidden
| ErrSessionPasswordNeeded | ErrFirstNameInvalid | ErrCodes code_error | ErrAuths auth_error | ErrOther string

record auth_user =
  u_ID :: userid
  u_Deleted :: bool

record login_env =
  le_now :: "nat \<Rightarrow> int"
  le_tok :: "string option"
  le_codes :: "nat \<Rightarrow> code_store \<Rightarrow> code_store"
  le_auths :: "auth_state \<Rightarrow> auth_state"
  le_owner :: "nat \<Rightarrow> login_error + auth_user option"
  le_user :: "login_error + auth_user option"
  le_password :: "login_error + bool"
  le_created :: "login_error + auth_user"
  le_email :: "login_error option"
  le_message :: "login_error option"

record login_cfg =
  lc_maxAttempts :: int
  lc_premiumBot :: userid
  lc_requireEmailSetup :: bool
  lc_loginEmails :: bool

definition IsSystemUserID :: "login_cfg \<Rightarrow> userid \<Rightarrow> bool" where
  "IsSystemUserID cfg i \<longleftrightarrow> i = lc_premiumBot cfg \<or>
     i \<in> {777000, 93372553, 1063110917, 1250000007, 1250000011, 1250000013, 1250000017, 1250000021}"

definition systemUserLoginForbidden :: "login_cfg \<Rightarrow> auth_user \<Rightarrow> bool" where
  "systemUserLoginForbidden cfg u \<longleftrightarrow> u_Deleted u \<or> IsSystemUserID cfg (u_ID u)"

text \<open>Only the official system account has a phone, and normalising it leaves it as it is.\<close>

definition systemLoginPhoneForbidden :: "(string \<Rightarrow> string) \<Rightarrow> string \<Rightarrow> bool" where
  "systemLoginPhoneForbidden norm_phone phone \<longleftrightarrow> norm_phone ''42777'' = norm_phone phone"

definition owner_id :: "auth_user option \<Rightarrow> userid" where
  "owner_id uo = (case uo of None \<Rightarrow> 0 | Some u \<Rightarrow> u_ID u)"

section \<open>Verifying a login code\<close>

definition invalidateLoginCodeDetached :: "login_env \<Rightarrow> nat \<Rightarrow> code_store \<Rightarrow> string \<Rightarrow> string \<Rightarrow> code_store" where
  "invalidateLoginCodeDetached e k s hash phone = fst (InvalidateLoginCode (le_now e k) (le_codes e k s) hash phone)"

text \<open>The answer once the code store has verified the code and the owner was read again.\<close>

definition verify_answer ::
  "login_cfg \<Rightarrow> string \<Rightarrow> auth_user option \<Rightarrow> verify_result \<Rightarrow> login_error + phone_code \<times> auth_user option" where
  "verify_answer cfg phone after result =
    (case vr_Status result of
       LoginCodeVerifyMissing \<Rightarrow> Inl ErrCodeExpired
     | LoginCodeVerifyInvalid \<Rightarrow> Inl ErrCodeInvalid
     | LoginCodeVerifyAccepted \<Rightarrow>
         if pc_Version (vr_Record result) \<noteq> PhoneCodeVersionCurrent \<or> pc_Phone (vr_Record result) \<noteq> phone \<or>
            pc_IssuedUserID (vr_Record result) \<noteq> owner_id after
         then Inl ErrCodeInvalid
         else if (case after of None \<Rightarrow> False | Some u \<Rightarrow> systemUserLoginForbidden cfg u)
         then Inl ErrSystemUserLoginForbidden
         else Inr (vr_Record result, after))"

definition verifyLoginCode ::
  "login_cfg \<Rightarrow> login_env \<Rightarrow> code_store \<Rightarrow> string \<Rightarrow> string \<Rightarrow> string \<Rightarrow>
   code_store \<times> (login_error + phone_code \<times> auth_user option)" where
  "verifyLoginCode cfg e s phone hash code =
    (case Code_Get (le_now e 0) (le_codes e 0 s) hash of
       (s, None) \<Rightarrow> (s, Inl ErrCodeExpired)
     | (s, Some rec) \<Rightarrow>
         if pc_Version rec \<noteq> PhoneCodeVersionCurrent then
           (fst (TakeLoginCode (le_now e 1) (le_codes e 1 s) hash phone), Inl ErrCodeExpired)
         else if pc_Phone rec \<noteq> phone \<or> pc_Purpose rec \<noteq> [] then (s, Inl ErrCodeInvalid)
         else if \<not> LoginCodeChannelVerifiable (pc_Channel rec) then (s, Inl ErrCodeInvalid)
         else (case le_owner e 0 of
            Inl err \<Rightarrow> (s, Inl err)
          | Inr before \<Rightarrow>
              if (case before of None \<Rightarrow> False | Some u \<Rightarrow> systemUserLoginForbidden cfg u)
              then (s, Inl ErrSystemUserLoginForbidden)
              else if pc_IssuedUserID rec \<noteq> owner_id before then
                (invalidateLoginCodeDetached e 1 s hash phone, Inl ErrCodeInvalid)
              else if pc_SignUpVerified rec then
                if before \<noteq> None \<or> pc_IssuedUserID rec \<noteq> 0 \<or> pc_Code rec \<noteq> code then (s, Inl ErrCodeInvalid)
                else (case le_owner e 1 of
                   Inl err \<Rightarrow> (s, Inl err)
                 | Inr after \<Rightarrow>
                     if after \<noteq> None then (invalidateLoginCodeDetached e 1 s hash phone, Inl ErrCodeInvalid)
                     else (s, Inr (rec, None)))
              else (case VerifyLogin (le_now e 1) (le_tok e) (le_codes e 1 s) hash phone code (before = None)
                  (lc_maxAttempts cfg) of
                 (s, Inl err) \<Rightarrow> (s, Inl (ErrCodes err))
               | (s, Inr result) \<Rightarrow>
                   (case le_owner e 1 of
                      Inl err \<Rightarrow> (s, Inl err)
                    | Inr after \<Rightarrow>
                        if owner_id before \<noteq> owner_id after \<or>
                           vr_Status result \<noteq> LoginCodeVerifyMissing \<and>
                             pc_IssuedUserID (vr_Record result) \<noteq> pc_IssuedUserID rec
                        then (invalidateLoginCodeDetached e 2 s hash phone, Inl ErrCodeInvalid)
                        else (s, verify_answer cfg phone after result)))))"

section \<open>Binding an authorization\<close>

definition bind_user ::
  "login_cfg \<Rightarrow> login_env \<Rightarrow> auth_state \<Rightarrow> authorization \<Rightarrow> userid \<Rightarrow> auth_state \<times> login_error option" where
  "bind_user cfg e s auth userID =
    (if userID = 0 then (s, Some ErrSystemUserLoginForbidden)
     else case le_user e of
       Inl err \<Rightarrow> (s, Some err)
     | Inr None \<Rightarrow> (s, Some ErrSystemUserLoginForbidden)
     | Inr (Some u) \<Rightarrow>
         if systemUserLoginForbidden cfg u then (s, Some ErrSystemUserLoginForbidden)
         else (case Key_Get s (a_AuthKeyID auth) of
            None \<Rightarrow> (s, Some ErrAuthKeyPermEmpty)
          | Some key \<Rightarrow>
              if k_ExpiresAt key \<noteq> 0 then (s, Some ErrAuthKeyPermEmpty)
              else (case Auth_Bind (le_now e 3) (le_auths e s) (auth\<lparr>a_UserID := userID\<rparr>) of
                 (s, None) \<Rightarrow> (s, None)
               | (s, Some ErrAuthKeyNotPermanent) \<Rightarrow> (s, Some ErrAuthKeyPermEmpty)
               | (s, Some err) \<Rightarrow> (s, Some (ErrAuths err)))))"

definition finishSignIn ::
  "login_cfg \<Rightarrow> login_env \<Rightarrow> auth_state \<Rightarrow> authorization \<Rightarrow> auth_user \<Rightarrow> auth_state \<times> (login_error + auth_user)" where
  "finishSignIn cfg e s auth existing =
    (if systemUserLoginForbidden cfg existing then (s, Inl ErrSystemUserLoginForbidden)
     else case le_password e of
       Inl err \<Rightarrow> (s, Inl err)
     | Inr passwordNeeded \<Rightarrow>
         (case bind_user cfg e s (auth\<lparr>a_PasswordPending := passwordNeeded\<rparr>) (u_ID existing) of
            (s, Some err) \<Rightarrow> (s, Inl err)
          | (s, None) \<Rightarrow> if passwordNeeded then (s, Inl ErrSessionPasswordNeeded) else (s, Inr existing)))"

text \<open>\<open>Inr None\<close> asks the client to sign up.\<close>

definition SignIn ::
  "(string \<Rightarrow> string) \<Rightarrow> login_cfg \<Rightarrow> login_env \<Rightarrow> code_store \<Rightarrow> auth_state \<Rightarrow> authorization \<Rightarrow> string \<Rightarrow> string \<Rightarrow>
   string \<Rightarrow> code_store \<times> auth_state \<times> (login_error + auth_user option)" where
  "SignIn norm_phone cfg e cs s auth phone hash code =
    (let phone = norm_phone phone
     in if systemLoginPhoneForbidden norm_phone phone then (cs, s, Inl ErrSystemUserLoginForbidden)
        else case verifyLoginCode cfg e cs phone hash code of
          (cs, Inl err) \<Rightarrow> (cs, s, Inl err)
        | (cs, Inr (_, None)) \<Rightarrow> (cs, s, Inr None)
        | (cs, Inr (_, Some existing)) \<Rightarrow>
            (case finishSignIn cfg e s auth existing of
               (s, Inl err) \<Rightarrow> (cs, s, Inl err)
             | (s, Inr u) \<Rightarrow> (cs, s, Inr (Some u))))"

section \<open>Signing up\<close>

definition SignUp ::
  "(string \<Rightarrow> string) \<Rightarrow> login_cfg \<Rightarrow> login_env \<Rightarrow> code_store \<Rightarrow> auth_state \<Rightarrow> authorization \<Rightarrow> string \<Rightarrow> string \<Rightarrow>
   string \<Rightarrow> string \<Rightarrow> code_store \<times> auth_state \<times> (login_error + auth_user)" where
  "SignUp norm_phone cfg e cs s auth phone hash firstName lastName =
    (let phone = norm_phone phone; firstName = strings_TrimSpace firstName; lastName = strings_TrimSpace lastName
     in if phone = [] \<or> norm_phone phone \<noteq> phone then (cs, s, Inl ErrPhoneNumberInvalid)
        else if systemLoginPhoneForbidden norm_phone phone then (cs, s, Inl ErrSystemUserLoginForbidden)
        else if firstName = [] \<or> utf8_RuneCount firstName > 64 \<or> utf8_RuneCount lastName > 64
        then (cs, s, Inl ErrFirstNameInvalid)
        else case Code_Get (le_now e 0) (le_codes e 0 cs) hash of
          (cs, None) \<Rightarrow> (cs, s, Inl ErrCodeExpired)
        | (cs, Some rec) \<Rightarrow>
            if pc_Version rec \<noteq> PhoneCodeVersionCurrent then
              (fst (ConsumeSignUpVerified (le_now e 1) (le_codes e 1 cs) hash phone), s, Inl ErrCodeExpired)
            else if pc_Phone rec \<noteq> phone \<or> pc_Purpose rec \<noteq> [] \<or> \<not> pc_SignUpVerified rec then (cs, s, Inl ErrCodeInvalid)
            else if pc_IssuedUserID rec \<noteq> 0 then
              (invalidateLoginCodeDetached e 1 cs hash phone, s, Inl ErrCodeInvalid)
            else if \<not> LoginCodeChannelVerifiable (pc_Channel rec) \<or>
                lc_requireEmailSetup cfg \<and> \<not> pc_VerifiedEmail rec \<and> strings_TrimSpace (pc_PendingEmail rec) = []
            then (cs, s, Inl ErrCodeInvalid)
            else (case le_owner e 0 of
               Inl err \<Rightarrow> (cs, s, Inl err)
             | Inr (Some _) \<Rightarrow> (invalidateLoginCodeDetached e 1 cs hash phone, s, Inl ErrCodeInvalid)
             | Inr None \<Rightarrow>
                 (case ConsumeSignUpVerified (le_now e 1) (le_codes e 1 cs) hash phone of
                    (cs, None) \<Rightarrow> (cs, s, Inl ErrCodeExpired)
                  | (cs, Some rec) \<Rightarrow>
                      if pc_IssuedUserID rec \<noteq> 0 \<or> \<not> pc_SignUpVerified rec \<or> \<not> LoginCodeChannelVerifiable (pc_Channel rec)
                      then (cs, s, Inl ErrCodeInvalid)
                      else (case le_owner e 1 of
                         Inl err \<Rightarrow> (cs, s, Inl err)
                       | Inr (Some _) \<Rightarrow> (cs, s, Inl ErrCodeInvalid)
                       | Inr None \<Rightarrow>
                           (case le_created e of
                              Inl err \<Rightarrow> (cs, s, Inl err)
                            | Inr u \<Rightarrow>
                                (case (if pc_VerifiedEmail rec \<and> strings_TrimSpace (pc_PendingEmail rec) \<noteq> [] \<and> lc_loginEmails cfg
                                       then le_email e else None) of
                                   Some err \<Rightarrow> (cs, s, Inl err)
                                 | None \<Rightarrow>
                                     (case bind_user cfg e s auth (u_ID u) of
                                        (s, Some err) \<Rightarrow> (cs, s, Inl err)
                                      | (s, None) \<Rightarrow>
                                          (case (if pc_Channel rec = PhoneCodeChannelPhone then le_message e else None) of
                                             Some err \<Rightarrow> (cs, s, Inl err)
                                           | None \<Rightarrow> (cs, s, Inr u)))))))))"

section \<open>Who is signed in\<close>

definition svc_UserID ::
  "login_cfg \<Rightarrow> (userid \<Rightarrow> login_error + auth_user option) \<Rightarrow> auth_state \<Rightarrow> authkey \<Rightarrow>
   auth_state \<times> (login_error + userid option)" where
  "svc_UserID cfg byID s i =
    (case ByAuthKey s i of
       None \<Rightarrow> (s, Inr None)
     | Some a \<Rightarrow>
         if a_PasswordPending a then (s, Inr None)
         else (case byID (a_UserID a) of
            Inl err \<Rightarrow> (s, Inl err)
          | Inr uo \<Rightarrow>
              if (case uo of None \<Rightarrow> True | Some u \<Rightarrow> systemUserLoginForbidden cfg u)
              then (Auth_Delete s i, Inr None)
              else (s, Inr (Some (a_UserID a)))))"

definition PendingPasswordUserID ::
  "login_cfg \<Rightarrow> (userid \<Rightarrow> login_error + auth_user option) \<Rightarrow> auth_state \<Rightarrow> authkey \<Rightarrow>
   auth_state \<times> (login_error + userid option)" where
  "PendingPasswordUserID cfg byID s i =
    (case ByAuthKey s i of
       None \<Rightarrow> (s, Inr None)
     | Some a \<Rightarrow>
         if \<not> a_PasswordPending a then (s, Inr None)
         else (case byID (a_UserID a) of
            Inl err \<Rightarrow> (s, Inl err)
          | Inr uo \<Rightarrow>
              if (case uo of None \<Rightarrow> True | Some u \<Rightarrow> systemUserLoginForbidden cfg u)
              then (Auth_Delete s i, Inr None)
              else (s, Inr (Some (a_UserID a)))))"

definition CompletePasswordSignIn ::
  "login_cfg \<Rightarrow> (userid \<Rightarrow> login_error + auth_user option) \<Rightarrow> int \<Rightarrow> (auth_state \<Rightarrow> auth_state) \<Rightarrow> auth_state \<Rightarrow> authkey \<Rightarrow>
   userid \<Rightarrow> auth_state \<times> login_error option" where
  "CompletePasswordSignIn cfg byID now others s i expectedUserID =
    (if expectedUserID = 0 then (s, Some (ErrAuths ErrAuthorizationStateChanged))
     else case MarkPasswordPassed now s i expectedUserID of
       (s, Some err) \<Rightarrow> (s, Some (ErrAuths err))
     | (s, None) \<Rightarrow>
         (case svc_UserID cfg byID (others s) i of
            (s, Inl err) \<Rightarrow> (s, Some err)
          | (s, Inr None) \<Rightarrow> (s, Some ErrSystemUserLoginForbidden)
          | (s, Inr (Some u)) \<Rightarrow>
              if u \<noteq> expectedUserID then (s, Some ErrSystemUserLoginForbidden) else (s, None)))"

definition ResolveAuthKey :: "auth_state \<Rightarrow> authkey \<Rightarrow> authkey option" where
  "ResolveAuthKey s i = map_option b_PermAuthKeyID (GetByTemp s i)"

definition LogOut :: "auth_state \<Rightarrow> authkey \<Rightarrow> auth_state" where
  "LogOut s i = Auth_Delete s i"

end
