(* ===== verification/Auth_Properties.thy ===== *)
theory Auth_Properties
  imports Login_Service
begin

text \<open>
  Properties of auth keys and authorizations: the invariant \<open>auth_ok\<close> of the shared state, that a
  temporary key never changes its permanent identity, and that two-step verification cannot be
  skipped.
\<close>

section \<open>The invariant\<close>

text \<open>What the invariant asks of one binding, one session layer and one authorization.\<close>

definition binding_ok :: "(authkey \<rightharpoonup> auth_key) \<Rightarrow> authkey \<Rightarrow> binding \<Rightarrow> bool" where
  "binding_ok ks t b \<longleftrightarrow> b_TempAuthKeyID b = t \<and>
     (case (ks t, ks (b_PermAuthKeyID b)) of
        (Some tmp, Some perm) \<Rightarrow> 0 < k_ExpiresAt tmp \<and> k_ExpiresAt perm = 0 \<and> b_ExpiresAt b = k_ExpiresAt tmp \<and>
          k_LayerObservationID tmp \<le> k_LayerObservationID perm
      | _ \<Rightarrow> False)"

definition layer_ok :: "(authkey \<rightharpoonup> auth_key) \<Rightarrow> authkey \<Rightarrow> session_layer \<Rightarrow> bool" where
  "layer_ok ks i v \<longleftrightarrow> 0 < sl_Layer v \<and>
     (case ks i of Some k \<Rightarrow> sl_ObservationID v \<le> k_LayerObservationID k | None \<Rightarrow> False)"

definition authorization_ok :: "(authkey \<rightharpoonup> auth_key) \<Rightarrow> authkey \<Rightarrow> authorization \<Rightarrow> bool" where
  "authorization_ok ks i a \<longleftrightarrow> a_AuthKeyID a = i \<and>
     (case ks i of Some k \<Rightarrow> k_ExpiresAt k = 0 \<and> a_Layer a = k_Layer k | None \<Rightarrow> False)"

definition key_ok :: "int \<Rightarrow> authkey \<Rightarrow> auth_key \<Rightarrow> bool" where
  "key_ok nxt i k \<longleftrightarrow> k_ID k = i \<and> 0 \<le> k_ExpiresAt k \<and> k_LayerObservationID k \<le> nxt"

definition auth_ok :: "auth_state \<Rightarrow> bool" where
  "auth_ok s \<longleftrightarrow> ak_linked s \<and>
     (\<forall>i k. ak_keys s i = Some k \<longrightarrow> key_ok (ak_next s) i k) \<and>
     (\<forall>t b. ak_bindings s t = Some b \<longrightarrow> binding_ok (ak_keys s) t b) \<and>
     (\<forall>i n v. ak_layers s (i, n) = Some v \<longrightarrow> layer_ok (ak_keys s) i v) \<and>
     (\<forall>i a. ak_auths s i = Some a \<longrightarrow> authorization_ok (ak_keys s) i a)"

lemma auth_okI:
  assumes "ak_linked s"
    and "\<And>i k. ak_keys s i = Some k \<Longrightarrow> key_ok (ak_next s) i k"
    and "\<And>t b. ak_bindings s t = Some b \<Longrightarrow> binding_ok (ak_keys s) t b"
    and "\<And>i n v. ak_layers s (i, n) = Some v \<Longrightarrow> layer_ok (ak_keys s) i v"
    and "\<And>i a. ak_auths s i = Some a \<Longrightarrow> authorization_ok (ak_keys s) i a"
  shows "auth_ok s"
  using assms by (simp add: auth_ok_def)

lemma auth_okD:
  assumes "auth_ok s"
  shows "ak_linked s"
    and "ak_keys s i = Some k \<Longrightarrow> key_ok (ak_next s) i k"
    and "ak_bindings s t = Some b \<Longrightarrow> binding_ok (ak_keys s) t b"
    and "ak_layers s (i, n) = Some v \<Longrightarrow> layer_ok (ak_keys s) i v"
    and "ak_auths s i = Some a \<Longrightarrow> authorization_ok (ak_keys s) i a"
  using assms by (simp_all add: auth_ok_def)

lemma auth_ok_init: "auth_ok auth_init"
  by (rule auth_okI) (simp_all add: auth_init_def LinkAuthKeyAuthority_def NewAuthState_def)

text \<open>
  Most calls rewrite the layer of some keys. \<open>keeps_identity\<close> says that a new key map has the same
  keys with the same kind and no older observation.
\<close>

definition keeps_identity :: "(authkey \<rightharpoonup> auth_key) \<Rightarrow> (authkey \<rightharpoonup> auth_key) \<Rightarrow> bool" where
  "keeps_identity ks ks' \<longleftrightarrow> (\<forall>i k. ks i = Some k \<longrightarrow>
     (\<exists>k'. ks' i = Some k' \<and> k_ID k' = k_ID k \<and> k_ExpiresAt k' = k_ExpiresAt k \<and>
        k_LayerObservationID k \<le> k_LayerObservationID k'))"

lemma keeps_layer_ok: "keeps_identity ks ks' \<Longrightarrow> layer_ok ks i v \<Longrightarrow> layer_ok ks' i v"
  by (fastforce simp: keeps_identity_def layer_ok_def split: option.splits)

lemma keeps_binding_ok:
  assumes "keeps_identity ks ks'" and "binding_ok ks t b"
    and "\<And>tmp perm. ks' t = Some tmp \<Longrightarrow> ks' (b_PermAuthKeyID b) = Some perm \<Longrightarrow>
      k_LayerObservationID tmp \<le> k_LayerObservationID perm"
  shows "binding_ok ks' t b"
  using assms by (fastforce simp: keeps_identity_def binding_ok_def split: option.splits)

lemma binding_obs:
  "binding_ok ks t b \<Longrightarrow> ks t = Some tmp \<Longrightarrow> ks (b_PermAuthKeyID b) = Some perm \<Longrightarrow>
   k_LayerObservationID tmp \<le> k_LayerObservationID perm"
  by (simp add: binding_ok_def)

lemma binding_kinds:
  assumes "binding_ok ks t b"
  obtains tmp perm where "ks t = Some tmp" "ks (b_PermAuthKeyID b) = Some perm" "0 < k_ExpiresAt tmp"
    "k_ExpiresAt perm = 0" "b_ExpiresAt b = k_ExpiresAt tmp" "b_TempAuthKeyID b = t"
  using assms by (auto simp: binding_ok_def split: option.splits)

text \<open>
  The mirror gives every authorization of a rewritten key that key's layer.
\<close>

lemma mirror_simps [simp]:
  "ak_keys (mirrorAuthorizationLayersLocked s ids l) = ak_keys s"
  "ak_bindings (mirrorAuthorizationLayersLocked s ids l) = ak_bindings s"
  "ak_layers (mirrorAuthorizationLayersLocked s ids l) = ak_layers s"
  "ak_next (mirrorAuthorizationLayersLocked s ids l) = ak_next s"
  "ak_linked (mirrorAuthorizationLayersLocked s ids l) = ak_linked s"
  by (simp_all add: mirrorAuthorizationLayersLocked_def)

text \<open>One rule for all calls that rewrite keys and mirror their layers.\<close>

lemma auth_ok_rewrite:
  assumes ok: "auth_ok s"
    and ids: "\<And>i. i \<notin> set ids \<Longrightarrow> ks' i = ak_keys s i"
    and layer: "\<And>i k. i \<in> set ids \<Longrightarrow> ks' i = Some k \<Longrightarrow> k_Layer k = l"
    and keep: "keeps_identity (ak_keys s) ks'"
    and keys: "\<And>i k. i \<in> set ids \<Longrightarrow> ks' i = Some k \<Longrightarrow> key_ok n' i k"
    and n': "ak_next s \<le> n'"
    and bindings: "\<And>t b. bs' t = Some b \<Longrightarrow> binding_ok ks' t b"
    and layers: "\<And>i n v. ls' (i, n) = Some v \<Longrightarrow> ak_layers s (i, n) = Some v \<or> layer_ok ks' i v"
  shows "auth_ok (mirrorAuthorizationLayersLocked
    (s\<lparr>ak_keys := ks', ak_bindings := bs', ak_layers := ls', ak_next := n'\<rparr>) ids l)"
proof (rule auth_okI)
  fix i k assume "ak_keys (mirrorAuthorizationLayersLocked
    (s\<lparr>ak_keys := ks', ak_bindings := bs', ak_layers := ls', ak_next := n'\<rparr>) ids l) i = Some k"
  then show "key_ok (ak_next (mirrorAuthorizationLayersLocked
      (s\<lparr>ak_keys := ks', ak_bindings := bs', ak_layers := ls', ak_next := n'\<rparr>) ids l)) i k"
    using keys ids[of i] auth_okD(2)[OF ok, of i k] n' by (cases "i \<in> set ids") (auto simp: key_ok_def)
next
  fix i a assume a: "ak_auths (mirrorAuthorizationLayersLocked
    (s\<lparr>ak_keys := ks', ak_bindings := bs', ak_layers := ls', ak_next := n'\<rparr>) ids l) i = Some a"
  then obtain a0 where a0: "ak_auths s i = Some a0" "a = (if i \<in> set ids then a0\<lparr>a_Layer := l\<rparr> else a0)"
    using auth_okD(1)[OF ok] by (auto simp: mirrorAuthorizationLayersLocked_def split: if_splits)
  have "authorization_ok (ak_keys s) i a0" using auth_okD(5)[OF ok a0(1)] .
  then obtain k where k: "ak_keys s i = Some k" "k_ExpiresAt k = 0" "a_AuthKeyID a0 = i" "a_Layer a0 = k_Layer k"
    by (auto simp: authorization_ok_def split: option.splits)
  obtain k' where k': "ks' i = Some k'" "k_ExpiresAt k' = k_ExpiresAt k"
    using keep k(1) by (auto simp: keeps_identity_def)
  have "a_Layer a = k_Layer k'"
    using a0(2) k k' ids[of i] layer[of i k'] by (cases "i \<in> set ids") auto
  then show "authorization_ok (ak_keys (mirrorAuthorizationLayersLocked
      (s\<lparr>ak_keys := ks', ak_bindings := bs', ak_layers := ls', ak_next := n'\<rparr>) ids l)) i a"
    using a0(2) k k' by (auto simp: authorization_ok_def)
next
  fix i n v assume "ak_layers (mirrorAuthorizationLayersLocked
    (s\<lparr>ak_keys := ks', ak_bindings := bs', ak_layers := ls', ak_next := n'\<rparr>) ids l) (i, n) = Some v"
  then have "ak_layers s (i, n) = Some v \<or> layer_ok ks' i v" using layers by simp
  then show "layer_ok (ak_keys (mirrorAuthorizationLayersLocked
      (s\<lparr>ak_keys := ks', ak_bindings := bs', ak_layers := ls', ak_next := n'\<rparr>) ids l)) i v"
    using keeps_layer_ok[OF keep auth_okD(4)[OF ok]] by auto
qed (use bindings auth_okD(1)[OF ok] in auto)

lemma same_obs_binding:
  assumes "keeps_identity ks ks'" and "binding_ok ks t b"
    and "\<And>i k k'. ks i = Some k \<Longrightarrow> ks' i = Some k' \<Longrightarrow> k_LayerObservationID k' = k_LayerObservationID k"
  shows "binding_ok ks' t b"
proof (rule keeps_binding_ok[OF assms(1,2)])
  fix tmp perm assume "ks' t = Some tmp" "ks' (b_PermAuthKeyID b) = Some perm"
  then show "k_LayerObservationID tmp \<le> k_LayerObservationID perm"
    using assms(3) binding_obs[OF assms(2)] by (metis assms(2) binding_kinds)
qed

lemma auth_ok_Key_write:
  assumes ok: "auth_ok s" and k: "key_ok (max (ak_next s) (k_LayerObservationID k)) (k_ID k) k"
    and "\<And>k0. ak_keys s (k_ID k) = Some k0 \<Longrightarrow> k_ExpiresAt k = k_ExpiresAt k0 \<and>
      k_LayerObservationID k = k_LayerObservationID k0"
  shows "auth_ok (mirrorAuthorizationLayersLocked (s\<lparr>ak_keys := (ak_keys s)(k_ID k \<mapsto> k),
    ak_bindings := ak_bindings s, ak_layers := ak_layers s,
    ak_next := max (ak_next s) (k_LayerObservationID k)\<rparr>) [k_ID k] (k_Layer k))"
proof -
  let ?ks = "(ak_keys s)(k_ID k \<mapsto> k)"
  have keep: "keeps_identity (ak_keys s) ?ks"
    using assms(3) auth_okD(2)[OF ok] by (auto simp: keeps_identity_def key_ok_def)
  moreover have "binding_ok ?ks t b" if "ak_bindings s t = Some b" for t b
    by (rule same_obs_binding[OF keep auth_okD(3)[OF ok that]]) (use assms(3) in \<open>auto split: if_splits\<close>)
  ultimately show ?thesis using k by (intro auth_ok_rewrite[OF ok]) auto
qed

lemma mirror_next:
  "(mirrorAuthorizationLayersLocked s ids l)\<lparr>ak_next := n\<rparr> = mirrorAuthorizationLayersLocked (s\<lparr>ak_next := n\<rparr>) ids l"
  by (cases s) (simp add: mirrorAuthorizationLayersLocked_def cong: if_cong)

lemma auth_ok_Save:
  assumes ok: "auth_ok s"
  shows "auth_ok (fst (Key_Save s k))"
proof -
  let ?w = "\<lambda>k. let s = mirrorAuthorizationLayersLocked (s\<lparr>ak_keys := (ak_keys s)(k_ID k \<mapsto> k)\<rparr>) [k_ID k] (k_Layer k)
         in if k_LayerObservationID k > ak_next s then s\<lparr>ak_next := k_LayerObservationID k\<rparr> else s"
  have w: "auth_ok (?w k)" if "0 \<le> k_ExpiresAt k" "\<And>k0. ak_keys s (k_ID k) = Some k0 \<Longrightarrow>
      k_ExpiresAt k = k_ExpiresAt k0 \<and> k_LayerObservationID k = k_LayerObservationID k0" for k
    using auth_ok_Key_write[OF ok, of k] that
    by (auto simp: key_ok_def mirror_next Let_def max_def split: if_splits)
  show ?thesis
  proof (cases "ValidNewAuthKeyProtocolExpiry (k_ExpiresAt k)")
    case False
    then show ?thesis using ok by (simp add: Key_Save_def)
  next
    case True
    then have e: "0 \<le> k_ExpiresAt k" by (simp add: ValidNewAuthKeyProtocolExpiry_def)
    show ?thesis
    proof (cases "ak_keys s (k_ID k)")
      case None
      then have "fst (Key_Save s k) = ?w k" using True by (simp add: Key_Save_def Let_def)
      then show ?thesis using w[of k] e None by simp
    next
      case (Some cur)
      let ?k = "k\<lparr>k_CreatedAt := (if k_CreatedAt k = 0 then k_CreatedAt cur else k_CreatedAt k),
          k_Layer := k_Layer cur, k_LayerObservationID := k_LayerObservationID cur,
          k_DeviceModel := k_DeviceModel cur, k_Platform := k_Platform cur,
          k_SystemVersion := k_SystemVersion cur, k_APIID := k_APIID cur, k_AppVersion := k_AppVersion cur\<rparr>"
      show ?thesis
      proof (cases "k_Value cur \<noteq> k_Value k \<or> k_ExpiresAt cur \<noteq> k_ExpiresAt k")
        case c: True
        then have "Key_Save s k = (s, Some ErrAuthKeyProtocolMetadataConflict)"
          using True Some by (simp add: Key_Save_def Let_def)
        then show ?thesis using ok by simp
      next
        case False
        then have "Key_Save s k = (?w ?k, None)" using True Some by (simp only: Key_Save_def Let_def) simp
        moreover have "auth_ok (?w ?k)" by (rule w) (use e Some False in auto)
        ultimately show ?thesis by (simp only: fst_conv)
      qed
    qed
  qed
qed

lemma auth_ok_UpdateClientInfo: "auth_ok s \<Longrightarrow> auth_ok (fst (Key_UpdateClientInfo s i info))"
proof -
  assume ok: "auth_ok s"
  show ?thesis
  proof (cases "ak_keys s i")
    case None
    then show ?thesis using ok by (simp add: Key_UpdateClientInfo_def)
  next
    case (Some k)
    let ?k = "mergeAuthKeyClientInfo k info"
    have k: "key_ok (ak_next s) i k" using auth_okD(2)[OF ok Some] .
    then have "k_ID ?k = i" "k_LayerObservationID ?k \<le> ak_next s" "k_LayerObservationID ?k = k_LayerObservationID k"
      "k_ExpiresAt ?k = k_ExpiresAt k" "0 \<le> k_ExpiresAt k"
      by (simp_all add: mergeAuthKeyClientInfo_def key_ok_def)
    then show ?thesis using ok Some auth_ok_Key_write[OF ok, of ?k]
      by (simp add: Key_UpdateClientInfo_def Let_def key_ok_def max_absorb1)
  qed
qed

text \<open>Forgetting keys keeps the invariant when no binding loses its permanent key.\<close>

lemma auth_ok_forget:
  assumes ok: "auth_ok s"
    and "\<And>t b. ak_bindings s t = Some b \<Longrightarrow> \<not> gone t \<Longrightarrow> \<not> gone (b_PermAuthKeyID b)"
    and "s' = deleteAuthorizationMirrorsLocked (forget_keys s gone) gone"
  shows "auth_ok s'"
  using assms auth_okD[OF ok] unfolding assms(3)
  by (intro auth_okI)
    (auto simp: deleteAuthorizationMirrorsLocked_def forget_keys_def binding_ok_def layer_ok_def authorization_ok_def
      split: if_splits)

lemma temp_not_perm:
  assumes "auth_ok s" and "ak_bindings s t = Some b" and "ak_keys s i = Some k" and "0 < k_ExpiresAt k"
  shows "b_PermAuthKeyID b \<noteq> i"
  using auth_okD(3)[OF assms(1,2)] assms(3,4) by (auto simp: binding_ok_def split: option.splits)

lemma perm_not_temp:
  assumes "auth_ok s" and "ak_keys s i = Some k" and "k_ExpiresAt k = 0"
  shows "ak_bindings s i = None"
  using auth_okD(3)[OF assms(1), of i] assms(2,3) by (cases "ak_bindings s i") (auto simp: binding_ok_def split: option.splits)

lemma auth_ok_Delete:
  assumes ok: "auth_ok s"
  shows "auth_ok (Key_Delete s i)"
proof (cases "ak_keys s i")
  case None
  have "s\<lparr>ak_auths := ak_auths s\<rparr> = s" by simp
  then show ?thesis using None ok
    by (simp add: Key_Delete_def deleteProtocolAuthKeyLocked_def deleteAuthorizationMirrorsLocked_def)
next
  case (Some k)
  show ?thesis
  proof (cases "0 < k_ExpiresAt k")
    case True
    show ?thesis
    proof (rule auth_ok_forget[OF ok, of "\<lambda>j. j = i"])
      show "Key_Delete s i = deleteAuthorizationMirrorsLocked (forget_keys s (\<lambda>j. j = i)) (\<lambda>j. j = i)"
        using Some True by (simp add: Key_Delete_def deleteProtocolAuthKeyLocked_def)
    qed (use temp_not_perm[OF ok _ Some True] in auto)
  next
    case False
    then have z: "k_ExpiresAt k = 0" using auth_okD(2)[OF ok Some] by (simp add: key_ok_def)
    have nb: "ak_bindings s i = None" using perm_not_temp[OF ok Some z] .
    show ?thesis
    proof (rule auth_ok_forget[OF ok, of "\<lambda>j. bound_temp s i j \<or> j = i"])
      show "Key_Delete s i = deleteAuthorizationMirrorsLocked (forget_keys s (\<lambda>j. bound_temp s i j \<or> j = i))
          (\<lambda>j. bound_temp s i j \<or> j = i)"
        using Some False nb
        by (auto simp: Key_Delete_def deleteProtocolAuthKeyLocked_def Let_def forget_keys_def
            deleteSessionLayersLocked_def deleteAuthorizationMirrorsLocked_def fun_eq_iff)
      show "\<not> (bound_temp s i (b_PermAuthKeyID b) \<or> b_PermAuthKeyID b = i)"
        if "ak_bindings s t = Some b" "\<not> (bound_temp s i t \<or> t = i)" for t b
      proof -
        have "binding_ok (ak_keys s) t b" using auth_okD(3)[OF ok that(1)] .
        then obtain perm where "ak_keys s (b_PermAuthKeyID b) = Some perm" "k_ExpiresAt perm = 0"
          by (rule binding_kinds)
        then have "ak_bindings s (b_PermAuthKeyID b) = None" using perm_not_temp[OF ok] by blast
        then show ?thesis using that by (auto simp: bound_temp_def)
      qed
    qed
  qed
qed

lemma auth_ok_DeleteExpired:
  "auth_ok s \<Longrightarrow> auth_ok (fst (DeleteExpired order s before limit))"
proof -
  have "auth_ok s \<Longrightarrow> auth_ok (fst (delete_expired before limit order (s, d)))" for d
  proof (induction order arbitrary: s d)
    case (Cons i order)
    show ?case
    proof (cases "ak_keys s i")
      case (Some k)
      have "auth_ok (deleteAuthorizationMirrorsLocked (forget_keys s (\<lambda>j. j = i)) (\<lambda>j. j = i))" if "0 < k_ExpiresAt k"
        by (rule auth_ok_forget[OF Cons.prems _ refl]) (use temp_not_perm[OF Cons.prems _ Some that] in auto)
      then show ?thesis using Cons Some by auto
    qed (use Cons in auto)
  qed simp
  then show "auth_ok s \<Longrightarrow> ?thesis" by (simp add: DeleteExpired_def)
qed

lemma Merge_obs:
  "MergeAuthKeyLayerObservations ta oa tb ob = Inr (l, m) \<Longrightarrow> oa \<le> m \<and> ob \<le> m \<and> (m = oa \<or> m = ob)"
  by (auto simp: MergeAuthKeyLayerObservations_def split: if_splits)

text \<open>A binding of another temporary key only sees its permanent key advance.\<close>

lemma binding_ok_raise:
  assumes "keeps_identity ks ks'" and "binding_ok ks t b" and "ks' t = ks t"
  shows "binding_ok ks' t b"
proof (rule keeps_binding_ok[OF assms(1,2)])
  fix tmp perm assume p: "ks' t = Some tmp" "ks' (b_PermAuthKeyID b) = Some perm"
  obtain perm0 where p0: "ks (b_PermAuthKeyID b) = Some perm0" using assms(2) by (rule binding_kinds)
  then have "k_LayerObservationID perm0 \<le> k_LayerObservationID perm"
    using assms(1) p by (fastforce simp: keeps_identity_def)
  then show "k_LayerObservationID tmp \<le> k_LayerObservationID perm"
    using binding_obs[OF assms(2) _ p0] p(1) assms(3) by fastforce
qed

lemma auth_ok_BindTemp:
  assumes ok: "auth_ok s"
  shows "auth_ok (fst (SaveWithState s b))"
proof (cases "\<exists>l ob. snd (SaveWithState s b) = Inr (l, ob)")
  case False
  then have "fst (SaveWithState s b) = s"
    by (auto simp: SaveWithState_def Let_def split: option.splits sum.splits prod.splits if_splits)
  then show ?thesis using ok by simp
next
  case True
  let ?t = "b_TempAuthKeyID b" and ?p = "b_PermAuthKeyID b"
  obtain l ob tmp perm where k: "ak_keys s ?t = Some tmp" "ak_keys s ?p = Some perm" "0 < k_ExpiresAt tmp"
      "k_ExpiresAt perm = 0" "b_ExpiresAt b = k_ExpiresAt tmp"
      and m: "MergeAuthKeyLayerObservations (k_Layer tmp) (k_LayerObservationID tmp) (k_Layer perm) (k_LayerObservationID perm) = Inr (l, ob)"
      and s': "fst (SaveWithState s b) = mirrorAuthorizationLayersLocked
        (s\<lparr>ak_keys := (ak_keys s)(?t \<mapsto> tmp\<lparr>k_Layer := l, k_LayerObservationID := ob\<rparr>,
                         ?p \<mapsto> perm\<lparr>k_Layer := l, k_LayerObservationID := ob\<rparr>),
           ak_bindings := (ak_bindings s)(?t \<mapsto> b)\<rparr>) [?t, ?p] l"
    using True by (auto simp: SaveWithState_def Let_def split: option.splits sum.splits prod.splits if_splits)
  let ?ks = "(ak_keys s)(?t \<mapsto> tmp\<lparr>k_Layer := l, k_LayerObservationID := ob\<rparr>,
                         ?p \<mapsto> perm\<lparr>k_Layer := l, k_LayerObservationID := ob\<rparr>)"
  have ne: "?t \<noteq> ?p" using k by auto
  have keep: "keeps_identity (ak_keys s) ?ks"
    using k Merge_obs[OF m] by (auto simp: keeps_identity_def)
  have "ob \<le> ak_next s" using Merge_obs[OF m] auth_okD(2)[OF ok k(1)] auth_okD(2)[OF ok k(2)] by (auto simp: key_ok_def)
  then have keys: "key_ok (ak_next s) i k" if "i \<in> set [?t, ?p]" "?ks i = Some k" for i k
    using that auth_okD(2)[OF ok k(1)] auth_okD(2)[OF ok k(2)] by (auto simp: key_ok_def split: if_splits)
  have "binding_ok ?ks t b'" if "((ak_bindings s)(?t \<mapsto> b)) t = Some b'" for t b'
  proof (cases "t = ?t")
    case True
    then show ?thesis using that k ne by (auto simp: binding_ok_def)
  next
    case False
    then have b': "ak_bindings s t = Some b'" using that by simp
    moreover have "t \<noteq> ?p" using perm_not_temp[OF ok k(2,4)] b' by auto
    ultimately show ?thesis
      using binding_ok_raise[OF keep auth_okD(3)[OF ok b']] False by simp
  qed
  then have "auth_ok (mirrorAuthorizationLayersLocked (s\<lparr>ak_keys := ?ks, ak_bindings := (ak_bindings s)(?t \<mapsto> b),
      ak_layers := ak_layers s, ak_next := ak_next s\<rparr>) [?t, ?p] l)"
    by (intro auth_ok_rewrite[OF ok _ _ keep]) (use keys in \<open>auto split: if_splits\<close>)
  then show ?thesis unfolding s' by simp
qed

lemma same_bindings:
  "s\<lparr>ak_keys := a, ak_bindings := ak_bindings s, ak_layers := c, ak_next := d\<rparr> = s\<lparr>ak_keys := a, ak_layers := c, ak_next := d\<rparr>"
  by simp

lemma auth_ok_observe:
  assumes ok: "auth_ok s" and raw: "ak_keys s raw \<noteq> None" and "0 < layer"
    and perm: "permID = map_option b_PermAuthKeyID (ak_bindings s raw)"
  shows "auth_ok (fst (observe_layer s raw sess layer msgID expiresAt permID))"
proof (cases "ak_next s = 2 ^ 63 - 1")
  case True
  then show ?thesis using ok by (simp add: observe_layer_def)
next
  case False
  let ?n = "ak_next s + 1"
  let ?ids = "case permID of None \<Rightarrow> [raw] | Some p \<Rightarrow> [raw, p]"
  let ?ks = "\<lambda>i. if i \<in> set ?ids then map_option (\<lambda>k. k\<lparr>k_Layer := layer, k_LayerObservationID := ?n\<rparr>) (ak_keys s i)
    else ak_keys s i"
  let ?ls = "(ak_layers s)((raw, sess) \<mapsto> \<lparr>sl_Layer = layer, sl_MessageID = msgID, sl_ObservationID = ?n,
    sl_ExpiresAt = expiresAt, sl_SharedDefault = False\<rparr>)"
  have s': "fst (observe_layer s raw sess layer msgID expiresAt permID) =
      mirrorAuthorizationLayersLocked (s\<lparr>ak_keys := ?ks, ak_bindings := ak_bindings s, ak_layers := ?ls, ak_next := ?n\<rparr>) ?ids layer"
    using False unfolding observe_layer_def Let_def same_bindings by simp
  have le: "k_LayerObservationID k \<le> ak_next s" if "ak_keys s i = Some k" for i k
    using auth_okD(2)[OF ok that] by (simp add: key_ok_def)
  have keep: "keeps_identity (ak_keys s) ?ks" using le by (fastforce simp: keeps_identity_def)
  have "binding_ok ?ks t b" if b: "ak_bindings s t = Some b" for t b
  proof (cases "t \<in> set ?ids")
    case False
    then show ?thesis using binding_ok_raise[OF keep auth_okD(3)[OF ok b]] by simp
  next
    case True
    have ob: "binding_ok (ak_keys s) t b" using auth_okD(3)[OF ok b] .
    have "t = raw"
    proof (rule ccontr)
      assume "t \<noteq> raw"
      then obtain b0 where "ak_bindings s raw = Some b0" "t = b_PermAuthKeyID b0" using True perm by (auto split: option.splits)
      then show False using auth_okD(3)[OF ok, of raw b0] perm_not_temp[OF ok] b by (metis binding_kinds option.distinct(1))
    qed
    then have "b_PermAuthKeyID b \<in> set ?ids" using b perm by simp
    then show ?thesis by (intro keeps_binding_ok[OF keep ob]) (use True in auto)
  qed
  moreover have "key_ok ?n i k" if "i \<in> set ?ids" "?ks i = Some k" for i k
    using that auth_okD(2)[OF ok] by (auto simp: key_ok_def split: if_splits)
  moreover have "layer_ok ?ks raw \<lparr>sl_Layer = layer, sl_MessageID = msgID, sl_ObservationID = ?n,
    sl_ExpiresAt = expiresAt, sl_SharedDefault = False\<rparr>"
    using raw assms(3) by (auto simp: layer_ok_def split: option.splits)
  ultimately show ?thesis unfolding s' using keep
    by (intro auth_ok_rewrite[OF ok]) (auto split: if_splits)
qed

lemma auth_ok_layers:
  assumes ok: "auth_ok s" and "\<And>i n v. ls (i, n) = Some v \<Longrightarrow> layer_ok (ak_keys s) i v"
  shows "auth_ok (s\<lparr>ak_layers := ls\<rparr>)"
  using assms(2) auth_okD[OF ok] by (intro auth_okI) auto

lemma auth_ok_layers_del: "auth_ok s \<Longrightarrow> auth_ok (s\<lparr>ak_layers := (ak_layers s)(k := None)\<rparr>)"
  by (rule auth_ok_layers) (auto dest: auth_okD(4) split: if_splits)

lemma auth_ok_ExpireLayers: "auth_ok s \<Longrightarrow> auth_ok (fst (DeleteExpiredSessionLayers order now s limit))"
proof -
  have "auth_ok s \<Longrightarrow> auth_ok (fst (delete_expired_layers now limit order (s, d)))" for d
    by (induction order arbitrary: s d) (auto simp: auth_ok_layers_del split: option.splits)
  then show "auth_ok s \<Longrightarrow> ?thesis" by (simp add: DeleteExpiredSessionLayers_def)
qed

lemma layer_ok_refresh:
  "layer_ok ks i (c\<lparr>sl_MessageID := m, sl_ExpiresAt := e, sl_SharedDefault := b\<rparr>) = layer_ok ks i c"
  by (simp add: layer_ok_def cong: option.case_cong)

lemma auth_ok_Advance:
  assumes ok: "auth_ok s"
  shows "auth_ok (fst (AdvanceSessionLayer now s raw sess layer msgID))"
proof -
  have refresh: "auth_ok (s\<lparr>ak_layers := (ak_layers s)((raw, sess) \<mapsto>
      c\<lparr>sl_MessageID := msgID, sl_ExpiresAt := e, sl_SharedDefault := False\<rparr>)\<rparr>)"
    if "ak_layers s (raw, sess) = Some c" for c e
  proof (rule auth_ok_layers[OF ok])
    show "layer_ok (ak_keys s) i v" if "((ak_layers s)((raw, sess) \<mapsto>
        c\<lparr>sl_MessageID := msgID, sl_ExpiresAt := e, sl_SharedDefault := False\<rparr>)) (i, n) = Some v" for i n v
      using that auth_okD(4)[OF ok] auth_okD(4)[OF ok \<open>ak_layers s (raw, sess) = Some c\<close>]
      by (auto simp: layer_ok_refresh split: if_splits)
  qed
  show ?thesis
    unfolding AdvanceSessionLayer_def Let_def
    by (auto simp: ok refresh intro!: auth_ok_observe[OF ok] split: option.split)
qed

lemma auth_ok_auths:
  assumes ok: "auth_ok s" and "\<And>i a. as i = Some a \<Longrightarrow> authorization_ok (ak_keys s) i a"
  shows "auth_ok (s\<lparr>ak_auths := as\<rparr>)"
  using assms(2) auth_okD[OF ok] by (intro auth_okI) auto

lemma auth_ok_auth_upd:
  "auth_ok s \<Longrightarrow> authorization_ok (ak_keys s) i a \<Longrightarrow> auth_ok (s\<lparr>ak_auths := (ak_auths s)(i \<mapsto> a)\<rparr>)"
  by (rule auth_ok_auths) (auto dest: auth_okD(5) split: if_splits)

lemma auth_ok_auth_del: "auth_ok s \<Longrightarrow> auth_ok (s\<lparr>ak_auths := (ak_auths s)(i := None)\<rparr>)"
  by (rule auth_ok_auths) (auto dest: auth_okD(5) split: if_splits)

lemma auth_ok_Bind: "auth_ok s \<Longrightarrow> auth_ok (fst (Auth_Bind now s a))"
  using auth_okD(1)[of s]
  by (auto simp: Auth_Bind_def Let_def authorization_ok_def intro!: auth_ok_auth_upd split: option.splits)

lemma auth_ok_step:
  assumes ok: "auth_ok s"
  shows "auth_ok (auth_step x s)"
proof (cases x)
  case (OpGetLayer now raw sess)
  then show ?thesis using ok by (auto simp: GetSessionLayer_def auth_ok_layers_del split: option.split)
next
  case (OpDeleteLayer raw sess)
  then show ?thesis using ok by (simp add: DeleteSessionLayer_def auth_ok_layers_del)
next
  case (OpAuthInfo now i info)
  have "auth_ok (s\<lparr>ak_auths := (ak_auths s)(i := map_option
      (\<lambda>a. (mergeAuthorizationClientInfo now a info)\<lparr>a_Layer := k_Layer key\<rparr>) (ak_auths s i))\<rparr>)"
    if "ak_keys s i = Some key" for key
  proof (cases "ak_auths s i")
    case (Some a)
    then have "authorization_ok (ak_keys s) i ((mergeAuthorizationClientInfo now a info)\<lparr>a_Layer := k_Layer key\<rparr>)"
      using that auth_okD(5)[OF ok Some] by (simp add: authorization_ok_def mergeAuthorizationClientInfo_def)
    then show ?thesis using Some auth_ok_auth_upd[OF ok] by simp
  qed (use auth_ok_auth_del[OF ok] in simp)
  then show ?thesis using OpAuthInfo ok auth_okD(1)[OF ok] by (auto simp: Auth_UpdateClientInfo_def split: option.split)
next
  case (OpPasswordPassed now i u)
  have "authorization_ok (ak_keys s) i (a\<lparr>a_PasswordPending := False, a_CreatedAt := now, a_ActiveAt := now\<rparr>)"
    if "ak_auths s i = Some a" for a
    using auth_okD(5)[OF ok that] by (simp add: authorization_ok_def cong: option.case_cong)
  then show ?thesis using OpPasswordPassed ok
    by (auto simp: MarkPasswordPassed_def intro!: auth_ok_auth_upd split: option.split)
next
  case (OpAuthDelete i)
  then show ?thesis using ok by (simp add: Auth_Delete_def auth_ok_auth_del)
next
  case (OpRevokeByHash order u h)
  have "auth_ok s \<Longrightarrow> auth_ok (fst (DeleteByHash order s u h))"
    by (induction order s u h rule: DeleteByHash.induct)
      (auto simp: Auth_Delete_def auth_ok_auth_del split: option.splits)
  then show ?thesis using OpRevokeByHash ok by (simp add: RevokeByHash_def)
next
  case (OpRevokeExcept order u keep)
  then show ?thesis using ok
    by (auto simp: RevokeByUserExcept_def DeleteByUserExcept_def dest: auth_okD(5)[OF ok]
        intro!: auth_ok_auths[OF ok] split: option.splits if_splits)
qed (use ok in \<open>simp_all add: auth_ok_Save auth_ok_UpdateClientInfo auth_ok_Delete auth_ok_BindTemp auth_ok_DeleteExpired
    auth_ok_Advance auth_ok_ExpireLayers auth_ok_Bind\<close>)

lemma auth_ok_run: "auth_ok s \<Longrightarrow> auth_ok (auth_run xs s)"
  by (induction xs arbitrary: s) (simp_all add: auth_ok_step)

text \<open>
  C35: In every state the stores reach, a bound temporary key and the permanent key it names both exist
  and are of the right kind with the binding's expiry, and the permanent key knows the newer layer
  observation; the layer of a session belongs to a key that exists and is no newer than what the key
  knows; and a user is only ever authorized on a permanent key, with that key's protocol layer.
\<close>

theorem auth_state_invariant:
  assumes "s = auth_run xs auth_init"
  shows "(\<forall>t b. ak_bindings s t = Some b \<longrightarrow> binding_ok (ak_keys s) t b) \<and>
    (\<forall>i n v. ak_layers s (i, n) = Some v \<longrightarrow> layer_ok (ak_keys s) i v) \<and>
    (\<forall>i a. ak_auths s i = Some a \<longrightarrow> authorization_ok (ak_keys s) i a)"
  using auth_ok_run[OF auth_ok_init, of xs] assms by (simp add: auth_ok_def)

section \<open>The identity behind a temporary key\<close>

text \<open>The calls that may delete a key: deleting one, and the sweep of expired ones.\<close>

fun may_delete_keys :: "auth_op \<Rightarrow> bool" where
  "may_delete_keys (OpKeyDelete i) = True"
| "may_delete_keys (OpDeleteExpired order before limit) = True"
| "may_delete_keys x = False"

lemma observe_bindings [simp]: "ak_bindings (fst (observe_layer s raw sess layer msgID e p)) = ak_bindings s"
  by (simp add: observe_layer_def Let_def)

lemma Advance_bindings [simp]: "ak_bindings (fst (AdvanceSessionLayer now s raw sess layer msgID)) = ak_bindings s"
  unfolding AdvanceSessionLayer_def Let_def by (simp split: option.split)

lemma delete_layers_bindings: "ak_bindings (fst (delete_expired_layers now limit order (s, d))) = ak_bindings s"
  by (induction order arbitrary: s d) (auto split: option.splits)

lemma DeleteByHash_bindings: "ak_bindings (fst (DeleteByHash order s u h)) = ak_bindings s"
  by (induction order s u h rule: DeleteByHash.induct) (auto simp: Auth_Delete_def split: option.splits)

lemma Save_bindings: "ak_bindings (fst (Key_Save s k)) = ak_bindings s"
  by (simp add: Key_Save_def Let_def split: option.split)

lemma BindTemp_bindings:
  "ak_bindings s t = Some b \<Longrightarrow>
   \<exists>b'. ak_bindings (fst (SaveWithState s c)) t = Some b' \<and> b_PermAuthKeyID b' = b_PermAuthKeyID b"
  by (auto simp: SaveWithState_def Let_def split: option.splits sum.splits prod.splits if_splits)

lemma bindings_step:
  assumes "ak_bindings s t = Some b" and "\<not> may_delete_keys x"
  shows "\<exists>b'. ak_bindings (auth_step x s) t = Some b' \<and> b_PermAuthKeyID b' = b_PermAuthKeyID b"
proof (cases x)
  case (OpBindTemp c)
  then show ?thesis using BindTemp_bindings[OF assms(1)] by simp
qed (use assms in \<open>simp_all add: Save_bindings Key_UpdateClientInfo_def GetSessionLayer_def DeleteSessionLayer_def
    DeleteExpiredSessionLayers_def delete_layers_bindings Auth_Bind_def Auth_UpdateClientInfo_def MarkPasswordPassed_def
    Auth_Delete_def RevokeByHash_def DeleteByHash_bindings RevokeByUserExcept_def DeleteByUserExcept_def Let_def
    split: option.split\<close>)

text \<open>
  C36: Once a temporary key is bound, it stands for the same permanent key until a key is deleted: no
  later bind request, handshake, login, logout or revocation, in any order, moves it to another
  identity or makes it stand for itself.
\<close>

theorem temp_key_identity:
  assumes "ResolveAuthKey s t = Some p" and "list_all (\<lambda>x. \<not> may_delete_keys x) xs"
  shows "ResolveAuthKey (auth_run xs s) t = Some p"
  using assms
proof (induction xs arbitrary: s)
  case (Cons x xs)
  obtain b where "ak_bindings s t = Some b" "b_PermAuthKeyID b = p"
    using Cons.prems(1) by (auto simp: ResolveAuthKey_def GetByTemp_def)
  then have "ResolveAuthKey (auth_step x s) t = Some p"
    using bindings_step[of s t b x] Cons.prems(2) by (auto simp: ResolveAuthKey_def GetByTemp_def)
  then show ?case using Cons by simp
qed simp

section \<open>Examples\<close>

definition example_key :: "authkey \<Rightarrow> int \<Rightarrow> auth_key" where
  "example_key i expires = \<lparr>k_ID = i, k_Value = [1, 2, 3], k_ServerSalt = 5, k_CreatedAt = 1, k_ExpiresAt = expires, k_Layer = 0,
     k_LayerObservationID = 0, k_DeviceModel = [], k_Platform = [], k_SystemVersion = [], k_APIID = 0, k_AppVersion = []\<rparr>"

definition example_binding :: binding where
  "example_binding = \<lparr>b_TempAuthKeyID = 7, b_PermAuthKeyID = 9, b_Nonce = 1, b_TempSessionID = 2, b_ExpiresAt = 500,
     b_EncryptedMessage = []\<rparr>"

definition example_auth :: authorization where
  "example_auth = \<lparr>a_AuthKeyID = 9, a_UserID = 42, a_Hash = 0, a_Layer = 0, a_DeviceModel = [], a_Platform = [],
     a_SystemVersion = [], a_APIID = 0, a_AppVersion = [], a_IP = [], a_PasswordPending = False, a_CreatedAt = 0, a_ActiveAt = 0\<rparr>"

text \<open>A message sent at second 100 with a lower half of 4, and so fresh at second 200.\<close>

definition example_msg :: int where
  "example_msg = 100 * 2 ^ 32 + 4"

definition auth_setup :: "auth_op list" where
  "auth_setup = [OpKeySave (example_key 9 0), OpKeySave (example_key 7 500), OpBindTemp example_binding]"

definition auth_later :: "auth_op list" where
  "auth_later = [OpBind 3 example_auth, OpAdvance (200 * second) 7 1 158 example_msg, OpAuthDelete 9,
     OpBindTemp (example_binding\<lparr>b_PermAuthKeyID := 8\<rparr>)]"

theorem auth_state_invariant_witness:
  "case ak_auths (auth_run (auth_setup @ take 2 auth_later) auth_init) 9 of
     None \<Rightarrow> False
   | Some a \<Rightarrow> a_Layer a = 158 \<and> authorization_ok (ak_keys (auth_run (auth_setup @ take 2 auth_later) auth_init)) 9 a"
proof -
  let ?s = "auth_run (auth_setup @ take 2 auth_later) auth_init"
  have l: "map_option a_Layer (ak_auths ?s 9) = Some 158" by code_simp
  then obtain a where "ak_auths ?s 9 = Some a" "a_Layer a = 158" by auto
  then show ?thesis using auth_state_invariant[OF refl, of "auth_setup @ take 2 auth_later"] by simp
qed

theorem temp_key_identity_witness:
  "ResolveAuthKey (auth_run auth_later (auth_run auth_setup auth_init)) 7 = Some 9"
proof -
  have "ResolveAuthKey (auth_run auth_setup auth_init) 7 = Some 9" "list_all (\<lambda>x. \<not> may_delete_keys x) auth_later"
    by code_simp+
  then show ?thesis by (rule temp_key_identity)
qed

end
