(* ===== verification/Sign_In_Properties.thy ===== *)
theory Sign_In_Properties
  imports Login_Properties Auth_Properties
begin

text \<open>
  Properties of signing in and up, over the code store and the authorizations together. They hold
  whatever other requests do between the calls of the request.
\<close>

section \<open>The account behind a code\<close>

lemma VerifyLogin_accepted:
  assumes "VerifyLogin now tok s hash phone code keep d = (s', Inr v)" and "vr_Status v = LoginCodeVerifyAccepted"
  shows "pc_Code (vr_Record v) = code \<and> (keep \<longrightarrow> pc_SignUpVerified (vr_Record v)) \<and> (\<not> keep \<longrightarrow> cs_m s' hash = None)"
proof -
  obtain s0 eo where l: "liveCodeLocked now s hash = (s0, eo)" by (cases "liveCodeLocked now s hash")
  then show ?thesis
  proof (cases rule: liveCodeLocked_cases)
    case (live e)
    have w: "\<not> (wrong_code tok s hash e d = (s', Inr v))"
      using wrong_code_res[of tok s hash e d s' "Inr v"] assms(2) by auto
    show ?thesis using assms w unfolding VerifyLogin_def l live Let_def
      by (auto simp: verify_missing_def split: if_splits option.splits)
  qed (use assms l in \<open>auto simp: VerifyLogin_def verify_missing_def\<close>)
qed

lemma verify_answer_ok:
  assumes "verify_answer cfg phone uo v = Inr (r, uo')"
  shows "vr_Status v = LoginCodeVerifyAccepted" and "r = vr_Record v" and "uo' = uo" and "pc_Phone r = phone"
    and "pc_IssuedUserID r = owner_id uo" and "uo = Some u \<Longrightarrow> \<not> systemUserLoginForbidden cfg u"
  using assms by (auto simp: verify_answer_def split: verify_status.splits if_splits)

text \<open>
  C30: A login code signs in the account it was issued for and no other. Whatever other requests do
  meanwhile, when a code is accepted the caller presented the phone and the exact code of a record
  that was issued for the account that owns the phone, and that account owned it both before and after
  the check; a code issued while the phone had no account never signs into an account that acquires
  the phone later, but at most allows a sign-up while the phone is free. Signing into an account uses
  the code up.
\<close>

theorem sign_in_owner_bound:
  assumes "verifyLoginCode cfg e s phone hash code = (s', Inr (r, uo))"
    and ids: "\<forall>k u. le_owner e k = Inr (Some u) \<longrightarrow> u_ID u \<noteq> 0"
  shows "pc_Phone r = phone \<and> pc_Code r = code \<and> pc_IssuedUserID r = owner_id uo \<and> le_owner e 1 = Inr uo \<and>
    (\<exists>before. le_owner e 0 = Inr before \<and> owner_id before = owner_id uo) \<and>
    (case uo of
       Some u \<Rightarrow> \<not> systemUserLoginForbidden cfg u \<and> cs_m s' hash = None
     | None \<Rightarrow> pc_IssuedUserID r = 0 \<and> pc_SignUpVerified r)"
proof -
  obtain s0 rec where g: "Code_Get (le_now e 0) (le_codes e 0 s) hash = (s0, Some rec)"
    using assms(1) by (auto simp: verifyLoginCode_def split: prod.splits option.splits)
  note u = assms(1)[unfolded verifyLoginCode_def g prod.case option.case]
  have rec: "pc_Version rec = PhoneCodeVersionCurrent" "pc_Phone rec = phone" "LoginCodeChannelVerifiable (pc_Channel rec)"
    using u by (auto split: if_splits)
  obtain before where b: "le_owner e 0 = Inr before" using u rec by (auto split: if_splits sum.splits)
  have i: "pc_IssuedUserID rec = owner_id before" using u rec b by (auto split: if_splits)
  show ?thesis
  proof (cases "pc_SignUpVerified rec")
    case True
    then have "before = None" "pc_Code rec = code" "r = rec" "uo = None" "le_owner e 1 = Inr None"
      using u rec b i by (auto split: if_splits sum.splits)
    then show ?thesis using rec i b True by (simp add: owner_id_def)
  next
    case False
    obtain s1 v where v: "VerifyLogin (le_now e 1) (le_tok e) (le_codes e 1 s0) hash phone code (before = None)
        (lc_maxAttempts cfg) = (s1, Inr v)"
      using u rec b i False by (auto split: if_splits sum.splits prod.splits)
    obtain after where a: "le_owner e 1 = Inr after" using u rec b i False v by (auto split: if_splits sum.splits)
    have f: "verify_answer cfg phone after v = Inr (r, uo)" "s' = s1" "owner_id before = owner_id after"
      using u rec b i False v a by (auto split: if_splits)
    note ok = verify_answer_ok[OF f(1)]
    note acc = VerifyLogin_accepted[OF v ok(1)]
    have "before = None \<longleftrightarrow> uo = None"
      using f(3) ok(3) ids a b by (cases before; cases after) (auto simp: owner_id_def)
    then show ?thesis using ok acc f a b by (auto simp: owner_id_def split: option.splits)
  qed
qed

section \<open>Two-step verification\<close>

text \<open>The key is not signed in: no authorization, or one that waits for the password.\<close>

definition gated :: "auth_state \<Rightarrow> authkey \<Rightarrow> bool" where
  "gated s i = (case ak_auths s i of None \<Rightarrow> True | Some a \<Rightarrow> a_PasswordPending a)"

text \<open>
  The calls that sign a key in: binding an authorization that does not wait for a password, and
  passing the password.
\<close>

fun signs_in :: "authkey \<Rightarrow> auth_op \<Rightarrow> bool" where
  "signs_in i (OpBind now a) = (a_AuthKeyID a = i \<and> \<not> a_PasswordPending a)"
| "signs_in i (OpPasswordPassed now j u) = (j = i)"
| "signs_in i x = False"

lemma gated_mirror [simp]: "gated (mirrorAuthorizationLayersLocked s ids l) i = gated s i"
  by (auto simp: gated_def mirrorAuthorizationLayersLocked_def split: option.splits)

lemma gated_cong: "ak_auths s' i = ak_auths s i \<Longrightarrow> gated s' i = gated s i"
  by (simp add: gated_def)

lemma gated_updates [simp]:
  "gated (s\<lparr>ak_keys := a\<rparr>) i = gated s i" "gated (s\<lparr>ak_bindings := b\<rparr>) i = gated s i"
  "gated (s\<lparr>ak_layers := c\<rparr>) i = gated s i" "gated (s\<lparr>ak_next := d\<rparr>) i = gated s i"
  by (simp_all add: gated_def)

lemma gated_map:
  "(\<And>a. a_PasswordPending (f a) = a_PasswordPending a) \<Longrightarrow>
   gated (s\<lparr>ak_auths := (ak_auths s)(j := map_option f (ak_auths s j))\<rparr>) i = gated s i"
  by (simp add: gated_def split: option.split)

lemma gated_deleteMirrors: "gated s i \<Longrightarrow> gated (deleteAuthorizationMirrorsLocked s p) i"
  by (auto simp: gated_def deleteAuthorizationMirrorsLocked_def)

lemma gated_forget [simp]: "gated (forget_keys s p) i = gated s i"
  by (simp add: forget_keys_def)

lemma gated_Delete: "gated s i \<Longrightarrow> gated (Key_Delete s j) i"
  by (auto simp: Key_Delete_def deleteProtocolAuthKeyLocked_def deleteSessionLayersLocked_def Let_def
      intro!: gated_deleteMirrors split: option.splits)

lemma gated_DeleteExpired: "gated s i \<Longrightarrow> gated (fst (delete_expired before limit order (s, d))) i"
  by (induction order arbitrary: s d) (auto simp: gated_deleteMirrors split: option.splits)

lemma gated_ExpireLayers: "gated (fst (delete_expired_layers now limit order (s, d))) i = gated s i"
  by (induction order arbitrary: s d) (auto split: option.splits)

lemma gated_Advance: "gated (fst (AdvanceSessionLayer now s raw sess layer msgID)) i = gated s i"
  unfolding AdvanceSessionLayer_def observe_layer_def Let_def by (simp split: option.split)

lemma gated_DeleteByHash: "gated s i \<Longrightarrow> gated (fst (DeleteByHash order s u h)) i"
  by (induction order s u h rule: DeleteByHash.induct) (auto simp: gated_def Auth_Delete_def split: option.splits)

lemma gated_step:
  assumes "gated s i" and "\<not> signs_in i x"
  shows "gated (auth_step x s) i"
proof (cases x)
  case (OpKeySave k)
  then show ?thesis using assms(1) by (simp add: Key_Save_def Let_def split: option.split)
next
  case (OpKeyInfo j info)
  then show ?thesis using assms(1) by (simp add: Key_UpdateClientInfo_def Let_def split: option.split)
next
  case (OpBindTemp b)
  then show ?thesis using assms(1) by (simp add: SaveWithState_def Let_def split: option.split sum.split prod.split)
next
  case (OpGetLayer now raw sess)
  then show ?thesis using assms(1) by (simp add: GetSessionLayer_def split: option.split)
next
  case (OpBind now a)
  then show ?thesis using assms
    by (auto simp: Auth_Bind_def Let_def gated_def split: option.splits)
next
  case (OpAuthInfo now j info)
  then show ?thesis using assms(1)
    by (simp add: Auth_UpdateClientInfo_def gated_map mergeAuthorizationClientInfo_def split: option.split)
next
  case (OpPasswordPassed now j u)
  then show ?thesis using assms by (auto simp: MarkPasswordPassed_def gated_def split: option.splits)
next
  case (OpRevokeExcept order u keep)
  then show ?thesis using assms(1)
    by (auto simp: RevokeByUserExcept_def DeleteByUserExcept_def gated_def split: option.splits)
qed (use assms(1) in \<open>simp_all add: gated_Delete gated_DeleteExpired gated_ExpireLayers gated_Advance gated_DeleteByHash
    DeleteExpired_def DeleteExpiredSessionLayers_def DeleteSessionLayer_def RevokeByHash_def,
    simp add: gated_def Auth_Delete_def\<close>)

lemma gated_run: "gated s i \<Longrightarrow> list_all (\<lambda>x. \<not> signs_in i x) xs \<Longrightarrow> gated (auth_run xs s) i"
  by (induction xs arbitrary: s) (simp_all add: gated_step)

lemma gated_UserID: "gated s i \<Longrightarrow> svc_UserID cfg byID s i = (s, Inr None)"
  by (auto simp: gated_def svc_UserID_def ByAuthKey_def split: option.splits)

lemma gated_Bind: "gated s i \<Longrightarrow> a_PasswordPending a \<Longrightarrow> gated (fst (Auth_Bind now s a)) i"
  by (auto simp: Auth_Bind_def Let_def gated_def split: option.splits)

lemma gated_bind_user:
  assumes "gated s i" and "gated (le_auths e s) i" and "a_PasswordPending auth"
  shows "gated (fst (bind_user cfg e s auth u)) i"
proof -
  have "gated (fst (Auth_Bind (le_now e 3) (le_auths e s) (auth\<lparr>a_UserID := u\<rparr>))) i"
    using gated_Bind[OF assms(2)] assms(3) by simp
  then show ?thesis using assms(1)
    by (auto simp: bind_user_def split: sum.splits option.splits prod.splits auth_error.splits)
qed

lemma finishSignIn_password:
  assumes "le_password e = Inr True" and "gated s i" and "gated (le_auths e s) i"
  shows "gated (fst (finishSignIn cfg e s auth u)) i" and "isl (snd (finishSignIn cfg e s auth u))"
  using gated_bind_user[OF assms(2,3), of "auth\<lparr>a_PasswordPending := True\<rparr>" cfg "u_ID u"] assms
  by (auto simp: finishSignIn_def split: prod.splits option.splits)

text \<open>
  C31: Two-step verification cannot be skipped. Signing in with a code to an account that has a
  password never signs the key in, whatever the code store and the other requests do, as long as none
  of them signs that key in during the call, and no sequence of later calls changes that short of a new sign-in of that key without a password or the password
  check itself: until then every request on the key is treated as not signed in, whatever handshakes,
  refreshes, revocations or sweeps happen.
\<close>

theorem password_gate:
  assumes "SignIn norm_phone cfg e cs s auth phone hash code = (cs', s', r)"
    and "le_password e = Inr True" and "gated s i" and "gated (le_auths e s) i"
    and "list_all (\<lambda>x. \<not> signs_in i x) xs"
  shows "(\<forall>u. r \<noteq> Inr (Some u)) \<and> snd (svc_UserID cfg byID (auth_run xs s') i) = Inr None"
proof -
  have "gated s' i \<and> (\<forall>u. r \<noteq> Inr (Some u))"
    using assms(1,3) finishSignIn_password[OF assms(2-4), of cfg auth] unfolding SignIn_def Let_def
    by (auto split: if_splits prod.splits sum.splits option.splits) (metis fst_conv snd_conv sum.disc(2))+
  then show ?thesis using gated_UserID[OF gated_run[OF _ assms(5)]] by simp
qed

section \<open>Signing up\<close>

lemma ConsumeSignUp_taken:
  "ConsumeSignUpVerified now s hash phone = (s', Some r) \<Longrightarrow>
   pc_SignUpVerified r \<and> pc_Phone r = phone \<and> pc_IssuedUserID r = 0 \<and> cs_m s' hash = None"
  by (auto simp: ConsumeSignUpVerified_def take_code_def elim!: liveCodeLocked_cases
      split: prod.splits option.splits if_splits)

text \<open>
  The records that the callers of the store write are not marked as verified; only \<open>VerifyLogin\<close> sets
  the mark.
\<close>

fun writes_unverified :: "code_op \<Rightarrow> bool" where
  "writes_unverified (OpSet now tok h c ttl) \<longleftrightarrow> \<not> pc_SignUpVerified c"
| "writes_unverified (OpCompareAndUpdate now tok h er c) \<longleftrightarrow> \<not> pc_SignUpVerified c"
| "writes_unverified x \<longleftrightarrow> True"

text \<open>A call that marked \<open>r\<close>: a verification for sign-up with the phone and the code of the record, accepted.\<close>

definition marked_by :: "string \<Rightarrow> phone_code \<Rightarrow> code_op \<times> code_res \<Rightarrow> bool" where
  "marked_by h r xr \<longleftrightarrow> (\<exists>now tok d v. xr = (OpVerifyLogin now tok h (pc_Phone r) (pc_Code r) True d, RVerify (Inr v)) \<and>
     vr_Status v = LoginCodeVerifyAccepted \<and> vr_Record v = r)"

lemma VerifyLogin_marks:
  assumes "VerifyLogin now tok s h p c k d = (s', r)" and "cs_m s' h = Some e'" and "pc_SignUpVerified (ce_code e')"
  shows "cs_m s h = Some e' \<or> marked_by h (ce_code e') (OpVerifyLogin now tok h p c k d, RVerify r)"
proof -
  obtain s0 eo where l: "liveCodeLocked now s h = (s0, eo)" by (cases "liveCodeLocked now s h")
  then show ?thesis
  proof (cases rule: liveCodeLocked_cases)
    case (live e)
    have w: "wrong_code tok s h e d = (s', r) \<Longrightarrow> \<not> pc_SignUpVerified (ce_code e) \<Longrightarrow> False"
      using assms(2,3) live by (auto simp: wrong_code_def Let_def put_code_def split: option.splits if_splits)
    show ?thesis
    proof (cases "s' = s")
      case False
      then show ?thesis using assms(1) w unfolding VerifyLogin_def l live(1,2) Let_def
        using assms(2,3) by (auto simp: marked_by_def put_code_def split: if_splits option.splits)
    qed (use assms(2) in simp)
  qed (use assms l in \<open>auto simp: VerifyLogin_def\<close>)
qed

lemma VerifyScoped_unmarked:
  assumes "VerifyScoped now tok s h sc c d = (s', r)" and "cs_m s' h = Some e'" and "pc_SignUpVerified (ce_code e')"
  shows "cs_m s h = Some e'"
proof (cases "Scope_Valid sc \<and> scope_hash s sc = h")
  case True
  obtain s0 eo where l: "liveCodeLocked now s h = (s0, eo)" by (cases "liveCodeLocked now s h")
  then show ?thesis
  proof (cases rule: liveCodeLocked_cases)
    case (live e)
    have w: "wrong_code tok s h e d = (s', r) \<Longrightarrow> \<not> pc_SignUpVerified (ce_code e) \<Longrightarrow> False"
      using assms(2,3) live by (auto simp: wrong_code_def Let_def put_code_def split: option.splits if_splits)
    show ?thesis
      using assms w live unfolding VerifyScoped_live[OF conjunct1[OF True] conjunct2[OF True] l[unfolded live(1,2)]]
      by (auto simp: drop_scope_def split: if_splits)
  next
    case missing
    then show ?thesis using eq_scoped_missing[OF True l[unfolded missing(1)]] assms by (auto simp: drop_scope_def split: if_splits)
  next
    case (expired e)
    then show ?thesis using eq_scoped_missing[OF True l[unfolded expired(1)]] assms by (auto simp: drop_scope_def split: if_splits)
  qed
qed (use assms in \<open>auto simp: VerifyScoped_def\<close>)

lemma CompareAndUpdate_unmarked:
  assumes "CompareAndUpdate now tok s h er c = (s', r)" and "\<not> pc_SignUpVerified c" and "cs_m s' h = Some e'"
    and "pc_SignUpVerified (ce_code e')"
  shows "cs_m s h = Some e'"
  using assms by (auto simp: CompareAndUpdate_def put_code_def elim!: liveCodeLocked_cases split: if_splits option.splits prod.splits)

lemma mark_step:
  assumes "code_step x s = (s', r)" and "writes_unverified x" and "cs_m s' h = Some e'" and "pc_SignUpVerified (ce_code e')"
  shows "cs_m s h = Some e' \<or> marked_by h (ce_code e') (x, r)"
proof (cases "op_hash x = h")
  case False
  then show ?thesis using step_elsewhere[OF False, of s] assms(1,3) by auto
next
  case True
  have keep: "cs_m s' h = cs_m s h \<or> cs_m s' h = None"
    if "take_code ok now s h = (s', c)" for ok now c
    using take_code_effect[OF that] by auto
  show ?thesis
  proof (cases x)
    case (OpVerifyLogin now tok h' p c k d)
    then show ?thesis using assms True VerifyLogin_marks[of now tok s h p c k d] by (cases "VerifyLogin now tok s h p c k d") auto
  next
    case (OpVerifyScoped now tok h' sc c d)
    then show ?thesis using assms True VerifyScoped_unmarked[of now tok s h sc c d] by (cases "VerifyScoped now tok s h sc c d") auto
  next
    case (OpCompareAndUpdate now tok h' er c)
    then show ?thesis using assms True CompareAndUpdate_unmarked[of now tok s h er c] by (cases "CompareAndUpdate now tok s h er c") auto
  next
    case (OpSet now tok h' c ttl)
    then show ?thesis using assms True by (auto simp: Code_Set_def Let_def put_code_def split: option.splits)
  next
    case (OpConsumeScoped now h' sc)
    then show ?thesis using assms True by (auto simp: ConsumeScoped_def Let_def split: option.splits if_splits)
  next
    case (OpConsumeSignUp now h' p)
    then show ?thesis using assms True keep by (auto simp: ConsumeSignUpVerified_def map_prod_def split: prod.splits)
  next
    case (OpTake now h' p)
    then show ?thesis using assms True keep by (auto simp: TakeLoginCode_def map_prod_def split: prod.splits)
  next
    case (OpInvalidate now h' p)
    then show ?thesis using assms True keep by (auto simp: InvalidateLoginCode_def map_prod_def split: prod.splits)
  qed (use assms True in \<open>auto simp: Code_Get_def Code_Del_def GetSnapshot_def CompareAndDelete_def
      elim!: liveCodeLocked_cases split: option.splits if_splits prod.splits\<close>)
qed

lemma mark_run:
  assumes "list_all writes_unverified xs" and "cs_m (fst (code_run xs s)) h = Some e'" and "pc_SignUpVerified (ce_code e')"
  shows "cs_m s h = Some e' \<or> (\<exists>xr \<in> set (snd (code_run xs s)). marked_by h (ce_code e') xr)"
  using assms(1,2)
proof (induction xs arbitrary: s)
  case (Cons x xs)
  obtain s1 r where e: "code_step x s = (s1, r)" by (cases "code_step x s")
  from Cons.IH[of s1] Cons.prems have "cs_m s1 h = Some e' \<or> (\<exists>xr \<in> set (snd (code_run xs s1)). marked_by h (ce_code e') xr)"
    unfolding code_run_Cons[OF e] by simp
  then show ?case using mark_step[OF e _ _ assms(3)] Cons.prems(1) unfolding code_run_Cons[OF e] by auto
qed simp

lemma code_run_append:
  "code_run (xs @ ys) s = (fst (code_run ys (fst (code_run xs s))), snd (code_run xs s) @ snd (code_run ys (fst (code_run xs s))))"
  by (induction xs arbitrary: s) (simp_all split: prod.splits)

lemma gone_step: "code_step x s = (s', r) \<Longrightarrow> \<not> issues h x \<Longrightarrow> cs_m s h = None \<Longrightarrow> cs_m s' h = None"
proof -
  assume e: "code_step x s = (s', r)" and i: "\<not> issues h x" and n: "cs_m s h = None"
  have "\<exists>d. default_within d x" by (cases x) auto
  then obtain d where "default_within d x" ..
  from spends_step[OF e i this] n show ?thesis by (auto simp: spends_def may_claim_def split: option.splits)
qed

lemma gone_run: "list_all (\<lambda>x. \<not> issues h x) xs \<Longrightarrow> cs_m s h = None \<Longrightarrow> cs_m (fst (code_run xs s)) h = None"
proof (induction xs arbitrary: s)
  case (Cons x xs)
  obtain s1 r where e: "code_step x s = (s1, r)" by (cases "code_step x s")
  then show ?case using gone_step[OF e] Cons unfolding code_run_Cons[OF e] by auto
qed simp

lemma SignUp_gone:
  assumes "cs_m (le_codes e 0 cs) hash = None"
  shows "snd (snd (SignUp norm_phone cfg e cs s auth phone hash firstName lastName)) \<noteq> Inr u"
  using assms by (auto simp: SignUp_def Let_def Code_Get_def)

text \<open>
  C32: An account is created only for a verified phone. Start with an empty code store and let any
  requests use it, before and during the call, none of which writes a record already marked as verified.
  When signing up succeeds, some earlier verification was given that hash, that phone and the exact code of
  the record, was accepted and marked the record; the record was issued while the phone had no
  account, and it is the one that the sign-up consumed; the phone had no account before and after that.
  From then on no sign-up with that hash succeeds, whatever requests follow, until a new code is written
  under it.
\<close>

theorem sign_up_needs_verified_code:
  assumes "SignUp norm_phone cfg e cs s auth phone hash firstName lastName = (cs', s', Inr u)"
    and "cs = fst (code_run xs NewCodeStore)" and "\<forall>k c. le_codes e k c = fst (code_run (ys k) c)"
    and "list_all writes_unverified (xs @ ys 0 @ ys 1)"
  shows "\<exists>cs1 r now tok d v.
      (OpVerifyLogin now tok hash (norm_phone phone) (pc_Code r) True d, RVerify (Inr v)) \<in>
        set (snd (code_run (xs @ ys 0 @ OpGet (le_now e 0) hash # ys 1) NewCodeStore)) \<and>
      vr_Status v = LoginCodeVerifyAccepted \<and> vr_Record v = r \<and>
      cs1 = fst (code_run (xs @ ys 0 @ OpGet (le_now e 0) hash # ys 1) NewCodeStore) \<and>
      ConsumeSignUpVerified (le_now e 1) cs1 hash (norm_phone phone) = (cs', Some r) \<and>
      pc_Phone r = norm_phone phone \<and> pc_IssuedUserID r = 0 \<and>
      le_owner e 0 = Inr None \<and> le_owner e 1 = Inr None \<and> le_created e = Inr u \<and>
      (\<forall>zs e' t auth' phone' first' last' u'. list_all (\<lambda>x. \<not> issues hash x) zs \<longrightarrow>
         le_codes e' 0 cs' = fst (code_run zs cs') \<longrightarrow>
         snd (snd (SignUp norm_phone cfg e' cs' t auth' phone' hash first' last')) \<noteq> Inr u')"
proof -
  let ?T = "xs @ ys 0 @ OpGet (le_now e 0) hash # ys 1"
  obtain cs0 r0 where g: "Code_Get (le_now e 0) (le_codes e 0 cs) hash = (cs0, Some r0)"
    using assms(1) by (auto simp: SignUp_def Let_def split: if_splits prod.splits option.splits)
  note u = assms(1)[unfolded SignUp_def Let_def g prod.case option.case]
  obtain cs2 r where c: "ConsumeSignUpVerified (le_now e 1) (le_codes e 1 cs0) hash (norm_phone phone) = (cs2, Some r)"
    using u by (auto split: if_splits prod.splits option.splits sum.splits)
  have own: "cs' = cs2" "le_owner e 0 = Inr None" "le_owner e 1 = Inr None" "le_created e = Inr u"
    using u unfolding c prod.case option.case
    by (auto split: if_splits option.splits sum.splits prod.splits)
  have run: "le_codes e 1 cs0 = fst (code_run ?T NewCodeStore)"
    using g assms(2,3) by (simp add: code_run_append split: prod.splits)
  note taken = ConsumeSignUp_taken[OF c]
  from c obtain en where en: "cs_m (le_codes e 1 cs0) hash = Some en" "ce_code en = r"
    by (auto simp: ConsumeSignUpVerified_def take_code_def elim!: liveCodeLocked_cases split: prod.splits option.splits if_splits)
  have "list_all writes_unverified ?T" using assms(4) by simp
  from mark_run[OF this, of NewCodeStore hash en] en taken run
  obtain xr where "xr \<in> set (snd (code_run ?T NewCodeStore))" "marked_by hash r xr"
    by (auto simp: NewCodeStore_def)
  then obtain now tok d v where m: "(OpVerifyLogin now tok hash (norm_phone phone) (pc_Code r) True d, RVerify (Inr v)) \<in>
      set (snd (code_run ?T NewCodeStore))" "vr_Status v = LoginCodeVerifyAccepted" "vr_Record v = r"
    using taken by (auto simp: marked_by_def)
  have "snd (snd (SignUp norm_phone cfg e' cs' t auth' phone' hash first' last')) \<noteq> Inr u'"
    if "list_all (\<lambda>x. \<not> issues hash x) zs" "le_codes e' 0 cs' = fst (code_run zs cs')"
    for zs e' t auth' phone' first' last' u'
    using SignUp_gone[of e' cs' hash] gone_run[OF that(1)] that(2) taken own(1) by simp
  then show ?thesis using m c own run taken by metis
qed

section \<open>Examples\<close>

definition example_env :: "auth_user option \<Rightarrow> bool \<Rightarrow> login_env" where
  "example_env owner pw = \<lparr>le_now = (\<lambda>_. 10), le_tok = Some ''t'', le_codes = (\<lambda>_ s. s), le_auths = (\<lambda>s. s),
     le_owner = (\<lambda>_. Inr owner), le_user = Inr (Some \<lparr>u_ID = 42, u_Deleted = False\<rparr>), le_password = Inr pw,
     le_created = Inr \<lparr>u_ID = 42, u_Deleted = False\<rparr>, le_email = None, le_message = None\<rparr>"

definition example_user :: auth_user where
  "example_user = \<lparr>u_ID = 42, u_Deleted = False\<rparr>"

definition example_cfg :: login_cfg where
  "example_cfg = \<lparr>lc_maxAttempts = 5, lc_premiumBot = 1250000015, lc_requireEmailSetup = False, lc_loginEmails = False\<rparr>"

definition codes_for :: "userid \<Rightarrow> code_store" where
  "codes_for u = fst (Code_Set 0 (Some ''r'') NewCodeStore ''h'' (example_code\<lparr>pc_IssuedUserID := u\<rparr>) 100)"

theorem sign_in_owner_bound_witness:
  "case verifyLoginCode example_cfg (example_env (Some example_user) False) (codes_for 42) ''15550001'' ''h'' ''12345'' of
     (s', Inr (r, Some u)) \<Rightarrow> pc_IssuedUserID r = 42 \<and> u_ID u = 42 \<and> cs_m s' ''h'' = None
   | _ \<Rightarrow> False"
proof -
  let ?v = "verifyLoginCode example_cfg (example_env (Some example_user) False) (codes_for 42) ''15550001'' ''h'' ''12345''"
  have "case snd ?v of Inr (_, Some u) \<Rightarrow> u_ID u = 42 | _ \<Rightarrow> False" by code_simp
  then obtain s' r u where v: "?v = (s', Inr (r, Some u))" "u_ID u = 42"
    by (cases ?v) (auto split: sum.splits option.splits)
  have "\<forall>k u. le_owner (example_env (Some example_user) False) k = Inr (Some u) \<longrightarrow> u_ID u \<noteq> 0"
    by (simp add: example_env_def example_user_def)
  from sign_in_owner_bound[OF v(1) this] v show ?thesis by (simp add: owner_id_def)
qed

theorem password_gate_witness:
  "case SignIn id example_cfg (example_env (Some example_user) True) (codes_for 42) (auth_run auth_setup auth_init)
     example_auth ''15550001'' ''h'' ''12345'' of
   (_, s', r) \<Rightarrow> r = Inl ErrSessionPasswordNeeded \<and>
     snd (svc_UserID example_cfg (\<lambda>_. Inr (Some example_user)) (auth_run [OpAuthInfo 20 9
       \<lparr>ci_Layer = 0, ci_DeviceModel = ''x'', ci_Platform = [], ci_SystemVersion = [], ci_APIID = 0, ci_AppVersion = [], ci_IP = []\<rparr>] s') 9)
       = Inr None"
proof -
  let ?e = "example_env (Some example_user) True" and ?s = "auth_run auth_setup auth_init"
  let ?x = "[OpAuthInfo 20 9 \<lparr>ci_Layer = 0, ci_DeviceModel = ''x'', ci_Platform = [], ci_SystemVersion = [],
    ci_APIID = 0, ci_AppVersion = [], ci_IP = []\<rparr>]"
  let ?r = "SignIn id example_cfg ?e (codes_for 42) ?s example_auth ''15550001'' ''h'' ''12345''"
  obtain cs' s' r where r: "?r = (cs', s', r)" by (rule prod_cases3)
  have "snd (snd ?r) = Inl ErrSessionPasswordNeeded" by code_simp
  moreover have "le_password ?e = Inr True" "gated ?s 9" "gated (le_auths ?e ?s) 9" "list_all (\<lambda>x. \<not> signs_in 9 x) ?x"
    by code_simp+
  ultimately show ?thesis using password_gate[OF r, of 9 ?x "\<lambda>_. Inr (Some example_user)"] r by simp
qed

definition verified_codes :: code_store where
  "verified_codes = fst (verifyLoginCode example_cfg (example_env None False) (codes_for 0) ''15550001'' ''h'' ''12345'')"

lemma example_name: "strings_TrimSpace ''Ann'' = ''Ann''" "utf8_RuneCount ''Ann'' = 3"
    "strings_TrimSpace [] = []" "utf8_RuneCount [] = 0"
  by (simp_all add: strings_TrimSpace_def utf8_RuneCount_def utf8_step_def unicode_space_def char_nat_def)

lemma verified_codes_eq:
  "verified_codes = put_code NewCodeStore ''h'' \<lparr>ce_code = example_code\<lparr>pc_SignUpVerified := True, pc_Revision := ''t''\<rparr>,
     ce_expires = 100\<rparr>"
  by (simp add: verified_codes_def verifyLoginCode_def codes_for_def example_env_def example_cfg_def example_code_def
      zero_code_def Code_Set_def Code_Get_def VerifyLogin_def liveCodeLocked_def put_code_def NewCodeStore_def Scope_Valid_def
      Scope_def Let_def PhoneCodeVersionCurrent_def LoginCodeChannelVerifiable_def PhoneCodeChannelPhone_def owner_id_def
      verify_answer_def)

text \<open>The store after a code was issued for the phone and verified for a sign-up.\<close>

definition verified_ops :: "code_op list" where
  "verified_ops = [OpSet 0 (Some ''r'') ''h'' example_code 100, OpVerifyLogin 10 (Some ''t'') ''h'' ''15550001'' ''12345'' True 5]"

lemma verified_ops_run: "fst (code_run verified_ops NewCodeStore) = verified_codes"
  unfolding verified_codes_eq
  by (simp add: verified_ops_def example_code_def zero_code_def Code_Set_def VerifyLogin_def liveCodeLocked_def put_code_def
      NewCodeStore_def Scope_Valid_def Scope_def Let_def PhoneCodeVersionCurrent_def LoginCodeChannelVerifiable_def
      PhoneCodeChannelPhone_def)

theorem sign_up_needs_verified_code_witness:
  "\<exists>cs' s' u r now tok d v.
     SignUp id example_cfg (example_env None False) (fst (code_run verified_ops NewCodeStore)) (auth_run auth_setup auth_init)
       example_auth ''15550001'' ''h'' ''Ann'' [] = (cs', s', Inr u) \<and> u_ID u = 42 \<and>
     (OpVerifyLogin now tok ''h'' ''15550001'' (pc_Code r) True d, RVerify (Inr v)) \<in>
       set (snd (code_run (verified_ops @ [OpGet 10 ''h'']) NewCodeStore)) \<and>
     vr_Status v = LoginCodeVerifyAccepted \<and> vr_Record v = r \<and> pc_Phone r = ''15550001'' \<and>
     snd (snd (SignUp id example_cfg (example_env None False) cs' s' example_auth ''15550001'' ''h'' ''Ann'' [])) \<noteq> Inr u"
proof -
  let ?r = "SignUp id example_cfg (example_env None False) verified_codes (auth_run auth_setup auth_init) example_auth
     ''15550001'' ''h'' ''Ann'' []"
  obtain cs' s' r where r: "?r = (cs', s', r)" by (rule prod_cases3)
  have k: "Key_Get (auth_run auth_setup auth_init) 9 \<noteq> None"
    "map_option k_ExpiresAt (Key_Get (auth_run auth_setup auth_init) 9) = Some 0"
    "snd (Auth_Bind 10 (auth_run auth_setup auth_init) (example_auth\<lparr>a_UserID := 42\<rparr>)) = None"
    by code_simp+
  have "case snd (snd ?r) of Inr u \<Rightarrow> u_ID u = 42 | _ \<Rightarrow> False"
    using k by (auto simp: SignUp_def verified_codes_eq example_name Let_def systemLoginPhoneForbidden_def example_env_def
        example_cfg_def Code_Get_def put_code_def NewCodeStore_def example_code_def zero_code_def ConsumeSignUpVerified_def
        take_code_def liveCodeLocked_def PhoneCodeVersionCurrent_def LoginCodeChannelVerifiable_def PhoneCodeChannelPhone_def
        bind_user_def systemUserLoginForbidden_def IsSystemUserID_def example_auth_def split: prod.split option.split)
  then obtain u where u: "?r = (cs', s', Inr u)" "u_ID u = 42" using r by (auto split: sum.splits)
  have env: "\<forall>k c. le_codes (example_env None False) k c = fst (code_run [] c)" "le_now (example_env None False) 0 = 10"
    by (simp_all add: example_env_def)
  have w: "list_all writes_unverified (verified_ops @ [] @ [])" by code_simp
  from sign_up_needs_verified_code[OF u(1) verified_ops_run[symmetric] env(1) w]
  obtain r now tok d v where v: "(OpVerifyLogin now tok ''h'' ''15550001'' (pc_Code r) True d, RVerify (Inr v)) \<in>
       set (snd (code_run (verified_ops @ [OpGet 10 ''h'']) NewCodeStore))"
     "vr_Status v = LoginCodeVerifyAccepted" "vr_Record v = r" "pc_Phone r = ''15550001''"
     and again: "\<forall>zs e' t auth' phone' first' last' u'. list_all (\<lambda>x. \<not> issues ''h'' x) zs \<longrightarrow>
         le_codes e' 0 cs' = fst (code_run zs cs') \<longrightarrow>
         snd (snd (SignUp id example_cfg e' cs' t auth' phone' ''h'' first' last')) \<noteq> Inr u'"
    by (auto simp: env(2))
  have "snd (snd (SignUp id example_cfg (example_env None False) cs' s' example_auth ''15550001'' ''h'' ''Ann'' [])) \<noteq> Inr u"
    using again[rule_format, of "[]" "example_env None False"] env(1) by simp
  then show ?thesis using u v unfolding verified_ops_run by blast
qed

end
