(* ===== verification/Bulk_Scheduler.thy ===== *)
theory Bulk_Scheduler
  imports SG_Prelude
begin

text \<open>
  Admission of bulk requests (file downloads): \<open>internal/mtprotoedge/bulk_rpc_scheduler.go\<close>, the credit
  window of a session (\<open>outboundBulkCredit\<close> in \<open>outbound.go\<close>) and the gate of a request
  (\<open>inboundRPCGate\<close> in \<open>inbound_rpc.go\<close>). The scheduler and the window are the same queue of leases, in
  the code line by line, so one group of definitions models both.

  A lease is named by the position at which it was allocated; a number without a lease stands for a
  nil pointer. A callback is a number, and the calls of callbacks that an operation makes after it has
  left its critical section are its second result, each with the lease it is about.
\<close>

section \<open>Leases\<close>

record bulk_lease =
  bl_granted :: bool
  bl_released :: bool
  bl_notified :: bool
  bl_notify :: "nat option"

record bulk_queue =
  bs_max :: int
  bs_inUse :: int
  bs_waiters :: "nat list"
  bs_closed :: bool
  bs_leases :: "bulk_lease list"

type_synonym notice = "nat \<times> nat \<times> bool"

definition newBulkRPCScheduler :: "int \<Rightarrow> bulk_queue" where
  "newBulkRPCScheduler m =
    \<lparr>bs_max = (if m \<le> 0 then 1 else m), bs_inUse = 0, bs_waiters = [], bs_closed = False, bs_leases = []\<rparr>"

definition fresh_lease :: bulk_lease where
  "fresh_lease = \<lparr>bl_granted = False, bl_released = False, bl_notified = False, bl_notify = None\<rparr>"

definition bulk_reserve :: "bulk_queue \<Rightarrow> bulk_queue \<times> nat" where
  "bulk_reserve s =
    (let l = length (bs_leases s)
     in (if bs_closed s then s\<lparr>bs_leases := bs_leases s @ [fresh_lease\<lparr>bl_released := True\<rparr>]\<rparr>
         else if bs_inUse s < bs_max s then
           s\<lparr>bs_inUse := bs_inUse s + 1, bs_leases := bs_leases s @ [fresh_lease\<lparr>bl_granted := True\<rparr>]\<rparr>
         else s\<lparr>bs_waiters := bs_waiters s @ [l], bs_leases := bs_leases s @ [fresh_lease]\<rparr>, l))"

definition set_lease :: "bulk_queue \<Rightarrow> nat \<Rightarrow> bulk_lease \<Rightarrow> bulk_queue" where
  "set_lease s l x = s\<lparr>bs_leases := (bs_leases s)[l := x]\<rparr>"

definition bulk_subscribe :: "bulk_queue \<Rightarrow> nat \<Rightarrow> nat \<Rightarrow> bulk_queue \<times> notice list" where
  "bulk_subscribe s l notify =
    (if length (bs_leases s) \<le> l then (s, [])
     else
       let x = (bs_leases s ! l)\<lparr>bl_notify := Some notify\<rparr>
       in if (bl_granted x \<or> bl_released x) \<and> \<not> bl_notified x
          then (set_lease s l (x\<lparr>bl_notified := True\<rparr>), [(l, notify, bl_granted x)])
          else (set_lease s l x, []))"

text \<open>What a wake-up of a lease does to its callback.\<close>

definition wake_lease :: "bulk_lease \<Rightarrow> bulk_lease" where
  "wake_lease x = (if bl_notify x \<noteq> None then x\<lparr>bl_notified := True\<rparr> else x)"

definition wake_notice :: "nat \<Rightarrow> bulk_lease \<Rightarrow> bool \<Rightarrow> notice list" where
  "wake_notice l x v =
    (case bl_notify x of None \<Rightarrow> [] | Some n \<Rightarrow> if bl_notified x then [] else [(l, n, v)])"

fun grant_waiters :: "bulk_queue \<Rightarrow> nat list \<Rightarrow> bulk_queue \<times> notice list" where
  "grant_waiters s [] = (s\<lparr>bs_waiters := []\<rparr>, [])"
| "grant_waiters s (nxt # ws) =
     (if \<not> bs_closed s \<and> bs_inUse s < bs_max s then
        let x = bs_leases s ! nxt
        in if bl_released x then grant_waiters s ws
           else
             let s = set_lease s nxt (wake_lease (x\<lparr>bl_granted := True\<rparr>));
                 (s, ns) = grant_waiters (s\<lparr>bs_inUse := bs_inUse s + 1\<rparr>) ws
             in (s, wake_notice nxt x True @ ns)
      else (s\<lparr>bs_waiters := nxt # ws\<rparr>, []))"

definition bulk_release :: "bulk_queue \<Rightarrow> nat \<Rightarrow> bulk_queue \<times> notice list" where
  "bulk_release s l =
    (if length (bs_leases s) \<le> l \<or> bl_released (bs_leases s ! l) then (s, [])
     else
       let x = bs_leases s ! l;
           s = set_lease s l (x\<lparr>bl_released := True, bl_granted := False\<rparr>);
           s = (if bl_granted x then s\<lparr>bs_inUse := bs_inUse s - 1\<rparr> else s)
       in grant_waiters s (bs_waiters s))"

fun close_waiters :: "bulk_queue \<Rightarrow> nat list \<Rightarrow> bulk_queue \<times> notice list" where
  "close_waiters s [] = (s\<lparr>bs_waiters := []\<rparr>, [])"
| "close_waiters s (l # ws) =
     (let x = bs_leases s ! l
      in if bl_released x then close_waiters s ws
         else
           let (s, ns) = close_waiters (set_lease s l (wake_lease (x\<lparr>bl_released := True\<rparr>))) ws
           in (s, wake_notice l x False @ ns))"

definition bulk_close :: "bulk_queue \<Rightarrow> bulk_queue \<times> notice list" where
  "bulk_close s = close_waiters (s\<lparr>bs_closed := True\<rparr>) (bs_waiters s)"

section \<open>The credit window of a session\<close>

definition defaultBulkACKWindow :: int where
  "defaultBulkACKWindow = 32"

definition newBulkWindow :: bulk_queue where
  "newBulkWindow =
    \<lparr>bs_max = defaultBulkACKWindow, bs_inUse = 0, bs_waiters = [], bs_closed = False, bs_leases = []\<rparr>"

record credit_lease =
  cl_credit :: nat
  cl_transferred :: bool

definition reserveBulkCredit :: "bulk_queue \<Rightarrow> bulk_queue \<times> credit_lease" where
  "reserveBulkCredit s =
    (case bulk_reserve (if bs_max s \<le> 0 then s\<lparr>bs_max := defaultBulkACKWindow\<rparr> else s) of
       (s, l) \<Rightarrow> (s, \<lparr>cl_credit = l, cl_transferred = False\<rparr>))"

definition credit_transfer :: "credit_lease \<Rightarrow> credit_lease \<times> nat option" where
  "credit_transfer c =
    (if cl_transferred c then (c, None) else (c\<lparr>cl_transferred := True\<rparr>, Some (cl_credit c)))"

definition releaseIfOwned :: "bulk_queue \<Rightarrow> credit_lease \<Rightarrow> bulk_queue \<times> notice list" where
  "releaseIfOwned s c = (if cl_transferred c then (s, []) else bulk_release s (cl_credit c))"

section \<open>Runs of a queue\<close>

datatype bulk_op = OpReserve | OpSubscribe nat nat | OpRelease nat | OpClose

fun queue_step :: "bulk_op \<Rightarrow> bulk_queue \<Rightarrow> bulk_queue \<times> notice list" where
  "queue_step OpReserve s = (fst (bulk_reserve s), [])"
| "queue_step (OpSubscribe l n) s = bulk_subscribe s l n"
| "queue_step (OpRelease l) s = bulk_release s l"
| "queue_step OpClose s = bulk_close s"

fun queue_run :: "bulk_op list \<Rightarrow> bulk_queue \<Rightarrow> bulk_queue \<times> notice list" where
  "queue_run [] s = (s, [])"
| "queue_run (x # xs) s =
     (case queue_step x s of (s, ns) \<Rightarrow> case queue_run xs s of (s, ms) \<Rightarrow> (s, ns @ ms))"

section \<open>The gate of a request\<close>

text \<open>
  A nil \<open>*inboundRPCGate\<close> is \<open>None\<close>, and so is the panic of \<open>gate_resolve\<close>; \<open>ig_wakes\<close> counts the calls of
  \<open>wake\<close>. The counter is an \<open>int32\<close>: \<open>i32\<close> is the conversion and the wrap-around. A resolve sets the
  failure flag before it lowers the counter, so whoever sees the gate open sees the flag, and the call is
  one step.
\<close>

record rpc_gate =
  ig_remaining :: int
  ig_failed :: bool
  ig_ready :: bool
  ig_wakes :: nat

definition i32 :: "int \<Rightarrow> int" where
  "i32 x = signed_take_bit 31 x"

lemma i32_exact: "- (2 ^ 31) \<le> x \<Longrightarrow> x < 2 ^ 31 \<Longrightarrow> i32 x = x"
  by (simp add: i32_def signed_take_bit_int_eq_self_iff)

definition newInboundRPCGate :: "int \<Rightarrow> rpc_gate" where
  "newInboundRPCGate prerequisites =
    \<lparr>ig_remaining = i32 ((if prerequisites < 0 then 0 else prerequisites) + 1), ig_failed = False, ig_ready = False,
     ig_wakes = 0\<rparr>"

definition gate_resolve :: "rpc_gate \<Rightarrow> bool \<Rightarrow> rpc_gate option" where
  "gate_resolve g success =
    (let g = (if success then g else g\<lparr>ig_failed := True\<rparr>);
         g = g\<lparr>ig_remaining := i32 (ig_remaining g - 1)\<rparr>
     in if ig_remaining g < 0 then None
        else if ig_remaining g = 0 \<and> \<not> ig_ready g then Some (g\<lparr>ig_ready := True, ig_wakes := ig_wakes g + 1\<rparr>)
        else Some g)"

definition gate_runnable :: "rpc_gate option \<Rightarrow> bool" where
  "gate_runnable gate = (case gate of None \<Rightarrow> True | Some g \<Rightarrow> ig_ready g)"

definition gate_success :: "rpc_gate option \<Rightarrow> bool" where
  "gate_success gate = (case gate of None \<Rightarrow> True | Some g \<Rightarrow> ig_ready g \<and> \<not> ig_failed g)"

fun resolve_all :: "rpc_gate \<Rightarrow> bool list \<Rightarrow> rpc_gate option" where
  "resolve_all g [] = Some g"
| "resolve_all g (b # bs) = (case gate_resolve g b of None \<Rightarrow> None | Some g \<Rightarrow> resolve_all g bs)"

text \<open>
  The gate of a request with its dependencies (\<open>layer_rpc_execution.go\<close>): a waiter is a number, \<open>bulk\<close> and
  \<open>execution\<close> tell whether the request has a credit and an admission of its own, and a request that needs
  nothing has no gate. When a dependency has failed already the gate starts as failed. What the
  function does next are calls of \<open>resolve\<close>, interleaved with those of the waiters: \<open>False\<close> for a waiter that
  cannot be subscribed, and \<open>True\<close> for the installation at the end.
\<close>

record layerRPCDependencySet =
  ld_waiters :: "nat list"
  ld_failed :: bool

definition newLayerRPCExecutionGate :: "layerRPCDependencySet \<Rightarrow> bool \<Rightarrow> bool \<Rightarrow> rpc_gate option" where
  "newLayerRPCExecutionGate dependencies bulk execution =
    (if ld_waiters dependencies = [] \<and> \<not> ld_failed dependencies \<and> \<not> bulk \<and> \<not> execution then None
     else let prerequisites = int (length (ld_waiters dependencies));
              prerequisites = (if bulk then prerequisites + 1 else prerequisites);
              gate = newInboundRPCGate prerequisites
          in Some (if ld_failed dependencies then gate\<lparr>ig_failed := True\<rparr> else gate))"

section \<open>Admission of bulk requests\<close>

text \<open>
  \<open>bulkRPCAdmission\<close> with the two threads that may work on it: the callback of the credit, which
  runs at most once, and the release. A thread stands between two critical sections:

  \<^item> \<open>AwaitCredit\<close>: the callback has not run;
  \<^item> \<open>Reserved l\<close>: the scheduler has handed out the lease, \<open>a.mu\<close> is not yet taken;
  \<^item> \<open>Dropping l\<close>: the admission was found released, the lease is to be released;
  \<^item> \<open>Refusing\<close>: \<open>notify(false)\<close> is to be called;
  \<^item> \<open>Linked l\<close>: the lease is stored, \<open>lease.subscribe\<close> is to be called;
  \<^item> \<open>Finished\<close>.

  \<open>rq_doomed\<close> is the lease that \<open>release\<close> has taken out and not yet released, \<open>rq_calls\<close> the calls of
  the request's callback so far; \<open>sy_notices\<close> are calls that have left a critical section and have not
  yet been made.
\<close>

datatype sub_pc = AwaitCredit | Reserved nat | Dropping nat | Refusing | Linked nat | Finished

record bulk_request =
  rq_lease :: "nat option"
  rq_released :: bool
  rq_pc :: sub_pc
  rq_doomed :: "nat option"
  rq_calls :: "bool list"

record bulk_system =
  sy_sched :: bulk_queue
  sy_requests :: "bulk_request list"
  sy_notices :: "notice list"

definition newBulkRPCAdmission :: bulk_request where
  "newBulkRPCAdmission =
    \<lparr>rq_lease = None, rq_released = False, rq_pc = AwaitCredit, rq_doomed = None, rq_calls = []\<rparr>"

definition put_request :: "bulk_system \<Rightarrow> nat \<Rightarrow> bulk_request \<Rightarrow> bulk_system" where
  "put_request y i r = y\<lparr>sy_requests := (sy_requests y)[i := r]\<rparr>"

definition sched_do :: "bulk_system \<Rightarrow> bulk_queue \<times> notice list \<Rightarrow> bulk_system" where
  "sched_do y r = y\<lparr>sy_sched := fst r, sy_notices := sy_notices y @ snd r\<rparr>"

text \<open>One step of the callback of the credit.\<close>

definition credit_callback :: "bulk_system \<Rightarrow> nat \<Rightarrow> bool \<Rightarrow> bulk_system" where
  "credit_callback y i success =
    (let r = sy_requests y ! i
     in case rq_pc r of
          AwaitCredit \<Rightarrow>
            if \<not> success then put_request y i (r\<lparr>rq_pc := Refusing\<rparr>)
            else (case bulk_reserve (sy_sched y) of
              (s, l) \<Rightarrow> put_request (y\<lparr>sy_sched := s\<rparr>) i (r\<lparr>rq_pc := Reserved l\<rparr>))
        | Reserved l \<Rightarrow>
            if rq_released r then put_request y i (r\<lparr>rq_pc := Dropping l\<rparr>)
            else put_request y i (r\<lparr>rq_lease := Some l, rq_pc := Linked l\<rparr>)
        | Dropping l \<Rightarrow> put_request (sched_do y (bulk_release (sy_sched y) l)) i (r\<lparr>rq_pc := Refusing\<rparr>)
        | Refusing \<Rightarrow> put_request y i (r\<lparr>rq_calls := rq_calls r @ [False], rq_pc := Finished\<rparr>)
        | Linked l \<Rightarrow> put_request (sched_do y (bulk_subscribe (sy_sched y) l i)) i (r\<lparr>rq_pc := Finished\<rparr>)
        | Finished \<Rightarrow> y)"

text \<open>The two halves of \<open>release\<close>.\<close>

definition admission_mark :: "bulk_system \<Rightarrow> nat \<Rightarrow> bulk_system" where
  "admission_mark y i =
    (let r = sy_requests y ! i
     in if rq_released r then y
        else put_request y i (r\<lparr>rq_released := True, rq_doomed := rq_lease r, rq_lease := None\<rparr>))"

definition admission_drop :: "bulk_system \<Rightarrow> nat \<Rightarrow> bulk_system" where
  "admission_drop y i =
    (let r = sy_requests y ! i
     in case rq_doomed r of
          None \<Rightarrow> y
        | Some l \<Rightarrow> put_request (sched_do y (bulk_release (sy_sched y) l)) i (r\<lparr>rq_doomed := None\<rparr>))"

definition deliver :: "bulk_system \<Rightarrow> nat \<Rightarrow> bulk_system" where
  "deliver y k =
    (case sy_notices y ! k of
       (l, n, v) \<Rightarrow>
         let y = y\<lparr>sy_notices := take k (sy_notices y) @ drop (Suc k) (sy_notices y)\<rparr>
         in if n < length (sy_requests y)
            then put_request y n ((sy_requests y ! n)\<lparr>rq_calls := rq_calls (sy_requests y ! n) @ [v]\<rparr>)
            else y)"

datatype bulk_event = NewRequest | Credit nat bool | Mark nat | Drop nat | Deliver nat | CloseAll

text \<open>An event about a request or a notice that does not exist changes nothing.\<close>

fun system_step :: "bulk_event \<Rightarrow> bulk_system \<Rightarrow> bulk_system" where
  "system_step NewRequest y = y\<lparr>sy_requests := sy_requests y @ [newBulkRPCAdmission]\<rparr>"
| "system_step (Credit i success) y = (if i < length (sy_requests y) then credit_callback y i success else y)"
| "system_step (Mark i) y = (if i < length (sy_requests y) then admission_mark y i else y)"
| "system_step (Drop i) y = (if i < length (sy_requests y) then admission_drop y i else y)"
| "system_step (Deliver k) y = (if k < length (sy_notices y) then deliver y k else y)"
| "system_step CloseAll y = sched_do y (bulk_close (sy_sched y))"

definition system_init :: "int \<Rightarrow> bulk_system" where
  "system_init m = \<lparr>sy_sched = newBulkRPCScheduler m, sy_requests = [], sy_notices = []\<rparr>"

definition system_run :: "int \<Rightarrow> bulk_event list \<Rightarrow> bulk_system" where
  "system_run m xs = fold system_step xs (system_init m)"

end
