(* ===== verification/Bulk_Properties.thy ===== *)
theory Bulk_Properties
  imports Bulk_Scheduler
begin

text \<open>
  Properties of the admission of bulk requests. The first part relates the queue of leases to its
  abstract specification, a list of live leases in the order of their reservation of which the first
  ones are granted. The second part shows for all interleavings that released requests leave no lease
  behind and that the gate of a request is resolved at most once.
\<close>

section \<open>Live and granted leases\<close>

definition live_of :: "bool list \<Rightarrow> nat list" where
  "live_of rs = filter (\<lambda>l. \<not> rs ! l) [0..<length rs]"

definition live_ids :: "bulk_queue \<Rightarrow> nat list" where
  "live_ids s = live_of (map bl_released (bs_leases s))"

definition granted_ids :: "bulk_queue \<Rightarrow> nat list" where
  "granted_ids s = filter (\<lambda>l. bl_granted (bs_leases s ! l)) [0..<length (bs_leases s)]"

lemma live_of_append: "live_of (rs @ [r]) = live_of rs @ (if r then [] else [length rs])"
  by (auto simp: live_of_def nth_append intro!: filter_cong)

lemma live_of_update: "l < length rs \<Longrightarrow> live_of (rs[l := True]) = filter (\<lambda>k. k \<noteq> l) (live_of rs)"
  by (auto simp: live_of_def nth_list_update intro!: filter_cong)

lemma live_of_sorted: "sorted_wrt (<) (live_of rs)"
  by (simp add: live_of_def sorted_wrt_filter)

lemma live_of_mem: "l \<in> set (live_of rs) \<longleftrightarrow> l < length rs \<and> \<not> rs ! l"
  by (auto simp: live_of_def)

lemma live_ids_mem: "l \<in> set (live_ids s) \<longleftrightarrow> l < length (bs_leases s) \<and> \<not> bl_released (bs_leases s ! l)"
  by (auto simp: live_ids_def live_of_mem)

lemma granted_count: "int (length (granted_ids s)) = count_if bl_granted (bs_leases s)"
  by (simp add: granted_ids_def count_if_card length_filter_conv_card) (metis (no_types, lifting) Collect_cong add_0 nth_upt)

lemma sorted_filter_split:
  assumes "sorted_wrt (<) xs" and "\<And>x y. x \<in> set xs \<Longrightarrow> y \<in> set xs \<Longrightarrow> P x \<Longrightarrow> \<not> P y \<Longrightarrow> x < (y :: nat)"
  shows "xs = filter P xs @ filter (\<lambda>x. \<not> P x) xs"
  using assms
proof (induction xs)
  case (Cons x xs)
  show ?case
  proof (cases "P x")
    case True
    then show ?thesis using Cons by simp
  next
    case False
    then have "\<not> P y" if "y \<in> set xs" for y using Cons.prems that by fastforce
    then have "filter P xs = []" "filter (\<lambda>x. \<not> P x) xs = xs" by (auto simp: filter_empty_conv filter_id_conv)
    then show ?thesis using False by simp
  qed
qed simp

section \<open>The invariant of the queue\<close>

text \<open>\<open>has P s l\<close>: the lease \<open>l\<close> exists and satisfies \<open>P\<close>.\<close>

definition has :: "(bulk_lease \<Rightarrow> bool) \<Rightarrow> bulk_queue \<Rightarrow> nat \<Rightarrow> bool" where
  "has P s l \<longleftrightarrow> l < length (bs_leases s) \<and> P (bs_leases s ! l)"

definition waiting :: "bulk_lease \<Rightarrow> bool" where
  "waiting x \<longleftrightarrow> \<not> bl_granted x \<and> \<not> bl_released x"

definition conflicting :: "bulk_lease \<Rightarrow> bool" where
  "conflicting x \<longleftrightarrow> bl_granted x \<and> bl_released x"

definition ungranted :: "bulk_lease \<Rightarrow> bool" where
  "ungranted x \<longleftrightarrow> \<not> bl_granted x"

lemmas lease_defs = waiting_def conflicting_def ungranted_def

definition queue_pre :: "bulk_queue \<Rightarrow> nat list \<Rightarrow> bool" where
  "queue_pre s ws \<longleftrightarrow>
     0 < bs_max s \<and> bs_inUse s = count_if bl_granted (bs_leases s) \<and> bs_inUse s \<le> bs_max s \<and>
     (\<forall>l. \<not> has conflicting s l) \<and> (\<forall>l. has waiting s l \<longrightarrow> l \<in> set ws) \<and> sorted_wrt (<) ws \<and>
     (\<forall>w \<in> set ws. has ungranted s w) \<and> (\<forall>w \<in> set ws. \<forall>l. has bl_granted s l \<longrightarrow> l < w)"

definition queue_ok :: "bulk_queue \<Rightarrow> bool" where
  "queue_ok s \<longleftrightarrow> queue_pre s (bs_waiters s) \<and> (bs_waiters s \<noteq> [] \<longrightarrow> \<not> bs_closed s \<and> bs_inUse s = bs_max s)"

lemma set_lease_simps [simp]:
  "bs_max (set_lease s l x) = bs_max s" "bs_inUse (set_lease s l x) = bs_inUse s"
  "bs_waiters (set_lease s l x) = bs_waiters s" "bs_closed (set_lease s l x) = bs_closed s"
  "bs_leases (set_lease s l x) = (bs_leases s)[l := x]"
  by (simp_all add: set_lease_def)

lemma wake_lease_simps [simp]:
  "bl_granted (wake_lease x) = bl_granted x" "bl_released (wake_lease x) = bl_released x"
  "bl_notify (wake_lease x) = bl_notify x" "bl_notified (wake_lease x) = (bl_notified x \<or> bl_notify x \<noteq> None)"
  by (simp_all add: wake_lease_def)

lemma has_fields [simp]:
  "has P (s\<lparr>bs_inUse := i\<rparr>) l = has P s l" "has P (s\<lparr>bs_waiters := ws\<rparr>) l = has P s l"
  "has P (s\<lparr>bs_closed := c\<rparr>) l = has P s l" "has P (s\<lparr>bs_max := m\<rparr>) l = has P s l"
  by (simp_all add: has_def)

lemma has_set [simp]:
  "has P (set_lease s w x) l = (if l = w then w < length (bs_leases s) \<and> P x else has P s l)"
  by (auto simp: has_def)

lemma has_append:
  "has P (s\<lparr>bs_leases := bs_leases s @ [x]\<rparr>) l = (has P s l \<or> l = length (bs_leases s) \<and> P x)"
  by (auto simp: has_def nth_append less_Suc_eq)

lemma has_length: "has P s l \<Longrightarrow> l < length (bs_leases s)"
  by (simp add: has_def)

lemma queue_preI:
  assumes "0 < bs_max s" and "bs_inUse s = count_if bl_granted (bs_leases s)" and "bs_inUse s \<le> bs_max s"
    and "\<And>l. \<not> has conflicting s l" and "\<And>l. has waiting s l \<Longrightarrow> l \<in> set ws" and "sorted_wrt (<) ws"
    and "\<And>w. w \<in> set ws \<Longrightarrow> has ungranted s w"
    and "\<And>w l. w \<in> set ws \<Longrightarrow> has bl_granted s l \<Longrightarrow> l < w"
  shows "queue_pre s ws"
  using assms unfolding queue_pre_def by blast

lemma queue_preD:
  assumes "queue_pre s ws"
  shows "0 < bs_max s" and "bs_inUse s = count_if bl_granted (bs_leases s)" and "bs_inUse s \<le> bs_max s"
    and "\<not> has conflicting s l" and "has waiting s l \<Longrightarrow> l \<in> set ws" and "sorted_wrt (<) ws"
    and "w \<in> set ws \<Longrightarrow> has ungranted s w"
    and "w \<in> set ws \<Longrightarrow> has bl_granted s l \<Longrightarrow> l < w"
  using assms unfolding queue_pre_def by blast+

lemma queue_pre_fields [simp]:
  "queue_pre (s\<lparr>bs_waiters := x\<rparr>) ws = queue_pre s ws" "queue_pre (s\<lparr>bs_closed := c\<rparr>) ws = queue_pre s ws"
  by (simp_all add: queue_pre_def)

text \<open>Only the flags of the leases matter.\<close>

lemma has_map: "map P (bs_leases s') = map P (bs_leases s) \<Longrightarrow> has P s' l = has P s l"
  unfolding has_def by (metis length_map nth_map)

lemma count_map: "map P xs = map P ys \<Longrightarrow> count_if P xs = count_if P ys"
  unfolding count_if_def by (metis (no_types, lifting) filter_map length_map o_def id_apply filter_cong)

lemma queue_pre_same:
  assumes p: "queue_pre s ws" and "bs_max s' = bs_max s" and "bs_inUse s' = bs_inUse s"
    and "map (\<lambda>x. (bl_granted x, bl_released x)) (bs_leases s') = map (\<lambda>x. (bl_granted x, bl_released x)) (bs_leases s)"
  shows "queue_pre s' ws"
proof -
  have m: "map (\<lambda>x. f (bl_granted x) (bl_released x)) (bs_leases s') = map (\<lambda>x. f (bl_granted x) (bl_released x)) (bs_leases s)"
    for f :: "bool \<Rightarrow> bool \<Rightarrow> bool"
    using arg_cong[OF assms(4), of "map (\<lambda>(a, b). f a b)"] by (simp add: comp_def)
  have e: "waiting = (\<lambda>x. \<not> bl_granted x \<and> \<not> bl_released x)" "conflicting = (\<lambda>x. bl_granted x \<and> bl_released x)"
    "ungranted = (\<lambda>x. \<not> bl_granted x)"
    by (auto simp: lease_defs)
  have "has bl_granted s' l = has bl_granted s l" for l by (rule has_map[OF m[of "\<lambda>a b. a"]])
  moreover have "has waiting s' l = has waiting s l" for l
    unfolding e by (rule has_map[OF m[of "\<lambda>a b. \<not> a \<and> \<not> b"]])
  moreover have "has conflicting s' l = has conflicting s l" for l
    unfolding e by (rule has_map[OF m[of "\<lambda>a b. a \<and> b"]])
  moreover have "has ungranted s' l = has ungranted s l" for l
    unfolding e by (rule has_map[OF m[of "\<lambda>a b. \<not> a"]])
  moreover have "count_if bl_granted (bs_leases s') = count_if bl_granted (bs_leases s)"
    by (rule count_map[OF m[of "\<lambda>a b. a"]])
  ultimately show ?thesis using p assms(2,3) unfolding queue_pre_def by simp
qed

lemma map_list_update_same: "f x = f (xs ! l) \<Longrightarrow> map f (xs[l := x]) = map f xs"
  by (cases "l < length xs") (simp_all add: map_update list_update_same_conv list_update_beyond)

section \<open>Operations keep the invariant\<close>

lemma queue_pre_drop:
  assumes p: "queue_pre s (w # ws)" and r: "bl_released (bs_leases s ! w)"
  shows "queue_pre s ws"
proof (rule queue_preI)
  show "l \<in> set ws" if "has waiting s l" for l
    using queue_preD(5)[OF p that] that r by (auto simp: has_def waiting_def)
qed (use queue_preD[OF p] in \<open>auto\<close>)

lemma queue_pre_grant:
  assumes p: "queue_pre s (w # ws)" and "bs_inUse s < bs_max s" and x: "bl_granted x" "\<not> bl_released x"
  shows "queue_pre ((set_lease s w x)\<lparr>bs_inUse := bs_inUse s + 1\<rparr>) ws"
proof (rule queue_preI)
  have w: "has ungranted s w" "\<And>v. v \<in> set ws \<Longrightarrow> w < v" using queue_preD[OF p] by auto
  show "bs_inUse ((set_lease s w x)\<lparr>bs_inUse := bs_inUse s + 1\<rparr>) =
      count_if bl_granted (bs_leases ((set_lease s w x)\<lparr>bs_inUse := bs_inUse s + 1\<rparr>))"
    using w(1) x queue_preD(2)[OF p] by (simp add: count_if_update has_def ungranted_def)
  show "l \<in> set ws" if "has waiting ((set_lease s w x)\<lparr>bs_inUse := bs_inUse s + 1\<rparr>) l" for l
    using that x queue_preD(5)[OF p, of l] by (auto simp: waiting_def split: if_splits)
  show "has ungranted ((set_lease s w x)\<lparr>bs_inUse := bs_inUse s + 1\<rparr>) v" if "v \<in> set ws" for v
    using that w(2)[of v] queue_preD(7)[OF p, of v] by auto
  show "l < v" if "v \<in> set ws" "has bl_granted ((set_lease s w x)\<lparr>bs_inUse := bs_inUse s + 1\<rparr>) l" for v l
    using that w(2)[of v] queue_preD(8)[OF p, of v l] by (auto split: if_splits)
qed (use queue_preD[OF p] assms(2) x in \<open>auto simp: conflicting_def\<close>)

lemma grant_waiters_ok:
  "queue_pre s ws \<Longrightarrow> bs_closed s \<longrightarrow> ws = [] \<Longrightarrow> queue_ok (fst (grant_waiters s ws))"
proof (induction s ws rule: grant_waiters.induct)
  case (1 s)
  then show ?case by (simp add: queue_ok_def)
next
  case (2 s nxt ws)
  let ?x = "bs_leases s ! nxt"
  let ?s = "(set_lease s nxt (wake_lease (?x\<lparr>bl_granted := True\<rparr>)))\<lparr>bs_inUse := bs_inUse s + 1\<rparr>"
  have open': "\<not> bs_closed s" using 2(4) by simp
  consider "\<not> bs_inUse s < bs_max s" | "bs_inUse s < bs_max s" "bl_released ?x"
    | "bs_inUse s < bs_max s" "\<not> bl_released ?x" by blast
  then show ?case
  proof cases
    case 1
    then show ?thesis using 2(3) open' queue_preD(3)[OF 2(3)] by (simp add: queue_ok_def)
  next
    case c: 2
    then have "fst (grant_waiters s (nxt # ws)) = fst (grant_waiters s ws)" using open' by simp
    moreover have "queue_ok (fst (grant_waiters s ws))"
      using c open' queue_pre_drop[OF 2(3)] by (intro 2(1)) auto
    ultimately show ?thesis by simp
  next
    case c: 3
    then have "fst (grant_waiters s (nxt # ws)) = fst (grant_waiters ?s ws)"
      using open' by (simp add: Let_def split: prod.splits)
    moreover have "queue_ok (fst (grant_waiters ?s ws))"
      using c open' queue_pre_grant[OF 2(3) c(1)] by (intro 2(2)[OF _ refl _ refl, simplified]) auto
    ultimately show ?thesis by simp
  qed
qed

lemma grant_waiters_frame:
  "bs_max (fst (grant_waiters s ws)) = bs_max s \<and> bs_closed (fst (grant_waiters s ws)) = bs_closed s \<and>
   map bl_released (bs_leases (fst (grant_waiters s ws))) = map bl_released (bs_leases s)"
proof (induction s ws rule: grant_waiters.induct)
  case (2 s nxt ws)
  let ?x = "bs_leases s ! nxt"
  let ?s = "(set_lease s nxt (wake_lease (?x\<lparr>bl_granted := True\<rparr>)))\<lparr>bs_inUse := bs_inUse s + 1\<rparr>"
  consider "bs_closed s \<or> \<not> bs_inUse s < bs_max s"
    | "\<not> bs_closed s" "bs_inUse s < bs_max s" "bl_released ?x"
    | "\<not> bs_closed s" "bs_inUse s < bs_max s" "\<not> bl_released ?x" by blast
  then show ?case
  proof cases
    case c: 3
    then have e: "fst (grant_waiters s (nxt # ws)) = fst (grant_waiters ?s ws)"
      by (simp add: Let_def split: prod.splits)
    have "map bl_released (bs_leases ?s) = map bl_released (bs_leases s)" by (simp add: map_list_update_same)
    then show ?thesis using 2(2)[OF _ refl c(3) refl] c unfolding e by simp
  next
    case c: 2
    then show ?thesis using 2(1) by simp
  qed auto
qed simp

lemma close_waiters_frame:
  assumes "\<forall>w \<in> set ws. w < length (bs_leases s)"
  shows "bs_max (fst (close_waiters s ws)) = bs_max s \<and> bs_closed (fst (close_waiters s ws)) = bs_closed s \<and>
    bs_inUse (fst (close_waiters s ws)) = bs_inUse s \<and> bs_waiters (fst (close_waiters s ws)) = [] \<and>
    map bl_granted (bs_leases (fst (close_waiters s ws))) = map bl_granted (bs_leases s) \<and>
    (\<forall>l < length (bs_leases s).
       bl_released (bs_leases (fst (close_waiters s ws)) ! l) = (bl_released (bs_leases s ! l) \<or> l \<in> set ws))"
  using assms
proof (induction s ws rule: close_waiters.induct)
  case (2 s l ws)
  show ?case
  proof (cases "bl_released (bs_leases s ! l)")
    case True
    then show ?thesis using 2(1)[OF refl True] 2(3) by (auto simp: Let_def)
  next
    case False
    let ?s = "set_lease s l (wake_lease ((bs_leases s ! l)\<lparr>bl_released := True\<rparr>))"
    have e: "fst (close_waiters s (l # ws)) = fst (close_waiters ?s ws)"
      using False by (simp add: Let_def split: prod.splits)
    have r: "\<forall>w \<in> set ws. w < length (bs_leases ?s)" using 2(3) by simp
    note ih = 2(2)[OF refl False r]
    have g: "map bl_granted (bs_leases ?s) = map bl_granted (bs_leases s)" by (simp add: map_list_update_same)
    have "bl_released (bs_leases ?s ! k) = (bl_released (bs_leases s ! k) \<or> k = l)" if "k < length (bs_leases s)" for k
      using that by (cases "k = l") simp_all
    then show ?thesis using ih g unfolding e by auto
  qed
qed simp

lemma queue_new: "queue_ok (newBulkRPCScheduler m)"
  by (simp add: queue_ok_def queue_pre_def newBulkRPCScheduler_def has_def)

lemma window_new: "queue_ok newBulkWindow"
  by (simp add: queue_ok_def queue_pre_def newBulkWindow_def defaultBulkACKWindow_def has_def)

lemma queue_reserve:
  assumes ok: "queue_ok s"
  shows "queue_ok (fst (bulk_reserve s))"
proof -
  have p: "queue_pre s (bs_waiters s)" using ok by (simp add: queue_ok_def)
  note d = queue_preD[OF p]
  have cl: "bs_waiters s = []" if "bs_closed s" using ok that by (auto simp: queue_ok_def)
  have em: "bs_waiters s = []" if "bs_inUse s < bs_max s" using ok that by (auto simp: queue_ok_def)
  have app: "has P (s\<lparr>bs_waiters := ws, bs_inUse := i, bs_leases := bs_leases s @ [x]\<rparr>) l =
      (has P s l \<or> l = length (bs_leases s) \<and> P x)" for P ws i x l
    by (auto simp: has_def nth_append less_Suc_eq)
  have eq: "s\<lparr>bs_leases := xs\<rparr> = s\<lparr>bs_waiters := bs_waiters s, bs_inUse := bs_inUse s, bs_leases := xs\<rparr>"
    "s\<lparr>bs_inUse := i, bs_leases := xs\<rparr> = s\<lparr>bs_waiters := bs_waiters s, bs_inUse := i, bs_leases := xs\<rparr>"
    "s\<lparr>bs_waiters := ws, bs_leases := xs\<rparr> = s\<lparr>bs_waiters := ws, bs_inUse := bs_inUse s, bs_leases := xs\<rparr>" for xs i ws
    by simp_all
  have fl: "\<not> bl_granted fresh_lease" "\<not> bl_released fresh_lease" by (simp_all add: fresh_lease_def)
  consider "bs_closed s" | "\<not> bs_closed s" "bs_inUse s < bs_max s" | "\<not> bs_closed s" "bs_inUse s = bs_max s"
    using d(3) by fastforce
  then show ?thesis
  proof cases
    case 1
    then have e: "fst (bulk_reserve s) = s\<lparr>bs_leases := bs_leases s @ [fresh_lease\<lparr>bl_released := True\<rparr>]\<rparr>"
      by (simp add: bulk_reserve_def Let_def)
    have "queue_pre (fst (bulk_reserve s)) (bs_waiters s)"
      unfolding e by (rule queue_preI) (use d fl cl[OF 1] in \<open>auto simp: has_append lease_defs\<close>)
    then show ?thesis using cl[OF 1] e by (simp add: queue_ok_def)
  next
    case 2
    then have e: "fst (bulk_reserve s) = s\<lparr>bs_waiters := bs_waiters s, bs_inUse := bs_inUse s + 1,
        bs_leases := bs_leases s @ [fresh_lease\<lparr>bl_granted := True\<rparr>]\<rparr>"
      by (simp add: bulk_reserve_def Let_def)
    have "queue_pre (fst (bulk_reserve s)) (bs_waiters s)"
      unfolding e by (rule queue_preI) (use d fl 2 em[OF 2(2)] in \<open>auto simp: app lease_defs\<close>)
    then show ?thesis using em[OF 2(2)] e by (simp add: queue_ok_def)
  next
    case 3
    then have e: "fst (bulk_reserve s) = s\<lparr>bs_waiters := bs_waiters s @ [length (bs_leases s)], bs_inUse := bs_inUse s,
        bs_leases := bs_leases s @ [fresh_lease]\<rparr>"
      by (simp add: bulk_reserve_def Let_def)
    have "queue_pre (fst (bulk_reserve s)) (bs_waiters s @ [length (bs_leases s)])"
      unfolding e
      by (rule queue_preI) (use d fl in \<open>auto simp: app lease_defs sorted_wrt_append has_length dest: has_length\<close>)
    then show ?thesis using 3 e by (simp add: queue_ok_def)
  qed
qed

lemma subscribe_frame:
  "bs_max (fst (bulk_subscribe s l n)) = bs_max s \<and> bs_inUse (fst (bulk_subscribe s l n)) = bs_inUse s \<and>
   bs_closed (fst (bulk_subscribe s l n)) = bs_closed s \<and> bs_waiters (fst (bulk_subscribe s l n)) = bs_waiters s \<and>
   map (\<lambda>x. (bl_granted x, bl_released x)) (bs_leases (fst (bulk_subscribe s l n))) =
     map (\<lambda>x. (bl_granted x, bl_released x)) (bs_leases s)"
  by (simp add: bulk_subscribe_def Let_def map_list_update_same)

lemma subscribe_released:
  "map bl_released (bs_leases (fst (bulk_subscribe s l n))) = map bl_released (bs_leases s)"
  by (simp add: bulk_subscribe_def Let_def map_list_update_same)

lemma queue_subscribe: "queue_ok s \<Longrightarrow> queue_ok (fst (bulk_subscribe s l n))"
  using subscribe_frame[of s l n] queue_pre_same[of s "bs_waiters s" "fst (bulk_subscribe s l n)"]
  by (simp add: queue_ok_def)

definition give_up :: "bulk_queue \<Rightarrow> nat \<Rightarrow> bulk_queue" where
  "give_up s l =
    (let x = bs_leases s ! l; s = set_lease s l (x\<lparr>bl_released := True, bl_granted := False\<rparr>)
     in if bl_granted x then s\<lparr>bs_inUse := bs_inUse s - 1\<rparr> else s)"

lemma give_up_simps [simp]:
  "bs_max (give_up s l) = bs_max s" "bs_closed (give_up s l) = bs_closed s" "bs_waiters (give_up s l) = bs_waiters s"
  "bs_inUse (give_up s l) = bs_inUse s - (if bl_granted (bs_leases s ! l) then 1 else 0)"
  "bs_leases (give_up s l) = (bs_leases s)[l := (bs_leases s ! l)\<lparr>bl_released := True, bl_granted := False\<rparr>]"
  by (simp_all add: give_up_def Let_def)

lemma bulk_release_give_up:
  "bulk_release s l = (if has (\<lambda>x. \<not> bl_released x) s l then grant_waiters (give_up s l) (bs_waiters s) else (s, []))"
  by (auto simp: bulk_release_def give_up_def has_def Let_def)

lemma has_give_up:
  "has P (give_up s l) k = (if k = l then l < length (bs_leases s) \<and> P ((bs_leases s ! l)\<lparr>bl_released := True, bl_granted := False\<rparr>)
     else has P s k)"
  by (auto simp: has_def)

lemma queue_pre_give_up:
  assumes p: "queue_pre s ws" and l: "has (\<lambda>x. \<not> bl_released x) s l"
  shows "queue_pre (give_up s l) ws"
proof (rule queue_preI)
  show "bs_inUse (give_up s l) = count_if bl_granted (bs_leases (give_up s l))"
    using l queue_preD(2)[OF p] by (simp add: count_if_update has_def)
qed (use queue_preD[OF p] l in \<open>auto simp: has_give_up lease_defs split: if_splits dest: has_length\<close>)

lemma queue_release: "queue_ok s \<Longrightarrow> queue_ok (fst (bulk_release s l))"
  unfolding bulk_release_give_up using queue_pre_give_up[of s "bs_waiters s" l]
  by (auto simp: queue_ok_def intro!: grant_waiters_ok[unfolded queue_ok_def])

lemma queue_close:
  assumes ok: "queue_ok s"
  shows "queue_ok (fst (bulk_close s))"
proof -
  let ?s = "s\<lparr>bs_closed := True\<rparr>"
  let ?t = "fst (close_waiters ?s (bs_waiters s))"
  have p: "queue_pre s (bs_waiters s)" using ok by (simp add: queue_ok_def)
  note d = queue_preD[OF p]
  have "\<forall>w \<in> set (bs_waiters s). w < length (bs_leases ?s)" using d(7) has_length by auto
  note f = close_waiters_frame[OF this]
  have m: "map bl_granted (bs_leases ?t) = map bl_granted (bs_leases s)" using f by simp
  note len = map_eq_imp_length_eq[OF m] and g = has_map[OF m]
  have r: "has bl_released ?t l = (has bl_released s l \<or> l < length (bs_leases s) \<and> l \<in> set (bs_waiters s))" for l
    using f len by (auto simp: has_def)
  have "queue_pre ?t []"
  proof (rule queue_preI)
    show "bs_inUse ?t = count_if bl_granted (bs_leases ?t)" using f d(2) count_map[OF m] by simp
    show "\<not> has conflicting ?t l" for l
      using g[of l] r[of l] d(4)[of l] d(7)[of l] by (auto simp: has_def lease_defs)
    show "l \<in> set []" if "has waiting ?t l" for l
      using that g[of l] r[of l] d(5)[of l] len by (auto simp: has_def lease_defs)
  qed (use f d in auto)
  then show ?thesis using f by (simp add: queue_ok_def bulk_close_def)
qed

lemmas queue_ops = queue_reserve queue_subscribe queue_release queue_close

lemma queue_step_ok: "queue_ok s \<Longrightarrow> queue_ok (fst (queue_step x s))"
  by (cases x) (auto intro: queue_ops)

section \<open>Refinement of a list of live leases\<close>

text \<open>The specification: the live leases in order, the number of leases so far, and whether it is closed.\<close>

fun abs_step :: "nat \<Rightarrow> bulk_op \<Rightarrow> nat list \<times> nat \<times> bool \<Rightarrow> nat list \<times> nat \<times> bool" where
  "abs_step m OpReserve (q, n, c) = (if c then q else q @ [n], Suc n, c)"
| "abs_step m (OpSubscribe l k) a = a"
| "abs_step m (OpRelease l) (q, n, c) = (filter (\<lambda>k. k \<noteq> l) q, n, c)"
| "abs_step m OpClose (q, n, c) = (take m q, n, True)"

definition abs_queue :: "bulk_queue \<Rightarrow> nat list \<times> nat \<times> bool" where
  "abs_queue s = (live_ids s, length (bs_leases s), bs_closed s)"

lemma granted_prefix:
  assumes ok: "queue_ok s"
  shows "granted_ids s = take (nat (bs_max s)) (live_ids s)"
    and "filter (\<lambda>l. l \<notin> set (bs_waiters s)) (live_ids s) = granted_ids s"
proof -
  let ?P = "\<lambda>l. bl_granted (bs_leases s ! l)"
  have p: "queue_pre s (bs_waiters s)" using ok by (simp add: queue_ok_def)
  note d = queue_preD[OF p]
  have w: "l \<in> set (bs_waiters s)" if "l \<in> set (live_ids s)" "\<not> ?P l" for l
    using d(5)[of l] that by (simp add: live_ids_mem has_def waiting_def)
  have nw: "l \<notin> set (bs_waiters s)" if "?P l" for l
    using d(7)[of l] that by (auto simp: has_def ungranted_def)
  have split: "live_ids s = filter ?P (live_ids s) @ filter (\<lambda>l. \<not> ?P l) (live_ids s)"
  proof (rule sorted_filter_split)
    show "sorted_wrt (<) (live_ids s)" by (simp add: live_ids_def live_of_sorted)
    show "x < y" if "x \<in> set (live_ids s)" "y \<in> set (live_ids s)" "?P x" "\<not> ?P y" for x y
      using d(8)[OF w[OF that(2,4)], of x] that(1,3) by (simp add: live_ids_mem has_def)
  qed
  have "\<not> bl_released (bs_leases s ! l)" if "?P l" "l < length (bs_leases s)" for l
    using d(4)[of l] that by (simp add: has_def conflicting_def)
  then have g: "granted_ids s = filter ?P (live_ids s)"
    unfolding granted_ids_def live_ids_def live_of_def filter_filter by (auto intro!: filter_cong)
  have n: "int (length (granted_ids s)) = bs_inUse s" "bs_inUse s \<le> bs_max s"
    using d(2,3) granted_count[of s] by simp_all
  have full: "nat (bs_max s) = length (granted_ids s)" if ne: "filter (\<lambda>l. \<not> ?P l) (live_ids s) \<noteq> []"
  proof -
    obtain l where "l \<in> set (live_ids s)" "\<not> ?P l" using ne unfolding filter_empty_conv by blast
    then have "bs_waiters s \<noteq> []" using w[of l] by auto
    then show ?thesis using ok n by (simp add: queue_ok_def)
  qed
  show "granted_ids s = take (nat (bs_max s)) (live_ids s)"
  proof (cases "filter (\<lambda>l. \<not> ?P l) (live_ids s) = []")
    case True
    then show ?thesis using split g n by simp
  next
    case False
    then show ?thesis using split g full[OF False] by (metis append_eq_conv_conj)
  qed
  show "filter (\<lambda>l. l \<notin> set (bs_waiters s)) (live_ids s) = granted_ids s"
    unfolding g using w nw by (intro filter_cong) auto
qed

lemma abs_reserve: "abs_queue (fst (bulk_reserve s)) = abs_step m OpReserve (abs_queue s)"
  by (auto simp: abs_queue_def bulk_reserve_def Let_def live_ids_def live_of_append fresh_lease_def)

lemma abs_subscribe: "abs_queue (fst (bulk_subscribe s l n)) = abs_queue s"
  using subscribe_frame[of s l n] subscribe_released[of s l n] map_eq_imp_length_eq[OF subscribe_released[of s l n]]
  by (simp add: abs_queue_def live_ids_def)

lemma abs_release: "abs_queue (fst (bulk_release s l)) = abs_step m (OpRelease l) (abs_queue s)"
proof (cases "has (\<lambda>x. \<not> bl_released x) s l")
  case False
  then have "l \<notin> set (live_ids s)" by (auto simp: live_ids_mem has_def)
  then have "filter (\<lambda>k. k \<noteq> l) (live_ids s) = live_ids s" by (auto simp: filter_id_conv)
  then show ?thesis using False by (simp add: bulk_release_give_up abs_queue_def)
next
  case True
  let ?t = "fst (grant_waiters (give_up s l) (bs_waiters s))"
  have m: "map bl_released (bs_leases ?t) = (map bl_released (bs_leases s))[l := True]"
    using grant_waiters_frame[of "give_up s l" "bs_waiters s"] by (simp add: map_update)
  have "length (bs_leases ?t) = length (bs_leases s)" using arg_cong[OF m, of length] by simp
  moreover have "live_ids ?t = filter (\<lambda>k. k \<noteq> l) (live_ids s)"
    using True unfolding live_ids_def m by (simp add: live_of_update has_def)
  ultimately show ?thesis
    using True grant_waiters_frame[of "give_up s l" "bs_waiters s"] by (simp add: bulk_release_give_up abs_queue_def)
qed

lemma abs_close:
  assumes "queue_ok s"
  shows "abs_queue (fst (bulk_close s)) = abs_step (nat (bs_max s)) OpClose (abs_queue s)"
proof -
  let ?t = "fst (close_waiters (s\<lparr>bs_closed := True\<rparr>) (bs_waiters s))"
  have "\<forall>w \<in> set (bs_waiters s). w < length (bs_leases (s\<lparr>bs_closed := True\<rparr>))"
    using assms by (auto simp: queue_ok_def queue_pre_def has_def)
  note f = close_waiters_frame[OF this]
  have m: "map bl_granted (bs_leases ?t) = map bl_granted (bs_leases s)" using f by simp
  note len = map_eq_imp_length_eq[OF m]
  have "live_ids ?t = filter (\<lambda>l. l \<notin> set (bs_waiters s)) (live_ids s)"
    using f len unfolding live_ids_def live_of_def filter_filter by (auto intro!: filter_cong)
  also have "\<dots> = take (nat (bs_max s)) (live_ids s)" using granted_prefix[OF assms] by simp
  finally show ?thesis using f len by (simp add: abs_queue_def bulk_close_def)
qed

lemma abs_queue_step: "queue_ok s \<Longrightarrow> abs_queue (fst (queue_step x s)) = abs_step (nat (bs_max s)) x (abs_queue s)"
  by (cases x) (auto simp: abs_reserve abs_subscribe abs_release abs_close simp del: abs_step.simps(1,3,4))

lemma close_waiters_max: "bs_max (fst (close_waiters s ws)) = bs_max s"
  by (induction s ws rule: close_waiters.induct) (auto simp: Let_def case_prod_beta)

lemma queue_step_max: "bs_max (fst (queue_step x s)) = bs_max s"
  using subscribe_frame[of s] grant_waiters_frame[of "give_up s l" for l]
  by (cases x) (simp_all add: bulk_reserve_def bulk_release_give_up bulk_close_def close_waiters_max Let_def)

lemma queue_run_Cons:
  "queue_run (x # xs) s = (fst (queue_run xs (fst (queue_step x s))),
     snd (queue_step x s) @ snd (queue_run xs (fst (queue_step x s))))"
  by (simp add: case_prod_beta)

lemma queue_run_refines:
  "queue_ok s \<Longrightarrow> queue_ok (fst (queue_run xs s)) \<and> bs_max (fst (queue_run xs s)) = bs_max s \<and>
   abs_queue (fst (queue_run xs s)) = fold (abs_step (nat (bs_max s))) xs (abs_queue s)"
proof (induction xs arbitrary: s)
  case (Cons x xs)
  then show ?case
    using Cons.IH[OF queue_step_ok[OF Cons.prems, of x]] abs_queue_step[OF Cons.prems, of x]
      queue_step_max[of x s]
    by (simp add: queue_run_Cons del: queue_run.simps(2))
qed simp

section \<open>Callbacks\<close>

text \<open>\<open>told\<close> counts the calls about a lease, \<open>calls_of\<close> the calls of a callback, \<open>subs\<close> the leases that may
  still call it.\<close>

definition told :: "nat \<Rightarrow> notice list \<Rightarrow> int" where
  "told l ns = count_if (\<lambda>n. fst n = l) ns"

definition calls_of :: "nat \<Rightarrow> notice list \<Rightarrow> int" where
  "calls_of i ns = count_if (\<lambda>n. fst (snd n) = i) ns"

definition unheard :: "nat \<Rightarrow> bulk_lease \<Rightarrow> bool" where
  "unheard i x \<longleftrightarrow> bl_notify x = Some i \<and> \<not> bl_notified x"

definition subs :: "nat \<Rightarrow> bulk_queue \<Rightarrow> int" where
  "subs i s = count_if (unheard i) (bs_leases s)"

definition missed :: "bulk_lease \<Rightarrow> bool" where
  "missed x \<longleftrightarrow> bl_granted x \<and> bl_notify x \<noteq> None \<and> \<not> bl_notified x"

definition heard :: "bulk_queue \<Rightarrow> nat \<Rightarrow> int" where
  "heard s l = (if has bl_notified s l then 1 else 0)"

lemma notices_append [simp]:
  "told l (ns @ ms) = told l ns + told l ms" "calls_of i (ns @ ms) = calls_of i ns + calls_of i ms"
  "told l [] = 0" "calls_of i [] = 0"
  by (simp_all add: told_def calls_of_def)

lemma calls_of_nonneg: "0 \<le> calls_of i ns" by (simp add: calls_of_def)

lemma subs_nonneg: "0 \<le> subs i s" by (simp add: subs_def)

lemma quiet_fields [simp]:
  "subs i (s\<lparr>bs_inUse := a\<rparr>) = subs i s" "subs i (s\<lparr>bs_waiters := b\<rparr>) = subs i s"
  "subs i (s\<lparr>bs_closed := c\<rparr>) = subs i s" "heard (s\<lparr>bs_inUse := a\<rparr>) l = heard s l"
  "heard (s\<lparr>bs_waiters := b\<rparr>) l = heard s l" "heard (s\<lparr>bs_closed := c\<rparr>) l = heard s l"
  by (simp_all add: subs_def heard_def)

lemma wake_step:
  assumes "l < length (bs_leases s)" and "x = bs_leases s ! l"
    and "bl_notify y = bl_notify x" and "bl_notified y = bl_notified x"
  shows "calls_of i (wake_notice l x v) + subs i (set_lease s l (wake_lease y)) = subs i s"
    and "told k (wake_notice l x v) + heard s k = heard (set_lease s l (wake_lease y)) k"
  using assms
  by (auto simp: subs_def count_if_update unheard_def wake_notice_def calls_of_def told_def heard_def has_def
      split: option.splits)

lemma grant_waiters_calls:
  assumes "\<forall>w \<in> set ws. w < length (bs_leases s)"
  shows "calls_of i (snd (grant_waiters s ws)) + subs i (fst (grant_waiters s ws)) = subs i s \<and>
    told k (snd (grant_waiters s ws)) + heard s k = heard (fst (grant_waiters s ws)) k"
  using assms
proof (induction s ws rule: grant_waiters.induct)
  case (2 s nxt ws)
  let ?x = "bs_leases s ! nxt"
  let ?y = "?x\<lparr>bl_granted := True\<rparr>"
  let ?s = "(set_lease s nxt (wake_lease ?y))\<lparr>bs_inUse := bs_inUse s + 1\<rparr>"
  consider "bs_closed s \<or> \<not> bs_inUse s < bs_max s"
    | "\<not> bs_closed s" "bs_inUse s < bs_max s" "bl_released ?x"
    | "\<not> bs_closed s" "bs_inUse s < bs_max s" "\<not> bl_released ?x" by blast
  then show ?case
  proof cases
    case c: 3
    then have e: "grant_waiters s (nxt # ws) = (fst (grant_waiters ?s ws), wake_notice nxt ?x True @ snd (grant_waiters ?s ws))"
      by (simp add: Let_def case_prod_beta)
    have "\<forall>w \<in> set ws. w < length (bs_leases ?s)" using 2(3) by simp
    with 2(2)[OF _ refl c(3) refl] c have
      ih: "calls_of i (snd (grant_waiters ?s ws)) + subs i (fst (grant_waiters ?s ws)) = subs i ?s"
        "told k (snd (grant_waiters ?s ws)) + heard ?s k = heard (fst (grant_waiters ?s ws)) k" by simp_all
    have "nxt < length (bs_leases s)" using 2(3) by simp
    note w = wake_step(1)[OF this refl, of ?y i True] wake_step(2)[OF this refl, of ?y k True]
    show ?thesis using ih w unfolding e by simp
  next
    case c: 2
    then show ?thesis using 2(1) 2(3) by simp
  qed auto
qed simp

lemma close_waiters_calls:
  assumes "\<forall>w \<in> set ws. w < length (bs_leases s)"
  shows "calls_of i (snd (close_waiters s ws)) + subs i (fst (close_waiters s ws)) = subs i s \<and>
    told k (snd (close_waiters s ws)) + heard s k = heard (fst (close_waiters s ws)) k"
  using assms
proof (induction s ws rule: close_waiters.induct)
  case (2 s l ws)
  show ?case
  proof (cases "bl_released (bs_leases s ! l)")
    case True
    then show ?thesis using 2(1)[OF refl True] 2(3) by simp
  next
    case False
    let ?x = "bs_leases s ! l"
    let ?y = "?x\<lparr>bl_released := True\<rparr>"
    let ?s = "set_lease s l (wake_lease ?y)"
    have e: "close_waiters s (l # ws) = (fst (close_waiters ?s ws), wake_notice l ?x False @ snd (close_waiters ?s ws))"
      using False by (simp add: Let_def case_prod_beta)
    have "\<forall>w \<in> set ws. w < length (bs_leases ?s)" using 2(3) by simp
    note ih = 2(2)[OF refl False this]
    have "l < length (bs_leases s)" using 2(3) by simp
    note w = wake_step(1)[OF this refl, of ?y i False] wake_step(2)[OF this refl, of ?y k False]
    show ?thesis using ih w unfolding e by simp
  qed
qed simp

lemma waiters_range: "queue_ok s \<Longrightarrow> \<forall>w \<in> set (bs_waiters s). w < length (bs_leases s)"
  by (auto simp: queue_ok_def queue_pre_def has_def)

lemma release_calls:
  assumes "queue_ok s"
  shows "calls_of i (snd (bulk_release s l)) + subs i (fst (bulk_release s l)) = subs i s \<and>
    told k (snd (bulk_release s l)) + heard s k = heard (fst (bulk_release s l)) k"
proof (cases "has (\<lambda>x. \<not> bl_released x) s l")
  case True
  have "subs i (give_up s l) = subs i s" "heard (give_up s l) k = heard s k"
    using True by (auto simp: subs_def count_if_update has_def unheard_def heard_def nth_list_update)
  then show ?thesis using True grant_waiters_calls[of "bs_waiters s" "give_up s l" i k] waiters_range[OF assms]
    by (simp add: bulk_release_give_up)
qed (simp add: bulk_release_give_up)

lemma close_calls:
  assumes "queue_ok s"
  shows "calls_of i (snd (bulk_close s)) + subs i (fst (bulk_close s)) = subs i s \<and>
    told k (snd (bulk_close s)) + heard s k = heard (fst (bulk_close s)) k"
  using close_waiters_calls[of "bs_waiters s" "s\<lparr>bs_closed := True\<rparr>" i k] waiters_range[OF assms]
  by (simp add: bulk_close_def)

lemma subscribe_calls:
  "calls_of i (snd (bulk_subscribe s l n)) + subs i (fst (bulk_subscribe s l n)) \<le> subs i s + (if n = i then 1 else 0)"
  "told k (snd (bulk_subscribe s l n)) + heard s k = heard (fst (bulk_subscribe s l n)) k"
  by (auto simp: bulk_subscribe_def Let_def subs_def count_if_update unheard_def calls_of_def told_def heard_def has_def
      nth_list_update)

lemma reserve_calls: "subs i (fst (bulk_reserve s)) = subs i s" "heard (fst (bulk_reserve s)) k = heard s k"
  by (auto simp: bulk_reserve_def Let_def subs_def unheard_def heard_def has_def fresh_lease_def nth_append less_Suc_eq)

section \<open>Granted leases are told\<close>

lemma grant_waiters_missed: "\<not> has missed (fst (grant_waiters s ws)) l" if "\<And>l. \<not> has missed s l"
  using that
proof (induction s ws rule: grant_waiters.induct)
  case (2 s nxt ws)
  let ?s = "(set_lease s nxt (wake_lease ((bs_leases s ! nxt)\<lparr>bl_granted := True\<rparr>)))\<lparr>bs_inUse := bs_inUse s + 1\<rparr>"
  consider "bs_closed s \<or> \<not> bs_inUse s < bs_max s"
    | "\<not> bs_closed s" "bs_inUse s < bs_max s" "bl_released (bs_leases s ! nxt)"
    | "\<not> bs_closed s" "bs_inUse s < bs_max s" "\<not> bl_released (bs_leases s ! nxt)" by blast
  then show ?case
  proof cases
    case c: 3
    then have e: "fst (grant_waiters s (nxt # ws)) = fst (grant_waiters ?s ws)" by (simp add: Let_def case_prod_beta)
    have "\<not> missed (wake_lease ((bs_leases s ! nxt)\<lparr>bl_granted := True\<rparr>))" by (auto simp: missed_def)
    then have "\<not> has missed ?s k" for k using 2(3)[of k] by simp
    then show ?thesis using 2(2)[OF _ refl c(3) refl] c unfolding e by simp
  qed (use 2 in auto)
qed simp

lemma close_waiters_missed:
  "(\<And>l. \<not> has missed s l) \<Longrightarrow> \<forall>w \<in> set ws. has ungranted s w \<Longrightarrow> \<not> has missed (fst (close_waiters s ws)) l"
proof (induction s ws rule: close_waiters.induct)
  case (2 s w ws)
  show ?case
  proof (cases "bl_released (bs_leases s ! w)")
    case True
    then show ?thesis using 2 by simp
  next
    case False
    let ?s = "set_lease s w (wake_lease ((bs_leases s ! w)\<lparr>bl_released := True\<rparr>))"
    have u: "\<not> bl_granted (bs_leases s ! w)" using 2(4) by (simp add: has_def ungranted_def)
    have "\<not> missed (wake_lease ((bs_leases s ! w)\<lparr>bl_released := True\<rparr>))" using u by (simp add: missed_def)
    then have "\<not> has missed ?s k" for k using 2(3)[of k] by simp
    moreover have "ungranted (wake_lease ((bs_leases s ! w)\<lparr>bl_released := True\<rparr>))" using u by (simp add: ungranted_def)
    then have "\<forall>v \<in> set ws. has ungranted ?s v" using 2(4) has_length[of ungranted s w] by auto
    ultimately show ?thesis using 2(2)[OF refl False] False by (simp add: Let_def case_prod_beta)
  qed
qed simp

lemma queue_step_missed:
  assumes ok: "queue_ok s" and m: "\<And>l. \<not> has missed s l"
  shows "\<not> has missed (fst (queue_step x s)) l"
proof (cases x)
  case OpReserve
  then show ?thesis using m[of l]
    by (auto simp: bulk_reserve_def Let_def has_def fresh_lease_def missed_def nth_append less_Suc_eq)
next
  case (OpSubscribe k n)
  then show ?thesis using m[of l] m[of k]
    by (cases "l = k") (auto simp: bulk_subscribe_def Let_def missed_def has_def)
next
  case (OpRelease k)
  have "\<not> has missed (give_up s k) j" for j using m by (auto simp: has_give_up missed_def)
  then show ?thesis using OpRelease m grant_waiters_missed[of "give_up s k"] by (simp add: bulk_release_give_up)
next
  case OpClose
  have "\<forall>w \<in> set (bs_waiters s). has ungranted s w" using ok by (auto simp: queue_ok_def queue_pre_def)
  then show ?thesis using OpClose m by (simp add: bulk_close_def close_waiters_missed)
qed

lemma queue_step_told:
  assumes "queue_ok s"
  shows "told k (snd (queue_step x s)) + heard s k = heard (fst (queue_step x s)) k"
  using assms by (cases x) (simp_all add: reserve_calls subscribe_calls release_calls close_calls)

lemma queue_run_told:
  "queue_ok s \<Longrightarrow> (\<And>l. \<not> has missed s l) \<Longrightarrow>
   told k (snd (queue_run xs s)) + heard s k = heard (fst (queue_run xs s)) k \<and> \<not> has missed (fst (queue_run xs s)) l"
proof (induction xs arbitrary: s)
  case (Cons x xs)
  have "\<not> has missed (fst (queue_step x s)) j" for j using queue_step_missed[OF Cons.prems] .
  note ih = Cons.IH[OF queue_step_ok[OF Cons.prems(1)] this]
  show ?case using ih queue_step_told[OF Cons.prems(1), of k x]
    by (simp add: queue_run_Cons del: queue_run.simps(2))
qed simp

text \<open>
  C37: The bulk scheduler is a fair queue with a fixed number of slots. After any sequence of
  reservations, subscriptions, releases and a close, in any order and with repetitions, the leases that
  are not released are those of the specification, in the order of their reservation, and the granted
  ones are exactly the first of them, as many as there are slots: no slot idles while a lease waits and
  no lease overtakes an earlier one. The slots in use count them, every lease is told its outcome at most
  once, and a granted lease with a callback has been told.
\<close>

theorem bulk_slots_fifo:
  assumes "queue_run xs (newBulkRPCScheduler m) = (s, ns)" and "k = (if m \<le> 0 then 1 else nat m)"
  shows "abs_queue s = fold (abs_step k) xs ([], 0, False) \<and> granted_ids s = take k (live_ids s) \<and>
    bs_inUse s = int (length (granted_ids s)) \<and> told l ns \<le> 1 \<and>
    (l \<in> set (granted_ids s) \<and> bl_notify (bs_leases s ! l) \<noteq> None \<longrightarrow> told l ns = 1)"
proof -
  let ?n = "newBulkRPCScheduler m"
  have k: "nat (bs_max ?n) = k" using assms(2) by (simp add: newBulkRPCScheduler_def)
  have n: "abs_queue ?n = ([], 0, False)" "heard ?n l = 0" "\<And>l. \<not> has missed ?n l"
    by (simp_all add: abs_queue_def live_ids_def live_of_def newBulkRPCScheduler_def heard_def has_def)
  have r: "queue_ok s" "bs_max s = bs_max ?n" "abs_queue s = fold (abs_step k) xs ([], 0, False)"
    using queue_run_refines[OF queue_new, of xs m] assms(1) k n by simp_all
  have t: "told l ns = heard s l" "\<not> has missed s l"
    using queue_run_told[OF queue_new n(3), of l xs l] assms(1) n(2) by simp_all
  have "bs_inUse s = int (length (granted_ids s))"
    using r(1) granted_count[of s] by (simp add: queue_ok_def queue_pre_def)
  moreover have "granted_ids s = take k (live_ids s)" using granted_prefix(1)[OF r(1)] r(2) k by simp
  moreover have "told l ns = 1" if "l \<in> set (granted_ids s)" "bl_notify (bs_leases s ! l) \<noteq> None"
    using that t by (auto simp: granted_ids_def has_def missed_def heard_def)
  moreover have "told l ns \<le> 1" using t by (simp add: heard_def)
  ultimately show ?thesis using r(3) by blast
qed

theorem bulk_slots_fifo_witness:
  "\<exists>s ns. queue_run [OpReserve, OpReserve, OpSubscribe 1 7, OpReserve, OpRelease 0, OpRelease 0] (newBulkRPCScheduler 1) = (s, ns) \<and>
     live_ids s = [1, 2] \<and> granted_ids s = [1] \<and> told 1 ns = 1"
proof -
  let ?xs = "[OpReserve, OpReserve, OpSubscribe 1 7, OpReserve, OpRelease 0, OpRelease 0]"
  obtain s ns where r: "queue_run ?xs (newBulkRPCScheduler 1) = (s, ns)" by (cases "queue_run ?xs (newBulkRPCScheduler 1)")
  have "bl_notify (bs_leases s ! 1) = Some 7"
    using r by (auto simp: newBulkRPCScheduler_def bulk_reserve_def bulk_subscribe_def bulk_release_def set_lease_def
        fresh_lease_def wake_lease_def Let_def)
  moreover have "abs_queue s = ([1, 2], 3, False)"
    using bulk_slots_fifo[OF r, of 1] by simp
  ultimately show ?thesis using bulk_slots_fifo[OF r, of 1 1] r by (auto simp: abs_queue_def)
qed

end
