(* ===== verification/Bulk_Admission.thy ===== *)
theory Bulk_Admission
  imports Bulk_Properties
begin

text \<open>
  The admission of bulk requests under all interleavings of the callbacks of their credits, their
  releases and the scheduler's close. Every live lease of the scheduler has a request that still has to
  release it, and every request calls back at most once, which is what its gate relies on.
\<close>

section \<open>The callback of a credit runs once\<close>

text \<open>
  The credit window is the same queue, so a credit is told its outcome at most once; the callback of
  the credit is therefore one thread of its request.
\<close>

lemma window_told_once: "queue_run xs newBulkWindow = (s, ns) \<Longrightarrow> told l ns \<le> 1"
proof -
  have "\<not> has missed newBulkWindow j" "heard newBulkWindow j = 0" for j
    by (simp_all add: newBulkWindow_def has_def heard_def)
  moreover assume "queue_run xs newBulkWindow = (s, ns)"
  ultimately show ?thesis using queue_run_told[OF window_new, of l xs l] by (simp add: heard_def split: if_splits)
qed

lemma reserveBulkCredit_reserve:
  "0 < bs_max s \<Longrightarrow> reserveBulkCredit s = (fst (bulk_reserve s), \<lparr>cl_credit = snd (bulk_reserve s), cl_transferred = False\<rparr>)"
  by (simp add: reserveBulkCredit_def case_prod_beta)

section \<open>Who holds a lease\<close>

definition holds :: "bulk_request \<Rightarrow> nat \<Rightarrow> bool" where
  "holds r l \<longleftrightarrow> rq_pc r = Reserved l \<or> rq_pc r = Dropping l \<or> rq_lease r = Some l \<or> rq_doomed r = Some l"

definition stored :: "sub_pc \<Rightarrow> bool" where
  "stored p \<longleftrightarrow> p = Finished \<or> (\<exists>l. p = Linked l)"

definition request_ok :: "bulk_request \<Rightarrow> bool" where
  "request_ok r \<longleftrightarrow> (\<not> stored (rq_pc r) \<longrightarrow> rq_lease r = None \<and> rq_doomed r = None) \<and>
     (rq_released r \<longrightarrow> rq_lease r = None) \<and> (\<not> rq_released r \<longrightarrow> rq_doomed r = None)"

text \<open>A request is settled when it is released and none of its threads still has a lease in hand.\<close>

definition settled :: "bulk_request \<Rightarrow> bool" where
  "settled r \<longleftrightarrow> rq_released r \<and> rq_doomed r = None \<and> (\<forall>l. rq_pc r \<noteq> Reserved l \<and> rq_pc r \<noteq> Dropping l)"

lemma holds_unique: "request_ok r \<Longrightarrow> holds r l \<Longrightarrow> holds r k \<Longrightarrow> l = k"
  by (auto simp: holds_def request_ok_def stored_def)

lemma settled_holds: "request_ok r \<Longrightarrow> settled r \<Longrightarrow> \<not> holds r l"
  by (auto simp: holds_def request_ok_def settled_def)

definition weight :: "bulk_request \<Rightarrow> int" where
  "weight r = int (length (rq_calls r)) + (if rq_pc r = Finished then 0 else 1)"

text \<open>What has been or may still be called for request \<open>i\<close>; a request that does not exist yet counts as one.\<close>

definition load :: "bulk_system \<Rightarrow> nat \<Rightarrow> int" where
  "load y i = (if i < length (sy_requests y) then weight (sy_requests y ! i) else 1) +
     calls_of i (sy_notices y) + subs i (sy_sched y)"

definition owned :: "bulk_system \<Rightarrow> bool" where
  "owned y \<longleftrightarrow> (\<forall>l \<in> set (live_ids (sy_sched y)). \<exists>i < length (sy_requests y). holds (sy_requests y ! i) l)"

definition system_ok :: "bulk_system \<Rightarrow> bool" where
  "system_ok y \<longleftrightarrow> queue_ok (sy_sched y) \<and> list_all request_ok (sy_requests y) \<and> owned y \<and> (\<forall>i. load y i \<le> 1)"

lemma system_okD:
  assumes "system_ok y"
  shows "queue_ok (sy_sched y)" and "list_all request_ok (sy_requests y)" and "owned y" and "load y i \<le> 1"
    and "i < length (sy_requests y) \<Longrightarrow> request_ok (sy_requests y ! i)"
  using assms by (simp_all add: system_ok_def list_all_length)

lemma live_release: "set (live_ids (fst (bulk_release s l))) = set (live_ids s) - {l}"
  using abs_release[of s l 0] by (auto simp: abs_queue_def)

lemma live_reserve: "set (live_ids (fst (bulk_reserve s))) \<subseteq> insert (snd (bulk_reserve s)) (set (live_ids s))"
  using abs_reserve[of s 0] by (auto simp: abs_queue_def bulk_reserve_def Let_def split: if_splits)

lemma live_subscribe: "live_ids (fst (bulk_subscribe s l n)) = live_ids s"
  using abs_subscribe[of s l n] by (simp add: abs_queue_def)

lemma live_close: "queue_ok s \<Longrightarrow> set (live_ids (fst (bulk_close s))) \<subseteq> set (live_ids s)"
  using abs_close[of s] set_take_subset by (force simp: abs_queue_def)

section \<open>Every step keeps the invariant\<close>

text \<open>One request moves, possibly together with the scheduler.\<close>

lemma system_put:
  assumes ok: "system_ok y" and i: "i < length (sy_requests y)" and r: "r = sy_requests y ! i"
    and "request_ok r'" and "queue_ok s'"
    and own: "\<And>l. l \<in> set (live_ids s') \<Longrightarrow> holds r' l \<or> l \<in> set (live_ids (sy_sched y)) \<and> \<not> holds r l"
    and load: "\<And>k. calls_of k ns' + subs k s' + (if k = i then weight r' else 0) \<le>
      calls_of k (sy_notices y) + subs k (sy_sched y) + (if k = i then weight r else 0)"
  shows "system_ok (y\<lparr>sy_sched := s', sy_requests := (sy_requests y)[i := r'], sy_notices := ns'\<rparr>)"
proof -
  let ?y = "y\<lparr>sy_sched := s', sy_requests := (sy_requests y)[i := r'], sy_notices := ns'\<rparr>"
  have "\<exists>j < length (sy_requests ?y). holds (sy_requests ?y ! j) l" if l: "l \<in> set (live_ids s')" for l
  proof (cases "holds r' l")
    case True
    then show ?thesis using i by (auto intro!: exI[of _ i])
  next
    case False
    then have "l \<in> set (live_ids (sy_sched y))" "\<not> holds r l" using own[OF l] by auto
    then obtain j where "j < length (sy_requests y)" "holds (sy_requests y ! j) l" "j \<noteq> i"
      using system_okD(3)[OF ok] r unfolding owned_def by blast
    then show ?thesis by (auto intro!: exI[of _ j])
  qed
  then have "owned ?y" by (simp add: owned_def)
  moreover have "load ?y k \<le> 1" for k
    using system_okD(4)[OF ok, of k] load[of k] i r by (cases "k = i") (auto simp: load_def)
  moreover have "list_all request_ok (sy_requests ?y)"
    using system_okD(2)[OF ok] assms(4) by (auto simp: list_all_iff dest!: set_update_subset_insert[THEN subsetD])
  ultimately show ?thesis using assms(5) by (simp add: system_ok_def)
qed

lemma put_plain:
  "put_request y i r = y\<lparr>sy_sched := sy_sched y, sy_requests := (sy_requests y)[i := r], sy_notices := sy_notices y\<rparr>"
  by (simp add: put_request_def)

lemma put_sched:
  "put_request (y\<lparr>sy_sched := s\<rparr>) i r = y\<lparr>sy_sched := s, sy_requests := (sy_requests y)[i := r], sy_notices := sy_notices y\<rparr>"
  by (simp add: put_request_def)

lemma put_do:
  "put_request (sched_do y q) i r =
     y\<lparr>sy_sched := fst q, sy_requests := (sy_requests y)[i := r], sy_notices := sy_notices y @ snd q\<rparr>"
  by (simp add: put_request_def sched_do_def)

lemma release_load:
  "queue_ok s \<Longrightarrow> calls_of k (snd (bulk_release s l)) + subs k (fst (bulk_release s l)) = subs k s"
  using release_calls by blast

lemma credit_callback_ok:
  assumes ok: "system_ok y" and i: "i < length (sy_requests y)"
  shows "system_ok (credit_callback y i success)"
proof -
  define r where "r = sy_requests y ! i"
  note d = system_okD[OF ok]
  have q: "queue_ok (sy_sched y)" and ro: "request_ok r" using d(1) d(5)[OF i] by (simp_all add: r_def)
  note put = system_put[OF ok i r_def]
  show ?thesis
  proof (cases "rq_pc r")
    case AwaitCredit
    let ?q = "bulk_reserve (sy_sched y)"
    have n: "rq_lease r = None" "rq_doomed r = None" using ro AwaitCredit by (auto simp: request_ok_def stored_def)
    have nh: "\<not> holds r l" for l using AwaitCredit n by (simp add: holds_def)
    have "system_ok (put_request y i (r\<lparr>rq_pc := Refusing\<rparr>))"
      unfolding put_plain
      by (rule put) (use ro AwaitCredit n nh q in \<open>auto simp: request_ok_def stored_def weight_def\<close>)
    moreover have "system_ok (put_request (y\<lparr>sy_sched := fst ?q\<rparr>) i (r\<lparr>rq_pc := Reserved (snd ?q)\<rparr>))"
      unfolding put_sched
    proof (rule put)
      show "holds (r\<lparr>rq_pc := Reserved (snd ?q)\<rparr>) l \<or> l \<in> set (live_ids (sy_sched y)) \<and> \<not> holds r l"
        if "l \<in> set (live_ids (fst ?q))" for l
        using live_reserve[of "sy_sched y"] that nh by (auto simp: holds_def)
    qed (use ro AwaitCredit n q in \<open>auto simp: request_ok_def stored_def weight_def reserve_calls queue_reserve\<close>)
    ultimately show ?thesis using AwaitCredit by (simp add: credit_callback_def r_def case_prod_beta Let_def)
  next
    case (Reserved l)
    have n: "rq_lease r = None" "rq_doomed r = None" using ro Reserved by (auto simp: request_ok_def stored_def)
    have "system_ok (put_request y i (r\<lparr>rq_pc := Dropping l\<rparr>))"
      unfolding put_plain
      by (rule put) (use ro Reserved n q in \<open>auto simp: request_ok_def stored_def weight_def holds_def\<close>)
    moreover have "system_ok (put_request y i (r\<lparr>rq_lease := Some l, rq_pc := Linked l\<rparr>))" if "\<not> rq_released r"
      unfolding put_plain
      by (rule put) (use ro Reserved n q that in \<open>auto simp: request_ok_def stored_def weight_def holds_def\<close>)
    ultimately show ?thesis using Reserved by (simp add: credit_callback_def r_def Let_def)
  next
    case (Dropping l)
    have n: "rq_lease r = None" "rq_doomed r = None" using ro Dropping by (auto simp: request_ok_def stored_def)
    have "system_ok (put_request (sched_do y (bulk_release (sy_sched y) l)) i (r\<lparr>rq_pc := Refusing\<rparr>))"
      unfolding put_do
      by (rule put) (use ro Dropping n q queue_release[OF q] release_load[OF q] in
          \<open>auto simp: request_ok_def stored_def weight_def holds_def live_release\<close>)
    then show ?thesis using Dropping by (simp add: credit_callback_def r_def Let_def)
  next
    case Refusing
    have n: "rq_lease r = None" "rq_doomed r = None" using ro Refusing by (auto simp: request_ok_def stored_def)
    have "system_ok (put_request y i (r\<lparr>rq_calls := rq_calls r @ [False], rq_pc := Finished\<rparr>))"
      unfolding put_plain
      by (rule put) (use ro Refusing n q in \<open>auto simp: request_ok_def stored_def weight_def holds_def\<close>)
    then show ?thesis using Refusing by (simp add: credit_callback_def r_def Let_def)
  next
    case (Linked l)
    have "system_ok (put_request (sched_do y (bulk_subscribe (sy_sched y) l i)) i (r\<lparr>rq_pc := Finished\<rparr>))"
      unfolding put_do
    proof (rule put)
      show "calls_of k (sy_notices y @ snd (bulk_subscribe (sy_sched y) l i)) + subs k (fst (bulk_subscribe (sy_sched y) l i)) +
          (if k = i then weight (r\<lparr>rq_pc := Finished\<rparr>) else 0)
        \<le> calls_of k (sy_notices y) + subs k (sy_sched y) + (if k = i then weight r else 0)" for k
        using subscribe_calls(1)[of k "sy_sched y" l i] Linked by (auto simp: weight_def)
    qed (use ro Linked queue_subscribe[OF q] in \<open>auto simp: request_ok_def stored_def holds_def live_subscribe\<close>)
    then show ?thesis using Linked by (simp add: credit_callback_def r_def Let_def)
  next
    case Finished
    then show ?thesis using ok by (simp add: credit_callback_def r_def Let_def)
  qed
qed

lemma admission_mark_ok:
  assumes ok: "system_ok y" and i: "i < length (sy_requests y)"
  shows "system_ok (admission_mark y i)"
proof (cases "rq_released (sy_requests y ! i)")
  case False
  define r where "r = sy_requests y ! i"
  have q: "queue_ok (sy_sched y)" and ro: "request_ok r" using system_okD[OF ok] i by (simp_all add: r_def)
  have "system_ok (put_request y i (r\<lparr>rq_released := True, rq_doomed := rq_lease r, rq_lease := None\<rparr>))"
    unfolding put_plain
    by (rule system_put[OF ok i r_def])
      (use ro False q r_def in \<open>auto simp: request_ok_def weight_def holds_def\<close>)
  then show ?thesis using False by (simp add: admission_mark_def r_def Let_def)
qed (simp add: admission_mark_def ok)

lemma admission_drop_ok:
  assumes ok: "system_ok y" and i: "i < length (sy_requests y)"
  shows "system_ok (admission_drop y i)"
proof (cases "rq_doomed (sy_requests y ! i)")
  case (Some l)
  define r where "r = sy_requests y ! i"
  have q: "queue_ok (sy_sched y)" and ro: "request_ok r" using system_okD[OF ok] i by (simp_all add: r_def)
  have n: "rq_lease r = None" "\<And>l. rq_pc r \<noteq> Reserved l" "\<And>l. rq_pc r \<noteq> Dropping l"
    using ro Some by (auto simp: r_def request_ok_def stored_def)
  have "system_ok (put_request (sched_do y (bulk_release (sy_sched y) l)) i (r\<lparr>rq_doomed := None\<rparr>))"
    unfolding put_do
    by (rule system_put[OF ok i r_def])
      (use ro Some n q r_def queue_release[OF q] release_load[OF q] in
        \<open>auto simp: request_ok_def weight_def holds_def live_release\<close>)
  then show ?thesis using Some by (simp add: admission_drop_def r_def Let_def)
qed (simp add: admission_drop_def ok)

lemma calls_of_remove:
  "k < length ns \<Longrightarrow> calls_of i (take k ns @ drop (Suc k) ns) = calls_of i ns - (if fst (snd (ns ! k)) = i then 1 else 0)"
  using arg_cong[OF id_take_nth_drop[of k ns], of "calls_of i"] by (simp add: calls_of_def)

lemma deliver_ok:
  assumes ok: "system_ok y" and k: "k < length (sy_notices y)"
  shows "system_ok (deliver y k)"
proof -
  obtain l n v where e: "sy_notices y ! k = (l, n, v)" by (cases "sy_notices y ! k") auto
  let ?ns = "take k (sy_notices y) @ drop (Suc k) (sy_notices y)"
  have c: "calls_of i ?ns = calls_of i (sy_notices y) - (if n = i then 1 else 0)" for i
    using calls_of_remove[OF k, of i] e by simp
  have n: "n < length (sy_requests y)"
  proof (rule ccontr)
    assume "\<not> n < length (sy_requests y)"
    then have "calls_of n (sy_notices y) \<le> 0"
      using system_okD(4)[OF ok, of n] subs_nonneg[of n "sy_sched y"] by (simp add: load_def)
    moreover have "1 \<le> calls_of n (sy_notices y)"
      using k e count_if_pos[of k "sy_notices y" "\<lambda>x. fst (snd x) = n"] by (simp add: calls_of_def)
    ultimately show False by simp
  qed
  define r where "r = sy_requests y ! n"
  have ro: "request_ok r" using system_okD(5)[OF ok n] by (simp add: r_def)
  have "system_ok (y\<lparr>sy_sched := sy_sched y, sy_requests := (sy_requests y)[n := r\<lparr>rq_calls := rq_calls r @ [v]\<rparr>], sy_notices := ?ns\<rparr>)"
    by (rule system_put[OF ok n r_def])
      (use ro c system_okD(1)[OF ok] in \<open>auto simp: request_ok_def weight_def holds_def\<close>)
  moreover have "deliver y k = y\<lparr>sy_sched := sy_sched y, sy_requests := (sy_requests y)[n := r\<lparr>rq_calls := rq_calls r @ [v]\<rparr>], sy_notices := ?ns\<rparr>"
    using e n by (intro bulk_system.equality) (simp_all add: deliver_def put_request_def r_def Let_def)
  ultimately show ?thesis by simp
qed

lemma new_request_ok:
  assumes "system_ok y"
  shows "system_ok (y\<lparr>sy_requests := sy_requests y @ [newBulkRPCAdmission]\<rparr>)"
proof -
  let ?y = "y\<lparr>sy_requests := sy_requests y @ [newBulkRPCAdmission]\<rparr>"
  have "load ?y i = load y i" for i
    by (auto simp: load_def nth_append newBulkRPCAdmission_def weight_def)
  moreover have "owned ?y"
    using system_okD(3)[OF assms] unfolding owned_def by (fastforce simp: nth_append)
  ultimately show ?thesis using system_okD[OF assms]
    by (simp add: system_ok_def newBulkRPCAdmission_def request_ok_def)
qed

lemma close_ok:
  assumes "system_ok y"
  shows "system_ok (sched_do y (bulk_close (sy_sched y)))"
proof -
  have q: "queue_ok (sy_sched y)" using system_okD(1)[OF assms] .
  have "calls_of i (snd (bulk_close (sy_sched y))) + subs i (fst (bulk_close (sy_sched y))) = subs i (sy_sched y)" for i
    using close_calls[OF q] by blast
  then have "load (sched_do y (bulk_close (sy_sched y))) i = load y i" for i
    by (auto simp: load_def sched_do_def)
  moreover have "owned (sched_do y (bulk_close (sy_sched y)))"
    using system_okD(3)[OF assms] live_close[OF q] by (auto simp: owned_def sched_do_def)
  ultimately show ?thesis using system_okD[OF assms] queue_close[OF q] by (simp add: system_ok_def sched_do_def)
qed

lemma system_step_ok: "system_ok y \<Longrightarrow> system_ok (system_step x y)"
  by (cases x) (simp_all add: new_request_ok credit_callback_ok admission_mark_ok admission_drop_ok deliver_ok close_ok)

lemma system_init_ok: "system_ok (system_init m)"
  using queue_new[of m]
  by (simp add: system_ok_def system_init_def owned_def load_def newBulkRPCScheduler_def live_ids_def live_of_def subs_def)

lemma system_run_ok: "system_ok (system_run m xs)"
proof -
  have "system_ok y \<Longrightarrow> system_ok (fold system_step xs y)" for y
    by (induction xs arbitrary: y) (auto intro: system_step_ok)
  then show ?thesis by (simp add: system_run_def system_init_ok)
qed

section \<open>No slot is lost\<close>

lemma live_within_unsettled:
  assumes ok: "system_ok y"
  shows "int (length (live_ids (sy_sched y))) \<le> count_if (\<lambda>r. \<not> settled r) (sy_requests y)"
proof -
  let ?L = "set (live_ids (sy_sched y))"
  let ?U = "{i. i < length (sy_requests y) \<and> \<not> settled (sy_requests y ! i)}"
  have "\<forall>l \<in> ?L. \<exists>i. i < length (sy_requests y) \<and> holds (sy_requests y ! i) l"
    using system_okD(3)[OF ok] by (auto simp: owned_def)
  then obtain f where f: "\<And>l. l \<in> ?L \<Longrightarrow> f l < length (sy_requests y) \<and> holds (sy_requests y ! f l) l"
    using bchoice[of ?L "\<lambda>l i. i < length (sy_requests y) \<and> holds (sy_requests y ! i) l"] by blast
  have "inj_on f ?L"
  proof (rule inj_onI)
    show "l = k" if "l \<in> ?L" "k \<in> ?L" "f l = f k" for l k
      using f[OF that(1)] f[OF that(2)] that(3) system_okD(5)[OF ok, of "f l"] by (auto intro: holds_unique)
  qed
  moreover have "f ` ?L \<subseteq> ?U"
  proof
    show "i \<in> ?U" if i: "i \<in> f ` ?L" for i
    proof -
      obtain l where "l \<in> ?L" "i = f l" using i by blast
      then show ?thesis using f[of l] settled_holds[of "sy_requests y ! f l" l] system_okD(5)[OF ok, of "f l"] by auto
    qed
  qed
  ultimately have "card ?L \<le> card ?U" by (intro card_inj_on_le) auto
  moreover have "distinct (live_ids (sy_sched y))"
    by (simp add: live_ids_def live_of_def)
  ultimately show ?thesis by (simp add: count_if_card distinct_card)
qed

text \<open>
  C38: Bulk admissions lose no slot. Whatever the interleaving of credits, releases and the close, and
  wherever the threads of the requests stand, the leases that the scheduler has out, waiting ones
  included, and so the slots in use, are at most as many as the requests that are not settled; once every
  request has been released and its threads have run to their end, all slots are free and no lease
  waits.
\<close>

theorem bulk_admission_settles:
  assumes "y = system_run m xs"
  shows "bs_inUse (sy_sched y) \<le> int (length (live_ids (sy_sched y))) \<and>
    int (length (live_ids (sy_sched y))) \<le> count_if (\<lambda>r. \<not> settled r) (sy_requests y) \<and>
    (list_all settled (sy_requests y) \<longrightarrow> bs_inUse (sy_sched y) = 0 \<and> live_ids (sy_sched y) = [])"
proof -
  have ok: "system_ok y" using assms system_run_ok by simp
  have q: "queue_ok (sy_sched y)" using system_okD(1)[OF ok] .
  have g: "bs_inUse (sy_sched y) = int (length (granted_ids (sy_sched y)))"
    using q granted_count[of "sy_sched y"] by (simp add: queue_ok_def queue_pre_def)
  have u: "bs_inUse (sy_sched y) \<le> int (length (live_ids (sy_sched y)))"
    unfolding g granted_prefix(1)[OF q] by simp
  note w = live_within_unsettled[OF ok]
  have "count_if (\<lambda>r. \<not> settled r) (sy_requests y) = 0" if "list_all settled (sy_requests y)"
    using that by (simp add: count_if_def list_all_iff filter_empty_conv)
  then show ?thesis using u w g by auto
qed

section \<open>The gate\<close>

lemma gate_resolve_next:
  "0 < ig_remaining g \<Longrightarrow> ig_remaining g < 2 ^ 31 \<Longrightarrow> \<not> ig_ready g \<Longrightarrow>
   gate_resolve g b = Some (g\<lparr>ig_remaining := ig_remaining g - 1, ig_failed := ig_failed g \<or> \<not> b,
     ig_ready := ig_remaining g = 1, ig_wakes := ig_wakes g + (if ig_remaining g = 1 then 1 else 0)\<rparr>)"
  by (cases b) (simp_all add: gate_resolve_def Let_def i32_exact)

lemma resolve_all_exact:
  "0 < ig_remaining g \<Longrightarrow> ig_remaining g < 2 ^ 31 \<Longrightarrow> int (length bs) \<le> ig_remaining g \<Longrightarrow> \<not> ig_ready g \<Longrightarrow>
   resolve_all g bs = Some \<lparr>ig_remaining = ig_remaining g - int (length bs), ig_failed = (ig_failed g \<or> False \<in> set bs),
     ig_ready = (int (length bs) = ig_remaining g),
     ig_wakes = ig_wakes g + (if int (length bs) = ig_remaining g then 1 else 0)\<rparr>"
proof (induction bs arbitrary: g)
  case Nil
  then show ?case by simp
next
  case (Cons b bs)
  note next_ = gate_resolve_next[OF Cons.prems(1,2,4), of b]
  show ?case
  proof (cases "ig_remaining g = 1")
    case True
    then have "bs = []" using Cons.prems by simp
    then show ?thesis using True next_ by simp
  next
    case False
    then show ?thesis using Cons.IH[of "g\<lparr>ig_remaining := ig_remaining g - 1, ig_failed := ig_failed g \<or> \<not> b,
        ig_ready := False, ig_wakes := ig_wakes g + 0\<rparr>"] Cons.prems next_ by (auto simp: algebra_simps)
  qed
qed

text \<open>
  C39: The gate of a bulk request cannot underflow, which would panic, and opens once. Whatever the
  interleaving, the request's callback has been called at most once; so with at most one call for each of
  the d other dependencies and for the installation, in any order, every call of resolve returns, the
  gate opens exactly when all d + 2 of them have been made, it wakes its connection once, and it reports
  success exactly if none of them failed and no dependency had failed before the gate was made. The
  counter is an int32 and d + 2 is in its range.
\<close>

theorem bulk_gate_exact:
  assumes "y = system_run m xs" and "r \<in> set (sy_requests y)"
    and d: "d = length (ld_waiters dependencies)" "int d + 2 < 2 ^ 31"
    and bs: "length bs \<le> d + 1" "mset zs = mset bs + mset (rq_calls r)"
  shows "\<exists>gate g. newLayerRPCExecutionGate dependencies True True = Some gate \<and>
    resolve_all gate zs = Some g \<and> length (rq_calls r) \<le> 1 \<and>
    (gate_runnable (Some g) \<longleftrightarrow> length zs = d + 2) \<and> ig_wakes g = (if gate_runnable (Some g) then 1 else 0) \<and>
    (gate_success (Some g) \<longleftrightarrow> length zs = d + 2 \<and> \<not> ld_failed dependencies \<and> False \<notin> set zs)"
proof -
  obtain i where i: "i < length (sy_requests y)" "r = sy_requests y ! i"
    using assms(2) by (auto simp: in_set_conv_nth)
  have "load y i \<le> 1" using system_okD(4)[OF system_run_ok] assms(1) by simp
  then have c: "length (rq_calls r) \<le> 1"
    using i calls_of_nonneg[of i "sy_notices y"] subs_nonneg[of i "sy_sched y"] by (simp add: load_def weight_def split: if_splits)
  have "length zs = length bs + length (rq_calls r)" using arg_cong[OF bs(2), of size] by simp
  then have z: "length zs \<le> d + 2" using c bs(1) by simp
  define gate where "gate = \<lparr>ig_remaining = int d + 2, ig_failed = ld_failed dependencies, ig_ready = False, ig_wakes = 0\<rparr>"
  have g: "newLayerRPCExecutionGate dependencies True True = Some gate"
    using d by (simp add: newLayerRPCExecutionGate_def newInboundRPCGate_def gate_def i32_exact Let_def)
  have "int (length zs) = int d + 2 \<longleftrightarrow> length zs = d + 2" by linarith
  then show ?thesis
    using resolve_all_exact[of gate zs] g z c d(2) by (auto simp: gate_runnable_def gate_success_def gate_def)
qed

section \<open>Examples\<close>

text \<open>
  One slot and two requests: the first is granted the slot, the second is released while its credit's
  callback is about to store the lease.
\<close>

definition race :: "bulk_event list" where
  "race = [NewRequest, NewRequest, Credit 0 True, Credit 0 True, Credit 0 True, Deliver 0, Credit 1 True, Mark 1,
     Credit 1 True, Mark 0, Drop 0, Credit 1 True, Credit 1 True]"

lemmas system_eval = system_run_def system_init_def newBulkRPCScheduler_def newBulkRPCAdmission_def credit_callback_def
  put_request_def sched_do_def bulk_reserve_def fresh_lease_def bulk_subscribe_def set_lease_def deliver_def
  admission_mark_def admission_drop_def bulk_release_def wake_lease_def wake_notice_def Let_def

lemma race_requests:
  "sy_requests (system_run 1 race) =
    [\<lparr>rq_lease = None, rq_released = True, rq_pc = Finished, rq_doomed = None, rq_calls = [True]\<rparr>,
     \<lparr>rq_lease = None, rq_released = True, rq_pc = Finished, rq_doomed = None, rq_calls = [False]\<rparr>]"
  by (simp add: race_def system_eval)

theorem bulk_admission_settles_witness:
  "bs_inUse (sy_sched (system_run 1 race)) = 0 \<and> live_ids (sy_sched (system_run 1 race)) = [] \<and>
   length (sy_requests (system_run 1 race)) = 2"
  using bulk_admission_settles[OF refl, of 1 race] by (simp add: race_requests settled_def)

text \<open>
  The released request of the race waits for one dependency: its gate opens with the third call and
  reports failure; the gate of the granted one reports success, unless a dependency had failed before.
\<close>

theorem bulk_gate_exact_witness:
  "(\<exists>gate g. newLayerRPCExecutionGate \<lparr>ld_waiters = [5], ld_failed = False\<rparr> True True = Some gate \<and>
      resolve_all gate [True, False, True] = Some g \<and> gate_runnable (Some g) \<and> \<not> gate_success (Some g) \<and> ig_wakes g = 1) \<and>
   (\<exists>gate g. newLayerRPCExecutionGate \<lparr>ld_waiters = [5], ld_failed = False\<rparr> True True = Some gate \<and>
      resolve_all gate [True, True, True] = Some g \<and> gate_success (Some g)) \<and>
   (\<exists>gate g. newLayerRPCExecutionGate \<lparr>ld_waiters = [5], ld_failed = True\<rparr> True True = Some gate \<and>
      resolve_all gate [True, True, True] = Some g \<and> gate_runnable (Some g) \<and> \<not> gate_success (Some g))"
proof -
  define p q where "p = sy_requests (system_run 1 race) ! 0" and "q = sy_requests (system_run 1 race) ! 1"
  then have r: "p \<in> set (sy_requests (system_run 1 race))" "q \<in> set (sy_requests (system_run 1 race))"
      "rq_calls p = [True]" "rq_calls q = [False]"
    by (simp_all add: race_requests)
  note gate = bulk_gate_exact[OF refl, where m = 1 and xs = race and bs = "[True, True]" and d = 1]
  obtain a b where ab: "newLayerRPCExecutionGate \<lparr>ld_waiters = [5], ld_failed = False\<rparr> True True = Some a"
      "resolve_all a [True, False, True] = Some b" "gate_runnable (Some b)" "\<not> gate_success (Some b)" "ig_wakes b = 1"
    using gate[OF r(2), of "\<lparr>ld_waiters = [5], ld_failed = False\<rparr>" "[True, False, True]"] by (auto simp: r(4))
  obtain c where c: "resolve_all a [True, True, True] = Some c" "gate_success (Some c)"
    using gate[OF r(1), of "\<lparr>ld_waiters = [5], ld_failed = False\<rparr>" "[True, True, True]"] ab(1) by (auto simp: r(3))
  obtain d e where de: "newLayerRPCExecutionGate \<lparr>ld_waiters = [5], ld_failed = True\<rparr> True True = Some d"
      "resolve_all d [True, True, True] = Some e" "gate_runnable (Some e)" "\<not> gate_success (Some e)"
    using gate[OF r(1), of "\<lparr>ld_waiters = [5], ld_failed = True\<rparr>" "[True, True, True]"] by (auto simp: r(3))
  from ab c de show ?thesis by blast
qed

end
