(* ===== verification/Edge_Admission.thy ===== *)
theory Edge_Admission
  imports Rpc_Budget
begin

text \<open>
  What the edge admits: connections and handshakes (\<open>internal/mtprotoedge/admission.go\<close>) and the bytes of
  inbound frames (\<open>frame_budget.go\<close>, the connections that hold them in \<open>transport_compat.go\<close>, and the
  expansions and container descriptors that \<open>encrypted.go\<close> charges to the same budget).

  A quota is returned by a closure that acts once; the closures that were handed out are the handles
  of the state, numbered in order. The address of a connection is the key that \<open>remoteAdmissionKey\<close>
  makes of it. The frame budget is one atomic counter: the steps of several connections and
  decoders interleave, each load, each compare-and-swap and each add is one step. A connection works
  under its own mutex; a decoder, with the closure that releases its bytes, belongs to one goroutine.
\<close>

section \<open>Connections and handshakes\<close>

record admission =
  am_maxConnections :: int
  am_maxPerIP :: int
  am_connections :: int
  am_byIP :: "string \<rightharpoonup> int"
  am_maxHandshakes :: int
  am_handshakes :: int
  am_conns :: "(string \<times> bool) list"
  am_exchanges :: "bool list"

definition newAdmissionController :: "int \<Rightarrow> int \<Rightarrow> int \<Rightarrow> admission" where
  "newAdmissionController maxConnections maxPerIP maxHandshakes =
    \<lparr>am_maxConnections = maxConnections, am_maxPerIP = maxPerIP, am_connections = 0, am_byIP = Map.empty,
     am_maxHandshakes = maxHandshakes, am_handshakes = 0, am_conns = [], am_exchanges = []\<rparr>"

definition acquireConnection :: "admission \<Rightarrow> string \<Rightarrow> admission \<times> nat option" where
  "acquireConnection a ip =
    (if am_maxConnections a > 0 \<and> am_connections a \<ge> am_maxConnections a \<or>
        am_maxPerIP a > 0 \<and> mget 0 (am_byIP a) ip \<ge> am_maxPerIP a
     then (a, None)
     else (a\<lparr>am_connections := am_connections a + 1, am_byIP := (am_byIP a)(ip \<mapsto> mget 0 (am_byIP a) ip + 1),
             am_conns := am_conns a @ [(ip, False)]\<rparr>, Some (length (am_conns a))))"

definition release_connection :: "admission \<Rightarrow> nat \<Rightarrow> admission" where
  "release_connection a h =
    (if h < length (am_conns a) \<and> \<not> snd (am_conns a ! h) then
       let ip = fst (am_conns a ! h); n = mget 0 (am_byIP a) ip - 1
       in a\<lparr>am_connections := am_connections a - 1,
            am_byIP := (if n = 0 then (am_byIP a)(ip := None) else (am_byIP a)(ip \<mapsto> n)),
            am_conns := (am_conns a)[h := (ip, True)]\<rparr>
     else a)"

text \<open>
  The slots of a handshake channel are a counter. The result is \<open>None\<close> for a refusal and
  \<open>Some None\<close> for the closure that does nothing, which stands for an unlimited controller.
\<close>

definition tryAcquireHandshake :: "admission \<Rightarrow> admission \<times> nat option option" where
  "tryAcquireHandshake a =
    (if am_maxHandshakes a \<le> 0 then (a, Some None)
     else if am_handshakes a < am_maxHandshakes a then
       (a\<lparr>am_handshakes := am_handshakes a + 1, am_exchanges := am_exchanges a @ [False]\<rparr>,
        Some (Some (length (am_exchanges a))))
     else (a, None))"

definition release_handshake :: "admission \<Rightarrow> nat \<Rightarrow> admission" where
  "release_handshake a h =
    (if h < length (am_exchanges a) \<and> \<not> am_exchanges a ! h
     then a\<lparr>am_handshakes := am_handshakes a - 1, am_exchanges := (am_exchanges a)[h := True]\<rparr> else a)"

text \<open>
  \<open>Accept\<close> over what the listener below it returns: addresses of connections and a final error.
  The result is the first admitted connection, with its handle, or the error; \<open>None\<close> while there is
  neither. Refused connections are closed.
\<close>

datatype accept_result = Admitted string nat | AcceptError

fun admission_Accept :: "admission \<Rightarrow> string option list \<Rightarrow> admission \<times> accept_result option" where
  "admission_Accept a [] = (a, None)"
| "admission_Accept a (None # xs) = (a, Some AcceptError)"
| "admission_Accept a (Some ip # xs) =
     (case acquireConnection a ip of
        (a, None) \<Rightarrow> admission_Accept a xs
      | (a, Some h) \<Rightarrow> (a, Some (Admitted ip h)))"

definition acceptRetryInitialDelay :: int where "acceptRetryInitialDelay = 5000000"
definition acceptRetryMaxDelay :: int where "acceptRetryMaxDelay = 1000000000"

definition nextAcceptRetryDelay :: "int \<Rightarrow> int" where
  "nextAcceptRetryDelay previous =
    (if previous \<le> 0 then acceptRetryInitialDelay
     else if previous * 2 > acceptRetryMaxDelay then acceptRetryMaxDelay
     else previous * 2)"

datatype admission_op = AcquireConn string | ReleaseConn nat | TryHandshake | ReleaseHandshake nat

fun admission_step :: "admission_op \<Rightarrow> admission \<Rightarrow> admission" where
  "admission_step (AcquireConn ip) a = fst (acquireConnection a ip)"
| "admission_step (ReleaseConn h) a = release_connection a h"
| "admission_step TryHandshake a = fst (tryAcquireHandshake a)"
| "admission_step (ReleaseHandshake h) a = release_handshake a h"

section \<open>The frame budget\<close>

record frame_budget =
  if_max :: int
  if_used :: int

definition defaultInboundFrameGlobalMaxBytes :: int where
  "defaultInboundFrameGlobalMaxBytes = 512 * 2 ^ 20"

definition newInboundFrameBudget :: "int \<Rightarrow> frame_budget" where
  "newInboundFrameBudget m = \<lparr>if_max = (if m \<le> 0 then defaultInboundFrameGlobalMaxBytes else m), if_used = 0\<rparr>"

text \<open>\<open>None\<close> is the panic.\<close>

definition frame_release :: "frame_budget \<Rightarrow> int \<Rightarrow> frame_budget option" where
  "frame_release b n =
    (if n = 0 then Some b
     else if if_used b - n < 0 then None
     else Some (b\<lparr>if_used := if_used b - n\<rparr>))"

text \<open>
  \<open>growReservation\<close> in three parts: the checks before the loop, which yield the number of bytes to
  add, the test after a load, and the compare-and-swap.
\<close>

datatype frame_error = ErrInboundFrameBudgetExceeded

definition grow_target :: "frame_budget \<Rightarrow> int \<Rightarrow> int \<Rightarrow> int \<Rightarrow> frame_error + int" where
  "grow_target b current wireBytes plaintextBytes =
    (if current < 0 \<or> wireBytes \<le> 0 \<or> plaintextBytes < 0 \<or> wireBytes > if_max b \<or> plaintextBytes > if_max b - wireBytes
     then Inl ErrInboundFrameBudgetExceeded
     else Inr (max current (wireBytes + plaintextBytes)))"

definition grow_fits :: "frame_budget \<Rightarrow> int \<Rightarrow> bool" where
  "grow_fits b n \<longleftrightarrow> \<not> n > if_max b - if_used b"

definition frame_cas :: "frame_budget \<Rightarrow> int \<Rightarrow> int \<Rightarrow> frame_budget option" where
  "frame_cas b used n = (if if_used b = used then Some (b\<lparr>if_used := used + n\<rparr>) else None)"

section \<open>Connections that hold frames\<close>

text \<open>
  \<open>fc_grow\<close> is a \<open>growReservation\<close> under way, under the connection's mutex: the target and the value
  of the counter that was loaded. \<open>fc_owed\<close> are amounts that the connection has taken off its account
  and has not yet returned to the budget.
\<close>

record frame_conn =
  fc_held :: int
  fc_delivered :: bool
  fc_closed :: bool
  fc_grow :: "(int \<times> int) option"
  fc_owed :: "int list"

text \<open>
  A workspace is the reservation of one gzip expansion, with the limit of the expansion, or of the
  descriptors of one container, where the limit is 0.
\<close>

record workspace =
  wk_limit :: int
  wk_reserved :: int
  wk_grow :: "(int \<times> int) option"

record frame_system =
  fs_budget :: frame_budget
  fs_conns :: "frame_conn list"
  fs_works :: "workspace list"
  fs_panicked :: bool

definition new_conn :: frame_conn where
  "new_conn = \<lparr>fc_held = 0, fc_delivered = False, fc_closed = False, fc_grow = None, fc_owed = []\<rparr>"

definition put_conn :: "frame_system \<Rightarrow> nat \<Rightarrow> frame_conn \<Rightarrow> frame_system" where
  "put_conn y i c = y\<lparr>fs_conns := (fs_conns y)[i := c]\<rparr>"

text \<open>A load of the counter and the decision that follows it: give up or attempt the swap.\<close>

definition grow_load :: "frame_system \<Rightarrow> nat \<Rightarrow> int \<Rightarrow> frame_system" where
  "grow_load y i target =
    (let c = fs_conns y ! i
     in put_conn y i (c\<lparr>fc_grow :=
          if grow_fits (fs_budget y) (target - fc_held c) then Some (target, if_used (fs_budget y)) else None\<rparr>))"

definition grow_start :: "frame_system \<Rightarrow> nat \<Rightarrow> int \<Rightarrow> int \<Rightarrow> frame_system" where
  "grow_start y i wireBytes plaintextBytes =
    (case grow_target (fs_budget y) (fc_held (fs_conns y ! i)) wireBytes plaintextBytes of
       Inl e \<Rightarrow> y
     | Inr target \<Rightarrow> if target \<le> fc_held (fs_conns y ! i) then y else grow_load y i target)"

definition reserveInboundFrame :: "frame_system \<Rightarrow> nat \<Rightarrow> int \<Rightarrow> int \<Rightarrow> frame_system" where
  "reserveInboundFrame y i wireBytes plaintextBytes =
    (if fc_closed (fs_conns y ! i) then y else grow_start y i wireBytes plaintextBytes)"

definition grow_swap :: "frame_system \<Rightarrow> nat \<Rightarrow> frame_system" where
  "grow_swap y i =
    (let c = fs_conns y ! i
     in case fc_grow c of
          None \<Rightarrow> y
        | Some (target, used) \<Rightarrow>
            (case frame_cas (fs_budget y) used (target - fc_held c) of
               Some b \<Rightarrow> put_conn (y\<lparr>fs_budget := b\<rparr>) i (c\<lparr>fc_held := target, fc_grow := None\<rparr>)
             | None \<Rightarrow> grow_load y i target))"

definition retainInboundFrameBytes :: "frame_system \<Rightarrow> nat \<Rightarrow> int \<Rightarrow> frame_system" where
  "retainInboundFrameBytes y i n =
    (let c = fs_conns y ! i
     in if n < 0 then y
        else if n > fc_held c then grow_start y i n 0
        else put_conn y i (c\<lparr>fc_held := n, fc_owed := fc_owed c @ [fc_held c - n]\<rparr>))"

definition releaseInboundFrame :: "frame_system \<Rightarrow> nat \<Rightarrow> frame_system" where
  "releaseInboundFrame y i =
    (let c = fs_conns y ! i
     in put_conn y i (c\<lparr>fc_held := 0, fc_delivered := False, fc_owed := fc_owed c @ [fc_held c]\<rparr>))"

definition markInboundFrameDelivered :: "frame_system \<Rightarrow> nat \<Rightarrow> frame_system" where
  "markInboundFrameDelivered y i =
    (let c = fs_conns y ! i
     in if fc_closed c \<or> fc_held c = 0 then y else put_conn y i (c\<lparr>fc_delivered := True\<rparr>))"

definition beginInboundFrameRead :: "frame_system \<Rightarrow> nat \<Rightarrow> frame_system" where
  "beginInboundFrameRead y i = put_conn y i ((fs_conns y ! i)\<lparr>fc_delivered := False\<rparr>)"

definition conn_Close :: "frame_system \<Rightarrow> nat \<Rightarrow> frame_system" where
  "conn_Close y i = put_conn y i ((fs_conns y ! i)\<lparr>fc_closed := True\<rparr>)"

text \<open>The release that follows after the mutex was left.\<close>

definition pay_back :: "frame_system \<Rightarrow> nat \<Rightarrow> nat \<Rightarrow> frame_system" where
  "pay_back y i k =
    (let c = fs_conns y ! i
     in if k < length (fc_owed c) then
          (case frame_release (fs_budget y) (fc_owed c ! k) of
             None \<Rightarrow> y\<lparr>fs_panicked := True\<rparr>
           | Some b \<Rightarrow> put_conn (y\<lparr>fs_budget := b\<rparr>) i (c\<lparr>fc_owed := take k (fc_owed c) @ drop (Suc k) (fc_owed c)\<rparr>))
        else y)"

section \<open>Decoders that hold bytes\<close>

text \<open>
  \<open>decodeGZIPWithGlobalBudgetLimit\<close> reserves the whole limit before it expands, gives back what the
  expansion did not need, or everything when it fails or exceeds the limit, and hands out a closure that
  releases the rest; \<open>decodeMessageContainerViews\<close> reserves for the descriptors of a container and
  releases when it fails or through its closure. Both closures release once.
\<close>

definition maxSingleGZIPExpandedBytes :: int where
  "maxSingleGZIPExpandedBytes = 10 * 2 ^ 20"

definition maxContainerMessages :: int where
  "maxContainerMessages = 1024"

definition containerDescriptorBudgetBytes :: int where
  "containerDescriptorBudgetBytes = 192"

definition put_work :: "frame_system \<Rightarrow> nat \<Rightarrow> workspace \<Rightarrow> frame_system" where
  "put_work y j w = y\<lparr>fs_works := (fs_works y)[j := w]\<rparr>"

definition work_load :: "frame_system \<Rightarrow> nat \<Rightarrow> int \<Rightarrow> frame_system" where
  "work_load y j target =
    put_work y j ((fs_works y ! j)\<lparr>wk_grow :=
      if grow_fits (fs_budget y) target then Some (target, if_used (fs_budget y)) else None\<rparr>)"

text \<open>\<open>reserve(wireBytes, 0)\<close> up to its first load.\<close>

definition work_reserve :: "frame_system \<Rightarrow> int \<Rightarrow> int \<Rightarrow> frame_system" where
  "work_reserve y wireBytes limit =
    (case grow_target (fs_budget y) 0 wireBytes 0 of
       Inl e \<Rightarrow> y
     | Inr target \<Rightarrow>
         work_load (y\<lparr>fs_works := fs_works y @ [\<lparr>wk_limit = limit, wk_reserved = 0, wk_grow = None\<rparr>]\<rparr>)
           (length (fs_works y)) target)"

definition work_swap :: "frame_system \<Rightarrow> nat \<Rightarrow> frame_system" where
  "work_swap y j =
    (let w = fs_works y ! j
     in case wk_grow w of
          None \<Rightarrow> y
        | Some (target, used) \<Rightarrow>
            (case frame_cas (fs_budget y) used target of
               Some b \<Rightarrow> put_work (y\<lparr>fs_budget := b\<rparr>) j (w\<lparr>wk_reserved := target, wk_grow := None\<rparr>)
             | None \<Rightarrow> work_load y j target))"

text \<open>Returning bytes so that \<open>rest\<close> of them stay reserved.\<close>

definition work_keep :: "frame_system \<Rightarrow> nat \<Rightarrow> int \<Rightarrow> frame_system" where
  "work_keep y j rest =
    (let w = fs_works y ! j
     in case frame_release (fs_budget y) (wk_reserved w - rest) of
          None \<Rightarrow> y\<lparr>fs_panicked := True\<rparr>
        | Some b \<Rightarrow> put_work (y\<lparr>fs_budget := b\<rparr>) j (w\<lparr>wk_reserved := rest\<rparr>))"

definition work_release :: "frame_system \<Rightarrow> nat \<Rightarrow> frame_system" where
  "work_release y j = (if wk_reserved (fs_works y ! j) > 0 then work_keep y j 0 else y)"

definition decodeGZIP_reserve :: "frame_system \<Rightarrow> int \<Rightarrow> frame_system" where
  "decodeGZIP_reserve y limit =
    (if limit \<le> 0 \<or> limit > maxSingleGZIPExpandedBytes then y else work_reserve y limit limit)"

text \<open>The end of the expansion: \<open>None\<close> for an error of the reader, else the number of bytes read.\<close>

definition decodeGZIP_expanded :: "frame_system \<Rightarrow> nat \<Rightarrow> nat option \<Rightarrow> frame_system" where
  "decodeGZIP_expanded y j expanded =
    (let w = fs_works y ! j
     in case expanded of
          None \<Rightarrow> work_release y j
        | Some n \<Rightarrow>
            if int n > wk_limit w then work_release y j
            else if wk_reserved w > int n then work_keep y j (int n) else y)"

definition decodeContainer_reserve :: "frame_system \<Rightarrow> int \<Rightarrow> frame_system" where
  "decodeContainer_reserve y n =
    (if n \<le> 0 \<or> n > maxContainerMessages then y
     else work_reserve y (n * containerDescriptorBudgetBytes) 0)"

section \<open>Runs\<close>

datatype frame_event =
  Connect | Reserve nat int int | Swap nat | Retain nat int | ReleaseFrame nat | Delivered nat | BeginRead nat
| CloseConn nat | PayBack nat nat | Gunzip int | Container int | SwapWork nat | Expanded nat "nat option" | DropWork nat

text \<open>
  What takes the mutex of a connection waits while a \<open>growReservation\<close> of that connection is under
  way; the release after the mutex does not. A decoder goes on once its reservation has returned.
  The steps of the decoders are offered in any order and to both kinds of workspace, so the runs
  include those of the code and more.
\<close>

definition locked :: "frame_system \<Rightarrow> nat \<Rightarrow> bool" where
  "locked y i \<longleftrightarrow> length (fs_conns y) \<le> i \<or> fc_grow (fs_conns y ! i) \<noteq> None"

definition busy :: "frame_system \<Rightarrow> nat \<Rightarrow> bool" where
  "busy y j \<longleftrightarrow> length (fs_works y) \<le> j \<or> wk_grow (fs_works y ! j) \<noteq> None"

fun frame_step :: "frame_event \<Rightarrow> frame_system \<Rightarrow> frame_system" where
  "frame_step Connect y = y\<lparr>fs_conns := fs_conns y @ [new_conn]\<rparr>"
| "frame_step (Reserve i w p) y = (if locked y i then y else reserveInboundFrame y i w p)"
| "frame_step (Swap i) y = (if length (fs_conns y) \<le> i then y else grow_swap y i)"
| "frame_step (Retain i n) y = (if locked y i then y else retainInboundFrameBytes y i n)"
| "frame_step (ReleaseFrame i) y = (if locked y i then y else releaseInboundFrame y i)"
| "frame_step (Delivered i) y = (if locked y i then y else markInboundFrameDelivered y i)"
| "frame_step (BeginRead i) y = (if locked y i then y else beginInboundFrameRead y i)"
| "frame_step (CloseConn i) y = (if locked y i then y else conn_Close y i)"
| "frame_step (PayBack i k) y = (if length (fs_conns y) \<le> i then y else pay_back y i k)"
| "frame_step (Gunzip limit) y = decodeGZIP_reserve y limit"
| "frame_step (Container n) y = decodeContainer_reserve y n"
| "frame_step (SwapWork j) y = (if length (fs_works y) \<le> j then y else work_swap y j)"
| "frame_step (Expanded j n) y = (if busy y j then y else decodeGZIP_expanded y j n)"
| "frame_step (DropWork j) y = (if busy y j then y else work_release y j)"

definition frame_run :: "int \<Rightarrow> frame_event list \<Rightarrow> frame_system" where
  "frame_run m xs = fold frame_step xs
    \<lparr>fs_budget = newInboundFrameBudget m, fs_conns = [], fs_works = [], fs_panicked = False\<rparr>"

end
