(* ===== verification/Edge_Properties.thy ===== *)
theory Edge_Properties
  imports Edge_Admission
begin

text \<open>
  The counters of the edge equal what is held, under every interleaving, and stay within their
  limits; no release panics. The frame budget is a \<open>bounded_counter\<close>, and the proofs about it use the
  laws of that interface.
\<close>

section \<open>Connections\<close>

definition open_at :: "string \<Rightarrow> string \<times> bool \<Rightarrow> bool" where
  "open_at ip c \<longleftrightarrow> fst c = ip \<and> \<not> snd c"

definition open_conn :: "string \<times> bool \<Rightarrow> bool" where
  "open_conn c \<longleftrightarrow> \<not> snd c"

definition admission_ok :: "admission \<Rightarrow> bool" where
  "admission_ok a \<longleftrightarrow>
     am_connections a = count_if open_conn (am_conns a) \<and>
     (\<forall>ip. am_byIP a ip = (let n = count_if (open_at ip) (am_conns a) in if n = 0 then None else Some n)) \<and>
     am_handshakes a = count_if Not (am_exchanges a) \<and>
     (am_maxConnections a > 0 \<longrightarrow> am_connections a \<le> am_maxConnections a) \<and>
     (am_maxPerIP a > 0 \<longrightarrow> (\<forall>ip. count_if (open_at ip) (am_conns a) \<le> am_maxPerIP a)) \<and>
     am_handshakes a \<le> max 0 (am_maxHandshakes a)"

lemma admission_byIP: "admission_ok a \<Longrightarrow> mget 0 (am_byIP a) ip = count_if (open_at ip) (am_conns a)"
  by (simp add: admission_ok_def mget_def Let_def)

lemma acquireConnection_ok:
  assumes ok: "admission_ok a"
  shows "admission_ok (fst (acquireConnection a ip))"
proof -
  have n: "mget 0 (am_byIP a) ip = count_if (open_at ip) (am_conns a)" using admission_byIP[OF ok] .
  have "count_if (open_at ip) (am_conns a) + 1 \<noteq> 0" using count_if_nonneg[of "open_at ip" "am_conns a"] by linarith
  then show ?thesis
    using ok n by (auto simp: acquireConnection_def admission_ok_def open_at_def open_conn_def Let_def)
qed

lemma release_connection_ok:
  assumes ok: "admission_ok a"
  shows "admission_ok (release_connection a h)"
proof (cases "h < length (am_conns a) \<and> \<not> snd (am_conns a ! h)")
  case True
  define ip where "ip = fst (am_conns a ! h)"
  have n: "mget 0 (am_byIP a) ip = count_if (open_at ip) (am_conns a)" using admission_byIP[OF ok] .
  have h: "h < length (am_conns a)" "open_at ip (am_conns a ! h)" "open_conn (am_conns a ! h)"
    using True by (simp_all add: open_at_def open_conn_def ip_def)
  have c: "count_if (open_at j) ((am_conns a)[h := (ip, True)]) = count_if (open_at j) (am_conns a) - (if j = ip then 1 else 0)"
    "count_if open_conn ((am_conns a)[h := (ip, True)]) = count_if open_conn (am_conns a) - 1" for j
    using h by (auto simp: count_if_update open_at_def open_conn_def ip_def)
  have "admission_ok (a\<lparr>am_connections := am_connections a - 1,
      am_byIP := (if count_if (open_at ip) (am_conns a) - 1 = 0 then (am_byIP a)(ip := None)
        else (am_byIP a)(ip \<mapsto> count_if (open_at ip) (am_conns a) - 1)),
      am_conns := (am_conns a)[h := (ip, True)]\<rparr>)"
    using ok unfolding admission_ok_def by (auto simp: c Let_def add_increasing2 dest: spec[of _ ip])
  moreover have "release_connection a h = (a\<lparr>am_connections := am_connections a - 1,
      am_byIP := (if count_if (open_at ip) (am_conns a) - 1 = 0 then (am_byIP a)(ip := None)
        else (am_byIP a)(ip \<mapsto> count_if (open_at ip) (am_conns a) - 1)),
      am_conns := (am_conns a)[h := (ip, True)]\<rparr>)"
    unfolding release_connection_def Let_def ip_def[symmetric] n using True by (simp only: simp_thms if_True)
  ultimately show ?thesis by simp
qed (auto simp: release_connection_def ok)

lemma tryAcquireHandshake_ok: "admission_ok a \<Longrightarrow> admission_ok (fst (tryAcquireHandshake a))"
  by (auto simp: tryAcquireHandshake_def admission_ok_def)

lemma release_handshake_ok: "admission_ok a \<Longrightarrow> admission_ok (release_handshake a h)"
  by (auto simp: release_handshake_def admission_ok_def count_if_update)

lemma admission_step_ok: "admission_ok a \<Longrightarrow> admission_ok (admission_step x a)"
  by (cases x) (simp_all add: acquireConnection_ok release_connection_ok tryAcquireHandshake_ok release_handshake_ok)

lemma admission_run_ok: "admission_ok (fold admission_step xs (newAdmissionController m p h))"
proof -
  have "admission_ok a \<Longrightarrow> admission_ok (fold admission_step xs a)" for a
    by (induction xs arbitrary: a) (auto intro: admission_step_ok)
  moreover have "admission_ok (newAdmissionController m p h)" by (simp add: newAdmissionController_def admission_ok_def)
  ultimately show ?thesis by blast
qed

lemma admission_limits:
  "am_maxConnections (admission_step x a) = am_maxConnections a \<and> am_maxPerIP (admission_step x a) = am_maxPerIP a \<and>
   am_maxHandshakes (admission_step x a) = am_maxHandshakes a"
  by (cases x) (simp_all add: acquireConnection_def release_connection_def tryAcquireHandshake_def release_handshake_def Let_def)

lemma admission_run_limits:
  "am_maxConnections (fold admission_step xs a) = am_maxConnections a \<and> am_maxPerIP (fold admission_step xs a) = am_maxPerIP a \<and>
   am_maxHandshakes (fold admission_step xs a) = am_maxHandshakes a"
  by (induction xs arbitrary: a) (simp_all add: admission_limits)

text \<open>
  Connections are counted exactly and their limits hold. After any sequence of accepted and refused
  connections and handshakes and of releases, repeated releases included, a new connection from an
  address is admitted exactly if the connections that are still open, in total and from that address, are
  below the limits that are set, and a handshake exactly if the running ones are below theirs; an address
  with no open connection has no entry.
\<close>

theorem admission_exact:
  assumes "a = fold admission_step xs (newAdmissionController m p h)"
  shows "(snd (acquireConnection a ip) \<noteq> None \<longleftrightarrow>
      (m > 0 \<longrightarrow> count_if open_conn (am_conns a) < m) \<and> (p > 0 \<longrightarrow> count_if (open_at ip) (am_conns a) < p)) \<and>
    (snd (tryAcquireHandshake a) \<noteq> None \<longleftrightarrow> (h > 0 \<longrightarrow> count_if Not (am_exchanges a) < h)) \<and>
    (m > 0 \<longrightarrow> count_if open_conn (am_conns a) \<le> m) \<and> (p > 0 \<longrightarrow> count_if (open_at ip) (am_conns a) \<le> p) \<and>
    (am_byIP a ip = None \<longleftrightarrow> count_if (open_at ip) (am_conns a) = 0)"
proof -
  have ok: "admission_ok a" using assms admission_run_ok by simp
  have l: "am_maxConnections a = m" "am_maxPerIP a = p" "am_maxHandshakes a = h"
    using assms admission_run_limits[of xs "newAdmissionController m p h"] by (simp_all add: newAdmissionController_def)
  show ?thesis using ok admission_byIP[OF ok, of ip] l
    by (auto simp: acquireConnection_def tryAcquireHandshake_def admission_ok_def Let_def split: if_splits)
qed

theorem admission_exact_witness:
  "snd (acquireConnection (fold admission_step [AcquireConn ''a'', AcquireConn ''a'', ReleaseConn 0, ReleaseConn 0, AcquireConn ''b'']
     (newAdmissionController 2 1 1)) ''a'') \<noteq> None"
proof -
  let ?xs = "[AcquireConn ''a'', AcquireConn ''a'', ReleaseConn 0, ReleaseConn 0, AcquireConn ''b'']"
  have "am_conns (fold admission_step ?xs (newAdmissionController 2 1 1)) = [(''a'', True), (''b'', False)]"
    by (simp add: newAdmissionController_def acquireConnection_def release_connection_def Let_def)
  then show ?thesis using admission_exact[OF refl, of ?xs 2 1 1 "''a''"] by (simp add: open_conn_def open_at_def)
qed

section \<open>The frame budget is a bounded counter\<close>

definition frame_take :: "frame_budget \<Rightarrow> int \<Rightarrow> frame_budget option" where
  "frame_take b n = (if grow_fits b n then frame_cas b (if_used b) n else None)"

interpretation frame_counter: bounded_counter if_used if_max frame_take frame_release
  by standard (auto simp: frame_take_def grow_fits_def frame_cas_def frame_release_def split: if_splits)

lemma cas_take: "frame_cas b used n = Some b' \<Longrightarrow> n \<le> if_max b - used \<Longrightarrow> frame_take b n = Some b'"
  by (auto simp: frame_take_def frame_cas_def grow_fits_def split: if_splits)

section \<open>Connections and decoders account for the bytes in use\<close>

definition conn_bytes :: "frame_conn \<Rightarrow> int" where
  "conn_bytes c = fc_held c + sum_list (fc_owed c)"

definition grow_ok :: "int \<Rightarrow> int \<Rightarrow> (int \<times> int) option \<Rightarrow> bool" where
  "grow_ok m held g \<longleftrightarrow> (\<forall>target used. g = Some (target, used) \<longrightarrow> held < target \<and> target - held \<le> m - used)"

lemma grow_ok_simps [simp]:
  "grow_ok m held None" "grow_ok m held (Some (target, used)) \<longleftrightarrow> held < target \<and> target - held \<le> m - used"
  by (simp_all add: grow_ok_def)

definition conn_ok :: "int \<Rightarrow> frame_conn \<Rightarrow> bool" where
  "conn_ok m c \<longleftrightarrow> 0 \<le> fc_held c \<and> list_all ((\<le>) 0) (fc_owed c) \<and> grow_ok m (fc_held c) (fc_grow c)"

definition work_ok :: "int \<Rightarrow> workspace \<Rightarrow> bool" where
  "work_ok m w \<longleftrightarrow> 0 \<le> wk_reserved w \<and> grow_ok m 0 (wk_grow w) \<and> (wk_grow w \<noteq> None \<longrightarrow> wk_reserved w = 0)"

definition frame_total :: "frame_system \<Rightarrow> int" where
  "frame_total y = sum_list (map conn_bytes (fs_conns y)) + sum_list (map wk_reserved (fs_works y))"

definition frame_ok :: "frame_system \<Rightarrow> bool" where
  "frame_ok y \<longleftrightarrow> \<not> fs_panicked y \<and> list_all (conn_ok (if_max (fs_budget y))) (fs_conns y) \<and>
     list_all (work_ok (if_max (fs_budget y))) (fs_works y) \<and>
     if_used (fs_budget y) = frame_total y \<and> if_used (fs_budget y) \<le> if_max (fs_budget y)"

lemma sum_list_update:
  fixes f :: "'a \<Rightarrow> int"
  shows "i < length xs \<Longrightarrow> sum_list (map f (xs[i := x])) = sum_list (map f xs) - f (xs ! i) + f x"
  by (induction xs arbitrary: i) (auto split: nat.splits)

lemma sum_list_nonneg_all: "list_all ((\<le>) 0) xs \<Longrightarrow> (0 :: int) \<le> sum_list xs"
  by (induction xs) auto

lemma conn_bytes_nonneg: "conn_ok m c \<Longrightarrow> 0 \<le> conn_bytes c"
  by (simp add: conn_ok_def conn_bytes_def sum_list_nonneg_all)

lemma member_sum:
  fixes f :: "'a \<Rightarrow> int"
  assumes "\<And>x. x \<in> set xs \<Longrightarrow> 0 \<le> f x" and "i < length xs"
  shows "f (xs ! i) \<le> sum_list (map f xs)"
  using assms member_le_sum_list[of "f (xs ! i)" "map f xs"] by auto

lemma totals_nonneg:
  assumes "frame_ok y"
  shows "0 \<le> sum_list (map conn_bytes (fs_conns y))" and "0 \<le> sum_list (map wk_reserved (fs_works y))"
proof -
  have "0 \<le> conn_bytes c" if "c \<in> set (fs_conns y)" for c
    using assms that conn_bytes_nonneg[of "if_max (fs_budget y)" c] by (auto simp: frame_ok_def list_all_iff)
  then show "0 \<le> sum_list (map conn_bytes (fs_conns y))" by (auto intro!: sum_list_nonneg)
  show "0 \<le> sum_list (map wk_reserved (fs_works y))"
    using assms by (auto simp: frame_ok_def list_all_iff work_ok_def intro!: sum_list_nonneg)
qed

lemma conn_bytes_le:
  assumes "frame_ok y" and "i < length (fs_conns y)"
  shows "conn_bytes (fs_conns y ! i) \<le> if_used (fs_budget y)"
proof -
  have "conn_bytes (fs_conns y ! i) \<le> sum_list (map conn_bytes (fs_conns y))"
    using assms conn_bytes_nonneg by (intro member_sum) (auto simp: frame_ok_def list_all_iff)
  then show ?thesis using totals_nonneg(2)[OF assms(1)] assms(1) by (simp add: frame_ok_def frame_total_def)
qed

lemma reserved_le:
  assumes "frame_ok y" and "j < length (fs_works y)"
  shows "wk_reserved (fs_works y ! j) \<le> if_used (fs_budget y)"
proof -
  have "wk_reserved (fs_works y ! j) \<le> sum_list (map wk_reserved (fs_works y))"
    using assms by (intro member_sum) (auto simp: frame_ok_def list_all_iff work_ok_def)
  then show ?thesis using totals_nonneg(1)[OF assms(1)] assms(1) by (simp add: frame_ok_def frame_total_def)
qed

lemma used_nonneg: "frame_ok y \<Longrightarrow> 0 \<le> if_used (fs_budget y)"
  using totals_nonneg[of y] by (simp add: frame_ok_def frame_total_def)

lemma owed_le: "list_all ((\<le>) 0) xs \<Longrightarrow> k < length xs \<Longrightarrow> xs ! k \<le> sum_list (xs :: int list)"
  using member_le_sum_list[of "xs ! k" xs] by (auto simp: list_all_iff)

text \<open>One connection moves, possibly together with the budget.\<close>

lemma frame_put:
  assumes ok: "frame_ok y" and i: "i < length (fs_conns y)" and m: "if_max b = if_max (fs_budget y)"
    and "conn_ok (if_max b) c" and "if_used b \<le> if_max b"
    and "if_used b - if_used (fs_budget y) = conn_bytes c - conn_bytes (fs_conns y ! i)"
  shows "frame_ok (put_conn (y\<lparr>fs_budget := b\<rparr>) i c)"
proof -
  have "list_all (conn_ok (if_max b)) ((fs_conns y)[i := c])"
    using ok assms(4) m by (auto simp: frame_ok_def list_all_iff dest!: set_update_subset_insert[THEN subsetD])
  moreover have "sum_list (map conn_bytes ((fs_conns y)[i := c])) + sum_list (map wk_reserved (fs_works y)) = if_used b"
    using sum_list_update[OF i, of conn_bytes c] ok assms(6) by (simp add: frame_ok_def frame_total_def)
  ultimately show ?thesis using ok assms(5) m by (simp add: frame_ok_def frame_total_def put_conn_def)
qed

lemma frame_put_same:
  assumes "frame_ok y" and "i < length (fs_conns y)" and "conn_ok (if_max (fs_budget y)) c"
    and "conn_bytes c = conn_bytes (fs_conns y ! i)"
  shows "frame_ok (put_conn y i c)"
  using frame_put[OF assms(1,2) refl assms(3)] assms(1,4) by (simp add: frame_ok_def)

lemma frame_connD:
  assumes "frame_ok y" and "i < length (fs_conns y)"
  shows "conn_ok (if_max (fs_budget y)) (fs_conns y ! i)"
  using assms by (simp add: frame_ok_def list_all_length)

lemma grow_load_ok:
  assumes "frame_ok y" and "i < length (fs_conns y)" and "fc_held (fs_conns y ! i) < target"
  shows "frame_ok (grow_load y i target)"
  using frame_connD[OF assms(1,2)] assms(3) unfolding grow_load_def Let_def
  by (intro frame_put_same[OF assms(1,2)]) (auto simp: conn_ok_def conn_bytes_def grow_fits_def)

lemma grow_start_ok:
  assumes "frame_ok y" and "i < length (fs_conns y)"
  shows "frame_ok (grow_start y i w p)"
  using assms by (auto simp: grow_start_def grow_load_ok split: sum.splits)

lemma grow_swap_ok:
  assumes ok: "frame_ok y" and i: "i < length (fs_conns y)"
  shows "frame_ok (grow_swap y i)"
proof (cases "fc_grow (fs_conns y ! i)")
  case None
  then show ?thesis using ok by (simp add: grow_swap_def)
next
  case (Some g)
  obtain target used where g: "g = (target, used)" by (cases g)
  define c where "c = fs_conns y ! i"
  have c: "conn_ok (if_max (fs_budget y)) c" "fc_grow c = Some (target, used)"
    using frame_connD[OF ok i] Some g by (simp_all add: c_def)
  then have t: "fc_held c < target" "target - fc_held c \<le> if_max (fs_budget y) - used" by (simp_all add: conn_ok_def)
  note u = used_nonneg[OF ok]
  show ?thesis
  proof (cases "frame_cas (fs_budget y) used (target - fc_held c)")
    case None
    then show ?thesis using grow_load_ok[OF ok i, of target] t(1) c(2) by (simp add: grow_swap_def c_def)
  next
    case (Some b)
    note taken = frame_counter.take_some[OF _ u cas_take[OF Some t(2)]]
    have "frame_ok (put_conn (y\<lparr>fs_budget := b\<rparr>) i (c\<lparr>fc_held := target, fc_grow := None\<rparr>))"
      by (rule frame_put[OF ok i]) (use taken t c in \<open>auto simp: conn_ok_def conn_bytes_def c_def\<close>)
    then show ?thesis using Some c(2) by (simp add: grow_swap_def c_def)
  qed
qed

lemma retain_ok:
  assumes "frame_ok y" and "i < length (fs_conns y)" and "fc_grow (fs_conns y ! i) = None"
  shows "frame_ok (retainInboundFrameBytes y i n)"
  using frame_connD[OF assms(1,2)] assms(3) grow_start_ok[OF assms(1,2)] assms(1)
  by (auto simp: retainInboundFrameBytes_def Let_def conn_ok_def conn_bytes_def intro!: frame_put_same[OF assms(1,2)])

lemma release_frame_ok:
  assumes "frame_ok y" and "i < length (fs_conns y)" and "fc_grow (fs_conns y ! i) = None"
  shows "frame_ok (releaseInboundFrame y i)"
  using frame_connD[OF assms(1,2)] assms(3)
  by (auto simp: releaseInboundFrame_def Let_def conn_ok_def conn_bytes_def intro!: frame_put_same[OF assms(1,2)])

lemma flags_ok:
  assumes "frame_ok y" and "i < length (fs_conns y)"
  shows "frame_ok (put_conn y i ((fs_conns y ! i)\<lparr>fc_delivered := b\<rparr>))" "frame_ok (put_conn y i ((fs_conns y ! i)\<lparr>fc_closed := b\<rparr>))"
  using frame_connD[OF assms(1,2)] by (auto simp: conn_ok_def conn_bytes_def intro!: frame_put_same[OF assms(1,2)])

lemma sum_list_remove:
  "k < length xs \<Longrightarrow> sum_list (take k xs @ drop (Suc k) xs) = sum_list xs - (xs ! k :: int)"
  using arg_cong[OF id_take_nth_drop[of k xs], of sum_list] by simp

lemma pay_back_ok:
  assumes ok: "frame_ok y" and i: "i < length (fs_conns y)"
  shows "frame_ok (pay_back y i k)"
proof (cases "k < length (fc_owed (fs_conns y ! i))")
  case True
  define c where "c = fs_conns y ! i"
  let ?n = "fc_owed c ! k"
  have c: "conn_ok (if_max (fs_budget y)) c" using frame_connD[OF ok i] by (simp add: c_def)
  have k: "k < length (fc_owed c)" and nn: "list_all ((\<le>) 0) (fc_owed c)" using True c by (simp_all add: c_def conn_ok_def)
  have "?n \<le> conn_bytes c" using owed_le[OF nn k] c by (simp add: conn_bytes_def conn_ok_def)
  also have "\<dots> \<le> if_used (fs_budget y)" using conn_bytes_le[OF ok i] by (simp add: c_def)
  finally have n: "?n \<le> if_used (fs_budget y)" "0 \<le> ?n" using nn k by (simp_all add: list_all_length)
  have "frame_release (fs_budget y) ?n \<noteq> None"
    using n frame_counter.give_held[of ?n "fs_budget y"] by (cases "?n = 0") (simp_all add: frame_release_def)
  then obtain b where b: "frame_release (fs_budget y) ?n = Some b" by blast
  note given = frame_counter.give_some[OF b]
  have all: "list_all ((\<le>) 0) (take k (fc_owed c) @ drop (Suc k) (fc_owed c))"
    using nn by (auto simp: list_all_iff dest: in_set_takeD in_set_dropD)
  have "frame_ok (put_conn (y\<lparr>fs_budget := b\<rparr>) i (c\<lparr>fc_owed := take k (fc_owed c) @ drop (Suc k) (fc_owed c)\<rparr>))"
  proof (rule frame_put[OF ok i])
    show "if_used b - if_used (fs_budget y) =
        conn_bytes (c\<lparr>fc_owed := take k (fc_owed c) @ drop (Suc k) (fc_owed c)\<rparr>) - conn_bytes (fs_conns y ! i)"
      using given sum_list_remove[OF k] by (simp add: conn_bytes_def c_def)
  qed (use given c all ok n in \<open>auto simp: conn_ok_def frame_ok_def\<close>)
  then show ?thesis using True b by (simp add: pay_back_def c_def Let_def)
qed (simp add: pay_back_def ok Let_def)

text \<open>One decoder moves, possibly together with the budget.\<close>

lemma work_put:
  assumes ok: "frame_ok y" and j: "j < length (fs_works y)" and m: "if_max b = if_max (fs_budget y)"
    and "work_ok (if_max b) w" and "if_used b \<le> if_max b"
    and "if_used b - if_used (fs_budget y) = wk_reserved w - wk_reserved (fs_works y ! j)"
  shows "frame_ok (put_work (y\<lparr>fs_budget := b\<rparr>) j w)"
proof -
  have "list_all (work_ok (if_max b)) ((fs_works y)[j := w])"
    using ok assms(4) m by (auto simp: frame_ok_def list_all_iff dest!: set_update_subset_insert[THEN subsetD])
  moreover have "sum_list (map conn_bytes (fs_conns y)) + sum_list (map wk_reserved ((fs_works y)[j := w])) = if_used b"
    using sum_list_update[OF j, of wk_reserved w] ok assms(6) by (simp add: frame_ok_def frame_total_def)
  ultimately show ?thesis using ok assms(5) m by (simp add: frame_ok_def frame_total_def put_work_def)
qed

lemma frame_workD:
  assumes "frame_ok y" and "j < length (fs_works y)"
  shows "work_ok (if_max (fs_budget y)) (fs_works y ! j)"
  using assms by (simp add: frame_ok_def list_all_length)

lemma work_put_same:
  assumes "frame_ok y" and "j < length (fs_works y)" and "work_ok (if_max (fs_budget y)) w"
    and "wk_reserved w = wk_reserved (fs_works y ! j)"
  shows "frame_ok (put_work y j w)"
  using work_put[OF assms(1,2) refl assms(3)] assms(1,4) by (simp add: frame_ok_def)

lemma work_load_ok:
  assumes "frame_ok y" and "j < length (fs_works y)" and "0 < target" and "wk_reserved (fs_works y ! j) = 0"
  shows "frame_ok (work_load y j target)"
  using assms(3,4) unfolding work_load_def
  by (intro work_put_same[OF assms(1,2)]) (auto simp: work_ok_def grow_fits_def)

lemma work_reserve_ok: "frame_ok y \<Longrightarrow> frame_ok (work_reserve y w l)"
proof -
  assume ok: "frame_ok y"
  let ?y = "y\<lparr>fs_works := fs_works y @ [\<lparr>wk_limit = l, wk_reserved = 0, wk_grow = None\<rparr>]\<rparr>"
  have "frame_ok ?y" using ok by (simp add: frame_ok_def frame_total_def work_ok_def)
  from work_load_ok[OF this, of "length (fs_works y)"] show ?thesis
    using ok by (auto simp: work_reserve_def grow_target_def)
qed

lemma work_swap_ok:
  assumes ok: "frame_ok y" and j: "j < length (fs_works y)"
  shows "frame_ok (work_swap y j)"
proof (cases "wk_grow (fs_works y ! j)")
  case None
  then show ?thesis using ok by (simp add: work_swap_def)
next
  case (Some g)
  obtain target used where g: "g = (target, used)" by (cases g)
  define w where "w = fs_works y ! j"
  have w: "wk_grow w = Some (target, used)" "wk_reserved w = 0" "0 < target" "target \<le> if_max (fs_budget y) - used"
    using frame_workD[OF ok j] Some g by (auto simp: w_def work_ok_def)
  show ?thesis
  proof (cases "frame_cas (fs_budget y) used target")
    case None
    then show ?thesis using work_load_ok[OF ok j, of target] w by (simp add: work_swap_def w_def)
  next
    case (Some b)
    note taken = frame_counter.take_some[OF _ used_nonneg[OF ok] cas_take[OF Some w(4)]]
    have "frame_ok (put_work (y\<lparr>fs_budget := b\<rparr>) j (w\<lparr>wk_reserved := target, wk_grow := None\<rparr>))"
      by (rule work_put[OF ok j]) (use taken w in \<open>auto simp: work_ok_def w_def\<close>)
    then show ?thesis using Some w(1) by (simp add: work_swap_def w_def)
  qed
qed

lemma work_keep_ok:
  assumes ok: "frame_ok y" and j: "j < length (fs_works y)" and "wk_grow (fs_works y ! j) = None"
    and r: "0 \<le> rest" "rest < wk_reserved (fs_works y ! j)"
  shows "frame_ok (work_keep y j rest)"
proof -
  define w where "w = fs_works y ! j"
  have n: "0 < wk_reserved w - rest" "wk_reserved w - rest \<le> if_used (fs_budget y)"
    using r reserved_le[OF ok j] by (simp_all add: w_def)
  then obtain b where b: "frame_release (fs_budget y) (wk_reserved w - rest) = Some b"
    using frame_counter.give_held[of "wk_reserved w - rest" "fs_budget y"] by blast
  note given = frame_counter.give_some[OF b]
  have "frame_ok (put_work (y\<lparr>fs_budget := b\<rparr>) j (w\<lparr>wk_reserved := rest\<rparr>))"
    by (rule work_put[OF ok j]) (use given r assms(3) ok n in \<open>auto simp: work_ok_def frame_ok_def w_def\<close>)
  then show ?thesis using b by (simp add: work_keep_def w_def)
qed

lemma work_release_ok:
  "frame_ok y \<Longrightarrow> j < length (fs_works y) \<Longrightarrow> wk_grow (fs_works y ! j) = None \<Longrightarrow> frame_ok (work_release y j)"
  by (simp add: work_release_def work_keep_ok)

lemma expanded_ok:
  "frame_ok y \<Longrightarrow> j < length (fs_works y) \<Longrightarrow> wk_grow (fs_works y ! j) = None \<Longrightarrow> frame_ok (decodeGZIP_expanded y j n)"
  by (simp add: decodeGZIP_expanded_def work_keep_ok work_release_ok Let_def split: option.split)

lemma connect_ok: "frame_ok y \<Longrightarrow> frame_ok (y\<lparr>fs_conns := fs_conns y @ [new_conn]\<rparr>)"
  by (simp add: frame_ok_def frame_total_def new_conn_def conn_ok_def conn_bytes_def)

lemma frame_step_ok: "frame_ok y \<Longrightarrow> frame_ok (frame_step x y)"
  by (cases x) (simp_all add: connect_ok locked_def reserveInboundFrame_def grow_start_ok grow_swap_ok retain_ok
      release_frame_ok markInboundFrameDelivered_def Let_def beginInboundFrameRead_def conn_Close_def flags_ok pay_back_ok
      decodeGZIP_reserve_def decodeContainer_reserve_def work_reserve_ok work_swap_ok busy_def expanded_ok work_release_ok
      del: not_None_eq)

lemma frame_step_max: "if_max (fs_budget (frame_step x y)) = if_max (fs_budget y)"
  by (cases x) (auto simp: reserveInboundFrame_def grow_start_def grow_load_def grow_swap_def put_conn_def frame_cas_def
      retainInboundFrameBytes_def releaseInboundFrame_def markInboundFrameDelivered_def beginInboundFrameRead_def
      conn_Close_def pay_back_def frame_release_def decodeGZIP_reserve_def decodeContainer_reserve_def work_reserve_def
      work_load_def put_work_def work_swap_def decodeGZIP_expanded_def work_release_def work_keep_def
      Let_def split: sum.splits option.splits if_splits)

lemma frame_run_ok: "frame_ok (frame_run m xs) \<and> if_max (fs_budget (frame_run m xs)) = if_max (newInboundFrameBudget m)"
proof -
  have "frame_ok y \<Longrightarrow> frame_ok (fold frame_step xs y) \<and> if_max (fs_budget (fold frame_step xs y)) = if_max (fs_budget y)" for y
    by (induction xs arbitrary: y) (simp_all add: frame_step_ok frame_step_max)
  moreover have "frame_ok \<lparr>fs_budget = newInboundFrameBudget m, fs_conns = [], fs_works = [], fs_panicked = False\<rparr>"
    by (simp add: frame_ok_def frame_total_def newInboundFrameBudget_def defaultInboundFrameGlobalMaxBytes_def)
  ultimately show ?thesis by (simp add: frame_run_def)
qed

text \<open>
  C40: Inbound frame memory is accounted exactly. Under every interleaving of the connections' loads,
  compare-and-swaps, shrinks, releases and closes and of the reservations, shrinks and releases of gzip
  expansions and container descriptors, the counter equals the bytes that the connections hold plus those
  they are about to return plus the bytes the expansions and containers hold; it never exceeds the limit,
  no release drives it below zero, which would panic, and when no connection holds or owes anything and no
  expansion or container is left it is zero.
\<close>

theorem frame_budget_exact:
  assumes "y = frame_run m xs"
  shows "\<not> fs_panicked y \<and>
    if_used (fs_budget y) =
      (\<Sum>c\<leftarrow>fs_conns y. fc_held c + sum_list (fc_owed c)) + (\<Sum>w\<leftarrow>fs_works y. wk_reserved w) \<and>
    if_used (fs_budget y) \<le> if_max (newInboundFrameBudget m) \<and>
    (list_all (\<lambda>c. fc_held c = 0 \<and> fc_owed c = []) (fs_conns y) \<longrightarrow> list_all (\<lambda>w. wk_reserved w = 0) (fs_works y) \<longrightarrow>
       if_used (fs_budget y) = 0)"
proof -
  have ok: "frame_ok y" and m: "if_max (fs_budget y) = if_max (newInboundFrameBudget m)"
    using assms frame_run_ok by simp_all
  have u: "if_used (fs_budget y) =
      (\<Sum>c\<leftarrow>fs_conns y. fc_held c + sum_list (fc_owed c)) + (\<Sum>w\<leftarrow>fs_works y. wk_reserved w)"
    using ok by (simp add: frame_ok_def frame_total_def conn_bytes_def[abs_def])
  have "(\<Sum>c\<leftarrow>fs_conns y. fc_held c + sum_list (fc_owed c)) = 0"
    if "list_all (\<lambda>c. fc_held c = 0 \<and> fc_owed c = []) (fs_conns y)"
    using that by (induction "fs_conns y" rule: list.induct) (auto simp: list_all_iff sum_list_0 cong: map_cong)
  moreover have "(\<Sum>w\<leftarrow>fs_works y. wk_reserved w) = 0" if "list_all (\<lambda>w. wk_reserved w = 0) (fs_works y)"
    using that by (simp add: list_all_iff cong: map_cong)
  moreover have "\<not> fs_panicked y" "if_used (fs_budget y) \<le> if_max (newInboundFrameBudget m)"
    using ok m by (simp_all add: frame_ok_def)
  ultimately show ?thesis using u by simp
qed

text \<open>
  Two connections race for a budget of 1000 bytes: the second swap fails and its retry finds no room.
  Then one message is expanded to 50 of the 200 bytes reserved for it, and a container of two messages is
  decoded and dropped.
\<close>

definition frame_race :: "frame_event list" where
  "frame_race = [Connect, Connect, Reserve 0 300 300, Reserve 1 400 200, Swap 1, Swap 0, Retain 1 100, PayBack 1 0,
     Gunzip 200, SwapWork 0, Expanded 0 (Some 50), Container 2, SwapWork 1, DropWork 1]"

theorem frame_budget_exact_witness:
  "if_used (fs_budget (frame_run 1000 frame_race)) = 150 \<and> \<not> fs_panicked (frame_run 1000 frame_race)"
proof -
  have "fs_conns (frame_run 1000 frame_race) = [new_conn, new_conn\<lparr>fc_held := 100\<rparr>]"
    "map wk_reserved (fs_works (frame_run 1000 frame_race)) = [50, 0]"
    by (simp_all add: frame_run_def frame_race_def newInboundFrameBudget_def reserveInboundFrame_def grow_start_def
        grow_target_def grow_load_def grow_fits_def grow_swap_def frame_cas_def put_conn_def retainInboundFrameBytes_def
        pay_back_def frame_release_def locked_def new_conn_def Let_def busy_def decodeGZIP_reserve_def
        maxSingleGZIPExpandedBytes_def decodeContainer_reserve_def maxContainerMessages_def containerDescriptorBudgetBytes_def
        work_reserve_def work_load_def put_work_def work_swap_def decodeGZIP_expanded_def work_release_def work_keep_def)
  then show ?thesis using frame_budget_exact[OF refl, of 1000 frame_race] by (simp add: new_conn_def)
qed

end
