(* ===== verification/Spec2Isabelle.thy ===== *)
theory Spec2Isabelle
  imports Update_Service Ledger_Properties Secret_Properties Phone_Properties Privacy_Properties
    Dialog_Properties Flight_Examples Message_Examples Stars_Properties Sign_In_Properties Bulk_Admission
    Edge_Properties
begin

text \<open>
  Verification of the core of ShuzaGram, a server for the Telegram protocol written in Go. The server
  takes encrypted MTProto connections (\<open>internal/mtprotoedge\<close>), dispatches the requests to
  handlers (\<open>internal/rpc\<close>), which call application services (\<open>internal/app\<close>) over domain values
  (\<open>internal/domain\<close>) and stores with two implementations, in memory (\<open>internal/store/memory\<close>) and
  in PostgreSQL and Redis. The development models the services and stores where the server's own
  logic is, and the parts of the edge that decide whether a request runs.

  Conventions. A Go struct is a record, an enum a datatype, a method one function of the state that
  returns the new state; errors are \<open>Inl\<close> values. A critical section of a mutex is one step; where
  the code takes its locks more than once in a request, the request is several steps, and the
  properties quantify over their interleavings. Clock readings, random draws, failures of other
  processes and the iteration order of Go maps are arguments. \<open>int\<close> and \<open>int64\<close> are unbounded
  integers except where the width is part of the behaviour (random ids, admission sequences, the
  cache epoch, hashes, bytes), which are words, and where an addition can really wrap: \<open>i64\<close> marks the
  additions of the Stars ledger, the wrapping variants \<open>MaxContiguousPts64\<close> of the pts scan and
  \<open>storeLocked64\<close> of the cache are proved equal to the unbounded ones below a stated bound, and the
  counter of an execution gate is an \<open>int32\<close>. \<open>SG_Prelude\<close> has these conventions and the lemmas that
  the components share. Where a method takes its mutex several times and is still one function, the
  theory says so.

  Account updates: \<open>Update_Events\<close>, \<open>Update_Store\<close>, \<open>Update_Service\<close>
  (\<open>internal/domain/update_event.go\<close>, \<open>internal/store/memory/updates.go\<close>,
  \<open>internal/app/updates/service.go\<close>). Every change to an account is an event with a pts; devices
  ask for the difference since the pts they know. Shown: the log is contiguous, a recorded event gets
  the next pts, a published message is recorded once, a difference has no holes and repeating it
  brings a device up to date, the log is append-only, delivery commits converge in any order, and the
  scan for the contiguous pts terminates while no start of an event wraps (\<open>MaxContiguousPts64_cycle\<close> is
  the content on which it does not). The fuel of that scan is the length of the log, and each
  round consumes an event; the fuel of the polling device is the number of events it has to fetch.

  RPC execution: \<open>Rpc_Budget\<close>, \<open>Rpc_Ledger\<close>, \<open>Ledger_Properties\<close> (\<open>internal/mtprotoedge\<close>:
  \<open>rpc_execution_ledger.go\<close>, \<open>rpc_flight.go\<close>, \<open>rpc_execution_budget.go\<close>,
  \<open>rpc_result_subscriber_budget.go\<close>, \<open>rpc_admission_tracker.go\<close>). The ledger gives a request to one
  executor, lets retransmissions wait for its result and keeps receipts for replay. Shown: counters
  equal the rows they stand for and no release panics, one owner per request key, no second execution
  before a receipt expires, acknowledgements before completion are kept, completion notifies every
  subscriber, and a stale lease changes nothing. The locale \<open>bounded_counter\<close> of \<open>Rpc_Budget\<close> is
  the contract of a counter with a limit.

  Bulk requests: \<open>Bulk_Scheduler\<close>, \<open>Bulk_Properties\<close>, \<open>Bulk_Admission\<close> (\<open>bulk_rpc_scheduler.go\<close>, the credit
  window in \<open>outbound.go\<close>, the gate in \<open>inbound_rpc.go\<close>, created in \<open>layer_rpc_execution.go\<close> with the dependencies that have failed already). File downloads wait for a credit of their session
  and then for a slot of the server. Shown: the queue of leases refines a list of live leases of which the
  first ones are granted, callbacks are made once, and under every interleaving released requests give
  their slots back, and a gate, whose count of dependencies fits its \<open>int32\<close>, cannot panic and reports
  success exactly if no dependency failed, before or after its creation.

  Edge admission: \<open>Edge_Admission\<close>, \<open>Edge_Properties\<close> (\<open>admission.go\<close>, \<open>frame_budget.go\<close>,
  \<open>transport_compat.go\<close>, and the gzip expansions and container descriptors of \<open>encrypted.go\<close>, which are the
  other clients of the frame budget). Shown: connections, handshakes and the bytes of frames, expansions
  and descriptors are counted exactly and within their limits, whatever the interleaving of loads,
  compare-and-swaps and releases. The frame budget is
  another instance of \<open>bounded_counter\<close>.

  Secret chats: \<open>Secret_Chat\<close>, \<open>Secret_Properties\<close> (\<open>internal/domain/secretchat.go\<close>,
  \<open>internal/store/memory/secretchat.go\<close>, \<open>internal/app/secretchat\<close>). The handshake of an encrypted chat and the
  queue of each device. Shown: a chat is accepted by one device at most, states only advance, queues
  number messages without gaps and a resent message is queued once, a polling device gets every
  message, revoking a device discards its chats, accepted Diffie-Hellman values are canonical.

  Phone calls: \<open>Phone_Call\<close>, \<open>Phone_Properties\<close> (\<open>internal/domain/phone.go\<close>, \<open>internal/app/phone\<close>).
  The call registry and signalling. Shown: calls follow their life cycle and tombstones last for the
  retention time, a confirmed call reveals the committed key, the indexes and counts of the registry
  are exact, a retried request is answered with the call there is, expiry discards exactly the overdue
  calls, signalling stays within its rate, negotiation only picks common versions. A call id is found
  within the 32 draws the code allows or the request fails.

  Privacy: \<open>Privacy_Rules\<close>, \<open>Contact_Writes\<close>, \<open>Privacy_Properties\<close> (\<open>internal/domain/privacy.go\<close>,
  \<open>privacy_evaluate.go\<close>, \<open>internal/store/memory/privacy.go\<close>, \<open>contacts.go\<close>, \<open>internal/app/privacy\<close>).
  \<open>Contact_Writes\<close> has the writes of contact tables and the tables that they can reach; in those the two
  close-friend flags of a contact agree, which the batch queries rely on (\<open>close_friend_flags_diverge\<close>
  is a table where they do not). Shown: on reachable tables the batch and matrix
  queries answer as the single query does, adding a user to the allow list changes the answer for that
  user only, stored rules are read back.

  Read-model cache: \<open>Readmodel_Cache\<close>, \<open>Cache_Wrap\<close>, \<open>Cache_Spec\<close>, \<open>Cache_Flights\<close>, \<open>Flight_Properties\<close>,
  \<open>Flight_Examples\<close> (\<open>internal/readmodelcache/cache.go\<close>), the one cache behind the server's read paths. Shown: the
  linked structure refines an abstract LRU table and keeps its bounds, for limits below 2^62 also with the
  weights added as \<open>int64\<close> (\<open>storeLocked64_overflows\<close> shows why a bound is needed); under every interleaving of
  loads, writes and invalidations no stale value stays in the cache; batch reads and reads that load
  for themselves return nothing older than their start; every pending batch flight has one owner.
  \<open>stale_join\<close> is the run in which \<open>GetOrLoad\<close> does return an older value, through a shared execution.
  The locale \<open>guarded_table\<close> is what the concurrent proofs need of the table, \<open>cache_client\<close> the
  contract of the callbacks of a client.

  Dialog list snapshots: \<open>Dialog_Snapshot\<close>, \<open>Dialog_Properties\<close>
  (\<open>internal/app/dialogs/list_snapshot_cache.go\<close>, \<open>internal/app/readmodel/hash.go\<close>), a client of the read-model cache.
  Its index has a mutex of its own: a flush resets the index after it has emptied the cache, and an
  invalidation reads the index before it goes to the cache; other calls come in between.
  Shown: while no flush is between its two steps, invalidating a channel removes exactly the snapshots
  that show it, and paging through a snapshot returns each dialog once. \<open>invalidate_channel_misses_load\<close> shows what
  it does not cover: a snapshot that is being loaded, and \<open>flush_race_demo\<close> one that was stored between
  the steps of a flush. The number of pages requested is bounded by the
  number of dialogs plus one.

  Private messages: \<open>Go_Text\<close>, \<open>Message_Domain\<close>, \<open>Message_Store\<close>, \<open>Message_History\<close>,
  \<open>Message_Invariants\<close>, \<open>Message_Steps\<close>, \<open>Message_Runs\<close>, \<open>Message_Properties\<close>, \<open>Message_Deletion\<close>,
  \<open>Message_Pages\<close>, \<open>Message_Dialogs\<close>, \<open>Message_Dialog_Runs\<close>, \<open>Message_Examples\<close> (\<open>internal/domain/message.go\<close> and its neighbours,
  \<open>internal/store/private_send_idempotency.go\<close>, \<open>internal/store/memory/message_*.go\<close>). The store has a box of
  messages per account, the receipts of idempotent sends, the read marks and the dialogs, and writes to
  the event log of \<open>Update_Store\<close>. The operations are functions of the whole store; \<open>msg_run\<close> is a
  sequence of them. The relation \<open>box_step\<close> is the abstract machine of boxes and receipts that every
  operation refines (\<open>op_steps\<close>), and the locale \<open>box_invariant\<close> carries an invariant of its steps to all
  runs. Shown: a resent message is answered as the first send and changes nothing, a random id is never
  reused for another message, the two copies of a message stay paired and agree under edits, deletion
  removes exactly what is addressed and cannot panic, a page of a history is one window of the
  filtered box for all three directions of loading, and the dialogs show the newest message and the exact
  unread count of every peer. JSON and SHA-256 are the parameter \<open>json_codec\<close> with
  the hypothesis \<open>json_codec_ok\<close>: digests have 32 bytes and decoding returns the ids encoded. Two runs
  show what is not true: \<open>anchor_loses_receipt\<close> and \<open>edit_leaves_hole\<close>.

  Stars: \<open>Go_Codec\<close>, \<open>Stars_Ledger\<close>, \<open>Stars_Properties\<close> (\<open>internal/domain/stars.go\<close>,
  \<open>internal/store/memory/stars.go\<close>, \<open>internal/app/stars\<close>). The ledger of the in-app currency: balances, the
  starting grant, credits and debits, pages of transactions, purchase forms. \<open>Go_Codec\<close> has the decimal
  and base64 conversions of the standard library that page cursors use. Shown: stored values are well
  typed and ids are unique, a balance is the sum of its transactions and not negative while credits stay
  below 2^63 (\<open>credit_wraps\<close> is the run in which it does become negative), the grant is given once,
  cursors are read back, a client that follows the offsets gets every transaction once, and a valid
  giveaway pays out exactly what was bought. The fuel of \<open>stars_walk\<close> is one more than the number of
  transactions, because every page but the last has one.

  Verification codes: \<open>Login_Code\<close>, \<open>Login_Properties\<close> (\<open>internal/store/code.go\<close>,
  \<open>internal/store/memory/auth.go\<close>, \<open>login_code.go\<close>, \<open>code_cas.go\<close>). Codes with expiry, attempt limit, scope
  and revision. Shown: whatever calls interleave, a code is accepted once, claimed once and compared with
  no more wrong guesses than its limit leaves, or one, and one for every comparison whose revision draw
  fails, which the code does not charge; the right code is accepted before its expiry; a scope has one
  code.

  Auth keys: \<open>Auth_Keys\<close>, \<open>Auth_Properties\<close> (\<open>internal/store/authkey.go\<close>,
  \<open>authkey_session_layer.go\<close>, \<open>internal/store/memory/auth.go\<close>, \<open>authkey_session_layer.go\<close>). Permanent and
  temporary keys, their bindings, the protocol layer seen on a session and the authorization of a user
  on a key. Shown: bindings join a temporary to a permanent key that exists, authorizations are on
  permanent keys and mirror their layer, and a temporary key keeps its identity until it is deleted.

  Signing in: \<open>Login_Service\<close>, \<open>Sign_In_Properties\<close> (\<open>internal/app/auth/service.go\<close>) over the two stores.
  A request touches the stores several times; \<open>login_env\<close> has what it reads from the other stores and
  what other requests do to the two stores between its accesses. Shown: a code signs in the account that
  owned the phone before and after the check and for which it was issued, an account with a password is
  not signed in before the password check, and a sign-up succeeds only with a record that a call with the
  correct code has marked, and once.

  Not modelled. The PostgreSQL and Redis stores are SQL and network protocols around the same
  interfaces as the memory stores; \<open>sqlcgen\<close> is generated. The MTProto transport, its cryptography
  and the outbound encoder are byte formats of a library outside the repository. The handlers of
  \<open>internal/rpc\<close> convert between generated TL types and domain values. The administration console, the
  bot API, web pages, seeds, fetchers and load tools are tooling around the core. Of private messages,
  reactions, polls, \<open>ReadMessageContents\<close> and the lookups by id are left out. Of signing in, the issuing
  and delivery of codes, e-mail, bot, passkey and QR logins and the cryptographic check of a temporary
  key are left out. The services of channels, stories, gifts, files, bots and moderation have state of
  their own; the next candidates are the reactions of messages, channel updates, the sparse projection
  of privacy and its caches.
\<close>

end
